(* ===== verification/Prelude.thy ===== *)
theory Prelude
  imports Main "HOL-Library.AList"
begin

text \<open>
  What every component shares: the JavaScript containers the server keeps its state in
  (insertion-ordered maps and sets, arrays with \<open>indexOf\<close> and \<open>splice\<close>), numbers that may
  be NaN, running a list of operations that emit effects, and reachability with the locale
  that lifts a one-step invariant to every reachable state.
\<close>

section \<open>Insertion-ordered maps and sets\<close>

text \<open>
  A JavaScript \<open>Map\<close> iterates its keys in the order of their first insertion; setting a
  present key keeps its place. That is an association list under \<open>AList.update\<close> and
  \<open>AList.delete\<close>. A \<open>Set\<close> is a list without repetition.
\<close>

type_synonym ('k, 'v) jsmap = "('k \<times> 'v) list"
type_synonym 'a jsset = "'a list"

abbreviation js_get :: "('k, 'v) jsmap \<Rightarrow> 'k \<Rightarrow> 'v option" where
  "js_get m k \<equiv> map_of m k"

abbreviation js_set :: "'k \<Rightarrow> 'v \<Rightarrow> ('k, 'v) jsmap \<Rightarrow> ('k, 'v) jsmap" where
  "js_set k v m \<equiv> AList.update k v m"

abbreviation js_delete :: "'k \<Rightarrow> ('k, 'v) jsmap \<Rightarrow> ('k, 'v) jsmap" where
  "js_delete k m \<equiv> AList.delete k m"

abbreviation js_keys :: "('k, 'v) jsmap \<Rightarrow> 'k list" where
  "js_keys m \<equiv> map fst m"

definition js_has :: "('k, 'v) jsmap \<Rightarrow> 'k \<Rightarrow> bool" where
  "js_has m k \<longleftrightarrow> js_get m k \<noteq> None"

definition set_add :: "'a \<Rightarrow> 'a jsset \<Rightarrow> 'a jsset" where
  "set_add x xs = (if x \<in> set xs then xs else xs @ [x])"

abbreviation set_delete :: "'a \<Rightarrow> 'a jsset \<Rightarrow> 'a jsset" where
  "set_delete x xs \<equiv> removeAll x xs"

named_theorems js_simps \<open>equations of the JavaScript containers\<close>

lemma js_get_set [js_simps]: "js_get (js_set k v m) k' = (if k' = k then Some v else js_get m k')"
  by (simp add: update_conv')

lemma js_get_delete [js_simps]: "js_get (js_delete k m) k' = (if k' = k then None else js_get m k')"
  by (simp add: delete_conv')

lemma js_has_set [js_simps]: "js_has (js_set k v m) k' \<longleftrightarrow> k' = k \<or> js_has m k'"
  by (simp add: js_has_def js_get_set)

lemma js_has_delete [js_simps]: "js_has (js_delete k m) k' \<longleftrightarrow> k' \<noteq> k \<and> js_has m k'"
  by (simp add: js_has_def js_get_delete)

lemma js_has_keys: "js_has m k \<longleftrightarrow> k \<in> set (js_keys m)"
  by (simp add: js_has_def map_of_eq_None_iff)

lemma js_keys_set [js_simps]: "set (js_keys (js_set k v m)) = insert k (set (js_keys m))"
  using dom_update [of k v m] by (simp add: dom_map_of_conv_image_fst)

lemma js_keys_delete [js_simps]: "set (js_keys (js_delete k m)) = set (js_keys m) - {k}"
  using delete_keys [of k m] by auto

lemma distinct_js_set [simp, intro]: "distinct (js_keys m) \<Longrightarrow> distinct (js_keys (js_set k v m))"
  by (rule distinct_update)

lemma distinct_js_delete [simp, intro]: "distinct (js_keys m) \<Longrightarrow> distinct (js_keys (js_delete k m))"
  by (rule distinct_delete)

lemma js_delete_absent: "js_get m k = None \<Longrightarrow> js_delete k m = m"
  by (simp add: map_of_eq_None_iff)

lemma js_set_absent: "js_get m k = None \<Longrightarrow> js_set k v m = m @ [(k, v)]"
  by (induction m) (auto split: if_splits)

lemma js_set_keys_present: "js_get m k \<noteq> None \<Longrightarrow> js_keys (js_set k v m) = js_keys m"
  by (induction m) (auto split: if_splits)

lemma set_set_add [js_simps]: "set (set_add x xs) = insert x (set xs)"
  by (auto simp: set_add_def)

lemma distinct_set_add [simp, intro]: "distinct xs \<Longrightarrow> distinct (set_add x xs)"
  by (simp add: set_add_def)

lemma set_add_nonempty [simp]: "set_add x xs \<noteq> []"
  by (auto simp: set_add_def)

lemma length_set_delete: "distinct xs \<Longrightarrow> x \<in> set xs \<Longrightarrow> Suc (length (set_delete x xs)) = length xs"
  by (induction xs) auto

lemma length_set_add: "x \<notin> set xs \<Longrightarrow> length (set_add x xs) = Suc (length xs)"
  by (simp add: set_add_def)

lemma set_delete_empty_iff: "set_delete x xs = [] \<longleftrightarrow> set xs \<subseteq> {x}"
  by (induction xs) auto

section \<open>Arrays\<close>

text \<open>\<open>xs.indexOf(x)\<close>: the first index, or -1.\<close>

fun js_indexOf :: "'a list \<Rightarrow> 'a \<Rightarrow> int" where
  "js_indexOf [] x = -1"
| "js_indexOf (y # ys) x =
     (if y = x then 0 else let i = js_indexOf ys x in if i = -1 then -1 else i + 1)"

text \<open>
  \<open>xs.splice(start, 1)\<close> on the array, the elements that stay: a negative start counts from the
  end (and stops at 0), a start beyond the end removes nothing.
\<close>

definition js_splice1 :: "int \<Rightarrow> 'a list \<Rightarrow> 'a list" where
  "js_splice1 start xs =
     (let n = int (length xs);
          s = (if start < 0 then max (n + start) 0 else min start n)
      in take (nat s) xs @ drop (Suc (nat s)) xs)"

lemma js_indexOf_bounds: "-1 \<le> js_indexOf xs x \<and> js_indexOf xs x < int (length xs)"
  by (induction xs) (auto simp: Let_def)

lemma js_indexOf_none: "js_indexOf xs x = -1 \<longleftrightarrow> x \<notin> set xs"
proof (induction xs)
  case (Cons y ys)
  have "-1 \<le> js_indexOf ys x" using js_indexOf_bounds [of ys x] by simp
  then show ?case using Cons by (auto simp: Let_def)
qed simp

lemma js_splice1_minus1: "js_splice1 (-1) xs = butlast xs"
  by (cases xs rule: rev_cases) (auto simp: js_splice1_def Let_def)

lemma js_splice1_cons: "0 < i \<Longrightarrow> js_splice1 i (y # ys) = y # js_splice1 (i - 1) ys"
proof -
  assume "0 < i"
  then obtain k where "i = int (Suc k)"
    by (metis Suc_pred' zero_less_imp_eq_int)
  moreover have "nat (1 + int k) = Suc k" by simp
  ultimately show ?thesis
    by (simp add: js_splice1_def Let_def min_def)
qed

lemma js_splice1_indexOf: "x \<in> set xs \<Longrightarrow> js_splice1 (js_indexOf xs x) xs = remove1 x xs"
proof (induction xs)
  case (Cons y ys)
  show ?case
  proof (cases "y = x")
    case True
    then show ?thesis by (simp add: js_splice1_def)
  next
    case False
    with Cons.prems have x: "x \<in> set ys" by simp
    then have "js_indexOf ys x \<noteq> -1" by (simp add: js_indexOf_none)
    moreover from this have "0 \<le> js_indexOf ys x"
      using js_indexOf_bounds [of ys x] by linarith
    ultimately show ?thesis
      using False Cons.IH [OF x] by (simp add: Let_def js_splice1_cons)
  qed
qed simp

section \<open>Counters that may be NaN\<close>

text \<open>
  The registries count with JavaScript numbers read from maps: an absent entry is
  \<open>undefined\<close>, and arithmetic on it is NaN, which every comparison rejects and which is falsy.
\<close>

datatype jsnum = JsNum int | JsNaN

fun js_minus1 :: "jsnum option \<Rightarrow> jsnum" where
  "js_minus1 (Some (JsNum n)) = JsNum (n - 1)"
| "js_minus1 _ = JsNaN"

fun js_plus1 :: "jsnum option \<Rightarrow> jsnum" where
  "js_plus1 (Some (JsNum n)) = JsNum (n + 1)"
| "js_plus1 _ = JsNaN"

fun js_truthy_num :: "jsnum option \<Rightarrow> bool" where
  "js_truthy_num (Some (JsNum n)) = (n \<noteq> 0)"
| "js_truthy_num _ = False"

section \<open>Running a list of operations\<close>

text \<open>
  An operation takes the state to the new state and the effects it has, in order. \<open>run\<close> folds a
  list of them.
\<close>

fun run :: "('s \<Rightarrow> 'o \<Rightarrow> 's \<times> 'e list) \<Rightarrow> 's \<Rightarrow> 'o list \<Rightarrow> 's \<times> 'e list" where
  "run f s [] = (s, [])"
| "run f s (x # xs) =
     (let (s1, e1) = f s x; (s2, e2) = run f s1 xs in (s2, e1 @ e2))"

lemma run_append:
  "run f s (xs @ ys) = (let (s1, e1) = run f s xs; (s2, e2) = run f s1 ys in (s2, e1 @ e2))"
  by (induction xs arbitrary: s) (auto simp: Let_def split: prod.splits)

lemma run_invariant:
  assumes step: "\<And>s x. I s \<Longrightarrow> x \<in> set xs \<Longrightarrow> I (fst (f s x))"
    and init: "I s"
  shows "I (fst (run f s xs))"
  using step init
proof (induction xs arbitrary: s)
  case (Cons x xs)
  from Cons.prems have "I (fst (f s x))" by simp
  then have "I (fst (run f (fst (f s x)) xs))"
    using Cons.prems(1) by (intro Cons.IH) auto
  then show ?case by (simp add: Let_def split_beta)
qed simp

text \<open>A quantity that each operation moves by a known amount moves by the sum over the run.\<close>

lemma run_sum:
  fixes m :: "'s \<Rightarrow> int"
  assumes step: "\<And>s x. I s \<Longrightarrow> x \<in> set xs \<Longrightarrow> I (fst (f s x)) \<and> m (fst (f s x)) = m s + d x"
    and init: "I s"
  shows "m (fst (run f s xs)) = m s + sum_list (map d xs)"
  using step init
proof (induction xs arbitrary: s)
  case (Cons x xs)
  from Cons.prems have I: "I (fst (f s x))" and m: "m (fst (f s x)) = m s + d x" by simp_all
  have "m (fst (run f (fst (f s x)) xs)) = m (fst (f s x)) + sum_list (map d xs)"
    using Cons.prems(1) I by (intro Cons.IH) auto
  with m show ?case by (simp add: Let_def split_beta)
qed simp

section \<open>Reachable states and invariants\<close>

inductive reach :: "('s \<Rightarrow> bool) \<Rightarrow> ('s \<Rightarrow> 's \<Rightarrow> bool) \<Rightarrow> 's \<Rightarrow> bool"
  for init :: "'s \<Rightarrow> bool" and step :: "'s \<Rightarrow> 's \<Rightarrow> bool" where
  reach_init: "init s \<Longrightarrow> reach init step s"
| reach_step: "reach init step s \<Longrightarrow> step s t \<Longrightarrow> reach init step t"

locale invariant_system =
  fixes init :: "'s \<Rightarrow> bool"
    and step :: "'s \<Rightarrow> 's \<Rightarrow> bool"
    and inv :: "'s \<Rightarrow> bool"
  assumes inv_init: "init s \<Longrightarrow> inv s"
    and inv_step: "inv s \<Longrightarrow> step s t \<Longrightarrow> inv t"
begin

lemma reach_inv: "reach init step s \<Longrightarrow> inv s"
  by (induction rule: reach.induct) (auto intro: inv_init inv_step)

lemma reach_path_inv: "inv s \<Longrightarrow> step\<^sup>*\<^sup>* s t \<Longrightarrow> inv t"
  by (rotate_tac, induction rule: rtranclp_induct) (auto intro: inv_step)

end

end
