(* ===== verification/Messages.thy ===== *)
theory Messages
  imports Prelude
begin

text \<open>
  The vocabulary of the server: topics and actions, JSON values, messages and the effects every
  component has on the outside (messages to client sockets and to the cluster). The enums are
  declared by the protocol package; the constructors here are the ones the source names, the
  client-facing ones in the table of
  \<open>src/connection-endpoint/websocket/text/text-protocol/constants.ts\<close>.
\<close>

section \<open>Topics and actions\<close>

datatype topic =
    T_PARSER | T_CONNECTION | T_AUTH | T_ERROR | T_EVENT | T_RECORD | T_RPC | T_PRESENCE
  | T_MONITORING | T_STATE_REGISTRY | T_LOCK | T_CLUSTER
  | T_RECORD_LISTEN_PATTERNS | T_EVENT_LISTEN_PATTERNS | T_RECORD_LISTENING | T_EVENT_LISTENING

datatype record_action =
    RA_ERROR | RA_CREATE | RA_READ | RA_READ_RESPONSE | RA_HEAD | RA_HEAD_RESPONSE
  | RA_HEAD_RESPONSE_BULK | RA_CREATEANDUPDATE | RA_CREATEANDPATCH | RA_UPDATE | RA_PATCH
  | RA_ERASE | RA_WRITE_ACKNOWLEDGEMENT | RA_DELETE | RA_DELETE_SUCCESS | RA_DELETED
  | RA_LISTEN_RESPONSE_TIMEOUT | RA_SUBSCRIBEANDHEAD | RA_SUBSCRIBEANDREAD
  | RA_SUBSCRIBECREATEANDREAD | RA_SUBSCRIBECREATEANDUPDATE | RA_SUBSCRIBE | RA_UNSUBSCRIBE
  | RA_LISTEN | RA_UNLISTEN | RA_LISTEN_ACCEPT | RA_LISTEN_REJECT | RA_LISTEN_UNSUCCESSFUL
  | RA_INVALID_LISTEN_REGEX | RA_SUBSCRIPTION_HAS_PROVIDER | RA_SUBSCRIPTION_HAS_NO_PROVIDER
  | RA_SUBSCRIPTION_FOR_PATTERN_FOUND | RA_SUBSCRIPTION_FOR_PATTERN_REMOVED
  | RA_CACHE_RETRIEVAL_TIMEOUT | RA_STORAGE_RETRIEVAL_TIMEOUT | RA_VERSION_EXISTS
  | RA_RECORD_LOAD_ERROR | RA_RECORD_CREATE_ERROR | RA_RECORD_UPDATE_ERROR
  | RA_RECORD_DELETE_ERROR | RA_RECORD_NOT_FOUND | RA_INVALID_VERSION
  | RA_INVALID_PATCH_ON_HOTPATH | RA_MESSAGE_PERMISSION_ERROR | RA_MESSAGE_DENIED
  | RA_INVALID_MESSAGE_DATA | RA_MULTIPLE_SUBSCRIPTIONS | RA_NOT_SUBSCRIBED
  | RA_NOTIFY | RA_RECORD_NOTIFY_ERROR

datatype event_action =
    EA_ERROR | EA_EMIT | EA_SUBSCRIBE | EA_UNSUBSCRIBE | EA_LISTEN | EA_UNLISTEN
  | EA_LISTEN_ACCEPT | EA_LISTEN_REJECT | EA_LISTEN_UNSUCCESSFUL | EA_LISTEN_RESPONSE_TIMEOUT
  | EA_INVALID_LISTEN_REGEX | EA_SUBSCRIPTION_FOR_PATTERN_FOUND
  | EA_SUBSCRIPTION_FOR_PATTERN_REMOVED | EA_MESSAGE_PERMISSION_ERROR | EA_MESSAGE_DENIED
  | EA_INVALID_MESSAGE_DATA | EA_MULTIPLE_SUBSCRIPTIONS | EA_NOT_SUBSCRIBED

datatype rpc_action =
    PA_ERROR | PA_REQUEST | PA_ACCEPT | PA_RESPONSE | PA_REJECT | PA_REQUEST_ERROR | PA_PROVIDE
  | PA_UNPROVIDE | PA_NO_RPC_PROVIDER | PA_RESPONSE_TIMEOUT | PA_ACCEPT_TIMEOUT
  | PA_MULTIPLE_ACCEPT | PA_MULTIPLE_RESPONSE | PA_INVALID_RPC_CORRELATION_ID
  | PA_MESSAGE_PERMISSION_ERROR | PA_MESSAGE_DENIED | PA_INVALID_MESSAGE_DATA
  | PA_MULTIPLE_PROVIDERS | PA_NOT_PROVIDED

datatype presence_action =
    UA_ERROR | UA_QUERY_ALL | UA_QUERY_ALL_RESPONSE | UA_QUERY | UA_QUERY_RESPONSE
  | UA_PRESENCE_JOIN | UA_PRESENCE_JOIN_ALL | UA_PRESENCE_LEAVE | UA_PRESENCE_LEAVE_ALL
  | UA_SUBSCRIBE | UA_UNSUBSCRIBE | UA_SUBSCRIBE_ALL | UA_UNSUBSCRIBE_ALL
  | UA_INVALID_PRESENCE_USERS | UA_MESSAGE_PERMISSION_ERROR | UA_MESSAGE_DENIED
  | UA_MULTIPLE_SUBSCRIPTIONS | UA_NOT_SUBSCRIBED

datatype connection_action =
    CA_ERROR | CA_PING | CA_PONG | CA_ACCEPT | CA_CHALLENGE | CA_REJECTION | CA_REDIRECT
  | CA_CLOSED | CA_CLOSING | CA_AUTHENTICATION_TIMEOUT | CA_INVALID_MESSAGE

datatype auth_action =
    AA_ERROR | AA_REQUEST | AA_AUTH_SUCCESSFUL | AA_AUTH_UNSUCCESSFUL
  | AA_TOO_MANY_AUTH_ATTEMPTS | AA_INVALID_MESSAGE_DATA | AA_INVALID_MESSAGE

datatype parser_action =
    XA_UNKNOWN_TOPIC | XA_UNKNOWN_ACTION | XA_INVALID_MESSAGE | XA_INVALID_META_PARAMS
  | XA_MESSAGE_PARSE_ERROR | XA_MAXIMUM_MESSAGE_SIZE_EXCEEDED | XA_ERROR

text \<open>An action of a message: the enum of the message's own topic, or \<open>undefined\<close>.\<close>

datatype action =
    UndefinedA | RecordA record_action | EventA event_action | RpcA rpc_action | PresenceA presence_action
  | ConnectionA connection_action | AuthA auth_action | ParserA parser_action

section \<open>JSON values\<close>

text \<open>
  An object and an array are both property tables: an array's elements sit under the decimal
  strings of their indices, which is how JavaScript stores them. Numbers are only copied by the
  code modelled here; integers stand for them. \<open>undefined\<close> is \<open>None\<close> of \<open>json option\<close>.
\<close>

datatype json =
    JNull | JBool bool | JNum int | JStr string
  | JArr "(string \<times> json) list" | JObj "(string \<times> json) list"

fun truthy :: "json option \<Rightarrow> bool" where
  "truthy None = False"
| "truthy (Some JNull) = False"
| "truthy (Some (JBool b)) = b"
| "truthy (Some (JNum n)) = (n \<noteq> 0)"
| "truthy (Some (JStr s)) = (s \<noteq> [])"
| "truthy (Some _) = True"

text \<open>\<open>typeof v === 'object'\<close>: objects, arrays and \<open>null\<close>.\<close>

fun typeof_object :: "json \<Rightarrow> bool" where
  "typeof_object JNull = True"
| "typeof_object (JArr _) = True"
| "typeof_object (JObj _) = True"
| "typeof_object _ = False"

section \<open>Messages\<close>

text \<open>
  A field a message does not carry is \<open>None\<close> (\<open>False\<close> for the flags). A name or a correlation id
  that the code only tests for truth is compared with the empty string where it does.
\<close>

record message =
  m_topic :: topic
  m_action :: action
  m_name :: "string option"
  m_names :: "string list option"
  m_version :: "int option"
  m_path :: "string option"
  m_data :: "string option"
  m_parsed :: "json option"
  m_corr :: "string option"
  m_writeack :: bool
  m_isError :: bool
  m_original :: "action option"
  m_subscription :: "string option"
  m_versions :: "(string \<times> int) list option"

definition msg :: "topic \<Rightarrow> action \<Rightarrow> message" where
  "msg t a = \<lparr>m_topic = t, m_action = a, m_name = None, m_names = None, m_version = None,
     m_path = None, m_data = None, m_parsed = None, m_corr = None, m_writeack = False,
     m_isError = False, m_original = None, m_subscription = None, m_versions = None\<rparr>"

definition nonempty :: "string option \<Rightarrow> bool" where
  "nonempty x \<longleftrightarrow> x \<noteq> None \<and> x \<noteq> Some []"

section \<open>Sockets and effects\<close>

text \<open>A socket wrapper is an object; its identity is a number.\<close>

type_synonym socket = nat

datatype effect =
    SendMessage socket message        \<comment> \<open>\<open>socket.sendMessage(m)\<close>\<close>
  | SendAck socket message            \<comment> \<open>\<open>socket.sendAckMessage(m)\<close>\<close>
  | SendBuilt socket message bool     \<comment> \<open>\<open>socket.sendBuiltMessage(socket.getMessage(m), buffer)\<close>\<close>
  | ClusterSend message               \<comment> \<open>\<open>clusterNode.send(m)\<close>\<close>
  | ClusterDirect string message      \<comment> \<open>\<open>clusterNode.sendDirect(server, m)\<close>\<close>

end
