(* ===== verification/JsonPath.thy ===== *)
theory JsonPath
  imports Messages
begin

text \<open>
  Reading and writing inside a JSON value by a string path (\<open>src/utils/json-path.ts\<close>):
  the tokenizer, \<open>getValue\<close> and \<open>setValue\<close>. The code mutates the root in place; the model returns
  the new root. The conversion \<open>Number(s)\<close> of an array index is the parameter \<open>num\<close>: it gives
  the property name the number stands for. Inherited properties and an array's \<open>length\<close> are not
  in the property tables.
\<close>

section \<open>Property access\<close>

datatype js_error = InvalidDataOrPath | TypeError

fun get_prop :: "json \<Rightarrow> string \<Rightarrow> js_error + json option" where
  "get_prop (JObj ps) k = Inr (js_get ps k)"
| "get_prop (JArr ps) k = Inr (js_get ps k)"
| "get_prop JNull k = Inl TypeError"
| "get_prop _ k = Inr None"

text \<open>Assigning (\<open>Some\<close>) or deleting (\<open>None\<close>) a property; on a primitive strict mode throws.\<close>

fun put_prop :: "json \<Rightarrow> string \<Rightarrow> json option \<Rightarrow> js_error + json" where
  "put_prop (JObj ps) k (Some v) = Inr (JObj (js_set k v ps))"
| "put_prop (JObj ps) k None = Inr (JObj (js_delete k ps))"
| "put_prop (JArr ps) k (Some v) = Inr (JArr (js_set k v ps))"
| "put_prop (JArr ps) k None = Inr (JArr (js_delete k ps))"
| "put_prop _ k v = Inl TypeError"

section \<open>tokenize\<close>

datatype token = TKey string | TIdx string

fun tkey :: "token \<Rightarrow> string" where
  "tkey (TKey s) = s"
| "tkey (TIdx s) = s"

fun js_split :: "(char \<Rightarrow> bool) \<Rightarrow> string \<Rightarrow> string list" where
  "js_split p [] = [[]]"
| "js_split p (c # cs) =
     (if p c then [] # js_split p cs
      else case js_split p cs of [] \<Rightarrow> [[c]] | w # ws \<Rightarrow> (c # w) # ws)"

text \<open>The white space \<open>trim\<close> removes, among one-byte characters.\<close>

definition js_space :: "char \<Rightarrow> bool" where
  "js_space c \<longleftrightarrow> (of_char c :: nat) \<in> {9, 10, 11, 12, 13, 32, 160}"

definition js_trim :: "string \<Rightarrow> string" where
  "js_trim s = rev (dropWhile js_space (rev (dropWhile js_space s)))"

definition tokenize_part :: "(string \<Rightarrow> string) \<Rightarrow> string \<Rightarrow> token list" where
  "tokenize_part num p =
     (let part = js_trim p
      in if part = [] then []
         else case js_split (\<lambda>c. c = CHR ''['' \<or> c = CHR '']'') part of
                [] \<Rightarrow> []
              | k # indexes \<Rightarrow> TKey k # map (\<lambda>s. TIdx (num s)) (filter (\<lambda>s. s \<noteq> []) indexes))"

definition tokenize :: "(string \<Rightarrow> string) \<Rightarrow> string \<Rightarrow> token list" where
  "tokenize num path = concat (map (tokenize_part num) (js_split (\<lambda>c. c = CHR ''.'') path))"

section \<open>getValue and setValue\<close>

fun get_tokens :: "token list \<Rightarrow> json option \<Rightarrow> js_error + json option" where
  "get_tokens [] v = Inr v"
| "get_tokens (t # ts) None = Inr None"
| "get_tokens (t # ts) (Some v) =
     (if \<not> typeof_object v then Inl InvalidDataOrPath
      else case get_prop v (tkey t) of Inl e \<Rightarrow> Inl e | Inr w \<Rightarrow> get_tokens ts w)"

definition getValue :: "(string \<Rightarrow> string) \<Rightarrow> json \<Rightarrow> string \<Rightarrow> js_error + json option" where
  "getValue num d path = get_tokens (tokenize num path) (Some d)"

text \<open>The node a write descends into: the present object, array or null, else a fresh container
  whose kind the next token decides.\<close>

fun child_node :: "json option \<Rightarrow> token \<Rightarrow> json" where
  "child_node (Some c) u = (if typeof_object c then c
     else case u of TIdx _ \<Rightarrow> JArr [] | TKey _ \<Rightarrow> JObj [])"
| "child_node None u = (case u of TIdx _ \<Rightarrow> JArr [] | TKey _ \<Rightarrow> JObj [])"

fun set_tokens :: "token list \<Rightarrow> json option \<Rightarrow> json \<Rightarrow> js_error + json" where
  "set_tokens [] v node = put_prop node ''undefined'' v"
| "set_tokens [t] v node = put_prop node (tkey t) v"
| "set_tokens (t # u # ts) v node =
     (case get_prop node (tkey t) of
        Inl e \<Rightarrow> Inl e
      | Inr c \<Rightarrow>
          (case set_tokens (u # ts) v (child_node c u) of
             Inl e \<Rightarrow> Inl e
           | Inr c' \<Rightarrow> put_prop node (tkey t) (Some c')))"

definition setValue :: "(string \<Rightarrow> string) \<Rightarrow> json \<Rightarrow> string \<Rightarrow> json option \<Rightarrow> js_error + json" where
  "setValue num root path v = set_tokens (tokenize num path) v root"

section \<open>Laws\<close>

fun container :: "json \<Rightarrow> bool" where
  "container (JArr _) = True"
| "container (JObj _) = True"
| "container _ = False"

lemma container_typeof: "container v \<Longrightarrow> typeof_object v"
  by (cases v) auto

lemma js_split_nonempty [simp]: "js_split p s \<noteq> []"
  by (cases s) (auto split: list.splits)

lemma put_prop_get:
  "put_prop v k x = Inr v' \<Longrightarrow> get_prop v' k' = (if k' = k then Inr x else get_prop v k')"
  by (induction v k x rule: put_prop.induct) (auto simp: js_simps)

lemma put_prop_container: "put_prop v k x = Inr v' \<Longrightarrow> container v \<and> container v'"
  by (induction v k x rule: put_prop.induct) auto

lemma put_prop_total: "container v \<Longrightarrow> \<exists>v'. put_prop v k x = Inr v'"
  by (cases v; cases x) auto

lemma get_prop_total: "container v \<Longrightarrow> \<exists>w. get_prop v k = Inr w"
  by (cases v) auto

lemma child_node_cases: "child_node c u = JNull \<or> container (child_node c u)"
  by (cases c) (auto split: token.splits elim: typeof_object.elims)

lemma child_node_null: "child_node c u = JNull \<longleftrightarrow> c = Some JNull"
  by (cases c) (auto split: token.splits elim: typeof_object.elims)

lemma set_tokens_container: "set_tokens ts v d = Inr d' \<Longrightarrow> container d \<and> container d'"
  by (induction ts v d rule: set_tokens.induct)
     (auto dest: put_prop_container split: sum.splits)

lemma set_tokens_null: "set_tokens ts v JNull = Inl TypeError"
  by (induction ts v "JNull" rule: set_tokens.induct) auto

lemma get_after_set:
  "set_tokens ts v d = Inr d' \<Longrightarrow> ts \<noteq> [] \<Longrightarrow> get_tokens ts (Some d') = Inr v"
proof (induction ts v d arbitrary: d' rule: set_tokens.induct)
  case (2 t v node)
  then show ?case
    by (auto simp: put_prop_get dest: put_prop_container container_typeof)
next
  case (3 t u ts v node)
  from "3.prems"(1) obtain c c' where
    c: "get_prop node (tkey t) = Inr c" and
    c': "set_tokens (u # ts) v (child_node c u) = Inr c'" and
    put: "put_prop node (tkey t) (Some c') = Inr d'"
    by (auto split: sum.splits)
  have "get_tokens (u # ts) (Some c') = Inr v"
    using "3.IH" [OF c c'] by simp
  moreover have "typeof_object d'"
    using put_prop_container [OF put] container_typeof by blast
  ultimately show ?case by (simp add: put_prop_get [OF put])
qed simp

text \<open>Two token lists part when they differ at some position below both lengths.\<close>

fun diverge :: "token list \<Rightarrow> token list \<Rightarrow> bool" where
  "diverge (t # ts) (u # us) = (if tkey t = tkey u then diverge ts us else True)"
| "diverge _ _ = False"

lemma child_node_get:
  "get_tokens us c = Inr w \<Longrightarrow> us \<noteq> [] \<Longrightarrow> get_tokens us (Some (child_node c u)) = Inr w"
proof (cases us)
  case (Cons x xs)
  assume "get_tokens us c = Inr w"
  then show ?thesis
    using Cons by (cases c; cases xs) (auto split: token.splits if_splits)
qed simp

lemma get_frame:
  "set_tokens ts v d = Inr d' \<Longrightarrow> diverge ts us \<Longrightarrow> get_tokens us (Some d) = Inr w
    \<Longrightarrow> get_tokens us (Some d') = Inr w"
proof (induction ts v d arbitrary: d' us rule: set_tokens.induct)
  case (2 t v node)
  then obtain x xs where us: "us = x # xs" and neq: "tkey x \<noteq> tkey t"
    by (cases us) (auto split: if_splits)
  from 2 have "typeof_object d'" by (auto dest: put_prop_container container_typeof)
  with 2 us neq show ?case by (auto simp: put_prop_get split: if_splits)
next
  case (3 t u ts v node)
  from "3.prems"(1) obtain c c' where
    c: "get_prop node (tkey t) = Inr c" and
    c': "set_tokens (u # ts) v (child_node c u) = Inr c'" and
    put: "put_prop node (tkey t) (Some c') = Inr d'"
    by (auto split: sum.splits)
  from "3.prems"(2) obtain x xs where us: "us = x # xs" by (cases us) auto
  have obj: "typeof_object d'" "typeof_object node"
    using put_prop_container [OF put] container_typeof by blast+
  show ?case
  proof (cases "tkey x = tkey t")
    case True
    with us "3.prems" have div: "diverge (u # ts) xs" by simp
    then have "xs \<noteq> []" by (cases xs) auto
    moreover from "3.prems"(3) us True c obj have "get_tokens xs c = Inr w" by simp
    ultimately have "get_tokens xs (Some (child_node c u)) = Inr w"
      by (intro child_node_get)
    with "3.IH" [OF c c' div] have "get_tokens xs (Some c') = Inr w" by simp
    with us True obj show ?thesis by (simp add: put_prop_get [OF put])
  next
    case False
    with "3.prems"(3) us obj show ?thesis by (simp add: put_prop_get [OF put])
  qed
qed simp

text \<open>A write throws exactly when a proper prefix of the path holds null.\<close>

fun null_on_path :: "token list \<Rightarrow> json \<Rightarrow> bool" where
  "null_on_path (t # u # ts) d =
     (case get_prop d (tkey t) of
        Inl _ \<Rightarrow> False
      | Inr None \<Rightarrow> False
      | Inr (Some c) \<Rightarrow> c = JNull \<or> null_on_path (u # ts) c)"
| "null_on_path _ d = False"

lemma null_on_path_primitive: "\<not> typeof_object c \<Longrightarrow> \<not> null_on_path ts c"
  by (induction ts c rule: null_on_path.induct) (auto split: sum.splits option.splits elim: get_prop.elims)

lemma null_on_path_fresh: "\<not> null_on_path ts (JArr []) \<and> \<not> null_on_path ts (JObj [])"
  by (cases "(ts, JArr [])" rule: null_on_path.cases) auto

lemma set_tokens_error_iff:
  "container d \<Longrightarrow> (\<exists>e. set_tokens ts v d = Inl e) \<longleftrightarrow> null_on_path ts d"
proof (induction ts v d rule: set_tokens.induct)
  case (1 v node)
  then show ?case using put_prop_total [of node "''undefined''" v] by auto
next
  case (2 t v node)
  then show ?case using put_prop_total [of node "tkey t" v] by auto
next
  case (3 t u ts v node)
  from get_prop_total [OF "3.prems"] obtain c where c: "get_prop node (tkey t) = Inr c" by blast
  have put: "\<exists>d'. put_prop node (tkey t) (Some c') = Inr d'" for c'
    using put_prop_total [OF "3.prems"] by blast
  then have err: "(\<exists>e. set_tokens (t # u # ts) v node = Inl e) \<longleftrightarrow>
      (\<exists>e. set_tokens (u # ts) v (child_node c u) = Inl e)"
    using c by (auto split: sum.splits) (metis Inl_Inr_False)
  show ?case
  proof (cases "c = Some JNull")
    case True
    with c err show ?thesis by (simp add: set_tokens_null)
  next
    case False
    then have con: "container (child_node c u)"
      using child_node_cases [of c u] child_node_null [of c u] by auto
    have "null_on_path (u # ts) (child_node c u) \<longleftrightarrow> null_on_path (t # u # ts) node"
      using c False
      by (cases c) (auto split: token.splits simp: null_on_path_fresh null_on_path_primitive)
    with "3.IH" [OF c con] err show ?thesis by simp
  qed
qed

section \<open>Properties\<close>

text \<open>Reading the path just written gives the written value (\<open>undefined\<close> when the write was a
  delete), for every path that has at least one token.\<close>

theorem setValue_then_getValue:
  assumes "setValue num d path v = Inr d'" and "tokenize num path \<noteq> []"
  shows "getValue num d' path = Inr v"
  using assms unfolding setValue_def getValue_def by (rule get_after_set)

theorem setValue_then_getValue_witness:
  "\<exists>d'. setValue id (JObj []) ''a[2].b'' (Some (JNum 7)) = Inr d' \<and>
        getValue id d' ''a[2].b'' = Inr (Some (JNum 7))"
proof -
  have "setValue id (JObj []) ''a[2].b'' (Some (JNum 7)) =
      Inr (JObj [(''a'', JArr [(''2'', JObj [(''b'', JNum 7)])])])"
    by code_simp
  moreover from this have "getValue id (JObj [(''a'', JArr [(''2'', JObj [(''b'', JNum 7)])])]) ''a[2].b''
      = Inr (Some (JNum 7))"
    by (rule setValue_then_getValue) code_simp
  ultimately show ?thesis by blast
qed

text \<open>A write disturbs no path that parts from it: what such a path read before, it reads after.\<close>

theorem setValue_frame:
  assumes "setValue num d path v = Inr d'"
    and "diverge (tokenize num path) (tokenize num other)"
    and "getValue num d other = Inr w"
  shows "getValue num d' other = Inr w"
  using assms unfolding setValue_def getValue_def by (rule get_frame)

theorem setValue_frame_witness:
  "\<exists>d'. setValue id (JObj [(''x'', JObj [(''z'', JBool True)])]) ''x.y'' (Some JNull) = Inr d' \<and>
        getValue id d' ''x.z'' = Inr (Some (JBool True))"
proof -
  let ?d = "JObj [(''x'', JObj [(''z'', JBool True)])]"
  let ?d' = "JObj [(''x'', JObj [(''z'', JBool True), (''y'', JNull)])]"
  have set: "setValue id ?d ''x.y'' (Some JNull) = Inr ?d'" by code_simp
  have "diverge (tokenize id ''x.y'') (tokenize id ''x.z'')" by code_simp
  moreover have "getValue id ?d ''x.z'' = Inr (Some (JBool True))" by code_simp
  ultimately have "getValue id ?d' ''x.z'' = Inr (Some (JBool True))"
    by (rule setValue_frame [OF set])
  with set show ?thesis by blast
qed

text \<open>On an object or array, \<open>setValue\<close> throws exactly when a proper prefix of the path holds
  \<open>null\<close>: \<open>typeof null\<close> is \<open>'object'\<close>, so the loop descends into it.\<close>

theorem setValue_throws_iff:
  assumes "container d"
  shows "(\<exists>e. setValue num d path v = Inl e) \<longleftrightarrow> null_on_path (tokenize num path) d"
  using assms unfolding setValue_def by (rule set_tokens_error_iff)

theorem setValue_throws_iff_witness:
  "\<exists>e. setValue id (JObj [(''a'', JNull)]) ''a.b'' (Some (JNum 1)) = Inl e"
proof -
  have "null_on_path (tokenize id ''a.b'') (JObj [(''a'', JNull)])" by code_simp
  moreover have "container (JObj [(''a'', JNull)])" by simp
  ultimately show ?thesis using setValue_throws_iff by blast
qed

end
