(* ===== verification/Utils.thy ===== *)
theory Utils
  imports Messages "HOL-Library.Multiset" Complex_Main
begin

text \<open>
  The pure helpers of \<open>src/utils/utils.ts\<close>. A draw of \<open>Math.random()\<close> is a rational parameter in
  \<open>[0, 1)\<close>; what an RFC 3986 parser finds as a host is the parameter \<open>has_host\<close>.
\<close>

section \<open>Prefix exclusion\<close>

definition js_startsWith :: "string \<Rightarrow> string \<Rightarrow> bool" where
  "js_startsWith s p \<longleftrightarrow> take (length p) s = p"

fun any_prefix :: "string list \<Rightarrow> string \<Rightarrow> bool" where
  "any_prefix [] s = False"
| "any_prefix (p # ps) s = (if js_startsWith s p then True else any_prefix ps s)"

definition isExcluded :: "string list option \<Rightarrow> string \<Rightarrow> bool" where
  "isExcluded exclusionPrefixes recordName =
     (case exclusionPrefixes of None \<Rightarrow> False | Some ps \<Rightarrow> any_prefix ps recordName)"

lemma any_prefix_iff: "any_prefix ps s \<longleftrightarrow> (\<exists>p \<in> set ps. js_startsWith s p)"
  by (induction ps) auto

lemma isExcluded_none [simp]: "\<not> isExcluded None s"
  by (simp add: isExcluded_def)

section \<open>Maps and types\<close>

definition reverseMap :: "(string \<times> string) list \<Rightarrow> (string, string) jsmap" where
  "reverseMap m = foldl (\<lambda>r (k, v). js_set v k r) [] m"

fun js_typeof :: "json option \<Rightarrow> string" where
  "js_typeof None = ''undefined''"
| "js_typeof (Some (JBool _)) = ''boolean''"
| "js_typeof (Some (JNum _)) = ''number''"
| "js_typeof (Some (JStr _)) = ''string''"
| "js_typeof (Some _) = ''object''"

fun js_isArray :: "json option \<Rightarrow> bool" where
  "js_isArray (Some (JArr _)) = True"
| "js_isArray _ = False"

definition isOfType :: "(json option \<Rightarrow> bool) \<Rightarrow> json option \<Rightarrow> string \<Rightarrow> bool" where
  "isOfType has_host input expectedType =
     (if input = Some JNull then expectedType = ''null''
      else if expectedType = ''array'' then js_isArray input
      else if expectedType = ''url'' then has_host input
      else js_typeof input = expectedType)"

datatype map_error = MissingKey string | InvalidType string string

datatype validation = Thrown map_error | Returned map_error | Valid

fun first_map_error ::
  "(json option \<Rightarrow> bool) \<Rightarrow> (string, json) jsmap \<Rightarrow> (string \<times> string) list \<Rightarrow> map_error option" where
  "first_map_error h m [] = None"
| "first_map_error h m ((k, t) # rest) =
     (if js_get m k = None then Some (MissingKey k)
      else if \<not> isOfType h (js_get m k) t then Some (InvalidType (js_typeof (js_get m k)) k)
      else first_map_error h m rest)"

definition validateMap ::
  "(json option \<Rightarrow> bool) \<Rightarrow> (string, json) jsmap \<Rightarrow> bool \<Rightarrow> (string \<times> string) list \<Rightarrow> validation" where
  "validateMap h m throwError schema =
     (case first_map_error h m schema of
        Some e \<Rightarrow> if throwError then Thrown e else Returned e
      | None \<Rightarrow> Valid)"

lemma first_map_error_none:
  "first_map_error h m schema = None \<longleftrightarrow>
     (\<forall>(k, t) \<in> set schema. js_get m k \<noteq> None \<and> isOfType h (js_get m k) t)"
  by (induction h m schema rule: first_map_error.induct) auto

text \<open>A map passes validation exactly when every key of the schema is present with a value of
  its type.\<close>

theorem validateMap_valid_iff:
  "validateMap h m throwError schema = Valid \<longleftrightarrow>
     (\<forall>(k, t) \<in> set schema. js_get m k \<noteq> None \<and> isOfType h (js_get m k) t)"
  using first_map_error_none [of h m schema] by (auto simp: validateMap_def split: option.splits)

theorem validateMap_valid_iff_witness:
  "validateMap (\<lambda>_. False) [(''port'', JNum 80)] True [(''port'', ''number'')] = Valid"
  by (subst validateMap_valid_iff) (simp add: isOfType_def)

section \<open>Random choice\<close>

definition getRandomIntInRange :: "rat \<Rightarrow> int \<Rightarrow> int \<Rightarrow> int" where
  "getRandomIntInRange r mn mx = mn + \<lfloor>r * of_int (mx - mn)\<rfloor>"

lemma getRandomIntInRange_bounds:
  assumes r: "0 \<le> r" "r < 1" and "mn < mx"
  shows "mn \<le> getRandomIntInRange r mn mx" and "getRandomIntInRange r mn mx < mx"
proof -
  let ?d = "of_int (mx - mn) :: rat"
  have d: "0 < ?d" using assms by simp
  then have "0 \<le> r * ?d" and "r * ?d < ?d" using r by simp_all
  then have "0 \<le> \<lfloor>r * ?d\<rfloor>" and "\<lfloor>r * ?d\<rfloor> < mx - mn" by (simp_all add: floor_less_iff)
  then show "mn \<le> getRandomIntInRange r mn mx" and "getRandomIntInRange r mn mx < mx"
    by (simp_all add: getRandomIntInRange_def)
qed

lemma getRandomIntInRange_empty: "getRandomIntInRange r mn mn = mn"
  by (simp add: getRandomIntInRange_def)

text \<open>\<open>array.splice(randomIndex, 1)[0]\<close>: the chosen element (\<open>undefined\<close> of an empty array) and the rest.\<close>

definition spliceRandomElement :: "rat \<Rightarrow> 'a list \<Rightarrow> 'a option \<times> 'a list" where
  "spliceRandomElement r xs =
     (let i = nat (getRandomIntInRange r 0 (int (length xs)))
      in (if i < length xs then Some (xs ! i) else None, take i xs @ drop (Suc i) xs))"

lemma spliceRandomElement_mset:
  assumes "0 \<le> r" "r < 1" "xs \<noteq> []"
  shows "\<exists>x ys. spliceRandomElement r xs = (Some x, ys) \<and> mset xs = add_mset x (mset ys)"
proof -
  let ?i = "nat (getRandomIntInRange r 0 (int (length xs)))"
  have "0 \<le> getRandomIntInRange r 0 (int (length xs))"
    and "getRandomIntInRange r 0 (int (length xs)) < int (length xs)"
    using getRandomIntInRange_bounds assms by simp_all
  then have i: "?i < length xs" by linarith
  have "mset xs = mset (take ?i xs @ xs ! ?i # drop (Suc ?i) xs)"
    using i by (simp add: id_take_nth_drop [symmetric])
  with i show ?thesis by (simp add: spliceRandomElement_def Let_def)
qed

section \<open>shuffleArray\<close>

definition swap :: "nat \<Rightarrow> nat \<Rightarrow> 'a list \<Rightarrow> 'a list" where
  "swap i j xs = xs[i := xs ! j, j := xs ! i]"

text \<open>The Durstenfeld loop, for \<open>i\<close> from \<open>length - 1\<close> down to 1; \<open>draw i\<close> is the random draw of step \<open>i\<close>.\<close>

fun shuffle_from :: "(nat \<Rightarrow> rat) \<Rightarrow> nat \<Rightarrow> 'a list \<Rightarrow> 'a list" where
  "shuffle_from draw 0 xs = xs"
| "shuffle_from draw (Suc i) xs =
     (let j = nat \<lfloor>draw (Suc i) * of_nat (Suc i + 1)\<rfloor>
      in shuffle_from draw i (swap (Suc i) j xs))"

definition shuffleArray :: "(nat \<Rightarrow> rat) \<Rightarrow> 'a list \<Rightarrow> 'a list" where
  "shuffleArray draw xs = shuffle_from draw (length xs - 1) xs"

lemma mset_swap_list: "i < length xs \<Longrightarrow> j < length xs \<Longrightarrow> mset (swap i j xs) = mset xs"
  unfolding swap_def by (rule mset_swap)

lemma draw_index:
  assumes "0 \<le> r" "r < (1::rat)"
  shows "nat \<lfloor>r * of_nat (Suc n)\<rfloor> < Suc n"
proof -
  have "r * of_nat (Suc n) < of_nat (Suc n)" using assms by simp
  then have "\<lfloor>r * of_nat (Suc n)\<rfloor> < int (Suc n)"
    by (simp add: floor_less_iff)
  then show ?thesis by linarith
qed

lemma mset_shuffle_from:
  assumes "\<And>k. 0 \<le> draw k \<and> draw k < 1"
  shows "i < length xs \<Longrightarrow> mset (shuffle_from draw i xs) = mset xs"
proof (induction i arbitrary: xs)
  case (Suc i)
  let ?j = "nat \<lfloor>draw (Suc i) * of_nat (Suc i + 1)\<rfloor>"
  have "?j < Suc (Suc i)" using draw_index [of "draw (Suc i)" "Suc i"] assms by simp
  then have j: "?j < length xs" using Suc.prems by simp
  have "mset (shuffle_from draw i (swap (Suc i) ?j xs)) = mset (swap (Suc i) ?j xs)"
    using Suc.prems by (intro Suc.IH) (simp add: swap_def)
  also have "\<dots> = mset xs" using Suc.prems j by (intro mset_swap_list)
  finally show ?case by (simp add: Let_def)
qed simp

text \<open>Shuffling is a permutation: no provider is lost or duplicated, whatever the draws.\<close>

theorem shuffleArray_permutes:
  assumes "\<And>k. 0 \<le> draw k \<and> draw k < 1"
  shows "mset (shuffleArray draw xs) = mset xs"
proof (cases xs)
  case (Cons y ys)
  then show ?thesis
    using mset_shuffle_from [of draw, OF assms, of "length xs - 1" xs] by (simp add: shuffleArray_def)
qed (simp add: shuffleArray_def)

theorem shuffleArray_permutes_witness:
  "mset (shuffleArray (\<lambda>_. 1/2) [10, 20, 30 :: nat]) = {#10, 20, 30#}"
  by (subst shuffleArray_permutes) simp_all

section \<open>validateUUID\<close>

definition js_lower :: "char \<Rightarrow> char" where
  "js_lower c = (let n = of_char c :: nat in if 65 \<le> n \<and> n \<le> 90 then char_of (n + 32) else c)"

definition is_hex :: "char \<Rightarrow> bool" where
  "is_hex c \<longleftrightarrow> (let n = of_char c :: nat in 48 \<le> n \<and> n \<le> 57 \<or> 97 \<le> n \<and> n \<le> 102)"

definition is_uuid_version :: "char \<Rightarrow> bool" where
  "is_uuid_version c \<longleftrightarrow> (let n = of_char c :: nat in 49 \<le> n \<and> n \<le> 53)"

definition uuidPattern :: "(char \<Rightarrow> bool) list" where
  "uuidPattern =
     replicate 8 is_hex @ [(=) CHR ''-''] @ replicate 4 is_hex @ [(=) CHR ''-''] @
     [is_uuid_version] @ replicate 3 is_hex @ [(=) CHR ''-''] @ replicate 4 is_hex @
     [(=) CHR ''-''] @ replicate 12 is_hex"

definition validateUUID :: "string \<Rightarrow> bool" where
  "validateUUID uuid = list_all2 (\<lambda>p c. p c) uuidPattern (map js_lower uuid)"

lemma validateUUID_length: "validateUUID uuid \<Longrightarrow> length uuid = 36"
  by (auto simp: validateUUID_def uuidPattern_def dest: list_all2_lengthD)

end
