(* ===== verification/StateRegistry.thy ===== *)
theory StateRegistry
  imports Messages
begin

text \<open>
  The state registry of a single node (\<open>src/services/cluster-state/single-state-registry.ts\<close>): a
  reference count per name, with an event when a name appears and when it goes. The locale
  \<open>state_registry\<close> is the interface the subscription registry and the presence handler call.
\<close>

section \<open>The interface\<close>

datatype reg_event = NameAdded string | NameRemoved string

datatype reg_op = RegAdd string | RegRemove string

text \<open>The events about a name alternate: it appears only while absent, goes only while present.\<close>

fun alternates :: "string \<Rightarrow> bool \<Rightarrow> reg_event list \<Rightarrow> bool" where
  "alternates n present [] = True"
| "alternates n present (NameAdded m # es) =
     (if m = n then \<not> present \<and> alternates n True es else alternates n present es)"
| "alternates n present (NameRemoved m # es) =
     (if m = n then present \<and> alternates n False es else alternates n present es)"

fun present_after :: "string \<Rightarrow> bool \<Rightarrow> reg_event list \<Rightarrow> bool" where
  "present_after n present [] = present"
| "present_after n present (NameAdded m # es) = present_after n (if m = n then True else present) es"
| "present_after n present (NameRemoved m # es) = present_after n (if m = n then False else present) es"

lemma alternates_append:
  "alternates n b (es @ fs) \<longleftrightarrow> alternates n b es \<and> alternates n (present_after n b es) fs"
  by (induction n b es rule: alternates.induct) auto

lemma present_after_append: "present_after n b (es @ fs) = present_after n (present_after n b es) fs"
  by (induction n b es rule: present_after.induct) auto

text \<open>The removes of a run never outnumber the adds before them.\<close>

fun balanced :: "(string \<Rightarrow> nat) \<Rightarrow> reg_op list \<Rightarrow> bool" where
  "balanced c [] = True"
| "balanced c (RegAdd n # os) = balanced (c(n := Suc (c n))) os"
| "balanced c (RegRemove n # os) = (0 < c n \<and> balanced (c(n := c n - 1)) os)"

fun count_after :: "(string \<Rightarrow> nat) \<Rightarrow> reg_op list \<Rightarrow> string \<Rightarrow> nat" where
  "count_after c [] = c"
| "count_after c (RegAdd n # os) = count_after (c(n := Suc (c n))) os"
| "count_after c (RegRemove n # os) = count_after (c(n := c n - 1)) os"

locale state_registry =
  fixes add :: "string \<Rightarrow> 's \<Rightarrow> 's \<times> reg_event list"
    and remove :: "string \<Rightarrow> 's \<Rightarrow> 's \<times> reg_event list"
    and has :: "'s \<Rightarrow> string \<Rightarrow> bool"
    and names :: "'s \<Rightarrow> string list"
    and cnt :: "'s \<Rightarrow> string \<Rightarrow> nat"
    and inv :: "'s \<Rightarrow> bool"
  assumes inv_add: "inv s \<Longrightarrow> inv (fst (add n s))"
    and inv_remove: "inv s \<Longrightarrow> 0 < cnt s n \<Longrightarrow> inv (fst (remove n s))"
    and cnt_add: "inv s \<Longrightarrow> cnt (fst (add n s)) = (cnt s)(n := Suc (cnt s n))"
    and cnt_remove: "inv s \<Longrightarrow> 0 < cnt s n \<Longrightarrow> cnt (fst (remove n s)) = (cnt s)(n := cnt s n - 1)"
    and has_cnt: "inv s \<Longrightarrow> has s n \<longleftrightarrow> 0 < cnt s n"
    and names_cnt: "inv s \<Longrightarrow> set (names s) = {n. 0 < cnt s n}"
    and names_distinct: "inv s \<Longrightarrow> distinct (names s)"
    and add_events: "inv s \<Longrightarrow> snd (add n s) = (if cnt s n = 0 then [NameAdded n] else [])"
    and remove_events: "inv s \<Longrightarrow> 0 < cnt s n \<Longrightarrow>
          snd (remove n s) = (if cnt s n = 1 then [NameRemoved n] else [])"
begin

definition op :: "'s \<Rightarrow> reg_op \<Rightarrow> 's \<times> reg_event list" where
  "op s x = (case x of RegAdd n \<Rightarrow> add n s | RegRemove n \<Rightarrow> remove n s)"

lemma op_step:
  assumes "inv s" and "balanced (cnt s) [x]"
  shows "inv (fst (op s x))"
    and "cnt (fst (op s x)) = count_after (cnt s) [x]"
    and "alternates n (has s n) (snd (op s x))"
    and "present_after n (has s n) (snd (op s x)) \<longleftrightarrow> has (fst (op s x)) n"
  using assms
  by (cases x; auto simp: op_def inv_add inv_remove cnt_add cnt_remove has_cnt add_events remove_events)+

lemma op_run:
  assumes "inv s" and "balanced (cnt s) os"
  shows "inv (fst (run op s os)) \<and> cnt (fst (run op s os)) = count_after (cnt s) os \<and>
         alternates n (has s n) (snd (run op s os)) \<and>
         present_after n (has s n) (snd (run op s os)) = has (fst (run op s os)) n"
  using assms
proof (induction os arbitrary: s)
  case (Cons x os)
  have one: "balanced (cnt s) [x]" using Cons.prems(2) by (cases x) auto
  note step = op_step [OF Cons.prems(1) one]
  have rest: "balanced (cnt (fst (op s x))) os"
    using Cons.prems(2) step(2) by (cases x) auto
  have "count_after (cnt s) (x # os) = count_after (count_after (cnt s) [x]) os"
    by (cases x) auto
  then show ?case
    using Cons.IH [OF step(1) rest] step(2) step(3,4) [of n]
    by (simp add: Let_def split_beta alternates_append present_after_append)
qed simp

end

section \<open>SingleStateRegistry\<close>

type_synonym single_registry = "(string, jsnum) jsmap"

definition ssr_has :: "single_registry \<Rightarrow> string \<Rightarrow> bool" where
  "ssr_has data name = js_has data name"

definition ssr_add :: "string \<Rightarrow> single_registry \<Rightarrow> single_registry \<times> reg_event list" where
  "ssr_add name data =
     (let current = js_get data name
      in if \<not> js_truthy_num current then (js_set name (JsNum 1) data, [NameAdded name])
         else (js_set name (js_plus1 current) data, []))"

definition ssr_remove :: "string \<Rightarrow> single_registry \<Rightarrow> single_registry \<times> reg_event list" where
  "ssr_remove name data =
     (let current = js_minus1 (js_get data name)
      in if current = JsNum 0 then (js_delete name data, [NameRemoved name])
         else (js_set name current data, []))"

definition ssr_getAll :: "single_registry \<Rightarrow> string list" where
  "ssr_getAll data = js_keys data"

definition ssr_getAllServers :: "single_registry \<Rightarrow> string \<Rightarrow> string list" where
  "ssr_getAllServers data subscriptionName = []"

definition ssr_cnt :: "single_registry \<Rightarrow> string \<Rightarrow> nat" where
  "ssr_cnt data name = (case js_get data name of Some (JsNum n) \<Rightarrow> nat n | _ \<Rightarrow> 0)"

definition ssr_inv :: "single_registry \<Rightarrow> bool" where
  "ssr_inv data \<longleftrightarrow> distinct (js_keys data) \<and>
     (\<forall>name v. js_get data name = Some v \<longrightarrow> (\<exists>n>0. v = JsNum n))"

lemma ssr_inv_get:
  assumes "ssr_inv data"
  obtains "js_get data name = None" "ssr_cnt data name = 0"
  | n where "0 < n" "js_get data name = Some (JsNum n)" "ssr_cnt data name = nat n"
proof (cases "js_get data name")
  case None
  then show ?thesis using that(1) by (simp add: ssr_cnt_def)
next
  case (Some v)
  then obtain n where "0 < n" and "v = JsNum n" using assms unfolding ssr_inv_def by blast
  with Some show ?thesis using that(2) by (simp add: ssr_cnt_def)
qed

lemma ssr_inv_set: "ssr_inv data \<Longrightarrow> 0 < n \<Longrightarrow> ssr_inv (js_set name (JsNum n) data)"
  by (auto simp: ssr_inv_def js_simps)

lemma ssr_inv_delete: "ssr_inv data \<Longrightarrow> ssr_inv (js_delete name data)"
  by (auto simp: ssr_inv_def js_simps)

lemma ssr_cnt_set: "ssr_cnt (js_set name (JsNum n) data) = (ssr_cnt data)(name := nat n)"
  by (auto simp: ssr_cnt_def js_simps)

lemma ssr_cnt_delete: "ssr_cnt (js_delete name data) = (ssr_cnt data)(name := 0)"
  by (auto simp: ssr_cnt_def js_simps)

lemmas ssr_defs = ssr_add_def ssr_remove_def ssr_has_def ssr_getAll_def Let_def
lemmas ssr_laws = ssr_inv_set ssr_inv_delete ssr_cnt_set ssr_cnt_delete

lemma ssr_add_spec:
  assumes "ssr_inv s"
  shows "ssr_inv (fst (ssr_add n s)) \<and>
    ssr_cnt (fst (ssr_add n s)) = (ssr_cnt s)(n := Suc (ssr_cnt s n)) \<and>
    snd (ssr_add n s) = (if ssr_cnt s n = 0 then [NameAdded n] else [])"
proof (cases rule: ssr_inv_get [OF assms, of n])
  case 1
  with assms show ?thesis by (simp add: ssr_defs ssr_laws)
next
  case (2 k)
  then have "nat (k + 1) = Suc (nat k)" by simp
  with 2 assms show ?thesis by (simp add: ssr_defs ssr_laws)
qed

lemma ssr_remove_spec:
  assumes "ssr_inv s" and "0 < ssr_cnt s n"
  shows "ssr_inv (fst (ssr_remove n s)) \<and>
    ssr_cnt (fst (ssr_remove n s)) = (ssr_cnt s)(n := ssr_cnt s n - 1) \<and>
    snd (ssr_remove n s) = (if ssr_cnt s n = 1 then [NameRemoved n] else [])"
proof (cases rule: ssr_inv_get [OF assms(1), of n])
  case 1
  with assms(2) show ?thesis by simp
next
  case (2 k)
  then have "nat (k - 1) = nat k - 1" and "nat k = 1 \<longleftrightarrow> k = 1" by auto
  with 2 assms show ?thesis by (simp add: ssr_defs ssr_laws)
qed

lemma ssr_names_spec:
  assumes "ssr_inv s"
  shows "ssr_has s n \<longleftrightarrow> 0 < ssr_cnt s n"
    and "set (ssr_getAll s) = {n. 0 < ssr_cnt s n}"
    and "distinct (ssr_getAll s)"
proof -
  have h: "ssr_has s n \<longleftrightarrow> 0 < ssr_cnt s n" for n
    by (cases rule: ssr_inv_get [OF assms, of n]) (simp_all add: ssr_has_def js_has_def)
  show "ssr_has s n \<longleftrightarrow> 0 < ssr_cnt s n" by (rule h)
  show "set (ssr_getAll s) = {n. 0 < ssr_cnt s n}"
    using h by (auto simp: ssr_has_def js_has_keys ssr_getAll_def)
  show "distinct (ssr_getAll s)" using assms by (simp add: ssr_inv_def ssr_getAll_def)
qed

interpretation ssr: state_registry ssr_add ssr_remove ssr_has ssr_getAll ssr_cnt ssr_inv
  by unfold_locales (auto simp: ssr_add_spec ssr_remove_spec ssr_names_spec)

section \<open>Properties\<close>

fun ssr_op :: "single_registry \<Rightarrow> reg_op \<Rightarrow> single_registry \<times> reg_event list" where
  "ssr_op s (RegAdd n) = ssr_add n s"
| "ssr_op s (RegRemove n) = ssr_remove n s"

lemma ssr_op_locale: "ssr_op = ssr.op"
  by (intro ext, rename_tac s x, case_tac x) (simp_all add: ssr.op_def)

text \<open>Over any run whose removes are matched by earlier adds, the registry holds exactly the
  names added more often than removed, and per name the listeners see appear and go events in
  strict alternation.\<close>

theorem ssr_reference_counting:
  assumes "balanced (\<lambda>_. 0) os"
  shows "(ssr_has (fst (run ssr_op [] os)) n \<longleftrightarrow> 0 < count_after (\<lambda>_. 0) os n) \<and>
         alternates n False (snd (run ssr_op [] os))"
proof -
  have "ssr_inv []" and c: "ssr_cnt [] = (\<lambda>_. 0)" by (auto simp: ssr_inv_def ssr_cnt_def)
  then have "ssr_inv (fst (run ssr_op [] os)) \<and> ssr_cnt (fst (run ssr_op [] os)) = count_after (\<lambda>_. 0) os
      \<and> alternates n (ssr_has [] n) (snd (run ssr_op [] os))"
    using ssr.op_run [of "[]" os n] assms by (simp add: ssr_op_locale)
  moreover have "\<not> ssr_has [] n" by (simp add: ssr_has_def js_has_def)
  ultimately show ?thesis using ssr.has_cnt by simp
qed

theorem ssr_reference_counting_witness:
  "ssr_has (fst (run ssr_op [] [RegAdd ''a'', RegAdd ''a'', RegRemove ''a''])) ''a''"
  using ssr_reference_counting [of "[RegAdd ''a'', RegAdd ''a'', RegRemove ''a'']" "''a''"] by simp

text \<open>Removing a name that is not registered does not exit silently, as its comment says: it
  stores NaN, so the registry then claims to hold the name, and no event is emitted.\<close>

theorem ssr_remove_unknown:
  assumes "js_get data name = None"
  shows "ssr_has (fst (ssr_remove name data)) name \<and>
    js_get (fst (ssr_remove name data)) name = Some JsNaN \<and> snd (ssr_remove name data) = []"
  using assms by (simp add: ssr_defs js_simps)

theorem ssr_remove_unknown_witness: "ssr_has (fst (ssr_remove ''ghost'' [])) ''ghost''"
  using ssr_remove_unknown [of "[]" "''ghost''"] by simp

end
