(* ===== verification/DistState.thy ===== *)
theory DistState
  imports StateRegistry "HOL-Library.Word"
begin

text \<open>
  The state registry of a cluster (\<open>src/services/cluster-state/distributed-state-registry.ts\<close>):
  which server holds which name, kept by ADD and REMOVE messages, checksums and full-state
  reconciliation. A timer is armed with an id; a later step fires it. \<open>self\<close> is
  \<open>config.serverName\<close>.
\<close>

section \<open>State, messages and effects\<close>

record dist_entry =
  localCount :: int
  nodes :: "string jsset"
  checkSum :: int

datatype dist_timer = TChecksumTotal string | TRequestFullState string | TResetFullStateSent

datatype cs_callback = SendChecksum | VerifyChecksum string int

record dist_registry =
  isReady :: bool
  data :: "(string, dist_entry) jsmap"
  reconciliationTimeouts :: "(string, nat) jsmap"
  checkSumTimeouts :: "(string, cs_callback list) jsmap"
  fullStateSent :: bool
  initialServers :: "string jsset"
  timers :: "(nat \<times> dist_timer) list"
  nextTimer :: nat

datatype state_msg =
    StateAdd string | StateRemove string | StateRequestFull bool
  | StateFull "string list" | StateChecksum int

datatype dist_effect =
    EmitAdd string | EmitRemove string | EmitServerAdded string string
  | EmitServerRemoved string string | EmitReady
  | StateSend state_msg | StateSendDirect string state_msg

section \<open>Checksums\<close>

text \<open>\<open>checkSum << 5\<close> works on the 32-bit integer; the subtraction and addition are on numbers.\<close>

definition js_shl5 :: "int \<Rightarrow> int" where
  "js_shl5 c = sint (push_bit 5 (word_of_int c :: 32 word))"

fun checksum_loop :: "int \<Rightarrow> string \<Rightarrow> int" where
  "checksum_loop acc [] = acc"
| "checksum_loop acc (c # cs) = checksum_loop ((js_shl5 acc - acc) + int (of_char c)) cs"

definition createCheckSum :: "string \<Rightarrow> int" where
  "createCheckSum name = checksum_loop 0 name"

definition totalCheckSum :: "string \<Rightarrow> (string, dist_entry) jsmap \<Rightarrow> int" where
  "totalCheckSum serverName d =
     sum_list (map (\<lambda>(_, v). checkSum v) (filter (\<lambda>(_, v). serverName \<in> set (nodes v)) d))"

section \<open>Timers\<close>

definition arm :: "dist_timer \<Rightarrow> dist_registry \<Rightarrow> dist_registry \<times> nat" where
  "arm t r = (r\<lparr>timers := timers r @ [(nextTimer r, t)], nextTimer := Suc (nextTimer r)\<rparr>, nextTimer r)"

definition clearTimer :: "nat \<Rightarrow> dist_registry \<Rightarrow> dist_registry" where
  "clearTimer i r = r\<lparr>timers := filter (\<lambda>(j, _). j \<noteq> i) (timers r)\<rparr>"

section \<open>The entries\<close>

definition dist_has :: "dist_registry \<Rightarrow> string \<Rightarrow> bool" where
  "dist_has r name = js_has (data r) name"

definition removeFromServer ::
  "string \<Rightarrow> string \<Rightarrow> dist_registry \<Rightarrow> dist_registry \<times> dist_effect list" where
  "removeFromServer name serverName r =
     (case js_get (data r) name of
        None \<Rightarrow> (r, [])
      | Some e \<Rightarrow>
          (let ns = set_delete serverName (nodes e)
           in if ns = []
              then (r\<lparr>data := js_delete name (data r)\<rparr>,
                    [EmitRemove name, EmitServerRemoved name serverName])
              else (r\<lparr>data := js_set name (e\<lparr>nodes := ns\<rparr>) (data r)\<rparr>,
                    [EmitServerRemoved name serverName])))"

definition addToServer ::
  "string \<Rightarrow> string \<Rightarrow> dist_registry \<Rightarrow> dist_registry \<times> dist_effect list" where
  "addToServer name serverName r =
     (case js_get (data r) name of
        None \<Rightarrow>
          (r\<lparr>data := js_set name \<lparr>localCount = 1, nodes = [serverName],
                                  checkSum = createCheckSum name\<rparr> (data r)\<rparr>,
           [EmitAdd name, EmitServerAdded name serverName])
      | Some e \<Rightarrow>
          (r\<lparr>data := js_set name (e\<lparr>nodes := set_add serverName (nodes e)\<rparr>) (data r)\<rparr>,
           [EmitServerAdded name serverName]))"

definition getCheckSumTotal :: "string \<Rightarrow> cs_callback \<Rightarrow> dist_registry \<Rightarrow> dist_registry" where
  "getCheckSumTotal serverName cb r =
     (case js_get (checkSumTimeouts r) serverName of
        Some cbs \<Rightarrow> r\<lparr>checkSumTimeouts := js_set serverName (cbs @ [cb]) (checkSumTimeouts r)\<rparr>
      | None \<Rightarrow>
          fst (arm (TChecksumTotal serverName)
            (r\<lparr>checkSumTimeouts := js_set serverName [cb] (checkSumTimeouts r)\<rparr>)))"

definition dist_sendMessage ::
  "string \<Rightarrow> state_msg \<Rightarrow> dist_registry \<Rightarrow> dist_registry \<times> dist_effect list" where
  "dist_sendMessage self m r = (getCheckSumTotal self SendChecksum r, [StateSend m])"

definition dist_add :: "string \<Rightarrow> string \<Rightarrow> dist_registry \<Rightarrow> dist_registry \<times> dist_effect list" where
  "dist_add self name r =
     (case js_get (data r) name of
        Some e \<Rightarrow>
          if self \<in> set (nodes e)
          then (r\<lparr>data := js_set name (e\<lparr>localCount := localCount e + 1\<rparr>) (data r)\<rparr>, [])
          else (let (r1, e1) = addToServer name self r;
                    (r2, e2) = dist_sendMessage self (StateAdd name) r1
                in (r2, e1 @ e2))
      | None \<Rightarrow>
          (let (r1, e1) = addToServer name self r;
               (r2, e2) = dist_sendMessage self (StateAdd name) r1
           in (r2, e1 @ e2)))"

definition dist_remove :: "string \<Rightarrow> string \<Rightarrow> dist_registry \<Rightarrow> dist_registry \<times> dist_effect list" where
  "dist_remove self name r =
     (case js_get (data r) name of
        None \<Rightarrow> (r, [])
      | Some e \<Rightarrow>
          (let c = localCount e - 1;
               r0 = r\<lparr>data := js_set name (e\<lparr>localCount := c\<rparr>) (data r)\<rparr>
           in if c = 0
              then (let (r1, e1) = removeFromServer name self r0;
                        (r2, e2) = dist_sendMessage self (StateRemove name) r1
                    in (r2, e1 @ e2))
              else (r0, [])))"

definition requestFullState :: "string \<Rightarrow> dist_effect list" where
  "requestFullState serverName = [StateSendDirect serverName (StateRequestFull False)]"

definition onServerAdded :: "string \<Rightarrow> dist_effect list" where
  "onServerAdded serverName = requestFullState serverName"

fun remove_server_from :: "string \<Rightarrow> (string \<times> dist_entry) list \<Rightarrow> dist_registry \<Rightarrow>
    dist_registry \<times> dist_effect list" where
  "remove_server_from serverName [] r = (r, [])"
| "remove_server_from serverName ((name, v) # es) r =
     (let (r1, e1) = (if serverName \<in> set (nodes v) then removeFromServer name serverName r else (r, []));
          (r2, e2) = remove_server_from serverName es r1
      in (r2, e1 @ e2))"

definition onServerRemoved :: "string \<Rightarrow> dist_registry \<Rightarrow> dist_registry \<times> dist_effect list" where
  "onServerRemoved serverName r = remove_server_from serverName (data r) r"

definition dist_getAllServers :: "dist_registry \<Rightarrow> string \<Rightarrow> string list" where
  "dist_getAllServers r name = (case js_get (data r) name of Some e \<Rightarrow> nodes e | None \<Rightarrow> [])"

definition dist_getAll :: "dist_registry \<Rightarrow> string option \<Rightarrow> string list" where
  "dist_getAll r serverName =
     (if nonempty serverName
      then map fst (filter (\<lambda>(_, v). the serverName \<in> set (nodes v)) (data r))
      else js_keys (data r))"

section \<open>Reconciliation\<close>

definition sendFullState :: "string \<Rightarrow> string \<Rightarrow> dist_registry \<Rightarrow> dist_registry \<times> dist_effect list" where
  "sendFullState self serverName r =
     (let localState = map fst (filter (\<lambda>(_, v). self \<in> set (nodes v)) (data r))
      in (fst (arm TResetFullStateSent (r\<lparr>fullStateSent := True\<rparr>)),
          [StateSendDirect serverName (StateFull localState)]))"

text \<open>
  \<open>Object.keys(this.data)\<close> on a \<open>Map\<close> lists the object's own properties, not the map's keys: it
  is empty, so the loop that would remove the names missing from the full state runs on nothing.
\<close>

definition object_keys_of_map :: "(string, 'v) jsmap \<Rightarrow> string list" where
  "object_keys_of_map m = []"

fun remove_names :: "string \<Rightarrow> string list \<Rightarrow> string list \<Rightarrow> dist_registry \<Rightarrow>
    dist_registry \<times> dist_effect list" where
  "remove_names serverName names [] r = (r, [])"
| "remove_names serverName names (name # ks) r =
     (let (r1, e1) = (if name \<in> set names then (r, []) else removeFromServer name serverName r);
          (r2, e2) = remove_names serverName names ks r1
      in (r2, e1 @ e2))"

fun add_names :: "string \<Rightarrow> string list \<Rightarrow> dist_registry \<Rightarrow> dist_registry \<times> dist_effect list" where
  "add_names serverName [] r = (r, [])"
| "add_names serverName (name # ns) r =
     (let (r1, e1) = addToServer name serverName r;
          (r2, e2) = add_names serverName ns r1
      in (r2, e1 @ e2))"

definition applyFullState ::
  "string \<Rightarrow> string list \<Rightarrow> dist_registry \<Rightarrow> dist_registry \<times> dist_effect list" where
  "applyFullState serverName names r =
     (let (r1, e1) = remove_names serverName names (object_keys_of_map (data r)) r;
          (r2, e2) = add_names serverName names r1;
          r3 = r2\<lparr>initialServers := set_delete serverName (initialServers r2)\<rparr>
      in if initialServers r3 = [] then (r3\<lparr>isReady := True\<rparr>, e1 @ e2 @ [EmitReady])
         else (r3, e1 @ e2))"

definition verifyCheckSum :: "string \<Rightarrow> int \<Rightarrow> dist_registry \<Rightarrow> dist_registry" where
  "verifyCheckSum serverName remoteCheckSum r =
     getCheckSumTotal serverName (VerifyChecksum serverName remoteCheckSum) r"

text \<open>A callback of the checksum total: announce it, or compare it with the remote's.\<close>

fun run_cs_callback :: "int \<Rightarrow> cs_callback \<Rightarrow> dist_registry \<Rightarrow> dist_registry \<times> dist_effect list" where
  "run_cs_callback checksum SendChecksum r = (r, [StateSend (StateChecksum checksum)])"
| "run_cs_callback checksum (VerifyChecksum serverName remoteCheckSum) r =
     (if checksum \<noteq> remoteCheckSum
      then (let (r1, i) = arm (TRequestFullState serverName) r
            in (r1\<lparr>reconciliationTimeouts := js_set serverName i (reconciliationTimeouts r1)\<rparr>, []))
      else case js_get (reconciliationTimeouts r) serverName of
             None \<Rightarrow> (r, [])
           | Some i \<Rightarrow> (let r1 = clearTimer i r
                        in (r1\<lparr>reconciliationTimeouts :=
                                 js_delete serverName (reconciliationTimeouts r1)\<rparr>, [])))"

fun run_cs_callbacks :: "int \<Rightarrow> cs_callback list \<Rightarrow> dist_registry \<Rightarrow> dist_registry \<times> dist_effect list" where
  "run_cs_callbacks checksum [] r = (r, [])"
| "run_cs_callbacks checksum (cb # cbs) r =
     (let (r1, e1) = run_cs_callback checksum cb r;
          (r2, e2) = run_cs_callbacks checksum cbs r1
      in (r2, e1 @ e2))"

fun fire :: "dist_timer \<Rightarrow> dist_registry \<Rightarrow> dist_registry \<times> dist_effect list" where
  "fire (TChecksumTotal serverName) r =
     (let total = totalCheckSum serverName (data r);
          cbs = (case js_get (checkSumTimeouts r) serverName of Some cbs \<Rightarrow> cbs | None \<Rightarrow> []);
          (r1, e1) = run_cs_callbacks total cbs r
      in (r1\<lparr>checkSumTimeouts := js_delete serverName (checkSumTimeouts r1)\<rparr>, e1))"
| "fire (TRequestFullState serverName) r = (r, requestFullState serverName)"
| "fire TResetFullStateSent r = (r\<lparr>fullStateSent := False\<rparr>, [])"

text \<open>The timer with id \<open>i\<close> runs out.\<close>

definition onTimer :: "nat \<Rightarrow> dist_registry \<Rightarrow> dist_registry \<times> dist_effect list" where
  "onTimer i r =
     (case map_of (timers r) i of None \<Rightarrow> (r, []) | Some t \<Rightarrow> fire t (clearTimer i r))"

fun processIncomingMessage :: "string \<Rightarrow> topic \<Rightarrow> topic \<Rightarrow> state_msg \<Rightarrow> string \<Rightarrow> dist_registry \<Rightarrow>
    dist_registry \<times> dist_effect list" where
  "processIncomingMessage self topic registryTopic m serverName r =
     (if registryTopic \<noteq> topic then (r, [])
      else case m of
        StateAdd name \<Rightarrow> addToServer name serverName r
      | StateRemove name \<Rightarrow> removeFromServer name serverName r
      | StateRequestFull hasData \<Rightarrow>
          if \<not> hasData \<or> \<not> fullStateSent r then sendFullState self serverName r else (r, [])
      | StateFull names \<Rightarrow> applyFullState serverName names r
      | StateChecksum c \<Rightarrow> (verifyCheckSum serverName c r, []))"

text \<open>The constructor: every server of the cluster but this one is asked for its full state.\<close>

definition dist_init :: "string \<Rightarrow> string list \<Rightarrow> dist_registry \<times> dist_effect list" where
  "dist_init self serverNames =
     (\<lparr>isReady = (serverNames = []), data = [], reconciliationTimeouts = [], checkSumTimeouts = [],
       fullStateSent = False, initialServers = remdups serverNames, timers = [], nextTimer = 0\<rparr>,
      (if serverNames = [] then [EmitReady] else []) @
      concat (map (\<lambda>s. if s = self then [] else onServerAdded s) (remdups serverNames)))"

section \<open>The abstract view\<close>

text \<open>Which server holds which name: what \<open>getAllServers\<close> answers.\<close>

definition view :: "dist_registry \<Rightarrow> string \<Rightarrow> string \<Rightarrow> bool" where
  "view r serverName name \<longleftrightarrow> serverName \<in> set (dist_getAllServers r name)"

lemmas view_defs = view_def dist_getAllServers_def

lemma view_data: "data r' = data r \<Longrightarrow> view r' = view r"
  by (intro ext) (simp add: view_defs)

lemma data_arm [simp]: "data (fst (arm t r)) = data r"
  by (simp add: arm_def)

lemma data_clearTimer [simp]: "data (clearTimer i r) = data r"
  by (simp add: clearTimer_def)

lemma data_getCheckSumTotal [simp]: "data (getCheckSumTotal s cb r) = data r"
  by (simp add: getCheckSumTotal_def split: option.splits)

lemma data_dist_sendMessage [simp]: "data (fst (dist_sendMessage self m r)) = data r"
  by (simp add: dist_sendMessage_def)

lemma view_addToServer:
  "view (fst (addToServer name srv r)) s n \<longleftrightarrow> view r s n \<or> (s = srv \<and> n = name)"
  by (auto simp: view_defs addToServer_def js_simps split: option.splits)

lemma view_removeFromServer:
  "view (fst (removeFromServer name srv r)) s n \<longleftrightarrow> view r s n \<and> \<not> (s = srv \<and> n = name)"
proof (cases "js_get (data r) name")
  case (Some e)
  have "set_delete srv (nodes e) = [] \<Longrightarrow> s \<in> set (nodes e) \<Longrightarrow> s = srv"
    by (auto simp: set_delete_empty_iff)
  with Some show ?thesis by (auto simp: view_defs removeFromServer_def Let_def js_simps)
qed (auto simp: view_defs removeFromServer_def)

lemma view_localCount:
  "js_get (data r) name = Some e \<Longrightarrow>
   view (r\<lparr>data := js_set name (e\<lparr>localCount := c\<rparr>) (data r)\<rparr>) = view r"
  by (intro ext) (auto simp: view_defs js_simps)

lemma view_dist_add: "view (fst (dist_add self name r)) s n \<longleftrightarrow> view r s n \<or> (s = self \<and> n = name)"
proof (cases "js_get (data r) name")
  case None
  then show ?thesis
    by (simp add: dist_add_def split_beta view_data [OF data_dist_sendMessage] view_addToServer)
next
  case (Some e)
  show ?thesis
  proof (cases "self \<in> set (nodes e)")
    case True
    with Some show ?thesis
      by (auto simp: dist_add_def view_localCount) (auto simp: view_defs)
  next
    case False
    with Some show ?thesis
      by (simp add: dist_add_def split_beta view_data [OF data_dist_sendMessage] view_addToServer)
  qed
qed

definition last_local :: "dist_registry \<Rightarrow> string \<Rightarrow> bool" where
  "last_local r name \<longleftrightarrow> (case js_get (data r) name of Some e \<Rightarrow> localCount e = 1 | None \<Rightarrow> False)"

lemma view_dist_remove:
  "view (fst (dist_remove self name r)) s n \<longleftrightarrow>
     view r s n \<and> \<not> (last_local r name \<and> s = self \<and> n = name)"
proof (cases "js_get (data r) name")
  case None
  then show ?thesis by (simp add: dist_remove_def last_local_def)
next
  case (Some e)
  then show ?thesis
    using view_localCount [OF Some, of "localCount e - 1"] view_localCount [OF Some, of 0]
    by (simp add: dist_remove_def last_local_def Let_def split_beta
        view_data [OF data_dist_sendMessage] view_removeFromServer)
qed

lemma view_remove_names:
  "view (fst (remove_names srv names ks r)) s n \<longleftrightarrow>
     view r s n \<and> \<not> (s = srv \<and> n \<in> set ks \<and> n \<notin> set names)"
  by (induction ks arbitrary: r) (auto simp: Let_def split_beta view_removeFromServer)

lemma view_add_names:
  "view (fst (add_names srv names r)) s n \<longleftrightarrow> view r s n \<or> (s = srv \<and> n \<in> set names)"
  by (induction names arbitrary: r) (auto simp: Let_def split_beta view_addToServer)

lemma view_applyFullState:
  "view (fst (applyFullState srv names r)) s n \<longleftrightarrow> view r s n \<or> (s = srv \<and> n \<in> set names)"
proof -
  let ?r2 = "fst (add_names srv names r)"
  have "data (fst (applyFullState srv names r)) = data ?r2"
    by (simp add: applyFullState_def object_keys_of_map_def Let_def split_beta)
  then show ?thesis by (simp add: view_data [of "fst (applyFullState srv names r)" ?r2] view_add_names)
qed

section \<open>The invariant\<close>

text \<open>Entries are unique, no entry is without a server, and each caches its name's checksum.\<close>

definition entry_ok :: "string \<Rightarrow> dist_entry \<Rightarrow> bool" where
  "entry_ok name e \<longleftrightarrow> nodes e \<noteq> [] \<and> distinct (nodes e) \<and> checkSum e = createCheckSum name"

definition dist_inv :: "dist_registry \<Rightarrow> bool" where
  "dist_inv r \<longleftrightarrow> distinct (js_keys (data r)) \<and>
     (\<forall>name e. js_get (data r) name = Some e \<longrightarrow> entry_ok name e)"

lemma dist_inv_data: "data r' = data r \<Longrightarrow> dist_inv r' = dist_inv r"
  by (simp add: dist_inv_def)

lemma dist_inv_set:
  "dist_inv r \<Longrightarrow> entry_ok name e \<Longrightarrow> dist_inv (r\<lparr>data := js_set name e (data r)\<rparr>)"
  by (auto simp: dist_inv_def js_simps)

lemma dist_inv_delete: "dist_inv r \<Longrightarrow> dist_inv (r\<lparr>data := js_delete name (data r)\<rparr>)"
  by (auto simp: dist_inv_def js_simps)

lemma dist_inv_get: "dist_inv r \<Longrightarrow> js_get (data r) name = Some e \<Longrightarrow> entry_ok name e"
  by (simp add: dist_inv_def)

lemma inv_addToServer: "dist_inv r \<Longrightarrow> dist_inv (fst (addToServer name srv r))"
  by (auto simp: addToServer_def split: option.splits intro!: dist_inv_set
      dest: dist_inv_get simp: entry_ok_def)

lemma inv_removeFromServer: "dist_inv r \<Longrightarrow> dist_inv (fst (removeFromServer name srv r))"
proof (cases "js_get (data r) name")
  case (Some e)
  assume inv: "dist_inv r"
  with Some have "entry_ok name e" by (rule dist_inv_get [rotated])
  then have "set_delete srv (nodes e) \<noteq> [] \<Longrightarrow> entry_ok name (e\<lparr>nodes := set_delete srv (nodes e)\<rparr>)"
    by (simp add: entry_ok_def distinct_removeAll)
  with Some inv show ?thesis
    by (simp add: removeFromServer_def Let_def dist_inv_set dist_inv_delete)
qed (simp add: removeFromServer_def)

lemma inv_dist_sendMessage: "dist_inv (fst (dist_sendMessage self m r)) = dist_inv r"
  by (rule dist_inv_data) simp

lemma inv_localCount:
  "dist_inv r \<Longrightarrow> js_get (data r) name = Some e \<Longrightarrow>
   dist_inv (r\<lparr>data := js_set name (e\<lparr>localCount := c\<rparr>) (data r)\<rparr>)"
  by (rule dist_inv_set) (auto dest: dist_inv_get simp: entry_ok_def)

lemma inv_dist_add: "dist_inv r \<Longrightarrow> dist_inv (fst (dist_add self name r))"
  by (auto simp: dist_add_def split_beta Let_def inv_dist_sendMessage inv_addToServer inv_localCount
      split: option.splits)

lemma inv_dist_remove: "dist_inv r \<Longrightarrow> dist_inv (fst (dist_remove self name r))"
  by (auto simp: dist_remove_def split_beta Let_def inv_dist_sendMessage inv_removeFromServer
      inv_localCount split: option.splits)

lemma inv_remove_server_from: "dist_inv r \<Longrightarrow> dist_inv (fst (remove_server_from srv es r))"
  by (induction es arbitrary: r) (auto simp: Let_def split_beta inv_removeFromServer)

lemma inv_add_names: "dist_inv r \<Longrightarrow> dist_inv (fst (add_names srv names r))"
  by (induction names arbitrary: r) (auto simp: Let_def split_beta inv_addToServer)

lemma inv_applyFullState: "dist_inv r \<Longrightarrow> dist_inv (fst (applyFullState srv names r))"
proof -
  assume "dist_inv r"
  moreover have "data (fst (applyFullState srv names r)) = data (fst (add_names srv names r))"
    by (simp add: applyFullState_def object_keys_of_map_def Let_def split_beta)
  ultimately show ?thesis using inv_add_names dist_inv_data by blast
qed

lemma data_run_cs_callback [simp]: "data (fst (run_cs_callback c cb r)) = data r"
  by (cases cb) (auto simp: split_beta Let_def split: option.splits)

lemma data_run_cs_callbacks [simp]: "data (fst (run_cs_callbacks c cbs r)) = data r"
  by (induction cbs arbitrary: r) (simp_all add: split_beta Let_def)

lemma data_fire [simp]: "data (fst (fire t r)) = data r"
  by (cases t) (simp_all add: split_beta Let_def)

lemma data_onTimer [simp]: "data (fst (onTimer i r)) = data r"
  by (simp add: onTimer_def split: option.splits)

lemma data_sendFullState [simp]: "data (fst (sendFullState self s r)) = data r"
  by (simp add: sendFullState_def Let_def)

lemma inv_processIncomingMessage:
  "dist_inv r \<Longrightarrow> dist_inv (fst (processIncomingMessage self tp rtp m srv r))"
proof (cases m)
  case (StateRequestFull h)
  assume "dist_inv r"
  then show ?thesis
    using StateRequestFull dist_inv_data [OF data_sendFullState, of self srv r] by simp
next
  case (StateChecksum c)
  assume "dist_inv r"
  then show ?thesis
    using StateChecksum dist_inv_data [of "verifyCheckSum srv c r" r] by (simp add: verifyCheckSum_def)
qed (simp_all add: inv_addToServer inv_removeFromServer inv_applyFullState)

lemma inv_dist_init: "dist_inv (fst (dist_init self servers))"
  by (simp add: dist_init_def dist_inv_def)

datatype dist_event =
    DAdd string | DRemove string | DMessage topic state_msg string
  | DServerAdded string | DServerRemoved string | DTimer nat

fun dist_step :: "string \<Rightarrow> topic \<Rightarrow> dist_registry \<Rightarrow> dist_event \<Rightarrow> dist_registry \<times> dist_effect list" where
  "dist_step self tp r (DAdd name) = dist_add self name r"
| "dist_step self tp r (DRemove name) = dist_remove self name r"
| "dist_step self tp r (DMessage rtp m srv) = processIncomingMessage self tp rtp m srv r"
| "dist_step self tp r (DServerAdded srv) = (r, onServerAdded srv)"
| "dist_step self tp r (DServerRemoved srv) = onServerRemoved srv r"
| "dist_step self tp r (DTimer i) = onTimer i r"

lemma inv_dist_step: "dist_inv r \<Longrightarrow> dist_inv (fst (dist_step self tp r ev))"
proof (cases ev)
  case (DTimer i)
  assume "dist_inv r"
  then show ?thesis using DTimer dist_inv_data [OF data_onTimer, of i r] by simp
qed (simp_all only: dist_step.simps fst_conv inv_dist_add inv_dist_remove
      inv_processIncomingMessage onServerRemoved_def inv_remove_server_from)

abbreviation dist_reach :: "string \<Rightarrow> topic \<Rightarrow> dist_registry \<Rightarrow> bool" where
  "dist_reach self tp \<equiv> reach (\<lambda>r. \<exists>servers. r = fst (dist_init self servers))
     (\<lambda>r r'. \<exists>ev. r' = fst (dist_step self tp r ev))"

interpretation dist_sys:
  invariant_system "\<lambda>r. \<exists>servers. r = fst (dist_init self servers)"
    "\<lambda>r r'. \<exists>ev. r' = fst (dist_step self tp r ev)" dist_inv
  for self tp
  by unfold_locales (auto simp: inv_dist_init inv_dist_step)

section \<open>Checksums over the view\<close>

lemma totalCheckSum_view:
  assumes inv: "dist_inv r"
  shows "totalCheckSum s (data r) = (\<Sum>n | view r s n. createCheckSum n)"
proof -
  let ?f = "filter (\<lambda>(_, v). s \<in> set (nodes v)) (data r)"
  let ?names = "map fst ?f"
  have dist: "distinct (js_keys (data r))" using inv by (simp add: dist_inv_def)
  have mem: "js_get (data r) n = Some e" if "(n, e) \<in> set (data r)" for n e
    using that dist by simp
  have "checkSum e = createCheckSum n" if "(n, e) \<in> set ?f" for n e
    using dist_inv_get [OF inv mem] that by (auto simp: entry_ok_def)
  then have eq: "map (\<lambda>(_, v). checkSum v) ?f = map createCheckSum ?names" by auto
  have dn: "distinct ?names" using dist by (simp add: distinct_map_filter)
  have "n \<in> set ?names \<longleftrightarrow> view r s n" for n
  proof
    assume "n \<in> set ?names"
    then obtain e where "(n, e) \<in> set (data r)" and "s \<in> set (nodes e)" by auto
    then show "view r s n" by (simp add: view_defs mem)
  next
    assume "view r s n"
    then obtain e where "js_get (data r) n = Some e" and "s \<in> set (nodes e)"
      by (cases "js_get (data r) n") (auto simp: view_defs)
    then have "(n, e) \<in> set ?f" by (simp add: map_of_SomeD)
    then show "n \<in> set ?names" by force
  qed
  then have names: "set ?names = {n. view r s n}" by blast
  have "totalCheckSum s (data r) = sum_list (map createCheckSum ?names)"
    by (simp only: totalCheckSum_def eq)
  also have "\<dots> = sum createCheckSum (set ?names)"
    by (rule sum_list_distinct_conv_sum_set [OF dn])
  finally show ?thesis by (simp only: names)
qed

lemma js_shl5_bounds: "- (2 ^ 31) \<le> js_shl5 c" "js_shl5 c < 2 ^ 31"
  using sint_greater_eq [of "push_bit 5 (word_of_int c :: 32 word)"]
    sint_lt [of "push_bit 5 (word_of_int c :: 32 word)"]
  by (simp_all add: js_shl5_def)

lemma checksum_loop_bound:
  "\<bar>checksum_loop acc cs\<bar> \<le> \<bar>acc\<bar> + int (length cs) * (2 ^ 31 + 255)"
proof (induction cs arbitrary: acc)
  case (Cons c cs)
  let ?a = "(js_shl5 acc - acc) + int (of_char c)"
  have "int (of_char c) \<le> 255" using nat_of_char_less_256 [of c] by linarith
  then have "\<bar>?a\<bar> \<le> \<bar>acc\<bar> + (2 ^ 31 + 255)"
    using js_shl5_bounds [of acc] by (simp add: abs_le_iff) linarith
  with Cons.IH [of ?a] show ?case by (simp add: distrib_right)
qed simp

section \<open>Replication\<close>

datatype local_op = LAdd string | LRemove string

fun local_step :: "string \<Rightarrow> dist_registry \<Rightarrow> local_op \<Rightarrow> dist_registry \<times> dist_effect list" where
  "local_step self r (LAdd name) = dist_add self name r"
| "local_step self r (LRemove name) = dist_remove self name r"

fun sent :: "dist_effect list \<Rightarrow> state_msg list" where
  "sent [] = []"
| "sent (StateSend m # es) = m # sent es"
| "sent (e # es) = sent es"

fun deliver :: "string \<Rightarrow> topic \<Rightarrow> string \<Rightarrow> state_msg list \<Rightarrow> dist_registry \<Rightarrow> dist_registry" where
  "deliver self tp from [] r = r"
| "deliver self tp from (m # ms) r =
     deliver self tp from ms (fst (processIncomingMessage self tp tp m from r))"

lemma sent_append: "sent (es @ fs) = sent es @ sent fs"
  by (induction es rule: sent.induct) auto

lemma deliver_append: "deliver self tp from (ms @ ns) r = deliver self tp from ns (deliver self tp from ms r)"
  by (induction ms arbitrary: r) auto

lemma sent_addToServer [simp]: "sent (snd (addToServer n s r)) = []"
  by (simp add: addToServer_def split: option.splits)

lemma sent_removeFromServer [simp]: "sent (snd (removeFromServer n s r)) = []"
  by (simp add: removeFromServer_def Let_def split: option.splits)

lemma sent_dist_sendMessage [simp]: "sent (snd (dist_sendMessage self m r)) = [m]"
  by (simp add: dist_sendMessage_def)

lemma sent_dist_add:
  "sent (snd (dist_add self n r)) = (if view r self n then [] else [StateAdd n])"
  by (auto simp: dist_add_def split_beta view_defs sent_append split: option.splits)

lemma sent_dist_remove:
  "sent (snd (dist_remove self n r)) = (if last_local r n then [StateRemove n] else [])"
  by (auto simp: dist_remove_def split_beta last_local_def Let_def sent_append split: option.splits)

lemma deliver_local_step:
  assumes "\<And>n. view rB a n \<longleftrightarrow> view rA a n"
  shows "view (deliver b tp a (sent (snd (local_step a rA x))) rB) a n \<longleftrightarrow>
         view (fst (local_step a rA x)) a n"
  using assms
  by (cases x) (auto simp: sent_dist_add sent_dist_remove view_dist_add view_dist_remove
      view_addToServer view_removeFromServer)

text \<open>C38: a node that starts with the right picture of a peer and receives the peer's messages in
  order keeps the right picture: after any sequence of local adds and removes at the peer, both
  agree on the names the peer holds.\<close>

theorem dist_replication:
  assumes "\<forall>n. view rB a n \<longleftrightarrow> view rA a n"
  shows "\<forall>n. view (deliver b tp a (sent (snd (run (local_step a) rA os))) rB) a n \<longleftrightarrow>
             view (fst (run (local_step a) rA os)) a n"
  using assms
proof (induction os arbitrary: rA rB)
  case (Cons x os)
  let ?rA = "fst (local_step a rA x)" and ?rB = "deliver b tp a (sent (snd (local_step a rA x))) rB"
  have "\<forall>n. view ?rB a n \<longleftrightarrow> view ?rA a n"
    using deliver_local_step [of rB a rA] Cons.prems by blast
  from Cons.IH [OF this] show ?case
    by (simp add: Let_def split_beta sent_append deliver_append)
qed simp

theorem dist_replication_witness:
  "view (deliver ''B'' T_RECORD ''A''
      (sent (snd (run (local_step ''A'') (fst (dist_init ''A'' [])) [LAdd ''x'']))) (fst (dist_init ''B'' [])))
     ''A'' ''x''"
proof -
  let ?rA = "fst (dist_init ''A'' [])" and ?rB = "fst (dist_init ''B'' [])"
  have "\<forall>n. view ?rB ''A'' n \<longleftrightarrow> view ?rA ''A'' n" by (simp add: view_defs dist_init_def)
  from dist_replication [OF this, of "''B''" T_RECORD "[LAdd ''x'']"]
  show ?thesis by (simp add: split_beta view_dist_add)
qed

section \<open>Properties of reconciliation\<close>

text \<open>In reachable registries, two nodes that agree on the names a server holds compute the same
  checksum for it, so a checksum never starts a reconciliation between nodes that agree.\<close>

theorem dist_checksum_agrees:
  assumes "dist_reach a tp rA" and "dist_reach b tp rB"
    and "\<forall>n. view rA s n \<longleftrightarrow> view rB s n"
  shows "totalCheckSum s (data rA) = totalCheckSum s (data rB)"
  using dist_sys.reach_inv [OF assms(1)] dist_sys.reach_inv [OF assms(2)] assms(3)
  by (simp add: totalCheckSum_view)

lemma view_init: "\<not> view (fst (dist_init self servers)) s n"
  by (simp add: view_defs dist_init_def)

lemma dist_reach_init: "dist_reach self tp (fst (dist_init self servers))"
  by (rule reach_init) blast

lemma dist_reach_next: "dist_reach self tp r \<Longrightarrow> dist_reach self tp (fst (dist_step self tp r ev))"
  by (erule reach_step) blast

theorem dist_checksum_agrees_witness:
  "totalCheckSum ''A'' (data (fst (dist_step ''A'' T_RECORD (fst (dist_init ''A'' [])) (DAdd ''x'')))) =
   totalCheckSum ''A'' (data (fst (dist_step ''B'' T_RECORD (fst (dist_init ''B'' []))
     (DMessage T_RECORD (StateAdd ''x'') ''A''))))"
  by (rule dist_checksum_agrees [OF dist_reach_next [OF dist_reach_init] dist_reach_next [OF dist_reach_init]])
     (simp add: view_dist_add view_addToServer view_init)

text \<open>The checksum of a name stays inside the integers a double represents exactly, for every
  name of up to four million characters, so the running sum never rounds.\<close>

theorem createCheckSum_exact:
  assumes "length name \<le> 4000000"
  shows "\<bar>createCheckSum name\<bar> < 2 ^ 53"
  using checksum_loop_bound [of 0 name] assms by (simp add: createCheckSum_def)

theorem createCheckSum_exact_witness: "\<bar>createCheckSum ''abc''\<bar> < 2 ^ 53"
  by (rule createCheckSum_exact) simp

text \<open>Applying a full state only ever adds: a server's stale names survive it, although the
  method's comment says that entries missing from the message are removed.\<close>

theorem applyFullState_keeps_stale:
  "view (fst (applyFullState serverName names r)) s n \<longleftrightarrow>
     view r s n \<or> (s = serverName \<and> n \<in> set names)"
  by (rule view_applyFullState)

text \<open>A name that a remote server held first, that this node released and subscribes to again, has
  a local count one too low: after the next matching add and remove this node still announces
  itself as a holder.\<close>

theorem dist_local_count_leak:
  assumes "self \<noteq> other"
  shows "view (fst (run (dist_step self tp) (fst (dist_init self []))
      [DMessage tp (StateAdd n) other, DAdd n, DRemove n, DAdd n, DRemove n])) self n"
  using assms
  by (simp add: split_beta view_defs dist_init_def addToServer_def dist_add_def dist_remove_def
      removeFromServer_def dist_sendMessage_def getCheckSumTotal_def arm_def set_add_def js_simps
      Let_def)

theorem dist_local_count_leak_witness:
  "view (fst (run (dist_step ''A'' T_RECORD) (fst (dist_init ''A'' []))
      [DMessage T_RECORD (StateAdd ''x'') ''B'', DAdd ''x'', DRemove ''x'', DAdd ''x'', DRemove ''x'']))
     ''A'' ''x''"
  by (rule dist_local_count_leak) simp

section \<open>Leaving servers\<close>

lemma view_remove_server_from:
  assumes "distinct (map fst es)"
  shows "view (fst (remove_server_from srv es r)) s n \<longleftrightarrow>
    view r s n \<and> \<not> (s = srv \<and> (\<exists>e. (n, e) \<in> set es \<and> srv \<in> set (nodes e)))"
  using assms
proof (induction es arbitrary: r)
  case (Cons p es)
  obtain m e where p: "p = (m, e)" by (cases p)
  let ?r1 = "if srv \<in> set (nodes e) then fst (removeFromServer m srv r) else r"
  have "view (fst (remove_server_from srv (p # es) r)) s n = view (fst (remove_server_from srv es ?r1)) s n"
    by (simp add: p Let_def split_beta)
  with Cons show ?case by (auto simp: p view_removeFromServer)
qed simp

text \<open>When a server leaves the cluster, no name keeps it and no other server's names change.\<close>

theorem onServerRemoved_view:
  assumes "dist_reach self tp r"
  shows "view (fst (onServerRemoved srv r)) s n \<longleftrightarrow> view r s n \<and> s \<noteq> srv"
proof -
  have inv: "dist_inv r" using dist_sys.reach_inv [OF assms] .
  then have dist: "distinct (map fst (data r))" by (simp add: dist_inv_def)
  have "view r srv n \<longleftrightarrow> (\<exists>e. (n, e) \<in> set (data r) \<and> srv \<in> set (nodes e))"
    using dist by (auto simp: view_defs dest!: map_of_SomeD split: option.splits)
  then show ?thesis
    unfolding onServerRemoved_def view_remove_server_from [OF dist] by blast
qed

theorem onServerRemoved_view_witness:
  "\<not> view (fst (onServerRemoved ''B'' (fst (dist_step ''A'' T_RECORD (fst (dist_init ''A'' []))
      (DMessage T_RECORD (StateAdd ''x'') ''B''))))) ''B'' ''x''"
  using onServerRemoved_view [OF dist_reach_next [OF dist_reach_init]] by blast

section \<open>A cluster of one node\<close>

text \<open>
  While no other server holds anything, the registry is a reference counter and meets the same
  interface as \<open>SingleStateRegistry\<close>; the count of a name is its \<open>localCount\<close>.
\<close>

fun emitted :: "dist_effect list \<Rightarrow> reg_event list" where
  "emitted [] = []"
| "emitted (EmitAdd n # es) = NameAdded n # emitted es"
| "emitted (EmitRemove n # es) = NameRemoved n # emitted es"
| "emitted (e # es) = emitted es"

definition solo_add :: "string \<Rightarrow> string \<Rightarrow> dist_registry \<Rightarrow> dist_registry \<times> reg_event list" where
  "solo_add self n r = (fst (dist_add self n r), emitted (snd (dist_add self n r)))"

definition solo_remove :: "string \<Rightarrow> string \<Rightarrow> dist_registry \<Rightarrow> dist_registry \<times> reg_event list" where
  "solo_remove self n r = (fst (dist_remove self n r), emitted (snd (dist_remove self n r)))"

definition solo_cnt :: "dist_registry \<Rightarrow> string \<Rightarrow> nat" where
  "solo_cnt r n = (case js_get (data r) n of Some e \<Rightarrow> nat (localCount e) | None \<Rightarrow> 0)"

definition solo_inv :: "string \<Rightarrow> dist_registry \<Rightarrow> bool" where
  "solo_inv self r \<longleftrightarrow> distinct (js_keys (data r)) \<and>
     (\<forall>n e. js_get (data r) n = Some e \<longrightarrow> nodes e = [self] \<and> 0 < localCount e)"

lemma solo_cases:
  assumes "solo_inv self r"
  obtains "js_get (data r) n = None" "solo_cnt r n = 0"
  | e where "js_get (data r) n = Some e" "nodes e = [self]" "0 < localCount e"
      "solo_cnt r n = nat (localCount e)"
  using assms by (cases "js_get (data r) n") (auto simp: solo_inv_def solo_cnt_def)

lemma solo_inv_cong: "data r' = data r \<Longrightarrow> solo_inv self r' = solo_inv self r"
  by (simp add: solo_inv_def)

lemma solo_cnt_cong: "data r' = data r \<Longrightarrow> solo_cnt r' = solo_cnt r"
  by (intro ext) (simp add: solo_cnt_def)

lemma data_set_simp [simp]: "data (r\<lparr>data := d\<rparr>) = d"
  by simp

lemma solo_state_add:
  assumes "solo_inv self r"
  shows "\<exists>e. nodes e = [self] \<and> localCount e = int (Suc (solo_cnt r n)) \<and>
    data (fst (dist_add self n r)) = js_set n e (data r) \<and>
    emitted (snd (dist_add self n r)) = (if solo_cnt r n = 0 then [NameAdded n] else [])"
proof (cases rule: solo_cases [OF assms, of n])
  case 1
  then show ?thesis
    by (intro exI [of _ "\<lparr>localCount = 1, nodes = [self], checkSum = createCheckSum n\<rparr>"])
       (simp add: dist_add_def split_beta addToServer_def dist_sendMessage_def)
next
  case (2 e)
  then show ?thesis by (auto simp: dist_add_def intro: exI [of _ "e\<lparr>localCount := localCount e + 1\<rparr>"])
qed

lemma solo_state_remove:
  assumes "solo_inv self r" and "0 < solo_cnt r n"
  shows "if solo_cnt r n = 1
    then data (fst (dist_remove self n r)) = js_delete n (data r) \<and>
         emitted (snd (dist_remove self n r)) = [NameRemoved n]
    else (\<exists>e. nodes e = [self] \<and> localCount e = int (solo_cnt r n - 1) \<and>
         data (fst (dist_remove self n r)) = js_set n e (data r)) \<and>
         emitted (snd (dist_remove self n r)) = []"
proof (cases rule: solo_cases [OF assms(1), of n])
  case 1
  with assms(2) show ?thesis by simp
next
  case (2 e)
  show ?thesis
  proof (cases "localCount e = 1")
    case True
    with 2 show ?thesis
      by (simp add: dist_remove_def split_beta Let_def removeFromServer_def js_simps
          dist_sendMessage_def delete_update_same)
  next
    case False
    with 2 show ?thesis
      by (auto simp: dist_remove_def intro!: exI [of _ "e\<lparr>localCount := localCount e - 1\<rparr>"])
  qed
qed

lemma solo_set:
  assumes "solo_inv self r" and "nodes e = [self]" and "localCount e = int k" and "0 < k"
    and "data r' = js_set n e (data r)"
  shows "solo_inv self r' \<and> solo_cnt r' = (solo_cnt r)(n := k)"
  using assms by (auto simp: solo_inv_def solo_cnt_def js_simps fun_eq_iff)

lemma solo_delete:
  assumes "solo_inv self r" and "data r' = js_delete n (data r)"
  shows "solo_inv self r' \<and> solo_cnt r' = (solo_cnt r)(n := 0)"
  using assms by (auto simp: solo_inv_def solo_cnt_def js_simps fun_eq_iff)

lemma solo_add_spec:
  assumes "solo_inv self r"
  shows "solo_inv self (fst (solo_add self n r)) \<and>
    solo_cnt (fst (solo_add self n r)) = (solo_cnt r)(n := Suc (solo_cnt r n)) \<and>
    snd (solo_add self n r) = (if solo_cnt r n = 0 then [NameAdded n] else [])"
proof -
  obtain e where e: "nodes e = [self]" "localCount e = int (Suc (solo_cnt r n))"
    "data (fst (dist_add self n r)) = js_set n e (data r)"
    "emitted (snd (dist_add self n r)) = (if solo_cnt r n = 0 then [NameAdded n] else [])"
    using solo_state_add [OF assms] by blast
  show ?thesis using solo_set [OF assms e(1,2) _ e(3)] e(4) by (simp add: solo_add_def)
qed

lemma solo_remove_spec:
  assumes "solo_inv self r" and "0 < solo_cnt r n"
  shows "solo_inv self (fst (solo_remove self n r)) \<and>
    solo_cnt (fst (solo_remove self n r)) = (solo_cnt r)(n := solo_cnt r n - 1) \<and>
    snd (solo_remove self n r) = (if solo_cnt r n = 1 then [NameRemoved n] else [])"
proof (cases "solo_cnt r n = 1")
  case True
  then have "data (fst (dist_remove self n r)) = js_delete n (data r)"
    and "emitted (snd (dist_remove self n r)) = [NameRemoved n]"
    using solo_state_remove [OF assms] by simp_all
  with solo_delete [OF assms(1)] True show ?thesis by (simp add: solo_remove_def)
next
  case False
  then obtain e where e: "nodes e = [self]" "localCount e = int (solo_cnt r n - 1)"
    "data (fst (dist_remove self n r)) = js_set n e (data r)"
    "emitted (snd (dist_remove self n r)) = []"
    using solo_state_remove [OF assms] by auto
  have "0 < solo_cnt r n - 1" using False assms(2) by simp
  from solo_set [OF assms(1) e(1,2) this e(3)] e(4) False show ?thesis
    by (simp add: solo_remove_def)
qed

lemma solo_names_spec:
  assumes "solo_inv self r"
  shows "dist_has r n \<longleftrightarrow> 0 < solo_cnt r n"
    and "set (dist_getAll r None) = {n. 0 < solo_cnt r n}"
    and "distinct (dist_getAll r None)"
proof -
  have h: "dist_has r n \<longleftrightarrow> 0 < solo_cnt r n" for n
    by (cases rule: solo_cases [OF assms, of n]) (simp_all add: dist_has_def js_has_def)
  show "dist_has r n \<longleftrightarrow> 0 < solo_cnt r n" by (rule h)
  show "set (dist_getAll r None) = {n. 0 < solo_cnt r n}"
    using h by (auto simp: dist_has_def js_has_keys dist_getAll_def nonempty_def)
  show "distinct (dist_getAll r None)"
    using assms by (simp add: solo_inv_def dist_getAll_def nonempty_def)
qed

interpretation solo: state_registry "solo_add self" "solo_remove self" dist_has
    "\<lambda>r. dist_getAll r None" solo_cnt "solo_inv self"
  for self
  by unfold_locales (auto simp: solo_add_spec solo_remove_spec solo_names_spec)

end
