(* ===== verification/Subscriptions.thy ===== *)
theory Subscriptions
  imports StateRegistry
begin

text \<open>
  The subscription registry (\<open>src/services/subscription-registry/default-subscription-registry.ts\<close>):
  which sockets subscribe to which names, kept in two indices. The calls on the cluster's state
  registry, the listener notifications and the close callbacks of the sockets are effects, in the
  order the code makes them; a subscription object is identified by its name.
\<close>

section \<open>State\<close>

record sub_actions =
  MULTIPLE_SUBSCRIPTIONS :: action
  NOT_SUBSCRIBED :: action
  SUBSCRIBE :: action
  UNSUBSCRIBE :: action

record sub_registry =
  sockets :: "(socket, string jsset) jsmap"
  subscriptions :: "(string, socket jsset) jsmap"
  subscriptionListener :: bool
  constants :: sub_actions
  sr_topic :: topic
  invalidSockets :: "socket jsset"

datatype sub_effect =
    Out effect
  | RegistryCall reg_op
  | SubscriptionMade string socket
  | SubscriptionRemoved string socket
  | AddOnClose socket
  | RemoveOnClose socket

fun is_state_registry_topic :: "topic \<Rightarrow> bool" where
  "is_state_registry_topic T_RECORD_LISTEN_PATTERNS = True"
| "is_state_registry_topic T_EVENT_LISTEN_PATTERNS = True"
| "is_state_registry_topic T_RECORD_LISTENING = True"
| "is_state_registry_topic T_EVENT_LISTENING = True"
| "is_state_registry_topic _ = False"

definition record_sub_actions :: sub_actions where
  "record_sub_actions = \<lparr>MULTIPLE_SUBSCRIPTIONS = RecordA RA_MULTIPLE_SUBSCRIPTIONS,
     NOT_SUBSCRIBED = RecordA RA_NOT_SUBSCRIBED, SUBSCRIBE = RecordA RA_SUBSCRIBE,
     UNSUBSCRIBE = RecordA RA_UNSUBSCRIBE\<rparr>"

definition event_sub_actions :: sub_actions where
  "event_sub_actions = \<lparr>MULTIPLE_SUBSCRIPTIONS = EventA EA_MULTIPLE_SUBSCRIPTIONS,
     NOT_SUBSCRIBED = EventA EA_NOT_SUBSCRIBED, SUBSCRIBE = EventA EA_SUBSCRIBE,
     UNSUBSCRIBE = EventA EA_UNSUBSCRIBE\<rparr>"

fun actions_of :: "topic \<Rightarrow> sub_actions" where
  "actions_of T_RECORD = record_sub_actions"
| "actions_of T_RECORD_LISTEN_PATTERNS = record_sub_actions"
| "actions_of T_EVENT = event_sub_actions"
| "actions_of T_EVENT_LISTEN_PATTERNS = event_sub_actions"
| "actions_of T_PRESENCE = \<lparr>MULTIPLE_SUBSCRIPTIONS = PresenceA UA_MULTIPLE_SUBSCRIPTIONS,
     NOT_SUBSCRIBED = PresenceA UA_NOT_SUBSCRIBED, SUBSCRIBE = PresenceA UA_SUBSCRIBE,
     UNSUBSCRIBE = PresenceA UA_UNSUBSCRIBE\<rparr>"
| "actions_of _ = \<lparr>MULTIPLE_SUBSCRIPTIONS = UndefinedA, NOT_SUBSCRIBED = UndefinedA,
     SUBSCRIBE = UndefinedA, UNSUBSCRIBE = UndefinedA\<rparr>"

definition new_registry :: "topic \<Rightarrow> sub_registry" where
  "new_registry topic = \<lparr>sockets = [], subscriptions = [], subscriptionListener = False,
     constants = actions_of topic, sr_topic = topic, invalidSockets = []\<rparr>"

section \<open>Operations\<close>

definition getAllRemoteServers :: "string \<Rightarrow> string list \<Rightarrow> string list" where
  "getAllRemoteServers serverName serverNames =
     (if js_indexOf serverNames serverName > -1
      then js_splice1 (js_indexOf serverNames serverName) serverNames else serverNames)"

definition js_upper :: "char \<Rightarrow> char" where
  "js_upper c = (let n = of_char c :: nat in if 97 \<le> n \<and> n \<le> 122 then char_of (n - 32) else c)"

definition setAction :: "string \<Rightarrow> action \<Rightarrow> sub_registry \<Rightarrow> sub_registry" where
  "setAction name v r =
     (let n = map js_upper name; c = constants r
      in if n = ''MULTIPLE_SUBSCRIPTIONS'' then r\<lparr>constants := c\<lparr>MULTIPLE_SUBSCRIPTIONS := v\<rparr>\<rparr>
         else if n = ''NOT_SUBSCRIBED'' then r\<lparr>constants := c\<lparr>NOT_SUBSCRIBED := v\<rparr>\<rparr>
         else if n = ''SUBSCRIBE'' then r\<lparr>constants := c\<lparr>SUBSCRIBE := v\<rparr>\<rparr>
         else if n = ''UNSUBSCRIBE'' then r\<lparr>constants := c\<lparr>UNSUBSCRIBE := v\<rparr>\<rparr>
         else r)"

definition getLocalSubscribers :: "sub_registry \<Rightarrow> string \<Rightarrow> socket jsset" where
  "getLocalSubscribers r name = (case js_get (subscriptions r) name of Some ss \<Rightarrow> ss | None \<Rightarrow> [])"

definition hasLocalSubscribers :: "sub_registry \<Rightarrow> string \<Rightarrow> bool" where
  "hasLocalSubscribers r name = js_has (subscriptions r) name"

definition setSubscriptionListener :: "sub_registry \<Rightarrow> sub_registry" where
  "setSubscriptionListener r = r\<lparr>subscriptionListener := True\<rparr>"

text \<open>The message each subscriber gets: \<open>data\<close> is deleted when there is parsed data to encode.\<close>

definition broadcast_message :: "message \<Rightarrow> message" where
  "broadcast_message m = (if truthy (m_parsed m) then m\<lparr>m_data := None\<rparr> else m)"

definition sendToSubscribers ::
  "string \<Rightarrow> message \<Rightarrow> bool \<Rightarrow> socket option \<Rightarrow> bool \<Rightarrow> sub_registry \<Rightarrow> sub_effect list" where
  "sendToSubscribers name m noDelay sender suppressRemote r =
     (if sender \<noteq> None \<and> \<not> suppressRemote then [Out (ClusterSend m)] else []) @
     (case js_get (subscriptions r) name of
        None \<Rightarrow> []
      | Some ss \<Rightarrow> map (\<lambda>s. Out (SendBuilt s (broadcast_message m) (\<not> noDelay)))
                      (filter (\<lambda>s. Some s \<noteq> sender) ss))"

definition addSocket :: "string \<Rightarrow> socket \<Rightarrow> sub_registry \<Rightarrow> sub_registry \<times> sub_effect list" where
  "addSocket name s r =
     (let subs = (case js_get (sockets r) s of Some ns \<Rightarrow> ns | None \<Rightarrow> [])
      in (r\<lparr>sockets := js_set s (set_add name subs) (sockets r)\<rparr>,
          (if subs = [] then [AddOnClose s] else []) @
          [RegistryCall (RegAdd name)] @
          (if subscriptionListener r then [SubscriptionMade name s] else [])))"

definition removeSocket :: "string \<Rightarrow> socket \<Rightarrow> sub_registry \<Rightarrow> sub_registry \<times> sub_effect list" where
  "removeSocket name s r =
     (let r1 = (if getLocalSubscribers r name = [] then r\<lparr>subscriptions := js_delete name (subscriptions r)\<rparr> else r);
          e1 = (if subscriptionListener r then [SubscriptionRemoved name s] else []) @
               [RegistryCall (RegRemove name)]
      in case js_get (sockets r1) s of
           None \<Rightarrow> (r1, e1)
         | Some ns \<Rightarrow>
             (let ns' = set_delete name ns
              in if ns' = [] then (r1\<lparr>sockets := js_delete s (sockets r1)\<rparr>, e1 @ [RemoveOnClose s])
                 else (r1\<lparr>sockets := js_set s ns' (sockets r1)\<rparr>, e1)))"

definition subscribe ::
  "string \<Rightarrow> message \<Rightarrow> socket \<Rightarrow> bool \<Rightarrow> sub_registry \<Rightarrow> sub_registry \<times> sub_effect list" where
  "subscribe name m s silent r =
     (let ss = getLocalSubscribers r name
      in if s \<in> set ss
         then (r, [Out (SendMessage s ((msg (sr_topic r) (MULTIPLE_SUBSCRIPTIONS (constants r)))
                     \<lparr>m_original := Some (m_action m), m_name := Some name\<rparr>))])
         else (let r1 = r\<lparr>subscriptions := js_set name (set_add s ss) (subscriptions r)\<rparr>;
                   (r2, e2) = addSocket name s r1
               in (r2, e2 @ (if silent then [] else [Out (SendAck s m)]))))"

definition unsubscribe ::
  "string \<Rightarrow> message \<Rightarrow> socket \<Rightarrow> bool \<Rightarrow> sub_registry \<Rightarrow> sub_registry \<times> sub_effect list" where
  "unsubscribe name m s silent r =
     (let ss = getLocalSubscribers r name
      in if s \<notin> set ss
         then (r, if silent \<or> is_state_registry_topic (sr_topic r) then []
                  else [Out (SendMessage s ((msg (sr_topic r) (NOT_SUBSCRIBED (constants r)))
                          \<lparr>m_original := Some (m_action m), m_name := Some name\<rparr>))])
         else (let r1 = r\<lparr>subscriptions := js_set name (set_delete s ss) (subscriptions r)\<rparr>;
                   (r2, e2) = removeSocket name s r1
               in (r2, e2 @ (if silent then [] else [Out (SendAck s m)]))))"

definition bulk_ack :: "message \<Rightarrow> message" where
  "bulk_ack m = (msg (m_topic m) (m_action m))\<lparr>m_corr := m_corr m\<rparr>"

fun bulk :: "(string \<Rightarrow> sub_registry \<Rightarrow> sub_registry \<times> sub_effect list) \<Rightarrow> string list \<Rightarrow> sub_registry \<Rightarrow>
    sub_registry \<times> sub_effect list" where
  "bulk f [] r = (r, [])"
| "bulk f (n # ns) r =
     (let (r1, e1) = f n r; (r2, e2) = bulk f ns r1 in (r2, e1 @ e2))"

definition subscribeBulk ::
  "string list \<Rightarrow> message \<Rightarrow> socket \<Rightarrow> bool \<Rightarrow> sub_registry \<Rightarrow> sub_registry \<times> sub_effect list" where
  "subscribeBulk names m s silent r =
     (let (r1, e1) = bulk (\<lambda>n. subscribe n m s True) names r
      in (r1, e1 @ (if silent then [] else [Out (SendAck s (bulk_ack m))])))"

definition unsubscribeBulk ::
  "string list \<Rightarrow> message \<Rightarrow> socket \<Rightarrow> bool \<Rightarrow> sub_registry \<Rightarrow> sub_registry \<times> sub_effect list" where
  "unsubscribeBulk names m s silent r =
     (let (r1, e1) = bulk (\<lambda>n. unsubscribe n m s True) names r
      in (r1, e1 @ (if silent then [] else [Out (SendAck s (bulk_ack m))])))"

text \<open>The close callback: every subscription of the socket is dropped.\<close>

definition drop_one :: "socket \<Rightarrow> string \<Rightarrow> sub_registry \<Rightarrow> sub_registry \<times> sub_effect list" where
  "drop_one s name r =
     removeSocket name s
       (if js_has (subscriptions r) name
        then r\<lparr>subscriptions := js_set name (set_delete s (getLocalSubscribers r name)) (subscriptions r)\<rparr>
        else r)"

definition onSocketClose :: "socket \<Rightarrow> sub_registry \<Rightarrow> sub_registry \<times> sub_effect list" where
  "onSocketClose s r =
     (case js_get (sockets r) s of
        None \<Rightarrow> (r, [])
      | Some ns \<Rightarrow>
          (let (r1, e1) = bulk (drop_one s) ns r
           in (r1\<lparr>sockets := js_delete s (sockets r1)\<rparr>, e1)))"

definition illegalCleanup :: "(socket \<Rightarrow> bool) \<Rightarrow> sub_registry \<Rightarrow> sub_registry" where
  "illegalCleanup isClosed r =
     r\<lparr>invalidSockets := foldl (\<lambda>inv s. if isClosed s then set_add s inv else inv)
         (invalidSockets r) (js_keys (sockets r))\<rparr>"

section \<open>The two indices agree\<close>

definition names_of :: "sub_registry \<Rightarrow> socket \<Rightarrow> string jsset" where
  "names_of r s = (case js_get (sockets r) s of Some ns \<Rightarrow> ns | None \<Rightarrow> [])"

definition sub_inv :: "sub_registry \<Rightarrow> bool" where
  "sub_inv r \<longleftrightarrow>
     distinct (js_keys (sockets r)) \<and> distinct (js_keys (subscriptions r)) \<and>
     (\<forall>n ss. js_get (subscriptions r) n = Some ss \<longrightarrow> ss \<noteq> [] \<and> distinct ss) \<and>
     (\<forall>s ns. js_get (sockets r) s = Some ns \<longrightarrow> ns \<noteq> [] \<and> distinct ns) \<and>
     (\<forall>n s. s \<in> set (getLocalSubscribers r n) \<longleftrightarrow> n \<in> set (names_of r s))"

text \<open>The abstract registry: a relation between names and sockets.\<close>

definition rel :: "sub_registry \<Rightarrow> (string \<times> socket) set" where
  "rel r = {(n, s). s \<in> set (getLocalSubscribers r n)}"

text \<open>The subscriber count per name, which is what the state registry has to count.\<close>

definition sub_count :: "sub_registry \<Rightarrow> string \<Rightarrow> nat" where
  "sub_count r n = length (getLocalSubscribers r n)"

fun registry_calls :: "sub_effect list \<Rightarrow> reg_op list" where
  "registry_calls [] = []"
| "registry_calls (RegistryCall c # es) = c # registry_calls es"
| "registry_calls (e # es) = registry_calls es"

lemma registry_calls_append [simp]: "registry_calls (es @ fs) = registry_calls es @ registry_calls fs"
  by (induction es rule: registry_calls.induct) auto

text \<open>The sockets whose close event the registry listens to, after some effects.\<close>

fun close_listeners :: "sub_effect list \<Rightarrow> socket set \<Rightarrow> socket set" where
  "close_listeners [] C = C"
| "close_listeners (AddOnClose s # es) C = close_listeners es (insert s C)"
| "close_listeners (RemoveOnClose s # es) C = close_listeners es (C - {s})"
| "close_listeners (e # es) C = close_listeners es C"

lemma close_listeners_append [simp]:
  "close_listeners (es @ fs) C = close_listeners fs (close_listeners es C)"
  by (induction es C rule: close_listeners.induct) auto

definition listening :: "sub_registry \<Rightarrow> socket set" where
  "listening r = set (js_keys (sockets r))"

lemmas index_defs = getLocalSubscribers_def names_of_def

lemma sub_invD:
  assumes "sub_inv r"
  shows "distinct (getLocalSubscribers r n)" "distinct (names_of r s)"
    and "s \<in> set (getLocalSubscribers r n) \<longleftrightarrow> n \<in> set (names_of r s)"
    and "js_get (sockets r) s = None \<longleftrightarrow> names_of r s = []"
    and "js_get (subscriptions r) n = None \<longleftrightarrow> getLocalSubscribers r n = []"
proof -
  have sub: "ss \<noteq> [] \<and> distinct ss" if "js_get (subscriptions r) n = Some ss" for ss
    using assms that unfolding sub_inv_def by blast
  have sock: "ns \<noteq> [] \<and> distinct ns" if "js_get (sockets r) s = Some ns" for ns
    using assms that unfolding sub_inv_def by blast
  show "distinct (getLocalSubscribers r n)"
    and "js_get (subscriptions r) n = None \<longleftrightarrow> getLocalSubscribers r n = []"
    using sub by (cases "js_get (subscriptions r) n"; simp add: getLocalSubscribers_def)+
  show "distinct (names_of r s)" and "js_get (sockets r) s = None \<longleftrightarrow> names_of r s = []"
    using sock by (cases "js_get (sockets r) s"; simp add: names_of_def)+
  show "s \<in> set (getLocalSubscribers r n) \<longleftrightarrow> n \<in> set (names_of r s)"
    using assms unfolding sub_inv_def by blast
qed

lemma sub_invI:
  assumes "distinct (js_keys (sockets r))" "distinct (js_keys (subscriptions r))"
    and "\<And>n ss. js_get (subscriptions r) n = Some ss \<Longrightarrow> ss \<noteq> [] \<and> distinct ss"
    and "\<And>s ns. js_get (sockets r) s = Some ns \<Longrightarrow> ns \<noteq> [] \<and> distinct ns"
    and "\<And>n s. s \<in> set (getLocalSubscribers r n) \<longleftrightarrow> n \<in> set (names_of r s)"
  shows "sub_inv r"
  using assms unfolding sub_inv_def by blast

text \<open>What a step must show: the invariant, the new relation, and that its effects keep the state
  registry's counts and the close callbacks in line.\<close>

definition step_ok ::
  "sub_registry \<Rightarrow> sub_registry \<times> sub_effect list \<Rightarrow> (string \<times> socket) set \<Rightarrow> bool" where
  "step_ok r res R \<longleftrightarrow> (case res of (r', es) \<Rightarrow>
     sub_inv r' \<and> rel r' = R \<and>
     balanced (sub_count r) (registry_calls es) \<and>
     count_after (sub_count r) (registry_calls es) = sub_count r' \<and>
     close_listeners es (listening r) = listening r')"

lemma step_okI:
  assumes "sub_inv r'" "rel r' = R" "balanced (sub_count r) (registry_calls es)"
    and "count_after (sub_count r) (registry_calls es) = sub_count r'"
    and "close_listeners es (listening r) = listening r'"
  shows "step_ok r (r', es) R"
  using assms by (simp add: step_ok_def)

lemma balanced_append:
  "balanced c (xs @ ys) \<longleftrightarrow> balanced c xs \<and> balanced (count_after c xs) ys"
proof (induction xs arbitrary: c)
  case (Cons a xs)
  then show ?case by (cases a) (simp_all del: fun_upd_apply)
qed simp

lemma count_after_append: "count_after c (xs @ ys) = count_after (count_after c xs) ys"
proof (induction xs arbitrary: c)
  case (Cons a xs)
  then show ?case by (cases a) (simp_all del: fun_upd_apply)
qed simp

lemma step_ok_seq:
  assumes "step_ok r (r1, e1) R1" and "step_ok r1 (r2, e2) R2"
  shows "step_ok r (r2, e1 @ e2) R2"
  using assms by (simp add: step_ok_def balanced_append count_after_append)

lemma step_ok_noop: "sub_inv r \<Longrightarrow> registry_calls es = [] \<Longrightarrow> close_listeners es (listening r) = listening r
    \<Longrightarrow> step_ok r (r, es) (rel r)"
  by (simp add: step_ok_def)

section \<open>Every operation keeps them in agreement\<close>

text \<open>Both indices drop an entry that gets empty.\<close>

definition put :: "'k \<Rightarrow> 'a list \<Rightarrow> ('k, 'a list) jsmap \<Rightarrow> ('k, 'a list) jsmap" where
  "put k xs m = (if xs = [] then js_delete k m else js_set k xs m)"

lemma js_get_put: "js_get (put k xs m) k' =
    (if k' = k then (if xs = [] then None else Some xs) else js_get m k')"
  by (simp add: put_def js_simps)

lemma js_delete_set: "js_delete k (js_set k v m) = js_delete k m"
  by (induction m) auto

lemma distinct_put: "distinct (js_keys m) \<Longrightarrow> distinct (js_keys (put k xs m))"
  by (simp add: put_def)

text \<open>One pair of the relation changes: the entry of the name and the entry of the socket.\<close>

definition upd :: "string \<Rightarrow> socket \<Rightarrow> socket jsset \<Rightarrow> string jsset \<Rightarrow> sub_registry \<Rightarrow> sub_registry" where
  "upd n s ss ns r =
     r\<lparr>subscriptions := put n ss (subscriptions r), sockets := put s ns (sockets r)\<rparr>"

lemma upd_local: "getLocalSubscribers (upd n s ss ns r) m = (if m = n then ss else getLocalSubscribers r m)"
  by (simp add: getLocalSubscribers_def upd_def js_get_put)

lemma upd_names: "names_of (upd n s ss ns r) t = (if t = s then ns else names_of r t)"
  by (simp add: names_of_def upd_def js_get_put)

lemma upd_listening: "listening (upd n s ss ns r) =
    (if ns = [] then listening r - {s} else insert s (listening r))"
  using js_keys_set [of s ns "sockets r"] js_keys_delete [of s "sockets r"] by (simp add: upd_def put_def listening_def)

lemma upd_inv:
  assumes "sub_inv r" "distinct ss" "distinct ns"
    and "\<And>t. t \<noteq> s \<Longrightarrow> t \<in> set ss \<longleftrightarrow> t \<in> set (getLocalSubscribers r n)"
    and "\<And>m. m \<noteq> n \<Longrightarrow> m \<in> set ns \<longleftrightarrow> m \<in> set (names_of r s)"
    and "s \<in> set ss \<longleftrightarrow> n \<in> set ns"
  shows "sub_inv (upd n s ss ns r)"
proof (rule sub_invI)
  show "distinct (js_keys (sockets (upd n s ss ns r)))"
    and "distinct (js_keys (subscriptions (upd n s ss ns r)))"
    using assms(1) by (simp_all add: sub_inv_def upd_def distinct_put)
next
  fix m xs
  assume "js_get (subscriptions (upd n s ss ns r)) m = Some xs"
  then show "xs \<noteq> [] \<and> distinct xs"
    using assms(1,2) unfolding sub_inv_def
    by (simp add: upd_def js_get_put split: if_splits; blast)
next
  fix t xs
  assume "js_get (sockets (upd n s ss ns r)) t = Some xs"
  then show "xs \<noteq> [] \<and> distinct xs"
    using assms(1,3) unfolding sub_inv_def
    by (simp add: upd_def js_get_put split: if_splits; blast)
next
  fix m t
  show "t \<in> set (getLocalSubscribers (upd n s ss ns r) m) \<longleftrightarrow> m \<in> set (names_of (upd n s ss ns r) t)"
    using assms(4) [of t] assms(5) [of m] assms(6) sub_invD(3) [OF assms(1)]
    by (auto simp: upd_local upd_names)
qed

lemma upd_rel: "rel (upd n s ss ns r) = (rel r - {n} \<times> UNIV) \<union> {n} \<times> set ss"
  by (auto simp: rel_def upd_local split: if_splits)

lemma upd_count: "sub_count (upd n s ss ns r) = (sub_count r)(n := length ss)"
  by (rule ext) (simp add: sub_count_def upd_local)

lemma listening_iff: "s \<in> listening r \<longleftrightarrow> js_get (sockets r) s \<noteq> None"
  using js_has_keys [of "sockets r" s] by (simp add: js_has_def listening_def)

text \<open>Adding and removing a pair are updates of that kind, with the matching effects.\<close>

lemma addSocket_ok:
  assumes "sub_inv r" and new: "s \<notin> set (getLocalSubscribers r n)"
  shows "step_ok r (addSocket n s (r\<lparr>subscriptions := js_set n (set_add s (getLocalSubscribers r n)) (subscriptions r)\<rparr>))
    (insert (n, s) (rel r))"
proof -
  let ?ss = "set_add s (getLocalSubscribers r n)" and ?ns = "set_add n (names_of r s)"
  let ?r' = "upd n s ?ss ?ns r"
  have eq: "addSocket n s (r\<lparr>subscriptions := js_set n ?ss (subscriptions r)\<rparr>) =
      (?r', (if names_of r s = [] then [AddOnClose s] else []) @ [RegistryCall (RegAdd n)] @
            (if subscriptionListener r then [SubscriptionMade n s] else []))"
    by (simp add: addSocket_def upd_def put_def names_of_def Let_def)
  have inv: "sub_inv ?r'"
    using new sub_invD [OF assms(1)] by (intro upd_inv assms(1)) (auto simp: js_simps)
  have "s \<in> listening r \<longleftrightarrow> names_of r s \<noteq> []"
    using sub_invD(4) [OF assms(1), of s] listening_iff [of s r] by simp
  moreover have "rel ?r' = insert (n, s) (rel r)"
    by (auto simp: upd_local js_simps rel_def split: if_splits)
  moreover have "length ?ss = Suc (sub_count r n)"
    using new by (simp add: length_set_add sub_count_def)
  ultimately show ?thesis
    unfolding eq by (intro step_okI inv) (auto simp: upd_count upd_listening)
qed

lemma removeSocket_ok:
  assumes "sub_inv r" and old: "s \<in> set (getLocalSubscribers r n)"
  shows "step_ok r (removeSocket n s (r\<lparr>subscriptions := js_set n (set_delete s (getLocalSubscribers r n)) (subscriptions r)\<rparr>))
    (rel r - {(n, s)})"
proof -
  let ?ss = "set_delete s (getLocalSubscribers r n)" and ?ns = "set_delete n (names_of r s)"
  let ?r' = "upd n s ?ss ?ns r"
  note inv0 = sub_invD [OF assms(1)]
  have n: "n \<in> set (names_of r s)" using old inv0(3) by simp
  then obtain ns where ns: "js_get (sockets r) s = Some ns" "names_of r s = ns"
    using inv0(4) [of s] by (cases "js_get (sockets r) s") (auto simp: names_of_def)
  have eq: "removeSocket n s (r\<lparr>subscriptions := js_set n ?ss (subscriptions r)\<rparr>) =
      (?r', (if subscriptionListener r then [SubscriptionRemoved n s] else []) @
            [RegistryCall (RegRemove n)] @ (if ?ns = [] then [RemoveOnClose s] else []))"
    using ns by (simp add: removeSocket_def upd_def put_def getLocalSubscribers_def js_simps Let_def
        js_delete_set)
  have inv: "sub_inv ?r'" using inv0(1,2) by (intro upd_inv assms(1)) (auto simp: distinct_removeAll)
  have "rel ?r' = rel r - {(n, s)}" by (auto simp: upd_local rel_def split: if_splits)
  moreover have "sub_count r n = Suc (length ?ss)"
    using old inv0(1) by (simp add: length_set_delete sub_count_def)
  moreover have "s \<in> listening r" using ns(1) by (simp add: listening_iff)
  ultimately show ?thesis
    unfolding eq by (intro step_okI inv) (simp_all add: upd_count upd_listening insert_absorb)
qed

lemma drop_one_ok:
  assumes "sub_inv r" and "n \<in> set (names_of r s)"
  shows "step_ok r (drop_one s n r) (rel r - {(n, s)})"
proof -
  have old: "s \<in> set (getLocalSubscribers r n)" using assms by (simp add: sub_invD(3))
  then have "js_has (subscriptions r) n"
    using sub_invD(5) [OF assms(1), of n] by (auto simp: js_has_def)
  then show ?thesis using removeSocket_ok [OF assms(1) old] by (simp add: drop_one_def)
qed

lemma subscribe_ok:
  assumes "sub_inv r"
  shows "step_ok r (subscribe n m s silent r) (insert (n, s) (rel r))"
proof (cases "s \<in> set (getLocalSubscribers r n)")
  case True
  then have "insert (n, s) (rel r) = rel r" by (auto simp: rel_def)
  then show ?thesis using True step_ok_noop [OF assms] by (simp add: subscribe_def Let_def)
next
  case False
  obtain r2 e2 where a: "addSocket n s (r\<lparr>subscriptions :=
      js_set n (set_add s (getLocalSubscribers r n)) (subscriptions r)\<rparr>) = (r2, e2)" by fastforce
  have ok: "step_ok r (r2, e2) (insert (n, s) (rel r))" using addSocket_ok [OF assms False] a by simp
  then have "sub_inv r2" and R: "rel r2 = insert (n, s) (rel r)" by (simp_all add: step_ok_def)
  then show ?thesis
    using False a step_ok_seq [OF ok] step_ok_noop [of r2] by (simp add: subscribe_def Let_def)
qed

lemma unsubscribe_ok:
  assumes "sub_inv r"
  shows "step_ok r (unsubscribe n m s silent r) (rel r - {(n, s)})"
proof (cases "s \<in> set (getLocalSubscribers r n)")
  case False
  then have "rel r - {(n, s)} = rel r" by (auto simp: rel_def)
  then show ?thesis using False step_ok_noop [OF assms] by (simp add: unsubscribe_def Let_def)
next
  case True
  obtain r2 e2 where a: "removeSocket n s (r\<lparr>subscriptions :=
      js_set n (set_delete s (getLocalSubscribers r n)) (subscriptions r)\<rparr>) = (r2, e2)" by fastforce
  have ok: "step_ok r (r2, e2) (rel r - {(n, s)})" using removeSocket_ok [OF assms True] a by simp
  then have "sub_inv r2" and R: "rel r2 = rel r - {(n, s)}" by (simp_all add: step_ok_def)
  then show ?thesis
    using True a step_ok_seq [OF ok] step_ok_noop [of r2] by (simp add: unsubscribe_def Let_def)
qed

text \<open>The loops over names: a step that is right for each name is right for the list.\<close>

lemma bulk_ok:
  assumes "\<And>n r. n \<in> set ns \<Longrightarrow> sub_inv r \<Longrightarrow> step_ok r (f n r) (F n (rel r))"
    and "sub_inv r"
  shows "step_ok r (bulk f ns r) (fold F ns (rel r))"
  using assms
proof (induction ns arbitrary: r)
  case Nil
  then show ?case using step_ok_noop [of r "[]"] by simp
next
  case (Cons n ns)
  obtain r1 e1 where f: "f n r = (r1, e1)" by fastforce
  have one: "step_ok r (r1, e1) (F n (rel r))" using Cons.prems f by fastforce
  then have "sub_inv r1" and R: "rel r1 = F n (rel r)" by (simp_all add: step_ok_def)
  then have "step_ok r1 (bulk f ns r1) (fold F ns (rel r1))"
    by (intro Cons.IH Cons.prems(1)) simp_all
  then show ?case using f R step_ok_seq [OF one] by (simp add: Let_def split_beta)
qed

lemma drop_all_ok:
  assumes "sub_inv r" "distinct ns" "set ns \<subseteq> set (names_of r s)"
  shows "step_ok r (bulk (drop_one s) ns r) (rel r - set ns \<times> {s})"
  using assms
proof (induction ns arbitrary: r)
  case Nil
  then show ?case using step_ok_noop [of r "[]"] by simp
next
  case (Cons n ns)
  obtain r1 e1 where f: "drop_one s n r = (r1, e1)" by fastforce
  have one: "step_ok r (r1, e1) (rel r - {(n, s)})"
    using Cons.prems drop_one_ok [of r n s] f by simp
  then have inv: "sub_inv r1" and R: "rel r1 = rel r - {(n, s)}" by (simp_all add: step_ok_def)
  have "m \<in> set (names_of r1 s)" if "m \<in> set ns" for m
  proof -
    have "(m, s) \<in> rel r" using Cons.prems that sub_invD(3) [of r s m] by (auto simp: rel_def)
    then have "(m, s) \<in> rel r1" using Cons.prems(2) that R by auto
    then show ?thesis using sub_invD(3) [OF inv] by (simp add: rel_def)
  qed
  then have "step_ok r1 (bulk (drop_one s) ns r1) (rel r1 - set ns \<times> {s})"
    using Cons.IH [OF inv] Cons.prems(2) by auto
  moreover have "rel r1 - set ns \<times> {s} = rel r - set (n # ns) \<times> {s}" using R by auto
  ultimately show ?case using f step_ok_seq [OF one] by (simp add: Let_def split_beta)
qed

lemma onSocketClose_ok:
  assumes "sub_inv r"
  shows "step_ok r (onSocketClose s r) (rel r - UNIV \<times> {s})"
proof -
  have all: "rel r - set (names_of r s) \<times> {s} = rel r - UNIV \<times> {s}"
    using sub_invD(3) [OF assms] by (auto simp: rel_def)
  show ?thesis
  proof (cases "js_get (sockets r) s")
    case None
    then have "rel r - UNIV \<times> {s} = rel r" using all by (simp add: names_of_def)
    then show ?thesis using None step_ok_noop [OF assms, of "[]"] by (simp add: onSocketClose_def)
  next
    case (Some ns)
    then have ns: "names_of r s = ns" by (simp add: names_of_def)
    obtain r1 e1 where b: "bulk (drop_one s) ns r = (r1, e1)" by fastforce
    have ok: "step_ok r (r1, e1) (rel r - UNIV \<times> {s})"
      using drop_all_ok [OF assms, of ns s] sub_invD(2) [OF assms, of s] ns all b by simp
    then have inv: "sub_inv r1" and R: "rel r1 = rel r - UNIV \<times> {s}" by (simp_all add: step_ok_def)
    have "names_of r1 s = []"
    proof (cases "names_of r1 s")
      case (Cons m ms)
      then have "(m, s) \<in> rel r1" using sub_invD(3) [OF inv, of s m] by (simp add: rel_def)
      then show ?thesis using R by simp
    qed
    then have "js_delete s (sockets r1) = sockets r1"
      using sub_invD(4) [OF inv, of s] by (simp add: js_delete_absent)
    then show ?thesis using Some b ok by (simp add: onSocketClose_def)
  qed
qed

lemma subscribeBulk_ok:
  assumes "sub_inv r"
  shows "step_ok r (subscribeBulk ns m s silent r) (rel r \<union> set ns \<times> {s})"
proof -
  obtain r1 e1 where b: "bulk (\<lambda>n. subscribe n m s True) ns r = (r1, e1)" by fastforce
  have "fold (\<lambda>n. insert (n, s)) ns R = R \<union> set ns \<times> {s}" for R
    by (induction ns arbitrary: R) auto
  then have ok: "step_ok r (r1, e1) (rel r \<union> set ns \<times> {s})"
    using bulk_ok [of ns "\<lambda>n. subscribe n m s True" "\<lambda>n. insert (n, s)" r] subscribe_ok assms b by simp
  then have "sub_inv r1" and R: "rel r1 = rel r \<union> set ns \<times> {s}" by (simp_all add: step_ok_def)
  then show ?thesis
    using b step_ok_seq [OF ok] step_ok_noop [of r1] by (simp add: subscribeBulk_def)
qed

lemma unsubscribeBulk_ok:
  assumes "sub_inv r"
  shows "step_ok r (unsubscribeBulk ns m s silent r) (rel r - set ns \<times> {s})"
proof -
  obtain r1 e1 where b: "bulk (\<lambda>n. unsubscribe n m s True) ns r = (r1, e1)" by fastforce
  have "fold (\<lambda>n R. R - {(n, s)}) ns R = R - set ns \<times> {s}" for R
    by (induction ns arbitrary: R) auto
  then have ok: "step_ok r (r1, e1) (rel r - set ns \<times> {s})"
    using bulk_ok [of ns "\<lambda>n. unsubscribe n m s True" "\<lambda>n R. R - {(n, s)}" r] unsubscribe_ok assms b
    by simp
  then have "sub_inv r1" and R: "rel r1 = rel r - set ns \<times> {s}" by (simp_all add: step_ok_def)
  then show ?thesis
    using b step_ok_seq [OF ok] step_ok_noop [of r1] by (simp add: unsubscribeBulk_def)
qed

section \<open>The registry as a system\<close>

datatype sub_call =
    Subscribe string message socket
  | SubscribeBulk "string list" message socket
  | Unsubscribe string message socket
  | UnsubscribeBulk "string list" message socket
  | SocketClose socket
  | SetListener

fun sub_exec :: "sub_registry \<Rightarrow> sub_call \<Rightarrow> sub_registry \<times> sub_effect list" where
  "sub_exec r (Subscribe n m s) = subscribe n m s False r"
| "sub_exec r (SubscribeBulk ns m s) = subscribeBulk ns m s False r"
| "sub_exec r (Unsubscribe n m s) = unsubscribe n m s False r"
| "sub_exec r (UnsubscribeBulk ns m s) = unsubscribeBulk ns m s False r"
| "sub_exec r (SocketClose s) = onSocketClose s r"
| "sub_exec r SetListener = (setSubscriptionListener r, [])"

text \<open>The specification: a relation, changed by set operations.\<close>

fun sub_spec :: "(string \<times> socket) set \<Rightarrow> sub_call \<Rightarrow> (string \<times> socket) set" where
  "sub_spec R (Subscribe n m s) = insert (n, s) R"
| "sub_spec R (SubscribeBulk ns m s) = R \<union> set ns \<times> {s}"
| "sub_spec R (Unsubscribe n m s) = R - {(n, s)}"
| "sub_spec R (UnsubscribeBulk ns m s) = R - set ns \<times> {s}"
| "sub_spec R (SocketClose s) = R - UNIV \<times> {s}"
| "sub_spec R SetListener = R"

lemma setSubscriptionListener_ok:
  assumes "sub_inv r" shows "step_ok r (setSubscriptionListener r, []) (rel r)"
proof -
  have "sub_inv (setSubscriptionListener r)"
    using assms by (cases r) (simp only: sub_inv_def index_defs setSubscriptionListener_def
      sub_registry.simps simp_thms, blast)
  then show ?thesis
    by (simp add: step_ok_def setSubscriptionListener_def listening_def index_defs rel_def
      sub_count_def fun_eq_iff)
qed

lemma sub_exec_ok: "sub_inv r \<Longrightarrow> step_ok r (sub_exec r c) (sub_spec (rel r) c)"
  by (cases c) (simp_all add: subscribe_ok subscribeBulk_ok unsubscribe_ok unsubscribeBulk_ok
    onSocketClose_ok setSubscriptionListener_ok)

lemma sub_run_ok:
  "sub_inv r \<Longrightarrow> step_ok r (run sub_exec r cs) (foldl sub_spec (rel r) cs)"
proof (induction cs arbitrary: r)
  case Nil
  then show ?case using step_ok_noop [of r "[]"] by simp
next
  case (Cons c cs)
  obtain r1 e1 where f: "sub_exec r c = (r1, e1)" by fastforce
  have one: "step_ok r (r1, e1) (sub_spec (rel r) c)" using sub_exec_ok [OF Cons.prems, of c] f by simp
  then have "sub_inv r1" and "rel r1 = sub_spec (rel r) c" by (simp_all add: step_ok_def)
  then show ?case
    using Cons.IH [of r1] f step_ok_seq [OF one] by (simp add: Let_def split_beta)
qed

lemma new_registry_ok: "sub_inv (new_registry t)" "rel (new_registry t) = {}"
    "sub_count (new_registry t) = (\<lambda>_. 0)" "listening (new_registry t) = {}"
  by (auto simp: sub_inv_def new_registry_def listening_def index_defs rel_def sub_count_def)

lemma subscriptions_run_ok:
  "sub_inv (fst (run sub_exec (new_registry t) cs)) \<and>
   rel (fst (run sub_exec (new_registry t) cs)) = foldl sub_spec {} cs"
  using sub_run_ok [of "new_registry t" cs]
  by (simp add: step_ok_def new_registry_ok split: prod.splits)

section \<open>Properties\<close>

text \<open>C22: whatever calls a fresh registry serves, its two indices agree and it subscribes
  exactly the pairs that the sequence of calls leaves in a plain relation.\<close>

theorem subscriptions_refine_relation:
  "sub_inv (fst (run sub_exec (new_registry t) cs)) \<and>
   rel (fst (run sub_exec (new_registry t) cs)) = foldl sub_spec {} cs"
  by (rule subscriptions_run_ok)

text \<open>The registry calls the state registry so that it holds exactly the names with a local
  subscriber, whatever calls were served: no subscriber leaves a name behind and none is
  forgotten, and the state registry announces a name's first and last subscription in turn.\<close>

theorem subscriptions_drive_state_registry:
  "(ssr_has (fst (run ssr_op [] (registry_calls (snd (run sub_exec (new_registry t) cs))))) n
      \<longleftrightarrow> hasLocalSubscribers (fst (run sub_exec (new_registry t) cs)) n) \<and>
   alternates n False (snd (run ssr_op [] (registry_calls (snd (run sub_exec (new_registry t) cs)))))"
proof -
  obtain r es where run: "run sub_exec (new_registry t) cs = (r, es)" by fastforce
  then have ok: "step_ok (new_registry t) (r, es) (foldl sub_spec {} cs)"
    using sub_run_ok [of "new_registry t" cs] by (simp add: new_registry_ok)
  then have bal: "balanced (\<lambda>_. 0) (registry_calls es)"
    and cnt: "count_after (\<lambda>_. 0) (registry_calls es) = sub_count r" and inv: "sub_inv r"
    by (simp_all add: step_ok_def new_registry_ok)
  have "ssr_inv []" and "ssr_cnt [] = (\<lambda>_. 0)" by (auto simp: ssr_inv_def ssr_cnt_def)
  then have "ssr_inv (fst (run ssr_op [] (registry_calls es))) \<and>
      ssr_cnt (fst (run ssr_op [] (registry_calls es))) = sub_count r \<and>
      alternates n (ssr_has [] n) (snd (run ssr_op [] (registry_calls es)))"
    using ssr.op_run [of "[]" "registry_calls es" n] bal cnt by (simp add: ssr_op_locale)
  moreover have "\<not> ssr_has [] n" by (simp add: ssr_has_def js_has_def)
  moreover have "0 < sub_count r n \<longleftrightarrow> hasLocalSubscribers r n"
    using sub_invD(5) [OF inv, of n] by (auto simp: sub_count_def hasLocalSubscribers_def js_has_def)
  ultimately show ?thesis using run ssr.has_cnt by simp
qed

text \<open>The registry listens to a socket's close event exactly while the socket subscribes to
  something, and a closed socket subscribes to nothing.\<close>

theorem close_callbacks_exact:
  "(s \<in> close_listeners (snd (run sub_exec (new_registry t) cs)) {}
      \<longleftrightarrow> (\<exists>n. (n, s) \<in> rel (fst (run sub_exec (new_registry t) cs)))) \<and>
   (n, s) \<notin> rel (fst (run sub_exec (new_registry t) (cs @ [SocketClose s])))"
proof -
  obtain r es where run: "run sub_exec (new_registry t) cs = (r, es)" by fastforce
  then have ok: "step_ok (new_registry t) (r, es) (foldl sub_spec {} cs)"
    using sub_run_ok [of "new_registry t" cs] by (simp add: new_registry_ok)
  then have inv: "sub_inv r" and cl: "close_listeners es {} = listening r"
    by (simp_all add: step_ok_def new_registry_ok)
  have "s \<in> listening r \<longleftrightarrow> names_of r s \<noteq> []"
    using sub_invD(4) [OF inv, of s] listening_iff [of s r] by simp
  also have "\<dots> \<longleftrightarrow> (\<exists>n. (n, s) \<in> rel r)"
    using sub_invD(3) [OF inv, of s] by (cases "names_of r s") (auto simp: rel_def)
  finally have A: "s \<in> listening r \<longleftrightarrow> (\<exists>n. (n, s) \<in> rel r)" .
  have "rel (fst (onSocketClose s r)) = rel r - UNIV \<times> {s}"
    using onSocketClose_ok [OF inv, of s] by (simp add: step_ok_def split: prod.splits)
  then show ?thesis
    using A cl run by (simp add: run_append Let_def split_beta)
qed

text \<open>The sockets a broadcast is written to.\<close>

fun built_for :: "sub_effect list \<Rightarrow> socket list" where
  "built_for [] = []"
| "built_for (Out (SendBuilt s m b) # es) = s # built_for es"
| "built_for (e # es) = built_for es"

lemma built_for_map: "built_for (map (\<lambda>s. Out (SendBuilt s m b)) ss) = ss"
  by (induction ss) auto

text \<open>A broadcast reaches every subscriber of the name exactly once and its sender never,
  and it goes to the cluster exactly when a local client sent it and remote delivery is not
  suppressed.\<close>

theorem sendToSubscribers_delivers:
  "distinct (built_for (sendToSubscribers name m noDelay sender suppress
        (fst (run sub_exec (new_registry t) cs)))) \<and>
   set (built_for (sendToSubscribers name m noDelay sender suppress
        (fst (run sub_exec (new_registry t) cs)))) =
     {s. (name, s) \<in> foldl sub_spec {} cs \<and> sender \<noteq> Some s} \<and>
   (Out (ClusterSend m) \<in> set (sendToSubscribers name m noDelay sender suppress
        (fst (run sub_exec (new_registry t) cs))) \<longleftrightarrow> sender \<noteq> None \<and> \<not> suppress)"
proof -
  obtain r es where run: "run sub_exec (new_registry t) cs = (r, es)" by fastforce
  then have inv: "sub_inv r" and R: "rel r = foldl sub_spec {} cs"
    using subscriptions_run_ok [of t cs] by simp_all
  have built: "built_for (sendToSubscribers name m noDelay sender suppress r) =
      filter (\<lambda>s. Some s \<noteq> sender) (getLocalSubscribers r name)"
    by (simp add: sendToSubscribers_def getLocalSubscribers_def built_for_map split: option.split)
  have "distinct (getLocalSubscribers r name)" using sub_invD(1) [OF inv] .
  moreover have "Out (ClusterSend m) \<in> set (sendToSubscribers name m noDelay sender suppress r)
      \<longleftrightarrow> sender \<noteq> None \<and> \<not> suppress"
    by (auto simp: sendToSubscribers_def split: option.splits)
  ultimately show ?thesis using run R by (auto simp: built rel_def)
qed

end
