(* ===== verification/RecordStore.thy ===== *)
theory RecordStore
  imports Messages
begin

text \<open>
  The record stores shipped with the server: the in-memory cache
  (\<open>src/services/cache/local-cache.ts\<close>) and the storage that keeps nothing
  (\<open>src/services/storage/noop-storage.ts\<close>). Every operation answers through a callback on the next
  tick; the callback's arguments are the second component of its result. The locale
  \<open>record_cache\<close> is the contract the record handlers rely on.
\<close>

section \<open>The contract\<close>

text \<open>What a read passes to its callback: a version and the data, -1 and \<open>null\<close> for no record.\<close>

type_synonym read_reply = "int \<times> json"

datatype cache_op =
    CacheSet string int json
  | CacheDelete string
  | CacheDeleteBulk "string list"

type_synonym record_map = "string \<Rightarrow> (int \<times> json) option"

fun cache_spec :: "record_map \<Rightarrow> cache_op \<Rightarrow> record_map" where
  "cache_spec m (CacheSet k v d) = m(k \<mapsto> (v, d))"
| "cache_spec m (CacheDelete k) = m(k := None)"
| "cache_spec m (CacheDeleteBulk ks) = (\<lambda>k. if k \<in> set ks then None else m k)"

locale record_cache =
  fixes set' :: "string \<Rightarrow> int \<Rightarrow> json \<Rightarrow> 's \<Rightarrow> 's"
    and delete :: "string \<Rightarrow> 's \<Rightarrow> 's"
    and deleteBulk :: "string list \<Rightarrow> 's \<Rightarrow> 's"
    and get :: "string \<Rightarrow> 's \<Rightarrow> read_reply"
    and head :: "string \<Rightarrow> 's \<Rightarrow> int"
    and empty :: 's
    and abs :: "'s \<Rightarrow> record_map"
  assumes abs_empty: "abs empty = Map.empty"
    and abs_set: "abs (set' k v d s) = (abs s)(k \<mapsto> (v, d))"
    and abs_delete: "abs (delete k s) = (abs s)(k := None)"
    and abs_deleteBulk: "abs (deleteBulk ks s) = (\<lambda>k. if k \<in> set ks then None else abs s k)"
    and get_abs: "get k s = (case abs s k of None \<Rightarrow> (-1, JNull) | Some r \<Rightarrow> r)"
    and head_abs: "head k s = (case abs s k of None \<Rightarrow> -1 | Some (v, _) \<Rightarrow> v)"
begin

fun exec :: "'s \<Rightarrow> cache_op \<Rightarrow> 's" where
  "exec s (CacheSet k v d) = set' k v d s"
| "exec s (CacheDelete k) = delete k s"
| "exec s (CacheDeleteBulk ks) = deleteBulk ks s"

lemma exec_abs: "abs (exec s x) = cache_spec (abs s) x"
  by (cases x) (simp_all add: abs_set abs_delete abs_deleteBulk)

lemma exec_run: "abs (foldl exec s ops) = foldl cache_spec (abs s) ops"
  by (induction ops arbitrary: s) (simp_all add: exec_abs)

text \<open>Reads answer from the map that the writes so far spell out.\<close>

lemma reads_last_write:
  "get k (foldl exec empty ops) =
     (case foldl cache_spec Map.empty ops k of None \<Rightarrow> (-1, JNull) | Some r \<Rightarrow> r)"
  "head k (foldl exec empty ops) =
     (case foldl cache_spec Map.empty ops k of None \<Rightarrow> -1 | Some r \<Rightarrow> fst r)"
  by (simp_all add: get_abs head_abs exec_run abs_empty split_def split: option.split)

end

section \<open>LocalCache\<close>

record cache_entry =
  e_version :: int
  e_data :: json

type_synonym local_cache = "(string, cache_entry) jsmap"

definition lc_head :: "string \<Rightarrow> local_cache \<Rightarrow> int" where
  "lc_head recordName data = (case js_get data recordName of Some e \<Rightarrow> e_version e | None \<Rightarrow> -1)"

text \<open>\<open>headBulk\<close>: the versions it found, an object, and the names it did not.\<close>

fun lc_head_loop :: "local_cache \<Rightarrow> string list \<Rightarrow> (string, int) jsmap \<Rightarrow> string list \<Rightarrow>
    (string, int) jsmap \<times> string list" where
  "lc_head_loop data [] versions missing = (versions, missing)"
| "lc_head_loop data (name # names) versions missing =
     (case js_get data name of
        Some e \<Rightarrow> lc_head_loop data names (js_set name (e_version e) versions) missing
      | None \<Rightarrow> lc_head_loop data names versions (missing @ [name]))"

definition lc_headBulk :: "string list \<Rightarrow> local_cache \<Rightarrow> (string, int) jsmap \<times> string list" where
  "lc_headBulk recordNames data = lc_head_loop data recordNames [] []"

definition lc_set :: "string \<Rightarrow> int \<Rightarrow> json \<Rightarrow> local_cache \<Rightarrow> local_cache" where
  "lc_set key v d data = js_set key \<lparr>e_version = v, e_data = d\<rparr> data"

definition lc_get :: "string \<Rightarrow> local_cache \<Rightarrow> read_reply" where
  "lc_get key data = (case js_get data key of None \<Rightarrow> (-1, JNull) | Some e \<Rightarrow> (e_version e, e_data e))"

definition lc_delete :: "string \<Rightarrow> local_cache \<Rightarrow> local_cache" where
  "lc_delete key data = js_delete key data"

definition lc_deleteBulk :: "string list \<Rightarrow> local_cache \<Rightarrow> local_cache" where
  "lc_deleteBulk keys data = foldl (\<lambda>d key. js_delete key d) data keys"

definition lc_abs :: "local_cache \<Rightarrow> record_map" where
  "lc_abs data = (\<lambda>k. map_option (\<lambda>e. (e_version e, e_data e)) (js_get data k))"

lemma lc_deleteBulk_get:
  "js_get (lc_deleteBulk keys data) k = (if k \<in> set keys then None else js_get data k)"
  by (induction keys arbitrary: data) (auto simp: lc_deleteBulk_def js_simps)

interpretation lc: record_cache lc_set lc_delete lc_deleteBulk lc_get lc_head "[]" lc_abs
  by unfold_locales
     (auto simp: lc_abs_def lc_set_def lc_delete_def lc_deleteBulk_get lc_get_def lc_head_def
        js_simps fun_eq_iff split: option.splits)

section \<open>NoopStorage\<close>

definition noop_set :: "string \<Rightarrow> int \<Rightarrow> json \<Rightarrow> unit \<Rightarrow> unit" where
  "noop_set key v d s = s"

definition noop_get :: "string \<Rightarrow> unit \<Rightarrow> read_reply" where
  "noop_get key s = (-1, JNull)"

definition noop_delete :: "string \<Rightarrow> unit \<Rightarrow> unit" where
  "noop_delete key s = s"

section \<open>Properties\<close>

definition lc_exec :: "local_cache \<Rightarrow> cache_op \<Rightarrow> local_cache" where
  "lc_exec = lc.exec"

lemma lc_exec_simps [simp, code]:
  "lc_exec s (CacheSet k v d) = lc_set k v d s"
  "lc_exec s (CacheDelete k) = lc_delete k s"
  "lc_exec s (CacheDeleteBulk ks) = lc_deleteBulk ks s"
  by (simp_all add: lc_exec_def)

lemma lc_head_loop_spec:
  "js_get (fst (lc_head_loop data names versions missing)) k =
     (case js_get data k of
        Some e \<Rightarrow> if k \<in> set names then Some (e_version e) else js_get versions k
      | None \<Rightarrow> js_get versions k)"
  "snd (lc_head_loop data names versions missing) =
     missing @ filter (\<lambda>n. js_get data n = None) names"
  by (induction names arbitrary: versions missing) (auto simp: js_simps split: option.splits)

text \<open>After any sequence of writes the cache answers every read of a version and data from the
  last write of that record, and a bulk head splits the asked names into those with their
  version and those missing.\<close>

theorem local_cache_refines_map:
  "lc_get k (foldl lc_exec [] ops) =
     (case foldl cache_spec Map.empty ops k of None \<Rightarrow> (-1, JNull) | Some r \<Rightarrow> r) \<and>
   js_get (fst (lc_headBulk names (foldl lc_exec [] ops))) k =
     (if k \<in> set names then map_option fst (foldl cache_spec Map.empty ops k) else None) \<and>
   snd (lc_headBulk names (foldl lc_exec [] ops)) =
     filter (\<lambda>n. foldl cache_spec Map.empty ops n = None) names"
proof -
  let ?s = "foldl lc_exec [] ops" and ?m = "foldl cache_spec Map.empty ops"
  have abs: "lc_abs ?s = ?m" using lc.exec_run [of "[]" ops] by (simp add: lc_exec_def lc.abs_empty)
  have m: "?m n = map_option (\<lambda>e. (e_version e, e_data e)) (js_get ?s n)" for n
    by (simp add: abs [symmetric] lc_abs_def)
  have "lc_get k ?s = (case ?m k of None \<Rightarrow> (-1, JNull) | Some r \<Rightarrow> r)"
    using lc.reads_last_write(1) [of k ops] by (simp add: lc_exec_def)
  moreover have "js_get (fst (lc_headBulk names ?s)) k =
      (if k \<in> set names then map_option fst (?m k) else None)"
    by (simp add: lc_headBulk_def lc_head_loop_spec m split: option.split)
  moreover have "snd (lc_headBulk names ?s) = filter (\<lambda>n. ?m n = None) names"
    by (simp add: lc_headBulk_def lc_head_loop_spec m)
  ultimately show ?thesis by simp
qed

end
