(* ===== verification/RecordRequest.thy ===== *)
theory RecordRequest
  imports Utils
begin

text \<open>
  Loading one record (\<open>src/handlers/record/record-request.ts\<close>): from the cache, else from storage,
  each under a timeout. The closures of the code are the state of one request; the timers and the
  services' answers are its inputs. A service answers a callback at most once and after the call
  returned; a timer fires at most once and not after \<open>clearTimeout\<close>: that is what \<open>rq_enabled\<close>
  says. The callbacks \<open>onComplete\<close> and \<open>onError\<close> are outputs, so that every client of the request
  (the handler, the transition) continues from them.
\<close>

section \<open>One request\<close>

record request =
  rq_name :: string
  rq_excluded :: bool
  rq_promote :: bool
  rq_cacheTimedOut :: bool
  rq_cacheTimer :: bool
  rq_cachePending :: bool
  rq_storageTimedOut :: bool
  rq_storageTimer :: bool
  rq_storagePending :: bool

datatype rq_effect =
    CacheGet string
  | StorageGet string
  | Complete string int "json option"
  | Failed record_action string
  | PromoteToCache string int "json option"

datatype rq_input =
    CacheTimeout
  | CacheAnswer "string option" int "json option"
  | StorageTimeout
  | StorageAnswer "string option" int "json option"

text \<open>\<open>data || null\<close>.\<close>

definition or_null :: "json option \<Rightarrow> json option" where
  "or_null d = (if truthy d then d else Some JNull)"

definition recordRequest :: "string list option \<Rightarrow> string \<Rightarrow> bool \<Rightarrow> request \<times> rq_effect list" where
  "recordRequest storageExclusionPrefixes recordName promoteToCache =
     (\<lparr>rq_name = recordName, rq_excluded = isExcluded storageExclusionPrefixes recordName,
       rq_promote = promoteToCache, rq_cacheTimedOut = False, rq_cacheTimer = True,
       rq_cachePending = True, rq_storageTimedOut = False, rq_storageTimer = False,
       rq_storagePending = False\<rparr>, [CacheGet recordName])"

definition sendError :: "record_action \<Rightarrow> string \<Rightarrow> rq_effect list" where
  "sendError event errorMessage = [Failed event errorMessage]"

definition onStorageResponse :: "string option \<Rightarrow> int \<Rightarrow> json option \<Rightarrow> request \<Rightarrow> rq_effect list" where
  "onStorageResponse error v data rq =
     (if nonempty error
      then sendError RA_RECORD_LOAD_ERROR
             (''error while loading '' @ rq_name rq @ '' from storage:'' @ the error)
      else Complete (rq_name rq) v (or_null data) #
           (if truthy data \<and> rq_promote rq then [PromoteToCache (rq_name rq) v data] else []))"

definition onCacheResponse ::
  "string option \<Rightarrow> int \<Rightarrow> json option \<Rightarrow> request \<Rightarrow> request \<times> rq_effect list" where
  "onCacheResponse error v data rq =
     (if nonempty error
      then (rq, sendError RA_RECORD_LOAD_ERROR
                  (''error while loading '' @ rq_name rq @ '' from cache:'' @ the error))
      else if truthy data then (rq, [Complete (rq_name rq) v data])
      else if \<not> rq_excluded rq
      then (rq\<lparr>rq_storageTimedOut := False, rq_storageTimer := True, rq_storagePending := True\<rparr>,
            [StorageGet (rq_name rq)])
      else (rq, [Complete (rq_name rq) v data]))"

fun rq_step :: "request \<Rightarrow> rq_input \<Rightarrow> request \<times> rq_effect list" where
  "rq_step rq CacheTimeout =
     (rq\<lparr>rq_cacheTimer := False, rq_cacheTimedOut := True\<rparr>,
      sendError RA_CACHE_RETRIEVAL_TIMEOUT (rq_name rq))"
| "rq_step rq (CacheAnswer error v data) =
     (let rq' = rq\<lparr>rq_cachePending := False\<rparr>
      in if \<not> rq_cacheTimedOut rq then onCacheResponse error v data (rq'\<lparr>rq_cacheTimer := False\<rparr>)
         else (rq', []))"
| "rq_step rq StorageTimeout =
     (rq\<lparr>rq_storageTimer := False, rq_storageTimedOut := True\<rparr>,
      sendError RA_STORAGE_RETRIEVAL_TIMEOUT (rq_name rq))"
| "rq_step rq (StorageAnswer error v data) =
     (let rq' = rq\<lparr>rq_storagePending := False\<rparr>
      in if \<not> rq_storageTimedOut rq
         then (let rq'' = rq'\<lparr>rq_storageTimer := False\<rparr> in (rq'', onStorageResponse error v data rq''))
         else (rq', []))"

section \<open>What may happen to a request\<close>

fun rq_enabled :: "request \<Rightarrow> rq_input \<Rightarrow> bool" where
  "rq_enabled rq CacheTimeout = rq_cacheTimer rq"
| "rq_enabled rq (CacheAnswer _ _ _) = rq_cachePending rq"
| "rq_enabled rq StorageTimeout = rq_storageTimer rq"
| "rq_enabled rq (StorageAnswer _ _ _) = rq_storagePending rq"

text \<open>The inputs form a possible history.\<close>

fun rq_history :: "request \<Rightarrow> rq_input list \<Rightarrow> bool" where
  "rq_history rq [] = True"
| "rq_history rq (i # is) = (rq_enabled rq i \<and> rq_history (fst (rq_step rq i)) is)"

definition rq_quiet :: "request \<Rightarrow> bool" where
  "rq_quiet rq \<longleftrightarrow> \<not> rq_cacheTimer rq \<and> \<not> rq_cachePending rq \<and> \<not> rq_storageTimer rq \<and> \<not> rq_storagePending rq"

fun is_outcome :: "rq_effect \<Rightarrow> bool" where
  "is_outcome (Complete _ _ _) = True"
| "is_outcome (Failed _ _) = True"
| "is_outcome _ = False"

abbreviation outcomes :: "rq_effect list \<Rightarrow> nat" where
  "outcomes es \<equiv> length (filter is_outcome es)"

text \<open>A request is open exactly while a timer runs, and its phases do not overlap.\<close>

definition rq_open :: "request \<Rightarrow> nat" where
  "rq_open rq = (if rq_cacheTimer rq \<or> rq_storageTimer rq then 1 else 0)"

definition rq_inv :: "request \<Rightarrow> bool" where
  "rq_inv rq \<longleftrightarrow>
     (rq_cacheTimer rq \<longrightarrow> rq_cachePending rq \<and> \<not> rq_cacheTimedOut rq \<and>
        \<not> rq_storageTimer rq \<and> \<not> rq_storagePending rq) \<and>
     (rq_cachePending rq \<longrightarrow> rq_cacheTimer rq \<or> rq_cacheTimedOut rq) \<and>
     (rq_cacheTimedOut rq \<longrightarrow> \<not> rq_cacheTimer rq \<and> \<not> rq_storageTimer rq \<and> \<not> rq_storagePending rq) \<and>
     (rq_storageTimer rq \<longrightarrow> rq_storagePending rq \<and> \<not> rq_storageTimedOut rq) \<and>
     (rq_storagePending rq \<longrightarrow> rq_storageTimer rq \<or> rq_storageTimedOut rq) \<and>
     (rq_storageTimedOut rq \<longrightarrow> \<not> rq_storageTimer rq)"

lemmas rq_defs = sendError_def onCacheResponse_def onStorageResponse_def rq_open_def

lemma rq_step_ok:
  assumes "rq_inv rq" and "rq_enabled rq i"
  shows "rq_inv (fst (rq_step rq i)) \<and>
    outcomes (snd (rq_step rq i)) + rq_open (fst (rq_step rq i)) = rq_open rq"
  using assms by (cases i) (auto simp: rq_inv_def rq_defs Let_def)

lemma rq_run_ok:
  "rq_inv rq \<Longrightarrow> rq_history rq is \<Longrightarrow>
   rq_inv (fst (run rq_step rq is)) \<and>
   outcomes (snd (run rq_step rq is)) + rq_open (fst (run rq_step rq is)) = rq_open rq"
proof (induction "is" arbitrary: rq)
  case (Cons i "is")
  have one: "rq_inv (fst (rq_step rq i)) \<and>
      outcomes (snd (rq_step rq i)) + rq_open (fst (rq_step rq i)) = rq_open rq"
    using Cons.prems by (intro rq_step_ok) simp_all
  have "rq_inv (fst (run rq_step (fst (rq_step rq i)) is)) \<and>
      outcomes (snd (run rq_step (fst (rq_step rq i)) is)) +
      rq_open (fst (run rq_step (fst (rq_step rq i)) is)) = rq_open (fst (rq_step rq i))"
    using Cons.prems one by (intro Cons.IH) simp_all
  with one show ?case by (simp add: Let_def split_beta add.assoc)
qed simp

lemma recordRequest_inv: "rq_inv (fst (recordRequest ps n p)) \<and> rq_open (fst (recordRequest ps n p)) = 1"
  by (simp add: recordRequest_def rq_inv_def rq_open_def)

section \<open>Properties\<close>

text \<open>Whatever the order in which timers fire and services answer, a record request calls back
  (with the record or with an error) at most once, and exactly once when nothing is outstanding:
  no answer is delivered twice and no request is left without one.\<close>

theorem recordRequest_answers_once:
  assumes "rq_history (fst (recordRequest ps name promote)) is"
  shows "outcomes (snd (run rq_step (fst (recordRequest ps name promote)) is)) \<le> 1 \<and>
    (rq_quiet (fst (run rq_step (fst (recordRequest ps name promote)) is)) \<longrightarrow>
       outcomes (snd (run rq_step (fst (recordRequest ps name promote)) is)) = 1)"
proof -
  have "outcomes (snd (run rq_step (fst (recordRequest ps name promote)) is)) +
      rq_open (fst (run rq_step (fst (recordRequest ps name promote)) is)) = 1"
    using rq_run_ok [OF _ assms] recordRequest_inv [of ps name promote] by auto
  then show ?thesis by (auto simp: rq_quiet_def rq_open_def)
qed

theorem recordRequest_answers_once_witness:
  "outcomes (snd (run rq_step (fst (recordRequest None ''r'' True))
     [CacheAnswer None (-1) (Some JNull), StorageTimeout, StorageAnswer None 3 (Some (JObj []))])) \<le> 1"
  using recordRequest_answers_once [of None "''r''" True
     "[CacheAnswer None (-1) (Some JNull), StorageTimeout, StorageAnswer None 3 (Some (JObj []))]"]
  by (simp add: recordRequest_def rq_defs isExcluded_def nonempty_def Let_def)

text \<open>The record comes from the cache when the cache has it; when it does not and the name is
  not excluded, from storage, and then it is promoted to the cache exactly when asked to and found; an
  excluded name is never looked up in storage.\<close>

theorem recordRequest_lookup_order:
  assumes "\<not> nonempty cerr" and "\<not> nonempty serr"
  shows "snd (run rq_step (fst (recordRequest ps name promote)) [CacheAnswer cerr v d]) =
      (if truthy d \<or> isExcluded ps name then [Complete name v d] else [StorageGet name]) \<and>
    (\<not> truthy d \<and> \<not> isExcluded ps name \<longrightarrow>
      snd (run rq_step (fst (recordRequest ps name promote)) [CacheAnswer cerr v d, StorageAnswer serr v' d']) =
        [StorageGet name, Complete name v' (or_null d')] @
        (if truthy d' \<and> promote then [PromoteToCache name v' d'] else []))"
  using assms by (simp add: recordRequest_def rq_defs Let_def)

theorem recordRequest_lookup_order_witness:
  "snd (run rq_step (fst (recordRequest None ''r'' True))
      [CacheAnswer None (-1) None, StorageAnswer None 3 (Some (JObj []))]) =
    [StorageGet ''r'', Complete ''r'' 3 (Some (JObj [])), PromoteToCache ''r'' 3 (Some (JObj []))]"
  using recordRequest_lookup_order [of None None None "''r''" True "-1" None 3 "Some (JObj [])"]
  by (simp add: nonempty_def isExcluded_def or_null_def)

end
