(* ===== verification/RecordTransition.thy ===== *)
theory RecordTransition
  imports JsonPath RecordRequest "HOL-Library.Sublist"
begin

text \<open>
  Concurrent writes to one record (\<open>src/handlers/record/record-transition.ts\<close>): the queue of
  updates and patches, the version check, the writes to storage and cache and their answers. The
  fields are those of the class. What it calls on the outside (the record request, storage, cache,
  the handler) is an effect; a callback it hands over is data (\<open>write_cb\<close>), and the answer is a
  later input, since the stores answer after the call has returned.
\<close>

section \<open>State\<close>

record step =
  step_message :: message
  step_sender :: socket

record transition =
  t_name :: string
  isDestroyed :: bool
  steps :: "step list"
  t_version :: int
  t_data :: "json option"
  currentStep :: "step option"
  recordRequestMade :: bool
  existingVersions :: "step list"
  lastVersion :: "int option"
  writeAckSockets :: "(socket, (string, jsnum) jsmap) jsmap"
  pendingStorageWrites :: nat
  pendingCacheWrites :: nat

text \<open>What the transition is given: the number parser of the paths, the payload parser of the
  sockets (\<open>None\<close> for an \<open>Error\<close>), which sockets stand for remote nodes, and the configured
  prefixes that are not stored.\<close>

record env =
  e_num :: "string \<Rightarrow> string"
  e_parse :: "socket \<Rightarrow> message \<Rightarrow> message option"
  e_remote :: "socket \<Rightarrow> bool"
  e_exclusions :: "string list option"

text \<open>The callback of a write: the method itself, or the closure over the message of a write that
  wants an acknowledgement.\<close>

datatype write_cb = PlainCb | AckCb message

datatype t_effect =
    TSend socket message
  | TRequest string bool
  | TStorageSet string int "json option" write_cb
  | TCacheSet string int "json option" write_cb
  | TBroadcast message socket
  | TComplete string
  | TThrow js_error

text \<open>A write message carries a number in its \<open>version\<close>.\<close>

definition version_of :: "message \<Rightarrow> int" where
  "version_of m = (case m_version m of Some v \<Rightarrow> v | None \<Rightarrow> 0)"

definition new_transition :: "string \<Rightarrow> transition" where
  "new_transition name = \<lparr>t_name = name, isDestroyed = False, steps = [], t_version = -1,
     t_data = Some JNull, currentStep = None, recordRequestMade = False, existingVersions = [],
     lastVersion = None, writeAckSockets = [], pendingStorageWrites = 0, pendingCacheWrites = 0\<rparr>"

section \<open>Operations\<close>

definition hasVersion :: "int \<Rightarrow> transition \<Rightarrow> bool" where
  "hasVersion v t = (case lastVersion t of None \<Rightarrow> False | Some l \<Rightarrow> v \<noteq> -1 \<and> v \<le> l)"

definition version_exists_message :: "step \<Rightarrow> transition \<Rightarrow> message" where
  "version_exists_message st t =
     (msg T_RECORD (RecordA RA_VERSION_EXISTS))
       \<lparr>m_original := Some (m_action (step_message st)), m_name := Some (t_name t),
        m_version := Some (t_version t), m_parsed := t_data t,
        m_writeack := m_writeack (step_message st), m_corr := m_corr (step_message st)\<rparr>"

definition sendVersionExists :: "step \<Rightarrow> transition \<Rightarrow> transition \<times> t_effect list" where
  "sendVersionExists st t =
     (if truthy (t_data t)
      then (t, [TSend (step_sender st) (version_exists_message st t)])
      else (t\<lparr>existingVersions := existingVersions t @ [st]\<rparr>, []))"

text \<open>\<open>for ... in\<close> over each socket's pending acknowledgements.\<close>

definition ack_error :: "string \<Rightarrow> message" where
  "ack_error correlationId =
     (msg T_RECORD (RecordA RA_RECORD_UPDATE_ERROR))
       \<lparr>m_corr := Some correlationId, m_writeack := True, m_isError := True\<rparr>"

definition sendWriteAcknowledgementErrors :: "transition \<Rightarrow> transition \<times> t_effect list" where
  "sendWriteAcknowledgementErrors t =
     (t\<lparr>writeAckSockets := []\<rparr>,
      concat (map (\<lambda>(s, pending). map (\<lambda>c. TSend s (ack_error c)) (js_keys pending)) (writeAckSockets t)))"

definition update_error :: "message \<Rightarrow> message" where
  "update_error m =
     (msg T_RECORD (RecordA RA_RECORD_UPDATE_ERROR))\<lparr>m_name := m_name m, m_isError := True\<rparr>"

definition destroy :: "env \<Rightarrow> string option \<Rightarrow> transition \<Rightarrow> transition \<times> t_effect list" where
  "destroy e error t =
     (if isDestroyed t then (t, [])
      else
        (let (t1, es) =
           (if nonempty error
            then (let (t1, es1) = sendWriteAcknowledgementErrors t
                  in (t1, es1 @
                      (case currentStep t of
                         Some st \<Rightarrow> if \<not> e_remote e (step_sender st)
                                    then [TSend (step_sender st) (update_error (step_message st))] else []
                       | None \<Rightarrow> [])))
            else (t, []))
         in (t1\<lparr>isDestroyed := True\<rparr>, es @ [TComplete (t_name t)])))"

definition queued_error :: "message \<Rightarrow> message" where
  "queued_error m = (update_error m)\<lparr>m_writeack := m_writeack m, m_corr := m_corr m\<rparr>"

definition onFatalError :: "env \<Rightarrow> string \<Rightarrow> transition \<Rightarrow> transition \<times> t_effect list" where
  "onFatalError e error t =
     (if isDestroyed t then (t, [])
      else
        (let es = map (\<lambda>st. TSend (step_sender st) (queued_error (step_message st)))
                    (filter (\<lambda>st. \<not> e_remote e (step_sender st)) (steps t));
             (t1, es1) = destroy e (Some error) t
         in (t1, es @ es1)))"

definition corr_key :: "message \<Rightarrow> string" where
  "corr_key m = (case m_corr m of Some c \<Rightarrow> c | None \<Rightarrow> ''undefined'')"

definition setUpWriteAcknowledgement :: "message \<Rightarrow> socket \<Rightarrow> transition \<Rightarrow> transition" where
  "setUpWriteAcknowledgement m s t =
     (case js_get (writeAckSockets t) s of
        None \<Rightarrow> t\<lparr>writeAckSockets := js_set s [(corr_key m, JsNum 1)] (writeAckSockets t)\<rparr>
      | Some response \<Rightarrow>
          (let n = js_get response (corr_key m);
               n' = (if js_truthy_num n then js_plus1 n else JsNum 1)
           in t\<lparr>writeAckSockets := js_set s (js_set (corr_key m) n' response) (writeAckSockets t)\<rparr>))"

definition ack_message :: "message \<Rightarrow> message" where
  "ack_message m = (msg T_RECORD (RecordA RA_WRITE_ACKNOWLEDGEMENT))
     \<lparr>m_name := m_name m, m_corr := m_corr m, m_writeack := True\<rparr>"

definition handleWriteAcknowledgement ::
  "socket \<Rightarrow> message \<Rightarrow> transition \<Rightarrow> transition \<times> t_effect list" where
  "handleWriteAcknowledgement s m t =
     (case js_get (writeAckSockets t) s of
        None \<Rightarrow> (t, [])
      | Some response \<Rightarrow>
          (let n = js_minus1 (js_get response (corr_key m));
               response1 = js_set (corr_key m) n response;
               done = (n = JsNum 0);
               response2 = (if done then js_delete (corr_key m) response1 else response1)
           in (t\<lparr>writeAckSockets := (if response2 = [] then js_delete s (writeAckSockets t)
                                     else js_set s response2 (writeAckSockets t))\<rparr>,
               if done then [TSend s (ack_message m)] else [])))"

text \<open>The new data of a step: the value set at its path, or its whole payload.\<close>

definition write_data :: "env \<Rightarrow> message \<Rightarrow> json option \<Rightarrow> js_error + json option" where
  "write_data e m d =
     (if nonempty (m_path m)
      then (case d of
              None \<Rightarrow> Inl TypeError
            | Some d' \<Rightarrow>
                (case setValue (e_num e) d' (the (m_path m)) (m_parsed m) of
                   Inl err \<Rightarrow> Inl err
                 | Inr d'' \<Rightarrow> Inr (Some d'')))
      else Inr (m_parsed m))"

definition cb_of :: "message \<Rightarrow> write_cb" where
  "cb_of m = (if m_writeack m then AckCb m else PlainCb)"

text \<open>The tail of \<open>next\<close> for a step with the right version.\<close>

definition apply_step :: "env \<Rightarrow> step \<Rightarrow> transition \<Rightarrow> transition \<times> t_effect list" where
  "apply_step e st t =
     (let m = step_message st;
          t1 = t\<lparr>t_version := version_of m\<rparr>
      in case write_data e m (t_data t1) of
           Inl err \<Rightarrow> (t1, [TThrow err])
         | Inr d \<Rightarrow>
             (let t2 = t1\<lparr>t_data := d\<rparr>;
                  ack = (\<lambda>u. if m_writeack m then setUpWriteAcknowledgement m (step_sender st) u else u);
                  stored = \<not> isExcluded (e_exclusions e) (t_name t);
                  t3 = (if stored then ack (t2\<lparr>pendingStorageWrites := pendingStorageWrites t2 + 1\<rparr>) else t2);
                  t4 = ack (t3\<lparr>pendingCacheWrites := pendingCacheWrites t3 + 1\<rparr>)
              in (t4, (if stored then [TStorageSet (t_name t) (version_of m) d (cb_of m)] else []) @
                      [TCacheSet (t_name t) (version_of m) d (cb_of m)])))"

lemma sendVersionExists_steps [simp]: "steps (fst (sendVersionExists st t)) = steps t"
  by (simp add: sendVersionExists_def)

text \<open>The step as \<open>next\<close> works on it: a version of -1 becomes the next version.\<close>

definition resolve :: "int \<Rightarrow> step \<Rightarrow> step" where
  "resolve v st =
     (if version_of (step_message st) = -1
      then st\<lparr>step_message := (step_message st)\<lparr>m_version := Some (v + 1)\<rparr>\<rparr> else st)"

definition invalid_version :: "message \<Rightarrow> message" where
  "invalid_version m = m\<lparr>m_action := RecordA RA_INVALID_VERSION, m_original := Some (m_action m)\<rparr>"

function next_step :: "env \<Rightarrow> transition \<Rightarrow> transition \<times> t_effect list" where
  "next_step e t =
     (if isDestroyed t then (t, [])
      else if t_data t = Some JNull then (t, [])
      else case steps t of
          [] \<Rightarrow> destroy e None t
        | st0 # rest \<Rightarrow>
            (let st = resolve (t_version t) st0;
                 m = step_message st;
                 t1 = t\<lparr>steps := rest, currentStep := Some st\<rparr>
             in if version_of m > t_version t + 1
                then (t1, [TSend (step_sender st) ((invalid_version m)\<lparr>m_version := Some (t_version t)\<rparr>)])
                else if t_version t \<noteq> version_of m - 1
                then (let r = sendVersionExists st t1; r' = next_step e (fst r) in (fst r', snd r @ snd r'))
                else apply_step e st t1))"
  by pat_completeness auto

termination by (relation "measure (\<lambda>(e, t). length (steps t))") auto

declare next_step.simps [simp del]

fun flush :: "step list \<Rightarrow> transition \<Rightarrow> transition \<times> t_effect list" where
  "flush [] t = (t, [])"
| "flush (st # sts) t =
     (let r = sendVersionExists st t; r' = flush sts (fst r) in (fst r', snd r @ snd r'))"

definition flushVersionExists :: "transition \<Rightarrow> transition \<times> t_effect list" where
  "flushVersionExists t =
     (let (t1, es) = flush (existingVersions t) t in (t1\<lparr>existingVersions := []\<rparr>, es))"

definition onRecord :: "env \<Rightarrow> int \<Rightarrow> json option \<Rightarrow> bool \<Rightarrow> transition \<Rightarrow> transition \<times> t_effect list" where
  "onRecord e v data upsert t =
     (if data = Some JNull \<and> \<not> upsert
      then onFatalError e (''Received update for non-existant record '' @ t_name t) t
      else
        (let t1 = (if data = Some JNull then t\<lparr>t_data := Some (JObj []), t_version := 0\<rparr>
                   else t\<lparr>t_version := v, t_data := data\<rparr>);
             (t2, es) = flushVersionExists t1;
             (t3, es') = next_step e t2
         in (t3, es @ es')))"

text \<open>The end of \<open>add\<close>: the step is queued, and the queue started.\<close>

definition enqueue :: "env \<Rightarrow> step \<Rightarrow> bool \<Rightarrow> transition \<Rightarrow> transition \<times> t_effect list" where
  "enqueue e st upsert t =
     (let v = version_of (step_message st);
          t1 = (if v \<noteq> -1 then t\<lparr>lastVersion := Some v\<rparr> else t);
          t2 = t1\<lparr>steps := steps t1 @ [st]\<rparr>
      in if \<not> recordRequestMade t2
         then (t2\<lparr>recordRequestMade := True\<rparr>, [TRequest (t_name t) upsert])
         else if length (steps t2) = 1 then next_step e t2
         else (t2, []))"

definition add :: "env \<Rightarrow> socket \<Rightarrow> message \<Rightarrow> bool \<Rightarrow> transition \<Rightarrow> transition \<times> t_effect list" where
  "add e s m0 upsert t =
     (case e_parse e s m0 of
        None \<Rightarrow> (t, [TSend s ((msg T_RECORD (RecordA RA_INVALID_MESSAGE_DATA))\<lparr>m_data := m_data m0\<rparr>)])
      | Some m \<Rightarrow>
          (let v = version_of m; st = \<lparr>step_message = m, step_sender = s\<rparr>
           in if m_action m = RecordA RA_UPDATE \<and>
                 \<not> isOfType (\<lambda>_. False) (m_parsed m) ''object'' \<and> \<not> isOfType (\<lambda>_. False) (m_parsed m) ''array''
              then (t, [TSend s (m\<lparr>m_action := RecordA RA_INVALID_MESSAGE_DATA, m_original := Some (m_action m)\<rparr>)])
              else if lastVersion t \<noteq> None \<and> v > the (lastVersion t) + 1
              then (t, [TSend s (invalid_version m)])
              else if lastVersion t \<noteq> None \<and> the (lastVersion t) \<noteq> v - 1
              then sendVersionExists st t
              else enqueue e st upsert t))"

definition onCacheRequestError :: "env \<Rightarrow> string \<Rightarrow> transition \<Rightarrow> transition \<times> t_effect list" where
  "onCacheRequestError e error t =
     destroy e (Some (''Cache retrieval error, nuking record transition for '' @ t_name t @ '', '' @ error)) t"

text \<open>The socket and message a callback passes on: the closure reads the sender of the step that
  is current when it runs.\<close>

definition cb_ack :: "write_cb \<Rightarrow> transition \<Rightarrow> transition \<times> t_effect list" where
  "cb_ack cb t =
     (case cb of
        PlainCb \<Rightarrow> (t, [])
      | AckCb m \<Rightarrow> handleWriteAcknowledgement (step_sender (the (currentStep t))) m t)"

definition nothing_pending :: "transition \<Rightarrow> bool" where
  "nothing_pending t \<longleftrightarrow> steps t = [] \<and> pendingCacheWrites t = 0 \<and> pendingStorageWrites t = 0"

definition broadcast_copy :: "message \<Rightarrow> message" where
  "broadcast_copy m = m\<lparr>m_writeack := False, m_corr := None\<rparr>"

definition onCacheSetResponse ::
  "env \<Rightarrow> string option \<Rightarrow> write_cb \<Rightarrow> transition \<Rightarrow> transition \<times> t_effect list" where
  "onCacheSetResponse e error cb t =
     (case currentStep t of
        None \<Rightarrow> destroy e (Some (''Cache results received without a valid step in record transition for '' @ t_name t)) t
      | Some st \<Rightarrow>
          (let (t1, es1) = cb_ack cb t
           in if nonempty error
              then (let (t2, es2) = onFatalError e (the error) t1 in (t2, es1 @ es2))
              else if \<not> isDestroyed t1
              then (let (t2, es2) = next_step e t1
                    in (t2, es1 @ [TBroadcast (broadcast_copy (step_message st)) (step_sender st)] @ es2))
              else if nothing_pending t1
              then (let (t2, es2) = destroy e None t1 in (t2, es1 @ es2))
              else (t1, es1)))"

definition onStorageSetResponse ::
  "env \<Rightarrow> string option \<Rightarrow> write_cb \<Rightarrow> transition \<Rightarrow> transition \<times> t_effect list" where
  "onStorageSetResponse e error cb t =
     (let (t1, es1) = cb_ack cb t
      in if nonempty error
         then (let (t2, es2) = onFatalError e (the error) t1 in (t2, es1 @ es2))
         else if nothing_pending t1
         then (let (t2, es2) = destroy e None t1 in (t2, es1 @ es2))
         else (t1, es1))"

section \<open>A transition and its callbacks\<close>

text \<open>
  A transition together with what it waits for: the record request and the writes handed to the
  cache and to storage. An answer may come for any pending write. An exception ends the history.
\<close>

record t_system =
  ts_t :: transition
  ts_request :: "bool option"
  ts_cache :: "write_cb list"
  ts_storage :: "write_cb list"
  ts_thrown :: bool

datatype t_input =
    Add socket message bool
  | RecordLoaded int "json option"
  | RecordFailed string
  | CacheDone nat "string option"
  | StorageDone nat "string option"
  | Deleted

definition ts_init :: "string \<Rightarrow> t_system" where
  "ts_init name = \<lparr>ts_t = new_transition name, ts_request = None, ts_cache = [], ts_storage = [],
     ts_thrown = False\<rparr>"

fun take_effect :: "t_effect \<Rightarrow> t_system \<Rightarrow> t_system" where
  "take_effect (TRequest n upsert) S = S\<lparr>ts_request := Some upsert\<rparr>"
| "take_effect (TCacheSet n v d cb) S = S\<lparr>ts_cache := ts_cache S @ [cb]\<rparr>"
| "take_effect (TStorageSet n v d cb) S = S\<lparr>ts_storage := ts_storage S @ [cb]\<rparr>"
| "take_effect (TThrow err) S = S\<lparr>ts_thrown := True\<rparr>"
| "take_effect _ S = S"

definition remove_nth :: "nat \<Rightarrow> 'a list \<Rightarrow> 'a list" where
  "remove_nth i xs = take i xs @ drop (Suc i) xs"

definition after :: "t_system \<Rightarrow> transition \<times> t_effect list \<Rightarrow> t_system \<times> t_effect list" where
  "after S res = (fold take_effect (snd res) (S\<lparr>ts_t := fst res\<rparr>), snd res)"

fun ts_step :: "env \<Rightarrow> t_system \<Rightarrow> t_input \<Rightarrow> t_system \<times> t_effect list" where
  "ts_step e S (Add s m upsert) = after S (add e s m upsert (ts_t S))"
| "ts_step e S (RecordLoaded v d) =
     after (S\<lparr>ts_request := None\<rparr>) (onRecord e v d (the (ts_request S)) (ts_t S))"
| "ts_step e S (RecordFailed event) =
     after (S\<lparr>ts_request := None\<rparr>) (onCacheRequestError e event (ts_t S))"
| "ts_step e S (CacheDone i error) =
     after (S\<lparr>ts_cache := remove_nth i (ts_cache S)\<rparr>) (onCacheSetResponse e error (ts_cache S ! i) (ts_t S))"
| "ts_step e S (StorageDone i error) =
     after (S\<lparr>ts_storage := remove_nth i (ts_storage S)\<rparr>) (onStorageSetResponse e error (ts_storage S ! i) (ts_t S))"
| "ts_step e S Deleted = after S (destroy e None (ts_t S))"

fun ts_enabled :: "t_system \<Rightarrow> t_input \<Rightarrow> bool" where
  "ts_enabled S (Add _ _ _) = (\<not> ts_thrown S)"
| "ts_enabled S (RecordLoaded _ _) = (\<not> ts_thrown S \<and> ts_request S \<noteq> None)"
| "ts_enabled S (RecordFailed _) = (\<not> ts_thrown S \<and> ts_request S \<noteq> None)"
| "ts_enabled S (CacheDone i _) = (\<not> ts_thrown S \<and> i < length (ts_cache S))"
| "ts_enabled S (StorageDone i _) = (\<not> ts_thrown S \<and> i < length (ts_storage S))"
| "ts_enabled S Deleted = (\<not> ts_thrown S)"

fun ts_history :: "env \<Rightarrow> t_system \<Rightarrow> t_input list \<Rightarrow> bool" where
  "ts_history e S [] = True"
| "ts_history e S (i # is) = (ts_enabled S i \<and> ts_history e (fst (ts_step e S i)) is)"

section \<open>The writes are a serial execution\<close>

text \<open>What a history wrote to the cache, and the messages it accepted for parsing.\<close>

fun cache_writes :: "t_effect list \<Rightarrow> (int \<times> json option) list" where
  "cache_writes [] = []"
| "cache_writes (TCacheSet n v d cb # es) = (v, d) # cache_writes es"
| "cache_writes (e # es) = cache_writes es"

lemma cache_writes_append [simp]: "cache_writes (es @ fs) = cache_writes es @ cache_writes fs"
  by (induction es rule: cache_writes.induct) auto

fun added :: "env \<Rightarrow> t_input list \<Rightarrow> message list" where
  "added e [] = []"
| "added e (Add s m u # is) = (case e_parse e s m of Some m' \<Rightarrow> m' # added e is | None \<Rightarrow> added e is)"
| "added e (i # is) = added e is"

text \<open>The specification: the messages applied one after the other to a record.\<close>

fun serial :: "env \<Rightarrow> int \<Rightarrow> json option \<Rightarrow> message list \<Rightarrow> (int \<times> json option) list option" where
  "serial e v d [] = Some []"
| "serial e v d (m # ms) =
     (if version_of m \<noteq> -1 \<and> version_of m \<noteq> v + 1 then None
      else case write_data e m d of
             Inl _ \<Rightarrow> None
           | Inr d' \<Rightarrow> (case serial e (v + 1) d' ms of None \<Rightarrow> None | Some ws \<Rightarrow> Some ((v + 1, d') # ws)))"

fun last_write :: "int \<Rightarrow> json option \<Rightarrow> (int \<times> json option) list \<Rightarrow> int \<times> json option" where
  "last_write v d [] = (v, d)"
| "last_write v d (w # ws) = last_write (fst w) (snd w) ws"

lemma serial_append:
  "serial e v d ms = Some ws \<Longrightarrow> last_write v d ws = (v', d') \<Longrightarrow>
   serial e v d (ms @ ms') = (case serial e v' d' ms' of None \<Rightarrow> None | Some ws' \<Rightarrow> Some (ws @ ws'))"
  by (induction ms arbitrary: v d ws) (auto split: if_splits sum.splits option.splits)

lemma last_write_append: "last_write v d (ws @ ws') = (case last_write v d ws of (v', d') \<Rightarrow> last_write v' d' ws')"
  by (induction ws arbitrary: v d) auto

lemma write_data_version [simp]: "write_data e (m\<lparr>m_version := x\<rparr>) d = write_data e m d"
  by (simp add: write_data_def cong: option.case_cong sum.case_cong)

text \<open>An operation that touches neither the record nor the queue.\<close>

definition throws :: "t_effect list \<Rightarrow> bool" where
  "throws es \<longleftrightarrow> (\<exists>err. TThrow err \<in> set es)"

fun requests :: "t_effect list \<Rightarrow> bool list" where
  "requests [] = []"
| "requests (TRequest n u # es) = u # requests es"
| "requests (e # es) = requests es"

lemma requests_append [simp]: "requests (es @ fs) = requests es @ requests fs"
  by (induction es rule: requests.induct) auto

lemma throws_append [simp]: "throws (es @ fs) \<longleftrightarrow> throws es \<or> throws fs"
  by (auto simp: throws_def)

lemma throws_simps [simp]: "\<not> throws []" "throws (TThrow err # es)"
  "throws (TSend s m # es) = throws es" "throws (TRequest n u # es) = throws es"
  "throws (TStorageSet n v d cb # es) = throws es" "throws (TCacheSet n v d cb # es) = throws es"
  "throws (TBroadcast m s # es) = throws es" "throws (TComplete n # es) = throws es"
  by (auto simp: throws_def)

fun only_sends :: "t_effect list \<Rightarrow> bool" where
  "only_sends [] = True"
| "only_sends (TSend s m # es) = only_sends es"
| "only_sends (TComplete n # es) = only_sends es"
| "only_sends (TBroadcast m s # es) = only_sends es"
| "only_sends (e # es) = False"

lemma only_sends_append [simp]: "only_sends (es @ fs) \<longleftrightarrow> only_sends es \<and> only_sends fs"
  by (induction es rule: only_sends.induct) auto

lemma only_sends_map [simp]: "only_sends (map (\<lambda>x. TSend (f x) (g x)) xs)"
  by (induction xs) auto

lemma only_sends_concat [simp]: "(\<And>x. x \<in> set xs \<Longrightarrow> only_sends (f x)) \<Longrightarrow> only_sends (concat (map f xs))"
  by (induction xs) auto

lemma only_sends_none: "only_sends es \<Longrightarrow> cache_writes es = [] \<and> requests es = [] \<and> \<not> throws es"
  by (induction es rule: only_sends.induct) auto

text \<open>Completion is reported under the record's name.\<close>

fun completes_as :: "string \<Rightarrow> t_effect list \<Rightarrow> bool" where
  "completes_as n [] = True"
| "completes_as n (TComplete m # es) = (m = n \<and> completes_as n es)"
| "completes_as n (e # es) = completes_as n es"

lemma completes_as_append [simp]: "completes_as n (es @ fs) \<longleftrightarrow> completes_as n es \<and> completes_as n fs"
  by (induction n es rule: completes_as.induct) auto

text \<open>Sends alone.\<close>

fun sends :: "t_effect list \<Rightarrow> bool" where
  "sends [] = True"
| "sends (TSend s m # es) = sends es"
| "sends (e # es) = False"

lemma sends_append [simp]: "sends (es @ fs) \<longleftrightarrow> sends es \<and> sends fs"
  by (induction es rule: sends.induct) auto

lemma sends_map [simp]: "sends (map (\<lambda>x. TSend (f x) (g x)) xs)"
  by (induction xs) auto

lemma sends_concat [simp]: "(\<And>x. x \<in> set xs \<Longrightarrow> sends (f x)) \<Longrightarrow> sends (concat (map f xs))"
  by (induction xs) auto

lemma sends_only: "sends es \<Longrightarrow> only_sends es"
  by (induction es rule: sends.induct) auto

definition idle :: "transition \<Rightarrow> transition \<times> t_effect list \<Rightarrow> bool" where
  "idle t r \<longleftrightarrow> t_version (fst r) = t_version t \<and> t_data (fst r) = t_data t \<and>
     steps (fst r) = steps t \<and> recordRequestMade (fst r) = recordRequestMade t \<and> only_sends (snd r)"

lemma idle_refl [simp]: "idle t (t, [])"
  by (simp add: idle_def)

lemma idle_seq: "idle t r \<Longrightarrow> idle (fst r) r' \<Longrightarrow> idle t (fst r', snd r @ snd r')"
  by (simp add: idle_def)

lemma idle_sendVersionExists: "idle t (sendVersionExists st t)"
  by (simp add: idle_def sendVersionExists_def)

lemma idle_flush: "idle t (flush sts t)"
  by (induction sts t rule: flush.induct) (auto simp: Let_def intro: idle_seq idle_sendVersionExists)

lemma idle_flushVersionExists: "idle t (flushVersionExists t)"
  using idle_flush [of t "existingVersions t"]
  by (simp add: flushVersionExists_def idle_def split_beta)

lemma idle_ack_errors: "idle t (sendWriteAcknowledgementErrors t)"
  by (auto simp: idle_def sendWriteAcknowledgementErrors_def comp_def intro!: only_sends_concat)

lemma idle_destroy: "idle t (destroy e error t)"
  using idle_ack_errors [of t]
  by (auto simp: idle_def destroy_def split_beta Let_def split: option.split)

lemma idle_onCacheRequestError: "idle t (onCacheRequestError e error t)"
  by (simp add: onCacheRequestError_def idle_destroy)

lemma idle_onFatalError: "idle t (onFatalError e error t)"
  using idle_destroy [of t e "Some error"]
  by (simp add: onFatalError_def idle_def Let_def split_beta)

lemma idle_cb_ack: "idle t (cb_ack cb t)"
  by (simp add: cb_ack_def handleWriteAcknowledgement_def idle_def Let_def split: write_cb.split option.split)

text \<open>An operation that applies a subsequence of the queue, in order.\<close>

definition progress :: "env \<Rightarrow> transition \<Rightarrow> transition \<times> t_effect list \<Rightarrow> bool" where
  "progress e t r \<longleftrightarrow>
     recordRequestMade (fst r) = recordRequestMade t \<and> requests (snd r) = [] \<and>
     (t_data t = Some JNull \<longrightarrow> idle t r) \<and>
     (\<exists>ms. subseq (ms @ map step_message (steps (fst r))) (map step_message (steps t)) \<and>
        serial e (t_version t) (t_data t) ms = Some (cache_writes (snd r)) \<and>
        (\<not> throws (snd r) \<longrightarrow>
           last_write (t_version t) (t_data t) (cache_writes (snd r)) = (t_version (fst r), t_data (fst r))))"

lemma progress_idle: "idle t r \<Longrightarrow> progress e t r"
  by (auto simp: progress_def idle_def only_sends_none intro!: exI [of _ "[]"])

lemma progress_after_idle: "idle t r \<Longrightarrow> progress e (fst r) r' \<Longrightarrow> progress e t (fst r', snd r @ snd r')"
  using only_sends_none [of "snd r"] by (auto simp: progress_def idle_def)

lemma version_resolve: "version_of (step_message (resolve v st)) =
    (if version_of (step_message st) = -1 then v + 1 else version_of (step_message st))"
  by (simp add: resolve_def version_of_def)

lemma write_data_resolve [simp]: "write_data e (step_message (resolve v st)) d = write_data e (step_message st) d"
  by (simp add: resolve_def)

lemma set_up_fields [simp]:
  "t_version (setUpWriteAcknowledgement m s t) = t_version t"
  "t_data (setUpWriteAcknowledgement m s t) = t_data t"
  "steps (setUpWriteAcknowledgement m s t) = steps t"
  "recordRequestMade (setUpWriteAcknowledgement m s t) = recordRequestMade t"
  "isDestroyed (setUpWriteAcknowledgement m s t) = isDestroyed t"
  "lastVersion (setUpWriteAcknowledgement m s t) = lastVersion t"
  "currentStep (setUpWriteAcknowledgement m s t) = currentStep t"
  "t_name (setUpWriteAcknowledgement m s t) = t_name t"
  by (simp_all add: setUpWriteAcknowledgement_def Let_def split: option.split)

lemma apply_step_fields:
  "recordRequestMade (fst (apply_step e st t)) = recordRequestMade t"
  "steps (fst (apply_step e st t)) = steps t"
  "t_version (fst (apply_step e st t)) = version_of (step_message st)"
  "isDestroyed (fst (apply_step e st t)) = isDestroyed t"
  "currentStep (fst (apply_step e st t)) = currentStep t"
  "lastVersion (fst (apply_step e st t)) = lastVersion t"
  "t_name (fst (apply_step e st t)) = t_name t"
  "requests (snd (apply_step e st t)) = []"
  by (auto simp: apply_step_def Let_def split: sum.split)

lemma apply_step_writes:
  "(case write_data e (step_message st) (t_data t) of
      Inl err \<Rightarrow> throws (snd (apply_step e st t)) \<and> cache_writes (snd (apply_step e st t)) = []
    | Inr d \<Rightarrow> \<not> throws (snd (apply_step e st t)) \<and> t_data (fst (apply_step e st t)) = d \<and>
        cache_writes (snd (apply_step e st t)) = [(version_of (step_message st), d)])"
  by (auto simp: apply_step_def Let_def split: sum.split)

lemma progress_apply:
  assumes "steps t = st0 # rest" "st = resolve (t_version t) st0"
    and "version_of (step_message st) = t_version t + 1" and "t_data t \<noteq> Some JNull"
  shows "progress e t (apply_step e st (t\<lparr>steps := rest, currentStep := Some st\<rparr>))"
proof -
  let ?t = "t\<lparr>steps := rest, currentStep := Some st\<rparr>" and ?m = "step_message st0"
  have v: "version_of ?m = -1 \<or> version_of ?m = t_version t + 1"
    using assms(2,3) by (auto simp: version_resolve split: if_splits)
  show ?thesis
  proof (cases "write_data e (step_message st) (t_data t)")
    case (Inl err)
    then show ?thesis
      using assms(1,4) apply_step_writes [of e st ?t]
      by (auto simp: progress_def apply_step_fields intro!: exI [of _ "[]"])
  next
    case (Inr d)
    then have "serial e (t_version t) (t_data t) [?m] = Some [(t_version t + 1, d)]"
      using v assms(2) by auto
    then show ?thesis
      using assms(1,3,4) Inr apply_step_writes [of e st ?t]
      by (auto simp: progress_def apply_step_fields intro!: exI [of _ "[?m]"])
  qed
qed

lemma progress_drop:
  assumes "steps t = st0 # rest" and "t_data t \<noteq> Some JNull"
    and "progress e (t\<lparr>steps := rest, currentStep := c\<rparr>) r"
  shows "progress e t r"
proof -
  from assms obtain ms where ms: "subseq (ms @ map step_message (steps (fst r))) (map step_message rest)"
    "serial e (t_version t) (t_data t) ms = Some (cache_writes (snd r))"
    "\<not> throws (snd r) \<longrightarrow>
       last_write (t_version t) (t_data t) (cache_writes (snd r)) = (t_version (fst r), t_data (fst r))"
    by (auto simp: progress_def)
  then have "subseq (ms @ map step_message (steps (fst r))) (map step_message (steps t))"
    using assms(1) by (simp add: list_emb_Cons)
  with ms assms show ?thesis unfolding progress_def by auto
qed

lemma progress_next: "progress e t (next_step e t)"
proof (induction e t rule: next_step.induct)
  case (1 e t)
  show ?case
  proof (cases "isDestroyed t \<or> t_data t = Some JNull")
    case True
    then show ?thesis by (subst next_step.simps) (auto intro: progress_idle)
  next
    case False
    show ?thesis
    proof (cases "steps t")
      case Nil
      then show ?thesis using False
        by (subst next_step.simps) (auto intro: progress_idle idle_destroy)
    next
      case (Cons st0 rest)
      define st where "st = resolve (t_version t) st0"
      define t1 where "t1 = t\<lparr>steps := rest, currentStep := Some st\<rparr>"
      let ?v = "version_of (step_message st)"
      consider "?v > t_version t + 1" | "?v < t_version t + 1" | "?v = t_version t + 1" by linarith
      then show ?thesis
      proof cases
        case 1
        then have "next_step e t = (t1, [TSend (step_sender st)
            ((invalid_version (step_message st))\<lparr>m_version := Some (t_version t)\<rparr>)])"
          using False Cons by (subst next_step.simps) (simp add: st_def t1_def Let_def)
        then show ?thesis
          using progress_drop [OF Cons _ progress_idle] False by (simp add: idle_def t1_def)
      next
        case 2
        define r where "r = sendVersionExists st t1"
        have IH: "progress e (fst r) (next_step e (fst r))"
          using "1.IH" [OF _ _ Cons refl refl refl _ _ refl] False 2 Cons
          by (auto simp: st_def t1_def r_def)
        have "next_step e t = (fst (next_step e (fst r)), snd r @ snd (next_step e (fst r)))"
          using False Cons 2 by (subst next_step.simps) (simp add: st_def t1_def r_def Let_def)
        moreover have "progress e t1 (fst (next_step e (fst r)), snd r @ snd (next_step e (fst r)))"
          by (rule progress_after_idle [OF _ IH]) (simp add: r_def idle_sendVersionExists)
        ultimately show ?thesis
          using progress_drop [OF Cons] False by (simp add: t1_def)
      next
        case 3
        then have "next_step e t = apply_step e st t1"
          using False Cons by (subst next_step.simps) (simp add: st_def t1_def Let_def)
        then show ?thesis using progress_apply [OF Cons st_def 3] False by (simp add: t1_def)
      qed
    qed
  qed
qed

lemma progress_onCacheSetResponse: "progress e t (onCacheSetResponse e error cb t)"
proof (cases "currentStep t")
  case None
  then show ?thesis by (simp add: onCacheSetResponse_def progress_idle idle_destroy)
next
  case (Some st)
  define r where "r = cb_ack cb t"
  let ?b = "[TBroadcast (broadcast_copy (step_message st)) (step_sender st)]"
  have r: "idle t r" by (simp add: r_def idle_cb_ack)
  have b: "idle t (fst r, snd r @ ?b)" using r by (simp add: idle_def)
  have fatal: "progress e t (fst (onFatalError e x (fst r)), snd r @ snd (onFatalError e x (fst r)))" for x
    by (intro progress_idle idle_seq [OF r] idle_onFatalError)
  have dest: "progress e t (fst (destroy e None (fst r)), snd r @ snd (destroy e None (fst r)))"
    by (intro progress_idle idle_seq [OF r] idle_destroy)
  have nxt: "progress e t (fst (next_step e (fst r)), (snd r @ ?b) @ snd (next_step e (fst r)))"
    using progress_after_idle [OF b] progress_next by simp
  show ?thesis
    using Some fatal dest nxt progress_idle [OF r, of e]
    by (simp add: onCacheSetResponse_def split_beta flip: r_def)
qed

lemma progress_onStorageSetResponse: "progress e t (onStorageSetResponse e error cb t)"
proof -
  define r where "r = cb_ack cb t"
  have r: "idle t r" by (simp add: r_def idle_cb_ack)
  have fatal: "progress e t (fst (onFatalError e x (fst r)), snd r @ snd (onFatalError e x (fst r)))" for x
    by (intro progress_idle idle_seq [OF r] idle_onFatalError)
  have dest: "progress e t (fst (destroy e None (fst r)), snd r @ snd (destroy e None (fst r)))"
    by (intro progress_idle idle_seq [OF r] idle_destroy)
  show ?thesis
    using fatal dest progress_idle [OF r, of e]
    by (simp add: onStorageSetResponse_def split_beta flip: r_def)
qed

text \<open>Loading the record: the base of the serial execution.\<close>

lemma onRecord_progress:
  "\<exists>t1. recordRequestMade t1 = recordRequestMade t \<and> steps t1 = steps t \<and>
     progress e t1 (onRecord e v d upsert t)"
proof (cases "d = Some JNull \<and> \<not> upsert")
  case True
  then have "progress e t (onRecord e v d upsert t)"
    by (simp add: onRecord_def progress_idle idle_onFatalError)
  then show ?thesis by blast
next
  case False
  define t1 where "t1 = (if d = Some JNull then t\<lparr>t_data := Some (JObj []), t_version := 0\<rparr>
                   else t\<lparr>t_version := v, t_data := d\<rparr>)"
  define r where "r = flushVersionExists t1"
  have "progress e t1 (fst (next_step e (fst r)), snd r @ snd (next_step e (fst r)))"
    by (rule progress_after_idle [OF _ progress_next]) (simp add: r_def idle_flushVersionExists)
  moreover have "onRecord e v d upsert t = (fst (next_step e (fst r)), snd r @ snd (next_step e (fst r)))"
    using False by (auto simp: onRecord_def t1_def r_def Let_def split_beta)
  moreover have "recordRequestMade t1 = recordRequestMade t \<and> steps t1 = steps t" by (simp add: t1_def)
  ultimately show ?thesis by metis
qed

text \<open>Both kinds of operation, over the queue \<open>q\<close> of messages they may apply.\<close>

definition advance :: "env \<Rightarrow> transition \<Rightarrow> message list \<Rightarrow> transition \<times> t_effect list \<Rightarrow> bool" where
  "advance e t q r \<longleftrightarrow>
    recordRequestMade (fst r) = recordRequestMade t \<and> requests (snd r) = [] \<and>
    (t_data t = Some JNull \<longrightarrow> t_data (fst r) = Some JNull) \<and>
    (\<exists>ms. subseq (ms @ map step_message (steps (fst r))) q \<and>
       (t_data t = Some JNull \<longrightarrow> ms = []) \<and>
       serial e (t_version t) (t_data t) ms = Some (cache_writes (snd r)) \<and>
       (\<not> throws (snd r) \<longrightarrow>
          last_write (t_version t) (t_data t) (cache_writes (snd r)) = (t_version (fst r), t_data (fst r))))"

lemma advance_progress:
  assumes "progress e t r" shows "advance e t (map step_message (steps t)) r"
proof (cases "t_data t = Some JNull")
  case True
  then have "idle t r" using assms by (simp add: progress_def)
  then show ?thesis by (auto simp: advance_def idle_def only_sends_none intro!: exI [of _ "[]"])
next
  case False
  then show ?thesis using assms by (auto simp: progress_def advance_def)
qed

text \<open>Adding a step: it is queued at the end or refused, then the queue may advance.\<close>

lemma advance_enqueue:
  assumes "progress e (t\<lparr>lastVersion := l, steps := steps t @ [st]\<rparr>) r"
  shows "advance e t (map step_message (steps t) @ [step_message st]) r"
  using advance_progress [OF assms] by (simp add: advance_def)

lemma advance_refuse: "idle t r \<Longrightarrow> advance e t (map step_message (steps t) @ ms) r"
  using only_sends_none [of "snd r"]
  by (auto simp: advance_def idle_def intro!: exI [of _ "[]"])

lemma add_cases:
  obtains (parse_error) "e_parse e s m0 = None" "idle t (add e s m0 u t)"
  | (refused) m where "e_parse e s m0 = Some m" "idle t (add e s m0 u t)"
  | (requested) m l where "e_parse e s m0 = Some m" "\<not> recordRequestMade t"
      "add e s m0 u t = (t\<lparr>lastVersion := l,
         steps := steps t @ [\<lparr>step_message = m, step_sender = s\<rparr>], recordRequestMade := True\<rparr>, [TRequest (t_name t) u])"
  | (queued) m l where "e_parse e s m0 = Some m" "recordRequestMade t"
      "progress e (t\<lparr>lastVersion := l, steps := steps t @ [\<lparr>step_message = m, step_sender = s\<rparr>]\<rparr>) (add e s m0 u t)"
proof (cases "e_parse e s m0")
  case None
  then show ?thesis using parse_error by (simp add: add_def idle_def)
next
  case (Some m)
  define st where "st = \<lparr>step_message = m, step_sender = s\<rparr>"
  define l where "l = (if version_of m \<noteq> -1 then Some (version_of m) else lastVersion t)"
  define t2 where "t2 = t\<lparr>lastVersion := l, steps := steps t @ [st]\<rparr>"
  have enq: "enqueue e st u t = (if \<not> recordRequestMade t2
         then (t2\<lparr>recordRequestMade := True\<rparr>, [TRequest (t_name t) u])
         else if length (steps t2) = 1 then next_step e t2 else (t2, []))"
    by (cases "version_of m = -1") (simp_all add: enqueue_def t2_def l_def st_def Let_def)
  consider (inv) "m_action m = RecordA RA_UPDATE" "\<not> isOfType (\<lambda>_. False) (m_parsed m) ''object''"
      "\<not> isOfType (\<lambda>_. False) (m_parsed m) ''array''"
    | (high) "lastVersion t \<noteq> None" "version_of m > the (lastVersion t) + 1"
    | (ex) "lastVersion t \<noteq> None" "the (lastVersion t) \<noteq> version_of m - 1"
    | (ok) "lastVersion t = None \<or> the (lastVersion t) = version_of m - 1"
        "\<not> (m_action m = RecordA RA_UPDATE \<and> \<not> isOfType (\<lambda>_. False) (m_parsed m) ''object'' \<and>
            \<not> isOfType (\<lambda>_. False) (m_parsed m) ''array'')"
    by metis
  then have "idle t (add e s m0 u t) \<or>
      add e s m0 u t = (if \<not> recordRequestMade t2 then (t2\<lparr>recordRequestMade := True\<rparr>, [TRequest (t_name t) u])
         else if length (steps t2) = 1 then next_step e t2 else (t2, []))"
  proof cases
    case inv
    then have "idle t (add e s m0 u t)" using Some by (simp add: add_def idle_def)
    then show ?thesis ..
  next
    case high
    then have "idle t (add e s m0 u t)" using Some by (simp add: add_def idle_def Let_def)
    then show ?thesis ..
  next
    case ex
    then have "add e s m0 u t = sendVersionExists st t \<or> sends (snd (add e s m0 u t)) \<and> fst (add e s m0 u t) = t"
      using Some by (auto simp: add_def Let_def st_def)
    then have "idle t (add e s m0 u t)"
      using idle_sendVersionExists [of t st] sends_only [of "snd (add e s m0 u t)"] by (auto simp: idle_def)
    then show ?thesis ..
  next
    case ok
    then have c: "(lastVersion t \<noteq> None \<and> version_of m > the (lastVersion t) + 1) = False"
      "(lastVersion t \<noteq> None \<and> the (lastVersion t) \<noteq> version_of m - 1) = False"
      "(m_action m = RecordA RA_UPDATE \<and> \<not> isOfType (\<lambda>_. False) (m_parsed m) ''object'' \<and>
            \<not> isOfType (\<lambda>_. False) (m_parsed m) ''array'') = False" by auto
    have "add e s m0 u t = enqueue e st u t"
      by (simp only: add_def Some option.case Let_def c if_False st_def)
    then show ?thesis using enq by metis
  qed
  then show ?thesis
  proof
    assume "idle t (add e s m0 u t)"
    then show ?thesis using refused Some by blast
  next
    assume eq: "add e s m0 u t = (if \<not> recordRequestMade t2 then (t2\<lparr>recordRequestMade := True\<rparr>, [TRequest (t_name t) u])
         else if length (steps t2) = 1 then next_step e t2 else (t2, []))"
    show ?thesis
    proof (cases "recordRequestMade t")
      case False
      then show ?thesis using eq requested [OF Some False, of l] by (simp add: t2_def st_def)
    next
      case True
      then have "recordRequestMade t2" by (simp add: t2_def)
      then have "progress e t2 (add e s m0 u t)"
        using progress_next [of e t2] progress_idle [OF idle_refl, of e t2] by (simp add: eq)
      then show ?thesis using queued [OF Some True, of l] by (simp add: t2_def st_def)
    qed
  qed
qed

lemma take_effects [simp]:
  "ts_t (fold take_effect es S) = ts_t S"
  "ts_thrown (fold take_effect es S) \<longleftrightarrow> ts_thrown S \<or> throws es"
proof (induction es arbitrary: S)
  case (Cons x es)
  { case 1 show ?case using Cons by (cases x) auto
  next case 2 show ?case using Cons by (cases x) auto }
qed auto

lemma take_requests:
  "ts_request (fold take_effect es S) = (if requests es = [] then ts_request S else Some (last (requests es)))"
proof (induction es arbitrary: S)
  case (Cons x es)
  then show ?case by (cases x) auto
qed simp

definition ts_inv :: "env \<Rightarrow> message list \<Rightarrow> t_effect list \<Rightarrow> t_system \<Rightarrow> bool" where
  "ts_inv e msgs es S \<longleftrightarrow>
     (ts_request S \<noteq> None \<longrightarrow> recordRequestMade (ts_t S)) \<and>
     (\<exists>done v0 d0.
        subseq (done @ map step_message (steps (ts_t S))) msgs \<and>
        serial e v0 d0 done = Some (cache_writes es) \<and>
        (\<not> ts_thrown S \<longrightarrow> last_write v0 d0 (cache_writes es) = (t_version (ts_t S), t_data (ts_t S))) \<and>
        (ts_request S \<noteq> None \<or> \<not> recordRequestMade (ts_t S) \<longrightarrow>
           done = [] \<and> t_data (ts_t S) = Some JNull))"

lemma ts_inv_advance:
  assumes inv: "ts_inv e msgs es S" and "\<not> ts_thrown S"
    and adv: "advance e (ts_t S) (map step_message (steps (ts_t S)) @ new) r"
    and S': "ts_t S' = ts_t S" "ts_request S' = ts_request S \<or> ts_request S' = None \<and> recordRequestMade (ts_t S)"
      "\<not> ts_thrown S'"
  shows "ts_inv e (msgs @ new) (es @ snd r) (fst (after S' r))"
proof -
  obtain "done" v0 d0 where sub: "subseq (done @ map step_message (steps (ts_t S))) msgs"
    and ser: "serial e v0 d0 done = Some (cache_writes es)"
    and last: "last_write v0 d0 (cache_writes es) = (t_version (ts_t S), t_data (ts_t S))"
    and pre: "ts_request S \<noteq> None \<or> \<not> recordRequestMade (ts_t S) \<longrightarrow>
        done = [] \<and> t_data (ts_t S) = Some JNull"
    using inv assms(2) unfolding ts_inv_def by blast
  obtain ms where ms: "subseq (ms @ map step_message (steps (fst r))) (map step_message (steps (ts_t S)) @ new)"
    and none: "t_data (ts_t S) = Some JNull \<longrightarrow> ms = []"
    and ser': "serial e (t_version (ts_t S)) (t_data (ts_t S)) ms = Some (cache_writes (snd r))"
    and last': "\<not> throws (snd r) \<longrightarrow>
      last_write (t_version (ts_t S)) (t_data (ts_t S)) (cache_writes (snd r)) = (t_version (fst r), t_data (fst r))"
    using adv unfolding advance_def by blast
  have "subseq (done @ (ms @ map step_message (steps (fst r)))) (done @ (map step_message (steps (ts_t S)) @ new))"
    using ms by (rule list_emb_append_mono [rotated]) simp
  moreover have "subseq (done @ map step_message (steps (ts_t S)) @ new) (msgs @ new)"
    using list_emb_append_mono [OF sub, of new new] by simp
  ultimately have "subseq ((done @ ms) @ map step_message (steps (fst r))) (msgs @ new)"
    by (metis append.assoc subseq_order.trans)
  moreover have "serial e v0 d0 (done @ ms) = Some (cache_writes (es @ snd r))"
    using serial_append [OF ser last, of ms] ser' by simp
  moreover have "\<not> throws (snd r) \<longrightarrow> last_write v0 d0 (cache_writes (es @ snd r)) = (t_version (fst r), t_data (fst r))"
    using last' by (simp add: last_write_append last)
  moreover have "ts_request S' \<noteq> None \<or> \<not> recordRequestMade (fst r) \<longrightarrow> done @ ms = [] \<and> t_data (fst r) = Some JNull"
    using pre none adv S'(2) by (auto simp: advance_def)
  moreover have "ts_request S' \<noteq> None \<longrightarrow> recordRequestMade (fst r)"
    using adv inv S'(2) by (auto simp: advance_def ts_inv_def)
  moreover have "requests (snd r) = []" using adv by (simp add: advance_def)
  ultimately show ?thesis
    using S'(3) unfolding ts_inv_def
    by (intro conjI exI [of _ "done @ ms"] exI [of _ v0] exI [of _ d0])
       (simp_all add: take_requests after_def)
qed

lemma ts_inv_load:
  assumes inv: "ts_inv e msgs es S" and "ts_request S \<noteq> None" "\<not> ts_thrown S"
  shows "ts_inv e msgs (es @ snd (onRecord e v d u (ts_t S)))
    (fst (after (S\<lparr>ts_request := None\<rparr>) (onRecord e v d u (ts_t S))))"
proof -
  let ?r = "onRecord e v d u (ts_t S)"
  have made: "recordRequestMade (ts_t S)" using assms by (simp add: ts_inv_def)
  have q: "subseq (map step_message (steps (ts_t S))) msgs" and w: "cache_writes es = []"
    using assms by (auto simp: ts_inv_def)
  obtain t1 where t1: "recordRequestMade t1 = recordRequestMade (ts_t S)" "steps t1 = steps (ts_t S)"
    "progress e t1 ?r" using onRecord_progress by blast
  then obtain ms where sub: "subseq (ms @ map step_message (steps (fst ?r))) (map step_message (steps (ts_t S)))"
    and ser: "serial e (t_version t1) (t_data t1) ms = Some (cache_writes (snd ?r))"
    and last: "\<not> throws (snd ?r) \<longrightarrow>
      last_write (t_version t1) (t_data t1) (cache_writes (snd ?r)) = (t_version (fst ?r), t_data (fst ?r))"
    unfolding progress_def by metis
  have "recordRequestMade (fst ?r)" "requests (snd ?r) = []"
    using t1 made by (auto simp: progress_def)
  moreover have "subseq (ms @ map step_message (steps (fst ?r))) msgs"
    using sub q by (rule subseq_order.trans)
  ultimately show ?thesis
    using ser last w unfolding ts_inv_def
    by (intro conjI exI [of _ ms] exI [of _ "t_version t1"] exI [of _ "t_data t1"])
       (simp_all add: take_requests after_def)
qed

lemma ts_inv_request:
  assumes inv: "ts_inv e msgs es S" and "\<not> ts_thrown S" "\<not> recordRequestMade (ts_t S)"
  shows "ts_inv e (msgs @ [m]) (es @ [TRequest n u])
    (fst (after S ((ts_t S)\<lparr>lastVersion := l, steps := steps (ts_t S) @ [\<lparr>step_message = m, step_sender = s\<rparr>],
       recordRequestMade := True\<rparr>, [TRequest n u])))"
proof -
  have q: "subseq (map step_message (steps (ts_t S))) msgs" and w: "cache_writes es = []"
    and d: "t_data (ts_t S) = Some JNull"
    using assms by (auto simp: ts_inv_def)
  then have "subseq (map step_message (steps (ts_t S)) @ [m]) (msgs @ [m])"
    by (intro list_emb_append_mono) simp_all
  then show ?thesis
    using w d assms(2) unfolding ts_inv_def
    by (intro conjI exI [of _ "[]"] exI [of _ "t_version (ts_t S)"] exI [of _ "t_data (ts_t S)"])
       (simp_all add: after_def)
qed

lemma ts_inv_step:
  assumes inv: "ts_inv e msgs es S" and en: "ts_enabled S i"
  shows "ts_inv e (msgs @ added e [i]) (es @ snd (ts_step e S i)) (fst (ts_step e S i))"
proof (cases i)
  case (Add s m0 u)
  show ?thesis
  proof (cases rule: add_cases [where e = e and s = s and ?m0.0 = m0 and u = u and t = "ts_t S"])
    case parse_error
    then show ?thesis
      using Add ts_inv_advance [OF inv _ advance_refuse [OF parse_error(2), of e "[]"], of S] en
      by (simp add: after_def)
  next
    case (refused m)
    then show ?thesis
      using Add ts_inv_advance [OF inv _ advance_refuse [OF refused(2), of e "[m]"], of S] en
      by (simp add: after_def)
  next
    case (requested m l)
    then show ?thesis
      using Add ts_inv_request [OF inv _ requested(2), where m = m and n = "t_name (ts_t S)" and u = u and l = l and s = s] en
      by (simp add: after_def)
  next
    case (queued m l)
    then show ?thesis
      using Add ts_inv_advance [OF inv _ advance_enqueue [OF queued(3), simplified], of S] en
      by (simp add: after_def)
  qed
next
  case (RecordLoaded v d)
  then show ?thesis using ts_inv_load [OF inv, of v d "the (ts_request S)"] en by (auto simp: after_def)
next
  case (RecordFailed event)
  have "recordRequestMade (ts_t S)" using RecordFailed en inv by (simp add: ts_inv_def)
  then show ?thesis
    using RecordFailed en advance_refuse [OF idle_onCacheRequestError [of "ts_t S" e event], of e "[]"]
      ts_inv_advance [OF inv, where new = "[]" and S' = "S\<lparr>ts_request := None\<rparr>" and r = "onCacheRequestError e event (ts_t S)"]
    by (simp add: after_def)
next
  case (CacheDone k error)
  then show ?thesis
    using en advance_progress [OF progress_onCacheSetResponse, of e "ts_t S" error "ts_cache S ! k"]
      ts_inv_advance [OF inv, where new = "[]" and S' = "S\<lparr>ts_cache := remove_nth k (ts_cache S)\<rparr>"
        and r = "onCacheSetResponse e error (ts_cache S ! k) (ts_t S)"]
    by (simp add: after_def)
next
  case (StorageDone k error)
  then show ?thesis
    using en advance_progress [OF progress_onStorageSetResponse, of e "ts_t S" error "ts_storage S ! k"]
      ts_inv_advance [OF inv, where new = "[]" and S' = "S\<lparr>ts_storage := remove_nth k (ts_storage S)\<rparr>"
        and r = "onStorageSetResponse e error (ts_storage S ! k) (ts_t S)"]
    by (simp add: after_def)
next
  case Deleted
  then show ?thesis
    using en advance_refuse [OF idle_destroy [of "ts_t S" e None], of e "[]"]
      ts_inv_advance [OF inv, where new = "[]" and S' = S and r = "destroy e None (ts_t S)"]
    by (simp add: after_def)
qed

lemma added_append: "added e (xs @ ys) = added e xs @ added e ys"
  by (induction e xs rule: added.induct) (auto split: option.split)

lemma ts_inv_run:
  assumes "ts_inv e msgs es S" and "ts_history e S is"
  shows "ts_inv e (msgs @ added e is) (es @ snd (run (ts_step e) S is)) (fst (run (ts_step e) S is))"
  using assms
proof (induction "is" arbitrary: msgs es S)
  case (Cons i "is")
  then have "ts_inv e (msgs @ added e [i]) (es @ snd (ts_step e S i)) (fst (ts_step e S i))"
    by (intro ts_inv_step) simp_all
  from Cons.IH [OF this] Cons.prems(2) show ?case
    using added_append [of e "[i]" "is"] by (simp add: Let_def split_beta)
qed simp

lemma ts_inv_init: "ts_inv e [] [] (ts_init name)"
  by (auto simp: ts_inv_def ts_init_def new_transition_def intro!: exI [of _ "[]"])

lemma serial_versions:
  "serial e v d ms = Some ws \<Longrightarrow> map fst ws = map (\<lambda>i. v + 1 + int i) [0..<length ws] \<and> length ws = length ms"
proof (induction ms arbitrary: v d ws)
  case (Cons m ms)
  then obtain d' ws' where ws: "ws = (v + 1, d') # ws'" and s: "serial e (v + 1) d' ms = Some ws'"
    by (auto split: if_splits sum.splits option.splits)
  have "map fst ws' = map (\<lambda>i. v + 2 + int i) [0..<length ws']" and l: "length ws' = length ms"
    using Cons.IH [OF s] by simp_all
  moreover have "map (\<lambda>i. v + 1 + int i) [0..<Suc n] = (v + 1) # map (\<lambda>i. v + 2 + int i) [0..<n]" for n
    by (rule nth_equalityI) (auto simp: nth_Cons simp del: upt_Suc split: nat.split)
  ultimately show ?case using ws by (simp del: upt_Suc)
qed simp

section \<open>Ending, mirroring in storage\<close>

fun storage_writes :: "t_effect list \<Rightarrow> (int \<times> json option) list" where
  "storage_writes [] = []"
| "storage_writes (TStorageSet n v d cb # es) = (v, d) # storage_writes es"
| "storage_writes (e # es) = storage_writes es"

fun completions :: "t_effect list \<Rightarrow> nat" where
  "completions [] = 0"
| "completions (TComplete n # es) = Suc (completions es)"
| "completions (e # es) = completions es"

fun broadcasts :: "t_effect list \<Rightarrow> (message \<times> socket) list" where
  "broadcasts [] = []"
| "broadcasts (TBroadcast m s # es) = (m, s) # broadcasts es"
| "broadcasts (e # es) = broadcasts es"

lemma effects_append [simp]:
  "storage_writes (es @ fs) = storage_writes es @ storage_writes fs"
  "completions (es @ fs) = completions es + completions fs"
  "broadcasts (es @ fs) = broadcasts es @ broadcasts fs"
  by (induction es rule: storage_writes.induct) auto

lemma sends_none: "sends es \<Longrightarrow> cache_writes es = [] \<and> storage_writes es = [] \<and> completions es = 0 \<and>
    broadcasts es = [] \<and> requests es = [] \<and> \<not> throws es \<and>
    completes_as c es"
  by (induction es rule: sends.induct) auto

definition life :: "transition \<Rightarrow> nat" where
  "life t = (if isDestroyed t then 1 else 0)"

definition lawful :: "env \<Rightarrow> transition \<Rightarrow> transition \<times> t_effect list \<Rightarrow> bool" where
  "lawful e t r \<longleftrightarrow> t_name (fst r) = t_name t \<and>
     storage_writes (snd r) = (if isExcluded (e_exclusions e) (t_name t) then [] else cache_writes (snd r)) \<and>
     life t + completions (snd r) = life (fst r) \<and>
     (isDestroyed t \<longrightarrow> cache_writes (snd r) = [] \<and> broadcasts (snd r) = []) \<and>
     completes_as (t_name t) (snd r)"

lemma lawful_seq: "lawful e t r \<Longrightarrow> lawful e (fst r) r' \<Longrightarrow> lawful e t (fst r', snd r @ snd r')"
  by (auto simp: lawful_def life_def split: if_splits)

lemma lawful_sends: "sends es \<Longrightarrow> t_name t' = t_name t \<Longrightarrow> isDestroyed t' = isDestroyed t \<Longrightarrow> lawful e t (t', es)"
  by (auto simp: lawful_def sends_none life_def)

lemma lawful_same: "t_name t' = t_name t \<Longrightarrow> isDestroyed t' = isDestroyed t \<Longrightarrow> lawful e t' r \<Longrightarrow> lawful e t r"
  by (simp add: lawful_def life_def)

lemma sends_sendVersionExists: "sends (snd (sendVersionExists st t)) \<and>
    t_name (fst (sendVersionExists st t)) = t_name t \<and> isDestroyed (fst (sendVersionExists st t)) = isDestroyed t"
  by (simp add: sendVersionExists_def)

lemma lawful_sendVersionExists: "lawful e t (sendVersionExists st t)"
  using lawful_sends [of "snd (sendVersionExists st t)" "fst (sendVersionExists st t)" t e]
    sends_sendVersionExists [of st t] by simp

lemma lawful_flush: "lawful e t (flush sts t)"
proof (induction sts t rule: flush.induct)
  case (2 st sts t)
  then show ?case using lawful_seq [OF lawful_sendVersionExists] by (simp add: Let_def)
qed (simp add: lawful_sends)

lemma lawful_flushVersionExists: "lawful e t (flushVersionExists t)"
  using lawful_flush [of e t "existingVersions t"]
  by (simp add: flushVersionExists_def lawful_def life_def split_beta)

lemma lawful_destroy: "lawful e t (destroy e' error t)"
proof -
  have "sends (snd (sendWriteAcknowledgementErrors t))"
    by (auto simp: sendWriteAcknowledgementErrors_def comp_def intro!: sends_concat)
  then show ?thesis
    by (auto simp: lawful_def life_def destroy_def Let_def split_beta sends_none
        sendWriteAcknowledgementErrors_def split: option.split)
qed

lemma lawful_onFatalError: "lawful e t (onFatalError e' error t)"
  using lawful_destroy [of e t e' "Some error"]
  by (simp add: onFatalError_def lawful_def Let_def split_beta sends_none)

lemma lawful_cb_ack: "lawful e t (cb_ack cb t)"
  by (auto simp: cb_ack_def handleWriteAcknowledgement_def Let_def lawful_sends split: write_cb.split option.split)

lemma lawful_apply: "\<not> isDestroyed t \<Longrightarrow> lawful e t (apply_step e st t)"
  by (auto simp: lawful_def life_def apply_step_def Let_def split: sum.split)

lemma lawful_next: "lawful e t (next_step e t)"
proof (induction e t rule: next_step.induct)
  case (1 e t)
  show ?case
  proof (cases "isDestroyed t \<or> t_data t = Some JNull \<or> steps t = []")
    case True
    then show ?thesis
      by (subst next_step.simps) (auto simp: lawful_sends lawful_destroy split: list.split)
  next
    case False
    then obtain st0 rest where q: "steps t = st0 # rest" by (cases "steps t") auto
    define st where "st = resolve (t_version t) st0"
    define t1 where "t1 = t\<lparr>steps := rest, currentStep := Some st\<rparr>"
    have t1: "t_name t1 = t_name t" "isDestroyed t1 = isDestroyed t" by (simp_all add: t1_def)
    let ?v = "version_of (step_message st)"
    consider "?v > t_version t + 1" | "?v < t_version t + 1" | "?v = t_version t + 1" by linarith
    then have "lawful e t1 (next_step e t)"
    proof cases
      case 1
      then have "next_step e t = (t1, [TSend (step_sender st)
          ((invalid_version (step_message st))\<lparr>m_version := Some (t_version t)\<rparr>)])"
        using False q by (subst next_step.simps) (simp add: st_def t1_def Let_def)
      then show ?thesis by (simp add: lawful_sends)
    next
      case 2
      define r where "r = sendVersionExists st t1"
      have IH: "lawful e (fst r) (next_step e (fst r))"
        using "1.IH" [OF _ _ q refl refl refl _ _ refl] False 2 q by (auto simp: st_def t1_def r_def)
      have "next_step e t = (fst (next_step e (fst r)), snd r @ snd (next_step e (fst r)))"
        using False q 2 by (subst next_step.simps) (simp add: st_def t1_def r_def Let_def)
      moreover have "lawful e t1 (fst (next_step e (fst r)), snd r @ snd (next_step e (fst r)))"
        by (rule lawful_seq [OF _ IH]) (simp add: r_def lawful_sendVersionExists)
      ultimately show ?thesis by simp
    next
      case 3
      then have "next_step e t = apply_step e st t1"
        using False q by (subst next_step.simps) (simp add: st_def t1_def Let_def)
      then show ?thesis using False t1 by (simp add: lawful_apply)
    qed
    then show ?thesis using lawful_same [OF t1] by simp
  qed
qed

lemma lawful_onRecord: "lawful e t (onRecord e v d upsert t)"
proof (cases "d = Some JNull \<and> \<not> upsert")
  case True
  then show ?thesis by (simp add: onRecord_def lawful_onFatalError)
next
  case False
  define t1 where "t1 = (if d = Some JNull then t\<lparr>t_data := Some (JObj []), t_version := 0\<rparr>
                   else t\<lparr>t_version := v, t_data := d\<rparr>)"
  define r where "r = flushVersionExists t1"
  have t1: "t_name t1 = t_name t" "isDestroyed t1 = isDestroyed t" by (simp_all add: t1_def)
  have "lawful e t1 (fst (next_step e (fst r)), snd r @ snd (next_step e (fst r)))"
    by (rule lawful_seq [OF _ lawful_next]) (simp add: r_def lawful_flushVersionExists)
  moreover have "onRecord e v d upsert t = (fst (next_step e (fst r)), snd r @ snd (next_step e (fst r)))"
    using False by (auto simp: onRecord_def t1_def r_def Let_def split_beta)
  ultimately show ?thesis using lawful_same [OF t1] by simp
qed

lemma lawful_onStorageSetResponse: "lawful e t (onStorageSetResponse e error cb t)"
proof -
  define r where "r = cb_ack cb t"
  have r: "lawful e t r" by (simp add: r_def lawful_cb_ack)
  show ?thesis
    using r lawful_seq [OF r lawful_onFatalError] lawful_seq [OF r lawful_destroy]
    by (simp add: onStorageSetResponse_def split_beta flip: r_def)
qed

lemma cb_ack_keeps: "isDestroyed (fst (cb_ack cb t)) = isDestroyed t \<and>
    currentStep (fst (cb_ack cb t)) = currentStep t \<and> sends (snd (cb_ack cb t))"
  by (auto simp: cb_ack_def handleWriteAcknowledgement_def Let_def split: write_cb.split option.split)

lemma lawful_onCacheSetResponse: "lawful e t (onCacheSetResponse e error cb t)"
proof (cases "currentStep t")
  case None
  then show ?thesis by (simp add: onCacheSetResponse_def lawful_destroy)
next
  case (Some st)
  define r where "r = cb_ack cb t"
  let ?b = "[TBroadcast (broadcast_copy (step_message st)) (step_sender st)]"
  have r: "lawful e t r" by (simp add: r_def lawful_cb_ack)
  have "isDestroyed (fst r) = isDestroyed t" by (simp add: r_def cb_ack_keeps)
  then have b: "\<not> isDestroyed (fst r) \<Longrightarrow> lawful e t (fst r, snd r @ ?b)" using r by (simp add: lawful_def)
  show ?thesis
    using Some r lawful_seq [OF r lawful_onFatalError] lawful_seq [OF r lawful_destroy]
      lawful_seq [OF b lawful_next]
    by (simp add: onCacheSetResponse_def split_beta flip: r_def)
qed

lemma lawful_add: "lawful e t (add e s m0 u t)"
proof (cases "e_parse e s m0")
  case None
  then show ?thesis by (simp add: add_def lawful_sends)
next
  case (Some m)
  have nxt: "lawful e t (next_step e (t\<lparr>lastVersion := l, steps := sts\<rparr>))"
    "lawful e t (next_step e (t\<lparr>steps := sts\<rparr>))" for l sts
    by (rule lawful_same [OF _ _ lawful_next]; simp)+
  have "lawful e t (t', [TRequest n b])" "lawful e t (t', [])"
    if "t_name t' = t_name t" "isDestroyed t' = isDestroyed t" for t' n b
    using that by (simp_all add: lawful_def life_def)
  with nxt have "lawful e t (enqueue e st u t)" for st by (simp add: enqueue_def Let_def)
  with Some show ?thesis
    by (simp add: add_def Let_def lawful_sendVersionExists lawful_sends)
qed

lemma lawful_step: "lawful e (ts_t S) (ts_t (fst (ts_step e S i)), snd (ts_step e S i))"
  by (cases i) (simp_all add: after_def lawful_add lawful_onRecord lawful_destroy onCacheRequestError_def
      lawful_onCacheSetResponse lawful_onStorageSetResponse)

lemma lawful_run: "lawful e (ts_t S) (ts_t (fst (run (ts_step e) S is)), snd (run (ts_step e) S is))"
proof (induction "is" arbitrary: S)
  case (Cons i "is")
  from Cons [of "fst (ts_step e S i)"] have
    "lawful e (fst (ts_t (fst (ts_step e S i)), snd (ts_step e S i)))
       (ts_t (fst (run (ts_step e) (fst (ts_step e S i)) is)), snd (run (ts_step e) (fst (ts_step e S i)) is))"
    by simp
  from lawful_seq [OF lawful_step this] show ?case by (simp add: Let_def split_beta)
qed (simp add: lawful_sends)

section \<open>Draining the queue\<close>

text \<open>The broadcasts of a queue that is applied from version \<open>v\<close> on.\<close>

fun expected :: "int \<Rightarrow> step list \<Rightarrow> (message \<times> socket) list" where
  "expected v [] = []"
| "expected v (st # sts) =
     (broadcast_copy (step_message (resolve v st)), step_sender st) # expected (v + 1) sts"

lemma cb_ack_idle: "steps (fst (cb_ack cb t)) = steps t \<and> t_version (fst (cb_ack cb t)) = t_version t \<and>
    t_data (fst (cb_ack cb t)) = t_data t"
  using idle_cb_ack [of t cb] by (simp add: idle_def)

lemma step_sender_resolve [simp]: "step_sender (resolve v st) = step_sender st"
  by (simp add: resolve_def)

text \<open>The pending cache writes after some effects.\<close>

fun cache_cbs :: "t_effect list \<Rightarrow> write_cb list" where
  "cache_cbs [] = []"
| "cache_cbs (TCacheSet n v d cb # es) = cb # cache_cbs es"
| "cache_cbs (e # es) = cache_cbs es"

lemma cache_cbs_append [simp]: "cache_cbs (es @ fs) = cache_cbs es @ cache_cbs fs"
  by (induction es rule: cache_cbs.induct) auto

lemma take_cache: "ts_cache (fold take_effect es S) = ts_cache S @ cache_cbs es"
proof (induction es arbitrary: S)
  case (Cons x es)
  then show ?case by (cases x) auto
qed simp

lemma sends_cbs: "sends es \<Longrightarrow> cache_cbs es = []"
  by (induction es rule: sends.induct) auto

text \<open>One turn of \<open>next\<close> on a queue whose head has the right version.\<close>

lemma next_applies:
  assumes "\<not> isDestroyed t" "t_data t \<noteq> Some JNull" "steps t = st # sts"
    and ver: "version_of (step_message st) = -1 \<or> version_of (step_message st) = t_version t + 1"
    and d: "write_data e (step_message st) (t_data t) = Inr d"
  shows "isDestroyed (fst (next_step e t)) = False \<and> t_data (fst (next_step e t)) = d \<and>
    steps (fst (next_step e t)) = sts \<and> t_version (fst (next_step e t)) = t_version t + 1 \<and>
    currentStep (fst (next_step e t)) = Some (resolve (t_version t) st) \<and>
    length (cache_cbs (snd (next_step e t))) = 1 \<and>
    cache_writes (snd (next_step e t)) = [(t_version t + 1, d)] \<and>
    broadcasts (snd (next_step e t)) = [] \<and> \<not> throws (snd (next_step e t))"
proof -
  have v: "version_of (step_message (resolve (t_version t) st)) = t_version t + 1"
    using ver by (auto simp: version_resolve)
  then have "next_step e t = apply_step e (resolve (t_version t) st)
      (t\<lparr>steps := sts, currentStep := Some (resolve (t_version t) st)\<rparr>)"
    using assms by (subst next_step.simps) (simp add: Let_def)
  then show ?thesis using assms(1) v d by (auto simp: apply_step_def Let_def)
qed

lemma next_empty:
  assumes "\<not> isDestroyed t" "t_data t \<noteq> Some JNull" "steps t = []"
  shows "next_step e t = (t\<lparr>isDestroyed := True\<rparr>, [TComplete (t_name t)])"
  using assms by (subst next_step.simps) (simp add: destroy_def nonempty_def)

lemma onCacheSetResponse_live:
  assumes "\<not> isDestroyed t" "currentStep t = Some st" "\<not> nonempty error"
  shows "onCacheSetResponse e error cb t =
    (fst (next_step e (fst (cb_ack cb t))),
     snd (cb_ack cb t) @ [TBroadcast (broadcast_copy (step_message st)) (step_sender st)] @
     snd (next_step e (fst (cb_ack cb t))))"
  using assms cb_ack_keeps [of cb t] by (simp add: onCacheSetResponse_def split_beta)

text \<open>
  A live transition that waits for one cache write and whose queue is a serial execution from here
  drains: with every answer it broadcasts the write that was answered and makes the next one.
\<close>

lemma drain:
  assumes "\<not> ts_thrown S" "length (ts_cache S) = 1" "\<not> isDestroyed (ts_t S)"
    and "t_data (ts_t S) \<noteq> Some JNull" "currentStep (ts_t S) = Some c"
    and "serial e (t_version (ts_t S)) (t_data (ts_t S)) (map step_message (steps (ts_t S))) = Some ws"
    and "Some JNull \<notin> snd ` set ws"
  shows "cache_writes (snd (run (ts_step e) S (replicate (Suc (length ws)) (CacheDone 0 None)))) = ws \<and>
    broadcasts (snd (run (ts_step e) S (replicate (Suc (length ws)) (CacheDone 0 None)))) =
      (broadcast_copy (step_message c), step_sender c) # expected (t_version (ts_t S)) (steps (ts_t S)) \<and>
    isDestroyed (ts_t (fst (run (ts_step e) S (replicate (Suc (length ws)) (CacheDone 0 None)))))"
  using assms
proof (induction ws arbitrary: S c)
  case Nil
  define r where "r = cb_ack (ts_cache S ! 0) (ts_t S)"
  have q: "steps (ts_t S) = []" using serial_versions [OF Nil(6)] by simp
  have keep: "\<not> isDestroyed (fst r)" "t_data (fst r) \<noteq> Some JNull" "steps (fst r) = []" "sends (snd r)"
    using Nil q cb_ack_keeps [of "ts_cache S ! 0" "ts_t S"] cb_ack_idle [of "ts_cache S ! 0" "ts_t S"]
    by (simp_all add: r_def)
  have "onCacheSetResponse e None (ts_cache S ! 0) (ts_t S) = ((fst r)\<lparr>isDestroyed := True\<rparr>,
      snd r @ [TBroadcast (broadcast_copy (step_message c)) (step_sender c), TComplete (t_name (fst r))])"
    using onCacheSetResponse_live [OF Nil(3) Nil(5), of None e] next_empty [OF keep(1-3), of e]
    by (simp add: nonempty_def flip: r_def)
  then show ?case using q keep(4) by (simp add: after_def sends_none)
next
  case (Cons w ws)
  obtain st sts where q: "steps (ts_t S) = st # sts"
    using serial_versions [OF Cons.prems(6)] by (cases "steps (ts_t S)") auto
  from Cons.prems(6) q obtain d where
    ver: "version_of (step_message st) = -1 \<or> version_of (step_message st) = t_version (ts_t S) + 1"
    and d: "write_data e (step_message st) (t_data (ts_t S)) = Inr d" and w: "w = (t_version (ts_t S) + 1, d)"
    and ser: "serial e (t_version (ts_t S) + 1) d (map step_message sts) = Some ws"
    by (auto split: if_splits sum.splits option.splits)
  define r where "r = cb_ack (ts_cache S ! 0) (ts_t S)"
  have keep: "\<not> isDestroyed (fst r)" "t_data (fst r) = t_data (ts_t S)" "steps (fst r) = st # sts"
    "t_version (fst r) = t_version (ts_t S)" "sends (snd r)"
    using Cons.prems q cb_ack_keeps [of "ts_cache S ! 0" "ts_t S"] cb_ack_idle [of "ts_cache S ! 0" "ts_t S"]
    by (simp_all add: r_def)
  define n where "n = next_step e (fst r)"
  have n: "isDestroyed (fst n) = False \<and> t_data (fst n) = d \<and> steps (fst n) = sts \<and>
      t_version (fst n) = t_version (ts_t S) + 1 \<and> currentStep (fst n) = Some (resolve (t_version (ts_t S)) st) \<and>
      length (cache_cbs (snd n)) = 1 \<and> cache_writes (snd n) = [(t_version (ts_t S) + 1, d)] \<and>
      broadcasts (snd n) = [] \<and> \<not> throws (snd n)"
    using next_applies [of "fst r" st sts e d] keep Cons.prems(4) ver d by (simp add: n_def)
  have on: "onCacheSetResponse e None (ts_cache S ! 0) (ts_t S) = (fst n,
      snd r @ [TBroadcast (broadcast_copy (step_message c)) (step_sender c)] @ snd n)"
    using onCacheSetResponse_live [OF Cons.prems(3,5), of None e] by (simp add: nonempty_def n_def flip: r_def)
  define S' where "S' = fst (ts_step e S (CacheDone 0 None))"
  have S': "\<not> ts_thrown S'" "length (ts_cache S') = 1" "ts_t S' = fst n"
    using Cons.prems(1,2) on n keep(5)
    by (simp_all add: S'_def after_def take_cache sends_cbs sends_none remove_nth_def)
  have IH: "cache_writes (snd (run (ts_step e) S' (replicate (Suc (length ws)) (CacheDone 0 None)))) = ws \<and>
    broadcasts (snd (run (ts_step e) S' (replicate (Suc (length ws)) (CacheDone 0 None)))) =
      (broadcast_copy (step_message (resolve (t_version (ts_t S)) st)), step_sender st)
        # expected (t_version (ts_t S) + 1) sts \<and>
    isDestroyed (ts_t (fst (run (ts_step e) S' (replicate (Suc (length ws)) (CacheDone 0 None)))))"
    using Cons.IH [of S' "resolve (t_version (ts_t S)) st"] S' n ser Cons.prems(7) w by force
  have "snd (ts_step e S (CacheDone 0 None)) =
      snd r @ [TBroadcast (broadcast_copy (step_message c)) (step_sender c)] @ snd n"
    using on by (simp add: after_def)
  then show ?case
    using IH n w q keep(5)
    by (simp add: Let_def split_beta sends_none del: ts_step.simps replicate.simps(2)
        flip: S'_def) (simp add: Let_def split_beta sends_none del: ts_step.simps flip: S'_def)
qed

text \<open>The flush of stored conflicts sends messages and nothing else.\<close>

lemma flush_sends: "sends (snd (flush sts t)) \<and> isDestroyed (fst (flush sts t)) = isDestroyed t"
  by (induction sts t rule: flush.induct) (auto simp: Let_def sends_sendVersionExists)

lemma flushVersionExists_keeps: "sends (snd (flushVersionExists t)) \<and>
    isDestroyed (fst (flushVersionExists t)) = isDestroyed t"
  using flush_sends [of "existingVersions t" t] by (simp add: flushVersionExists_def split_beta)

section \<open>A transition that has refused a version\<close>

text \<open>
  What \<open>next\<close> leaves when it refuses the only queued step for its too high version: the transition is
  alive, waits for nothing, and its \<open>lastVersion\<close> is the refused one.
\<close>

definition poisoned :: "transition \<Rightarrow> bool" where
  "poisoned t \<longleftrightarrow> \<not> isDestroyed t \<and> truthy (t_data t) \<and> steps t = [] \<and> recordRequestMade t \<and>
     0 \<le> t_version t \<and> (\<exists>l. lastVersion t = Some l \<and> t_version t < l)"

lemma poisoned_enqueue:
  assumes p: "poisoned t" and v: "version_of (step_message st) = the (lastVersion t) + 1"
  shows "poisoned (fst (enqueue e st u t)) \<and> sends (snd (enqueue e st u t)) \<and>
    t_version (fst (enqueue e st u t)) = t_version t"
proof -
  obtain l where l: "lastVersion t = Some l" "t_version t < l" using p by (auto simp: poisoned_def)
  let ?t2 = "t\<lparr>lastVersion := Some (version_of (step_message st)), steps := [st]\<rparr>"
  have v': "version_of (step_message st) \<noteq> -1" "version_of (step_message st) > t_version t + 1"
    using p v l by (auto simp: poisoned_def)
  then have r: "resolve (t_version t) st = st" by (simp add: resolve_def)
  have "t_data t \<noteq> Some JNull" using p by (auto simp: poisoned_def)
  then have "next_step e ?t2 = (?t2\<lparr>steps := [], currentStep := Some st\<rparr>, [TSend (step_sender st)
      ((invalid_version (step_message st))\<lparr>m_version := Some (t_version t)\<rparr>)])"
    using v' p r by (subst next_step.simps) (simp add: poisoned_def Let_def)
  moreover have "enqueue e st u t = next_step e ?t2"
    using p v' by (simp add: enqueue_def poisoned_def Let_def)
  ultimately show ?thesis using p l v' v by (auto simp: poisoned_def)
qed

lemma poisoned_add:
  assumes p: "poisoned t"
  shows "poisoned (fst (add e s m u t)) \<and> sends (snd (add e s m u t)) \<and>
    t_version (fst (add e s m u t)) = t_version t \<and> snd (add e s m u t) \<noteq> []"
proof (cases "e_parse e s m")
  case None
  then show ?thesis using p by (simp add: add_def)
next
  case (Some m')
  define st where "st = \<lparr>step_message = m', step_sender = s\<rparr>"
  obtain l where l: "lastVersion t = Some l" using p by (auto simp: poisoned_def)
  have send: "sendVersionExists st t = (t, [TSend s (version_exists_message st t)])"
    using p by (simp add: sendVersionExists_def poisoned_def st_def)
  have enq: "snd (enqueue e st u t) \<noteq> []" if "version_of m' = l + 1"
  proof -
    have "version_of m' \<noteq> -1" "version_of m' > t_version t + 1" "t_data t \<noteq> Some JNull"
      using p l that by (auto simp: poisoned_def)
    then show ?thesis using p
      by (simp add: enqueue_def st_def poisoned_def Let_def) (subst next_step.simps, simp add: resolve_def Let_def)
  qed
  have inv: "add e s m u t = (t, [TSend s (m'\<lparr>m_action := RecordA RA_INVALID_MESSAGE_DATA, m_original := Some (m_action m')\<rparr>)])
      \<or> add e s m u t = (t, [TSend s (invalid_version m')]) \<or> add e s m u t = sendVersionExists st t
      \<or> version_of m' = l + 1 \<and> add e s m u t = enqueue e st u t"
    using Some l by (auto simp: add_def Let_def st_def)
  then show ?thesis
    using poisoned_enqueue [OF p, of st e u] enq send p l by (auto simp: st_def)
qed

fun adds_only :: "t_input list \<Rightarrow> bool" where
  "adds_only [] = True"
| "adds_only (Add s m u # is) = adds_only is"
| "adds_only (i # is) = False"

lemma poisoned_forever:
  assumes "poisoned (ts_t S)" and "adds_only is"
  shows "poisoned (ts_t (fst (run (ts_step e) S is))) \<and> sends (snd (run (ts_step e) S is)) \<and>
    t_version (ts_t (fst (run (ts_step e) S is))) = t_version (ts_t S)"
  using assms
proof (induction "is" arbitrary: S)
  case (Cons i "is")
  then obtain s m u where i: "i = Add s m u" "adds_only is" by (cases i) auto
  have one: "poisoned (ts_t (fst (ts_step e S i)))" "sends (snd (ts_step e S i))"
    "t_version (ts_t (fst (ts_step e S i))) = t_version (ts_t S)"
    using poisoned_add [OF Cons.prems(1), of e s m u] i by (simp_all add: after_def)
  show ?case using Cons.IH [OF one(1) i(2)] one(2,3) by (simp add: Let_def split_beta)
qed simp

section \<open>Properties\<close>

text \<open>C1: whatever the interleaving of client writes, store answers, failures and a deletion, the
  writes a transition makes to the cache are the serial execution, on the record it loaded, of a
  subsequence of the messages in their order of arrival; the versions written are consecutive, so
  of two writes for one version at most one is taken.\<close>

theorem transition_serialises_writes:
  assumes "ts_history e (ts_init name) is"
  shows "\<exists>ms v d. subseq ms (added e is) \<and>
    serial e v d ms = Some (cache_writes (snd (run (ts_step e) (ts_init name) is))) \<and>
    map fst (cache_writes (snd (run (ts_step e) (ts_init name) is))) = map (\<lambda>i. v + 1 + int i) [0..<length ms]"
proof -
  from ts_inv_run [OF ts_inv_init assms] obtain ms v d where
    "subseq (ms @ map step_message (steps (ts_t (fst (run (ts_step e) (ts_init name) is))))) (added e is)"
    and ser: "serial e v d ms = Some (cache_writes (snd (run (ts_step e) (ts_init name) is)))"
    unfolding ts_inv_def by auto
  then have "subseq ms (added e is)"
    by (meson prefixI prefix_imp_subseq subseq_order.trans)
  with ser serial_versions [OF ser] show ?thesis by metis
qed

text \<open>A sample environment and messages for the concrete runs.\<close>

definition plain_env :: env where
  "plain_env = \<lparr>e_num = id, e_parse = (\<lambda>s m. Some m), e_remote = (\<lambda>_. False), e_exclusions = None\<rparr>"

definition update_to :: "int \<Rightarrow> json \<Rightarrow> message" where
  "update_to v d = (msg T_RECORD (RecordA RA_UPDATE))
     \<lparr>m_name := Some ''r'', m_version := Some v, m_parsed := Some d\<rparr>"

definition clash :: "t_input list" where
  "clash = [Add 1 (update_to 4 (JObj [(''a'', JNum 1)])) False,
            Add 2 (update_to 4 (JObj [(''b'', JNum 2)])) False,
            RecordLoaded 3 (Some (JObj [])), CacheDone 0 None]"

theorem transition_serialises_writes_witness:
  "\<exists>ms v d. subseq ms (added plain_env clash) \<and>
    serial plain_env v d ms = Some (cache_writes (snd (run (ts_step plain_env) (ts_init ''r'') clash))) \<and>
    map fst (cache_writes (snd (run (ts_step plain_env) (ts_init ''r'') clash))) = map (\<lambda>i. v + 1 + int i) [0..<length ms]"
proof -
  have "ts_history plain_env (ts_init ''r'') clash" by code_simp
  then show ?thesis by (rule transition_serialises_writes)
qed

text \<open>C35: a transition reports its completion to the handler exactly once, when it is destroyed; after
  that it neither writes nor broadcasts, whatever still comes in; and storage receives exactly the
  writes of the cache, or none when the record's name is excluded from storage.\<close>

theorem transition_completes_once:
  "completions (snd (run (ts_step e) (ts_init name) is)) =
     (if isDestroyed (ts_t (fst (run (ts_step e) (ts_init name) is))) then 1 else 0) \<and>
   storage_writes (snd (run (ts_step e) (ts_init name) is)) =
     (if isExcluded (e_exclusions e) name then [] else cache_writes (snd (run (ts_step e) (ts_init name) is))) \<and>
   (isDestroyed (ts_t (fst (run (ts_step e) (ts_init name) is))) \<longrightarrow>
     cache_writes (snd (run (ts_step e) (fst (run (ts_step e) (ts_init name) is)) later)) = [] \<and>
     broadcasts (snd (run (ts_step e) (fst (run (ts_step e) (ts_init name) is)) later)) = [])"
  using lawful_run [of e "ts_init name" "is"]
    lawful_run [of e "fst (run (ts_step e) (ts_init name) is)" later]
  by (simp add: lawful_def life_def ts_init_def new_transition_def)

theorem transition_completes_once_witness:
  "completions (snd (run (ts_step plain_env) (ts_init ''r'') clash)) = 1 \<and>
   broadcasts (snd (run (ts_step plain_env) (fst (run (ts_step plain_env) (ts_init ''r'') clash)) [CacheDone 0 None])) = []"
proof -
  have d: "isDestroyed (ts_t (fst (run (ts_step plain_env) (ts_init ''r'') clash)))" by code_simp
  show ?thesis
    using transition_completes_once [of plain_env "''r''" clash "[CacheDone 0 None]"] d by simp
qed

text \<open>C7: the queue drains: when the record is loaded and the queued messages, applied from its
  version on, are a serial execution, then as the cache answers, every queued write is made, every
  one is broadcast once, with its own sender and in order, and the transition completes.\<close>

theorem transition_drains:
  assumes "ts_request S \<noteq> None" "ts_cache S = []" "\<not> ts_thrown S" "\<not> isDestroyed (ts_t S)"
    and "steps (ts_t S) \<noteq> []" "d \<noteq> Some JNull"
    and "serial e v d (map step_message (steps (ts_t S))) = Some ws" "Some JNull \<notin> snd ` set ws"
  shows "cache_writes (snd (run (ts_step e) S (RecordLoaded v d # replicate (length ws) (CacheDone 0 None)))) = ws \<and>
    broadcasts (snd (run (ts_step e) S (RecordLoaded v d # replicate (length ws) (CacheDone 0 None)))) =
      expected v (steps (ts_t S)) \<and>
    isDestroyed (ts_t (fst (run (ts_step e) S (RecordLoaded v d # replicate (length ws) (CacheDone 0 None)))))"
proof -
  obtain st sts where q: "steps (ts_t S) = st # sts" using assms(5) by (cases "steps (ts_t S)") auto
  from assms(7) q obtain d' ws' where
    ver: "version_of (step_message st) = -1 \<or> version_of (step_message st) = v + 1"
    and d: "write_data e (step_message st) d = Inr d'" and ws: "ws = (v + 1, d') # ws'"
    and ser: "serial e (v + 1) d' (map step_message sts) = Some ws'"
    by (auto split: if_splits sum.splits option.splits)
  define r where "r = flushVersionExists ((ts_t S)\<lparr>t_version := v, t_data := d\<rparr>)"
  have r: "\<not> isDestroyed (fst r)" "t_data (fst r) = d" "steps (fst r) = st # sts" "t_version (fst r) = v"
    "sends (snd r)"
    using assms(4) q idle_flushVersionExists [of "(ts_t S)\<lparr>t_version := v, t_data := d\<rparr>"]
      flushVersionExists_keeps [of "(ts_t S)\<lparr>t_version := v, t_data := d\<rparr>"]
    by (simp_all add: r_def idle_def)
  define n where "n = next_step e (fst r)"
  have n: "isDestroyed (fst n) = False \<and> t_data (fst n) = d' \<and> steps (fst n) = sts \<and>
      t_version (fst n) = v + 1 \<and> currentStep (fst n) = Some (resolve v st) \<and>
      length (cache_cbs (snd n)) = 1 \<and> cache_writes (snd n) = [(v + 1, d')] \<and>
      broadcasts (snd n) = [] \<and> \<not> throws (snd n)"
    using next_applies [of "fst r" st sts e d'] r assms(6) ver d by (simp add: n_def)
  have on: "onRecord e v d (the (ts_request S)) (ts_t S) = (fst n, snd r @ snd n)"
    using assms(6) by (simp add: onRecord_def Let_def split_beta n_def flip: r_def)
  define S' where "S' = fst (ts_step e S (RecordLoaded v d))"
  have S': "\<not> ts_thrown S'" "length (ts_cache S') = 1" "ts_t S' = fst n"
    using assms(2,3) on n r(5) by (simp_all add: S'_def after_def take_cache sends_cbs sends_none)
  have run: "cache_writes (snd (run (ts_step e) S' (replicate (Suc (length ws')) (CacheDone 0 None)))) = ws' \<and>
    broadcasts (snd (run (ts_step e) S' (replicate (Suc (length ws')) (CacheDone 0 None)))) =
      (broadcast_copy (step_message (resolve v st)), step_sender st) # expected (v + 1) sts \<and>
    isDestroyed (ts_t (fst (run (ts_step e) S' (replicate (Suc (length ws')) (CacheDone 0 None)))))"
    using drain [of S' "resolve v st" e ws'] S' n ser assms(8) ws by force
  have "snd (ts_step e S (RecordLoaded v d)) = snd r @ snd n" using on by (simp add: after_def)
  then show ?thesis
    using run n ws q r(5)
    by (simp add: Let_def split_beta sends_none del: ts_step.simps replicate.simps(2) flip: S'_def)
qed

definition queue_two :: t_system where
  "queue_two = fst (run (ts_step plain_env) (ts_init ''r'')
     [Add 1 (update_to 4 (JObj [])) False, Add 2 (update_to 5 (JObj [])) False])"

theorem transition_drains_witness:
  "broadcasts (snd (run (ts_step plain_env) queue_two
      (RecordLoaded 3 (Some (JObj [])) # replicate 2 (CacheDone 0 None)))) =
     [(update_to 4 (JObj []), 1), (update_to 5 (JObj []), 2)]"
proof -
  have pre: "ts_request queue_two = Some False" "ts_cache queue_two = []" "\<not> ts_thrown queue_two"
    "\<not> isDestroyed (ts_t queue_two)" by code_simp+
  have st: "steps (ts_t queue_two) = [\<lparr>step_message = update_to 4 (JObj []), step_sender = 1\<rparr>,
      \<lparr>step_message = update_to 5 (JObj []), step_sender = 2\<rparr>]" by code_simp
  have ser: "serial plain_env 3 (Some (JObj [])) (map step_message (steps (ts_t queue_two))) =
      Some [(4, Some (JObj [])), (5, Some (JObj []))]"
    unfolding st by code_simp
  have ex: "expected 3 (steps (ts_t queue_two)) = [(update_to 4 (JObj []), 1), (update_to 5 (JObj []), 2)]"
    unfolding st by code_simp
  show ?thesis
    using transition_drains [of queue_two "Some (JObj [])" plain_env 3, OF _ _ _ _ _ _ ser] pre st ex
    by (simp add: numeral_2_eq_2)
qed

text \<open>One write with a too high version blocks its record: once the transition has refused it,
  it stays registered and refuses every write that follows, the right next version included,
  without writing or broadcasting anything.\<close>

theorem refused_version_blocks_record:
  assumes "e_parse e s m0 = Some m" "m_action m = RecordA RA_PATCH" "0 \<le> v" "v + 1 < version_of m"
    and "truthy d" "adds_only later"
  shows "poisoned (ts_t (fst (run (ts_step e) (ts_init name) (Add s m0 u # RecordLoaded v d # later)))) \<and>
    cache_writes (snd (run (ts_step e) (ts_init name) (Add s m0 u # RecordLoaded v d # later))) = [] \<and>
    broadcasts (snd (run (ts_step e) (ts_init name) (Add s m0 u # RecordLoaded v d # later))) = [] \<and>
    completions (snd (run (ts_step e) (ts_init name) (Add s m0 u # RecordLoaded v d # later))) = 0"
proof -
  define S1 where "S1 = fst (ts_step e (ts_init name) (Add s m0 u))"
  have one: "snd (ts_step e (ts_init name) (Add s m0 u)) = [TRequest name u]"
    and S1: "ts_t S1 = (new_transition name)\<lparr>lastVersion := Some (version_of m),
      steps := [\<lparr>step_message = m, step_sender = s\<rparr>], recordRequestMade := True\<rparr>"
    using assms(1-4) by (simp_all add: S1_def after_def add_def enqueue_def ts_init_def new_transition_def Let_def)
  have nn: "d \<noteq> Some JNull" using assms(5) by auto
  let ?st = "\<lparr>step_message = m, step_sender = s\<rparr>"
  let ?t = "(ts_t S1)\<lparr>t_version := v, t_data := d\<rparr>"
  have fl: "flushVersionExists ?t = (?t, [])" by (simp add: flushVersionExists_def S1 new_transition_def)
  have res: "resolve v ?st = ?st" using assms(3,4) by (simp add: resolve_def)
  have nx: "next_step e ?t = (?t\<lparr>steps := [], currentStep := Some ?st\<rparr>,
      [TSend s ((invalid_version m)\<lparr>m_version := Some v\<rparr>)])"
    using assms(3,4) nn by (subst next_step.simps) (simp add: S1 new_transition_def res Let_def)
  define S2 where "S2 = fst (ts_step e S1 (RecordLoaded v d))"
  have two: "snd (ts_step e S1 (RecordLoaded v d)) = [TSend s ((invalid_version m)\<lparr>m_version := Some v\<rparr>)]"
    and "ts_t S2 = ?t\<lparr>steps := [], currentStep := Some ?st\<rparr>"
    using nn fl nx by (simp_all add: S2_def after_def onRecord_def Let_def)
  then have "poisoned (ts_t S2)"
    using assms(3,4,5) by (simp add: poisoned_def S1 new_transition_def)
  from poisoned_forever [OF this assms(6), of e] one two show ?thesis
    by (simp add: Let_def split_beta sends_none del: ts_step.simps flip: S1_def S2_def)
qed

definition patch_to :: "int \<Rightarrow> message" where
  "patch_to v = (update_to v (JNum 1))\<lparr>m_action := RecordA RA_PATCH, m_path := Some ''a''\<rparr>"

theorem refused_version_blocks_record_witness:
  "cache_writes (snd (run (ts_step plain_env) (ts_init ''r'')
     [Add 1 (patch_to 10) False, RecordLoaded 3 (Some (JObj [])), Add 2 (patch_to 4) False])) = []"
  using refused_version_blocks_record [of plain_env 1 "patch_to 10" "patch_to 10" 3 "Some (JObj [])"
      "[Add 2 (patch_to 4) False]" "''r''" False]
  by (simp add: plain_env_def patch_to_def update_to_def version_of_def)

text \<open>A write that arrives while the cache has not yet answered the previous one, with an empty
  queue, starts at once and takes its place: when both answers come, the second write is broadcast
  and the transition ends, and the first, although stored, is never broadcast.\<close>

theorem overlapping_write_not_broadcast:
  assumes "\<not> ts_thrown S" "ts_cache S = [cb]" "\<not> isDestroyed (ts_t S)" "recordRequestMade (ts_t S)"
    and "truthy (t_data (ts_t S))" "steps (ts_t S) = []" "currentStep (ts_t S) = Some first"
    and "lastVersion (ts_t S) = Some (t_version (ts_t S))" "0 \<le> t_version (ts_t S)"
    and "e_parse e s m0 = Some m" "m_action m = RecordA RA_PATCH" "version_of m = t_version (ts_t S) + 1"
    and "write_data e m (t_data (ts_t S)) = Inr d" "d \<noteq> Some JNull"
  shows "cache_writes (snd (run (ts_step e) S [Add s m0 u, CacheDone 0 None, CacheDone 0 None])) =
      [(t_version (ts_t S) + 1, d)] \<and>
    broadcasts (snd (run (ts_step e) S [Add s m0 u, CacheDone 0 None, CacheDone 0 None])) =
      [(broadcast_copy m, s)] \<and>
    isDestroyed (ts_t (fst (run (ts_step e) S [Add s m0 u, CacheDone 0 None, CacheDone 0 None])))"
proof -
  let ?t = "ts_t S" let ?v = "t_version ?t + 1" let ?st = "\<lparr>step_message = m, step_sender = s\<rparr>"
  let ?t2 = "?t\<lparr>lastVersion := Some ?v, steps := [?st]\<rparr>"
  define n where "n = next_step e ?t2"
  have nn: "t_data ?t \<noteq> Some JNull" using assms(5) by auto
  have res: "resolve (t_version ?t) ?st = ?st" using assms(9,12) by (simp add: resolve_def)
  have n: "isDestroyed (fst n) = False \<and> t_data (fst n) = d \<and> steps (fst n) = [] \<and>
      t_version (fst n) = ?v \<and> currentStep (fst n) = Some ?st \<and> length (cache_cbs (snd n)) = 1 \<and>
      cache_writes (snd n) = [(?v, d)] \<and> broadcasts (snd n) = [] \<and> \<not> throws (snd n)"
    using next_applies [of ?t2 ?st "[]" e d] nn assms res by (simp add: n_def)
  have "add e s m0 u ?t = n"
    using assms(4,6,8-12) by (simp add: add_def enqueue_def n_def Let_def)
  then have a: "ts_step e S (Add s m0 u) = (fold take_effect (snd n) (S\<lparr>ts_t := fst n\<rparr>), snd n)"
    by (simp add: after_def)
  define S1 where "S1 = fst (ts_step e S (Add s m0 u))"
  have S1: "\<not> ts_thrown S1" "length (ts_cache S1) = 2" "ts_t S1 = fst n"
    using a n assms(1,2) by (simp_all add: S1_def take_cache)
  define r where "r = cb_ack (ts_cache S1 ! 0) (fst n)"
  have keep: "\<not> isDestroyed (fst r)" "t_data (fst r) = d" "steps (fst r) = []" "sends (snd r)"
    using n cb_ack_keeps [of "ts_cache S1 ! 0" "fst n"] cb_ack_idle [of "ts_cache S1 ! 0" "fst n"]
    by (simp_all add: r_def)
  have on: "onCacheSetResponse e None (ts_cache S1 ! 0) (fst n) = ((fst r)\<lparr>isDestroyed := True\<rparr>,
      snd r @ [TBroadcast (broadcast_copy m) s, TComplete (t_name (fst r))])"
    using onCacheSetResponse_live [of "fst n" ?st None e] n next_empty [OF keep(1) _ keep(3), of e] keep(2) assms(14)
    by (simp add: nonempty_def flip: r_def)
  define S2 where "S2 = fst (ts_step e S1 (CacheDone 0 None))"
  have b: "snd (ts_step e S1 (CacheDone 0 None)) = snd r @ [TBroadcast (broadcast_copy m) s, TComplete (t_name (fst r))]"
    and S2: "isDestroyed (ts_t S2)"
    using on S1 by (simp_all add: S2_def after_def)
  have c: "lawful e (ts_t S2) (ts_t (fst (ts_step e S2 (CacheDone 0 None))), snd (ts_step e S2 (CacheDone 0 None)))"
    by (rule lawful_step)
  then have "isDestroyed (ts_t (fst (ts_step e S2 (CacheDone 0 None))))" and
    "cache_writes (snd (ts_step e S2 (CacheDone 0 None))) = []"
    "broadcasts (snd (ts_step e S2 (CacheDone 0 None))) = []"
    using S2 by (auto simp: lawful_def life_def split: if_splits)
  moreover have "snd (ts_step e S (Add s m0 u)) = snd n" using a by simp
  ultimately show ?thesis
    using n b keep(4) by (simp add: Let_def split_beta sends_none del: ts_step.simps flip: S1_def S2_def)
qed

definition one_in_flight :: t_system where
  "one_in_flight = fst (run (ts_step plain_env) (ts_init ''r'')
     [Add 1 (patch_to 4) False, RecordLoaded 3 (Some (JObj []))])"

theorem overlapping_write_not_broadcast_witness:
  "broadcasts (snd (run (ts_step plain_env) one_in_flight
     [Add 2 (patch_to 5) False, CacheDone 0 None, CacheDone 0 None])) = [(patch_to 5, 2)]"
proof -
  have pre: "\<not> ts_thrown one_in_flight" "ts_cache one_in_flight = [PlainCb]"
    "\<not> isDestroyed (ts_t one_in_flight)" "recordRequestMade (ts_t one_in_flight)"
    "truthy (t_data (ts_t one_in_flight))" "steps (ts_t one_in_flight) = []"
    "currentStep (ts_t one_in_flight) = Some \<lparr>step_message = patch_to 4, step_sender = 1\<rparr>"
    "lastVersion (ts_t one_in_flight) = Some (t_version (ts_t one_in_flight))"
    "0 \<le> t_version (ts_t one_in_flight)" "e_parse plain_env 2 (patch_to 5) = Some (patch_to 5)"
    "m_action (patch_to 5) = RecordA RA_PATCH" "version_of (patch_to 5) = t_version (ts_t one_in_flight) + 1"
    "write_data plain_env (patch_to 5) (t_data (ts_t one_in_flight)) = Inr (Some (JObj [(''a'', JNum 1)]))"
    by code_simp+
  have "broadcast_copy (patch_to 5) = patch_to 5" by code_simp
  then show ?thesis using overlapping_write_not_broadcast [OF pre, of False] by simp
qed

text \<open>The acknowledgements a socket receives for a correlation id.\<close>

fun acks_to :: "socket \<Rightarrow> t_effect list \<Rightarrow> string option list" where
  "acks_to s [] = []"
| "acks_to s (TSend s' m # es) =
     (if s' = s \<and> m_action m = RecordA RA_WRITE_ACKNOWLEDGEMENT then m_corr m # acks_to s es else acks_to s es)"
| "acks_to s (e # es) = acks_to s es"

definition acked :: "message \<Rightarrow> string \<Rightarrow> message" where
  "acked m c = m\<lparr>m_writeack := True, m_corr := Some c\<rparr>"

text \<open>A write acknowledgement goes to the sender of the step that is current when storage
  answers, not to its own: with two queued writes of two clients and a storage slower than the cache,
  every store answers without error and the first client is never acknowledged.\<close>

theorem write_ack_lost:
  "ts_history plain_env (ts_init ''r'')
     [Add 1 (acked (patch_to 4) ''c1'') False, Add 2 (acked (patch_to 5) ''c2'') False,
      RecordLoaded 3 (Some (JObj [])), CacheDone 0 None, StorageDone 0 None, CacheDone 0 None, StorageDone 0 None] \<and>
   acks_to 1 (snd (run (ts_step plain_env) (ts_init ''r'')
     [Add 1 (acked (patch_to 4) ''c1'') False, Add 2 (acked (patch_to 5) ''c2'') False,
      RecordLoaded 3 (Some (JObj [])), CacheDone 0 None, StorageDone 0 None, CacheDone 0 None, StorageDone 0 None])) = [] \<and>
   acks_to 2 (snd (run (ts_step plain_env) (ts_init ''r'')
     [Add 1 (acked (patch_to 4) ''c1'') False, Add 2 (acked (patch_to 5) ''c2'') False,
      RecordLoaded 3 (Some (JObj [])), CacheDone 0 None, StorageDone 0 None, CacheDone 0 None, StorageDone 0 None])) = [Some ''c2''] \<and>
   map fst (storage_writes (snd (run (ts_step plain_env) (ts_init ''r'')
     [Add 1 (acked (patch_to 4) ''c1'') False, Add 2 (acked (patch_to 5) ''c2'') False,
      RecordLoaded 3 (Some (JObj [])), CacheDone 0 None, StorageDone 0 None, CacheDone 0 None, StorageDone 0 None]))) = [4, 5]"
  by code_simp

end
