(* ===== verification/RecordDeletion.thy ===== *)
theory RecordDeletion
  imports Utils
begin

text \<open>
  Deleting one record (\<open>src/handlers/record/record-deletion.ts\<close>): the record is removed from cache and
  storage, each under a timeout, and the sender gets one answer. The services and timers behave as
  in \<open>RecordRequest\<close>: at most one answer per call, no firing after \<open>clearTimeout\<close>.
\<close>

section \<open>State\<close>

record deletion =
  d_socket :: socket
  d_message :: message
  d_name :: string
  d_excluded :: bool
  d_completed :: nat
  d_destroyed :: bool
  d_cacheTimer :: bool
  d_storageTimer :: bool
  d_cachePending :: bool
  d_storagePending :: bool

datatype d_effect =
    DSend socket message
  | DCacheDelete string
  | DStorageDelete string
  | DSuccess string message socket

datatype d_input =
    DCacheTimeout
  | DStorageTimeout
  | DCacheDone "string option"
  | DStorageDone "string option"

section \<open>Operations\<close>

definition d_destroy :: "deletion \<Rightarrow> deletion" where
  "d_destroy d = d\<lparr>d_cacheTimer := False, d_storageTimer := False, d_destroyed := True\<rparr>"

definition handleError :: "deletion \<Rightarrow> deletion \<times> d_effect list" where
  "handleError d =
     (d_destroy d, [DSend (d_socket d)
        ((msg T_RECORD (RecordA RA_RECORD_DELETE_ERROR))\<lparr>m_name := Some (d_name d)\<rparr>)])"

definition d_done :: "deletion \<Rightarrow> deletion \<times> d_effect list" where
  "d_done d =
     (let deleted = (d_message d)\<lparr>m_action := RecordA RA_DELETED\<rparr>
      in (d_destroy (d\<lparr>d_message := deleted\<rparr>),
          [DSend (d_socket d)
             ((msg T_RECORD (RecordA RA_DELETE_SUCCESS))\<lparr>m_name := m_name (d_message d)\<rparr>),
           DSuccess (d_name d) deleted (d_socket d)]))"

definition stageComplete :: "string option \<Rightarrow> deletion \<Rightarrow> deletion \<times> d_effect list" where
  "stageComplete error d =
     (let d1 = d\<lparr>d_completed := d_completed d + 1\<rparr>
      in if d_destroyed d1 then (d1, [])
         else if nonempty error then handleError d1
         else if d_completed d1 = 2 then d_done d1
         else (d1, []))"

definition onCacheDelete :: "string option \<Rightarrow> deletion \<Rightarrow> deletion \<times> d_effect list" where
  "onCacheDelete error d = stageComplete error (d\<lparr>d_cacheTimer := False\<rparr>)"

definition onStorageDelete :: "string option \<Rightarrow> deletion \<Rightarrow> deletion \<times> d_effect list" where
  "onStorageDelete error d = stageComplete error (d\<lparr>d_storageTimer := False\<rparr>)"

text \<open>The constructor.\<close>

definition new_deletion :: "string list option \<Rightarrow> socket \<Rightarrow> message \<Rightarrow> deletion \<times> d_effect list" where
  "new_deletion storageExclusionPrefixes s m =
     (let name = the (m_name m);
          d = \<lparr>d_socket = s, d_message = m, d_name = name,
               d_excluded = isExcluded storageExclusionPrefixes name, d_completed = 0,
               d_destroyed = False, d_cacheTimer = True, d_storageTimer = False,
               d_cachePending = True, d_storagePending = False\<rparr>
      in if \<not> d_excluded d
         then (d\<lparr>d_storageTimer := True, d_storagePending := True\<rparr>, [DCacheDelete name, DStorageDelete name])
         else (let (d', es) = onStorageDelete None d in (d', DCacheDelete name # es)))"

fun d_step :: "deletion \<Rightarrow> d_input \<Rightarrow> deletion \<times> d_effect list" where
  "d_step d DCacheTimeout = handleError (d\<lparr>d_cacheTimer := False\<rparr>)"
| "d_step d DStorageTimeout = handleError (d\<lparr>d_storageTimer := False\<rparr>)"
| "d_step d (DCacheDone error) = onCacheDelete error (d\<lparr>d_cachePending := False\<rparr>)"
| "d_step d (DStorageDone error) = onStorageDelete error (d\<lparr>d_storagePending := False\<rparr>)"

fun d_enabled :: "deletion \<Rightarrow> d_input \<Rightarrow> bool" where
  "d_enabled d DCacheTimeout = d_cacheTimer d"
| "d_enabled d DStorageTimeout = d_storageTimer d"
| "d_enabled d (DCacheDone _) = d_cachePending d"
| "d_enabled d (DStorageDone _) = d_storagePending d"

fun d_history :: "deletion \<Rightarrow> d_input list \<Rightarrow> bool" where
  "d_history d [] = True"
| "d_history d (i # is) = (d_enabled d i \<and> d_history (fst (d_step d i)) is)"

section \<open>Outcomes\<close>

text \<open>The answers to the sender, and the successes reported to the handler.\<close>

fun answers :: "d_effect list \<Rightarrow> nat" where
  "answers [] = 0"
| "answers (DSend s m # es) = Suc (answers es)"
| "answers (e # es) = answers es"

fun successes :: "d_effect list \<Rightarrow> nat" where
  "successes [] = 0"
| "successes (DSuccess n m s # es) = Suc (successes es)"
| "successes (e # es) = successes es"

lemma outcome_append [simp]:
  "answers (es @ fs) = answers es + answers fs" "successes (es @ fs) = successes es + successes fs"
  by (induction es rule: answers.induct) auto

definition d_open :: "deletion \<Rightarrow> nat" where
  "d_open d = (if d_destroyed d then 0 else 1)"

fun ok_cache :: "d_input \<Rightarrow> bool" where
  "ok_cache (DCacheDone error) = (\<not> nonempty error)"
| "ok_cache _ = False"

fun ok_storage :: "d_input \<Rightarrow> bool" where
  "ok_storage (DStorageDone error) = (\<not> nonempty error)"
| "ok_storage _ = False"

text \<open>Each stage that is not pending any more was confirmed, while the deletion is open.\<close>

definition d_inv :: "d_input list \<Rightarrow> deletion \<Rightarrow> bool" where
  "d_inv h d \<longleftrightarrow>
     (d_destroyed d \<longrightarrow> \<not> d_cacheTimer d \<and> \<not> d_storageTimer d) \<and>
     (\<not> d_destroyed d \<longrightarrow>
        d_cacheTimer d = d_cachePending d \<and> d_storageTimer d = d_storagePending d \<and>
        d_completed d + (if d_cachePending d then 1 else 0) + (if d_storagePending d then 1 else 0) = 2 \<and>
        d_completed d < 2 \<and>
        (\<not> d_cachePending d \<longrightarrow> list_ex ok_cache h) \<and>
        (\<not> d_storagePending d \<longrightarrow> d_excluded d \<or> list_ex ok_storage h))"

lemmas d_defs = handleError_def d_done_def d_destroy_def stageComplete_def onCacheDelete_def
  onStorageDelete_def d_open_def Let_def

lemma d_step_ok:
  assumes "d_inv h d" and "d_enabled d i"
  shows "d_inv (h @ [i]) (fst (d_step d i)) \<and> d_excluded (fst (d_step d i)) = d_excluded d \<and>
    answers (snd (d_step d i)) + d_open (fst (d_step d i)) = d_open d \<and>
    successes (snd (d_step d i)) \<le> answers (snd (d_step d i)) \<and>
    (0 < successes (snd (d_step d i)) \<longrightarrow>
       list_ex ok_cache (h @ [i]) \<and> (d_excluded d \<or> list_ex ok_storage (h @ [i])))"
  using assms by (cases i) (auto simp: d_inv_def d_defs split: if_splits)

lemma d_run_ok:
  assumes "d_inv h d" and "d_history d is"
  shows "d_inv (h @ is) (fst (run d_step d is)) \<and>
    answers (snd (run d_step d is)) + d_open (fst (run d_step d is)) = d_open d \<and>
    successes (snd (run d_step d is)) \<le> answers (snd (run d_step d is)) \<and>
    (0 < successes (snd (run d_step d is)) \<longrightarrow>
       list_ex ok_cache (h @ is) \<and> (d_excluded d \<or> list_ex ok_storage (h @ is)))"
  using assms
proof (induction "is" arbitrary: h d)
  case (Cons i "is")
  note one = d_step_ok [OF Cons.prems(1), of i]
  then have "d_inv (h @ [i]) (fst (d_step d i))" using Cons.prems(2) by simp
  from Cons.IH [OF this] Cons.prems(2) one show ?case
    by (auto simp: Let_def split_beta)
qed simp

lemma new_deletion_inv: "d_inv [] (fst (new_deletion ps s m)) \<and> d_open (fst (new_deletion ps s m)) = 1 \<and>
    d_excluded (fst (new_deletion ps s m)) = isExcluded ps (the (m_name m)) \<and>
    answers (snd (new_deletion ps s m)) = 0"
  by (auto simp: new_deletion_def d_inv_def d_defs nonempty_def)

section \<open>Properties\<close>

definition d_quiet :: "deletion \<Rightarrow> bool" where
  "d_quiet d \<longleftrightarrow> \<not> d_cacheTimer d \<and> \<not> d_storageTimer d \<and> \<not> d_cachePending d \<and> \<not> d_storagePending d"

text \<open>Whatever the order of answers and timeouts, the sender of a delete gets at most one answer,
  and exactly one once nothing is outstanding; the deletion is reported as successful, and then
  announced to the subscribers, only if the cache confirmed it and storage did too, unless the
  record is excluded from storage.\<close>

theorem deletion_answers_once:
  assumes "d_history (fst (new_deletion ps s m)) is"
  shows "answers (snd (run d_step (fst (new_deletion ps s m)) is)) \<le> 1 \<and>
    (d_quiet (fst (run d_step (fst (new_deletion ps s m)) is)) \<longrightarrow>
       answers (snd (run d_step (fst (new_deletion ps s m)) is)) = 1) \<and>
    successes (snd (run d_step (fst (new_deletion ps s m)) is)) \<le> 1 \<and>
    (0 < successes (snd (run d_step (fst (new_deletion ps s m)) is)) \<longrightarrow>
       list_ex ok_cache is \<and> (isExcluded ps (the (m_name m)) \<or> list_ex ok_storage is))"
proof -
  have run: "d_inv is (fst (run d_step (fst (new_deletion ps s m)) is)) \<and>
      answers (snd (run d_step (fst (new_deletion ps s m)) is)) + d_open (fst (run d_step (fst (new_deletion ps s m)) is)) = 1 \<and>
      successes (snd (run d_step (fst (new_deletion ps s m)) is)) \<le> answers (snd (run d_step (fst (new_deletion ps s m)) is)) \<and>
      (0 < successes (snd (run d_step (fst (new_deletion ps s m)) is)) \<longrightarrow>
       list_ex ok_cache is \<and> (isExcluded ps (the (m_name m)) \<or> list_ex ok_storage is))"
    using d_run_ok [OF _ assms, of "[]"] new_deletion_inv [of ps s m] by simp
  moreover have "d_quiet d \<Longrightarrow> d_inv is d \<Longrightarrow> d_open d = 0" for d
    by (auto simp: d_quiet_def d_inv_def d_open_def)
  ultimately show ?thesis by fastforce
qed

definition delete_message :: message where
  "delete_message = (msg T_RECORD (RecordA RA_DELETE))\<lparr>m_name := Some ''r''\<rparr>"

theorem deletion_answers_once_witness:
  "answers (snd (run d_step (fst (new_deletion None 1 delete_message))
     [DStorageDone None, DCacheTimeout, DCacheDone None])) \<le> 1"
proof -
  have "d_history (fst (new_deletion None 1 delete_message)) [DStorageDone None, DCacheTimeout, DCacheDone None]"
    by code_simp
  then show ?thesis using deletion_answers_once by blast
qed

end
