(* ===== verification/RecordHandler.thy ===== *)
theory RecordHandler
  imports Subscriptions RecordTransition
begin

text \<open>
  The record handler (\<open>src/handlers/record/record-handler.ts\<close>). It answers a client message by a
  chain of asynchronous calls (record requests, permission checks, cache and storage writes); the
  closure it passes to each is a constructor that holds the variables it captures, the call is an
  effect that carries it, and the answer is an input that brings it back. The transitions are
  objects: \<open>hd_objs\<close> is their store, \<open>hd_transitions\<close> the handler's map from names to them.
\<close>

section \<open>Continuations, calls and state\<close>

datatype perm_kont =
    PkCreate
  | PkReadEmpty message
  | PkReadAndSubscribe message int
  | PkHotCreate message
  | PkHotUpdate message
  | PkTransitionAdd nat message
  | PkCreateThenUpdate message
  | PkUpdate message

datatype req_kont =
    RkSubscribeCreateAndRead
  | RkSubscribeAndRead
  | RkSnapshot
  | RkHead
  | RkLatest message int
  | RkNotify nat string
  | RkTransition nat bool

datatype write_kont =
    WkTransition nat write_cb
  | WkForce nat
  | WkCreate socket message "action option"
  | WkNothing

datatype h_effect =
    HSub sub_effect
  | HSend socket message
  | HAck socket message
  | HClusterSend message
  | HRequest string "socket option" req_kont message bool
  | HPermission socket message "action option" perm_kont
  | HCacheSet string int "json option" write_kont
  | HStorageSet string int "json option" write_kont
  | HHeadBulk "string list" socket message
  | HDeleteBulk "string list" socket message
  | HDelete socket message
  | HListener socket message
  | HCallback string
  | HThrow js_error

text \<open>The closure variables of a hot path write and of a notification.\<close>

record force_write =
  fw_socket :: socket
  fw_message :: message
  fw_cache :: bool
  fw_storage :: bool

record notification =
  nt_socket :: "socket option"
  nt_message :: message
  nt_completed :: nat

record handler =
  hd_subs :: sub_registry
  hd_objs :: "transition list"
  hd_transitions :: "(string, nat) jsmap"
  hd_stable :: "(string, string list) jsmap"
  hd_force :: "force_write list"
  hd_notify :: "notification list"

record hconfig =
  hc_env :: env
  hc_hot :: "string list"
  hc_deleteBulk :: bool

definition new_handler :: handler where
  "new_handler = \<lparr>hd_subs = setSubscriptionListener (new_registry T_RECORD), hd_objs = [],
     hd_transitions = [], hd_stable = [], hd_force = [], hd_notify = []\<rparr>"

abbreviation name_of :: "message \<Rightarrow> string" where
  "name_of m \<equiv> the (m_name m)"

section \<open>Subscriptions and broadcasts\<close>

definition on_subs :: "(sub_registry \<Rightarrow> sub_registry \<times> sub_effect list) \<Rightarrow> handler \<Rightarrow> handler \<times> h_effect list" where
  "on_subs f h = (case f (hd_subs h) of (r, es) \<Rightarrow> (h\<lparr>hd_subs := r\<rparr>, map HSub es))"

definition broadcastUpdate :: "string \<Rightarrow> message \<Rightarrow> bool \<Rightarrow> socket option \<Rightarrow> handler \<Rightarrow> h_effect list" where
  "broadcastUpdate name m noDelay originalSender h =
     map HSub (sendToSubscribers name m noDelay originalSender False (hd_subs h))"

definition transitionComplete :: "string \<Rightarrow> handler \<Rightarrow> handler" where
  "transitionComplete name h = h\<lparr>hd_transitions := js_delete name (hd_transitions h)\<rparr>"

section \<open>Driving a transition\<close>

fun lift_effect :: "nat \<Rightarrow> handler \<Rightarrow> t_effect \<Rightarrow> handler \<times> h_effect list" where
  "lift_effect i h (TSend s m) = (h, [HSend s m])"
| "lift_effect i h (TRequest n upsert) = (h, [HRequest n None (RkTransition i upsert) (msg T_RECORD UndefinedA) False])"
| "lift_effect i h (TStorageSet n v d cb) = (h, [HStorageSet n v d (WkTransition i cb)])"
| "lift_effect i h (TCacheSet n v d cb) = (h, [HCacheSet n v d (WkTransition i cb)])"
| "lift_effect i h (TBroadcast m s) = (h, broadcastUpdate (t_name (hd_objs h ! i)) m False (Some s) h)"
| "lift_effect i h (TComplete n) = (transitionComplete n h, [])"
| "lift_effect i h (TThrow err) = (h, [HThrow err])"

definition on_transition ::
  "nat \<Rightarrow> (transition \<Rightarrow> transition \<times> t_effect list) \<Rightarrow> handler \<Rightarrow> handler \<times> h_effect list" where
  "on_transition i f h =
     (let (t, es) = f (hd_objs h ! i)
      in run (lift_effect i) (h\<lparr>hd_objs := (hd_objs h)[i := t]\<rparr>) es)"

section \<open>Permissions\<close>

definition permissionAction :: "record_action \<Rightarrow> message \<Rightarrow> action \<Rightarrow> socket \<Rightarrow> perm_kont \<Rightarrow> h_effect list" where
  "permissionAction actionToPermission m originalAction s k =
     [HPermission s (m\<lparr>m_action := RecordA actionToPermission\<rparr>) (Some originalAction) k]"

definition permission_error :: "message \<Rightarrow> action option \<Rightarrow> record_action \<Rightarrow> message" where
  "permission_error m originalAction a =
     (msg T_RECORD (RecordA a))\<lparr>m_original := originalAction, m_name := m_name m, m_isError := True,
       m_corr := (if nonempty (m_corr m) then m_corr m else None), m_writeack := m_writeack m\<rparr>"

section \<open>Answers to clients\<close>

definition onRequestError :: "action \<Rightarrow> string \<Rightarrow> socket \<Rightarrow> message \<Rightarrow> h_effect list" where
  "onRequestError event recordName s m =
     [HSend s ((msg T_RECORD event)\<lparr>m_original := Some (m_action m), m_name := Some recordName,
        m_isError := True, m_writeack := m_writeack m\<rparr>)]"

definition sendRecord :: "string \<Rightarrow> int \<Rightarrow> json option \<Rightarrow> socket \<Rightarrow> h_effect list" where
  "sendRecord recordName v data s =
     [HSend s ((msg T_RECORD (RecordA RA_READ_RESPONSE))\<lparr>m_name := Some recordName,
        m_version := Some v, m_parsed := data\<rparr>)]"

definition onSnapshotComplete :: "string \<Rightarrow> int \<Rightarrow> json option \<Rightarrow> socket \<Rightarrow> message \<Rightarrow> h_effect list" where
  "onSnapshotComplete recordName v data s m =
     (if truthy data then sendRecord recordName v data s
      else [HSend s ((msg T_RECORD (RecordA RA_RECORD_NOT_FOUND))\<lparr>m_original := Some (m_action m),
              m_name := m_name m, m_isError := True\<rparr>)])"

definition onHeadComplete :: "string \<Rightarrow> int \<Rightarrow> socket \<Rightarrow> h_effect list" where
  "onHeadComplete name v s =
     [HSend s ((msg T_RECORD (RecordA RA_HEAD_RESPONSE))\<lparr>m_name := Some name, m_version := Some v\<rparr>)]"

definition readAndSubscribe :: "message \<Rightarrow> int \<Rightarrow> socket \<Rightarrow> h_effect list" where
  "readAndSubscribe m v s = permissionAction RA_READ m (m_action m) s (PkReadAndSubscribe m v)"

definition onSubscribeCreateAndRead :: "int \<Rightarrow> json option \<Rightarrow> socket \<Rightarrow> message \<Rightarrow> h_effect list" where
  "onSubscribeCreateAndRead v data s m =
     (if truthy data then readAndSubscribe m v s
      else permissionAction RA_CREATE m (m_action m) s PkCreate)"

definition onSubscribeAndRead :: "int \<Rightarrow> json option \<Rightarrow> socket \<Rightarrow> message \<Rightarrow> h_effect list" where
  "onSubscribeAndRead v data s m =
     (if truthy data then readAndSubscribe m v s
      else permissionAction RA_READ m (m_action m) s (PkReadEmpty m))"

section \<open>Writes\<close>

definition create :: "hconfig \<Rightarrow> socket \<Rightarrow> message \<Rightarrow> action option \<Rightarrow> h_effect list" where
  "create c s m originalAction =
     HCacheSet (name_of m) 0 (Some (JObj [])) (WkCreate s m originalAction) #
     (if \<not> isExcluded (e_exclusions (hc_env c)) (name_of m)
      then [HStorageSet (name_of m) 0 (Some (JObj [])) WkNothing] else [])"

definition onCreated :: "string option \<Rightarrow> socket \<Rightarrow> message \<Rightarrow> action option \<Rightarrow> h_effect list" where
  "onCreated error s m originalAction =
     (if nonempty error
      then [HSend s ((msg T_RECORD (RecordA RA_RECORD_CREATE_ERROR))\<lparr>m_original := originalAction,
              m_name := m_name m\<rparr>)]
      else readAndSubscribe (m\<lparr>m_action := (case originalAction of Some a \<Rightarrow> a | None \<Rightarrow> UndefinedA)\<rparr>) 0 s)"

definition forceWrite :: "hconfig \<Rightarrow> string \<Rightarrow> message \<Rightarrow> socket \<Rightarrow> handler \<Rightarrow> handler \<times> h_effect list" where
  "forceWrite c recordName m0 s h =
     (let m = (case e_parse (hc_env c) s m0 of Some m \<Rightarrow> m | None \<Rightarrow> m0);
          i = length (hd_force h)
      in (h\<lparr>hd_force := hd_force h @ [\<lparr>fw_socket = s, fw_message = m, fw_cache = False, fw_storage = False\<rparr>]\<rparr>,
          [HStorageSet recordName 0 (m_parsed m) (WkForce i), HCacheSet recordName 0 (m_parsed m) (WkForce i)]))"

definition handleForceWriteAcknowledgement :: "force_write \<Rightarrow> h_effect list" where
  "handleForceWriteAcknowledgement w =
     (if fw_storage w \<and> fw_cache w
      then [HSend (fw_socket w) ((msg T_RECORD (RecordA RA_WRITE_ACKNOWLEDGEMENT))
              \<lparr>m_name := m_name (fw_message w), m_corr := m_corr (fw_message w)\<rparr>)]
      else [])"

definition onForceStorage :: "nat \<Rightarrow> handler \<Rightarrow> handler \<times> h_effect list" where
  "onForceStorage i h =
     (let w = hd_force h ! i
      in if m_writeack (fw_message w)
         then (let w' = w\<lparr>fw_storage := True\<rparr>
               in (h\<lparr>hd_force := (hd_force h)[i := w']\<rparr>, handleForceWriteAcknowledgement w'))
         else (h, []))"

definition onForceCache :: "string \<Rightarrow> nat \<Rightarrow> string option \<Rightarrow> handler \<Rightarrow> handler \<times> h_effect list" where
  "onForceCache recordName i error h =
     (let w = hd_force h ! i;
          es = (if \<not> nonempty error
                then broadcastUpdate recordName (fw_message w) False (Some (fw_socket w)) h else [])
      in if m_writeack (fw_message w)
         then (let w' = w\<lparr>fw_cache := True\<rparr>
               in (h\<lparr>hd_force := (hd_force h)[i := w']\<rparr>, es @ handleForceWriteAcknowledgement w'))
         else (h, es))"

definition update :: "hconfig \<Rightarrow> socket option \<Rightarrow> message \<Rightarrow> bool \<Rightarrow> handler \<Rightarrow> handler \<times> h_effect list" where
  "update c so m0 upsert h =
     (let recordName = name_of m0; v = version_of m0
      in case so of
           None \<Rightarrow> (h, broadcastUpdate recordName m0 False None h)
         | Some s \<Rightarrow>
             (let m = m0\<lparr>m_action := RecordA (if m_path m0 \<noteq> None then RA_PATCH else RA_UPDATE)\<rparr>
              in case js_get (hd_transitions h) recordName of
                   Some i \<Rightarrow>
                     if hasVersion v (hd_objs h ! i)
                     then on_transition i (sendVersionExists \<lparr>step_message = m, step_sender = s\<rparr>) h
                     else on_transition i (add (hc_env c) s m upsert) h
                 | None \<Rightarrow>
                     (let i = length (hd_objs h);
                          h1 = h\<lparr>hd_objs := hd_objs h @ [new_transition recordName],
                                 hd_transitions := js_set recordName i (hd_transitions h)\<rparr>
                      in on_transition i (add (hc_env c) s m upsert) h1)))"

fun hot_prefix :: "string list \<Rightarrow> string \<Rightarrow> bool" where
  "hot_prefix [] n = False"
| "hot_prefix (p # ps) n = (js_startsWith n p \<or> hot_prefix ps n)"

definition createAndUpdate :: "hconfig \<Rightarrow> socket \<Rightarrow> message \<Rightarrow> handler \<Rightarrow> h_effect list" where
  "createAndUpdate c s m0 h =
     (let recordName = name_of m0; isPatch = m_path m0 \<noteq> None; originalAction = m_action m0;
          m = m0\<lparr>m_action := RecordA (if isPatch then RA_PATCH else RA_UPDATE)\<rparr>
      in if hot_prefix (hc_hot c) recordName
         then (if isPatch
               then [HSend s ((msg T_RECORD (RecordA RA_INVALID_PATCH_ON_HOTPATH))
                       \<lparr>m_original := Some originalAction, m_name := Some recordName,
                        m_corr := (if nonempty (m_corr m) then m_corr m else None)\<rparr>)]
               else permissionAction RA_CREATE m originalAction s (PkHotCreate m))
         else case js_get (hd_transitions h) recordName of
             Some i \<Rightarrow> permissionAction (if isPatch then RA_PATCH else RA_UPDATE) m originalAction s (PkTransitionAdd i m)
           | None \<Rightarrow> permissionAction RA_CREATE m originalAction s (PkCreateThenUpdate m))"

section \<open>Deletion\<close>

text \<open>\<open>for ... of\<close> over the subscribers' set, which the loop empties as it goes.\<close>

fun unsubscribe_all :: "string \<Rightarrow> message \<Rightarrow> socket list \<Rightarrow> handler \<Rightarrow> handler \<times> h_effect list" where
  "unsubscribe_all name m [] h = (h, [])"
| "unsubscribe_all name m (s # ss) h =
     (let (h1, e1) = on_subs (unsubscribe name m s True) h; (h2, e2) = unsubscribe_all name m ss h1
      in (h2, e1 @ e2))"

definition onDeleted :: "string \<Rightarrow> message \<Rightarrow> socket option \<Rightarrow> handler \<Rightarrow> handler \<times> h_effect list" where
  "onDeleted name m originalSender h =
     (let es = broadcastUpdate name m True originalSender h;
          (h1, es1) = unsubscribe_all name m (getLocalSubscribers (hd_subs h) name) h
      in (h1, es @ es1))"

definition stop_transition :: "hconfig \<Rightarrow> string \<Rightarrow> handler \<Rightarrow> handler \<times> h_effect list" where
  "stop_transition c recordName h =
     (case js_get (hd_transitions h) recordName of
        None \<Rightarrow> (h, [])
      | Some i \<Rightarrow>
          (let (h1, es) = on_transition i (destroy (hc_env c) None) h
           in (h1\<lparr>hd_transitions := js_delete recordName (hd_transitions h1)\<rparr>, es)))"

definition delete :: "hconfig \<Rightarrow> socket \<Rightarrow> message \<Rightarrow> handler \<Rightarrow> handler \<times> h_effect list" where
  "delete c s m h = (let (h1, es) = stop_transition c (name_of m) h in (h1, es @ [HDelete s m]))"

definition remoteDelete :: "hconfig \<Rightarrow> message \<Rightarrow> handler \<Rightarrow> handler \<times> h_effect list" where
  "remoteDelete c m h =
     (let (h1, es) = stop_transition c (name_of m) h; (h2, es2) = onDeleted (name_of m) m None h1
      in (h2, es @ es2))"

section \<open>Changes made outside the server\<close>

text \<open>The check that follows each completed name.\<close>

definition notify_completed :: "nat \<Rightarrow> handler \<Rightarrow> handler \<times> h_effect list" where
  "notify_completed k h =
     (let n = hd_notify h ! k; n' = n\<lparr>nt_completed := nt_completed n + 1\<rparr>
      in (h\<lparr>hd_notify := (hd_notify h)[k := n']\<rparr>,
          (case nt_socket n of
             Some s \<Rightarrow> if nt_completed n' = length (the (m_names (nt_message n)))
                       then [HAck s (nt_message n), HClusterSend (nt_message n)] else []
           | None \<Rightarrow> [])))"

fun notify_loop :: "nat \<Rightarrow> socket option \<Rightarrow> message \<Rightarrow> string list \<Rightarrow> handler \<Rightarrow> handler \<times> h_effect list" where
  "notify_loop k so m [] h = (h, [])"
| "notify_loop k so m (recordName # names) h =
     (let (h1, e1) =
        (if hasLocalSubscribers (hd_subs h) recordName
         then (h, [HRequest recordName so (RkNotify k recordName) m True])
         else notify_completed k h);
       (h2, e2) = notify_loop k so m names h1
      in (h2, e1 @ e2))"

definition notify_names :: "socket option \<Rightarrow> message \<Rightarrow> handler \<Rightarrow> handler \<times> h_effect list" where
  "notify_names so m h =
     (let k = length (hd_notify h);
          h1 = h\<lparr>hd_notify := hd_notify h @ [\<lparr>nt_socket = so, nt_message = m, nt_completed = 0\<rparr>]\<rparr>
      in notify_loop k so m (the (m_names m)) h1)"

definition notify_error :: "socket \<Rightarrow> message \<Rightarrow> string \<Rightarrow> h_effect list" where
  "notify_error s m errorMessage =
     [HSend s ((msg T_RECORD (RecordA RA_RECORD_NOTIFY_ERROR))\<lparr>m_isError := True,
        m_parsed := Some (JStr errorMessage), m_corr := m_corr m\<rparr>)]"

definition recordUpdatedWithoutDeepstream ::
  "hconfig \<Rightarrow> message \<Rightarrow> socket option \<Rightarrow> handler \<Rightarrow> handler \<times> h_effect list" where
  "recordUpdatedWithoutDeepstream c m so h =
     (case so of
        None \<Rightarrow> notify_names None m h
      | Some s \<Rightarrow>
          if \<not> hc_deleteBulk c
          then (h, notify_error s m ''Cache needs to implement deleteBulk in order for it to work correctly'')
          else (h, [HDeleteBulk (the (m_names m)) s m]))"

definition onBulkDeleted :: "string option \<Rightarrow> socket \<Rightarrow> message \<Rightarrow> handler \<Rightarrow> handler \<times> h_effect list" where
  "onBulkDeleted error s m h =
     (if nonempty error
      then (h, notify_error s m ''Error deleting messages in bulk when attempting to notify of remote changes'')
      else notify_names (Some s) m h)"

definition onNotifyLoaded ::
  "hconfig \<Rightarrow> nat \<Rightarrow> string \<Rightarrow> int \<Rightarrow> json option \<Rightarrow> handler \<Rightarrow> handler \<times> h_effect list" where
  "onNotifyLoaded c k name v data h =
     (let (h1, e1) =
        (if v = -1 then remoteDelete c ((msg T_RECORD (RecordA RA_DELETED))\<lparr>m_name := Some name\<rparr>) h
         else (h, map HSub (sendToSubscribers name ((msg T_RECORD (RecordA RA_UPDATE))
                \<lparr>m_name := Some name, m_version := Some v, m_parsed := data\<rparr>) True None False (hd_subs h))));
        (h2, e2) = notify_completed k h1
      in (h2, e1 @ e2))"

definition onNotifyFailed ::
  "nat \<Rightarrow> string \<Rightarrow> record_action \<Rightarrow> socket option \<Rightarrow> message \<Rightarrow> handler \<Rightarrow> handler \<times> h_effect list" where
  "onNotifyFailed k recordName event so m h =
     (let es = (case so of Some s \<Rightarrow> onRequestError (RecordA event) recordName s m | None \<Rightarrow> []);
          (h1, e1) = notify_completed k h
      in (h1, es @ e1))"

section \<open>Waiting for a stable record\<close>

text \<open>A waiting callback is represented by a name for it; running it is the effect \<open>HCallback\<close>.\<close>

definition removeRecordRequest :: "string \<Rightarrow> handler \<Rightarrow> handler \<times> h_effect list" where
  "removeRecordRequest recordName h =
     (case js_get (hd_stable h) recordName of
        None \<Rightarrow> (h, [])
      | Some [] \<Rightarrow> (h\<lparr>hd_stable := js_delete recordName (hd_stable h)\<rparr>, [])
      | Some (cb # cbs) \<Rightarrow> (h\<lparr>hd_stable := js_set recordName cbs (hd_stable h)\<rparr>, [HCallback cb]))"

definition runWhenRecordStable :: "string \<Rightarrow> string \<Rightarrow> handler \<Rightarrow> handler \<times> h_effect list" where
  "runWhenRecordStable recordName callback h =
     (case js_get (hd_stable h) recordName of
        None \<Rightarrow> (h\<lparr>hd_stable := js_set recordName [] (hd_stable h)\<rparr>, [HCallback callback])
      | Some [] \<Rightarrow> (h\<lparr>hd_stable := js_set recordName [] (hd_stable h)\<rparr>, [HCallback callback])
      | Some cbs \<Rightarrow> (h\<lparr>hd_stable := js_set recordName (cbs @ [callback]) (hd_stable h)\<rparr>, []))"

section \<open>Heads\<close>

definition head :: "socket \<Rightarrow> message \<Rightarrow> string \<Rightarrow> h_effect list" where
  "head s m name = [HRequest name (Some s) RkHead m True]"

definition onHeadBulk ::
  "string option \<Rightarrow> (string, int) jsmap \<Rightarrow> string list \<Rightarrow> socket \<Rightarrow> message \<Rightarrow> handler \<Rightarrow> handler \<times> h_effect list" where
  "onHeadBulk error versions missing s m h =
     (if nonempty error then (h, [])
      else
        (let e1 = [HSend s ((msg T_RECORD (RecordA RA_HEAD_RESPONSE_BULK))\<lparr>m_versions := Some versions\<rparr>)];
             (h1, e2) = on_subs (subscribeBulk (the (m_names m)) m s False) h;
             e3 = concat (map (\<lambda>n. if js_get versions n = None then head s m n else []) missing)
         in (h1, e1 @ e2 @ e3)))"

section \<open>The entry points\<close>

definition handleClusterUpdate :: "hconfig \<Rightarrow> message \<Rightarrow> handler \<Rightarrow> handler \<times> h_effect list" where
  "handleClusterUpdate c m h =
     (if m_action m = RecordA RA_DELETED then remoteDelete c m h
      else if m_action m = RecordA RA_NOTIFY then recordUpdatedWithoutDeepstream c m None h
      else (h, broadcastUpdate (name_of m) ((msg (m_topic m) (m_action m))\<lparr>m_name := m_name m,
              m_path := m_path m, m_version := m_version m, m_data := m_data m, m_parsed := m_parsed m\<rparr>)
              False None h))"

definition subscribe_and_read :: "req_kont \<Rightarrow> socket \<Rightarrow> message \<Rightarrow> h_effect list" where
  "subscribe_and_read onSuccess s m =
     map (\<lambda>n. HRequest n (Some s) onSuccess (m\<lparr>m_name := Some n\<rparr>) True) (the (m_names m)) @ [HAck s m]"

definition handle :: "hconfig \<Rightarrow> socket option \<Rightarrow> message \<Rightarrow> handler \<Rightarrow> handler \<times> h_effect list" where
  "handle c so m h =
     (case so of
        None \<Rightarrow> handleClusterUpdate c m h
      | Some s \<Rightarrow>
          (case m_action m of
             RecordA RA_SUBSCRIBE \<Rightarrow> on_subs (subscribeBulk (the (m_names m)) m s False) h
           | RecordA RA_SUBSCRIBECREATEANDREAD \<Rightarrow> (h, subscribe_and_read RkSubscribeCreateAndRead s m)
           | RecordA RA_SUBSCRIBEANDREAD \<Rightarrow> (h, subscribe_and_read RkSubscribeAndRead s m)
           | RecordA RA_CREATEANDUPDATE \<Rightarrow> (h, createAndUpdate c s m h)
           | RecordA RA_CREATEANDPATCH \<Rightarrow> (h, createAndUpdate c s m h)
           | RecordA RA_READ \<Rightarrow> (h, [HRequest (name_of m) (Some s) RkSnapshot m True])
           | RecordA RA_HEAD \<Rightarrow> (h, head s m (name_of m))
           | RecordA RA_SUBSCRIBEANDHEAD \<Rightarrow> (h, [HHeadBulk (the (m_names m)) s m])
           | RecordA RA_UPDATE \<Rightarrow> update c (Some s) m (m_writeack m) h
           | RecordA RA_PATCH \<Rightarrow> update c (Some s) m (m_writeack m) h
           | RecordA RA_ERASE \<Rightarrow> update c (Some s) m (m_writeack m) h
           | RecordA RA_DELETE \<Rightarrow> delete c s m h
           | RecordA RA_UNSUBSCRIBE \<Rightarrow> on_subs (unsubscribeBulk (the (m_names m)) m s False) h
           | RecordA RA_LISTEN \<Rightarrow> (h, [HListener s m])
           | RecordA RA_UNLISTEN \<Rightarrow> (h, [HListener s m])
           | RecordA RA_LISTEN_ACCEPT \<Rightarrow> (h, [HListener s m])
           | RecordA RA_LISTEN_REJECT \<Rightarrow> (h, [HListener s m])
           | RecordA RA_NOTIFY \<Rightarrow> recordUpdatedWithoutDeepstream c m (Some s) h
           | _ \<Rightarrow> (h, [])))"

text \<open>The success callbacks of the permission checks.\<close>

definition subscribe_for_read :: "message \<Rightarrow> socket \<Rightarrow> handler \<Rightarrow> handler \<times> h_effect list" where
  "subscribe_for_read m s =
     on_subs (subscribe (name_of m) (m\<lparr>m_action := RecordA RA_SUBSCRIBE\<rparr>) s (m_names m \<noteq> None))"

fun onPermitted ::
  "hconfig \<Rightarrow> socket \<Rightarrow> message \<Rightarrow> action option \<Rightarrow> perm_kont \<Rightarrow> handler \<Rightarrow> handler \<times> h_effect list" where
  "onPermitted c s m original PkCreate h = (h, create c s m original)"
| "onPermitted c s m original (PkReadEmpty m') h =
     (let (h1, es) = subscribe_for_read m' s h
      in (h1, es @ [HSend s ((msg T_RECORD (RecordA RA_READ_RESPONSE))\<lparr>m_name := m_name m',
            m_version := Some (-1), m_parsed := Some (JObj [])\<rparr>)]))"
| "onPermitted c s m original (PkReadAndSubscribe m' v) h =
     (let (h1, es) = subscribe_for_read m' s h
      in (h1, es @ [HRequest (name_of m') (Some s) (RkLatest m' v) m' True]))"
| "onPermitted c s m original (PkHotCreate m') h =
     (h, [HPermission s (m'\<lparr>m_action := RecordA RA_UPDATE\<rparr>) original (PkHotUpdate m')])"
| "onPermitted c s m original (PkHotUpdate m') h = forceWrite c (name_of m') m' s h"
| "onPermitted c s m original (PkTransitionAdd i m') h = on_transition i (add (hc_env c) s m' False) h"
| "onPermitted c s m original (PkCreateThenUpdate m') h =
     (h, [HPermission s (m'\<lparr>m_action := RecordA RA_UPDATE\<rparr>) original (PkUpdate m')])"
| "onPermitted c s m original (PkUpdate m') h = update c (Some s) m' True h"

definition onPermissionResponse ::
  "hconfig \<Rightarrow> socket \<Rightarrow> message \<Rightarrow> action option \<Rightarrow> perm_kont \<Rightarrow> string option \<Rightarrow> bool \<Rightarrow> handler \<Rightarrow>
   handler \<times> h_effect list" where
  "onPermissionResponse c s m original k error canPerformAction h =
     (if nonempty error \<or> \<not> canPerformAction
      then (h, [HSend s (permission_error m original
                  (if nonempty error then RA_MESSAGE_PERMISSION_ERROR else RA_MESSAGE_DENIED))])
      else onPermitted c s m original k h)"

text \<open>The callbacks of the record requests. A request of a client has its socket.\<close>

fun onLoaded ::
  "hconfig \<Rightarrow> req_kont \<Rightarrow> socket option \<Rightarrow> message \<Rightarrow> string \<Rightarrow> int \<Rightarrow> json option \<Rightarrow> handler \<Rightarrow>
   handler \<times> h_effect list" where
  "onLoaded c RkSubscribeCreateAndRead so m name v data h = (h, onSubscribeCreateAndRead v data (the so) m)"
| "onLoaded c RkSubscribeAndRead so m name v data h = (h, onSubscribeAndRead v data (the so) m)"
| "onLoaded c RkSnapshot so m name v data h = (h, onSnapshotComplete name v data (the so) m)"
| "onLoaded c RkHead so m name v data h = (h, onHeadComplete name v (the so))"
| "onLoaded c (RkLatest m' v0) so m name v data h =
     (h, if truthy data then sendRecord (name_of m') v0 data (the so)
         else onRequestError (m_action m') (name_of m') (the so) m')"
| "onLoaded c (RkNotify k recordName) so m name v data h = onNotifyLoaded c k name v data h"
| "onLoaded c (RkTransition i upsert) so m name v data h =
     on_transition i (onRecord (hc_env c) v data upsert) h"

fun onLoadFailed ::
  "hconfig \<Rightarrow> req_kont \<Rightarrow> socket option \<Rightarrow> message \<Rightarrow> string \<Rightarrow> record_action \<Rightarrow> handler \<Rightarrow>
   handler \<times> h_effect list" where
  "onLoadFailed c (RkNotify k recordName) so m name event h = onNotifyFailed k recordName event so m h"
| "onLoadFailed c (RkTransition i upsert) so m name event h =
     on_transition i (onCacheRequestError (hc_env c) ''error'') h"
| "onLoadFailed c _ so m name event h = (h, onRequestError (RecordA event) name (the so) m)"

fun onCacheSet :: "hconfig \<Rightarrow> write_kont \<Rightarrow> string \<Rightarrow> string option \<Rightarrow> handler \<Rightarrow> handler \<times> h_effect list" where
  "onCacheSet c (WkTransition i cb) name error h = on_transition i (onCacheSetResponse (hc_env c) error cb) h"
| "onCacheSet c (WkForce i) name error h = onForceCache name i error h"
| "onCacheSet c (WkCreate s m original) name error h = (h, onCreated error s m original)"
| "onCacheSet c WkNothing name error h = (h, [])"

fun onStorageSet :: "hconfig \<Rightarrow> write_kont \<Rightarrow> string option \<Rightarrow> handler \<Rightarrow> handler \<times> h_effect list" where
  "onStorageSet c (WkTransition i cb) error h = on_transition i (onStorageSetResponse (hc_env c) error cb) h"
| "onStorageSet c (WkForce i) error h = onForceStorage i h"
| "onStorageSet c _ error h = (h, [])"

datatype h_input =
    Handle "socket option" message
  | Permission socket message "action option" perm_kont "string option" bool
  | Loaded req_kont "socket option" message string int "json option"
  | LoadFailed req_kont "socket option" message string record_action
  | CacheSetDone write_kont string "string option"
  | StorageSetDone write_kont "string option"
  | HeadBulkDone "string option" "(string, int) jsmap" "string list" socket message
  | BulkDeleted "string option" socket message
  | DeletionDone string message socket
  | SocketClosed socket
  | RunStable string string
  | RequestRemoved string

fun h_step :: "hconfig \<Rightarrow> handler \<Rightarrow> h_input \<Rightarrow> handler \<times> h_effect list" where
  "h_step c h (Handle so m) = handle c so m h"
| "h_step c h (Permission s m original k error can) = onPermissionResponse c s m original k error can h"
| "h_step c h (Loaded k so m name v data) = onLoaded c k so m name v data h"
| "h_step c h (LoadFailed k so m name event) = onLoadFailed c k so m name event h"
| "h_step c h (CacheSetDone k name error) = onCacheSet c k name error h"
| "h_step c h (StorageSetDone k error) = onStorageSet c k error h"
| "h_step c h (HeadBulkDone error versions missing s m) = onHeadBulk error versions missing s m h"
| "h_step c h (BulkDeleted error s m) = onBulkDeleted error s m h"
| "h_step c h (DeletionDone name m s) = onDeleted name m (Some s) h"
| "h_step c h (SocketClosed s) = on_subs (onSocketClose s) h"
| "h_step c h (RunStable name callback) = runWhenRecordStable name callback h"
| "h_step c h (RequestRemoved name) = removeRecordRequest name h"

section \<open>The registered transitions are the live ones\<close>

definition hd_inv :: "handler \<Rightarrow> bool" where
  "hd_inv h \<longleftrightarrow> sub_inv (hd_subs h) \<and>
     (\<forall>n i. js_get (hd_transitions h) n = Some i \<longrightarrow>
        i < length (hd_objs h) \<and> t_name (hd_objs h ! i) = n \<and> \<not> isDestroyed (hd_objs h ! i)) \<and>
     (\<forall>i < length (hd_objs h). \<not> isDestroyed (hd_objs h ! i) \<longrightarrow>
        js_get (hd_transitions h) (t_name (hd_objs h ! i)) = Some i)"

text \<open>An operation that leaves the transitions alone.\<close>

definition keeps_objs :: "handler \<Rightarrow> handler \<Rightarrow> bool" where
  "keeps_objs h h' \<longleftrightarrow> hd_objs h' = hd_objs h \<and> hd_transitions h' = hd_transitions h \<and>
     hd_stable h' = hd_stable h \<and> (sub_inv (hd_subs h) \<longrightarrow> sub_inv (hd_subs h'))"

lemma keeps_refl [simp]: "keeps_objs h h"
  by (simp add: keeps_objs_def)

lemma keeps_trans: "keeps_objs h h1 \<Longrightarrow> keeps_objs h1 h2 \<Longrightarrow> keeps_objs h h2"
  by (simp add: keeps_objs_def)

lemma keeps_inv: "keeps_objs h h' \<Longrightarrow> hd_inv h \<Longrightarrow> hd_inv h'"
  by (simp add: keeps_objs_def hd_inv_def)

lemma keeps_on_subs:
  assumes "\<And>r. sub_inv r \<Longrightarrow> \<exists>R. step_ok r (f r) R"
  shows "keeps_objs h (fst (on_subs f h))"
  using assms [of "hd_subs h"] by (auto simp: keeps_objs_def on_subs_def step_ok_def split: prod.splits)

lemmas subs_ok = subscribe_ok unsubscribe_ok subscribeBulk_ok unsubscribeBulk_ok onSocketClose_ok

lemma keeps_subs_ops:
  "keeps_objs h (fst (on_subs (subscribe n m s b) h))"
  "keeps_objs h (fst (on_subs (unsubscribe n m s b) h))"
  "keeps_objs h (fst (on_subs (subscribeBulk ns m s b) h))"
  "keeps_objs h (fst (on_subs (unsubscribeBulk ns m s b) h))"
  "keeps_objs h (fst (on_subs (onSocketClose s) h))"
  by (rule keeps_on_subs, blast intro: subs_ok)+

lemma keeps_unsubscribe_all: "keeps_objs h (fst (unsubscribe_all n m ss h))"
proof (induction ss arbitrary: h)
  case (Cons s ss)
  show ?case using keeps_trans [OF keeps_subs_ops(2) Cons] by (simp add: Let_def split_beta)
qed simp

lemma keeps_onDeleted: "keeps_objs h (fst (onDeleted n m so h))"
  by (simp add: onDeleted_def Let_def split_beta keeps_unsubscribe_all)

lemma keeps_notify_completed: "keeps_objs h (fst (notify_completed k h))"
  by (simp add: notify_completed_def keeps_objs_def Let_def)

lemma keeps_notify_loop: "keeps_objs h (fst (notify_loop k so m ns h))"
proof (induction ns arbitrary: h)
  case (Cons n ns)
  show ?case using keeps_trans [OF keeps_notify_completed Cons] Cons [of h] by (simp add: Let_def split_beta)
qed simp

lemma keeps_notify_names: "keeps_objs h (fst (notify_names so m h))"
  using keeps_notify_loop [of "h\<lparr>hd_notify := hd_notify h @ [\<lparr>nt_socket = so, nt_message = m, nt_completed = 0\<rparr>]\<rparr>"]
  by (simp add: notify_names_def Let_def keeps_objs_def)

text \<open>Driving a transition: its effects on the handler are those of its completion.\<close>

lemma lift_run:
  "completes_as n es \<Longrightarrow>
   hd_objs (fst (run (lift_effect i) h es)) = hd_objs h \<and>
   hd_subs (fst (run (lift_effect i) h es)) = hd_subs h \<and>
   hd_stable (fst (run (lift_effect i) h es)) = hd_stable h \<and>
   (\<forall>m. js_get (hd_transitions (fst (run (lift_effect i) h es))) m =
      (if completions es = 0 \<or> m \<noteq> n then js_get (hd_transitions h) m else None))"
proof (induction es arbitrary: h)
  case (Cons x es)
  show ?case
  proof (cases x)
    case (TComplete m)
    then show ?thesis using Cons.prems Cons.IH [of "transitionComplete n h"]
      by (simp add: Let_def split_beta transitionComplete_def js_simps)
  qed (use Cons in \<open>simp_all add: Let_def split_beta\<close>)
qed simp

lemma on_transition_inv:
  assumes inv: "hd_inv h" and i: "i < length (hd_objs h)"
    and law: "lawful e (hd_objs h ! i) (f (hd_objs h ! i))"
  shows "hd_inv (fst (on_transition i f h)) \<and> hd_stable (fst (on_transition i f h)) = hd_stable h"
proof -
  obtain t es where f: "f (hd_objs h ! i) = (t, es)" by fastforce
  let ?t0 = "hd_objs h ! i" and ?h1 = "h\<lparr>hd_objs := (hd_objs h)[i := t]\<rparr>"
  have name: "t_name t = t_name ?t0" and life: "life ?t0 + completions es = life t"
    and comp: "completes_as (t_name ?t0) es"
    using law f by (simp_all add: lawful_def)
  have eq: "on_transition i f h = run (lift_effect i) ?h1 es" by (simp add: on_transition_def f)
  note lift = lift_run [OF comp, of i ?h1]
  have "hd_inv (fst (run (lift_effect i) ?h1 es))"
    unfolding hd_inv_def
  proof (intro conjI allI impI)
    show "sub_inv (hd_subs (fst (run (lift_effect i) ?h1 es)))" using lift inv by (simp add: hd_inv_def)
  next
    fix n j
    assume "js_get (hd_transitions (fst (run (lift_effect i) ?h1 es))) n = Some j"
    then have get: "js_get (hd_transitions h) n = Some j" and c: "completions es = 0 \<or> n \<noteq> t_name ?t0"
      using lift by (auto split: if_splits)
    then have j: "j < length (hd_objs h)" "t_name (hd_objs h ! j) = n" "\<not> isDestroyed (hd_objs h ! j)"
      using inv by (auto simp: hd_inv_def)
    have "\<not> isDestroyed t" if "j = i"
      using that j c life by (auto simp: life_def split: if_splits)
    then show "j < length (hd_objs (fst (run (lift_effect i) ?h1 es)))"
      and "t_name (hd_objs (fst (run (lift_effect i) ?h1 es)) ! j) = n"
      and "\<not> isDestroyed (hd_objs (fst (run (lift_effect i) ?h1 es)) ! j)"
      using lift i j name by (auto simp: nth_list_update)
  next
    fix j
    assume "j < length (hd_objs (fst (run (lift_effect i) ?h1 es)))"
      and "\<not> isDestroyed (hd_objs (fst (run (lift_effect i) ?h1 es)) ! j)"
    then have j: "j < length (hd_objs h)" and live: "\<not> isDestroyed ((hd_objs h)[i := t] ! j)"
      using lift by simp_all
    have same: "t_name ((hd_objs h)[i := t] ! j) = t_name (hd_objs h ! j)"
      using name i by (auto simp: nth_list_update)
    have "\<not> isDestroyed (hd_objs h ! j)"
      using live life i by (cases "j = i") (auto simp: life_def split: if_splits)
    then have get: "js_get (hd_transitions h) (t_name (hd_objs h ! j)) = Some j"
      using inv j by (simp add: hd_inv_def)
    have "completions es = 0 \<or> t_name (hd_objs h ! j) \<noteq> t_name ?t0"
    proof (cases "j = i")
      case True
      then show ?thesis using live i life by (auto simp: life_def split: if_splits)
    next
      case False
      have "completions es = 0" if "t_name (hd_objs h ! j) = t_name ?t0"
      proof -
        have "isDestroyed ?t0"
        proof (rule ccontr)
          assume "\<not> isDestroyed ?t0"
          then have "js_get (hd_transitions h) (t_name ?t0) = Some i" using inv i by (simp add: hd_inv_def)
          with get that False show False by simp
        qed
        then show ?thesis using life by (simp add: life_def split: if_splits)
      qed
      then show ?thesis by blast
    qed
    then show "js_get (hd_transitions (fst (run (lift_effect i) ?h1 es)))
        (t_name (hd_objs (fst (run (lift_effect i) ?h1 es)) ! j)) = Some j"
      using lift get same by simp
  qed
  with lift show ?thesis unfolding eq by simp
qed

text \<open>Both parts of what every input keeps: the transitions, and the (empty) waiting lists.\<close>

definition ok_from :: "handler \<Rightarrow> handler \<Rightarrow> bool" where
  "ok_from h h' \<longleftrightarrow> hd_inv h' \<and> hd_stable h' = hd_stable h"

lemma ok_keeps: "hd_inv h \<Longrightarrow> keeps_objs h h' \<Longrightarrow> ok_from h h'"
  using keeps_inv [of h h'] by (simp add: ok_from_def keeps_objs_def)

lemma ok_trans: "ok_from h h1 \<Longrightarrow> (hd_inv h1 \<Longrightarrow> ok_from h1 h2) \<Longrightarrow> ok_from h h2"
  by (simp add: ok_from_def)

lemma ok_on_transition:
  "hd_inv h \<Longrightarrow> i < length (hd_objs h) \<Longrightarrow> lawful e (hd_objs h ! i) (f (hd_objs h ! i)) \<Longrightarrow>
   ok_from h (fst (on_transition i f h))"
  using on_transition_inv [of h i e f] by (simp add: ok_from_def)

lemma ok_update:
  assumes "hd_inv h" shows "ok_from h (fst (update c so m upsert h))"
proof (cases so)
  case None
  then show ?thesis using assms by (simp add: update_def ok_from_def Let_def)
next
  case (Some s)
  define m' where "m' = m\<lparr>m_action := RecordA (if m_path m \<noteq> None then RA_PATCH else RA_UPDATE)\<rparr>"
  show ?thesis
  proof (cases "js_get (hd_transitions h) (name_of m)")
    case None
    let ?h1 = "h\<lparr>hd_objs := hd_objs h @ [new_transition (name_of m)],
        hd_transitions := js_set (name_of m) (length (hd_objs h)) (hd_transitions h)\<rparr>"
    have old: "t_name (hd_objs h ! i) \<noteq> name_of m" if "i < length (hd_objs h)" "\<not> isDestroyed (hd_objs h ! i)" for i
    proof
      assume "t_name (hd_objs h ! i) = name_of m"
      moreover have "js_get (hd_transitions h) (t_name (hd_objs h ! i)) = Some i"
        using assms that by (simp add: hd_inv_def)
      ultimately show False using None by simp
    qed
    have "hd_inv ?h1"
      unfolding hd_inv_def
    proof (intro conjI allI impI)
      show "sub_inv (hd_subs ?h1)" using assms by (simp add: hd_inv_def)
    next
      fix n i
      assume "js_get (hd_transitions ?h1) n = Some i"
      then have "n = name_of m \<and> i = length (hd_objs h) \<or> js_get (hd_transitions h) n = Some i"
        by (auto simp: js_simps split: if_splits)
      then show "i < length (hd_objs ?h1)" "t_name (hd_objs ?h1 ! i) = n" "\<not> isDestroyed (hd_objs ?h1 ! i)"
        using assms by (auto simp: hd_inv_def nth_append new_transition_def intro: less_SucI simp del: map_of_eq_Some_iff)
    next
      fix i
      assume i: "i < length (hd_objs ?h1)" "\<not> isDestroyed (hd_objs ?h1 ! i)"
      show "js_get (hd_transitions ?h1) (t_name (hd_objs ?h1 ! i)) = Some i"
      proof (cases "i < length (hd_objs h)")
        case True
        then have live: "\<not> isDestroyed (hd_objs h ! i)" using i by (simp add: nth_append)
        then have "js_get (hd_transitions h) (t_name (hd_objs h ! i)) = Some i"
          using assms True by (simp add: hd_inv_def)
        then show ?thesis using old [OF True live] True by (simp add: nth_append js_simps)
      next
        case False
        then have "i = length (hd_objs h)" using i by simp
        then show ?thesis by (simp add: nth_append js_simps new_transition_def)
      qed
    qed
    then have "ok_from ?h1 (fst (on_transition (length (hd_objs h)) (add (hc_env c) s m' upsert) ?h1))"
      by (rule ok_on_transition [where e = "hc_env c"]) (simp_all add: lawful_add)
    then show ?thesis using Some None by (simp add: update_def Let_def ok_from_def m'_def)
  next
    case (Some i)
    then have i: "i < length (hd_objs h)" using assms by (simp add: hd_inv_def)
    show ?thesis
      using \<open>so = Some s\<close> Some ok_on_transition [OF assms i, where e = "hc_env c"]
      by (simp add: update_def Let_def lawful_sendVersionExists lawful_add)
  qed
qed

lemma stop_transition_ok:
  assumes "hd_inv h"
  shows "ok_from h (fst (stop_transition c n h)) \<and> js_get (hd_transitions (fst (stop_transition c n h))) n = None \<and>
    hd_subs (fst (stop_transition c n h)) = hd_subs h"
proof (cases "js_get (hd_transitions h) n")
  case None
  then show ?thesis using assms by (simp add: stop_transition_def ok_from_def)
next
  case (Some i)
  then have i: "i < length (hd_objs h)" and n: "t_name (hd_objs h ! i) = n" and live: "\<not> isDestroyed (hd_objs h ! i)"
    using assms by (auto simp: hd_inv_def)
  let ?r = "on_transition i (destroy (hc_env c) None) h"
  have d: "destroy (hc_env c) None (hd_objs h ! i) = ((hd_objs h ! i)\<lparr>isDestroyed := True\<rparr>, [TComplete n])"
    using live n by (simp add: destroy_def nonempty_def)
  have gone: "js_get (hd_transitions (fst ?r)) n = None" and subs: "hd_subs (fst ?r) = hd_subs h"
    by (simp_all add: on_transition_def d transitionComplete_def js_simps)
  have "ok_from h (fst ?r)" 
    by (rule ok_on_transition [OF assms i, where e = "hc_env c"]) (rule lawful_destroy)
  then show ?thesis using Some gone subs by (simp add: stop_transition_def split_beta js_delete_absent)
qed

lemma ok_remoteDelete: "hd_inv h \<Longrightarrow> ok_from h (fst (remoteDelete c m h))"
  using stop_transition_ok [of h c "name_of m"] ok_trans [OF _ ok_keeps [OF _ keeps_onDeleted]]
  by (simp add: remoteDelete_def Let_def split_beta)

lemma ok_delete: "hd_inv h \<Longrightarrow> ok_from h (fst (delete c s m h))"
  using stop_transition_ok [of h c "name_of m"] by (simp add: delete_def split_beta)

lemma ok_refl: "hd_inv h \<Longrightarrow> ok_from h h"
  by (simp add: ok_from_def)

lemma ok_notify: "hd_inv h \<Longrightarrow> ok_from h (fst (recordUpdatedWithoutDeepstream c m so h))"
  by (auto simp: recordUpdatedWithoutDeepstream_def ok_refl intro: ok_keeps keeps_notify_names split: option.split)

lemma ok_handle: "hd_inv h \<Longrightarrow> ok_from h (fst (handle c so m h))"
  by (simp add: handle_def handleClusterUpdate_def ok_refl ok_update ok_delete ok_remoteDelete ok_notify
      ok_keeps keeps_subs_ops split: option.split action.split record_action.split)

section \<open>Every input\<close>

text \<open>A continuation refers to a transition that exists.\<close>

fun perm_kont_ok :: "handler \<Rightarrow> perm_kont \<Rightarrow> bool" where
  "perm_kont_ok h (PkTransitionAdd i m) = (i < length (hd_objs h))"
| "perm_kont_ok h _ = True"

fun req_kont_ok :: "handler \<Rightarrow> req_kont \<Rightarrow> bool" where
  "req_kont_ok h (RkTransition i u) = (i < length (hd_objs h))"
| "req_kont_ok h _ = True"

fun write_kont_ok :: "handler \<Rightarrow> write_kont \<Rightarrow> bool" where
  "write_kont_ok h (WkTransition i cb) = (i < length (hd_objs h))"
| "write_kont_ok h _ = True"

fun h_enabled :: "handler \<Rightarrow> h_input \<Rightarrow> bool" where
  "h_enabled h (Permission s m original k error can) = perm_kont_ok h k"
| "h_enabled h (Loaded k so m name v data) = req_kont_ok h k"
| "h_enabled h (LoadFailed k so m name event) = req_kont_ok h k"
| "h_enabled h (CacheSetDone k name error) = write_kont_ok h k"
| "h_enabled h (StorageSetDone k error) = write_kont_ok h k"
| "h_enabled h _ = True"

fun h_history :: "hconfig \<Rightarrow> handler \<Rightarrow> h_input list \<Rightarrow> bool" where
  "h_history c h [] = True"
| "h_history c h (i # is) = (h_enabled h i \<and> h_history c (fst (h_step c h i)) is)"

definition stable_inv :: "handler \<Rightarrow> bool" where
  "stable_inv h \<longleftrightarrow> (\<forall>n. js_get (hd_stable h) n = None \<or> js_get (hd_stable h) n = Some [])"

definition h_inv :: "handler \<Rightarrow> bool" where
  "h_inv h \<longleftrightarrow> hd_inv h \<and> stable_inv h"

lemma h_inv_from: "h_inv h \<Longrightarrow> ok_from h h' \<Longrightarrow> h_inv h'"
  by (simp add: h_inv_def ok_from_def stable_inv_def)

lemma ok_permitted:
  "hd_inv h \<Longrightarrow> perm_kont_ok h k \<Longrightarrow> ok_from h (fst (onPermitted c s m original k h))"
  by (cases k)
     (simp_all add: ok_refl ok_update ok_on_transition [where e = "hc_env c"] lawful_add split_beta
        subscribe_for_read_def ok_keeps keeps_subs_ops forceWrite_def Let_def keeps_objs_def [of h "h\<lparr>hd_force := _\<rparr>"])

lemma ok_loaded:
  "hd_inv h \<Longrightarrow> req_kont_ok h k \<Longrightarrow> ok_from h (fst (onLoaded c k so m name v data h))"
proof (cases k)
  case (RkNotify j n)
  assume "hd_inv h"
  then have "ok_from h (fst (if v = -1 then remoteDelete c ((msg T_RECORD (RecordA RA_DELETED))\<lparr>m_name := Some name\<rparr>) h
         else (h, map HSub (sendToSubscribers name ((msg T_RECORD (RecordA RA_UPDATE))
                \<lparr>m_name := Some name, m_version := Some v, m_parsed := data\<rparr>) True None False (hd_subs h)))))"
    by (simp add: ok_remoteDelete ok_refl)
  from ok_trans [OF this ok_keeps [OF _ keeps_notify_completed]] RkNotify show ?thesis
    by (simp add: onNotifyLoaded_def Let_def split_beta)
qed (simp_all add: ok_refl ok_on_transition [where e = "hc_env c"] lawful_onRecord)

lemma ok_load_failed:
  "hd_inv h \<Longrightarrow> req_kont_ok h k \<Longrightarrow> ok_from h (fst (onLoadFailed c k so m name event h))"
  by (cases k)
     (simp_all add: ok_refl ok_on_transition [where e = "hc_env c"] onCacheRequestError_def lawful_destroy
        onNotifyFailed_def split_beta Let_def ok_keeps keeps_notify_completed)

lemma ok_cache_set:
  "hd_inv h \<Longrightarrow> write_kont_ok h k \<Longrightarrow> ok_from h (fst (onCacheSet c k name error h))"
  by (cases k)
     (simp_all add: ok_refl ok_on_transition [where e = "hc_env c"] lawful_onCacheSetResponse
        onForceCache_def Let_def ok_keeps keeps_objs_def [of h "h\<lparr>hd_force := _\<rparr>"])

lemma ok_storage_set:
  "hd_inv h \<Longrightarrow> write_kont_ok h k \<Longrightarrow> ok_from h (fst (onStorageSet c k error h))"
  by (cases k)
     (simp_all add: ok_refl ok_on_transition [where e = "hc_env c"] lawful_onStorageSetResponse
        onForceStorage_def Let_def ok_keeps keeps_objs_def [of h "h\<lparr>hd_force := _\<rparr>"])

lemma hd_inv_stable [simp]: "hd_inv (h\<lparr>hd_stable := x\<rparr>) = hd_inv h"
  by (simp add: hd_inv_def)

lemma run_stable_now:
  assumes "stable_inv h"
  shows "runWhenRecordStable n cb h = (h\<lparr>hd_stable := js_set n [] (hd_stable h)\<rparr>, [HCallback cb])"
proof (cases "js_get (hd_stable h) n")
  case (Some cbs)
  then have "cbs = []" using assms unfolding stable_inv_def by (metis option.distinct(1) option.inject)
  then show ?thesis using Some by (simp add: runWhenRecordStable_def)
qed (simp add: runWhenRecordStable_def)

lemma remove_stable:
  assumes "stable_inv h"
  shows "fst (removeRecordRequest n h) = h \<or>
    fst (removeRecordRequest n h) = h\<lparr>hd_stable := js_delete n (hd_stable h)\<rparr>"
proof (cases "js_get (hd_stable h) n")
  case (Some cbs)
  then have "cbs = []" using assms unfolding stable_inv_def by (metis option.distinct(1) option.inject)
  then show ?thesis using Some by (simp add: removeRecordRequest_def)
qed (simp add: removeRecordRequest_def)

lemma stable_inv_change:
  "stable_inv h \<Longrightarrow> stable_inv (h\<lparr>hd_stable := js_set n [] (hd_stable h)\<rparr>)"
  "stable_inv h \<Longrightarrow> stable_inv (h\<lparr>hd_stable := js_delete n (hd_stable h)\<rparr>)"
  by (simp_all add: stable_inv_def js_simps)

lemma h_step_inv:
  assumes inv: "h_inv h" and en: "h_enabled h i"
  shows "h_inv (fst (h_step c h i))"
proof (cases "\<exists>n cb. i = RunStable n cb \<or> i = RequestRemoved n")
  case True
  then obtain n where "(\<exists>cb. i = RunStable n cb) \<or> i = RequestRemoved n" by blast
  then show ?thesis using inv remove_stable [of h n] stable_inv_change [of h n]
    by (auto simp: h_inv_def run_stable_now)
next
  case False
  have hd: "hd_inv h" using inv by (simp add: h_inv_def)
  have "ok_from h (fst (h_step c h i))"
    using False hd en
    by (cases i)
       (simp_all add: ok_handle ok_permitted ok_loaded ok_load_failed ok_cache_set ok_storage_set ok_refl
          onPermissionResponse_def onHeadBulk_def onBulkDeleted_def split_beta Let_def
          ok_keeps keeps_subs_ops keeps_notify_names keeps_onDeleted)
  then show ?thesis using h_inv_from [OF inv] by simp
qed

lemma h_run_inv: "h_inv h \<Longrightarrow> h_history c h is \<Longrightarrow> h_inv (fst (run (h_step c) h is))"
proof (induction "is" arbitrary: h)
  case (Cons i "is")
  then show ?case using h_step_inv [of h i c] by (simp add: Let_def split_beta)
qed simp

lemma new_handler_inv: "h_inv new_handler"
  by (simp add: h_inv_def hd_inv_def stable_inv_def new_handler_def setSubscriptionListener_ok
      new_registry_ok(1) setSubscriptionListener_ok [unfolded step_ok_def, simplified, THEN conjunct1])

lemma unsubscribe_all_rel:
  "sub_inv (hd_subs h) \<Longrightarrow>
   rel (hd_subs (fst (unsubscribe_all n m ss h))) = rel (hd_subs h) - {n} \<times> set ss"
proof (induction ss arbitrary: h)
  case (Cons s ss)
  obtain r es where u: "unsubscribe n m s True (hd_subs h) = (r, es)" by fastforce
  have r: "sub_inv r" "rel r = rel (hd_subs h) - {(n, s)}"
    using unsubscribe_ok [OF Cons.prems, of n m s True] u by (simp_all add: step_ok_def)
  have "rel (hd_subs (fst (unsubscribe_all n m ss (h\<lparr>hd_subs := r\<rparr>)))) = rel r - {n} \<times> set ss"
    using Cons.IH [of "h\<lparr>hd_subs := r\<rparr>"] r(1) by simp
  then show ?case using r(2) by (auto simp: u on_subs_def Let_def split_beta)
qed simp

lemma onDeleted_rel:
  "sub_inv (hd_subs h) \<Longrightarrow> rel (hd_subs (fst (onDeleted n m so h))) = rel (hd_subs h) - {n} \<times> UNIV"
  using unsubscribe_all_rel [of h n m "getLocalSubscribers (hd_subs h) n"]
  by (auto simp: onDeleted_def Let_def split_beta rel_def)

section \<open>Properties\<close>

text \<open>C17: Whatever messages, permissions, loads, store answers and deletions arrive, in any order, the
  handler's map holds exactly the live transitions: what it has under a name is a transition of that name that is
  not destroyed, and each such transition is there. So a record has at most one at a time, and all concurrent writes
  to it meet in one queue.\<close>

theorem one_live_transition_per_record:
  assumes "h_history c new_handler is" "h = fst (run (h_step c) new_handler is)"
  shows "(js_get (hd_transitions h) n = Some i \<longleftrightarrow>
       i < length (hd_objs h) \<and> \<not> isDestroyed (hd_objs h ! i) \<and> t_name (hd_objs h ! i) = n) \<and>
     (\<forall>j k. j < length (hd_objs h) \<and> \<not> isDestroyed (hd_objs h ! j) \<and> k < length (hd_objs h) \<and>
        \<not> isDestroyed (hd_objs h ! k) \<and> t_name (hd_objs h ! j) = t_name (hd_objs h ! k) \<longrightarrow> j = k)"
proof -
  have "hd_inv h" using h_run_inv [OF new_handler_inv assms(1)] assms(2) by (simp add: h_inv_def)
  then have iff: "js_get (hd_transitions h) n = Some i \<longleftrightarrow>
      i < length (hd_objs h) \<and> \<not> isDestroyed (hd_objs h ! i) \<and> t_name (hd_objs h ! i) = n" for n i
    unfolding hd_inv_def by blast
  have "j = k" if "j < length (hd_objs h) \<and> \<not> isDestroyed (hd_objs h ! j) \<and> k < length (hd_objs h) \<and>
      \<not> isDestroyed (hd_objs h ! k) \<and> t_name (hd_objs h ! j) = t_name (hd_objs h ! k)" for j k
    using iff [of "t_name (hd_objs h ! j)" j] iff [of "t_name (hd_objs h ! k)" k] that by simp
  then show ?thesis using iff by blast
qed

definition plain_config :: hconfig where
  "plain_config = \<lparr>hc_env = plain_env, hc_hot = [], hc_deleteBulk = True\<rparr>"

definition two_writes :: "h_input list" where
  "two_writes = [Handle (Some 1) (update_to 4 (JObj [])), Handle (Some 2) (update_to 5 (JObj []))]"

theorem one_live_transition_per_record_witness:
  "js_get (hd_transitions (fst (run (h_step plain_config) new_handler two_writes))) ''r'' = Some 0"
proof -
  have h: "h_history plain_config new_handler two_writes" by code_simp
  have l: "0 < length (hd_objs (fst (run (h_step plain_config) new_handler two_writes)))"
    "\<not> isDestroyed (hd_objs (fst (run (h_step plain_config) new_handler two_writes)) ! 0)"
    "t_name (hd_objs (fst (run (h_step plain_config) new_handler two_writes)) ! 0) = ''r''"
    by code_simp+
  show ?thesis using one_live_transition_per_record [OF h refl, of "''r''" 0] l by simp
qed

text \<open>Deleting a record stops its transition, and once the stores have confirmed the deletion, or
  another node announces one, nobody subscribes to the record any more and every other
  subscription is kept.\<close>

theorem delete_ends_record:
  assumes "h_history c new_handler is"
  shows "js_get (hd_transitions (fst (delete c s m (fst (run (h_step c) new_handler is))))) (name_of m) = None \<and>
    rel (hd_subs (fst (h_step c (fst (run (h_step c) new_handler is)) (DeletionDone n m s)))) =
      rel (hd_subs (fst (run (h_step c) new_handler is))) - {n} \<times> UNIV \<and>
    rel (hd_subs (fst (remoteDelete c m (fst (run (h_step c) new_handler is))))) =
      rel (hd_subs (fst (run (h_step c) new_handler is))) - {name_of m} \<times> UNIV \<and>
    js_get (hd_transitions (fst (remoteDelete c m (fst (run (h_step c) new_handler is))))) (name_of m) = None"
proof -
  define h where "h = fst (run (h_step c) new_handler is)"
  have inv: "hd_inv h" using h_run_inv [OF new_handler_inv assms(1)] by (simp add: h_inv_def h_def)
  then have sub: "sub_inv (hd_subs h)" by (simp add: hd_inv_def)
  define h1 where "h1 = fst (stop_transition c (name_of m) h)"
  have st: "js_get (hd_transitions h1) (name_of m) = None" "hd_subs h1 = hd_subs h"
    using stop_transition_ok [OF inv] by (simp_all add: h1_def)
  have "fst (delete c s m h) = h1" and r: "fst (remoteDelete c m h) = fst (onDeleted (name_of m) m None h1)"
    by (simp_all add: delete_def remoteDelete_def h1_def Let_def split_beta)
  moreover have "hd_transitions (fst (onDeleted (name_of m) m None h1)) = hd_transitions h1"
    using keeps_onDeleted [of h1] by (simp add: keeps_objs_def)
  ultimately show ?thesis
    using st onDeleted_rel [OF sub, of n m "Some s"] onDeleted_rel [of h1 "name_of m" m None] sub
    by (simp flip: h_def)
qed

theorem delete_ends_record_witness:
  "js_get (hd_transitions (fst (delete plain_config 1 ((msg T_RECORD (RecordA RA_DELETE))\<lparr>m_name := Some ''r''\<rparr>)
     (fst (run (h_step plain_config) new_handler two_writes))))) ''r'' = None"
proof -
  have h: "h_history plain_config new_handler two_writes" by code_simp
  show ?thesis
    using delete_ends_record [OF h, of 1 "(msg T_RECORD (RecordA RA_DELETE))\<lparr>m_name := Some ''r''\<rparr>" "''r''"] by simp
qed

text \<open>Waiting for a stable record never waits: the list of waiting callbacks of a record is empty
  at every moment, so the branch that queues a callback is dead and each callback runs at once,
  although the method is documented to block reads until the writes have occurred.\<close>

theorem runWhenRecordStable_never_waits:
  assumes "h_history c new_handler is"
  shows "snd (h_step c (fst (run (h_step c) new_handler is)) (RunStable n callback)) = [HCallback callback]"
  using h_run_inv [OF new_handler_inv assms] by (simp add: h_inv_def run_stable_now)

theorem runWhenRecordStable_never_waits_witness:
  "snd (h_step plain_config (fst (run (h_step plain_config) new_handler
     [RunStable ''r'' ''first'', RunStable ''r'' ''second''])) (RunStable ''r'' ''third'')) = [HCallback ''third'']"
  by (rule runWhenRecordStable_never_waits) simp

lemma enqueue_dead:
  "isDestroyed t \<Longrightarrow> recordRequestMade t \<Longrightarrow> snd (enqueue e st u t) = []"
  by (cases "version_of (step_message st) = -1") (simp_all add: enqueue_def next_step.simps Let_def)

text \<open>A create-and-update whose permission is granted after its record's transition has ended is
  dropped in silence: no write, no answer to the client, no new transition.\<close>

theorem late_upsert_dropped:
  assumes "i < length (hd_objs h)" "isDestroyed (hd_objs h ! i)" "recordRequestMade (hd_objs h ! i)"
    and "e_parse (hc_env c) s m = Some m'" "m_action m' = RecordA RA_PATCH"
    and "lastVersion (hd_objs h ! i) = Some (version_of m' - 1)"
  shows "snd (h_step c h (Permission s m0 original (PkTransitionAdd i m) None True)) = [] \<and>
    hd_transitions (fst (h_step c h (Permission s m0 original (PkTransitionAdd i m) None True))) = hd_transitions h"
proof -
  have "add (hc_env c) s m False (hd_objs h ! i) =
      enqueue (hc_env c) \<lparr>step_message = m', step_sender = s\<rparr> False (hd_objs h ! i)"
    using assms(4-6) by (simp add: add_def Let_def)
  then obtain t where "add (hc_env c) s m False (hd_objs h ! i) = (t, [])"
    using enqueue_dead [OF assms(2,3)] by (metis prod.collapse)
  then show ?thesis by (simp add: onPermissionResponse_def nonempty_def on_transition_def)
qed

definition ended :: "h_input list" where
  "ended = [Handle (Some 1) (patch_to 4), Loaded (RkTransition 0 False) None (msg T_RECORD UndefinedA) ''r'' 3 (Some (JObj [])),
     Handle (Some 2) ((patch_to 5)\<lparr>m_action := RecordA RA_CREATEANDPATCH\<rparr>),
     CacheSetDone (WkTransition 0 PlainCb) ''r'' None]"

theorem late_upsert_dropped_witness:
  "snd (run (h_step plain_config) (fst (run (h_step plain_config) new_handler ended))
     [Permission 2 (patch_to 5) None (PkTransitionAdd 0 (patch_to 5)) None True]) = []"
proof -
  have pre: "0 < length (hd_objs (fst (run (h_step plain_config) new_handler ended)))"
    "isDestroyed (hd_objs (fst (run (h_step plain_config) new_handler ended)) ! 0)"
    "recordRequestMade (hd_objs (fst (run (h_step plain_config) new_handler ended)) ! 0)"
    "e_parse (hc_env plain_config) 2 (patch_to 5) = Some (patch_to 5)"
    "m_action (patch_to 5) = RecordA RA_PATCH"
    "lastVersion (hd_objs (fst (run (h_step plain_config) new_handler ended)) ! 0) = Some (version_of (patch_to 5) - 1)"
    by code_simp+
  show ?thesis using late_upsert_dropped [OF pre, of "patch_to 5" None] by (simp add: split_beta)
qed

text \<open>A subscriber is told a stale version: when the record changes between the first load and the
  permission check, the answer carries the new data under the old version number, so the client's
  next write is refused.\<close>

theorem read_response_stale_version:
  assumes "truthy d0" "truthy d1"
  shows "(let (h1, e1) = onLoaded c RkSubscribeAndRead (Some s) m n v0 d0 h;
            (h2, e2) = onPermissionResponse c s m (Some (m_action m)) (PkReadAndSubscribe m v0) None True h1;
            (h3, e3) = onLoaded c (RkLatest m v0) (Some s) m n v1 d1 h2
        in e1 = [HPermission s (m\<lparr>m_action := RecordA RA_READ\<rparr>) (Some (m_action m)) (PkReadAndSubscribe m v0)] \<and>
           HRequest (name_of m) (Some s) (RkLatest m v0) m True \<in> set e2 \<and>
           e3 = sendRecord (name_of m) v0 d1 s)"
  using assms
  by (simp add: onSubscribeAndRead_def readAndSubscribe_def permissionAction_def onPermissionResponse_def
      nonempty_def split_beta)

theorem read_response_stale_version_witness:
  "snd (onLoaded plain_config (RkLatest (patch_to 0) 3) (Some 1) (patch_to 0) ''r'' 4 (Some (JObj []))
      (fst (onPermissionResponse plain_config 1 (patch_to 0) (Some (m_action (patch_to 0)))
        (PkReadAndSubscribe (patch_to 0) 3) None True new_handler))) =
   sendRecord ''r'' 3 (Some (JObj [])) 1"
  using read_response_stale_version [of "Some (JObj [])" "Some (JObj [])" plain_config 1 "patch_to 0" "''r''" 3 new_handler 4]
  by (simp add: split_beta patch_to_def update_to_def)

text \<open>A hot path write that asked for an acknowledgement gets a positive one even if both stores
  failed: the error is collected and never used.\<close>

theorem force_write_acks_failure:
  assumes "nonempty serr" "nonempty cerr" "e_parse (hc_env c) s m = Some m'" "m_writeack m'"
  shows "(let (h1, e1) = forceWrite c n m s h;
            (h2, e2) = onStorageSet c (WkForce (length (hd_force h))) serr h1;
            (h3, e3) = onCacheSet c (WkForce (length (hd_force h))) n cerr h2
        in e2 @ e3 = [HSend s ((msg T_RECORD (RecordA RA_WRITE_ACKNOWLEDGEMENT))
              \<lparr>m_name := m_name m', m_corr := m_corr m'\<rparr>)])"
  using assms
  by (simp add: forceWrite_def onForceStorage_def onForceCache_def handleForceWriteAcknowledgement_def Let_def)

theorem force_write_acks_failure_witness:
  "snd (onCacheSet plain_config (WkForce 0) ''r'' (Some ''down'')
      (fst (onStorageSet plain_config (WkForce 0) (Some ''down'')
        (fst (forceWrite plain_config ''r'' (acked (patch_to 4) ''c'') 1 new_handler))))) \<noteq> []"
  using force_write_acks_failure [of "Some ''down''" "Some ''down''" plain_config 1 "acked (patch_to 4) ''c''"
      "acked (patch_to 4) ''c''" "''r''" new_handler]
  by (simp add: nonempty_def plain_config_def plain_env_def acked_def split_beta new_handler_def forceWrite_def
      onForceStorage_def handleForceWriteAcknowledgement_def onForceCache_def Let_def)

end
