(* ===== verification/Processor.thy ===== *)
theory Processor
  imports Messages
begin

text \<open>
  The gate every client message passes (\<open>src/utils/message-processor.ts\<close>): each message, and each
  name of a bulk message, is submitted to the permission service; what is permitted goes on to the
  distributor (\<open>src/utils/message-distributor.ts\<close>). The permission service may answer in any order,
  so its answers are inputs; \<open>process_now\<close> is the same loop with a service that answers within the
  call, as the Valve service does when a rule needs no record. The array \<open>names\<close> of a bulk message
  is shared by all its copies and is changed in place, so the processor's state holds it.
\<close>

section \<open>State\<close>

record bulk_result =
  br_total :: nat
  br_completed :: nat
  br_message :: message
  br_names :: "string list"

type_synonym processor = "(nat, bulk_result) jsmap"

text \<open>What the callback is given back (\<open>passItOn\<close>): nothing, or the bulk's id.\<close>

datatype pass_on = Single | Bulk nat

datatype p_effect =
    PSend socket message
  | PPermission socket message pass_on
  | PForward socket message
  | PThrows

text \<open>The actions of the topic's enum; the enums that do not have them give \<open>undefined\<close>.\<close>

fun permission_error_action :: "topic \<Rightarrow> action" where
  "permission_error_action T_RECORD = RecordA RA_MESSAGE_PERMISSION_ERROR"
| "permission_error_action T_EVENT = EventA EA_MESSAGE_PERMISSION_ERROR"
| "permission_error_action T_RPC = RpcA PA_MESSAGE_PERMISSION_ERROR"
| "permission_error_action T_PRESENCE = PresenceA UA_MESSAGE_PERMISSION_ERROR"
| "permission_error_action _ = UndefinedA"

fun denied_action :: "topic \<Rightarrow> action" where
  "denied_action T_RECORD = RecordA RA_MESSAGE_DENIED"
| "denied_action T_EVENT = EventA EA_MESSAGE_DENIED"
| "denied_action T_RPC = RpcA PA_MESSAGE_DENIED"
| "denied_action T_PRESENCE = PresenceA UA_MESSAGE_DENIED"
| "denied_action _ = UndefinedA"

section \<open>Operations\<close>

text \<open>
  A verdict: the error, \<open>None\<close> being \<open>null\<close>, and the result, any value. Only an error or the value \<open>false\<close>
  refuses; what a permission service makes of its rules is forwarded when it is \<open>null\<close>, \<open>undefined\<close> or 0.
\<close>

definition refuses :: "'e option \<Rightarrow> json option \<Rightarrow> bool" where
  "refuses error result \<longleftrightarrow> error \<noteq> None \<or> result = Some (JBool False)"

text \<open>The answer to a refused message; \<open>None\<close> is the \<open>null\<close> error.\<close>

definition refusal :: "message \<Rightarrow> action \<Rightarrow> message" where
  "refusal m a = (msg (m_topic m) a)\<lparr>m_original := Some (m_action m), m_name := m_name m,
     m_isError := True, m_corr := (if nonempty (m_corr m) then m_corr m else None),
     m_writeack := m_writeack m\<rparr>"

definition processInvalidResponse :: "socket \<Rightarrow> message \<Rightarrow> 'e option \<Rightarrow> json option \<Rightarrow> p_effect list" where
  "processInvalidResponse s m error result =
     (if error \<noteq> None then [PSend s (refusal m (permission_error_action (m_topic m)))]
      else if result \<noteq> Some (JBool True) then [PSend s (refusal m (denied_action (m_topic m)))]
      else [])"

definition onPermissionResponse :: "socket \<Rightarrow> message \<Rightarrow> 'e option \<Rightarrow> json option \<Rightarrow> p_effect list" where
  "onPermissionResponse s m error result =
     (if refuses error result then processInvalidResponse s m error result
      else [PForward s m])"

text \<open>\<open>names.splice(names.indexOf(originalMessage.name), 1)\<close>.\<close>

definition splice_name :: "string option \<Rightarrow> string list \<Rightarrow> string list" where
  "splice_name name names = js_splice1 (js_indexOf (map Some names) name) names"

text \<open>
  An answer to a name of a bulk. An answer that comes when the bulk is no longer kept still has its refusal
  sent, before reading \<open>total\<close> of the missing entry throws a \<open>TypeError\<close>; the array such an answer shortens is
  that of a message that has already been decided.
\<close>

definition onBulkPermissionResponse ::
  "nat \<Rightarrow> socket \<Rightarrow> message \<Rightarrow> 'e option \<Rightarrow> json option \<Rightarrow> processor \<Rightarrow> processor \<times> p_effect list" where
  "onBulkPermissionResponse uuid s m error result p =
     (case js_get p uuid of
        None \<Rightarrow> (p, (if refuses error result then processInvalidResponse s m error result else []) @ [PThrows])
      | Some b \<Rightarrow>
          (let refused = refuses error result;
               b1 = (if refused then b\<lparr>br_names := splice_name (m_name (br_message b)) (br_names b)\<rparr> else b);
               es = (if refused then processInvalidResponse s m error result else [])
           in if br_total b1 \<noteq> br_completed b1 + 1
              then (js_set uuid (b1\<lparr>br_completed := br_completed b1 + 1\<rparr>) p, es)
              else (js_delete uuid p, es @
                    (if br_names b1 \<noteq> []
                     then [PForward s ((br_message b1)\<lparr>m_names := Some (br_names b1)\<rparr>)] else []))))"

definition new_bulk :: "message \<Rightarrow> bulk_result" where
  "new_bulk m = \<lparr>br_total = length (the (m_names m)), br_completed = 0, br_message = m,
     br_names = the (m_names m)\<rparr>"

text \<open>One message of the block; \<open>uuid\<close> is the fresh id \<open>getUid\<close> returned.\<close>

definition process_one :: "nat \<Rightarrow> socket \<Rightarrow> message \<Rightarrow> processor \<Rightarrow> processor \<times> p_effect list" where
  "process_one uuid s m p =
     (if m_topic m = T_CONNECTION \<and> m_action m = ConnectionA CA_PING
      then (p, [PSend s (msg T_CONNECTION (ConnectionA CA_PONG))])
      else if m_names m \<noteq> None \<and> m_names m \<noteq> Some []
      then (js_set uuid (new_bulk m) p,
            map (\<lambda>n. PPermission s (m\<lparr>m_name := Some n\<rparr>) (Bulk uuid)) (the (m_names m)))
      else (p, [PPermission s m Single]))"

fun process :: "(nat \<Rightarrow> nat) \<Rightarrow> nat \<Rightarrow> socket \<Rightarrow> message list \<Rightarrow> processor \<Rightarrow> processor \<times> p_effect list" where
  "process getUid i s [] p = (p, [])"
| "process getUid i s (m # ms) p =
     (let (p1, e1) = process_one (getUid i) s m p; (p2, e2) = process getUid (Suc i) s ms p1
      in (p2, e1 @ e2))"

text \<open>The answer of the permission service, dispatched on the callback.\<close>

fun answer :: "socket \<Rightarrow> message \<Rightarrow> pass_on \<Rightarrow> 'e option \<Rightarrow> json option \<Rightarrow> processor \<Rightarrow> processor \<times> p_effect list" where
  "answer s m Single error result p = (p, onPermissionResponse s m error result)"
| "answer s m (Bulk uuid) error result p = onBulkPermissionResponse uuid s m error result p"

text \<open>
  The bulk loop with a service that answers within the call: \<open>names[j]\<close> is read from the array the
  earlier answers have already shortened.
\<close>

fun bulk_now :: "(message \<Rightarrow> 'e option \<times> json option) \<Rightarrow> nat \<Rightarrow> nat \<Rightarrow> socket \<Rightarrow> message \<Rightarrow> nat \<Rightarrow> processor \<Rightarrow>
    processor \<times> p_effect list" where
  "bulk_now perm uuid l s m 0 p = (p, [])"
| "bulk_now perm uuid l s m (Suc k) p =
     (let j = l - Suc k;
          names = (case js_get p uuid of Some b \<Rightarrow> br_names b | None \<Rightarrow> []);
          c = m\<lparr>m_name := (if j < length names then Some (names ! j) else None), m_names := Some names\<rparr>;
          (error, result) = perm c;
          (p1, e1) = onBulkPermissionResponse uuid s c error result p;
          (p2, e2) = bulk_now perm uuid l s m k p1
      in (p2, e1 @ e2))"

definition process_now :: "(message \<Rightarrow> 'e option \<times> json option) \<Rightarrow> nat \<Rightarrow> socket \<Rightarrow> message \<Rightarrow> processor \<Rightarrow>
    processor \<times> p_effect list" where
  "process_now perm uuid s m p =
     (let l = length (the (m_names m)) in bulk_now perm uuid l s m l (js_set uuid (new_bulk m) p))"

section \<open>The distributor\<close>

text \<open>Handlers are identified by a number.\<close>

type_synonym distributor = "(topic, nat) jsmap"

datatype distributor_effect = CallHandler nat "socket option" message | DSendUnknown socket message topic

definition distribute :: "distributor \<Rightarrow> socket \<Rightarrow> message \<Rightarrow> distributor_effect list" where
  "distribute callbacks s m =
     (case js_get callbacks (m_topic m) of
        None \<Rightarrow> [DSendUnknown s (msg T_PARSER (ParserA XA_UNKNOWN_TOPIC)) (m_topic m)]
      | Some h \<Rightarrow> [CallHandler h (Some s) m])"

definition registerForTopic :: "topic \<Rightarrow> nat \<Rightarrow> distributor \<Rightarrow> distributor option" where
  "registerForTopic t h callbacks = (if js_has callbacks t then None else Some (js_set t h callbacks))"

definition onMessageConnectorMessage :: "nat \<Rightarrow> message \<Rightarrow> distributor_effect list" where
  "onMessageConnectorMessage h m = [CallHandler h None m]"

section \<open>Answers to one bulk\<close>

text \<open>The answers to the names of a bulk, in the order they come.\<close>

fun bulk_answers :: "nat \<Rightarrow> socket \<Rightarrow> (message \<times> 'e option \<times> json option) list \<Rightarrow> processor \<Rightarrow>
    processor \<times> p_effect list" where
  "bulk_answers uuid s [] p = (p, [])"
| "bulk_answers uuid s ((m, error, result) # as) p =
     (let (p1, e1) = onBulkPermissionResponse uuid s m error result p; (p2, e2) = bulk_answers uuid s as p1
      in (p2, e1 @ e2))"

definition granted :: "message \<times> 'e option \<times> json option \<Rightarrow> bool" where
  "granted a \<longleftrightarrow> (case a of (m, error, result) \<Rightarrow> \<not> refuses error result)"

fun forwards :: "p_effect list \<Rightarrow> message list" where
  "forwards [] = []"
| "forwards (PForward s m # es) = m # forwards es"
| "forwards (e # es) = forwards es"

fun refusals :: "p_effect list \<Rightarrow> nat" where
  "refusals [] = 0"
| "refusals (PSend s m # es) = Suc (refusals es)"
| "refusals (e # es) = refusals es"

lemma forwards_append [simp]: "forwards (es @ fs) = forwards es @ forwards fs"
  by (induction es rule: forwards.induct) auto

lemma refusals_append [simp]: "refusals (es @ fs) = refusals es + refusals fs"
  by (induction es rule: refusals.induct) auto

lemma processInvalidResponse_refuses:
  "refuses error result \<Longrightarrow>
   forwards (processInvalidResponse s m error result) = [] \<and> refusals (processInvalidResponse s m error result) = 1"
  by (auto simp: processInvalidResponse_def refuses_def)

text \<open>A bulk message carries no \<open>name\<close> of its own: the array loses its last element.\<close>

lemma splice_name_absent: "name \<notin> Some ` set names \<Longrightarrow> splice_name name names = butlast names"
proof -
  assume "name \<notin> Some ` set names"
  then have "js_indexOf (map Some names) name = -1" by (simp add: js_indexOf_none)
  then show ?thesis by (simp add: splice_name_def js_splice1_minus1)
qed

lemma bulk_answers_absent:
  assumes "js_get p uuid = Some b" "m_name (br_message b) \<notin> Some ` set (br_names b)"
    and "length as + br_completed b = br_total b" "as \<noteq> []"
    and "length (br_names b) = length as + n"
  shows "forwards (snd (bulk_answers uuid s as p)) =
     (if n + length (filter granted as) = 0 then []
      else [(br_message b)\<lparr>m_names := Some (take (n + length (filter granted as)) (br_names b))\<rparr>]) \<and>
    refusals (snd (bulk_answers uuid s as p)) = length (filter (\<lambda>a. \<not> granted a) as) \<and>
    js_get (fst (bulk_answers uuid s as p)) uuid = None"
  using assms
proof (induction as arbitrary: p b n)
  case (Cons a as)
  obtain m error result where a: "a = (m, error, result)" by (cases a)
  let ?refused = "\<not> granted a"
  have refused: "?refused \<longleftrightarrow> refuses error result" by (auto simp: granted_def a)
  define b1 where "b1 = (if ?refused then b\<lparr>br_names := butlast (br_names b)\<rparr> else b)"
  have b1: "br_message b1 = br_message b" "br_total b1 = br_total b" "br_completed b1 = br_completed b"
    "m_name (br_message b1) \<notin> Some ` set (br_names b1)"
    using Cons.prems(2) by (auto simp: b1_def dest: in_set_butlastD)
  have names: "br_names b1 = take (length as + (n + (if granted a then 1 else 0))) (br_names b)"
    using Cons.prems(5) by (simp add: b1_def butlast_conv_take)
  have op: "onBulkPermissionResponse uuid s m error result p =
      (if br_total b \<noteq> br_completed b + 1
       then (js_set uuid (b1\<lparr>br_completed := br_completed b + 1\<rparr>) p,
             if ?refused then processInvalidResponse s m error result else [])
       else (js_delete uuid p, (if ?refused then processInvalidResponse s m error result else []) @
             (if br_names b1 \<noteq> [] then [PForward s ((br_message b)\<lparr>m_names := Some (br_names b1)\<rparr>)] else [])))"
    using Cons.prems(1,2) refused
    by (simp add: onBulkPermissionResponse_def Let_def b1_def splice_name_absent)
  have es: "forwards (if ?refused then processInvalidResponse s m error result else []) = []"
    "refusals (if ?refused then processInvalidResponse s m error result else []) = (if ?refused then 1 else 0)"
    using processInvalidResponse_refuses refused by auto
  show ?case
  proof (cases "as = []")
    case True
    then have "br_total b = br_completed b + 1" using Cons.prems(3) by simp
    then show ?thesis
      using True op es names Cons.prems(5) by (auto simp: a Let_def split_beta js_simps)
  next
    case False
    let ?b2 = "b1\<lparr>br_completed := br_completed b + 1\<rparr>"
    let ?p1 = "js_set uuid ?b2 p" and ?n1 = "n + (if granted a then 1 else 0)"
    have ne: "br_total b \<noteq> br_completed b + 1" using False Cons.prems(3) by (cases as) auto
    have "length (br_names b1) = length as + ?n1"
      using names Cons.prems(5) by simp
    then have IH: "forwards (snd (bulk_answers uuid s as ?p1)) =
        (if ?n1 + length (filter granted as) = 0 then []
         else [(br_message b)\<lparr>m_names := Some (take (?n1 + length (filter granted as)) (br_names b1))\<rparr>]) \<and>
      refusals (snd (bulk_answers uuid s as ?p1)) = length (filter (\<lambda>a. \<not> granted a) as) \<and>
      js_get (fst (bulk_answers uuid s as ?p1)) uuid = None"
      using Cons.IH [of ?p1 ?b2 ?n1] b1 Cons.prems(3) False by (simp add: js_simps)
    have "take (?n1 + length (filter granted as)) (br_names b1) =
        take (n + length (filter granted (a # as))) (br_names b)"
      using names length_filter_le [of granted as] by (simp add: min_def)
    then show ?thesis using IH op es ne by (simp add: a Let_def split_beta)
  qed
qed simp

section \<open>Properties\<close>

text \<open>A message without names is forwarded exactly when the permission service grants it without an
  error, unchanged; otherwise its sender gets exactly one refusal and nothing is forwarded.\<close>

theorem single_message_gate:
  "forwards (snd (answer s m Single error result p)) = (if refuses error result then [] else [m]) \<and>
   refusals (snd (answer s m Single error result p)) = (if refuses error result then 1 else 0)"
  using processInvalidResponse_refuses by (auto simp: onPermissionResponse_def)

text \<open>C37: a bulk message is decided once, after the answers to all its names, in whatever order they
  come: it is forwarded once, with as many names as were granted, each refused name is reported
  to the sender, and the bulk is forgotten.\<close>

theorem bulk_decided_once:
  assumes "m_names m = Some names" "names \<noteq> []" "m_name m = None" "length as = length names"
  shows "length (forwards (snd (bulk_answers uuid s as (js_set uuid (new_bulk m) p)))) =
      (if filter granted as = [] then 0 else 1) \<and>
    (\<forall>f \<in> set (forwards (snd (bulk_answers uuid s as (js_set uuid (new_bulk m) p)))).
       length (the (m_names f)) = length (filter granted as)) \<and>
    refusals (snd (bulk_answers uuid s as (js_set uuid (new_bulk m) p))) = length (filter (\<lambda>a. \<not> granted a) as) \<and>
    js_get (fst (bulk_answers uuid s as (js_set uuid (new_bulk m) p))) uuid = None"
proof -
  have "as \<noteq> []" using assms by auto
  then show ?thesis
    using assms bulk_answers_absent [of "js_set uuid (new_bulk m) p" uuid "new_bulk m" as 0 s] length_filter_le [of granted as]
    by (auto simp: js_simps new_bulk_def)
qed

definition bulk_read :: message where
  "bulk_read = (msg T_RECORD (RecordA RA_SUBSCRIBE))\<lparr>m_names := Some [''secret'', ''public'']\<rparr>"

theorem bulk_decided_once_witness:
  "length (forwards (snd (bulk_answers 0 1 [(bulk_read, None :: string option, Some (JBool True)), (bulk_read, None :: string option, Some (JBool True))]
     (js_set 0 (new_bulk bulk_read) [])))) = 1"
  using bulk_decided_once [of bulk_read "[''secret'', ''public'']" "[(bulk_read, None :: string option, Some (JBool True)), (bulk_read, None :: string option, Some (JBool True))]" 0 1 "[]"]
  by (simp add: bulk_read_def granted_def refuses_def msg_def)

text \<open>Which names of a bulk message are forwarded does not depend on which were refused: the message
  goes on with the first of its names, one dropped from the end for each refusal. Refusing the
  first of two names forwards exactly the refused one.\<close>

theorem bulk_refusal_drops_last_name:
  assumes "m_names m = Some names" "names \<noteq> []" "m_name m = None" "length as = length names"
    and "filter granted as \<noteq> []"
  shows "forwards (snd (bulk_answers uuid s as (js_set uuid (new_bulk m) p))) =
     [m\<lparr>m_names := Some (take (length (filter granted as)) names)\<rparr>]"
proof -
  have "as \<noteq> []" using assms by auto
  then show ?thesis
    using assms bulk_answers_absent [of "js_set uuid (new_bulk m) p" uuid "new_bulk m" as 0 s]
    by (auto simp: js_simps new_bulk_def)
qed

theorem bulk_refusal_drops_last_name_witness:
  "forwards (snd (bulk_answers 0 1
     [(bulk_read\<lparr>m_name := Some ''secret''\<rparr>, None :: string option, Some (JBool False)), (bulk_read\<lparr>m_name := Some ''public''\<rparr>, None :: string option, Some (JBool True))]
     (js_set 0 (new_bulk bulk_read) []))) = [bulk_read\<lparr>m_names := Some [''secret'']\<rparr>]"
  using bulk_refusal_drops_last_name [of bulk_read "[''secret'', ''public'']"
      "[(bulk_read\<lparr>m_name := Some ''secret''\<rparr>, None :: string option, Some (JBool False)), (bulk_read\<lparr>m_name := Some ''public''\<rparr>, None :: string option, Some (JBool True))]" 0 1 "[]"]
  by (simp add: bulk_read_def granted_def refuses_def msg_def)

text \<open>With a permission service that answers within the call, the loop reads the array its own
  answers shorten: after a refusal of the first of two names the second is never checked, and
  the refused name is forwarded.\<close>

theorem bulk_now_skips_check:
  assumes "perm (m\<lparr>m_name := Some a, m_names := Some [a, b]\<rparr>) = (None, Some (JBool False))"
    and "perm (m\<lparr>m_name := None, m_names := Some [a]\<rparr>) = (None, Some (JBool True))"
    and "m_names m = Some [a, b]" "m_name m = None"
  shows "forwards (snd (process_now perm uuid s m p)) = [m\<lparr>m_names := Some [a]\<rparr>]"
proof -
  have "splice_name None [a, b] = [a]" by (simp add: splice_name_absent)
  then show ?thesis
    using assms by (simp add: process_now_def new_bulk_def onBulkPermissionResponse_def js_simps Let_def
      processInvalidResponse_def numeral_2_eq_2 refuses_def)
qed

theorem bulk_now_skips_check_witness:
  "forwards (snd (process_now (\<lambda>m. (None :: string option, Some (JBool (m_name m \<noteq> Some ''secret'')))) 0 1 bulk_read [])) =
     [bulk_read\<lparr>m_names := Some [''secret'']\<rparr>]"
  by (rule bulk_now_skips_check [where a = "''secret''" and b = "''public''"]) (simp_all add: bulk_read_def msg_def)

end
