(* ===== verification/Rpc.thy ===== *)
theory Rpc
  imports Subscriptions Utils
begin

text \<open>
  Remote procedure calls (\<open>src/handlers/rpc/rpc.ts\<close>, \<open>rpc-handler.ts\<close>, \<open>rpc-proxy.ts\<close>). A provider or
  requestor is a local socket or the proxy of a server. The \<open>Rpc\<close> objects are in a store, the
  handler maps correlation ids to them. The timers of an object are flags that an input fires.
  Random choices take the drawn number as an argument, and the servers that the cluster reports
  for a name are an argument too. The metadata of the requestor is passed through unchanged.
\<close>

section \<open>State\<close>

datatype party = Local socket | Proxy string

fun is_remote :: "party \<Rightarrow> bool" where
  "is_remote (Local _) = False"
| "is_remote (Proxy _) = True"

record rpc =
  r_message :: message
  r_corr :: "string option"
  r_name :: string
  r_requestor :: party
  r_provider :: party
  r_accepted :: bool
  r_acceptTimer :: bool
  r_responseTimer :: bool

record rpc_data =
  providers :: "party jsset"
  servers :: "string jsset option"
  rpc_id :: nat

record rpc_handler =
  rh_subs :: sub_registry
  rpcs :: "(string option, rpc_data) jsmap"
  rh_objs :: "rpc list"

datatype rpc_effect =
    RSub sub_effect
  | RSend party message
  | RRequest party message party

definition rpc_msg :: "rpc_action \<Rightarrow> message \<Rightarrow> message" where
  "rpc_msg a m = (msg T_RPC (RpcA a))\<lparr>m_name := m_name m, m_corr := m_corr m\<rparr>"

definition new_rpc_handler :: "sub_registry \<Rightarrow> rpc_handler" where
  "new_rpc_handler subs =
     \<lparr>rh_subs = setAction ''UNSUBSCRIBE'' (RpcA PA_UNPROVIDE) (setAction ''SUBSCRIBE'' (RpcA PA_PROVIDE)
        (setAction ''MULTIPLE_SUBSCRIPTIONS'' (RpcA PA_MULTIPLE_PROVIDERS)
          (setAction ''NOT_SUBSCRIBED'' (RpcA PA_NOT_PROVIDED) subs))),
      rpcs = [], rh_objs = []\<rparr>"

section \<open>One call\<close>

definition setProvider :: "party \<Rightarrow> rpc \<Rightarrow> rpc \<times> rpc_effect list" where
  "setProvider provider r =
     (r\<lparr>r_provider := provider, r_acceptTimer := True, r_responseTimer := True\<rparr>,
      [RRequest provider (r_message r) (r_requestor r)])"

definition new_rpc :: "party \<Rightarrow> party \<Rightarrow> message \<Rightarrow> rpc \<times> rpc_effect list" where
  "new_rpc requestor provider m =
     setProvider provider \<lparr>r_message = m, r_corr = m_corr m, r_name = the (m_name m),
       r_requestor = requestor, r_provider = provider, r_accepted = False, r_acceptTimer = False,
       r_responseTimer = False\<rparr>"

definition handleAccept :: "message \<Rightarrow> rpc \<Rightarrow> rpc \<times> rpc_effect list" where
  "handleAccept m r =
     (if r_accepted r then (r, [RSend (r_provider r) (rpc_msg PA_MULTIPLE_ACCEPT (r_message r))])
      else (r\<lparr>r_acceptTimer := False, r_accepted := True\<rparr>, [RSend (r_requestor r) m]))"

section \<open>The handler\<close>

definition update_rpc :: "nat \<Rightarrow> rpc \<Rightarrow> rpc_handler \<Rightarrow> rpc_handler" where
  "update_rpc i r h = h\<lparr>rh_objs := (rh_objs h)[i := r]\<rparr>"

definition onRPCDestroyed :: "string option \<Rightarrow> rpc_handler \<Rightarrow> rpc_handler" where
  "onRPCDestroyed corr h = h\<lparr>rpcs := js_delete corr (rpcs h)\<rparr>"

definition rpc_destroy :: "nat \<Rightarrow> rpc_handler \<Rightarrow> rpc_handler" where
  "rpc_destroy i h =
     (let r = rh_objs h ! i
      in onRPCDestroyed (r_corr r) (update_rpc i (r\<lparr>r_acceptTimer := False, r_responseTimer := False\<rparr>) h))"

text \<open>The search for an element not yet used, around the list from a random index.\<close>

fun find_unused :: "nat \<Rightarrow> nat \<Rightarrow> 'a list \<Rightarrow> 'a jsset \<Rightarrow> 'a option" where
  "find_unused 0 index xs used = None"
| "find_unused (Suc n) index xs used =
     (if xs ! index \<notin> set used then Some (xs ! index)
      else find_unused n ((index + 1) mod length xs) xs used)"

definition random_index :: "rat \<Rightarrow> 'a list \<Rightarrow> nat" where
  "random_index draw xs = nat (getRandomIntInRange draw 0 (int (length xs)))"

definition getAlternativeProvider ::
  "rat \<Rightarrow> rat \<Rightarrow> string list \<Rightarrow> string \<Rightarrow> string option \<Rightarrow> rpc_handler \<Rightarrow> rpc_handler \<times> party option" where
  "getAlternativeProvider draw1 draw2 remote rpcName corr h =
     (case js_get (rpcs h) corr of
        None \<Rightarrow> (h, None)
      | Some d \<Rightarrow>
          (let subscribers = map Local (getLocalSubscribers (rh_subs h) rpcName)
           in case find_unused (length subscribers) (random_index draw1 subscribers) subscribers (providers d) of
                Some p \<Rightarrow>
                  (h\<lparr>rpcs := js_set corr (d\<lparr>providers := set_add p (providers d)\<rparr>) (rpcs h)\<rparr>, Some p)
              | None \<Rightarrow>
                  (case servers d of
                     None \<Rightarrow> (h, None)
                   | Some used \<Rightarrow>
                       (case find_unused (length remote) (random_index draw2 remote) remote used of
                          Some s \<Rightarrow>
                            (h\<lparr>rpcs := js_set corr (d\<lparr>servers := Some (set_add s used)\<rparr>) (rpcs h)\<rparr>, Some (Proxy s))
                        | None \<Rightarrow> (h, None)))))"

definition reroute :: "rat \<Rightarrow> rat \<Rightarrow> string list \<Rightarrow> nat \<Rightarrow> rpc_handler \<Rightarrow> rpc_handler \<times> rpc_effect list" where
  "reroute draw1 draw2 remote i h =
     (let r = rh_objs h ! i
      in case getAlternativeProvider draw1 draw2 remote (r_name r) (r_corr r) h of
           (h1, Some p) \<Rightarrow> (let (r', es) = setProvider p r in (update_rpc i r' h1, es))
         | (h1, None) \<Rightarrow>
             (rpc_destroy i h1, [RSend (r_requestor r) (rpc_msg PA_NO_RPC_PROVIDER (r_message r))]))"

definition rpc_handle ::
  "rat \<Rightarrow> rat \<Rightarrow> string list \<Rightarrow> nat \<Rightarrow> message \<Rightarrow> rpc_handler \<Rightarrow> rpc_handler \<times> rpc_effect list" where
  "rpc_handle draw1 draw2 remote i m h =
     (let r = rh_objs h ! i
      in if m_corr m \<noteq> r_corr r then (h, [])
         else if m_action m = RpcA PA_ACCEPT
         then (let (r', es) = handleAccept m r in (update_rpc i r' h, es))
         else if m_action m = RpcA PA_REJECT \<or> m_action m = RpcA PA_NO_RPC_PROVIDER
         then reroute draw1 draw2 remote i h
         else if m_action m = RpcA PA_RESPONSE \<or> m_action m = RpcA PA_REQUEST_ERROR
         then (rpc_destroy i h, [RSend (r_requestor r) m])
         else (h, []))"

definition onAcceptTimeout :: "nat \<Rightarrow> rpc_handler \<Rightarrow> rpc_handler \<times> rpc_effect list" where
  "onAcceptTimeout i h =
     (let r = rh_objs h ! i
      in (rpc_destroy i h, [RSend (r_requestor r) (rpc_msg PA_ACCEPT_TIMEOUT (r_message r))]))"

definition onResponseTimeout :: "nat \<Rightarrow> rpc_handler \<Rightarrow> rpc_handler \<times> rpc_effect list" where
  "onResponseTimeout i h =
     (let r = rh_objs h ! i
      in (rpc_destroy i h, [RSend (r_requestor r) (rpc_msg PA_RESPONSE_TIMEOUT (r_message r))]))"

definition register_rpc ::
  "party \<Rightarrow> party \<Rightarrow> message \<Rightarrow> party jsset \<Rightarrow> string jsset option \<Rightarrow> rpc_handler \<Rightarrow> rpc_handler \<times> rpc_effect list" where
  "register_rpc requestor provider m ps ss h =
     (let i = length (rh_objs h); (r, es) = new_rpc requestor provider m
      in (h\<lparr>rh_objs := rh_objs h @ [r],
            rpcs := js_set (m_corr m) \<lparr>providers = ps, servers = ss, rpc_id = i\<rparr> (rpcs h)\<rparr>, es))"

definition js_index :: "nat \<Rightarrow> 'a list \<Rightarrow> 'a option" where
  "js_index i xs = (if i < length xs then Some (xs ! i) else None)"

definition makeRemoteRpc ::
  "rat \<Rightarrow> string list \<Rightarrow> party \<Rightarrow> message \<Rightarrow> rpc_handler \<Rightarrow> rpc_handler \<times> rpc_effect list" where
  "makeRemoteRpc draw remote requestor m h =
     (case js_index (random_index draw remote) remote of
        Some server \<Rightarrow> register_rpc requestor (Proxy server) m [] (Some []) h
      | None \<Rightarrow>
          (h\<lparr>rpcs := js_delete (m_corr m) (rpcs h)\<rparr>,
           if \<not> is_remote requestor then [RSend requestor (rpc_msg PA_NO_RPC_PROVIDER m)] else []))"

definition makeRpc ::
  "rat \<Rightarrow> rat \<Rightarrow> string list \<Rightarrow> party \<Rightarrow> message \<Rightarrow> bool \<Rightarrow> rpc_handler \<Rightarrow> rpc_handler \<times> rpc_effect list" where
  "makeRpc draw1 draw2 remote requestor m isRemote h =
     (let subscribers = map Local (getLocalSubscribers (rh_subs h) (the (m_name m)))
      in case js_index (random_index draw1 subscribers) subscribers of
           Some provider \<Rightarrow> register_rpc requestor provider m [provider] (if isRemote then None else Some []) h
         | None \<Rightarrow>
             if isRemote then (h, [RSend requestor (rpc_msg PA_NO_RPC_PROVIDER m)])
             else makeRemoteRpc draw2 remote requestor m h)"

definition onRemoteRPCMessage ::
  "rat \<Rightarrow> rat \<Rightarrow> string list \<Rightarrow> message \<Rightarrow> string \<Rightarrow> rpc_handler \<Rightarrow> rpc_handler \<times> rpc_effect list" where
  "onRemoteRPCMessage draw1 draw2 remote m originServerName h =
     (if m_action m = RpcA PA_REQUEST then makeRpc draw1 draw2 remote (Proxy originServerName) m True h
      else case js_get (rpcs h) (m_corr m) of
             None \<Rightarrow> (h, [])
           | Some d \<Rightarrow> rpc_handle draw1 draw2 remote (rpc_id d) m h)"

definition on_rpc_subs ::
  "(sub_registry \<Rightarrow> sub_registry \<times> sub_effect list) \<Rightarrow> rpc_handler \<Rightarrow> rpc_handler \<times> rpc_effect list" where
  "on_rpc_subs f h = (case f (rh_subs h) of (r, es) \<Rightarrow> (h\<lparr>rh_subs := r\<rparr>, map RSub es))"

definition handle ::
  "rat \<Rightarrow> rat \<Rightarrow> string list \<Rightarrow> socket option \<Rightarrow> message \<Rightarrow> string \<Rightarrow> rpc_handler \<Rightarrow> rpc_handler \<times> rpc_effect list" where
  "handle draw1 draw2 remote so m originServerName h =
     (case so of
        None \<Rightarrow> onRemoteRPCMessage draw1 draw2 remote m originServerName h
      | Some s \<Rightarrow>
          if m_action m = RpcA PA_REQUEST then makeRpc draw1 draw2 remote (Local s) m False h
          else if m_action m = RpcA PA_PROVIDE then on_rpc_subs (subscribeBulk (the (m_names m)) m s False) h
          else if m_action m = RpcA PA_UNPROVIDE then on_rpc_subs (unsubscribeBulk (the (m_names m)) m s False) h
          else if m_action m = RpcA PA_RESPONSE \<or> m_action m = RpcA PA_REJECT \<or>
                  m_action m = RpcA PA_ACCEPT \<or> m_action m = RpcA PA_REQUEST_ERROR
          then (case js_get (rpcs h) (m_corr m) of
                  Some d \<Rightarrow> rpc_handle draw1 draw2 remote (rpc_id d) m h
                | None \<Rightarrow>
                    (h, [RSend (Local s) ((rpc_msg PA_INVALID_RPC_CORRELATION_ID m)
                           \<lparr>m_original := Some (m_action m), m_isError := True\<rparr>)]))
          else (h, []))"

datatype rpc_input =
    RHandle rat rat "string list" "socket option" message string
  | RAcceptTimeout nat
  | RResponseTimeout nat
  | RClose socket

fun rpc_step :: "rpc_handler \<Rightarrow> rpc_input \<Rightarrow> rpc_handler \<times> rpc_effect list" where
  "rpc_step h (RHandle d1 d2 remote so m origin) = handle d1 d2 remote so m origin h"
| "rpc_step h (RAcceptTimeout i) = onAcceptTimeout i h"
| "rpc_step h (RResponseTimeout i) = onResponseTimeout i h"
| "rpc_step h (RClose s) = on_rpc_subs (onSocketClose s) h"

text \<open>A draw is what \<open>Math.random\<close> gives.\<close>

definition draw_ok :: "rat \<Rightarrow> bool" where
  "draw_ok r \<longleftrightarrow> 0 \<le> r \<and> r < 1"

fun rpc_enabled :: "rpc_handler \<Rightarrow> rpc_input \<Rightarrow> bool" where
  "rpc_enabled h (RHandle d1 d2 remote so m origin) = (draw_ok d1 \<and> draw_ok d2)"
| "rpc_enabled h (RAcceptTimeout i) = (i < length (rh_objs h) \<and> r_acceptTimer (rh_objs h ! i))"
| "rpc_enabled h (RResponseTimeout i) = (i < length (rh_objs h) \<and> r_responseTimer (rh_objs h ! i))"
| "rpc_enabled h (RClose s) = True"

fun rpc_history :: "rpc_handler \<Rightarrow> rpc_input list \<Rightarrow> bool" where
  "rpc_history h [] = True"
| "rpc_history h (i # is) = (rpc_enabled h i \<and> rpc_history (fst (rpc_step h i)) is)"

fun rpc_run :: "rpc_handler \<Rightarrow> rpc_input list \<Rightarrow> rpc_handler \<times> rpc_effect list" where
  "rpc_run h [] = (h, [])"
| "rpc_run h (i # is) =
     (let (h1, e1) = rpc_step h i; (h2, e2) = rpc_run h1 is in (h2, e1 @ e2))"

section \<open>The search\<close>

lemma find_unused_some:
  "find_unused n i xs used = Some x \<Longrightarrow> i < length xs \<Longrightarrow> x \<in> set xs \<and> x \<notin> set used"
proof (induction n arbitrary: i)
  case (Suc n)
  have "(i + 1) mod length xs < length xs" using Suc.prems(2) by (cases xs) auto
  then show ?case using Suc by (auto split: if_splits)
qed simp

lemma find_unused_none:
  "find_unused n i xs used = None \<Longrightarrow> i < length xs \<Longrightarrow> k < n \<Longrightarrow> xs ! ((i + k) mod length xs) \<in> set used"
proof (induction n arbitrary: i k)
  case (Suc n)
  then have used: "xs ! i \<in> set used" and rest: "find_unused n ((i + 1) mod length xs) xs used = None"
    by (auto split: if_splits)
  show ?case
  proof (cases k)
    case 0
    then show ?thesis using used Suc.prems(2) by simp
  next
    case (Suc k')
    have "0 < length xs" using Suc.prems(2) by (cases xs) auto
    then have "xs ! (((i + 1) mod length xs + k') mod length xs) \<in> set used"
      using Suc.IH [OF rest] Suc.prems(3) Suc by simp
    then show ?thesis using Suc by (simp add: mod_add_left_eq)
  qed
qed simp

lemma random_index_less: "0 \<le> r \<Longrightarrow> r < 1 \<Longrightarrow> xs \<noteq> [] \<Longrightarrow> random_index r xs < length xs"
  using getRandomIntInRange_bounds [of r 0 "int (length xs)"] by (simp add: random_index_def nat_less_iff)

text \<open>From any start the search goes around the whole list.\<close>

lemma find_unused_complete:
  assumes "0 \<le> r" "r < 1"
  shows "(case find_unused (length xs) (random_index r xs) xs used of
      Some x \<Rightarrow> x \<in> set xs \<and> x \<notin> set used | None \<Rightarrow> set xs \<subseteq> set used)"
proof (cases "xs = []")
  case False
  let ?i = "random_index r xs"
  have i: "?i < length xs" using random_index_less [OF assms False] .
  have "set xs \<subseteq> set used" if none: "find_unused (length xs) ?i xs used = None"
  proof
    fix x
    assume "x \<in> set xs"
    then obtain j where j: "j < length xs" "x = xs ! j" by (auto simp: in_set_conv_nth)
    define k where "k = (j + length xs - ?i) mod length xs"
    have "k < length xs" using False by (simp add: k_def)
    moreover have "(?i + k) mod length xs = j"
      using i j by (simp add: k_def mod_add_right_eq)
    ultimately show "x \<in> set used" using find_unused_none [OF none i, of k] j by simp
  qed
  then show ?thesis using find_unused_some [OF _ i] by (auto split: option.split)
qed simp

text \<open>The parties an rpc has been given so far.\<close>

definition tried :: "rpc_data \<Rightarrow> party set" where
  "tried d = set (providers d) \<union> (case servers d of None \<Rightarrow> {} | Some ss \<Rightarrow> Proxy ` set ss)"

definition locals_only :: "rpc_data \<Rightarrow> bool" where
  "locals_only d \<longleftrightarrow> (\<forall>p \<in> set (providers d). \<not> is_remote p)"

lemma getAlternativeProvider_fresh:
  assumes "js_get (rpcs h) corr = Some d" "locals_only d"
    and "0 \<le> d1" "d1 < 1" "0 \<le> d2" "d2 < 1"
  shows "(case getAlternativeProvider d1 d2 remote n corr h of
      (h', None) \<Rightarrow> h' = h \<and> Local ` set (getLocalSubscribers (rh_subs h) n) \<subseteq> tried d \<and>
        (servers d \<noteq> None \<longrightarrow> Proxy ` set remote \<subseteq> tried d)
    | (h', Some p) \<Rightarrow> p \<notin> tried d \<and>
        p \<in> Local ` set (getLocalSubscribers (rh_subs h) n) \<union> Proxy ` set remote \<and>
        (\<exists>d'. js_get (rpcs h') corr = Some d' \<and> locals_only d' \<and> tried d' = insert p (tried d)))"
proof -
  let ?ls = "map Local (getLocalSubscribers (rh_subs h) n)"
  note find1 = find_unused_complete [OF assms(3,4), of ?ls "providers d"]
  show ?thesis
  proof (cases "find_unused (length ?ls) (random_index d1 ?ls) ?ls (providers d)")
    case (Some p)
    then have p: "p \<in> set ?ls" "p \<notin> set (providers d)" using find1 by simp_all
    then have "p \<notin> tried d" "\<not> is_remote p" by (auto simp: tried_def split: option.split)
    moreover have "tried (d\<lparr>providers := set_add p (providers d)\<rparr>) = insert p (tried d)"
      by (simp add: tried_def js_simps)
    ultimately show ?thesis
      using Some assms(1,2) p by (auto simp: getAlternativeProvider_def Let_def js_simps locals_only_def)
  next
    case None
    then have all: "Local ` set (getLocalSubscribers (rh_subs h) n) \<subseteq> set (providers d)"
      using find1 by auto
    show ?thesis
    proof (cases "servers d")
      case None': None
      then show ?thesis
        using None all assms(1) by (auto simp: getAlternativeProvider_def Let_def tried_def)
    next
      case (Some used)
      note find2 = find_unused_complete [OF assms(5,6), of remote used]
      show ?thesis
      proof (cases "find_unused (length remote) (random_index d2 remote) remote used")
        case None'': None
        then show ?thesis
          using None Some find2 all assms(1) by (auto simp: getAlternativeProvider_def Let_def tried_def)
      next
        case (Some s)
        then have s: "s \<in> set remote" "s \<notin> set used" using find2 by simp_all
        have "Proxy s \<notin> set (providers d)" using assms(2) by (auto simp: locals_only_def)
        then have "Proxy s \<notin> tried d" using s \<open>servers d = Some used\<close> by (auto simp: tried_def)
        moreover have "tried (d\<lparr>servers := Some (set_add s used)\<rparr>) = insert (Proxy s) (tried d)"
          using \<open>servers d = Some used\<close> by (auto simp: tried_def js_simps)
        ultimately show ?thesis
          using None Some s \<open>servers d = Some used\<close> assms(1,2)
          by (auto simp: getAlternativeProvider_def Let_def js_simps locals_only_def)
      qed
    qed
  qed
qed

section \<open>One answer per call\<close>

fun final_action :: "action \<Rightarrow> bool" where
  "final_action (RpcA PA_RESPONSE) = True"
| "final_action (RpcA PA_REQUEST_ERROR) = True"
| "final_action (RpcA PA_NO_RPC_PROVIDER) = True"
| "final_action (RpcA PA_ACCEPT_TIMEOUT) = True"
| "final_action (RpcA PA_RESPONSE_TIMEOUT) = True"
| "final_action _ = False"

text \<open>The final answers to the call with a correlation id.\<close>

fun finals :: "string option \<Rightarrow> rpc_effect list \<Rightarrow> nat" where
  "finals c [] = 0"
| "finals c (RSend p m # es) = (if m_corr m = c \<and> final_action (m_action m) then 1 else 0) + finals c es"
| "finals c (e # es) = finals c es"

lemma finals_append [simp]: "finals c (es @ fs) = finals c es + finals c fs"
  by (induction c es rule: finals.induct) auto

lemma finals_subs [simp]: "finals c (map RSub es) = 0"
  by (induction es) auto

fun is_request :: "string option \<Rightarrow> rpc_input \<Rightarrow> bool" where
  "is_request c (RHandle d1 d2 remote so m origin) = (m_action m = RpcA PA_REQUEST \<and> m_corr m = c)"
| "is_request c _ = False"

abbreviation requested :: "string option \<Rightarrow> rpc_input list \<Rightarrow> nat" where
  "requested c is \<equiv> length (filter (is_request c) is)"

text \<open>The object a correlation id leads to.\<close>

definition ids :: "rpc_handler \<Rightarrow> string option \<Rightarrow> nat option" where
  "ids h c = map_option rpc_id (js_get (rpcs h) c)"

text \<open>Every object carries its own id, every map entry leads to an object of that id that is timed.\<close>

definition rpc_wf :: "rpc_handler \<Rightarrow> bool" where
  "rpc_wf h \<longleftrightarrow> (\<forall>i < length (rh_objs h). m_corr (r_message (rh_objs h ! i)) = r_corr (rh_objs h ! i)) \<and>
     (\<forall>c i. ids h c = Some i \<longrightarrow> i < length (rh_objs h) \<and> r_corr (rh_objs h ! i) = c \<and>
       r_responseTimer (rh_objs h ! i))"

text \<open>The call \<open>c\<close> after \<open>n\<close> requests and \<open>k\<close> answers.\<close>

definition call_inv :: "string option \<Rightarrow> nat \<Rightarrow> nat \<Rightarrow> rpc_handler \<Rightarrow> bool" where
  "call_inv c n k h \<longleftrightarrow>
     (case ids h c of
        Some j \<Rightarrow> n = 1 \<and> k = 0 \<and>
          (\<forall>i < length (rh_objs h). r_corr (rh_objs h ! i) = c \<longrightarrow> i = j)
      | None \<Rightarrow> n = k \<and> n \<le> 1 \<and>
          (\<forall>i < length (rh_objs h). r_corr (rh_objs h ! i) = c \<longrightarrow>
             n = 1 \<and> \<not> r_acceptTimer (rh_objs h ! i) \<and> \<not> r_responseTimer (rh_objs h ! i)))"

text \<open>What one operation on the object \<open>i\<close> may do: keep it alive without an answer, or end it with one.\<close>

definition same_call :: "rpc \<Rightarrow> rpc \<Rightarrow> bool" where
  "same_call r r' \<longleftrightarrow> r_corr r' = r_corr r \<and> r_message r' = r_message r"

definition goes_on :: "nat \<Rightarrow> rpc_handler \<Rightarrow> rpc_handler \<times> rpc_effect list \<Rightarrow> bool" where
  "goes_on i h res \<longleftrightarrow>
     (\<exists>r. rh_objs (fst res) = (rh_objs h)[i := r] \<and> same_call (rh_objs h ! i) r \<and>
          (r_responseTimer (rh_objs h ! i) \<longrightarrow> r_responseTimer r)) \<and>
     ids (fst res) = ids h \<and> (\<forall>c. finals c (snd res) = 0)"

definition ends :: "nat \<Rightarrow> rpc_handler \<Rightarrow> rpc_handler \<times> rpc_effect list \<Rightarrow> bool" where
  "ends i h res \<longleftrightarrow>
     (\<exists>r. rh_objs (fst res) = (rh_objs h)[i := r] \<and> same_call (rh_objs h ! i) r \<and>
          \<not> r_acceptTimer r \<and> \<not> r_responseTimer r) \<and>
     ids (fst res) = (ids h)(r_corr (rh_objs h ! i) := None) \<and>
     (\<forall>c. finals c (snd res) = (if c = r_corr (rh_objs h ! i) then 1 else 0))"

lemma nth_list_update_if: "xs[i := x] ! j = (if j = i \<and> i < length xs then x else xs ! j)"
  by (cases "i < length xs") (simp_all add: nth_list_update list_update_beyond)

lemma same_call_update:
  assumes "same_call (xs ! i) r"
  shows "r_corr (xs[i := r] ! j) = r_corr (xs ! j)" "r_message (xs[i := r] ! j) = r_message (xs ! j)"
  using assms by (simp_all add: nth_list_update_if same_call_def)

lemma goes_on_wf:
  assumes "goes_on i h res" "rpc_wf h"
  shows "rpc_wf (fst res)"
proof -
  obtain r where r: "rh_objs (fst res) = (rh_objs h)[i := r]" "same_call (rh_objs h ! i) r"
    "r_responseTimer (rh_objs h ! i) \<longrightarrow> r_responseTimer r" and ids: "ids (fst res) = ids h"
    using assms(1) by (auto simp: goes_on_def)
  have "r_responseTimer ((rh_objs h)[i := r] ! j)" if "r_responseTimer (rh_objs h ! j)" for j
    using that r(3) by (auto simp: nth_list_update_if)
  then show ?thesis
    using assms(2) unfolding rpc_wf_def r(1) ids
    by (auto simp: same_call_update [OF r(2)])
qed

lemma ends_wf:
  assumes "ends i h res" "rpc_wf h"
  shows "rpc_wf (fst res)"
proof -
  obtain r where r: "rh_objs (fst res) = (rh_objs h)[i := r]" "same_call (rh_objs h ! i) r"
    and ids: "ids (fst res) = (ids h)(r_corr (rh_objs h ! i) := None)"
    using assms(1) by (auto simp: ends_def)
  have "(rh_objs h)[i := r] ! j = rh_objs h ! j" if "r_corr (rh_objs h ! j) \<noteq> r_corr (rh_objs h ! i)" for j
    using that by (auto simp: nth_list_update_if)
  then show ?thesis
    using assms(2) unfolding rpc_wf_def r(1) ids
    by (auto simp: same_call_update [OF r(2)] split: if_splits)
qed

text \<open>An operation reaches an object through the map, or through a running timer.\<close>

definition reachable_obj :: "nat \<Rightarrow> rpc_handler \<Rightarrow> bool" where
  "reachable_obj i h \<longleftrightarrow> i < length (rh_objs h) \<and>
     (ids h (r_corr (rh_objs h ! i)) = Some i \<or> r_acceptTimer (rh_objs h ! i) \<or> r_responseTimer (rh_objs h ! i))"

lemma call_inv_live:
  assumes "call_inv c n k h" "reachable_obj i h" "r_corr (rh_objs h ! i) = c"
  shows "ids h c = Some i"
  using assms by (auto simp: call_inv_def reachable_obj_def split: option.splits)

lemma call_inv_goes_on:
  assumes inv: "call_inv c n k h" and i: "reachable_obj i h" and g: "goes_on i h res"
  shows "call_inv c n (k + finals c (snd res)) (fst res)"
proof -
  obtain r where r: "rh_objs (fst res) = (rh_objs h)[i := r]" "same_call (rh_objs h ! i) r"
    and ids: "ids (fst res) = ids h" and f: "finals c (snd res) = 0"
    using g by (auto simp: goes_on_def)
  show ?thesis
  proof (cases "ids h c")
    case (Some j)
    then show ?thesis using inv r ids f same_call_update [OF r(2)] by (simp add: call_inv_def)
  next
    case None
    then have "r_corr (rh_objs h ! i) \<noteq> c" using call_inv_live [OF inv i] by auto
    then show ?thesis
      using inv r ids f None same_call_update [OF r(2)] by (auto simp: call_inv_def nth_list_update_if)
  qed
qed

lemma call_inv_ends:
  assumes inv: "call_inv c n k h" and i: "reachable_obj i h" and e: "ends i h res"
  shows "call_inv c n (k + finals c (snd res)) (fst res)"
proof -
  obtain r where r: "rh_objs (fst res) = (rh_objs h)[i := r]" "same_call (rh_objs h ! i) r"
    "\<not> r_acceptTimer r" "\<not> r_responseTimer r"
    and ids: "ids (fst res) = (ids h)(r_corr (rh_objs h ! i) := None)"
    and f: "finals c (snd res) = (if c = r_corr (rh_objs h ! i) then 1 else 0)"
    using e by (auto simp: ends_def)
  note corr = same_call_update [OF r(2)]
  show ?thesis
  proof (cases "r_corr (rh_objs h ! i) = c")
    case True
    then have live: "ids h c = Some i" using call_inv_live [OF inv i] by simp
    then have "\<forall>j < length (rh_objs h). r_corr (rh_objs h ! j) = c \<longrightarrow> j = i" "n = 1" "k = 0"
      using inv by (simp_all add: call_inv_def)
    then show ?thesis
      using True r ids f corr i by (auto simp: call_inv_def reachable_obj_def nth_list_update_if)
  next
    case False
    then have ids': "ids (fst res) c = ids h c" using ids by simp
    have same: "(rh_objs h)[i := r] ! j = rh_objs h ! j" if "r_corr (rh_objs h ! j) = c" for j
      using False that by (auto simp: nth_list_update_if)
    then show ?thesis
      using inv r(1) ids' f False corr(1) by (auto simp: call_inv_def split: option.splits)
  qed
qed

lemma ids_set [simp]: "ids (h\<lparr>rpcs := js_set c d (rpcs h)\<rparr>) = (ids h)(c := Some (rpc_id d))"
  by (rule ext) (simp add: ids_def js_simps)

lemma ids_delete [simp]: "ids (h\<lparr>rpcs := js_delete c (rpcs h)\<rparr>) = (ids h)(c := None)"
  by (rule ext) (simp add: ids_def js_simps)

lemma ids_other [simp]: "ids (h\<lparr>rh_objs := x\<rparr>) = ids h" "ids (h\<lparr>rh_subs := y\<rparr>) = ids h"
  by (simp_all add: ids_def fun_eq_iff)

lemma rpc_destroy_ends:
  assumes "i < length (rh_objs h)" "finals (r_corr (rh_objs h ! i)) es = 1"
    and "\<And>c. c \<noteq> r_corr (rh_objs h ! i) \<Longrightarrow> finals c es = 0"
  shows "ends i h (rpc_destroy i h, es)"
proof -
  let ?r = "(rh_objs h ! i)\<lparr>r_acceptTimer := False, r_responseTimer := False\<rparr>"
  have "rpc_destroy i h = h\<lparr>rh_objs := (rh_objs h)[i := ?r], rpcs := js_delete (r_corr (rh_objs h ! i)) (rpcs h)\<rparr>"
    by (simp add: rpc_destroy_def onRPCDestroyed_def update_rpc_def Let_def)
  moreover have "ids \<dots> = (ids h)(r_corr (rh_objs h ! i) := None)"
    using ids_delete [where h = "h\<lparr>rh_objs := (rh_objs h)[i := ?r]\<rparr>" and c = "r_corr (rh_objs h ! i)"] by simp
  ultimately show ?thesis
    using assms by (auto simp: ends_def same_call_def intro!: exI [of _ ?r])
qed

lemma rpc_msg_simps [simp]: "m_corr (rpc_msg a m) = m_corr m" "m_action (rpc_msg a m) = RpcA a"
  by (simp_all add: rpc_msg_def msg_def)

lemma finals_rpc_msg: "finals c [RSend p (rpc_msg a m)] = (if m_corr m = c \<and> final_action (RpcA a) then 1 else 0)"
  by simp

lemma timeouts_end:
  assumes "rpc_wf h" "i < length (rh_objs h)"
  shows "ends i h (onAcceptTimeout i h)" "ends i h (onResponseTimeout i h)"
  using assms unfolding onAcceptTimeout_def onResponseTimeout_def Let_def
  by (auto intro!: rpc_destroy_ends simp: finals_rpc_msg rpc_wf_def)

lemma getAlternativeProvider_keeps:
  "rh_objs (fst (getAlternativeProvider d1 d2 remote n c h)) = rh_objs h \<and>
   ids (fst (getAlternativeProvider d1 d2 remote n c h)) = ids h \<and>
   (snd (getAlternativeProvider d1 d2 remote n c h) = None \<longrightarrow> fst (getAlternativeProvider d1 d2 remote n c h) = h)"
proof (cases "js_get (rpcs h) c")
  case (Some d)
  then have "(ids h)(c := Some (rpc_id d)) = ids h" by (auto simp: ids_def)
  then show ?thesis
    using Some by (simp add: getAlternativeProvider_def Let_def split: option.split)
qed (simp add: getAlternativeProvider_def)

lemma reroute_ok:
  assumes "rpc_wf h" "i < length (rh_objs h)"
  shows "goes_on i h (reroute d1 d2 remote i h) \<or> ends i h (reroute d1 d2 remote i h)"
proof -
  let ?r = "rh_objs h ! i"
  obtain h1 p where g: "getAlternativeProvider d1 d2 remote (r_name ?r) (r_corr ?r) h = (h1, p)" by fastforce
  then have h1: "rh_objs h1 = rh_objs h" "ids h1 = ids h" "p = None \<longrightarrow> h1 = h"
    using getAlternativeProvider_keeps [of d1 d2 remote "r_name ?r" "r_corr ?r" h] by simp_all
  show ?thesis
  proof (cases p)
    case None
    then have "ends i h (reroute d1 d2 remote i h)"
      using g h1 assms unfolding reroute_def Let_def
      by (auto intro!: rpc_destroy_ends simp: finals_rpc_msg rpc_wf_def)
    then show ?thesis ..
  next
    case (Some q)
    then have "goes_on i h (reroute d1 d2 remote i h)"
      using g h1 by (auto simp: reroute_def Let_def setProvider_def update_rpc_def goes_on_def same_call_def)
    then show ?thesis ..
  qed
qed

lemma goes_on_refl: "goes_on i h (h, [])"
  unfolding goes_on_def same_call_def by (intro conjI exI [of _ "rh_objs h ! i"]) simp_all

lemma rpc_handle_ok:
  assumes "rpc_wf h" "i < length (rh_objs h)"
  shows "goes_on i h (rpc_handle d1 d2 remote i m h) \<or> ends i h (rpc_handle d1 d2 remote i m h)"
proof -
  let ?r = "rh_objs h ! i"
  consider (other) "m_corr m \<noteq> r_corr ?r" | (acc) "m_corr m = r_corr ?r" "m_action m = RpcA PA_ACCEPT"
    | (rej) "m_corr m = r_corr ?r" "m_action m = RpcA PA_REJECT \<or> m_action m = RpcA PA_NO_RPC_PROVIDER"
    | (res) "m_corr m = r_corr ?r" "m_action m = RpcA PA_RESPONSE \<or> m_action m = RpcA PA_REQUEST_ERROR"
    | (none) "m_corr m = r_corr ?r" "m_action m \<noteq> RpcA PA_ACCEPT" "m_action m \<noteq> RpcA PA_REJECT"
      "m_action m \<noteq> RpcA PA_NO_RPC_PROVIDER" "m_action m \<noteq> RpcA PA_RESPONSE" "m_action m \<noteq> RpcA PA_REQUEST_ERROR"
    by blast
  then show ?thesis
  proof cases
    case other
    then show ?thesis by (simp add: rpc_handle_def goes_on_refl)
  next
    case acc
    obtain r' es where ha: "handleAccept m ?r = (r', es)" by fastforce
    then have "same_call ?r r'" "r_responseTimer ?r \<longrightarrow> r_responseTimer r'" "\<forall>c. finals c es = 0"
      using acc by (auto simp: handleAccept_def same_call_def finals_rpc_msg split: if_splits)
    then have "goes_on i h (rpc_handle d1 d2 remote i m h)"
      using acc ha by (auto simp: rpc_handle_def goes_on_def update_rpc_def)
    then show ?thesis ..
  next
    case rej
    then have "rpc_handle d1 d2 remote i m h = reroute d1 d2 remote i h"
      by (auto simp: rpc_handle_def)
    then show ?thesis using reroute_ok [OF assms] by simp
  next
    case res
    then have "ends i h (rpc_handle d1 d2 remote i m h)"
      using assms(2) by (auto simp: rpc_handle_def intro!: rpc_destroy_ends)
    then show ?thesis ..
  next
    case none
    then show ?thesis by (simp add: rpc_handle_def goes_on_refl)
  qed
qed

text \<open>One step keeps the invariant, for the answers \<open>es\<close> and \<open>dn\<close> new requests of the call.\<close>

definition step_keeps :: "string option \<Rightarrow> nat \<Rightarrow> nat \<Rightarrow> nat \<Rightarrow> rpc_handler \<times> rpc_effect list \<Rightarrow> bool" where
  "step_keeps c n k dn res \<longleftrightarrow> rpc_wf (fst res) \<and> call_inv c (n + dn) (k + finals c (snd res)) (fst res)"

lemma on_object_keeps:
  assumes "rpc_wf h" "call_inv c n k h" "reachable_obj i h" "goes_on i h res \<or> ends i h res"
  shows "step_keeps c n k 0 res"
  using assms goes_on_wf [of i h res] ends_wf [of i h res]
    call_inv_goes_on [of c n k h i res] call_inv_ends [of c n k h i res]
  unfolding step_keeps_def by auto

lemma unchanged_keeps: "rpc_wf h \<Longrightarrow> call_inv c n k h \<Longrightarrow> finals c es = 0 \<Longrightarrow> step_keeps c n k 0 (h, es)"
  by (simp add: step_keeps_def)

lemma call_inv_cong:
  "rh_objs h' = rh_objs h \<Longrightarrow> ids h' c = ids h c \<Longrightarrow> call_inv c n k h' = call_inv c n k h"
  unfolding call_inv_def by (cases "ids h c") simp_all

lemma subs_keeps:
  assumes "rpc_wf h" "call_inv c n k h" shows "step_keeps c n k 0 (on_rpc_subs f h)"
proof -
  obtain r es where "f (rh_subs h) = (r, es)" by fastforce
  then have "on_rpc_subs f h = (h\<lparr>rh_subs := r\<rparr>, map RSub es)" by (simp add: on_rpc_subs_def)
  moreover have "rpc_wf (h\<lparr>rh_subs := r\<rparr>)" using assms(1) by (simp add: rpc_wf_def)
  moreover have "call_inv c n k (h\<lparr>rh_subs := r\<rparr>)"
    using assms(2) call_inv_cong [of "h\<lparr>rh_subs := r\<rparr>" h] by simp
  ultimately show ?thesis by (simp add: step_keeps_def)
qed

lemma map_reachable: "rpc_wf h \<Longrightarrow> js_get (rpcs h) c = Some d \<Longrightarrow> reachable_obj (rpc_id d) h"
  using ids_def [of h c] by (auto simp: rpc_wf_def reachable_obj_def)

lemma call_inv_fresh: "call_inv c 0 k h \<longleftrightarrow>
    ids h c = None \<and> k = 0 \<and> (\<forall>i < length (rh_objs h). r_corr (rh_objs h ! i) \<noteq> c)"
  unfolding call_inv_def by (cases "ids h c") auto

lemma register_keeps:
  assumes wf: "rpc_wf h" and inv: "call_inv c n k h"
    and new: "m_corr m = c \<Longrightarrow> n = 0"
  shows "step_keeps c n k (if m_corr m = c then 1 else 0) (register_rpc requestor provider m ps ss h)"
proof -
  obtain r es where r: "new_rpc requestor provider m = (r, es)" by fastforce
  then have rc: "r_corr r = m_corr m" "r_message r = m" "r_responseTimer r" and fe: "finals c es = 0"
    by (auto simp: new_rpc_def setProvider_def)
  let ?h = "h\<lparr>rh_objs := rh_objs h @ [r],
      rpcs := js_set (m_corr m) \<lparr>providers = ps, servers = ss, rpc_id = length (rh_objs h)\<rparr> (rpcs h)\<rparr>"
  have eq: "register_rpc requestor provider m ps ss h = (?h, es)" by (simp add: register_rpc_def r Let_def)
  have ids: "ids ?h = (ids h)(m_corr m := Some (length (rh_objs h)))"
    using ids_set [where h = "h\<lparr>rh_objs := rh_objs h @ [r]\<rparr>" and c = "m_corr m"] by simp
  have objs: "rh_objs ?h = rh_objs h @ [r]" by simp
  have wf': "rpc_wf ?h"
    using wf unfolding rpc_wf_def ids objs
    by (auto simp: rc nth_append less_Suc_eq)
  have "call_inv c (n + (if m_corr m = c then 1 else 0)) k ?h"
  proof (cases "m_corr m = c")
    case True
    then have "n = 0" using new by simp
    then show ?thesis
      using True inv unfolding call_inv_def ids objs
      by (auto simp: nth_append less_Suc_eq split: option.splits)
  next
    case False
    then have "ids ?h c = ids h c" using ids by simp
    moreover have "r_corr r \<noteq> c" using False rc(1) by simp
    ultimately show ?thesis
      using inv False unfolding call_inv_def objs
      by (cases "ids h c") (auto simp: nth_append less_Suc_eq)
  qed
  then show ?thesis using eq wf' fe by (simp add: step_keeps_def)
qed

text \<open>A request that is answered at once.\<close>

lemma answered_keeps:
  assumes wf: "rpc_wf h" and inv: "call_inv c n k h" and new: "m_corr m = c \<Longrightarrow> n = 0"
    and objs: "rh_objs h' = rh_objs h"
    and ids: "ids h' = ids h \<or> ids h' = (ids h)(m_corr m := None)"
  shows "step_keeps c n k (if m_corr m = c then 1 else 0) (h', [RSend p (rpc_msg PA_NO_RPC_PROVIDER m)])"
proof -
  have wf': "rpc_wf h'" using wf ids objs unfolding rpc_wf_def by (auto split: if_splits)
  show ?thesis
  proof (cases "m_corr m = c")
    case True
    then have "n = 0" using new by simp
    then have "ids h c = None" "k = 0" "\<forall>i < length (rh_objs h). r_corr (rh_objs h ! i) \<noteq> c"
      using inv by (simp_all add: call_inv_fresh)
    moreover have "ids h' c = None" using ids \<open>ids h c = None\<close> by auto
    ultimately show ?thesis
      using True \<open>n = 0\<close> wf' objs by (simp add: step_keeps_def call_inv_def)
  next
    case False
    then have "ids h' c = ids h c" using ids by auto
    then show ?thesis
      using False wf' inv call_inv_cong [OF objs] by (simp add: step_keeps_def)
  qed
qed

lemma makeRpc_cases:
  assumes "is_remote so = r"
  shows "(\<exists>p ps ss. makeRpc d1 d2 remote so m r h = register_rpc so p m ps ss h) \<or>
    (\<exists>h'. makeRpc d1 d2 remote so m r h = (h', [RSend so (rpc_msg PA_NO_RPC_PROVIDER m)]) \<and>
       rh_objs h' = rh_objs h \<and> (ids h' = ids h \<or> ids h' = (ids h)(m_corr m := None)))"
proof -
  let ?ls = "map Local (getLocalSubscribers (rh_subs h) (the (m_name m)))"
  show ?thesis
  proof (cases "js_index (random_index d1 ?ls) ?ls")
    case None
    then show ?thesis
      using assms
      by (cases "js_index (random_index d2 remote) remote")
        (auto simp: makeRpc_def makeRemoteRpc_def Let_def)
  qed (auto simp: makeRpc_def Let_def)
qed

lemma makeRpc_keeps:
  assumes "rpc_wf h" "call_inv c n k h" "m_corr m = c \<Longrightarrow> n = 0" "is_remote so = r"
  shows "step_keeps c n k (if m_corr m = c then 1 else 0) (makeRpc d1 d2 remote so m r h)"
  using makeRpc_cases [OF assms(4), of d1 d2 remote m h]
    register_keeps [OF assms(1-3)] answered_keeps [OF assms(1-3)] by metis

lemma rpc_handle_keeps:
  assumes "rpc_wf h" "call_inv c n k h" "js_get (rpcs h) c' = Some d"
  shows "step_keeps c n k 0 (rpc_handle d1 d2 remote (rpc_id d) m h)"
  using on_object_keeps [OF assms(1,2) map_reachable [OF assms(1,3)] rpc_handle_ok [OF assms(1)]]
    map_reachable [OF assms(1,3)] by (simp add: reachable_obj_def)

lemma handle_keeps:
  assumes wf: "rpc_wf h" and inv: "call_inv c n k h" and new: "is_request c (RHandle d1 d2 remote so m origin) \<Longrightarrow> n = 0"
  shows "step_keeps c n k (if is_request c (RHandle d1 d2 remote so m origin) then 1 else 0)
    (handle d1 d2 remote so m origin h)"
proof (cases "m_action m = RpcA PA_REQUEST")
  case True
  then show ?thesis
    using makeRpc_keeps [OF wf inv, of m] new
    by (cases so) (simp_all add: handle_def onRemoteRPCMessage_def)
next
  case False
  note u = unchanged_keeps [OF wf inv] and s = subs_keeps [OF wf inv] and r = rpc_handle_keeps [OF wf inv]
  show ?thesis
  proof (cases so)
    case None
    then show ?thesis
      using False u r by (cases "js_get (rpcs h) (m_corr m)") (auto simp: handle_def onRemoteRPCMessage_def)
  next
    case (Some s')
    show ?thesis
      using False Some u s r
      by (cases "js_get (rpcs h) (m_corr m)") (simp_all add: handle_def)
  qed
qed

lemma rpc_step_keeps:
  assumes "rpc_wf h" "call_inv c n k h" "rpc_enabled h i" "is_request c i \<Longrightarrow> n = 0"
  shows "step_keeps c n k (if is_request c i then 1 else 0) (rpc_step h i)"
proof (cases i)
  case (RHandle d1 d2 remote so m origin)
  then show ?thesis using handle_keeps [OF assms(1,2)] assms(4) by simp
next
  case (RAcceptTimeout j)
  then show ?thesis
    using on_object_keeps [OF assms(1,2), of j] timeouts_end [OF assms(1), of j] assms(3)
    by (simp add: reachable_obj_def)
next
  case (RResponseTimeout j)
  then show ?thesis
    using on_object_keeps [OF assms(1,2), of j] timeouts_end [OF assms(1), of j] assms(3)
    by (simp add: reachable_obj_def)
next
  case (RClose s)
  then show ?thesis using subs_keeps [OF assms(1,2)] by simp
qed

lemma rpc_run_keeps:
  assumes "rpc_wf h" "call_inv c n k h" "rpc_history h is" "n + requested c is \<le> 1"
  shows "step_keeps c n k (requested c is) (rpc_run h is)"
  using assms
proof (induction "is" arbitrary: h n k)
  case Nil
  then show ?case by (simp add: step_keeps_def)
next
  case (Cons i "is")
  obtain h1 e1 where s: "rpc_step h i = (h1, e1)" by fastforce
  obtain h2 e2 where r: "rpc_run h1 is = (h2, e2)" by fastforce
  let ?d = "if is_request c i then 1 else 0 :: nat"
  have "step_keeps c n k ?d (h1, e1)"
    using rpc_step_keeps [OF Cons.prems(1,2), of i] Cons.prems(3,4) s by (auto split: if_splits)
  then have "step_keeps c (n + ?d) (k + finals c e1) (requested c is) (h2, e2)"
    using Cons.IH [of h1 "n + ?d" "k + finals c e1"] Cons.prems(3,4) s r
    by (auto simp: step_keeps_def split: if_splits)
  then show ?case by (cases "is_request c i") (simp_all add: step_keeps_def s r add.assoc)
qed

lemma new_rpc_handler_ok: "rpc_wf (new_rpc_handler subs) \<and> call_inv c 0 0 (new_rpc_handler subs)"
  by (simp add: rpc_wf_def call_inv_def new_rpc_handler_def ids_def js_simps)

section \<open>Properties\<close>

lemma rpc_reaches:
  assumes "rpc_history (new_rpc_handler subs) is" "requested c is \<le> 1"
  shows "step_keeps c 0 0 (requested c is) (rpc_run (new_rpc_handler subs) is)"
  using rpc_run_keeps [of "new_rpc_handler subs" c 0 0 "is"] new_rpc_handler_ok assms by simp

text \<open>An open call never hangs: its response timer is running, and when that fires the requestor is told and
  the call is gone.\<close>

lemma open_call_ends:
  assumes "rpc_history (new_rpc_handler subs) is" "requested c is \<le> 1"
    and "fst (rpc_run (new_rpc_handler subs) is) = h" "js_get (rpcs h) c = Some d"
  shows "rpc_enabled h (RResponseTimeout (rpc_id d)) \<and>
    \<not> js_has (rpcs (fst (rpc_step h (RResponseTimeout (rpc_id d))))) c \<and>
    (\<exists>m. m_corr m = c \<and> snd (rpc_step h (RResponseTimeout (rpc_id d))) =
       [RSend (r_requestor (rh_objs h ! rpc_id d)) (rpc_msg PA_RESPONSE_TIMEOUT m)])"
proof -
  have wf: "rpc_wf h" using rpc_reaches [OF assms(1,2)] assms(3) by (simp add: step_keeps_def)
  have "ids h c = Some (rpc_id d)" using assms(4) by (simp add: ids_def)
  then have o: "rpc_id d < length (rh_objs h)" "r_corr (rh_objs h ! rpc_id d) = c"
    "r_responseTimer (rh_objs h ! rpc_id d)" "m_corr (r_message (rh_objs h ! rpc_id d)) = c"
    using wf by (auto simp: rpc_wf_def)
  have "ids (fst (rpc_step h (RResponseTimeout (rpc_id d)))) c = None"
    using timeouts_end(2) [OF wf o(1)] o(2) by (simp add: ends_def)
  then show ?thesis
    using o by (auto simp: ids_def js_has_def onResponseTimeout_def Let_def)
qed

text \<open>C2: Over every history in which a correlation id is used for at most one request, its call is answered at most
  once, and it has been answered exactly when it has left the map of open calls. The answer is the provider's
  response or error, that no provider is left, or one of the two timeouts. As long as the call is open its
  response timer runs, and when that fires the call is answered and gone. Nothing in the code keeps a client from
  using an id twice; such histories are not covered.\<close>

theorem rpc_answered_once:
  assumes "rpc_history (new_rpc_handler subs) is" "requested c is \<le> 1"
    and "rpc_run (new_rpc_handler subs) is = (h, es)"
  shows "finals c es + (if js_has (rpcs h) c then 1 else 0) = requested c is \<and>
    (\<forall>d. js_get (rpcs h) c = Some d \<longrightarrow> rpc_enabled h (RResponseTimeout (rpc_id d)) \<and>
       finals c (es @ snd (rpc_step h (RResponseTimeout (rpc_id d)))) = 1 \<and>
       \<not> js_has (rpcs (fst (rpc_step h (RResponseTimeout (rpc_id d))))) c)"
proof (intro conjI allI impI)
  show n: "finals c es + (if js_has (rpcs h) c then 1 else 0) = requested c is"
    using rpc_reaches [OF assms(1,2)] assms(3)
    by (auto simp: step_keeps_def call_inv_def ids_def js_has_def split: option.splits)
  fix d assume d: "js_get (rpcs h) c = Some d"
  have "finals c es = 0" using n d assms(2) by (simp add: js_has_def)
  then show "finals c (es @ snd (rpc_step h (RResponseTimeout (rpc_id d)))) = 1"
    "rpc_enabled h (RResponseTimeout (rpc_id d))"
    "\<not> js_has (rpcs (fst (rpc_step h (RResponseTimeout (rpc_id d))))) c"
    using open_call_ends [OF assms(1,2) _ d] assms(3) by (auto simp: finals_rpc_msg)
qed

definition demo_request :: message where
  "demo_request = (msg T_RPC (RpcA PA_REQUEST))\<lparr>m_name := Some ''add'', m_corr := Some ''c1''\<rparr>"

definition demo_registry :: sub_registry where
  "demo_registry = new_registry T_RPC"

definition demo_history :: "rpc_input list" where
  "demo_history =
     [RHandle 0 0 [''s2''] (Some 1) demo_request '''',
      RHandle 0 0 [''s2''] None (demo_request\<lparr>m_action := RpcA PA_ACCEPT\<rparr>) ''s2'',
      RHandle 0 0 [''s2''] None (demo_request\<lparr>m_action := RpcA PA_RESPONSE\<rparr>) ''s2'']"

lemma rpc_answered_once_witness:
  "finals (Some ''c1'') (snd (rpc_run (new_rpc_handler demo_registry) demo_history)) = 1"
proof -
  have h: "rpc_history (new_rpc_handler demo_registry) demo_history"
    by (simp add: demo_history_def draw_ok_def)
  have r: "requested (Some ''c1'') demo_history = 1"
    by (simp add: demo_history_def demo_request_def msg_def)
  have "\<not> js_has (rpcs (fst (rpc_run (new_rpc_handler demo_registry) demo_history))) (Some ''c1'')"
    by code_simp
  then show ?thesis
    using rpc_answered_once [OF h, of "Some ''c1''" "fst (rpc_run (new_rpc_handler demo_registry) demo_history)"
      "snd (rpc_run (new_rpc_handler demo_registry) demo_history)"] r
    by (simp del: rpc_run.simps)
qed

text \<open>When a provider rejects, the alternative is a party the call has not been recorded with, and only when
  every local provider, and for a call of this server every remote one, is recorded is there no
  alternative. Any random start of the search gives this.\<close>

theorem alternative_fresh_and_complete:
  assumes "js_get (rpcs h) corr = Some d" "locals_only d"
    and "0 \<le> d1" "d1 < 1" "0 \<le> d2" "d2 < 1"
    and "getAlternativeProvider d1 d2 remote n corr h = (h', alt)"
  shows "(case alt of
      None \<Rightarrow> h' = h \<and> Local ` set (getLocalSubscribers (rh_subs h) n) \<subseteq> tried d \<and>
        (servers d \<noteq> None \<longrightarrow> Proxy ` set remote \<subseteq> tried d)
    | Some p \<Rightarrow> p \<notin> tried d \<and>
        p \<in> Local ` set (getLocalSubscribers (rh_subs h) n) \<union> Proxy ` set remote \<and>
        (\<exists>d'. js_get (rpcs h') corr = Some d' \<and> locals_only d' \<and> tried d' = insert p (tried d)))"
  using getAlternativeProvider_fresh [OF assms(1-6), where remote = remote and n = n] assms(7)
  by (cases alt) simp_all

lemma alternative_fresh_and_complete_witness:
  "snd (getAlternativeProvider 0 (1/2) [''s1'', ''s2''] ''add'' (Some ''c1'')
     ((new_rpc_handler demo_registry)\<lparr>rpcs := [(Some ''c1'', \<lparr>providers = [], servers = Some [''s2''], rpc_id = 0\<rparr>)]\<rparr>))
   \<notin> Some ` tried \<lparr>providers = [], servers = Some [''s2''], rpc_id = 0\<rparr>"
proof -
  let ?d = "\<lparr>providers = [], servers = Some [''s2''], rpc_id = 0\<rparr>"
  let ?h = "(new_rpc_handler demo_registry)\<lparr>rpcs := [(Some ''c1'', ?d)]\<rparr>"
  have 1: "js_get (rpcs ?h) (Some ''c1'') = Some ?d" by simp
  have 2: "locals_only ?d" by (simp add: locals_only_def)
  obtain h' alt where g: "getAlternativeProvider 0 (1/2) [''s1'', ''s2''] ''add'' (Some ''c1'') ?h = (h', alt)"
    by fastforce
  show ?thesis
    using alternative_fresh_and_complete [OF 1 2 _ _ _ _ g] g by (cases alt) auto
qed

section \<open>One hop\<close>

definition static :: "rpc \<Rightarrow> string option \<times> party" where
  "static r = (r_corr r, r_requestor r)"

text \<open>What a call that came from a server knows: it has no remote servers to try.\<close>

definition hop_inv :: "rpc_handler \<Rightarrow> bool" where
  "hop_inv h \<longleftrightarrow> (\<forall>c d. js_get (rpcs h) c = Some d \<longrightarrow>
     (\<exists>q. rpc_id d < length (rh_objs h) \<and> map static (rh_objs h) ! rpc_id d = (c, q) \<and>
        (is_remote q \<longrightarrow> servers d = None)))"

definition hop_ok :: "rpc_handler \<times> rpc_effect list \<Rightarrow> bool" where
  "hop_ok res \<longleftrightarrow> hop_inv (fst res) \<and> (\<forall>s m t. RRequest (Proxy s) m (Proxy t) \<notin> set (snd res))"

lemma hop_inv_static:
  assumes "hop_inv h" "map static (rh_objs h') = map static (rh_objs h)"
    and "\<And>c d'. js_get (rpcs h') c = Some d' \<Longrightarrow>
      \<exists>d. js_get (rpcs h) c = Some d \<and> rpc_id d = rpc_id d' \<and> (servers d = None \<longrightarrow> servers d' = None)"
  shows "hop_inv h'"
  unfolding hop_inv_def
proof (intro allI impI)
  fix c d'
  assume "js_get (rpcs h') c = Some d'"
  from assms(3) [OF this] obtain d
    where d: "js_get (rpcs h) c = Some d" "rpc_id d = rpc_id d'" "servers d = None \<longrightarrow> servers d' = None"
    by (elim exE conjE)
  obtain q where "rpc_id d < length (rh_objs h)" "map static (rh_objs h) ! rpc_id d = (c, q)"
    "is_remote q \<longrightarrow> servers d = None"
    using assms(1) d(1) unfolding hop_inv_def by blast
  moreover have "length (rh_objs h') = length (rh_objs h)" using assms(2) by (metis length_map)
  ultimately show "\<exists>q. rpc_id d' < length (rh_objs h') \<and> map static (rh_objs h') ! rpc_id d' = (c, q) \<and>
      (is_remote q \<longrightarrow> servers d' = None)"
    using assms(2) d(2,3) by auto
qed

lemma static_update [simp]:
  "static r = static (xs ! i) \<Longrightarrow> map static (xs[i := r]) = map static xs"
  by (cases "i < length xs") (auto simp: list_update_beyond map_update list_update_same_conv)

lemma rpc_destroy_hop: "hop_inv h \<Longrightarrow> hop_inv (rpc_destroy i h)"
  by (rule hop_inv_static [of h])
    (simp_all add: rpc_destroy_def onRPCDestroyed_def update_rpc_def static_def js_simps Let_def split: if_splits)

lemma getAlternativeProvider_hop:
  assumes "hop_inv h" "js_get (rpcs h) c = Some d"
    and "getAlternativeProvider d1 d2 remote n c h = (h', alt)" "draw_ok d1"
  shows "hop_inv h'" "rh_objs h' = rh_objs h"
    "alt = Some (Proxy s) \<Longrightarrow> \<not> is_remote (r_requestor (rh_objs h ! rpc_id d))"
proof -
  show "rh_objs h' = rh_objs h"
    using getAlternativeProvider_keeps [of d1 d2 remote n c h] assms(3) by simp
  have "hop_inv h \<Longrightarrow> hop_inv h'"
    by (rule hop_inv_static [of h])
      (use assms(2,3) in \<open>auto simp: getAlternativeProvider_def Let_def js_simps split: option.splits if_splits\<close>)
  then show "hop_inv h'" using assms(1) .
  assume "alt = Some (Proxy s)"
  moreover have "find_unused (length ls) (random_index d1 ls) ls used \<noteq> Some (Proxy s)"
    if "ls = map Local (getLocalSubscribers (rh_subs h) n)" for ls used
    using find_unused_complete [of d1 ls used] that assms(4) by (auto simp: draw_ok_def split: option.splits)
  ultimately have "servers d \<noteq> None"
    using assms(2,3) by (auto simp: getAlternativeProvider_def Let_def split: option.splits)
  then show "\<not> is_remote (r_requestor (rh_objs h ! rpc_id d))"
    using assms(1,2) by (fastforce simp: hop_inv_def static_def)
qed

lemma rpc_handle_hop:
  assumes "hop_inv h" "js_get (rpcs h) c = Some d" "draw_ok d1"
  shows "hop_ok (rpc_handle d1 d2 remote (rpc_id d) m h)"
proof -
  let ?i = "rpc_id d" and ?r = "rh_objs h ! rpc_id d"
  have corr: "r_corr ?r = c" using assms(1,2) by (fastforce simp: hop_inv_def static_def)
  have upd: "hop_inv (update_rpc ?i r h')" if "static r = static (rh_objs h' ! ?i)" "hop_inv h'" for r h'
    by (rule hop_inv_static [of h']) (use that in \<open>simp_all add: update_rpc_def\<close>)
  have "hop_ok (reroute d1 d2 remote ?i h)"
  proof -
    obtain h1 alt where g: "getAlternativeProvider d1 d2 remote (r_name ?r) c h = (h1, alt)" by fastforce
    note a = getAlternativeProvider_hop [OF assms(1,2) g assms(3)]
    show ?thesis
    proof (cases alt)
      case None
      then show ?thesis using g corr a(1) rpc_destroy_hop by (simp add: reroute_def Let_def hop_ok_def)
    next
      case (Some p)
      have "hop_inv (update_rpc ?i (fst (setProvider p ?r)) h1)"
        using upd a(1,2) by (simp add: setProvider_def static_def)
      moreover have "Proxy s = p \<Longrightarrow> Proxy t \<noteq> r_requestor ?r" for s t
        using a(3) [of s] Some by (metis is_remote.simps(2))
      ultimately show ?thesis
        using g corr Some by (simp add: reroute_def Let_def hop_ok_def setProvider_def)
    qed
  qed
  moreover have "hop_ok (update_rpc ?i (fst (handleAccept m ?r)) h, snd (handleAccept m ?r))"
    using upd [of "fst (handleAccept m ?r)" h] assms(1)
    by (auto simp: handleAccept_def static_def hop_ok_def)
  moreover have "hop_ok (rpc_destroy ?i h, [RSend (r_requestor ?r) m])"
    using rpc_destroy_hop assms(1) by (simp add: hop_ok_def)
  moreover have "hop_ok (h, [])" using assms(1) by (simp add: hop_ok_def)
  ultimately show ?thesis by (simp add: rpc_handle_def Let_def split_beta)
qed

lemma hop_invD:
  assumes "hop_inv h" "js_get (rpcs h) c = Some d"
  shows "rpc_id d < length (rh_objs h)" "r_corr (rh_objs h ! rpc_id d) = c"
    "is_remote (r_requestor (rh_objs h ! rpc_id d)) \<Longrightarrow> servers d = None"
  using assms by (fastforce simp: hop_inv_def static_def)+

lemma register_hop:
  assumes "hop_inv h" "is_remote requestor \<longrightarrow> ss = None \<and> \<not> is_remote provider"
  shows "hop_ok (register_rpc requestor provider m ps ss h)"
proof -
  have "hop_inv (h\<lparr>rh_objs := rh_objs h @ [r], rpcs := js_set (m_corr m) \<lparr>providers = ps, servers = ss,
      rpc_id = length (rh_objs h)\<rparr> (rpcs h)\<rparr>)" if "static r = (m_corr m, requestor)" for r
    using assms(2) that hop_invD [OF assms(1)]
    by (subst hop_inv_def) (auto simp: js_simps nth_append static_def less_SucI)
  moreover have "RRequest (Proxy s) m' (Proxy t) \<notin> {RRequest provider m requestor}" for s m' t
    using assms(2) by auto
  ultimately show ?thesis
    by (simp add: register_rpc_def new_rpc_def setProvider_def hop_ok_def static_def Let_def)
qed

lemma makeRpc_hop:
  assumes "hop_inv h" "is_remote so = r"
  shows "hop_ok (makeRpc d1 d2 remote so m r h)"
proof -
  let ?ls = "map Local (getLocalSubscribers (rh_subs h) (the (m_name m)))"
  have del: "hop_inv (h\<lparr>rpcs := js_delete (m_corr m) (rpcs h)\<rparr>)"
    by (rule hop_inv_static [OF assms(1)]) (auto simp: js_simps split: if_splits)
  show ?thesis
  proof (cases "js_index (random_index d1 ?ls) ?ls")
    case None
    then show ?thesis
      using assms del register_hop [OF assms(1)]
      by (cases "js_index (random_index d2 remote) remote")
        (auto simp: makeRpc_def makeRemoteRpc_def Let_def hop_ok_def)
  next
    case (Some p)
    then have "\<not> is_remote p" by (auto simp: js_index_def split: if_splits)
    then show ?thesis using Some assms register_hop [OF assms(1)] by (simp add: makeRpc_def Let_def)
  qed
qed

lemma rpc_step_hop:
  assumes "hop_inv h" "rpc_enabled h i"
  shows "hop_ok (rpc_step h i)"
proof -
  have sub: "hop_ok (on_rpc_subs f h)" for f
  proof -
    obtain r es where "f (rh_subs h) = (r, es)" by fastforce
    moreover have "hop_inv (h\<lparr>rh_subs := r\<rparr>)" by (rule hop_inv_static [OF assms(1)]) auto
    ultimately show ?thesis by (auto simp: on_rpc_subs_def hop_ok_def)
  qed
  have same: "hop_ok (h, [])" "\<And>p m. hop_ok (h, [RSend p m])" using assms(1) by (simp_all add: hop_ok_def)
  show ?thesis
  proof (cases i)
    case (RHandle d1 d2 remote so m origin)
    then have "draw_ok d1" using assms(2) by simp
    note r = rpc_handle_hop [OF assms(1) _ this]
    show ?thesis
    proof (cases so)
      case None
      then show ?thesis
        using RHandle makeRpc_hop [OF assms(1)] r same
        by (simp add: handle_def onRemoteRPCMessage_def split: option.split)
    next
      case (Some s)
      then show ?thesis
        using RHandle makeRpc_hop [OF assms(1)] r same sub
        by (simp add: handle_def split: option.split)
    qed
  qed (use sub rpc_destroy_hop assms(1) in \<open>simp_all add: onAcceptTimeout_def onResponseTimeout_def hop_ok_def Let_def\<close>)
qed

lemma rpc_run_hop:
  "hop_inv h \<Longrightarrow> rpc_history h is \<Longrightarrow> hop_ok (rpc_run h is)"
proof (induction "is" arbitrary: h)
  case Nil
  then show ?case by (simp add: hop_ok_def)
next
  case (Cons i "is")
  then have "hop_ok (rpc_step h i)" using rpc_step_hop by simp
  then show ?case using Cons by (auto simp: hop_ok_def split_beta)
qed

text \<open>C39: a request that came from another server is never sent on to a server: neither at once nor when its
  provider rejects it, so requests do not travel in circles.\<close>

theorem one_hop:
  assumes "rpc_history (new_rpc_handler subs) is"
  shows "RRequest (Proxy s) m (Proxy t) \<notin> set (snd (rpc_run (new_rpc_handler subs) is))"
  using rpc_run_hop [OF _ assms] by (simp add: hop_ok_def hop_inv_def new_rpc_handler_def)

lemma one_hop_witness:
  "RRequest (Proxy ''s2'') demo_request (Proxy ''s3'') \<notin>
     set (snd (rpc_run (new_rpc_handler demo_registry) [RHandle 0 0 [''s2''] None demo_request ''s3'']))"
  by (rule one_hop) (simp add: draw_ok_def)

section \<open>Where the routing fails\<close>

text \<open>A call that starts at a remote server does not record that server as tried (\<open>makeRemoteRpc\<close>), so when
  the only server with a provider rejects it the request is sent to that server again.\<close>

theorem rejecting_server_asked_again:
  assumes "getLocalSubscribers (rh_subs h) (the (m_name m)) = []" "draw_ok d1" "draw_ok d2" "draw_ok d3" "draw_ok d4"
    and "rpc_step h (RHandle d1 d2 [s] (Some so) m '''') = (h1, es)" "m_action m = RpcA PA_REQUEST"
    and "m_action rej = RpcA PA_REJECT" "m_corr rej = m_corr m"
  shows "es = [RRequest (Proxy s) m (Local so)] \<and>
    snd (rpc_step h1 (RHandle d3 d4 [s] None rej s)) = [RRequest (Proxy s) m (Local so)]"
proof -
  have i: "random_index d [s] = 0" if "draw_ok d" for d
    using random_index_less [of d "[s]"] that by (simp add: draw_ok_def)
  obtain r where r: "new_rpc (Local so) (Proxy s) m = (r, [RRequest (Proxy s) m (Local so)])"
    "r_corr r = m_corr m" "r_name r = the (m_name m)" "r_message r = m" "r_requestor r = Local so"
    by (simp add: new_rpc_def setProvider_def)
  have 1: "rpc_step h (RHandle d1 d2 [s] (Some so) m '''') =
      (h\<lparr>rh_objs := rh_objs h @ [r], rpcs := js_set (m_corr m)
         \<lparr>providers = [], servers = Some [], rpc_id = length (rh_objs h)\<rparr> (rpcs h)\<rparr>,
       [RRequest (Proxy s) m (Local so)])"
    using assms(1,7) i [OF assms(3)] r(1)
    by (simp add: handle_def makeRpc_def makeRemoteRpc_def register_rpc_def js_index_def Let_def)
  then have h1: "h1 = h\<lparr>rh_objs := rh_objs h @ [r], rpcs := js_set (m_corr m)
         \<lparr>providers = [], servers = Some [], rpc_id = length (rh_objs h)\<rparr> (rpcs h)\<rparr>"
    "es = [RRequest (Proxy s) m (Local so)]"
    using assms(6) by simp_all
  then show ?thesis
    using assms(1,8,9) i [OF assms(5)] r
    by (simp add: handle_def onRemoteRPCMessage_def rpc_handle_def reroute_def getAlternativeProvider_def
        setProvider_def js_simps Let_def)
qed

lemma rejecting_server_asked_again_witness:
  "snd (rpc_step (fst (rpc_step (new_rpc_handler demo_registry) (RHandle 0 0 [''s2''] (Some 1) demo_request '''')))
     (RHandle 0 0 [''s2''] None (demo_request\<lparr>m_action := RpcA PA_REJECT\<rparr>) ''s2''))
   = [RRequest (Proxy ''s2'') demo_request (Local 1)]"
proof -
  have l: "getLocalSubscribers (rh_subs (new_rpc_handler demo_registry)) (the (m_name demo_request)) = []"
    by code_simp
  have z: "draw_ok 0" by (simp add: draw_ok_def)
  show ?thesis
    using rejecting_server_asked_again [OF l z z z z prod.collapse [symmetric],
        where s = "''s2''" and so = 1 and rej = "demo_request\<lparr>m_action := RpcA PA_REJECT\<rparr>"]
    by (simp add: demo_request_def msg_def)
qed

text \<open>The accept flag survives a reroute: when a provider accepted and then rejected, the next provider's
  accept is refused as a second one and the accept timer keeps running, so the call is going to be
  ended by an accept timeout.\<close>

theorem accept_after_reroute_refused:
  assumes "i < length (rh_objs h)" "r_accepted (rh_objs h ! i)"
    and "m_corr rej = r_corr (rh_objs h ! i)" "m_action rej = RpcA PA_REJECT"
    and "rpc_handle d1 d2 remote i rej h = (h1, [RRequest p rq so])"
    and "m_corr acc = r_corr (rh_objs h ! i)" "m_action acc = RpcA PA_ACCEPT"
    and "rpc_handle d3 d4 remote' i acc h1 = (h2, es)"
  shows "es = [RSend p (rpc_msg PA_MULTIPLE_ACCEPT rq)] \<and> rpc_enabled h2 (RAcceptTimeout i)"
proof -
  let ?r = "rh_objs h ! i"
  obtain h0 alt where g: "getAlternativeProvider d1 d2 remote (r_name ?r) (r_corr ?r) h = (h0, alt)" by fastforce
  then have h0: "rh_objs h0 = rh_objs h"
    using getAlternativeProvider_keeps [of d1 d2 remote "r_name ?r" "r_corr ?r" h] by simp
  have "reroute d1 d2 remote i h = (h1, [RRequest p rq so])"
    using assms(3-5) by (simp add: rpc_handle_def)
  then have h1: "h1 = update_rpc i (fst (setProvider p ?r)) h0" "rq = r_message ?r"
    using g by (auto simp: reroute_def setProvider_def Let_def split: option.splits)
  have "rh_objs h1 ! i = ?r\<lparr>r_provider := p, r_acceptTimer := True, r_responseTimer := True\<rparr>"
    "i < length (rh_objs h1)"
    using assms(1) h0 by (simp_all add: h1 update_rpc_def setProvider_def)
  then show ?thesis
    using assms(2,6-8) h1(2)
    by (auto simp: rpc_handle_def handleAccept_def update_rpc_def split: if_splits)
qed

definition demo_handler :: rpc_handler where
  "demo_handler = fst (rpc_run (new_rpc_handler demo_registry) (take 2 demo_history))"

lemma accept_after_reroute_refused_witness:
  "rpc_enabled (fst (rpc_handle 0 0 [''s2''] 0 (demo_request\<lparr>m_action := RpcA PA_ACCEPT\<rparr>)
     (fst (rpc_handle 0 0 [''s2''] 0 (demo_request\<lparr>m_action := RpcA PA_REJECT\<rparr>) demo_handler)))) (RAcceptTimeout 0)"
proof -
  have 1: "0 < length (rh_objs demo_handler) \<and> r_accepted (rh_objs demo_handler ! 0)" by code_simp
  have 2: "r_corr (rh_objs demo_handler ! 0) = Some ''c1''" by code_simp
  have "(case snd (rpc_handle 0 0 [''s2''] 0 (demo_request\<lparr>m_action := RpcA PA_REJECT\<rparr>) demo_handler) of
      [RRequest p rq so] \<Rightarrow> True | _ \<Rightarrow> False)"
    by code_simp
  then have "\<exists>p rq so. snd (rpc_handle 0 0 [''s2''] 0 (demo_request\<lparr>m_action := RpcA PA_REJECT\<rparr>) demo_handler) = [RRequest p rq so]"
    by (auto split: list.splits rpc_effect.splits)
  then obtain p rq so h1 where 3: "rpc_handle 0 0 [''s2''] 0 (demo_request\<lparr>m_action := RpcA PA_REJECT\<rparr>) demo_handler
      = (h1, [RRequest p rq so])"
    by (metis prod.collapse)
  obtain h2 es where 4: "rpc_handle 0 0 [''s2''] 0 (demo_request\<lparr>m_action := RpcA PA_ACCEPT\<rparr>) h1 = (h2, es)" by fastforce
  show ?thesis
    using accept_after_reroute_refused [OF conjunct1 [OF 1] conjunct2 [OF 1] _ _ 3 _ _ 4] 2 3 4
    by (simp add: demo_request_def)
qed

end
