(* ===== verification/Presence.thy ===== *)
theory Presence
  imports Subscriptions
begin

text \<open>
  Presence (\<open>src/handlers/presence/presence-handler.ts\<close>): who is logged in, and who is told. The
  handler counts the connections of a user on this server and keeps the user in the registry of
  online users while there is one; the registry's events become the join and leave messages. The
  registry is the one of a single node.
\<close>

section \<open>State and operations\<close>

definition EVERYONE :: string where
  "EVERYONE = ''%_EVERYONE_%''"

record presence =
  localClients :: "(string, nat) jsmap"
  u_subs :: sub_registry
  connectedClients :: single_registry

definition new_presence :: "sub_registry \<Rightarrow> presence" where
  "new_presence subs = \<lparr>localClients = [], u_subs = subs, connectedClients = []\<rparr>"

definition presence_msg :: "presence_action \<Rightarrow> string \<Rightarrow> message" where
  "presence_msg a username = (msg T_PRESENCE (PresenceA a))\<lparr>m_name := Some username\<rparr>"

definition onClientAdded :: "string \<Rightarrow> presence \<Rightarrow> sub_effect list" where
  "onClientAdded username p =
     sendToSubscribers EVERYONE (presence_msg UA_PRESENCE_JOIN_ALL username) False None True (u_subs p) @
     sendToSubscribers username (presence_msg UA_PRESENCE_JOIN username) False None True (u_subs p)"

definition onClientRemoved :: "string \<Rightarrow> presence \<Rightarrow> sub_effect list" where
  "onClientRemoved username p =
     sendToSubscribers EVERYONE (presence_msg UA_PRESENCE_LEAVE_ALL username) False None False (u_subs p) @
     sendToSubscribers username (presence_msg UA_PRESENCE_LEAVE username) False None False (u_subs p)"

text \<open>The callbacks registered with \<open>onAdd\<close> and \<open>onRemove\<close>.\<close>

fun on_registry_event :: "presence \<Rightarrow> reg_event \<Rightarrow> sub_effect list" where
  "on_registry_event p (NameAdded u) = onClientAdded u p"
| "on_registry_event p (NameRemoved u) = onClientRemoved u p"

definition on_registry :: "single_registry \<times> reg_event list \<Rightarrow> presence \<Rightarrow> presence \<times> sub_effect list" where
  "on_registry res p = (p\<lparr>connectedClients := fst res\<rparr>, concat (map (on_registry_event p) (snd res)))"

definition onClientConnected :: "string \<Rightarrow> presence \<Rightarrow> presence \<times> sub_effect list" where
  "onClientConnected userId p =
     (if userId = ''OPEN'' then (p, [])
      else case js_get (localClients p) userId of
             None \<Rightarrow> on_registry (ssr_add userId (connectedClients p))
                       (p\<lparr>localClients := js_set userId 1 (localClients p)\<rparr>)
           | Some n \<Rightarrow> (p\<lparr>localClients := js_set userId (n + 1) (localClients p)\<rparr>, []))"

definition onClientDisconnected :: "string \<Rightarrow> presence \<Rightarrow> presence \<times> sub_effect list" where
  "onClientDisconnected userId p =
     (if userId = ''OPEN'' then (p, [])
      else case js_get (localClients p) userId of
             None \<Rightarrow> (p, [])
           | Some n \<Rightarrow>
               if n = 0 then (p, [])
               else if n = 1 then on_registry (ssr_remove userId (connectedClients p))
                       (p\<lparr>localClients := js_delete userId (localClients p)\<rparr>)
               else (p\<lparr>localClients := js_set userId (n - 1) (localClients p)\<rparr>, []))"

definition handleQueryAll :: "string \<Rightarrow> socket \<Rightarrow> presence \<Rightarrow> sub_effect list" where
  "handleQueryAll userId s p =
     (let clients = ssr_getAll (connectedClients p); index = js_indexOf clients userId
      in [Out (SendMessage s ((msg T_PRESENCE (PresenceA UA_QUERY_ALL_RESPONSE))
            \<lparr>m_names := Some (if index \<noteq> -1 then js_splice1 index clients else clients)\<rparr>))])"

definition query_result :: "string list \<Rightarrow> string list \<Rightarrow> (string \<times> json) list" where
  "query_result clients users = foldl (\<lambda>res u. js_set u (JBool (u \<in> set clients)) res) [] users"

definition handleQuery :: "string list \<Rightarrow> string option \<Rightarrow> socket \<Rightarrow> presence \<Rightarrow> sub_effect list" where
  "handleQuery users corr s p =
     [Out (SendMessage s ((msg T_PRESENCE (PresenceA UA_QUERY_RESPONSE))
        \<lparr>m_corr := corr, m_parsed := Some (JObj (query_result (ssr_getAll (connectedClients p)) users))\<rparr>))]"

definition on_presence_subs ::
  "(sub_registry \<Rightarrow> sub_registry \<times> sub_effect list) \<Rightarrow> presence \<Rightarrow> presence \<times> sub_effect list" where
  "on_presence_subs f p = (case f (u_subs p) of (r, es) \<Rightarrow> (p\<lparr>u_subs := r\<rparr>, es))"

definition also_ack :: "socket \<Rightarrow> message \<Rightarrow> presence \<times> sub_effect list \<Rightarrow> presence \<times> sub_effect list" where
  "also_ack s m res = (fst res, snd res @ [Out (SendAck s (msg (m_topic m) (m_action m)))])"

definition presence_handle :: "string \<Rightarrow> socket \<Rightarrow> message \<Rightarrow> presence \<Rightarrow> presence \<times> sub_effect list" where
  "presence_handle userId s m p =
     (if m_action m = PresenceA UA_QUERY_ALL then (p, handleQueryAll userId s p)
      else if m_action m = PresenceA UA_SUBSCRIBE_ALL
      then also_ack s m (on_presence_subs (subscribe EVERYONE (presence_msg UA_SUBSCRIBE_ALL EVERYONE) s True) p)
      else if m_action m = PresenceA UA_UNSUBSCRIBE_ALL
      then also_ack s m (on_presence_subs (unsubscribe EVERYONE (presence_msg UA_UNSUBSCRIBE_ALL EVERYONE) s True) p)
      else case m_names m of
             None \<Rightarrow> (p, [])
           | Some users \<Rightarrow>
               if m_action m = PresenceA UA_SUBSCRIBE then on_presence_subs (subscribeBulk users m s False) p
               else if m_action m = PresenceA UA_UNSUBSCRIBE then on_presence_subs (unsubscribeBulk users m s False) p
               else if m_action m = PresenceA UA_QUERY then (p, handleQuery users (m_corr m) s p)
               else (p, []))"

text \<open>What reaches the handler: a user's connection opens or closes, a client sends a message, the close
  event of a subscribed socket.\<close>

datatype presence_input =
    UConnect string
  | UDisconnect string
  | UHandle string socket message
  | UClose socket

fun presence_step :: "presence \<Rightarrow> presence_input \<Rightarrow> presence \<times> sub_effect list" where
  "presence_step p (UConnect u) = onClientConnected u p"
| "presence_step p (UDisconnect u) = onClientDisconnected u p"
| "presence_step p (UHandle u s m) = presence_handle u s m p"
| "presence_step p (UClose s) = on_presence_subs (onSocketClose s) p"

section \<open>The connection count\<close>

fun connections :: "(string \<Rightarrow> nat) \<Rightarrow> presence_input \<Rightarrow> string \<Rightarrow> nat" where
  "connections c (UConnect u) = c(u := Suc (c u))"
| "connections c (UDisconnect u) = c(u := c u - 1)"
| "connections c (UHandle u s m) = c"
| "connections c (UClose s) = c"

abbreviation online_count :: "(string \<Rightarrow> nat) \<Rightarrow> string \<Rightarrow> nat" where
  "online_count c u \<equiv> (if u \<noteq> ''OPEN'' \<and> 0 < c u then 1 else 0)"

definition presence_inv :: "(string \<Rightarrow> nat) \<Rightarrow> presence \<Rightarrow> bool" where
  "presence_inv c p \<longleftrightarrow>
     (\<forall>u. js_get (localClients p) u = (if u \<noteq> ''OPEN'' \<and> 0 < c u then Some (c u) else None)) \<and>
     ssr_inv (connectedClients p) \<and> ssr_cnt (connectedClients p) = online_count c"

text \<open>The events of the registry of online users that a connection causes.\<close>

fun news :: "(string \<Rightarrow> nat) \<Rightarrow> presence_input \<Rightarrow> reg_event list" where
  "news c (UConnect u) = (if u \<noteq> ''OPEN'' \<and> c u = 0 then [NameAdded u] else [])"
| "news c (UDisconnect u) = (if u \<noteq> ''OPEN'' \<and> c u = 1 then [NameRemoved u] else [])"
| "news c _ = []"

fun is_connection :: "presence_input \<Rightarrow> bool" where
  "is_connection (UConnect u) = True"
| "is_connection (UDisconnect u) = True"
| "is_connection _ = False"

lemma onClientConnected_ok:
  assumes "presence_inv c p"
  shows "presence_inv (c(u := Suc (c u))) (fst (onClientConnected u p)) \<and>
    u_subs (fst (onClientConnected u p)) = u_subs p \<and>
    snd (onClientConnected u p) = concat (map (on_registry_event p) (news c (UConnect u)))"
proof -
  have inv: "ssr_inv (connectedClients p)" using assms by (simp add: presence_inv_def)
  have cnt: "ssr_cnt (connectedClients p) u = online_count c u" using assms by (simp add: presence_inv_def)
  note add = ssr_add_spec [OF inv, of u]
  show ?thesis
  proof (cases "u \<noteq> ''OPEN'' \<and> c u = 0")
    case True
    then have "ssr_cnt (fst (ssr_add u (connectedClients p))) = online_count (c(u := Suc (c u)))"
      using add cnt assms by (auto simp: presence_inv_def fun_eq_iff)
    moreover have "js_get (localClients p) u = None" using assms True by (simp add: presence_inv_def)
    moreover have "on_registry_event (p\<lparr>localClients := x\<rparr>) = on_registry_event p" for x
      by (rule ext, rename_tac e, case_tac e) (simp_all add: onClientAdded_def onClientRemoved_def)
    ultimately show ?thesis
      using True add cnt assms
      by (simp add: onClientConnected_def on_registry_def presence_inv_def js_simps)
  next
    case False
    have "online_count (c(u := Suc (c u))) = online_count c" using False by (auto simp: fun_eq_iff)
    then show ?thesis
      using False assms by (auto simp: onClientConnected_def presence_inv_def js_simps)
  qed
qed

lemma onClientDisconnected_ok:
  assumes "presence_inv c p"
  shows "presence_inv (c(u := c u - 1)) (fst (onClientDisconnected u p)) \<and>
    u_subs (fst (onClientDisconnected u p)) = u_subs p \<and>
    snd (onClientDisconnected u p) = concat (map (on_registry_event p) (news c (UDisconnect u)))"
proof -
  have inv: "ssr_inv (connectedClients p)" using assms by (simp add: presence_inv_def)
  have cnt: "ssr_cnt (connectedClients p) u = online_count c u" using assms by (simp add: presence_inv_def)
  show ?thesis
  proof (cases "u \<noteq> ''OPEN'' \<and> c u = 1")
    case True
    then have remove: "ssr_inv (fst (ssr_remove u (connectedClients p)))"
      "ssr_cnt (fst (ssr_remove u (connectedClients p))) = online_count (c(u := c u - 1))"
      "snd (ssr_remove u (connectedClients p)) = [NameRemoved u]"
      using ssr_remove_spec [OF inv, of u] cnt assms by (auto simp: presence_inv_def fun_eq_iff)
    moreover have "js_get (localClients p) u = Some 1" using assms True by (simp add: presence_inv_def)
    moreover have "on_registry_event (p\<lparr>localClients := x\<rparr>) = on_registry_event p" for x
      by (rule ext, rename_tac e, case_tac e) (simp_all add: onClientAdded_def onClientRemoved_def)
    ultimately show ?thesis
      using True assms
      by (simp add: onClientDisconnected_def on_registry_def presence_inv_def js_simps)
  next
    case False
    have "online_count (c(u := c u - 1)) = online_count c" using False by (auto simp: fun_eq_iff)
    then show ?thesis
      using False assms by (auto simp: onClientDisconnected_def presence_inv_def js_simps)
  qed
qed

lemma presence_handle_inv:
  assumes "presence_inv c p" shows "presence_inv c (fst (presence_handle u s m p))"
proof -
  have "presence_inv c (fst (on_presence_subs f p))" for f
    using assms by (simp add: on_presence_subs_def presence_inv_def split_beta)
  then show ?thesis
    using assms by (simp add: presence_handle_def also_ack_def split: option.split)
qed

lemma presence_step_inv:
  assumes "presence_inv c p" shows "presence_inv (connections c i) (fst (presence_step p i))"
proof (cases i)
  case (UConnect u)
  then show ?thesis using onClientConnected_ok [OF assms, of u] by simp
next
  case (UDisconnect u)
  then show ?thesis using onClientDisconnected_ok [OF assms, of u] by simp
next
  case (UHandle u s m)
  then show ?thesis using presence_handle_inv [OF assms] by simp
next
  case (UClose s)
  then show ?thesis using assms by (simp add: on_presence_subs_def presence_inv_def split_beta)
qed

lemma presence_run_inv:
  "presence_inv c p \<Longrightarrow> presence_inv (foldl connections c is) (fst (run presence_step p is))"
proof (induction "is" arbitrary: c p)
  case (Cons i "is")
  then show ?case using presence_step_inv [OF Cons.prems, of i] by (simp add: split_beta Let_def)
qed simp

lemma new_presence_inv: "presence_inv (\<lambda>_. 0) (new_presence r)"
  by (auto simp: presence_inv_def new_presence_def ssr_inv_def ssr_cnt_def)

lemma presence_online:
  "presence_inv c p \<Longrightarrow> u \<in> set (ssr_getAll (connectedClients p)) \<longleftrightarrow> u \<noteq> ''OPEN'' \<and> 0 < c u"
  using ssr_names_spec(2) [of "connectedClients p"] by (auto simp: presence_inv_def)

section \<open>What a subscriber to everyone is told\<close>

fun everyone_news :: "socket \<Rightarrow> sub_effect list \<Rightarrow> reg_event list" where
  "everyone_news s [] = []"
| "everyone_news s (Out (SendBuilt t m b) # es) =
     (if t = s \<and> m_action m = PresenceA UA_PRESENCE_JOIN_ALL then [NameAdded (the (m_name m))]
      else if t = s \<and> m_action m = PresenceA UA_PRESENCE_LEAVE_ALL then [NameRemoved (the (m_name m))]
      else []) @ everyone_news s es"
| "everyone_news s (e # es) = everyone_news s es"

lemma everyone_news_append [simp]: "everyone_news s (es @ fs) = everyone_news s es @ everyone_news s fs"
  by (induction s es rule: everyone_news.induct) auto

lemma everyone_news_other:
  "m_action m \<noteq> PresenceA UA_PRESENCE_JOIN_ALL \<Longrightarrow> m_action m \<noteq> PresenceA UA_PRESENCE_LEAVE_ALL \<Longrightarrow>
    everyone_news s (map (\<lambda>t. Out (SendBuilt t m b)) ts) = []"
  by (induction ts) auto

lemma everyone_news_all:
  "distinct ts \<Longrightarrow> everyone_news s (map (\<lambda>t. Out (SendBuilt t m b)) ts) =
    (if s \<in> set ts then everyone_news s [Out (SendBuilt s m b)] else [])"
  by (induction ts) auto

lemma broadcast_presence_msg [simp]: "broadcast_message (presence_msg a u) = presence_msg a u"
  by (simp add: broadcast_message_def presence_msg_def msg_def)

lemma presence_msg_simps [simp]:
  "m_action (presence_msg a u) = PresenceA a" "m_name (presence_msg a u) = Some u"
  by (simp_all add: presence_msg_def msg_def)

lemma sent_local:
  "sendToSubscribers n (presence_msg a u) False None b r =
     map (\<lambda>t. Out (SendBuilt t (presence_msg a u) True)) (getLocalSubscribers r n)"
  by (simp add: sendToSubscribers_def getLocalSubscribers_def split: option.split)

lemma everyone_told:
  assumes "sub_inv (u_subs p)" "s \<in> set (getLocalSubscribers (u_subs p) EVERYONE)"
  shows "everyone_news s (concat (map (on_registry_event p) es)) = es"
proof (induction es)
  case (Cons e es)
  have "everyone_news s (on_registry_event p e) = [e]"
    using assms(2) sub_invD(1) [OF assms(1)]
    by (cases e) (simp_all add: onClientAdded_def onClientRemoved_def sent_local everyone_news_all everyone_news_other)
  then show ?case using Cons by simp
qed simp

lemma connection_step:
  assumes "presence_inv c p" "is_connection i"
  shows "u_subs (fst (presence_step p i)) = u_subs p"
    and "snd (presence_step p i) = concat (map (on_registry_event p) (news c i))"
  using assms onClientConnected_ok [OF assms(1)] onClientDisconnected_ok [OF assms(1)]
  by (cases i; auto)+

lemma news_alternate:
  "alternates u (0 < online_count c u) (news c i) \<and>
   present_after u (0 < online_count c u) (news c i) = (0 < online_count (connections c i) u)"
  by (cases i) (auto split: if_splits)

lemma everyone_run:
  assumes "presence_inv c p" "sub_inv (u_subs p)" "s \<in> set (getLocalSubscribers (u_subs p) EVERYONE)"
    and "list_all is_connection is"
  shows "alternates u (0 < online_count c u) (everyone_news s (snd (run presence_step p is))) \<and>
    present_after u (0 < online_count c u) (everyone_news s (snd (run presence_step p is))) =
      (0 < online_count (foldl connections c is) u)"
  using assms
proof (induction "is" arbitrary: c p)
  case (Cons i "is")
  let ?p = "fst (presence_step p i)"
  have i: "is_connection i" using Cons.prems(4) by simp
  note step = connection_step [OF Cons.prems(1) i]
  have told: "everyone_news s (snd (presence_step p i)) = news c i"
    using everyone_told [OF Cons.prems(2,3)] step(2) by simp
  have rest: "alternates u (0 < online_count (connections c i) u) (everyone_news s (snd (run presence_step ?p is))) \<and>
      present_after u (0 < online_count (connections c i) u) (everyone_news s (snd (run presence_step ?p is))) =
        (0 < online_count (foldl connections c (i # is)) u)"
    using Cons.IH [OF presence_step_inv [OF Cons.prems(1)], of i] Cons.prems step(1) by simp
  have run: "snd (run presence_step p (i # is)) = snd (presence_step p i) @ snd (run presence_step ?p is)"
    by (simp add: split_beta Let_def)
  show ?case
    unfolding run everyone_news_append told alternates_append present_after_append
    using rest news_alternate [of u c i] by simp
qed simp

section \<open>Properties\<close>

lemma presence_reaches:
  "presence_inv (foldl connections (\<lambda>_. 0) is) (fst (run presence_step (new_presence r) is))"
  by (rule presence_run_inv [OF new_presence_inv])

text \<open>Whatever the handler served, a user is in the registry of online users exactly while more of the user's
  connections were opened than closed; clients without authentication (\<open>OPEN\<close>) never are.\<close>

theorem online_iff_connected:
  "u \<in> set (ssr_getAll (connectedClients (fst (run presence_step (new_presence r) is)))) \<longleftrightarrow>
     u \<noteq> ''OPEN'' \<and> 0 < foldl connections (\<lambda>_. 0) is u"
  by (rule presence_online [OF presence_reaches])

text \<open>C36: while connections open and close, a client subscribed to everyone is told of each user in strict
  alternation, first of the join, then of the leave, and what it was told last is whether the user is
  online: several connections of one user are one presence.\<close>

theorem everyone_told_alternately:
  assumes "sub_inv (u_subs (fst (run presence_step (new_presence r) js)))"
    and "s \<in> set (getLocalSubscribers (u_subs (fst (run presence_step (new_presence r) js))) EVERYONE)"
    and "list_all is_connection is"
    and "fst (run presence_step (new_presence r) js) = p" "run presence_step p is = (p', es)"
  shows "alternates u (ssr_has (connectedClients p) u) (everyone_news s es) \<and>
    present_after u (ssr_has (connectedClients p) u) (everyone_news s es) = ssr_has (connectedClients p') u"
proof -
  let ?c = "foldl connections (\<lambda>_. 0) js"
  have inv: "presence_inv ?c p" using presence_reaches assms(4) by blast
  then have inv': "presence_inv (foldl connections ?c is) p'"
    using presence_run_inv [OF inv, of "is"] assms(5) by simp
  have has: "ssr_has (connectedClients q) u = (0 < online_count c u)" if "presence_inv c q" for c q
    using ssr_names_spec(1) that by (auto simp: presence_inv_def)
  show ?thesis
    using everyone_run [OF inv, of s "is" u] assms(1-3) has [OF inv] has [OF inv']
    by (simp only: assms(4,5) snd_conv simp_thms)
qed

lemma query_result_get:
  "js_get (foldl (\<lambda>res u. js_set u (JBool (u \<in> set clients)) res) acc users) u =
     (if u \<in> set users then Some (JBool (u \<in> set clients)) else js_get acc u)"
  by (induction users arbitrary: acc) (auto simp: js_simps)

lemma handleQueryAll_names:
  assumes "presence_inv c p"
  shows "\<exists>ns. handleQueryAll userId s p =
      [Out (SendMessage s ((msg T_PRESENCE (PresenceA UA_QUERY_ALL_RESPONSE))\<lparr>m_names := Some ns\<rparr>))] \<and>
    distinct ns \<and> set ns = {u. u \<noteq> ''OPEN'' \<and> 0 < c u} - {userId}"
proof -
  let ?all = "ssr_getAll (connectedClients p)"
  let ?ns = "if js_indexOf ?all userId \<noteq> -1 then js_splice1 (js_indexOf ?all userId) ?all else ?all"
  have d: "distinct ?all" using assms by (simp add: presence_inv_def ssr_inv_def ssr_getAll_def)
  have s: "set ?all = {u. u \<noteq> ''OPEN'' \<and> 0 < c u}" using presence_online [OF assms] by auto
  have "?ns = remove1 userId ?all"
    using js_splice1_indexOf [of userId ?all] js_indexOf_none [of ?all userId] by (simp add: remove1_idem)
  then show ?thesis using d s by (auto simp: handleQueryAll_def Let_def set_remove1_eq)
qed

text \<open>A query tells for each asked name whether that user is online and tells nothing of other names, and a
  query for all lists every online user but the one who asks, each once.\<close>

theorem queries_tell_who_is_online:
  assumes "fst (run presence_step (new_presence r) is) = p"
    and "m_action q = PresenceA UA_QUERY" "m_names q = Some users" "m_action qa = PresenceA UA_QUERY_ALL"
  shows "(\<exists>answer. snd (presence_step p (UHandle userId s q)) =
        [Out (SendMessage s ((msg T_PRESENCE (PresenceA UA_QUERY_RESPONSE))
           \<lparr>m_corr := m_corr q, m_parsed := Some (JObj answer)\<rparr>))] \<and>
      (\<forall>u. js_get answer u = (if u \<in> set users
         then Some (JBool (u \<noteq> ''OPEN'' \<and> 0 < foldl connections (\<lambda>_. 0) is u)) else None))) \<and>
    (\<exists>ns. snd (presence_step p (UHandle userId s qa)) =
        [Out (SendMessage s ((msg T_PRESENCE (PresenceA UA_QUERY_ALL_RESPONSE))\<lparr>m_names := Some ns\<rparr>))] \<and>
      distinct ns \<and> set ns = {u. u \<noteq> ''OPEN'' \<and> 0 < foldl connections (\<lambda>_. 0) is u} - {userId})"
proof -
  have inv: "presence_inv (foldl connections (\<lambda>_. 0) is) p"
    using presence_reaches [of "is" r] assms(1) by simp
  let ?clients = "ssr_getAll (connectedClients p)"
  have "js_get (query_result ?clients users) u = (if u \<in> set users
      then Some (JBool (u \<noteq> ''OPEN'' \<and> 0 < foldl connections (\<lambda>_. 0) is u)) else None)" for u
    using presence_online [OF inv, of u] by (simp add: query_result_def query_result_get)
  then have "\<exists>answer. snd (presence_step p (UHandle userId s q)) =
        [Out (SendMessage s ((msg T_PRESENCE (PresenceA UA_QUERY_RESPONSE))
           \<lparr>m_corr := m_corr q, m_parsed := Some (JObj answer)\<rparr>))] \<and>
      (\<forall>u. js_get answer u = (if u \<in> set users
         then Some (JBool (u \<noteq> ''OPEN'' \<and> 0 < foldl connections (\<lambda>_. 0) is u)) else None))"
    using assms(2,3) by (intro exI [of _ "query_result ?clients users"]) (simp add: presence_handle_def handleQuery_def)
  moreover have "snd (presence_step p (UHandle userId s qa)) = handleQueryAll userId s p"
    using assms(4) by (simp add: presence_handle_def)
  ultimately show ?thesis using handleQueryAll_names [OF inv, of userId s] by simp
qed

definition two_devices :: "presence_input list" where
  "two_devices = [UConnect ''ann'', UConnect ''ann'', UConnect ''bob'', UDisconnect ''ann'']"

lemma queries_tell_who_is_online_witness:
  "\<exists>ns. snd (presence_step (fst (run presence_step (new_presence (new_registry T_PRESENCE)) two_devices))
       (UHandle ''bob'' 2 (msg T_PRESENCE (PresenceA UA_QUERY_ALL)))) =
     [Out (SendMessage 2 ((msg T_PRESENCE (PresenceA UA_QUERY_ALL_RESPONSE))\<lparr>m_names := Some ns\<rparr>))] \<and>
     ''ann'' \<in> set ns"
  using queries_tell_who_is_online [OF refl, of "(msg T_PRESENCE (PresenceA UA_QUERY))\<lparr>m_names := Some []\<rparr>" "[]"
      "msg T_PRESENCE (PresenceA UA_QUERY_ALL)" "new_registry T_PRESENCE" two_devices "''bob''" 2]
  by (auto simp: msg_def two_devices_def)

definition watched :: "presence_input list" where
  "watched = [UHandle ''eve'' 1 (msg T_PRESENCE (PresenceA UA_SUBSCRIBE_ALL))]"

lemma everyone_told_alternately_witness:
  "alternates ''ann'' False
     (everyone_news 1 (snd (run presence_step
        (fst (run presence_step (new_presence (new_registry T_PRESENCE)) watched)) two_devices)))"
proof -
  let ?p = "fst (run presence_step (new_presence (new_registry T_PRESENCE)) watched)"
  have p: "u_subs ?p = fst (subscribe EVERYONE (presence_msg UA_SUBSCRIBE_ALL EVERYONE) 1 True (new_registry T_PRESENCE))"
    "connectedClients ?p = []"
    by (simp_all add: watched_def presence_handle_def msg_def also_ack_def on_presence_subs_def new_presence_def split_beta)
  have ok: "step_ok (new_registry T_PRESENCE)
      (subscribe EVERYONE (presence_msg UA_SUBSCRIBE_ALL EVERYONE) 1 True (new_registry T_PRESENCE)) {(EVERYONE, 1)}"
    using subscribe_ok [of "new_registry T_PRESENCE" EVERYONE "presence_msg UA_SUBSCRIBE_ALL EVERYONE" 1 True]
    by (simp add: new_registry_ok)
  then have 1: "sub_inv (u_subs ?p)" "1 \<in> set (getLocalSubscribers (u_subs ?p) EVERYONE)"
    unfolding p by (auto simp: step_ok_def rel_def split: prod.splits)
  have 2: "list_all is_connection two_devices" by (simp add: two_devices_def)
  have "\<not> ssr_has (connectedClients ?p) ''ann''" by (simp add: p ssr_has_def js_has_def)
  then show ?thesis
    using everyone_told_alternately [OF 1 2 refl prod.collapse [symmetric], of "''ann''"] by simp
qed

end
