(* ===== verification/Events.thy ===== *)
theory Events
  imports Subscriptions
begin

text \<open>
  The event handler (\<open>src/handlers/event/event-handler.ts\<close>): subscriptions to event names and the
  delivery of emitted events. Messages for the listener registry are handed on as an effect.
\<close>

datatype event_effect =
    ESub sub_effect
  | ListenerHandle socket message

definition event_subs ::
  "(sub_registry \<Rightarrow> sub_registry \<times> sub_effect list) \<Rightarrow> sub_registry \<Rightarrow> sub_registry \<times> event_effect list" where
  "event_subs f r = (case f r of (r1, es) \<Rightarrow> (r1, map ESub es))"

definition triggerEvent :: "socket option \<Rightarrow> message \<Rightarrow> sub_registry \<Rightarrow> event_effect list" where
  "triggerEvent so m r = map ESub (sendToSubscribers (the (m_name m)) m False so False r)"

definition event_handle :: "socket option \<Rightarrow> message \<Rightarrow> sub_registry \<Rightarrow> sub_registry \<times> event_effect list" where
  "event_handle so m r =
     (if m_action m = EventA EA_EMIT then (r, triggerEvent so m r)
      else case so of
             None \<Rightarrow> (r, [])
           | Some s \<Rightarrow>
               if m_action m = EventA EA_SUBSCRIBE then event_subs (subscribeBulk (the (m_names m)) m s False) r
               else if m_action m = EventA EA_UNSUBSCRIBE then event_subs (unsubscribeBulk (the (m_names m)) m s False) r
               else if m_action m = EventA EA_LISTEN \<or> m_action m = EventA EA_UNLISTEN \<or>
                 m_action m = EventA EA_LISTEN_ACCEPT \<or> m_action m = EventA EA_LISTEN_REJECT
               then (r, [ListenerHandle s m])
               else (r, []))"

text \<open>The constructor hands the listener registry to the subscriptions.\<close>

definition new_events :: sub_registry where
  "new_events = setSubscriptionListener (new_registry T_EVENT)"

datatype event_input = EHandle "socket option" message | EClose socket

fun event_step :: "sub_registry \<Rightarrow> event_input \<Rightarrow> sub_registry \<times> event_effect list" where
  "event_step r (EHandle so m) = event_handle so m r"
| "event_step r (EClose s) = event_subs (onSocketClose s) r"

section \<open>Who hears an event\<close>

text \<open>The subscriptions the clients have asked for.\<close>

fun wanted :: "(string \<times> socket) set \<Rightarrow> event_input \<Rightarrow> (string \<times> socket) set" where
  "wanted R (EHandle (Some s) m) =
     (if m_action m = EventA EA_SUBSCRIBE then R \<union> set (the (m_names m)) \<times> {s}
      else if m_action m = EventA EA_UNSUBSCRIBE then R - set (the (m_names m)) \<times> {s} else R)"
| "wanted R (EHandle None m) = R"
| "wanted R (EClose s) = R - UNIV \<times> {s}"

lemma event_subs_state [simp]: "fst (event_subs f r) = fst (f r)"
  by (simp add: event_subs_def split_beta)

lemma event_step_ok:
  assumes "sub_inv r"
  shows "sub_inv (fst (event_step r i)) \<and> rel (fst (event_step r i)) = wanted (rel r) i"
proof (cases i)
  case (EHandle so m)
  then show ?thesis
    using assms subscribeBulk_ok [OF assms, of "the (m_names m)" m "the so" False]
      unsubscribeBulk_ok [OF assms, of "the (m_names m)" m "the so" False]
    by (cases so) (auto simp: event_handle_def step_ok_def split: prod.splits)
next
  case (EClose s)
  then show ?thesis using onSocketClose_ok [OF assms, of s] by (auto simp: step_ok_def split: prod.splits)
qed

lemma event_run_ok:
  "sub_inv r \<Longrightarrow> sub_inv (fst (run event_step r is)) \<and> rel (fst (run event_step r is)) = foldl wanted (rel r) is"
proof (induction "is" arbitrary: r)
  case (Cons i "is")
  then show ?case using event_step_ok [OF Cons.prems, of i] by (simp add: split_beta Let_def)
qed simp

lemma new_events_ok: "sub_inv new_events \<and> rel new_events = {}"
  using setSubscriptionListener_ok [of "new_registry T_EVENT"] by (simp add: new_events_def step_ok_def new_registry_ok)

fun sub_effects :: "event_effect list \<Rightarrow> sub_effect list" where
  "sub_effects [] = []"
| "sub_effects (ESub e # es) = e # sub_effects es"
| "sub_effects (ListenerHandle s m # es) = sub_effects es"

lemma sub_effects_map [simp]: "sub_effects (map ESub es) = es"
  by (induction es) auto

text \<open>C32: an emitted event reaches exactly the sockets that have subscribed to its name and not left again, each once
  and never its sender; it is passed to the cluster when a client of this server sent it and not when
  it came from there, so events do not circle.\<close>

theorem event_heard_by_subscribers:
  assumes "fst (run event_step new_events is) = r" "m_action m = EventA EA_EMIT" "m_name m = Some n"
  shows "distinct (built_for (sub_effects (snd (event_step r (EHandle so m))))) \<and>
    set (built_for (sub_effects (snd (event_step r (EHandle so m))))) =
      {s. (n, s) \<in> foldl wanted {} is \<and> so \<noteq> Some s} \<and>
    (Out (ClusterSend m) \<in> set (sub_effects (snd (event_step r (EHandle so m)))) \<longleftrightarrow> so \<noteq> None)"
proof -
  have r: "sub_inv r" "rel r = foldl wanted {} is"
    using event_run_ok [of new_events "is"] new_events_ok assms(1) by auto
  have eff: "sub_effects (snd (event_step r (EHandle so m))) = sendToSubscribers n m False so False r"
    using assms(2,3) by (simp add: event_handle_def triggerEvent_def)
  have local: "s \<in> set (getLocalSubscribers r n) \<longleftrightarrow> (n, s) \<in> foldl wanted {} is" for s
    using r(2) by (auto simp: rel_def)
  show ?thesis
    using sub_invD(1) [OF r(1), of n] local unfolding eff
    by (auto simp: sendToSubscribers_def getLocalSubscribers_def built_for_map split: option.splits)
qed

definition two_listeners :: "event_input list" where
  "two_listeners = map (\<lambda>s. EHandle (Some s) ((msg T_EVENT (EventA EA_SUBSCRIBE))\<lparr>m_names := Some [''news'']\<rparr>)) [1, 2]"

lemma event_heard_by_subscribers_witness:
  "set (built_for (sub_effects (snd (event_step (fst (run event_step new_events two_listeners))
     (EHandle (Some 1) ((msg T_EVENT (EventA EA_EMIT))\<lparr>m_name := Some ''news''\<rparr>)))))) = {2}"
proof -
  let ?m = "(msg T_EVENT (EventA EA_EMIT))\<lparr>m_name := Some ''news''\<rparr>"
  have m: "m_action ?m = EventA EA_EMIT" "m_name ?m = Some ''news''" by (simp_all add: msg_def)
  have w: "foldl wanted {} two_listeners = {(''news'', 1), (''news'', 2)}"
    by (auto simp: two_listeners_def msg_def)
  have "set (built_for (sub_effects (snd (event_step (fst (run event_step new_events two_listeners)) (EHandle (Some 1) ?m))))) =
      {s. (''news'', s) \<in> foldl wanted {} two_listeners \<and> Some 1 \<noteq> Some s}"
    using event_heard_by_subscribers [OF refl m, of two_listeners "Some 1"] by (rule conjunct2 [THEN conjunct1])
  also have "\<dots> = {2}" unfolding w by auto
  finally show ?thesis .
qed

end
