(* ===== verification/Cluster.thy ===== *)
theory Cluster
  imports StateRegistry Complex_Main
begin

text \<open>
  The cluster: which servers are in it and which of them leads
  (\<open>src/services/cluster-registry/distributed-cluster-registry.ts\<close>), and the message bus between the
  workers of one machine (\<open>src/services/cluster-node/vertical-cluster-node.ts\<close>). The clock is an
  argument; a field a message lacks is \<open>None\<close>, so the map of nodes has optional names as keys.
\<close>

section \<open>The cluster registry\<close>

datatype cluster_action = STATUS | REMOVE | OtherClusterAction

record cluster_message =
  cm_action :: cluster_action
  cm_serverName :: "string option"
  cm_leaderScore :: rat
  cm_name :: "string option"

record node =
  lastStatusTime :: int
  leaderScore :: rat

record cluster =
  inCluster :: bool
  nodes :: "(string option, node) jsmap"
  serverName :: string
  ownScore :: rat

datatype cluster_effect =
    ServerAdded "string option"
  | ServerRemoved "string option"
  | CSend cluster_message
  | CClosed

definition new_cluster :: "string \<Rightarrow> rat \<Rightarrow> cluster" where
  "new_cluster name score = \<lparr>inCluster = False, nodes = [], serverName = name, ownScore = score\<rparr>"

definition cluster_getAll :: "cluster \<Rightarrow> string option list" where
  "cluster_getAll c = js_keys (nodes c)"

fun getLeader_loop :: "(string option, node) jsmap \<Rightarrow> rat \<Rightarrow> string option \<Rightarrow> string option" where
  "getLeader_loop [] maxScore leader = leader"
| "getLeader_loop ((n, d) # ns) maxScore leader =
     (if leaderScore d > maxScore then getLeader_loop ns (leaderScore d) n
      else getLeader_loop ns maxScore leader)"

definition getLeader :: "cluster \<Rightarrow> string option" where
  "getLeader c = getLeader_loop (nodes c) 0 (Some (serverName c))"

definition isLeader :: "cluster \<Rightarrow> bool" where
  "isLeader c \<longleftrightarrow> Some (serverName c) = getLeader c"

definition updateNode :: "int \<Rightarrow> cluster_message \<Rightarrow> cluster \<Rightarrow> cluster \<times> cluster_effect list" where
  "updateNode now m c =
     (c\<lparr>nodes := js_set (cm_serverName m) \<lparr>lastStatusTime = now, leaderScore = cm_leaderScore m\<rparr> (nodes c)\<rparr>,
      if js_has (nodes c) (cm_serverName m) then [] else [ServerAdded (cm_serverName m)])"

definition removeNode :: "string option \<Rightarrow> cluster \<Rightarrow> cluster \<times> cluster_effect list" where
  "removeNode n c =
     (c\<lparr>nodes := js_delete n (nodes c)\<rparr>, if js_has (nodes c) n then [ServerRemoved n] else [])"

definition cluster_onMessage :: "int \<Rightarrow> cluster_message \<Rightarrow> cluster \<Rightarrow> cluster \<times> cluster_effect list" where
  "cluster_onMessage now m c =
     (case cm_action m of
        STATUS \<Rightarrow> updateNode now m c
      | REMOVE \<Rightarrow> removeNode (cm_serverName m) c
      | OtherClusterAction \<Rightarrow> (c, []))"

fun checkNodes_loop :: "int \<Rightarrow> int \<Rightarrow> (string option, node) jsmap \<Rightarrow> cluster \<Rightarrow> cluster \<times> cluster_effect list" where
  "checkNodes_loop now limit [] c = (c, [])"
| "checkNodes_loop now limit ((n, d) # ns) c =
     (let (c1, e1) = (if now - lastStatusTime d > limit then removeNode n c else (c, []));
          (c2, e2) = checkNodes_loop now limit ns c1
      in (c2, e1 @ e2))"

definition checkNodes :: "int \<Rightarrow> int \<Rightarrow> cluster \<Rightarrow> cluster \<times> cluster_effect list" where
  "checkNodes now limit c =
     (if length (nodes c) = 1 then (c, []) else checkNodes_loop now limit (nodes c) c)"

definition publishStatus :: "int \<Rightarrow> cluster \<Rightarrow> cluster \<times> cluster_effect list" where
  "publishStatus now c =
     (let m = \<lparr>cm_action = STATUS, cm_serverName = Some (serverName c), cm_leaderScore = ownScore c, cm_name = None\<rparr>;
          (c1, es) = updateNode now m (c\<lparr>inCluster := True\<rparr>)
      in (c1, es @ [CSend m]))"

definition leaveCluster :: "cluster \<Rightarrow> cluster \<times> cluster_effect list" where
  "leaveCluster c =
     (if \<not> inCluster c then (c, [CClosed])
      else (c\<lparr>nodes := [], inCluster := False\<rparr>,
            [CSend \<lparr>cm_action = REMOVE, cm_serverName = None, cm_leaderScore = 0, cm_name = Some (serverName c)\<rparr>,
             CClosed]))"

datatype cluster_input =
    CMessage int cluster_message
  | CCheck int
  | CPublish int

fun cluster_step :: "int \<Rightarrow> cluster \<Rightarrow> cluster_input \<Rightarrow> cluster \<times> cluster_effect list" where
  "cluster_step limit c (CMessage now m) = cluster_onMessage now m c"
| "cluster_step limit c (CCheck now) = checkNodes now limit c"
| "cluster_step limit c (CPublish now) = publishStatus now c"

section \<open>Who leads\<close>

lemma getLeader_loop_none:
  "\<forall>e \<in> set ns. leaderScore (snd e) \<le> m \<Longrightarrow> getLeader_loop ns m l = l"
  by (induction ns m l rule: getLeader_loop.induct) auto

lemma getLeader_loop_max:
  "\<exists>e \<in> set ns. m < leaderScore (snd e) \<Longrightarrow>
    \<exists>d. (getLeader_loop ns m l, d) \<in> set ns \<and> (\<forall>e \<in> set ns. leaderScore (snd e) \<le> leaderScore d)"
proof (induction ns m l rule: getLeader_loop.induct)
  case (2 n d ns m l)
  show ?case
  proof (cases "\<exists>e \<in> set ns. max m (leaderScore d) < leaderScore (snd e)")
    case True
    show ?thesis
    proof (cases "leaderScore d > m")
      case gt: True
      then have "\<exists>e \<in> set ns. leaderScore d < leaderScore (snd e)" using True by auto
      then show ?thesis using 2(1) [OF gt] gt by fastforce
    next
      case le: False
      then have "\<exists>e \<in> set ns. m < leaderScore (snd e)" using True by auto
      then show ?thesis using 2(2) [OF le] le by fastforce
    qed
  next
    case False
    then have le: "\<forall>e \<in> set ns. leaderScore (snd e) \<le> max m (leaderScore d)" by auto
    then have gt: "leaderScore d > m" using 2(3) by (fastforce simp: max_def split: if_splits)
    then have "\<forall>e \<in> set ns. leaderScore (snd e) \<le> leaderScore d" using le by (simp add: max_def)
    then show ?thesis using gt getLeader_loop_none by auto
  qed
qed simp

text \<open>What a server knows about the cluster, without the times.\<close>

definition scores :: "cluster \<Rightarrow> (string option \<times> rat) set" where
  "scores c = (\<lambda>(n, d). (n, leaderScore d)) ` set (nodes c)"

lemma getLeader_scores:
  assumes "scores c \<noteq> {}" "\<forall>(n, x) \<in> scores c. 0 < x"
  shows "\<exists>x. (getLeader c, x) \<in> scores c \<and> (\<forall>(n, y) \<in> scores c. y \<le> x)"
proof -
  have "\<exists>e \<in> set (nodes c). 0 < leaderScore (snd e)" using assms by (fastforce simp: scores_def)
  from getLeader_loop_max [OF this, of "Some (serverName c)"] show ?thesis
    by (force simp: getLeader_def scores_def)
qed

section \<open>Membership\<close>

fun server_events :: "cluster_effect list \<Rightarrow> reg_event list" where
  "server_events [] = []"
| "server_events (ServerAdded (Some n) # es) = NameAdded n # server_events es"
| "server_events (ServerRemoved (Some n) # es) = NameRemoved n # server_events es"
| "server_events (e # es) = server_events es"

lemma server_events_append [simp]: "server_events (es @ fs) = server_events es @ server_events fs"
  by (induction es rule: server_events.induct) auto

definition events_ok :: "string \<Rightarrow> cluster \<Rightarrow> cluster \<times> cluster_effect list \<Rightarrow> bool" where
  "events_ok n c res \<longleftrightarrow> alternates n (js_has (nodes c) (Some n)) (server_events (snd res)) \<and>
     present_after n (js_has (nodes c) (Some n)) (server_events (snd res)) = js_has (nodes (fst res)) (Some n)"

lemma events_ok_seq: "events_ok n c (c1, e1) \<Longrightarrow> events_ok n c1 (c2, e2) \<Longrightarrow> events_ok n c (c2, e1 @ e2)"
  by (simp add: events_ok_def alternates_append present_after_append)

lemma removeNode_events: "events_ok n c (removeNode k c)"
  by (cases k) (auto simp: events_ok_def removeNode_def js_simps)

lemma updateNode_events: "events_ok n c (updateNode now m c)"
  by (cases "cm_serverName m") (auto simp: events_ok_def updateNode_def js_simps)

lemma checkNodes_loop_events: "events_ok n c (checkNodes_loop now limit ns c)"
proof (induction ns arbitrary: c)
  case Nil
  then show ?case by (simp add: events_ok_def)
next
  case (Cons e ns)
  obtain k d where e: "e = (k, d)" by fastforce
  obtain c1 e1 where 1: "(if now - lastStatusTime d > limit then removeNode k c else (c, [])) = (c1, e1)" by fastforce
  then have "events_ok n c (c1, e1)"
    using removeNode_events [of n c k] by (auto simp: events_ok_def split: if_splits)
  moreover obtain c2 e2 where 2: "checkNodes_loop now limit ns c1 = (c2, e2)" by fastforce
  moreover have "events_ok n c1 (c2, e2)" using Cons [of c1] 2 by simp
  ultimately show ?case using 1 events_ok_seq [of n c c1 e1 c2 e2] by (simp add: e)
qed

lemma cluster_step_events: "events_ok n c (cluster_step limit c i)"
proof (cases i)
  case (CMessage now m)
  then show ?thesis
    using updateNode_events removeNode_events
    by (auto simp: cluster_onMessage_def events_ok_def split: cluster_action.split)
next
  case (CCheck now)
  then show ?thesis using checkNodes_loop_events by (simp add: checkNodes_def events_ok_def)
next
  case (CPublish now)
  then show ?thesis
    using updateNode_events [of n "c\<lparr>inCluster := True\<rparr>" now]
    by (simp add: publishStatus_def events_ok_def split_beta Let_def)
qed

lemma cluster_run_events: "events_ok n c (run (cluster_step limit) c is)"
proof (induction "is" arbitrary: c)
  case Nil
  then show ?case by (simp add: events_ok_def)
next
  case (Cons i "is")
  show ?case
    using events_ok_seq [of n c "fst (cluster_step limit c i)" "snd (cluster_step limit c i)"]
      cluster_step_events [of n c limit i] Cons [of "fst (cluster_step limit c i)"]
    by (simp add: split_beta Let_def)
qed

lemma cluster_step_distinct:
  "distinct (js_keys (nodes c)) \<Longrightarrow> distinct (js_keys (nodes (fst (cluster_step limit c i))))"
proof -
  have loop: "distinct (js_keys (nodes c)) \<Longrightarrow> distinct (js_keys (nodes (fst (checkNodes_loop now limit ns c))))" for now ns c
    by (induction ns arbitrary: c) (auto simp: split_beta Let_def removeNode_def)
  assume "distinct (js_keys (nodes c))"
  then show ?thesis
    using loop
    by (cases i) (auto simp: cluster_onMessage_def updateNode_def removeNode_def checkNodes_def publishStatus_def
        Let_def split: cluster_action.split)
qed

lemma cluster_run_distinct:
  "distinct (js_keys (nodes c)) \<Longrightarrow> distinct (js_keys (nodes (fst (run (cluster_step limit) c is))))"
  by (induction "is" arbitrary: c) (simp_all add: split_beta Let_def cluster_step_distinct)

text \<open>The loop over the nodes removes exactly the silent ones.\<close>

definition silent :: "int \<Rightarrow> int \<Rightarrow> (string option, node) jsmap \<Rightarrow> string option list" where
  "silent now limit ns = map fst (filter (\<lambda>e. now - lastStatusTime (snd e) > limit) ns)"

lemma js_delete_filter: "js_delete k xs = filter (\<lambda>e. fst e \<noteq> k) xs"
  by (induction xs) auto

lemma checkNodes_loop_nodes:
  "nodes (fst (checkNodes_loop now limit ns c)) = filter (\<lambda>e. fst e \<notin> set (silent now limit ns)) (nodes c)"
proof (induction ns arbitrary: c)
  case (Cons e ns)
  obtain k d where e: "e = (k, d)" by fastforce
  show ?case
    unfolding e
    by (auto simp: Cons split_beta Let_def removeNode_def js_delete_filter silent_def intro!: filter_cong)
qed (simp add: silent_def)

lemma silent_iff:
  assumes "distinct (js_keys ns)" "(k, d) \<in> set ns"
  shows "k \<in> set (silent now limit ns) \<longleftrightarrow> now - lastStatusTime d > limit"
proof -
  have "k \<in> set (silent now limit ns) \<longleftrightarrow> (\<exists>d'. (k, d') \<in> set ns \<and> now - lastStatusTime d' > limit)"
    by (force simp: silent_def)
  also have "\<dots> \<longleftrightarrow> now - lastStatusTime d > limit"
    using eq_key_imp_eq_value [OF assms(1) _ assms(2)] assms(2) by blast
  finally show ?thesis .
qed

lemma checkNodes_nodes:
  assumes "distinct (js_keys (nodes c))" "length (nodes c) \<noteq> 1"
  shows "nodes (fst (checkNodes now limit c)) = filter (\<lambda>e. now - lastStatusTime (snd e) \<le> limit) (nodes c)"
proof -
  have "filter (\<lambda>e. fst e \<notin> set (silent now limit (nodes c))) (nodes c) =
      filter (\<lambda>e. now - lastStatusTime (snd e) \<le> limit) (nodes c)"
    using silent_iff [OF assms(1)] by (intro filter_cong) (auto simp: not_less)
  then show ?thesis using assms(2) by (simp add: checkNodes_def checkNodes_loop_nodes)
qed

section \<open>Properties\<close>

text \<open>Servers that know the same nodes with the same scores, all positive and different, elect the same leader,
  in whatever order the status messages reached them, and two servers never both lead.\<close>

theorem leader_agreement:
  assumes "scores a = scores b" "scores a \<noteq> {}" "\<forall>(n, x) \<in> scores a. 0 < x"
    and "\<forall>(n, x) \<in> scores a. \<forall>(m, y) \<in> scores a. x = y \<longrightarrow> n = m"
  shows "getLeader a = getLeader b \<and> getLeader a \<in> fst ` scores a \<and>
    (serverName a \<noteq> serverName b \<longrightarrow> \<not> (isLeader a \<and> isLeader b))"
proof -
  obtain x where x: "(getLeader a, x) \<in> scores a" "\<forall>(n, y) \<in> scores a. y \<le> x"
    using getLeader_scores [OF assms(2,3)] by blast
  obtain y where y: "(getLeader b, y) \<in> scores a" "\<forall>(n, z) \<in> scores a. z \<le> y"
    using getLeader_scores [of b] assms(1-3) by auto
  have "x = y" using x y by fastforce
  then have "getLeader a = getLeader b" using assms(4) x(1) y(1) by fastforce
  moreover have "getLeader a \<in> fst ` scores a" using x(1) by (metis fst_conv image_eqI)
  ultimately show ?thesis by (metis isLeader_def option.inject)
qed

definition demo_node :: "string \<Rightarrow> rat \<Rightarrow> cluster" where
  "demo_node n x = \<lparr>inCluster = True, nodes = [(Some ''a'', \<lparr>lastStatusTime = 5, leaderScore = 1/3\<rparr>),
     (Some ''b'', \<lparr>lastStatusTime = 7, leaderScore = 1/2\<rparr>)], serverName = n, ownScore = x\<rparr>"

lemma leader_agreement_witness:
  "getLeader (demo_node ''a'' (1/3)) = getLeader (demo_node ''b'' (1/2)) \<and>
   \<not> (isLeader (demo_node ''a'' (1/3)) \<and> isLeader (demo_node ''b'' (1/2)))"
proof -
  let ?a = "demo_node ''a'' (1/3)" and ?b = "demo_node ''b'' (1/2)"
  have s: "scores ?a = {(Some ''a'', 1/3), (Some ''b'', 1/2)}" "scores ?b = scores ?a"
    by (simp_all add: scores_def demo_node_def)
  show ?thesis using leader_agreement [of ?a ?b] s by (simp add: demo_node_def)
qed

text \<open>The joins and leaves that are announced of a server alternate, beginning with a join, and say whether the
  server is listed; listed servers are listed once. Messages, the own status and the check for silent
  nodes may come in any order.\<close>

theorem membership_announced:
  "alternates n False (server_events (snd (run (cluster_step limit) (new_cluster name x) is))) \<and>
   (Some n \<in> set (cluster_getAll (fst (run (cluster_step limit) (new_cluster name x) is))) \<longleftrightarrow>
      present_after n False (server_events (snd (run (cluster_step limit) (new_cluster name x) is)))) \<and>
   distinct (cluster_getAll (fst (run (cluster_step limit) (new_cluster name x) is)))"
proof -
  have new: "\<not> js_has (nodes (new_cluster name x)) (Some n)" "distinct (js_keys (nodes (new_cluster name x)))"
    by (simp_all add: new_cluster_def js_has_def)
  show ?thesis
    using cluster_run_events [of n "new_cluster name x" limit "is"] cluster_run_distinct [OF new(2), of limit "is"] new(1)
    by (simp add: events_ok_def cluster_getAll_def js_has_keys)
qed

text \<open>The check removes exactly the nodes whose last status is older than the limit, and never the only node.\<close>

theorem silent_nodes_removed:
  assumes "fst (run (cluster_step limit) (new_cluster name x) is) = c"
  shows "nodes (fst (checkNodes now limit c)) =
    (if length (nodes c) = 1 then nodes c
     else filter (\<lambda>e. now - lastStatusTime (snd e) \<le> limit) (nodes c))"
proof -
  have "distinct (js_keys (nodes c))"
    using cluster_run_distinct [of "new_cluster name x" limit "is"] assms by (simp add: new_cluster_def)
  then show ?thesis using checkNodes_nodes [of c now limit] by (simp add: checkNodes_def)
qed

lemma silent_nodes_removed_witness:
  "js_keys (nodes (fst (checkNodes 11 5 (fst (run (cluster_step 5) (new_cluster ''a'' (1/3))
     [CPublish 10, CMessage 3 \<lparr>cm_action = STATUS, cm_serverName = Some ''b'', cm_leaderScore = 1/2, cm_name = None\<rparr>])))))
   = [Some ''a'']"
  by (subst silent_nodes_removed [OF refl])
    (simp add: new_cluster_def publishStatus_def updateNode_def cluster_onMessage_def Let_def js_has_def)

text \<open>The farewell a leaving server sends carries its name as \<open>name\<close>, but the receiver looks at
  \<open>serverName\<close>: no server it knows by name is removed, it waits for the timeout instead.\<close>

theorem farewell_ignored:
  assumes "inCluster leaving" "CSend m \<in> set (snd (leaveCluster leaving))"
    and "js_get (nodes c) None = None"
  shows "cluster_onMessage now m c = (c, [])"
proof -
  have "cm_action m = REMOVE" "cm_serverName m = None" using assms(1,2) by (auto simp: leaveCluster_def)
  then show ?thesis
    using assms(3) by (simp add: cluster_onMessage_def removeNode_def js_delete_absent js_has_def)
qed

lemma farewell_ignored_witness:
  "cluster_onMessage 9 \<lparr>cm_action = REMOVE, cm_serverName = None, cm_leaderScore = 0, cm_name = Some ''b''\<rparr>
     (demo_node ''a'' (1/3)) = (demo_node ''a'' (1/3), [])"
  by (rule farewell_ignored [of "demo_node ''b'' (1/2)"]) (simp_all add: leaveCluster_def demo_node_def)

section \<open>The bus between the workers of a machine\<close>

text \<open>
  Every worker has a node; callbacks are numbers. The emitter is shared by the nodes of a process
  and lets a callback be registered more than once.
\<close>

record vertical =
  v_isReady :: bool
  v_callbacks :: "(topic, nat jsset) jsmap"
  v_emitter :: "(topic \<times> nat) list"

record envelope =
  toServer :: "string option"
  fromServer :: string
  v_message :: message

definition new_vertical :: vertical where
  "new_vertical = \<lparr>v_isReady = False, v_callbacks = [], v_emitter = []\<rparr>"

definition whenReady :: "vertical \<Rightarrow> vertical" where
  "whenReady v = v\<lparr>v_isReady := True\<rparr>"

definition v_subscribe :: "topic \<Rightarrow> nat \<Rightarrow> vertical \<Rightarrow> vertical" where
  "v_subscribe t cb v = v\<lparr>v_emitter := v_emitter v @ [(t, cb)],
     v_callbacks := js_set t (set_add cb (case js_get (v_callbacks v) t of Some cs \<Rightarrow> cs | None \<Rightarrow> [])) (v_callbacks v)\<rparr>"

text \<open>The callbacks run for a message of another worker, in order.\<close>

definition on_process_message :: "envelope \<Rightarrow> vertical \<Rightarrow> (nat \<times> message \<times> string) list" where
  "on_process_message e v =
     (if \<not> v_isReady v then []
      else map (\<lambda>cb. (cb, v_message e, fromServer e))
        (map snd (filter (\<lambda>(t, cb). t = m_topic (v_message e)) (v_emitter v)) @
         (case js_get (v_callbacks v) (m_topic (v_message e)) of Some cs \<Rightarrow> cs | None \<Rightarrow> [])))"

definition v_send :: "string \<Rightarrow> message \<Rightarrow> envelope" where
  "v_send name m = \<lparr>toServer = None, fromServer = name, v_message = m\<rparr>"

definition v_sendDirect :: "string \<Rightarrow> string \<Rightarrow> message \<Rightarrow> envelope" where
  "v_sendDirect name to m = \<lparr>toServer = Some to, fromServer = name, v_message = m\<rparr>"

text \<open>The master hands a worker's message to all the others.\<close>

definition relay :: "nat \<Rightarrow> envelope \<Rightarrow> (nat \<times> vertical) list \<Rightarrow> (nat \<times> nat \<times> message \<times> string) list" where
  "relay worker e workers =
     concat (map (\<lambda>(id, v). map (Pair id) (on_process_message e v)) (filter (\<lambda>(id, v). id \<noteq> worker) workers))"

definition remove_last :: "'a \<Rightarrow> 'a list \<Rightarrow> 'a list" where
  "remove_last x xs = rev (remove1 x (rev xs))"

definition v_close :: "vertical \<Rightarrow> vertical" where
  "v_close v = v\<lparr>v_emitter := fold (\<lambda>(t, cs). fold (\<lambda>cb. remove_last (t, cb)) cs) (v_callbacks v) (v_emitter v),
     v_callbacks := [], v_isReady := False\<rparr>"

fun v_subscribe_all :: "(topic \<times> nat) list \<Rightarrow> vertical \<Rightarrow> vertical" where
  "v_subscribe_all [] v = v"
| "v_subscribe_all ((t, cb) # ss) v = v_subscribe_all ss (v_subscribe t cb v)"

lemma v_subscribe_all_spec:
  "distinct (v_emitter v @ ss) \<Longrightarrow>
   \<forall>t. (case js_get (v_callbacks v) t of Some cs \<Rightarrow> cs | None \<Rightarrow> []) = map snd (filter (\<lambda>(t', cb). t' = t) (v_emitter v)) \<Longrightarrow>
   v_isReady (v_subscribe_all ss v) = v_isReady v \<and>
   v_emitter (v_subscribe_all ss v) = v_emitter v @ ss \<and>
   (\<forall>t. (case js_get (v_callbacks (v_subscribe_all ss v)) t of Some cs \<Rightarrow> cs | None \<Rightarrow> []) =
      map snd (filter (\<lambda>(t', cb). t' = t) (v_emitter v @ ss)))"
proof (induction ss arbitrary: v)
  case (Cons a ss)
  obtain t cb where a: "a = (t, cb)" by fastforce
  have new: "cb \<notin> set (map snd (filter (\<lambda>(t', cb). t' = t) (v_emitter v)))"
    using Cons.prems(1) by (auto simp: a)
  show ?case
    using Cons.IH [of "v_subscribe t cb v"] Cons.prems new
    by (simp add: a v_subscribe_def js_simps set_add_def)
qed simp

text \<open>A message of another worker runs each callback subscribed to its topic twice, once for the emitter and once
  for the node's own map, and it does so whichever server the message was directed to.\<close>

theorem workers_hear_twice_and_everything:
  assumes "distinct ss" "(m_topic m, cb) \<in> set ss"
  shows "count_list (on_process_message \<lparr>toServer = to, fromServer = origin, v_message = m\<rparr>
      (whenReady (v_subscribe_all ss new_vertical))) (cb, m, origin) = 2"
proof -
  define xs where "xs = map snd (filter (\<lambda>(t', c). t' = m_topic m) ss)"
  have xs: "distinct xs" "cb \<in> set xs"
    using assms by (force simp: xs_def distinct_map inj_on_def)+
  have "count_list (map (\<lambda>c. (c, m, origin)) ys) (cb, m, origin) = count_list ys cb" for ys
    by (induction ys) auto
  moreover have "count_list xs cb = 1" using xs by (simp add: count_list_eq_length_filter distinct_length_filter)
  moreover have "on_process_message \<lparr>toServer = to, fromServer = origin, v_message = m\<rparr>
      (whenReady (v_subscribe_all ss new_vertical)) = map (\<lambda>c. (c, m, origin)) (xs @ xs)"
    using v_subscribe_all_spec [of new_vertical ss] assms(1)
    by (simp add: on_process_message_def whenReady_def new_vertical_def xs_def)
  ultimately show ?thesis by simp
qed

lemma workers_hear_twice_and_everything_witness:
  "count_list (on_process_message \<lparr>toServer = Some ''c'', fromServer = ''a'', v_message = msg T_LOCK UndefinedA\<rparr>
     (whenReady (v_subscribe_all [(T_LOCK, 0), (T_RPC, 1)] new_vertical))) (0, msg T_LOCK UndefinedA, ''a'') = 2"
  by (rule workers_hear_twice_and_everything) (simp_all add: msg_def)

end
