(* ===== verification/Locks.thy ===== *)
theory Locks
  imports Prelude
begin

text \<open>
  Cluster-wide locks (\<open>src/services/lock/distributed-lock-registry.ts\<close>): the leader keeps the locks,
  the other servers ask it. Whether this server leads, and who does, is an argument of every
  operation, since the cluster registry decides that. Callbacks are numbers; an armed timer is an
  entry of \<open>l_timers\<close> under its id.
\<close>

section \<open>State and operations\<close>

datatype lock_message =
    LRequest string
  | LResponse string bool
  | LRelease string

datatype lock_timer = HoldTimeout string | RequestTimeout string

record lock_registry =
  l_locks :: "string jsset"
  l_timeouts :: "(string, nat) jsmap"
  l_timers :: "(nat, lock_timer) jsmap"
  l_next :: nat
  l_listeners :: "(string \<times> nat) list"

datatype lock_effect =
    LCallback nat bool
  | LSend string lock_message

definition new_locks :: lock_registry where
  "new_locks = \<lparr>l_locks = [], l_timeouts = [], l_timers = [], l_next = 0, l_listeners = []\<rparr>"

definition set_timeout :: "string \<Rightarrow> lock_timer \<Rightarrow> lock_registry \<Rightarrow> lock_registry" where
  "set_timeout name t l = l\<lparr>l_timeouts := js_set name (l_next l) (l_timeouts l),
     l_timers := js_set (l_next l) t (l_timers l), l_next := Suc (l_next l)\<rparr>"

definition clear_timeout :: "string \<Rightarrow> lock_registry \<Rightarrow> lock_registry" where
  "clear_timeout name l =
     (case js_get (l_timeouts l) name of
        None \<Rightarrow> l
      | Some i \<Rightarrow> l\<lparr>l_timers := js_delete i (l_timers l), l_timeouts := js_delete name (l_timeouts l)\<rparr>)"

definition getLock :: "string \<Rightarrow> lock_registry \<Rightarrow> lock_registry \<times> bool" where
  "getLock name l =
     (if name \<in> set (l_locks l) then (l, False)
      else ((set_timeout name (HoldTimeout name) l)\<lparr>l_locks := set_add name (l_locks l)\<rparr>, True))"

definition releaseLock :: "string \<Rightarrow> lock_registry \<Rightarrow> lock_registry" where
  "releaseLock name l = (clear_timeout name l)\<lparr>l_locks := set_delete name (l_locks l)\<rparr>"

definition getRemoteLock :: "string \<Rightarrow> string \<Rightarrow> nat \<Rightarrow> lock_registry \<Rightarrow> lock_registry \<times> lock_effect list" where
  "getRemoteLock leader name cb l =
     ((set_timeout name (RequestTimeout name) l)\<lparr>l_listeners := l_listeners l @ [(name, cb)]\<rparr>,
      [LSend leader (LRequest name)])"

text \<open>\<open>responseEventEmitter.emit\<close>: the callbacks waiting for the name are called, once.\<close>

definition handleRemoteLockResponse :: "string \<Rightarrow> bool \<Rightarrow> lock_registry \<Rightarrow> lock_registry \<times> lock_effect list" where
  "handleRemoteLockResponse name result l =
     ((clear_timeout name l)\<lparr>l_listeners := filter (\<lambda>(n, cb). n \<noteq> name) (l_listeners l)\<rparr>,
      map (\<lambda>(n, cb). LCallback cb result) (filter (\<lambda>(n, cb). n = name) (l_listeners l)))"

definition lock_get :: "bool \<Rightarrow> string \<Rightarrow> string \<Rightarrow> nat \<Rightarrow> lock_registry \<Rightarrow> lock_registry \<times> lock_effect list" where
  "lock_get leads leader name cb l =
     (if leads then (let (l1, ok) = getLock name l in (l1, [LCallback cb ok]))
      else if \<not> js_has (l_timeouts l) name then getRemoteLock leader name cb l
      else (l, [LCallback cb False]))"

definition lock_release :: "bool \<Rightarrow> string \<Rightarrow> string \<Rightarrow> lock_registry \<Rightarrow> lock_registry \<times> lock_effect list" where
  "lock_release leads leader name l =
     (if leads then (releaseLock name l, []) else (l, [LSend leader (LRelease name)]))"

definition handleRemoteLockRequest :: "string \<Rightarrow> string \<Rightarrow> lock_registry \<Rightarrow> lock_registry \<times> lock_effect list" where
  "handleRemoteLockRequest name remoteServerName l =
     (let (l1, ok) = getLock name l in (l1, [LSend remoteServerName (LResponse name ok)]))"

definition onPrivateMessage :: "bool \<Rightarrow> lock_message \<Rightarrow> string \<Rightarrow> lock_registry \<Rightarrow> lock_registry \<times> lock_effect list" where
  "onPrivateMessage leads m remoteServerName l =
     (case m of
        LResponse name locked \<Rightarrow> handleRemoteLockResponse name locked l
      | LRequest name \<Rightarrow> if leads then handleRemoteLockRequest name remoteServerName l else (l, [])
      | LRelease name \<Rightarrow> if leads then (releaseLock name l, []) else (l, []))"

definition on_lock_timer :: "nat \<Rightarrow> lock_registry \<Rightarrow> lock_registry \<times> lock_effect list" where
  "on_lock_timer i l =
     (case js_get (l_timers l) i of
        None \<Rightarrow> (l, [])
      | Some (HoldTimeout name) \<Rightarrow> (releaseLock name (l\<lparr>l_timers := js_delete i (l_timers l)\<rparr>), [])
      | Some (RequestTimeout name) \<Rightarrow>
          handleRemoteLockResponse name False (l\<lparr>l_timers := js_delete i (l_timers l)\<rparr>))"

datatype lock_input =
    LGet bool string string nat
  | LReleaseCall bool string string
  | LMessage bool lock_message string
  | LTimer nat

fun lock_step :: "lock_registry \<Rightarrow> lock_input \<Rightarrow> lock_registry \<times> lock_effect list" where
  "lock_step l (LGet leads leader name cb) = lock_get leads leader name cb l"
| "lock_step l (LReleaseCall leads leader name) = lock_release leads leader name l"
| "lock_step l (LMessage leads m origin) = onPrivateMessage leads m origin l"
| "lock_step l (LTimer i) = on_lock_timer i l"

section \<open>At most one holder\<close>

text \<open>The locks a step grants: to the caller of a leader's \<open>get\<close>, or to the server that asked the leader.\<close>

fun grant_of :: "string \<Rightarrow> lock_effect \<Rightarrow> bool" where
  "grant_of n (LSend server (LResponse name ok)) = (ok \<and> name = n)"
| "grant_of n _ = False"

fun lock_grant :: "string \<Rightarrow> lock_input \<Rightarrow> lock_effect list \<Rightarrow> nat" where
  "lock_grant n (LGet leads leader name cb) es = (if leads \<and> name = n \<and> es = [LCallback cb True] then 1 else 0)"
| "lock_grant n i es = length (filter (grant_of n) es)"

text \<open>The steps that end a hold: a release at the leader, or the hold timer.\<close>

fun freed :: "string \<Rightarrow> lock_registry \<Rightarrow> lock_input \<Rightarrow> nat" where
  "freed n l (LReleaseCall leads leader name) = (if leads \<and> name = n then 1 else 0)"
| "freed n l (LMessage leads m origin) = (if leads \<and> m = LRelease n then 1 else 0)"
| "freed n l (LTimer i) = (if js_get (l_timers l) i = Some (HoldTimeout n) then 1 else 0)"
| "freed n l _ = 0"

fun grants :: "string \<Rightarrow> lock_registry \<Rightarrow> lock_input list \<Rightarrow> nat" where
  "grants n l [] = 0"
| "grants n l (i # is) = lock_grant n i (snd (lock_step l i)) + grants n (fst (lock_step l i)) is"

fun frees :: "string \<Rightarrow> lock_registry \<Rightarrow> lock_input list \<Rightarrow> nat" where
  "frees n l [] = 0"
| "frees n l (i # is) = freed n l i + frees n (fst (lock_step l i)) is"

definition holds :: "string \<Rightarrow> lock_registry \<Rightarrow> nat" where
  "holds n l = (if n \<in> set (l_locks l) then 1 else 0)"

lemma locks_unchanged [simp]:
  "l_locks (set_timeout n t l) = l_locks l" "l_locks (clear_timeout n l) = l_locks l"
  by (simp_all add: set_timeout_def clear_timeout_def split: option.split)

lemma response_not_grant:
  "filter (grant_of n) (map (\<lambda>(n, cb). LCallback cb result) xs) = []"
  by (induction xs) auto

lemma getLock_locks: "getLock name l = (l', ok) \<Longrightarrow>
    ok = (name \<notin> set (l_locks l)) \<and> set (l_locks l') = insert name (set (l_locks l))"
  by (auto simp: getLock_def js_simps split: if_splits)

lemma lock_step_holds:
  "lock_grant n i (snd (lock_step l i)) + holds n l \<le> holds n (fst (lock_step l i)) + freed n l i \<and>
   holds n (fst (lock_step l i)) \<le> lock_grant n i (snd (lock_step l i)) + holds n l"
proof (cases i)
  case (LGet leads leader name cb)
  obtain l' ok where g: "getLock name l = (l', ok)" by fastforce
  show ?thesis
    using getLock_locks [OF g] g
    by (auto simp: holds_def LGet lock_get_def getRemoteLock_def)
next
  case (LReleaseCall leads leader name)
  then show ?thesis by (auto simp: holds_def lock_release_def releaseLock_def)
next
  case (LMessage leads m origin)
  show ?thesis
  proof (cases m)
    case (LRequest name)
    obtain l' ok where g: "getLock name l = (l', ok)" by fastforce
    show ?thesis
      using getLock_locks [OF g] g
      by (auto simp: holds_def LMessage LRequest onPrivateMessage_def handleRemoteLockRequest_def)
  qed (auto simp: holds_def LMessage onPrivateMessage_def handleRemoteLockResponse_def response_not_grant releaseLock_def)
next
  case (LTimer i)
  then show ?thesis
    by (auto simp: holds_def on_lock_timer_def handleRemoteLockResponse_def response_not_grant releaseLock_def
        split: option.split lock_timer.split)
qed

lemma grants_bounded: "grants n l is + holds n l \<le> holds n (fst (run lock_step l is)) + frees n l is"
proof (induction "is" arbitrary: l)
  case (Cons i "is")
  have "fst (run lock_step l (i # is)) = fst (run lock_step (fst (lock_step l i)) is)"
    by (simp add: split_beta Let_def)
  then show ?case
    using lock_step_holds [of n i l] Cons [of "fst (lock_step l i)"] by simp
qed simp

section \<open>Every request is answered\<close>

fun called :: "nat \<Rightarrow> lock_effect list \<Rightarrow> nat" where
  "called cb [] = 0"
| "called cb (LCallback c ok # es) = (if c = cb then 1 else 0) + called cb es"
| "called cb (LSend s m # es) = called cb es"

lemma called_append [simp]: "called cb (es @ fs) = called cb es + called cb fs"
  by (induction cb es rule: called.induct) auto

definition waiting :: "nat \<Rightarrow> lock_registry \<Rightarrow> nat" where
  "waiting cb l = length (filter (\<lambda>(n, c). c = cb) (l_listeners l))"

fun asked :: "nat \<Rightarrow> lock_input \<Rightarrow> nat" where
  "asked cb (LGet leads leader name c) = (if c = cb then 1 else 0)"
| "asked cb _ = 0"

lemma called_listeners:
  "called cb (map (\<lambda>(n, c). LCallback c result) (filter (\<lambda>(n, c). n = name) xs)) +
     length (filter (\<lambda>(n, c). c = cb) (filter (\<lambda>(n, c). n \<noteq> name) xs)) = length (filter (\<lambda>(n, c). c = cb) xs)"
  by (induction xs) auto

lemma waiting_simps [simp]:
  "waiting cb (set_timeout n t l) = waiting cb l" "waiting cb (clear_timeout n l) = waiting cb l"
  "waiting cb (l\<lparr>l_timers := x\<rparr>) = waiting cb l" "waiting cb (l\<lparr>l_locks := y\<rparr>) = waiting cb l"
  by (simp_all add: waiting_def set_timeout_def clear_timeout_def split: option.split)

lemma response_called:
  "called cb (snd (handleRemoteLockResponse name ok l)) + waiting cb (fst (handleRemoteLockResponse name ok l)) = waiting cb l"
  using called_listeners [of cb ok name "l_listeners l"]
  by (simp add: handleRemoteLockResponse_def waiting_def del: filter_filter)

lemma getLock_waiting: "waiting cb (fst (getLock name l)) = waiting cb l"
  by (simp add: getLock_def)

lemma lock_step_called:
  "called cb (snd (lock_step l i)) + waiting cb (fst (lock_step l i)) = waiting cb l + asked cb i"
proof (cases i)
  case (LGet leads leader name c)
  then show ?thesis
    by (auto simp: lock_get_def getRemoteLock_def waiting_def getLock_def split_beta set_timeout_def)
next
  case (LReleaseCall leads leader name)
  then show ?thesis by (simp add: lock_release_def releaseLock_def)
next
  case (LMessage leads m origin)
  then show ?thesis
    using response_called getLock_waiting
    by (cases m) (auto simp: onPrivateMessage_def handleRemoteLockRequest_def releaseLock_def split_beta)
next
  case (LTimer i)
  then show ?thesis
    using response_called [of cb _ False "l\<lparr>l_timers := js_delete i (l_timers l)\<rparr>"]
    by (auto simp: on_lock_timer_def releaseLock_def split: option.split lock_timer.split)
qed

lemma lock_run_called:
  "called cb (snd (run lock_step l is)) + waiting cb (fst (run lock_step l is)) = waiting cb l + sum_list (map (asked cb) is)"
proof (induction "is" arbitrary: l)
  case (Cons i "is")
  have "run lock_step l (i # is) = (fst (run lock_step (fst (lock_step l i)) is),
      snd (lock_step l i) @ snd (run lock_step (fst (lock_step l i)) is))"
    by (simp add: split_beta Let_def)
  then show ?case
    using lock_step_called [of cb l i] Cons [of "fst (lock_step l i)"] by simp
qed simp

section \<open>While the role does not change\<close>

fun in_role :: "bool \<Rightarrow> lock_input \<Rightarrow> bool" where
  "in_role r (LGet leads leader name cb) = (leads = r)"
| "in_role r (LReleaseCall leads leader name) = (leads = r)"
| "in_role r (LMessage leads m origin) = (leads = r \<and> (case m of LResponse n ok \<Rightarrow> \<not> r | _ \<Rightarrow> True))"
| "in_role r (LTimer i) = True"

definition timer_of :: "bool \<Rightarrow> string \<Rightarrow> lock_timer" where
  "timer_of r n = (if r then HoldTimeout n else RequestTimeout n)"

definition in_use :: "bool \<Rightarrow> lock_registry \<Rightarrow> string set" where
  "in_use r l = (if r then set (l_locks l) else fst ` set (l_listeners l))"

definition role_inv :: "bool \<Rightarrow> lock_registry \<Rightarrow> bool" where
  "role_inv r l \<longleftrightarrow>
     (\<forall>n i. js_get (l_timeouts l) n = Some i \<longleftrightarrow> js_get (l_timers l) i = Some (timer_of r n)) \<and>
     (\<forall>i t. js_get (l_timers l) i = Some t \<longrightarrow> i < l_next l \<and> (\<exists>n. t = timer_of r n)) \<and>
     (\<forall>n. js_has (l_timeouts l) n \<longleftrightarrow> n \<in> in_use r l) \<and>
     in_use (\<not> r) l = {}"

lemma timer_of_inj [simp]: "timer_of r n = timer_of r m \<longleftrightarrow> n = m"
  by (simp add: timer_of_def)

lemma role_inv_new: "role_inv r new_locks"
  by (simp add: role_inv_def new_locks_def in_use_def js_has_def)

lemma role_inv_use: "role_inv r l \<Longrightarrow> js_get (l_timeouts l) n = None \<longleftrightarrow> n \<notin> in_use r l"
  unfolding role_inv_def js_has_def by blast

lemma role_inv_iff:
  "role_inv r l \<Longrightarrow> js_get (l_timers l) i = Some (timer_of r n) \<longleftrightarrow> js_get (l_timeouts l) n = Some i"
  unfolding role_inv_def by blast

lemma role_inv_timer: "role_inv r l \<Longrightarrow> js_get (l_timers l) i = Some t \<Longrightarrow> \<exists>n. t = timer_of r n"
  unfolding role_inv_def by blast

lemma role_inv_set:
  assumes "role_inv r l" "n \<notin> in_use r l" "l' = (set_timeout n (timer_of r n) l)\<lparr>l_locks := x, l_listeners := y\<rparr>"
    and "in_use r l' = insert n (in_use r l)" "in_use (\<not> r) l' = {}"
  shows "role_inv r l'"
proof -
  have free: "js_get (l_timeouts l) n = None" using role_inv_use [OF assms(1)] assms(2) by blast
  have fresh: "js_get (l_timers l) (l_next l) = None"
    using assms(1) by (cases "js_get (l_timers l) (l_next l)") (auto simp: role_inv_def)
  have no: "js_get (l_timeouts l) m \<noteq> Some (l_next l)" for m
    using assms(1) fresh by (auto simp: role_inv_def)
  have m: "l_timeouts l' = js_set n (l_next l) (l_timeouts l)" "l_timers l' = js_set (l_next l) (timer_of r n) (l_timers l)"
    "l_next l' = Suc (l_next l)"
    by (simp_all add: assms(3) set_timeout_def)
  have none: "js_get (l_timers l) i \<noteq> Some (timer_of r n)" for i
    using role_inv_iff [OF assms(1)] free by simp
  show ?thesis
    using assms(1,4,5) no none unfolding role_inv_def m
    by (auto simp: js_simps less_SucI)
qed

lemma role_inv_clear:
  assumes "role_inv r l" "l' = (clear_timeout n l)\<lparr>l_locks := x, l_listeners := y\<rparr>"
    and "in_use r l' = in_use r l - {n}" "in_use (\<not> r) l' = {}"
  shows "role_inv r l'"
proof (cases "js_get (l_timeouts l) n")
  case None
  then have "n \<notin> in_use r l" using role_inv_use [OF assms(1)] by blast
  then show ?thesis
    using assms None by (simp add: clear_timeout_def role_inv_def)
next
  case (Some i)
  have uniq: "js_get (l_timeouts l) m = Some i \<Longrightarrow> m = n" for m
    using role_inv_iff [OF assms(1), of i] Some by (metis option.inject timer_of_inj)
  have m: "l_timeouts l' = js_delete n (l_timeouts l)" "l_timers l' = js_delete i (l_timers l)" "l_next l' = l_next l"
    using Some by (simp_all add: assms(2) clear_timeout_def)
  have "js_get (l_timers l) j = Some (timer_of r n) \<Longrightarrow> j = i" for j
    using role_inv_iff [OF assms(1), of j n] Some by simp
  then show ?thesis
    using assms(1,3,4) uniq unfolding role_inv_def m
    by (auto simp: js_simps)
qed

lemma role_inv_cong:
  "role_inv r l \<Longrightarrow> l_timeouts l' = l_timeouts l \<Longrightarrow> l_timers l' = l_timers l \<Longrightarrow> l_next l' = l_next l \<Longrightarrow>
    in_use r l' = in_use r l \<Longrightarrow> in_use (\<not> r) l' = {} \<Longrightarrow> role_inv r l'"
  by (simp add: role_inv_def)

text \<open>A fired timer of a name in use leaves a state from which the clearing restores the invariant.\<close>

lemma role_inv_fired:
  assumes "role_inv r l" "js_get (l_timers l) i = Some (timer_of r n)"
    and "l' = (clear_timeout n (l\<lparr>l_timers := js_delete i (l_timers l)\<rparr>))\<lparr>l_locks := x, l_listeners := y\<rparr>"
    and "in_use r l' = in_use r l - {n}" "in_use (\<not> r) l' = {}"
  shows "role_inv r l'"
proof -
  have i: "js_get (l_timeouts l) n = Some i" using assms(1,2) by (simp add: role_inv_def)
  have "js_delete i (js_delete i (l_timers l)) = js_delete i (l_timers l)"
    by (rule AList.delete_idem)
  then have "l' = (clear_timeout n l)\<lparr>l_locks := x, l_listeners := y\<rparr>"
    using i by (simp add: assms(3) clear_timeout_def)
  then show ?thesis using role_inv_clear [OF assms(1) _ assms(4,5)] by simp
qed

lemma leader_step_inv:
  assumes "role_inv True l" "in_role True i"
  shows "role_inv True (fst (lock_step l i))"
proof -
  have ls: "l_listeners l = []" using assms(1) by (simp add: role_inv_def in_use_def)
  have get: "role_inv True (fst (getLock name l))" for name
  proof (cases "name \<in> set (l_locks l)")
    case False
    show ?thesis
      by (rule role_inv_set [OF assms(1), where n = name and x = "set_add name (l_locks l)" and y = "l_listeners l"])
        (use False ls in \<open>auto simp: getLock_def timer_of_def in_use_def set_timeout_def js_simps\<close>)
  qed (use assms(1) in \<open>simp add: getLock_def\<close>)
  have rel: "role_inv True (releaseLock name l)" for name
    by (rule role_inv_clear [OF assms(1), where n = name and x = "set_delete name (l_locks l)" and y = "l_listeners l"])
      (use ls in \<open>auto simp: releaseLock_def in_use_def clear_timeout_def split: option.split\<close>)
  show ?thesis
  proof (cases i)
    case (LTimer j)
    show ?thesis
    proof (cases "js_get (l_timers l) j")
      case (Some t)
      then obtain n where t: "t = HoldTimeout n" using role_inv_timer [OF assms(1) Some] by (auto simp: timer_of_def)
      have "role_inv True (releaseLock n (l\<lparr>l_timers := js_delete j (l_timers l)\<rparr>))"
        by (rule role_inv_fired [OF assms(1), where i = j and n = n and x = "set_delete n (l_locks l)" and y = "l_listeners l"])
          (use Some t ls in \<open>auto simp: releaseLock_def timer_of_def in_use_def clear_timeout_def split: option.split\<close>)
      then show ?thesis using Some t by (simp add: LTimer on_lock_timer_def)
    qed (use assms(1) in \<open>simp add: LTimer on_lock_timer_def\<close>)
  next
    case (LMessage leads m origin)
    then show ?thesis
      using assms(2) get rel by (cases m) (auto simp: onPrivateMessage_def handleRemoteLockRequest_def split_beta)
  qed (use assms(2) get rel in \<open>auto simp: lock_get_def lock_release_def split_beta\<close>)
qed

lemma follower_step_inv:
  assumes "role_inv False l" "in_role False i"
  shows "role_inv False (fst (lock_step l i))"
proof -
  have ls: "l_locks l = []" using assms(1) by (simp add: role_inv_def in_use_def)
  have get: "role_inv False (fst (getRemoteLock leader name cb l))" if "\<not> js_has (l_timeouts l) name" for leader name cb
    by (rule role_inv_set [OF assms(1), where n = name and x = "l_locks l" and y = "l_listeners l @ [(name, cb)]"])
      (use that ls role_inv_use [OF assms(1), of name] in
        \<open>auto simp: getRemoteLock_def timer_of_def in_use_def set_timeout_def js_has_def\<close>)
  have res: "role_inv False (fst (handleRemoteLockResponse name ok l))" for name ok
    by (rule role_inv_clear [OF assms(1), where n = name and x = "l_locks l" and y = "filter (\<lambda>(n, cb). n \<noteq> name) (l_listeners l)"])
      (use ls in \<open>force simp: handleRemoteLockResponse_def in_use_def clear_timeout_def split: option.split\<close>)+
  show ?thesis
  proof (cases i)
    case (LTimer j)
    show ?thesis
    proof (cases "js_get (l_timers l) j")
      case (Some t)
      then obtain n where t: "t = RequestTimeout n" using role_inv_timer [OF assms(1) Some] by (auto simp: timer_of_def)
      have "role_inv False (fst (handleRemoteLockResponse n False (l\<lparr>l_timers := js_delete j (l_timers l)\<rparr>)))"
        by (rule role_inv_fired [OF assms(1), where i = j and n = n and x = "l_locks l" and y = "filter (\<lambda>(m, cb). m \<noteq> n) (l_listeners l)"])
          (use Some t ls in \<open>force simp: handleRemoteLockResponse_def timer_of_def in_use_def clear_timeout_def split: option.split\<close>)+
      then show ?thesis using Some t by (simp add: LTimer on_lock_timer_def)
    qed (use assms(1) in \<open>simp add: LTimer on_lock_timer_def\<close>)
  next
    case (LMessage leads m origin)
    then show ?thesis using assms res by (cases m) (auto simp: onPrivateMessage_def)
  qed (use assms get in \<open>auto simp: lock_get_def lock_release_def\<close>)
qed

lemma role_step_inv: "role_inv r l \<Longrightarrow> in_role r i \<Longrightarrow> role_inv r (fst (lock_step l i))"
  using leader_step_inv follower_step_inv by (cases r) simp_all

lemma role_run_inv: "role_inv r l \<Longrightarrow> list_all (in_role r) is \<Longrightarrow> role_inv r (fst (run lock_step l is))"
  by (induction "is" arbitrary: l) (simp_all add: split_beta Let_def role_step_inv)

section \<open>Properties\<close>

text \<open>C33: a lock is granted to one holder at a time: from any state on, it is granted at most once more often than it
  is freed, and not more often than it is freed while it is held, whatever requests arrive and whether
  or not this server leads in between; and a leader grants it to whoever asks when it is free.\<close>

theorem lock_granted_exclusively:
  "grants n l is + holds n l \<le> 1 + frees n l is \<and>
   snd (lock_step l (LGet True leader n cb)) = [LCallback cb (n \<notin> set (l_locks l))]"
proof -
  have "holds n l' \<le> 1" for l' by (simp add: holds_def)
  then have "grants n l is + holds n l \<le> 1 + frees n l is"
    using grants_bounded [of n l "is"] by (metis add.commute add_le_mono1 le_trans)
  then show ?thesis using getLock_locks [of n l] by (simp add: lock_get_def split: prod.split)
qed

text \<open>The callback of a request for a lock is called once or is still waiting, never both and never twice, in
  every history, also when this server gains or loses the lead.\<close>

theorem lock_callback_once:
  "called cb (snd (run lock_step new_locks is)) + waiting cb (fst (run lock_step new_locks is)) =
     sum_list (map (asked cb) is)"
  using lock_run_called [of cb new_locks "is"] by (simp add: new_locks_def waiting_def)

text \<open>C40: while this server keeps its role, nothing is held or waited for without an end: a held lock has a hold
  timer that frees it, a waiting request a timer that calls back with \<open>false\<close>.\<close>

theorem lock_never_stuck:
  assumes "list_all (in_role r) is" "fst (run lock_step new_locks is) = l" "n \<in> in_use r l"
  shows "\<exists>i. js_get (l_timers l) i = Some (timer_of r n) \<and> n \<notin> in_use r (fst (lock_step l (LTimer i))) \<and>
    (\<not> r \<longrightarrow> (\<forall>cb. (n, cb) \<in> set (l_listeners l) \<longrightarrow> LCallback cb False \<in> set (snd (lock_step l (LTimer i)))))"
proof -
  have inv: "role_inv r l" using role_run_inv [OF role_inv_new assms(1)] assms(2) by simp
  obtain i where "js_get (l_timeouts l) n = Some i" using role_inv_use [OF inv, of n] assms(3) by auto
  then have i: "js_get (l_timers l) i = Some (timer_of r n)" using role_inv_iff [OF inv] by simp
  show ?thesis
  proof (cases r)
    case True
    then have "n \<notin> in_use r (fst (lock_step l (LTimer i)))"
      using i by (simp add: on_lock_timer_def timer_of_def in_use_def releaseLock_def)
    then show ?thesis using i True by blast
  next
    case False
    then have "fst (lock_step l (LTimer i)) = fst (handleRemoteLockResponse n False (l\<lparr>l_timers := js_delete i (l_timers l)\<rparr>))"
      "snd (lock_step l (LTimer i)) = map (\<lambda>(n, cb). LCallback cb False) (filter (\<lambda>(m, cb). m = n) (l_listeners l))"
      using i by (simp_all add: on_lock_timer_def timer_of_def handleRemoteLockResponse_def)
    then show ?thesis
      using i False by (intro exI [of _ i]) (force simp: in_use_def handleRemoteLockResponse_def)
  qed
qed

lemma lock_never_stuck_witness:
  "\<exists>i. ''x'' \<notin> set (l_locks (fst (lock_step (fst (run lock_step new_locks [LGet True ''me'' ''x'' 0])) (LTimer i))))"
  using lock_never_stuck [of True "[LGet True ''me'' ''x'' 0]" _ "''x''", OF _ refl]
  by (auto simp: in_use_def lock_get_def getLock_def new_locks_def set_timeout_def js_simps)

text \<open>A server that asked the leader for a lock and then becomes the leader itself loses the hold timer of the
  lock: the timeout of its old request clears the timer of the hold it granted meanwhile, so when the
  holder never releases it the lock is taken for ever.\<close>

theorem hold_timer_lost_with_lead:
  assumes "l = fst (run lock_step new_locks [LGet False leader n cb, LGet True me n cb'])"
  shows "\<exists>i. js_get (l_timers l) i = Some (RequestTimeout n) \<and>
    n \<in> set (l_locks (fst (lock_step l (LTimer i)))) \<and> l_timers (fst (lock_step l (LTimer i))) = []"
proof -
  have l: "l = \<lparr>l_locks = [n], l_timeouts = [(n, 1)], l_timers = [(0, RequestTimeout n), (1, HoldTimeout n)], l_next = 2,
      l_listeners = [(n, cb)]\<rparr>"
    using assms
    by (simp add: lock_get_def new_locks_def js_has_def getRemoteLock_def getLock_def set_timeout_def set_add_def)
  show ?thesis
    by (intro exI [of _ 0]) (simp add: l on_lock_timer_def handleRemoteLockResponse_def clear_timeout_def)
qed

lemma hold_timer_lost_with_lead_witness:
  "\<exists>i. ''x'' \<in> set (l_locks (fst (lock_step (fst (run lock_step new_locks
     [LGet False ''a'' ''x'' 0, LGet True ''me'' ''x'' 1])) (LTimer i))))"
  using hold_timer_lost_with_lead [OF refl, of "''a''" "''x''" 0 "''me''" 1] by blast

end
