(* ===== verification/Listener.thy ===== *)
theory Listener
  imports Subscriptions Utils
begin

text \<open>
  Active data providers (\<open>src/listen/listener-registry.ts\<close>): clients listen to patterns, and when a
  record or event whose name matches is subscribed, the listeners are asked one after the other
  to provide it. The state holds the registry itself, the two subscription registries it works with
  (the clients' and the one of the patterns) and the names these have in their state registries, those
  of a single node. Regular expressions are the functions of \<open>listen_env\<close>; locks are asked for with an
  effect and answered by an input; response timers are armed under an id and fired by an input.
\<close>

section \<open>State\<close>

record listen_env =
  rx_valid :: "string \<Rightarrow> bool"
  rx_match :: "string \<Rightarrow> string \<Rightarrow> bool"
  le_shuffle :: bool
  le_draws :: "nat \<Rightarrow> nat \<Rightarrow> rat"
  le_cooldown :: int

record listen_provider =
  pv_socket :: socket
  pv_pattern :: string

record listen_progress =
  lp_query :: listen_provider
  lp_timer :: nat
  lp_remaining :: "listen_provider list"

record listener =
  lr_record :: bool
  lr_clients :: sub_registry
  lr_clientNames :: single_registry
  lr_listeners :: sub_registry
  lr_patternNames :: single_registry
  lr_patterns :: "string jsset"
  lr_provided :: "(string, listen_provider) jsmap"
  lr_inProgress :: "(string, listen_progress) jsmap"
  lr_unsuccessful :: "(string, int) jsmap"
  lr_published :: single_registry
  lr_timers :: "(nat, listen_provider \<times> string) jsmap"
  lr_nextId :: nat
  lr_searches :: "(nat, string \<times> listen_provider list) jsmap"

datatype listen_effect =
    LOut effect
  | LockGet nat string
  | LockRelease string
  | LOnClose socket string
  | LRemoveOnClose socket string
  | LSub sub_effect

definition listen_topic :: "listener \<Rightarrow> topic" where
  "listen_topic l = (if lr_record l then T_RECORD else T_EVENT)"

text \<open>\<open>this.actions\<close>: the enum of the topic.\<close>

definition lact :: "listener \<Rightarrow> record_action \<Rightarrow> event_action \<Rightarrow> action" where
  "lact l r e = (if lr_record l then RecordA r else EventA e)"

definition new_listener :: "bool \<Rightarrow> sub_registry \<Rightarrow> sub_registry \<Rightarrow> listener" where
  "new_listener isRecord clients patterns =
     \<lparr>lr_record = isRecord, lr_clients = setSubscriptionListener clients, lr_clientNames = [],
      lr_listeners = setSubscriptionListener
        (setAction ''unsubscribe'' (if isRecord then RecordA RA_UNLISTEN else EventA EA_UNLISTEN)
          (setAction ''subscribe'' (if isRecord then RecordA RA_LISTEN else EventA EA_LISTEN) patterns)),
      lr_patternNames = [], lr_patterns = [], lr_provided = [], lr_inProgress = [], lr_unsuccessful = [],
      lr_published = [], lr_timers = [], lr_nextId = 0, lr_searches = []\<rparr>"

section \<open>Sequencing\<close>

definition andThen :: "'s \<times> 'e list \<Rightarrow> ('s \<Rightarrow> 's \<times> 'e list) \<Rightarrow> 's \<times> 'e list" where
  "andThen res f = (fst (f (fst res)), snd res @ snd (f (fst res)))"

definition each :: "('x \<Rightarrow> 's \<Rightarrow> 's \<times> 'e list) \<Rightarrow> 'x list \<Rightarrow> 's \<Rightarrow> 's \<times> 'e list" where
  "each f xs s = run (\<lambda>s x. f x s) s xs"

lemma each_simps: "each f [] s = (s, [])" "each f (x # xs) s = andThen (f x s) (each f xs)"
  by (simp_all add: each_def andThen_def Let_def split_beta)

section \<open>The search for a provider\<close>

definition hasActiveProvider :: "listener \<Rightarrow> string \<Rightarrow> bool" where
  "hasActiveProvider l name = ssr_has (lr_published l) name"

definition createLocalListenArray :: "listen_env \<Rightarrow> string \<Rightarrow> listener \<Rightarrow> listen_provider list" where
  "createLocalListenArray E name l =
     (let ps = concat (map (\<lambda>pattern. if rx_match E pattern name
            then map (\<lambda>s. \<lparr>pv_socket = s, pv_pattern = pattern\<rparr>) (getLocalSubscribers (lr_listeners l) pattern)
            else []) (lr_patterns l))
      in if \<not> le_shuffle E then ps else shuffleArray (le_draws E (lr_nextId l)) ps)"

definition sendSubscriptionForPatternFound :: "listen_provider \<Rightarrow> string \<Rightarrow> listener \<Rightarrow> listen_effect" where
  "sendSubscriptionForPatternFound p name l = LOut (SendMessage (pv_socket p)
     ((msg (listen_topic l) (lact l RA_SUBSCRIPTION_FOR_PATTERN_FOUND EA_SUBSCRIPTION_FOR_PATTERN_FOUND))
        \<lparr>m_name := Some (pv_pattern p), m_subscription := Some name\<rparr>))"

definition sendSubscriptionForPatternRemoved :: "listen_provider \<Rightarrow> string \<Rightarrow> listener \<Rightarrow> listen_effect" where
  "sendSubscriptionForPatternRemoved p name l = LOut (SendMessage (pv_socket p)
     ((msg (listen_topic l) (lact l RA_SUBSCRIPTION_FOR_PATTERN_REMOVED EA_SUBSCRIPTION_FOR_PATTERN_REMOVED))
        \<lparr>m_name := Some (pv_pattern p), m_subscription := Some name\<rparr>))"

text \<open>\<open>startProviderSearch\<close> asks for the lock; the listeners found are those of the moment of the call.\<close>

definition startProviderSearch :: "listen_env \<Rightarrow> string \<Rightarrow> listener \<Rightarrow> listener \<times> listen_effect list" where
  "startProviderSearch E name l =
     (let ps = createLocalListenArray E name l
      in if ps = [] then (l, [])
         else (l\<lparr>lr_searches := js_set (lr_nextId l) (name, ps) (lr_searches l), lr_nextId := Suc (lr_nextId l)\<rparr>,
               [LockGet (lr_nextId l) name]))"

definition ask :: "string \<Rightarrow> listen_provider \<Rightarrow> listen_provider list \<Rightarrow> listener \<Rightarrow> listener \<times> listen_effect list" where
  "ask name p ps l =
     (l\<lparr>lr_inProgress := js_set name \<lparr>lp_query = p, lp_timer = lr_nextId l, lp_remaining = ps\<rparr> (lr_inProgress l),
        lr_timers := js_set (lr_nextId l) (p, name) (lr_timers l), lr_nextId := Suc (lr_nextId l)\<rparr>,
      [sendSubscriptionForPatternFound p name l])"

text \<open>\<open>stopProviderSearch\<close>: the lock goes back, an unsuccessful search is remembered and announced.\<close>

definition stopProviderSearch :: "int \<Rightarrow> string \<Rightarrow> listener \<Rightarrow> listener \<times> listen_effect list" where
  "stopProviderSearch now name l =
     (if \<not> js_has (lr_inProgress l) name then (l, [LockRelease name])
      else (let l1 = l\<lparr>lr_inProgress := js_delete name (lr_inProgress l)\<rparr>
            in if hasActiveProvider l name then (l1, [LockRelease name])
               else (l1\<lparr>lr_unsuccessful := js_set name now (lr_unsuccessful l)\<rparr>,
                     [LockRelease name,
                      LOut (ClusterSend ((msg (if lr_record l then T_RECORD_LISTENING else T_EVENT_LISTENING)
                        (lact l RA_LISTEN_UNSUCCESSFUL EA_LISTEN_UNSUCCESSFUL))\<lparr>m_subscription := Some name\<rparr>))])))"

definition triggerNextProvider :: "int \<Rightarrow> string \<Rightarrow> listener \<Rightarrow> listener \<times> listen_effect list" where
  "triggerNextProvider now name l =
     (case js_get (lr_inProgress l) name of
        None \<Rightarrow> (l, [])
      | Some ip \<Rightarrow>
          (case lp_remaining ip of
             [] \<Rightarrow> stopProviderSearch now name l
           | p # ps \<Rightarrow> ask name p ps l))"

text \<open>The first call of a search carries the array, which is not empty.\<close>

fun startLocalDiscoveryStage :: "string \<Rightarrow> listen_provider list \<Rightarrow> listener \<Rightarrow> listener \<times> listen_effect list" where
  "startLocalDiscoveryStage name [] l = (l, [])"
| "startLocalDiscoveryStage name (p # ps) l = ask name p ps l"

text \<open>The callback handed to \<open>locks.get\<close>.\<close>

definition onLock :: "nat \<Rightarrow> bool \<Rightarrow> listener \<Rightarrow> listener \<times> listen_effect list" where
  "onLock i success l =
     (case js_get (lr_searches l) i of
        None \<Rightarrow> (l, [])
      | Some (name, ps) \<Rightarrow>
          (let l1 = l\<lparr>lr_searches := js_delete i (lr_searches l)\<rparr>
           in if \<not> success then (l1, [])
              else if hasActiveProvider l1 name then (l1, [LockRelease name])
              else startLocalDiscoveryStage name ps l1))"

definition onListenTimeout :: "int \<Rightarrow> nat \<Rightarrow> listener \<Rightarrow> listener \<times> listen_effect list" where
  "onListenTimeout now i l =
     (case js_get (lr_timers l) i of
        None \<Rightarrow> (l, [])
      | Some (p, name) \<Rightarrow>
          andThen (l\<lparr>lr_timers := js_delete i (lr_timers l)\<rparr>,
            [LOut (SendMessage (pv_socket p)
               ((msg (listen_topic l) (lact l RA_LISTEN_RESPONSE_TIMEOUT EA_LISTEN_RESPONSE_TIMEOUT))
                  \<lparr>m_subscription := Some name\<rparr>))])
            (triggerNextProvider now name))"

section \<open>Providing\<close>

definition sendHasProviderUpdate :: "bool \<Rightarrow> string \<Rightarrow> listener \<Rightarrow> listen_effect list" where
  "sendHasProviderUpdate hasProvider name l =
     (if \<not> lr_record l then []
      else map LSub (sendToSubscribers name
             ((msg T_RECORD (RecordA (if hasProvider then RA_SUBSCRIPTION_HAS_PROVIDER else RA_SUBSCRIPTION_HAS_NO_PROVIDER)))
                \<lparr>m_name := Some name\<rparr>) False None False (lr_clients l)))"

definition sendHasProviderUpdateToSingleSubscriber ::
  "bool \<Rightarrow> socket \<Rightarrow> string \<Rightarrow> listener \<Rightarrow> listen_effect list" where
  "sendHasProviderUpdateToSingleSubscriber hasProvider s name l =
     (if \<not> lr_record l then []
      else [LOut (SendMessage s
             ((msg T_RECORD (RecordA (if hasProvider then RA_SUBSCRIPTION_HAS_PROVIDER else RA_SUBSCRIPTION_HAS_NO_PROVIDER)))
                \<lparr>m_name := Some name\<rparr>))])"

definition onRecordStopProvided :: "listen_env \<Rightarrow> string \<Rightarrow> listener \<Rightarrow> listener \<times> listen_effect list" where
  "onRecordStopProvided E name l =
     andThen (l, sendHasProviderUpdate False name l)
       (\<lambda>l. if \<not> hasActiveProvider l name \<and> ssr_has (lr_clientNames l) name
            then startProviderSearch E name l else (l, []))"

text \<open>The callbacks registered with the registry of the published names.\<close>

fun onPublishedEvent :: "listen_env \<Rightarrow> reg_event \<Rightarrow> listener \<Rightarrow> listener \<times> listen_effect list" where
  "onPublishedEvent E (NameAdded n) l = (l, sendHasProviderUpdate True n l)"
| "onPublishedEvent E (NameRemoved n) l = onRecordStopProvided E n l"

definition publish :: "listen_env \<Rightarrow> reg_op \<Rightarrow> listener \<Rightarrow> listener \<times> listen_effect list" where
  "publish E x l = (case ssr_op (lr_published l) x of
     (p, evs) \<Rightarrow> each (onPublishedEvent E) evs (l\<lparr>lr_published := p\<rparr>))"

definition removeActiveListener :: "listen_env \<Rightarrow> string \<Rightarrow> listener \<Rightarrow> listener \<times> listen_effect list" where
  "removeActiveListener E name l =
     andThen (publish E (RegRemove name) l) (\<lambda>l. (l\<lparr>lr_provided := js_delete name (lr_provided l)\<rparr>, []))"

definition accept :: "listen_env \<Rightarrow> int \<Rightarrow> socket \<Rightarrow> message \<Rightarrow> listener \<Rightarrow> listener \<times> listen_effect list" where
  "accept E now s m l =
     (let name = the (m_subscription m); p = \<lparr>pv_socket = s, pv_pattern = the (m_name m)\<rparr>
      in andThen (l\<lparr>lr_provided := js_set name p (lr_provided l)\<rparr>, [LOnClose s (pv_pattern p)])
           (\<lambda>l. andThen (publish E (RegAdd name) l) (stopProviderSearch now name)))"

definition processResponseForListenInProgress ::
  "listen_env \<Rightarrow> int \<Rightarrow> socket \<Rightarrow> message \<Rightarrow> listener \<Rightarrow> listener \<times> listen_effect list" where
  "processResponseForListenInProgress E now s m l =
     (case js_get (lr_inProgress l) (the (m_subscription m)) of
        None \<Rightarrow> (l, [])
      | Some ip \<Rightarrow>
          (let l1 = l\<lparr>lr_timers := js_delete (lp_timer ip) (lr_timers l)\<rparr>
           in if m_action m = lact l RA_LISTEN_ACCEPT EA_LISTEN_ACCEPT then accept E now s m l1
              else if m_action m = lact l RA_LISTEN_REJECT EA_LISTEN_REJECT
              then triggerNextProvider now (the (m_subscription m)) l1
              else (l1, [])))"

section \<open>The patterns\<close>

definition addPattern :: "string \<Rightarrow> listener \<Rightarrow> listener" where
  "addPattern pattern l = l\<lparr>lr_patterns := set_add pattern (lr_patterns l)\<rparr>"

definition removeLastPattern :: "string \<Rightarrow> listener \<Rightarrow> listener" where
  "removeLastPattern pattern l = l\<lparr>lr_patterns := set_delete pattern (lr_patterns l)\<rparr>"

text \<open>One name of the loop of \<open>reconcileSubscriptionsToPatterns\<close>. \<open>match\<close> of an unknown pattern is
  \<open>match(undefined)\<close>, which matches everything.\<close>

definition reconcile_name ::
  "listen_env \<Rightarrow> string \<Rightarrow> socket option \<Rightarrow> string \<Rightarrow> listener \<Rightarrow> listener \<times> listen_effect list" where
  "reconcile_name E pattern so name l =
     (if js_has (lr_provided l) name then (l, [])
      else if pattern \<in> set (lr_patterns l) \<and> \<not> rx_match E pattern name then (l, [])
      else case js_get (lr_inProgress l) name of
             Some ip \<Rightarrow>
               (case so of
                  Some s \<Rightarrow> (l\<lparr>lr_inProgress := js_set name
                     (ip\<lparr>lp_remaining := lp_remaining ip @ [\<lparr>pv_socket = s, pv_pattern = pattern\<rparr>]\<rparr>) (lr_inProgress l)\<rparr>, [])
                | None \<Rightarrow> (l, []))
           | None \<Rightarrow> startProviderSearch E name l)"

definition reconcileSubscriptionsToPatterns ::
  "listen_env \<Rightarrow> string \<Rightarrow> socket option \<Rightarrow> listener \<Rightarrow> listener \<times> listen_effect list" where
  "reconcileSubscriptionsToPatterns E pattern so l =
     each (reconcile_name E pattern so) (ssr_getAll (lr_clientNames l)) l"

text \<open>One search of the loop of \<open>removeListenerFromInProgress\<close>; the test of \<open>filter\<close> is the source's.\<close>

definition drop_candidate :: "int \<Rightarrow> string \<Rightarrow> socket \<Rightarrow> string \<Rightarrow> listener \<Rightarrow> listener \<times> listen_effect list" where
  "drop_candidate now pattern s name l =
     (case js_get (lr_inProgress l) name of
        None \<Rightarrow> (l, [])
      | Some ip \<Rightarrow>
          (let ps = filter (\<lambda>p. pv_socket p = s \<and> pv_pattern p = pattern) (lp_remaining ip);
               l1 = l\<lparr>lr_inProgress := js_set name (ip\<lparr>lp_remaining := ps\<rparr>) (lr_inProgress l)\<rparr>
           in if ps = [] then stopProviderSearch now name l1 else (l1, [])))"

definition removeListenerFromInProgress :: "int \<Rightarrow> string \<Rightarrow> socket \<Rightarrow> listener \<Rightarrow> listener \<times> listen_effect list" where
  "removeListenerFromInProgress now pattern s l = each (drop_candidate now pattern s) (js_keys (lr_inProgress l)) l"

definition remove_if_active ::
  "listen_env \<Rightarrow> string \<Rightarrow> socket \<Rightarrow> string \<Rightarrow> listener \<Rightarrow> listener \<times> listen_effect list" where
  "remove_if_active E pattern s name l =
     (case js_get (lr_provided l) name of
        None \<Rightarrow> (l, [])
      | Some p \<Rightarrow>
          if pv_socket p = s \<and> pv_pattern p = pattern
          then andThen (l, [LRemoveOnClose s pattern])
                 (\<lambda>l. andThen (removeActiveListener E name l)
                   (\<lambda>l. if hasLocalSubscribers (lr_clients l) name then startProviderSearch E name l else (l, [])))
          else (l, []))"

definition removeListenerIfActive :: "listen_env \<Rightarrow> string \<Rightarrow> socket \<Rightarrow> listener \<Rightarrow> listener \<times> listen_effect list" where
  "removeListenerIfActive E pattern s l = each (remove_if_active E pattern s) (js_keys (lr_provided l)) l"

definition removePattern :: "listen_env \<Rightarrow> int \<Rightarrow> string \<Rightarrow> socket \<Rightarrow> listener \<Rightarrow> listener \<times> listen_effect list" where
  "removePattern E now pattern s l =
     andThen (removeListenerFromInProgress now pattern s l) (removeListenerIfActive E pattern s)"

section \<open>The two subscription registries\<close>

definition onFirstSubscriptionMade :: "listen_env \<Rightarrow> string \<Rightarrow> listener \<Rightarrow> listener \<times> listen_effect list" where
  "onFirstSubscriptionMade E name l = startProviderSearch E name l"

definition onSubscriptionMade :: "string \<Rightarrow> socket \<Rightarrow> listener \<Rightarrow> listener \<times> listen_effect list" where
  "onSubscriptionMade name s l =
     (l, if hasActiveProvider l name then sendHasProviderUpdateToSingleSubscriber True s name l else [])"

definition onLastSubscriptionRemoved :: "listen_env \<Rightarrow> string \<Rightarrow> listener \<Rightarrow> listener \<times> listen_effect list" where
  "onLastSubscriptionRemoved E name l =
     (let l1 = l\<lparr>lr_unsuccessful := js_delete name (lr_unsuccessful l)\<rparr>
      in case js_get (lr_provided l1) name of
           None \<Rightarrow> (l1, [])
         | Some p \<Rightarrow> andThen (l1, [sendSubscriptionForPatternRemoved p name l1]) (removeActiveListener E name))"

text \<open>What the registry of the clients calls back, for one effect of its operations.\<close>

fun client_name_event :: "listen_env \<Rightarrow> reg_event \<Rightarrow> listener \<Rightarrow> listener \<times> listen_effect list" where
  "client_name_event E (NameAdded n) l = onFirstSubscriptionMade E n l"
| "client_name_event E (NameRemoved n) l = onLastSubscriptionRemoved E n l"

fun client_effect :: "listen_env \<Rightarrow> sub_effect \<Rightarrow> listener \<Rightarrow> listener \<times> listen_effect list" where
  "client_effect E (RegistryCall x) l =
     (case ssr_op (lr_clientNames l) x of
        (ns, evs) \<Rightarrow> each (client_name_event E) evs (l\<lparr>lr_clientNames := ns\<rparr>))"
| "client_effect E (SubscriptionMade n s) l = onSubscriptionMade n s l"
| "client_effect E (SubscriptionRemoved n s) l = (l, [])"
| "client_effect E (Out e) l = (l, [LOut e])"
| "client_effect E (AddOnClose s) l = (l, [LSub (AddOnClose s)])"
| "client_effect E (RemoveOnClose s) l = (l, [LSub (RemoveOnClose s)])"

definition on_clients :: "listen_env \<Rightarrow> (sub_registry \<Rightarrow> sub_registry \<times> sub_effect list) \<Rightarrow> listener \<Rightarrow>
    listener \<times> listen_effect list" where
  "on_clients E f l = (case f (lr_clients l) of
     (r, es) \<Rightarrow> each (client_effect E) es (l\<lparr>lr_clients := r\<rparr>))"

text \<open>What the registry of the patterns calls back (the object given to \<open>setSubscriptionListener\<close>).\<close>

fun pattern_name_event :: "reg_event \<Rightarrow> listener \<Rightarrow> listener \<times> listen_effect list" where
  "pattern_name_event (NameAdded p) l = (addPattern p l, [])"
| "pattern_name_event (NameRemoved p) l = (removeLastPattern p l, [])"

fun pattern_effect :: "listen_env \<Rightarrow> int \<Rightarrow> sub_effect \<Rightarrow> listener \<Rightarrow> listener \<times> listen_effect list" where
  "pattern_effect E now (RegistryCall x) l =
     (case ssr_op (lr_patternNames l) x of
        (ns, evs) \<Rightarrow> each pattern_name_event evs (l\<lparr>lr_patternNames := ns\<rparr>))"
| "pattern_effect E now (SubscriptionMade p s) l = reconcileSubscriptionsToPatterns E p (Some s) l"
| "pattern_effect E now (SubscriptionRemoved p s) l = removePattern E now p s l"
| "pattern_effect E now (Out e) l = (l, [LOut e])"
| "pattern_effect E now (AddOnClose s) l = (l, [LSub (AddOnClose s)])"
| "pattern_effect E now (RemoveOnClose s) l = (l, [LSub (RemoveOnClose s)])"

definition on_patterns :: "listen_env \<Rightarrow> int \<Rightarrow> (sub_registry \<Rightarrow> sub_registry \<times> sub_effect list) \<Rightarrow> listener \<Rightarrow>
    listener \<times> listen_effect list" where
  "on_patterns E now f l = (case f (lr_listeners l) of
     (r, es) \<Rightarrow> each (pattern_effect E now) es (l\<lparr>lr_listeners := r\<rparr>))"

text \<open>The close callback of a registry drops one subscription after the other, with its callbacks.\<close>

definition clients_close :: "listen_env \<Rightarrow> socket \<Rightarrow> listener \<Rightarrow> listener \<times> listen_effect list" where
  "clients_close E s l =
     (case js_get (sockets (lr_clients l)) s of
        None \<Rightarrow> (l, [])
      | Some ns \<Rightarrow> andThen (each (\<lambda>n. on_clients E (drop_one s n)) ns l)
          (\<lambda>l. (l\<lparr>lr_clients := (lr_clients l)\<lparr>sockets := js_delete s (sockets (lr_clients l))\<rparr>\<rparr>, [])))"

definition patterns_close :: "listen_env \<Rightarrow> int \<Rightarrow> socket \<Rightarrow> listener \<Rightarrow> listener \<times> listen_effect list" where
  "patterns_close E now s l =
     (case js_get (sockets (lr_listeners l)) s of
        None \<Rightarrow> (l, [])
      | Some ns \<Rightarrow> andThen (each (\<lambda>n. on_patterns E now (drop_one s n)) ns l)
          (\<lambda>l. (l\<lparr>lr_listeners := (lr_listeners l)\<lparr>sockets := js_delete s (sockets (lr_listeners l))\<rparr>\<rparr>, [])))"

section \<open>The entry points\<close>

definition addListener :: "listen_env \<Rightarrow> int \<Rightarrow> socket \<Rightarrow> message \<Rightarrow> listener \<Rightarrow> listener \<times> listen_effect list" where
  "addListener E now s m l =
     (if \<not> rx_valid E (the (m_name m))
      then (l, [LOut (SendMessage s ((msg (listen_topic l) (lact l RA_INVALID_LISTEN_REGEX EA_INVALID_LISTEN_REGEX))
                 \<lparr>m_name := m_name m\<rparr>))])
      else on_patterns E now (subscribe (the (m_name m)) m s False) l)"

definition listen_handle :: "listen_env \<Rightarrow> int \<Rightarrow> socket \<Rightarrow> message \<Rightarrow> listener \<Rightarrow> listener \<times> listen_effect list" where
  "listen_handle E now s m l =
     (if m_action m = lact l RA_LISTEN EA_LISTEN then addListener E now s m l
      else if m_action m = lact l RA_UNLISTEN EA_UNLISTEN
      then on_patterns E now (unsubscribe (the (m_name m)) m s False) l
      else if m_action m = lact l RA_LISTEN_ACCEPT EA_LISTEN_ACCEPT \<or> m_action m = lact l RA_LISTEN_REJECT EA_LISTEN_REJECT
      then processResponseForListenInProgress E now s m l
      else (l, []))"

definition onIncomingMessage :: "listen_env \<Rightarrow> int \<Rightarrow> message \<Rightarrow> listener \<Rightarrow> listener \<times> listen_effect list" where
  "onIncomingMessage E now m l =
     (if m_action m = lact l RA_LISTEN_UNSUCCESSFUL EA_LISTEN_UNSUCCESSFUL
      then (let name = the (m_subscription m)
            in if hasActiveProvider l name then (l, [])
               else case js_get (lr_unsuccessful l) name of
                      None \<Rightarrow> onFirstSubscriptionMade E name l
                    | Some t \<Rightarrow> if t = 0 \<or> t - now > le_cooldown E then onFirstSubscriptionMade E name l else (l, []))
      else (l, []))"

definition rematch :: "listen_env \<Rightarrow> listener \<Rightarrow> listener \<times> listen_effect list" where
  "rematch E l = each (\<lambda>p. reconcileSubscriptionsToPatterns E p None) (lr_patterns l) l"

datatype listen_input =
    LHandle int socket message
  | LCluster int message
  | LLock nat bool
  | LTimeout int nat
  | LRematch
  | LClientSubscribe string message socket
  | LClientUnsubscribe string message socket
  | LClientClose socket
  | LListenerClose int socket
  | LProviderClose int socket string

fun listen_step :: "listen_env \<Rightarrow> listener \<Rightarrow> listen_input \<Rightarrow> listener \<times> listen_effect list" where
  "listen_step E l (LHandle now s m) = listen_handle E now s m l"
| "listen_step E l (LCluster now m) = onIncomingMessage E now m l"
| "listen_step E l (LLock i ok) = onLock i ok l"
| "listen_step E l (LTimeout now i) = onListenTimeout now i l"
| "listen_step E l LRematch = rematch E l"
| "listen_step E l (LClientSubscribe n m s) = on_clients E (subscribe n m s False) l"
| "listen_step E l (LClientUnsubscribe n m s) = on_clients E (unsubscribe n m s False) l"
| "listen_step E l (LClientClose s) = clients_close E s l"
| "listen_step E l (LListenerClose now s) = patterns_close E now s l"
| "listen_step E l (LProviderClose now s pattern) = removePattern E now pattern s l"

section \<open>What every operation keeps\<close>

text \<open>
  The names published in the cluster are those provided here, a name is not searched for while it
  is provided, and the lock of a name is held exactly during its search. \<open>H\<close> is the set of
  names whose lock is held.
\<close>

definition searches_ok :: "listener \<Rightarrow> bool" where
  "searches_ok l \<longleftrightarrow> (\<forall>i n ps. js_get (lr_searches l) i = Some (n, ps) \<longrightarrow> ps \<noteq> [])"

definition listen_inv :: "string set \<Rightarrow> listener \<Rightarrow> bool" where
  "listen_inv H l \<longleftrightarrow>
     ssr_inv (lr_published l) \<and>
     (\<forall>n. ssr_cnt (lr_published l) n = (if js_has (lr_provided l) n then 1 else 0)) \<and>
     (\<forall>n. js_has (lr_inProgress l) n \<longrightarrow> \<not> js_has (lr_provided l) n) \<and>
     searches_ok l \<and>
     (\<forall>n. n \<in> H \<longleftrightarrow> js_has (lr_inProgress l) n)"

fun released :: "listen_effect list \<Rightarrow> string set" where
  "released [] = {}"
| "released (LockRelease n # es) = insert n (released es)"
| "released (e # es) = released es"

lemma released_append [simp]: "released (es @ fs) = released es \<union> released fs"
  by (induction es rule: released.induct) auto

lemma released_LSub [simp]: "released (map LSub es) = {}"
  by (induction es) auto

definition keeps :: "string set \<Rightarrow> listener \<times> listen_effect list \<Rightarrow> bool" where
  "keeps H res \<longleftrightarrow> listen_inv (H - released (snd res)) (fst res)"

lemma keeps_andThen:
  assumes "keeps H res" and "\<And>H'. listen_inv H' (fst res) \<Longrightarrow> keeps H' (f (fst res))"
  shows "keeps H (andThen res f)"
proof -
  have "H - (A \<union> B) = H - A - B" for A B :: "string set" by blast
  then show ?thesis using assms by (simp add: keeps_def andThen_def)
qed

lemma keeps_each:
  assumes "\<And>H l x. x \<in> set xs \<Longrightarrow> listen_inv H l \<Longrightarrow> keeps H (f x l)" and "listen_inv H l"
  shows "keeps H (each f xs l)"
  using assms
proof (induction xs arbitrary: H l)
  case Nil
  then show ?case by (simp add: keeps_def each_simps)
next
  case (Cons x xs)
  have "keeps H (andThen (f x l) (each f xs))"
    using Cons.prems by (intro keeps_andThen Cons.IH) auto
  then show ?case by (simp add: each_simps)
qed

text \<open>An operation that leaves the names alone: the fields of the invariant stay, nothing is released.\<close>

definition quiet :: "listener \<Rightarrow> listener \<times> listen_effect list \<Rightarrow> bool" where
  "quiet l res \<longleftrightarrow> lr_published (fst res) = lr_published l \<and> lr_provided (fst res) = lr_provided l \<and>
     lr_inProgress (fst res) = lr_inProgress l \<and> released (snd res) = {} \<and>
     (searches_ok l \<longrightarrow> searches_ok (fst res))"

lemma quiet_keeps: "quiet l res \<Longrightarrow> listen_inv H l \<Longrightarrow> keeps H res"
  by (simp add: quiet_def keeps_def listen_inv_def)

lemma quiet_andThen: "quiet l res \<Longrightarrow> quiet (fst res) (f (fst res)) \<Longrightarrow> quiet l (andThen res f)"
  by (simp add: quiet_def andThen_def)

lemma quiet_each:
  assumes "\<And>l x. quiet l (f x l)"
  shows "quiet l (each f xs l)"
proof (induction xs arbitrary: l)
  case (Cons x xs)
  show ?case by (simp only: each_simps) (rule quiet_andThen [where f = "each f xs", OF assms Cons.IH])
qed (simp add: quiet_def each_simps)

lemma quiet_startProviderSearch: "quiet l (startProviderSearch E name l)"
  by (simp add: quiet_def searches_ok_def startProviderSearch_def Let_def js_simps)

lemma quiet_onPublishedEvent: "quiet l (onPublishedEvent E ev l)"
proof -
  have u: "released (sendHasProviderUpdate b n l) = {}" for b n l by (simp add: sendHasProviderUpdate_def)
  have n: "quiet l (l, es)" if "released es = {}" for es l using that by (simp add: quiet_def)
  have s: "quiet l (onRecordStopProvided E name l)" for name
    unfolding onRecordStopProvided_def
    by (rule quiet_andThen, rule n [OF u]) (simp add: n quiet_startProviderSearch)
  show ?thesis by (cases ev) (simp_all add: n u s)
qed

lemma publish_fields:
  "lr_published (fst (publish E x l)) = fst (ssr_op (lr_published l) x)"
  "lr_provided (fst (publish E x l)) = lr_provided l"
  "lr_inProgress (fst (publish E x l)) = lr_inProgress l"
  "released (snd (publish E x l)) = {}"
  "searches_ok l \<Longrightarrow> searches_ok (fst (publish E x l))"
  using quiet_each [of "onPublishedEvent E", OF quiet_onPublishedEvent,
    of "l\<lparr>lr_published := fst (ssr_op (lr_published l) x)\<rparr>" "snd (ssr_op (lr_published l) x)"]
  by (auto simp: publish_def quiet_def split_beta searches_ok_def)

lemma hasActive_iff: "listen_inv H l \<Longrightarrow> hasActiveProvider l n \<longleftrightarrow> js_has (lr_provided l) n"
  by (simp add: listen_inv_def hasActiveProvider_def ssr_names_spec)

lemma removeActiveListener_keeps:
  assumes inv: "listen_inv H l" and p: "js_has (lr_provided l) name"
  shows "keeps H (removeActiveListener E name l)"
proof -
  have c: "ssr_inv (lr_published l)" "ssr_cnt (lr_published l) name = 1" using inv p by (auto simp: listen_inv_def)
  show ?thesis
    using inv p ssr_remove_spec [OF c(1), of name] c(2)
      publish_fields(5) [of l E "RegRemove name"]
    by (auto simp: keeps_def removeActiveListener_def andThen_def listen_inv_def searches_ok_def publish_fields(1-4) js_simps)
qed

lemma keeps_noop [simp]: "keeps H (l, []) \<longleftrightarrow> listen_inv H l"
  by (simp add: keeps_def)

lemma keeps_quiet_effects: "released es = {} \<Longrightarrow> keeps H (l, es) \<longleftrightarrow> listen_inv H l"
  by (simp add: keeps_def)

lemma startProviderSearch_keeps: "listen_inv H l \<Longrightarrow> keeps H (startProviderSearch E name l)"
  by (rule quiet_keeps [OF quiet_startProviderSearch])

lemma stopProviderSearch_keeps: "listen_inv H l \<Longrightarrow> keeps H (stopProviderSearch now name l)"
  by (auto simp: keeps_def stopProviderSearch_def Let_def listen_inv_def searches_ok_def js_simps)

lemma ask_inv:
  "listen_inv H l \<Longrightarrow> \<not> js_has (lr_provided l) name \<Longrightarrow> listen_inv (insert name H) (fst (ask name p ps l))"
  by (auto simp: ask_def listen_inv_def searches_ok_def js_simps)

lemma ask_released [simp]: "released (snd (ask name p ps l)) = {}"
  by (simp add: ask_def sendSubscriptionForPatternFound_def)

lemma triggerNextProvider_keeps:
  assumes "listen_inv H l"
  shows "keeps H (triggerNextProvider now name l)"
proof -
  have "keeps H (ask name p ps l)" if "js_get (lr_inProgress l) name \<noteq> None" for p ps
  proof -
    from that have h: "js_has (lr_inProgress l) name" by (simp add: js_has_def)
    with assms have "\<not> js_has (lr_provided l) name" "name \<in> H"
      by (auto simp: listen_inv_def)
    with ask_inv [OF assms, of name p ps] show ?thesis by (simp add: keeps_def insert_absorb)
  qed
  then show ?thesis
    using assms by (auto simp: triggerNextProvider_def stopProviderSearch_keeps split: option.split list.split)
qed

text \<open>The names whose lock an input hands over.\<close>

definition acquired :: "listener \<Rightarrow> nat \<Rightarrow> bool \<Rightarrow> string set" where
  "acquired l i ok = (case js_get (lr_searches l) i of Some (n, ps) \<Rightarrow> if ok then {n} else {} | None \<Rightarrow> {})"

lemma listen_inv_forget:
  "listen_inv H l \<Longrightarrow> listen_inv H (l\<lparr>lr_searches := js_delete i (lr_searches l)\<rparr>)"
  "listen_inv H l \<Longrightarrow> listen_inv H (l\<lparr>lr_timers := t\<rparr>)"
  by (auto simp: listen_inv_def searches_ok_def js_simps)

lemma onLock_keeps:
  assumes inv: "listen_inv H l"
  shows "keeps (H \<union> acquired l i ok) (onLock i ok l)"
proof (cases "js_get (lr_searches l) i")
  case None
  then show ?thesis using inv by (simp add: onLock_def acquired_def)
next
  case (Some e)
  then obtain name ps where e: "js_get (lr_searches l) i = Some (name, ps)" by (cases e) auto
  define l1 where "l1 = l\<lparr>lr_searches := js_delete i (lr_searches l)\<rparr>"
  have inv1: "listen_inv H l1" using listen_inv_forget(1) [OF inv] by (simp add: l1_def)
  have "ps \<noteq> []" using inv e unfolding listen_inv_def searches_ok_def by blast
  then obtain p qs where ps: "ps = p # qs" by (cases ps) auto
  show ?thesis
  proof (cases "ok \<and> \<not> hasActiveProvider l1 name")
    case True
    with hasActive_iff [OF inv1] have "\<not> js_has (lr_provided l1) name" by simp
    with True ask_inv [OF inv1] e ps show ?thesis
      by (simp add: onLock_def acquired_def keeps_def l1_def [symmetric])
  next
    case False
    moreover have "name \<notin> H" if "hasActiveProvider l1 name"
      using that hasActive_iff [OF inv1] inv1 by (auto simp: listen_inv_def)
    ultimately show ?thesis
      using inv1 e by (auto simp: onLock_def acquired_def keeps_def l1_def [symmetric])
  qed
qed

lemma onListenTimeout_keeps: "listen_inv H l \<Longrightarrow> keeps H (onListenTimeout now i l)"
  by (auto simp: onListenTimeout_def keeps_quiet_effects listen_inv_forget triggerNextProvider_keeps
      split: option.split intro!: keeps_andThen)

lemma accept_keeps:
  assumes inv: "listen_inv H l" and n: "js_has (lr_inProgress l) (the (m_subscription m))"
  shows "keeps H (accept E now s m l)"
proof -
  let ?n = "the (m_subscription m)"
  let ?p = "\<lparr>pv_socket = s, pv_pattern = the (m_name m)\<rparr>"
  define l1 where "l1 = l\<lparr>lr_provided := js_set ?n ?p (lr_provided l)\<rparr>"
  define l2 where "l2 = fst (publish E (RegAdd ?n) l1)"
  have f: "lr_published l1 = lr_published l" "lr_inProgress l1 = lr_inProgress l" "searches_ok l1 = searches_ok l"
    "lr_provided l1 = js_set ?n ?p (lr_provided l)"
    by (simp_all add: l1_def searches_ok_def)
  have c: "ssr_inv (lr_published l)" "\<not> js_has (lr_provided l) ?n" using inv n by (auto simp: listen_inv_def)
  note a = ssr_add_spec [OF c(1), of ?n] and g = publish_fields [where E = E and x = "RegAdd ?n" and l = l1, folded l2_def]
  have s2: "searches_ok l2" using inv g(5) f(3) by (simp add: listen_inv_def)
  have act: "hasActiveProvider l2 ?n" using a ssr_names_spec(1) [of "lr_published l2"]
    by (simp add: hasActiveProvider_def g f)
  have "listen_inv (H - {?n}) (l2\<lparr>lr_inProgress := js_delete ?n (lr_inProgress l2)\<rparr>)"
    using inv c(2) a s2 by (auto simp: listen_inv_def g f js_simps searches_ok_def)
  moreover have "stopProviderSearch now ?n l2 = (l2\<lparr>lr_inProgress := js_delete ?n (lr_inProgress l2)\<rparr>, [LockRelease ?n])"
    using act n by (simp add: stopProviderSearch_def g f Let_def)
  ultimately show ?thesis
    by (simp add: accept_def keeps_def andThen_def Let_def g l1_def [symmetric] l2_def [symmetric])
qed

lemma processResponse_keeps: "listen_inv H l \<Longrightarrow> keeps H (processResponseForListenInProgress E now s m l)"
  by (auto simp: processResponseForListenInProgress_def Let_def js_has_def listen_inv_forget split: option.split
      intro!: accept_keeps triggerNextProvider_keeps)

lemma reconcile_keeps: "listen_inv H l \<Longrightarrow> keeps H (reconcileSubscriptionsToPatterns E pattern so l)"
proof (unfold reconcileSubscriptionsToPatterns_def, rule keeps_each)
  fix H l name
  assume inv: "listen_inv H l"
  have "listen_inv H (l\<lparr>lr_inProgress := js_set name ip (lr_inProgress l)\<rparr>)"
    if "js_get (lr_inProgress l) name = Some ip'" for ip ip'
  proof -
    from that have "js_has (lr_inProgress l) name" by (simp add: js_has_def)
    with inv show ?thesis by (auto simp: listen_inv_def searches_ok_def js_simps)
  qed
  then show "keeps H (reconcile_name E pattern so name l)"
    using inv by (auto simp: reconcile_name_def startProviderSearch_keeps split: option.split)
qed

lemma removePattern_keeps: "listen_inv H l \<Longrightarrow> keeps H (removePattern E now pattern s l)"
proof (unfold removePattern_def removeListenerFromInProgress_def removeListenerIfActive_def,
    intro keeps_andThen keeps_each)
  fix H l name
  assume inv: "listen_inv H l"
  show "keeps H (drop_candidate now pattern s name l)"
  proof (cases "js_get (lr_inProgress l) name")
    case (Some ip)
    then have "js_has (lr_inProgress l) name" by (simp add: js_has_def)
    with inv have "listen_inv H (l\<lparr>lr_inProgress := js_set name ip' (lr_inProgress l)\<rparr>)" for ip'
      by (auto simp: listen_inv_def searches_ok_def js_simps)
    with Some show ?thesis by (simp add: drop_candidate_def Let_def stopProviderSearch_keeps)
  qed (simp add: drop_candidate_def inv)
next
  fix H l name
  assume inv: "listen_inv H l"
  show "keeps H (remove_if_active E pattern s name l)"
  proof (cases "js_get (lr_provided l) name")
    case (Some p)
    then have "js_has (lr_provided l) name" by (simp add: js_has_def)
    with Some inv show ?thesis
      by (auto simp: remove_if_active_def keeps_quiet_effects startProviderSearch_keeps
          intro!: keeps_andThen removeActiveListener_keeps)
  qed (simp add: remove_if_active_def inv)
qed assumption+

lemma listen_inv_frame:
  "listen_inv H (l\<lparr>lr_clients := r\<rparr>) = listen_inv H l"
  "listen_inv H (l\<lparr>lr_clientNames := ns\<rparr>) = listen_inv H l"
  "listen_inv H (l\<lparr>lr_listeners := r\<rparr>) = listen_inv H l"
  "listen_inv H (l\<lparr>lr_patternNames := ns\<rparr>) = listen_inv H l"
  "listen_inv H (l\<lparr>lr_patterns := ps\<rparr>) = listen_inv H l"
  "listen_inv H (l\<lparr>lr_unsuccessful := u\<rparr>) = listen_inv H l"
  by (simp_all add: listen_inv_def searches_ok_def)

lemma onLastSubscriptionRemoved_keeps: "listen_inv H l \<Longrightarrow> keeps H (onLastSubscriptionRemoved E name l)"
  by (auto simp: onLastSubscriptionRemoved_def Let_def listen_inv_frame keeps_quiet_effects js_has_def
      sendSubscriptionForPatternRemoved_def split: option.split intro!: keeps_andThen removeActiveListener_keeps)

lemma client_effect_keeps: "listen_inv H l \<Longrightarrow> keeps H (client_effect E e l)"
proof (induction E e l rule: client_effect.induct)
  case (1 E x l)
  have "keeps H (client_name_event E ev l)" if "listen_inv H l" for H l ev
    using that by (cases ev) (simp_all add: onFirstSubscriptionMade_def startProviderSearch_keeps
        onLastSubscriptionRemoved_keeps)
  with 1 show ?case by (auto simp: split_beta listen_inv_frame intro!: keeps_each)
next
  case (2 E n s l)
  then show ?case
    by (simp add: onSubscriptionMade_def keeps_def sendHasProviderUpdateToSingleSubscriber_def)
qed (simp_all add: keeps_def)

lemma pattern_effect_keeps: "listen_inv H l \<Longrightarrow> keeps H (pattern_effect E now e l)"
proof (induction E now e l rule: pattern_effect.induct)
  case (1 E now x l)
  have "keeps H (pattern_name_event ev l)" if "listen_inv H l" for H l ev
    using that by (cases ev) (simp_all add: addPattern_def removeLastPattern_def listen_inv_frame)
  with 1 show ?case by (auto simp: split_beta listen_inv_frame intro!: keeps_each)
qed (simp_all add: reconcile_keeps removePattern_keeps keeps_def [of _ "(_, [_])"])

lemma registries_keep:
  "listen_inv H l \<Longrightarrow> keeps H (on_clients E f l)" "listen_inv H l \<Longrightarrow> keeps H (on_patterns E now f l)"
  by (auto simp: on_clients_def on_patterns_def split_beta listen_inv_frame
      intro!: keeps_each client_effect_keeps pattern_effect_keeps)

lemma closes_keep:
  "listen_inv H l \<Longrightarrow> keeps H (clients_close E s l)" "listen_inv H l \<Longrightarrow> keeps H (patterns_close E now s l)"
  by (auto simp: clients_close_def patterns_close_def listen_inv_frame split: option.split
      intro!: keeps_andThen keeps_each registries_keep)

lemma listen_step_keeps:
  "listen_inv H l \<Longrightarrow> keeps (H \<union> (case x of LLock i ok \<Rightarrow> acquired l i ok | _ \<Rightarrow> {})) (listen_step E l x)"
proof (cases x)
  case (LHandle now s m)
  assume "listen_inv H l"
  with LHandle show ?thesis
    by (simp add: listen_handle_def addListener_def registries_keep processResponse_keeps keeps_def [of _ "(_, [_])"])
next
  case (LCluster now m)
  assume "listen_inv H l"
  with LCluster show ?thesis
    by (simp add: onIncomingMessage_def onFirstSubscriptionMade_def Let_def startProviderSearch_keeps split: option.split)
qed (simp_all add: onLock_keeps onListenTimeout_keeps rematch_def reconcile_keeps keeps_each registries_keep
      closes_keep removePattern_keeps)

section \<open>Histories\<close>

text \<open>The names whose lock the registry holds: granted by an input, given back by an effect.\<close>

fun locks_held :: "listen_env \<Rightarrow> listener \<Rightarrow> string set \<Rightarrow> listen_input list \<Rightarrow> string set" where
  "locks_held E l H [] = H"
| "locks_held E l H (x # xs) =
     locks_held E (fst (listen_step E l x))
       ((H \<union> (case x of LLock i ok \<Rightarrow> acquired l i ok | _ \<Rightarrow> {})) - released (snd (listen_step E l x))) xs"

lemma listen_run_inv: "listen_inv H l \<Longrightarrow> listen_inv (locks_held E l H xs) (fst (run (listen_step E) l xs))"
proof (induction xs arbitrary: l H)
  case (Cons x xs)
  show ?case using Cons.IH listen_step_keeps [OF Cons.prems, of x E]
    by (simp add: keeps_def Let_def split_beta)
qed simp

lemma new_listener_inv: "listen_inv {} (new_listener isRecord clients patterns)"
  by (simp add: listen_inv_def new_listener_def searches_ok_def ssr_inv_def ssr_cnt_def js_has_def)

text \<open>C3: whatever clients, timers, locks and cluster messages do, the registry publishes exactly the
  names provided by one of its clients, searches only for names that have no provider, and holds the
  lock of a name exactly as long as it searches for it: no search leaves a lock behind, and no lock is
  given back during a search.\<close>

theorem listener_accounting:
  "let l = fst (run (listen_step E) (new_listener isRecord clients patterns) xs) in
   (hasActiveProvider l n \<longleftrightarrow> js_has (lr_provided l) n) \<and>
   \<not> (js_has (lr_inProgress l) n \<and> js_has (lr_provided l) n) \<and>
   (n \<in> locks_held E (new_listener isRecord clients patterns) {} xs \<longleftrightarrow> js_has (lr_inProgress l) n)"
proof -
  note inv = listen_run_inv [OF new_listener_inv, of E isRecord clients patterns xs]
  show ?thesis using inv hasActive_iff [OF inv, of n] unfolding Let_def listen_inv_def by blast
qed

section \<open>A search that nobody accepts\<close>

text \<open>The providers told that a name wants them: socket, pattern and name.\<close>

fun found_sent :: "action \<Rightarrow> listen_effect list \<Rightarrow> (socket \<times> string option \<times> string option) list" where
  "found_sent a [] = []"
| "found_sent a (LOut (SendMessage s m) # es) =
     (if m_action m = a then [(s, m_name m, m_subscription m)] else []) @ found_sent a es"
| "found_sent a (e # es) = found_sent a es"

lemma found_sent_append [simp]: "found_sent a (es @ fs) = found_sent a es @ found_sent a fs"
  by (induction a es rule: found_sent.induct) auto

text \<open>The provider asked last refuses: it rejects, or its response timer fires.\<close>

definition reject_msg :: "listener \<Rightarrow> string \<Rightarrow> message" where
  "reject_msg l name = (msg (listen_topic l) (lact l RA_LISTEN_REJECT EA_LISTEN_REJECT))\<lparr>m_subscription := Some name\<rparr>"

fun refusal :: "string \<Rightarrow> listener \<Rightarrow> int \<times> socket option \<Rightarrow> listen_input" where
  "refusal name l (now, Some s) = LHandle now s (reject_msg l name)"
| "refusal name l (now, None) = LTimeout now (lp_timer (the (js_get (lr_inProgress l) name)))"

definition refuse :: "listen_env \<Rightarrow> string \<Rightarrow> listener \<Rightarrow> int \<times> socket option \<Rightarrow> listener \<times> listen_effect list" where
  "refuse E name l r = listen_step E l (refusal name l r)"

definition searching :: "string \<Rightarrow> listener \<Rightarrow> listen_provider list \<Rightarrow> bool" where
  "searching name l ps \<longleftrightarrow> (\<exists>ip. js_get (lr_inProgress l) name = Some ip \<and> lp_remaining ip = ps \<and>
     js_get (lr_timers l) (lp_timer ip) = Some (lp_query ip, name))"

abbreviation found_action :: "listener \<Rightarrow> action" where
  "found_action l \<equiv> lact l RA_SUBSCRIPTION_FOR_PATTERN_FOUND EA_SUBSCRIPTION_FOR_PATTERN_FOUND"

definition offer :: "string \<Rightarrow> listen_provider \<Rightarrow> socket \<times> string option \<times> string option" where
  "offer name p = (pv_socket p, Some (pv_pattern p), Some name)"

definition unsuccessful_msg :: "listener \<Rightarrow> string \<Rightarrow> message" where
  "unsuccessful_msg l name = (msg (if lr_record l then T_RECORD_LISTENING else T_EVENT_LISTENING)
     (lact l RA_LISTEN_UNSUCCESSFUL EA_LISTEN_UNSUCCESSFUL))\<lparr>m_subscription := Some name\<rparr>"

lemmas refuse_defs = refuse_def listen_handle_def processResponseForListenInProgress_def reject_msg_def
  onListenTimeout_def triggerNextProvider_def andThen_def Let_def lact_def listen_topic_def msg_def

lemma ask_searching:
  "searching name (fst (ask name p ps l)) ps"
  "found_sent (found_action l) (snd (ask name p ps l)) = [offer name p]"
  by (simp_all add: ask_def searching_def js_simps sendSubscriptionForPatternFound_def offer_def lact_def msg_def)

lemma refuse_cases:
  assumes "searching name l ps"
  obtains now l1 es where
    "refuse E name l r = (fst (triggerNextProvider now name l1), es @ snd (triggerNextProvider now name l1))"
    "found_sent (found_action l) es = []" "released es = {}" "lr_inProgress l1 = lr_inProgress l"
    "lr_published l1 = lr_published l" "lr_record l1 = lr_record l"
proof -
  obtain now so where r: "r = (now, so)" by (cases r)
  obtain ip where ip: "js_get (lr_inProgress l) name = Some ip" "lp_remaining ip = ps"
    "js_get (lr_timers l) (lp_timer ip) = Some (lp_query ip, name)"
    using assms by (auto simp: searching_def)
  let ?l1 = "l\<lparr>lr_timers := js_delete (lp_timer ip) (lr_timers l)\<rparr>"
  show ?thesis
  proof (cases so)
    case (Some s)
    show ?thesis
      by (rule that [of now ?l1 "[]"])
        (simp_all add: r Some ip refuse_def listen_handle_def processResponseForListenInProgress_def reject_msg_def
          Let_def lact_def msg_def)
  next
    case None
    let ?e = "LOut (SendMessage (pv_socket (lp_query ip)) ((msg (listen_topic l)
      (lact l RA_LISTEN_RESPONSE_TIMEOUT EA_LISTEN_RESPONSE_TIMEOUT))\<lparr>m_subscription := Some name\<rparr>))"
    show ?thesis
      by (rule that [of now ?l1 "[?e]"])
        (simp_all add: r None ip refuse_def onListenTimeout_def andThen_def lact_def msg_def)
  qed
qed

lemma refuse_next:
  assumes "searching name l (p # ps)"
  shows "searching name (fst (refuse E name l r)) ps \<and> found_sent (found_action l) (snd (refuse E name l r)) = [offer name p] \<and>
    released (snd (refuse E name l r)) = {} \<and> lr_published (fst (refuse E name l r)) = lr_published l \<and>
    lr_record (fst (refuse E name l r)) = lr_record l"
proof -
  obtain now l1 es where r: "refuse E name l r =
      (fst (triggerNextProvider now name l1), es @ snd (triggerNextProvider now name l1))"
    and l1: "found_sent (found_action l) es = []" "released es = {}" "lr_inProgress l1 = lr_inProgress l"
    "lr_published l1 = lr_published l" "lr_record l1 = lr_record l"
    by (rule refuse_cases [OF assms])
  have t: "triggerNextProvider now name l1 = ask name p ps l1"
    using assms l1(3) by (auto simp: triggerNextProvider_def searching_def)
  have "lact l1 = lact l" using l1(5) by (simp add: lact_def fun_eq_iff)
  then show ?thesis using ask_searching [where name = name and p = p and ps = ps and l = l1] l1
    by (simp add: r t) (simp add: ask_def)
qed

lemma refuse_last:
  assumes "searching name l []" and "\<not> hasActiveProvider l name"
  shows "\<not> js_has (lr_inProgress (fst (refuse E name l r))) name \<and> js_has (lr_unsuccessful (fst (refuse E name l r))) name \<and>
    found_sent (found_action l) (snd (refuse E name l r)) = [] \<and> released (snd (refuse E name l r)) = {name} \<and>
    last (snd (refuse E name l r)) = LOut (ClusterSend (unsuccessful_msg l name))"
proof -
  obtain now l1 es where r: "refuse E name l r =
      (fst (triggerNextProvider now name l1), es @ snd (triggerNextProvider now name l1))"
    and l1: "found_sent (found_action l) es = []" "released es = {}" "lr_inProgress l1 = lr_inProgress l"
    "lr_published l1 = lr_published l" "lr_record l1 = lr_record l"
    by (rule refuse_cases [OF assms(1)])
  have "lact l1 = lact l" using l1(5) by (simp add: lact_def fun_eq_iff)
  moreover have "triggerNextProvider now name l1 = stopProviderSearch now name l1"
    using assms l1(3) by (auto simp: triggerNextProvider_def searching_def)
  moreover have "js_has (lr_inProgress l1) name" "\<not> hasActiveProvider l1 name"
    using assms l1 by (auto simp: searching_def js_has_def hasActiveProvider_def)
  ultimately show ?thesis using l1
    by (simp add: r stopProviderSearch_def Let_def js_simps unsuccessful_msg_def)
qed

lemma refuse_run:
  assumes "searching name l ps" and "\<not> hasActiveProvider l name" and "length rs = Suc (length ps)"
  shows "let (l', es) = run (refuse E name) l rs in
    found_sent (found_action l) es = map (offer name) ps \<and> released es = {name} \<and>
    last es = LOut (ClusterSend (unsuccessful_msg l name)) \<and>
    \<not> js_has (lr_inProgress l') name \<and> js_has (lr_unsuccessful l') name"
  using assms
proof (induction ps arbitrary: l rs)
  case Nil
  from Nil(3) obtain r where "rs = [r]" by (cases rs) auto
  then show ?case using refuse_last [OF Nil(1,2), of E r] by (simp add: split_beta)
next
  case (Cons p ps)
  then obtain r rs' where rs: "rs = r # rs'" "length rs' = Suc (length ps)" by (cases rs) auto
  note n = refuse_next [OF Cons.prems(1), of E r]
  let ?l = "fst (refuse E name l r)"
  have eq: "lact ?l = lact l" using n by (simp add: lact_def fun_eq_iff)
  have u: "unsuccessful_msg ?l name = unsuccessful_msg l name" using n by (simp add: unsuccessful_msg_def lact_def)
  have "\<not> hasActiveProvider ?l name" using n Cons.prems(2) by (simp add: hasActiveProvider_def)
  note ih = Cons.IH [of ?l rs', OF _ this rs(2)]
  have "snd (run (refuse E name) ?l rs') \<noteq> []" using ih n by (auto simp: split_beta)
  then show ?case using ih n by (simp add: rs(1) eq u split_beta Let_def)
qed

text \<open>C10: a search asks every candidate found for the name, each once and in order, however each of them
  refuses (a rejection from any client, or its response timer); after as many refusals as there were
  candidates the search has ended: the lock is given back, the name is remembered as unsuccessful and
  the cluster is told.\<close>

theorem search_asks_each_once:
  assumes "js_get (lr_searches l) i = Some (name, ps)" and "ps \<noteq> []" and "\<not> hasActiveProvider l name"
    and "length rs = length ps"
  shows "let (l1, es1) = listen_step E l (LLock i True); (l2, es2) = run (refuse E name) l1 rs in
    found_sent (found_action l) (es1 @ es2) = map (offer name) ps \<and> released (es1 @ es2) = {name} \<and>
    last es2 = LOut (ClusterSend (unsuccessful_msg l name)) \<and>
    \<not> js_has (lr_inProgress l2) name \<and> js_has (lr_unsuccessful l2) name"
proof -
  obtain p qs where ps: "ps = p # qs" using assms(2) by (cases ps) auto
  define l0 where "l0 = l\<lparr>lr_searches := js_delete i (lr_searches l)\<rparr>"
  have eq: "lact l0 = lact l" and na: "\<not> hasActiveProvider l0 name"
    using assms(3) by (simp_all add: l0_def lact_def hasActiveProvider_def fun_eq_iff)
  have step: "onLock i True l = ask name p qs l0"
    using assms(1,3) ps by (simp add: onLock_def l0_def hasActiveProvider_def)
  let ?l = "fst (ask name p qs l0)"
  have f: "lact ?l = lact l" "\<not> hasActiveProvider ?l name" "unsuccessful_msg ?l name = unsuccessful_msg l name"
    using na eq by (simp_all add: ask_def hasActiveProvider_def lact_def fun_eq_iff unsuccessful_msg_def l0_def)
  show ?thesis
    using refuse_run [OF ask_searching(1) f(2), of rs E] ask_searching(2) [of l0 name p qs] assms(4) ps
    by (simp add: step f eq split_beta Let_def)
qed

text \<open>A registry with two candidates for a record, waiting for the lock.\<close>

definition example_env :: listen_env where
  "example_env = \<lparr>rx_valid = (\<lambda>_. True), rx_match = (\<lambda>p n. p = take (length p) n), le_shuffle = False,
     le_draws = (\<lambda>_ _. 0), le_cooldown = 10000\<rparr>"

definition example_listener :: listener where
  "example_listener = fst (run (listen_step example_env)
     (new_listener True (new_registry T_RECORD) (new_registry T_RECORD_LISTEN_PATTERNS))
     [LHandle 1 10 ((msg T_RECORD (RecordA RA_LISTEN))\<lparr>m_name := Some ''ab''\<rparr>),
      LHandle 2 11 ((msg T_RECORD (RecordA RA_LISTEN))\<lparr>m_name := Some ''a''\<rparr>),
      LClientSubscribe ''abc'' ((msg T_RECORD (RecordA RA_SUBSCRIBE))\<lparr>m_name := Some ''abc''\<rparr>) 20])"

theorem search_asks_each_once_witness:
  "let (l1, es1) = listen_step example_env example_listener (LLock 0 True);
       (l2, es2) = run (refuse example_env ''abc'') l1 [(5, Some 10), (6, None)] in
   found_sent (found_action example_listener) (es1 @ es2) =
     map (offer ''abc'') [\<lparr>pv_socket = 10, pv_pattern = ''ab''\<rparr>, \<lparr>pv_socket = 11, pv_pattern = ''a''\<rparr>] \<and>
   released (es1 @ es2) = {''abc''} \<and>
   last es2 = LOut (ClusterSend (unsuccessful_msg example_listener ''abc'')) \<and>
   \<not> js_has (lr_inProgress l2) ''abc'' \<and> js_has (lr_unsuccessful l2) ''abc''"
proof -
  have "js_get (lr_searches example_listener) 0 =
      Some (''abc'', [\<lparr>pv_socket = 10, pv_pattern = ''ab''\<rparr>, \<lparr>pv_socket = 11, pv_pattern = ''a''\<rparr>])"
    and "\<not> hasActiveProvider example_listener ''abc''"
    by code_simp+
  then show ?thesis using search_asks_each_once [of example_listener 0 "''abc''"
      "[\<lparr>pv_socket = 10, pv_pattern = ''ab''\<rparr>, \<lparr>pv_socket = 11, pv_pattern = ''a''\<rparr>]"
      "[(5, Some 10), (6, None)]" example_env] by simp
qed

definition example_search :: listener where
  "example_search = fst (listen_step example_env example_listener (LLock 0 True))"

lemma example_search_eqs:
  "js_get (lr_inProgress example_search) ''abc'' = Some \<lparr>lp_query = \<lparr>pv_socket = 10, pv_pattern = ''ab''\<rparr>,
     lp_timer = 1, lp_remaining = [\<lparr>pv_socket = 11, pv_pattern = ''a''\<rparr>]\<rparr>"
  "\<not> hasActiveProvider example_search ''abc''" "lr_record example_search"
  by code_simp+

section \<open>Answers\<close>

text \<open>While a name is searched for, an accept for it makes the socket that sent it the provider: the
  name is published, its search ends, the lock is given back and nothing is announced as
  unsuccessful. The code does not compare the socket with the provider it asked, so the accept of a
  client that was asked before and timed out, or was never asked, is taken just as well.\<close>

theorem accept_takes_any_socket:
  assumes "listen_inv H l" and "js_get (lr_inProgress l) name = Some ip"
    and "m_action m = lact l RA_LISTEN_ACCEPT EA_LISTEN_ACCEPT" and "m_subscription m = Some name"
    and "m_name m = Some pattern"
  shows "let (l', es) = listen_handle E now s m l in
    js_get (lr_provided l') name = Some \<lparr>pv_socket = s, pv_pattern = pattern\<rparr> \<and> hasActiveProvider l' name \<and>
    \<not> js_has (lr_inProgress l') name \<and> released es = {name} \<and> lr_unsuccessful l' = lr_unsuccessful l \<and>
    es = [LOnClose s pattern] @ sendHasProviderUpdate True name l @ [LockRelease name]"
proof -
  have n: "\<not> js_has (lr_provided l) name" "js_has (lr_inProgress l) name"
    using assms(1,2) by (auto simp: listen_inv_def js_has_def)
  have c: "ssr_inv (lr_published l)" "ssr_cnt (lr_published l) name = 0" using assms(1) n by (auto simp: listen_inv_def)
  note a = ssr_add_spec [OF c(1), of name]
  obtain p where p: "ssr_add name (lr_published l) = (p, [NameAdded name])"
    using a c(2) by (cases "ssr_add name (lr_published l)") simp
  have act: "ssr_has p name" using a c(2) p ssr_names_spec(1) [of p] by simp
  have upd: "sendHasProviderUpdate True name (l\<lparr>lr_timers := t, lr_provided := v, lr_published := q\<rparr>) =
      sendHasProviderUpdate True name l" for t v q
    by (simp add: sendHasProviderUpdate_def)
  have rel: "released (sendHasProviderUpdate True name l) = {}" by (simp add: sendHasProviderUpdate_def)
  show ?thesis
    using assms(2-) n(2) p act
    by (simp add: listen_handle_def processResponseForListenInProgress_def accept_def publish_def andThen_def Let_def
        stopProviderSearch_def hasActiveProvider_def each_simps upd rel js_simps lact_def split: if_splits)
qed

theorem accept_takes_any_socket_witness:
  "let (l', es) = listen_handle example_env 7 99
       ((msg T_RECORD (RecordA RA_LISTEN_ACCEPT))\<lparr>m_name := Some ''never'', m_subscription := Some ''abc''\<rparr>) example_search
   in js_get (lr_provided l') ''abc'' = Some \<lparr>pv_socket = 99, pv_pattern = ''never''\<rparr>"
proof -
  have "listen_inv {''abc''} example_search"
  proof -
    let ?xs = "[LHandle 1 10 ((msg T_RECORD (RecordA RA_LISTEN))\<lparr>m_name := Some ''ab''\<rparr>),
      LHandle 2 11 ((msg T_RECORD (RecordA RA_LISTEN))\<lparr>m_name := Some ''a''\<rparr>),
      LClientSubscribe ''abc'' ((msg T_RECORD (RecordA RA_SUBSCRIBE))\<lparr>m_name := Some ''abc''\<rparr>) 20]"
    let ?l = "new_listener True (new_registry T_RECORD) (new_registry T_RECORD_LISTEN_PATTERNS)"
    have "listen_inv (locks_held example_env ?l {} ?xs) example_listener"
      unfolding example_listener_def by (rule listen_run_inv [OF new_listener_inv])
    moreover have "locks_held example_env ?l {} ?xs = {}" by code_simp
    ultimately have "listen_inv {} example_listener" by simp
    from listen_step_keeps [OF this, of "LLock 0 True" example_env]
    have "listen_inv ({} \<union> acquired example_listener 0 True - released (snd (listen_step example_env example_listener (LLock 0 True))))
        example_search"
      by (simp add: keeps_def example_search_def)
    moreover have "acquired example_listener 0 True = {''abc''}"
      "released (snd (listen_step example_env example_listener (LLock 0 True))) = {}" by code_simp+
    ultimately show ?thesis by simp
  qed
  then show ?thesis
    using accept_takes_any_socket [of "{''abc''}" example_search "''abc''", OF _ example_search_eqs(1),
        of "(msg T_RECORD (RecordA RA_LISTEN_ACCEPT))\<lparr>m_name := Some ''never'', m_subscription := Some ''abc''\<rparr>"
          "''never''" example_env 7 99]
    by (simp add: lact_def example_search_eqs(3) msg_def split_beta)
qed

text \<open>Dropping a listener from the searches keeps the wrong candidates: whoever unlistens or closes,
  every other candidate of every search in progress is forgotten, and a search in which the one who
  left was not waiting ends at once: its lock goes back and the name counts as unsuccessful, although
  its candidates were never asked.\<close>

theorem unlisten_drops_the_others:
  assumes "js_get (lr_inProgress l) name = Some ip" and "\<not> hasActiveProvider l name"
    and "\<lparr>pv_socket = s, pv_pattern = pattern\<rparr> \<notin> set (lp_remaining ip)"
  shows "let (l', es) = drop_candidate now pattern s name l in
    \<not> js_has (lr_inProgress l') name \<and> js_get (lr_unsuccessful l') name = Some now \<and>
    es = [LockRelease name, LOut (ClusterSend (unsuccessful_msg l name))]"
proof -
  have "filter (\<lambda>p. pv_socket p = s \<and> pv_pattern p = pattern) (lp_remaining ip) = []"
  proof (rule filter_False, rule ballI, rule notI)
    fix p
    assume "p \<in> set (lp_remaining ip)" "pv_socket p = s \<and> pv_pattern p = pattern"
    with assms(3) show False by (cases p) simp
  qed
  then show ?thesis using assms
    by (simp add: drop_candidate_def Let_def stopProviderSearch_def js_simps hasActiveProvider_def unsuccessful_msg_def lact_def)
qed

theorem unlisten_drops_the_others_witness:
  "let (l', es) = drop_candidate 8 ''other'' 30 ''abc'' example_search in
    \<not> js_has (lr_inProgress l') ''abc'' \<and> js_get (lr_unsuccessful l') ''abc'' = Some 8 \<and>
    es = [LockRelease ''abc'', LOut (ClusterSend (unsuccessful_msg example_search ''abc''))]"
  by (rule unlisten_drops_the_others [OF example_search_eqs(1,2)]) simp

text \<open>When another node announces that it found no provider for a name, a node that has itself failed on
  the name before never tries again, however long ago that was: the cooldown test compares a
  difference that is negative for every time stamp of the past.\<close>

theorem cooldown_never_over:
  assumes "js_get (lr_unsuccessful l) name = Some t" and "0 < t" and "t \<le> now" and "0 \<le> le_cooldown E"
    and "m_subscription m = Some name"
  shows "onIncomingMessage E now m l = (l, [])"
  using assms by (simp add: onIncomingMessage_def)

theorem cooldown_never_over_witness:
  "onIncomingMessage example_env (10 ^ 12) (unsuccessful_msg example_listener ''abc'')
     (example_listener\<lparr>lr_unsuccessful := [(''abc'', 6)]\<rparr>) = (example_listener\<lparr>lr_unsuccessful := [(''abc'', 6)]\<rparr>, [])"
  by (rule cooldown_never_over [of _ "''abc''" 6]) (simp_all add: example_env_def unsuccessful_msg_def)

end
