(* ===== verification/Connection.thy ===== *)
theory Connection
  imports Messages
begin

text \<open>
  The front of the message pipeline (\<open>src/connection-endpoint/base/connection-endpoint.ts\<close> and
  \<open>socket-wrapper.ts\<close>, with the overrides of the text and JSON endpoints): what a socket may send
  before it is authenticated, what happens to it then, and how its outgoing messages are buffered.
  A socket wrapper is an entry of the table of sockets; its \<open>onMessage\<close> is a stage, the functions it is
  bound to in the source. Timers are flags that an input fires, requests to the authentication
  service carry an id that their answer names, and serialisation is a parameter.
\<close>

section \<open>Data\<close>

record cmessage = message +
  m_originalTopic :: "topic option"
  m_sdkType :: "string option"
  m_sdkVersion :: "string option"

definition cmsg :: "topic \<Rightarrow> action \<Rightarrow> cmessage" where
  "cmsg t a = message.extend (msg t a) \<lparr>m_originalTopic = None, m_sdkType = None, m_sdkVersion = None\<rparr>"

text \<open>A serialised message: \<open>getMessage\<close> or \<open>getAckMessage\<close> of it.\<close>

datatype frame = Plain cmessage | AckFrame cmessage

record ep_config =
  ec_bufferTimeout :: nat
  ec_maxBytes :: nat
  ec_maxAttempts :: nat
  ec_authTimeout :: bool
  ec_text :: bool
  ec_len :: "frame \<Rightarrow> nat"
  ec_parseData :: "cmessage \<Rightarrow> json option option"

text \<open>The functions \<open>onMessage\<close> is set to; \<open>SNull\<close> is null.\<close>

datatype stage = SIgnore | SProcess | SAuth | SOpen | SNull

record ws_socket =
  ws_closed :: bool
  ws_stage :: stage
  ws_authCallback :: bool
  ws_attempts :: nat
  ws_timer :: bool
  ws_doomed :: nat
  ws_ping :: bool
  ws_buffer :: "frame list"
  ws_size :: nat
  ws_userId :: "string option"
  ws_serverData :: "json option"
  ws_clientData :: "json option"

definition new_ws :: ws_socket where
  "new_ws = \<lparr>ws_closed = False, ws_stage = SIgnore, ws_authCallback = False, ws_attempts = 0, ws_timer = False,
     ws_doomed = 0, ws_ping = False, ws_buffer = [], ws_size = 0, ws_userId = None, ws_serverData = None,
     ws_clientData = None\<rparr>"

record endpoint =
  ep_sockets :: "(socket, ws_socket) jsmap"
  ep_authenticated :: "socket jsset"
  ep_scheduled :: "socket jsset"
  ep_flushTimer :: bool
  ep_versions :: "(string, string jsset) jsmap"
  ep_requests :: "(nat, socket) jsmap"
  ep_nextId :: nat

definition new_endpoint :: endpoint where
  "new_endpoint = \<lparr>ep_sockets = [], ep_authenticated = [], ep_scheduled = [], ep_flushTimer = False,
     ep_versions = [], ep_requests = [], ep_nextId = 0\<rparr>"

record user_data =
  ud_id :: "string option"
  ud_clientData :: "json option"
  ud_serverData :: "json option"

datatype ep_effect =
    CWrite socket frame
  | CDestroy socket
  | CForward socket "cmessage option list"
  | CIsValidUser nat socket json
  | CLogin bool
  | CConnected socket "string option"
  | CDisconnected socket "string option"
  | CAuthDisconnect "string option"
  | CThrow

section \<open>Writing to a socket\<close>

text \<open>\<open>flush\<close>: the socket and the frames written.\<close>

definition ws_flush :: "ws_socket \<Rightarrow> ws_socket \<times> frame list" where
  "ws_flush w = (if ws_size w \<noteq> 0 then (w\<lparr>ws_buffer := [], ws_size := 0\<rparr>, ws_buffer w) else (w, []))"

text \<open>\<open>sendBuiltMessage\<close>: the socket, the frames written, and whether a flush is asked for.\<close>

definition ws_sendBuilt :: "ep_config \<Rightarrow> frame \<Rightarrow> bool \<Rightarrow> ws_socket \<Rightarrow> ws_socket \<times> frame list \<times> bool" where
  "ws_sendBuilt C f buffer w =
     (if ws_closed w then (w, [], False)
      else if ec_bufferTimeout C = 0 then (w, [f], False)
      else if \<not> buffer then (fst (ws_flush w), snd (ws_flush w) @ [f], False)
      else (let w1 = w\<lparr>ws_size := ws_size w + ec_len C f, ws_buffer := ws_buffer w @ [f]\<rparr>
            in if ws_size w1 > ec_maxBytes C then (fst (ws_flush w1), snd (ws_flush w1), False)
               else (w1, [], True)))"

definition upd_socket :: "socket \<Rightarrow> ws_socket \<Rightarrow> endpoint \<Rightarrow> endpoint" where
  "upd_socket s w e = e\<lparr>ep_sockets := js_set s w (ep_sockets e)\<rparr>"

definition scheduleFlush :: "socket \<Rightarrow> endpoint \<Rightarrow> endpoint" where
  "scheduleFlush s e = e\<lparr>ep_scheduled := set_add s (ep_scheduled e), ep_flushTimer := True\<rparr>"

definition sendBuiltMessage :: "ep_config \<Rightarrow> socket \<Rightarrow> frame \<Rightarrow> bool \<Rightarrow> endpoint \<Rightarrow> endpoint \<times> ep_effect list" where
  "sendBuiltMessage C s f buffer e =
     (case js_get (ep_sockets e) s of
        None \<Rightarrow> (e, [])
      | Some w \<Rightarrow>
          (case ws_sendBuilt C f buffer w of (w1, fs, sched) \<Rightarrow>
             ((if sched then scheduleFlush s else id) (upd_socket s w1 e), map (CWrite s) fs)))"

abbreviation sendMessage :: "ep_config \<Rightarrow> socket \<Rightarrow> cmessage \<Rightarrow> bool \<Rightarrow> endpoint \<Rightarrow> endpoint \<times> ep_effect list" where
  "sendMessage C s m buffer e \<equiv> sendBuiltMessage C s (Plain m) buffer e"

abbreviation sendAckMessage :: "ep_config \<Rightarrow> socket \<Rightarrow> cmessage \<Rightarrow> bool \<Rightarrow> endpoint \<Rightarrow> endpoint \<times> ep_effect list" where
  "sendAckMessage C s m buffer e \<equiv> sendBuiltMessage C s (AckFrame m) buffer e"

definition flush_socket :: "socket \<Rightarrow> endpoint \<Rightarrow> endpoint \<times> ep_effect list" where
  "flush_socket s e =
     (case js_get (ep_sockets e) s of
        None \<Rightarrow> (e, [])
      | Some w \<Rightarrow> (upd_socket s (fst (ws_flush w)) e, map (CWrite s) (snd (ws_flush w))))"

definition flushSockets :: "endpoint \<Rightarrow> endpoint \<times> ep_effect list" where
  "flushSockets e =
     (let (e1, es) = run (\<lambda>e s. flush_socket s e) e (ep_scheduled e)
      in (e1\<lparr>ep_scheduled := [], ep_flushTimer := False\<rparr>, es))"

section \<open>Parse errors\<close>

datatype parse_result = Parsed cmessage | ParseError parser_action "string option" topic action

text \<open>\<open>handleParseErrors\<close>: the messages that stay, with the effects.\<close>

fun handleParseErrors ::
  "ep_config \<Rightarrow> socket \<Rightarrow> parse_result list \<Rightarrow> endpoint \<Rightarrow> cmessage list \<times> endpoint \<times> ep_effect list" where
  "handleParseErrors C s [] e = ([], e, [])"
| "handleParseErrors C s (ParseError a raw t oa # rs) e =
     (let (e1, es1) = sendMessage C s ((cmsg T_PARSER (ParserA a))
              \<lparr>m_data := raw, m_originalTopic := Some t, m_original := Some oa\<rparr>) False e;
          (ms, e2, es2) = handleParseErrors C s rs e1
      in (ms, e2, es1 @ [CDestroy s] @ es2))"
| "handleParseErrors C s (Parsed m # rs) e =
     (let (ms, e1, es) = handleParseErrors C s rs e
      in (if m_topic m = T_CONNECTION \<and> m_action m = ConnectionA CA_PONG then ms else m # ms, e1, es))"

section \<open>Authentication\<close>

definition on_socket :: "socket \<Rightarrow> (ws_socket \<Rightarrow> ws_socket) \<Rightarrow> endpoint \<Rightarrow> endpoint" where
  "on_socket s f e = (case js_get (ep_sockets e) s of None \<Rightarrow> e | Some w \<Rightarrow> upd_socket s (f w) e)"

text \<open>Two operations after each other.\<close>

definition then_do :: "endpoint \<times> ep_effect list \<Rightarrow> (endpoint \<Rightarrow> endpoint \<times> ep_effect list) \<Rightarrow>
    endpoint \<times> ep_effect list" where
  "then_do res f = (fst (f (fst res)), snd res @ snd (f (fst res)))"

definition processConnectionMessage ::
  "ep_config \<Rightarrow> socket \<Rightarrow> cmessage option list \<Rightarrow> endpoint \<Rightarrow> endpoint \<times> ep_effect list" where
  "processConnectionMessage C s ms e =
     (case hd ms of
        None \<Rightarrow> (e, [CThrow])
      | Some m \<Rightarrow>
          if m_topic m \<noteq> T_CONNECTION
          then sendMessage C s ((cmsg T_CONNECTION (ConnectionA CA_INVALID_MESSAGE))
                 \<lparr>m_originalTopic := Some (m_topic m), m_original := Some (m_action m)\<rparr>) False e
          else if m_action m = ConnectionA CA_PING then (e, [])
          else if m_action m = ConnectionA CA_CHALLENGE
          then (let e1 = (case (m_sdkType m, m_sdkVersion m) of
                       (Some t, Some v) \<Rightarrow>
                         if t \<noteq> [] \<and> v \<noteq> []
                         then e\<lparr>ep_versions := js_set t (set_add v (case js_get (ep_versions e) t of None \<Rightarrow> [] | Some vs \<Rightarrow> vs))
                                 (ep_versions e)\<rparr>
                         else e
                     | _ \<Rightarrow> e);
                    e2 = on_socket s (\<lambda>w. w\<lparr>ws_stage := if ws_authCallback w then SAuth else SNull\<rparr>) e1
                in sendMessage C s (cmsg T_CONNECTION (ConnectionA CA_ACCEPT)) False e2)
          else (e, []))"

definition sendInvalidAuthMsg :: "ep_config \<Rightarrow> socket \<Rightarrow> action \<Rightarrow> endpoint \<Rightarrow> endpoint \<times> ep_effect list" where
  "sendInvalidAuthMsg C s originalAction e =
     then_do (sendMessage C s ((cmsg T_AUTH (AuthA AA_INVALID_MESSAGE_DATA))\<lparr>m_original := Some originalAction\<rparr>) False e)
       (\<lambda>e. (e, [CDestroy s]))"

definition authenticateConnection ::
  "ep_config \<Rightarrow> socket \<Rightarrow> cmessage option list \<Rightarrow> endpoint \<Rightarrow> endpoint \<times> ep_effect list" where
  "authenticateConnection C s ms e =
     (case hd ms of
        None \<Rightarrow> (e, [CThrow])
      | Some m \<Rightarrow>
          if m_topic m = T_CONNECTION \<and> m_action m = ConnectionA CA_PING then (e, [])
          else if m_topic m \<noteq> T_AUTH
          then sendMessage C s ((cmsg T_AUTH (AuthA AA_INVALID_MESSAGE))
                 \<lparr>m_originalTopic := Some (m_topic m), m_original := Some (m_action m)\<rparr>) False e
          else if m_action m \<noteq> AuthA AA_REQUEST then sendInvalidAuthMsg C s (m_action m) e
          else (case ec_parseData C m of
                  Some (Some j) \<Rightarrow>
                    if truthy (Some j) \<and> typeof_object j
                    then (e\<lparr>ep_requests := js_set (ep_nextId e) s (ep_requests e), ep_nextId := Suc (ep_nextId e)\<rparr>,
                          [CIsValidUser (ep_nextId e) s j])
                    else sendInvalidAuthMsg C s (m_action m) e
                | _ \<Rightarrow> sendInvalidAuthMsg C s (m_action m) e))"

definition OPEN :: string where "OPEN = ''OPEN''"

definition appendDataToSocketWrapper :: "user_data \<Rightarrow> ws_socket \<Rightarrow> ws_socket" where
  "appendDataToSocketWrapper u w =
     w\<lparr>ws_userId := (if nonempty (ud_id u) then ud_id u else Some OPEN),
       ws_serverData := (if truthy (ud_serverData u) then ud_serverData u else Some JNull),
       ws_clientData := (if truthy (ud_clientData u) then ud_clientData u else Some JNull)\<rparr>"

definition userId_of :: "endpoint \<Rightarrow> socket \<Rightarrow> string option" where
  "userId_of e s = (case js_get (ep_sockets e) s of None \<Rightarrow> None | Some w \<Rightarrow> ws_userId w)"

definition registerAuthenticatedSocket ::
  "ep_config \<Rightarrow> socket \<Rightarrow> user_data \<Rightarrow> endpoint \<Rightarrow> endpoint \<times> ep_effect list" where
  "registerAuthenticatedSocket C s u e =
     (let e1 = on_socket s (\<lambda>w. (appendDataToSocketWrapper u w)\<lparr>ws_authCallback := False, ws_stage := SOpen\<rparr>) e
      in then_do (sendMessage C s ((cmsg T_AUTH (AuthA AA_AUTH_SUCCESSFUL))\<lparr>m_parsed := ud_clientData u\<rparr>) True
            (e1\<lparr>ep_authenticated := set_add s (ep_authenticated e1)\<rparr>))
          (\<lambda>e. (e, [CConnected s (userId_of e s)])))"

definition processInvalidAuth ::
  "ep_config \<Rightarrow> json option \<Rightarrow> socket \<Rightarrow> endpoint \<Rightarrow> endpoint \<times> ep_effect list" where
  "processInvalidAuth C clientData s e =
     then_do (sendMessage C s ((cmsg T_AUTH (AuthA AA_AUTH_UNSUCCESSFUL))\<lparr>m_parsed := clientData\<rparr>) False e)
       (\<lambda>e. let e1 = on_socket s (\<lambda>w. w\<lparr>ws_attempts := Suc (ws_attempts w)\<rparr>) e
            in case js_get (ep_sockets e1) s of
                 None \<Rightarrow> (e1, [])
               | Some w \<Rightarrow>
                   if ws_attempts w \<ge> ec_maxAttempts C
                   then then_do (sendMessage C s (cmsg T_AUTH (AuthA AA_TOO_MANY_AUTH_ATTEMPTS)) False e1)
                          (\<lambda>e. (on_socket s (\<lambda>w. w\<lparr>ws_doomed := Suc (ws_doomed w)\<rparr>) e, []))
                   else (e1, []))"

text \<open>The answer of \<open>isValidUser\<close>; the disconnect timer of the socket is cleared whatever it says.\<close>

definition processAuthResult ::
  "ep_config \<Rightarrow> nat \<Rightarrow> bool \<Rightarrow> user_data \<Rightarrow> endpoint \<Rightarrow> endpoint \<times> ep_effect list" where
  "processAuthResult C i isAllowed u e =
     (case js_get (ep_requests e) i of
        None \<Rightarrow> (e, [])
      | Some s \<Rightarrow>
          then_do (on_socket s (\<lambda>w. w\<lparr>ws_timer := False\<rparr>) (e\<lparr>ep_requests := js_delete i (ep_requests e)\<rparr>), [CLogin isAllowed])
            (\<lambda>e. if isAllowed then registerAuthenticatedSocket C s u e
                 else processInvalidAuth C (ud_clientData u) s e))"

definition processConnectionTimeout :: "ep_config \<Rightarrow> socket \<Rightarrow> endpoint \<Rightarrow> endpoint \<times> ep_effect list" where
  "processConnectionTimeout C s e =
     then_do (sendMessage C s (cmsg T_CONNECTION (ConnectionA CA_AUTHENTICATION_TIMEOUT)) False e)
       (\<lambda>e. (e, [CDestroy s]))"

section \<open>The life of a socket\<close>

definition sendPing :: "ep_config \<Rightarrow> socket \<Rightarrow> endpoint \<Rightarrow> endpoint \<times> ep_effect list" where
  "sendPing C s e =
     (case js_get (ep_sockets e) s of
        None \<Rightarrow> (e, [])
      | Some w \<Rightarrow> if ws_closed w then (e, [])
          else sendBuiltMessage C s (Plain (cmsg T_CONNECTION (ConnectionA CA_PING))) False
                 (upd_socket s (w\<lparr>ws_ping := True\<rparr>) e))"

text \<open>\<open>onConnection\<close> of the base class.\<close>

definition onConnection :: "ep_config \<Rightarrow> socket \<Rightarrow> endpoint \<Rightarrow> endpoint" where
  "onConnection C s e =
     upd_socket s (new_ws\<lparr>ws_timer := ec_authTimeout C, ws_authCallback := True, ws_stage := SProcess\<rparr>) e"

text \<open>The override of the text endpoint, which challenges nobody.\<close>

definition text_onConnection :: "ep_config \<Rightarrow> socket \<Rightarrow> endpoint \<Rightarrow> endpoint \<times> ep_effect list" where
  "text_onConnection C s e =
     then_do (sendMessage C s (cmsg T_CONNECTION (ConnectionA CA_ACCEPT)) False
         (on_socket s (\<lambda>w. w\<lparr>ws_stage := SAuth\<rparr>) (onConnection C s e)))
       (sendPing C s)"

text \<open>\<open>socketWrapper.close()\<close>: of its callbacks the endpoint registers the one that clears the timer.\<close>

definition ws_close :: "ws_socket \<Rightarrow> ws_socket" where
  "ws_close w = w\<lparr>ws_closed := True, ws_authCallback := False, ws_timer := False\<rparr>"

definition endpoint_onSocketClose :: "socket \<Rightarrow> endpoint \<Rightarrow> endpoint \<times> ep_effect list" where
  "endpoint_onSocketClose s e =
     (let e1 = on_socket s ws_close (e\<lparr>ep_scheduled := set_delete s (ep_scheduled e)\<rparr>)
      in if s \<in> set (ep_authenticated e1)
         then (e1\<lparr>ep_authenticated := set_delete s (ep_authenticated e1)\<rparr>,
               [CAuthDisconnect (userId_of e1 s), CDisconnected s (userId_of e1 s)])
         else (e1, []))"

text \<open>What the service calls with the messages parsed from a frame, when there are any.\<close>

definition onMessage :: "ep_config \<Rightarrow> socket \<Rightarrow> cmessage option list \<Rightarrow> endpoint \<Rightarrow> endpoint \<times> ep_effect list" where
  "onMessage C s ms e =
     (case js_get (ep_sockets e) s of
        None \<Rightarrow> (e, [])
      | Some w \<Rightarrow>
          if ms = [] then (e, [])
          else case ws_stage w of
                 SIgnore \<Rightarrow> (e, [])
               | SProcess \<Rightarrow> processConnectionMessage C s ms e
               | SAuth \<Rightarrow> authenticateConnection C s ms e
               | SOpen \<Rightarrow> (e, [CForward s ms])
               | SNull \<Rightarrow> (e, [CThrow]))"

datatype ep_input =
    EConnect socket
  | EMessages socket "cmessage option list"
  | EAuthResult nat bool user_data
  | EAuthTimer socket
  | EDoomTimer socket
  | EFlushTimer
  | EPingTimer socket
  | EClose socket
  | ESend socket frame bool

fun ep_step :: "ep_config \<Rightarrow> endpoint \<Rightarrow> ep_input \<Rightarrow> endpoint \<times> ep_effect list" where
  "ep_step C e (EConnect s) =
     (if js_has (ep_sockets e) s then (e, [])
      else if ec_text C then text_onConnection C s e else (onConnection C s e, []))"
| "ep_step C e (EMessages s ms) = onMessage C s ms e"
| "ep_step C e (EAuthResult i ok u) = processAuthResult C i ok u e"
| "ep_step C e (EAuthTimer s) =
     (case js_get (ep_sockets e) s of
        None \<Rightarrow> (e, [])
      | Some w \<Rightarrow> if ws_timer w then processConnectionTimeout C s (upd_socket s (w\<lparr>ws_timer := False\<rparr>) e) else (e, []))"
| "ep_step C e (EDoomTimer s) =
     (case js_get (ep_sockets e) s of
        None \<Rightarrow> (e, [])
      | Some w \<Rightarrow> if ws_doomed w = 0 then (e, []) else (upd_socket s (w\<lparr>ws_doomed := ws_doomed w - 1\<rparr>) e, [CDestroy s]))"
| "ep_step C e EFlushTimer = (if ep_flushTimer e then flushSockets e else (e, []))"
| "ep_step C e (EPingTimer s) =
     (case js_get (ep_sockets e) s of
        None \<Rightarrow> (e, [])
      | Some w \<Rightarrow> if ws_ping w then sendPing C s (upd_socket s (w\<lparr>ws_ping := False\<rparr>) e) else (e, []))"
| "ep_step C e (EClose s) = endpoint_onSocketClose s e"
| "ep_step C e (ESend s f buffer) = sendBuiltMessage C s f buffer e"

section \<open>The order of the writes\<close>

datatype wr_op = WSend frame bool | WFlush

fun wr_step :: "ep_config \<Rightarrow> ws_socket \<Rightarrow> wr_op \<Rightarrow> ws_socket \<times> frame list" where
  "wr_step C w (WSend f b) = (case ws_sendBuilt C f b w of (w1, fs, sched) \<Rightarrow> (w1, fs))"
| "wr_step C w WFlush = ws_flush w"

fun wr_sent :: "wr_op list \<Rightarrow> frame list" where
  "wr_sent [] = []"
| "wr_sent (WSend f b # xs) = f # wr_sent xs"
| "wr_sent (WFlush # xs) = wr_sent xs"

text \<open>The frames with something in them: a frame of length 0 may stay in a buffer of total length 0.\<close>

definition payload :: "ep_config \<Rightarrow> frame list \<Rightarrow> frame list" where
  "payload C fs = filter (\<lambda>f. ec_len C f \<noteq> 0) fs"

lemma payload_simps [simp]: "payload C [] = []" "payload C (fs @ gs) = payload C fs @ payload C gs"
  "payload C (f # fs) = (if ec_len C f \<noteq> 0 then f # payload C fs else payload C fs)"
  by (simp_all add: payload_def)

definition ws_ok :: "ep_config \<Rightarrow> ws_socket \<Rightarrow> bool" where
  "ws_ok C w \<longleftrightarrow> ws_size w = sum_list (map (ec_len C) (ws_buffer w)) \<and> ws_size w \<le> ec_maxBytes C \<and>
     (ec_bufferTimeout C = 0 \<longrightarrow> ws_buffer w = [])"

lemma payload_zero: "sum_list (map (ec_len C) fs) = 0 \<Longrightarrow> payload C fs = []"
  by (auto simp: payload_def filter_empty_conv)

lemma ws_flush_facts:
  assumes "ws_size w = sum_list (map (ec_len C) (ws_buffer w))"
  shows "ws_size (fst (ws_flush w)) = 0" "ws_closed (fst (ws_flush w)) = ws_closed w"
    "ws_stage (fst (ws_flush w)) = ws_stage w" "payload C (snd (ws_flush w)) = payload C (ws_buffer w)"
    "payload C (ws_buffer (fst (ws_flush w))) = []"
    "sum_list (map (ec_len C) (ws_buffer (fst (ws_flush w)))) = 0"
    "ws_buffer w = [] \<Longrightarrow> ws_buffer (fst (ws_flush w)) = []"
  using assms payload_zero [of C "ws_buffer w"] by (auto simp: ws_flush_def)

lemma ws_flush_ok: "ws_ok C w \<Longrightarrow> ws_ok C (fst (ws_flush w))"
  using ws_flush_facts [of w C] by (auto simp: ws_ok_def)

definition buffered :: "ep_config \<Rightarrow> frame \<Rightarrow> ws_socket \<Rightarrow> ws_socket" where
  "buffered C f w = w\<lparr>ws_size := ws_size w + ec_len C f, ws_buffer := ws_buffer w @ [f]\<rparr>"

lemma ws_sendBuilt_cases:
  obtains (closed) "ws_closed w" "ws_sendBuilt C f b w = (w, [], False)"
  | (direct) "ec_bufferTimeout C = 0" "ws_sendBuilt C f b w = (w, [f], False)"
  | (urgent) "ws_sendBuilt C f b w = (fst (ws_flush w), snd (ws_flush w) @ [f], False)"
  | (full) "ec_bufferTimeout C \<noteq> 0" "ws_sendBuilt C f b w = (fst (ws_flush (buffered C f w)), snd (ws_flush (buffered C f w)), False)"
  | (room) "ec_bufferTimeout C \<noteq> 0" "ws_size (buffered C f w) \<le> ec_maxBytes C"
      "ws_sendBuilt C f b w = (buffered C f w, [], True)"
proof -
  have r: "ws_sendBuilt C f b w = (if ws_closed w then (w, [], False) else if ec_bufferTimeout C = 0 then (w, [f], False)
      else if \<not> b then (fst (ws_flush w), snd (ws_flush w) @ [f], False)
      else if ec_maxBytes C < ws_size (buffered C f w)
        then (fst (ws_flush (buffered C f w)), snd (ws_flush (buffered C f w)), False) else (buffered C f w, [], True))"
    by (simp add: ws_sendBuilt_def buffered_def Let_def)
  show ?thesis
  proof (cases "ws_closed w \<or> ec_bufferTimeout C = 0 \<or> \<not> b")
    case True
    then show ?thesis using r closed direct urgent by (auto split: if_splits)
  next
    case False
    then show ?thesis using r full room by (cases "ec_maxBytes C < ws_size (buffered C f w)") (auto simp: not_less)
  qed
qed

lemma ws_sendBuilt_facts:
  assumes ok: "ws_ok C w"
  shows "ws_ok C (fst (ws_sendBuilt C f b w))" "ws_closed (fst (ws_sendBuilt C f b w)) = ws_closed w"
    "ws_stage (fst (ws_sendBuilt C f b w)) = ws_stage w"
    "\<not> ws_closed w \<Longrightarrow> payload C (fst (snd (ws_sendBuilt C f b w))) @ payload C (ws_buffer (fst (ws_sendBuilt C f b w))) =
       payload C (ws_buffer w) @ payload C [f]"
    "ws_size (fst (ws_sendBuilt C f b w)) \<noteq> 0 \<Longrightarrow> ws_closed w \<or> snd (snd (ws_sendBuilt C f b w)) \<or>
       ws_size (fst (ws_sendBuilt C f b w)) = ws_size w"
proof -
  have sz: "ws_size w = sum_list (map (ec_len C) (ws_buffer w))"
    "ws_size (buffered C f w) = sum_list (map (ec_len C) (ws_buffer (buffered C f w)))"
    using ok by (simp_all add: ws_ok_def buffered_def)
  have b: "ws_closed (buffered C f w) = ws_closed w" "ws_stage (buffered C f w) = ws_stage w"
    "ws_buffer (buffered C f w) = ws_buffer w @ [f]" by (simp_all add: buffered_def)
  note F = ws_flush_facts(1-4) [OF sz(1)] ws_flush_facts(1-4) [OF sz(2)] b
  have e: "payload C (ws_buffer (fst (ws_flush v))) = []" if "ws_size v = sum_list (map (ec_len C) (ws_buffer v))" for v
    by (rule ws_flush_facts(5) [OF that])
  have fok: "ws_ok C (fst (ws_flush (buffered C f w)))" if "ec_bufferTimeout C \<noteq> 0"
    using that ws_flush_facts(1,6) [OF sz(2)] by (simp add: ws_ok_def)
  show "ws_ok C (fst (ws_sendBuilt C f b w))"
    using ok ws_flush_ok [OF ok] fok sz(2) by (cases rule: ws_sendBuilt_cases [of w C f b]) (simp_all add: ws_ok_def [of _ "buffered C f w"])
  show "ws_closed (fst (ws_sendBuilt C f b w)) = ws_closed w" "ws_stage (fst (ws_sendBuilt C f b w)) = ws_stage w"
    by (cases rule: ws_sendBuilt_cases [of w C f b]; simp add: F)+
  show "payload C (fst (snd (ws_sendBuilt C f b w))) @ payload C (ws_buffer (fst (ws_sendBuilt C f b w))) =
      payload C (ws_buffer w) @ payload C [f]" if "\<not> ws_closed w"
    using that ok by (cases rule: ws_sendBuilt_cases [of w C f b]) (simp_all add: F e [OF sz(1)] e [OF sz(2)] ws_ok_def)
  show "ws_closed w \<or> snd (snd (ws_sendBuilt C f b w)) \<or> ws_size (fst (ws_sendBuilt C f b w)) = ws_size w"
    if "ws_size (fst (ws_sendBuilt C f b w)) \<noteq> 0"
    using that by (cases rule: ws_sendBuilt_cases [of w C f b]) (simp_all add: F)
qed

lemma wr_step_order:
  assumes "ws_ok C w" and "\<not> ws_closed w"
  shows "ws_ok C (fst (wr_step C w x))" "\<not> ws_closed (fst (wr_step C w x))"
    "payload C (snd (wr_step C w x)) @ payload C (ws_buffer (fst (wr_step C w x))) =
      payload C (ws_buffer w) @ payload C (wr_sent [x])"
proof -
  have s: "ws_size w = sum_list (map (ec_len C) (ws_buffer w))" using assms(1) by (simp add: ws_ok_def)
  note A = ws_sendBuilt_facts [OF assms(1)] and B = ws_flush_facts [OF s] and D = ws_flush_ok [OF assms(1)]
  show "ws_ok C (fst (wr_step C w x))" using A(1) D by (cases x) (simp_all add: split_beta)
  show "\<not> ws_closed (fst (wr_step C w x))" using A(2) B(2) assms(2) by (cases x) (simp_all add: split_beta)
  show "payload C (snd (wr_step C w x)) @ payload C (ws_buffer (fst (wr_step C w x))) =
      payload C (ws_buffer w) @ payload C (wr_sent [x])"
  proof (cases x)
    case (WSend f b)
    then show ?thesis using A(4) [OF assms(2), of f b] by (simp add: split_beta)
  next
    case WFlush
    then show ?thesis using B(4,5) by simp
  qed
qed

lemma wr_run_order:
  assumes "ws_ok C w" and "\<not> ws_closed w"
  shows "payload C (snd (run (wr_step C) w ops)) @ payload C (ws_buffer (fst (run (wr_step C) w ops))) =
    payload C (ws_buffer w) @ payload C (wr_sent ops)"
  using assms
proof (induction ops arbitrary: w)
  case (Cons x ops)
  note one = wr_step_order [OF Cons.prems, of x]
  have "payload C (wr_sent (x # ops)) = payload C (wr_sent [x]) @ payload C (wr_sent ops)" by (cases x) simp_all
  moreover have "snd (run (wr_step C) w (x # ops)) = snd (wr_step C w x) @ snd (run (wr_step C) (fst (wr_step C w x)) ops)"
    "fst (run (wr_step C) w (x # ops)) = fst (run (wr_step C) (fst (wr_step C w x)) ops)"
    by (simp_all add: Let_def split_beta)
  ultimately show ?case
    using Cons.IH [OF one(1,2)] arg_cong [OF one(3), of "\<lambda>z. z @ payload C (wr_sent ops)"]
    by (simp only: payload_simps(2) append_assoc)
qed simp

text \<open>C27: whatever is sent to an open socket, buffered or not, and whenever its buffer is flushed, the frames
  written so far followed by those in the buffer are the frames sent, in the order they were sent: none
  is lost, doubled or overtaken (up to frames of length 0).\<close>

theorem writes_in_order:
  "payload C (snd (run (wr_step C) new_ws ops) @ ws_buffer (fst (run (wr_step C) new_ws ops))) = payload C (wr_sent ops)"
  using wr_run_order [of C new_ws ops] by (simp add: ws_ok_def new_ws_def del: payload_simps(3))

section \<open>What every operation of the endpoint keeps\<close>

text \<open>
  Buffers stay within their bound, a socket with something buffered is scheduled and the flush timer runs,
  and only a socket of \<open>G\<close>, those whose authentication was allowed, has the open stage.
\<close>

definition sock_ok :: "ep_config \<Rightarrow> socket set \<Rightarrow> endpoint \<Rightarrow> socket \<Rightarrow> ws_socket \<Rightarrow> bool" where
  "sock_ok C G e s w \<longleftrightarrow> ws_ok C w \<and> (\<not> ws_closed w \<and> ws_size w \<noteq> 0 \<longrightarrow> s \<in> set (ep_scheduled e) \<and> ep_flushTimer e) \<and>
     (ws_stage w = SOpen \<longrightarrow> s \<in> G)"

definition ep_inv :: "ep_config \<Rightarrow> socket set \<Rightarrow> endpoint \<Rightarrow> bool" where
  "ep_inv C G e \<longleftrightarrow> (\<forall>s w. js_get (ep_sockets e) s = Some w \<longrightarrow> sock_ok C G e s w)"

lemma ep_invD: "ep_inv C G e \<Longrightarrow> js_get (ep_sockets e) s = Some w \<Longrightarrow> sock_ok C G e s w"
  by (simp add: ep_inv_def)

lemma ep_inv_mono: "ep_inv C G e \<Longrightarrow> G \<subseteq> G' \<Longrightarrow> ep_inv C G' e"
  by (auto simp: ep_inv_def sock_ok_def)

lemma ep_inv_frame:
  "ep_inv C G e \<Longrightarrow> ep_sockets e' = ep_sockets e \<Longrightarrow> ep_scheduled e' = ep_scheduled e \<Longrightarrow>
   ep_flushTimer e' = ep_flushTimer e \<Longrightarrow> ep_inv C G e'"
  by (simp add: ep_inv_def sock_ok_def)

lemma upd_socket_inv: "ep_inv C G e \<Longrightarrow> sock_ok C G e s w \<Longrightarrow> ep_inv C G (upd_socket s w e)"
  by (auto simp: ep_inv_def sock_ok_def upd_socket_def js_simps)

lemma on_socket_inv:
  assumes "ep_inv C G e" and "\<And>w. sock_ok C G e s w \<Longrightarrow> sock_ok C G e s (f w)"
  shows "ep_inv C G (on_socket s f e)"
  using assms by (auto simp: on_socket_def split: option.split intro: upd_socket_inv ep_invD)

lemma then_do_inv: "ep_inv C G (fst res) \<Longrightarrow> (\<And>e. ep_inv C G e \<Longrightarrow> ep_inv C G (fst (f e))) \<Longrightarrow>
    ep_inv C G (fst (then_do res f))"
  by (simp add: then_do_def)

lemma sendBuiltMessage_inv:
  assumes inv: "ep_inv C G e"
  shows "ep_inv C G (fst (sendBuiltMessage C s f b e))"
proof (cases "js_get (ep_sockets e) s")
  case (Some w)
  obtain w1 fs sched where r: "ws_sendBuilt C f b w = (w1, fs, sched)" by (cases "ws_sendBuilt C f b w")
  let ?e = "(if sched then scheduleFlush s else id) e"
  have ok: "sock_ok C G e s w" by (rule ep_invD [OF inv Some])
  have "ep_inv C G ?e" using inv by (auto simp: ep_inv_def sock_ok_def scheduleFlush_def js_simps)
  moreover have "sock_ok C G ?e s w1"
    using ok ws_sendBuilt_facts [of C w f b] by (auto simp: sock_ok_def r scheduleFlush_def js_simps)
  moreover have "(if sched then scheduleFlush s else id) (upd_socket s w1 e) = upd_socket s w1 ?e"
    by (simp add: scheduleFlush_def upd_socket_def)
  ultimately show ?thesis using Some r by (simp add: sendBuiltMessage_def upd_socket_inv)
qed (simp add: sendBuiltMessage_def inv)

lemmas send_inv = sendBuiltMessage_inv

lemma flush_socket_inv: "ep_inv C G e \<Longrightarrow> ep_inv C G (fst (flush_socket s e))"
proof (cases "js_get (ep_sockets e) s")
  case (Some w)
  assume inv: "ep_inv C G e"
  have ok: "sock_ok C G e s w" by (rule ep_invD [OF inv Some])
  then have "ws_size w = sum_list (map (ec_len C) (ws_buffer w))" "ws_ok C w" by (simp_all add: sock_ok_def ws_ok_def)
  then have "sock_ok C G e s (fst (ws_flush w))"
    using ok ws_flush_facts [of w C] ws_flush_ok [of C w] by (simp add: sock_ok_def)
  then show ?thesis using Some inv by (simp add: flush_socket_def upd_socket_inv)
qed (simp add: flush_socket_def)

definition empty_at :: "endpoint \<Rightarrow> socket \<Rightarrow> bool" where
  "empty_at e s \<longleftrightarrow> (\<forall>w. js_get (ep_sockets e) s = Some w \<longrightarrow> ws_size w = 0)"

lemma flush_socket_empty:
  "empty_at (fst (flush_socket s e)) s" "empty_at e t \<Longrightarrow> empty_at (fst (flush_socket s e)) t"
  by (auto simp: empty_at_def flush_socket_def upd_socket_def js_simps ws_flush_def split: option.splits)

lemma flush_run:
  assumes "ep_inv C G e"
  shows "ep_inv C G (fst (run (\<lambda>e s. flush_socket s e) e ss)) \<and>
    (\<forall>s. s \<in> set ss \<or> empty_at e s \<longrightarrow> empty_at (fst (run (\<lambda>e s. flush_socket s e) e ss)) s) \<and>
    ep_scheduled (fst (run (\<lambda>e s. flush_socket s e) e ss)) = ep_scheduled e \<and>
    ep_flushTimer (fst (run (\<lambda>e s. flush_socket s e) e ss)) = ep_flushTimer e"
  using assms
proof (induction ss arbitrary: e)
  case (Cons s ss)
  let ?e = "fst (flush_socket s e)"
  have f: "ep_scheduled ?e = ep_scheduled e" "ep_flushTimer ?e = ep_flushTimer e"
    by (simp_all add: flush_socket_def upd_socket_def split: option.split)
  note ih = Cons.IH [OF flush_socket_inv [OF Cons.prems]]
  have "fst (run (\<lambda>e s. flush_socket s e) e (s # ss)) = fst (run (\<lambda>e s. flush_socket s e) ?e ss)"
    by (simp add: Let_def split_beta)
  then show ?case using ih f flush_socket_empty(1) [of s e] flush_socket_empty(2) [of e _ s] by auto
qed simp

lemma flushSockets_empties:
  assumes inv: "ep_inv C G e"
  shows "ep_inv C G (fst (flushSockets e))" and "s \<in> set (ep_scheduled e) \<Longrightarrow> empty_at (fst (flushSockets e)) s"
proof -
  let ?e = "fst (run (\<lambda>e s. flush_socket s e) e (ep_scheduled e))"
  note r = flush_run [OF inv, of "ep_scheduled e"]
  have eq: "fst (flushSockets e) = ?e\<lparr>ep_scheduled := [], ep_flushTimer := False\<rparr>"
    by (simp add: flushSockets_def split_beta Let_def)
  show "empty_at (fst (flushSockets e)) s" if "s \<in> set (ep_scheduled e)"
    using that r by (simp add: eq empty_at_def)
  show "ep_inv C G (fst (flushSockets e))"
  proof -
    have "sock_ok C G (fst (flushSockets e)) s w" if w: "js_get (ep_sockets ?e) s = Some w" for s w
    proof -
      have ok: "sock_ok C G ?e s w" using r w by (simp add: ep_inv_def)
      moreover have "ws_closed w \<or> ws_size w = 0"
      proof (rule ccontr)
        assume "\<not> ?thesis"
        with ok have "s \<in> set (ep_scheduled ?e)" by (simp add: sock_ok_def)
        with r have "empty_at ?e s" by simp
        with w \<open>\<not> ?thesis\<close> show False by (simp add: empty_at_def)
      qed
      ultimately show ?thesis by (auto simp: sock_ok_def)
    qed
    then show ?thesis by (simp add: ep_inv_def eq)
  qed
qed

text \<open>Changes of a socket that leave its buffer alone and do not open it.\<close>

definition harmless :: "(ws_socket \<Rightarrow> ws_socket) \<Rightarrow> bool" where
  "harmless f \<longleftrightarrow> (\<forall>w. ws_buffer (f w) = ws_buffer w \<and> ws_size (f w) = ws_size w \<and> (ws_closed w \<longrightarrow> ws_closed (f w)) \<and>
     (ws_stage (f w) = SOpen \<longrightarrow> ws_stage w = SOpen))"

lemma harmless_inv: "harmless f \<Longrightarrow> ep_inv C G e \<Longrightarrow> ep_inv C G (on_socket s f e)"
  by (rule on_socket_inv) (auto simp: harmless_def sock_ok_def ws_ok_def)

lemma harmless_upd: "harmless f \<Longrightarrow> ep_inv C G e \<Longrightarrow> js_get (ep_sockets e) s = Some w \<Longrightarrow> ep_inv C G (upd_socket s (f w) e)"
  using harmless_inv [of f C G e s] by (simp add: on_socket_def)

lemma auth_inv:
  assumes inv: "ep_inv C G e"
  shows "ep_inv C G (fst (sendInvalidAuthMsg C s a e))" "ep_inv C G (fst (authenticateConnection C s ms e))"
proof -
  show i: "ep_inv C G (fst (sendInvalidAuthMsg C s a e))" for a
    unfolding sendInvalidAuthMsg_def by (rule then_do_inv) (simp_all add: send_inv inv)
  have q: "ep_inv C G (e\<lparr>ep_requests := r, ep_nextId := n\<rparr>)" for r n by (rule ep_inv_frame [OF inv]) simp_all
  show "ep_inv C G (fst (authenticateConnection C s ms e))"
    by (auto simp: authenticateConnection_def inv send_inv i q split: option.split)
qed

lemma connection_inv:
  assumes inv: "ep_inv C G e"
  shows "ep_inv C G (fst (processConnectionMessage C s ms e))"
proof -
  have v: "ep_inv C G (e\<lparr>ep_versions := r\<rparr>)" for r by (rule ep_inv_frame [OF inv]) simp_all
  have h: "harmless (\<lambda>w. w\<lparr>ws_stage := if ws_authCallback w then SAuth else SNull\<rparr>)" by (simp add: harmless_def)
  show ?thesis
    by (auto simp: processConnectionMessage_def Let_def inv v intro!: send_inv harmless_inv [OF h] split: option.split)
qed

lemma result_inv:
  assumes inv: "ep_inv C G e"
  shows "ep_inv C G (fst (processInvalidAuth C d s e))" "ep_inv C (insert s G) (fst (registerAuthenticatedSocket C s u e))"
proof -
  have h: "harmless (\<lambda>w. w\<lparr>ws_attempts := Suc (ws_attempts w)\<rparr>)" "harmless (\<lambda>w. w\<lparr>ws_doomed := Suc (ws_doomed w)\<rparr>)"
    by (simp_all add: harmless_def)
  show "ep_inv C G (fst (processInvalidAuth C d s e))"
    unfolding processInvalidAuth_def
    by (rule then_do_inv) (auto simp: Let_def inv intro!: send_inv harmless_inv [OF h(1)] harmless_inv [OF h(2)] then_do_inv
        split: option.split)
  have a: "ep_inv C (insert s G) (x\<lparr>ep_authenticated := r\<rparr>)" if "ep_inv C (insert s G) x" for x r
    by (rule ep_inv_frame [OF that]) simp_all
  have "ep_inv C (insert s G) (on_socket s (\<lambda>w. (appendDataToSocketWrapper u w)\<lparr>ws_authCallback := False, ws_stage := SOpen\<rparr>) e)"
    by (rule on_socket_inv [OF ep_inv_mono [OF inv]]) (auto simp: sock_ok_def ws_ok_def appendDataToSocketWrapper_def)
  then show "ep_inv C (insert s G) (fst (registerAuthenticatedSocket C s u e))"
    unfolding registerAuthenticatedSocket_def Let_def by (intro then_do_inv send_inv a) simp_all
qed

lemma ping_inv: "ep_inv C G e \<Longrightarrow> ep_inv C G (fst (sendPing C s e))"
  by (auto simp: sendPing_def split: option.split intro!: send_inv
      harmless_upd [where f = "\<lambda>w. w\<lparr>ws_ping := True\<rparr>"] simp: harmless_def)

lemma connect_inv:
  assumes inv: "ep_inv C G e"
  shows "ep_inv C G (onConnection C s e)" "ep_inv C G (fst (text_onConnection C s e))"
proof -
  show c: "ep_inv C G (onConnection C s e)"
    unfolding onConnection_def by (rule upd_socket_inv [OF inv]) (simp add: sock_ok_def ws_ok_def new_ws_def)
  have h: "harmless (\<lambda>w. w\<lparr>ws_stage := SAuth\<rparr>)" by (simp add: harmless_def)
  show "ep_inv C G (fst (text_onConnection C s e))"
    unfolding text_onConnection_def by (intro then_do_inv send_inv harmless_inv [OF h] c ping_inv)
qed

lemma close_inv: "ep_inv C G e \<Longrightarrow> ep_inv C G (fst (endpoint_onSocketClose s e))"
proof -
  assume inv: "ep_inv C G e"
  let ?e = "on_socket s ws_close (e\<lparr>ep_scheduled := set_delete s (ep_scheduled e)\<rparr>)"
  have e: "ep_inv C G ?e"
    unfolding ep_inv_def
  proof (intro allI impI)
    fix t v
    assume v: "js_get (ep_sockets ?e) t = Some v"
    then obtain w where w: "js_get (ep_sockets e) t = Some w" "t \<noteq> s \<and> v = w \<or> t = s \<and> v = ws_close w"
      by (cases "js_get (ep_sockets e) s"; cases "t = s") (auto simp: on_socket_def upd_socket_def js_simps split: if_splits)
    have "ep_scheduled ?e = set_delete s (ep_scheduled e)" "ep_flushTimer ?e = ep_flushTimer e"
      by (simp_all add: on_socket_def upd_socket_def split: option.split)
    with ep_invD [OF inv w(1)] w(2) show "sock_ok C G ?e t v" by (auto simp: sock_ok_def ws_close_def ws_ok_def)
  qed
  have a: "ep_inv C G (?e\<lparr>ep_authenticated := r\<rparr>)" for r by (rule ep_inv_frame [OF e]) simp_all
  show ?thesis by (simp add: endpoint_onSocketClose_def Let_def e a)
qed

text \<open>The socket whose authentication an input allows.\<close>

fun allows :: "endpoint \<Rightarrow> ep_input \<Rightarrow> socket set" where
  "allows e (EAuthResult i True u) = (case js_get (ep_requests e) i of None \<Rightarrow> {} | Some s \<Rightarrow> {s})"
| "allows e x = {}"

lemma ep_step_inv:
  assumes inv: "ep_inv C G e"
  shows "ep_inv C (G \<union> allows e x) (fst (ep_step C e x))"
proof (cases x)
  case (EMessages s ms)
  then show ?thesis by (auto simp: onMessage_def inv connection_inv auth_inv split: option.split stage.split)
next
  case (EAuthResult i ok u)
  have h: "harmless (\<lambda>w. w\<lparr>ws_timer := False\<rparr>)" by (simp add: harmless_def)
  show ?thesis
  proof (cases "js_get (ep_requests e) i")
    case (Some s)
    let ?e = "on_socket s (\<lambda>w. w\<lparr>ws_timer := False\<rparr>) (e\<lparr>ep_requests := js_delete i (ep_requests e)\<rparr>)"
    have "ep_inv C G ?e" by (rule harmless_inv [OF h], rule ep_inv_frame [OF inv]) simp_all
    then show ?thesis using Some EAuthResult result_inv [of C G ?e]
      by (cases ok) (simp_all add: processAuthResult_def then_do_def)
  qed (simp add: EAuthResult processAuthResult_def ep_inv_mono [OF inv])
next
  case (EAuthTimer s)
  have h: "harmless (\<lambda>w. w\<lparr>ws_timer := False\<rparr>)" by (simp add: harmless_def)
  show ?thesis using EAuthTimer inv
    by (auto simp: processConnectionTimeout_def split: option.split intro!: then_do_inv send_inv harmless_upd [OF h])
next
  case (EDoomTimer s)
  have h: "harmless (\<lambda>w. w\<lparr>ws_doomed := ws_doomed w - 1\<rparr>)" by (simp add: harmless_def)
  show ?thesis using EDoomTimer inv by (auto split: option.split intro!: harmless_upd [OF h, simplified])
next
  case (EPingTimer s)
  have h: "harmless (\<lambda>w. w\<lparr>ws_ping := False\<rparr>)" by (simp add: harmless_def)
  show ?thesis using EPingTimer inv by (auto split: option.split intro!: ping_inv harmless_upd [OF h])
qed (auto simp: inv connect_inv flushSockets_empties close_inv send_inv)

section \<open>Histories\<close>

text \<open>The sockets whose authentication the service has allowed.\<close>

fun granted :: "ep_config \<Rightarrow> endpoint \<Rightarrow> socket set \<Rightarrow> ep_input list \<Rightarrow> socket set" where
  "granted C e G [] = G"
| "granted C e G (x # xs) = granted C (fst (ep_step C e x)) (G \<union> allows e x) xs"

lemma ep_run_inv: "ep_inv C G e \<Longrightarrow> ep_inv C (granted C e G xs) (fst (run (ep_step C) e xs))"
proof (induction xs arbitrary: e G)
  case (Cons x xs)
  show ?case using Cons.IH [OF ep_step_inv [OF Cons.prems, of x]] by (simp add: Let_def split_beta)
qed simp

lemma new_endpoint_inv: "ep_inv C {} new_endpoint"
  by (simp add: ep_inv_def new_endpoint_def)

text \<open>Only the open stage forwards.\<close>

lemma send_effects: "set (snd (sendBuiltMessage C s f b e)) \<subseteq> range (CWrite s)"
  by (auto simp: sendBuiltMessage_def split: option.split prod.split)

lemma not_forward [simp]: "CForward s ms \<notin> set (snd (sendBuiltMessage C t f b e))"
  using send_effects [of C t f b e] by auto

lemma not_forward_then [simp]:
  "CForward s ms \<in> set (snd (then_do res f)) \<longleftrightarrow> CForward s ms \<in> set (snd res) \<or> CForward s ms \<in> set (snd (f (fst res)))"
  by (simp add: then_do_def)

lemma not_forward_flush: "CForward s ms \<notin> set (snd (flushSockets e))"
proof -
  have "CForward s ms \<notin> set (snd (run (\<lambda>e s. flush_socket s e) e ss))" for ss
    by (induction ss arbitrary: e) (auto simp: flush_socket_def Let_def split_beta split: option.splits)
  then show ?thesis by (simp add: flushSockets_def split_beta Let_def)
qed

lemma forward_open:
  assumes "CForward s ms \<in> set (snd (ep_step C e x))"
  shows "\<exists>w. js_get (ep_sockets e) s = Some w \<and> ws_stage w = SOpen"
proof (cases x)
  case (EMessages t ns)
  have p: "CForward s ms \<notin> set (snd (processConnectionMessage C t ns e))"
    "CForward s ms \<notin> set (snd (authenticateConnection C t ns e))"
    by (auto simp: processConnectionMessage_def authenticateConnection_def sendInvalidAuthMsg_def Let_def split: option.splits if_splits)
  show ?thesis using assms p EMessages
    by (auto simp: onMessage_def split: option.splits stage.splits if_splits)
next
  case (EAuthResult i ok u)
  then show ?thesis using assms
    by (auto simp: processAuthResult_def processInvalidAuth_def registerAuthenticatedSocket_def Let_def split: option.splits if_splits)
next
  case (EConnect t)
  then show ?thesis using assms by (auto simp: text_onConnection_def sendPing_def split: option.splits if_splits)
qed (use assms in \<open>auto simp: processConnectionTimeout_def sendPing_def endpoint_onSocketClose_def Let_def not_forward_flush
      split: option.splits if_splits\<close>)

text \<open>C4: whatever sockets send, close and time out, messages of a socket reach the message pipeline only
  after the authentication service has allowed a request of that socket.\<close>

theorem no_message_before_authentication:
  assumes "CForward s ms \<in> set (snd (ep_step C (fst (run (ep_step C) new_endpoint xs)) x))"
  shows "s \<in> granted C new_endpoint {} xs"
proof -
  obtain w where "js_get (ep_sockets (fst (run (ep_step C) new_endpoint xs))) s = Some w" "ws_stage w = SOpen"
    using forward_open [OF assms] by blast
  with ep_run_inv [OF new_endpoint_inv, of C xs] show ?thesis by (auto dest!: ep_invD simp: sock_ok_def)
qed

definition example_config :: ep_config where
  "example_config = \<lparr>ec_bufferTimeout = 1, ec_maxBytes = 100, ec_maxAttempts = 3, ec_authTimeout = True, ec_text = False,
     ec_len = (\<lambda>f. 10), ec_parseData = (\<lambda>m. Some (m_parsed m))\<rparr>"

definition example_login :: "ep_input list" where
  "example_login = [EConnect 1, EMessages 1 [Some (cmsg T_CONNECTION (ConnectionA CA_CHALLENGE))],
     EMessages 1 [Some ((cmsg T_AUTH (AuthA AA_REQUEST))\<lparr>m_parsed := Some (JObj [])\<rparr>)]]"

definition somebody :: user_data where
  "somebody = \<lparr>ud_id = Some ''bob'', ud_clientData = None, ud_serverData = None\<rparr>"

theorem no_message_before_authentication_witness:
  "1 \<in> granted example_config new_endpoint {} (example_login @ [EAuthResult 0 True somebody])"
proof (rule no_message_before_authentication)
  show "CForward 1 [None] \<in> set (snd (ep_step example_config
      (fst (run (ep_step example_config) new_endpoint (example_login @ [EAuthResult 0 True somebody]))) (EMessages 1 [None])))"
    by code_simp
qed

text \<open>In every history the frames buffered for a socket take at most \<open>maxBufferByteSize\<close> bytes, and while
  an open socket has bytes buffered the flush timer runs, and when it fires nothing stays behind.\<close>

theorem buffers_bounded_and_flushed:
  assumes "js_get (ep_sockets (fst (run (ep_step C) new_endpoint xs))) s = Some w" and "\<not> ws_closed w"
  shows "sum_list (map (ec_len C) (ws_buffer w)) \<le> ec_maxBytes C \<and>
    (payload C (ws_buffer w) \<noteq> [] \<longrightarrow> ep_flushTimer (fst (run (ep_step C) new_endpoint xs))) \<and>
    (\<forall>v. js_get (ep_sockets (fst (run (ep_step C) new_endpoint (xs @ [EFlushTimer])))) s = Some v \<longrightarrow>
      payload C (ws_buffer v) = [])"
proof -
  let ?e = "fst (run (ep_step C) new_endpoint xs)"
  let ?G = "granted C new_endpoint {} xs"
  have inv: "ep_inv C ?G ?e" by (rule ep_run_inv [OF new_endpoint_inv])
  have ok: "sock_ok C ?G ?e s w" by (rule ep_invD [OF inv assms(1)])
  then have sz: "ws_size w = sum_list (map (ec_len C) (ws_buffer w))" "ws_size w \<le> ec_maxBytes C"
    by (simp_all add: sock_ok_def ws_ok_def)
  have zero: "payload C (ws_buffer v) = []" if "sock_ok C G' e' s v" "ws_size v = 0" for G' e' v
    using that payload_zero [of C "ws_buffer v"] by (simp add: sock_ok_def ws_ok_def)
  have "ws_size w \<noteq> 0" "ep_flushTimer ?e" if "payload C (ws_buffer w) \<noteq> []"
    using that zero [OF ok] ok assms(2) by (auto simp: sock_ok_def)
  moreover have "payload C (ws_buffer v) = []"
    if v: "js_get (ep_sockets (fst (run (ep_step C) new_endpoint (xs @ [EFlushTimer])))) s = Some v" for v
  proof -
    have eq: "fst (run (ep_step C) new_endpoint (xs @ [EFlushTimer])) = fst (ep_step C ?e EFlushTimer)"
      by (simp add: run_append Let_def split_beta)
    have inv': "ep_inv C ?G (fst (ep_step C ?e EFlushTimer))" using ep_step_inv [OF inv, of EFlushTimer] by simp
    show ?thesis
    proof (cases "ws_size w = 0")
      case True
      have "empty_at ?e s" using True assms(1) by (simp add: empty_at_def)
      then have "empty_at (fst (ep_step C ?e EFlushTimer)) s"
        using flush_run [OF inv, of "ep_scheduled ?e"] by (simp add: flushSockets_def split_beta Let_def empty_at_def)
      then show ?thesis using v ep_invD [OF inv' v [unfolded eq]] zero by (simp add: eq empty_at_def)
    next
      case False
      with ok assms(2) have "s \<in> set (ep_scheduled ?e)" "ep_flushTimer ?e" by (simp_all add: sock_ok_def)
      with flushSockets_empties(2) [OF inv] have "empty_at (fst (ep_step C ?e EFlushTimer)) s" by simp
      then show ?thesis using v ep_invD [OF inv' v [unfolded eq]] zero by (simp add: eq empty_at_def)
    qed
  qed
  ultimately show ?thesis using sz by auto
qed

section \<open>Failed attempts\<close>

text \<open>A refused attempt of an open socket is answered at once; below the limit the socket stays open and may
  try again, at the limit it is told so and a timer is set that destroys it. In both cases the timer that
  should cut off a client that does not log in is cleared, so a client with one refused attempt may
  stay connected without ever logging in.\<close>

theorem refused_attempt:
  assumes "js_get (ep_requests e) i = Some s" and "js_get (ep_sockets e) s = Some w" and "\<not> ws_closed w"
    and "ws_buffer w = []" and "ws_size w = 0"
  shows "let (e', es) = ep_step C e (EAuthResult i False u);
             n = Suc (ws_attempts w);
             doom = (if ec_maxAttempts C \<le> n then Suc (ws_doomed w) else ws_doomed w) in
    es = [CLogin False, CWrite s (Plain ((cmsg T_AUTH (AuthA AA_AUTH_UNSUCCESSFUL))\<lparr>m_parsed := ud_clientData u\<rparr>))] @
      (if ec_maxAttempts C \<le> n then [CWrite s (Plain (cmsg T_AUTH (AuthA AA_TOO_MANY_AUTH_ATTEMPTS)))] else []) \<and>
    js_get (ep_sockets e') s = Some (w\<lparr>ws_timer := False, ws_attempts := n, ws_doomed := doom\<rparr>) \<and>
    ep_step C e' (EAuthTimer s) = (e', []) \<and>
    (ec_maxAttempts C \<le> n \<longrightarrow> snd (ep_step C e' (EDoomTimer s)) = [CDestroy s])"
proof -
  have send: "sendBuiltMessage C s f False e' = (upd_socket s v e', [CWrite s f])"
    if "js_get (ep_sockets e') s = Some v" "\<not> ws_closed v" "ws_buffer v = []" "ws_size v = 0" for f e' v
    using that by (simp add: sendBuiltMessage_def ws_sendBuilt_def ws_flush_def)
  show ?thesis
    using assms
    by (simp add: processAuthResult_def then_do_def processInvalidAuth_def on_socket_def upd_socket_def js_simps Let_def
        send [of "_\<lparr>ep_sockets := _\<rparr>"])
qed

section \<open>Logins and logouts\<close>

definition closed_of :: "endpoint \<Rightarrow> socket \<Rightarrow> bool" where
  "closed_of e s = (case js_get (ep_sockets e) s of None \<Rightarrow> False | Some w \<Rightarrow> ws_closed w)"

fun is_life :: "ep_effect \<Rightarrow> bool" where
  "is_life (CConnected s u) = True"
| "is_life (CDisconnected s u) = True"
| "is_life _ = False"

definition life :: "ep_effect list \<Rightarrow> ep_effect list" where
  "life es = filter is_life es"

lemma life_simps [simp]: "life [] = []" "life (es @ fs) = life es @ life fs"
  "life (x # es) = (if is_life x then x # life es else life es)"
  by (simp_all add: life_def)

text \<open>A step that logs nobody in or out.\<close>

definition calm :: "endpoint \<Rightarrow> endpoint \<times> ep_effect list \<Rightarrow> bool" where
  "calm e res \<longleftrightarrow> ep_authenticated (fst res) = ep_authenticated e \<and> userId_of (fst res) = userId_of e \<and>
     (\<forall>s \<in> set (ep_authenticated e). closed_of (fst res) s = closed_of e s) \<and> life (snd res) = []"

lemma calm_then: "calm e res \<Longrightarrow> calm (fst res) (f (fst res)) \<Longrightarrow> calm e (then_do res f)"
  by (simp add: calm_def then_do_def)

lemma calm_trans: "calm e (e1, []) \<Longrightarrow> calm e1 res \<Longrightarrow> calm e res"
  by (simp add: calm_def)

lemma calm_frame: "ep_sockets e1 = ep_sockets e \<Longrightarrow> ep_authenticated e1 = ep_authenticated e \<Longrightarrow> life es = [] \<Longrightarrow>
    calm e (e1, es)"
  by (simp add: calm_def fun_eq_iff userId_of_def closed_of_def)

lemma calm_refl: "life es = [] \<Longrightarrow> calm e (e, es)"
  by (rule calm_frame) simp_all

lemma calm_upd:
  assumes "userId_of e s = ws_userId w" and "s \<in> set (ep_authenticated e) \<Longrightarrow> closed_of e s = ws_closed w"
  shows "calm e (upd_socket s w e, [])"
  using assms by (auto simp: calm_def fun_eq_iff userId_of_def closed_of_def upd_socket_def js_simps)

lemma calm_on_socket:
  assumes "\<And>w. ws_userId (f w) = ws_userId w" and "\<And>w. ws_closed (f w) = ws_closed w"
  shows "calm e (on_socket s f e, [])"
  using assms by (auto simp: on_socket_def calm_refl userId_of_def closed_of_def split: option.split intro!: calm_upd)

lemma ws_write_user:
  "ws_userId (fst (ws_sendBuilt C f b w)) = ws_userId w" "ws_closed (fst (ws_sendBuilt C f b w)) = ws_closed w"
  "ws_userId (fst (ws_flush w)) = ws_userId w" "ws_closed (fst (ws_flush w)) = ws_closed w"
  by (auto simp: ws_sendBuilt_def ws_flush_def Let_def)

lemma life_writes [simp]: "life (map (CWrite s) fs) = []"
  by (induction fs) simp_all

lemma calm_send: "calm e (sendBuiltMessage C s f b e)"
proof (cases "js_get (ep_sockets e) s")
  case (Some w)
  obtain w1 fs sched where r: "ws_sendBuilt C f b w = (w1, fs, sched)" by (cases "ws_sendBuilt C f b w")
  have "calm e (upd_socket s w1 e, [])"
    using ws_write_user(1,2) [of C f b w] Some r by (intro calm_upd) (simp_all add: userId_of_def closed_of_def)
  moreover have "calm (upd_socket s w1 e) ((if sched then scheduleFlush s else id) (upd_socket s w1 e), map (CWrite s) fs)"
    by (rule calm_frame) (simp_all add: scheduleFlush_def)
  ultimately show ?thesis using calm_trans [of e "upd_socket s w1 e"] by (simp add: sendBuiltMessage_def Some r)
qed (simp add: sendBuiltMessage_def calm_refl)

lemma calm_flush: "calm e (flushSockets e)"
proof -
  have one: "calm e (flush_socket s e)" for s e
    using ws_write_user(3,4)
    by (auto simp: flush_socket_def calm_refl calm_def fun_eq_iff userId_of_def closed_of_def upd_socket_def js_simps
        split: option.split)
  have "calm e (run (\<lambda>e s. flush_socket s e) e ss)" for ss
  proof (induction ss arbitrary: e)
    case (Cons s ss)
    show ?case using one [of e s] Cons.IH [of "fst (flush_socket s e)"] by (simp add: calm_def Let_def split_beta)
  qed (simp add: calm_refl)
  from this [of "ep_scheduled e"] show ?thesis
    by (simp add: flushSockets_def calm_def Let_def split_beta fun_eq_iff userId_of_def closed_of_def)
qed

lemma calm_messages: "calm e (onMessage C s ms e)"
proof -
  have i: "calm e (sendInvalidAuthMsg C s a e)" for a e
    unfolding sendInvalidAuthMsg_def by (rule calm_then [OF calm_send]) (simp add: calm_refl)
  have a: "calm e (authenticateConnection C s ms e)"
    by (auto simp: authenticateConnection_def i calm_send calm_refl split: option.split intro!: calm_frame)
  have p: "calm e (processConnectionMessage C s ms e)"
  proof -
    let ?f = "\<lambda>w. w\<lparr>ws_stage := if ws_authCallback w then SAuth else SNull\<rparr>"
    have "calm e (sendBuiltMessage C s f b (on_socket s ?f e1))" if "calm e (e1, [])" for e1 f b
      using calm_trans [OF that calm_trans [OF calm_on_socket [of ?f e1 s] calm_send]] by simp
    moreover have "calm e (e\<lparr>ep_versions := v\<rparr>, [])" for v by (rule calm_frame) simp_all
    ultimately show ?thesis
      by (auto simp: processConnectionMessage_def Let_def calm_send calm_refl split: option.split)
  qed
  show ?thesis by (auto simp: onMessage_def a p calm_refl split: option.split stage.split)
qed

lemma calm_refused: "calm e (processInvalidAuth C d s e)"
  unfolding processInvalidAuth_def
proof (rule calm_then [OF calm_send])
  let ?e = "fst (sendMessage C s ((cmsg T_AUTH (AuthA AA_AUTH_UNSUCCESSFUL))\<lparr>m_parsed := d\<rparr>) False e)"
  let ?e1 = "on_socket s (\<lambda>w. w\<lparr>ws_attempts := Suc (ws_attempts w)\<rparr>) ?e"
  have a: "calm ?e (?e1, [])" by (rule calm_on_socket) simp_all
  have b: "calm ?e (then_do (sendMessage C s m False ?e1) (\<lambda>e. (on_socket s (\<lambda>w. w\<lparr>ws_doomed := Suc (ws_doomed w)\<rparr>) e, [])))"
    for m by (rule calm_trans [OF a calm_then [OF calm_send]], rule calm_on_socket) simp_all
  show "calm ?e (let e1 = ?e1 in case js_get (ep_sockets e1) s of None \<Rightarrow> (e1, [])
      | Some w \<Rightarrow> if ec_maxAttempts C \<le> ws_attempts w
          then then_do (sendMessage C s (cmsg T_AUTH (AuthA AA_TOO_MANY_AUTH_ATTEMPTS)) False e1)
                 (\<lambda>e. (on_socket s (\<lambda>w. w\<lparr>ws_doomed := Suc (ws_doomed w)\<rparr>) e, [])) else (e1, []))"
    using a b by (auto simp: Let_def split: option.split)
qed

lemma calm_ping: "calm e (sendPing C s e)"
proof (cases "js_get (ep_sockets e) s")
  case (Some w)
  then have "calm e (upd_socket s (w\<lparr>ws_ping := True\<rparr>) e, [])"
    by (intro calm_upd) (simp_all add: userId_of_def closed_of_def)
  then show ?thesis using Some calm_trans [OF _ calm_send] by (auto simp: sendPing_def calm_refl)
qed (simp add: sendPing_def calm_refl)

lemma calm_connect:
  assumes "js_get (ep_sockets e) s = None"
  shows "calm e (onConnection C s e, [])" "calm e (text_onConnection C s e)"
proof -
  show c: "calm e (onConnection C s e, [])"
    using assms unfolding onConnection_def by (intro calm_upd) (simp_all add: userId_of_def closed_of_def new_ws_def)
  show "calm e (text_onConnection C s e)" unfolding text_onConnection_def
    by (rule calm_trans [OF c], rule calm_then [where f = "sendPing C s", OF _ calm_ping],
        rule calm_trans [OF calm_on_socket calm_send]) simp_all
qed

text \<open>A step is calm, logs a socket in or logs one out.\<close>

lemma ep_step_life:
  obtains (calm) "calm e (ep_step C e x)"
  | (login) i u s where "x = EAuthResult i True u" "js_get (ep_requests e) i = Some s"
      "ep_authenticated (fst (ep_step C e x)) = set_add s (ep_authenticated e)"
      "\<And>t. t \<noteq> s \<Longrightarrow> userId_of (fst (ep_step C e x)) t = userId_of e t"
      "closed_of (fst (ep_step C e x)) = closed_of e"
      "life (snd (ep_step C e x)) = [CConnected s (userId_of (fst (ep_step C e x)) s)]"
  | (logout) s where "x = EClose s" "s \<in> set (ep_authenticated e)"
      "ep_authenticated (fst (ep_step C e x)) = set_delete s (ep_authenticated e)"
      "userId_of (fst (ep_step C e x)) = userId_of e"
      "\<And>t. t \<noteq> s \<Longrightarrow> closed_of (fst (ep_step C e x)) t = closed_of e t"
      "life (snd (ep_step C e x)) = [CDisconnected s (userId_of e s)]"
proof (cases x)
  case (EAuthResult i ok u)
  show ?thesis
  proof (cases "js_get (ep_requests e) i")
    case None
    then show ?thesis using EAuthResult calm by (simp add: processAuthResult_def calm_refl)
  next
    case (Some s)
    let ?e = "on_socket s (\<lambda>w. w\<lparr>ws_timer := False\<rparr>) (e\<lparr>ep_requests := js_delete i (ep_requests e)\<rparr>)"
    have c: "calm e (?e, [])"
      by (rule calm_trans [of _ "e\<lparr>ep_requests := js_delete i (ep_requests e)\<rparr>"])
        (simp_all add: calm_frame calm_on_socket)
    show ?thesis
    proof (cases ok)
      case False
      then have "calm e (ep_step C e x)" using EAuthResult Some c calm_refused [of ?e C "ud_clientData u" s]
        by (simp add: processAuthResult_def then_do_def calm_def)
      then show ?thesis by (rule calm)
    next
      case True
      define f where "f = (\<lambda>w. (appendDataToSocketWrapper u w)\<lparr>ws_authCallback := False, ws_stage := SOpen\<rparr>)"
      define e1 where "e1 = ?e"
      define e2 where "e2 = (on_socket s f e1)\<lparr>ep_authenticated := set_add s (ep_authenticated e1)\<rparr>"
      define r where "r = sendMessage C s ((cmsg T_AUTH (AuthA AA_AUTH_SUCCESSFUL))\<lparr>m_parsed := ud_clientData u\<rparr>) True e2"
      have "ep_authenticated (on_socket s f e1) = ep_authenticated e1"
        by (simp add: on_socket_def upd_socket_def split: option.split)
      then have step: "processAuthResult C i True u e = (fst r, [CLogin True] @ snd r @ [CConnected s (userId_of (fst r) s)])"
        using EAuthResult Some True
        by (simp add: processAuthResult_def then_do_def registerAuthenticatedSocket_def Let_def r_def e2_def e1_def f_def)
      have c1: "ep_authenticated e1 = ep_authenticated e" "userId_of e1 = userId_of e" using c by (simp_all add: calm_def e1_def)
      have u: "userId_of e2 t = userId_of e t" if "t \<noteq> s" for t
      proof -
        have "userId_of e2 t = userId_of e1 t"
          using that by (simp add: e2_def userId_of_def on_socket_def upd_socket_def js_simps split: option.split)
        with c1 show ?thesis by simp
      qed
      have k: "closed_of e2 = closed_of e"
        by (auto simp: e2_def e1_def f_def fun_eq_iff closed_of_def on_socket_def upd_socket_def js_simps appendDataToSocketWrapper_def
            split: option.split)
      have n: "closed_of (fst r) = closed_of e2"
      proof
        fix t
        show "closed_of (fst r) t = closed_of e2 t"
          using ws_write_user(2) unfolding r_def
          by (auto simp: sendBuiltMessage_def closed_of_def upd_socket_def scheduleFlush_def js_simps
            split: option.split prod.split) (metis fst_conv)+
      qed
      have r: "ep_authenticated (fst r) = ep_authenticated e2" "userId_of (fst r) = userId_of e2" "life (snd r) = []"
        using calm_send [of e2] unfolding r_def calm_def by blast+
      have "ep_authenticated (fst r) = set_add s (ep_authenticated e)" using r(1) c1(1) by (simp add: e2_def)
      then show ?thesis using EAuthResult Some True r(2,3) u k n
        by (intro login [of i u s]) (simp_all add: step)
    qed
  qed
next
  case (EClose s)
  let ?e0 = "e\<lparr>ep_scheduled := set_delete s (ep_scheduled e)\<rparr>"
  let ?e = "on_socket s ws_close ?e0"
  have a: "ep_authenticated ?e = ep_authenticated e" "userId_of ?e = userId_of e" "\<And>t. t \<noteq> s \<Longrightarrow> closed_of ?e t = closed_of e t"
    by (auto simp: on_socket_def upd_socket_def userId_of_def closed_of_def fun_eq_iff js_simps ws_close_def split: option.split)
  show ?thesis
  proof (cases "s \<in> set (ep_authenticated e)")
    case True
    have fr: "userId_of (?e\<lparr>ep_authenticated := r\<rparr>) = userId_of ?e" "closed_of (?e\<lparr>ep_authenticated := r\<rparr>) = closed_of ?e" for r
      by (simp_all add: userId_of_def closed_of_def fun_eq_iff)
    have step: "endpoint_onSocketClose s e = (?e\<lparr>ep_authenticated := set_delete s (ep_authenticated e)\<rparr>,
        [CAuthDisconnect (userId_of e s), CDisconnected s (userId_of e s)])"
      using True a by (simp add: endpoint_onSocketClose_def Let_def)
    show ?thesis by (rule logout [of s]) (simp_all add: EClose True step fr a)
  next
    case False
    then have "ep_step C e x = (?e, [])" using EClose a by (simp add: endpoint_onSocketClose_def Let_def)
    moreover have "closed_of ?e t = closed_of e t" if "t \<in> set (ep_authenticated e)" for t
      using that False by (intro a(3)) auto
    ultimately have "calm e (ep_step C e x)" using a(1,2) by (simp add: calm_def)
    then show ?thesis by (rule calm)
  qed
next
  case (EConnect s)
  then show ?thesis using calm calm_connect [of e s C] by (auto simp: js_has_def calm_refl split: if_splits)
next
  case (EMessages s ms)
  then show ?thesis using calm calm_messages by simp
next
  case (EAuthTimer s)
  have "calm e (ep_step C e x)"
  proof (cases "js_get (ep_sockets e) s")
    case (Some w)
    let ?e = "upd_socket s (w\<lparr>ws_timer := False\<rparr>) e"
    have "calm e (?e, [])" using Some by (intro calm_upd) (simp_all add: userId_of_def closed_of_def)
    moreover have "calm ?e (processConnectionTimeout C s ?e)"
      unfolding processConnectionTimeout_def by (rule calm_then [OF calm_send]) (simp add: calm_refl)
    ultimately show ?thesis using Some EAuthTimer calm_trans by (auto simp: calm_refl)
  qed (simp add: EAuthTimer calm_refl)
  then show ?thesis by (rule calm)
next
  case (EDoomTimer s)
  have "calm e (ep_step C e x)"
    using EDoomTimer calm_upd [of e s]
    by (auto simp: calm_refl calm_def userId_of_def closed_of_def split: option.split)
  then show ?thesis by (rule calm)
next
  case EFlushTimer
  then show ?thesis using calm calm_flush by (simp add: calm_refl)
next
  case (EPingTimer s)
  have "calm e (ep_step C e x)"
  proof (cases "js_get (ep_sockets e) s")
    case (Some w)
    let ?e = "upd_socket s (w\<lparr>ws_ping := False\<rparr>) e"
    have "calm e (?e, [])" using Some by (intro calm_upd) (simp_all add: userId_of_def closed_of_def)
    then show ?thesis using Some EPingTimer calm_trans [OF _ calm_ping] by (auto simp: calm_refl)
  qed (simp add: EPingTimer calm_refl)
  then show ?thesis by (rule calm)
next
  case (ESend s f b)
  then show ?thesis using calm calm_send by simp
qed

section \<open>A message that is null\<close>

text \<open>On a JSON socket the text \<open>null\<close> parses to a message that is null; whoever sends it before logging
  in makes the server read a property of null, which throws.\<close>

theorem null_message_throws:
  assumes "js_get (ep_sockets e) s = Some w" and "ws_stage w = SProcess \<or> ws_stage w = SAuth"
  shows "ep_step C e (EMessages s (None # ms)) = (e, [CThrow])"
  using assms by (auto simp: onMessage_def processConnectionMessage_def authenticateConnection_def)

theorem null_message_throws_witness:
  "ep_step example_config (onConnection example_config 1 new_endpoint) (EMessages 1 [None]) =
    (onConnection example_config 1 new_endpoint, [CThrow])"
  by (rule null_message_throws [where w = "new_ws\<lparr>ws_timer := True, ws_authCallback := True, ws_stage := SProcess\<rparr>"])
    (simp_all add: onConnection_def upd_socket_def new_endpoint_def example_config_def)

section \<open>Further witnesses\<close>

theorem buffers_bounded_and_flushed_witness:
  "payload example_config [Plain (cmsg T_EVENT UndefinedA)] \<noteq> [] \<and>
   ep_flushTimer (fst (run (ep_step example_config) new_endpoint [EConnect 1, ESend 1 (Plain (cmsg T_EVENT UndefinedA)) True]))"
proof -
  let ?w = "new_ws\<lparr>ws_timer := True, ws_authCallback := True, ws_stage := SProcess,
    ws_size := 10, ws_buffer := [Plain (cmsg T_EVENT UndefinedA)]\<rparr>"
  have "js_get (ep_sockets (fst (run (ep_step example_config) new_endpoint
      [EConnect 1, ESend 1 (Plain (cmsg T_EVENT UndefinedA)) True]))) 1 = Some ?w" by code_simp
  from buffers_bounded_and_flushed [OF this] show ?thesis by (simp add: example_config_def new_ws_def)
qed

theorem refused_attempt_witness:
  "snd (ep_step example_config (fst (run (ep_step example_config) new_endpoint example_login)) (EAuthResult 0 False somebody)) =
    [CLogin False, CWrite 1 (Plain ((cmsg T_AUTH (AuthA AA_AUTH_UNSUCCESSFUL))\<lparr>m_parsed := None\<rparr>))]"
proof -
  let ?e = "fst (run (ep_step example_config) new_endpoint example_login)"
  let ?w = "new_ws\<lparr>ws_timer := True, ws_authCallback := True, ws_stage := SAuth\<rparr>"
  have e: "js_get (ep_requests ?e) 0 = Some 1" "js_get (ep_sockets ?e) 1 = Some ?w" by code_simp+
  have w: "\<not> ws_closed ?w" "ws_buffer ?w = []" "ws_size ?w = 0" "ws_attempts ?w = 0" by (simp_all add: new_ws_def)
  show ?thesis using refused_attempt [OF e w(1-3), of example_config somebody] w(4)
    by (simp add: split_beta Let_def example_config_def somebody_def del: ep_step.simps)
qed

end
