(* ===== verification/Gateway.thy ===== *)
theory Gateway
  imports Connection Presence
begin

text \<open>
  The connection endpoint and the presence handler together: the server passes the endpoint's
  \<open>onClientConnected\<close> and \<open>onClientDisconnected\<close> on to its connection listeners
  (\<open>src/deepstream.io.ts\<close>), of which presence is one. Who is online is thus decided by the logins and
  logouts of the endpoint.
\<close>

section \<open>From logins to presence\<close>

fun to_presence :: "ep_effect \<Rightarrow> presence_input list" where
  "to_presence (CConnected s u) = [UConnect (the u)]"
| "to_presence (CDisconnected s u) = [UDisconnect (the u)]"
| "to_presence _ = []"

definition presence_inputs :: "ep_effect list \<Rightarrow> presence_input list" where
  "presence_inputs es = concat (map to_presence es)"

lemma presence_inputs_append [simp]: "presence_inputs (es @ fs) = presence_inputs es @ presence_inputs fs"
  by (simp add: presence_inputs_def)

lemma presence_inputs_life: "presence_inputs es = presence_inputs (life es)"
proof (induction es)
  case (Cons x es)
  then show ?case by (cases x) (simp_all add: presence_inputs_def)
qed (simp add: presence_inputs_def)

text \<open>Users and the sockets they are logged in with.\<close>

definition login_inv :: "endpoint \<Rightarrow> (string \<Rightarrow> nat) \<Rightarrow> bool" where
  "login_inv e c \<longleftrightarrow> distinct (ep_authenticated e) \<and>
     (\<forall>s \<in> set (ep_authenticated e). userId_of e s \<noteq> None \<and> \<not> closed_of e s) \<and>
     (\<forall>u. c u = length (filter (\<lambda>s. userId_of e s = Some u) (ep_authenticated e)))"

text \<open>The service answers while the socket is open and not yet logged in.\<close>

definition timely :: "endpoint \<Rightarrow> ep_input \<Rightarrow> bool" where
  "timely e x = (case x of
       EAuthResult i ok u \<Rightarrow> (case js_get (ep_requests e) i of
           None \<Rightarrow> True
         | Some s \<Rightarrow> ok \<longrightarrow> js_has (ep_sockets e) s \<and> \<not> closed_of e s \<and> s \<notin> set (ep_authenticated e))
     | _ \<Rightarrow> True)"

fun orderly :: "ep_config \<Rightarrow> endpoint \<Rightarrow> ep_input list \<Rightarrow> bool" where
  "orderly C e [] = True"
| "orderly C e (x # xs) = (timely e x \<and> orderly C (fst (ep_step C e x)) xs)"

lemma login_user:
  assumes "js_get (ep_requests e) i = Some s" and "js_has (ep_sockets e) s"
  shows "userId_of (fst (ep_step C e (EAuthResult i True u))) s = Some (if nonempty (ud_id u) then the (ud_id u) else OPEN)"
proof -
  obtain w where w: "js_get (ep_sockets e) s = Some w" using assms(2) by (auto simp: js_has_def)
  define e2 where "e2 = (on_socket s (\<lambda>w. (appendDataToSocketWrapper u w)\<lparr>ws_authCallback := False, ws_stage := SOpen\<rparr>)
      (on_socket s (\<lambda>w. w\<lparr>ws_timer := False\<rparr>) (e\<lparr>ep_requests := js_delete i (ep_requests e)\<rparr>)))
      \<lparr>ep_authenticated := set_add s (ep_authenticated e)\<rparr>"
  have "userId_of e2 s = Some (if nonempty (ud_id u) then the (ud_id u) else OPEN)"
    using w by (auto simp: e2_def userId_of_def on_socket_def upd_socket_def js_simps appendDataToSocketWrapper_def nonempty_def)
  moreover have "userId_of (fst (ep_step C e (EAuthResult i True u))) = userId_of e2"
    using assms(1) calm_send [of e2 C s]
    by (simp add: processAuthResult_def then_do_def registerAuthenticatedSocket_def Let_def e2_def calm_def on_socket_def
        upd_socket_def w js_simps)
  ultimately show ?thesis by simp
qed

lemma filter_remove_length:
  "distinct xs \<Longrightarrow> x \<in> set xs \<Longrightarrow>
    length (filter P (removeAll x xs)) = length (filter P xs) - (if P x then 1 else 0)"
proof (induction xs)
  case (Cons y ys)
  show ?case
  proof (cases "y = x")
    case True
    with Cons.prems show ?thesis by (simp add: removeAll_id)
  next
    case False
    with Cons.prems have x: "x \<in> set ys" "distinct ys" by simp_all
    have "P x \<Longrightarrow> 0 < length (filter P ys)" using x(1) by (auto simp: filter_empty_conv)
    with Cons.IH [OF x(2,1)] False show ?thesis by auto
  qed
qed simp

lemma login_step:
  assumes inv: "login_inv e c" and t: "timely e x"
  shows "login_inv (fst (ep_step C e x)) (foldl connections c (presence_inputs (snd (ep_step C e x))))"
proof (cases rule: ep_step_life [of e C x])
  case calm
  then show ?thesis using inv presence_inputs_life [of "snd (ep_step C e x)"]
    by (simp add: calm_def login_inv_def) (simp add: presence_inputs_def)
next
  case (login i u s)
  let ?e = "fst (ep_step C e x)"
  have s: "js_has (ep_sockets e) s" "\<not> closed_of e s" "s \<notin> set (ep_authenticated e)"
    using t login(1,2) by (simp_all add: timely_def)
  obtain v where v: "userId_of ?e s = Some v" using login_user [OF login(2) s(1), of C u] login(1) by simp
  have same: "userId_of ?e t = userId_of e t" if "t \<in> set (ep_authenticated e)" for t
    by (rule login(4)) (use that s(3) in auto)
  have "filter (\<lambda>t. userId_of ?e t = Some n) (ep_authenticated e) = filter (\<lambda>t. userId_of e t = Some n) (ep_authenticated e)" for n
    by (rule filter_cong) (simp_all add: same)
  moreover have "presence_inputs (snd (ep_step C e x)) = [UConnect v]"
    using presence_inputs_life [of "snd (ep_step C e x)"] login(6) v by (simp add: presence_inputs_def)
  moreover have "userId_of ?e t \<noteq> None" if "t \<in> set (ep_authenticated e)" for t
    using inv that same [OF that] by (simp add: login_inv_def)
  ultimately show ?thesis using inv s login(3,5) v
    by (auto simp: login_inv_def set_add_def)
next
  case (logout s)
  let ?e = "fst (ep_step C e x)"
  obtain v where v: "userId_of e s = Some v" using inv logout(2) by (auto simp: login_inv_def)
  have "presence_inputs (snd (ep_step C e x)) = [UDisconnect v]"
    using presence_inputs_life [of "snd (ep_step C e x)"] logout(6) v by (simp add: presence_inputs_def)
  moreover have "\<not> closed_of ?e t" if "t \<in> set (ep_authenticated e)" "t \<noteq> s" for t
    using inv that logout(5) by (simp add: login_inv_def)
  ultimately show ?thesis using inv logout(2-4) v filter_remove_length [of "ep_authenticated e" s]
    by (auto simp: login_inv_def distinct_removeAll)
qed

lemma login_run:
  assumes "login_inv e c" and "orderly C e xs"
  shows "login_inv (fst (run (ep_step C) e xs)) (foldl connections c (presence_inputs (snd (run (ep_step C) e xs))))"
  using assms
proof (induction xs arbitrary: e c)
  case Nil
  then show ?case by (simp add: presence_inputs_def)
next
  case (Cons x xs)
  have "login_inv (fst (ep_step C e x)) (foldl connections c (presence_inputs (snd (ep_step C e x))))"
    using Cons.prems by (intro login_step) simp_all
  then show ?case using Cons.IH Cons.prems(2) by (simp add: Let_def split_beta)
qed

text \<open>C14: when the authentication service answers each request while its socket is open and not logged in, a
  user is online exactly when an open socket is logged in under the name, after any history of
  connections, messages, failures, timers and closes.\<close>

theorem online_iff_logged_in:
  assumes "orderly C new_endpoint xs" and "u \<noteq> ''OPEN''"
  shows "let (e, es) = run (ep_step C) new_endpoint xs;
             p = fst (run presence_step (new_presence subs) (presence_inputs es)) in
    u \<in> set (ssr_getAll (connectedClients p)) \<longleftrightarrow>
    (\<exists>s \<in> set (ep_authenticated e). userId_of e s = Some u \<and> \<not> closed_of e s)"
proof -
  let ?r = "run (ep_step C) new_endpoint xs"
  let ?c = "foldl connections (\<lambda>_. 0) (presence_inputs (snd ?r))"
  have "login_inv new_endpoint (\<lambda>_. 0)" by (simp add: login_inv_def new_endpoint_def)
  then have l: "login_inv (fst ?r) ?c" using assms(1) by (rule login_run)
  have p: "presence_inv ?c (fst (run presence_step (new_presence subs) (presence_inputs (snd ?r))))"
    by (rule presence_run_inv [OF new_presence_inv])
  have "0 < ?c u \<longleftrightarrow> (\<exists>s \<in> set (ep_authenticated (fst ?r)). userId_of (fst ?r) s = Some u \<and> \<not> closed_of (fst ?r) s)"
    using l by (auto simp: login_inv_def filter_empty_conv)
  then show ?thesis using presence_online [OF p, of u] assms(2) by (simp add: split_beta Let_def)
qed

definition bob_login :: "ep_input list" where
  "bob_login = example_login @ [EAuthResult 0 True somebody, EConnect 2, EClose 2]"

theorem online_iff_logged_in_witness:
  "let (e, es) = run (ep_step example_config) new_endpoint bob_login;
       p = fst (run presence_step (new_presence (new_registry T_PRESENCE)) (presence_inputs es)) in
    ''bob'' \<in> set (ssr_getAll (connectedClients p)) \<longleftrightarrow>
    (\<exists>s \<in> set (ep_authenticated e). userId_of e s = Some ''bob'' \<and> \<not> closed_of e s)"
proof (rule online_iff_logged_in)
  show "orderly example_config new_endpoint bob_login" by code_simp
qed simp

section \<open>Results that come late or twice\<close>

definition connects :: "socket \<Rightarrow> ep_effect list \<Rightarrow> nat" where
  "connects s es = length (filter (\<lambda>x. case x of CConnected t u \<Rightarrow> t = s | _ \<Rightarrow> False) es)"

definition disconnects :: "socket \<Rightarrow> ep_effect list \<Rightarrow> nat" where
  "disconnects s es = length (filter (\<lambda>x. case x of CDisconnected t u \<Rightarrow> t = s | _ \<Rightarrow> False) es)"

lemma life_counts: "connects s (life es) = connects s es" "disconnects s (life es) = disconnects s es"
proof -
  have "connects s (life es) = connects s es \<and> disconnects s (life es) = disconnects s es"
  proof (induction es)
    case (Cons x es)
    then show ?case by (cases x) (simp_all add: connects_def disconnects_def)
  qed (simp add: connects_def disconnects_def)
  then show "connects s (life es) = connects s es" "disconnects s (life es) = disconnects s es" by simp_all
qed

lemma counts_append [simp]: "connects s (es @ fs) = connects s es + connects s fs"
  "disconnects s (es @ fs) = disconnects s es + disconnects s fs"
  by (simp_all add: connects_def disconnects_def)

lemma stays_logged_in:
  assumes "s \<in> set (ep_authenticated e)" and "x \<noteq> EClose s"
  shows "s \<in> set (ep_authenticated (fst (ep_step C e x))) \<and> disconnects s (snd (ep_step C e x)) = 0"
proof (cases rule: ep_step_life [of e C x])
  case calm
  then show ?thesis using assms(1) life_counts(2) [of s "snd (ep_step C e x)"] by (simp add: calm_def disconnects_def)
next
  case (login i u t)
  then show ?thesis using assms(1) life_counts(2) [of s "snd (ep_step C e x)"] by (simp add: disconnects_def js_simps)
next
  case (logout t)
  then show ?thesis using assms life_counts(2) [of s "snd (ep_step C e x)"] by (auto simp: disconnects_def)
qed

lemma stays_logged_in_run:
  assumes "s \<in> set (ep_authenticated e)" and "EClose s \<notin> set xs"
  shows "s \<in> set (ep_authenticated (fst (run (ep_step C) e xs))) \<and> disconnects s (snd (run (ep_step C) e xs)) = 0"
  using assms
proof (induction xs arbitrary: e)
  case (Cons x xs)
  then show ?case using stays_logged_in [of s e x C] by (auto simp: Let_def split_beta)
qed (simp add: disconnects_def)

text \<open>An answer that comes after the socket has closed registers the closed socket and announces it as
  connected; and as the close of a socket is reported once and already was, nothing that can still
  happen announces that it disconnected: the endpoint keeps it as authenticated for good.\<close>

theorem late_answer_leaks_login:
  assumes "js_get (ep_requests e) i = Some s" and "closed_of e s" and "EClose s \<notin> set xs"
  shows "let (e', es) = run (ep_step C) e (EAuthResult i True u # xs) in
    0 < connects s es \<and> disconnects s es = 0 \<and> s \<in> set (ep_authenticated e')"
proof -
  let ?x = "EAuthResult i True u"
  have c: "life (snd (ep_step C e ?x)) = [CConnected s (userId_of (fst (ep_step C e ?x)) s)] \<and>
      s \<in> set (ep_authenticated (fst (ep_step C e ?x)))"
  proof (cases rule: ep_step_life [of e C ?x])
    case calm
    moreover have "\<not> calm e (ep_step C e ?x)"
      using assms(1) by (auto simp: processAuthResult_def then_do_def registerAuthenticatedSocket_def Let_def calm_def)
    ultimately show ?thesis by simp
  next
    case (login j v t)
    then show ?thesis using assms(1) by (simp add: js_simps)
  qed simp
  then have "connects s (snd (ep_step C e ?x)) = 1" "disconnects s (snd (ep_step C e ?x)) = 0"
    using life_counts [of s "snd (ep_step C e ?x)"] by (simp_all add: connects_def disconnects_def)
  with c stays_logged_in_run [OF _ assms(3), of "fst (ep_step C e ?x)" C] show ?thesis by (simp add: Let_def split_beta del: ep_step.simps)
qed

theorem late_answer_leaks_login_witness:
  "let (e', es) = run (ep_step example_config) (fst (run (ep_step example_config) new_endpoint (example_login @ [EClose 1])))
        [EAuthResult 0 True somebody, EFlushTimer, EConnect 2] in
   0 < connects 1 es \<and> disconnects 1 es = 0 \<and> 1 \<in> set (ep_authenticated e')"
proof (rule late_answer_leaks_login)
  show "js_get (ep_requests (fst (run (ep_step example_config) new_endpoint (example_login @ [EClose 1])))) 0 = Some 1"
    by code_simp
  show "closed_of (fst (run (ep_step example_config) new_endpoint (example_login @ [EClose 1]))) 1" by code_simp
qed simp

text \<open>A client that sends two login requests before the first is answered is announced as connected twice
  and as disconnected once: after it has gone, the presence handler reports its user as online.\<close>

theorem two_requests_leave_ghost:
  assumes "js_get (ep_requests e) i = Some s" and "js_get (ep_requests e) j = Some s" and "i \<noteq> j"
    and "js_has (ep_sockets e) s" and "ud_id u = Some n" and "n \<noteq> ''''" and "n \<noteq> ''OPEN''"
  shows "let (e', es) = run (ep_step C) e [EAuthResult i True u, EAuthResult j True u, EClose s];
             p = fst (run presence_step (new_presence subs) (presence_inputs es)) in
    closed_of e' s \<and> s \<notin> set (ep_authenticated e') \<and> n \<in> set (ssr_getAll (connectedClients p))"
proof -
  have login: "presence_inputs (snd (ep_step C e (EAuthResult i True u))) = [UConnect n] \<and>
      js_has (ep_sockets (fst (ep_step C e (EAuthResult i True u)))) s \<and>
      s \<in> set (ep_authenticated (fst (ep_step C e (EAuthResult i True u)))) \<and>
      ep_requests (fst (ep_step C e (EAuthResult i True u))) = js_delete i (ep_requests e) \<and>
      userId_of (fst (ep_step C e (EAuthResult i True u))) s = Some n"
    if "js_get (ep_requests e) i = Some s" "js_has (ep_sockets e) s" for e i
  proof -
    let ?x = "EAuthResult i True u"
    have uid: "userId_of (fst (ep_step C e ?x)) s = Some n"
      using login_user [OF that, of C u] assms(5,6) by (simp add: nonempty_def)
    then have has: "js_has (ep_sockets (fst (ep_step C e ?x))) s" by (auto simp: userId_of_def js_has_def split: option.splits)
    have frame: "ep_requests (fst (sendBuiltMessage C s f b e')) = ep_requests e'" "ep_requests (on_socket s g e') = ep_requests e'"
      for f b e' g
      by (auto simp: sendBuiltMessage_def on_socket_def upd_socket_def scheduleFlush_def split: option.split prod.split)
    have req: "ep_requests (fst (ep_step C e ?x)) = js_delete i (ep_requests e)"
      using that(1) by (simp add: processAuthResult_def then_do_def registerAuthenticatedSocket_def Let_def frame)
    show ?thesis
    proof (cases rule: ep_step_life [of e C ?x])
      case calm
      moreover have "\<not> calm e (ep_step C e ?x)"
        using that(1) by (auto simp: processAuthResult_def then_do_def registerAuthenticatedSocket_def Let_def calm_def)
      ultimately show ?thesis by simp
    next
      case (login k v t)
      then have "t = s" using that(1) by simp
      then show ?thesis using login(3,6) uid has req presence_inputs_life [of "snd (ep_step C e ?x)"]
        by (simp add: js_simps presence_inputs_def del: ep_step.simps)
    qed simp
  qed
  define e1 where "e1 = fst (ep_step C e (EAuthResult i True u))"
  define e2 where "e2 = fst (ep_step C e1 (EAuthResult j True u))"
  note l1 = login [OF assms(1,4), folded e1_def]
  have "js_get (ep_requests e1) j = Some s" using l1 assms(2,3) by (simp add: js_simps)
  note l2 = login [OF this, folded e2_def]
  have sock: "js_has (ep_sockets e1) s" using l1 by simp
  have "ep_authenticated (on_socket s ws_close e') = ep_authenticated e'" "userId_of (on_socket s ws_close e') s = userId_of e' s" for e'
    by (auto simp: on_socket_def upd_socket_def userId_of_def js_simps ws_close_def split: option.split)
  moreover have "userId_of (e2\<lparr>ep_scheduled := r\<rparr>) s = userId_of e2 s" for r by (simp add: userId_of_def)
  ultimately have close: "snd (ep_step C e2 (EClose s)) = [CAuthDisconnect (Some n), CDisconnected s (Some n)]"
    "ep_authenticated (fst (ep_step C e2 (EClose s))) = set_delete s (ep_authenticated e2)"
    using l2 [OF sock] by (simp_all add: endpoint_onSocketClose_def Let_def)
  have gone: "closed_of (fst (ep_step C e2 (EClose s))) s"
    using l2 [OF sock] by (auto simp: endpoint_onSocketClose_def Let_def closed_of_def on_socket_def upd_socket_def js_simps ws_close_def js_has_def)
  have "presence_inv (foldl connections (\<lambda>_. 0) [UConnect n, UConnect n, UDisconnect n])
      (fst (run presence_step (new_presence subs) [UConnect n, UConnect n, UDisconnect n]))"
    by (rule presence_run_inv [OF new_presence_inv])
  from presence_online [OF this, of n] assms(7)
  have "n \<in> set (ssr_getAll (connectedClients (fst (run presence_step (new_presence subs) [UConnect n, UConnect n, UDisconnect n]))))"
    by simp
  then show ?thesis
    using l1 l2 [OF sock] close gone
    by (simp add: Let_def split_beta e1_def [symmetric] e2_def [symmetric] del: ep_step.simps presence_step.simps)
      (simp add: presence_inputs_def)
qed

definition double_login :: "ep_input list" where
  "double_login = example_login @ [EMessages 1 [Some ((cmsg T_AUTH (AuthA AA_REQUEST))\<lparr>m_parsed := Some (JObj [])\<rparr>)]]"

theorem two_requests_leave_ghost_witness:
  "let (e', es) = run (ep_step example_config) (fst (run (ep_step example_config) new_endpoint double_login))
         [EAuthResult 0 True somebody, EAuthResult 1 True somebody, EClose 1];
       p = fst (run presence_step (new_presence (new_registry T_PRESENCE)) (presence_inputs es)) in
   closed_of e' 1 \<and> 1 \<notin> set (ep_authenticated e') \<and> ''bob'' \<in> set (ssr_getAll (connectedClients p))"
proof (rule two_requests_leave_ghost)
  show "js_get (ep_requests (fst (run (ep_step example_config) new_endpoint double_login))) 0 = Some 1" by code_simp
  show "js_get (ep_requests (fst (run (ep_step example_config) new_endpoint double_login))) 1 = Some 1" by code_simp
  show "js_has (ep_sockets (fst (run (ep_step example_config) new_endpoint double_login))) 1" by code_simp
qed (simp_all add: somebody_def)

end
