(* ===== verification/Json.thy ===== *)
theory Json
  imports Messages
begin

text \<open>
  \<open>JSON.stringify\<close> and \<open>JSON.parse\<close> as the protocols use them. The numbers of the model are the integers:
  they are printed in decimal, and a number literal that is not a plain integer is read by the function
  \<open>fl\<close>, a parameter. Characters are the 256 of HOL. The parser descends with fuel; twice the length of
  the text and one is always enough (\<open>parse_fuel\<close>).
\<close>

section \<open>Decimal numerals\<close>

definition digit :: "nat \<Rightarrow> char" where
  "digit d = char_of (48 + d)"

definition is_digit :: "char \<Rightarrow> bool" where
  "is_digit c \<longleftrightarrow> 48 \<le> (of_char c :: nat) \<and> (of_char c :: nat) \<le> 57"

fun nat_str :: "nat \<Rightarrow> string" where
  "nat_str n = (if n < 10 then [digit n] else nat_str (n div 10) @ [digit (n mod 10)])"

declare nat_str.simps [simp del]

definition int_str :: "int \<Rightarrow> string" where
  "int_str i = (if i < 0 then CHR ''-'' # nat_str (nat (- i)) else nat_str (nat i))"

definition digits_val :: "string \<Rightarrow> nat" where
  "digits_val ds = foldl (\<lambda>a c. 10 * a + (of_char c - 48)) 0 ds"

definition nat_lit :: "string \<Rightarrow> bool" where
  "nat_lit ds \<longleftrightarrow> ds \<noteq> [] \<and> list_all is_digit ds \<and> (hd ds = CHR ''0'' \<longrightarrow> length ds = 1)"

definition int_lit :: "string \<Rightarrow> int option" where
  "int_lit t = (case t of
       [] \<Rightarrow> None
     | c # ds \<Rightarrow> if c = CHR ''-'' then if nat_lit ds then Some (- int (digits_val ds)) else None
                else if nat_lit t then Some (int (digits_val t)) else None)"

lemma digit_facts: "d < 10 \<Longrightarrow> is_digit (digit d) \<and> (of_char (digit d) - 48 :: nat) = d \<and> (digit d = CHR ''0'' \<longleftrightarrow> d = 0)"
proof -
  assume d: "d < 10"
  then have v: "(of_char (digit d) :: nat) = 48 + d" by (simp add: digit_def)
  have "digit d = CHR ''0'' \<longleftrightarrow> (of_char (digit d) :: nat) = of_char (CHR ''0'')" by (simp only: of_char_eq_iff)
  then show ?thesis using d v by (simp add: is_digit_def)
qed

lemma nat_str_facts: "nat_str n \<noteq> [] \<and> list_all is_digit (nat_str n) \<and> digits_val (nat_str n) = n \<and>
    (hd (nat_str n) = CHR ''0'' \<longleftrightarrow> n = 0)"
proof (induction n rule: nat_str.induct)
  case (1 n)
  show ?case
  proof (cases "n < 10")
    case True
    then show ?thesis using digit_facts [of n] by (simp add: nat_str.simps [of n] digits_val_def)
  next
    case False
    then have ih: "nat_str (n div 10) \<noteq> [] \<and> list_all is_digit (nat_str (n div 10)) \<and>
        digits_val (nat_str (n div 10)) = n div 10 \<and> (hd (nat_str (n div 10)) = CHR ''0'' \<longleftrightarrow> n div 10 = 0)"
      using 1 by simp
    have "nat_str n = nat_str (n div 10) @ [digit (n mod 10)]" using False nat_str.simps [of n] by simp
    moreover have "n div 10 \<noteq> 0" using False by simp
    ultimately show ?thesis using ih digit_facts [of "n mod 10"]
      by (simp add: digits_val_def)
  qed
qed

lemma nat_lit_str: "nat_lit (nat_str n)"
proof -
  have "length (nat_str 0) = 1" by (simp add: nat_str.simps)
  then show ?thesis using nat_str_facts [of n] by (auto simp: nat_lit_def)
qed

lemma minus_not_digit: "\<not> is_digit CHR ''-''" by (simp add: is_digit_def)

lemma int_lit_str: "int_lit (int_str i) = Some i"
proof (cases "i < 0")
  case True
  then show ?thesis using nat_lit_str [of "nat (- i)"] nat_str_facts [of "nat (- i)"] by (simp add: int_lit_def int_str_def)
next
  case False
  obtain c ds where s: "nat_str (nat i) = c # ds" using nat_str_facts [of "nat i"] by (cases "nat_str (nat i)") auto
  then have "c \<noteq> CHR ''-''" using nat_str_facts [of "nat i"] minus_not_digit by auto
  then show ?thesis using False nat_lit_str [of "nat i"] nat_str_facts [of "nat i"] s by (simp add: int_lit_def int_str_def)
qed

section \<open>Strings\<close>

definition hex_digit :: "nat \<Rightarrow> char" where
  "hex_digit d = (if d < 10 then digit d else char_of (87 + d))"

fun escape :: "char \<Rightarrow> string" where
  "escape c =
     (if c = CHR 0x22 then [CHR 0x5C, CHR 0x22]
      else if c = CHR 0x5C then [CHR 0x5C, CHR 0x5C]
      else if c = CHR 0x08 then [CHR 0x5C, CHR ''b'']
      else if c = CHR 0x0C then [CHR 0x5C, CHR ''f'']
      else if c = CHR 0x0A then [CHR 0x5C, CHR ''n'']
      else if c = CHR 0x0D then [CHR 0x5C, CHR ''r'']
      else if c = CHR 0x09 then [CHR 0x5C, CHR ''t'']
      else if (of_char c :: nat) < 32
      then [CHR 0x5C, CHR ''u'', CHR ''0'', CHR ''0'', hex_digit (of_char c div 16), hex_digit (of_char c mod 16)]
      else [c])"

definition quote :: "string \<Rightarrow> string" where
  "quote s = CHR 0x22 # concat (map escape s) @ [CHR 0x22]"

definition hex_val :: "char \<Rightarrow> nat option" where
  "hex_val c = (let n = of_char c in
     if 48 \<le> n \<and> n \<le> 57 then Some (n - 48) else if 97 \<le> n \<and> n \<le> 102 then Some (n - 87)
     else if 65 \<le> n \<and> n \<le> 70 then Some (n - 55) else None)"

definition hex4 :: "char \<Rightarrow> char \<Rightarrow> char \<Rightarrow> char \<Rightarrow> char option" where
  "hex4 a b c d = (case (hex_val a, hex_val b, hex_val c, hex_val d) of
       (Some i, Some j, Some k, Some l) \<Rightarrow>
         let n = 4096 * i + 256 * j + 16 * k + l in if n < 256 then Some (char_of n) else None
     | _ \<Rightarrow> None)"

definition simple_escape :: "char \<Rightarrow> char option" where
  "simple_escape c = map_of [(CHR 0x22, CHR 0x22), (CHR 0x5C, CHR 0x5C), (CHR ''/'', CHR ''/''), (CHR ''b'', CHR 0x08),
     (CHR ''f'', CHR 0x0C), (CHR ''n'', CHR 0x0A), (CHR ''r'', CHR 0x0D), (CHR ''t'', CHR 0x09)] c"

text \<open>The rest of a string literal after its opening quote.\<close>

fun parse_str :: "string \<Rightarrow> (string \<times> string) option" where
  "parse_str [] = None"
| "parse_str (c # cs) =
     (if c = CHR 0x22 then Some ([], cs)
      else if c = CHR 0x5C
      then (case cs of
              e # ds \<Rightarrow>
                (if e = CHR ''u''
                 then (case ds of
                         p # q # r # s # rest \<Rightarrow>
                           (case hex4 p q r s of
                              None \<Rightarrow> None
                            | Some x \<Rightarrow> map_option (\<lambda>(t, u). (x # t, u)) (parse_str rest))
                       | _ \<Rightarrow> None)
                 else case simple_escape e of
                        None \<Rightarrow> None
                      | Some x \<Rightarrow> map_option (\<lambda>(t, u). (x # t, u)) (parse_str ds))
            | [] \<Rightarrow> None)
      else if (of_char c :: nat) < 32 then None
      else map_option (\<lambda>(t, u). (c # t, u)) (parse_str cs))"

lemma hex_val_digit: "d < 16 \<Longrightarrow> hex_val (hex_digit d) = Some d"
  by (auto simp: hex_val_def hex_digit_def digit_def Let_def)

lemma hex4_escape: "(of_char c :: nat) < 32 \<Longrightarrow>
    hex4 (CHR ''0'') (CHR ''0'') (hex_digit (of_char c div 16)) (hex_digit (of_char c mod 16)) = Some c"
proof -
  assume c: "(of_char c :: nat) < 32"
  have "hex_val (CHR ''0'') = Some 0" by (simp add: hex_val_def)
  moreover have "hex_val (hex_digit (of_char c div 16)) = Some (of_char c div 16)"
    "hex_val (hex_digit (of_char c mod 16)) = Some (of_char c mod 16)"
    using c by (simp_all add: hex_val_digit)
  ultimately show ?thesis using c by (simp add: hex4_def Let_def)
qed

lemma parse_str_escape: "parse_str (escape c @ r) = map_option (\<lambda>(t, u). (c # t, u)) (parse_str r)"
proof -
  have printable: "\<not> (of_char (CHR 0x22) :: nat) < 32" by simp
  show ?thesis using hex4_escape [of c] by (auto simp: simple_escape_def)
qed

lemma parse_str_quote: "parse_str (concat (map escape s) @ CHR 0x22 # r) = Some (s, r)"
  by (induction s) (simp_all del: escape.simps add: parse_str_escape)

section \<open>Values\<close>

fun stringify :: "json \<Rightarrow> string" and str_elems :: "(string \<times> json) list \<Rightarrow> string"
  and str_members :: "(string \<times> json) list \<Rightarrow> string" where
  "stringify JNull = ''null''"
| "stringify (JBool b) = (if b then ''true'' else ''false'')"
| "stringify (JNum i) = int_str i"
| "stringify (JStr s) = quote s"
| "stringify (JArr kvs) = CHR ''['' # str_elems kvs @ '']''"
| "stringify (JObj kvs) = CHR ''{'' # str_members kvs @ ''}''"
| "str_elems [] = []"
| "str_elems [(k, v)] = stringify v"
| "str_elems ((k, v) # x # xs) = stringify v @ '','' @ str_elems (x # xs)"
| "str_members [] = []"
| "str_members [(k, v)] = quote k @ '':'' @ stringify v"
| "str_members ((k, v) # x # xs) = quote k @ '':'' @ stringify v @ '','' @ str_members (x # xs)"

definition is_ws :: "char \<Rightarrow> bool" where
  "is_ws c \<longleftrightarrow> c \<in> {CHR 0x20, CHR 0x09, CHR 0x0A, CHR 0x0D}"

definition skip_ws :: "string \<Rightarrow> string" where
  "skip_ws s = dropWhile is_ws s"

definition is_num_char :: "char \<Rightarrow> bool" where
  "is_num_char c \<longleftrightarrow> is_digit c \<or> c \<in> {CHR ''-'', CHR ''+'', CHR ''.'', CHR ''e'', CHR ''E''}"

definition indexed :: "json list \<Rightarrow> (string \<times> json) list" where
  "indexed vs = zip (map nat_str [0..<length vs]) vs"

definition obj_of :: "(string \<times> json) list \<Rightarrow> (string \<times> json) list" where
  "obj_of kvs = foldl (\<lambda>m (k, v). js_set k v m) [] kvs"

definition literals :: "(string \<times> json) list" where
  "literals = [(''null'', JNull), (''true'', JBool True), (''false'', JBool False)]"

fun take_literal :: "(string \<times> json) list \<Rightarrow> string \<Rightarrow> (json \<times> string) option" where
  "take_literal [] s = None"
| "take_literal ((w, v) # ls) s = (if take (length w) s = w then Some (v, drop (length w) s) else take_literal ls s)"

fun parse_value :: "(string \<Rightarrow> json option) \<Rightarrow> nat \<Rightarrow> string \<Rightarrow> (json \<times> string) option"
  and parse_elems :: "(string \<Rightarrow> json option) \<Rightarrow> nat \<Rightarrow> string \<Rightarrow> (json list \<times> string) option"
  and parse_members :: "(string \<Rightarrow> json option) \<Rightarrow> nat \<Rightarrow> string \<Rightarrow> ((string \<times> json) list \<times> string) option" where
  "parse_value fl 0 s = None"
| "parse_value fl (Suc n) s =
     (case skip_ws s of
        [] \<Rightarrow> None
      | c # cs \<Rightarrow>
          if c = CHR 0x22 then map_option (\<lambda>(t, r). (JStr t, r)) (parse_str cs)
          else if c = CHR ''['' then
            (case skip_ws cs of
               [] \<Rightarrow> None
             | d # r \<Rightarrow> if d = CHR '']'' then Some (JArr [], r)
                 else map_option (\<lambda>(vs, r). (JArr (indexed vs), r)) (parse_elems fl n cs))
          else if c = CHR ''{'' then
            (case skip_ws cs of
               [] \<Rightarrow> None
             | d # r \<Rightarrow> if d = CHR ''}'' then Some (JObj [], r)
                 else map_option (\<lambda>(kvs, r). (JObj (obj_of kvs), r)) (parse_members fl n cs))
          else if is_num_char c then
            (let t = takeWhile is_num_char (c # cs); r = dropWhile is_num_char (c # cs)
             in case int_lit t of
                  Some i \<Rightarrow> Some (JNum i, r)
                | None \<Rightarrow> map_option (\<lambda>v. (v, r)) (fl t))
          else take_literal literals (c # cs))"
| "parse_elems fl 0 s = None"
| "parse_elems fl (Suc n) s =
     (case parse_value fl n s of
        None \<Rightarrow> None
      | Some (v, r) \<Rightarrow>
          (case skip_ws r of
             [] \<Rightarrow> None
           | d # r \<Rightarrow> if d = CHR '','' then map_option (\<lambda>(vs, r). (v # vs, r)) (parse_elems fl n r)
               else if d = CHR '']'' then Some ([v], r) else None))"
| "parse_members fl 0 s = None"
| "parse_members fl (Suc n) s =
     (case skip_ws s of
        [] \<Rightarrow> None
      | q # cs \<Rightarrow>
          if q \<noteq> CHR 0x22 then None
          else case parse_str cs of
            None \<Rightarrow> None
          | Some (k, r) \<Rightarrow>
              (case skip_ws r of
                 [] \<Rightarrow> None
               | d # r \<Rightarrow>
                   if d \<noteq> CHR '':'' then None
                   else case parse_value fl n r of
                     None \<Rightarrow> None
                   | Some (v, r) \<Rightarrow>
                       (case skip_ws r of
                          [] \<Rightarrow> None
                        | d # r \<Rightarrow> if d = CHR '','' then map_option (\<lambda>(kvs, r). ((k, v) # kvs, r)) (parse_members fl n r)
                            else if d = CHR ''}'' then Some ([(k, v)], r) else None)))"

definition JSON_parse :: "(string \<Rightarrow> json option) \<Rightarrow> string \<Rightarrow> json option" where
  "JSON_parse fl s =
     (case parse_value fl (2 * length s + 1) s of
        None \<Rightarrow> None
      | Some (v, r) \<Rightarrow> if skip_ws r = [] then Some v else None)"

section \<open>Round trip\<close>

fun json_ok :: "json \<Rightarrow> bool" and vals_ok :: "(string \<times> json) list \<Rightarrow> bool" where
  "json_ok (JArr kvs) = (map fst kvs = map nat_str [0..<length kvs] \<and> vals_ok kvs)"
| "json_ok (JObj kvs) = (distinct (map fst kvs) \<and> vals_ok kvs)"
| "json_ok _ = True"
| "vals_ok [] = True"
| "vals_ok ((k, v) # xs) = (json_ok v \<and> vals_ok xs)"

definition safe :: "string \<Rightarrow> bool" where
  "safe r \<longleftrightarrow> r = [] \<or> \<not> is_num_char (hd r)"

lemma safe_simps [simp]: "safe []" "safe (CHR '','' # r)" "safe (CHR '']'' # r)" "safe (CHR ''}'' # r)"
  by (simp_all add: safe_def is_num_char_def is_digit_def)

lemma skip_ws_first [simp]: "\<not> is_ws c \<Longrightarrow> skip_ws (c # s) = c # s"
  by (simp add: skip_ws_def)

lemma not_ws [simp]: "\<not> is_ws (CHR '','')" "\<not> is_ws (CHR '']'')" "\<not> is_ws (CHR ''}'')" "\<not> is_ws (CHR ''['')"
  "\<not> is_ws (CHR ''{'')" "\<not> is_ws (CHR 0x22)" "\<not> is_ws (CHR '':'')" "\<not> is_ws (CHR ''n'')" "\<not> is_ws (CHR ''t'')"
  "\<not> is_ws (CHR ''f'')"
  by (simp_all add: is_ws_def)

lemma num_char_facts: "is_num_char c \<Longrightarrow> \<not> is_ws c \<and> c \<noteq> CHR 0x22 \<and> c \<noteq> CHR ''['' \<and> c \<noteq> CHR ''{''
    \<and> c \<noteq> CHR '']'' \<and> c \<noteq> CHR ''}''"
  by (auto simp: is_num_char_def is_digit_def is_ws_def)

lemma int_str_chars: "int_str i \<noteq> []" "list_all is_num_char (int_str i)"
  using nat_str_facts [of "nat i"] nat_str_facts [of "nat (- i)"]
  by (auto simp: int_str_def is_num_char_def list_all_iff)

lemma parse_number: "safe r \<Longrightarrow> parse_value fl (Suc n) (int_str i @ r) = Some (JNum i, r)"
proof -
  assume r: "safe r"
  obtain c cs where s: "int_str i = c # cs" using int_str_chars(1) [of i] by (cases "int_str i") auto
  have all: "\<forall>x \<in> set (c # cs). is_num_char x" using int_str_chars(2) [of i] s by (simp add: list_all_iff)
  have "takeWhile is_num_char (c # cs @ r) = c # cs" "dropWhile is_num_char (c # cs @ r) = r"
    using all r takeWhile_append2 [of "c # cs" is_num_char r] dropWhile_append2 [of "c # cs" is_num_char r]
    by (auto simp: safe_def takeWhile_eq_Nil_iff) (cases r; simp)+
  moreover have "int_lit (c # cs) = Some i" using int_lit_str [of i] s by simp
  moreover have "is_num_char c" using all by simp
  ultimately show ?thesis using num_char_facts [of c] by (simp add: s Let_def)
qed

lemma parse_quote: "parse_value fl (Suc n) (quote s @ r) = Some (JStr s, r)"
  by (simp add: quote_def parse_str_quote)

text \<open>The text of a value starts with neither white space nor a closing bracket.\<close>

lemma stringify_first: "\<exists>c cs. stringify v = c # cs \<and> \<not> is_ws c \<and> c \<noteq> CHR '']''"
proof (cases v)
  case (JNum i)
  obtain c cs where s: "int_str i = c # cs" using int_str_chars(1) [of i] by (cases "int_str i") auto
  then have "is_num_char c" using int_str_chars(2) [of i] by simp
  then show ?thesis using JNum s num_char_facts [of c] by auto
qed (auto simp: quote_def)

lemma elems_first: "kvs \<noteq> [] \<Longrightarrow> \<exists>c cs. str_elems kvs = c # cs \<and> \<not> is_ws c \<and> c \<noteq> CHR '']''"
proof -
  assume "kvs \<noteq> []"
  then obtain k v xs where k: "kvs = (k, v) # xs" by (cases kvs) auto
  show ?thesis using k stringify_first [of v] by (cases xs) auto
qed

lemma members_first: "kvs \<noteq> [] \<Longrightarrow> \<exists>cs. str_members kvs = CHR 0x22 # cs"
  by (cases kvs; cases "tl kvs") (auto simp: quote_def)

lemma obj_of_distinct: "distinct (map fst kvs) \<Longrightarrow> obj_of kvs = kvs"
proof -
  have "distinct (map fst (m @ kvs)) \<Longrightarrow> foldl (\<lambda>m (k, v). js_set k v m) m kvs = m @ kvs" for m
  proof (induction kvs arbitrary: m)
    case (Cons kv kvs)
    obtain k v where kv: "kv = (k, v)" by (cases kv)
    have "js_get m k = None" using Cons.prems kv by (auto simp: map_of_eq_None_iff)
    then show ?case using Cons.IH [of "m @ [(k, v)]"] Cons.prems kv by (simp add: js_set_absent)
  qed simp
  from this [of "[]"] show "distinct (map fst kvs) \<Longrightarrow> obj_of kvs = kvs" by (simp add: obj_of_def)
qed

lemma indexed_vals: "map fst kvs = map nat_str [0..<length kvs] \<Longrightarrow> indexed (map snd kvs) = kvs"
  by (simp add: indexed_def zip_map_fst_snd flip: ) (metis length_map zip_map_fst_snd)

lemma stringify_length: "0 < length (stringify v)"
  using stringify_first [of v] by auto

lemma parse_stringify:
  "json_ok v \<Longrightarrow> safe r \<Longrightarrow> length (stringify v) \<le> n \<Longrightarrow> parse_value fl n (stringify v @ r) = Some (v, r)"
  "vals_ok kvs \<Longrightarrow> kvs \<noteq> [] \<Longrightarrow> length (str_elems kvs) < n \<Longrightarrow>
    parse_elems fl n (str_elems kvs @ CHR '']'' # r) = Some (map snd kvs, r)"
  "vals_ok mvs \<Longrightarrow> mvs \<noteq> [] \<Longrightarrow> length (str_members mvs) < n \<Longrightarrow>
    parse_members fl n (str_members mvs @ CHR ''}'' # r) = Some (mvs, r)"
proof (induction v and kvs and mvs arbitrary: n r and n r and n r rule: stringify_str_elems_str_members.induct)
  case 1
  then obtain m where "n = Suc m" by (cases n) auto
  then show ?case by (simp add: is_num_char_def is_digit_def literals_def)
next
  case (2 b)
  then obtain m where "n = Suc m" by (cases n) (auto split: if_splits)
  then show ?case by (simp add: is_num_char_def is_digit_def literals_def)
next
  case (3 i)
  then obtain m where "n = Suc m" using int_str_chars(1) [of i] by (cases n) auto
  then show ?case using 3 by (simp add: parse_number del: parse_value.simps)
next
  case (4 s)
  then obtain m where "n = Suc m" by (cases n) (auto simp: quote_def)
  then show ?case by (simp add: parse_quote del: parse_value.simps)
next
  case (5 kvs)
  then obtain m where n: "n = Suc m" by (cases n) auto
  show ?case
  proof (cases "kvs = []")
    case False
    obtain c cs where c: "str_elems kvs = c # cs" "\<not> is_ws c" "c \<noteq> CHR '']''" using elems_first [OF False] by blast
    have "parse_elems fl m (str_elems kvs @ CHR '']'' # r) = Some (map snd kvs, r)"
      using 5 n False by (intro "5.IH") simp_all
    then show ?thesis using 5(2) n c indexed_vals [of kvs] by simp
  qed (simp add: n)
next
  case (6 kvs)
  then obtain m where n: "n = Suc m" by (cases n) auto
  show ?case
  proof (cases "kvs = []")
    case False
    obtain cs where c: "str_members kvs = CHR 0x22 # cs" using members_first [OF False] by blast
    have "parse_members fl m (str_members kvs @ CHR ''}'' # r) = Some (kvs, r)"
      using 6 n False by (intro "6.IH") simp_all
    then show ?thesis using 6(2) n c obj_of_distinct [of kvs] by simp
  qed (simp add: n)
next
  case (8 k v)
  then obtain m where n: "n = Suc m" by (cases n) auto
  have "parse_value fl m (stringify v @ CHR '']'' # r) = Some (v, CHR '']'' # r)"
    using 8 n by (intro "8.IH") simp_all
  then show ?case by (simp add: n)
next
  case (9 k v x xs)
  then obtain m where n: "n = Suc m" by (cases n) auto
  have "parse_value fl m (stringify v @ CHR '','' # str_elems (x # xs) @ CHR '']'' # r) =
      Some (v, CHR '','' # str_elems (x # xs) @ CHR '']'' # r)"
    using 9(3,5) n by (intro "9.IH") simp_all
  moreover have "parse_elems fl m (str_elems (x # xs) @ CHR '']'' # r) = Some (map snd (x # xs), r)"
    using 9(3,5) n stringify_length [of v] by (intro "9.IH") simp_all
  ultimately show ?case by (simp add: n)
next
  case (11 k v)
  then obtain m where n: "n = Suc m" by (cases n) auto
  have "parse_value fl m (stringify v @ CHR ''}'' # r) = Some (v, CHR ''}'' # r)"
    using 11 n by (intro "11.IH") (simp_all add: quote_def)
  then show ?case by (simp add: n quote_def parse_str_quote)
next
  case (12 k v x xs)
  then obtain m where n: "n = Suc m" by (cases n) auto
  have "parse_value fl m (stringify v @ CHR '','' # str_members (x # xs) @ CHR ''}'' # r) =
      Some (v, CHR '','' # str_members (x # xs) @ CHR ''}'' # r)"
    using 12(3,5) n by (intro "12.IH") (simp_all add: quote_def)
  moreover have "parse_members fl m (str_members (x # xs) @ CHR ''}'' # r) = Some (x # xs, r)"
    using 12(3,5) n by (intro "12.IH") (simp_all add: quote_def)
  ultimately show ?case by (simp add: n quote_def parse_str_quote)
qed simp_all

lemma parse_after_stringify_lemma: "json_ok v \<Longrightarrow> JSON_parse fl (stringify v) = Some v"
  using parse_stringify(1) [OF _ safe_simps(1), of v "2 * length (stringify v) + 1" fl]
  by (simp add: JSON_parse_def skip_ws_def)

text \<open>Every value that is printed with \<open>JSON.stringify\<close> is read back by \<open>JSON.parse\<close>, whatever the strings in it
  contain: quotes, backslashes and control characters included.\<close>

theorem parse_after_stringify:
  assumes "json_ok v"
  shows "JSON_parse fl (stringify v) = Some v"
  using assms by (rule parse_after_stringify_lemma)

theorem parse_after_stringify_witness:
  "JSON_parse (\<lambda>_. None) (stringify (JObj [(''a'', JArr [(''0'', JNum (- 12)), (''1'', JStr [CHR 0x22, CHR 0x1E])]), (''b'', JNull)])) =
    Some (JObj [(''a'', JArr [(''0'', JNum (- 12)), (''1'', JStr [CHR 0x22, CHR 0x1E])]), (''b'', JNull)])"
proof (rule parse_after_stringify)
  show "json_ok (JObj [(''a'', JArr [(''0'', JNum (- 12)), (''1'', JStr [CHR 0x22, CHR 0x1E])]), (''b'', JNull)])"
    by code_simp
qed

section \<open>No control characters\<close>

definition printable :: "char \<Rightarrow> bool" where
  "printable c \<longleftrightarrow> 32 \<le> (of_char c :: nat)"

lemma digit_printable: "is_digit c \<Longrightarrow> printable c"
  by (simp add: is_digit_def printable_def)

lemma hex_printable: "d < 16 \<Longrightarrow> printable (hex_digit d)"
  by (auto simp: hex_digit_def digit_def printable_def)

lemma escape_printable: "list_all printable (escape c)"
proof -
  have "printable (hex_digit (of_char c mod 16))" "(of_char c :: nat) < 32 \<Longrightarrow> printable (hex_digit (of_char c div 16))"
    by (simp_all add: hex_printable)
  then show ?thesis by (simp add: printable_def not_less)
qed

lemma quote_printable: "list_all printable (quote s)"
proof -
  have "list_all printable (concat (map escape s))"
    by (induction s) (simp_all add: escape_printable list_all_append del: escape.simps)
  then show ?thesis by (simp add: quote_def printable_def)
qed

lemma int_str_printable: "list_all printable (int_str i)"
proof -
  have "list_all printable (nat_str n)" for n
    using nat_str_facts [of n] digit_printable by (auto simp: list_all_iff)
  then show ?thesis by (simp add: int_str_def) (simp add: printable_def)
qed

lemma stringify_printable_all:
  "list_all printable (stringify v)" "list_all printable (str_elems kvs)" "list_all printable (str_members mvs)"
proof (induction v and kvs and mvs rule: stringify_str_elems_str_members.induct)
  case (3 i)
  then show ?case by (simp add: int_str_printable)
qed (simp_all add: quote_printable list_all_append, simp_all add: printable_def)

text \<open>The text of a value holds no control character, so none of the separators of the text protocol.\<close>

lemma stringify_printable: "(of_char c :: nat) < 32 \<Longrightarrow> c \<notin> set (stringify v)"
  using stringify_printable_all(1) [of v] by (auto simp: list_all_iff printable_def)

section \<open>The fuel\<close>

lemma skip_ws_length: "length (skip_ws s) \<le> length s"
  by (simp add: skip_ws_def length_dropWhile_le)

lemma parse_str_length: "parse_str s = Some (t, r) \<Longrightarrow> length r < length s"
proof (induction s arbitrary: t r rule: parse_str.induct)
  case (2 c cs)
  consider "c = CHR 0x22" | "c = CHR 0x5C" | "c \<noteq> CHR 0x22" "c \<noteq> CHR 0x5C" by blast
  then show ?case
  proof cases
    case 2
    show ?thesis
    proof (cases "cs = [] \<or> hd cs = CHR ''u''")
      case True
      with 2 "2.prems" obtain p q x y rest ch t' where
        *: "cs = CHR ''u'' # p # q # x # y # rest" "hex4 p q x y = Some ch" "parse_str rest = Some (t', r)"
        by (auto split: list.splits option.splits)
      have "length r < length rest" by (rule "2.IH"(1) [OF _ 2 *(1) _ _ _ _ _ *(2,3)]) (simp_all add: 2)
      then show ?thesis using * by simp
    next
      case False
      with 2 "2.prems" obtain e ds ch t' where
        *: "cs = e # ds" "e \<noteq> CHR ''u''" "simple_escape e = Some ch" "parse_str ds = Some (t', r)"
        by (auto split: list.splits option.splits)
      have "length r < length ds" by (rule "2.IH"(2) [OF _ 2 *(1,2,3,4)]) (simp add: 2)
      then show ?thesis using * by simp
    qed
  next
    case 3
    then have s: "\<not> (of_char c :: nat) < 32" using "2.prems" by (auto split: if_splits)
    with 3 "2.prems" obtain t' where "parse_str cs = Some (t', r)" by auto
    then have "length r < length cs" by (rule "2.IH"(3) [OF 3 s])
    then show ?thesis by simp
  qed (use "2.prems" in auto)
qed simp

lemma take_literal_length: "take_literal ls s = Some (v, r) \<Longrightarrow> \<forall>(w, v) \<in> set ls. w \<noteq> [] \<Longrightarrow> s \<noteq> [] \<Longrightarrow> length r < length s"
  by (induction ls s rule: take_literal.induct) (auto split: if_splits)

lemma rest_lengths:
  "parse_value fl n s = Some (v, r) \<Longrightarrow> length r < length s"
  "parse_elems fl n s = Some (vs, r) \<Longrightarrow> length r < length s"
  "parse_members fl n s = Some (kvs, r) \<Longrightarrow> length r < length s"
proof (induction fl n s and fl n s and fl n s arbitrary: v r and vs r and kvs r
    rule: parse_value_parse_elems_parse_members.induct)
  case (2 fl n s)
  obtain c cs where c: "skip_ws s = c # cs" using "2.prems" by (cases "skip_ws s") auto
  have l: "Suc (length cs) \<le> length s" using skip_ws_length [of s] c by simp
  have l2: "length (skip_ws cs) \<le> length cs" by (rule skip_ws_length)
  consider "c = CHR 0x22" | "c = CHR ''[''" | "c = CHR ''{''" | "is_num_char c"
    | "c \<noteq> CHR 0x22" "c \<noteq> CHR ''[''" "c \<noteq> CHR ''{''" "\<not> is_num_char c" by blast
  then show ?case
  proof cases
    case 1
    then show ?thesis using "2.prems" c l parse_str_length [of cs] by (auto dest: less_imp_le_nat)
  next
    case 2
    then show ?thesis using "2.prems" c l l2 "2.IH"(1) [OF c _ 2] by (auto split: list.splits if_splits) fastforce+
  next
    case 3
    then show ?thesis using "2.prems" c l l2 "2.IH"(2) [OF c _ _ 3] by (auto split: list.splits if_splits) fastforce+
  next
    case 4
    have "length (dropWhile is_num_char (c # cs)) \<le> length cs" using 4 by (simp add: length_dropWhile_le)
    then show ?thesis using "2.prems" c l 4 num_char_facts [OF 4] by (auto simp: Let_def split: option.splits)
  next
    case 5
    then have "take_literal literals (c # cs) = Some (v, r)" using "2.prems" c by simp
    then have "length r < length (c # cs)" by (rule take_literal_length) (simp_all add: literals_def)
    then show ?thesis using l by simp
  qed
next
  case (4 fl n s)
  then obtain v r1 d r2 where p: "parse_value fl n s = Some (v, r1)" "skip_ws r1 = d # r2"
    by (auto split: option.splits list.splits)
  then have "length r1 < length s" "length r2 < length r1"
    using "4.IH"(1) skip_ws_length [of r1] by fastforce+
  then show ?case using "4.prems" p "4.IH"(2) [OF p(1) _ p(2)] by (fastforce split: if_splits)
next
  case (6 fl n s)
  then obtain cs k r1 d r2 v r3 d' r4 where p: "skip_ws s = CHR 0x22 # cs" "parse_str cs = Some (k, r1)"
    "skip_ws r1 = CHR '':'' # r2" "parse_value fl n r2 = Some (v, r3)" "skip_ws r3 = d' # r4"
    by (auto split: option.splits list.splits if_splits)
  have l: "length r1 < length s" "length r2 < length r1" "length r4 < length r3"
    using skip_ws_length [of s] skip_ws_length [of r1] skip_ws_length [of r3] parse_str_length [OF p(2)] p by simp_all
  moreover have "length r3 < length r2" using "6.IH"(1) p by auto
  ultimately show ?case using "6.prems" p "6.IH"(2) by (fastforce split: if_splits)
qed simp_all

lemma enough_fuel:
  "2 * length s + 1 \<le> n \<Longrightarrow> 2 * length s + 1 \<le> m \<Longrightarrow> parse_value fl n s = parse_value fl m s"
  "2 * length s + 2 \<le> n \<Longrightarrow> 2 * length s + 2 \<le> m \<Longrightarrow> parse_elems fl n s = parse_elems fl m s"
  "2 * length s + 1 \<le> n \<Longrightarrow> 2 * length s + 1 \<le> m \<Longrightarrow> parse_members fl n s = parse_members fl m s"
proof (induction fl n s and fl n s and fl n s arbitrary: m and m and m
    rule: parse_value_parse_elems_parse_members.induct)
  case (2 fl n s)
  from "2.prems" obtain k where m: "m = Suc k" by (cases m) auto
  show ?case
  proof (cases "skip_ws s")
    case (Cons c cs)
    then have "Suc (length cs) \<le> length s" using skip_ws_length [of s] by simp
    then have l: "2 * length cs + 2 \<le> n" "2 * length cs + 2 \<le> k" "2 * length cs + 1 \<le> n" "2 * length cs + 1 \<le> k"
      using "2.prems" m by simp_all
    have e: "parse_elems fl n cs = parse_elems fl k cs" if "c = CHR ''[''" "skip_ws cs = d # r" "d \<noteq> CHR '']''" for d r
      by (rule "2.IH"(1) [OF Cons _ that l(1,2)]) (simp add: that)
    have f: "parse_members fl n cs = parse_members fl k cs" if "c = CHR ''{''" "skip_ws cs = d # r" "d \<noteq> CHR ''}''" for d r
      by (rule "2.IH"(2) [OF Cons _ _ that l(3,4)]) (simp_all add: that)
    show ?thesis using e f Cons m by (cases "skip_ws cs") simp_all
  qed (simp add: m)
next
  case (4 fl n s)
  from "4.prems" obtain k where m: "m = Suc k" by (cases m) auto
  have "2 * length s + 1 \<le> n" "2 * length s + 1 \<le> k" using "4.prems" m by linarith+
  then have v: "parse_value fl n s = parse_value fl k s" by (rule "4.IH"(1))
  show ?case
  proof (cases "parse_value fl k s")
    case (Some p)
    then obtain x r where p: "parse_value fl k s = Some (x, r)" by (cases p) auto
    show ?thesis
    proof (cases "skip_ws r")
      case (Cons d r2)
      then have "2 * length r2 + 2 \<le> n" "2 * length r2 + 2 \<le> k"
        using rest_lengths(1) [OF p] skip_ws_length [of r] "4.prems" m by simp_all
      then have "parse_elems fl n r2 = parse_elems fl k r2" if "d = CHR '',''"
        using that p v Cons by (intro "4.IH"(2)) simp_all
      then show ?thesis using p v Cons m by simp
    qed (simp add: m v p)
  qed (simp add: m v)
next
  case (6 fl n s)
  from "6.prems" obtain k where m: "m = Suc k" by (cases m) auto
  show ?case
  proof (cases "\<exists>cs key r d r2. skip_ws s = CHR 0x22 # cs \<and> parse_str cs = Some (key, r) \<and> skip_ws r = CHR '':'' # r2")
    case True
    then obtain cs key r r2 where p: "skip_ws s = CHR 0x22 # cs" "parse_str cs = Some (key, r)" "skip_ws r = CHR '':'' # r2"
      by blast
    have l: "length r2 + 3 \<le> length s"
      using skip_ws_length [of s] skip_ws_length [of r] parse_str_length [OF p(2)] p by simp
    have l2: "2 * length r2 + 1 \<le> n" "2 * length r2 + 1 \<le> k" using l "6.prems" m by linarith+
    have v: "parse_value fl n r2 = parse_value fl k r2" by (rule "6.IH"(1) [OF p(1) _ p(2) _ p(3) _ l2]) simp_all
    show ?thesis
    proof (cases "parse_value fl k r2")
      case (Some q)
      then obtain x r3 where q: "parse_value fl k r2 = Some (x, r3)" by (cases q) auto
      show ?thesis
      proof (cases "skip_ws r3")
        case (Cons d r4)
        then have "2 * length r4 + 1 \<le> n" "2 * length r4 + 1 \<le> k"
          using rest_lengths(1) [OF q] skip_ws_length [of r3] l "6.prems" m by simp_all
        then have "parse_members fl n r4 = parse_members fl k r4" if "d = CHR '',''"
          using that p q v Cons by (intro "6.IH"(2)) simp_all
        then show ?thesis using p q v Cons m by simp
      qed (simp add: m v p q)
    qed (simp add: m v p)
  next
    case False
    then show ?thesis by (auto simp: m split: list.splits option.splits)
  qed
qed auto

text \<open>The parser never stops for want of fuel: any fuel of at least twice the length of the text plus one, which
  \<open>JSON_parse\<close> gives it, leads to the same result.\<close>

theorem parse_fuel:
  assumes "2 * length s + 1 \<le> n"
  shows "JSON_parse fl s = (case parse_value fl n s of
      None \<Rightarrow> None | Some (v, r) \<Rightarrow> if skip_ws r = [] then Some v else None)"
  using enough_fuel(1) [of s "2 * length s + 1" n fl] assms by (simp add: JSON_parse_def)

theorem parse_fuel_witness:
  "JSON_parse (\<lambda>_. None) ''[1]'' = (case parse_value (\<lambda>_. None) 100 ''[1]'' of
      None \<Rightarrow> None | Some (v, r) \<Rightarrow> if skip_ws r = [] then Some v else None)"
  by (rule parse_fuel) simp

end
