(* ===== verification/TextConstants.thy ===== *)
theory TextConstants
  imports Json
begin

text \<open>
  The tables of the text protocol
  (\<open>src/connection-endpoint/websocket/text/text-protocol/constants.ts\<close>): for every topic the actions
  with their text and the encoding of their payload, in the order of the source, and the maps that are
  built from them by assignment, so that a later entry overwrites an earlier one with the same key. An
  entry without a text is stored under the property \<open>undefined\<close>, and reading a property of an object
  also finds those of \<open>Object.prototype\<close>.
\<close>

section \<open>The tables\<close>

definition MESSAGE_SEPERATOR :: char where "MESSAGE_SEPERATOR = CHR 0x1E"
definition MESSAGE_PART_SEPERATOR :: char where "MESSAGE_PART_SEPERATOR = CHR 0x1F"

datatype encoding = ENC_JSON | ENC_DEEPSTREAM

type_synonym entry = "string option \<times> action \<times> encoding option"

definition TOPICS :: "(string \<times> topic) list" where
  "TOPICS = [(''X'', T_PARSER), (''C'', T_CONNECTION), (''A'', T_AUTH), (''X'', T_ERROR), (''E'', T_EVENT),
     (''R'', T_RECORD), (''P'', T_RPC), (''U'', T_PRESENCE)]"

abbreviation bare :: "'a \<Rightarrow> ('a \<Rightarrow> action) \<Rightarrow> entry" where
  "bare a C \<equiv> (None, C a, None)"

abbreviation texted :: "string \<Rightarrow> 'a \<Rightarrow> ('a \<Rightarrow> action) \<Rightarrow> entry" where
  "texted t a C \<equiv> (Some t, C a, None)"

definition PARSER_ACTIONS :: "entry list" where
  "PARSER_ACTIONS = map (\<lambda>e. e ParserA)
     [bare XA_UNKNOWN_TOPIC, bare XA_UNKNOWN_ACTION, bare XA_INVALID_MESSAGE, bare XA_INVALID_META_PARAMS,
      bare XA_MESSAGE_PARSE_ERROR, bare XA_MAXIMUM_MESSAGE_SIZE_EXCEEDED, bare XA_ERROR]"

definition CONNECTION_ACTIONS :: "entry list" where
  "CONNECTION_ACTIONS = map (\<lambda>e. e ConnectionA)
     [texted ''E'' CA_ERROR, texted ''PI'' CA_PING, texted ''PO'' CA_PONG, texted ''A'' CA_ACCEPT,
      texted ''CH'' CA_CHALLENGE, texted ''REJ'' CA_REJECTION, texted ''RED'' CA_REDIRECT,
      bare CA_CLOSED, bare CA_CLOSING, bare CA_AUTHENTICATION_TIMEOUT, bare CA_INVALID_MESSAGE]"

definition AUTH_ACTIONS :: "entry list" where
  "AUTH_ACTIONS = map (\<lambda>e. e AuthA)
     [texted ''E'' AA_ERROR, texted ''REQ'' AA_REQUEST,
      \<lambda>C. (None, C AA_AUTH_SUCCESSFUL, Some ENC_DEEPSTREAM), \<lambda>C. (None, C AA_AUTH_UNSUCCESSFUL, Some ENC_DEEPSTREAM),
      bare AA_TOO_MANY_AUTH_ATTEMPTS, bare AA_INVALID_MESSAGE_DATA, bare AA_INVALID_MESSAGE]"

definition EVENT_ACTIONS :: "entry list" where
  "EVENT_ACTIONS = map (\<lambda>e. e EventA)
     [texted ''E'' EA_ERROR, \<lambda>C. (Some ''EVT'', C EA_EMIT, Some ENC_DEEPSTREAM), texted ''S'' EA_SUBSCRIBE,
      texted ''US'' EA_UNSUBSCRIBE, texted ''L'' EA_LISTEN, texted ''UL'' EA_UNLISTEN, texted ''LA'' EA_LISTEN_ACCEPT,
      texted ''LR'' EA_LISTEN_REJECT, texted ''SP'' EA_SUBSCRIPTION_FOR_PATTERN_FOUND,
      texted ''SR'' EA_SUBSCRIPTION_FOR_PATTERN_REMOVED,
      bare EA_MESSAGE_PERMISSION_ERROR, bare EA_MESSAGE_DENIED, bare EA_INVALID_MESSAGE_DATA,
      bare EA_MULTIPLE_SUBSCRIPTIONS, bare EA_NOT_SUBSCRIBED]"

definition RECORD_ACTIONS :: "entry list" where
  "RECORD_ACTIONS = map (\<lambda>e. e RecordA)
     [texted ''E'' RA_ERROR, texted ''CR'' RA_CREATE, texted ''R'' RA_READ,
      \<lambda>C. (None, C RA_READ_RESPONSE, Some ENC_JSON), texted ''HD'' RA_HEAD, bare RA_HEAD_RESPONSE,
      texted ''CU'' RA_CREATEANDUPDATE, \<lambda>C. (None, C RA_CREATEANDPATCH, Some ENC_DEEPSTREAM),
      \<lambda>C. (Some ''U'', C RA_UPDATE, Some ENC_JSON), \<lambda>C. (Some ''P'', C RA_PATCH, Some ENC_DEEPSTREAM),
      \<lambda>C. (None, C RA_ERASE, Some ENC_DEEPSTREAM), texted ''WA'' RA_WRITE_ACKNOWLEDGEMENT, texted ''D'' RA_DELETE,
      bare RA_DELETE_SUCCESS, bare RA_DELETED, bare RA_LISTEN_RESPONSE_TIMEOUT,
      bare RA_SUBSCRIBEANDHEAD, bare RA_SUBSCRIBEANDREAD, texted ''CR'' RA_SUBSCRIBECREATEANDREAD,
      bare RA_SUBSCRIBECREATEANDUPDATE, texted ''S'' RA_SUBSCRIBE, texted ''US'' RA_UNSUBSCRIBE,
      texted ''L'' RA_LISTEN, texted ''UL'' RA_UNLISTEN, texted ''LA'' RA_LISTEN_ACCEPT, texted ''LR'' RA_LISTEN_REJECT,
      texted ''SH'' RA_SUBSCRIPTION_HAS_PROVIDER, bare RA_SUBSCRIPTION_HAS_NO_PROVIDER,
      texted ''SP'' RA_SUBSCRIPTION_FOR_PATTERN_FOUND, texted ''SR'' RA_SUBSCRIPTION_FOR_PATTERN_REMOVED,
      bare RA_CACHE_RETRIEVAL_TIMEOUT, bare RA_STORAGE_RETRIEVAL_TIMEOUT, bare RA_VERSION_EXISTS,
      texted ''SN'' RA_READ,
      bare RA_RECORD_LOAD_ERROR, bare RA_RECORD_CREATE_ERROR, bare RA_RECORD_UPDATE_ERROR, bare RA_RECORD_DELETE_ERROR,
      bare RA_RECORD_NOT_FOUND, bare RA_INVALID_VERSION, bare RA_INVALID_PATCH_ON_HOTPATH,
      bare RA_MESSAGE_PERMISSION_ERROR, bare RA_MESSAGE_DENIED, bare RA_INVALID_MESSAGE_DATA,
      bare RA_MULTIPLE_SUBSCRIPTIONS, bare RA_NOT_SUBSCRIBED]"

definition RPC_ACTIONS :: "entry list" where
  "RPC_ACTIONS = map (\<lambda>e. e RpcA)
     [bare PA_ERROR, \<lambda>C. (Some ''REQ'', C PA_REQUEST, Some ENC_DEEPSTREAM), bare PA_ACCEPT,
      \<lambda>C. (Some ''RES'', C PA_RESPONSE, Some ENC_DEEPSTREAM), texted ''REJ'' PA_REJECT,
      \<lambda>C. (Some ''E'', C PA_REQUEST_ERROR, Some ENC_DEEPSTREAM), texted ''S'' PA_PROVIDE, texted ''US'' PA_UNPROVIDE,
      bare PA_NO_RPC_PROVIDER, bare PA_RESPONSE_TIMEOUT, bare PA_ACCEPT_TIMEOUT, bare PA_MULTIPLE_ACCEPT,
      bare PA_MULTIPLE_RESPONSE, bare PA_INVALID_RPC_CORRELATION_ID,
      bare PA_MESSAGE_PERMISSION_ERROR, bare PA_MESSAGE_DENIED, bare PA_INVALID_MESSAGE_DATA,
      bare PA_MULTIPLE_PROVIDERS, bare PA_NOT_PROVIDED]"

definition PRESENCE_ACTIONS :: "entry list" where
  "PRESENCE_ACTIONS = map (\<lambda>e. e PresenceA)
     [texted ''E'' UA_ERROR, bare UA_QUERY_ALL, \<lambda>C. (None, C UA_QUERY_ALL_RESPONSE, Some ENC_JSON),
      texted ''Q'' UA_QUERY, \<lambda>C. (None, C UA_QUERY_RESPONSE, Some ENC_JSON), texted ''PNJ'' UA_PRESENCE_JOIN,
      texted ''PNJ'' UA_PRESENCE_JOIN_ALL, texted ''PNL'' UA_PRESENCE_LEAVE, texted ''PNL'' UA_PRESENCE_LEAVE_ALL,
      texted ''S'' UA_SUBSCRIBE, texted ''US'' UA_UNSUBSCRIBE, bare UA_SUBSCRIBE_ALL, bare UA_UNSUBSCRIBE_ALL,
      bare UA_INVALID_PRESENCE_USERS, bare UA_MESSAGE_PERMISSION_ERROR, bare UA_MESSAGE_DENIED,
      bare UA_MULTIPLE_SUBSCRIPTIONS, bare UA_NOT_SUBSCRIBED]"

text \<open>\<open>ACTIONS\<close>: there is no entry for the topic \<open>ERROR\<close>.\<close>

fun ACTIONS :: "topic \<Rightarrow> entry list option" where
  "ACTIONS T_PARSER = Some PARSER_ACTIONS"
| "ACTIONS T_CONNECTION = Some CONNECTION_ACTIONS"
| "ACTIONS T_AUTH = Some AUTH_ACTIONS"
| "ACTIONS T_EVENT = Some EVENT_ACTIONS"
| "ACTIONS T_RECORD = Some RECORD_ACTIONS"
| "ACTIONS T_RPC = Some RPC_ACTIONS"
| "ACTIONS T_PRESENCE = Some PRESENCE_ACTIONS"
| "ACTIONS _ = None"

section \<open>The maps\<close>

definition convertMap :: "('e \<Rightarrow> 'k) \<Rightarrow> ('e \<Rightarrow> 'v) \<Rightarrow> 'e list \<Rightarrow> ('k, 'v) jsmap" where
  "convertMap from to es = foldl (\<lambda>m e. js_set (from e) (to e) m) [] es"

text \<open>The property name of a value that may be \<open>undefined\<close>.\<close>

definition property :: "string option \<Rightarrow> string" where
  "property t = (case t of None \<Rightarrow> ''undefined'' | Some s \<Rightarrow> s)"

definition TOPIC_TEXT_TO_BYTE :: "(string, topic) jsmap" where
  "TOPIC_TEXT_TO_BYTE = convertMap fst snd TOPICS"

definition TOPIC_BYTE_TO_TEXT :: "(topic, string) jsmap" where
  "TOPIC_BYTE_TO_TEXT = convertMap snd fst TOPICS"

definition ACTIONS_TEXT_TO_BYTE :: "entry list \<Rightarrow> (string, action) jsmap" where
  "ACTIONS_TEXT_TO_BYTE es = convertMap (\<lambda>(t, a, p). property t) (\<lambda>(t, a, p). a) es"

definition ACTIONS_BYTE_TO_TEXT :: "entry list \<Rightarrow> (action, string option) jsmap" where
  "ACTIONS_BYTE_TO_TEXT es = convertMap (\<lambda>(t, a, p). a) (\<lambda>(t, a, p). t) es"

definition ACTIONS_BYTE_TO_PAYLOAD :: "entry list \<Rightarrow> (action, encoding option) jsmap" where
  "ACTIONS_BYTE_TO_PAYLOAD es = convertMap (\<lambda>(t, a, p). a) (\<lambda>(t, a, p). p) es"

definition object_prototype :: "string list" where
  "object_prototype = [''constructor'', ''__defineGetter__'', ''__defineSetter__'', ''hasOwnProperty'', ''__lookupGetter__'',
     ''__lookupSetter__'', ''isPrototypeOf'', ''propertyIsEnumerable'', ''toString'', ''valueOf'', ''__proto__'',
     ''toLocaleString'']"

datatype 'a js_prop = Own 'a | Inherited | Missing

definition read_prop :: "(string, 'a) jsmap \<Rightarrow> string \<Rightarrow> 'a js_prop" where
  "read_prop m k = (case js_get m k of
     Some v \<Rightarrow> Own v
   | None \<Rightarrow> if k \<in> set object_prototype then Inherited else Missing)"

text \<open>\<open>ABP[topic][action]\<close> and \<open>ABT[topic][action]\<close>, \<open>undefined\<close> being \<open>None\<close>.\<close>

definition payload_of :: "topic \<Rightarrow> action \<Rightarrow> encoding option" where
  "payload_of t a = (case ACTIONS t of
     None \<Rightarrow> None | Some es \<Rightarrow> (case js_get (ACTIONS_BYTE_TO_PAYLOAD es) a of None \<Rightarrow> None | Some p \<Rightarrow> p))"

definition text_of :: "topic \<Rightarrow> action \<Rightarrow> string option" where
  "text_of t a = (case ACTIONS t of
     None \<Rightarrow> None | Some es \<Rightarrow> (case js_get (ACTIONS_BYTE_TO_TEXT es) a of None \<Rightarrow> None | Some p \<Rightarrow> p))"

end
