(* ===== verification/TextParser.thy ===== *)
theory TextParser
  imports TextConstants
begin

text \<open>
  The parser of the text protocol
  (\<open>src/connection-endpoint/websocket/text/text-protocol/message-parser.ts\<close>): a packet is split
  into frames and each frame into parts; what a part means depends on the topic and the action. The two
  maps the module keeps, from the ids it gives to messages to the version or the name they had, are the
  state. What JavaScript makes of numerals that are not plain integers, and the ids of \<open>getUid\<close>, are
  functions of \<open>text_env\<close>; NaN is \<open>JNull\<close> as a value, which is how it is printed.
\<close>

section \<open>Data\<close>

record text_env =
  te_float :: "string \<Rightarrow> json option"
  te_parseFloat :: "string \<Rightarrow> json"
  te_number :: "string \<Rightarrow> jsnum"
  te_uid :: "nat \<Rightarrow> string"

record text_state =
  correlationIdToVersion :: "(string, jsnum) jsmap"
  bulkNameToCorrelationId :: "(string, json option) jsmap"
  nextUid :: nat

text \<open>A parsed message. An action that is \<open>undefined\<close> (or a function of \<open>Object.prototype\<close>, which the copy
  through JSON drops) is \<open>UndefinedA\<close>.\<close>

record text_msg =
  x_isAck :: bool
  x_isErr :: bool
  x_topic :: topic
  x_action :: action
  x_name :: "string option"
  x_names :: "json option"
  x_data :: "string option"
  x_corr :: "string option"
  x_subscription :: "string option"
  x_path :: "string option"
  x_version :: "jsnum option"
  x_isWriteAck :: "bool option"
  x_parsed :: "json option"

text \<open>The code of one frame throws, skips the frame, or makes a message.\<close>

datatype 'a outcome = Throws | Skips | Makes 'a

fun split_on :: "char \<Rightarrow> string \<Rightarrow> string list" where
  "split_on d [] = [[]]"
| "split_on d (c # cs) =
     (if c = d then [] # split_on d cs
      else case split_on d cs of p # ps \<Rightarrow> (c # p) # ps | [] \<Rightarrow> [[c]])"

definition part :: "string list \<Rightarrow> nat \<Rightarrow> string option" where
  "part ps i = (if i < length ps then Some (ps ! i) else None)"

text \<open>\<open>x * 1\<close>\<close>

definition js_number :: "text_env \<Rightarrow> string option \<Rightarrow> jsnum" where
  "js_number E t = (case t of
     None \<Rightarrow> JsNaN
   | Some s \<Rightarrow> (case int_lit s of Some i \<Rightarrow> JsNum i | None \<Rightarrow> te_number E s))"

section \<open>Payloads\<close>

datatype typed_value = TVal json | TUndef | TError

definition parseFloat :: "text_env \<Rightarrow> string \<Rightarrow> json" where
  "parseFloat E s = (case int_lit s of Some i \<Rightarrow> JNum i | None \<Rightarrow> te_parseFloat E s)"

text \<open>\<open>convertTyped\<close> of a string that is not empty. A falsy value behind \<open>O\<close> gives the absent error.\<close>

definition convertTyped :: "text_env \<Rightarrow> string \<Rightarrow> typed_value" where
  "convertTyped E value =
     (if value = ''null'' then TVal JNull
      else if hd value = CHR ''S'' then TVal (JStr (tl value))
      else if hd value = CHR ''O''
      then (case JSON_parse (te_float E) (tl value) of
              None \<Rightarrow> TError
            | Some v \<Rightarrow> if truthy (Some v) then TVal v else TUndef)
      else if hd value = CHR ''N'' then TVal (parseFloat E (tl value))
      else if hd value = CHR ''L'' then TVal JNull
      else if hd value = CHR ''T'' then TVal (JBool True)
      else if hd value = CHR ''F'' then TVal (JBool False)
      else if hd value = CHR ''U'' then TUndef
      else TError)"

text \<open>\<open>parseData\<close>: the message, and whether it succeeded.\<close>

definition parseData :: "text_env \<Rightarrow> text_msg \<Rightarrow> text_msg \<times> bool" where
  "parseData E m =
     (if truthy (x_parsed m) \<or> \<not> nonempty (x_data m) then (m, True)
      else (let m1 = (if x_topic m = T_PRESENCE \<and> (x_action m = PresenceA UA_SUBSCRIBE_ALL \<or> x_action m = PresenceA UA_UNSUBSCRIBE_ALL)
                      then m\<lparr>x_parsed := map_option JStr (x_data m), x_data := Some (stringify (JStr (the (x_data m))))\<rparr>
                      else m)
            in if payload_of (x_topic m1) (x_action m1) = Some ENC_DEEPSTREAM
               then (case convertTyped E (the (x_data m1)) of
                       TError \<Rightarrow> (m1, False)
                     | TUndef \<Rightarrow> (m1\<lparr>x_parsed := None, x_data := None\<rparr>, True)
                     | TVal v \<Rightarrow> (m1\<lparr>x_parsed := Some v, x_data := Some (stringify v)\<rparr>, True))
               else (case JSON_parse (te_float E) (the (x_data m1)) of
                       None \<Rightarrow> (m1, False)
                     | Some v \<Rightarrow> (m1\<lparr>x_parsed := Some v\<rparr>, True))))"

section \<open>The topics\<close>

definition writeConfig :: string where
  "writeConfig = stringify (JObj [(''writeSuccess'', JBool True)])"

text \<open>\<open>[name]\<close> after the copy through JSON.\<close>

definition names_of_name :: "string option \<Rightarrow> json" where
  "names_of_name n = JArr [(''0'', case n of None \<Rightarrow> JNull | Some s \<Rightarrow> JStr s)]"

definition named :: "string list \<Rightarrow> nat \<Rightarrow> text_msg \<Rightarrow> text_msg" where
  "named ps i m = m\<lparr>x_name := part ps i, x_names := Some (names_of_name (part ps i))\<rparr>"

definition listen_actions :: "(record_action \<Rightarrow> event_action \<Rightarrow> action) \<Rightarrow> action set" where
  "listen_actions f = {f RA_LISTEN_ACCEPT EA_LISTEN_ACCEPT, f RA_LISTEN_REJECT EA_LISTEN_REJECT,
     f RA_SUBSCRIPTION_FOR_PATTERN_FOUND EA_SUBSCRIPTION_FOR_PATTERN_FOUND,
     f RA_SUBSCRIPTION_FOR_PATTERN_REMOVED EA_SUBSCRIPTION_FOR_PATTERN_REMOVED}"

text \<open>\<open>i\<close> is the index after the action.\<close>

definition parse_record :: "text_env \<Rightarrow> string list \<Rightarrow> string option \<Rightarrow> nat \<Rightarrow> text_msg \<Rightarrow> text_msg" where
  "parse_record E ps rawAction i m0 =
     (let m = named ps i m0; i = Suc i
      in if x_isErr m
         then (let m = m\<lparr>x_isErr := False\<rparr>
               in if rawAction = Some ''VERSION_EXISTS''
                  then m\<lparr>x_action := RecordA RA_VERSION_EXISTS, x_version := Some (js_number E (part ps i)),
                         x_data := part ps (i + 1), x_isWriteAck := Some (int (length ps) - int (i + 2) > 1)\<rparr>
                  else if rawAction = Some ''CACHE_RETRIEVAL_TIMEOUT'' then m\<lparr>x_action := RecordA RA_CACHE_RETRIEVAL_TIMEOUT\<rparr>
                  else if rawAction = Some ''STORAGE_RETRIEVAL_TIMEOUT'' then m\<lparr>x_action := RecordA RA_STORAGE_RETRIEVAL_TIMEOUT\<rparr>
                  else m)
         else if x_action m \<in> {RecordA RA_CREATEANDUPDATE, RecordA RA_UPDATE, RecordA RA_PATCH}
         then (let a = (if x_action m = RecordA RA_CREATEANDUPDATE \<and> length ps = 7 then RecordA RA_CREATEANDPATCH
                        else x_action m);
                   patch = (a = RecordA RA_CREATEANDPATCH \<or> a = RecordA RA_PATCH);
                   j = (if patch then i + 2 else i + 1)
               in m\<lparr>x_isWriteAck := Some (last ps = writeConfig), x_version := Some (js_number E (part ps i)),
                    x_action := a, x_path := (if patch then part ps (i + 1) else x_path m),
                    x_data := (if length ps = j + 2 then Some (ps ! j) else part ps j)\<rparr>)
         else if x_action m \<in> listen_actions (\<lambda>r e. RecordA r) then m\<lparr>x_subscription := part ps i\<rparr>
         else if x_action m = RecordA RA_SUBSCRIPTION_HAS_PROVIDER
         then (if part ps i = Some ''F'' then m\<lparr>x_action := RecordA RA_SUBSCRIPTION_HAS_NO_PROVIDER\<rparr> else m)
         else m)"

definition parse_event :: "string list \<Rightarrow> nat \<Rightarrow> text_msg \<Rightarrow> text_msg" where
  "parse_event ps i m0 =
     (let m = named ps i m0
      in if x_action m \<in> listen_actions (\<lambda>r e. EventA e) then m\<lparr>x_subscription := part ps (Suc i)\<rparr>
         else if x_action m = EventA EA_EMIT then m\<lparr>x_data := part ps (Suc i)\<rparr>
         else m)"

definition parse_rpc :: "string list \<Rightarrow> string option \<Rightarrow> nat \<Rightarrow> text_msg \<Rightarrow> text_msg" where
  "parse_rpc ps rawAction i m0 =
     (let m = named ps i m0;
          m1 = (if x_isAck m \<and> x_action m = RpcA PA_REQUEST then m\<lparr>x_isAck := False, x_action := RpcA PA_ACCEPT\<rparr> else m);
          m2 = (if x_isErr m1
                then m1\<lparr>x_isErr := False, x_action := RpcA PA_REQUEST_ERROR, x_data := map_option (\<lambda>t. stringify (JStr t)) rawAction\<rparr>
                else m1);
          provides = (x_action m2 = RpcA PA_PROVIDE \<or> x_action m2 = RpcA PA_UNPROVIDE);
          m3 = (if provides then m2 else m2\<lparr>x_corr := part ps (Suc i)\<rparr>);
          j = (if provides then Suc i else i + 2)
      in if x_action m3 = RpcA PA_RESPONSE \<or> x_action m3 = RpcA PA_REQUEST then m3\<lparr>x_data := part ps j\<rparr> else m3)"

text \<open>\<open>JSON.parse\<close> is called unguarded here; of \<open>undefined\<close> it throws as well.\<close>

definition names_from :: "text_env \<Rightarrow> string option \<Rightarrow> text_msg \<Rightarrow> text_msg outcome" where
  "names_from E t m = (case t of
     None \<Rightarrow> Throws
   | Some s \<Rightarrow> (case JSON_parse (te_float E) s of None \<Rightarrow> Throws | Some v \<Rightarrow> Makes (m\<lparr>x_names := Some v\<rparr>)))"

definition parse_presence :: "text_env \<Rightarrow> string list \<Rightarrow> nat \<Rightarrow> text_msg \<Rightarrow> text_msg outcome" where
  "parse_presence E ps i m =
     (if x_action m = PresenceA UA_QUERY
      then (if length ps = 3 then Makes (m\<lparr>x_action := PresenceA UA_QUERY_ALL\<rparr>)
            else names_from E (part ps (i + 1)) (m\<lparr>x_corr := part ps i\<rparr>))
      else if x_action m = PresenceA UA_SUBSCRIBE \<or> x_action m = PresenceA UA_UNSUBSCRIBE
      then (let corr = (length ps = 4 \<and> \<not> x_isAck m);
                m1 = (if corr then m\<lparr>x_corr := part ps i\<rparr> else m);
                d = part ps (if corr then i + 1 else i);
                m2 = m1\<lparr>x_data := d\<rparr>
            in if x_action m = PresenceA UA_SUBSCRIBE \<and> (d = Some ''S'' \<or> d = Some ''U'')
               then Makes (m2\<lparr>x_action := PresenceA UA_SUBSCRIBE_ALL\<rparr>)
               else if x_action m = PresenceA UA_UNSUBSCRIBE \<and> d = Some ''US''
               then Makes (m2\<lparr>x_action := PresenceA UA_UNSUBSCRIBE_ALL\<rparr>)
               else names_from E d m2)
      else Makes m)"

definition parse_connection :: "string list \<Rightarrow> nat \<Rightarrow> text_msg \<Rightarrow> text_msg outcome" where
  "parse_connection ps i m =
     (if x_action m = ConnectionA CA_PONG then Skips
      else if x_isAck m then Makes (m\<lparr>x_action := ConnectionA CA_ACCEPT, x_isAck := False\<rparr>)
      else if x_action m = ConnectionA CA_REDIRECT \<or> x_action m = ConnectionA CA_REJECTION
      then Makes (m\<lparr>x_data := part ps i\<rparr>)
      else Makes m)"

definition parse_auth :: "string list \<Rightarrow> string option \<Rightarrow> nat \<Rightarrow> text_msg \<Rightarrow> text_msg" where
  "parse_auth ps rawAction i m =
     (let m1 = (if x_isAck m then m\<lparr>x_action := AuthA AA_AUTH_SUCCESSFUL\<rparr>
                else if x_isErr m
                then (if rawAction = Some ''INVALID_AUTH_DATA'' then m\<lparr>x_isErr := False, x_action := AuthA AA_AUTH_UNSUCCESSFUL\<rparr>
                      else if rawAction = Some ''TOO_MANY_AUTH_ATTEMPTS'' then m\<lparr>x_isErr := False, x_action := AuthA AA_TOO_MANY_AUTH_ATTEMPTS\<rparr>
                      else m)
                else m)
      in if x_action m1 = AuthA AA_AUTH_SUCCESSFUL then m1\<lparr>x_isAck := False, x_data := rawAction\<rparr>
         else if x_action m1 = AuthA AA_REQUEST \<or> x_action m1 = AuthA AA_AUTH_UNSUCCESSFUL then m1\<lparr>x_data := part ps i\<rparr>
         else m1)"

definition parse_topic :: "text_env \<Rightarrow> string list \<Rightarrow> string option \<Rightarrow> nat \<Rightarrow> text_msg \<Rightarrow> text_msg outcome" where
  "parse_topic E ps rawAction i m =
     (case x_topic m of
        T_RECORD \<Rightarrow> Makes (parse_record E ps rawAction i m)
      | T_EVENT \<Rightarrow> Makes (parse_event ps i m)
      | T_RPC \<Rightarrow> Makes (parse_rpc ps rawAction i m)
      | T_PRESENCE \<Rightarrow> parse_presence E ps i m
      | T_CONNECTION \<Rightarrow> parse_connection ps i m
      | T_AUTH \<Rightarrow> Makes (parse_auth ps rawAction i m)
      | _ \<Rightarrow> Makes m)"

section \<open>Frames\<close>

definition blank :: "topic \<Rightarrow> action \<Rightarrow> bool \<Rightarrow> bool \<Rightarrow> text_msg" where
  "blank t a isAck isErr = \<lparr>x_isAck = isAck, x_isErr = isErr, x_topic = t, x_action = a, x_name = None, x_names = None,
     x_data = None, x_corr = None, x_subscription = None, x_path = None, x_version = None, x_isWriteAck = None, x_parsed = None\<rparr>"

text \<open>\<open>names[0]\<close>\<close>

definition first_name :: "text_msg \<Rightarrow> json option" where
  "first_name m = (if x_topic m = T_PRESENCE
     then (case x_names m of
             Some (JArr kvs) \<Rightarrow> js_get kvs ''0''
           | Some (JObj kvs) \<Rightarrow> js_get kvs ''0''
           | Some (JStr (c # cs)) \<Rightarrow> Some (JStr [c])
           | _ \<Rightarrow> None)
     else map_option JStr (x_name m))"

definition give_id :: "text_env \<Rightarrow> text_msg \<Rightarrow> text_state \<Rightarrow> text_msg \<times> text_state" where
  "give_id E m st =
     (if truthy (x_names m) \<and> \<not> nonempty (x_corr m)
      then (let u = te_uid E (nextUid st); st1 = st\<lparr>nextUid := Suc (nextUid st)\<rparr>; m1 = m\<lparr>x_corr := Some u\<rparr>
            in case x_version m of
                 Some v \<Rightarrow> (m1, st1\<lparr>correlationIdToVersion := js_set u v (correlationIdToVersion st1)\<rparr>)
               | None \<Rightarrow> (m1, st1\<lparr>bulkNameToCorrelationId := js_set u (first_name m) (bulkNameToCorrelationId st1)\<rparr>))
      else (m, st))"

text \<open>The action of a frame: the action, or \<open>None\<close> when the frame is given up as unknown.\<close>

definition frame_action :: "entry list \<Rightarrow> topic \<Rightarrow> bool \<Rightarrow> bool \<Rightarrow> string option \<Rightarrow> action option" where
  "frame_action es t isAck isErr rawAction =
     (case read_prop (ACTIONS_TEXT_TO_BYTE es) (property rawAction) of
        Own a \<Rightarrow> Some a
      | Inherited \<Rightarrow> Some UndefinedA
      | Missing \<Rightarrow>
          if isErr \<and> t = T_RPC \<or> t = T_CONNECTION \<and> isAck \<or> t = T_AUTH \<and> (isErr \<or> isAck) \<or> isErr \<and> t = T_RECORD
          then Some UndefinedA else None)"

definition parse_frame :: "text_env \<Rightarrow> string \<Rightarrow> text_state \<Rightarrow> text_msg outcome \<times> text_state" where
  "parse_frame E raw st =
     (if length raw < 3 then (Skips, st)
      else (let ps = split_on MESSAGE_PART_SEPERATOR raw
            in case read_prop TOPIC_TEXT_TO_BYTE (hd ps) of
                 Missing \<Rightarrow> (Skips, st)
               | Inherited \<Rightarrow> (Throws, st)
               | Own t \<Rightarrow>
                   (let isAck = (part ps 1 = Some ''A''); i = (if isAck then 2 else 1);
                        isErr = (part ps i = Some ''E''); j = (if isErr then Suc i else i);
                        rawAction = part ps j
                    in case ACTIONS t of
                         None \<Rightarrow> (Throws, st)
                       | Some es \<Rightarrow>
                           (case frame_action es t isAck isErr rawAction of
                              None \<Rightarrow> (Skips, st)
                            | Some a \<Rightarrow>
                                (case parse_topic E ps rawAction (Suc j) (blank t a isAck isErr) of
                                   Throws \<Rightarrow> (Throws, st)
                                 | Skips \<Rightarrow> (Skips, st)
                                 | Makes m \<Rightarrow> (case give_id E m st of (m1, st1) \<Rightarrow> (Makes (fst (parseData E m1)), st1)))))))"

text \<open>\<open>parse\<close>: an exception loses the whole packet.\<close>

fun parse_frames :: "text_env \<Rightarrow> string list \<Rightarrow> text_state \<Rightarrow> text_msg list option \<times> text_state" where
  "parse_frames E [] st = (Some [], st)"
| "parse_frames E (f # fs) st =
     (case parse_frame E f st of
        (Throws, st1) \<Rightarrow> (None, st1)
      | (Skips, st1) \<Rightarrow> parse_frames E fs st1
      | (Makes m, st1) \<Rightarrow> (case parse_frames E fs st1 of (r, st2) \<Rightarrow> (map_option (Cons m) r, st2)))"

definition text_parse :: "text_env \<Rightarrow> string \<Rightarrow> text_state \<Rightarrow> text_msg list option \<times> text_state" where
  "text_parse E rawMessage st = parse_frames E (split_on MESSAGE_SEPERATOR rawMessage) st"

end
