(* ===== verification/TextBuilder.thy ===== *)
theory TextBuilder
  imports TextParser
begin

text \<open>
  The builder of the text protocol
  (\<open>src/connection-endpoint/websocket/text/text-protocol/message-builder.ts\<close>): the frame a message of the
  server becomes. A builder is a function from the message to the parts of its frame; those that read or
  clear the parser's maps are handled with the state.
\<close>

section \<open>Parts\<close>

text \<open>A value in a template literal.\<close>

fun js_string :: "json \<Rightarrow> string" and js_join :: "(string \<times> json) list \<Rightarrow> string" where
  "js_string JNull = ''null''"
| "js_string (JBool b) = (if b then ''true'' else ''false'')"
| "js_string (JNum i) = int_str i"
| "js_string (JStr s) = s"
| "js_string (JObj kvs) = ''[object Object]''"
| "js_string (JArr kvs) = js_join kvs"
| "js_join [] = []"
| "js_join [(k, v)] = (if v = JNull then [] else js_string v)"
| "js_join ((k, v) # x # xs) = (if v = JNull then [] else js_string v) @ '','' @ js_join (x # xs)"

definition undef :: string where "undef = ''undefined''"

definition str_of :: "string option \<Rightarrow> string" where
  "str_of t = (case t of None \<Rightarrow> undef | Some s \<Rightarrow> s)"

definition json_of :: "json option \<Rightarrow> string" where
  "json_of v = (case v of None \<Rightarrow> undef | Some j \<Rightarrow> js_string j)"

definition num_of :: "int option \<Rightarrow> string" where
  "num_of v = (case v of None \<Rightarrow> undef | Some i \<Rightarrow> int_str i)"

definition jsnum_of :: "jsnum option \<Rightarrow> string" where
  "jsnum_of v = (case v of None \<Rightarrow> undef | Some (JsNum i) \<Rightarrow> int_str i | Some JsNaN \<Rightarrow> ''NaN'')"

fun join_parts :: "string list \<Rightarrow> string" where
  "join_parts [] = []"
| "join_parts [p] = p"
| "join_parts (p # q # ps) = p @ MESSAGE_PART_SEPERATOR # join_parts (q # ps)"

definition frame_of :: "string list \<Rightarrow> string" where
  "frame_of ps = join_parts ps @ [MESSAGE_SEPERATOR]"

definition WA :: "message \<Rightarrow> string list" where
  "WA m = (if m_writeack m then [writeConfig] else [])"

definition WA_or_NWA :: "message \<Rightarrow> string list" where
  "WA_or_NWA m = [if m_writeack m then writeConfig else ''{}'']"

definition tbt :: "message \<Rightarrow> string" where
  "tbt m = str_of (js_get TOPIC_BYTE_TO_TEXT (m_topic m))"

definition ack :: "bool \<Rightarrow> string list" where
  "ack isAck = (if isAck then [''A''] else [])"

definition nm :: "message \<Rightarrow> string" where
  "nm m = str_of (m_name m)"

section \<open>The shared builders\<close>

definition genericError :: "message \<Rightarrow> string list" where
  "genericError m = [tbt m, ''E'', str_of (m_corr m), json_of (m_parsed m)]"

definition invalidMessageData :: "message \<Rightarrow> string list" where
  "invalidMessageData m = [tbt m, ''E'', ''INVALID_MESSAGE_DATA'', str_of (m_data m)]"

definition action_part :: "topic \<Rightarrow> action \<Rightarrow> string list" where
  "action_part t a = (if nonempty (text_of t a) then [the (text_of t a)] else [])"

definition corr_part :: "message \<Rightarrow> string list" where
  "corr_part m = (if nonempty (m_corr m) then [the (m_corr m)] else [])"

definition messagePermissionError :: "message \<Rightarrow> string list" where
  "messagePermissionError m = [tbt m, ''E'', ''MESSAGE_PERMISSION_ERROR'', nm m] @ action_part (m_topic m) (m_action m) @ corr_part m"

definition notSubscribed :: "message \<Rightarrow> string list" where
  "notSubscribed m = [tbt m, ''E'', ''NOT_SUBSCRIBED'', nm m]"

definition invalidAuth :: "message \<Rightarrow> string list" where
  "invalidAuth m = [''A'', ''E'', ''INVALID_AUTH_DATA'', if nonempty (m_data m) then the (m_data m) else ''U'']"

definition recordUpdate :: "message \<Rightarrow> string list" where
  "recordUpdate m = [''R'', ''U'', nm m, num_of (m_version m), str_of (m_data m)] @ WA m"

definition recordPatch :: "message \<Rightarrow> string list" where
  "recordPatch m = [''R'', ''P'', nm m, num_of (m_version m), str_of (m_path m), str_of (m_data m)] @ WA m"

definition subscriptionForPatternFound :: "message \<Rightarrow> string list" where
  "subscriptionForPatternFound m = [tbt m, ''SP'', nm m, str_of (m_subscription m)]"

definition subscriptionForPatternRemoved :: "message \<Rightarrow> string list" where
  "subscriptionForPatternRemoved m = [tbt m, ''SR'', nm m, str_of (m_subscription m)]"

definition listen_frame :: "message \<Rightarrow> bool \<Rightarrow> string list" where
  "listen_frame m isAck = [tbt m] @ ack isAck @ [''L'', nm m]"

definition unlisten_frame :: "message \<Rightarrow> bool \<Rightarrow> string list" where
  "unlisten_frame m isAck = [tbt m] @ ack isAck @ [''UL'', nm m]"

definition listenAccept :: "message \<Rightarrow> string list" where
  "listenAccept m = [tbt m, ''LA'', nm m, str_of (m_subscription m)]"

definition listenReject :: "message \<Rightarrow> string list" where
  "listenReject m = [tbt m, ''LR'', nm m, str_of (m_subscription m)]"

definition multipleSubscriptions :: "message \<Rightarrow> string list" where
  "multipleSubscriptions m = [tbt m, ''E'', ''MULTIPLE_SUBSCRIPTIONS'', nm m]"

section \<open>The table of builders\<close>

fun build_connection :: "connection_action \<Rightarrow> message \<Rightarrow> string list option" where
  "build_connection CA_ERROR m = Some (genericError m)"
| "build_connection CA_CHALLENGE m = Some [''C'', ''CH'']"
| "build_connection CA_ACCEPT m = Some [''C'', ''A'']"
| "build_connection CA_REJECTION m = Some [''C'', ''REJ'', str_of (m_data m)]"
| "build_connection CA_REDIRECT m = Some [''C'', ''RED'', str_of (m_data m)]"
| "build_connection CA_PING m = Some [''C'', ''PI'']"
| "build_connection CA_PONG m = Some [''C'', ''PO'']"
| "build_connection CA_AUTHENTICATION_TIMEOUT m = Some [''C'', ''E'', ''CONNECTION_AUTHENTICATION_TIMEOUT'']"
| "build_connection _ m = None"

fun build_auth :: "auth_action \<Rightarrow> message \<Rightarrow> string list option" where
  "build_auth AA_ERROR m = Some (genericError m)"
| "build_auth AA_REQUEST m = Some [''A'', ''REQ'', str_of (m_data m)]"
| "build_auth AA_AUTH_SUCCESSFUL m = Some ([''A'', ''A''] @ (if nonempty (m_data m) then [the (m_data m)] else []))"
| "build_auth AA_AUTH_UNSUCCESSFUL m = Some (invalidAuth m)"
| "build_auth AA_INVALID_MESSAGE_DATA m = Some (invalidAuth m)"
| "build_auth AA_TOO_MANY_AUTH_ATTEMPTS m = Some [''A'', ''E'', ''TOO_MANY_AUTH_ATTEMPTS'']"
| "build_auth _ m = None"

text \<open>\<open>name\<close> is the name of the message, or taken from the parser's map when the frame acknowledges a bulk message.\<close>

fun build_event :: "event_action \<Rightarrow> message \<Rightarrow> bool \<Rightarrow> string \<Rightarrow> string list option" where
  "build_event EA_ERROR m isAck name = Some (genericError m)"
| "build_event EA_SUBSCRIBE m isAck name = Some ([''E''] @ ack isAck @ [''S'', name])"
| "build_event EA_UNSUBSCRIBE m isAck name = Some ([''E''] @ ack isAck @ [''US'', name])"
| "build_event EA_EMIT m isAck name = Some [''E'', ''EVT'', nm m, if nonempty (m_data m) then the (m_data m) else ''U'']"
| "build_event EA_LISTEN m isAck name = Some (listen_frame m isAck)"
| "build_event EA_UNLISTEN m isAck name = Some (unlisten_frame m isAck)"
| "build_event EA_LISTEN_ACCEPT m isAck name = Some (listenAccept m)"
| "build_event EA_LISTEN_REJECT m isAck name = Some (listenReject m)"
| "build_event EA_SUBSCRIPTION_FOR_PATTERN_FOUND m isAck name = Some (subscriptionForPatternFound m)"
| "build_event EA_SUBSCRIPTION_FOR_PATTERN_REMOVED m isAck name = Some (subscriptionForPatternRemoved m)"
| "build_event EA_INVALID_MESSAGE_DATA m isAck name = Some (invalidMessageData m)"
| "build_event EA_MESSAGE_PERMISSION_ERROR m isAck name = Some (messagePermissionError m)"
| "build_event EA_NOT_SUBSCRIBED m isAck name = Some (notSubscribed m)"
| "build_event EA_MULTIPLE_SUBSCRIPTIONS m isAck name = Some (multipleSubscriptions m)"
| "build_event _ m isAck name = None"

fun build_record :: "record_action \<Rightarrow> message \<Rightarrow> bool \<Rightarrow> string \<Rightarrow> string \<Rightarrow> string list option" where
  "build_record RA_ERROR m isAck name version = Some (genericError m)"
| "build_record RA_HEAD m isAck name version = Some [''R'', ''HD'', nm m]"
| "build_record RA_HEAD_RESPONSE m isAck name version = Some [''R'', ''HD'', nm m, num_of (m_version m), ''null'']"
| "build_record RA_READ m isAck name version = Some [''R'', ''R'', nm m]"
| "build_record RA_READ_RESPONSE m isAck name version = Some [''R'', ''R'', nm m, num_of (m_version m), str_of (m_data m)]"
| "build_record RA_UPDATE m isAck name version = Some (recordUpdate m)"
| "build_record RA_PATCH m isAck name version = Some (recordPatch m)"
| "build_record RA_ERASE m isAck name version =
     Some ([''R'', ''P'', nm m, num_of (m_version m), str_of (m_path m), ''U''] @ WA m)"
| "build_record RA_CREATEANDUPDATE m isAck name version =
     Some ([''R'', ''CU'', nm m, num_of (m_version m), str_of (m_data m)] @ WA_or_NWA m)"
| "build_record RA_CREATEANDPATCH m isAck name version =
     Some ([''R'', ''CU'', nm m, num_of (m_version m), str_of (m_path m), str_of (m_data m)] @ WA_or_NWA m)"
| "build_record RA_DELETE m isAck name version = Some ([''R''] @ ack isAck @ [''D'', nm m])"
| "build_record RA_DELETED m isAck name version = Some [''R'', ''A'', ''D'', nm m]"
| "build_record RA_DELETE_SUCCESS m isAck name version = Some [''R'', ''A'', ''D'', nm m]"
| "build_record RA_SUBSCRIBECREATEANDREAD m isAck name version =
     Some (if isAck then [''R'', ''A'', ''S'', nm m] else [''R'', ''CR'', nm m])"
| "build_record RA_UNSUBSCRIBE m isAck name version = Some ([''R''] @ ack isAck @ [''US'', name])"
| "build_record RA_WRITE_ACKNOWLEDGEMENT m isAck name version = Some [''R'', ''WA'', nm m, ''['' @ version @ '']'', ''L'']"
| "build_record RA_LISTEN m isAck name version = Some (listen_frame m isAck)"
| "build_record RA_LISTEN_RESPONSE_TIMEOUT m isAck name version = Some [''C'', ''PO'']"
| "build_record RA_UNLISTEN m isAck name version = Some (unlisten_frame m isAck)"
| "build_record RA_LISTEN_ACCEPT m isAck name version = Some (listenAccept m)"
| "build_record RA_LISTEN_REJECT m isAck name version = Some (listenReject m)"
| "build_record RA_SUBSCRIPTION_FOR_PATTERN_FOUND m isAck name version = Some (subscriptionForPatternFound m)"
| "build_record RA_SUBSCRIPTION_FOR_PATTERN_REMOVED m isAck name version = Some (subscriptionForPatternRemoved m)"
| "build_record RA_SUBSCRIPTION_HAS_PROVIDER m isAck name version = Some [''R'', ''SH'', nm m, ''T'']"
| "build_record RA_SUBSCRIPTION_HAS_NO_PROVIDER m isAck name version = Some [''R'', ''SH'', nm m, ''F'']"
| "build_record RA_STORAGE_RETRIEVAL_TIMEOUT m isAck name version = Some [''R'', ''E'', ''STORAGE_RETRIEVAL_TIMEOUT'', nm m]"
| "build_record RA_CACHE_RETRIEVAL_TIMEOUT m isAck name version = Some [''R'', ''E'', ''CACHE_RETRIEVAL_TIMEOUT'', nm m]"
| "build_record RA_VERSION_EXISTS m isAck name version =
     Some ([''R'', ''E'', ''VERSION_EXISTS'', nm m, num_of (m_version m), str_of (m_data m)] @ WA m)"
| "build_record RA_RECORD_NOT_FOUND m isAck name version = Some [''R'', ''E'', ''RECORD_NOT_FOUND'', nm m]"
| "build_record RA_INVALID_MESSAGE_DATA m isAck name version = Some (invalidMessageData m)"
| "build_record RA_MESSAGE_PERMISSION_ERROR m isAck name version = Some (messagePermissionError m)"
| "build_record RA_NOT_SUBSCRIBED m isAck name version = Some (notSubscribed m)"
| "build_record RA_MULTIPLE_SUBSCRIPTIONS m isAck name version = Some (multipleSubscriptions m)"
| "build_record _ m isAck name version = None"

definition rpc_error :: "string \<Rightarrow> message \<Rightarrow> string list" where
  "rpc_error e m = [''P'', ''E'', e, nm m, str_of (m_corr m)]"

fun build_rpc :: "rpc_action \<Rightarrow> message \<Rightarrow> bool \<Rightarrow> string \<Rightarrow> string list option" where
  "build_rpc PA_ERROR m isAck name = Some (genericError m)"
| "build_rpc PA_PROVIDE m isAck name = Some ([''P''] @ ack isAck @ [''S'', name])"
| "build_rpc PA_UNPROVIDE m isAck name = Some ([''P''] @ ack isAck @ [''US'', name])"
| "build_rpc PA_REQUEST m isAck name = Some [''P'', ''REQ'', nm m, str_of (m_corr m), str_of (m_data m)]"
| "build_rpc PA_RESPONSE m isAck name = Some [''P'', ''RES'', nm m, str_of (m_corr m), str_of (m_data m)]"
| "build_rpc PA_REQUEST_ERROR m isAck name = Some [''P'', ''E'', str_of (m_data m), nm m, str_of (m_corr m)]"
| "build_rpc PA_REJECT m isAck name = Some [''P'', ''REJ'', nm m, str_of (m_corr m)]"
| "build_rpc PA_ACCEPT m isAck name = Some [''P'', ''A'', ''REQ'', nm m, str_of (m_corr m)]"
| "build_rpc PA_NO_RPC_PROVIDER m isAck name = Some (rpc_error ''NO_RPC_PROVIDER'' m)"
| "build_rpc PA_INVALID_RPC_CORRELATION_ID m isAck name = Some (rpc_error ''INVALID_RPC_CORRELATION_ID'' m)"
| "build_rpc PA_RESPONSE_TIMEOUT m isAck name = Some (rpc_error ''RESPONSE_TIMEOUT'' m)"
| "build_rpc PA_MULTIPLE_RESPONSE m isAck name = Some (rpc_error ''MULTIPLE_RESPONSE'' m)"
| "build_rpc PA_MULTIPLE_ACCEPT m isAck name = Some (rpc_error ''MULTIPLE_ACCEPT'' m)"
| "build_rpc PA_ACCEPT_TIMEOUT m isAck name = Some (rpc_error ''ACCEPT_TIMEOUT'' m)"
| "build_rpc PA_INVALID_MESSAGE_DATA m isAck name = Some (invalidMessageData m)"
| "build_rpc PA_MESSAGE_PERMISSION_ERROR m isAck name = Some (messagePermissionError m)"
| "build_rpc PA_NOT_PROVIDED m isAck name = Some (notSubscribed m)"
| "build_rpc PA_MULTIPLE_PROVIDERS m isAck name = Some (multipleSubscriptions m)"
| "build_rpc _ m isAck name = None"

definition presence_target :: "message \<Rightarrow> string" where
  "presence_target m = (if nonempty (m_name m) then the (m_name m) else str_of (m_data m))"

fun build_presence :: "presence_action \<Rightarrow> message \<Rightarrow> bool \<Rightarrow> string list option" where
  "build_presence UA_ERROR m isAck = Some (genericError m)"
| "build_presence UA_SUBSCRIBE m isAck = Some ([''U''] @ ack isAck @ [''S''] @ corr_part m @ [presence_target m])"
| "build_presence UA_SUBSCRIBE_ALL m isAck = Some ([''U''] @ ack isAck @ [''S'', ''S''])"
| "build_presence UA_UNSUBSCRIBE m isAck = Some ([''U''] @ ack isAck @ [''US''] @ corr_part m @ [presence_target m])"
| "build_presence UA_UNSUBSCRIBE_ALL m isAck = Some ([''U''] @ ack isAck @ [''US'', ''US''])"
| "build_presence UA_QUERY m isAck = Some [''U'', ''Q'', str_of (m_corr m), str_of (m_data m)]"
| "build_presence UA_QUERY_RESPONSE m isAck = Some [''U'', ''Q'', str_of (m_corr m), str_of (m_data m)]"
| "build_presence UA_QUERY_ALL m isAck = Some [''U'', ''Q'', ''Q'']"
| "build_presence UA_QUERY_ALL_RESPONSE m isAck = Some ([''U'', ''Q''] @ the (m_names m))"
| "build_presence UA_PRESENCE_JOIN m isAck = Some [''U'', ''PNJ'', nm m]"
| "build_presence UA_PRESENCE_JOIN_ALL m isAck = Some [''U'', ''PNJ'', nm m]"
| "build_presence UA_PRESENCE_LEAVE m isAck = Some [''U'', ''PNL'', nm m]"
| "build_presence UA_PRESENCE_LEAVE_ALL m isAck = Some [''U'', ''PNL'', nm m]"
| "build_presence UA_INVALID_PRESENCE_USERS m isAck = Some [''U'', ''E'', ''INVALID_PRESENCE_USERS'', str_of (m_data m)]"
| "build_presence UA_MESSAGE_PERMISSION_ERROR m isAck = Some (messagePermissionError m)"
| "build_presence UA_NOT_SUBSCRIBED m isAck = Some (notSubscribed m)"
| "build_presence UA_MULTIPLE_SUBSCRIPTIONS m isAck = Some (multipleSubscriptions m)"
| "build_presence _ m isAck = None"

section \<open>The builders that use the parser's maps\<close>

definition denied :: "action set" where
  "denied = {EventA EA_MESSAGE_DENIED, RecordA RA_MESSAGE_DENIED, RpcA PA_MESSAGE_DENIED, PresenceA UA_MESSAGE_DENIED}"

definition messageDenied :: "message \<Rightarrow> text_state \<Rightarrow> string list \<times> text_state" where
  "messageDenied m st =
     (let versioned = (m_topic m = T_RECORD \<and> nonempty (m_corr m));
          version = (if versioned then js_get (correlationIdToVersion st) (the (m_corr m)) else None);
          st1 = (if versioned then st\<lparr>correlationIdToVersion := js_delete (the (m_corr m)) (correlationIdToVersion st)\<rparr> else st);
          corr = (if versioned then [] else corr_part m)
      in ([tbt m, ''E'', ''MESSAGE_DENIED'', nm m] @ action_part (m_topic m) (m_action m) @
          (case m_original m of None \<Rightarrow> [] | Some a \<Rightarrow> [str_of (text_of (m_topic m) a)]) @ corr @
          (case version of None \<Rightarrow> [] | Some v \<Rightarrow> [jsnum_of (Some v)]), st1))"

text \<open>The actions whose acknowledgement names what the parser remembered under the correlation id.\<close>

definition bulk_acked :: "action set" where
  "bulk_acked = {EventA EA_SUBSCRIBE, EventA EA_UNSUBSCRIBE, RecordA RA_UNSUBSCRIBE, RpcA PA_PROVIDE, RpcA PA_UNPROVIDE}"

definition ack_name :: "message \<Rightarrow> bool \<Rightarrow> text_state \<Rightarrow> string \<times> text_state" where
  "ack_name m isAck st =
     (if isAck \<and> m_action m \<in> bulk_acked
      then (case m_corr m of
              None \<Rightarrow> (undef, st)
            | Some c \<Rightarrow> (json_of (case js_get (bulkNameToCorrelationId st) c of None \<Rightarrow> None | Some v \<Rightarrow> v),
                st\<lparr>bulkNameToCorrelationId := js_delete c (bulkNameToCorrelationId st)\<rparr>))
      else (nm m, st))"

definition build :: "message \<Rightarrow> bool \<Rightarrow> text_state \<Rightarrow> (string list \<times> text_state) option" where
  "build m isAck st =
     (if m_action m \<in> denied then Some (messageDenied m st)
      else (case ack_name m isAck st of (name, st1) \<Rightarrow>
        map_option (\<lambda>ps. (ps, st1))
          (case (m_topic m, m_action m) of
             (T_CONNECTION, ConnectionA a) \<Rightarrow> build_connection a m
           | (T_AUTH, AuthA a) \<Rightarrow> build_auth a m
           | (T_EVENT, EventA a) \<Rightarrow> build_event a m isAck name
           | (T_RECORD, RecordA a) \<Rightarrow>
               build_record a m isAck name (jsnum_of (Option.bind (m_corr m) (js_get (correlationIdToVersion st))))
           | (T_RPC, RpcA a) \<Rightarrow> build_rpc a m isAck name
           | (T_PRESENCE, PresenceA a) \<Rightarrow> build_presence a m isAck
           | _ \<Rightarrow> None)))"

section \<open>\<open>getMessage\<close>\<close>

fun typed :: "json \<Rightarrow> string" where
  "typed (JStr s) = CHR ''S'' # s"
| "typed JNull = ''L''"
| "typed (JArr kvs) = CHR ''O'' # stringify (JArr kvs)"
| "typed (JObj kvs) = CHR ''O'' # stringify (JObj kvs)"
| "typed (JNum i) = CHR ''N'' # int_str i"
| "typed (JBool b) = (if b then ''T'' else ''F'')"

text \<open>The data of the message is prepared in place; \<open>None\<close> is the exception of \<open>JSON.parse\<close>.\<close>

definition prepare_data :: "text_env \<Rightarrow> message \<Rightarrow> message option" where
  "prepare_data E m =
     (if \<not> truthy (m_parsed m) \<and> \<not> nonempty (m_data m) \<and>
         m_action m \<in> {RpcA PA_RESPONSE, RpcA PA_REQUEST, RecordA RA_PATCH, RecordA RA_ERASE}
      then Some (m\<lparr>m_data := Some ''U''\<rparr>)
      else if truthy (m_parsed m)
      then Some (m\<lparr>m_data := Some (if payload_of (m_topic m) (m_action m) = Some ENC_DEEPSTREAM then typed (the (m_parsed m))
                                 else stringify (the (m_parsed m)))\<rparr>)
      else if nonempty (m_data m) \<and> payload_of (m_topic m) (m_action m) = Some ENC_DEEPSTREAM
      then (case JSON_parse (te_float E) (the (m_data m)) of
              None \<Rightarrow> None
            | Some v \<Rightarrow> Some (m\<lparr>m_data := Some (typed v)\<rparr>))
      else Some m)"

definition getMessage :: "text_env \<Rightarrow> message \<Rightarrow> bool \<Rightarrow> text_state \<Rightarrow> (string \<times> text_state) option" where
  "getMessage E m isAck st =
     (case build m isAck st of
        None \<Rightarrow> Some ([], st)
      | Some _ \<Rightarrow>
          (case prepare_data E m of
             None \<Rightarrow> None
           | Some m1 \<Rightarrow> map_option (\<lambda>(ps, st1). (frame_of ps, st1)) (build m1 isAck st)))"

end
