(* ===== verification/TextProtocol.thy ===== *)
theory TextProtocol
  imports TextBuilder
begin

text \<open>
  What the two halves of the text protocol do with each other's output: the frames of the builder are
  split back into their parts, values survive the round trip, and what happens when they do not.
\<close>

section \<open>Splitting what was joined\<close>

abbreviation RS :: char where "RS \<equiv> MESSAGE_SEPERATOR"
abbreviation US :: char where "US \<equiv> MESSAGE_PART_SEPERATOR"

lemma separators: "RS \<noteq> US" "RS = CHR 0x1E" "US = CHR 0x1F"
  by (simp_all add: MESSAGE_SEPERATOR_def MESSAGE_PART_SEPERATOR_def)

definition no_sep :: "string \<Rightarrow> bool" where
  "no_sep s \<longleftrightarrow> RS \<notin> set s \<and> US \<notin> set s"

lemma split_on_none: "d \<notin> set p \<Longrightarrow> split_on d p = [p]"
  by (induction p) auto

lemma split_on_append: "d \<notin> set p \<Longrightarrow> split_on d (p @ d # r) = p # split_on d r"
  by (induction p) auto

lemma split_join: "ps \<noteq> [] \<Longrightarrow> \<forall>p \<in> set ps. US \<notin> set p \<Longrightarrow> split_on US (join_parts ps) = ps"
  by (induction ps rule: join_parts.induct) (simp_all add: split_on_none split_on_append)

lemma join_no_RS: "\<forall>p \<in> set ps. RS \<notin> set p \<Longrightarrow> RS \<notin> set (join_parts ps)"
  by (induction ps rule: join_parts.induct) (auto simp: separators)

lemma text_parse_frame_of:
  assumes "\<forall>p \<in> set ps. no_sep p"
  shows "text_parse E (frame_of ps) st =
    (case parse_frame E (join_parts ps) st of
       (Throws, st1) \<Rightarrow> (None, st1) | (Skips, st1) \<Rightarrow> (Some [], st1) | (Makes m, st1) \<Rightarrow> (Some [m], st1))"
proof -
  have "RS \<notin> set (join_parts ps)" using assms by (intro join_no_RS) (simp add: no_sep_def)
  then have "split_on RS (frame_of ps) = [join_parts ps, []]" by (simp add: frame_of_def split_on_append)
  then show ?thesis by (simp add: text_parse_def parse_frame_def split_beta split: outcome.split prod.split)
qed

text \<open>A frame of parts without separators, of a topic with actions.\<close>

lemma parse_frame_parts:
  assumes "\<forall>p \<in> set ps. no_sep p" and "3 \<le> length (join_parts ps)" and "ps = tp # rest"
    and "read_prop TOPIC_TEXT_TO_BYTE tp = Own t" and "ACTIONS t = Some es"
    and "rest = act # args" and "act \<noteq> ''A''" and "act \<noteq> ''E''"
    and "frame_action es t False False (Some act) = Some a"
  shows "parse_frame E (join_parts ps) st =
    (case parse_topic E ps (Some act) 2 (blank t a False False) of
       Throws \<Rightarrow> (Throws, st) | Skips \<Rightarrow> (Skips, st)
     | Makes m \<Rightarrow> (case give_id E m st of (m1, st1) \<Rightarrow> (Makes (fst (parseData E m1)), st1)))"
proof -
  have s: "split_on US (join_parts ps) = ps"
    using assms(1,3) by (intro split_join) (auto simp: no_sep_def)
  have p: "part ps 1 = Some act" "part ps (Suc 0) = Some act" using assms(3,6) by (simp_all add: part_def)
  show ?thesis
    unfolding parse_frame_def Let_def s using assms(2-) p
    by (simp add: numeral_2_eq_2)
qed

section \<open>Values\<close>

lemma typed_back:
  assumes "json_ok v"
  shows "convertTyped E (typed v) = TVal v"
proof (cases v)
  case (JNum i)
  then show ?thesis using int_lit_str [of i] by (simp add: convertTyped_def parseFloat_def)
next
  case (JArr kvs)
  then show ?thesis using parse_after_stringify_lemma [OF assms]
    by (simp add: convertTyped_def del: stringify.simps)
next
  case (JObj kvs)
  then show ?thesis using parse_after_stringify_lemma [OF assms]
    by (simp add: convertTyped_def del: stringify.simps)
qed (simp_all add: convertTyped_def)

text \<open>\<open>convertTyped\<close> reads back every value that \<open>typed\<close> wrote.\<close>

theorem convertTyped_typed:
  assumes "json_ok v"
  shows "convertTyped E (typed v) = TVal v"
  using assms by (rule typed_back)

theorem convertTyped_typed_witness:
  "convertTyped \<lparr>te_float = \<lambda>_. None, te_parseFloat = \<lambda>_. JNull, te_number = \<lambda>_. JsNaN, te_uid = nat_str\<rparr>
     (typed (JObj [(''a'', JNum 7)])) = TVal (JObj [(''a'', JNum 7)])"
  by (rule convertTyped_typed) simp

section \<open>Messages\<close>

text \<open>A value whose text holds no separator: only a bare string is written as it is.\<close>

definition sendable :: "json \<Rightarrow> bool" where
  "sendable v \<longleftrightarrow> json_ok v \<and> (case v of JStr s \<Rightarrow> no_sep s | _ \<Rightarrow> True)"

lemma no_sep_stringify: "no_sep (stringify v)"
  using stringify_printable [of RS v] stringify_printable [of US v] by (simp add: no_sep_def separators)

lemma no_sep_int: "no_sep (int_str i)"
  using int_str_printable [of i] by (auto simp: no_sep_def separators list_all_iff printable_def)

lemma no_sep_typed: "sendable v \<Longrightarrow> no_sep (typed v)"
  using no_sep_stringify [of v] no_sep_int
  by (cases v) (auto simp: sendable_def no_sep_def separators simp del: stringify.simps)

lemma typed_nonempty: "typed v \<noteq> []" by (cases v) simp_all

lemma stringify_nonempty: "stringify v \<noteq> []" using stringify_length [of v] by simp

lemma no_sep_texts: "no_sep ''E''" "no_sep ''EVT''" "no_sep ''P''" "no_sep ''REQ''" "no_sep ''R''" "no_sep ''U''" "no_sep writeConfig"
  using no_sep_stringify by (simp_all add: no_sep_def separators writeConfig_def del: stringify.simps)

lemma topic_lookups: "read_prop TOPIC_TEXT_TO_BYTE ''E'' = Own T_EVENT" "read_prop TOPIC_TEXT_TO_BYTE ''P'' = Own T_RPC"
  "read_prop TOPIC_TEXT_TO_BYTE ''R'' = Own T_RECORD" "read_prop TOPIC_TEXT_TO_BYTE ''X'' = Own T_ERROR"
  "read_prop TOPIC_TEXT_TO_BYTE ''U'' = Own T_PRESENCE"
  by code_simp+

lemma action_lookups: "frame_action EVENT_ACTIONS T_EVENT False False (Some ''EVT'') = Some (EventA EA_EMIT)"
  "frame_action RPC_ACTIONS T_RPC False False (Some ''REQ'') = Some (RpcA PA_REQUEST)"
  "frame_action RECORD_ACTIONS T_RECORD False False (Some ''U'') = Some (RecordA RA_UPDATE)"
  by code_simp+

lemma payload_lookups: "payload_of T_EVENT (EventA EA_EMIT) = Some ENC_DEEPSTREAM"
  "payload_of T_RPC (RpcA PA_REQUEST) = Some ENC_DEEPSTREAM" "payload_of T_RECORD (RecordA RA_UPDATE) = Some ENC_JSON"
  by code_simp+

definition emit_msg :: "string \<Rightarrow> json \<Rightarrow> message" where
  "emit_msg n v = (msg T_EVENT (EventA EA_EMIT))\<lparr>m_name := Some n, m_parsed := Some v\<rparr>"

lemma getMessage_emit:
  "truthy (Some v) \<Longrightarrow> getMessage E (emit_msg n v) False st = Some (frame_of [''E'', ''EVT'', n, typed v], st)"
  by (simp add: getMessage_def build_def ack_name_def denied_def emit_msg_def msg_def prepare_data_def payload_lookups nm_def
      str_of_def nonempty_def typed_nonempty)

definition emit_parsed :: "text_env \<Rightarrow> string \<Rightarrow> json \<Rightarrow> text_state \<Rightarrow> text_msg" where
  "emit_parsed E n v st = (blank T_EVENT (EventA EA_EMIT) False False)\<lparr>x_name := Some n, x_names := Some (names_of_name (Some n)),
     x_data := Some (stringify v), x_corr := Some (te_uid E (nextUid st)), x_parsed := Some v\<rparr>"

definition emit_known :: "text_env \<Rightarrow> string \<Rightarrow> text_state \<Rightarrow> text_state" where
  "emit_known E n st = st\<lparr>nextUid := Suc (nextUid st),
     bulkNameToCorrelationId := js_set (te_uid E (nextUid st)) (Some (JStr n)) (bulkNameToCorrelationId st)\<rparr>"

lemma emit_parts: "no_sep n \<Longrightarrow> sendable v \<Longrightarrow> \<forall>p \<in> set [''E'', ''EVT'', n, typed v]. no_sep p"
  using no_sep_typed no_sep_texts by simp

lemma parse_emit:
  assumes "no_sep n" and "sendable v"
  shows "parse_frame E (join_parts [''E'', ''EVT'', n, typed v]) st = (Makes (emit_parsed E n v st), emit_known E n st)"
proof -
  let ?ps = "[''E'', ''EVT'', n, typed v]"
  have ct: "convertTyped E (typed v) = TVal v" using assms(2) by (intro typed_back) (simp add: sendable_def)
  have "parse_frame E (join_parts ?ps) st =
      (case parse_topic E ?ps (Some ''EVT'') 2 (blank T_EVENT (EventA EA_EMIT) False False) of
         Throws \<Rightarrow> (Throws, st) | Skips \<Rightarrow> (Skips, st)
       | Makes m \<Rightarrow> (case give_id E m st of (m1, st2) \<Rightarrow> (Makes (fst (parseData E m1)), st2)))"
    by (rule parse_frame_parts [OF emit_parts [OF assms] _ refl topic_lookups(1) _ refl _ _ action_lookups(1)]) simp_all
  then show ?thesis
    by (simp add: parse_topic_def parse_event_def blank_def named_def listen_actions_def part_def give_id_def names_of_name_def
        first_name_def parseData_def payload_lookups ct nonempty_def typed_nonempty Let_def emit_parsed_def emit_known_def)
qed


definition plain_text_env :: text_env where
  "plain_text_env = \<lparr>te_float = \<lambda>_. None, te_parseFloat = \<lambda>_. JNull, te_number = \<lambda>_. JsNaN, te_uid = nat_str\<rparr>"

definition fresh_text_state :: text_state where
  "fresh_text_state = \<lparr>correlationIdToVersion = [], bulkNameToCorrelationId = [], nextUid = 0\<rparr>"


definition update_msg :: "string \<Rightarrow> int \<Rightarrow> json \<Rightarrow> bool \<Rightarrow> message" where
  "update_msg n ver v wa = (msg T_RECORD (RecordA RA_UPDATE))
     \<lparr>m_name := Some n, m_version := Some ver, m_parsed := Some v, m_writeack := wa\<rparr>"

lemma getMessage_update:
  "truthy (Some v) \<Longrightarrow> getMessage E (update_msg n ver v wa) False st =
    Some (frame_of ([''R'', ''U'', n, int_str ver, stringify v] @ (if wa then [writeConfig] else [])), st)"
  by (simp add: getMessage_def build_def ack_name_def denied_def update_msg_def msg_def prepare_data_def payload_lookups nm_def
      str_of_def num_of_def recordUpdate_def WA_def)

text \<open>An update of a record keeps its name, version, data and the wish for a write acknowledgement on the
  way through the text protocol, unless it wants none and its data is just the text of the option that
  asks for one.\<close>

theorem update_roundtrip:
  assumes "no_sep n" and "json_ok v" and "truthy (Some v)" and "wa \<or> stringify v \<noteq> writeConfig"
  shows "\<exists>b m st2. getMessage E (update_msg n ver v wa) False st = Some (b, st) \<and> text_parse E' b st1 = (Some [m], st2) \<and>
    x_topic m = T_RECORD \<and> x_action m = RecordA RA_UPDATE \<and> x_name m = Some n \<and> x_version m = Some (JsNum ver) \<and>
    x_isWriteAck m = Some wa \<and> x_parsed m = Some v \<and>
    js_get (correlationIdToVersion st2) (the (x_corr m)) = Some (JsNum ver)"
proof -
  let ?ps = "[''R'', ''U'', n, int_str ver, stringify v] @ (if wa then [writeConfig] else [])"
  have ps: "\<forall>p \<in> set ?ps. no_sep p" using assms(1) no_sep_stringify no_sep_int no_sep_texts by simp
  have jp: "JSON_parse (te_float E') (stringify v) = Some v" by (rule parse_after_stringify_lemma [OF assms(2)])
  have num: "js_number E' (Some (int_str ver)) = JsNum ver" by (simp add: js_number_def int_lit_str)
  have last: "(last ?ps = writeConfig) = wa" using assms(4) by auto
  have r: "parse_frame E' (join_parts ?ps) st1 =
      (case parse_topic E' ?ps (Some ''U'') 2 (blank T_RECORD (RecordA RA_UPDATE) False False) of
         Throws \<Rightarrow> (Throws, st1) | Skips \<Rightarrow> (Skips, st1)
       | Makes m \<Rightarrow> (case give_id E' m st1 of (m1, st2) \<Rightarrow> (Makes (fst (parseData E' m1)), st2)))"
    by (rule parse_frame_parts [OF ps _ _ topic_lookups(3) _ refl _ _ action_lookups(3)]) (simp_all del: stringify.simps)
  have topic: "parse_topic E' ?ps (Some ''U'') 2 (blank T_RECORD (RecordA RA_UPDATE) False False) =
      Makes ((blank T_RECORD (RecordA RA_UPDATE) False False)\<lparr>x_name := Some n, x_names := Some (names_of_name (Some n)),
        x_isWriteAck := Some wa, x_version := Some (JsNum ver), x_data := Some (stringify v)\<rparr>)"
    using last num
    by (simp add: parse_topic_def parse_record_def blank_def named_def part_def Let_def del: stringify.simps)
  have "\<exists>m st2. text_parse E' (frame_of ?ps) st1 = (Some [m], st2) \<and>
      x_topic m = T_RECORD \<and> x_action m = RecordA RA_UPDATE \<and> x_name m = Some n \<and> x_version m = Some (JsNum ver) \<and>
      x_isWriteAck m = Some wa \<and> x_parsed m = Some v \<and>
      js_get (correlationIdToVersion st2) (the (x_corr m)) = Some (JsNum ver)"
    unfolding text_parse_frame_of [OF ps] r topic
    by (simp add: give_id_def names_of_name_def blank_def parseData_def payload_lookups jp nonempty_def stringify_nonempty
        Let_def js_simps del: stringify.simps)
  then show ?thesis using getMessage_update [OF assms(3), of E n ver wa st] by blast
qed

theorem update_roundtrip_witness:
  "\<exists>b m st2. getMessage plain_text_env (update_msg ''r'' 3 (JObj [(''a'', JNum 1)]) True) False fresh_text_state = Some (b, fresh_text_state) \<and>
    text_parse plain_text_env b fresh_text_state = (Some [m], st2) \<and> x_topic m = T_RECORD \<and> x_action m = RecordA RA_UPDATE \<and>
    x_name m = Some ''r'' \<and> x_version m = Some (JsNum 3) \<and> x_isWriteAck m = Some True \<and>
    x_parsed m = Some (JObj [(''a'', JNum 1)]) \<and> js_get (correlationIdToVersion st2) (the (x_corr m)) = Some (JsNum 3)"
proof (rule update_roundtrip)
  show "no_sep ''r''" by (simp add: no_sep_def separators)
qed simp_all

section \<open>Frames inside a payload\<close>

lemma split_on_app: "split_on d (p @ d # r) = split_on d p @ split_on d r"
proof (induction p)
  case (Cons c p)
  have "split_on d p \<noteq> []" by (induction p) (auto split: list.split)
  then show ?case using Cons by (auto split: list.split)
qed simp

text \<open>A bare string is written as it is, separators included: an event whose payload is a string with a
  record separator is read by a text client as an event with the part before it, and the rest as
  another frame, which may be any message of the sender's choice.\<close>

theorem payload_injects_frame:
  assumes "no_sep n" and "no_sep a" and "RS \<notin> set f"
  shows "\<exists>b st2 m. getMessage E (emit_msg n (JStr (a @ RS # f))) False st = Some (b, st) \<and>
    x_action m = EventA EA_EMIT \<and> x_parsed m = Some (JStr a) \<and>
    text_parse E' b st1 =
      (case parse_frame E' f st2 of
         (Throws, st3) \<Rightarrow> (None, st3) | (Skips, st3) \<Rightarrow> (Some [m], st3) | (Makes m', st3) \<Rightarrow> (Some [m, m'], st3))"
proof -
  let ?v = "JStr (a @ RS # f)"
  let ?b = "frame_of [''E'', ''EVT'', n, typed ?v]"
  let ?first = "join_parts [''E'', ''EVT'', n, typed (JStr a)]"
  have s: "sendable (JStr a)" using assms(2) by (simp add: sendable_def)
  have eq: "?b = ?first @ RS # f @ [RS]" by (simp add: frame_of_def)
  have nf: "RS \<notin> set ?first"
    using emit_parts [OF assms(1) s] by (intro join_no_RS) (simp add: no_sep_def)
  have sf: "split_on RS (f @ [RS]) = [f, []]" using assms(3) by (simp add: split_on_append)
  have sp: "split_on RS ?b = [?first, f, []]" unfolding eq split_on_append [OF nf] sf by (rule refl)
  have empty: "parse_frame E' [] st = (Skips, st)" for st by (simp add: parse_frame_def)
  have "text_parse E' ?b st1 =
      (case parse_frame E' f (emit_known E' n st1) of
         (Throws, st3) \<Rightarrow> (None, st3) | (Skips, st3) \<Rightarrow> (Some [emit_parsed E' n (JStr a) st1], st3)
       | (Makes m', st3) \<Rightarrow> (Some [emit_parsed E' n (JStr a) st1, m'], st3))"
    unfolding text_parse_def sp parse_frames.simps(2) [of E' ?first] parse_emit [OF assms(1) s] outcome.case prod.case
    by (simp add: empty split: outcome.split prod.split)
  moreover have "truthy (Some ?v)" by simp
  ultimately show ?thesis using getMessage_emit [of ?v E n st]
    by (intro exI [of _ ?b] exI [of _ "emit_known E' n st1"] exI [of _ "emit_parsed E' n (JStr a) st1"])
      (simp add: emit_parsed_def blank_def)
qed

theorem payload_injects_frame_witness:
  "\<exists>b st2 m. getMessage plain_text_env (emit_msg ''n'' (JStr (''a'' @ RS # join_parts [''R'', ''D'', ''x'']))) False fresh_text_state =
      Some (b, fresh_text_state) \<and> x_action m = EventA EA_EMIT \<and> x_parsed m = Some (JStr ''a'') \<and>
    text_parse plain_text_env b fresh_text_state =
      (case parse_frame plain_text_env (join_parts [''R'', ''D'', ''x'']) st2 of
         (Throws, st3) \<Rightarrow> (None, st3) | (Skips, st3) \<Rightarrow> (Some [m], st3) | (Makes m', st3) \<Rightarrow> (Some [m, m'], st3))"
  by (rule payload_injects_frame) (simp_all add: no_sep_def separators)

section \<open>Packets that throw\<close>

lemma parse_frames_throws: "f \<in> set fs \<Longrightarrow> (\<And>st. fst (parse_frame E f st) = Throws) \<Longrightarrow> fst (parse_frames E fs st) = None"
proof (induction fs arbitrary: st)
  case (Cons g fs)
  show ?case
  proof (cases "g = f")
    case True
    then show ?thesis using Cons.prems(2) [of st] by (cases "parse_frame E f st") simp
  next
    case False
    then have "fst (parse_frames E fs st) = None" for st using Cons by simp
    then show ?thesis by (simp split: prod.split outcome.split) (metis fst_conv option.map_disc_iff)
  qed
qed simp

text \<open>A packet with a frame of topic \<open>X\<close>, or with the name of a property that every JavaScript object has in
  place of a topic, makes the parser read the actions of a topic that has none and throw, and the
  other frames of the packet are lost with it, wherever they stand.\<close>

theorem bad_topic_throws:
  assumes "t = ''X'' \<or> t \<in> set object_prototype" and "RS \<notin> set r" and "r \<noteq> []"
  shows "fst (text_parse E (before @ RS # (t @ US # r) @ RS # after) st) = None"
proof -
  have t: "RS \<notin> set t" "US \<notin> set t" "t \<noteq> []" using assms(1) by (auto simp: object_prototype_def separators)
  let ?f = "t @ US # r"
  have "RS \<notin> set ?f" using t assms(2) separators(1) by auto
  then have "split_on RS (before @ RS # ?f @ RS # after) = split_on RS before @ ?f # split_on RS after"
    by (simp add: split_on_app split_on_append [of RS ?f, simplified])
  then have mem: "?f \<in> set (split_on RS (before @ RS # ?f @ RS # after))" by simp
  have hd: "hd (split_on US ?f) = t" using t by (simp add: split_on_append)
  have len: "\<not> length ?f < 3" using t(3) assms(3) by (cases t; cases r) auto
  have "fst (parse_frame E ?f st) = Throws" for st
  proof (cases "t = ''X''")
    case True
    then show ?thesis using hd len by (simp add: parse_frame_def Let_def topic_lookups del: split_on.simps)
  next
    case False
    then have "read_prop TOPIC_TEXT_TO_BYTE t = Inherited"
      using assms(1) by (auto simp: object_prototype_def read_prop_def TOPIC_TEXT_TO_BYTE_def convertMap_def TOPICS_def)
    then show ?thesis using hd len by (simp add: parse_frame_def Let_def del: split_on.simps)
  qed
  then show ?thesis unfolding text_parse_def by (rule parse_frames_throws [OF mem])
qed

theorem bad_topic_throws_witness:
  "fst (text_parse plain_text_env (frame_of [''E'', ''EVT'', ''n'', ''T''] @ RS # (''X'' @ US # ''E'') @ RS # []) fresh_text_state) = None"
  by (rule bad_topic_throws) (simp_all add: separators)

section \<open>The types of parsed messages\<close>

text \<open>The action belongs to the topic.\<close>

fun fits :: "topic \<Rightarrow> action \<Rightarrow> bool" where
  "fits t UndefinedA = True"
| "fits t (RecordA a) = (t = T_RECORD)"
| "fits t (EventA a) = (t = T_EVENT)"
| "fits t (RpcA a) = (t = T_RPC)"
| "fits t (PresenceA a) = (t = T_PRESENCE)"
| "fits t (ConnectionA a) = (t = T_CONNECTION)"
| "fits t (AuthA a) = (t = T_AUTH)"
| "fits t (ParserA a) = (t = T_PARSER)"

lemma table_fits: "ACTIONS t = Some es \<Longrightarrow> (x, a, p) \<in> set es \<Longrightarrow> fits t a"
proof -
  have "list_all (\<lambda>(x, a, p). fits t a) es" if "ACTIONS t = Some es" for es
    using that by (cases t) (auto simp: PARSER_ACTIONS_def CONNECTION_ACTIONS_def AUTH_ACTIONS_def EVENT_ACTIONS_def
        RECORD_ACTIONS_def RPC_ACTIONS_def PRESENCE_ACTIONS_def)
  then show "ACTIONS t = Some es \<Longrightarrow> (x, a, p) \<in> set es \<Longrightarrow> fits t a" by (auto simp: list_all_iff)
qed

lemma convertMap_values: "js_get (convertMap f g es) k = Some v \<Longrightarrow> \<exists>e \<in> set es. v = g e"
proof -
  have "js_get (foldl (\<lambda>m e. js_set (f e) (g e) m) m es) k = Some v \<Longrightarrow> js_get m k = Some v \<or> (\<exists>e \<in> set es. v = g e)" for m
  proof (induction es arbitrary: m)
    case (Cons e es)
    then show ?case using Cons.IH [of "js_set (f e) (g e) m"] by (auto simp: js_simps split: if_splits)
  qed simp
  from this [of "[]"] show "js_get (convertMap f g es) k = Some v \<Longrightarrow> \<exists>e \<in> set es. v = g e" by (simp add: convertMap_def)
qed

lemma frame_action_fits: "ACTIONS t = Some es \<Longrightarrow> frame_action es t isAck isErr r = Some a \<Longrightarrow> fits t a"
proof -
  assume es: "ACTIONS t = Some es" and a: "frame_action es t isAck isErr r = Some a"
  show "fits t a"
  proof (cases "js_get (ACTIONS_TEXT_TO_BYTE es) (property r)")
    case (Some b)
    then have "a = b" using a by (simp add: frame_action_def read_prop_def)
    moreover obtain e where "e \<in> set es" "b = (case e of (t, a, p) \<Rightarrow> a)"
      using convertMap_values [OF Some [unfolded ACTIONS_TEXT_TO_BYTE_def]] by blast
    ultimately show ?thesis using table_fits [OF es] by (auto split: prod.splits)
  next
    case None
    then have "a = UndefinedA" using a by (auto simp: frame_action_def read_prop_def split: if_splits)
    then show ?thesis by simp
  qed
qed

lemma parse_topic_fits:
  assumes "parse_topic E ps r i m = Makes m'" and "fits (x_topic m) (x_action m)"
  shows "fits (x_topic m') (x_action m')"
  using assms
  by (cases "x_topic m")
    (auto simp: parse_topic_def parse_record_def parse_event_def parse_rpc_def parse_presence_def parse_connection_def
      parse_auth_def named_def names_from_def Let_def split: if_splits option.splits)

lemma parse_frame_fits: "parse_frame E f st = (Makes m, st1) \<Longrightarrow> fits (x_topic m) (x_action m)"
proof -
  assume p: "parse_frame E f st = (Makes m, st1)"
  then obtain t es isAck isErr r a i m0 where
    *: "ACTIONS t = Some es" "frame_action es t isAck isErr r = Some a"
      "parse_topic E (split_on US f) r i (blank t a isAck isErr) = Makes m0" "m = fst (parseData E (fst (give_id E m0 st)))"
    by (auto simp: parse_frame_def Let_def split: if_splits js_prop.splits option.splits outcome.splits prod.splits)
  have "fits (x_topic m0) (x_action m0)"
    using frame_action_fits [OF *(1,2)] by (intro parse_topic_fits [OF *(3)]) (simp add: blank_def)
  moreover have "x_topic (fst (give_id E m0 st)) = x_topic m0" "x_action (fst (give_id E m0 st)) = x_action m0"
    by (simp_all add: give_id_def Let_def split: option.split)
  moreover have "x_topic (fst (parseData E n)) = x_topic n" "x_action (fst (parseData E n)) = x_action n" for n
    by (auto simp: parseData_def Let_def split: option.split typed_value.split)
  ultimately show ?thesis using *(4) by simp
qed

text \<open>Whatever a client sends, each message the parser makes of it has an action of the enum of its topic, or
  none.\<close>

theorem parsed_actions_fit:
  assumes "text_parse E raw st = (Some ms, st')" and "m \<in> set ms"
  shows "fits (x_topic m) (x_action m)"
proof -
  have "\<forall>m \<in> set ms. fits (x_topic m) (x_action m)" if "parse_frames E fs st = (Some ms, st')" for fs ms st
    using that
  proof (induction fs arbitrary: st ms)
    case (Cons f fs)
    then show ?case using parse_frame_fits by (fastforce split: prod.splits outcome.splits)
  qed simp
  then show ?thesis using assms by (auto simp: text_parse_def)
qed

theorem parsed_actions_fit_witness:
  "fits T_EVENT (EventA EA_EMIT)"
proof -
  obtain m where "text_parse plain_text_env (frame_of [''E'', ''EVT'', ''n'', ''T'']) fresh_text_state = (Some [m], emit_known plain_text_env ''n'' fresh_text_state)"
    "x_topic m = T_EVENT" "x_action m = EventA EA_EMIT"
  proof
    show "text_parse plain_text_env (frame_of [''E'', ''EVT'', ''n'', ''T'']) fresh_text_state =
        (Some [emit_parsed plain_text_env ''n'' (JBool True) fresh_text_state], emit_known plain_text_env ''n'' fresh_text_state)"
      by code_simp
  qed (simp_all add: emit_parsed_def blank_def)
  then show ?thesis using parsed_actions_fit [of plain_text_env _ fresh_text_state "[m]" _ m] by fastforce
qed

section \<open>Falsy payloads\<close>

text \<open>An event whose payload was given as a value and is falsy (0, false, the empty string, null) reaches a
  text client with no payload at all.\<close>

theorem falsy_payload_lost:
  assumes "no_sep n" and "\<not> truthy (Some v)"
  shows "\<exists>b m st2. getMessage E (emit_msg n v) False st = Some (b, st) \<and> text_parse E' b st1 = (Some [m], st2) \<and>
    x_action m = EventA EA_EMIT \<and> x_name m = Some n \<and> x_data m = None \<and> x_parsed m = None"
proof -
  let ?ps = "[''E'', ''EVT'', n, ''U'']"
  have g: "getMessage E (emit_msg n v) False st = Some (frame_of ?ps, st)"
    using assms(2) by (simp add: getMessage_def build_def ack_name_def denied_def emit_msg_def msg_def prepare_data_def nm_def
        str_of_def nonempty_def)
  have ps: "\<forall>p \<in> set ?ps. no_sep p" using assms(1) no_sep_texts by simp
  have r: "parse_frame E' (join_parts ?ps) st1 =
      (case parse_topic E' ?ps (Some ''EVT'') 2 (blank T_EVENT (EventA EA_EMIT) False False) of
         Throws \<Rightarrow> (Throws, st1) | Skips \<Rightarrow> (Skips, st1)
       | Makes m \<Rightarrow> (case give_id E' m st1 of (m1, st2) \<Rightarrow> (Makes (fst (parseData E' m1)), st2)))"
    by (rule parse_frame_parts [OF ps _ refl topic_lookups(1) _ refl _ _ action_lookups(1)]) simp_all
  have "\<exists>m st2. text_parse E' (frame_of ?ps) st1 = (Some [m], st2) \<and> x_action m = EventA EA_EMIT \<and> x_name m = Some n \<and>
      x_data m = None \<and> x_parsed m = None"
    unfolding text_parse_frame_of [OF ps] r
    by (simp add: parse_topic_def parse_event_def blank_def named_def listen_actions_def part_def give_id_def names_of_name_def
        first_name_def parseData_def payload_lookups convertTyped_def nonempty_def Let_def)
  then show ?thesis using g by blast
qed

theorem falsy_payload_lost_witness:
  "\<exists>b m st2. getMessage plain_text_env (emit_msg ''n'' (JNum 0)) False fresh_text_state = Some (b, fresh_text_state) \<and>
    text_parse plain_text_env b fresh_text_state = (Some [m], st2) \<and>
    x_action m = EventA EA_EMIT \<and> x_name m = Some ''n'' \<and> x_data m = None \<and> x_parsed m = None"
  by (rule falsy_payload_lost) (simp_all add: no_sep_def separators)

end
