(* ===== verification/RuleParser.thy ===== *)
theory RuleParser
  imports TextConstants JsonPath
begin

text \<open>
  The rules of the Valve permissions (\<open>src/services/permission/valve\<close>): the map from actions to kinds
  of rules (\<open>rules-map.ts\<close>), the paths rules are declared for (\<open>path-parser.ts\<close>) and the text of a rule
  (\<open>rule-parser.ts\<close>). The regular expressions of the source are scanners over strings. A path becomes
  a regular expression; its meaning is given here when it holds only literals, dots, wildcards and
  variables, and by the parameter \<open>ve_regexp\<close> otherwise. The functions that JavaScript makes of the text
  of a rule are the parameter \<open>ve_function\<close>.
\<close>

section \<open>Functions of rules\<close>

text \<open>
  What a call of a rule's function does: it returns a value, throws, or calls \<open>_\<close> with an argument and
  goes on with the answer. \<open>None\<close> is \<open>undefined\<close>.
\<close>

datatype rule_run =
    Returns "json option"
  | Raise string
  | Cross "json option" "json option \<Rightarrow> rule_run"

record rule_args =
  arg_user :: json
  arg_data :: "json option"
  arg_oldData :: "json option"
  arg_now :: int
  arg_action :: action
  arg_name :: "string option"
  arg_vars :: "string list option"

type_synonym rule_fn = "rule_args \<Rightarrow> rule_run"

text \<open>\<open>new Function(args, body)\<close>, a syntax error being \<open>Inl\<close>, and \<open>new RegExp(source)\<close> applied to a string:
  the captured groups of a match; a syntax error is \<open>None\<close>.\<close>

record valve_env =
  ve_function :: "string list \<Rightarrow> string \<Rightarrow> string + rule_fn"
  ve_regexp :: "string \<Rightarrow> (string \<Rightarrow> string list option) option"

section \<open>The map of rules\<close>

record rule_type =
  rt_name :: string
  rt_data :: bool
  rt_oldData :: bool

definition rule_type :: "string \<Rightarrow> bool \<Rightarrow> bool \<Rightarrow> rule_type" where
  "rule_type n d od = \<lparr>rt_name = n, rt_data = d, rt_oldData = od\<rparr>"

definition RULE_TYPES :: "(string, rule_type) jsmap" where
  "RULE_TYPES =
     [(''CREATE'', rule_type ''create'' False False), (''READ'', rule_type ''read'' False True),
      (''WRITE'', rule_type ''write'' True True), (''DELETE'', rule_type ''delete'' False True),
      (''LISTEN'', rule_type ''listen'' False False), (''NOTIFY'', rule_type ''notify'' False False),
      (''PUBLISH'', rule_type ''publish'' True False), (''SUBSCRIBE'', rule_type ''subscribe'' True False),
      (''PROVIDE'', rule_type ''provide'' False False), (''REQUEST'', rule_type ''request'' True False),
      (''ALLOW'', rule_type ''allow'' False False)]"

text \<open>The section of a topic, and the entry of \<open>RULE_TYPES\<close> of each action that has one.\<close>

fun RULES_MAP :: "topic \<Rightarrow> (string \<times> (action, string) jsmap) option" where
  "RULES_MAP T_RECORD = Some (''record'',
     [(RecordA RA_SUBSCRIBE, ''READ''), (RecordA RA_SUBSCRIBEANDHEAD, ''READ''), (RecordA RA_SUBSCRIBEANDREAD, ''READ''),
      (RecordA RA_READ, ''READ''), (RecordA RA_HEAD, ''READ''), (RecordA RA_LISTEN, ''LISTEN''),
      (RecordA RA_CREATE, ''CREATE''), (RecordA RA_UPDATE, ''WRITE''), (RecordA RA_PATCH, ''WRITE''),
      (RecordA RA_NOTIFY, ''NOTIFY''), (RecordA RA_DELETE, ''DELETE'')])"
| "RULES_MAP T_EVENT = Some (''event'',
     [(EventA EA_LISTEN, ''LISTEN''), (EventA EA_SUBSCRIBE, ''SUBSCRIBE''), (EventA EA_EMIT, ''PUBLISH'')])"
| "RULES_MAP T_RPC = Some (''rpc'', [(RpcA PA_PROVIDE, ''PROVIDE''), (RpcA PA_REQUEST, ''REQUEST'')])"
| "RULES_MAP T_PRESENCE = Some (''presence'',
     [(PresenceA UA_SUBSCRIBE, ''ALLOW''), (PresenceA UA_SUBSCRIBE_ALL, ''ALLOW''), (PresenceA UA_QUERY, ''ALLOW''),
      (PresenceA UA_QUERY_ALL, ''ALLOW'')])"
| "RULES_MAP _ = None"

record rule_spec =
  sp_section :: string
  sp_type :: string
  sp_action :: action

definition getRulesForMessage :: "message \<Rightarrow> rule_spec option" where
  "getRulesForMessage m = (case RULES_MAP (m_topic m) of
     None \<Rightarrow> None
   | Some (section, actions) \<Rightarrow>
       (case js_get actions (m_action m) of
          None \<Rightarrow> None
        | Some t \<Rightarrow> map_option (\<lambda>r. \<lparr>sp_section = section, sp_type = rt_name r, sp_action = m_action m\<rparr>) (js_get RULE_TYPES t)))"

definition upper :: "char \<Rightarrow> char" where
  "upper c = (if (of_char c :: nat) \<in> {97..122} then char_of ((of_char c :: nat) - 32) else c)"

text \<open>\<open>None\<close>: the type is unknown and reading its field throws.\<close>

definition supportsData :: "string \<Rightarrow> bool option" where
  "supportsData t = map_option rt_data (js_get RULE_TYPES (map upper t))"

definition supportsOldData :: "string \<Rightarrow> bool option" where
  "supportsOldData t = map_option rt_oldData (js_get RULE_TYPES (map upper t))"

section \<open>Scanning\<close>

definition alnum :: "char \<Rightarrow> bool" where
  "alnum c \<longleftrightarrow> (let n = (of_char c :: nat) in n \<in> {48..57} \<or> n \<in> {65..90} \<or> n \<in> {97..122})"

definition word_char :: "char \<Rightarrow> bool" where
  "word_char c \<longleftrightarrow> alnum c \<or> c = CHR ''_''"

definition starts :: "string \<Rightarrow> string \<Rightarrow> bool" where
  "starts w s \<longleftrightarrow> take (length w) s = w"

text \<open>Whether a test holds at some position, given the character before it and the rest of the string.\<close>

fun scan :: "(char option \<Rightarrow> string \<Rightarrow> bool) \<Rightarrow> char option \<Rightarrow> string \<Rightarrow> bool" where
  "scan P prev [] = P prev []"
| "scan P prev (c # cs) = (P prev (c # cs) \<or> scan P (Some c) cs)"

section \<open>Paths\<close>

text \<open>\<open>validate\<close> of a string: \<open>None\<close> when it is valid.\<close>

fun invalid_variable :: "string \<Rightarrow> string option" where
  "invalid_variable (c # d # cs) =
     (if c = CHR ''$'' \<and> \<not> alnum d then Some [c, d] else invalid_variable (d # cs))"
| "invalid_variable _ = None"

definition path_validate :: "string \<Rightarrow> string option" where
  "path_validate path =
     (if path = [] then Some ''path can't be empty''
      else if hd path = CHR ''/'' then Some ''path can't start with /''
      else map_option (\<lambda>v. ''invalid variable name '' @ v) (invalid_variable path))"

definition WILDCARD_STRING :: string where "WILDCARD_STRING = ''.*''"
definition VARIABLE_STRING :: string where "VARIABLE_STRING = ''([^/]+)''"

definition replace_wildcards :: "string \<Rightarrow> string" where
  "replace_wildcards path = concat (map (\<lambda>c. if c = CHR ''*'' then WILDCARD_STRING else [c]) path)"

text \<open>The variables of the path and the path with \<open>VARIABLE_STRING\<close> in their place.\<close>

function replace_variables :: "string \<Rightarrow> string list \<times> string" where
  "replace_variables [] = ([], [])"
| "replace_variables (c # cs) =
     (if c = CHR ''$'' \<and> takeWhile alnum cs \<noteq> []
      then (case replace_variables (dropWhile alnum cs) of (vs, r) \<Rightarrow> ((c # takeWhile alnum cs) # vs, VARIABLE_STRING @ r))
      else (case replace_variables cs of (vs, r) \<Rightarrow> (vs, c # r)))"
  by pat_completeness auto
termination by (relation "measure length") (auto simp: le_imp_less_Suc length_dropWhile_le)

definition path_source :: "string \<Rightarrow> string" where
  "path_source path = ''^'' @ snd (replace_variables (replace_wildcards path)) @ ''$''"

definition path_variables :: "string \<Rightarrow> string list" where
  "path_variables path = fst (replace_variables (replace_wildcards path))"

section \<open>Regular expressions of paths\<close>

text \<open>\<open>PRest acc\<close> is the tail of a variable whose captured part so far is \<open>acc\<close>.\<close>

datatype pat_item = PLit char | PAny | PStar | PSeg | PRest string

definition special :: "char \<Rightarrow> bool" where
  "special c \<longleftrightarrow> c \<in> set ''^$+?()[]{}|*'' \<or> c = CHR 0x5C"

definition line_end :: "char \<Rightarrow> bool" where
  "line_end c \<longleftrightarrow> c = CHR 0x0A \<or> c = CHR 0x0D"

function re_items :: "string \<Rightarrow> pat_item list option" where
  "re_items [] = Some []"
| "re_items (c # r) =
     (if c = CHR ''.''
      then (if r \<noteq> [] \<and> hd r = CHR ''*'' then map_option (Cons PStar) (re_items (tl r)) else map_option (Cons PAny) (re_items r))
      else if starts VARIABLE_STRING (c # r) then map_option (Cons PSeg) (re_items (drop 6 r))
      else if special c then None
      else map_option (Cons (PLit c)) (re_items r))"
  by pat_completeness auto
termination by (relation "measure length") auto

text \<open>Matching the whole string, the longest choice first.\<close>

function re_match :: "pat_item list \<Rightarrow> string \<Rightarrow> string list option" where
  "re_match [] s = (if s = [] then Some [] else None)"
| "re_match (PLit c # r) s = (case s of d # ds \<Rightarrow> if c = d then re_match r ds else None | [] \<Rightarrow> None)"
| "re_match (PAny # r) s = (case s of d # ds \<Rightarrow> if line_end d then None else re_match r ds | [] \<Rightarrow> None)"
| "re_match (PStar # r) s = (case s of
     d # ds \<Rightarrow> if line_end d then re_match r s
               else (case re_match (PStar # r) ds of Some g \<Rightarrow> Some g | None \<Rightarrow> re_match r s)
   | [] \<Rightarrow> re_match r s)"
| "re_match (PSeg # r) s = (case s of d # ds \<Rightarrow> if d = CHR ''/'' then None else re_match (PRest [d] # r) ds | [] \<Rightarrow> None)"
| "re_match (PRest acc # r) s = (case s of
     d # ds \<Rightarrow> if d = CHR ''/'' then map_option (Cons acc) (re_match r s)
               else (case re_match (PRest (acc @ [d]) # r) ds of Some g \<Rightarrow> Some g | None \<Rightarrow> map_option (Cons acc) (re_match r s))
   | [] \<Rightarrow> map_option (Cons acc) (re_match r s))"
  by pat_completeness auto
termination by (relation "measure (\<lambda>(r, s). length r + length s)") auto

definition js_RegExp :: "valve_env \<Rightarrow> string \<Rightarrow> (string \<Rightarrow> string list option) option" where
  "js_RegExp E source = (case re_items (butlast (tl source)) of
     Some r \<Rightarrow> Some (re_match r)
   | None \<Rightarrow> ve_regexp E source)"

section \<open>Rules\<close>

definition not_word :: "char list \<Rightarrow> char \<Rightarrow> bool" where
  "not_word extra c \<longleftrightarrow> \<not> word_char c \<and> c \<notin> set extra"

text \<open>A keyword at a position; whether it may begin, or end, the string.\<close>

definition keyword :: "bool \<Rightarrow> bool \<Rightarrow> char list \<Rightarrow> char list \<Rightarrow> string \<Rightarrow> char option \<Rightarrow> string \<Rightarrow> bool" where
  "keyword at_start at_end pre post w prev s \<longleftrightarrow>
     (case prev of None \<Rightarrow> at_start | Some c \<Rightarrow> not_word pre c) \<and> starts w s \<and>
     (case drop (length w) s of [] \<Rightarrow> at_end | c # cs \<Rightarrow> not_word post c)"

definition NEW_REGEXP :: "string \<Rightarrow> bool" where
  "NEW_REGEXP rule = scan (keyword True False ''$'' ''$'' ''new'') None rule"

definition USER_FUNCTION_REGEXP :: "string \<Rightarrow> bool" where
  "USER_FUNCTION_REGEXP rule =
     scan (\<lambda>prev s. keyword False False ''$'' ''$'' ''function'' prev s \<or> starts ''=>'' s) None rule"

definition OLD_DATA_REGEXP :: "string \<Rightarrow> bool" where
  "OLD_DATA_REGEXP rule = scan (keyword True False ''~'' ''~'' ''oldData'') None rule"

definition DATA_REGEXP :: "string \<Rightarrow> bool" where
  "DATA_REGEXP rule = scan (keyword True True ''.~'' ''~'' ''data'') None rule"

text \<open>The names before the opening brackets, \<open>rule.match(FUNCTION_REGEXP)\<close> less its \<open>\s*\(\<close>.\<close>

definition quoted_end :: "string \<Rightarrow> string" where
  "quoted_end r = (if length r \<ge> 2 \<and> (r ! 0 = CHR 0x27 \<or> r ! 0 = CHR 0x22 \<or> r ! 0 = CHR 0x60) \<and> r ! 1 = CHR '']'' then take 2 r else [])"

function functions_in :: "string \<Rightarrow> string list" where
  "functions_in [] = []"
| "functions_in (c # cs) =
     (if word_char c
      then let w = c # takeWhile word_char cs; r = dropWhile word_char cs; q = quoted_end r
           in (if starts ''('' (dropWhile js_space (drop (length q) r)) then [w @ q] else []) @ functions_in r
      else functions_in cs)"
  by pat_completeness auto
termination by (relation "measure length") (auto simp: le_imp_less_Suc length_dropWhile_le)

definition SUPPORTED_FUNCTIONS :: "string list" where
  "SUPPORTED_FUNCTIONS = [''_'', ''startsWith'', ''endsWith'', ''includes'', ''indexOf'', ''match'', ''toUpperCase'',
     ''toLowerCase'', ''trim'']"

text \<open>The outcome of a validation; \<open>Raises\<close> is an exception.\<close>

datatype validation = Valid | Invalid string | Raises

definition unsupported :: "bool option \<Rightarrow> string \<Rightarrow> validation" where
  "unsupported supported text = (case supported of None \<Rightarrow> Raises | Some True \<Rightarrow> Valid | Some False \<Rightarrow> Invalid text)"

fun rule_validate :: "valve_env \<Rightarrow> json \<Rightarrow> string \<Rightarrow> string \<Rightarrow> validation" where
  "rule_validate E (JBool b) section type = Valid"
| "rule_validate E (JStr rule) section type =
     (if rule = [] then Invalid ''rule can't be empty''
      else if NEW_REGEXP rule then Invalid ''rule can't contain the new keyword''
      else if USER_FUNCTION_REGEXP rule then Invalid ''rule can't contain user functions''
      else (case find (\<lambda>f. f \<notin> set SUPPORTED_FUNCTIONS) (functions_in rule) of
        Some f \<Rightarrow> Invalid (''function '' @ f @ '' is not supported'')
      | None \<Rightarrow>
          (case ve_function E [] rule of
             Inl e \<Rightarrow> Invalid e
           | Inr _ \<Rightarrow>
               (case (if OLD_DATA_REGEXP rule
                      then unsupported (supportsOldData type) (''rule '' @ type @ '' for '' @ section @ '' does not support oldData'')
                      else Valid) of
                  Valid \<Rightarrow> (if DATA_REGEXP rule
                            then unsupported (supportsData type) (''rule '' @ type @ '' for '' @ section @ '' does not support data'')
                            else Valid)
                | r \<Rightarrow> r))))"
| "rule_validate E _ section type = Invalid ''rule must be a string''"

record compiled_rule =
  cr_fn :: rule_fn
  cr_hasOldData :: bool
  cr_hasData :: bool

text \<open>\<open>parse\<close>: \<open>None\<close> when the text is no function body, or not a text.\<close>

fun rule_parse :: "valve_env \<Rightarrow> json \<Rightarrow> string list \<Rightarrow> compiled_rule option" where
  "rule_parse E (JBool b) variables =
     Some \<lparr>cr_fn = (\<lambda>_. Returns (Some (JBool b))), cr_hasOldData = False, cr_hasData = False\<rparr>"
| "rule_parse E (JStr rule) variables =
     (case ve_function E ([''_'', ''user'', ''data'', ''oldData'', ''now'', ''action'', ''name''] @ variables)
             (''return '' @ rule @ '';'') of
        Inl e \<Rightarrow> None
      | Inr f \<Rightarrow> Some \<lparr>cr_fn = f, cr_hasOldData = OLD_DATA_REGEXP rule, cr_hasData = DATA_REGEXP rule\<rparr>)"
| "rule_parse E _ variables = None"

end
