(* ===== verification/ValveConfig.thy ===== *)
theory ValveConfig
  imports RuleParser
begin

text \<open>
  The configured permissions (\<open>src/services/permission/valve\<close>): the validation of a configuration
  (\<open>config-validator.ts\<close>, \<open>config-schema.ts\<close>), its compilation (\<open>config-compiler.ts\<close>), the cache of
  rules (\<open>rule-cache.ts\<close>) and the service itself (\<open>config-permission.ts\<close>): which rule decides about a
  message. A configuration is a JSON value whose objects list their properties in the order in which
  JavaScript enumerates them.
\<close>

section \<open>Validation\<close>

definition SCHEMA :: "(string, string list) jsmap" where
  "SCHEMA =
     [(''record'', [''write'', ''read'', ''create'', ''delete'', ''listen'', ''notify'']),
      (''event'', [''publish'', ''subscribe'', ''listen'']),
      (''rpc'', [''provide'', ''request'']),
      (''presence'', [''allow''])]"

text \<open>What \<open>for (key in value)\<close> visits, with the properties' values.\<close>

fun for_in :: "json option \<Rightarrow> (string \<times> json) list" where
  "for_in (Some (JObj kvs)) = kvs"
| "for_in (Some (JArr kvs)) = kvs"
| "for_in (Some (JStr s)) = indexed (map (\<lambda>c. JStr [c]) s)"
| "for_in _ = []"

fun js_typeof :: "json option \<Rightarrow> string" where
  "js_typeof None = ''undefined''"
| "js_typeof (Some (JBool b)) = ''boolean''"
| "js_typeof (Some (JNum i)) = ''number''"
| "js_typeof (Some (JStr s)) = ''string''"
| "js_typeof (Some _) = ''object''"

definition quoted :: "string \<Rightarrow> string" where
  "quoted k = [CHR 0x22] @ k @ [CHR 0x22]"

text \<open>A loop that returns the first result that is not \<open>true\<close>.\<close>

fun each_valid :: "('a \<Rightarrow> validation) \<Rightarrow> 'a list \<Rightarrow> validation" where
  "each_valid f [] = Valid"
| "each_valid f (x # xs) = (case f x of Valid \<Rightarrow> each_valid f xs | r \<Rightarrow> r)"

text \<open>\<open>config[key]\<close>, which throws when \<open>config\<close> is \<open>null\<close>, passed on.\<close>

definition prop_of :: "json \<Rightarrow> string \<Rightarrow> (json option \<Rightarrow> validation) \<Rightarrow> validation" where
  "prop_of v k f = (case get_prop v k of Inl _ \<Rightarrow> Raises | Inr w \<Rightarrow> f w)"

definition isValidType :: "json \<Rightarrow> validation" where
  "isValidType config =
     (if js_typeof (Some config) = ''object'' then Valid
      else Invalid (''config should be an object literal, but was of type '' @ js_typeof (Some config)))"

definition hasRequiredTopLevelKeys :: "json \<Rightarrow> validation" where
  "hasRequiredTopLevelKeys config = each_valid (\<lambda>key. prop_of config key (\<lambda>v.
     if js_typeof v \<noteq> ''object'' then Invalid (''missing configuration section '' @ quoted key) else Valid)) (js_keys SCHEMA)"

definition doesNotHaveAdditionalTopLevelKeys :: "json \<Rightarrow> validation" where
  "doesNotHaveAdditionalTopLevelKeys config = each_valid (\<lambda>(key, v).
     if read_prop SCHEMA key = Missing then Invalid (''unexpected configuration section '' @ quoted key) else Valid)
     (for_in (Some config))"

definition valid_paths_of :: "string \<Rightarrow> json option \<Rightarrow> validation" where
  "valid_paths_of key section =
     (if section = Some JNull \<or> section = None then Raises
      else if for_in section = [] then Invalid (''empty section '' @ quoted key)
      else each_valid (\<lambda>(path, v). case path_validate path of
             None \<Rightarrow> Valid
           | Some e \<Rightarrow> Invalid (e @ '' for path '' @ path @ '' in section '' @ key)) (for_in section))"

definition doesOnlyContainValidPaths :: "json \<Rightarrow> validation" where
  "doesOnlyContainValidPaths config =
     each_valid (\<lambda>key. prop_of config key (valid_paths_of key)) (js_keys SCHEMA)"

definition doesHaveRootEntries :: "json \<Rightarrow> validation" where
  "doesHaveRootEntries config = each_valid (\<lambda>key. prop_of config key (\<lambda>s.
     case s of
       None \<Rightarrow> Raises
     | Some section \<Rightarrow> prop_of section ''*'' (\<lambda>root.
         if truthy root then Valid else Invalid (''missing root entry '' @ quoted ''*'' @ '' for section '' @ key)))) (js_keys SCHEMA)"

definition valid_rule_in :: "valve_env \<Rightarrow> string \<Rightarrow> string \<times> json \<Rightarrow> validation" where
  "valid_rule_in E section = (\<lambda>(ruleType, rule). case read_prop SCHEMA section of
     Missing \<Rightarrow> Raises
   | Inherited \<Rightarrow> Invalid (''unknown rule type '' @ ruleType @ '' in section '' @ section)
   | Own types \<Rightarrow>
       if ruleType \<notin> set types then Invalid (''unknown rule type '' @ ruleType @ '' in section '' @ section)
       else rule_validate E rule section ruleType)"

definition hasValidRules :: "valve_env \<Rightarrow> json \<Rightarrow> validation" where
  "hasValidRules E config = each_valid (\<lambda>(section, paths).
     each_valid (\<lambda>(path, rules). each_valid (valid_rule_in E section) (for_in (Some rules))) (for_in (Some paths)))
     (for_in (Some config))"

definition config_validate :: "valve_env \<Rightarrow> json \<Rightarrow> validation" where
  "config_validate E config = each_valid (\<lambda>f. f config)
     [isValidType, hasRequiredTopLevelKeys, doesNotHaveAdditionalTopLevelKeys, doesOnlyContainValidPaths,
      doesHaveRootEntries, hasValidRules E]"

section \<open>Compilation\<close>

record ruleset =
  rs_variables :: "string list"
  rs_path :: string
  rs_regexp :: "string \<Rightarrow> string list option"
  rs_rules :: "(string, compiled_rule) jsmap"

text \<open>A loop that stops at an exception, \<open>None\<close>.\<close>

fun each_some :: "('a \<Rightarrow> 'b option) \<Rightarrow> 'a list \<Rightarrow> 'b list option" where
  "each_some f [] = Some []"
| "each_some f (x # xs) = (case f x of None \<Rightarrow> None | Some y \<Rightarrow> map_option (Cons y) (each_some f xs))"

definition compileRuleset :: "valve_env \<Rightarrow> string \<times> json \<Rightarrow> ruleset option" where
  "compileRuleset E = (\<lambda>(path, rules).
     case js_RegExp E (path_source path) of
       None \<Rightarrow> None
     | Some regexp \<Rightarrow>
         map_option (\<lambda>rs. \<lparr>rs_variables = path_variables path, rs_path = path, rs_regexp = regexp, rs_rules = rs\<rparr>)
           (each_some (\<lambda>(ruleType, rule). map_option (Pair ruleType) (rule_parse E rule (path_variables path)))
              (for_in (Some rules))))"

definition config_compile :: "valve_env \<Rightarrow> json \<Rightarrow> (string, ruleset list) jsmap option" where
  "config_compile E config =
     each_some (\<lambda>(section, paths). map_option (Pair section) (each_some (compileRuleset E) (for_in (Some paths))))
       (for_in (Some config))"

section \<open>The cache of rules\<close>

record rule_hit =
  rh_path :: string
  rh_regexp :: "string \<Rightarrow> string list option"
  rh_rule :: compiled_rule

record cached_rule =
  ch_rule :: rule_hit
  ch_isUsed :: bool

type_synonym rule_cache = "(string, cached_rule) jsmap"

definition toKey :: "string \<Rightarrow> string \<Rightarrow> string \<Rightarrow> string" where
  "toKey section name type = section @ ''_'' @ name @ ''_'' @ type"

definition rc_reset :: "rule_cache \<Rightarrow> rule_cache" where
  "rc_reset data = []"

definition rc_has :: "string \<Rightarrow> string \<Rightarrow> string \<Rightarrow> rule_cache \<Rightarrow> bool" where
  "rc_has section name type data = js_has data (toKey section name type)"

definition rc_get :: "string \<Rightarrow> string \<Rightarrow> string \<Rightarrow> rule_cache \<Rightarrow> rule_hit option \<times> rule_cache" where
  "rc_get section name type data = (case js_get data (toKey section name type) of
     None \<Rightarrow> (None, data)
   | Some c \<Rightarrow> (Some (ch_rule c), js_set (toKey section name type) (c\<lparr>ch_isUsed := True\<rparr>) data))"

definition rc_set :: "string \<Rightarrow> string \<Rightarrow> string \<Rightarrow> rule_hit \<Rightarrow> rule_cache \<Rightarrow> rule_cache" where
  "rc_set section name type rule data =
     js_set (toKey section name type) \<lparr>ch_rule = rule, ch_isUsed = True\<rparr> data"

definition purge :: "rule_cache \<Rightarrow> rule_cache" where
  "purge data = map (\<lambda>(k, c). (k, c\<lparr>ch_isUsed := False\<rparr>)) (filter (\<lambda>(k, c). ch_isUsed c) data)"

section \<open>The permission service\<close>

record valve =
  v_permissions :: "(string, ruleset list) jsmap option"
  v_ruleCache :: rule_cache

definition new_valve :: valve where
  "new_valve = \<lparr>v_permissions = None, v_ruleCache = []\<rparr>"

datatype config_outcome = Used | Fatal string | Threw

text \<open>\<open>useConfig\<close>; a fatal log entry leaves everything as it was.\<close>

definition useConfig :: "valve_env \<Rightarrow> json \<Rightarrow> valve \<Rightarrow> valve \<times> config_outcome" where
  "useConfig E config v = (case config_validate E config of
     Valid \<Rightarrow> (case config_compile E config of
                None \<Rightarrow> (v, Threw)
              | Some c \<Rightarrow> (v\<lparr>v_permissions := Some c, v_ruleCache := rc_reset (v_ruleCache v)\<rparr>, Used))
   | Invalid e \<Rightarrow> (v, Fatal (''invalid permission config - '' @ e))
   | Raises \<Rightarrow> (v, Threw))"

definition applies :: "string \<Rightarrow> string \<Rightarrow> ruleset \<Rightarrow> bool" where
  "applies name type rs \<longleftrightarrow> js_get (rs_rules rs) type \<noteq> None \<and> rs_regexp rs name \<noteq> None"

definition hit_of :: "string \<Rightarrow> ruleset \<Rightarrow> rule_hit" where
  "hit_of type rs = \<lparr>rh_path = rs_path rs, rh_regexp = rs_regexp rs, rh_rule = the (js_get (rs_rules rs) type)\<rparr>"

fun find_rule :: "string \<Rightarrow> string \<Rightarrow> nat \<Rightarrow> rule_hit option \<Rightarrow> ruleset list \<Rightarrow> rule_hit option" where
  "find_rule name type pathLength result [] = result"
| "find_rule name type pathLength result (rs # sections) =
     (if js_get (rs_rules rs) type \<noteq> None \<and> length (rs_path rs) \<ge> pathLength \<and> rs_regexp rs name \<noteq> None
      then find_rule name type (length (rs_path rs)) (Some (hit_of type rs)) sections
      else find_rule name type pathLength result sections)"

text \<open>The loop alone; \<open>None\<close> outside is the exception when there is no such section.\<close>

definition lookup_rule :: "string \<Rightarrow> rule_spec \<Rightarrow> valve \<Rightarrow> rule_hit option option" where
  "lookup_rule name sp v = (case v_permissions v of
     None \<Rightarrow> None
   | Some p \<Rightarrow> map_option (find_rule name (sp_type sp) 0 None) (js_get p (sp_section sp)))"

definition getCompiledRulesForName :: "string \<Rightarrow> rule_spec \<Rightarrow> valve \<Rightarrow> rule_hit option option \<times> valve" where
  "getCompiledRulesForName name sp v = (case rc_get (sp_section sp) name (sp_type sp) (v_ruleCache v) of
     (Some h, c) \<Rightarrow> (Some (Some h), v\<lparr>v_ruleCache := c\<rparr>)
   | (None, c) \<Rightarrow>
       (case lookup_rule name sp v of
          None \<Rightarrow> (None, v)
        | Some None \<Rightarrow> (Some None, v)
        | Some (Some h) \<Rightarrow> (Some (Some h), v\<lparr>v_ruleCache := rc_set (sp_section sp) name (sp_type sp) h (v_ruleCache v)\<rparr>)))"

text \<open>What \<open>canPerformAction\<close> does with a message: it decides at once, applies a rule, or throws.\<close>

datatype permission = Decides bool | Applies rule_hit rule_spec | NoPermissions

definition canPerformAction :: "message \<Rightarrow> valve \<Rightarrow> permission \<times> valve" where
  "canPerformAction m v = (case getRulesForMessage m of
     None \<Rightarrow> (Decides True, v)
   | Some sp \<Rightarrow> (case getCompiledRulesForName (property (m_name m)) sp v of
       (None, v1) \<Rightarrow> (NoPermissions, v1)
     | (Some None, v1) \<Rightarrow> (Decides False, v1)
     | (Some (Some h), v1) \<Rightarrow> (Applies h sp, v1)))"

text \<open>The permissions that allow everything (\<open>open/open-permission.ts\<close>).\<close>

definition open_canPerformAction :: "message \<Rightarrow> permission" where
  "open_canPerformAction m = Decides True"

section \<open>Histories\<close>

datatype v_op = OpConfig json | OpPurge | OpMessage message

fun v_step :: "valve_env \<Rightarrow> valve \<Rightarrow> v_op \<Rightarrow> valve \<times> permission list" where
  "v_step E v (OpConfig config) = (fst (useConfig E config v), [])"
| "v_step E v OpPurge = (v\<lparr>v_ruleCache := purge (v_ruleCache v)\<rparr>, [])"
| "v_step E v (OpMessage m) = (case canPerformAction m v of (p, v1) \<Rightarrow> (v1, [p]))"

abbreviation v_run :: "valve_env \<Rightarrow> v_op list \<Rightarrow> valve" where
  "v_run E ops \<equiv> fst (run (v_step E) new_valve ops)"

text \<open>The decision without the cache.\<close>

definition uncached :: "message \<Rightarrow> valve \<Rightarrow> permission" where
  "uncached m v = (case getRulesForMessage m of
     None \<Rightarrow> Decides True
   | Some sp \<Rightarrow> (case lookup_rule (property (m_name m)) sp v of
       None \<Rightarrow> NoPermissions
     | Some None \<Rightarrow> Decides False
     | Some (Some h) \<Rightarrow> Applies h sp))"

section \<open>The cache answers as the loop does\<close>

lemma append_sep_eq:
  "c \<notin> set a \<Longrightarrow> c \<notin> set b \<Longrightarrow> a @ c # x = b @ c # y \<Longrightarrow> a = b \<and> x = y"
  by (induction a arbitrary: b) (case_tac b; auto)+

lemma toKey_inj:
  assumes "CHR ''_'' \<notin> set s" "CHR ''_'' \<notin> set s'" "CHR ''_'' \<notin> set t" "CHR ''_'' \<notin> set t'"
    and "toKey s n t = toKey s' n' t'"
  shows "s = s' \<and> n = n' \<and> t = t'"
proof -
  have *: "s @ CHR ''_'' # (n @ ''_'' @ t) = s' @ CHR ''_'' # (n' @ ''_'' @ t')"
    using assms(5) by (simp add: toKey_def)
  then have s: "s = s'" and r: "n @ ''_'' @ t = n' @ ''_'' @ t'"
    using append_sep_eq [OF assms(1,2) *] by simp_all
  from r have "rev t @ CHR ''_'' # rev n = rev t' @ CHR ''_'' # rev n'"
    by (metis append.assoc append_Cons append_Nil rev.simps(2) rev_append rev_singleton_conv)
  from append_sep_eq [OF _ _ this] have "rev t = rev t' \<and> rev n = rev n'"
    using assms(3,4) by simp
  with s show ?thesis by simp
qed

text \<open>What a cache promises that is filled with the answers of one function.\<close>

definition coherent :: "('q \<Rightarrow> string) \<Rightarrow> ('q \<Rightarrow> bool) \<Rightarrow> ('q \<Rightarrow> rule_hit option) \<Rightarrow> rule_cache \<Rightarrow> bool" where
  "coherent key good f data \<longleftrightarrow>
     (\<forall>k c. js_get data k = Some c \<longrightarrow> (\<exists>q. good q \<and> k = key q \<and> f q = Some (ch_rule c)))"

lemma map_of_purge:
  "distinct (js_keys data) \<Longrightarrow> js_get (purge data) k =
     (case js_get data k of Some c \<Rightarrow> if ch_isUsed c then Some (c\<lparr>ch_isUsed := False\<rparr>) else None | None \<Rightarrow> None)"
proof (induction data)
  case (Cons x xs)
  obtain k' c where x: "x = (k', c)" by (cases x)
  have "k' = k \<Longrightarrow> js_get xs k = None" using Cons.prems x by (auto simp: map_of_eq_None_iff)
  then show ?case using Cons x by (auto simp: purge_def)
qed (simp add: purge_def)

lemma distinct_purge: "distinct (js_keys data) \<Longrightarrow> distinct (js_keys (purge data))"
proof -
  assume "distinct (js_keys data)"
  moreover have "js_keys (purge data) = js_keys (filter (\<lambda>(k, c). ch_isUsed c) data)"
    by (simp add: purge_def split_beta comp_def)
  ultimately show ?thesis by (simp add: distinct_map_filter)
qed

locale memo_table =
  fixes key :: "'q \<Rightarrow> string"
    and good :: "'q \<Rightarrow> bool"
  assumes key_inj: "good q \<Longrightarrow> good q' \<Longrightarrow> key q = key q' \<Longrightarrow> q = q'"
begin

lemma coherent_hit: "coherent key good f data \<Longrightarrow> good q \<Longrightarrow> js_get data (key q) = Some c \<Longrightarrow> f q = Some (ch_rule c)"
  unfolding coherent_def by (metis key_inj)

lemma coherent_empty: "coherent key good f []"
  by (simp add: coherent_def)

lemma coherent_set: "coherent key good f data \<Longrightarrow> good q \<Longrightarrow> f q = Some (ch_rule c) \<Longrightarrow> coherent key good f (js_set (key q) c data)"
  by (auto simp: coherent_def js_simps)

lemma coherent_purge: "coherent key good f data \<Longrightarrow> distinct (js_keys data) \<Longrightarrow> coherent key good f (purge data)"
  by (fastforce simp: coherent_def map_of_purge split: option.splits if_splits)

end

definition asked :: "string \<times> string \<times> string \<Rightarrow> bool" where
  "asked = (\<lambda>(s, n, t). CHR ''_'' \<notin> set s \<and> CHR ''_'' \<notin> set t)"

interpretation rule_memo: memo_table "\<lambda>(s, n, t). toKey s n t" asked
proof unfold_locales
  fix q q' :: "string \<times> string \<times> string"
  obtain s n t s' n' t' where q: "q = (s, n, t)" "q' = (s', n', t')" by (cases q, cases q')
  assume "asked q" "asked q'" "(case q of (s, n, t) \<Rightarrow> toKey s n t) = (case q' of (s, n, t) \<Rightarrow> toKey s n t)"
  then have "CHR ''_'' \<notin> set s" "CHR ''_'' \<notin> set s'" "CHR ''_'' \<notin> set t" "CHR ''_'' \<notin> set t'" "toKey s n t = toKey s' n' t'"
    by (simp_all add: q asked_def)
  from toKey_inj [OF this] show "q = q'" by (simp add: q)
qed

definition rule_answer :: "valve \<Rightarrow> string \<times> string \<times> string \<Rightarrow> rule_hit option" where
  "rule_answer v = (\<lambda>(s, n, t). case lookup_rule n \<lparr>sp_section = s, sp_type = t, sp_action = UndefinedA\<rparr> v of
     Some (Some h) \<Rightarrow> Some h | _ \<Rightarrow> None)"

definition cache_ok :: "valve \<Rightarrow> bool" where
  "cache_ok v \<longleftrightarrow> distinct (js_keys (v_ruleCache v)) \<and>
     coherent (\<lambda>(s, n, t). toKey s n t) asked (rule_answer v) (v_ruleCache v)"

lemma rule_answer_lookup:
  "rule_answer v (sp_section sp, n, sp_type sp) = Some h \<longleftrightarrow> lookup_rule n sp v = Some (Some h)"
  by (auto simp: rule_answer_def lookup_rule_def split: option.splits)

lemma rule_answer_permissions: "v_permissions v = v_permissions v' \<Longrightarrow> rule_answer v = rule_answer v'"
  by (simp add: rule_answer_def lookup_rule_def)

lemma spec_asked: "getRulesForMessage m = Some sp \<Longrightarrow> asked (sp_section sp, n, sp_type sp)"
  by (cases "m_topic m")
     (auto simp: getRulesForMessage_def RULE_TYPES_def rule_type_def asked_def split: if_splits option.splits)

lemma getCompiledRules_ok:
  assumes "cache_ok v" "asked (sp_section sp, n, sp_type sp)"
  shows "fst (getCompiledRulesForName n sp v) = lookup_rule n sp v \<and> cache_ok (snd (getCompiledRulesForName n sp v)) \<and>
    v_permissions (snd (getCompiledRulesForName n sp v)) = v_permissions v"
proof -
  let ?q = "(sp_section sp, n, sp_type sp)"
  have d: "distinct (js_keys (v_ruleCache v))"
    and c: "coherent (\<lambda>(s, n, t). toKey s n t) asked (rule_answer v) (v_ruleCache v)"
    using assms(1) by (simp_all add: cache_ok_def)
  have put: "cache_ok (v\<lparr>v_ruleCache := js_set (toKey (sp_section sp) n (sp_type sp)) x (v_ruleCache v)\<rparr>)"
    if "rule_answer v ?q = Some (ch_rule x)" for x
    using rule_memo.coherent_set [OF c assms(2) that] d
      rule_answer_permissions [of v "v\<lparr>v_ruleCache := js_set (toKey (sp_section sp) n (sp_type sp)) x (v_ruleCache v)\<rparr>"]
    by (simp add: cache_ok_def)
  show ?thesis
  proof (cases "js_get (v_ruleCache v) (toKey (sp_section sp) n (sp_type sp))")
    case (Some x)
    then have a: "rule_answer v ?q = Some (ch_rule x)"
      using rule_memo.coherent_hit [OF c assms(2), of x] by simp
    moreover from a have "lookup_rule n sp v = Some (Some (ch_rule x))"
      by (simp add: rule_answer_lookup)
    ultimately show ?thesis
      using put [of "x\<lparr>ch_isUsed := True\<rparr>"] Some by (simp add: getCompiledRulesForName_def rc_get_def)
  next
    case None
    then show ?thesis
      using put assms(1) by (auto simp: getCompiledRulesForName_def rc_get_def rc_set_def rule_answer_lookup split: option.split)
  qed
qed

lemma canPerformAction_ok:
  assumes "cache_ok v"
  shows "fst (canPerformAction m v) = uncached m v \<and> cache_ok (snd (canPerformAction m v)) \<and>
    v_permissions (snd (canPerformAction m v)) = v_permissions v"
proof (cases "getRulesForMessage m")
  case (Some sp)
  let ?g = "getCompiledRulesForName (property (m_name m)) sp v"
  have "fst ?g = lookup_rule (property (m_name m)) sp v" "cache_ok (snd ?g)" "v_permissions (snd ?g) = v_permissions v"
    using getCompiledRules_ok [OF assms spec_asked [OF Some]] by blast+
  then show ?thesis
    using Some by (cases ?g) (auto simp: canPerformAction_def uncached_def split: option.split)
qed (use assms in \<open>simp add: canPerformAction_def uncached_def\<close>)

lemma v_step_ok: "cache_ok v \<Longrightarrow> cache_ok (fst (v_step E v op))"
proof (induction op)
  case (OpConfig config)
  then show ?case
    by (simp add: useConfig_def cache_ok_def rc_reset_def rule_memo.coherent_empty split: validation.split option.split)
next
  case OpPurge
  then have "coherent (\<lambda>(s, n, t). toKey s n t) asked (rule_answer v) (purge (v_ruleCache v))"
    by (intro rule_memo.coherent_purge) (simp_all add: cache_ok_def)
  then show ?case
    using OpPurge distinct_purge rule_answer_permissions [of v "v\<lparr>v_ruleCache := purge (v_ruleCache v)\<rparr>"]
    by (simp add: cache_ok_def)
next
  case (OpMessage m)
  then show ?case using canPerformAction_ok [of v m] by (simp add: split_beta)
qed

lemma new_valve_ok: "cache_ok new_valve"
  by (simp add: new_valve_def cache_ok_def rule_memo.coherent_empty)

lemma v_run_ok: "cache_ok (v_run E ops)"
  by (rule run_invariant [where I = cache_ok]) (auto intro: v_step_ok new_valve_ok)

text \<open>C20: after any configurations, messages and purges of the cache, a message is decided by the rule that the
  search through the present configuration finds; the cache is never seen.\<close>

theorem cached_rules_are_current:
  "fst (canPerformAction m (v_run E ops)) = uncached m (v_run E ops)"
  using canPerformAction_ok [OF v_run_ok] by blast

section \<open>Which rule applies\<close>

lemma find_rule_cases:
  "find_rule name type n result rss = h \<Longrightarrow>
   (h = result \<and> (\<forall>r \<in> set rss. applies name type r \<longrightarrow> length (rs_path r) < n)) \<or>
   (\<exists>pre rs post. rss = pre @ rs # post \<and> applies name type rs \<and> h = Some (hit_of type rs) \<and> n \<le> length (rs_path rs) \<and>
      (\<forall>r \<in> set pre. applies name type r \<longrightarrow> length (rs_path r) \<le> length (rs_path rs)) \<and>
      (\<forall>r \<in> set post. applies name type r \<longrightarrow> length (rs_path r) < length (rs_path rs)))"
proof (induction rss arbitrary: n result)
  case (Cons r rss)
  show ?case
  proof (cases "applies name type r \<and> n \<le> length (rs_path r)")
    case True
    then have "find_rule name type (length (rs_path r)) (Some (hit_of type r)) rss = h"
      using Cons.prems by (simp add: applies_def split: if_splits)
    from Cons.IH [OF this] show ?thesis
    proof (elim disjE exE conjE)
      assume "h = Some (hit_of type r)" "\<forall>x \<in> set rss. applies name type x \<longrightarrow> length (rs_path x) < length (rs_path r)"
      then show ?thesis using True by (intro disjI2 exI [of _ "[]"] exI [of _ r] exI [of _ rss]) simp
    next
      fix pre rs post
      assume "rss = pre @ rs # post" "applies name type rs" "h = Some (hit_of type rs)" "length (rs_path r) \<le> length (rs_path rs)"
        "\<forall>x \<in> set pre. applies name type x \<longrightarrow> length (rs_path x) \<le> length (rs_path rs)"
        "\<forall>x \<in> set post. applies name type x \<longrightarrow> length (rs_path x) < length (rs_path rs)"
      then show ?thesis using True by (intro disjI2 exI [of _ "r # pre"] exI [of _ rs] exI [of _ post]) auto
    qed
  next
    case False
    then have "find_rule name type n result rss = h"
      using Cons.prems by (auto simp: applies_def split: if_splits)
    from Cons.IH [OF this] show ?thesis
    proof (elim disjE exE conjE)
      assume "h = result" "\<forall>x \<in> set rss. applies name type x \<longrightarrow> length (rs_path x) < n"
      then show ?thesis using False by (intro disjI1) auto
    next
      fix pre rs post
      assume "rss = pre @ rs # post" "applies name type rs" "h = Some (hit_of type rs)" "n \<le> length (rs_path rs)"
        "\<forall>x \<in> set pre. applies name type x \<longrightarrow> length (rs_path x) \<le> length (rs_path rs)"
        "\<forall>x \<in> set post. applies name type x \<longrightarrow> length (rs_path x) < length (rs_path rs)"
      then show ?thesis using False by (intro disjI2 exI [of _ "r # pre"] exI [of _ rs] exI [of _ post]) auto
    qed
  qed
qed simp

lemma most_specific_lookup:
  assumes "v_permissions v = Some p" "js_get p (sp_section sp) = Some rss"
  shows "(\<forall>rs \<in> set rss. \<not> applies name (sp_type sp) rs) \<and> lookup_rule name sp v = Some None \<or>
    (\<exists>pre rs post. rss = pre @ rs # post \<and> applies name (sp_type sp) rs \<and>
       lookup_rule name sp v = Some (Some (hit_of (sp_type sp) rs)) \<and>
       (\<forall>r \<in> set pre. applies name (sp_type sp) r \<longrightarrow> length (rs_path r) \<le> length (rs_path rs)) \<and>
       (\<forall>r \<in> set post. applies name (sp_type sp) r \<longrightarrow> length (rs_path r) < length (rs_path rs)))"
proof -
  let ?f = "find_rule name (sp_type sp) 0 None rss"
  have l: "lookup_rule name sp v = Some ?f" using assms by (simp add: lookup_rule_def)
  from find_rule_cases [OF refl, of name "sp_type sp" 0 None rss] show ?thesis unfolding l by auto
qed

text \<open>C26: After any configurations, messages and purges of the cache, a message whose action has rules is decided by
  the rule declared for the action's kind under a path that matches the message's name such that no matching path
  with such a rule is longer, and of equally long ones it is the last; when no path with such a rule matches, the
  message is refused. (The configuration in use has the section of the message's topic.)\<close>

theorem most_specific_rule:
  assumes "v = v_run E ops" "getRulesForMessage m = Some sp" "name = property (m_name m)"
    and "v_permissions v = Some p" "js_get p (sp_section sp) = Some rss"
  shows "if \<forall>rs \<in> set rss. \<not> applies name (sp_type sp) rs then fst (canPerformAction m v) = Decides False
    else \<exists>pre rs post. rss = pre @ rs # post \<and> applies name (sp_type sp) rs \<and>
       fst (canPerformAction m v) = Applies (hit_of (sp_type sp) rs) sp \<and>
       (\<forall>r \<in> set pre. applies name (sp_type sp) r \<longrightarrow> length (rs_path r) \<le> length (rs_path rs)) \<and>
       (\<forall>r \<in> set post. applies name (sp_type sp) r \<longrightarrow> length (rs_path r) < length (rs_path rs))"
proof -
  have "fst (canPerformAction m v) = uncached m v" using canPerformAction_ok [OF v_run_ok] assms(1) by simp
  then have u: "fst (canPerformAction m v) = (case lookup_rule name sp v of
      None \<Rightarrow> NoPermissions | Some None \<Rightarrow> Decides False | Some (Some h) \<Rightarrow> Applies h sp)"
    using assms(2,3) by (simp add: uncached_def)
  from most_specific_lookup [OF assms(4,5), of name] show ?thesis
  proof (elim disjE conjE exE)
    fix pre rs post
    assume *: "rss = pre @ rs # post" "applies name (sp_type sp) rs" "lookup_rule name sp v = Some (Some (hit_of (sp_type sp) rs))"
      "\<forall>r \<in> set pre. applies name (sp_type sp) r \<longrightarrow> length (rs_path r) \<le> length (rs_path rs)"
      "\<forall>r \<in> set post. applies name (sp_type sp) r \<longrightarrow> length (rs_path r) < length (rs_path rs)"
    then have "\<not> (\<forall>rs \<in> set rss. \<not> applies name (sp_type sp) rs)" by auto
    moreover have "fst (canPerformAction m v) = Applies (hit_of (sp_type sp) rs) sp" using u *(3) by simp
    ultimately show ?thesis using *(1,2,4,5) by (simp only: if_False) blast
  qed (simp add: u)
qed

section \<open>A valid configuration\<close>

lemma each_valid_iff: "each_valid f xs = Valid \<longleftrightarrow> (\<forall>x \<in> set xs. f x = Valid)"
  by (induction xs) (auto split: validation.splits)

lemma each_some_keys:
  "each_some (\<lambda>(k, v). map_option (Pair k) (f v)) xs = Some ys \<Longrightarrow> js_keys ys = js_keys xs"
  by (induction xs arbitrary: ys) (auto split: option.splits)

lemma typeof_present: "js_typeof (js_get kvs k) = ''object'' \<Longrightarrow> k \<in> set (js_keys kvs)"
  unfolding js_has_keys [symmetric] js_has_def by (cases "js_get kvs k") simp_all

lemma compiled_sections:
  assumes "config_validate E config = Valid" "config_compile E config = Some c"
  shows "set (js_keys SCHEMA) \<subseteq> set (js_keys c)"
proof
  fix key
  assume key: "key \<in> set (js_keys SCHEMA)"
  have "hasRequiredTopLevelKeys config = Valid"
    using assms(1) by (auto simp: config_validate_def each_valid_iff simp del: each_valid.simps)
  then have "prop_of config key (\<lambda>v. if js_typeof v \<noteq> ''object'' then Invalid (''missing configuration section '' @ quoted key) else Valid) = Valid"
    using key unfolding hasRequiredTopLevelKeys_def each_valid_iff by blast
  then have "key \<in> set (js_keys (for_in (Some config)))"
    by (cases config) (auto simp: prop_of_def split: if_splits intro: typeof_present [simplified])
  moreover have "js_keys c = js_keys (for_in (Some config))"
    using assms(2) unfolding config_compile_def by (rule each_some_keys)
  ultimately show "key \<in> set (js_keys c)" by simp
qed

definition sections_ok :: "valve \<Rightarrow> bool" where
  "sections_ok v \<longleftrightarrow> (\<exists>p. v_permissions v = Some p \<and> set (js_keys SCHEMA) \<subseteq> set (js_keys p))"

lemma spec_section: "getRulesForMessage m = Some sp \<Longrightarrow> sp_section sp \<in> set (js_keys SCHEMA)"
  by (cases "m_topic m")
     (auto simp: getRulesForMessage_def RULE_TYPES_def rule_type_def SCHEMA_def split: if_splits option.splits)

lemma sections_ok_step: "cache_ok v \<Longrightarrow> sections_ok v \<Longrightarrow> sections_ok (fst (v_step E v op))"
proof (induction op)
  case (OpConfig config)
  then show ?case
    using compiled_sections [of E config] by (auto simp: useConfig_def sections_ok_def split: validation.split option.split)
next
  case (OpMessage m)
  then show ?case using canPerformAction_ok [of v m] by (simp add: split_beta sections_ok_def)
qed (simp add: sections_ok_def)

lemma sections_ok_decides:
  assumes "sections_ok v"
  shows "uncached m v \<noteq> NoPermissions"
proof (cases "getRulesForMessage m")
  case (Some sp)
  then have "sp_section sp \<in> set (js_keys SCHEMA)" by (rule spec_section)
  then obtain p where p: "v_permissions v = Some p" "js_has p (sp_section sp)"
    using assms unfolding sections_ok_def js_has_keys by blast
  then show ?thesis
    using Some by (auto simp: uncached_def lookup_rule_def js_has_def split: option.split)
qed (simp add: uncached_def)

text \<open>Once a configuration has been accepted, every message is answered: whatever configurations, valid or not,
  are offered later, the permissions of no section are ever missing.\<close>

theorem permissions_never_missing:
  assumes "snd (useConfig E config new_valve) = Used"
  shows "fst (canPerformAction m (fst (run (v_step E) (fst (useConfig E config new_valve)) ops))) \<noteq> NoPermissions"
proof -
  let ?v = "fst (useConfig E config new_valve)"
  obtain c where "config_validate E config = Valid" "config_compile E config = Some c"
    using assms by (auto simp: useConfig_def split: validation.splits option.splits)
  then have "sections_ok ?v"
    using compiled_sections [of E config] by (simp add: useConfig_def sections_ok_def)
  moreover have "cache_ok ?v" using v_step_ok [OF new_valve_ok, of E "OpConfig config"] by simp
  ultimately have "cache_ok (fst (run (v_step E) ?v ops)) \<and> sections_ok (fst (run (v_step E) ?v ops))"
    by (intro run_invariant [where I = "\<lambda>v. cache_ok v \<and> sections_ok v"]) (auto intro: v_step_ok sections_ok_step)
  then show ?thesis using canPerformAction_ok sections_ok_decides by metis
qed

text \<open>A configuration: everything is allowed but writing below \<open>private\<close>.\<close>

definition plain_valve_env :: valve_env where
  "plain_valve_env = \<lparr>ve_function = (\<lambda>args body. Inr (\<lambda>_. Returns None)), ve_regexp = (\<lambda>_. None)\<rparr>"

definition all_of :: "string list \<Rightarrow> json" where
  "all_of types = JObj [(''*'', JObj (map (\<lambda>t. (t, JBool True)) types))]"

definition sample_config :: json where
  "sample_config = JObj
     [(''record'', JObj [(''*'', JObj [(''write'', JBool True), (''read'', JBool True)]),
                        (''private/$user/*'', JObj [(''write'', JBool False)])]),
      (''event'', all_of [''publish'']), (''rpc'', all_of [''request'']), (''presence'', all_of [''allow''])]"

lemma sample_used: "snd (useConfig plain_valve_env sample_config new_valve) = Used"
  by code_simp

theorem permissions_never_missing_witness:
  "fst (canPerformAction (msg T_EVENT (EventA EA_EMIT)) (fst (run (v_step plain_valve_env) (fst (useConfig plain_valve_env sample_config new_valve))
     [OpConfig JNull, OpPurge]))) \<noteq> NoPermissions"
  by (rule permissions_never_missing [OF sample_used])

lemma sample_events:
  "case v_permissions (v_run plain_valve_env [OpConfig sample_config]) of None \<Rightarrow> False | Some p \<Rightarrow>
     (case js_get p ''event'' of None \<Rightarrow> False | Some rss \<Rightarrow>
        list_all (\<lambda>rs. \<not> applies ''undefined'' ''subscribe'' rs) rss \<and> list_ex (applies ''undefined'' ''publish'') rss)"
  by code_simp

theorem most_specific_rule_witness:
  "fst (canPerformAction (msg T_EVENT (EventA EA_SUBSCRIBE)) (v_run plain_valve_env [OpConfig sample_config])) = Decides False \<and>
   fst (canPerformAction (msg T_EVENT (EventA EA_EMIT)) (v_run plain_valve_env [OpConfig sample_config])) \<noteq> Decides False"
proof -
  obtain v where v: "v = v_run plain_valve_env [OpConfig sample_config]" by blast
  from sample_events [folded v] obtain p where p: "v_permissions v = Some p"
    by (cases "v_permissions v") simp_all
  with sample_events [folded v] obtain rss where r: "js_get p ''event'' = Some rss"
    by (cases "js_get p ''event''") simp_all
  have a: "list_all (\<lambda>rs. \<not> applies ''undefined'' ''subscribe'' rs) rss" "list_ex (applies ''undefined'' ''publish'') rss"
    using sample_events [folded v] p r by simp_all
  let ?s = "\<lparr>sp_section = ''event'', sp_type = ''subscribe'', sp_action = EventA EA_SUBSCRIBE\<rparr>"
  let ?e = "\<lparr>sp_section = ''event'', sp_type = ''publish'', sp_action = EventA EA_EMIT\<rparr>"
  have "getRulesForMessage (msg T_EVENT (EventA EA_SUBSCRIBE)) = Some ?s" "getRulesForMessage (msg T_EVENT (EventA EA_EMIT)) = Some ?e"
    "property (m_name (msg T_EVENT (EventA EA_SUBSCRIBE))) = ''undefined''" "property (m_name (msg T_EVENT (EventA EA_EMIT))) = ''undefined''"
    by code_simp+
  note f = this
  have "\<forall>rs \<in> set rss. \<not> applies ''undefined'' (sp_type ?s) rs" using a(1) by (simp add: list_all_iff)
  then have 1: "fst (canPerformAction (msg T_EVENT (EventA EA_SUBSCRIBE)) v) = Decides False"
    using most_specific_rule [OF v f(1) f(3) [symmetric] p, of rss] r by simp
  have n: "(\<forall>rs \<in> set rss. \<not> applies ''undefined'' (sp_type ?e) rs) = False" using a(2) by (auto simp: list_ex_iff)
  have "js_get p (sp_section ?e) = Some rss" using r by simp
  note most_specific_rule [OF v f(2) f(4) [symmetric] p this, unfolded n if_False]
  then have 2: "fst (canPerformAction (msg T_EVENT (EventA EA_EMIT)) v) \<noteq> Decides False" by (elim exE conjE) simp
  show ?thesis using 1 2 unfolding v by blast
qed

section \<open>Variables of paths\<close>

text \<open>A value a variable may take.\<close>

definition segment :: "string \<Rightarrow> bool" where
  "segment x \<longleftrightarrow> x \<noteq> [] \<and> CHR ''/'' \<notin> set x"

text \<open>The path with values in place of its variables.\<close>

function fill :: "string \<Rightarrow> string list \<Rightarrow> string" where
  "fill [] vs = []"
| "fill (c # cs) vs =
     (if c = CHR ''$'' \<and> takeWhile alnum cs \<noteq> [] then hd vs @ fill (dropWhile alnum cs) (tl vs)
      else c # fill cs vs)"
  by pat_completeness auto
termination by (relation "measure (\<lambda>(p, vs). length p)") (auto simp: le_imp_less_Suc length_dropWhile_le)

fun rebuild :: "pat_item list \<Rightarrow> string list \<Rightarrow> string" where
  "rebuild [] vs = []"
| "rebuild (PLit c # r) vs = c # rebuild r vs"
| "rebuild (PSeg # r) vs = hd vs @ rebuild r (tl vs)"
| "rebuild (PRest acc # r) vs = drop (length acc) (hd vs) @ rebuild r (tl vs)"
| "rebuild (_ # r) vs = rebuild r vs"

fun item_ok :: "pat_item \<Rightarrow> bool" where
  "item_ok (PRest acc) = segment acc"
| "item_ok PAny = False"
| "item_ok PStar = False"
| "item_ok _ = True"

fun captures :: "pat_item \<Rightarrow> bool" where
  "captures PSeg = True"
| "captures (PRest _) = True"
| "captures _ = False"

lemma re_match_groups:
  "re_match r s = Some g \<Longrightarrow> list_all item_ok r \<Longrightarrow>
   length g = length (filter captures r) \<and> list_all segment g \<and> s = rebuild r g \<and>
   (\<forall>acc r'. r = PRest acc # r' \<longrightarrow> take (length acc) (hd g) = acc)"
proof (induction r s arbitrary: g rule: re_match.induct)
  case (1 s)
  then show ?case by (simp split: if_splits)
next
  case (2 c r s)
  then show ?case by (auto split: list.splits if_splits)
next
  case (5 r s)
  then obtain d ds where s: "s = d # ds" "d \<noteq> CHR ''/''" "re_match (PRest [d] # r) ds = Some g"
    by (auto split: list.splits if_splits)
  then have *: "length g = length (filter captures (PRest [d] # r)) \<and> list_all segment g \<and>
      ds = rebuild (PRest [d] # r) g \<and> take (length [d]) (hd g) = [d]"
    using "5.IH" [OF s(1,2,3)] "5.prems"(2) by (simp add: segment_def [abs_def])
  then obtain rest where "hd g = d # rest" by (cases "hd g") auto
  with * s(1) show ?case by simp
next
  case (6 acc r s)
  show ?case
  proof (cases "\<exists>d ds g'. s = d # ds \<and> d \<noteq> CHR ''/'' \<and> re_match (PRest (acc @ [d]) # r) ds = Some g'")
    case True
    then obtain d ds g' where s: "s = d # ds" "d \<noteq> CHR ''/''" "re_match (PRest (acc @ [d]) # r) ds = Some g'" by blast
    then have "g = g'" using "6.prems"(1) unfolding re_match.simps(6) [of acc r s] by simp
    moreover have "length g' = length (filter captures (PRest (acc @ [d]) # r)) \<and> list_all segment g' \<and>
        ds = rebuild (PRest (acc @ [d]) # r) g' \<and> take (length (acc @ [d])) (hd g') = acc @ [d]"
      using "6.IH"(3) [OF s(1,2,3)] s(2) "6.prems"(2) by (simp add: segment_def [abs_def])
    moreover from this obtain rest where "hd g' = acc @ d # rest"
      by (metis append.assoc append_Cons append_Nil append_take_drop_id)
    ultimately show ?thesis using s by simp
  next
    case False
    then obtain g' where g: "re_match r s = Some g'" "g = acc # g'"
      using "6.prems"(1) unfolding re_match.simps(6) [of acc r s] by (cases s) (auto split: if_splits option.splits)
    have ok: "list_all item_ok r" "segment acc" using "6.prems"(2) by simp_all
    consider "s = []" | d ds where "s = d # ds" "d = CHR ''/''"
      | d ds where "s = d # ds" "d \<noteq> CHR ''/''" "re_match (PRest (acc @ [d]) # r) ds = None"
      using False by (cases s) auto
    then have "length g' = length (filter captures r) \<and> list_all segment g' \<and> s = rebuild r g'"
      using "6.IH"(1,2,4) g(1) ok(1) by cases metis+
    then show ?thesis using g(2) ok by simp
  qed
qed simp_all

lemma items_of_path:
  "re_items (snd (replace_variables p)) = Some its \<Longrightarrow> CHR ''('' \<notin> set p \<Longrightarrow> CHR ''.'' \<notin> set p \<Longrightarrow>
   list_all item_ok its \<and> length (filter captures its) = length (fst (replace_variables p)) \<and> (\<forall>g. rebuild its g = fill p g)"
proof (induction p arbitrary: its rule: replace_variables.induct)
  case (2 c cs)
  show ?case
  proof (cases "c = CHR ''$'' \<and> takeWhile alnum cs \<noteq> []")
    case True
    let ?r = "replace_variables (dropWhile alnum cs)"
    have sub: "set (dropWhile alnum cs) \<subseteq> set cs" using set_dropWhileD by fast
    have "re_items (VARIABLE_STRING @ snd ?r) = map_option (Cons PSeg) (re_items (snd ?r))"
      by (simp add: VARIABLE_STRING_def starts_def)
    then obtain its' where "re_items (snd ?r) = Some its'" "its = PSeg # its'"
      using "2.prems"(1) True by (auto split: prod.splits)
    moreover have "CHR ''('' \<notin> set (dropWhile alnum cs)" "CHR ''.'' \<notin> set (dropWhile alnum cs)"
      using sub "2.prems"(2,3) by auto
    ultimately show ?thesis using "2.IH"(1) [OF True] True by (auto split: prod.split)
  next
    case False
    let ?r = "replace_variables cs"
    have "re_items (c # snd ?r) = (if special c then None else map_option (Cons (PLit c)) (re_items (snd ?r)))"
      using "2.prems"(2,3) by (auto simp: VARIABLE_STRING_def starts_def)
    then obtain its' where "re_items (snd ?r) = Some its'" "its = PLit c # its'"
      using "2.prems"(1) False by (auto split: prod.splits if_splits simp del: re_items.simps)
    with "2.IH"(2) [OF False] "2.prems"(2,3) False show ?thesis by (auto split: prod.split)
  qed
qed simp

lemma replace_wildcards_none: "CHR ''*'' \<notin> set p \<Longrightarrow> replace_wildcards p = p"
  by (induction p) (auto simp: replace_wildcards_def)

lemma invalid_variable_suffix: "invalid_variable (xs @ ys) = None \<Longrightarrow> invalid_variable ys = None"
proof (induction xs)
  case (Cons x xs)
  then show ?case by (cases "xs @ ys") (auto split: if_splits)
qed simp

lemma plain_items:
  "invalid_variable p = None \<Longrightarrow> p = [] \<or> last p \<noteq> CHR ''$'' \<Longrightarrow> \<forall>c \<in> set p. \<not> special c \<or> c = CHR ''$'' \<Longrightarrow>
   CHR ''.'' \<notin> set p \<Longrightarrow> re_items (snd (replace_variables p)) \<noteq> None"
proof (induction p rule: replace_variables.induct)
  case (2 c cs)
  show ?case
  proof (cases "c = CHR ''$'' \<and> takeWhile alnum cs \<noteq> []")
    case True
    let ?d = "dropWhile alnum cs"
    have split: "c # cs = (c # takeWhile alnum cs) @ ?d" by simp
    have "invalid_variable ?d = None" using "2.prems"(1) split invalid_variable_suffix by metis
    moreover have "?d = [] \<or> last ?d \<noteq> CHR ''$''" using "2.prems"(2) split by (metis last_appendR list.distinct(1))
    moreover have "set ?d \<subseteq> set cs" using set_dropWhileD by fast
    ultimately have "re_items (snd (replace_variables ?d)) \<noteq> None"
      using "2.IH"(1) [OF True] "2.prems"(3,4) by auto
    then show ?thesis
      using True by (auto simp: VARIABLE_STRING_def starts_def split: prod.split)
  next
    case False
    have "c \<noteq> CHR ''$''"
      using False "2.prems"(1,2) by (cases cs) (auto split: if_splits)
    then have "\<not> special c" "c \<noteq> CHR ''.''" "c \<noteq> CHR ''(''" using "2.prems"(3,4) by (auto simp: special_def)
    moreover have "invalid_variable cs = None" using invalid_variable_suffix [of "[c]" cs] "2.prems"(1) by simp
    then have "re_items (snd (replace_variables cs)) \<noteq> None"
      using "2.IH"(2) [OF False] "2.prems"(2,3,4) by (auto split: if_splits)
    ultimately show ?thesis
      using False by (auto simp: VARIABLE_STRING_def starts_def split: prod.split)
  qed
qed simp

text \<open>A path without wildcards and without characters that mean something in a regular expression matches just
  names that are the path with each variable replaced by one segment: the values handed to the rule are as many
  as the variables, none is empty, and none holds a slash.\<close>

theorem path_variables_are_segments:
  assumes "compileRuleset E (path, rules) = Some rs" "rs_regexp rs name = Some vs"
    and "path_validate path = None" "last path \<noteq> CHR ''$''"
    and "\<forall>c \<in> set path. \<not> special c \<or> c = CHR ''$''" "CHR ''.'' \<notin> set path"
  shows "length vs = length (rs_variables rs) \<and> list_all segment vs \<and> name = fill path vs"
proof -
  have "CHR ''*'' \<notin> set path" "CHR ''('' \<notin> set path" using assms(5) by (auto simp: special_def)
  then have w: "replace_wildcards path = path" and p: "CHR ''('' \<notin> set path" by (simp_all add: replace_wildcards_none)
  have "invalid_variable path = None" using assms(3) by (auto simp: path_validate_def split: if_splits)
  then obtain its where its: "re_items (snd (replace_variables path)) = Some its"
    using plain_items assms(4,5,6) by blast
  then have "rs_regexp rs = re_match its" "rs_variables rs = fst (replace_variables path)"
    using assms(1) by (auto simp: compileRuleset_def js_RegExp_def path_source_def path_variables_def w split: option.splits)
  moreover note items_of_path [OF its p assms(6)]
  ultimately show ?thesis
    using re_match_groups [of its name vs] assms(2) by auto
qed

theorem path_variables_are_segments_witness:
  "(let vs = [''ann'', ''7''] in length vs = 2 \<and> list_all segment vs \<and> ''game/ann/score/7'' = fill ''game/$user/score/$id'' vs)"
proof -
  let ?rs = "the (compileRuleset plain_valve_env (''game/$user/score/$id'', JObj []))"
  have "compileRuleset plain_valve_env (''game/$user/score/$id'', JObj []) \<noteq> None" by code_simp
  then have "compileRuleset plain_valve_env (''game/$user/score/$id'', JObj []) = Some ?rs" by simp
  moreover have "rs_regexp ?rs ''game/ann/score/7'' = Some [''ann'', ''7'']" by code_simp
  moreover have "path_validate ''game/$user/score/$id'' = None" by code_simp
  ultimately have "length [''ann'', ''7''] = length (rs_variables ?rs) \<and> list_all segment [''ann'', ''7''] \<and>
      ''game/ann/score/7'' = fill ''game/$user/score/$id'' [''ann'', ''7'']"
    by (rule path_variables_are_segments) (simp_all add: special_def)
  then show ?thesis by (simp add: Let_def)
qed

text \<open>Characters of a path that mean something in a regular expression are not escaped: a dot in a path matches any
  character of a name.\<close>

theorem dot_in_path_matches_anything:
  assumes "compileRuleset E (''user.a'', rules) = Some rs" "\<not> line_end c"
  shows "rs_regexp rs (''user'' @ c # ''a'') \<noteq> None"
proof -
  have "re_items (butlast (tl (path_source ''user.a''))) =
      Some [PLit CHR ''u'', PLit CHR ''s'', PLit CHR ''e'', PLit CHR ''r'', PAny, PLit CHR ''a'']" by code_simp
  then show ?thesis
    using assms by (auto simp: compileRuleset_def js_RegExp_def split: option.splits)
qed

end
