(* ===== verification/RuleApplication.thy ===== *)
theory RuleApplication
  imports ValveConfig
begin

text \<open>
  One application of a rule to a message (\<open>src/services/permission/valve/rule-application.ts\<close>): the rule's
  function is called with the data known so far; what it asks for is loaded, and it is called again when the
  loads have ended, until a call asks for nothing new. The object is a state; the loads it starts, the ticks it
  schedules and the calls of the permission callback are effects, and the ends of loads and the ticks are
  inputs. A record handler and a cache may also answer within the call: \<open>rp_instant\<close> says which loads end so.
  Logging is left out.
\<close>

section \<open>Data\<close>

datatype load_answer = Loaded int "json option" | LoadFailed record_action string

text \<open>\<open>rp_parseData\<close> is \<open>parseData\<close> of the socket wrapper, which fills in the message in place; \<open>rp_now\<close> is the
  clock, by the number of the run.\<close>

record ra_params =
  rp_userId :: string
  rp_serverData :: "json option"
  rp_action :: action
  rp_regexp :: "string \<Rightarrow> string list option"
  rp_rule :: compiled_rule
  rp_name :: "string option"
  rp_maxRuleIterations :: "int option"
  rp_parseData :: "message \<Rightarrow> string + message"
  rp_now :: "nat \<Rightarrow> int"
  rp_num :: "string \<Rightarrow> string"
  rp_instant :: "string \<Rightarrow> load_answer option"

record application =
  ra_isDestroyed :: bool
  ra_runScheduled :: bool
  ra_pathVars :: "string list option"
  ra_user :: json
  ra_recordsData :: "(string, json option) jsmap"
  ra_iterations :: nat
  ra_message :: message

datatype ra_effect =
    CallRule rule_args
  | Verdict message "action option" "json option"  \<comment> \<open>\<open>callback(socketWrapper, message, passItOn, error, result)\<close>\<close>
  | RunWhenStable string
  | RemoveRequest string
  | NextTick
  | Uncaught js_error

type_synonym 'a ra_result = "'a \<times> application \<times> ra_effect list"

definition LOADING :: json where "LOADING = JStr ''loading''"
definition ERROR :: json where "ERROR = JStr ''error''"

text \<open>\<open>recordsData.get(name)\<close>\<close>

definition record_of :: "string \<Rightarrow> application \<Rightarrow> json option" where
  "record_of n st = (case js_get (ra_recordsData st) n of None \<Rightarrow> None | Some v \<Rightarrow> v)"

definition own_name :: "ra_params \<Rightarrow> string" where
  "own_name P = property (rp_name P)"

section \<open>Ends\<close>

definition isReady :: "application \<Rightarrow> bool" where
  "isReady st \<longleftrightarrow> list_all (\<lambda>(k, v). v \<noteq> Some LOADING) (ra_recordsData st) \<and> \<not> ra_runScheduled st"

definition ra_destroy :: "ra_params \<Rightarrow> application \<Rightarrow> application \<times> ra_effect list" where
  "ra_destroy P st =
     (st\<lparr>ra_isDestroyed := True, ra_runScheduled := False, ra_recordsData := [], ra_pathVars := None, ra_user := JNull\<rparr>,
      [RemoveRequest (own_name P)])"

definition onRuleError :: "ra_params \<Rightarrow> application \<Rightarrow> application \<times> ra_effect list" where
  "onRuleError P st =
     (if ra_isDestroyed st then (st, [])
      else (case ra_destroy P st of (st1, es) \<Rightarrow>
             (st1, Verdict (ra_message st) (Some (EventA EA_MESSAGE_PERMISSION_ERROR)) (Some (JBool False)) # es)))"

definition onLoadComplete :: "string \<Rightarrow> json option \<Rightarrow> application \<Rightarrow> application \<times> ra_effect list" where
  "onLoadComplete n data st =
     (let st1 = st\<lparr>ra_recordsData := js_set n data (ra_recordsData st)\<rparr>
      in if isReady st1 then (st1\<lparr>ra_runScheduled := True\<rparr>, [NextTick]) else (st1, []))"

definition onLoadError :: "ra_params \<Rightarrow> string \<Rightarrow> application \<Rightarrow> application \<times> ra_effect list" where
  "onLoadError P n st =
     (case ra_destroy P (st\<lparr>ra_recordsData := js_set n (Some ERROR) (ra_recordsData st)\<rparr>) of (st1, es) \<Rightarrow>
        (st1, Verdict (ra_message st) (Some (RecordA RA_RECORD_LOAD_ERROR)) (Some (JBool False)) # es))"

fun load_ended :: "ra_params \<Rightarrow> string \<Rightarrow> load_answer \<Rightarrow> application \<Rightarrow> application \<times> ra_effect list" where
  "load_ended P n (Loaded version data) st = onLoadComplete n data st"
| "load_ended P n (LoadFailed event text) st = onLoadError P n st"

section \<open>Loads\<close>

text \<open>The record handler runs \<open>createNewRecordRequest\<close> when the record is stable.\<close>

definition loadRecord :: "ra_params \<Rightarrow> string \<Rightarrow> application \<Rightarrow> application \<times> ra_effect list" where
  "loadRecord P n st =
     (if record_of n st = Some LOADING then (st, [])
      else case record_of n st of
        Some v \<Rightarrow> onLoadComplete n (Some v) st
      | None \<Rightarrow>
          (let st1 = st\<lparr>ra_recordsData := js_set n (Some LOADING) (ra_recordsData st)\<rparr>
           in case rp_instant P n of
                None \<Rightarrow> (st1, [RunWhenStable n])
              | Some a \<Rightarrow> (case load_ended P n a st1 of (st2, es) \<Rightarrow> (st2, RunWhenStable n # es))))"

definition mentions_undefined :: "string \<Rightarrow> bool" where
  "mentions_undefined n = scan (\<lambda>_. starts ''undefined'') None n"

definition crossReference :: "ra_params \<Rightarrow> json option \<Rightarrow> application \<Rightarrow> json option ra_result" where
  "crossReference P x st = (case x of
     None \<Rightarrow> (None, st, [])
   | Some (JStr n) \<Rightarrow>
       (if mentions_undefined n then (None, st, [])
        else if record_of n st = Some LOADING then (None, st, [])
        else if record_of n st = None then (None, loadRecord P n st)
        else (record_of n st, st, []))
   | Some _ \<Rightarrow> (None, onRuleError P st))"

section \<open>Arguments\<close>

definition getOldData :: "ra_params \<Rightarrow> application \<Rightarrow> json option ra_result" where
  "getOldData P st =
     (if ra_isDestroyed st \<or> \<not> cr_hasOldData (rp_rule P) then (None, st, [])
      else if js_has (ra_recordsData st) (own_name P) then (record_of (own_name P) st, st, [])
      else (None, loadRecord P (own_name P) st))"

text \<open>Like the source, the data of the patch is parsed before the record is looked at. \<open>Inl\<close> is the exception of
  \<open>setValue\<close>.\<close>

definition getRecordPatchData :: "ra_params \<Rightarrow> application \<Rightarrow> (js_error + json option) ra_result" where
  "getRecordPatchData P st =
     (if \<not> nonempty (m_path (ra_message st)) then (Inr None, st, [])
      else case rp_parseData P (ra_message st) of
        Inl e \<Rightarrow> (Inr None, onRuleError P st)
      | Inr m \<Rightarrow>
          (let st1 = st\<lparr>ra_message := m\<rparr>; current = record_of (own_name P) st1
           in if current = Some JNull then (Inr None, onRuleError P st1)
              else if current = None \<or> current = Some LOADING then (Inr None, loadRecord P (own_name P) st1)
              else (case setValue (rp_num P) (the current) (the (m_path m)) (m_parsed m) of
                      Inl e \<Rightarrow> (Inl e, st1, [])
                    | Inr d \<Rightarrow> (Inr (Some d), st1, []))))"

definition getCurrentData :: "ra_params \<Rightarrow> application \<Rightarrow> (js_error + json option) ra_result" where
  "getCurrentData P st =
     (let m = ra_message st
      in if \<not> cr_hasData (rp_rule P) then (Inr (Some JNull), st, [])
         else if m_topic m = T_RPC \<or> m_topic m = T_EVENT \<and> nonempty (m_data m) \<or>
                 m_topic m = T_RECORD \<and> m_action m = RecordA RA_UPDATE
         then (case rp_parseData P m of
                 Inl e \<Rightarrow> (Inr None, onRuleError P st)
               | Inr m1 \<Rightarrow> (Inr (m_parsed m1), st\<lparr>ra_message := m1\<rparr>, []))
         else if m_topic m = T_RECORD \<and> m_action m = RecordA RA_PATCH then getRecordPatchData P st
         else (Inr None, st, []))"

definition getArguments :: "ra_params \<Rightarrow> application \<Rightarrow> (js_error + rule_args) ra_result" where
  "getArguments P st =
     (case getCurrentData P st of
        (Inl e, st1, e1) \<Rightarrow> (Inl e, st1, e1)
      | (Inr data, st1, e1) \<Rightarrow>
          (case getOldData P st1 of (oldData, st2, e2) \<Rightarrow>
             (Inr \<lparr>arg_user = ra_user st, arg_data = data, arg_oldData = oldData, arg_now = rp_now P (ra_iterations st2),
                 arg_action = rp_action P, arg_name = rp_name P, arg_vars = ra_pathVars st2\<rparr>, st2, e1 @ e2)))"

section \<open>Runs\<close>

text \<open>A call of the rule's function: \<open>Inl\<close> when it throws.\<close>

primrec exec :: "ra_params \<Rightarrow> rule_run \<Rightarrow> application \<Rightarrow> (string + json option) ra_result" where
  "exec P (Returns v) = (\<lambda>st. (Inr v, st, []))"
| "exec P (Raise e) = (\<lambda>st. (Inl e, st, []))"
| "exec P (Cross x k) = (\<lambda>st. case crossReference P x st of (a, st1, e1) \<Rightarrow>
     (case exec P (k a) st1 of (r, st2, e2) \<Rightarrow> (r, st2, e1 @ e2)))"

definition conclude :: "ra_params \<Rightarrow> string + json option \<Rightarrow> application \<Rightarrow> application \<times> ra_effect list" where
  "conclude P r st =
     (if \<not> isReady st then (st, [])
      else case r of
        Inl e \<Rightarrow> onRuleError P st
      | Inr v \<Rightarrow> (case ra_destroy P st of (st1, es) \<Rightarrow> (st1, Verdict (ra_message st) None v # es)))"

definition ra_run :: "ra_params \<Rightarrow> application \<Rightarrow> application \<times> ra_effect list" where
  "ra_run P st =
     (let st0 = st\<lparr>ra_runScheduled := False, ra_iterations := Suc (ra_iterations st)\<rparr>
      in if ra_isDestroyed st0 then (st0, [])
         else if (\<exists>k \<in> set_option (rp_maxRuleIterations P). int (ra_iterations st0) > k) then onRuleError P st0
         else case getArguments P st0 of
           (Inl e, st1, e1) \<Rightarrow> (st1, e1 @ [Uncaught e])
         | (Inr args, st1, e1) \<Rightarrow>
             (case exec P (cr_fn (rp_rule P) args) st1 of (r, st2, e2) \<Rightarrow>
                (case conclude P r st2 of (st3, e3) \<Rightarrow> (st3, e1 @ CallRule args # e2 @ e3))))"

definition getUser :: "ra_params \<Rightarrow> json" where
  "getUser P = JObj ([(''isAuthenticated'', JBool (rp_userId P \<noteq> ''open'')), (''id'', JStr (rp_userId P))] @
     (case rp_serverData P of None \<Rightarrow> [] | Some d \<Rightarrow> [(''data'', d)]))"

definition getPathVars :: "ra_params \<Rightarrow> string list" where
  "getPathVars P = (if \<not> nonempty (rp_name P) then []
     else case rp_regexp P (the (rp_name P)) of None \<Rightarrow> [] | Some g \<Rightarrow> g)"

definition start_application :: "ra_params \<Rightarrow> message \<Rightarrow> application" where
  "start_application P m = \<lparr>ra_isDestroyed = False, ra_runScheduled = False, ra_pathVars = Some (getPathVars P),
     ra_user = getUser P, ra_recordsData = [], ra_iterations = 0, ra_message = m\<rparr>"

definition new_application :: "ra_params \<Rightarrow> message \<Rightarrow> application \<times> ra_effect list" where
  "new_application P m = ra_run P (start_application P m)"

section \<open>Histories\<close>

text \<open>The world of one application: the loads that have not ended, the scheduled ticks, and all effects so far.\<close>

record ra_world =
  w_app :: application
  w_pending :: "string list"
  w_ticks :: nat
  w_effects :: "ra_effect list"

datatype ra_input = Tick | LoadEnds string load_answer

fun asked_loads :: "ra_params \<Rightarrow> ra_effect list \<Rightarrow> string list" where
  "asked_loads P [] = []"
| "asked_loads P (RunWhenStable n # es) = (if rp_instant P n = None then n # asked_loads P es else asked_loads P es)"
| "asked_loads P (e # es) = asked_loads P es"

definition extend :: "ra_params \<Rightarrow> ra_world \<Rightarrow> application \<times> ra_effect list \<Rightarrow> ra_world" where
  "extend P w = (\<lambda>(st, es). w\<lparr>w_app := st, w_pending := w_pending w @ asked_loads P es,
     w_ticks := w_ticks w + length (filter (\<lambda>e. e = NextTick) es), w_effects := w_effects w @ es\<rparr>)"

definition new_world :: "ra_params \<Rightarrow> message \<Rightarrow> ra_world" where
  "new_world P m = extend P \<lparr>w_app = start_application P m, w_pending = [], w_ticks = 0, w_effects = []\<rparr> (new_application P m)"

fun w_enabled :: "ra_world \<Rightarrow> ra_input \<Rightarrow> bool" where
  "w_enabled w Tick \<longleftrightarrow> w_ticks w > 0"
| "w_enabled w (LoadEnds n a) \<longleftrightarrow> n \<in> set (w_pending w)"

fun w_step :: "ra_params \<Rightarrow> ra_world \<Rightarrow> ra_input \<Rightarrow> ra_world" where
  "w_step P w Tick = extend P (w\<lparr>w_ticks := w_ticks w - 1\<rparr>) (ra_run P (w_app w))"
| "w_step P w (LoadEnds n a) = extend P (w\<lparr>w_pending := remove1 n (w_pending w)\<rparr>) (load_ended P n a (w_app w))"

text \<open>A world after some history of inputs, each possible when it happens and satisfying \<open>ok\<close>.\<close>

inductive ra_reach :: "ra_params \<Rightarrow> message \<Rightarrow> (ra_input \<Rightarrow> bool) \<Rightarrow> ra_world \<Rightarrow> bool" for P m ok where
  ra_start: "ra_reach P m ok (new_world P m)"
| ra_next: "ra_reach P m ok w \<Longrightarrow> w_enabled w i \<Longrightarrow> ok i \<Longrightarrow> ra_reach P m ok (w_step P w i)"

fun verdicts :: "ra_effect list \<Rightarrow> (message \<times> action option \<times> json option) list" where
  "verdicts [] = []"
| "verdicts (Verdict m e r # es) = (m, e, r) # verdicts es"
| "verdicts (e # es) = verdicts es"

fun rule_calls :: "ra_effect list \<Rightarrow> nat" where
  "rule_calls [] = 0"
| "rule_calls (CallRule a # es) = Suc (rule_calls es)"
| "rule_calls (e # es) = rule_calls es"

section \<open>Shared facts\<close>

lemma verdicts_append [simp]: "verdicts (es @ fs) = verdicts es @ verdicts fs"
  by (induction es rule: verdicts.induct) auto

lemma rule_calls_append [simp]: "rule_calls (es @ fs) = rule_calls es + rule_calls fs"
  by (induction es rule: rule_calls.induct) auto

lemma asked_loads_append [simp]: "asked_loads P (es @ fs) = asked_loads P es @ asked_loads P fs"
  by (induction es rule: asked_loads.induct) auto

text \<open>An operation that calls no rule, forgets no end and starts no run.\<close>

definition steady :: "application \<Rightarrow> application \<times> ra_effect list \<Rightarrow> bool" where
  "steady st = (\<lambda>(st1, es). ra_iterations st1 = ra_iterations st \<and> (ra_isDestroyed st \<longrightarrow> ra_isDestroyed st1) \<and> rule_calls es = 0)"

lemma steady_ops:
  "steady st (ra_destroy P st)" "steady st (onRuleError P st)" "steady st (onLoadComplete n d st)"
  "steady st (onLoadError P n st)"
  by (auto simp: steady_def ra_destroy_def onRuleError_def onLoadComplete_def onLoadError_def Let_def)

lemma steady_load_ended: "steady st (load_ended P n a st)"
  by (cases a) (simp_all add: steady_ops)

lemma steady_loadRecord: "steady st (loadRecord P n st)"
proof (cases "rp_instant P n")
  case None
  then show ?thesis
    using steady_ops(3) by (auto simp: loadRecord_def steady_def Let_def split: option.split)
next
  case (Some a)
  let ?st = "st\<lparr>ra_recordsData := js_set n (Some LOADING) (ra_recordsData st)\<rparr>"
  obtain st1 es where l: "load_ended P n a ?st = (st1, es)" by (cases "load_ended P n a ?st")
  then have "steady ?st (st1, es)" using steady_load_ended [of ?st P n a] by simp
  then have "steady st (st1, RunWhenStable n # es)" by (simp add: steady_def)
  moreover have "steady st (st, [])" by (simp add: steady_def)
  ultimately show ?thesis
    using steady_ops(3) Some l by (simp add: loadRecord_def Let_def split: option.split)
qed

lemma steady_refl: "steady st (st, [])"
  by (simp add: steady_def)

lemma steady_cross: "steady st (snd (crossReference P x st))"
  using steady_ops(2) steady_loadRecord steady_refl
  by (simp add: crossReference_def split: option.split json.split)

lemma steady_old: "steady st (snd (getOldData P st))"
  using steady_loadRecord steady_refl by (simp add: getOldData_def)

lemma steady_message: "steady (st\<lparr>ra_message := m\<rparr>) r \<longleftrightarrow> steady st r"
  by (auto simp: steady_def)

lemma steady_current: "steady st (snd (getCurrentData P st))"
proof -
  have refl: "steady st (st, [])" "steady st (st\<lparr>ra_message := m\<rparr>, [])" for m by (simp_all add: steady_def)
  have ops: "steady st (onRuleError P (st\<lparr>ra_message := m\<rparr>))" "steady st (loadRecord P n (st\<lparr>ra_message := m\<rparr>))" for m n
    using steady_ops(2) steady_loadRecord steady_message by blast+
  show ?thesis
    using refl ops steady_ops(2)
    by (auto simp: getCurrentData_def getRecordPatchData_def Let_def split: sum.split)
qed

lemma steady_then:
  "steady st (st1, e1) \<Longrightarrow> steady st1 (st2, e2) \<Longrightarrow> steady st (st2, e1 @ e2)"
  by (auto simp: steady_def)

lemma steady_args: "steady st (snd (getArguments P st))"
proof -
  obtain r st1 e1 where c: "getCurrentData P st = (r, st1, e1)" by (cases "getCurrentData P st")
  then have 1: "steady st (st1, e1)" using steady_current [of st P] by simp
  obtain o' st2 e2 where d: "getOldData P st1 = (o', st2, e2)" by (cases "getOldData P st1")
  then have "steady st1 (st2, e2)" using steady_old [of st1 P] by simp
  with 1 show ?thesis by (cases r) (auto simp: getArguments_def c d intro: steady_then)
qed

lemma steady_exec: "steady st (snd (exec P p st))"
proof (induction p arbitrary: st)
  case (Cross x k)
  obtain a st1 e1 where c: "crossReference P x st = (a, st1, e1)" by (cases "crossReference P x st")
  obtain r st2 e2 where e: "exec P (k a) st1 = (r, st2, e2)" by (cases "exec P (k a) st1")
  have "steady st1 (snd (exec P (k a) st1))" by (rule Cross.IH) simp
  then have "steady st (st1, e1)" "steady st1 (st2, e2)"
    using steady_cross [of st P x] c e by auto
  then show ?case by (auto simp: c e intro: steady_then)
qed (simp_all add: steady_def)

lemma steady_conclude: "steady st (conclude P r st)"
proof -
  have "steady st (case ra_destroy P st of (st1, es) \<Rightarrow> (st1, Verdict m e v # es))" for m e v
    by (simp add: steady_def ra_destroy_def)
  then show ?thesis
    using steady_ops(2) steady_refl by (simp add: conclude_def split: sum.split)
qed

section \<open>How often a rule runs\<close>

definition run_bound :: "ra_params \<Rightarrow> application \<Rightarrow> ra_effect list \<Rightarrow> bool" where
  "run_bound P st es \<longleftrightarrow> (\<forall>k. rp_maxRuleIterations P = Some k \<longrightarrow>
     rule_calls es \<le> ra_iterations st \<and> int (rule_calls es) \<le> max 0 k \<and> (int (ra_iterations st) > max 0 k \<longrightarrow> ra_isDestroyed st))"

lemma steady_bound: "run_bound P st es \<Longrightarrow> steady st (st1, e1) \<Longrightarrow> run_bound P st1 (es @ e1)"
  by (auto simp: run_bound_def steady_def)

lemma run_bound_run:
  assumes "run_bound P st es"
  shows "run_bound P (fst (ra_run P st)) (es @ snd (ra_run P st))"
proof -
  let ?st = "st\<lparr>ra_runScheduled := False, ra_iterations := Suc (ra_iterations st)\<rparr>"
  let ?over = "\<exists>k \<in> set_option (rp_maxRuleIterations P). int (ra_iterations ?st) > k"
  consider (destroyed) "ra_isDestroyed ?st" | (over) "\<not> ra_isDestroyed ?st" ?over | (goes) "\<not> ra_isDestroyed ?st" "\<not> ?over"
    by blast
  then show ?thesis
  proof cases
    case destroyed
    then have "ra_run P st = (?st, [])" by (simp add: ra_run_def Let_def)
    then show ?thesis using assms destroyed by (auto simp: run_bound_def)
  next
    case over
    then have r: "ra_run P st = onRuleError P ?st" by (simp only: ra_run_def Let_def if_False if_True)
    obtain st1 e1 where e: "onRuleError P ?st = (st1, e1)" by (cases "onRuleError P ?st")
    have "ra_isDestroyed st1" using e over(1) by (auto simp: onRuleError_def ra_destroy_def)
    then show ?thesis using assms steady_ops(2) [of ?st P] by (auto simp: r e run_bound_def steady_def)
  next
    case goes
    obtain a st1 e1 where a: "getArguments P ?st = (a, st1, e1)" by (cases "getArguments P ?st")
    have s1: "steady ?st (st1, e1)" using steady_args [of ?st P] a by simp
    show ?thesis
    proof (cases a)
      case (Inl e)
      then have "ra_run P st = (st1, e1 @ [Uncaught e])"
        using goes by (simp add: ra_run_def Let_def a del: ex_simps bex_simps)
      then show ?thesis using assms s1 goes(2) by (auto simp: run_bound_def steady_def)
    next
      case (Inr args)
      obtain r st2 e2 where x: "exec P (cr_fn (rp_rule P) args) st1 = (r, st2, e2)" by (cases "exec P (cr_fn (rp_rule P) args) st1")
      obtain st3 e3 where c: "conclude P r st2 = (st3, e3)" by (cases "conclude P r st2")
      have s: "steady st1 (st2, e2)" "steady st2 (st3, e3)"
        using steady_exec [of st1 P "cr_fn (rp_rule P) args"] x steady_conclude [of st2 P r] c by auto
      have "ra_run P st = (st3, e1 @ CallRule args # e2 @ e3)"
        using goes by (simp add: ra_run_def Let_def a Inr x c)
      then show ?thesis using assms s1 s goes(2) by (auto simp: run_bound_def steady_def)
    qed
  qed
qed

text \<open>C19: A rule's function is called at most \<open>maxRuleIterations\<close> times for a message, and the run after the last one
  ends the application: whatever the rule asks for and however the loads end.\<close>

theorem rule_runs_bounded:
  assumes "ra_reach P m ok w" "rp_maxRuleIterations P = Some k"
  shows "int (rule_calls (w_effects w)) \<le> max 0 k \<and> (int (ra_iterations (w_app w)) > max 0 k \<longrightarrow> ra_isDestroyed (w_app w))"
proof -
  have "run_bound P (w_app w) (w_effects w)"
    using assms(1)
  proof (induction rule: ra_reach.induct)
    case ra_start
    have "run_bound P (start_application P m) []" by (simp add: run_bound_def start_application_def)
    then show ?case
      using run_bound_run [of P "start_application P m" "[]"] by (simp add: new_world_def new_application_def extend_def split_beta)
  next
    case (ra_next w i)
    show ?case
    proof (cases i)
      case Tick
      then show ?thesis using run_bound_run [OF ra_next.IH] by (simp add: extend_def split_beta)
    next
      case (LoadEnds n a)
      have "steady (w_app w) (fst (load_ended P n a (w_app w)), snd (load_ended P n a (w_app w)))"
        using steady_load_ended by simp
      from steady_bound [OF ra_next.IH this] show ?thesis using LoadEnds by (simp add: extend_def split_beta)
    qed
  qed
  then show ?thesis using assms(2) by (simp add: run_bound_def)
qed

section \<open>What a rule means\<close>

text \<open>
  The rule with all records at hand: \<open>db\<close> gives what each record holds, \<open>null\<close> for one that does not exist.
\<close>

definition answer_of :: "(string \<Rightarrow> json option) \<Rightarrow> json option \<Rightarrow> json option" where
  "answer_of db x = (case x of Some (JStr n) \<Rightarrow> if mentions_undefined n then None else db n | _ \<Rightarrow> None)"

primrec eval_rule :: "(string \<Rightarrow> json option) \<Rightarrow> rule_run \<Rightarrow> string + json option" where
  "eval_rule db (Returns v) = Inr v"
| "eval_rule db (Raise e) = Inl e"
| "eval_rule db (Cross x k) = eval_rule db (k (answer_of db x))"

text \<open>The message's data, \<open>None\<close> when a patch cannot be applied.\<close>

definition full_data :: "ra_params \<Rightarrow> (string \<Rightarrow> json option) \<Rightarrow> message \<Rightarrow> json option option" where
  "full_data P db m =
     (if \<not> cr_hasData (rp_rule P) then Some (Some JNull)
      else if m_topic m = T_RPC \<or> m_topic m = T_EVENT \<and> nonempty (m_data m) \<or>
              m_topic m = T_RECORD \<and> m_action m = RecordA RA_UPDATE
      then Some (m_parsed m)
      else if m_topic m = T_RECORD \<and> m_action m = RecordA RA_PATCH \<and> nonempty (m_path m)
      then (case db (own_name P) of
              None \<Rightarrow> None
            | Some v \<Rightarrow> if v = JNull then None
                        else (case setValue (rp_num P) v (the (m_path m)) (m_parsed m) of Inl e \<Rightarrow> None | Inr d \<Rightarrow> Some (Some d)))
      else Some None)"

definition full_args :: "ra_params \<Rightarrow> (string \<Rightarrow> json option) \<Rightarrow> message \<Rightarrow> int \<Rightarrow> rule_args" where
  "full_args P db m now = \<lparr>arg_user = getUser P, arg_data = the (full_data P db m),
     arg_oldData = (if cr_hasOldData (rp_rule P) then db (own_name P) else None), arg_now = now,
     arg_action = rp_action P, arg_name = rp_name P, arg_vars = Some (getPathVars P)\<rparr>"

primrec asks_strings :: "rule_run \<Rightarrow> bool" where
  "asks_strings (Returns v) = True"
| "asks_strings (Raise e) = True"
| "asks_strings (Cross x k) = ((case x of Some (JStr n) \<Rightarrow> True | None \<Rightarrow> True | _ \<Rightarrow> False) \<and> (\<forall>a. asks_strings (k a)))"

text \<open>
  Nothing goes wrong: references are strings, no record holds the string that marks a load, the message is
  parsed already, a patch fits, and loads that end within the call tell what \<open>db\<close> says.
\<close>

definition undisturbed :: "ra_params \<Rightarrow> (string \<Rightarrow> json option) \<Rightarrow> message \<Rightarrow> bool" where
  "undisturbed P db m \<longleftrightarrow> (\<forall>a. asks_strings (cr_fn (rp_rule P) a)) \<and> (\<forall>n. db n \<noteq> None \<and> db n \<noteq> Some LOADING) \<and>
     (\<forall>n a. rp_instant P n = Some a \<longrightarrow> (\<exists>v. a = Loaded v (db n))) \<and> rp_parseData P m = Inr m \<and> full_data P db m \<noteq> None"

fun loads_from :: "(string \<Rightarrow> json option) \<Rightarrow> ra_input \<Rightarrow> bool" where
  "loads_from db (LoadEnds n (Loaded v d)) \<longleftrightarrow> d = db n"
| "loads_from db (LoadEnds n (LoadFailed a t)) \<longleftrightarrow> False"
| "loads_from db Tick \<longleftrightarrow> True"

text \<open>The verdict a rule's value stands for.\<close>

definition permission_error :: "action option \<times> json option" where
  "permission_error = (Some (EventA EA_MESSAGE_PERMISSION_ERROR), Some (JBool False))"

definition verdict_of :: "string + json option \<Rightarrow> action option \<times> json option" where
  "verdict_of r = (case r of Inr v \<Rightarrow> (None, v) | Inl e \<Rightarrow> permission_error)"

definition right_verdict :: "ra_params \<Rightarrow> (string \<Rightarrow> json option) \<Rightarrow> message \<Rightarrow> nat \<Rightarrow> action option \<times> json option \<Rightarrow> bool" where
  "right_verdict P db m i v \<longleftrightarrow>
     (\<exists>now. v = verdict_of (eval_rule db (cr_fn (rp_rule P) (full_args P db m now)))) \<or>
     v = permission_error \<and> (\<exists>k. rp_maxRuleIterations P = Some k \<and> int i > k)"

section \<open>Partial runs\<close>

declare map_of_eq_Some_iff [simp del] Some_eq_map_of_iff [simp del]

definition ra_ok :: "ra_params \<Rightarrow> (string \<Rightarrow> json option) \<Rightarrow> message \<Rightarrow> string set \<Rightarrow> application \<Rightarrow> bool" where
  "ra_ok P db m pend st \<longleftrightarrow> \<not> ra_isDestroyed st \<and> ra_message st = m \<and> ra_pathVars st = Some (getPathVars P) \<and>
     ra_user st = getUser P \<and> distinct (js_keys (ra_recordsData st)) \<and>
     (\<forall>n v. js_get (ra_recordsData st) n = Some v \<longrightarrow> v = db n \<or> v = Some LOADING \<and> n \<in> pend)"

text \<open>An operation after which the application is ready only if it did nothing and gave the value \<open>a\<close>.\<close>

definition benign :: "ra_params \<Rightarrow> (string \<Rightarrow> json option) \<Rightarrow> message \<Rightarrow> string set \<Rightarrow> application \<Rightarrow> 'a \<Rightarrow> 'a ra_result \<Rightarrow> bool" where
  "benign P db m pend st a = (\<lambda>(r, st1, es). ra_ok P db m (pend \<union> set (asked_loads P es)) st1 \<and> verdicts es = [] \<and>
     (ra_runScheduled st1 \<longrightarrow> ra_runScheduled st \<or> NextTick \<in> set es) \<and>
     (isReady st1 \<longrightarrow> st1 = st \<and> es = [] \<and> r = a))"

lemma isReady_get:
  "distinct (js_keys (ra_recordsData st)) \<Longrightarrow>
   isReady st \<longleftrightarrow> (\<forall>n v. js_get (ra_recordsData st) n = Some v \<longrightarrow> v \<noteq> Some LOADING) \<and> \<not> ra_runScheduled st"
  by (auto simp: isReady_def list_all_iff map_of_eq_Some_iff)

lemma benign_refl: "ra_ok P db m pend st \<Longrightarrow> benign P db m pend st a (a, st, [])"
  by (simp add: benign_def)

lemma benign_waiting: "ra_ok P db m pend st \<Longrightarrow> \<not> isReady st \<Longrightarrow> benign P db m pend st a (r, st, [])"
  by (simp add: benign_def)

lemma benign_then:
  assumes "benign P db m pend st a (a', st1, e1)"
    and "benign P db m (pend \<union> set (asked_loads P e1)) st1 b (r, st2, e2)"
    and "a' = a \<Longrightarrow> st1 = st \<Longrightarrow> b = c"
  shows "benign P db m pend st c (r, st2, e1 @ e2)"
  using assms by (auto simp: benign_def Un_assoc)

lemma undisturbedD:
  assumes "undisturbed P db m"
  shows "asks_strings (cr_fn (rp_rule P) a)" "db n \<noteq> None" "db n \<noteq> Some LOADING"
    "rp_instant P n = Some x \<Longrightarrow> \<exists>v. x = Loaded v (db n)" "rp_parseData P m = Inr m" "full_data P db m \<noteq> None"
  using assms by (auto simp: undisturbed_def)

lemma ra_ok_set:
  assumes "ra_ok P db m pend st" "v = db n \<or> v = Some LOADING \<and> n \<in> pend'" "pend - {n} \<subseteq> pend'"
  shows "ra_ok P db m pend' (st\<lparr>ra_recordsData := js_set n v (ra_recordsData st)\<rparr>)"
proof -
  have old: "w = db k \<or> w = Some LOADING \<and> k \<in> pend" if "js_get (ra_recordsData st) k = Some w" for k w
    using assms(1) that unfolding ra_ok_def by blast
  have "w = db k \<or> w = Some LOADING \<and> k \<in> pend'" if "js_get (js_set n v (ra_recordsData st)) k = Some w" for k w
    using that old [of k w] assms(2,3) unfolding js_get_set by (auto split: if_splits)
  then show ?thesis using assms(1) by (simp add: ra_ok_def del: map_of_eq_Some_iff)
qed

lemma ra_ok_scheduled: "ra_ok P db m pend (st\<lparr>ra_runScheduled := b\<rparr>) \<longleftrightarrow> ra_ok P db m pend st"
  "ra_ok P db m pend (st\<lparr>ra_runScheduled := b, ra_iterations := i\<rparr>) \<longleftrightarrow> ra_ok P db m pend st"
  by (simp_all add: ra_ok_def)

lemma not_ready_loading: "js_get (ra_recordsData st) n = Some (Some LOADING) \<Longrightarrow> \<not> isReady st"
  by (auto simp: isReady_def list_all_iff dest: map_of_SomeD)

lemma loaded_waits: "onLoadComplete n d st = (st1, es) \<Longrightarrow> \<not> isReady st1"
  by (auto simp: onLoadComplete_def Let_def isReady_def split: if_splits)

lemma loaded_ok:
  assumes "ra_ok P db m pend st" "pend - {n} \<subseteq> pend'" "onLoadComplete n (db n) st = (st1, es)"
  shows "ra_ok P db m pend' st1 \<and> verdicts es = [] \<and> asked_loads P es = [] \<and>
    (ra_runScheduled st1 \<longrightarrow> ra_runScheduled st \<or> NextTick \<in> set es)"
proof -
  have "ra_ok P db m pend' (st\<lparr>ra_recordsData := js_set n (db n) (ra_recordsData st)\<rparr>)"
    using ra_ok_set assms(1,2) by blast
  then show ?thesis using assms(3) by (auto simp: onLoadComplete_def Let_def ra_ok_scheduled split: if_splits)
qed

lemma loadRecord_ok:
  assumes und: "undisturbed P db m" and ok: "ra_ok P db m pend st"
    and absent: "record_of n st = None \<or> record_of n st = Some LOADING"
  shows "benign P db m pend st a (r, loadRecord P n st)"
proof (cases "record_of n st = Some LOADING")
  case True
  then have "js_get (ra_recordsData st) n = Some (Some LOADING)" by (simp add: record_of_def split: option.splits)
  then show ?thesis using benign_waiting [OF ok not_ready_loading] True by (simp add: loadRecord_def)
next
  case False
  let ?st = "st\<lparr>ra_recordsData := js_set n (Some LOADING) (ra_recordsData st)\<rparr>"
  have none: "record_of n st = None" using False absent by blast
  have ok1: "ra_ok P db m (pend \<union> {n}) ?st" by (rule ra_ok_set [OF ok]) auto
  have wait: "\<not> isReady ?st" by (rule not_ready_loading [of _ n]) (simp add: js_simps)
  show ?thesis
  proof (cases "rp_instant P n")
    case None
    then show ?thesis
      using none ok1 wait by (simp add: loadRecord_def benign_def insert_commute)
  next
    case (Some x)
    then obtain v where x: "x = Loaded v (db n)" using undisturbedD(4) [OF und] by blast
    obtain st1 es where l: "onLoadComplete n (db n) ?st = (st1, es)" by (cases "onLoadComplete n (db n) ?st")
    have "ra_ok P db m pend st1 \<and> verdicts es = [] \<and> asked_loads P es = [] \<and>
        (ra_runScheduled st1 \<longrightarrow> ra_runScheduled ?st \<or> NextTick \<in> set es)"
      by (rule loaded_ok [OF ok1 _ l]) auto
    then show ?thesis
      using none Some x l loaded_waits [OF l] by (auto simp: loadRecord_def benign_def)
  qed
qed

lemma record_of_ok:
  assumes "undisturbed P db m" "ra_ok P db m pend st"
  shows "record_of n st = None \<or> record_of n st = Some LOADING \<or> record_of n st = db n"
  using assms by (auto simp: record_of_def ra_ok_def split: option.split)

lemma cross_ok:
  assumes und: "undisturbed P db m" and ok: "ra_ok P db m pend st"
    and x: "case x of Some (JStr n) \<Rightarrow> True | None \<Rightarrow> True | _ \<Rightarrow> False"
  shows "benign P db m pend st (answer_of db x) (crossReference P x st)"
proof (cases x)
  case None
  then show ?thesis using benign_refl [OF ok] by (simp add: crossReference_def answer_of_def)
next
  case (Some v)
  then obtain n where x: "x = Some (JStr n)" using x by (cases v) auto
  show ?thesis
  proof (cases "mentions_undefined n")
    case True
    then show ?thesis using benign_refl [OF ok] by (simp add: crossReference_def answer_of_def x)
  next
    case False
    consider "record_of n st = None" | "record_of n st = Some LOADING" | "record_of n st = db n" "db n \<noteq> None" "db n \<noteq> Some LOADING"
      using record_of_ok [OF und ok, of n] undisturbedD(2,3) [OF und, of n] by metis
    then show ?thesis
    proof cases
      case 1
      then show ?thesis using loadRecord_ok [OF und ok disjI1 [OF 1]] False by (simp add: crossReference_def x LOADING_def)
    next
      case 2
      then have "js_get (ra_recordsData st) n = Some (Some LOADING)" by (simp add: record_of_def split: option.splits)
      then show ?thesis using benign_waiting [OF ok not_ready_loading] 2 False by (simp add: crossReference_def x)
    next
      case 3
      then show ?thesis using False by (auto simp: crossReference_def x answer_of_def benign_refl [OF ok])
    qed
  qed
qed

lemma exec_ok:
  "undisturbed P db m \<Longrightarrow> ra_ok P db m pend st \<Longrightarrow> asks_strings p \<Longrightarrow> benign P db m pend st (eval_rule db p) (exec P p st)"
proof (induction p arbitrary: st pend)
  case (Cross x k)
  obtain a st1 e1 where c: "crossReference P x st = (a, st1, e1)" by (cases "crossReference P x st")
  obtain r st2 e2 where e: "exec P (k a) st1 = (r, st2, e2)" by (cases "exec P (k a) st1")
  have 1: "benign P db m pend st (answer_of db x) (a, st1, e1)"
    using cross_ok [OF Cross.prems(1,2)] Cross.prems(3) c by (metis asks_strings.simps(3))
  then have "ra_ok P db m (pend \<union> set (asked_loads P e1)) st1" by (simp add: benign_def)
  then have 2: "benign P db m (pend \<union> set (asked_loads P e1)) st1 (eval_rule db (k a)) (r, st2, e2)"
    using Cross.IH [OF rangeI Cross.prems(1)] Cross.prems(3) e by (metis asks_strings.simps(3))
  show ?case using benign_then [OF 1 2] by (simp add: c e)
qed (auto intro: benign_refl)

lemma old_ok:
  assumes und: "undisturbed P db m" and ok: "ra_ok P db m pend st"
  shows "benign P db m pend st (if cr_hasOldData (rp_rule P) then db (own_name P) else None) (getOldData P st)"
proof -
  let ?n = "own_name P"
  have alive: "\<not> ra_isDestroyed st" using ok by (simp add: ra_ok_def)
  consider (unused) "\<not> cr_hasOldData (rp_rule P)"
    | (absent) "cr_hasOldData (rp_rule P)" "js_get (ra_recordsData st) ?n = None"
    | (loading) "cr_hasOldData (rp_rule P)" "js_get (ra_recordsData st) ?n = Some (Some LOADING)"
    | (known) "cr_hasOldData (rp_rule P)" "js_get (ra_recordsData st) ?n = Some (db ?n)"
    using ok unfolding ra_ok_def by (metis option.exhaust)
  then show ?thesis
  proof cases
    case unused
    then show ?thesis by (simp add: getOldData_def benign_refl [OF ok])
  next
    case absent
    then have "record_of ?n st = None" by (simp add: record_of_def)
    then show ?thesis using absent alive loadRecord_ok [OF und ok disjI1] by (simp add: getOldData_def js_has_def)
  next
    case loading
    then show ?thesis
      using alive by (simp add: getOldData_def js_has_def record_of_def benign_waiting [OF ok not_ready_loading])
  next
    case known
    then show ?thesis using alive by (simp add: getOldData_def js_has_def record_of_def benign_refl [OF ok])
  qed
qed

lemma same_message: "ra_ok P db m pend st \<Longrightarrow> st\<lparr>ra_message := m\<rparr> = st"
  by (simp add: ra_ok_def)

lemma patch_ok:
  assumes und: "undisturbed P db m" and ok: "ra_ok P db m pend st"
    and patch: "cr_hasData (rp_rule P)" "m_topic m = T_RECORD" "m_action m = RecordA RA_PATCH"
  shows "benign P db m pend st (Inr (the (full_data P db m))) (getRecordPatchData P st) \<and> (\<exists>d. fst (getRecordPatchData P st) = Inr d)"
proof (cases "nonempty (m_path m)")
  case False
  then show ?thesis
    using patch ok by (simp add: getRecordPatchData_def full_data_def ra_ok_def [THEN iffD1] benign_def)
next
  case True
  let ?n = "own_name P"
  have m: "ra_message st = m" using ok by (simp add: ra_ok_def)
  have parse: "rp_parseData P m = Inr m" by (rule undisturbedD(5) [OF und])
  have full: "full_data P db m \<noteq> None" by (rule undisturbedD(6) [OF und])
  obtain v where v: "db ?n = Some v" using undisturbedD(2) [OF und, of ?n] by blast
  have vn: "v \<noteq> JNull" using full True patch v by (auto simp: full_data_def split: if_splits)
  have vl: "v \<noteq> LOADING" using undisturbedD(3) [OF und, of ?n] v by simp
  obtain d where d: "setValue (rp_num P) v (the (m_path m)) (m_parsed m) = Inr d"
    using full True patch v vn by (auto simp: full_data_def split: if_splits sum.splits)
  have data: "full_data P db m = Some (Some d)" using True patch v vn d by (simp add: full_data_def)
  consider "record_of ?n st = None \<or> record_of ?n st = Some LOADING" | "record_of ?n st = Some v"
    using record_of_ok [OF und ok, of ?n] v by metis
  then show ?thesis
  proof cases
    case 1
    then have "record_of ?n st \<noteq> Some JNull" by (auto simp: LOADING_def)
    then show ?thesis
      using 1 True m parse by (auto simp: getRecordPatchData_def Let_def same_message [OF ok] loadRecord_ok [OF und ok 1])
  next
    case 2
    then show ?thesis
      using True m parse vn vl d data by (simp add: getRecordPatchData_def Let_def benign_refl [OF ok] same_message [OF ok])
  qed
qed

lemma current_ok:
  assumes und: "undisturbed P db m" and ok: "ra_ok P db m pend st"
  shows "benign P db m pend st (Inr (the (full_data P db m))) (getCurrentData P st) \<and> (\<exists>d. fst (getCurrentData P st) = Inr d)"
proof -
  have m: "ra_message st = m" using ok by (simp add: ra_ok_def)
  have parse: "rp_parseData P m = Inr m" by (rule undisturbedD(5) [OF und])
  consider (unused) "\<not> cr_hasData (rp_rule P)"
    | (given) "cr_hasData (rp_rule P)" "m_topic m = T_RPC \<or> m_topic m = T_EVENT \<and> nonempty (m_data m) \<or>
              m_topic m = T_RECORD \<and> m_action m = RecordA RA_UPDATE"
    | (patch) "cr_hasData (rp_rule P)" "m_topic m = T_RECORD" "m_action m = RecordA RA_PATCH"
    | (other) "cr_hasData (rp_rule P)" "\<not> (m_topic m = T_RPC \<or> m_topic m = T_EVENT \<and> nonempty (m_data m) \<or>
              m_topic m = T_RECORD \<and> m_action m = RecordA RA_UPDATE)" "\<not> (m_topic m = T_RECORD \<and> m_action m = RecordA RA_PATCH)"
    by blast
  then show ?thesis
  proof cases
    case unused
    then show ?thesis by (simp add: getCurrentData_def full_data_def benign_refl [OF ok])
  next
    case given
    then show ?thesis
      by (simp add: getCurrentData_def full_data_def m parse same_message [OF ok] benign_refl [OF ok] Let_def)
  next
    case patch
    then show ?thesis using patch_ok [OF und ok patch] by (simp add: getCurrentData_def m Let_def)
  next
    case other
    then have "getCurrentData P st = (Inr None, st, [])" by (auto simp: getCurrentData_def m Let_def)
    moreover have "full_data P db m = Some None" using other by (auto simp: full_data_def)
    ultimately show ?thesis by (simp add: benign_refl [OF ok])
  qed
qed
lemma args_ok:
  assumes und: "undisturbed P db m" and ok: "ra_ok P db m pend st"
  shows "benign P db m pend st (Inr (full_args P db m (rp_now P (ra_iterations st)))) (getArguments P st) \<and>
    (\<exists>a. fst (getArguments P st) = Inr a)"
proof -
  obtain d st1 e1 where c: "getCurrentData P st = (Inr d, st1, e1)"
    using current_ok [OF und ok] by (metis prod.collapse)
  have 1: "benign P db m pend st (Inr (the (full_data P db m))) (Inr d :: js_error + json option, st1, e1)"
    using current_ok [OF und ok] c by simp
  then have ok1: "ra_ok P db m (pend \<union> set (asked_loads P e1)) st1" by (simp add: benign_def)
  obtain od st2 e2 where o2: "getOldData P st1 = (od, st2, e2)" by (cases "getOldData P st1")
  have 2: "benign P db m (pend \<union> set (asked_loads P e1)) st1 (if cr_hasOldData (rp_rule P) then db (own_name P) else None) (od, st2, e2)"
    using old_ok [OF und ok1] o2 by simp
  have user: "ra_user st = getUser P" "ra_pathVars st2 = Some (getPathVars P)"
    using ok 2 by (simp_all add: ra_ok_def benign_def)
  show ?thesis
    using 1 2 user by (auto simp: getArguments_def c o2 benign_def full_args_def Un_assoc)
qed

section \<open>The verdict is the rule's\<close>

text \<open>The state of an application between its runs: it waits for a load or a tick, or it has given its verdict.\<close>

definition waiting :: "ra_params \<Rightarrow> (string \<Rightarrow> json option) \<Rightarrow> message \<Rightarrow> string set \<Rightarrow> application \<Rightarrow> bool" where
  "waiting P db m pend st \<longleftrightarrow> ra_ok P db m pend st \<and> \<not> isReady st"

definition world_ok :: "ra_params \<Rightarrow> (string \<Rightarrow> json option) \<Rightarrow> message \<Rightarrow> ra_world \<Rightarrow> bool" where
  "world_ok P db m w \<longleftrightarrow>
     (if ra_isDestroyed (w_app w)
      then \<exists>v i. verdicts (w_effects w) = [(m, v)] \<and> right_verdict P db m i v \<and> i \<le> ra_iterations (w_app w)
      else waiting P db m (set (w_pending w)) (w_app w) \<and> verdicts (w_effects w) = [] \<and>
           (ra_runScheduled (w_app w) \<longrightarrow> w_ticks w > 0))"

lemma run_ok:
  assumes und: "undisturbed P db m" and ok: "ra_ok P db m pend st" and r: "ra_run P st = (st1, es)"
  shows "if ra_isDestroyed st1
    then \<exists>v. verdicts es = [(m, v)] \<and> right_verdict P db m (ra_iterations st1) v
    else waiting P db m (pend \<union> set (asked_loads P es)) st1 \<and> verdicts es = [] \<and> (ra_runScheduled st1 \<longrightarrow> NextTick \<in> set es)"
proof -
  let ?st = "st\<lparr>ra_runScheduled := False, ra_iterations := Suc (ra_iterations st)\<rparr>"
  let ?over = "\<exists>k \<in> set_option (rp_maxRuleIterations P). int (ra_iterations ?st) > k"
  have ok0: "ra_ok P db m pend ?st" using ok by (simp add: ra_ok_scheduled)
  then have alive: "\<not> ra_isDestroyed ?st" and m: "ra_message st = m" by (simp_all add: ra_ok_def)
  show ?thesis
  proof (cases ?over)
    case True
    then have e: "onRuleError P ?st = (st1, es)" using r alive by (simp only: ra_run_def Let_def if_False if_True)
    then have "ra_isDestroyed st1" "verdicts es = [(m, permission_error)]" "ra_iterations st1 = ra_iterations ?st"
      using alive m by (auto simp: onRuleError_def ra_destroy_def permission_error_def)
    then show ?thesis using True by (auto simp: right_verdict_def)
  next
    case False
    obtain args sa e1 where a: "getArguments P ?st = (Inr args, sa, e1)"
      using args_ok [OF und ok0] by (metis prod.collapse)
    let ?full = "full_args P db m (rp_now P (ra_iterations ?st))"
    have b1: "benign P db m pend ?st (Inr ?full) (Inr args :: js_error + rule_args, sa, e1)"
      using args_ok [OF und ok0] a by simp
    then have oka: "ra_ok P db m (pend \<union> set (asked_loads P e1)) sa" by (simp add: benign_def)
    obtain v sx e2 where x: "exec P (cr_fn (rp_rule P) args) sa = (v, sx, e2)" by (cases "exec P (cr_fn (rp_rule P) args) sa")
    have b2: "benign P db m (pend \<union> set (asked_loads P e1)) sa (eval_rule db (cr_fn (rp_rule P) args)) (v, sx, e2)"
      using exec_ok [OF und oka undisturbedD(1) [OF und]] x by metis
    obtain sc e3 where c: "conclude P v sx = (sc, e3)" by (cases "conclude P v sx")
    have run: "st1 = sc" "es = e1 @ CallRule args # e2 @ e3"
      using r False alive by (simp_all add: ra_run_def Let_def a x c)
    show ?thesis
    proof (cases "isReady sx")
      case True
      then have same: "sx = ?st" "args = ?full" "e1 = []" "e2 = []" "v = eval_rule db (cr_fn (rp_rule P) args)"
        using b1 b2 by (auto simp: benign_def)
      then have "verdicts e3 = [(m, verdict_of v)]" "ra_isDestroyed sc"
        using c True alive m
        by (auto simp: conclude_def onRuleError_def ra_destroy_def verdict_of_def permission_error_def split: sum.splits)
      then show ?thesis using run same by (auto simp: right_verdict_def)
    next
      case False
      then have "sc = sx" "e3 = []" using c by (simp_all add: conclude_def)
      then show ?thesis
        using run b1 b2 False by (auto simp: waiting_def benign_def Un_assoc ra_ok_def)
    qed
  qed
qed
lemma start_ok: "ra_ok P db m {} (start_application P m)"
  by (simp add: ra_ok_def start_application_def)

lemma destroyed_stays:
  "ra_isDestroyed st \<Longrightarrow> ra_run P st = (st\<lparr>ra_runScheduled := False, ra_iterations := Suc (ra_iterations st)\<rparr>, [])"
  by (simp add: ra_run_def Let_def)

lemma loaded_quiet:
  "onLoadComplete n d st = (st1, es) \<Longrightarrow>
   ra_isDestroyed st1 = ra_isDestroyed st \<and> ra_iterations st1 = ra_iterations st \<and> verdicts es = []"
  by (auto simp: onLoadComplete_def Let_def split: if_splits)

lemma next_tick_counts: "NextTick \<in> set es \<Longrightarrow> 0 < length (filter (\<lambda>e. e = NextTick) es)"
  by (simp add: filter_empty_conv)

lemma set_remove1_superset: "set xs - {x} \<subseteq> set (remove1 x xs)"
  using in_set_remove1 by fastforce

lemma world_ok_run:
  assumes und: "undisturbed P db m" and ok: "ra_ok P db m (set (w_pending w)) (w_app w)" and none: "verdicts (w_effects w) = []"
  shows "world_ok P db m (extend P w (ra_run P (w_app w)))"
proof -
  obtain st es where r: "ra_run P (w_app w) = (st, es)" by (cases "ra_run P (w_app w)")
  from run_ok [OF und ok r] show ?thesis
    using none next_tick_counts [of es] by (auto simp: world_ok_def extend_def r split: if_splits)
qed

lemma world_ok_reach:
  assumes und: "undisturbed P db m" and "ra_reach P m (loads_from db) w"
  shows "world_ok P db m w"
  using assms(2)
proof (induction rule: ra_reach.induct)
  case ra_start
  show ?case
    unfolding new_world_def new_application_def
    using world_ok_run [OF und, of "\<lparr>w_app = start_application P m, w_pending = [], w_ticks = 0, w_effects = []\<rparr>"] start_ok
    by simp
next
  case (ra_next w i)
  show ?case
  proof (cases i)
    case Tick
    show ?thesis
    proof (cases "ra_isDestroyed (w_app w)")
      case True
      then show ?thesis
        using ra_next.IH Tick by (auto simp: world_ok_def extend_def destroyed_stays intro: le_SucI)
    next
      case False
      then have "ra_ok P db m (set (w_pending w)) (w_app w)" "verdicts (w_effects w) = []"
        using ra_next.IH by (auto simp: world_ok_def waiting_def)
      then show ?thesis
        using world_ok_run [OF und, of "w\<lparr>w_ticks := w_ticks w - 1\<rparr>"] Tick by simp
    qed
  next
    case (LoadEnds n a)
    then obtain v where a: "a = Loaded v (db n)" using ra_next.hyps(3) by (cases a) auto
    obtain st es where l: "onLoadComplete n (db n) (w_app w) = (st, es)" by (cases "onLoadComplete n (db n) (w_app w)")
    note q = loaded_quiet [OF l]
    show ?thesis
    proof (cases "ra_isDestroyed (w_app w)")
      case True
      then show ?thesis using ra_next.IH LoadEnds a l q by (auto simp: world_ok_def extend_def)
    next
      case False
      then have ok: "ra_ok P db m (set (w_pending w)) (w_app w)" and t: "verdicts (w_effects w) = []"
        "ra_runScheduled (w_app w) \<longrightarrow> w_ticks w > 0"
        using ra_next.IH by (auto simp: world_ok_def waiting_def)
      from loaded_ok [OF ok set_remove1_superset l] show ?thesis
        using False LoadEnds a l q t loaded_waits [OF l] next_tick_counts [of es]
        by (auto simp: world_ok_def extend_def waiting_def)
    qed
  qed
qed

text \<open>An application is never stuck: as long as the verdict has not been given, a load that it asked for has not
  ended or a tick is scheduled.\<close>

lemma application_never_stuck:
  assumes "undisturbed P db m" "ra_reach P m (loads_from db) w" "verdicts (w_effects w) = []"
  shows "w_pending w \<noteq> [] \<or> w_ticks w > 0"
proof -
  have "waiting P db m (set (w_pending w)) (w_app w)" and t: "ra_runScheduled (w_app w) \<longrightarrow> w_ticks w > 0"
    using world_ok_reach [OF assms(1,2)] assms(3) by (auto simp: world_ok_def split: if_splits)
  then have ok: "ra_ok P db m (set (w_pending w)) (w_app w)" and "\<not> isReady (w_app w)" by (simp_all add: waiting_def)
  moreover have "distinct (js_keys (ra_recordsData (w_app w)))" using ok by (simp add: ra_ok_def)
  ultimately consider "ra_runScheduled (w_app w)"
    | n where "js_get (ra_recordsData (w_app w)) n = Some (Some LOADING)"
    using isReady_get by metis
  then show ?thesis
  proof cases
    case 1
    then show ?thesis using t by simp
  next
    case 2
    then have "n \<in> set (w_pending w)"
      using ok undisturbedD(3) [OF assms(1), of n] unfolding ra_ok_def by metis
    then show ?thesis by auto
  qed
qed


text \<open>A rule that compares the owner of a record with the user.\<close>

definition owner_rule :: rule_fn where
  "owner_rule a = Cross (Some (JStr ''owners'')) (\<lambda>r. Returns (Some (JBool (r = Some (JStr ''ann'')))))"

definition sample_params :: "rule_fn \<Rightarrow> int option \<Rightarrow> ra_params" where
  "sample_params f k = \<lparr>rp_userId = ''ann'', rp_serverData = None, rp_action = RecordA RA_READ, rp_regexp = (\<lambda>_. Some []),
     rp_rule = \<lparr>cr_fn = f, cr_hasOldData = False, cr_hasData = False\<rparr>, rp_name = Some ''doc'',
     rp_maxRuleIterations = k, rp_parseData = Inr, rp_now = (\<lambda>_. 0), rp_num = (\<lambda>s. s), rp_instant = (\<lambda>_. None)\<rparr>"

definition doc_read :: message where
  "doc_read = (msg T_RECORD (RecordA RA_READ))\<lparr>m_name := Some ''doc''\<rparr>"

definition owners_db :: "string \<Rightarrow> json option" where
  "owners_db n = Some (if n = ''owners'' then JStr ''ann'' else JNull)"

lemma owner_undisturbed: "undisturbed (sample_params owner_rule (Some 3)) owners_db doc_read"
  by (simp add: undisturbed_def sample_params_def owner_rule_def owners_db_def LOADING_def full_data_def)

definition owner_world :: ra_world where
  "owner_world = w_step (sample_params owner_rule (Some 3))
     (w_step (sample_params owner_rule (Some 3)) (new_world (sample_params owner_rule (Some 3)) doc_read)
        (LoadEnds ''owners'' (Loaded 1 (Some (JStr ''ann''))))) Tick"

lemma owner_reach: "ra_reach (sample_params owner_rule (Some 3)) doc_read (loads_from owners_db) owner_world"
  unfolding owner_world_def
proof (intro ra_next ra_start)
  show "w_enabled (new_world (sample_params owner_rule (Some 3)) doc_read) (LoadEnds ''owners'' (Loaded 1 (Some (JStr ''ann''))))"
    by code_simp
  show "loads_from owners_db (LoadEnds ''owners'' (Loaded 1 (Some (JStr ''ann''))))" by code_simp
  show "w_enabled (w_step (sample_params owner_rule (Some 3)) (new_world (sample_params owner_rule (Some 3)) doc_read)
     (LoadEnds ''owners'' (Loaded 1 (Some (JStr ''ann''))))) Tick" by code_simp
qed simp


theorem application_never_stuck_witness:
  "0 < length (w_pending (new_world (sample_params owner_rule (Some 3)) doc_read)) +
       w_ticks (new_world (sample_params owner_rule (Some 3)) doc_read)"
proof -
  have "verdicts (w_effects (new_world (sample_params owner_rule (Some 3)) doc_read)) = []" by code_simp
  from application_never_stuck [OF owner_undisturbed ra_start this] show ?thesis by auto
qed

theorem rule_runs_bounded_witness:
  "int (rule_calls (w_effects owner_world)) \<le> 3"
  using rule_runs_bounded [OF owner_reach, of 3] by (simp add: sample_params_def)
section \<open>Verdicts given twice, and never\<close>

text \<open>A reference to something that is no string ends the application with a permission error, and the same run
  then gives a second verdict, without an error, with the value the rule returns.\<close>

theorem bad_reference_decided_twice:
  assumes "\<And>a. cr_fn (rp_rule P) a = Cross (Some x) (\<lambda>_. Returns r)" "js_typeof (Some x) \<noteq> ''string''"
    and "\<not> cr_hasData (rp_rule P)" "\<not> cr_hasOldData (rp_rule P)"
    and "rp_maxRuleIterations P = Some k" "1 \<le> k"
  shows "verdicts (snd (new_application P m)) = [(m, permission_error), (m, None, r)]"
proof -
  have x: "crossReference P (Some x) st = (None, onRuleError P st)" for st
    using assms(2) by (cases x) (simp_all add: crossReference_def)
  show ?thesis
    using assms(1,3-6)
    by (simp add: new_application_def ra_run_def start_application_def getArguments_def getCurrentData_def getOldData_def Let_def
        x onRuleError_def ra_destroy_def conclude_def isReady_def permission_error_def)
qed

theorem bad_reference_decided_twice_witness:
  "verdicts (snd (new_application (sample_params (\<lambda>_. Cross (Some (JNum 1)) (\<lambda>_. Returns (Some (JBool True)))) (Some 3)) doc_read)) =
     [(doc_read, permission_error), (doc_read, None, Some (JBool True))]"
proof (rule bad_reference_decided_twice [where k = 3 and x = "JNum 1"])
  show "js_typeof (Some (JNum 1)) \<noteq> ''string''" by code_simp
qed (simp_all add: sample_params_def)

text \<open>Each load that fails gives a verdict, also when the application has ended: a rule that refers to two
  records which both cannot be loaded is answered twice.\<close>

theorem each_failed_load_answers:
  assumes "\<And>args. cr_fn (rp_rule P) args = Cross (Some (JStr a)) (\<lambda>_. Cross (Some (JStr b)) (\<lambda>_. Returns r))"
    and "a \<noteq> b" "\<not> mentions_undefined a" "\<not> mentions_undefined b" "rp_instant P a = None" "rp_instant P b = None"
    and "\<not> cr_hasData (rp_rule P)" "\<not> cr_hasOldData (rp_rule P)" "rp_maxRuleIterations P = Some k" "1 \<le> k"
  shows "\<exists>w. ra_reach P m (\<lambda>_. True) w \<and>
    verdicts (w_effects w) = [(m, Some (RecordA RA_RECORD_LOAD_ERROR), Some (JBool False)), (m, Some (RecordA RA_RECORD_LOAD_ERROR), Some (JBool False))]"
proof -
  let ?w0 = "new_world P m" and ?fail = "\<lambda>n. LoadEnds n (LoadFailed RA_CACHE_RETRIEVAL_TIMEOUT n)"
  let ?st = "(start_application P m)\<lparr>ra_runScheduled := False, ra_iterations := Suc 0,
      ra_recordsData := [(a, Some LOADING), (b, Some LOADING)]\<rparr>"
  have r: "\<exists>args. new_application P m = (?st, [CallRule args, RunWhenStable a, RunWhenStable b])"
    using assms
    by (simp add: new_application_def ra_run_def start_application_def getArguments_def getCurrentData_def getOldData_def Let_def
        crossReference_def record_of_def loadRecord_def conclude_def isReady_def)
  then have w0: "w_pending ?w0 = [a, b]" "w_app ?w0 = ?st" "verdicts (w_effects ?w0) = []"
    using assms(5,6) by (auto simp: new_world_def extend_def)
  have "ra_reach P m (\<lambda>_. True) (w_step P ?w0 (?fail a))"
    by (intro ra_next ra_start) (simp_all add: w0)
  then have "ra_reach P m (\<lambda>_. True) (w_step P (w_step P ?w0 (?fail a)) (?fail b))"
    by (rule ra_next) (simp_all add: w0 extend_def onLoadError_def ra_destroy_def assms(2) split_beta)
  moreover have "verdicts (w_effects (w_step P (w_step P ?w0 (?fail a)) (?fail b))) =
      [(m, Some (RecordA RA_RECORD_LOAD_ERROR), Some (JBool False)), (m, Some (RecordA RA_RECORD_LOAD_ERROR), Some (JBool False))]"
    by (simp add: w0 extend_def onLoadError_def ra_destroy_def split_beta start_application_def)
  ultimately show ?thesis by blast
qed

definition two_references :: ra_params where
  "two_references = sample_params (\<lambda>_. Cross (Some (JStr ''a'')) (\<lambda>_. Cross (Some (JStr ''b'')) (\<lambda>_. Returns None))) (Some 3)"

theorem each_failed_load_answers_witness:
  "\<exists>w. ra_reach two_references doc_read (\<lambda>_. True) w \<and>
    verdicts (w_effects w) = [(doc_read, Some (RecordA RA_RECORD_LOAD_ERROR), Some (JBool False)), (doc_read, Some (RecordA RA_RECORD_LOAD_ERROR), Some (JBool False))]"
  by (rule each_failed_load_answers [where a = "''a''" and b = "''b''" and k = 3])
     (simp_all add: two_references_def sample_params_def mentions_undefined_def starts_def)

text \<open>A record whose data is the JSON string \<open>loading\<close> cannot be told from one that is still being loaded: a
  rule that refers to it is never decided, with nothing left to wait for.\<close>

theorem record_called_loading_blocks:
  assumes "\<And>args. cr_fn (rp_rule P) args = Cross (Some (JStr a)) (\<lambda>v. Returns (f v))"
    and "\<not> mentions_undefined a" "rp_instant P a = None"
    and "\<not> cr_hasData (rp_rule P)" "\<not> cr_hasOldData (rp_rule P)" "rp_maxRuleIterations P = Some k" "1 \<le> k"
  shows "(let w = w_step P (new_world P m) (LoadEnds a (Loaded 1 (Some (JStr ''loading''))))
    in w_enabled (new_world P m) (LoadEnds a (Loaded 1 (Some (JStr ''loading'')))) \<and>
       verdicts (w_effects w) = [] \<and> w_pending w = [] \<and> w_ticks w = 0)"
proof -
  let ?st = "(start_application P m)\<lparr>ra_runScheduled := False, ra_iterations := Suc 0, ra_recordsData := [(a, Some LOADING)]\<rparr>"
  have "\<exists>args. new_application P m = (?st, [CallRule args, RunWhenStable a])"
    using assms
    by (simp add: new_application_def ra_run_def start_application_def getArguments_def getCurrentData_def getOldData_def Let_def
        crossReference_def record_of_def loadRecord_def conclude_def isReady_def)
  then have "w_pending (new_world P m) = [a]" "w_app (new_world P m) = ?st" "verdicts (w_effects (new_world P m)) = []"
    "w_ticks (new_world P m) = 0"
    using assms(3) by (auto simp: new_world_def extend_def)
  then show ?thesis
    by (simp add: Let_def extend_def onLoadComplete_def isReady_def LOADING_def)
qed

theorem record_called_loading_blocks_witness:
  "w_pending (w_step (sample_params owner_rule (Some 3)) (new_world (sample_params owner_rule (Some 3)) doc_read)
     (LoadEnds ''owners'' (Loaded 1 (Some (JStr ''loading''))))) = []"
  using record_called_loading_blocks [of "sample_params owner_rule (Some 3)" "''owners''" "\<lambda>r. Some (JBool (r = Some (JStr ''ann'')))" 3 doc_read]
  by (simp add: sample_params_def owner_rule_def mentions_undefined_def starts_def Let_def)

end
