(* ===== verification/ValveFlow.thy ===== *)
theory ValveFlow
  imports RuleApplication RecordHandler Processor TextParser
begin

text \<open>
  The permissions at work: the processor asks the Valve service
  (\<open>src/services/permission/valve/config-permission.ts\<close>), which decides at once or applies a rule, whose verdicts
  come back to the processor's callbacks and, for the actions the record handler permissions itself, to the
  handler's.
\<close>

section \<open>From the service to the callbacks\<close>

text \<open>The parameters \<open>canPerformAction\<close> hands to a new application; \<open>base\<close> holds those that come from the socket,
  the configuration and the services.\<close>

definition application_params :: "ra_params \<Rightarrow> rule_hit \<Rightarrow> rule_spec \<Rightarrow> message \<Rightarrow> ra_params" where
  "application_params base h sp m = base\<lparr>rp_rule := rh_rule h, rp_regexp := rh_regexp h, rp_action := sp_action sp, rp_name := m_name m\<rparr>"

text \<open>The verdicts an application gives, passed to the processor's callback.\<close>

fun to_processor :: "socket \<Rightarrow> pass_on \<Rightarrow> ra_effect list \<Rightarrow> processor \<Rightarrow> processor \<times> p_effect list" where
  "to_processor s k [] p = (p, [])"
| "to_processor s k (Verdict m e r # es) p =
     (let (p1, e1) = answer s m k e r p; (p2, e2) = to_processor s k es p1 in (p2, e1 @ e2))"
| "to_processor s k (e # es) p = to_processor s k es p"

text \<open>What happens to a message within the call; \<open>None\<close> is an exception.\<close>

definition valve_decides :: "ra_params \<Rightarrow> socket \<Rightarrow> message \<Rightarrow> pass_on \<Rightarrow> valve \<Rightarrow> processor \<Rightarrow> (processor \<times> p_effect list) option" where
  "valve_decides base s m k v p = (case fst (canPerformAction m v) of
     Decides b \<Rightarrow> Some (answer s m k (None :: action option) (Some (JBool b)) p)
   | Applies h sp \<Rightarrow> Some (to_processor s k (snd (new_application (application_params base h sp m) m)) p)
   | NoPermissions \<Rightarrow> None)"

lemma to_processor_verdicts:
  "forwards (snd (to_processor s Single es p)) = concat (map (\<lambda>(m, e, r). if refuses e r then [] else [m]) (verdicts es))"
  by (induction s Single es p rule: to_processor.induct)
     (auto simp: split_beta Let_def onPermissionResponse_def dest: processInvalidResponse_refuses)

section \<open>What is checked\<close>

definition checked :: "(topic \<times> action) list" where
  "checked =
     map (\<lambda>a. (T_RECORD, RecordA a)) [RA_SUBSCRIBE, RA_SUBSCRIBEANDHEAD, RA_SUBSCRIBEANDREAD, RA_READ, RA_HEAD, RA_LISTEN, RA_CREATE,
       RA_UPDATE, RA_PATCH, RA_NOTIFY, RA_DELETE] @
     map (\<lambda>a. (T_EVENT, EventA a)) [EA_LISTEN, EA_SUBSCRIBE, EA_EMIT] @
     map (\<lambda>a. (T_RPC, RpcA a)) [PA_PROVIDE, PA_REQUEST] @
     map (\<lambda>a. (T_PRESENCE, PresenceA a)) [UA_SUBSCRIBE, UA_SUBSCRIBE_ALL, UA_QUERY, UA_QUERY_ALL]"

lemma rules_iff: "getRulesForMessage m = None \<longleftrightarrow> (m_topic m, m_action m) \<notin> set checked"
  by (cases "m_topic m") (auto simp: getRulesForMessage_def RULE_TYPES_def checked_def)

lemma decides_true: "fst (canPerformAction m v) = Decides True \<longleftrightarrow> getRulesForMessage m = None"
  by (auto simp: canPerformAction_def split: option.splits prod.splits)

text \<open>Under no configuration is a message decided positively without a rule, unless its action is not one of the
  twenty that have rules; an action without rules is always permitted.\<close>

theorem valve_checks_the_mapped_actions:
  "fst (canPerformAction m v) = Decides True \<longleftrightarrow> (m_topic m, m_action m) \<notin> set checked"
  using decides_true rules_iff by simp

text \<open>C34: erasing a part of a record needs no permission whatever the configuration: the message is forwarded, and the
  record handler does with it just what it does with the patch of the same path, which has a rule.\<close>

theorem erase_bypasses_the_write_rule:
  assumes "m_topic m = T_RECORD" "m_action m = RecordA RA_ERASE" "m_path m = Some path"
  shows "valve_decides base s m Single v p = Some (p, [PForward s m]) \<and>
    RecordHandler.handle c (Some s) m h = RecordHandler.handle c (Some s) (m\<lparr>m_action := RecordA RA_PATCH\<rparr>) h \<and>
    (m_topic m, RecordA RA_PATCH) \<in> set checked"
proof -
  have "fst (canPerformAction m v) = Decides True"
    using assms by (simp add: decides_true rules_iff checked_def image_iff)
  then show ?thesis
    using assms
    by (simp add: valve_decides_def Processor.onPermissionResponse_def refuses_def checked_def image_iff
        RecordHandler.handle_def update_def Let_def version_of_def)
qed

section \<open>Verdicts of rules\<close>

lemma constant_rule:
  assumes "\<And>a. cr_fn (rp_rule P) a = Returns r" "\<not> cr_hasData (rp_rule P)" "\<not> cr_hasOldData (rp_rule P)"
    and "rp_maxRuleIterations P = Some k" "1 \<le> k"
  shows "verdicts (snd (new_application P m)) = [(m, None, r)]"
  using assms
  by (simp add: new_application_def ra_run_def start_application_def getArguments_def getCurrentData_def getOldData_def Let_def
      ra_destroy_def conclude_def isReady_def)

text \<open>The two places that judge a verdict differ: a rule that comes to \<open>null\<close>, \<open>undefined\<close>, 0 or the empty string lets
  a message pass the processor, while the record handler, asking about the same message, refuses it.\<close>

theorem falsy_rule_value_permits:
  assumes "fst (canPerformAction m v) = Applies hit sp" "\<And>a. cr_fn (rh_rule hit) a = Returns r"
    and "\<not> cr_hasData (rh_rule hit)" "\<not> cr_hasOldData (rh_rule hit)" "rp_maxRuleIterations base = Some k" "1 \<le> k"
    and "\<not> truthy r" "r \<noteq> Some (JBool False)"
  shows "forwards (snd (the (valve_decides base s m Single v p))) = [m] \<and>
    RecordHandler.onPermissionResponse c s m original kont None (truthy r) h =
      (h, [HSend s (RecordHandler.permission_error m original RA_MESSAGE_DENIED)])"
proof -
  have "verdicts (snd (new_application (application_params base hit sp m) m)) = [(m, None, r)]"
    by (rule constant_rule [where k = k]) (simp_all add: application_params_def assms)
  then show ?thesis
    using assms(1,7,8)
    by (simp add: valve_decides_def to_processor_verdicts refuses_def RecordHandler.onPermissionResponse_def nonempty_def)
qed


section \<open>Data of text clients\<close>

text \<open>\<open>parseData\<close> of the text protocol as the socket wrapper calls it on a message of the server.\<close>

definition text_parseData :: "text_env \<Rightarrow> message \<Rightarrow> string + message" where
  "text_parseData E m =
     (case parseData E ((blank (m_topic m) (m_action m) False False)\<lparr>x_data := m_data m, x_parsed := m_parsed m\<rparr>) of
        (x, ok) \<Rightarrow> if ok then Inr (m\<lparr>m_data := x_data x, m_parsed := x_parsed x\<rparr>) else Inl ''Unknown type'')"

lemma int_str_zero: "int_str 0 = ''0''"
  by code_simp

lemma falsy_not_reparsed:
  assumes "m_topic m = T_EVENT" "m_action m = EventA EA_EMIT"
    and "m_parsed m \<in> {Some (JNum 0), Some (JBool False), Some (JStr [])}" "m_data m = Some (stringify (the (m_parsed m)))"
  shows "text_parseData E m = Inl ''Unknown type''"
proof -
  have p: "payload_of T_EVENT (EventA EA_EMIT) = Some ENC_DEEPSTREAM" by code_simp
  have d: "m_data m = Some ''0'' \<or> m_data m = Some ''false'' \<or> m_data m = Some [CHR 0x22, CHR 0x22]"
    using assms(3,4) by (auto simp: quote_def int_str_zero)
  have c: "convertTyped E ''0'' = TError" "convertTyped E ''false'' = TError" "convertTyped E [CHR 0x22, CHR 0x22] = TError"
    by (simp_all add: convertTyped_def)
  show ?thesis
    using assms(1-3) d c p by (auto simp: text_parseData_def parseData_def nonempty_def blank_def Let_def)
qed

text \<open>The payload 0, false or the empty string of a text client's event cannot be parsed a second time, since the
  first parse has replaced its text: a rule that uses the data is answered by a permission error and then once
  more, evaluated without data.\<close>

theorem falsy_text_payload_decided_twice:
  assumes "rp_parseData P = text_parseData E" "m_topic m = T_EVENT" "m_action m = EventA EA_EMIT"
    and "m_parsed m \<in> {Some (JNum 0), Some (JBool False), Some (JStr [])}" "m_data m = Some (stringify (the (m_parsed m)))"
    and "\<And>a. cr_fn (rp_rule P) a = Returns (f (arg_data a))" "cr_hasData (rp_rule P)" "\<not> cr_hasOldData (rp_rule P)"
    and "rp_maxRuleIterations P = Some k" "1 \<le> k"
  shows "verdicts (snd (new_application P m)) = [(m, RuleApplication.permission_error), (m, None, f None)]"
proof -
  have e: "rp_parseData P m = Inl ''Unknown type''" using assms(1-5) falsy_not_reparsed by simp
  have "nonempty (m_data m)" using assms(4,5) by (auto simp: nonempty_def quote_def int_str_zero)
  then show ?thesis
    using assms(2,3,6-10) e
    by (simp add: new_application_def ra_run_def start_application_def getArguments_def getCurrentData_def getOldData_def Let_def
        onRuleError_def ra_destroy_def conclude_def isReady_def RuleApplication.permission_error_def)
qed

section \<open>oldData at the end of a rule\<close>

lemma old_data_at_end:
  "CHR ''o'' \<notin> set pre \<Longrightarrow> \<not> scan (keyword True False ''~'' ''~'' ''oldData'') prev (pre @ ''oldData'')"
proof (induction pre arbitrary: prev)
  case Nil
  show ?case by (simp add: keyword_def starts_def)
next
  case (Cons c cs)
  then have "\<not> keyword True False ''~'' ''~'' ''oldData'' prev ((c # cs) @ ''oldData'')" by (auto simp: keyword_def starts_def)
  then show ?case using Cons.IH [of "Some c"] Cons.prems by simp
qed

text \<open>A rule that ends in \<open>oldData\<close> is not seen to use it: it is accepted for the kinds of rules that have no old
  data, and where there is some, the rule is evaluated with \<open>undefined\<close> in its place.\<close>

theorem old_data_at_end_missed:
  assumes "rule_parse E (JStr (pre @ ''oldData'')) variables = Some r" "CHR ''o'' \<notin> set pre" "rp_rule P = r"
  shows "getOldData P st = (None, st, [])"
proof -
  obtain f where "r = \<lparr>cr_fn = f, cr_hasOldData = OLD_DATA_REGEXP (pre @ ''oldData''), cr_hasData = DATA_REGEXP (pre @ ''oldData'')\<rparr>"
    using assms(1) by (auto split: sum.splits)
  then show ?thesis
    using assms(3) old_data_at_end [OF assms(2), of None] by (simp add: getOldData_def OLD_DATA_REGEXP_def)
qed

section \<open>Witnesses\<close>

definition erase_name :: message where
  "erase_name = (msg T_RECORD (RecordA RA_ERASE))\<lparr>m_name := Some ''private/ann/x'', m_path := Some ''name''\<rparr>"

text \<open>The configuration refuses the patch that the erasure is handled as.\<close>

theorem erase_bypasses_the_write_rule_witness:
  "\<forall>base s p c h. valve_decides base s erase_name Single (fst (useConfig plain_valve_env sample_config new_valve)) p = Some (p, [PForward s erase_name]) \<and>
     RecordHandler.handle c (Some s) erase_name h = RecordHandler.handle c (Some s) (erase_name\<lparr>m_action := RecordA RA_PATCH\<rparr>) h"
  using erase_bypasses_the_write_rule [of erase_name "''name''"] by (simp add: erase_name_def msg_def)

definition null_valve :: valve where
  "null_valve = (let r = \<lparr>cr_fn = (\<lambda>_. Returns (Some JNull)), cr_hasOldData = False, cr_hasData = False\<rparr>
     in \<lparr>v_permissions = Some [(''event'', [\<lparr>rs_variables = [], rs_path = ''*'', rs_regexp = (\<lambda>_. Some []), rs_rules = [(''publish'', r)]\<rparr>])],
         v_ruleCache = []\<rparr>)"

definition emit_message :: message where
  "emit_message = (msg T_EVENT (EventA EA_EMIT))\<lparr>m_name := Some ''e'', m_data := Some ''0'', m_parsed := Some (JNum 0)\<rparr>"

theorem falsy_rule_value_permits_witness:
  "\<forall>s p. forwards (snd (the (valve_decides (sample_params owner_rule (Some 3)) s emit_message Single null_valve p))) = [emit_message]"
proof (intro allI)
  fix s p
  obtain hit sp where a: "fst (canPerformAction emit_message null_valve) = Applies hit sp"
    and hit: "rh_rule hit = \<lparr>cr_fn = (\<lambda>_. Returns (Some JNull)), cr_hasOldData = False, cr_hasData = False\<rparr>"
    by (simp add: canPerformAction_def getRulesForMessage_def emit_message_def msg_def RULE_TYPES_def rule_type_def
        getCompiledRulesForName_def null_valve_def rc_get_def lookup_rule_def hit_of_def Let_def)
  have "forwards (snd (the (valve_decides (sample_params owner_rule (Some 3)) s emit_message Single null_valve p))) = [emit_message] \<and>
    RecordHandler.onPermissionResponse c s emit_message None PkCreate None (truthy (Some JNull)) h =
      (h, [HSend s (RecordHandler.permission_error emit_message None RA_MESSAGE_DENIED)])" for c h
    by (rule falsy_rule_value_permits [OF a, where k = 3]) (simp_all add: hit sample_params_def)
  then show "forwards (snd (the (valve_decides (sample_params owner_rule (Some 3)) s emit_message Single null_valve p))) = [emit_message]"
    by blast
qed


definition plain_text :: text_env where
  "plain_text = \<lparr>te_float = (\<lambda>_. None), te_parseFloat = (\<lambda>_. JNull), te_number = (\<lambda>_. JsNaN), te_uid = (\<lambda>_. ''u'')\<rparr>"

definition data_params :: ra_params where
  "data_params = (sample_params owner_rule (Some 3))\<lparr>rp_parseData := text_parseData plain_text,
     rp_rule := \<lparr>cr_fn = (\<lambda>a. Returns (Some (JBool (arg_data a \<noteq> Some (JStr ''secret''))))), cr_hasOldData = False, cr_hasData = True\<rparr>\<rparr>"

theorem falsy_text_payload_decided_twice_witness:
  "verdicts (snd (new_application data_params emit_message)) =
     [(emit_message, RuleApplication.permission_error), (emit_message, None, Some (JBool True))]"
proof -
  have "verdicts (snd (new_application data_params emit_message)) =
      [(emit_message, RuleApplication.permission_error), (emit_message, None, (\<lambda>d. Some (JBool (d \<noteq> Some (JStr ''secret'')))) None)]"
    by (rule falsy_text_payload_decided_twice [where k = 3 and E = plain_text])
       (simp_all add: data_params_def sample_params_def emit_message_def msg_def int_str_zero)
  then show ?thesis by simp
qed

theorem old_data_at_end_missed_witness:
  "\<forall>st. (let r = the (rule_parse plain_valve_env (JStr ''user.id === oldData'') []) in getOldData (sample_params owner_rule None\<lparr>rp_rule := r\<rparr>) st = (None, st, []))"
proof -
  let ?r = "the (rule_parse plain_valve_env (JStr (''user.id === '' @ ''oldData'')) [])"
  have "rule_parse plain_valve_env (JStr (''user.id === '' @ ''oldData'')) [] = Some ?r"
    by (simp add: plain_valve_env_def)
  then have "getOldData (sample_params owner_rule None\<lparr>rp_rule := ?r\<rparr>) st = (None, st, [])" for st
    by (rule old_data_at_end_missed) simp_all
  then show ?thesis by (simp add: Let_def)
qed

end
