(* ===== verification/JsObject.thy ===== *)
theory JsObject
  imports JsonPath
begin

text \<open>
  Reading the fields of a value that came out of \<open>JSON.parse\<close>, as \<open>v.k\<close> does: a primitive has none of the
  names the code reads, and \<open>null\<close> and \<open>undefined\<close>, where reading throws, are tested for with \<open>can_read\<close>.
\<close>

definition property :: "json \<Rightarrow> string \<Rightarrow> json option" where
  "property v k = (case v of JObj fs \<Rightarrow> js_get fs k | JArr fs \<Rightarrow> js_get fs k | _ \<Rightarrow> None)"

definition can_read :: "json option \<Rightarrow> bool" where
  "can_read v \<longleftrightarrow> v \<noteq> None \<and> v \<noteq> Some JNull"

lemma property_obj [simp]: "property (JObj fs) k = js_get fs k"
  by (simp add: property_def)

lemma property_get_prop: "can_read (Some v) \<Longrightarrow> get_prop v k = Inr (property v k)"
  by (cases v) (simp_all add: can_read_def property_def)

text \<open>\<open>v || d\<close>, and \<open>typeof v === 'undefined' ? null : v\<close>.\<close>

definition or_else :: "json option \<Rightarrow> json \<Rightarrow> json" where
  "or_else v d = (if truthy v then the v else d)"

definition or_null :: "json option \<Rightarrow> json" where
  "or_null v = (case v of None \<Rightarrow> JNull | Some x \<Rightarrow> x)"

text \<open>Spreading the fields of \<open>v\<close> into an object: \<open>{...fs, ...v}\<close>; a primitive adds nothing.\<close>

definition spread :: "(string, json) jsmap \<Rightarrow> json \<Rightarrow> (string, json) jsmap" where
  "spread fs v = (case v of
     JObj gs \<Rightarrow> foldl (\<lambda>r (k, x). js_set k x r) fs gs
   | JArr gs \<Rightarrow> foldl (\<lambda>r (k, x). js_set k x r) fs gs
   | _ \<Rightarrow> fs)"

text \<open>\<open>toLowerCase\<close> on letters of one byte below 128.\<close>

definition lower_char :: "char \<Rightarrow> char" where
  "lower_char c = (let n = of_char c :: nat in if 65 \<le> n \<and> n \<le> 90 then char_of (n + 32) else c)"

definition lower_case :: "string \<Rightarrow> string" where "lower_case s = map lower_char s"

end
