(* ===== verification/Jif.thy ===== *)
theory Jif
  imports Processor Presence RecordHandler JsObject
begin

text \<open>
  The JSON interchange format of the HTTP endpoint: its schema (\<open>src/jif/jif-schema.ts\<close>) and the
  conversion of its messages to messages of the server and of the answers back
  (\<open>src/jif/jif-handler.ts\<close>). The validator is a third-party package: the function it compiles from the
  schema is the parameter \<open>validateJIF\<close>, and \<open>documented\<close> says what JSON Schema makes of the keywords
  the schema uses. A text made of fixed words and values is a constructor with the values.
\<close>

section \<open>The schema\<close>

datatype jtype = TypeObject | TypeArray | TypeString | TypeInteger

datatype constraint =
    Const string | Enum "string list" | Type "jtype list" | MinLength nat | Minimum int
  | Items "constraint list"

text \<open>
  One member of \<open>anyOf\<close>. All of them have \<open>additionalProperties: false\<close>; titles and descriptions are
  left out.
\<close>

record alternative =
  a_properties :: "(string \<times> constraint list) list"
  a_required :: "string list"

abbreviation named :: "string \<Rightarrow> string \<times> constraint list" where
  "named k \<equiv> (k, [Type [TypeString], MinLength 1])"

abbreviation version_schema :: "string \<times> constraint list" where
  "version_schema \<equiv> (''version'', [Type [TypeInteger], Minimum (-1)])"

definition event_schema :: alternative where
  "event_schema = \<lparr>a_properties = [(''topic'', [Const ''event'']), (''action'', [Const ''emit'']),
       named ''eventName'', (''data'', [])],
     a_required = [''topic'', ''action'', ''eventName'']\<rparr>"

definition rpc_schema :: alternative where
  "rpc_schema = \<lparr>a_properties = [(''topic'', [Const ''rpc'']), (''action'', [Const ''make'']),
       named ''rpcName'', (''data'', [])],
     a_required = [''topic'', ''action'', ''rpcName'']\<rparr>"

definition record_schema :: alternative where
  "record_schema = \<lparr>a_properties = [(''topic'', [Const ''record'']),
       (''action'', [Enum [''read'', ''head'', ''delete'']]), named ''recordName''],
     a_required = [''topic'', ''action'', ''recordName'']\<rparr>"

definition record_write_schema :: alternative where
  "record_write_schema = \<lparr>a_properties = [(''topic'', [Const ''record'']), (''action'', [Const ''write'']),
       named ''recordName'', (''data'', [Type [TypeObject, TypeArray]]), version_schema],
     a_required = [''topic'', ''action'', ''recordName'', ''data'']\<rparr>"

definition record_path_schema :: alternative where
  "record_path_schema = \<lparr>a_properties = [(''topic'', [Const ''record'']), (''action'', [Const ''write'']),
       named ''recordName'', (''data'', []), (''path'', [Type [TypeString]]), version_schema],
     a_required = [''topic'', ''action'', ''recordName'', ''data'', ''path'']\<rparr>"

definition record_notify_schema :: alternative where
  "record_notify_schema = \<lparr>a_properties = [(''topic'', [Const ''record'']), (''action'', [Const ''notify'']),
       (''recordNames'', [Type [TypeArray], MinLength 1, Items [Type [TypeString]]])],
     a_required = [''topic'', ''action'', ''recordNames'']\<rparr>"

definition list_schema :: alternative where
  "list_schema = \<lparr>a_properties = [(''topic'', [Const ''list'']), (''action'', [Enum [''read'', ''delete'']]),
       named ''listName''],
     a_required = [''topic'', ''action'', ''listName'']\<rparr>"

definition list_write_schema :: alternative where
  "list_write_schema = \<lparr>a_properties = [(''topic'', [Const ''list'']), (''action'', [Const ''write'']),
       named ''listName'', (''data'', [Type [TypeArray], Items [Type [TypeString]]]), version_schema],
     a_required = [''topic'', ''action'', ''listName'', ''data'']\<rparr>"

definition presence_schema :: alternative where
  "presence_schema = \<lparr>a_properties = [(''topic'', [Const ''presence'']), (''action'', [Enum [''query'']]),
       (''names'', [Type [TypeArray], Items [Type [TypeString]]])],
     a_required = [''topic'', ''action'']\<rparr>"

definition jifSchema :: "alternative list" where
  "jifSchema = [event_schema, rpc_schema, record_schema, record_write_schema, record_path_schema,
     record_notify_schema, list_schema, list_write_schema, presence_schema]"

text \<open>
  What JSON Schema says of the keywords: \<open>minLength\<close> speaks of strings only, \<open>minimum\<close> of numbers,
  \<open>items\<close> of arrays.
\<close>

fun has_type :: "jtype \<Rightarrow> json \<Rightarrow> bool" where
  "has_type TypeObject (JObj _) = True"
| "has_type TypeArray (JArr _) = True"
| "has_type TypeString (JStr _) = True"
| "has_type TypeInteger (JNum _) = True"
| "has_type _ _ = False"

fun meets :: "constraint \<Rightarrow> json \<Rightarrow> bool" where
  "meets (Const s) v = (v = JStr s)"
| "meets (Enum ss) v = (v \<in> JStr ` set ss)"
| "meets (Type ts) v = (\<exists>t \<in> set ts. has_type t v)"
| "meets (MinLength n) v = (case v of JStr s \<Rightarrow> n \<le> length s | _ \<Rightarrow> True)"
| "meets (Minimum i) v = (case v of JNum n \<Rightarrow> i \<le> n | _ \<Rightarrow> True)"
| "meets (Items ks) v = (case v of JArr es \<Rightarrow> (\<forall>e \<in> set es. \<forall>k \<in> set ks. meets k (snd e)) | _ \<Rightarrow> True)"

definition fits :: "alternative \<Rightarrow> (string, json) jsmap \<Rightarrow> bool" where
  "fits a fs \<longleftrightarrow>
     (\<forall>(k, ks) \<in> set (a_properties a). case js_get fs k of None \<Rightarrow> True | Some v \<Rightarrow> (\<forall>c \<in> set ks. meets c v)) \<and>
     (\<forall>k \<in> set (a_required a). js_has fs k) \<and>
     (\<forall>k \<in> set (js_keys fs). k \<in> fst ` set (a_properties a))"

definition accepts :: "alternative list \<Rightarrow> json \<Rightarrow> bool" where
  "accepts as v = (case v of JObj fs \<Rightarrow> (\<exists>a \<in> set as. fits a fs) | _ \<Rightarrow> False)"

text \<open>The first error of the validator.\<close>

record ajv_error =
  av_keyword :: string
  av_missing :: string
  av_dataPath :: string
  av_message :: string

definition documented :: "(json \<Rightarrow> ajv_error option) \<Rightarrow> bool" where
  "documented validateJIF \<longleftrightarrow> (\<forall>v. validateJIF v = None \<longleftrightarrow> accepts jifSchema v)"

text \<open>Validators that behave as documented exist.\<close>

definition reference_ajv :: "json \<Rightarrow> ajv_error option" where
  "reference_ajv v = (if accepts jifSchema v then None
     else Some \<lparr>av_keyword = ''anyOf'', av_missing = [], av_dataPath = [], av_message = []\<rparr>)"

lemma reference_ajv_documented: "documented reference_ajv"
  by (simp add: documented_def reference_ajv_def)

section \<open>From JIF\<close>

text \<open>The fields of a validated message have the types the schema gives them.\<close>

fun as_string :: "json option \<Rightarrow> string option" where
  "as_string (Some (JStr s)) = Some s"
| "as_string _ = None"

fun as_strings :: "json option \<Rightarrow> string list option" where
  "as_strings (Some (JArr es)) = those (map (\<lambda>e. as_string (Some (snd e))) es)"
| "as_strings _ = None"

text \<open>\<open>msg.version || -1\<close>\<close>

fun or_minus1 :: "json option \<Rightarrow> int" where
  "or_minus1 (Some (JNum n)) = (if n \<noteq> 0 then n else -1)"
| "or_minus1 _ = -1"

text \<open>The correlation id 0 is falsy, as the empty string is, and like it a key of its own.\<close>

definition zero_id :: "string option" where "zero_id = Some []"

type_synonym conversion = "string \<Rightarrow> json \<Rightarrow> bool \<times> message"

definition event_emit :: conversion where
  "event_emit uid v = (True, (msg T_EVENT (EventA EA_EMIT))
     \<lparr>m_name := as_string (property v ''eventName''), m_parsed := property v ''data''\<rparr>)"

definition rpc_make :: conversion where
  "rpc_make uid v = (False, (msg T_RPC (RpcA PA_REQUEST))
     \<lparr>m_name := as_string (property v ''rpcName''), m_corr := Some uid, m_parsed := property v ''data''\<rparr>)"

definition record_read :: conversion where
  "record_read uid v = (False, (msg T_RECORD (RecordA RA_READ))\<lparr>m_name := as_string (property v ''recordName'')\<rparr>)"

definition record_patch :: conversion where
  "record_patch uid v = (False, (msg T_RECORD (RecordA RA_CREATEANDPATCH))
     \<lparr>m_name := as_string (property v ''recordName''), m_version := Some (or_minus1 (property v ''version'')),
      m_path := as_string (property v ''path''), m_parsed := property v ''data'', m_writeack := True, m_corr := zero_id\<rparr>)"

definition record_update :: conversion where
  "record_update uid v = (False, (msg T_RECORD (RecordA RA_CREATEANDUPDATE))
     \<lparr>m_name := as_string (property v ''recordName''), m_version := Some (or_minus1 (property v ''version'')),
      m_parsed := property v ''data'', m_writeack := True, m_corr := zero_id\<rparr>)"

definition record_write :: conversion where
  "record_write uid v = (if truthy (property v ''path'') then record_patch uid v else record_update uid v)"

definition record_head :: conversion where
  "record_head uid v = (False, (msg T_RECORD (RecordA RA_HEAD))\<lparr>m_name := as_string (property v ''recordName'')\<rparr>)"

definition record_delete :: conversion where
  "record_delete uid v = (False, (msg T_RECORD (RecordA RA_DELETE))\<lparr>m_name := as_string (property v ''recordName'')\<rparr>)"

definition record_notify :: conversion where
  "record_notify uid v = (False, (msg T_RECORD (RecordA RA_NOTIFY))\<lparr>m_names := as_strings (property v ''recordNames'')\<rparr>)"

definition list_read :: conversion where
  "list_read uid v = (False, (msg T_RECORD (RecordA RA_READ))\<lparr>m_name := as_string (property v ''listName'')\<rparr>)"

definition list_write :: conversion where
  "list_write uid v = (False, (msg T_RECORD (RecordA RA_CREATEANDUPDATE))
     \<lparr>m_name := as_string (property v ''listName''), m_version := Some (or_minus1 (property v ''version'')),
      m_parsed := property v ''data'', m_writeack := True, m_corr := zero_id\<rparr>)"

definition list_delete :: conversion where
  "list_delete uid v = (False, (msg T_RECORD (RecordA RA_DELETE))\<lparr>m_name := as_string (property v ''listName'')\<rparr>)"

definition presence_queryAll :: conversion where
  "presence_queryAll uid v = (False, msg T_PRESENCE (PresenceA UA_QUERY_ALL))"

definition presence_queryUsers :: conversion where
  "presence_queryUsers uid v = (False, (msg T_PRESENCE (PresenceA UA_QUERY))\<lparr>m_names := as_strings (property v ''names'')\<rparr>)"

definition presence_query :: conversion where
  "presence_query uid v = (if truthy (property v ''names'') then presence_queryUsers uid v else presence_queryAll uid v)"

definition JIF_TO_MSG :: "(string, (string, conversion) jsmap) jsmap" where
  "JIF_TO_MSG =
     [(''event'', [(''emit'', event_emit)]),
      (''rpc'', [(''make'', rpc_make)]),
      (''record'', [(''read'', record_read), (''write'', record_write), (''patch'', record_patch),
         (''update'', record_update), (''head'', record_head), (''delete'', record_delete),
         (''notify'', record_notify)]),
      (''list'', [(''read'', list_read), (''write'', list_write), (''delete'', list_delete)]),
      (''presence'', [(''query'', presence_query), (''queryAll'', presence_queryAll),
         (''queryUsers'', presence_queryUsers)])]"

text \<open>
  \<open>RequiredFor p t\<close>: property \<open>p\<close> is required for topic \<open>t\<close>; \<open>PropertyIs p m\<close>: property \<open>p\<close> and the
  validator's message.
\<close>

datatype jif_error = RequiredFor string "json option" | PropertyIs string string

definition error_reason :: "ajv_error \<Rightarrow> json \<Rightarrow> jif_error option" where
  "error_reason e v =
     (if av_keyword e = ''required'' then Some (RequiredFor (av_missing e) (property v ''topic''))
      else if av_keyword e \<in> {''type'', ''minLength''} then Some (PropertyIs (av_dataPath e) (av_message e))
      else None)"

text \<open>What \<open>fromJIF\<close> returns: a failure, which is always done, or a message with \<open>done\<close>; or it throws.\<close>

datatype from_jif = Failed "jif_error option" | Parsed bool message | FromThrows

definition fromJIF :: "(json \<Rightarrow> ajv_error option) \<Rightarrow> string \<Rightarrow> json \<Rightarrow> from_jif" where
  "fromJIF validateJIF uid v =
     (case validateJIF v of
        Some e \<Rightarrow> Failed (error_reason e v)
      | None \<Rightarrow>
          (case Option.bind (as_string (property v ''topic'')) (js_get JIF_TO_MSG) of
             None \<Rightarrow> FromThrows
           | Some actions \<Rightarrow>
               (case Option.bind (as_string (property v ''action'')) (js_get actions) of
                  None \<Rightarrow> FromThrows
                | Some convert \<Rightarrow> (case convert uid v of (d, m) \<Rightarrow> Parsed d m))))"

section \<open>To JIF\<close>

text \<open>An event of an error is an action or the string of a server event.\<close>

datatype jif_event = ActionEvent action | NamedEvent string

datatype users = Names "string list option" | PerUser "json option"

datatype error_text =
    ErrorData "json option"
  | Denied "action option"
  | VersionExists "int option" "string option"
  | InvalidVersion "int option" "string option"
  | RecordNotFound "string option"
  | NoProvider "string option"
  | ResponseTimeout
  | AnErrorOccurred jif_event        \<comment> \<open>with the name \<open>RPC_ACTION\<close> has for the event's number\<close>
  | RequestTimeout
  | EmitDenied

record jif_body =
  b_success :: bool
  b_data :: "json option"
  b_version :: "int option"
  b_users :: "users option"
  b_error :: "error_text option"
  b_errorTopic :: "string option"
  b_errorEvent :: "jif_event option"
  b_action :: "action option"
  b_currentVersion :: "int option"
  b_currentData :: "json option"
  b_errorAction :: "string option"
  b_errorParams :: "string option"

definition jif_success :: jif_body where
  "jif_success = \<lparr>b_success = True, b_data = None, b_version = None, b_users = None, b_error = None,
     b_errorTopic = None, b_errorEvent = None, b_action = None, b_currentVersion = None,
     b_currentData = None, b_errorAction = None, b_errorParams = None\<rparr>"

definition jif_failure :: "string option \<Rightarrow> error_text \<Rightarrow> jif_body" where
  "jif_failure t e = jif_success\<lparr>b_success := False, b_errorTopic := t, b_error := Some e\<rparr>"

text \<open>The table of the answers; the last part of a key says whether the message is an acknowledgement.\<close>

definition MSG_TO_JIF :: "((topic \<times> action \<times> bool) \<times> (message \<Rightarrow> bool \<times> jif_body option)) list" where
  "MSG_TO_JIF =
     [((T_RPC, RpcA PA_RESPONSE, False), \<lambda>m. (True, Some (jif_success\<lparr>b_data := m_parsed m\<rparr>))),
      ((T_RPC, RpcA PA_REQUEST_ERROR, False), \<lambda>m. (True, Some (jif_failure (Some ''rpc'') (ErrorData (m_parsed m))))),
      ((T_RPC, RpcA PA_ACCEPT, False), \<lambda>m. (False, None)),
      ((T_RPC, RpcA PA_REQUEST, True), \<lambda>m. (False, None)),
      ((T_RECORD, RecordA RA_READ_RESPONSE, False),
         \<lambda>m. (True, Some (jif_success\<lparr>b_version := m_version m, b_data := m_parsed m\<rparr>))),
      ((T_RECORD, RecordA RA_WRITE_ACKNOWLEDGEMENT, False), \<lambda>m. (True, Some jif_success)),
      ((T_RECORD, RecordA RA_DELETE, False), \<lambda>m. (True, Some jif_success)),
      ((T_RECORD, RecordA RA_DELETE_SUCCESS, False), \<lambda>m. (True, Some jif_success)),
      ((T_RECORD, RecordA RA_NOTIFY, True), \<lambda>m. (True, Some jif_success)),
      ((T_RECORD, RecordA RA_HEAD_RESPONSE, False), \<lambda>m. (True, Some (jif_success\<lparr>b_version := m_version m\<rparr>))),
      ((T_PRESENCE, PresenceA UA_QUERY_ALL_RESPONSE, False),
         \<lambda>m. (True, Some (jif_success\<lparr>b_users := Some (Names (m_names m))\<rparr>))),
      ((T_PRESENCE, PresenceA UA_QUERY_RESPONSE, False),
         \<lambda>m. (True, Some (jif_success\<lparr>b_users := Some (PerUser (m_parsed m))\<rparr>)))]"

text \<open>The key of a topic in \<open>reverseMap(TOPIC)\<close>, in lower case.\<close>

fun topic_key :: "topic \<Rightarrow> string" where
  "topic_key T_PARSER = ''parser''"
| "topic_key T_CONNECTION = ''connection''"
| "topic_key T_AUTH = ''auth''"
| "topic_key T_ERROR = ''error''"
| "topic_key T_EVENT = ''event''"
| "topic_key T_RECORD = ''record''"
| "topic_key T_RPC = ''rpc''"
| "topic_key T_PRESENCE = ''presence''"
| "topic_key T_MONITORING = ''monitoring''"
| "topic_key T_STATE_REGISTRY = ''state_registry''"
| "topic_key T_LOCK = ''lock''"
| "topic_key T_CLUSTER = ''cluster''"
| "topic_key T_RECORD_LISTEN_PATTERNS = ''record_listen_patterns''"
| "topic_key T_EVENT_LISTEN_PATTERNS = ''event_listen_patterns''"
| "topic_key T_RECORD_LISTENING = ''record_listening''"
| "topic_key T_EVENT_LISTENING = ''event_listening''"

definition errorToJIF :: "message \<Rightarrow> jif_event \<Rightarrow> jif_body" where
  "errorToJIF m event =
     (let result = \<lambda>e. (jif_failure (Some (topic_key (m_topic m))) e)\<lparr>b_errorEvent := Some event\<rparr>
      in if event = ActionEvent (denied_action (m_topic m))
         then (result (Denied (m_original m)))\<lparr>b_action := m_original m\<rparr>
         else if m_topic m = T_RECORD \<and> event = ActionEvent (RecordA RA_VERSION_EXISTS)
         then (result (VersionExists (m_version m) (m_name m)))
                \<lparr>b_currentVersion := m_version m, b_currentData := m_parsed m\<rparr>
         else if m_topic m = T_RECORD \<and> event = ActionEvent (RecordA RA_INVALID_VERSION)
         then (result (InvalidVersion (m_version m) (m_name m)))
                \<lparr>b_currentVersion := m_version m, b_currentData := m_parsed m\<rparr>
         else if m_topic m = T_RECORD \<and> event = ActionEvent (RecordA RA_RECORD_NOT_FOUND)
         then (result (RecordNotFound (m_name m)))\<lparr>b_errorEvent := Some (ActionEvent (m_action m))\<rparr>
         else if m_topic m = T_RPC \<and> event = ActionEvent (RpcA PA_NO_RPC_PROVIDER)
         then result (NoProvider (m_name m))
         else if m_topic m = T_RPC \<and> m_action m = RpcA PA_RESPONSE_TIMEOUT
         then result ResponseTimeout
         else (result (AnErrorOccurred event))\<lparr>b_errorParams := m_name m\<rparr>)"

text \<open>\<open>toJIF\<close>: \<open>done\<close> and the body, or \<open>None\<close> when a part of the key is not in the table and the call throws.\<close>

definition toJIF :: "bool \<Rightarrow> message \<Rightarrow> (bool \<times> jif_body option) option" where
  "toJIF isAck m =
     (if m_isError m then Some (True, Some (errorToJIF m (ActionEvent (m_action m))))
      else map_option (\<lambda>f. f m) (map_of MSG_TO_JIF (m_topic m, m_action m, isAck)))"


section \<open>Facts about the schema\<close>

lemma fits_required:
  assumes "fits a fs" "k \<in> set (a_required a)" "(k, ks) \<in> set (a_properties a)"
  obtains v where "js_get fs k = Some v" "\<forall>c \<in> set ks. meets c v"
proof -
  obtain v where v: "js_get fs k = Some v"
    using assms(1,2) by (auto simp: fits_def js_has_def)
  then have "\<forall>c \<in> set ks. meets c v"
    using assms(1,3) by (force simp: fits_def)
  with v show ?thesis by (rule that)
qed

lemma fits_optional: "fits a fs \<Longrightarrow> (k, ks) \<in> set (a_properties a) \<Longrightarrow> js_get fs k = Some v \<Longrightarrow> c \<in> set ks \<Longrightarrow> meets c v"
  by (force simp: fits_def)

lemma fits_absent: "fits a fs \<Longrightarrow> k \<notin> fst ` set (a_properties a) \<Longrightarrow> js_get fs k = None"
  by (auto simp: fits_def map_of_eq_None_iff)

text \<open>Types as the shapes they stand for.\<close>

lemma has_type_iff [simp]:
  "has_type TypeObject v \<longleftrightarrow> (\<exists>fs. v = JObj fs)" "has_type TypeArray v \<longleftrightarrow> (\<exists>fs. v = JArr fs)"
  "has_type TypeString v \<longleftrightarrow> (\<exists>s. v = JStr s)" "has_type TypeInteger v \<longleftrightarrow> (\<exists>n. v = JNum n)"
  by (cases v; simp)+

lemma fits_topic:
  "fits a fs \<Longrightarrow> a \<in> set jifSchema \<Longrightarrow>
     \<exists>t. js_get fs ''topic'' = Some (JStr t) \<and> (''topic'', [Const t]) \<in> set (a_properties a)"
  by (auto simp: jifSchema_def event_schema_def rpc_schema_def record_schema_def record_write_schema_def
      record_path_schema_def record_notify_schema_def list_schema_def list_write_schema_def
      presence_schema_def fits_def js_has_def split: option.splits)

lemma strings_array:
  "(\<forall>e \<in> set es. \<exists>s. snd e = JStr s) \<Longrightarrow> \<exists>ss. those (map (\<lambda>e. as_string (Some (snd e))) es) = Some ss \<and> length ss = length es"
  by (induction es) auto

section \<open>What comes out of a JIF message\<close>

definition named_message :: "message \<Rightarrow> bool" where
  "named_message m \<longleftrightarrow> nonempty (m_name m)"

definition write_message :: "message \<Rightarrow> bool" where
  "write_message m \<longleftrightarrow> named_message m \<and> (\<exists>n \<ge> -1. n \<noteq> 0 \<and> m_version m = Some n) \<and> m_parsed m \<noteq> None \<and> m_writeack m"

fun wellformed :: "string \<Rightarrow> bool \<Rightarrow> message \<Rightarrow> bool" where
  "wellformed uid d m = (case m_action m of
     EventA a \<Rightarrow> m_topic m = T_EVENT \<and> a = EA_EMIT \<and> named_message m \<and> d
   | RpcA a \<Rightarrow> m_topic m = T_RPC \<and> a = PA_REQUEST \<and> named_message m \<and> m_corr m = Some uid \<and> \<not> d
   | RecordA a \<Rightarrow> m_topic m = T_RECORD \<and> \<not> d \<and>
       (a \<in> {RA_READ, RA_HEAD, RA_DELETE} \<and> named_message m \<or>
        a = RA_CREATEANDUPDATE \<and> write_message m \<and> m_path m = None \<or>
        a = RA_CREATEANDPATCH \<and> write_message m \<and> nonempty (m_path m) \<or>
        a = RA_NOTIFY \<and> m_names m \<noteq> None)
   | PresenceA a \<Rightarrow> m_topic m = T_PRESENCE \<and> \<not> d \<and>
       (a = UA_QUERY_ALL \<or> a = UA_QUERY \<and> m_names m \<noteq> None)
   | _ \<Rightarrow> False)"

named_theorems jif_entries \<open>the conversions of the JIF table\<close>

lemmas [jif_entries] = event_emit_def rpc_make_def record_read_def record_patch_def record_update_def
  record_write_def record_head_def record_delete_def record_notify_def list_read_def list_write_def
  list_delete_def presence_queryAll_def presence_queryUsers_def presence_query_def

lemmas schema_defs = jifSchema_def event_schema_def rpc_schema_def record_schema_def record_write_schema_def
  record_path_schema_def record_notify_schema_def list_schema_def list_write_schema_def presence_schema_def

definition converts_well :: "string \<Rightarrow> from_jif \<Rightarrow> bool" where
  "converts_well uid r = (case r of Failed _ \<Rightarrow> True | Parsed d m \<Rightarrow> wellformed uid d m | FromThrows \<Rightarrow> False)"

definition convert_valid :: "string \<Rightarrow> json \<Rightarrow> from_jif" where
  "convert_valid uid v = fromJIF (\<lambda>_. None) uid v"

lemma fromJIF_valid: "validateJIF v = None \<Longrightarrow> fromJIF validateJIF uid v = convert_valid uid v"
  by (simp add: fromJIF_def convert_valid_def)

lemma version_bound:
  assumes "fits a fs" "version_schema \<in> set (a_properties a)"
  shows "-1 \<le> or_minus1 (js_get fs ''version'') \<and> or_minus1 (js_get fs ''version'') \<noteq> 0"
proof (cases "js_get fs ''version''")
  case (Some v)
  from fits_optional [OF assms(1,2) Some, of "Type [TypeInteger]"]
    fits_optional [OF assms(1,2) Some, of "Minimum (-1)"]
  obtain n where "v = JNum n" "-1 \<le> n" by auto
  then show ?thesis using Some by simp
qed simp

lemmas convert_simps = convert_valid_def fromJIF_def JIF_TO_MSG_def jif_entries converts_well_def msg_def
  named_message_def write_message_def nonempty_def


lemmas fits_simps = fits_def js_has_def

lemma valid_event: "fits event_schema fs \<Longrightarrow> converts_well uid (convert_valid uid (JObj fs))"
  by (auto simp: event_schema_def convert_simps fits_simps split: option.splits)

lemma valid_rpc: "fits rpc_schema fs \<Longrightarrow> converts_well uid (convert_valid uid (JObj fs))"
  by (auto simp: rpc_schema_def convert_simps fits_simps split: option.splits)

lemma valid_record: "fits record_schema fs \<Longrightarrow> converts_well uid (convert_valid uid (JObj fs))"
  by (auto simp: record_schema_def convert_simps fits_simps split: option.splits)

lemma valid_list: "fits list_schema fs \<Longrightarrow> converts_well uid (convert_valid uid (JObj fs))"
  by (auto simp: list_schema_def convert_simps fits_simps split: option.splits)

lemma valid_notify: "fits record_notify_schema fs \<Longrightarrow> converts_well uid (convert_valid uid (JObj fs))"
  by (auto simp: record_notify_schema_def convert_simps fits_simps dest!: strings_array split: option.splits)

lemma valid_presence: "fits presence_schema fs \<Longrightarrow> converts_well uid (convert_valid uid (JObj fs))"
  by (auto simp: presence_schema_def convert_simps fits_simps dest!: strings_array split: option.splits)

lemma valid_write:
  assumes "fits record_write_schema fs"
  shows "converts_well uid (convert_valid uid (JObj fs))"
  using assms version_bound [OF assms] fits_absent [OF assms, of "''path''"]
  by (auto simp: record_write_schema_def convert_simps fits_simps split: option.splits)

lemma valid_list_write:
  assumes "fits list_write_schema fs"
  shows "converts_well uid (convert_valid uid (JObj fs))"
  using assms version_bound [OF assms]
  by (auto simp: list_write_schema_def convert_simps fits_simps split: option.splits)

lemma valid_path:
  assumes "fits record_path_schema fs"
  shows "converts_well uid (convert_valid uid (JObj fs))"
  using assms version_bound [OF assms]
  by (auto simp: record_path_schema_def convert_simps fits_simps split: option.splits)


lemma valid_converts:
  assumes "accepts jifSchema v"
  shows "converts_well uid (convert_valid uid v)"
  using assms valid_event valid_rpc valid_record valid_write valid_path valid_notify valid_list
    valid_list_write valid_presence
  by (auto simp: accepts_def jifSchema_def split: json.splits)

lemma from_valid:
  assumes "documented validateJIF"
  shows "case fromJIF validateJIF uid v of
           FromThrows \<Rightarrow> False
         | Failed _ \<Rightarrow> \<not> accepts jifSchema v
         | Parsed d m \<Rightarrow> accepts jifSchema v \<and> wellformed uid d m"
proof (cases "validateJIF v")
  case None
  then have v: "accepts jifSchema v" using assms by (simp add: documented_def)
  then show ?thesis
    using valid_converts [OF v, of uid] fromJIF_valid [of validateJIF v uid, OF None]
    by (simp add: converts_well_def convert_valid_def fromJIF_def split: from_jif.splits option.splits prod.splits)
next
  case (Some e)
  then have "\<not> accepts jifSchema v"
    using assms unfolding documented_def by (metis option.distinct(1))
  then show ?thesis using Some by (simp add: fromJIF_def)
qed

section \<open>Properties\<close>

text \<open>C28: With a validator that implements the schema, converting a JIF message never throws: it is refused, or
  it becomes a message that is done just when it is an event, has a nonempty name where its action needs
  one, and is a write only with data, a version that is -1 or positive and the wish for an acknowledgement.\<close>

theorem jif_messages_wellformed:
  assumes "documented validateJIF"
  shows "case fromJIF validateJIF uid v of
           FromThrows \<Rightarrow> False
         | Failed _ \<Rightarrow> \<not> accepts jifSchema v
         | Parsed d m \<Rightarrow> accepts jifSchema v \<and> wellformed uid d m"
  by (rule from_valid [OF assms])

definition jif_emit :: json where
  "jif_emit = JObj [(''topic'', JStr ''event''), (''action'', JStr ''emit''), (''eventName'', JStr ''e''), (''data'', JNum 1)]"

lemma jif_emit_parsed:
  "fromJIF reference_ajv uid jif_emit =
     Parsed True ((msg T_EVENT (EventA EA_EMIT))\<lparr>m_name := Some ''e'', m_parsed := Some (JNum 1)\<rparr>)"
  by (simp add: fromJIF_def reference_ajv_def jif_emit_def accepts_def schema_defs fits_simps JIF_TO_MSG_def
      event_emit_def)

theorem jif_messages_wellformed_witness:
  "fromJIF reference_ajv ''u'' jif_emit =
     Parsed True ((msg T_EVENT (EventA EA_EMIT))\<lparr>m_name := Some ''e'', m_parsed := Some (JNum 1)\<rparr>) \<and>
   wellformed ''u'' True ((msg T_EVENT (EventA EA_EMIT))\<lparr>m_name := Some ''e'', m_parsed := Some (JNum 1)\<rparr>)"
  using jif_messages_wellformed [OF reference_ajv_documented, where uid = "''u''" and v = jif_emit]
  by (simp only: jif_emit_parsed from_jif.case)

text \<open>The schema asks a record write for an object or an array as its data, but with an empty path any
  data is accepted, and since an empty path is falsy the message is converted as the write of the
  whole record: a primitive becomes the data of a record.\<close>

theorem empty_path_skips_data_check:
  assumes "documented validateJIF" "name \<noteq> []"
  shows "fromJIF validateJIF uid (JObj [(''topic'', JStr ''record''), (''action'', JStr ''write''),
             (''recordName'', JStr name), (''data'', d), (''path'', JStr [])]) =
           Parsed False ((msg T_RECORD (RecordA RA_CREATEANDUPDATE))
             \<lparr>m_name := Some name, m_version := Some (-1), m_parsed := Some d, m_writeack := True, m_corr := zero_id\<rparr>) \<and>
         (\<not> typeof_object d \<longrightarrow>
            (\<exists>e. fromJIF validateJIF uid (JObj [(''topic'', JStr ''record''), (''action'', JStr ''write''),
               (''recordName'', JStr name), (''data'', d)]) = Failed e))"
    (is "fromJIF _ _ ?v = _ \<and> (_ \<longrightarrow> (\<exists>e. fromJIF _ _ ?w = Failed e))")
proof
  have "fits record_path_schema [(''topic'', JStr ''record''), (''action'', JStr ''write''),
             (''recordName'', JStr name), (''data'', d), (''path'', JStr [])]"
    using assms(2) by (cases name) (simp_all add: record_path_schema_def fits_simps)
  then have "validateJIF ?v = None"
    using assms(1) by (simp add: documented_def accepts_def jifSchema_def)
  then show "fromJIF validateJIF uid ?v = Parsed False ((msg T_RECORD (RecordA RA_CREATEANDUPDATE))
             \<lparr>m_name := Some name, m_version := Some (-1), m_parsed := Some d, m_writeack := True, m_corr := zero_id\<rparr>)"
    by (simp add: fromJIF_def JIF_TO_MSG_def jif_entries)
  show "\<not> typeof_object d \<longrightarrow> (\<exists>e. fromJIF validateJIF uid ?w = Failed e)"
  proof
    assume "\<not> typeof_object d"
    then have "\<not> accepts jifSchema ?w"
      by (cases d) (simp_all add: accepts_def schema_defs fits_simps)
    then have "validateJIF ?w \<noteq> None" using assms(1) by (simp add: documented_def)
    then show "\<exists>e. fromJIF validateJIF uid ?w = Failed e" by (auto simp: fromJIF_def)
  qed
qed

text \<open>A JIF write with version 0, which the schema accepts, becomes a write with version -1, the write that
  is never in conflict.\<close>

theorem version_zero_forces_write:
  assumes "documented validateJIF" "name \<noteq> []"
  shows "fromJIF validateJIF uid (JObj [(''topic'', JStr ''record''), (''action'', JStr ''write''),
             (''recordName'', JStr name), (''data'', JObj fs), (''version'', JNum 0)]) =
           Parsed False ((msg T_RECORD (RecordA RA_CREATEANDUPDATE))
             \<lparr>m_name := Some name, m_version := Some (-1), m_parsed := Some (JObj fs), m_writeack := True,
              m_corr := zero_id\<rparr>)"
proof -
  have "fits record_write_schema [(''topic'', JStr ''record''), (''action'', JStr ''write''),
             (''recordName'', JStr name), (''data'', JObj fs), (''version'', JNum 0)]"
    using assms(2) by (cases name) (simp_all add: record_write_schema_def fits_simps)
  then have "validateJIF (JObj [(''topic'', JStr ''record''), (''action'', JStr ''write''),
             (''recordName'', JStr name), (''data'', JObj fs), (''version'', JNum 0)]) = None"
    using assms(1) by (simp add: documented_def accepts_def jifSchema_def)
  then show ?thesis
    by (simp add: fromJIF_def JIF_TO_MSG_def jif_entries)
qed


theorem empty_path_skips_data_check_witness:
  "fromJIF reference_ajv ''u'' (JObj [(''topic'', JStr ''record''), (''action'', JStr ''write''),
     (''recordName'', JStr ''r''), (''data'', JNum 0), (''path'', JStr [])]) =
   Parsed False ((msg T_RECORD (RecordA RA_CREATEANDUPDATE))
     \<lparr>m_name := Some ''r'', m_version := Some (-1), m_parsed := Some (JNum 0), m_writeack := True, m_corr := zero_id\<rparr>)"
  using empty_path_skips_data_check [OF reference_ajv_documented, where name = "''r''" and d = "JNum 0" and uid = "''u''"]
  by simp

theorem version_zero_forces_write_witness:
  "fromJIF reference_ajv ''u'' (JObj [(''topic'', JStr ''record''), (''action'', JStr ''write''),
     (''recordName'', JStr ''r''), (''data'', JObj []), (''version'', JNum 0)]) =
   Parsed False ((msg T_RECORD (RecordA RA_CREATEANDUPDATE))
     \<lparr>m_name := Some ''r'', m_version := Some (-1), m_parsed := Some (JObj []), m_writeack := True, m_corr := zero_id\<rparr>)"
  using version_zero_forces_write [OF reference_ajv_documented, where name = "''r''" and fs = "[]" and uid = "''u''"]
  by simp

end
