(* ===== verification/HttpEndpoint.thy ===== *)
theory HttpEndpoint
  imports Jif
begin

text \<open>
  The HTTP endpoint (\<open>src/connection-endpoint/http/connection-endpoint.ts\<close>) and its sockets
  (\<open>socket-wrapper.ts\<close>). A POST carries an array of JIF messages; its answers are collected in an array
  that the closures of the request share, and the response is sent when the array is full or a timer
  fires. The endpoint itself keeps only its options, so the state is that of one request: a \<open>batch\<close>.
  What the rest of the server does while a message is handed on is an argument (\<open>sync\<close>), what it
  does later is an input.
\<close>

section \<open>Options\<close>

text \<open>\<open>checkConfigOption\<close> throws when the option is missing or not of the type.\<close>

definition checkConfigOption :: "(string, json) jsmap \<Rightarrow> string \<Rightarrow> string option \<Rightarrow> bool" where
  "checkConfigOption config option expectedType \<longleftrightarrow>
     \<not> ((case expectedType of None \<Rightarrow> False | Some t \<Rightarrow> js_typeof (js_get config option) \<noteq> t) \<or>
        js_get config option = None)"

definition http_config_ok :: "(string, json) jsmap \<Rightarrow> bool" where
  "http_config_ok config \<longleftrightarrow>
     checkConfigOption config ''enableAuthEndpoint'' (Some ''boolean'') \<and>
     checkConfigOption config ''authPath'' (Some ''string'') \<and>
     checkConfigOption config ''postPath'' (Some ''string'') \<and>
     checkConfigOption config ''getPath'' (Some ''string'')"

datatype route = OnAuthMessage | OnPostMessage | OnGetMessage

record http_endpoint =
  he_initialized :: bool
  he_options :: "(string, json) jsmap"
  he_logInvalidAuthData :: "json option"
  he_requestTimeout :: "json option"

datatype registration = RegisterPost string route | RegisterGet string route

definition path_option :: "(string, json) jsmap \<Rightarrow> string \<Rightarrow> string" where
  "path_option opts k = (case js_get opts k of Some (JStr p) \<Rightarrow> p | _ \<Rightarrow> [])"

text \<open>\<open>init\<close>; \<open>None\<close> when it throws. The request timeout defaults to 20 seconds.\<close>

definition http_init :: "http_endpoint \<Rightarrow> (http_endpoint \<times> registration list) option" where
  "http_init e =
     (if he_initialized e then None
      else Some (e\<lparr>he_initialized := True,
                   he_logInvalidAuthData := js_get (he_options e) ''logInvalidAuthData'',
                   he_requestTimeout := (case js_get (he_options e) ''requestTimeout'' of
                      None \<Rightarrow> Some (JNum 20000) | Some t \<Rightarrow> Some t)\<rparr>,
                 (if truthy (js_get (he_options e) ''enableAuthEndpoint'')
                  then [RegisterPost (path_option (he_options e) ''authPath'') OnAuthMessage] else []) @
                 [RegisterPost (path_option (he_options e) ''postPath'') OnPostMessage,
                  RegisterGet (path_option (he_options e) ''getPath'') OnGetMessage]))"

section \<open>Effects\<close>

datatype status = BAD_REQUEST | UNAUTHORIZED

datatype response_text =
    GetNotImplemented | AuthMessage string | InvalidAuthData | BodyMissing | BodyNotArray
  | AuthDataDisabled | AuthDataNotObject | TokenInvalid | AuthUnsuccessful
  | JifInvalid nat "jif_error option"

datatype http_response =
    ErrorResponse status response_text
  | TokenResponse "json option" "json option"      \<comment> \<open>\<open>token\<close> and \<open>clientData\<close>\<close>
  | ResultResponse string "jif_body option list"   \<comment> \<open>\<open>result\<close> and \<open>body\<close>\<close>

text \<open>The user fields of a socket: \<open>userId\<close>, \<open>clientData\<close> and \<open>serverData\<close>.\<close>

type_synonym user = "json \<times> json \<times> json"

datatype http_effect =
    Respond http_response
  | OnLogin bool
  | IsValidUser json                       \<comment> \<open>\<open>authentication.isValidUser\<close> with the data\<close>
  | OnMessages nat user message            \<comment> \<open>the message of an index, from its socket\<close>
  | CanPerformAction nat user message      \<comment> \<open>of the dummy socket\<close>
  | Distribute message
  | SetTimer
  | ClearTimer
  | Throws

fun responses :: "http_effect list \<Rightarrow> http_response list" where
  "responses [] = []"
| "responses (Respond r # es) = r # responses es"
| "responses (_ # es) = responses es"

section \<open>Requests before the messages\<close>

definition onGetMessage :: "http_effect list" where
  "onGetMessage = [Respond (ErrorResponse BAD_REQUEST GetNotImplemented)]"

text \<open>The authentication service answers with a verdict and data, which may be missing or a string.\<close>

fun error_text_of :: "response_text \<Rightarrow> json option \<Rightarrow> response_text" where
  "error_text_of d (Some (JStr s)) = AuthMessage s"
| "error_text_of d _ = d"

definition onAuthMessage :: "json \<Rightarrow> http_effect list" where
  "onAuthMessage authData = [IsValidUser authData]"

definition onAuthMessageResponse :: "bool \<Rightarrow> json option \<Rightarrow> http_effect list" where
  "onAuthMessageResponse isAllowed data =
     OnLogin isAllowed #
     (if isAllowed
      then (if can_read data
            then [Respond (TokenResponse (property (the data) ''token'') (property (the data) ''clientData''))]
            else [Throws])
      else [Respond (ErrorResponse UNAUTHORIZED (error_text_of InvalidAuthData data))])"

fun elements :: "json option \<Rightarrow> json list option" where
  "elements (Some (JArr es)) = Some (map snd es)"
| "elements _ = None"

text \<open>A POST: the service has parsed the body, which may be \<open>null\<close>.\<close>

definition onPostMessage :: "bool \<Rightarrow> json \<Rightarrow> http_effect list" where
  "onPostMessage allowAuthData messageData =
     (let body = property messageData ''body''; authData = property messageData ''authData'';
          token = property messageData ''token''
      in if messageData = JNull then [Throws]
         else if elements body = None \<or> elements body = Some []
         then [Respond (ErrorResponse BAD_REQUEST (if truthy body then BodyNotArray else BodyMissing))]
         else case authData of
           Some a \<Rightarrow>
             if \<not> allowAuthData then [Respond (ErrorResponse BAD_REQUEST AuthDataDisabled)]
             else if a = JNull \<or> \<not> typeof_object a then [Respond (ErrorResponse BAD_REQUEST AuthDataNotObject)]
             else [IsValidUser a]
         | None \<Rightarrow>
             (case token of
                None \<Rightarrow> [IsValidUser (JObj [])]
              | Some (JStr t) \<Rightarrow>
                  if t = [] then [Respond (ErrorResponse BAD_REQUEST TokenInvalid)]
                  else [IsValidUser (JObj [(''token'', JStr t)])]
              | Some _ \<Rightarrow> [Respond (ErrorResponse BAD_REQUEST TokenInvalid)]))"

section \<open>Sockets\<close>

text \<open>\<open>init\<close> of a socket: what it takes from the answer of the authentication service.\<close>

definition socket_init :: "json option \<Rightarrow> user option" where
  "socket_init authResponseData =
     (if can_read authResponseData
      then let a = the authResponseData
           in Some (or_else (property a ''id'') (JStr ''OPEN''), or_else (property a ''clientData'') JNull,
                    or_else (property a ''serverData'') JNull)
      else None)"

section \<open>A batch\<close>

record batch =
  b_results :: "jif_body option list"   \<comment> \<open>\<open>messageResults\<close>\<close>
  b_timer :: bool
  b_closed :: "nat list"                \<comment> \<open>indices whose socket is closed\<close>

text \<open>
  What the server does with the sockets of a batch. The parameters are \<open>parseData\<close> of the protobuf
  package and whether the number of an action is at least 100.
\<close>

record http_params =
  hp_parseData :: "message \<Rightarrow> message"
  hp_isError :: "action \<Rightarrow> bool"
  hp_validate :: "json \<Rightarrow> ajv_error option"
  hp_uid :: "nat \<Rightarrow> string"

datatype batch_input =
    Sends nat bool message          \<comment> \<open>\<open>sendMessage\<close>, or \<open>sendAckMessage\<close> with \<open>True\<close>, on the socket of an index\<close>
  | Fails nat message string        \<comment> \<open>\<open>sendError\<close>\<close>
  | Closes nat
  | Permitted nat message "json option"  \<comment> \<open>the permission service about the event of an index\<close>
  | RequestTimeoutFires

fun count_succeeded :: "jif_body option list \<Rightarrow> nat option" where
  "count_succeeded [] = Some 0"
| "count_succeeded (None # rs) = None"
| "count_succeeded (Some r # rs) = map_option (\<lambda>n. if b_success r then Suc n else n) (count_succeeded rs)"

definition calculateMessageResult :: "jif_body option list \<Rightarrow> string option" where
  "calculateMessageResult rs =
     (case count_succeeded rs of
        None \<Rightarrow> None
      | Some n \<Rightarrow> Some (if n = length rs then ''SUCCESS'' else if n = 0 then ''FAILURE'' else ''PARTIAL_SUCCESS''))"

definition checkComplete :: "batch \<Rightarrow> batch \<times> http_effect list" where
  "checkComplete b =
     (case calculateMessageResult (b_results b) of
        None \<Rightarrow> (b, [])
      | Some r \<Rightarrow> (b\<lparr>b_timer := False\<rparr>, [ClearTimer, Respond (ResultResponse r (b_results b))]))"

definition fill :: "nat \<Rightarrow> jif_body option \<Rightarrow> batch \<Rightarrow> batch \<times> http_effect list" where
  "fill i r b =
     (if i < length (b_results b) \<and> b_results b ! i = None then checkComplete (b\<lparr>b_results := (b_results b)[i := r]\<rparr>) else (b, []))"

definition onSocketMessage :: "nat \<Rightarrow> bool \<Rightarrow> message \<Rightarrow> batch \<Rightarrow> batch \<times> http_effect list" where
  "onSocketMessage i isAck m b =
     (case toJIF isAck m of
        None \<Rightarrow> (b, [Throws])
      | Some (d, r) \<Rightarrow> if \<not> d then (b, []) else fill i r b)"

definition sendMessage :: "http_params \<Rightarrow> nat \<Rightarrow> bool \<Rightarrow> message \<Rightarrow> batch \<Rightarrow> batch \<times> http_effect list" where
  "sendMessage P i isAck m b =
     (let m1 = (if hp_isError P (m_action m) then m\<lparr>m_isError := True\<rparr> else m)
      in if i \<in> set (b_closed b) then (b, []) else onSocketMessage i isAck (hp_parseData P m1) b)"

text \<open>What \<open>errorToJIF\<close> returns is done.\<close>

definition onSocketError :: "nat \<Rightarrow> message \<Rightarrow> string \<Rightarrow> batch \<Rightarrow> batch \<times> http_effect list" where
  "onSocketError i m event b = fill i (Some (errorToJIF m (NamedEvent event))) b"

definition sendError :: "http_params \<Rightarrow> nat \<Rightarrow> message \<Rightarrow> string \<Rightarrow> batch \<Rightarrow> batch \<times> http_effect list" where
  "sendError P i m event b =
     (if i \<in> set (b_closed b) then (b, []) else onSocketError i (hp_parseData P m) event b)"

definition emit_denied :: jif_body where
  "emit_denied = (jif_failure (Some ''event'') EmitDenied)
     \<lparr>b_errorEvent := Some (NamedEvent ''MESSAGE_DENIED''), b_errorAction := Some ''emit''\<rparr>"

definition onPermissionResponse :: "nat \<Rightarrow> message \<Rightarrow> json option \<Rightarrow> batch \<Rightarrow> batch \<times> http_effect list" where
  "onPermissionResponse i m permissioned b =
     (if permissioned \<noteq> Some (JBool True)
      then (b\<lparr>b_results := (b_results b)[i := Some emit_denied]\<rparr>, [])
      else (b\<lparr>b_results := (b_results b)[i := Some jif_success]\<rparr>, [Distribute m]))"

definition timed_out :: jif_body where
  "timed_out = (jif_failure (Some ''connection'') RequestTimeout)
     \<lparr>b_errorEvent := Some (NamedEvent ''HTTP_REQUEST_TIMEOUT'')\<rparr>"

definition onRequestTimeout :: "batch \<Rightarrow> batch \<times> http_effect list" where
  "onRequestTimeout b =
     (let rs = map (\<lambda>r. if r = None then Some timed_out else r) (b_results b); b1 = b\<lparr>b_results := rs, b_timer := False\<rparr>
      in if None \<notin> set (b_results b) then (b1, [])
         else (b1, [Respond (ResultResponse (the (calculateMessageResult rs)) rs)]))"

fun batch_step :: "http_params \<Rightarrow> batch \<Rightarrow> batch_input \<Rightarrow> batch \<times> http_effect list" where
  "batch_step P b (Sends i isAck m) = sendMessage P i isAck m b"
| "batch_step P b (Fails i m event) = sendError P i m event b"
| "batch_step P b (Closes i) = (b\<lparr>b_closed := i # b_closed b\<rparr>, [])"
| "batch_step P b (Permitted i m permissioned) = onPermissionResponse i m permissioned b"
| "batch_step P b RequestTimeoutFires = onRequestTimeout b"

section \<open>The messages of a request\<close>

text \<open>The first loop: all messages are parsed before any is handed on; the first failure ends the request.\<close>

fun parse_all :: "http_params \<Rightarrow> nat \<Rightarrow> json list \<Rightarrow> (http_effect, (bool \<times> message) list) sum" where
  "parse_all P i [] = Inr []"
| "parse_all P i (v # vs) =
     (case fromJIF (hp_validate P) (hp_uid P i) v of
        FromThrows \<Rightarrow> Inl Throws
      | Failed e \<Rightarrow> Inl (Respond (ErrorResponse BAD_REQUEST (JifInvalid i e)))
      | Parsed d m \<Rightarrow> map_sum id (Cons (d, m)) (parse_all P (Suc i) vs))"

text \<open>The second loop. \<open>sync i\<close> is what happens to the batch while message \<open>i\<close> is handed on.\<close>

fun emit_all ::
  "http_params \<Rightarrow> (nat \<Rightarrow> batch_input list) \<Rightarrow> user \<Rightarrow> nat \<Rightarrow> nat \<Rightarrow> (bool \<times> message) list \<Rightarrow> batch \<Rightarrow> batch \<times> http_effect list" where
  "emit_all P sync u messageCount i [] b = (b, [])"
| "emit_all P sync u messageCount i ((d, m) # ms) b =
     (let (b1, e1) = run (batch_step P) b (sync i);
          (b2, e2) = (if d \<and> Suc i = messageCount then checkComplete b1 else (b1, []));
          (b3, e3) = emit_all P sync u messageCount (Suc i) ms b2
      in (b3, (if d then CanPerformAction i u m else OnMessages i u m) # e1 @ e2 @ e3))"

definition new_batch :: "nat \<Rightarrow> batch" where
  "new_batch n = \<lparr>b_results = replicate n None, b_timer = True, b_closed = []\<rparr>"

definition onMessageAuthResponse ::
  "http_params \<Rightarrow> (nat \<Rightarrow> batch_input list) \<Rightarrow> json list \<Rightarrow> bool \<Rightarrow> json option \<Rightarrow> batch option \<times> http_effect list" where
  "onMessageAuthResponse P sync body success authResponseData =
     (if \<not> success
      then (None, [Respond (ErrorResponse UNAUTHORIZED (error_text_of AuthUnsuccessful authResponseData))])
      else case parse_all P 0 body of
        Inl e \<Rightarrow> (None, [e])
      | Inr ms \<Rightarrow>
          (case socket_init authResponseData of
             None \<Rightarrow> (Some (new_batch (length body)), [SetTimer, Throws])
           | Some u \<Rightarrow>
               (case emit_all P sync u (length body) 0 ms (new_batch (length body)) of
                  (b, es) \<Rightarrow> (Some b, SetTimer # es))))"


section \<open>Results\<close>

lemma responses_append [simp]: "responses (xs @ ys) = responses xs @ responses ys"
  by (induction xs rule: responses.induct) auto

lemma count_succeeded_none: "count_succeeded rs = None \<longleftrightarrow> None \<in> set rs"
  by (induction rs rule: count_succeeded.induct) auto

lemma calculate_none: "calculateMessageResult rs = None \<longleftrightarrow> None \<in> set rs"
  using count_succeeded_none [of rs] by (auto simp: calculateMessageResult_def split: option.splits)

lemma count_succeeded_some: "count_succeeded rs = Some n \<Longrightarrow> n = length (filter (\<lambda>r. \<exists>x. r = Some x \<and> b_success x) rs)"
  by (induction rs arbitrary: n rule: count_succeeded.induct) (auto split: if_splits)

text \<open>A reply that ends the wait has a body.\<close>

lemma done_has_body: "toJIF isAck m = Some (True, r) \<Longrightarrow> r \<noteq> None"
  by (auto simp: toJIF_def MSG_TO_JIF_def split: if_splits)

section \<open>The states of a batch\<close>

text \<open>\<open>n\<close> responses have been given: at most one, and then all results are there.\<close>

definition answered_ok :: "nat \<Rightarrow> batch \<Rightarrow> bool" where
  "answered_ok n b \<longleftrightarrow> n = 0 \<or> n = 1 \<and> None \<notin> set (b_results b)"

text \<open>Before the response the timer runs and a result is missing.\<close>

definition waiting_ok :: "nat \<Rightarrow> batch \<Rightarrow> bool" where
  "waiting_ok n b \<longleftrightarrow> n = 0 \<and> b_timer b \<and> None \<in> set (b_results b) \<or> n = 1 \<and> None \<notin> set (b_results b)"

lemma waiting_answered: "waiting_ok n b \<Longrightarrow> answered_ok n b"
  by (auto simp: waiting_ok_def answered_ok_def)

lemma checkComplete_cases:
  "checkComplete b = (if None \<in> set (b_results b) then (b, [])
     else (b\<lparr>b_timer := False\<rparr>, [ClearTimer, Respond (ResultResponse (the (calculateMessageResult (b_results b))) (b_results b))]))"
  using calculate_none [of "b_results b"] by (auto simp: checkComplete_def split: option.splits)

lemma update_keeps_full: "None \<notin> set rs \<Longrightarrow> r \<noteq> None \<Longrightarrow> None \<notin> set (rs[i := r])"
  using set_update_subset_insert [of rs i r] by auto

lemma none_nth: "i < length rs \<Longrightarrow> rs ! i = None \<Longrightarrow> None \<in> set rs"
  by (metis nth_mem)

lemma fill_answered:
  assumes "answered_ok n b" "r \<noteq> None" "fill i r b = (b', es)"
  shows "answered_ok (n + length (responses es)) b'"
  using assms none_nth [of i "b_results b"] update_keeps_full [of "b_results b" r i]
  by (auto simp: fill_def checkComplete_cases answered_ok_def split: if_splits)

lemma fill_waiting:
  assumes "waiting_ok n b" "r \<noteq> None" "fill i r b = (b', es)"
  shows "waiting_ok (n + length (responses es)) b'"
  using assms none_nth [of i "b_results b"] update_keeps_full [of "b_results b" r i]
  by (auto simp: fill_def checkComplete_cases waiting_ok_def split: if_splits)

lemma timeout_full: "None \<notin> (\<lambda>r. if r = None then Some timed_out else r) ` S"
  by auto

lemma timeout_answered:
  "answered_ok n b \<Longrightarrow> onRequestTimeout b = (b', es) \<Longrightarrow> answered_ok (n + length (responses es)) b'"
  using timeout_full [of "set (b_results b)"]
  by (auto simp: onRequestTimeout_def answered_ok_def Let_def split: if_splits)

lemma timeout_waiting:
  "waiting_ok n b \<Longrightarrow> onRequestTimeout b = (b', es) \<Longrightarrow> waiting_ok 1 b' \<and> n + length (responses es) = 1"
  using timeout_full [of "set (b_results b)"]
  by (auto simp: onRequestTimeout_def waiting_ok_def Let_def split: if_splits)

lemma sends_cases:
  "sendMessage P i isAck m b = (b, []) \<or> sendMessage P i isAck m b = (b, [Throws]) \<or>
   (\<exists>r. r \<noteq> None \<and> sendMessage P i isAck m b = fill i r b)"
  by (auto simp: sendMessage_def onSocketMessage_def Let_def dest: done_has_body split: option.splits)

lemma fails_cases:
  "sendError P i m e b = (b, []) \<or> (\<exists>r. r \<noteq> None \<and> sendError P i m e b = fill i r b)"
  by (auto simp: sendError_def onSocketError_def)

fun is_permission :: "batch_input \<Rightarrow> bool" where
  "is_permission (Permitted _ _ _) = True"
| "is_permission _ = False"

text \<open>The slot an input is about.\<close>

fun slot_of :: "batch_input \<Rightarrow> nat option" where
  "slot_of (Sends i _ _) = Some i"
| "slot_of (Fails i _ _) = Some i"
| "slot_of (Closes i) = Some i"
| "slot_of (Permitted i _ _) = Some i"
| "slot_of RequestTimeoutFires = None"

text \<open>Everything but a permission and the timer leaves the batch alone, throws, closes a socket or fills a slot.\<close>

lemma step_cases:
  assumes "\<not> is_permission x" "x \<noteq> RequestTimeoutFires" "batch_step P b x = (b', es)"
  obtains (same) "b_results b' = b_results b" "b_timer b' = b_timer b" "responses es = []"
    | (filled) i r where "r \<noteq> None" "fill i r b = (b', es)" "slot_of x = Some i"
proof (cases x)
  case (Sends i isAck m)
  from sends_cases [of P i isAck m b] show ?thesis
  proof (elim disjE exE conjE)
    fix r assume "r \<noteq> None" "sendMessage P i isAck m b = fill i r b"
    then show ?thesis using that(2) [of r i] Sends assms(3) by simp
  qed (use that(1) Sends assms(3) in auto)
next
  case (Fails i m e)
  from fails_cases [of P i m e b] show ?thesis
  proof (elim disjE exE conjE)
    fix r assume "r \<noteq> None" "sendError P i m e b = fill i r b"
    then show ?thesis using that(2) [of r i] Fails assms(3) by simp
  qed (use that(1) Fails assms(3) in auto)
qed (use assms that in auto)

lemma step_answered:
  assumes "answered_ok n b" "batch_step P b x = (b', es)"
  shows "answered_ok (n + length (responses es)) b'"
proof (cases "is_permission x \<or> x = RequestTimeoutFires")
  case True
  then show ?thesis
    using assms timeout_answered [of n b]
    by (cases x) (auto simp: HttpEndpoint.onPermissionResponse_def answered_ok_def update_keeps_full split: if_splits)
next
  case False
  then have x: "\<not> is_permission x" "x \<noteq> RequestTimeoutFires" by auto
  show ?thesis
    using step_cases [OF x assms(2)]
    by cases (use assms(1) fill_answered in \<open>auto simp: answered_ok_def\<close>)
qed

lemma step_waiting:
  assumes "waiting_ok n b" "\<not> is_permission x" "batch_step P b x = (b', es)"
  shows "waiting_ok (n + length (responses es)) b'"
proof (cases "x = RequestTimeoutFires")
  case True
  then show ?thesis using assms timeout_waiting [of n b b' es] by (auto simp: waiting_ok_def)
next
  case False
  show ?thesis
    using step_cases [OF assms(2) False assms(3)]
    by cases (use assms(1) fill_waiting in \<open>auto simp: waiting_ok_def\<close>)
qed

lemma run_answered:
  "answered_ok n b \<Longrightarrow> run (batch_step P) b xs = (b', es) \<Longrightarrow> answered_ok (n + length (responses es)) b'"
proof (induction xs arbitrary: n b b' es)
  case (Cons x xs)
  obtain b1 e1 where 1: "batch_step P b x = (b1, e1)" by fastforce
  obtain b2 e2 where 2: "run (batch_step P) b1 xs = (b2, e2)" by fastforce
  have "answered_ok (n + length (responses e1) + length (responses e2)) b2"
    by (rule Cons.IH [OF step_answered [OF Cons.prems(1) 1] 2])
  then show ?case using Cons.prems(2) 1 2 by (auto simp: add.assoc)
qed simp

lemma run_waiting:
  "waiting_ok n b \<Longrightarrow> \<forall>x \<in> set xs. \<not> is_permission x \<Longrightarrow> run (batch_step P) b xs = (b', es) \<Longrightarrow>
     waiting_ok (n + length (responses es)) b'"
proof (induction xs arbitrary: n b b' es)
  case (Cons x xs)
  obtain b1 e1 where 1: "batch_step P b x = (b1, e1)" by fastforce
  obtain b2 e2 where 2: "run (batch_step P) b1 xs = (b2, e2)" by fastforce
  have "waiting_ok (n + length (responses e1)) b1"
    using Cons.prems(2) by (intro step_waiting [OF Cons.prems(1) _ 1]) simp
  then have "waiting_ok (n + length (responses e1) + length (responses e2)) b2"
    using Cons.prems(2) by (intro Cons.IH [OF _ _ 2]) auto
  then show ?case using Cons.prems(3) 1 2 by (auto simp: add.assoc)
qed simp


section \<open>The loop over the messages\<close>

text \<open>
  What can happen while message \<open>i\<close> is handed on: the permission service answers about the event of
  \<open>i\<close>, if it is one, and otherwise sockets that exist already are answered, or events already asked
  about. The timer does not fire within a call.
\<close>

fun sync_ok :: "(nat \<Rightarrow> batch_input list) \<Rightarrow> nat \<Rightarrow> (bool \<times> message) list \<Rightarrow> bool" where
  "sync_ok sync i [] = True"
| "sync_ok sync i ((d, m) # ms) =
     ((\<forall>x \<in> set (sync i). if d then is_permission x \<and> slot_of x = Some i else (\<exists>j \<le> i. slot_of x = Some j)) \<and>
      sync_ok sync (Suc i) ms)"

text \<open>Every event is answered within the call, and only then.\<close>

fun permitted_now :: "(nat \<Rightarrow> batch_input list) \<Rightarrow> nat \<Rightarrow> (bool \<times> message) list \<Rightarrow> bool" where
  "permitted_now sync i [] = True"
| "permitted_now sync i ((d, m) # ms) =
     ((if d then sync i \<noteq> [] else (\<forall>x \<in> set (sync i). \<not> is_permission x)) \<and> permitted_now sync (Suc i) ms)"

text \<open>The slots from \<open>i\<close> on are open.\<close>

definition open_from :: "nat \<Rightarrow> batch \<Rightarrow> bool" where
  "open_from i b \<longleftrightarrow> (\<forall>j. i \<le> j \<longrightarrow> j < length (b_results b) \<longrightarrow> b_results b ! j = None)"

lemma fill_frame:
  "fill i r b = (b', es) \<Longrightarrow> length (b_results b') = length (b_results b) \<and> (\<forall>j. j \<noteq> i \<longrightarrow> b_results b' ! j = b_results b ! j)"
  by (auto simp: fill_def checkComplete_cases split: if_splits)

lemma step_frame:
  assumes "slot_of x = Some i" "batch_step P b x = (b', es)"
  shows "length (b_results b') = length (b_results b) \<and> (\<forall>j. j \<noteq> i \<longrightarrow> b_results b' ! j = b_results b ! j)"
proof (cases "is_permission x")
  case True
  then show ?thesis
    using assms by (cases x) (auto simp: HttpEndpoint.onPermissionResponse_def split: if_splits)
next
  case False
  moreover have "x \<noteq> RequestTimeoutFires" using assms(1) by auto
  ultimately show ?thesis
    using assms(1) by (cases rule: step_cases [OF _ _ assms(2)]) (auto dest: fill_frame)
qed

lemma run_frame:
  "\<forall>x \<in> set xs. \<exists>j \<le> i. slot_of x = Some j \<Longrightarrow> run (batch_step P) b xs = (b', es) \<Longrightarrow>
     length (b_results b') = length (b_results b) \<and> (\<forall>j > i. b_results b' ! j = b_results b ! j)"
proof (induction xs arbitrary: b b' es)
  case (Cons x xs)
  obtain b1 e1 where 1: "batch_step P b x = (b1, e1)" by fastforce
  obtain b2 e2 where 2: "run (batch_step P) b1 xs = (b2, e2)" by fastforce
  obtain j where j: "j \<le> i" "slot_of x = Some j" using Cons.prems(1) by auto
  have "length (b_results b2) = length (b_results b1) \<and> (\<forall>j > i. b_results b2 ! j = b_results b1 ! j)"
    using Cons.prems(1) by (intro Cons.IH [OF _ 2]) auto
  then show ?case using step_frame [OF j(2) 1] j(1) Cons.prems(2) 1 2 by auto
qed simp

lemma run_open:
  assumes "open_from i b" "\<forall>x \<in> set xs. \<exists>j \<le> i. slot_of x = Some j" "run (batch_step P) b xs = (b', es)"
  shows "open_from (Suc i) b' \<and> length (b_results b') = length (b_results b)"
  using run_frame [OF assms(2,3)] assms(1) by (auto simp: open_from_def)

lemma open_none: "open_from i b \<Longrightarrow> i < length (b_results b) \<Longrightarrow> None \<in> set (b_results b)"
  by (metis le_refl none_nth open_from_def)

lemma permissions_quiet:
  "\<forall>x \<in> set xs. is_permission x \<Longrightarrow> run (batch_step P) b xs = (b', es) \<Longrightarrow>
     responses es = [] \<and> b_timer b' = b_timer b"
proof (induction xs arbitrary: b b' es)
  case (Cons x xs)
  obtain b1 e1 where 1: "batch_step P b x = (b1, e1)" by fastforce
  obtain b2 e2 where 2: "run (batch_step P) b1 xs = (b2, e2)" by fastforce
  have "responses e1 = [] \<and> b_timer b1 = b_timer b"
    using Cons.prems(1) 1 by (cases x) (auto simp: HttpEndpoint.onPermissionResponse_def split: if_splits)
  then show ?case using Cons.IH [OF _ 2] Cons.prems 1 2 by auto
qed simp

lemma permission_fills:
  assumes "\<forall>x \<in> set xs. is_permission x \<and> slot_of x = Some i" "xs \<noteq> []" "i < length (b_results b)"
    and "run (batch_step P) b xs = (b', es)"
  shows "b_results b' ! i \<noteq> None"
  using assms
proof (induction xs arbitrary: b b' es)
  case (Cons x xs)
  obtain b1 e1 where 1: "batch_step P b x = (b1, e1)" by fastforce
  obtain b2 e2 where 2: "run (batch_step P) b1 xs = (b2, e2)" by fastforce
  have "b_results b1 ! i \<noteq> None" "length (b_results b1) = length (b_results b)"
    using Cons.prems(1,3) 1 by (cases x; auto simp: HttpEndpoint.onPermissionResponse_def split: if_splits)+
  then show ?case using Cons.IH [OF _ _ _ 2] Cons.prems 1 2 by (cases "xs = []") auto
qed simp


lemma sync_slots:
  "sync_ok sync i ((d, m) # ms) \<Longrightarrow> \<forall>x \<in> set (sync i). \<exists>j \<le> i. slot_of x = Some j"
  by (auto split: if_splits)

lemma emit_answered:
  assumes "answered_ok n b" "open_from i b" "i + length ms = length (b_results b)" "sync_ok sync i ms"
    and "emit_all P sync u (length (b_results b)) i ms b = (b', es)"
  shows "answered_ok (n + length (responses es)) b'"
  using assms
proof (induction ms arbitrary: n i b es)
  case (Cons dm ms)
  obtain d m where dm: "dm = (d, m)" by fastforce
  let ?N = "length (b_results b)"
  obtain b1 e1 where 1: "run (batch_step P) b (sync i) = (b1, e1)" by fastforce
  obtain b2 e2 where 2: "(if d \<and> Suc i = ?N then checkComplete b1 else (b1, [])) = (b2, e2)" by fastforce
  obtain b3 e3 where 3: "emit_all P sync u ?N (Suc i) ms b2 = (b3, e3)" by fastforce
  have es: "responses es = responses e1 @ responses e2 @ responses e3" "b' = b3"
    using Cons.prems(5) dm 1 2 3 by (auto simp: Let_def)
  have o1: "open_from (Suc i) b1" "length (b_results b1) = ?N"
    using run_open [OF Cons.prems(2) _ 1] sync_slots [of sync i d m ms] Cons.prems(4) dm by simp_all
  have a1: "answered_ok (n + length (responses e1)) b1" by (rule run_answered [OF Cons.prems(1) 1])
  have i: "i < ?N" using Cons.prems(3) by simp
  have a2: "answered_ok (n + length (responses e1) + length (responses e2)) b2"
  proof (cases "d \<and> Suc i = ?N")
    case True
    have "n = 0" using Cons.prems(1) open_none [OF Cons.prems(2) i] by (auto simp: answered_ok_def)
    moreover have "responses e1 = []" using permissions_quiet [OF _ 1] Cons.prems(4) dm True by auto
    ultimately show ?thesis
      using 2 True by (auto simp: checkComplete_cases answered_ok_def split: if_splits)
  qed (use 2 a1 in auto)
  have "b_results b2 = b_results b1" using 2 by (auto simp: checkComplete_cases split: if_splits)
  then have "answered_ok (n + length (responses e1) + length (responses e2) + length (responses e3)) b3"
    using Cons.IH [OF a2, of "Suc i" e3] o1 Cons.prems(3,4) dm 3 es(2) by (simp add: open_from_def)
  then show ?case using es by (simp add: add.assoc)
qed simp

lemma emit_waiting:
  assumes "waiting_ok n b" "open_from i b" "i + length ms = length (b_results b)" "sync_ok sync i ms"
    and "permitted_now sync i ms" "emit_all P sync u (length (b_results b)) i ms b = (b', es)"
  shows "waiting_ok (n + length (responses es)) b'"
  using assms
proof (induction ms arbitrary: n i b es)
  case (Cons dm ms)
  obtain d m where dm: "dm = (d, m)" by fastforce
  let ?N = "length (b_results b)"
  obtain b1 e1 where 1: "run (batch_step P) b (sync i) = (b1, e1)" by fastforce
  obtain b2 e2 where 2: "(if d \<and> Suc i = ?N then checkComplete b1 else (b1, [])) = (b2, e2)" by fastforce
  obtain b3 e3 where 3: "emit_all P sync u ?N (Suc i) ms b2 = (b3, e3)" by fastforce
  have es: "responses es = responses e1 @ responses e2 @ responses e3" "b' = b3"
    using Cons.prems(6) dm 1 2 3 by (auto simp: Let_def)
  have o1: "open_from (Suc i) b1" "length (b_results b1) = ?N"
    using run_open [OF Cons.prems(2) _ 1] sync_slots [of sync i d m ms] Cons.prems(4) dm by simp_all
  note w = Cons.prems(1)
  have i: "i < ?N" using Cons.prems(3) by simp
  have n: "n = 0" "b_timer b" using w open_none [OF Cons.prems(2) i] by (auto simp: waiting_ok_def)
  have a2: "waiting_ok (n + length (responses e1) + length (responses e2)) b2"
  proof (cases d)
    case True
    then have x: "\<forall>x \<in> set (sync i). is_permission x" using Cons.prems(4) dm by auto
    have q: "responses e1 = []" "b_timer b1" using permissions_quiet [OF x 1] n by auto
    show ?thesis
    proof (cases "Suc i = ?N")
      case True
      then show ?thesis using 2 n q \<open>d\<close> by (auto simp: checkComplete_cases waiting_ok_def split: if_splits)
    next
      case False
      then have "None \<in> set (b_results b1)" using open_none [OF o1(1)] o1(2) i by auto
      then show ?thesis using 2 n q False by (simp add: waiting_ok_def)
    qed
  next
    case False
    then have "\<forall>x \<in> set (sync i). \<not> is_permission x" using Cons.prems(5) dm by auto
    then show ?thesis using run_waiting [OF w _ 1] 2 False by simp
  qed
  have "b_results b2 = b_results b1" using 2 by (auto simp: checkComplete_cases split: if_splits)
  then have "waiting_ok (n + length (responses e1) + length (responses e2) + length (responses e3)) b3"
    using Cons.IH [of "n + length (responses e1) + length (responses e2)" b2 "Suc i" e3] a2 o1 Cons.prems(3,4,5) dm 3 es(2)
    by (simp add: open_from_def)
  then show ?case using es by (simp add: add.assoc)
qed simp


lemma new_batch_facts:
  "answered_ok 0 (new_batch n)" "open_from 0 (new_batch n)" "length (b_results (new_batch n)) = n"
  "0 < n \<Longrightarrow> waiting_ok 0 (new_batch n)"
  by (auto simp: answered_ok_def waiting_ok_def open_from_def new_batch_def)

lemma parse_all_length: "parse_all P i vs = Inr ms \<Longrightarrow> length ms = length vs"
proof (induction vs arbitrary: i ms)
  case (Cons v vs)
  then show ?case
    by (cases "parse_all P (Suc i) vs") (auto split: from_jif.splits)
qed simp

text \<open>The condition on the calls within the loop, for the messages the body is parsed to.\<close>

definition in_order :: "http_params \<Rightarrow> (nat \<Rightarrow> batch_input list) \<Rightarrow> json list \<Rightarrow> bool" where
  "in_order P sync body \<longleftrightarrow> (\<forall>ms. parse_all P 0 body = Inr ms \<longrightarrow> sync_ok sync 0 ms)"

definition events_in_time :: "http_params \<Rightarrow> (nat \<Rightarrow> batch_input list) \<Rightarrow> json list \<Rightarrow> bool" where
  "events_in_time P sync body \<longleftrightarrow> (\<forall>ms. parse_all P 0 body = Inr ms \<longrightarrow> permitted_now sync 0 ms)"

lemma auth_response_cases:
  assumes "onMessageAuthResponse P sync body success data = (Some b, es)"
  obtains (throws) "b = new_batch (length body)" "es = [SetTimer, Throws]"
    | (emitted) ms u es1 where "success" "parse_all P 0 body = Inr ms" "length ms = length body" "socket_init data = Some u"
        "emit_all P sync u (length body) 0 ms (new_batch (length body)) = (b, es1)" "es = SetTimer # es1"
  using assms parse_all_length [of P 0 body]
  by (auto simp: onMessageAuthResponse_def split: if_splits sum.splits option.splits prod.splits)

lemma started_answered:
  assumes "onMessageAuthResponse P sync body success data = (Some b, es)" "in_order P sync body"
  shows "answered_ok (length (responses es)) b"
  using assms(1)
proof (cases rule: auth_response_cases)
  case (emitted ms u es1)
  have "sync_ok sync 0 ms" using assms(2) emitted(2) by (simp add: in_order_def)
  then show ?thesis
    using emit_answered [OF new_batch_facts(1,2), of ms "length body" sync P u b es1] emitted(3,5,6) new_batch_facts(3) by simp
qed (simp add: new_batch_facts)

lemma started_waiting:
  assumes "onMessageAuthResponse P sync body success data = (Some b, es)" "in_order P sync body"
    and "events_in_time P sync body" "body \<noteq> []"
  shows "waiting_ok (length (responses es)) b"
  using assms(1)
proof (cases rule: auth_response_cases)
  case (emitted ms u es1)
  have "sync_ok sync 0 ms" "permitted_now sync 0 ms"
    using assms(2,3) emitted(2) by (auto simp: in_order_def events_in_time_def)
  moreover have "waiting_ok 0 (new_batch (length body))" using assms(4) new_batch_facts(4) by simp
  ultimately show ?thesis
    using emit_waiting [OF _ new_batch_facts(2), of 0 "length body" ms sync P u b es1] emitted(3,5,6) new_batch_facts(3) by simp
qed (use assms(4) new_batch_facts(4) in simp)

section \<open>Properties\<close>

text \<open>C9: However the answers of the server, the permission service and the timer fall, the response callback
  of a POST request is called at most once.\<close>

theorem post_answered_at_most_once:
  assumes "onMessageAuthResponse P sync body success data = (Some b, es)" "in_order P sync body"
    and "run (batch_step P) b later = (b', es')"
  shows "length (responses (es @ es')) \<le> 1"
  using run_answered [OF started_answered [OF assms(1,2)] assms(3)]
  by (auto simp: answered_ok_def)

text \<open>C16: When the permission service decides about events within the call, a POST request is answered
  exactly once: until then the timer runs, and when it fires the request has been answered.\<close>

theorem post_answered_when_permitted_in_time:
  assumes "onMessageAuthResponse P sync body success data = (Some b, es)" "body \<noteq> []"
    and "in_order P sync body" "events_in_time P sync body" "\<forall>x \<in> set later. \<not> is_permission x"
    and "run (batch_step P) b later = (b', es')"
  shows "if RequestTimeoutFires \<in> set later then length (responses (es @ es')) = 1
         else length (responses (es @ es')) = 1 \<or> length (responses (es @ es')) = 0 \<and> b_timer b'"
proof (cases "RequestTimeoutFires \<in> set later")
  case False
  show ?thesis
    using run_waiting [OF started_waiting [OF assms(1,3,4,2)] assms(5,6)] False by (auto simp: waiting_ok_def)
next
  case True
  obtain xs ys where l: "later = xs @ RequestTimeoutFires # ys" using True by (meson split_list)
  obtain b1 e1 where 1: "run (batch_step P) b xs = (b1, e1)" by fastforce
  obtain b2 e2 where 2: "onRequestTimeout b1 = (b2, e2)" by fastforce
  obtain b3 e3 where 3: "run (batch_step P) b2 ys = (b3, e3)" by fastforce
  have "waiting_ok (length (responses es) + length (responses e1)) b1"
    using assms(5) l by (intro run_waiting [OF started_waiting [OF assms(1,3,4,2)] _ 1]) auto
  from timeout_waiting [OF this 2]
  have w: "waiting_ok 1 b2" "length (responses es) + length (responses e1) + length (responses e2) = 1" by auto
  have "waiting_ok (1 + length (responses e3)) b3"
    using assms(5) l by (intro run_waiting [OF w(1) _ 3]) auto
  then have "length (responses e3) = 0" by (auto simp: waiting_ok_def)
  moreover have "es' = e1 @ e2 @ e3" using assms(6) l 1 2 3 by (auto simp: run_append)
  ultimately show ?thesis using w(2) True by simp
qed


text \<open>A batch without open slots never responds.\<close>

lemma full_step:
  assumes "None \<notin> set (b_results b)" "batch_step P b x = (b', es)"
  shows "responses es = [] \<and> None \<notin> set (b_results b')"
proof -
  have "answered_ok 1 b" using assms(1) by (simp add: answered_ok_def)
  from step_answered [OF this assms(2)] show ?thesis by (auto simp: answered_ok_def)
qed

lemma full_run:
  "None \<notin> set (b_results b) \<Longrightarrow> run (batch_step P) b xs = (b', es) \<Longrightarrow> responses es = []"
proof -
  assume "None \<notin> set (b_results b)" and r: "run (batch_step P) b xs = (b', es)"
  then have "answered_ok 1 b" by (simp add: answered_ok_def)
  from run_answered [OF this r] show ?thesis by (auto simp: answered_ok_def)
qed

text \<open>When the last open slot of a request is an event and the permission service decides about it after the
  call, the decision fills the slot and nothing looks whether the request is complete: it is never
  answered, also not by the timer.\<close>

theorem late_permission_never_answered:
  assumes "\<forall>j < length (b_results b). j \<noteq> i \<longrightarrow> b_results b ! j \<noteq> None"
    and "run (batch_step P) b (Permitted i m permissioned # later) = (b', es)"
  shows "responses es = []"
proof -
  obtain b1 e1 where 1: "HttpEndpoint.onPermissionResponse i m permissioned b = (b1, e1)" by fastforce
  have b1: "\<exists>r. b_results b1 = (b_results b)[i := Some r]" "responses e1 = []"
    using 1 by (auto simp: HttpEndpoint.onPermissionResponse_def split: if_splits)
  then obtain r where r: "b_results b1 = (b_results b)[i := Some r]" by auto
  have "b_results b1 ! j \<noteq> None" if "j < length (b_results b1)" for j
    using assms(1) that unfolding r by (cases "j = i") simp_all
  then have "None \<notin> set (b_results b1)" by (metis in_set_conv_nth)
  moreover obtain b2 e2 where 2: "run (batch_step P) b1 later = (b2, e2)" by fastforce
  ultimately have "responses e2 = []" using full_run by blast
  then show ?thesis using assms(2) 1 2 b1(2) by auto
qed

section \<open>What a response says\<close>

definition succeeded :: "jif_body option \<Rightarrow> bool" where
  "succeeded r \<longleftrightarrow> (\<exists>x. r = Some x \<and> b_success x)"

definition sound_response :: "nat \<Rightarrow> http_response \<Rightarrow> bool" where
  "sound_response n r = (case r of
     ResultResponse s rs \<Rightarrow>
       length rs = n \<and> None \<notin> set rs \<and>
       s = (if \<forall>x \<in> set rs. succeeded x then ''SUCCESS''
            else if \<exists>x \<in> set rs. succeeded x then ''PARTIAL_SUCCESS'' else ''FAILURE'')
   | _ \<Rightarrow> False)"

lemma filter_all_length: "length (filter p rs) = length rs \<longleftrightarrow> (\<forall>x \<in> set rs. p x)"
  by (metis filter_id_conv length_filter_less less_irrefl)

lemma calculate_sound:
  assumes "None \<notin> set rs"
  shows "sound_response (length rs) (ResultResponse (the (calculateMessageResult rs)) rs)"
proof -
  obtain n where n: "count_succeeded rs = Some n" using assms count_succeeded_none [of rs] by auto
  then have "n = length (filter succeeded rs)"
    using count_succeeded_some [OF n] by (simp add: succeeded_def [abs_def])
  then show ?thesis
    using n assms filter_all_length [of succeeded rs]
    by (auto simp: sound_response_def calculateMessageResult_def filter_empty_conv)
qed

definition sound_step :: "batch \<Rightarrow> batch \<times> http_effect list \<Rightarrow> bool" where
  "sound_step b r \<longleftrightarrow> length (b_results (fst r)) = length (b_results b) \<and>
     (\<forall>x \<in> set (responses (snd r)). sound_response (length (b_results b)) x)"

lemma check_sound: "sound_step b (checkComplete b)"
  using calculate_sound [of "b_results b"] by (simp add: checkComplete_cases sound_step_def)

lemma fill_sound: "sound_step b (fill i r b)"
  using check_sound [of "b\<lparr>b_results := (b_results b)[i := r]\<rparr>"] by (simp add: fill_def sound_step_def)

lemma timeout_sound: "sound_step b (onRequestTimeout b)"
  using calculate_sound [of "map (\<lambda>r. if r = None then Some timed_out else r) (b_results b)"]
    timeout_full [of "set (b_results b)"]
  by (simp add: onRequestTimeout_def sound_step_def Let_def)

lemma quiet_sound: "length (b_results b') = length (b_results b) \<Longrightarrow> responses es = [] \<Longrightarrow> sound_step b (b', es)"
  by (simp add: sound_step_def)

lemma step_sound: "sound_step b (batch_step P b x)"
proof (cases x)
  case (Sends i isAck m)
  then show ?thesis using sends_cases [of P i isAck m b] fill_sound by (auto simp: quiet_sound)
next
  case (Fails i m e)
  then show ?thesis using fails_cases [of P i m e b] fill_sound by (auto simp: quiet_sound)
qed (auto simp: timeout_sound HttpEndpoint.onPermissionResponse_def quiet_sound)

lemma sound_then:
  "sound_step b (b1, e1) \<Longrightarrow> sound_step b1 (b2, e2) \<Longrightarrow> sound_step b (b2, e1 @ e2)"
  by (auto simp: sound_step_def)

lemma run_sound: "sound_step b (run (batch_step P) b xs)"
proof (induction xs arbitrary: b)
  case (Cons x xs)
  obtain b1 e1 where 1: "batch_step P b x = (b1, e1)" by fastforce
  then show ?case
    using sound_then [OF step_sound [of b P x, unfolded 1]] Cons.IH [of b1]
    by (cases "run (batch_step P) b1 xs") simp
qed (simp add: sound_step_def)

lemma emit_sound: "sound_step b (emit_all P sync u n i ms b)"
proof (induction ms arbitrary: i b)
  case (Cons dm ms)
  obtain d m where dm: "dm = (d, m)" by fastforce
  obtain b1 e1 where 1: "run (batch_step P) b (sync i) = (b1, e1)" by fastforce
  obtain b2 e2 where 2: "(if d \<and> Suc i = n then checkComplete b1 else (b1, [])) = (b2, e2)" by fastforce
  obtain b3 e3 where 3: "emit_all P sync u n (Suc i) ms b2 = (b3, e3)" by fastforce
  have "sound_step b1 (b2, e2)"
    using check_sound [of b1] 2 by (auto simp: quiet_sound split: if_splits)
  then have "sound_step b (b3, e1 @ e2 @ e3)"
    using run_sound [of b P "sync i"] Cons.IH [of b2 "Suc i"] 1 3 by (metis sound_then)
  moreover have "emit_all P sync u n i (dm # ms) b = (b3, (if d then CanPerformAction i u m else OnMessages i u m) # e1 @ e2 @ e3)"
    using dm 1 2 3 by (simp add: Let_def)
  ultimately show ?case by (simp add: sound_step_def split: if_splits)
qed (simp add: sound_step_def)

text \<open>A response to a POST that was authenticated and parsed has a result for every message, none of them
  open, and says SUCCESS, PARTIAL\_SUCCESS or FAILURE as all, some or none of them succeeded.\<close>

theorem response_covers_every_message:
  assumes "onMessageAuthResponse P sync body success data = (Some b, es)"
    and "run (batch_step P) b later = (b', es')" "r \<in> set (responses (es @ es'))"
  shows "sound_response (length body) r"
proof -
  have "length (b_results b) = length body \<and> (\<forall>x \<in> set (responses es). sound_response (length body) x)"
    using assms(1)
  proof (cases rule: auth_response_cases)
    case (emitted ms u es1)
    then show ?thesis
      using emit_sound [of "new_batch (length body)" P sync u "length body" 0 ms] new_batch_facts(3)
      by (simp add: sound_step_def)
  qed (simp add: new_batch_facts)
  then show ?thesis
    using run_sound [of b P later] assms(2,3) by (auto simp: sound_step_def)
qed


section \<open>Before the messages are handed on\<close>

fun handed_on :: "http_effect list \<Rightarrow> (nat \<times> user \<times> message) list" where
  "handed_on [] = []"
| "handed_on (OnMessages i u m # es) = (i, u, m) # handed_on es"
| "handed_on (CanPerformAction i u m # es) = (i, u, m) # handed_on es"
| "handed_on (_ # es) = handed_on es"

lemma handed_on_append [simp]: "handed_on (xs @ ys) = handed_on xs @ handed_on ys"
  by (induction xs rule: handed_on.induct) auto

lemma step_hands_nothing: "handed_on (snd (batch_step P b x)) = []"
  by (cases x) (auto simp: sendMessage_def onSocketMessage_def sendError_def onSocketError_def fill_def checkComplete_cases
      onRequestTimeout_def HttpEndpoint.onPermissionResponse_def Let_def split: option.splits)

lemma run_hands_nothing: "handed_on (snd (run (batch_step P) b xs)) = []"
proof (induction xs arbitrary: b)
  case (Cons x xs)
  then show ?case using step_hands_nothing [of P b x] by (simp add: Let_def split: prod.splits) (metis snd_conv)
qed simp

lemma emit_hands_on: "handed_on (snd (emit_all P sync u n i ms b)) = zip [i..<i + length ms] (map (\<lambda>(d, m). (u, m)) ms)"
proof (induction ms arbitrary: i b)
  case (Cons dm ms)
  obtain d m where dm: "dm = (d, m)" by fastforce
  obtain b1 e1 where 1: "run (batch_step P) b (sync i) = (b1, e1)" by fastforce
  obtain b2 e2 where 2: "(if d \<and> Suc i = n then checkComplete b1 else (b1, [])) = (b2, e2)" by fastforce
  obtain b3 e3 where 3: "emit_all P sync u n (Suc i) ms b2 = (b3, e3)" by fastforce
  have "handed_on e1 = []" "handed_on e2 = []"
    using run_hands_nothing [of P b "sync i"] 1 2 by (auto simp: checkComplete_cases split: if_splits)
  moreover have "[i..<Suc (i + length ms)] = i # [Suc i..<Suc (i + length ms)]"
    by (simp add: upt_conv_Cons del: upt_Suc)
  ultimately show ?case using Cons.IH [of "Suc i" b2] dm 1 2 3 by (simp add: Let_def del: upt_Suc)
qed simp

lemma parse_all_nth:
  "parse_all P i vs = Inr ms \<Longrightarrow> k < length vs \<Longrightarrow>
     fromJIF (hp_validate P) (hp_uid P (i + k)) (vs ! k) = Parsed (fst (ms ! k)) (snd (ms ! k))"
proof (induction vs arbitrary: i ms k)
  case (Cons v vs)
  obtain d m where v: "fromJIF (hp_validate P) (hp_uid P i) v = Parsed d m"
    using Cons.prems(1) by (auto split: from_jif.splits)
  then obtain ms' where "parse_all P (Suc i) vs = Inr ms'" "ms = (d, m) # ms'"
    using Cons.prems(1) by (cases "parse_all P (Suc i) vs") auto
  then show ?case
    using v Cons.IH [of "Suc i" ms'] Cons.prems(2) by (cases k) auto
qed simp

lemma parse_all_fails:
  assumes "documented (hp_validate P)"
  shows "(\<exists>ms. parse_all P i vs = Inr ms \<and> (\<forall>v \<in> set vs. accepts jifSchema v)) \<or>
         (\<exists>k e. k < length vs \<and> \<not> accepts jifSchema (vs ! k) \<and> (\<forall>j < k. accepts jifSchema (vs ! j)) \<and>
            parse_all P i vs = Inl (Respond (ErrorResponse BAD_REQUEST (JifInvalid (i + k) e))))"
proof (induction vs arbitrary: i)
  case (Cons v vs)
  show ?case
  proof (cases "fromJIF (hp_validate P) (hp_uid P i) v")
    case (Failed e)
    then have "\<not> accepts jifSchema v" using from_valid [OF assms, where uid = "hp_uid P i" and v = v] by simp
    then show ?thesis using Failed by (intro disjI2 exI [of _ 0] exI [of _ e]) simp
  next
    case (Parsed d m)
    then have v: "accepts jifSchema v" using from_valid [OF assms, where uid = "hp_uid P i" and v = v] by simp
    from Cons.IH [of "Suc i"] show ?thesis
    proof (elim disjE exE conjE)
      fix ms assume "parse_all P (Suc i) vs = Inr ms" "\<forall>v \<in> set vs. accepts jifSchema v"
      then show ?thesis using Parsed v by simp
    next
      fix k e assume "k < length vs" "\<not> accepts jifSchema (vs ! k)" "\<forall>j < k. accepts jifSchema (vs ! j)"
        "parse_all P (Suc i) vs = Inl (Respond (ErrorResponse BAD_REQUEST (JifInvalid (Suc i + k) e)))"
      then show ?thesis
        using Parsed v by (intro disjI2 exI [of _ "Suc k"] exI [of _ e]) (auto simp: nth_Cons split: nat.splits)
    qed
  next
    case FromThrows
    then show ?thesis using from_valid [OF assms, where uid = "hp_uid P i" and v = v] by simp
  qed
qed simp

text \<open>C23: Nothing of a POST is handed on unless the request was authenticated and every message of the body is
  valid; without authentication or with an invalid message there is exactly one response, an error, which in the
  second case names the first invalid message. When all is well each message is handed on once, in order, for the
  user the authentication service named; if the service succeeded without giving any data (undefined or null),
  making the socket throws and nothing is handed on.\<close>

theorem all_messages_or_none:
  assumes "documented (hp_validate P)"
    and "onMessageAuthResponse P sync body success data = (ob, es)"
  shows "(\<not> success \<longrightarrow> es = [Respond (ErrorResponse UNAUTHORIZED (error_text_of AuthUnsuccessful data))]) \<and>
         (success \<and> (\<exists>v \<in> set body. \<not> accepts jifSchema v) \<longrightarrow>
            (\<exists>k e. k < length body \<and> \<not> accepts jifSchema (body ! k) \<and> (\<forall>j < k. accepts jifSchema (body ! j)) \<and>
               es = [Respond (ErrorResponse BAD_REQUEST (JifInvalid k e))])) \<and>
         (handed_on es \<noteq> [] \<longrightarrow> success \<and> (\<forall>v \<in> set body. accepts jifSchema v)) \<and>
         (success \<and> (\<forall>v \<in> set body. accepts jifSchema v) \<longrightarrow>
            (case socket_init data of
               None \<Rightarrow> es = [SetTimer, Throws]
             | Some u \<Rightarrow>
                 \<exists>ms. length ms = length body \<and>
                   (\<forall>k < length body. \<exists>d. fromJIF (hp_validate P) (hp_uid P k) (body ! k) = Parsed d (ms ! k)) \<and>
                   handed_on es = zip [0..<length body] (map (Pair u) ms)))"
proof (cases success)
  case False
  then show ?thesis using assms(2) by (auto simp: onMessageAuthResponse_def)
next
  case True
  from parse_all_fails [OF assms(1), of 0 body] show ?thesis
  proof (elim disjE exE conjE)
    fix k e
    assume k: "k < length body" "\<not> accepts jifSchema (body ! k)" "\<forall>j < k. accepts jifSchema (body ! j)"
      "parse_all P 0 body = Inl (Respond (ErrorResponse BAD_REQUEST (JifInvalid (0 + k) e)))"
    then have es: "es = [Respond (ErrorResponse BAD_REQUEST (JifInvalid k e))]"
      using assms(2) True by (simp add: onMessageAuthResponse_def)
    moreover have "\<not> (\<forall>v \<in> set body. accepts jifSchema v)" using k(1,2) nth_mem by blast
    ultimately show ?thesis using True k by auto
  next
    fix ms assume p: "parse_all P 0 body = Inr ms" "\<forall>v \<in> set body. accepts jifSchema v"
    have len: "length ms = length body" by (rule parse_all_length [OF p(1)])
    show ?thesis
    proof (cases "socket_init data")
      case None
      then show ?thesis using assms(2) True p by (auto simp: onMessageAuthResponse_def)
    next
      case (Some u)
      have "handed_on es = zip [0..<length body] (map (Pair u) (map snd ms))"
        using assms(2) True p(1) Some len emit_hands_on [of P sync u "length body" 0 ms "new_batch (length body)"]
        by (auto simp: onMessageAuthResponse_def case_prod_unfold comp_def split: prod.splits)
      moreover have "\<exists>d. fromJIF (hp_validate P) (hp_uid P k) (body ! k) = Parsed d (map snd ms ! k)" if "k < length body" for k
        using parse_all_nth [OF p(1) that] len that by auto
      ultimately have "\<exists>ms. length ms = length body \<and>
          (\<forall>k < length body. \<exists>d. fromJIF (hp_validate P) (hp_uid P k) (body ! k) = Parsed d (ms ! k)) \<and>
          handed_on es = zip [0..<length body] (map (Pair u) ms)"
        using len by (intro exI [of _ "map snd ms"]) simp
      then show ?thesis using True p(2) Some by auto
    qed
  qed
qed


section \<open>Examples\<close>

definition plain_params :: http_params where
  "plain_params = \<lparr>hp_parseData = \<lambda>m. m, hp_isError = \<lambda>a. a = EventA EA_MESSAGE_DENIED, hp_validate = reference_ajv,
     hp_uid = \<lambda>_. ''u''\<rparr>"

definition emitted :: message where
  "emitted = (msg T_EVENT (EventA EA_EMIT))\<lparr>m_name := Some ''e'', m_parsed := Some (JNum 1)\<rparr>"

lemma emit_parsed: "parse_all plain_params i [jif_emit] = Inr [(True, emitted)]"
  by (simp add: plain_params_def jif_emit_parsed emitted_def)

definition emit_now :: "nat \<Rightarrow> batch_input list" where
  "emit_now i = [Permitted 0 emitted (Some (JBool True))]"

definition emit_response :: http_response where
  "emit_response = ResultResponse ''SUCCESS'' [Some jif_success]"

lemma emit_started:
  "onMessageAuthResponse plain_params emit_now [jif_emit] True (Some (JObj [])) =
     (Some \<lparr>b_results = [Some jif_success], b_timer = False, b_closed = []\<rparr>,
      [SetTimer, CanPerformAction 0 (JStr ''OPEN'', JNull, JNull) emitted, Distribute emitted, ClearTimer, Respond emit_response])"
  using emit_parsed [of 0]
  by (simp add: onMessageAuthResponse_def socket_init_def can_read_def or_else_def emit_now_def new_batch_def
      HttpEndpoint.onPermissionResponse_def checkComplete_def calculateMessageResult_def emit_response_def jif_success_def)

lemma emit_in_order: "in_order plain_params emit_now [jif_emit]" "events_in_time plain_params emit_now [jif_emit]"
  using emit_parsed [of 0] by (simp_all add: in_order_def events_in_time_def emit_now_def)

theorem post_answered_at_most_once_witness:
  "length (responses (snd (onMessageAuthResponse plain_params emit_now [jif_emit] True (Some (JObj []))) @
     snd (run (batch_step plain_params) \<lparr>b_results = [Some jif_success], b_timer = False, b_closed = []\<rparr> [RequestTimeoutFires]))) \<le> 1"
  using post_answered_at_most_once [OF emit_started emit_in_order(1),
      of "[RequestTimeoutFires]" "\<lparr>b_results = [Some jif_success], b_timer = False, b_closed = []\<rparr>" "[]"]
  by (simp add: emit_started onRequestTimeout_def)

theorem post_answered_when_permitted_in_time_witness:
  "length (responses (snd (onMessageAuthResponse plain_params emit_now [jif_emit] True (Some (JObj []))))) = 1"
  using post_answered_when_permitted_in_time [OF emit_started _ emit_in_order, of "[RequestTimeoutFires]"
      "\<lparr>b_results = [Some jif_success], b_timer = False, b_closed = []\<rparr>" "[]"]
  by (simp add: emit_started onRequestTimeout_def)

lemma emit_late:
  "onMessageAuthResponse plain_params (\<lambda>_. []) [jif_emit] True (Some (JObj [])) =
     (Some (new_batch 1), [SetTimer, CanPerformAction 0 (JStr ''OPEN'', JNull, JNull) emitted])"
  using emit_parsed [of 0]
  by (simp add: onMessageAuthResponse_def socket_init_def can_read_def or_else_def new_batch_def checkComplete_def
      calculateMessageResult_def)

theorem late_permission_never_answered_witness:
  "onMessageAuthResponse plain_params (\<lambda>_. []) [jif_emit] True (Some (JObj [])) =
     (Some (new_batch 1), [SetTimer, CanPerformAction 0 (JStr ''OPEN'', JNull, JNull) emitted]) \<and>
   responses (snd (run (batch_step plain_params) (new_batch 1)
     [Permitted 0 emitted (Some (JBool True)), RequestTimeoutFires])) = []"
proof (rule conjI [OF emit_late])
  obtain b es where r: "run (batch_step plain_params) (new_batch 1) [Permitted 0 emitted (Some (JBool True)), RequestTimeoutFires] = (b, es)"
    by fastforce
  have "\<forall>j < length (b_results (new_batch 1)). j \<noteq> 0 \<longrightarrow> b_results (new_batch 1) ! j \<noteq> None"
    by (simp add: new_batch_def)
  from late_permission_never_answered [OF this r] show "responses (snd (run (batch_step plain_params) (new_batch 1)
     [Permitted 0 emitted (Some (JBool True)), RequestTimeoutFires])) = []"
    using r by simp
qed

theorem response_covers_every_message_witness:
  "sound_response 1 emit_response"
  using response_covers_every_message [OF emit_started, of "[]" _ "[]" emit_response] by simp

theorem all_messages_or_none_witness:
  "\<exists>m. handed_on (snd (onMessageAuthResponse plain_params emit_now [jif_emit] True (Some (JObj [])))) =
     [(0, the (socket_init (Some (JObj []))), m)]"
proof -
  have d: "documented (hp_validate plain_params)" by (simp add: plain_params_def reference_ajv_documented)
  obtain ob es where o: "onMessageAuthResponse plain_params emit_now [jif_emit] True (Some (JObj [])) = (ob, es)" by fastforce
  have "accepts jifSchema jif_emit" by code_simp
  moreover have "\<exists>u. socket_init (Some (JObj [])) = Some u" by (simp add: socket_init_def can_read_def)
  ultimately obtain u ms where "socket_init (Some (JObj [])) = Some u" "length ms = 1"
      "handed_on es = zip [0..<1] (map (Pair u) ms)"
    using all_messages_or_none [OF d o] by auto
  then show ?thesis using o by (cases ms) auto
qed

end
