(* ===== verification/HttpService.thy ===== *)
theory HttpService
  imports JsObject "HOL-Library.List_Lexorder" "HOL-Library.Char_ord"
begin

text \<open>
  The two HTTP services: \<open>NodeHTTP\<close> (\<open>src/services/http/node/node-http.ts\<close>) on Node's own server and
  \<open>UWSHTTP\<close> (\<open>src/services/http/uws/uws-http.ts\<close>) on uWebSockets. Modelled are, of both, the check of the origin,
  the answer to a preflight request and the answer of a handler, the routes of the first and its sockets, and the
  reading of a body by the second. The servers themselves, the parsers of content types and bodies and TLS are
  third-party; what they hand over is an argument. What the second writes is kept as the calls it makes, since
  their order matters: a status written after a header comes too late.
\<close>

section \<open>Requests and replies\<close>

record service_options =
  so_allowAllOrigins :: bool
  so_origins :: "string list option"
  so_hostUrl :: "string option"
  so_healthCheckPath :: string

datatype reply_text =
    ForbiddenHost | OriginMissing | OriginForbidden string | UnsupportedMethod | UnsupportedMediaType
  | BodyUnparsable | EndpointNotFound | MethodHeaderMissing | MethodForbidden string
  | HeadersHeaderMissing | HeaderForbidden string | StatusMessage nat | ErrorText string

text \<open>What the Node service does: \<open>terminateResponse\<close> with its status code, or one of the other ways to answer.\<close>

datatype reply =
    SetHeader string string
  | Terminate nat "reply_text option"
  | SendJson json
  | EndResponse                           \<comment> \<open>status 200 without a body\<close>
  | CallHandler nat string "json option"    \<comment> \<open>the handler, with the url and the body of a POST\<close>
  | ThrowsTypeError

text \<open>What the service on uWebSockets calls on its response, whether in a \<open>cork\<close> or not.\<close>

datatype uws_call =
    WriteHeader string string
  | WriteStatus nat
  | EndText "reply_text option"
  | EndJson json
  | UwsThrows

definition uws_terminateResponse :: "nat \<Rightarrow> reply_text option \<Rightarrow> uws_call list" where
  "uws_terminateResponse code message =
     [WriteHeader ''Content-Type'' ''text/plain; charset=utf-8'', WriteStatus code, EndText message]"

text \<open>A header of a request of Node's server may be \<open>undefined\<close>; uWebSockets gives an empty string then.\<close>

type_synonym node_headers = "string \<Rightarrow> string option"
type_synonym uws_headers = "string \<Rightarrow> string"

definition as_uws :: "node_headers \<Rightarrow> uws_headers" where
  "as_uws hdr k = (case hdr k of None \<Rightarrow> [] | Some v \<Rightarrow> v)"

section \<open>The origin of a request\<close>

text \<open>Whether to go on, and what has been written.\<close>

definition node_verifyOrigin :: "service_options \<Rightarrow> node_headers \<Rightarrow> bool \<times> reply list" where
  "node_verifyOrigin S hdr =
     (let requestOriginUrl = (if nonempty (hdr ''origin'') then hdr ''origin'' else hdr ''referer'');
          requestHostUrl = hdr ''host''
      in if nonempty (so_hostUrl S) \<and> requestHostUrl \<noteq> so_hostUrl S
         then (False, [Terminate 403 (Some ForbiddenHost)])
         else case so_origins S of
           None \<Rightarrow> (False, [ThrowsTypeError])
         | Some origins \<Rightarrow>
             (case requestOriginUrl of
                None \<Rightarrow> (False, [Terminate 403 (Some OriginMissing)])
              | Some url \<Rightarrow>
                  if url \<notin> set origins
                  then (False, [Terminate 403 (Some (if url = [] then OriginMissing else OriginForbidden url))])
                  else (True, [SetHeader ''Access-Control-Allow-Origin'' url,
                         SetHeader ''Access-Control-Allow-Credentials'' ''true'', SetHeader ''Vary'' ''Origin''])))"

definition uws_verifyOrigin :: "service_options \<Rightarrow> uws_headers \<Rightarrow> bool \<times> uws_call list" where
  "uws_verifyOrigin S hdr =
     (let url = (if hdr ''origin'' \<noteq> [] then hdr ''origin'' else hdr ''referer'')
      in if nonempty (so_hostUrl S) \<and> Some (hdr ''host'') \<noteq> so_hostUrl S
         then (False, uws_terminateResponse 403 (Some ForbiddenHost))
         else case so_origins S of
           None \<Rightarrow> (False, [UwsThrows])
         | Some origins \<Rightarrow>
             if url \<notin> set origins
             then (False, uws_terminateResponse 403 (Some (if url = [] then OriginMissing else OriginForbidden url)))
             else (True, [WriteHeader ''Access-Control-Allow-Origin'' url,
                    WriteHeader ''Access-Control-Allow-Credentials'' ''true'', WriteHeader ''Vary'' ''Origin'']))"

text \<open>What the first lines of every handler do.\<close>

definition node_origin :: "service_options \<Rightarrow> node_headers \<Rightarrow> bool \<times> reply list" where
  "node_origin S hdr =
     (if \<not> so_allowAllOrigins S then node_verifyOrigin S hdr
      else (True, [SetHeader ''Access-Control-Allow-Origin'' ''*'']))"

definition uws_origin :: "service_options \<Rightarrow> uws_headers \<Rightarrow> bool \<times> uws_call list" where
  "uws_origin S hdr =
     (if \<not> so_allowAllOrigins S then uws_verifyOrigin S hdr
      else (True, [WriteHeader ''Access-Control-Allow-Origin'' ''*'']))"

section \<open>Preflight requests\<close>

definition methods :: "string list" where "methods = [''GET'', ''POST'', ''OPTIONS'']"

definition allowed_headers :: "string list" where
  "allowed_headers = [''X-Requested-With'', ''X-HTTP-Method-Override'', ''Content-Type'', ''Accept'']"

definition headersLower :: "string list" where "headersLower = map lower_case allowed_headers"

fun js_join :: "string \<Rightarrow> string list \<Rightarrow> string" where
  "js_join sep [] = []"
| "js_join sep [s] = s"
| "js_join sep (s # ss) = s @ sep @ js_join sep ss"

fun forbidden_header :: "string list \<Rightarrow> string option" where
  "forbidden_header [] = None"
| "forbidden_header (h # hs) = (if lower_case (js_trim h) \<notin> set headersLower then Some h else forbidden_header hs)"

definition node_handleOptions :: "node_headers \<Rightarrow> reply list" where
  "node_handleOptions hdr =
     (case hdr ''access-control-request-method'' of
        None \<Rightarrow> [Terminate 400 (Some MethodHeaderMissing)]
      | Some requestMethod \<Rightarrow>
          if requestMethod = [] then [Terminate 400 (Some MethodHeaderMissing)]
          else if requestMethod \<notin> set methods then [Terminate 403 (Some (MethodForbidden requestMethod))]
          else (case hdr ''access-control-request-headers'' of
             None \<Rightarrow> [Terminate 400 (Some HeadersHeaderMissing)]
           | Some requestHeadersRaw \<Rightarrow>
               if requestHeadersRaw = [] then [Terminate 400 (Some HeadersHeaderMissing)]
               else case forbidden_header (js_split (\<lambda>c. c = CHR '','') requestHeadersRaw) of
                 Some h \<Rightarrow> [Terminate 403 (Some (HeaderForbidden h))]
               | None \<Rightarrow> [SetHeader ''Access-Control-Allow-Methods'' (js_join '', '' methods),
                          SetHeader ''Access-Control-Allow-Headers'' (js_join '', '' allowed_headers), Terminate 204 None]))"

text \<open>The loop over the headers of the other service; \<open>getHeader\<close> never gives \<open>undefined\<close> there.\<close>

fun uws_forbidden :: "string list \<Rightarrow> uws_call list option" where
  "uws_forbidden [] = None"
| "uws_forbidden (h # hs) =
     (if lower_case (js_trim h) \<notin> set headersLower then Some (uws_terminateResponse 403 (Some (HeaderForbidden h)))
      else uws_forbidden hs)"

definition uws_handleOptions :: "uws_headers \<Rightarrow> uws_call list" where
  "uws_handleOptions hdr =
     (let requestMethod = hdr ''access-control-request-method'';
          requestHeadersRaw = hdr ''access-control-request-headers''
      in if requestMethod = [] then uws_terminateResponse 400 (Some MethodHeaderMissing)
         else if requestMethod \<notin> set methods then uws_terminateResponse 403 (Some (MethodForbidden requestMethod))
         else if requestHeadersRaw = [] then uws_terminateResponse 400 (Some HeadersHeaderMissing)
         else case uws_forbidden (js_split (\<lambda>c. c = CHR '','') requestHeadersRaw) of
           Some calls \<Rightarrow> calls
         | None \<Rightarrow> [WriteHeader ''Access-Control-Allow-Methods'' (js_join '', '' methods),
                    WriteHeader ''Access-Control-Allow-Headers'' (js_join '', '' allowed_headers)] @
                   uws_terminateResponse 204 None)"

definition after_origin :: "bool \<times> 'a list \<Rightarrow> 'a list \<Rightarrow> 'a list" where
  "after_origin r rest = (if fst r then snd r @ rest else snd r)"

definition uws_options :: "service_options \<Rightarrow> uws_headers \<Rightarrow> uws_call list" where
  "uws_options S hdr = after_origin (uws_origin S hdr) (uws_handleOptions hdr)"

section \<open>The answer of a handler\<close>

text \<open>\<open>sendResponse\<close>: an error with its status code, 0 or missing being 400, or data, which may be missing.\<close>

definition sendResponse :: "(nat \<times> string) option \<Rightarrow> json option \<Rightarrow> reply list" where
  "sendResponse err data =
     (case err of
        Some (statusCode, message) \<Rightarrow>
          [Terminate (if statusCode = 0 then 400 else statusCode) (if message = [] then None else Some (ErrorText message))]
      | None \<Rightarrow>
          [SetHeader ''Content-Type'' ''application/json; charset=utf-8''] @
          (if truthy data then [SendJson (the data)] else [EndResponse]))"

definition uws_sendResponse :: "(nat \<times> string) option \<Rightarrow> json option \<Rightarrow> uws_call list" where
  "uws_sendResponse err data =
     (case err of
        Some (statusCode, message) \<Rightarrow>
          uws_terminateResponse (if statusCode = 0 then 400 else statusCode) (if message = [] then None else Some (ErrorText message))
      | None \<Rightarrow>
          [WriteHeader ''Content-Type'' ''application/json; charset=utf-8'', WriteStatus 200] @
          (if truthy data then [EndJson (the data)] else [EndText None]))"

section \<open>Routes of the Node service\<close>

text \<open>A handler is a number. The health check is registered when the server listens.\<close>

record node_http =
  nh_postPaths :: "(string, nat) jsmap"
  nh_getPaths :: "(string, nat) jsmap"
  nh_upgradePaths :: "(string, nat) jsmap"
  nh_sortedPostPaths :: "string list"
  nh_sortedGetPaths :: "string list"
  nh_sortedUpgradePaths :: "string list"

definition new_node_http :: node_http where
  "new_node_http = \<lparr>nh_postPaths = [], nh_getPaths = [], nh_upgradePaths = [], nh_sortedPostPaths = [],
     nh_sortedGetPaths = [], nh_sortedUpgradePaths = []\<rparr>"

text \<open>\<open>[...keys].sort().reverse()\<close>: strings are compared character by character.\<close>

definition sorted_paths :: "(string, nat) jsmap \<Rightarrow> string list" where
  "sorted_paths m = rev (sort (js_keys m))"

definition registerPostPathPrefix :: "string \<Rightarrow> nat \<Rightarrow> node_http \<Rightarrow> node_http" where
  "registerPostPathPrefix prefix handler n =
     (let m = js_set prefix handler (nh_postPaths n) in n\<lparr>nh_postPaths := m, nh_sortedPostPaths := sorted_paths m\<rparr>)"

definition registerGetPathPrefix :: "string \<Rightarrow> nat \<Rightarrow> node_http \<Rightarrow> node_http" where
  "registerGetPathPrefix prefix handler n =
     (let m = js_set prefix handler (nh_getPaths n) in n\<lparr>nh_getPaths := m, nh_sortedGetPaths := sorted_paths m\<rparr>)"

definition registerUpgradePath :: "string \<Rightarrow> nat \<Rightarrow> node_http \<Rightarrow> node_http" where
  "registerUpgradePath path server n =
     (let m = js_set path server (nh_upgradePaths n) in n\<lparr>nh_upgradePaths := m, nh_sortedUpgradePaths := sorted_paths m\<rparr>)"

fun first_prefix :: "string \<Rightarrow> string list \<Rightarrow> string option" where
  "first_prefix url [] = None"
| "first_prefix url (p # ps) = (if take (length p) url = p then Some p else first_prefix url ps)"

definition handleGet :: "node_http \<Rightarrow> string \<Rightarrow> reply list" where
  "handleGet n url =
     (case first_prefix url (nh_sortedGetPaths n) of
        Some p \<Rightarrow> [CallHandler (the (js_get (nh_getPaths n) p)) url None]
      | None \<Rightarrow> [Terminate 404 (Some EndpointNotFound)])"

text \<open>The content type and the body have been parsed: \<open>None\<close> stands for an error.\<close>

definition handlePost :: "node_http \<Rightarrow> string option \<Rightarrow> json option \<Rightarrow> string \<Rightarrow> reply list" where
  "handlePost n contentType body url =
     (if contentType \<noteq> Some ''application/json'' then [Terminate 415 (Some UnsupportedMediaType)]
      else case body of
        None \<Rightarrow> [Terminate 400 (Some BodyUnparsable)]
      | Some b \<Rightarrow>
          (case first_prefix url (nh_sortedPostPaths n) of
             Some p \<Rightarrow> [CallHandler (the (js_get (nh_postPaths n) p)) url (Some b)]
           | None \<Rightarrow> [Terminate 404 (Some EndpointNotFound)]))"

definition onRequest ::
  "service_options \<Rightarrow> node_http \<Rightarrow> string \<Rightarrow> string \<Rightarrow> node_headers \<Rightarrow> string option \<Rightarrow> json option \<Rightarrow> reply list" where
  "onRequest S n method url hdr contentType body =
     after_origin (node_origin S hdr)
       (if method = ''POST'' then handlePost n contentType body url
        else if method = ''GET'' then handleGet n url
        else if method = ''OPTIONS'' then node_handleOptions hdr
        else [Terminate 405 (Some UnsupportedMethod)])"

text \<open>\<open>onUpgrade\<close>: the server of the path that is the url, or \<open>None\<close> and the socket is destroyed.\<close>

fun find_upgrade :: "string \<Rightarrow> string list \<Rightarrow> string option" where
  "find_upgrade url [] = None"
| "find_upgrade url (p # ps) = (if url = p then Some p else find_upgrade url ps)"

definition onUpgrade :: "node_http \<Rightarrow> string \<Rightarrow> nat option" where
  "onUpgrade n url = Option.bind (find_upgrade url (nh_sortedUpgradePaths n)) (js_get (nh_upgradePaths n))"

section \<open>Reading a body in chunks\<close>

text \<open>
  \<open>readJson\<close> of the second service: the buffer, the bytes received, and for each chunk what is called.
  \<open>parse\<close> decodes and parses the bytes.
\<close>

record body_reader =
  br_buffer :: "string option"
  br_received :: nat

datatype read_call = ReadError nat | ReadBody json

definition new_reader :: body_reader where
  "new_reader = \<lparr>br_buffer = None, br_received = 0\<rparr>"

fun onData :: "(string \<Rightarrow> json option) \<Rightarrow> nat \<Rightarrow> body_reader \<Rightarrow> string \<times> bool \<Rightarrow> body_reader \<times> read_call list" where
  "onData parse limit r (chunk, isLast) =
     (let r1 = r\<lparr>br_received := br_received r + length chunk\<rparr>;
          whole = (case br_buffer r of Some b \<Rightarrow> b @ chunk | None \<Rightarrow> chunk)
      in if br_received r1 > limit then (r1, [ReadError 413])
         else if isLast then (r1, [case parse whole of None \<Rightarrow> ReadError 400 | Some v \<Rightarrow> ReadBody v])
         else (r1\<lparr>br_buffer := Some whole\<rparr>, []))"

text \<open>The chunks of a body; the last one is marked.\<close>

fun chunked :: "string list \<Rightarrow> (string \<times> bool) list" where
  "chunked [] = []"
| "chunked [c] = [(c, True)]"
| "chunked (c # cs) = (c, False) # chunked cs"

definition read_chunks :: "(string \<Rightarrow> json option) \<Rightarrow> nat \<Rightarrow> string list \<Rightarrow> read_call list" where
  "read_chunks parse limit cs = snd (run (onData parse limit) new_reader (chunked cs))"


section \<open>Sockets of the Node service\<close>

text \<open>
  A web socket is a number; of each connected one the time of its last message is kept. Its interval runs
  until it is closed.
\<close>

type_synonym connections = "(nat, int) jsmap"

datatype socket_input =
    Connects nat int
  | Receives nat int bool     \<comment> \<open>whether the text parses to messages\<close>
  | Ticks nat int
  | Closes nat

datatype socket_effect = OnConnection nat | OnMessage nat | Destroys nat | OnSocketClose nat

fun socket_step :: "int \<Rightarrow> connections \<Rightarrow> socket_input \<Rightarrow> connections \<times> socket_effect list" where
  "socket_step heartbeatInterval c (Connects s now) = (js_set s now c, [OnConnection s])"
| "socket_step heartbeatInterval c (Receives s now nonempty_messages) =
     (case js_get c s of
        None \<Rightarrow> (c, [])
      | Some _ \<Rightarrow> (js_set s now c, if nonempty_messages then [OnMessage s] else []))"
| "socket_step heartbeatInterval c (Ticks s now) =
     (case js_get c s of
        None \<Rightarrow> (c, [])
      | Some heard \<Rightarrow> (c, if now - heard > heartbeatInterval * 2 then [Destroys s] else []))"
| "socket_step heartbeatInterval c (Closes s) =
     (case js_get c s of
        None \<Rightarrow> (c, [])
      | Some _ \<Rightarrow> (js_delete s c, [OnSocketClose s]))"

section \<open>Routing\<close>

definition routes :: "(string \<times> nat) list \<Rightarrow> node_http" where
  "routes rs = foldl (\<lambda>n (p, h). registerPostPathPrefix p h n) new_node_http rs"

lemma routes_snoc: "routes (rs @ [(p, h)]) = registerPostPathPrefix p h (routes rs)"
  by (simp add: routes_def)

lemma routes_sorted: "nh_sortedPostPaths (routes rs) = sorted_paths (nh_postPaths (routes rs))"
proof (induction rs rule: rev_induct)
  case Nil
  then show ?case by (simp add: routes_def new_node_http_def sorted_paths_def)
next
  case (snoc r rs)
  then show ?case by (cases r) (simp add: routes_snoc registerPostPathPrefix_def Let_def)
qed

lemma routes_lookup: "js_get (nh_postPaths (routes rs)) p = map_of (rev rs) p"
proof (induction rs rule: rev_induct)
  case Nil
  then show ?case by (simp add: routes_def new_node_http_def)
next
  case (snoc r rs)
  then show ?case by (cases r) (simp add: routes_snoc registerPostPathPrefix_def Let_def js_get_set)
qed

lemma first_prefix_none: "first_prefix url ps = None \<longleftrightarrow> (\<forall>p \<in> set ps. take (length p) url \<noteq> p)"
  by (induction ps) auto

lemma first_prefix_some:
  "first_prefix url ps = Some p \<Longrightarrow>
     \<exists>xs ys. ps = xs @ p # ys \<and> take (length p) url = p \<and> (\<forall>q \<in> set xs. take (length q) url \<noteq> q)"
proof (induction ps)
  case (Cons q ps)
  show ?case
  proof (cases "take (length q) url = q")
    case True
    then show ?thesis using Cons.prems by (intro exI [of _ "[]"] exI [of _ ps]) auto
  next
    case False
    then obtain xs ys where "ps = xs @ p # ys" "take (length p) url = p" "\<forall>q \<in> set xs. take (length q) url \<noteq> q"
      using Cons by auto
    then show ?thesis using False by (intro exI [of _ "q # xs"] exI [of _ ys]) auto
  qed
qed simp

text \<open>Of two prefixes of one string the longer is the greater.\<close>

lemma prefix_less:
  assumes "take (length p) url = p" "take (length q) url = q" "length p < length q"
  shows "p < (q :: string)"
proof -
  have "p = take (length p) q" using assms by (metis min.absorb1 less_imp_le take_take)
  then have q: "q = p @ drop (length p) q" by (metis append_take_drop_id)
  have "xs \<noteq> [] \<Longrightarrow> p < p @ xs" for xs :: string
    by (induction p) (cases xs; simp)+
  then show ?thesis using assms(3) q by (metis drop_eq_Nil not_le)
qed


lemma first_prefix_longest:
  assumes "first_prefix url (sorted_paths m) = Some p" "js_has m q" "take (length q) url = q"
  shows "length q \<le> length p"
proof (rule ccontr)
  assume "\<not> length q \<le> length p"
  obtain xs ys where ps: "sorted_paths m = xs @ p # ys" "take (length p) url = p" "\<forall>q \<in> set xs. take (length q) url \<noteq> q"
    using first_prefix_some [OF assms(1)] by auto
  have less: "p < q" using prefix_less [OF ps(2) assms(3)] \<open>\<not> length q \<le> length p\<close> by simp
  have "q \<in> set (sorted_paths m)" using assms(2) by (simp add: sorted_paths_def js_has_keys)
  then have "q \<in> set ys" using ps assms(3) less by auto
  moreover have "sorted (rev (xs @ p # ys))" using ps(1) by (metis sorted_paths_def rev_rev_ident sorted_sort)
  ultimately have "q \<le> p" by (simp add: sorted_append)
  then show False using less by simp
qed

section \<open>Properties\<close>

text \<open>C25: Whatever prefixes have been registered in whatever order, a POST of JSON goes to the handler last registered
  for the longest prefix of its url, and is answered 404 when no prefix of the url was registered.\<close>

theorem post_goes_to_longest_prefix:
  assumes "r = handlePost (routes rs) (Some ''application/json'') (Some body) url"
  shows "(\<forall>p h. (p, h) \<in> set rs \<longrightarrow> take (length p) url \<noteq> p) \<and> r = [Terminate 404 (Some EndpointNotFound)] \<or>
         (\<exists>p h. map_of (rev rs) p = Some h \<and> take (length p) url = p \<and>
            (\<forall>q k. (q, k) \<in> set rs \<longrightarrow> take (length q) url = q \<longrightarrow> length q \<le> length p) \<and>
            r = [CallHandler h url (Some body)])"
proof -
  let ?m = "nh_postPaths (routes rs)"
  have has: "js_has ?m q \<longleftrightarrow> (\<exists>k. (q, k) \<in> set rs)" for q
  proof -
    have "js_has ?m q \<longleftrightarrow> q \<in> fst ` set (rev rs)"
      by (simp add: js_has_def routes_lookup map_of_eq_None_iff)
    then show ?thesis by force
  qed
  have keys: "set (sorted_paths ?m) = {q. js_has ?m q}" by (auto simp: sorted_paths_def js_has_keys)
  show ?thesis
  proof (cases "first_prefix url (sorted_paths ?m)")
    case None
    then have "\<forall>p h. (p, h) \<in> set rs \<longrightarrow> take (length p) url \<noteq> p"
      using has keys by (auto simp: first_prefix_none)
    then show ?thesis using assms None by (simp add: handlePost_def routes_sorted)
  next
    case (Some p)
    have p: "take (length p) url = p" "js_has ?m p"
      using first_prefix_some [OF Some] keys by auto
    then obtain h where h: "js_get ?m p = Some h" by (auto simp: js_has_def)
    have "\<forall>q k. (q, k) \<in> set rs \<longrightarrow> take (length q) url = q \<longrightarrow> length q \<le> length p"
      using first_prefix_longest [OF Some] has by blast
    then show ?thesis
      using assms Some p(1) h by (auto simp: handlePost_def routes_sorted routes_lookup)
  qed
qed

text \<open>The status code the Node service sends, and the calls its replies stand for.\<close>

fun node_status :: "reply list \<Rightarrow> nat" where
  "node_status (SetHeader k v # rs) = node_status rs"
| "node_status (Terminate code t # rs) = code"
| "node_status rs = 200"

fun calls_of :: "reply \<Rightarrow> uws_call list" where
  "calls_of (SetHeader k v) = [WriteHeader k v]"
| "calls_of (Terminate code t) = [WriteHeader ''Content-Type'' ''text/plain; charset=utf-8'', WriteStatus code, EndText t]"
| "calls_of (SendJson j) = [WriteStatus 200, EndJson j]"
| "calls_of EndResponse = [WriteStatus 200, EndText None]"
| "calls_of (CallHandler h url body) = []"
| "calls_of ThrowsTypeError = [UwsThrows]"

abbreviation calls_of_all :: "reply list \<Rightarrow> uws_call list" where
  "calls_of_all rs \<equiv> concat (map calls_of rs)"

lemma origins_alike:
  assumes "\<And>origins. so_origins S = Some origins \<Longrightarrow> [] \<notin> set origins"
  shows "uws_origin S (as_uws hdr) = map_prod id calls_of_all (node_origin S hdr)"
  using assms
  by (auto simp: uws_origin_def node_origin_def node_verifyOrigin_def uws_verifyOrigin_def as_uws_def nonempty_def
      uws_terminateResponse_def Let_def split: option.splits)

lemma forbidden_alike:
  "uws_forbidden hs = map_option (\<lambda>h. calls_of_all [Terminate 403 (Some (HeaderForbidden h))]) (forbidden_header hs)"
  by (induction hs) (simp_all add: uws_terminateResponse_def)

lemma preflights_alike: "uws_handleOptions (as_uws hdr) = calls_of_all (node_handleOptions hdr)"
  by (auto simp: node_handleOptions_def uws_handleOptions_def as_uws_def forbidden_alike uws_terminateResponse_def
      split: option.splits)

lemma node_status_append: "list_all (\<lambda>r. \<exists>k v. r = SetHeader k v) rs \<Longrightarrow> node_status (rs @ qs) = node_status qs"
  by (induction rs) auto

lemma node_preflight_status: "node_status (node_handleOptions hdr) \<in> {204, 400, 403}"
  by (auto simp: node_handleOptions_def split: option.splits)

lemma node_origin_status:
  "so_allowAllOrigins S \<or> so_origins S \<noteq> None \<Longrightarrow>
     (if fst (node_origin S hdr) then list_all (\<lambda>r. \<exists>k v. r = SetHeader k v) (snd (node_origin S hdr))
      else node_status (snd (node_origin S hdr)) = 403)"
  by (auto simp: node_origin_def node_verifyOrigin_def Let_def split: option.splits)

lemma uws_starts_with_header:
  "\<exists>k v calls. uws_handleOptions hdr = WriteHeader k v # calls"
  "\<exists>k v calls. uws_sendResponse err data = WriteHeader k v # calls"
  "so_allowAllOrigins S \<or> so_origins S \<noteq> None \<Longrightarrow> \<exists>k v calls. snd (uws_origin S hdr) = WriteHeader k v # calls"
proof -
  have "\<exists>k v calls. c = WriteHeader k v # calls" if "uws_forbidden hs = Some c" for hs c
    using that by (induction hs) (auto simp: uws_terminateResponse_def split: if_splits)
  then show "\<exists>k v calls. uws_handleOptions hdr = WriteHeader k v # calls"
    by (auto simp: uws_handleOptions_def uws_terminateResponse_def Let_def split: option.splits)
qed (auto simp: uws_sendResponse_def uws_terminateResponse_def uws_origin_def uws_verifyOrigin_def Let_def split: option.splits)

text \<open>C18: The service on uWebSockets makes the same calls as the Node service, in the same order, in answer to a
  preflight request and for a handler's answer (origins being configured where they are checked, none of them the
  empty string); but every time it writes a header before the status, and since uWebSockets sends the status 200
  with the first header then, no other status reaches a client: not the 204 of an accepted preflight, nor the 400
  and 403 of a refused one, nor the status code of a handler's error.\<close>

theorem uws_statuses_lost:
  assumes "\<And>k v calls. sent (WriteHeader k v # calls) = (200 :: nat)"
    and "\<And>origins. so_origins S = Some origins \<Longrightarrow> [] \<notin> set origins" "so_allowAllOrigins S \<or> so_origins S \<noteq> None"
  shows "uws_options S (as_uws hdr) = calls_of_all (onRequest S n ''OPTIONS'' url hdr contentType body) \<and>
     node_status (onRequest S n ''OPTIONS'' url hdr contentType body) \<in> {204, 400, 403} \<and>
     sent (uws_options S (as_uws hdr)) = 200 \<and>
     uws_sendResponse err data = calls_of_all (sendResponse err data) \<and>
     node_status (sendResponse err data) = (case err of None \<Rightarrow> 200 | Some (code, m) \<Rightarrow> if code = 0 then 400 else code) \<and>
     sent (uws_sendResponse err data) = 200"
proof (intro conjI)
  let ?r = "onRequest S n ''OPTIONS'' url hdr contentType body"
  have r: "?r = after_origin (node_origin S hdr) (node_handleOptions hdr)" by (simp add: onRequest_def)
  show "uws_options S (as_uws hdr) = calls_of_all ?r"
    using origins_alike [of S hdr, OF assms(2)] by (simp add: r uws_options_def preflights_alike after_origin_def)
  show "node_status ?r \<in> {204, 400, 403}"
    using node_origin_status [OF assms(3), of hdr] node_preflight_status [of hdr]
    unfolding r after_origin_def by (auto simp: node_status_append)
  show "sent (uws_options S (as_uws hdr)) = 200"
    using uws_starts_with_header(3) [OF assms(3), of "as_uws hdr"] assms(1) by (auto simp: uws_options_def after_origin_def)
  show "uws_sendResponse err data = calls_of_all (sendResponse err data)"
    by (auto simp: uws_sendResponse_def sendResponse_def uws_terminateResponse_def split: option.splits)
  show "node_status (sendResponse err data) = (case err of None \<Rightarrow> 200 | Some (code, m) \<Rightarrow> if code = 0 then 400 else code)"
    by (auto simp: sendResponse_def split: option.splits)
  show "sent (uws_sendResponse err data) = 200"
    using uws_starts_with_header(2) [of err data] assms(1) by auto
qed

lemma read_within:
  assumes "br_received r + length (concat cs) \<le> limit" "cs \<noteq> []"
  shows "snd (run (onData parse limit) r (chunked cs)) =
           [case parse ((case br_buffer r of Some b \<Rightarrow> b | None \<Rightarrow> []) @ concat cs) of None \<Rightarrow> ReadError 400 | Some v \<Rightarrow> ReadBody v]"
  using assms
proof (induction cs arbitrary: r rule: chunked.induct)
  case (2 c)
  then show ?case by (simp add: Let_def split: option.splits)
next
  case (3 c c' cs)
  then show ?case by (simp add: Let_def split_beta split: option.splits)
qed simp

text \<open>A body within the limit is handed on once, parsed as a whole, however it is cut into chunks.\<close>

theorem chunks_do_not_matter:
  assumes "length (concat cs) \<le> limit" "cs \<noteq> []"
  shows "read_chunks parse limit cs = [case parse (concat cs) of None \<Rightarrow> ReadError 400 | Some v \<Rightarrow> ReadBody v]"
  using read_within [of new_reader cs limit parse] assms by (simp add: read_chunks_def new_reader_def)

lemma read_beyond:
  "limit < br_received r \<Longrightarrow> snd (run (onData parse limit) r (chunked cs)) = replicate (length cs) (ReadError 413)"
  by (induction cs arbitrary: r rule: chunked.induct) (auto simp: Let_def split_beta)

text \<open>A body beyond the limit is refused once for each chunk that comes after the limit has been passed, each time
  ending the response of the request again.\<close>

theorem oversized_body_refused_repeatedly:
  assumes "length (concat xs) \<le> limit" "limit < length (concat xs) + length c"
  shows "read_chunks parse limit (xs @ c # cs) = replicate (Suc (length cs)) (ReadError 413)"
proof -
  have "snd (run (onData parse limit) r (chunked (xs @ c # cs))) = replicate (Suc (length cs)) (ReadError 413)"
    if "br_received r + length (concat xs) \<le> limit" "limit < br_received r + length (concat xs) + length c" for r
    using that
  proof (induction xs arbitrary: r)
    case Nil
    then show ?case
      using read_beyond [of limit _ parse cs] by (cases cs) (auto simp: Let_def split_beta)
  next
    case (Cons x xs)
    have ch: "chunked ((x # xs) @ c # cs) = (x, False) # chunked (xs @ c # cs)" by (cases xs) simp_all
    show ?case using Cons unfolding ch by (simp add: Let_def split_beta)
  qed
  from this [of new_reader] show ?thesis using assms by (simp add: read_chunks_def new_reader_def)
qed


fun about :: "nat \<Rightarrow> socket_input \<Rightarrow> bool" where
  "about s (Connects s' _) = (s' = s)"
| "about s (Receives s' _ _) = (s' = s)"
| "about s (Closes s') = (s' = s)"
| "about s (Ticks _ _) = False"

text \<open>A socket that sends nothing is destroyed by the first tick of its interval that comes more than two
  heartbeats after it was last heard of, and by none before.\<close>

theorem silent_socket_destroyed:
  assumes "js_get c s = Some heard" "\<forall>x \<in> set xs. \<not> about s x"
  shows "Destroys s \<in> set (snd (run (socket_step heartbeat) c xs)) \<longleftrightarrow>
         (\<exists>now. Ticks s now \<in> set xs \<and> now > heard + 2 * heartbeat)"
  using assms
proof (induction xs arbitrary: c)
  case (Cons x xs)
  obtain c1 e1 where 1: "socket_step heartbeat c x = (c1, e1)" by fastforce
  have c1: "js_get c1 s = Some heard"
    using 1 Cons.prems by (cases x) (auto simp: js_get_set js_get_delete split: option.splits)
  have e1: "Destroys s \<in> set e1 \<longleftrightarrow> (\<exists>now. x = Ticks s now \<and> now > heard + 2 * heartbeat)"
    using 1 Cons.prems by (cases x) (auto split: option.splits if_splits)
  have "Destroys s \<in> set (snd (run (socket_step heartbeat) c1 xs)) \<longleftrightarrow> (\<exists>now. Ticks s now \<in> set xs \<and> now > heard + 2 * heartbeat)"
    by (rule Cons.IH [OF c1]) (use Cons.prems in simp)
  then show ?case using 1 e1 by (auto simp: Let_def split_beta)
qed simp

section \<open>Examples\<close>

definition two_routes :: "(string \<times> nat) list" where
  "two_routes = [(''/api'', 1), (''/api/auth'', 2)]"

theorem post_goes_to_longest_prefix_witness:
  "handlePost (routes two_routes) (Some ''application/json'') (Some JNull) ''/api/auth'' = [CallHandler 2 ''/api/auth'' (Some JNull)]"
  using post_goes_to_longest_prefix [OF refl, where rs = two_routes and body = JNull and url = "''/api/auth''"]
  by (auto simp: two_routes_def split: if_splits)

definition strict_service :: service_options where
  "strict_service = \<lparr>so_allowAllOrigins = False, so_origins = Some [''http://a''], so_hostUrl = None, so_healthCheckPath = ''/health''\<rparr>"

fun status_sent :: "uws_call list \<Rightarrow> nat" where
  "status_sent (WriteStatus code # calls) = code"
| "status_sent calls = 200"

theorem uws_statuses_lost_witness:
  "node_status (onRequest strict_service new_node_http ''OPTIONS'' ''/'' (\<lambda>_. None) None None) = 403 \<and>
   status_sent (uws_options strict_service (as_uws (\<lambda>_. None))) = 200 \<and>
   node_status (sendResponse (Some (404, ''gone'')) None) = 404 \<and> status_sent (uws_sendResponse (Some (404, ''gone'')) None) = 200"
proof -
  have "node_status (onRequest strict_service new_node_http ''OPTIONS'' ''/'' (\<lambda>_. None) None None) = 403" by code_simp
  moreover have "node_status (sendResponse (Some (404, ''gone'')) None) = 404" by code_simp
  moreover have p: "status_sent (WriteHeader k v # calls) = 200" "so_origins strict_service = Some os \<Longrightarrow> [] \<notin> set os"
    "so_allowAllOrigins strict_service \<or> so_origins strict_service \<noteq> None" for k v calls os
    by (auto simp: strict_service_def)
  note f = uws_statuses_lost [of status_sent strict_service, OF p]
  moreover note f [THEN conjunct2, THEN conjunct2, THEN conjunct1]
    f [THEN conjunct2, THEN conjunct2, THEN conjunct2, THEN conjunct2, THEN conjunct2]
  ultimately show ?thesis by (intro conjI)
qed

theorem chunks_do_not_matter_witness:
  "read_chunks (\<lambda>_. Some JNull) 4 [''nu'', ''ll''] = [ReadBody JNull]"
  using chunks_do_not_matter [of "[''nu'', ''ll'']" 4 "\<lambda>_. Some JNull"] by simp

theorem oversized_body_refused_repeatedly_witness:
  "read_chunks (\<lambda>_. None) 2 [''nu'', ''l'', ''l''] = [ReadError 413, ReadError 413]"
  using oversized_body_refused_repeatedly [of "[''nu'']" 2 "''l''" "\<lambda>_. None" "[''l'']"] by simp

theorem silent_socket_destroyed_witness:
  "Destroys 1 \<in> set (snd (run (socket_step 10) [(1, 0)] [Ticks 1 10, Ticks 1 20, Ticks 1 30]))"
  using silent_socket_destroyed [of "[(1, 0)]" 1 0 "[Ticks 1 10, Ticks 1 20, Ticks 1 30]" 10] by simp

end
