(* ===== verification/HttpFlow.thy ===== *)
theory HttpFlow
  imports HttpEndpoint HttpService
begin

text \<open>
  JIF requests all the way: the HTTP endpoint (\<open>src/connection-endpoint/http\<close>) with the handlers of
  presence and records behind it. A socket of the endpoint is the index of its message in the request.
\<close>

section \<open>What the endpoint relies on\<close>

text \<open>
  The protobuf package: \<open>parseData\<close> leaves a message alone that has no unparsed data, and the numbers of
  the actions that are no errors are below 100.
\<close>

definition leaves_parsed :: "http_params \<Rightarrow> bool" where
  "leaves_parsed P \<longleftrightarrow> (\<forall>m. m_data m = None \<longrightarrow> hp_parseData P m = m)"

definition answers_below_100 :: "http_params \<Rightarrow> bool" where
  "answers_below_100 P \<longleftrightarrow> (\<forall>k \<in> fst ` set MSG_TO_JIF. \<not> hp_isError P (fst (snd k)))"

text \<open>What a handler sends to the socket \<open>s\<close>, as inputs of slot \<open>i\<close>.\<close>

fun reply_of :: "socket \<Rightarrow> nat \<Rightarrow> sub_effect \<Rightarrow> batch_input list" where
  "reply_of s i (Out (SendMessage s' m)) = (if s' = s then [Sends i False m] else [])"
| "reply_of s i (Out (SendAck s' m)) = (if s' = s then [Sends i True m] else [])"
| "reply_of s i _ = []"

fun record_reply_of :: "socket \<Rightarrow> nat \<Rightarrow> h_effect \<Rightarrow> batch_input list" where
  "record_reply_of s i (HSend s' m) = (if s' = s then [Sends i False m] else [])"
| "record_reply_of s i (HAck s' m) = (if s' = s then [Sends i True m] else [])"
| "record_reply_of s i _ = []"

definition replies :: "socket \<Rightarrow> nat \<Rightarrow> sub_effect list \<Rightarrow> batch_input list" where
  "replies s i es = concat (map (reply_of s i) es)"

definition record_replies :: "socket \<Rightarrow> nat \<Rightarrow> h_effect list \<Rightarrow> batch_input list" where
  "record_replies s i es = concat (map (record_reply_of s i) es)"

text \<open>A final answer to the only message of a request completes it.\<close>

lemma single_answer:
  assumes "\<not> hp_isError P (m_action m) \<or> m_isError m" "leaves_parsed P" "m_data m = None" "toJIF a m = Some (True, r)"
  shows "run (batch_step P) (new_batch 1) [Sends 0 a m] =
           (\<lparr>b_results = [r], b_timer = False, b_closed = []\<rparr>,
            [ClearTimer, Respond (ResultResponse (the (calculateMessageResult [r])) [r])])"
proof -
  have "(if hp_isError P (m_action m) then m\<lparr>m_isError := True\<rparr> else m) = m"
    using assms(1) by (cases m) auto
  moreover have "r \<noteq> None" by (rule done_has_body [OF assms(4)])
  ultimately show ?thesis
    using assms(2-4)
    by (auto simp: sendMessage_def onSocketMessage_def leaves_parsed_def new_batch_def fill_def checkComplete_def
        calculateMessageResult_def)
qed

lemma single_started:
  assumes "fromJIF (hp_validate P) (hp_uid P 0) v = Parsed False m" "socket_init data = Some u"
    and "run (batch_step P) (new_batch 1) (sync 0) = (b, es)"
  shows "onMessageAuthResponse P sync [v] True data = (Some b, SetTimer # OnMessages 0 u m # es)"
  using assms by (simp add: onMessageAuthResponse_def)

section \<open>Presence queries\<close>

definition query_users :: "string \<Rightarrow> json \<Rightarrow> presence \<Rightarrow> users" where
  "query_users userId v p =
     (let clients = ssr_getAll (connectedClients p); index = js_indexOf clients userId
      in case as_strings (property v ''names'') of
           Some users \<Rightarrow> PerUser (Some (JObj (query_result clients users)))
         | None \<Rightarrow> Names (Some (if index \<noteq> -1 then js_splice1 index clients else clients)))"

lemma presence_accepted:
  assumes "accepts jifSchema v" "property v ''topic'' = Some (JStr ''presence'')"
  obtains fs where "v = JObj fs" "fits presence_schema fs"
  using assms by (auto simp: accepts_def schema_defs fits_simps split: json.splits)

lemma presence_converts:
  assumes "documented validateJIF" "accepts jifSchema v" "property v ''topic'' = Some (JStr ''presence'')"
  shows "fromJIF validateJIF uid v = Parsed False
           (case as_strings (property v ''names'') of
              None \<Rightarrow> msg T_PRESENCE (PresenceA UA_QUERY_ALL)
            | Some ns \<Rightarrow> (msg T_PRESENCE (PresenceA UA_QUERY))\<lparr>m_names := Some ns\<rparr>)"
proof -
  obtain fs where fs: "v = JObj fs" "fits presence_schema fs" by (rule presence_accepted [OF assms(2,3)])
  have "validateJIF v = None" using assms(1,2) by (simp add: documented_def)
  moreover have "js_get fs ''names'' = None \<or> (\<exists>ns es. js_get fs ''names'' = Some (JArr es) \<and> as_strings (js_get fs ''names'') = Some ns)"
    using fs(2) by (auto simp: presence_schema_def fits_simps dest!: strings_array split: option.splits)
  moreover have "js_get fs ''topic'' = Some (JStr ''presence'')" "js_get fs ''action'' = Some (JStr ''query'')"
    using fs(2) by (auto simp: presence_schema_def fits_simps split: option.splits)
  ultimately show ?thesis
    unfolding fs(1) by (auto simp: fromJIF_def JIF_TO_MSG_def jif_entries)
qed

text \<open>A presence query posted over HTTP is answered at once with success and the truth: for a query with
  names whether each of them is online, otherwise the others who are online.\<close>

theorem presence_query_over_http:
  assumes "documented (hp_validate P)" "leaves_parsed P" "answers_below_100 P"
    and "accepts jifSchema v" "property v ''topic'' = Some (JStr ''presence'')"
    and "socket_init data = Some u" "fromJIF (hp_validate P) (hp_uid P 0) v = Parsed False m"
    and "sync 0 = replies s 0 (snd (presence_handle userId s m p))"
  shows "responses (snd (onMessageAuthResponse P sync [v] True data)) =
           [ResultResponse ''SUCCESS'' [Some (jif_success\<lparr>b_users := Some (query_users userId v p)\<rparr>)]]"
proof -
  let ?users = "query_users userId v p"
  have m: "m = (case as_strings (property v ''names'') of
              None \<Rightarrow> msg T_PRESENCE (PresenceA UA_QUERY_ALL)
            | Some ns \<Rightarrow> (msg T_PRESENCE (PresenceA UA_QUERY))\<lparr>m_names := Some ns\<rparr>)"
    using presence_converts [OF assms(1,4,5), of "hp_uid P 0"] assms(7) by simp
  obtain r where r: "replies s 0 (snd (presence_handle userId s m p)) = [Sends 0 False r]"
      "toJIF False r = Some (True, Some (jif_success\<lparr>b_users := Some ?users\<rparr>))" "m_data r = None"
      "m_action r \<in> {PresenceA UA_QUERY_ALL_RESPONSE, PresenceA UA_QUERY_RESPONSE}"
    by (cases "as_strings (property v ''names'')")
       (auto simp: m presence_handle_def handleQueryAll_def handleQuery_def replies_def query_users_def
          Let_def toJIF_def MSG_TO_JIF_def msg_def)
  have "\<not> hp_isError P (m_action r)"
    using assms(3) r(4) by (auto simp: answers_below_100_def MSG_TO_JIF_def)
  then have "run (batch_step P) (new_batch 1) (sync 0) =
           (\<lparr>b_results = [Some (jif_success\<lparr>b_users := Some ?users\<rparr>)], b_timer = False, b_closed = []\<rparr>,
            [ClearTimer, Respond (ResultResponse (the (calculateMessageResult [Some (jif_success\<lparr>b_users := Some ?users\<rparr>)]))
               [Some (jif_success\<lparr>b_users := Some ?users\<rparr>)])])"
    using single_answer [OF _ assms(2) r(3,2)] r(1) assms(8) by simp
  from single_started [of P v m data u sync, OF assms(7,6) this] show ?thesis
    by (simp add: calculateMessageResult_def jif_success_def)
qed


section \<open>Reading a record\<close>

text \<open>A JIF read of a record becomes one request of the record, and whatever the stores hold, its answer completes
  the HTTP request: version and data when there is data that is truthy, otherwise that the record was
  not found.\<close>

theorem record_read_over_http:
  assumes "leaves_parsed P" "answers_below_100 P" "m_action m = RecordA RA_READ" "m_name m = Some name"
  shows "handle c (Some s) m h = (h, [HRequest name (Some s) RkSnapshot m True]) \<and>
         responses (snd (run (batch_step P) (new_batch 1)
           (record_replies s 0 (snd (onLoaded c RkSnapshot (Some s) m name version data h))))) =
         [if truthy data
          then ResultResponse ''SUCCESS'' [Some (jif_success\<lparr>b_version := Some version, b_data := data\<rparr>)]
          else ResultResponse ''FAILURE'' [Some ((jif_failure (Some ''record'') (RecordNotFound (Some name)))
                 \<lparr>b_errorEvent := Some (ActionEvent (RecordA RA_RECORD_NOT_FOUND))\<rparr>)]]"
proof
  show "handle c (Some s) m h = (h, [HRequest name (Some s) RkSnapshot m True])"
    using assms(3,4) by (simp add: handle_def)
  let ?found = "(msg T_RECORD (RecordA RA_READ_RESPONSE))\<lparr>m_name := Some name, m_version := Some version, m_parsed := data\<rparr>"
  let ?missing = "(msg T_RECORD (RecordA RA_RECORD_NOT_FOUND))\<lparr>m_original := Some (RecordA RA_READ), m_name := Some name,
    m_isError := True\<rparr>"
  let ?r = "if truthy data then ?found else ?missing"
  let ?body = "if truthy data then jif_success\<lparr>b_version := Some version, b_data := data\<rparr>
    else (jif_failure (Some ''record'') (RecordNotFound (Some name)))\<lparr>b_errorEvent := Some (ActionEvent (RecordA RA_RECORD_NOT_FOUND))\<rparr>"
  have "record_replies s 0 (snd (onLoaded c RkSnapshot (Some s) m name version data h)) = [Sends 0 False ?r]"
    using assms(3,4) by (simp add: record_replies_def onSnapshotComplete_def sendRecord_def)
  moreover have "toJIF False ?r = Some (True, Some ?body)"
    by (simp add: toJIF_def MSG_TO_JIF_def errorToJIF_def msg_def Let_def)
  moreover have "\<not> hp_isError P (m_action ?r) \<or> m_isError ?r"
    using assms(2) by (auto simp: answers_below_100_def MSG_TO_JIF_def msg_def)
  moreover have "m_data ?r = None" by (simp add: msg_def)
  ultimately have "responses (snd (run (batch_step P) (new_batch 1)
      (record_replies s 0 (snd (onLoaded c RkSnapshot (Some s) m name version data h))))) =
      [ResultResponse (the (calculateMessageResult [Some ?body])) [Some ?body]]"
    using single_answer [OF _ assms(1)] by simp
  then show "responses (snd (run (batch_step P) (new_batch 1)
           (record_replies s 0 (snd (onLoaded c RkSnapshot (Some s) m name version data h))))) =
         [if truthy data
          then ResultResponse ''SUCCESS'' [Some (jif_success\<lparr>b_version := Some version, b_data := data\<rparr>)]
          else ResultResponse ''FAILURE'' [Some ((jif_failure (Some ''record'') (RecordNotFound (Some name)))
                 \<lparr>b_errorEvent := Some (ActionEvent (RecordA RA_RECORD_NOT_FOUND))\<rparr>)]]"
    by (simp add: calculateMessageResult_def jif_success_def jif_failure_def)
qed

section \<open>A notification without names\<close>

text \<open>A JIF notification without names is valid, although the schema means to ask for one: the processor
  permissions it as a single message, the handler deletes nothing and sends nothing back, so the HTTP
  request has to wait for its timer.\<close>

theorem empty_notify_waits_for_timeout:
  assumes "documented (hp_validate P)" "hc_deleteBulk c"
  shows "\<exists>m. fromJIF (hp_validate P) uid (JObj [(''topic'', JStr ''record''), (''action'', JStr ''notify''),
             (''recordNames'', JArr [])]) = Parsed False m \<and>
           snd (process_one k s m p) = [PPermission s m Single] \<and>
           handle c (Some s) m h = (h, [HDeleteBulk [] s m]) \<and>
           snd (onBulkDeleted None s m h) = []"
proof -
  have "fits record_notify_schema [(''topic'', JStr ''record''), (''action'', JStr ''notify''), (''recordNames'', JArr [])]"
    by (simp add: record_notify_schema_def fits_simps)
  then have "hp_validate P (JObj [(''topic'', JStr ''record''), (''action'', JStr ''notify''), (''recordNames'', JArr [])]) = None"
    using assms(1) by (simp add: documented_def accepts_def jifSchema_def)
  then show ?thesis
    using assms(2)
    by (simp add: fromJIF_def JIF_TO_MSG_def jif_entries msg_def process_one_def handle_def
        recordUpdatedWithoutDeepstream_def onBulkDeleted_def nonempty_def notify_names_def Let_def)
qed

section \<open>A body that is null\<close>

text \<open>A POST whose body is the text null is read by the uWebSockets service and handed to the endpoint, which
  throws outside any handler.\<close>

theorem null_body_throws:
  assumes "parse ''null'' = Some JNull" "4 \<le> limit"
  shows "read_chunks parse limit [''null''] = [ReadBody JNull] \<and> onPostMessage allowAuthData JNull = [HttpEndpoint.Throws]"
  using assms by (simp add: read_chunks_def new_reader_def onPostMessage_def Let_def)

section \<open>Examples\<close>

theorem null_body_throws_witness:
  "read_chunks (\<lambda>_. Some JNull) 4 [''null''] = [ReadBody JNull]"
  using null_body_throws [of "\<lambda>_. Some JNull" 4] by simp

lemma plain_params_lawful:
  "documented (hp_validate plain_params)" "leaves_parsed plain_params" "answers_below_100 plain_params"
  by (simp_all add: plain_params_def reference_ajv_documented leaves_parsed_def answers_below_100_def MSG_TO_JIF_def)

definition jif_query :: json where
  "jif_query = JObj [(''topic'', JStr ''presence''), (''action'', JStr ''query'')]"

definition empty_presence :: presence where
  "empty_presence = new_presence (new_registry T_PRESENCE)"

definition query_all :: message where "query_all = msg T_PRESENCE (PresenceA UA_QUERY_ALL)"

lemma jif_query_valid: "accepts jifSchema jif_query"
  by (simp add: jif_query_def accepts_def schema_defs fits_simps)

lemma jif_query_parsed: "fromJIF (hp_validate plain_params) (hp_uid plain_params 0) jif_query = Parsed False query_all"
  by (simp add: fromJIF_def plain_params_def reference_ajv_def jif_query_def accepts_def schema_defs fits_simps
      JIF_TO_MSG_def jif_entries query_all_def)

theorem presence_query_over_http_witness:
  "responses (snd (onMessageAuthResponse plain_params
     (\<lambda>_. replies 1 0 (snd (presence_handle ''a'' 1 query_all empty_presence))) [jif_query] True (Some (JObj [])))) =
   [ResultResponse ''SUCCESS'' [Some (jif_success\<lparr>b_users := Some (query_users ''a'' jif_query empty_presence)\<rparr>)]]"
proof -
  have t: "property jif_query ''topic'' = Some (JStr ''presence'')" by (simp add: jif_query_def)
  have i: "socket_init (Some (JObj [])) = Some (JStr ''OPEN'', JNull, JNull)"
    by (simp add: socket_init_def can_read_def or_else_def)
  show ?thesis
    by (rule presence_query_over_http [OF plain_params_lawful jif_query_valid t i jif_query_parsed]) (rule refl)
qed

theorem record_read_over_http_witness:
  "responses (snd (run (batch_step plain_params) (new_batch 1)
     (record_replies 1 0 (snd (onLoaded plain_config RkSnapshot (Some 1)
        ((msg T_RECORD (RecordA RA_READ))\<lparr>m_name := Some ''r''\<rparr>) ''r'' 4 (Some (JObj [])) new_handler))))) =
   [ResultResponse ''SUCCESS'' [Some (jif_success\<lparr>b_version := Some 4, b_data := Some (JObj [])\<rparr>)]]"
  using record_read_over_http [OF plain_params_lawful(2,3), of "(msg T_RECORD (RecordA RA_READ))\<lparr>m_name := Some ''r''\<rparr>" "''r''"
      plain_config 1 new_handler 4 "Some (JObj [])"]
  by (simp add: msg_def)

theorem empty_notify_waits_for_timeout_witness:
  "\<exists>m. fromJIF (hp_validate plain_params) ''u'' (JObj [(''topic'', JStr ''record''), (''action'', JStr ''notify''),
      (''recordNames'', JArr [])]) = Parsed False m"
  using empty_notify_waits_for_timeout [OF plain_params_lawful(1), of "plain_config\<lparr>hc_deleteBulk := True\<rparr>" "''u''" 0 1 "[]" new_handler]
  by auto

end
