(* ===== verification/Authentication.thy ===== *)
theory Authentication
  imports TextConstants Utils JsObject "HOL-Library.Word"
begin

text \<open>
  The authentication strategies that decide at once: open (\<open>src/services/authentication/open\<close>), file
  (\<open>file\<close>, with the command \<open>bin/deepstream-hash.ts\<close> that makes its passwords) and their combination
  (\<open>combine\<close>). A strategy has an opinion, an object whose \<open>isValid\<close> says what it is, or none (\<open>null\<close>), or its
  promise is rejected. PBKDF2 is a parameter; it may fail.
\<close>

section \<open>Opinions\<close>

type_synonym auth_result = "(string, json) jsmap"

datatype outcome = Opinion auth_result | NoOpinion | Rejects

definition refused :: auth_result where
  "refused = [(''isValid'', JBool False)]"

definition refused_because :: "string \<Rightarrow> auth_result" where
  "refused_because e = [(''isValid'', JBool False), (''clientData'', JObj [(''error'', JStr e)])]"

text \<open>Reading a property of \<open>null\<close> throws, which rejects the promise.\<close>

definition with_auth_data :: "json \<Rightarrow> outcome \<Rightarrow> outcome" where
  "with_auth_data authData r = (if authData = JNull then Rejects else r)"

section \<open>The contract of a strategy\<close>

text \<open>
  What the connection endpoint relies on: an opinion says yes or no, and a yes comes with an id.
\<close>

locale auth_strategy =
  fixes decides :: "json \<Rightarrow> outcome \<Rightarrow> bool"
  assumes verdict: "decides authData (Opinion r) \<Longrightarrow> \<exists>b. js_get r ''isValid'' = Some (JBool b)"
    and identified: "decides authData (Opinion r) \<Longrightarrow> js_get r ''isValid'' = Some (JBool True) \<Longrightarrow> js_has r ''id''"
begin

lemma allowed_or_refused:
  "decides authData (Opinion r) \<Longrightarrow>
     js_get r ''isValid'' = Some (JBool True) \<and> (\<exists>i. js_get r ''id'' = Some i) \<or> js_get r ''isValid'' = Some (JBool False)"
  using verdict identified by (fastforce simp: js_has_def)

end

section \<open>Open authentication\<close>

text \<open>\<open>toString\<close> of a value: for an object with its own property \<open>toString\<close> it may throw.\<close>

definition OPEN_USER :: string where "OPEN_USER = ''open''"

definition open_isValidUser :: "(json \<Rightarrow> string option) \<Rightarrow> json \<Rightarrow> outcome" where
  "open_isValidUser to_string authData =
     with_auth_data authData
       (let username = property authData ''username''; result = (\<lambda>s. Opinion [(''isValid'', JBool True), (''id'', JStr s)])
        in if truthy username
           then (case to_string (the username) of
                   None \<Rightarrow> Rejects
                 | Some s \<Rightarrow> result (if s = [] then OPEN_USER else s))
           else result OPEN_USER)"

interpretation open_auth: auth_strategy "\<lambda>a r. r = open_isValidUser to_string a"
  by unfold_locales
    (auto simp: open_isValidUser_def with_auth_data_def Let_def js_has_def split: if_splits option.splits)

section \<open>Hashes\<close>

text \<open>Base64, as \<open>Buffer.toString('base64')\<close> writes it.\<close>

type_synonym bytes = "8 word list"

definition base64_chars :: string where
  "base64_chars = ''ABCDEFGHIJKLMNOPQRSTUVWXYZabcdefghijklmnopqrstuvwxyz0123456789+/''"

definition b64 :: "nat \<Rightarrow> char" where "b64 n = base64_chars ! (n mod 64)"

fun base64 :: "bytes \<Rightarrow> string" where
  "base64 [] = []"
| "base64 [a] = (let n = unat a * 65536 in [b64 (n div 262144), b64 (n div 4096), CHR ''='', CHR ''=''])"
| "base64 [a, b] = (let n = unat a * 65536 + unat b * 256
     in [b64 (n div 262144), b64 (n div 4096), b64 (n div 64), CHR ''=''])"
| "base64 (a # b # c # bs) = (let n = unat a * 65536 + unat b * 256 + unat c
     in b64 (n div 262144) # b64 (n div 4096) # b64 (n div 64) # b64 n # base64 bs)"

text \<open>\<open>createHash\<close>: the settings are fixed, the result for a password and a salt may be an error.\<close>

type_synonym pbkdf2 = "string \<Rightarrow> string \<Rightarrow> bytes option"

text \<open>The command: \<open>salt\<close> is the base64 of 16 random bytes; what it prints is put into the file.\<close>

definition hash_command :: "pbkdf2 \<Rightarrow> string \<Rightarrow> string \<Rightarrow> string option" where
  "hash_command createHash salt password =
     (if password = [] then None else map_option (\<lambda>h. base64 h @ salt) (createHash password salt))"

section \<open>File authentication\<close>

record file_settings =
  fs_users :: "(string, json) jsmap"
  fs_hash :: "json option"
  fs_keyLength :: nat
  fs_report :: "json option"

definition base64KeyLength :: "file_settings \<Rightarrow> nat" where
  "base64KeyLength S = 4 * ((fs_keyLength S + 2) div 3)"

text \<open>The constructor reports invalid parameters unless it is told not to.\<close>

definition file_constructor :: "file_settings \<Rightarrow> file_settings" where
  "file_constructor S = (if fs_report S = None then S\<lparr>fs_report := Some (JBool True)\<rparr> else S)"

text \<open>Why a configuration is fatal; nothing in the list when it is valid.\<close>

datatype fatal = InvalidSettings | NoUsers | MissingPassword string

definition validateSettings :: "(json option \<Rightarrow> bool) \<Rightarrow> (string \<Rightarrow> bool) \<Rightarrow> (string, json) jsmap \<Rightarrow> file_settings \<Rightarrow> fatal list" where
  "validateSettings has_host known_hash settings S =
     (if truthy (fs_hash S) \<and>
         (validateMap has_host settings True [(''hash'', ''string''), (''iterations'', ''number''), (''keyLength'', ''number'')] \<noteq> Valid \<or>
          \<not> known_hash (case fs_hash S of Some (JStr h) \<Rightarrow> h | _ \<Rightarrow> []))
      then [InvalidSettings] else []) @
     (if fs_users S = [] then [NoUsers]
      else concat (map (\<lambda>(u, d). case property d ''password'' of Some (JStr _) \<Rightarrow> [] | _ \<Rightarrow> [MissingPassword u]) (fs_users S)))"

text \<open>\<open>settings.users[username]\<close> finds the properties of \<open>Object.prototype\<close> too; they have no password.\<close>

definition user_password :: "json js_prop \<Rightarrow> json option" where
  "user_password u = (case u of Own d \<Rightarrow> property d ''password'' | _ \<Rightarrow> None)"

definition user_exists :: "json js_prop \<Rightarrow> bool" where
  "user_exists u = (case u of Own d \<Rightarrow> truthy (Some d) | Inherited \<Rightarrow> True | Missing \<Rightarrow> False)"

definition user_field :: "json js_prop \<Rightarrow> string \<Rightarrow> json" where
  "user_field u k = (case u of Own d \<Rightarrow> or_null (property d k) | _ \<Rightarrow> JNull)"

text \<open>
  The passwords compared: \<open>None\<close> when computing them throws. Without a hash the whole password of the
  file is compared with the one given; with one, what comes first is the hash and the rest the salt.
\<close>

definition passwords :: "pbkdf2 \<Rightarrow> file_settings \<Rightarrow> json option \<Rightarrow> string \<Rightarrow> (json option \<times> string) option" where
  "passwords createHash S stored given =
     (let k = base64KeyLength S
      in if truthy (fs_hash S)
         then (case stored of
                 Some (JStr p) \<Rightarrow>
                   (case fs_hash S of
                      Some (JStr _) \<Rightarrow> map_option (\<lambda>h. (Some (JStr (take k p)), base64 h)) (createHash given (drop k p))
                    | _ \<Rightarrow> Some (Some (JStr (take k p)), given))
               | _ \<Rightarrow> None)
         else (case fs_hash S of
                 Some (JStr _) \<Rightarrow>
                   (case stored of
                      Some (JStr p) \<Rightarrow> map_option (\<lambda>h. (stored, base64 h)) (createHash given (drop k p))
                    | _ \<Rightarrow> None)
               | _ \<Rightarrow> Some (stored, given)))"

definition file_isValidUser :: "pbkdf2 \<Rightarrow> file_settings \<Rightarrow> json \<Rightarrow> outcome" where
  "file_isValidUser createHash S authData =
     with_auth_data authData
       (case (property authData ''username'', property authData ''password'') of
          (Some (JStr username), Some (JStr password)) \<Rightarrow>
            (let userData = read_prop (fs_users S) username
             in if \<not> user_exists userData then NoOpinion
                else case passwords createHash S (user_password userData) password of
                       None \<Rightarrow> Rejects
                     | Some (actual, expected) \<Rightarrow>
                         if actual = Some (JStr expected)
                         then Opinion [(''isValid'', JBool True), (''id'', JStr username),
                                (''serverData'', user_field userData ''serverData''),
                                (''clientData'', user_field userData ''clientData'')]
                         else if truthy (fs_report S) then Opinion refused else NoOpinion)
        | _ \<Rightarrow> if truthy (fs_report S)
                then Opinion (refused_because ''missing authentication parameter: username or/and password'')
                else NoOpinion)"

interpretation file_auth: auth_strategy "\<lambda>a r. r = file_isValidUser createHash S a"
  by unfold_locales
    (auto simp: file_isValidUser_def with_auth_data_def Let_def js_has_def refused_def refused_because_def
      split: if_splits option.splits json.splits prod.splits)

section \<open>Combination\<close>

text \<open>
  The strategies are asked one after the other until one has an opinion, which goes to the callback;
  \<open>None\<close> when a rejected promise ends the loop before the callback is called.
\<close>

fun combine_isValidUser :: "(json \<Rightarrow> json \<Rightarrow> outcome) list \<Rightarrow> json \<Rightarrow> json \<Rightarrow> (json option \<times> auth_result option) option" where
  "combine_isValidUser [] connectionData authData = Some (Some (JBool False), None)"
| "combine_isValidUser (auth # auths) connectionData authData =
     (case auth connectionData authData of
        Rejects \<Rightarrow> None
      | Opinion r \<Rightarrow> Some (js_get r ''isValid'', Some r)
      | NoOpinion \<Rightarrow> combine_isValidUser auths connectionData authData)"

text \<open>\<open>onClientDisconnect\<close>: the strategies that have the hook hear of it, in order.\<close>

definition combine_onClientDisconnect :: "bool list \<Rightarrow> string \<Rightarrow> (nat \<times> string) list" where
  "combine_onClientDisconnect hooks userId = map (\<lambda>i. (i, userId)) (filter (\<lambda>i. hooks ! i) [0..<length hooks])"


section \<open>Base64\<close>

lemma base64_length: "length (base64 bs) = 4 * ((length bs + 2) div 3)"
proof (induction bs rule: base64.induct)
  case (4 a b c bs)
  have "(Suc (Suc (Suc (length bs))) + 2) div 3 = Suc ((length bs + 2) div 3)" by simp
  then show ?case using 4 by (simp add: Let_def)
qed (simp_all add: Let_def)

lemma base64_chars_distinct: "distinct base64_chars" "length base64_chars = 64"
  by (simp_all add: base64_chars_def)

lemma b64_eq: "b64 m = b64 n \<longleftrightarrow> m mod 64 = n mod 64"
  using nth_eq_iff_index_eq [OF base64_chars_distinct(1), of "m mod 64" "n mod 64"] base64_chars_distinct(2)
  by (simp add: b64_def)

lemma byte_less: "unat (a :: 8 word) < 256"
  using unsigned_less [of a, where ?'a = nat] by simp

lemma sextets_eq:
  fixes m n :: nat
  assumes "m < 16777216" "n < 16777216"
    and "m div 262144 mod 64 = n div 262144 mod 64" "m div 4096 mod 64 = n div 4096 mod 64"
    and "m div 64 mod 64 = n div 64 mod 64" "m mod 64 = n mod 64"
  shows "m = n"
proof -
  have split: "k = 64 * (k div 64) + k mod 64" for k :: nat by simp
  have d: "k div 4096 = k div 64 div 64" "k div 262144 = k div 64 div 64 div 64" for k :: nat
    by (simp_all add: div_mult2_eq [symmetric])
  have "m div 262144 = n div 262144" using assms(1,2,3) by simp
  then have "m div 4096 = n div 4096" using assms(4) split [of "m div 4096"] split [of "n div 4096"] d by metis
  then have "m div 64 = n div 64" using assms(5) split [of "m div 64"] split [of "n div 64"] d by metis
  then show ?thesis using assms(6) split [of m] split [of n] by metis
qed

lemma digit_256: "x * 256 + c = x' * 256 + c' \<Longrightarrow> c < 256 \<Longrightarrow> c' < 256 \<Longrightarrow> x = x' \<and> c = (c' :: nat)"
proof -
  have d: "(y * 256 + d) div 256 = y" "(y * 256 + d) mod 256 = d" if "d < 256" for y d :: nat
    using that by simp_all
  assume "x * 256 + c = x' * 256 + c'" "c < 256" "c' < 256"
  then show ?thesis by (metis d)
qed

lemma three_bytes:
  fixes a b c a' b' c' :: "8 word"
  assumes "unat a * 65536 + unat b * 256 + unat c = unat a' * 65536 + unat b' * 256 + unat c'"
  shows "a = a' \<and> b = b' \<and> c = c'"
proof -
  have "(unat a * 256 + unat b) * 256 + unat c = (unat a' * 256 + unat b') * 256 + unat c'"
    using assms by simp
  from digit_256 [OF this byte_less byte_less]
  have c: "unat c = unat c'" and ab: "unat a * 256 + unat b = unat a' * 256 + unat b'" by blast+
  from digit_256 [OF ab byte_less byte_less] c show ?thesis by (simp add: word_unat_eq_iff)
qed

text \<open>The four characters of three bytes determine them.\<close>

abbreviation bits24 :: "8 word \<Rightarrow> 8 word \<Rightarrow> 8 word \<Rightarrow> nat" where
  "bits24 a b c \<equiv> unat a * 65536 + unat b * 256 + unat c"

lemma bits24_less: "bits24 a b c < 16777216"
  using byte_less [of a] byte_less [of b] byte_less [of c] by arith

lemma quartet_inj:
  assumes "b64 (bits24 a b c div 262144) = b64 (bits24 a' b' c' div 262144)"
    and "b64 (bits24 a b c div 4096) = b64 (bits24 a' b' c' div 4096)"
    and "b64 (bits24 a b c div 64) = b64 (bits24 a' b' c' div 64)" "b64 (bits24 a b c) = b64 (bits24 a' b' c')"
  shows "a = a' \<and> b = b' \<and> c = c'"
  by (rule three_bytes, rule sextets_eq [OF bits24_less bits24_less]) (use assms in \<open>simp_all only: b64_eq\<close>)

text \<open>Missing bytes are written like zeros, of which the padding takes the characters that are zero.\<close>

lemma base64_one: "base64 [a] = base64 [a'] \<Longrightarrow> a = a'"
proof -
  assume "base64 [a] = base64 [a']"
  then have "b64 (bits24 a 0 0 div 262144) = b64 (bits24 a' 0 0 div 262144)"
    "b64 (bits24 a 0 0 div 4096) = b64 (bits24 a' 0 0 div 4096)"
    by (simp_all add: Let_def)
  moreover have "b64 (bits24 x 0 0 div 64) = b64 0" "b64 (bits24 x 0 0) = b64 0" for x :: "8 word"
    by (simp_all add: b64_eq)
  ultimately show ?thesis using quartet_inj [of a 0 0 a' 0 0] by simp
qed

lemma base64_two: "base64 [a, b] = base64 [a', b'] \<Longrightarrow> a = a' \<and> b = b'"
proof -
  assume "base64 [a, b] = base64 [a', b']"
  then have "b64 (bits24 a b 0 div 262144) = b64 (bits24 a' b' 0 div 262144)"
    "b64 (bits24 a b 0 div 4096) = b64 (bits24 a' b' 0 div 4096)"
    "b64 (bits24 a b 0 div 64) = b64 (bits24 a' b' 0 div 64)"
    by (simp_all add: Let_def)
  moreover have "b64 (bits24 x y 0) = b64 0" for x y :: "8 word"
    by (simp add: b64_eq mod_add_eq [symmetric])
  ultimately show ?thesis using quartet_inj [of a b 0 a' b' 0] by simp
qed

lemma base64_inj: "length bs = length cs \<Longrightarrow> base64 bs = base64 cs \<Longrightarrow> bs = cs"
proof (induction bs arbitrary: cs rule: base64.induct)
  case (2 a)
  then obtain a' where "cs = [a']" by (cases cs) auto
  then show ?case using 2 base64_one by blast
next
  case (3 a b)
  then obtain a' b' where "cs = [a', b']" by (cases cs; cases "tl cs") auto
  then show ?case using 3 base64_two by blast
next
  case (4 a b c bs)
  then obtain a' b' c' cs' where cs: "cs = a' # b' # c' # cs'" "length bs = length cs'"
    by (cases cs; cases "tl cs"; cases "tl (tl cs)") auto
  have eq: "b64 (bits24 a b c div 262144) = b64 (bits24 a' b' c' div 262144)"
    "b64 (bits24 a b c div 4096) = b64 (bits24 a' b' c' div 4096)"
    "b64 (bits24 a b c div 64) = b64 (bits24 a' b' c' div 64)" "b64 (bits24 a b c) = b64 (bits24 a' b' c')"
    "base64 bs = base64 cs'"
    using 4(3) by (simp_all only: cs base64.simps Let_def list.inject)
  show ?case using quartet_inj [OF eq(1-4)] 4(1) [OF _ cs(2) eq(5)] cs(1) by simp
qed auto

section \<open>Properties\<close>

definition allowed :: "outcome \<Rightarrow> bool" where
  "allowed r \<longleftrightarrow> (\<exists>x. r = Opinion x \<and> js_get x ''isValid'' = Some (JBool True))"

definition credentials :: "string \<Rightarrow> string \<Rightarrow> json" where
  "credentials username password = JObj [(''username'', JStr username), (''password'', JStr password)]"

text \<open>C13: A user whose password in the file is what the hash command printed is let in with exactly the passwords
  that have the same hash under its salt, and told who it is and the data of the file.\<close>

theorem file_accepts_hashed_password:
  assumes "fs_hash S = Some (JStr alg)" "alg \<noteq> []"
    and keys: "\<And>p s h. createHash p s = Some h \<Longrightarrow> length h = fs_keyLength S"
    and "hash_command createHash salt password = Some stored"
    and "js_get (fs_users S) username = Some (JObj entry)" "js_get entry ''password'' = Some (JStr stored)"
    and given: "createHash given salt = Some h"
  shows "allowed (file_isValidUser createHash S (credentials username given)) \<longleftrightarrow> createHash password salt = Some h"
proof -
  obtain h0 where h0: "createHash password salt = Some h0" "stored = base64 h0 @ salt"
    using assms(4) by (auto simp: hash_command_def split: if_splits)
  have len: "length (base64 h0) = base64KeyLength S"
    using keys [OF h0(1)] by (simp add: base64_length base64KeyLength_def)
  have "base64 h0 = base64 h \<longleftrightarrow> h0 = h"
    using base64_inj [of h0 h] keys [OF h0(1)] keys [OF given] by auto
  then have "allowed (file_isValidUser createHash S (credentials username given)) \<longleftrightarrow> h0 = h"
    using assms(1,2,5,6) h0 len given
    by (simp add: file_isValidUser_def with_auth_data_def credentials_def read_prop_def user_exists_def
        user_password_def passwords_def Let_def allowed_def refused_def)
  then show ?thesis using h0(1) by simp
qed

text \<open>The first strategy with an opinion decides: a user is allowed only when some strategy says so and all before
  it had no opinion, and a user nobody has an opinion on is refused.\<close>

theorem first_opinion_decides:
  assumes "combine_isValidUser auths connectionData authData = Some (v, r)"
  shows "(\<forall>auth \<in> set auths. auth connectionData authData = NoOpinion) \<and> v = Some (JBool False) \<and> r = None \<or>
         (\<exists>xs auth ys x. auths = xs @ auth # ys \<and> (\<forall>a \<in> set xs. a connectionData authData = NoOpinion) \<and>
            auth connectionData authData = Opinion x \<and> v = js_get x ''isValid'' \<and> r = Some x)"
  using assms
proof (induction auths)
  case (Cons auth auths)
  show ?case
  proof (cases "auth connectionData authData")
    case (Opinion x)
    then show ?thesis using Cons.prems by (intro disjI2 exI [of _ "[]"]) auto
  next
    case NoOpinion
    then have "combine_isValidUser auths connectionData authData = Some (v, r)" using Cons.prems by simp
    from Cons.IH [OF this] show ?thesis
    proof (elim disjE exE conjE)
      fix xs a ys x
      assume "auths = xs @ a # ys" "\<forall>a \<in> set xs. a connectionData authData = NoOpinion"
        "a connectionData authData = Opinion x" "v = js_get x ''isValid''" "r = Some x"
      then show ?thesis using NoOpinion by (intro disjI2 exI [of _ "auth # xs"]) auto
    qed (use NoOpinion in simp)
  qed (use Cons.prems in simp)
qed simp

text \<open>With hashed passwords in the file, a user name that every object has as a property, such as constructor,
  makes the strategy throw, and nobody catches it: the callback is never called and the client gets no
  answer.\<close>

theorem inherited_user_never_answered:
  assumes "fs_hash S = Some (JStr alg)" "alg \<noteq> []" "username \<in> set object_prototype" "js_get (fs_users S) username = None"
  shows "combine_isValidUser ((\<lambda>c a. file_isValidUser createHash S a) # auths) connectionData
           (credentials username password) = None"
  using assms
  by (simp add: file_isValidUser_def with_auth_data_def credentials_def read_prop_def user_exists_def
      user_password_def passwords_def Let_def)

section \<open>Examples\<close>

definition toy_hash :: pbkdf2 where
  "toy_hash p s = Some [of_nat (length p), of_nat (length s)]"

definition toy_users :: file_settings where
  "toy_users = \<lparr>fs_users = [(''ann'', JObj [(''password'', JStr ''AwE=s'')])], fs_hash = Some (JStr ''md5''),
     fs_keyLength = 2, fs_report = None\<rparr>"

lemma toy_stored: "hash_command toy_hash ''s'' ''pwd'' = Some ''AwE=s''"
  by (simp add: hash_command_def toy_hash_def Let_def b64_def base64_chars_def)

theorem file_accepts_hashed_password_witness:
  "allowed (file_isValidUser toy_hash toy_users (credentials ''ann'' ''pwd'')) \<and>
   \<not> allowed (file_isValidUser toy_hash toy_users (credentials ''ann'' ''pw''))"
proof -
  have h: "toy_hash p s = Some h \<Longrightarrow> length h = fs_keyLength toy_users" for p s h
    by (auto simp: toy_hash_def toy_users_def)
  have u: "js_get (fs_users toy_users) ''ann'' = Some (JObj [(''password'', JStr ''AwE=s'')])"
    "fs_hash toy_users = Some (JStr ''md5'')"
    by (simp_all add: toy_users_def)
  note accepts = file_accepts_hashed_password [OF u(2) _ h toy_stored u(1)]
  show ?thesis
    using accepts [where given = "''pwd''" and h = "[3, 1]"] accepts [where given = "''pw''" and h = "[2, 1]"] by (simp add: toy_hash_def)
qed

theorem first_opinion_decides_witness:
  "combine_isValidUser [\<lambda>c a. NoOpinion, \<lambda>c a. open_isValidUser (\<lambda>_. None) a] JNull (JObj []) =
     Some (Some (JBool True), Some [(''isValid'', JBool True), (''id'', JStr OPEN_USER)])"
proof -
  have c: "combine_isValidUser [\<lambda>c a. NoOpinion, \<lambda>c a. open_isValidUser (\<lambda>_. None) a] JNull (JObj []) =
     Some (Some (JBool True), Some [(''isValid'', JBool True), (''id'', JStr OPEN_USER)])"
    by (simp add: open_isValidUser_def with_auth_data_def Let_def)
  then show ?thesis using first_opinion_decides [OF c] by simp
qed

theorem inherited_user_never_answered_witness:
  "combine_isValidUser [\<lambda>c a. file_isValidUser toy_hash toy_users a] JNull (credentials ''constructor'' ''x'') = None"
  by (rule inherited_user_never_answered [where alg = "''md5''"]) (simp_all add: toy_users_def object_prototype_def)

end
