(* ===== verification/StorageAuth.thy ===== *)
theory StorageAuth
  imports Authentication
begin

text \<open>
  Authentication against a table of the storage (\<open>src/services/authentication/storage/storage-based-authentication.ts\<close>),
  which registers unknown users when it is told to. Each \<open>await\<close> ends a step, so an attempt is the state
  it has reached, and attempts interleave: the world is the storage and the attempts under way. PBKDF2 is a
  parameter, and the salt, the new id and the time are inputs.
\<close>

section \<open>An attempt\<close>

record storage_settings =
  ss_table :: string
  ss_createUser :: bool
  ss_keyLength :: nat
  ss_report :: "json option"

definition storage_constructor :: "storage_settings \<Rightarrow> storage_settings" where
  "storage_constructor S = (if ss_report S = None then S\<lparr>ss_report := Some (JBool True)\<rparr> else S)"

definition storageId :: "storage_settings \<Rightarrow> string \<Rightarrow> string" where
  "storageId S username = ss_table S @ ''/'' @ username"

text \<open>\<open>hash.toString('ascii')\<close> leaves out the highest bit of each byte.\<close>

definition ascii :: "bytes \<Rightarrow> string" where
  "ascii bs = map (\<lambda>b. char_of (unat b mod 128)) bs"

text \<open>Where an attempt waits; \<open>HashCheck\<close> has the password and the user found, \<open>Setting\<close> what it resolves with.\<close>

datatype attempt =
    Getting string string
  | HashNew string string
  | Setting string json auth_result
  | HashCheck string string json
  | Finished outcome

definition sa_isValidUser :: "storage_settings \<Rightarrow> json \<Rightarrow> attempt" where
  "sa_isValidUser S authData =
     (if authData = JNull then Finished Rejects
      else case (property authData ''username'', property authData ''password'') of
        (Some (JStr username), Some (JStr password)) \<Rightarrow> Getting username password
      | (u, p) \<Rightarrow>
          let missing = (\<lambda>v n. case v of Some (JStr _) \<Rightarrow> ''false'' | _ \<Rightarrow> n)
          in if truthy (ss_report S)
             then Finished (Opinion (refused_because
                    (''missing authentication parameters: '' @ missing u ''username'' @ '' '' @ missing p ''password'')))
             else Finished NoOpinion)"

text \<open>The storage answers with an error or with data, \<open>null\<close> for an unknown user.\<close>

definition sa_onGet :: "storage_settings \<Rightarrow> bool \<Rightarrow> json option \<Rightarrow> string \<Rightarrow> string \<Rightarrow> attempt" where
  "sa_onGet S failed data username password =
     (if failed then Finished (Opinion (refused_because ''Error retrieving user from storage''))
      else if data = Some JNull then (if ss_createUser S then HashNew username password else Finished NoOpinion)
      else case data of
        None \<Rightarrow> Finished Rejects
      | Some userData \<Rightarrow>
          (case property userData ''password'' of
             Some (JStr p) \<Rightarrow> HashCheck password p userData
           | _ \<Rightarrow> Finished Rejects))"

definition new_user :: "string \<Rightarrow> int \<Rightarrow> string \<Rightarrow> string \<Rightarrow> json" where
  "new_user uuid now username password =
     JObj [(''username'', JStr username), (''password'', JStr password), (''clientData'', JObj [(''id'', JStr uuid)]),
       (''serverData'', JObj [(''created'', JNum now)])]"

definition registered :: "string \<Rightarrow> int \<Rightarrow> auth_result" where
  "registered uuid now = [(''isValid'', JBool True), (''id'', JStr uuid), (''clientData'', JObj [(''id'', JStr uuid)]),
     (''serverData'', JObj [(''created'', JNum now)])]"

text \<open>The hash of a new user's password, with its salt.\<close>

definition sa_onNewHash :: "storage_settings \<Rightarrow> string \<Rightarrow> int \<Rightarrow> string \<Rightarrow> string \<Rightarrow> bytes option \<Rightarrow> attempt" where
  "sa_onNewHash S uuid now salt username hash =
     (case hash of
        None \<Rightarrow> Finished Rejects
      | Some h \<Rightarrow> Setting (storageId S username) (new_user uuid now username (ascii h @ salt)) (registered uuid now))"

definition sa_found :: "json \<Rightarrow> outcome" where
  "sa_found userData =
     (let clientData = property userData ''clientData''
      in if \<not> can_read clientData then Rejects
         else Opinion ([(''isValid'', JBool True)] @
                (case property (the clientData) ''id'' of None \<Rightarrow> [] | Some i \<Rightarrow> [(''id'', i)]) @
                [(''serverData'', or_else (property userData ''serverData'') JNull),
                 (''clientData'', or_else clientData JNull)]))"

text \<open>The hash of the given password under the salt of the stored one.\<close>

definition sa_onHash :: "storage_settings \<Rightarrow> string \<Rightarrow> json \<Rightarrow> bytes option \<Rightarrow> outcome" where
  "sa_onHash S p userData hash =
     (case hash of
        None \<Rightarrow> Rejects
      | Some h \<Rightarrow> if take (ss_keyLength S) p = ascii h then sa_found userData
                 else if truthy (ss_report S) then Opinion refused else NoOpinion)"

section \<open>Attempts side by side\<close>

record sa_world =
  sw_store :: "(string, json) jsmap"
  sw_attempts :: "attempt list"

datatype sa_input =
    Begin json
  | GetReturns nat bool
  | HashReturns nat string int string    \<comment> \<open>with the id, the time and the salt of a new user\<close>
  | SetReturns nat bool                  \<comment> \<open>whether the storage stored the user\<close>

definition reaches :: "nat \<Rightarrow> attempt \<Rightarrow> sa_world \<Rightarrow> sa_world" where
  "reaches k a w = w\<lparr>sw_attempts := (sw_attempts w)[k := a]\<rparr>"

fun sa_step :: "storage_settings \<Rightarrow> pbkdf2 \<Rightarrow> sa_world \<Rightarrow> sa_input \<Rightarrow> sa_world" where
  "sa_step S H w (Begin authData) = w\<lparr>sw_attempts := sw_attempts w @ [sa_isValidUser S authData]\<rparr>"
| "sa_step S H w (GetReturns k failed) =
     (case sw_attempts w ! k of
        Getting u p \<Rightarrow>
          reaches k (sa_onGet S failed (Some (or_null (js_get (sw_store w) (storageId S u)))) u p) w
      | _ \<Rightarrow> w)"
| "sa_step S H w (HashReturns k uuid now salt) =
     (case sw_attempts w ! k of
        HashNew u p \<Rightarrow> reaches k (sa_onNewHash S uuid now salt u (H p salt)) w
      | HashCheck given p userData \<Rightarrow>
          reaches k (Finished (sa_onHash S p userData (H given (drop (ss_keyLength S) p)))) w
      | _ \<Rightarrow> w)"
| "sa_step S H w (SetReturns k ok) =
     (case sw_attempts w ! k of
        Setting i v r \<Rightarrow>
          reaches k (Finished (Opinion r)) (if ok then w\<lparr>sw_store := js_set i v (sw_store w)\<rparr> else w)
      | _ \<Rightarrow> w)"

definition sa_run :: "storage_settings \<Rightarrow> pbkdf2 \<Rightarrow> sa_world \<Rightarrow> sa_input list \<Rightarrow> sa_world" where
  "sa_run S H w xs = foldl (sa_step S H) w xs"

definition no_attempts :: "(string, json) jsmap \<Rightarrow> sa_world" where
  "no_attempts store = \<lparr>sw_store = store, sw_attempts = []\<rparr>"

text \<open>A user the strategy itself has stored has an id.\<close>

definition has_id :: "json \<Rightarrow> bool" where
  "has_id userData \<longleftrightarrow> (\<exists>fs. property userData ''clientData'' = Some (JObj fs) \<and> js_has fs ''id'')"

lemma new_user_has_id: "has_id (new_user uuid now username password)"
  by (simp add: has_id_def new_user_def js_has_def)

lemma sa_found_id: "has_id u \<Longrightarrow> sa_found u = Opinion r \<Longrightarrow> js_get r ''isValid'' = Some (JBool True) \<and> js_has r ''id''"
  by (auto simp: has_id_def sa_found_def Let_def can_read_def js_has_def)

lemma sa_onHash_cases:
  "sa_onHash S p u h = Opinion r \<Longrightarrow> sa_found u = Opinion r \<or> r = refused"
  by (auto simp: sa_onHash_def split: option.splits if_splits)

interpretation storage_auth: auth_strategy "\<lambda>a r. \<exists>p u h. has_id u \<and> r = sa_onHash S p u h"
  by unfold_locales (auto dest!: sym [of "Opinion _"] sa_onHash_cases dest: sa_found_id simp: refused_def)

section \<open>Properties\<close>

lemma length_ascii [simp]: "length (ascii h) = length h"
  by (simp add: ascii_def)

lemma char_of_128: "(char_of (m mod 128) :: char) = char_of (n mod 128) \<longleftrightarrow> m mod 128 = n mod (128 :: nat)"
proof
  assume "(char_of (m mod 128) :: char) = char_of (n mod 128)"
  then have "(of_char (char_of (m mod 128) :: char) :: nat) = of_char (char_of (n mod 128) :: char)" by simp
  then have "m mod 128 mod 256 = n mod 128 mod 256" unfolding of_char_of .
  moreover have "k mod 128 mod 256 = k mod 128" for k :: nat by (rule mod_less) (rule less_trans [of _ 128], simp_all)
  ultimately show "m mod 128 = n mod 128" by metis
qed simp

definition low7 :: "bytes \<Rightarrow> nat list" where
  "low7 bs = map (\<lambda>b. unat b mod 128) bs"

lemma ascii_eq: "ascii g = ascii h \<longleftrightarrow> low7 g = low7 h"
proof (induction g arbitrary: h)
  case (Cons b g)
  then show ?case by (cases h) (simp_all add: ascii_def low7_def char_of_128)
qed (auto simp: ascii_def low7_def)

text \<open>The steps of an attempt that is alone.\<close>

definition register_steps :: "nat \<Rightarrow> json \<Rightarrow> string \<Rightarrow> int \<Rightarrow> string \<Rightarrow> bool \<Rightarrow> sa_input list" where
  "register_steps k authData uuid now salt ok =
     [Begin authData, GetReturns k False, HashReturns k uuid now salt, SetReturns k ok]"

definition login_steps :: "nat \<Rightarrow> json \<Rightarrow> sa_input list" where
  "login_steps k authData = [Begin authData, GetReturns k False, HashReturns k [] 0 []]"

definition lets_in :: "sa_world \<Rightarrow> nat \<Rightarrow> bool" where
  "lets_in w k \<longleftrightarrow> (\<exists>r. sw_attempts w ! k = Finished r \<and> allowed r)"

named_theorems sa_simps \<open>the steps of attempts\<close>

lemmas [sa_simps] = sa_run_def reaches_def sa_isValidUser_def sa_onGet_def sa_onNewHash_def sa_onHash_def
  credentials_def storageId_def no_attempts_def or_null_def

text \<open>C30: An unknown user who is registered, is told an id, and later comes back is let in exactly when the hash of
  the password given agrees with the stored one in the lower seven bits of every byte.\<close>

theorem registered_user_logs_in:
  assumes "ss_createUser S" "js_get store (storageId S u) = None"
    and "H p salt = Some h" "H given salt = Some h'" "length h = ss_keyLength S"
  shows "let w = sa_run S H (no_attempts store)
               (register_steps 0 (credentials u p) uuid now salt True @ login_steps 1 (credentials u given))
         in sw_attempts w ! 0 = Finished (Opinion (registered uuid now)) \<and> (lets_in w 1 \<longleftrightarrow> low7 h = low7 h')"
  using assms
  by (simp add: sa_simps register_steps_def login_steps_def lets_in_def js_get_set new_user_def sa_found_def can_read_def
      Let_def allowed_def refused_def ascii_eq)

text \<open>A user whose record the storage fails to store is told that the registration succeeded.\<close>

theorem failed_registration_reported_as_success:
  assumes "ss_createUser S" "js_get store (storageId S u) = None" "H p salt = Some h"
  shows "let w = sa_run S H (no_attempts store) (register_steps 0 (credentials u p) uuid now salt False)
         in sw_attempts w ! 0 = Finished (Opinion (registered uuid now)) \<and> sw_store w = store"
  using assms by (simp add: sa_simps register_steps_def)

text \<open>Two clients register the same name at the same time: both read before either writes.\<close>

definition race :: "json \<Rightarrow> json \<Rightarrow> string \<Rightarrow> string \<Rightarrow> string \<Rightarrow> sa_input list" where
  "race c1 c2 id1 id2 salt = [Begin c1, Begin c2, GetReturns 0 False, GetReturns 1 False, HashReturns 0 id1 0 salt,
     HashReturns 1 id2 0 salt, SetReturns 0 True, SetReturns 1 True]"

text \<open>When two clients register the same name with different passwords, both are let in under different ids, and
  the one whose record was overwritten is refused the next time.\<close>

theorem registration_race:
  assumes "ss_createUser S" "js_get store (storageId S u) = None"
    and "H p1 salt = Some h1" "H p2 salt = Some h2" "low7 h2 \<noteq> low7 h1" "length h2 = ss_keyLength S"
  shows "let w = sa_run S H (no_attempts store)
               (race (credentials u p1) (credentials u p2) id1 id2 salt @ login_steps 2 (credentials u p1))
         in sw_attempts w ! 0 = Finished (Opinion (registered id1 0)) \<and>
            sw_attempts w ! 1 = Finished (Opinion (registered id2 0)) \<and> \<not> lets_in w 2"
  using assms
  by (simp add: sa_simps race_def login_steps_def lets_in_def js_get_set new_user_def Let_def allowed_def refused_def
      ascii_eq)

section \<open>Examples\<close>

definition toy_table :: storage_settings where
  "toy_table = \<lparr>ss_table = ''Users'', ss_createUser = True, ss_keyLength = 2, ss_report = Some (JBool True)\<rparr>"

theorem registered_user_logs_in_witness:
  "lets_in (sa_run toy_table toy_hash (no_attempts [])
     (register_steps 0 (credentials ''ann'' ''pwd'') ''1'' 7 ''s'' True @ login_steps 1 (credentials ''ann'' ''pwd''))) 1"
proof -
  have "ss_createUser toy_table" "js_get [] (storageId toy_table ''ann'') = None" "toy_hash ''pwd'' ''s'' = Some [3, 1]"
    "length [3 :: 8 word, 1] = ss_keyLength toy_table"
    by (simp_all add: toy_table_def toy_hash_def)
  from registered_user_logs_in [where S = toy_table and store = "[]" and u = "''ann''" and H = toy_hash and salt = "''s''" and p = "''pwd''" and given = "''pwd''",
      OF this(1-3,3,4)] show ?thesis by (simp add: Let_def)
qed

theorem failed_registration_reported_as_success_witness:
  "sw_store (sa_run toy_table toy_hash (no_attempts [])
     (register_steps 0 (credentials ''ann'' ''pwd'') ''1'' 7 ''s'' False)) = []"
proof -
  have "ss_createUser toy_table" "js_get [] (storageId toy_table ''ann'') = None" "toy_hash ''pwd'' ''s'' = Some [3, 1]"
    by (simp_all add: toy_table_def toy_hash_def)
  from failed_registration_reported_as_success [where S = toy_table and store = "[]" and u = "''ann''" and H = toy_hash and salt = "''s''" and p = "''pwd''",
      OF this] show ?thesis by (simp add: Let_def)
qed

theorem registration_race_witness:
  "\<not> lets_in (sa_run toy_table toy_hash (no_attempts [])
     (race (credentials ''ann'' ''a'') (credentials ''ann'' ''bb'') ''1'' ''2'' ''s'' @ login_steps 2 (credentials ''ann'' ''a''))) 2"
proof -
  have "ss_createUser toy_table" "js_get [] (storageId toy_table ''ann'') = None" "toy_hash ''a'' ''s'' = Some [1, 1]"
    "toy_hash ''bb'' ''s'' = Some [2, 1]" "low7 [2, 1] \<noteq> low7 [1, 1]" "length [2 :: 8 word, 1] = ss_keyLength toy_table"
    by (simp_all add: toy_table_def toy_hash_def low7_def)
  from registration_race [where S = toy_table and store = "[]" and u = "''ann''" and H = toy_hash and salt = "''s''" and 
      ?p1.0 = "''a''" and ?p2.0 = "''bb''", OF this] show ?thesis by (simp add: Let_def)
qed

end
