(* ===== verification/HttpAuth.thy ===== *)
theory HttpAuth
  imports Authentication
begin

text \<open>
  Authentication by a web hook (\<open>src/services/authentication/http/http-authentication.ts\<close>): each login is a POST to
  an endpoint, which is tried again on errors and on the status codes that ask for it. The requests under
  way and the timers that run are part of the state, with the arguments their closures hold; the HTTP
  client answers with an error or with a status code and a body, in any order.
\<close>

section \<open>State and effects\<close>

record hook_settings =
  ks_promoteToHeader :: "string list"
  ks_permitted :: "int list"
  ks_retryCodes :: "int list"
  ks_retryAttempts :: int
  ks_report :: "json option"

text \<open>The keys of \<open>validateSettings\<close>, which throws when one is missing or not of its type.\<close>

definition hook_schema :: "(string \<times> string) list" where
  "hook_schema = [(''endpointUrl'', ''url''), (''permittedStatusCodes'', ''array''), (''requestTimeout'', ''number''),
     (''retryStatusCodes'', ''array''), (''retryAttempts'', ''number''), (''retryInterval'', ''number'')]"

definition hook_validateSettings :: "(json option \<Rightarrow> bool) \<Rightarrow> (string, json) jsmap \<Rightarrow> validation" where
  "hook_validateSettings has_host settings = validateMap has_host settings True hook_schema"

type_synonym closure = "nat \<times> json \<times> json"   \<comment> \<open>id, connection data and authentication data\<close>

record hook =
  ha_attempts :: "(nat, int) jsmap"
  ha_requestId :: nat
  ha_posts :: "closure list"
  ha_timers :: "closure list"

definition new_hook :: hook where
  "new_hook = \<lparr>ha_attempts = [], ha_requestId = 0, ha_posts = [], ha_timers = []\<rparr>"

datatype hook_effect =
    HaPost nat json json "(string, json) jsmap"   \<comment> \<open>with the headers\<close>
  | HaTimer nat
  | HaCallback nat outcome

section \<open>Operations\<close>

definition promoted :: "hook_settings \<Rightarrow> json \<Rightarrow> (string, json) jsmap" where
  "promoted S authData =
     foldl (\<lambda>r p. if truthy (property authData p) then js_set p (the (property authData p)) r else r) []
       (ks_promoteToHeader S)"

text \<open>Reading a header from \<open>null\<close> throws within the promise of the caller.\<close>

definition hook_validate :: "hook_settings \<Rightarrow> nat \<Rightarrow> json \<Rightarrow> json \<Rightarrow> hook \<Rightarrow> hook \<times> hook_effect list" where
  "hook_validate S rid cd ad h =
     (if ks_promoteToHeader S \<noteq> [] \<and> ad = JNull then (h, [HaCallback rid Rejects])
      else (h\<lparr>ha_posts := ha_posts h @ [(rid, cd, ad)]\<rparr>, [HaPost rid cd ad (promoted S ad)]))"

definition hook_isValidUser :: "hook_settings \<Rightarrow> json \<Rightarrow> json \<Rightarrow> hook \<Rightarrow> hook \<times> hook_effect list" where
  "hook_isValidUser S cd ad h =
     hook_validate S (ha_requestId h) cd ad (h\<lparr>ha_requestId := Suc (ha_requestId h)\<rparr>)"

definition ends_with :: "nat \<Rightarrow> outcome \<Rightarrow> hook \<Rightarrow> hook \<times> hook_effect list" where
  "ends_with rid r h = (h\<lparr>ha_attempts := js_delete rid (ha_attempts h)\<rparr>, [HaCallback rid r])"

definition hook_retry :: "hook_settings \<Rightarrow> nat \<Rightarrow> json \<Rightarrow> json \<Rightarrow> hook \<Rightarrow> hook \<times> hook_effect list" where
  "hook_retry S rid cd ad h =
     (let attempts = (case js_get (ha_attempts h) rid of None \<Rightarrow> 0 | Some a \<Rightarrow> a + 1);
          h1 = h\<lparr>ha_attempts := js_set rid attempts (ha_attempts h)\<rparr>
      in if attempts < ks_retryAttempts S
         then (h1\<lparr>ha_timers := ha_timers h1 @ [(rid, cd, ad)]\<rparr>, [HaTimer rid])
         else ends_with rid
                (if truthy (ks_report S) then Opinion (refused_because ''AUTH_RETRY_ATTEMPTS_EXCEEDED'') else NoOpinion) h1)"

text \<open>What a response that is not tried again says.\<close>

definition unless_silent :: "hook_settings \<Rightarrow> auth_result \<Rightarrow> outcome" where
  "unless_silent S r = (if truthy (ks_report S) then Opinion r else NoOpinion)"

definition response_verdict :: "hook_settings \<Rightarrow> int \<Rightarrow> json option \<Rightarrow> outcome" where
  "response_verdict S statusCode body =
     (if statusCode \<notin> set (ks_permitted S)
      then unless_silent S
        (case body of
           Some (JStr e) \<Rightarrow> if e = [] then refused else refused_because e
         | Some (JObj fs) \<Rightarrow> if fs = [] then refused else [(''isValid'', JBool False), (''clientData'', JObj (spread [] (JObj fs)))]
         | Some (JArr fs) \<Rightarrow> if fs = [] then refused else [(''isValid'', JBool False), (''clientData'', JObj (spread [] (JArr fs)))]
         | _ \<Rightarrow> refused)
      else case body of
             Some (JStr i) \<Rightarrow> if i = [] then Opinion [(''isValid'', JBool True)]
                              else Opinion [(''isValid'', JBool True), (''id'', JStr i)]
           | Some v \<Rightarrow> Opinion (spread [(''isValid'', JBool True)] v)
           | None \<Rightarrow> Opinion [(''isValid'', JBool True)])"

text \<open>The callback of the POST: an error, or a status code that may be missing (or 0) and a body.\<close>

datatype response = PostError | PostResponse int "json option"

definition onPostResponse :: "hook_settings \<Rightarrow> closure \<Rightarrow> response \<Rightarrow> hook \<Rightarrow> hook \<times> hook_effect list" where
  "onPostResponse S c r h =
     (case c of (rid, cd, ad) \<Rightarrow>
        (case r of
           PostError \<Rightarrow> hook_retry S rid cd ad h
         | PostResponse statusCode body \<Rightarrow>
             if statusCode = 0 then ends_with rid (unless_silent S refused) h
             else if statusCode \<in> set (ks_retryCodes S) then hook_retry S rid cd ad h
             else ends_with rid (response_verdict S statusCode body) h))"

datatype hook_input =
    Login json json
  | Returns closure response
  | RetryFires closure

fun hook_step :: "hook_settings \<Rightarrow> hook \<Rightarrow> hook_input \<Rightarrow> hook \<times> hook_effect list" where
  "hook_step S h (Login cd ad) = hook_isValidUser S cd ad h"
| "hook_step S h (Returns c r) =
     (if c \<in> set (ha_posts h) then onPostResponse S c r (h\<lparr>ha_posts := remove1 c (ha_posts h)\<rparr>) else (h, []))"
| "hook_step S h (RetryFires c) =
     (if c \<in> set (ha_timers h)
      then (case c of (rid, cd, ad) \<Rightarrow> hook_validate S rid cd ad (h\<lparr>ha_timers := remove1 c (ha_timers h)\<rparr>))
      else (h, []))"

section \<open>One login\<close>

fun answers :: "nat \<Rightarrow> hook_effect list \<Rightarrow> nat" where
  "answers rid [] = 0"
| "answers rid (HaCallback i r # es) = (if i = rid then Suc (answers rid es) else answers rid es)"
| "answers rid (_ # es) = answers rid es"

fun posts :: "nat \<Rightarrow> hook_effect list \<Rightarrow> nat" where
  "posts rid [] = 0"
| "posts rid (HaPost i _ _ _ # es) = (if i = rid then Suc (posts rid es) else posts rid es)"
| "posts rid (_ # es) = posts rid es"

lemma answers_append [simp]: "answers rid (xs @ ys) = answers rid xs + answers rid ys"
  by (induction rid xs rule: answers.induct) auto

lemma posts_append [simp]: "posts rid (xs @ ys) = posts rid xs + posts rid ys"
  by (induction rid xs rule: posts.induct) auto

definition open_for :: "nat \<Rightarrow> closure list \<Rightarrow> closure list" where
  "open_for rid cs = filter (\<lambda>c. fst c = rid) cs"

lemma open_for_simps [simp]:
  "open_for rid [] = []" "open_for rid (cs @ ds) = open_for rid cs @ open_for rid ds"
  "open_for rid (c # cs) = (if fst c = rid then c # open_for rid cs else open_for rid cs)"
  by (simp_all add: open_for_def)

lemma open_for_remove1: "open_for rid (remove1 c cs) = (if fst c = rid then remove1 c (open_for rid cs) else open_for rid cs)"
  by (induction cs) auto

lemma open_for_in: "c \<in> set (open_for rid cs) \<longleftrightarrow> c \<in> set cs \<and> fst c = rid"
  by (auto simp: open_for_def)

definition limit :: "hook_settings \<Rightarrow> int" where
  "limit S = max 0 (ks_retryAttempts S) + 1"

text \<open>
  A login that has not begun; one whose request is under way; one whose timer runs; one that is over.
  \<open>n\<close> counts its answers and \<open>p\<close> its requests.
\<close>

definition login_inv :: "hook_settings \<Rightarrow> nat \<Rightarrow> nat \<Rightarrow> nat \<Rightarrow> hook \<Rightarrow> bool" where
  "login_inv S rid n p h \<longleftrightarrow>
     (let ps = open_for rid (ha_posts h); ts = open_for rid (ha_timers h); a = js_get (ha_attempts h) rid
      in ha_requestId h \<le> rid \<and> n = 0 \<and> p = 0 \<and> ps = [] \<and> ts = [] \<and> a = None \<or>
         rid < ha_requestId h \<and> n = 0 \<and> length ps = 1 \<and> ts = [] \<and>
           (a = None \<and> p = 1 \<or> (\<exists>k \<ge> 0. a = Some k \<and> k < ks_retryAttempts S \<and> int p = k + 2)) \<or>
         rid < ha_requestId h \<and> n = 0 \<and> ps = [] \<and> length ts = 1 \<and>
           (\<exists>k \<ge> 0. a = Some k \<and> k < ks_retryAttempts S \<and> int p = k + 1) \<or>
         rid < ha_requestId h \<and> n = 1 \<and> ps = [] \<and> ts = [] \<and> a = None \<and> int p \<le> limit S)"


text \<open>Requests and timers hold authentication data whose headers can be read.\<close>

definition readable :: "hook_settings \<Rightarrow> json \<Rightarrow> bool" where
  "readable S ad \<longleftrightarrow> \<not> (ks_promoteToHeader S \<noteq> [] \<and> ad = JNull)"

definition closures_ok :: "hook_settings \<Rightarrow> hook \<Rightarrow> bool" where
  "closures_ok S h \<longleftrightarrow> (\<forall>c \<in> set (ha_posts h) \<union> set (ha_timers h). readable S (snd (snd c)) \<and> fst c < ha_requestId h)"

definition hook_inv :: "hook_settings \<Rightarrow> nat \<Rightarrow> nat \<Rightarrow> nat \<Rightarrow> hook \<Rightarrow> bool" where
  "hook_inv S rid n p h \<longleftrightarrow> closures_ok S h \<and> login_inv S rid n p h"

definition keeps_login :: "hook_settings \<Rightarrow> nat \<Rightarrow> nat \<Rightarrow> nat \<Rightarrow> hook \<times> hook_effect list \<Rightarrow> bool" where
  "keeps_login S rid n p r \<longleftrightarrow> hook_inv S rid (n + answers rid (snd r)) (p + posts rid (snd r)) (fst r)"

lemma one_element: "length xs = 1 \<Longrightarrow> x \<in> set xs \<Longrightarrow> xs = [x]"
  by (cases xs) auto

text \<open>What happens to another login leaves this one alone.\<close>

definition same_login :: "nat \<Rightarrow> hook \<Rightarrow> hook \<times> hook_effect list \<Rightarrow> bool" where
  "same_login rid h r \<longleftrightarrow> ha_requestId (fst r) = ha_requestId h \<and>
     open_for rid (ha_posts (fst r)) = open_for rid (ha_posts h) \<and>
     open_for rid (ha_timers (fst r)) = open_for rid (ha_timers h) \<and>
     js_get (ha_attempts (fst r)) rid = js_get (ha_attempts h) rid \<and> answers rid (snd r) = 0 \<and> posts rid (snd r) = 0"

lemma same_login_keeps:
  "login_inv S rid n p h \<Longrightarrow> same_login rid h r \<Longrightarrow> login_inv S rid (n + answers rid (snd r)) (p + posts rid (snd r)) (fst r)"
  by (simp add: same_login_def login_inv_def)

lemma other_response: "i \<noteq> rid \<Longrightarrow> same_login rid h (onPostResponse S (i, cd, ad) r h)"
  by (cases r) (auto simp: same_login_def onPostResponse_def hook_retry_def ends_with_def js_get_set js_get_delete Let_def)

lemma other_validate: "i \<noteq> rid \<Longrightarrow> same_login rid h (hook_validate S i cd ad h)"
  by (simp add: same_login_def hook_validate_def)

lemma closures_isValidUser:
  assumes "closures_ok S h"
  shows "closures_ok S (fst (hook_isValidUser S cd ad h))"
  using assms
  by (auto simp: closures_ok_def hook_isValidUser_def hook_validate_def readable_def intro: less_SucI)

lemma login_inv_next:
  assumes "login_inv S rid n p h" "rid \<noteq> ha_requestId h"
  shows "login_inv S rid n p (h\<lparr>ha_requestId := Suc (ha_requestId h)\<rparr>)"
proof -
  have "Suc (ha_requestId h) \<le> rid \<longleftrightarrow> ha_requestId h \<le> rid" "rid < Suc (ha_requestId h) \<longleftrightarrow> rid < ha_requestId h"
    using assms(2) by auto
  then show ?thesis using assms(1) by (simp add: login_inv_def)
qed

lemma login_inv_fresh:
  "login_inv S (ha_requestId h) n p h \<Longrightarrow> n = 0 \<and> p = 0 \<and> open_for (ha_requestId h) (ha_posts h) = [] \<and>
     open_for (ha_requestId h) (ha_timers h) = [] \<and> js_get (ha_attempts h) (ha_requestId h) = None"
  by (simp add: login_inv_def Let_def)

lemma isValidUser_login:
  assumes "login_inv S rid n p h"
  shows "login_inv S rid (n + answers rid (snd (hook_isValidUser S cd ad h))) (p + posts rid (snd (hook_isValidUser S cd ad h)))
          (fst (hook_isValidUser S cd ad h))"
proof (cases "rid = ha_requestId h")
  case True
  note f = login_inv_fresh [OF assms [unfolded True]]
  show ?thesis
  proof (cases "ks_promoteToHeader S \<noteq> [] \<and> ad = JNull")
    case False
    then show ?thesis
      using f unfolding hook_isValidUser_def hook_validate_def if_not_P [OF False] by (simp add: True login_inv_def)
  qed (use f in \<open>simp add: True hook_isValidUser_def hook_validate_def login_inv_def limit_def\<close>)
next
  case False
  then show ?thesis
    unfolding hook_isValidUser_def
    using login_inv_next [OF assms False] other_validate [of "ha_requestId h" rid] by (intro same_login_keeps) auto
qed

lemma isValidUser_keeps: "hook_inv S rid n p h \<Longrightarrow> keeps_login S rid n p (hook_isValidUser S cd ad h)"
  using isValidUser_login closures_isValidUser by (simp add: keeps_login_def hook_inv_def)

text \<open>A request that has returned, before its response is looked at: it belongs to nothing.\<close>

definition returned :: "hook_settings \<Rightarrow> nat \<Rightarrow> nat \<Rightarrow> hook \<Rightarrow> bool" where
  "returned S rid p h \<longleftrightarrow> rid < ha_requestId h \<and> open_for rid (ha_posts h) = [] \<and> open_for rid (ha_timers h) = [] \<and>
     (js_get (ha_attempts h) rid = None \<and> p = 1 \<or>
      (\<exists>k \<ge> 0. js_get (ha_attempts h) rid = Some k \<and> k < ks_retryAttempts S \<and> int p = k + 2))"

lemma closures_response:
  "closures_ok S h \<Longrightarrow> readable S ad \<Longrightarrow> i < ha_requestId h \<Longrightarrow> closures_ok S (fst (onPostResponse S (i, cd, ad) r h))"
  by (cases r) (auto simp: closures_ok_def onPostResponse_def hook_retry_def ends_with_def Let_def)

lemma ends_with_keeps:
  assumes "returned S rid p h"
  shows "login_inv S rid (answers rid (snd (ends_with rid r h))) (p + posts rid (snd (ends_with rid r h))) (fst (ends_with rid r h))"
  using assms by (auto simp: login_inv_def ends_with_def returned_def js_get_delete limit_def Let_def)

lemma hook_retry_keeps:
  assumes "returned S rid p h"
  shows "login_inv S rid (answers rid (snd (hook_retry S rid cd ad h))) (p + posts rid (snd (hook_retry S rid cd ad h)))
           (fst (hook_retry S rid cd ad h))"
  using assms by (auto simp: login_inv_def ends_with_def hook_retry_def returned_def js_get_delete js_get_set limit_def Let_def)

lemma response_keeps:
  assumes "returned S rid p h" "closures_ok S h" "readable S ad"
  shows "keeps_login S rid 0 p (onPostResponse S (rid, cd, ad) r h)"
proof -
  have "closures_ok S (fst (onPostResponse S (rid, cd, ad) r h))"
    using assms by (intro closures_response) (auto simp: returned_def)
  then show ?thesis
    using ends_with_keeps [OF assms(1)] hook_retry_keeps [OF assms(1)]
    by (cases r) (simp_all add: keeps_login_def hook_inv_def onPostResponse_def)
qed

lemma closures_remove:
  "closures_ok S h \<Longrightarrow> closures_ok S (h\<lparr>ha_posts := remove1 c (ha_posts h)\<rparr>)"
  "closures_ok S h \<Longrightarrow> closures_ok S (h\<lparr>ha_timers := remove1 c (ha_timers h)\<rparr>)"
  by (auto simp: closures_ok_def dest: in_set_remove1 notin_set_remove1 set_remove1_subset [THEN subsetD])


lemma closures_readable:
  "closures_ok S h \<Longrightarrow> (i, cd, ad) \<in> set (ha_posts h) \<union> set (ha_timers h) \<Longrightarrow> readable S ad \<and> i < ha_requestId h"
  by (metis (no_types, lifting) closures_ok_def fst_conv snd_conv)

lemma login_inv_post:
  assumes "login_inv S rid n p h" "c \<in> set (ha_posts h)" "fst c = rid"
  shows "n = 0 \<and> returned S rid p (h\<lparr>ha_posts := remove1 c (ha_posts h)\<rparr>)"
proof -
  have c: "c \<in> set (open_for rid (ha_posts h))" using assms(2,3) by (simp add: open_for_in)
  then have l: "length (open_for rid (ha_posts h)) = 1" "n = 0" using assms(1) by (auto simp: login_inv_def Let_def)
  then have "open_for rid (ha_posts h) = [c]" using one_element [OF _ c] by simp
  then show ?thesis using assms(1,3) l by (simp add: login_inv_def returned_def open_for_remove1 Let_def)
qed

lemma login_inv_timer:
  assumes "login_inv S rid n p h" "c \<in> set (ha_timers h)" "fst c = rid" "readable S (snd (snd c))"
  shows "login_inv S rid n (Suc p) (h\<lparr>ha_timers := remove1 c (ha_timers h), ha_posts := ha_posts h @ [c]\<rparr>)"
proof -
  have c: "c \<in> set (open_for rid (ha_timers h))" using assms(2,3) by (simp add: open_for_in)
  then have l: "length (open_for rid (ha_timers h)) = 1" using assms(1) by (auto simp: login_inv_def Let_def)
  then have "open_for rid (ha_timers h) = [c]" using one_element [OF l c] by simp
  then show ?thesis using assms(1,3) by (auto simp: login_inv_def open_for_remove1 Let_def)
qed

lemma login_inv_drop:
  "login_inv S rid n p h \<Longrightarrow> fst c \<noteq> rid \<Longrightarrow> login_inv S rid n p (h\<lparr>ha_posts := remove1 c (ha_posts h)\<rparr>)"
  "login_inv S rid n p h \<Longrightarrow> fst c \<noteq> rid \<Longrightarrow> login_inv S rid n p (h\<lparr>ha_timers := remove1 c (ha_timers h)\<rparr>)"
  by (simp_all add: login_inv_def open_for_remove1)

lemma closures_add:
  "closures_ok S h \<Longrightarrow> readable S (snd (snd c)) \<Longrightarrow> fst c < ha_requestId h \<Longrightarrow>
     closures_ok S (h\<lparr>ha_posts := ha_posts h @ [c]\<rparr>)"
  by (auto simp: closures_ok_def)

lemma hook_step_keeps:
  assumes "hook_inv S rid n p h"
  shows "keeps_login S rid n p (hook_step S h x)"
proof (cases x)
  case (Login cd ad)
  then show ?thesis using isValidUser_keeps [OF assms] by simp
next
  case (Returns c r)
  obtain i cd ad where c: "c = (i, cd, ad)" by (cases c) auto
  let ?h = "h\<lparr>ha_posts := remove1 c (ha_posts h)\<rparr>"
  show ?thesis
  proof (cases "c \<in> set (ha_posts h)")
    case True
    have ok: "closures_ok S ?h" "readable S ad" "i < ha_requestId ?h"
      using assms closures_remove(1) closures_readable [of S h i cd ad] True c by (auto simp: hook_inv_def)
    have "keeps_login S rid n p (onPostResponse S c r ?h)"
    proof (cases "i = rid")
      case True
      then have "n = 0 \<and> returned S rid p ?h"
        using login_inv_post [of S rid n p h c] assms c \<open>c \<in> set (ha_posts h)\<close> by (simp add: hook_inv_def)
      then show ?thesis using response_keeps [OF _ ok(1,2)] c True by simp
    next
      case False
      then have "login_inv S rid n p ?h" using login_inv_drop(1) [of S rid n p h c] assms c by (simp add: hook_inv_def)
      from same_login_keeps [OF this other_response [OF False]] show ?thesis
        using closures_response [OF ok] c by (simp add: keeps_login_def hook_inv_def)
    qed
    then show ?thesis using Returns True by simp
  next
    case False
    then show ?thesis using Returns assms by (simp add: keeps_login_def)
  qed
next
  case (RetryFires c)
  obtain i cd ad where c: "c = (i, cd, ad)" by (cases c) auto
  let ?h = "h\<lparr>ha_timers := remove1 c (ha_timers h)\<rparr>"
  show ?thesis
  proof (cases "c \<in> set (ha_timers h)")
    case True
    have r: "readable S ad" "i < ha_requestId h"
      using assms closures_readable [of S h i cd ad] True c by (auto simp: hook_inv_def)
    have v: "hook_validate S i cd ad ?h = (?h\<lparr>ha_posts := ha_posts h @ [c]\<rparr>, [HaPost i cd ad (promoted S ad)])"
      using r(1) c by (auto simp: hook_validate_def readable_def)
    have "closures_ok S (fst (hook_validate S i cd ad ?h))"
      using closures_add [OF closures_remove(2) [of S h c], of c] assms r c v by (simp add: hook_inv_def)
    moreover have "login_inv S rid (n + answers rid (snd (hook_validate S i cd ad ?h)))
        (p + posts rid (snd (hook_validate S i cd ad ?h))) (fst (hook_validate S i cd ad ?h))"
    proof (cases "i = rid")
      case True
      then show ?thesis
        using login_inv_timer [of S rid n p h c] assms c \<open>c \<in> set (ha_timers h)\<close> r(1) v by (simp add: hook_inv_def)
    next
      case False
      then have "login_inv S rid n p ?h" using login_inv_drop(2) [of S rid n p h c] assms c by (simp add: hook_inv_def)
      from same_login_keeps [OF this other_validate [OF False]] show ?thesis .
    qed
    ultimately show ?thesis using RetryFires True c by (simp add: keeps_login_def hook_inv_def)
  next
    case False
    then show ?thesis using RetryFires assms by (simp add: keeps_login_def)
  qed
qed

lemma hook_run_inv: "hook_inv S rid n p h \<Longrightarrow> run (hook_step S) h xs = (h', es) \<Longrightarrow>
    hook_inv S rid (n + answers rid es) (p + posts rid es) h'"
proof (induction xs arbitrary: n p h es)
  case (Cons x xs)
  obtain h1 e1 where 1: "hook_step S h x = (h1, e1)" by fastforce
  obtain h2 e2 where 2: "run (hook_step S) h1 xs = (h2, e2)" by fastforce
  have "hook_inv S rid (n + answers rid e1) (p + posts rid e1) h1"
    using hook_step_keeps [OF Cons.prems(1), of x] 1 by (simp add: keeps_login_def)
  from Cons.IH [OF this, of e2] show ?case using Cons.prems(2) 1 2 by (auto simp: add.assoc)
qed simp

lemma new_hook_inv: "hook_inv S rid 0 0 new_hook"
  by (simp add: hook_inv_def closures_ok_def login_inv_def new_hook_def)

lemma hook_reaches:
  "run (hook_step S) new_hook xs = (h, es) \<Longrightarrow> login_inv S rid (answers rid es) (posts rid es) h"
  using hook_run_inv [OF new_hook_inv, of S xs h es rid] by (simp add: hook_inv_def)

section \<open>Properties\<close>

text \<open>Over all histories of logins, responses and timers, each login is answered at most once, and as long as
  it is not, a request or a retry timer of it is under way; one that was answered leaves nothing behind.\<close>

theorem hook_answers_once:
  assumes "run (hook_step S) new_hook xs = (h, es)" "rid < ha_requestId h"
  shows "(if answers rid es = 0 then length (open_for rid (ha_posts h)) + length (open_for rid (ha_timers h)) = 1
          else answers rid es = 1 \<and> open_for rid (ha_posts h) = [] \<and> open_for rid (ha_timers h) = [] \<and>
            js_get (ha_attempts h) rid = None)"
  using hook_reaches [OF assms(1), of rid] assms(2) by (auto simp: login_inv_def Let_def)

text \<open>A login makes at most one request more than the retries that are configured.\<close>

theorem hook_requests_bounded:
  assumes "run (hook_step S) new_hook xs = (h, es)"
  shows "int (posts rid es) \<le> max 0 (ks_retryAttempts S) + 1"
  using hook_reaches [OF assms, of rid] by (auto simp: login_inv_def limit_def Let_def)

lemma js_get_spread: "js_get (foldl (\<lambda>r (k, x). js_set k x r) m fs) k = (case map_of (rev fs) k of None \<Rightarrow> js_get m k | Some v \<Rightarrow> Some v)"
proof (induction fs rule: rev_induct)
  case (snoc f fs)
  then show ?case by (cases f) (simp add: js_get_set)
qed simp

text \<open>What a body says about \<open>isValid\<close>; the last of equal keys counts.\<close>

definition body_says :: "json option \<Rightarrow> json option" where
  "body_says body = (case body of
     Some (JObj fs) \<Rightarrow> map_of (rev fs) ''isValid'' | Some (JArr fs) \<Rightarrow> map_of (rev fs) ''isValid'' | _ \<Rightarrow> None)"

text \<open>The web hook lets a user in only with a permitted status code, and the body has the last word: with an
  \<open>isValid\<close> of its own that is not true the login fails although the code permits it.\<close>

theorem hook_allows_iff:
  "allowed (response_verdict S statusCode body) \<longleftrightarrow>
     statusCode \<in> set (ks_permitted S) \<and> body_says body \<in> {None, Some (JBool True)}"
proof (cases "statusCode \<in> set (ks_permitted S)")
  case False
  then show ?thesis
    by (simp add: response_verdict_def unless_silent_def allowed_def refused_def refused_because_def
        split: option.splits json.splits)
next
  case True
  then show ?thesis
    by (simp add: response_verdict_def allowed_def spread_def body_says_def js_get_spread split: option.splits json.splits)
qed

section \<open>Examples\<close>

definition sample_hook :: hook_settings where
  "sample_hook = \<lparr>ks_promoteToHeader = [], ks_permitted = [200], ks_retryCodes = [503], ks_retryAttempts = 1,
     ks_report = Some (JBool True)\<rparr>"

definition sample_logins :: "hook_input list" where
  "sample_logins = [Login JNull (JObj []), Returns (0, JNull, JObj []) PostError, RetryFires (0, JNull, JObj []),
     Returns (0, JNull, JObj []) (PostResponse 503 None)]"

lemma sample_run:
  "run (hook_step sample_hook) new_hook sample_logins =
     (new_hook\<lparr>ha_requestId := 1\<rparr>,
      [HaPost 0 JNull (JObj []) [], HaTimer 0, HaPost 0 JNull (JObj []) [],
       HaCallback 0 (Opinion (refused_because ''AUTH_RETRY_ATTEMPTS_EXCEEDED''))])"
  by (simp add: sample_logins_def sample_hook_def new_hook_def hook_isValidUser_def hook_validate_def onPostResponse_def
      hook_retry_def ends_with_def promoted_def)

theorem hook_answers_once_witness:
  "answers 0 (snd (run (hook_step sample_hook) new_hook sample_logins)) = 1"
  using hook_answers_once [OF sample_run, of 0] unfolding sample_run by (simp add: new_hook_def)

theorem hook_requests_bounded_witness:
  "posts 0 (snd (run (hook_step sample_hook) new_hook sample_logins)) \<le> 2"
  using hook_requests_bounded [OF sample_run, of 0] unfolding sample_run by (simp add: sample_hook_def)

end
