(* ===== verification/Traces.thy ===== *)
theory Traces
  imports Prelude
begin

text \<open>
  Systems that take inputs and have effects, and what holds of them, of the inputs they took and of the
  effects they had.
\<close>

locale traced_system =
  fixes step :: "'s \<Rightarrow> 'i \<Rightarrow> 's \<times> 'e list"
    and start :: 's
    and inv :: "'i list \<Rightarrow> 'e list \<Rightarrow> 's \<Rightarrow> bool"
  assumes inv_start: "inv [] [] start"
    and inv_step: "inv xs es s \<Longrightarrow> step s x = (t, e) \<Longrightarrow> inv (xs @ [x]) (es @ e) t"
begin

lemma inv_run: "inv xs es s \<Longrightarrow> run step s ys = (t, e) \<Longrightarrow> inv (xs @ ys) (es @ e) t"
proof (induction ys arbitrary: xs es s e)
  case (Cons y ys)
  obtain s1 e1 where 1: "step s y = (s1, e1)" by fastforce
  obtain e2 where 2: "run step s1 ys = (t, e2)" and e: "e = e1 @ e2"
    using Cons.prems(2) 1 by (auto simp: Let_def split: prod.splits)
  from Cons.IH [OF inv_step [OF Cons.prems(1) 1] 2] show ?case using e by simp
qed simp

lemma inv_trace: "run step start xs = (s, es) \<Longrightarrow> inv xs es s"
  using inv_run [OF inv_start] by simp

lemma inv_reached: "inv xs (snd (run step start xs)) (fst (run step start xs))"
  by (rule inv_trace) simp

end

end
