(* ===== verification/Startup.thy ===== *)
theory Startup
  imports Traces TextConstants JsObject
begin

text \<open>
  The server object (\<open>src/deepstream.io.ts\<close>): its state machine, what each stage of the start and of the stop
  does and waits for, the options that may be set, and the class that waits for one dependency
  (\<open>src/utils/dependency-initialiser.ts\<close>). When a promise settles is an input. What listens to the emitted events
  is not part of the model, and a fatal error is reported but, as with \<open>exitOnFatalError: false\<close>, does not end
  the process.
\<close>

section \<open>Services, plugins and endpoints\<close>

text \<open>
  What is held under a name: its own data, which of the methods looked for it has, and the objects held in
  it, by name, for the plugins and the endpoints (an array, by index). What is set for these two is
  taken to be of this shape.
\<close>

record methods =
  m_whenReady :: bool
  m_init :: bool
  m_close :: bool
  m_listener :: bool             \<comment> \<open>\<open>onClientConnected\<close> and \<open>onClientDisconnected\<close>\<close>
  m_setListener :: bool          \<comment> \<open>\<open>setConnectionListener\<close>\<close>
  m_setRecordHandler :: bool

definition no_methods :: methods where
  "no_methods = \<lparr>m_whenReady = False, m_init = False, m_close = False, m_listener = False,
     m_setListener = False, m_setRecordHandler = False\<rparr>"

record held =
  hv_json :: json
  hv_methods :: methods
  hv_members :: "(string \<times> methods) list"

definition plain :: "json \<Rightarrow> held" where
  "plain j = \<lparr>hv_json = j, hv_methods = no_methods, hv_members = []\<rparr>"

text \<open>\<open>CombineAuthentication\<close> and \<open>MessageDistributor\<close>: the one is a plugin, the other is not.\<close>

definition plugin_methods :: methods where
  "plugin_methods = no_methods\<lparr>m_whenReady := True, m_close := True\<rparr>"

definition combine_authentication :: held where
  "combine_authentication = (plain (JObj []))\<lparr>hv_methods := plugin_methods\<rparr>"

type_synonym services = "(string, held) jsmap"

text \<open>The object under a name, when its methods can be looked up: not \<open>undefined\<close> and not \<open>null\<close>.\<close>

definition service_methods :: "services \<Rightarrow> string \<Rightarrow> methods option" where
  "service_methods sv k = (case js_get sv k of
     Some h \<Rightarrow> if hv_json h = JNull then None else Some (hv_methods h)
   | None \<Rightarrow> None)"

definition members :: "services \<Rightarrow> string \<Rightarrow> (string \<times> methods) list option" where
  "members sv k = (case js_get sv k of
     Some h \<Rightarrow> if hv_json h = JNull then None else Some (hv_members h)
   | None \<Rightarrow> None)"

section \<open>The server\<close>

datatype states =
    STOPPED | CONFIG_LOADED | LOGGER_INIT | SERVICE_INIT | HANDLER_INIT | PLUGIN_INIT
  | CONNECTION_ENDPOINT_INIT | RUNNING
  | CONNECTION_ENDPOINT_SHUTDOWN | PLUGIN_SHUTDOWN | HANDLER_SHUTDOWN | SERVICE_SHUTDOWN | LOGGER_SHUTDOWN

datatype handler =
    H_configLoaded | H_loggerInit | H_serviceInit | H_handlerInit | H_pluginsInit | H_connectionEndpointInit
  | H_run | H_connectionEndpointShutdown | H_pluginsShutdown | H_handlerShutdown | H_serviceShutdown
  | H_loggerShutdown | H_stopped

definition transitions :: "(string \<times> states \<times> states \<times> handler) list" where
  "transitions = [
     (''loading-config'', STOPPED, CONFIG_LOADED, H_configLoaded),
     (''start'', CONFIG_LOADED, LOGGER_INIT, H_loggerInit),
     (''logger-started'', LOGGER_INIT, SERVICE_INIT, H_serviceInit),
     (''services-started'', SERVICE_INIT, HANDLER_INIT, H_handlerInit),
     (''handlers-started'', HANDLER_INIT, PLUGIN_INIT, H_pluginsInit),
     (''plugins-started'', PLUGIN_INIT, CONNECTION_ENDPOINT_INIT, H_connectionEndpointInit),
     (''connection-endpoints-started'', CONNECTION_ENDPOINT_INIT, RUNNING, H_run),
     (''stop'', LOGGER_INIT, LOGGER_SHUTDOWN, H_loggerShutdown),
     (''stop'', SERVICE_INIT, SERVICE_SHUTDOWN, H_serviceShutdown),
     (''stop'', CONNECTION_ENDPOINT_INIT, CONNECTION_ENDPOINT_SHUTDOWN, H_connectionEndpointShutdown),
     (''stop'', PLUGIN_INIT, PLUGIN_SHUTDOWN, H_pluginsShutdown),
     (''stop'', RUNNING, CONNECTION_ENDPOINT_SHUTDOWN, H_connectionEndpointShutdown),
     (''connection-endpoints-closed'', CONNECTION_ENDPOINT_SHUTDOWN, PLUGIN_SHUTDOWN, H_pluginsShutdown),
     (''plugins-closed'', PLUGIN_SHUTDOWN, HANDLER_SHUTDOWN, H_handlerShutdown),
     (''handlers-closed'', HANDLER_SHUTDOWN, SERVICE_SHUTDOWN, H_serviceShutdown),
     (''services-closed'', SERVICE_SHUTDOWN, LOGGER_SHUTDOWN, H_loggerShutdown),
     (''logger-closed'', LOGGER_SHUTDOWN, STOPPED, H_stopped)]"

fun find_transition :: "string \<Rightarrow> states \<Rightarrow> (string \<times> states \<times> states \<times> handler) list \<Rightarrow> (states \<times> handler) option" where
  "find_transition name st [] = None"
| "find_transition name st ((n, from, to, h) # ts) =
     (if name = n \<and> st = from then Some (to, h) else find_transition name st ts)"

record initialiser =
  di_name :: string
  di_isReady :: bool
  di_timeout :: bool             \<comment> \<open>the timer runs\<close>
  di_pending :: bool             \<comment> \<open>the promise of \<open>whenReady\<close> has not settled\<close>

text \<open>What an asynchronous function waits for, and the transition it makes then.\<close>

datatype task =
    Starting string "initialiser list"
  | Stopping string "bool list"           \<comment> \<open>which of the promises of \<open>close\<close> are fulfilled\<close>
  | ClosingHandler "string list"          \<comment> \<open>the features that follow\<close>

datatype listener = PresenceListener | PluginListener string

record server =
  ds_currentState :: states
  ds_loading :: bool
  ds_startWhenLoaded :: bool
  ds_overrideSettings :: "(string \<times> held) list"
  ds_config :: json
  ds_services :: services
  ds_handlers :: "string list"
  ds_listeners :: "listener jsset"
  ds_tasks :: "task list"

definition new_server :: server where
  "new_server = \<lparr>ds_currentState = STOPPED, ds_loading = True, ds_startWhenLoaded = False,
     ds_overrideSettings = [], ds_config = JObj [], ds_services = [], ds_handlers = [], ds_listeners = [],
     ds_tasks = []\<rparr>"

datatype server_error =
    InvalidTransition string states | AlreadyStopped | StorageExclusionReplaced | AuthReplaced
  | UnknownOption string | TypeErr | CloseRejected | LoadRejected

datatype dependency = TheLogger | TheService string | ThePlugin string | TheEndpoint nat | TheHandler string

datatype effect =
    Throws server_error
  | Rejects server_error         \<comment> \<open>a promise nobody waits for is rejected\<close>
  | StateChanged states
  | EmitStarted
  | EmitStopped
  | NeedsWhenReady string
  | NotInTime string
  | NotifyFatal
  | CallsInit string nat
  | CallsWhenReady string nat     \<comment> \<open>the transition of the stage, and the place in it\<close>
  | RegistersTopic string
  | SetsRecordHandler
  | SetsConnectionListener nat
  | Closes dependency
  | InformsConnected listener
  | InformsDisconnected listener
  | CurrentlyShuttingDown

section \<open>Waiting for a dependency\<close>

text \<open>The constructor; the stage and the place in it say which one it is.\<close>

definition new_initialiser :: "string \<Rightarrow> nat \<Rightarrow> string \<Rightarrow> methods \<Rightarrow> initialiser \<times> effect list" where
  "new_initialiser stage i name m =
     (if \<not> m_whenReady m
      then (\<lparr>di_name = name, di_isReady = False, di_timeout = False, di_pending = False\<rparr>, [NeedsWhenReady name, NotifyFatal])
      else (\<lparr>di_name = name, di_isReady = False, di_timeout = True, di_pending = True\<rparr>,
            (if m_init m then [CallsInit stage i] else []) @ [CallsWhenReady stage i]))"

definition onReady :: "initialiser \<Rightarrow> initialiser" where
  "onReady d = d\<lparr>di_pending := False, di_timeout := False, di_isReady := True\<rparr>"

definition onTimeout :: "initialiser \<Rightarrow> initialiser \<times> effect list" where
  "onTimeout d =
     (d\<lparr>di_timeout := False\<rparr>, (if di_name d = ''logger'' then [NotifyFatal] else []) @ [NotInTime (di_name d)])"

text \<open>A stage constructs the initialisers of its members in order.\<close>

fun initialise_all :: "string \<Rightarrow> nat \<Rightarrow> (string \<times> methods) list \<Rightarrow> initialiser list \<times> effect list" where
  "initialise_all stage i [] = ([], [])"
| "initialise_all stage i ((name, m) # ms) =
     (let (d, e) = new_initialiser stage i name m;
          (ds, es) = initialise_all stage (Suc i) ms
      in (d # ds, e @ es))"

section \<open>Options\<close>

text \<open>
  \<open>set\<close>: before the configuration is loaded the option is kept for later. \<open>this.services[key]\<close> also finds what
  every object has. The last component is what is thrown.
\<close>

definition set_option ::
  "(string \<Rightarrow> string) \<Rightarrow> string \<Rightarrow> held \<Rightarrow> server \<Rightarrow> server \<times> server_error option" where
  "set_option num key v s =
     (if ds_currentState s = STOPPED
      then (s\<lparr>ds_overrideSettings := ds_overrideSettings s @ [(key, v)]\<rparr>, None)
      else if key = ''storageExclusion'' then (s, Some StorageExclusionReplaced)
      else if key = ''auth'' then (s, Some AuthReplaced)
      else if key = ''authentication''
      then (s\<lparr>ds_services := js_set key combine_authentication (ds_services s)\<rparr>, None)
      else if js_has (ds_services s) key \<or> key \<in> set object_prototype
      then (s\<lparr>ds_services := js_set key v (ds_services s)\<rparr>, None)
      else case getValue num (ds_config s) key of
          Inr (Some _) \<Rightarrow>
            (case setValue num (ds_config s) key (Some (hv_json v)) of
               Inr config \<Rightarrow> (s\<lparr>ds_config := config\<rparr>, None)
             | Inl _ \<Rightarrow> (s, Some TypeErr))
        | Inr None \<Rightarrow> (s, Some (UnknownOption key))
        | Inl _ \<Rightarrow> (s, Some TypeErr))"

text \<open>\<open>overrideSettings.forEach\<close>: the first that is refused ends it.\<close>

fun apply_settings ::
  "(string \<Rightarrow> string) \<Rightarrow> (string \<times> held) list \<Rightarrow> server \<Rightarrow> server \<times> server_error option" where
  "apply_settings num [] s = (s, None)"
| "apply_settings num ((key, v) # kvs) s =
     (case set_option num key v s of
        (s', Some e) \<Rightarrow> (s', Some e)
      | (s', None) \<Rightarrow> apply_settings num kvs s')"

section \<open>The stages\<close>

text \<open>A stage ends, or goes on to a transition at once, or throws.\<close>

datatype stage_end = Waits | Then string | Throwing server_error

type_synonym stage = "server \<Rightarrow> server \<times> effect list \<times> stage_end"

definition await :: "task \<Rightarrow> server \<Rightarrow> server" where
  "await t s = s\<lparr>ds_tasks := ds_tasks s @ [t]\<rparr>"

definition configLoaded :: "(string \<Rightarrow> string) \<Rightarrow> stage" where
  "configLoaded num s =
     (if \<not> ds_startWhenLoaded s then (s, [], Waits)
      else case apply_settings num (ds_overrideSettings s) s of
          (s', Some e) \<Rightarrow> (s', [], Throwing e)
        | (s', None) \<Rightarrow> (s', [], Then ''start''))"

definition loggerInit :: stage where
  "loggerInit s =
     (case service_methods (ds_services s) ''logger'' of
        None \<Rightarrow> (s, [], Throwing TypeErr)
      | Some m \<Rightarrow>
          (let (d, e) = new_initialiser ''logger-started'' 0 ''logger'' m
           in (await (Starting ''logger-started'' [d]) s, e, Waits)))"

definition not_initialised :: "string list" where
  "not_initialised = [''connectionEndpoints'', ''plugins'', ''notifyFatalException'', ''logger'']"

definition serviceInit :: stage where
  "serviceInit s =
     (let names = filter (\<lambda>k. k \<notin> set not_initialised) (js_keys (ds_services s));
          found = takeWhile (\<lambda>k. service_methods (ds_services s) k \<noteq> None) names;
          (ds, e) = initialise_all ''services-started'' 0 (map (\<lambda>k. (k, the (service_methods (ds_services s) k))) found)
      in if found = names then (await (Starting ''services-started'' ds) s, e, Waits)
         else (s, e, Throwing TypeErr))"

text \<open>When all are ready the message distributor becomes one of the services.\<close>

definition servicesReady :: "server \<Rightarrow> server" where
  "servicesReady s = s\<lparr>ds_services := js_set ''messageDistributor'' (plain (JObj [])) (ds_services s)\<rparr>"

definition features :: "string list" where
  "features = [''event'', ''rpc'', ''record'', ''presence'', ''monitoring'']"

text \<open>\<open>config.enabledFeatures[f]\<close>, or \<open>None\<close> where reading it throws.\<close>

definition feature_enabled :: "server \<Rightarrow> string \<Rightarrow> bool option" where
  "feature_enabled s f =
     (case property (ds_config s) ''enabledFeatures'' of
        Some v \<Rightarrow> if v = JNull then None else Some (truthy (property v f))
      | None \<Rightarrow> None)"

fun register_features :: "string list \<Rightarrow> server \<Rightarrow> server \<times> effect list \<times> bool" where
  "register_features [] s = (s, [], True)"
| "register_features (f # fs) s =
     (case feature_enabled s f of
        None \<Rightarrow> (s, [], False)
      | Some False \<Rightarrow> register_features fs s
      | Some True \<Rightarrow>
          (let (s', e, ok) = register_features fs
                 (s\<lparr>ds_handlers := ds_handlers s @ [f],
                    ds_listeners := (if f = ''presence'' then set_add PresenceListener (ds_listeners s) else ds_listeners s)\<rparr>)
           in (s', RegistersTopic f # e, ok)))"

definition handlerInit :: stage where
  "handlerInit s =
     (case register_features features s of
        (s', e, False) \<Rightarrow> (s', e, Throwing TypeErr)
      | (s', e, True) \<Rightarrow>
          (case service_methods (ds_services s') ''permission'' of
             None \<Rightarrow> (s', e, Throwing TypeErr)
           | Some m \<Rightarrow> (s', e @ (if m_setRecordHandler m then [SetsRecordHandler] else []), Then ''handlers-started'')))"

definition pluginsInit :: stage where
  "pluginsInit s =
     (case members (ds_services s) ''plugins'' of
        None \<Rightarrow> (s, [], Throwing TypeErr)
      | Some ps \<Rightarrow>
          (let (ds, e) = initialise_all ''plugins-started'' 0 ps;
               ls = foldl (\<lambda>l (name, m). if m_listener m then set_add (PluginListener name) l else l) (ds_listeners s) ps
           in (await (Starting ''plugins-started'' ds) (s\<lparr>ds_listeners := ls\<rparr>), e, Waits)))"

text \<open>An endpoint is told to start before it is given its listener.\<close>

fun start_endpoints :: "nat \<Rightarrow> (string \<times> methods) list \<Rightarrow> initialiser list \<times> effect list" where
  "start_endpoints i [] = ([], [])"
| "start_endpoints i ((_, m) # ms) =
     (let (d, e) = new_initialiser ''connection-endpoints-started'' i ''connectionEndpoint'' m;
          (ds, es) = start_endpoints (Suc i) ms
      in (d # ds, e @ (if m_setListener m then [SetsConnectionListener i] else []) @ es))"

definition connectionEndpointInit :: stage where
  "connectionEndpointInit s =
     (case members (ds_services s) ''connectionEndpoints'' of
        None \<Rightarrow> (s, [], Throwing TypeErr)
      | Some ms \<Rightarrow>
          (let (ds, e) = start_endpoints 0 ms
           in (await (Starting ''connection-endpoints-started'' ds) s, e, Waits)))"

text \<open>\<open>endpoints.map((endpoint) => endpoint.close())\<close>: one without the method throws.\<close>

definition connectionEndpointShutdown :: stage where
  "connectionEndpointShutdown s =
     (case members (ds_services s) ''connectionEndpoints'' of
        None \<Rightarrow> (s, [], Throwing TypeErr)
      | Some ms \<Rightarrow>
          (let closed = takeWhile (\<lambda>(_, m). m_close m) ms;
               e = map (\<lambda>i. Closes (TheEndpoint i)) [0..<length closed]
           in if closed = ms
              then (await (Stopping ''connection-endpoints-closed'' (replicate (length ms) False)) s, e, Waits)
              else (s, e, Throwing TypeErr)))"

definition pluginsShutdown :: stage where
  "pluginsShutdown s =
     (case members (ds_services s) ''plugins'' of
        None \<Rightarrow> (s, [], Throwing TypeErr)
      | Some ps \<Rightarrow>
          (let closing = filter (\<lambda>(_, m). m_close m) ps
           in (await (Stopping ''plugins-closed'' (replicate (length closing) False)) s,
               map (\<lambda>(k, _). Closes (ThePlugin k)) closing, Waits)))"

text \<open>The handlers are closed one after the other; whether a feature is enabled is asked anew.\<close>

fun close_handlers :: "string list \<Rightarrow> stage" where
  "close_handlers [] s = (s, [], Then ''handlers-closed'')"
| "close_handlers (f # fs) s =
     (case feature_enabled s f of
        None \<Rightarrow> (s, [], Throwing TypeErr)
      | Some False \<Rightarrow> close_handlers fs s
      | Some True \<Rightarrow>
          if f \<in> set (ds_handlers s) then (await (ClosingHandler fs) s, [Closes (TheHandler f)], Waits)
          else (s, [], Throwing TypeErr))"

text \<open>Every service is looked at, the logger too.\<close>

definition serviceShutdown :: stage where
  "serviceShutdown s =
     (let names = js_keys (ds_services s);
          found = takeWhile (\<lambda>k. service_methods (ds_services s) k \<noteq> None) names;
          closing = filter (\<lambda>k. m_close (the (service_methods (ds_services s) k))) found;
          e = map (\<lambda>k. Closes (TheService k)) closing
      in if found = names then (await (Stopping ''services-closed'' (replicate (length closing) False)) s, e, Waits)
         else (s, e, Throwing TypeErr))"

definition loggerShutdown :: stage where
  "loggerShutdown s =
     (case service_methods (ds_services s) ''logger'' of
        None \<Rightarrow> (s, [], Throwing TypeErr)
      | Some m \<Rightarrow>
          if m_close m then (await (Stopping ''logger-closed'' [False]) s, [Closes TheLogger], Waits)
          else (s, [], Throwing TypeErr))"

text \<open>\<open>run\<close> and \<open>stopped\<close> emit an event.\<close>

fun call_handler :: "(string \<Rightarrow> string) \<Rightarrow> handler \<Rightarrow> stage" where
  "call_handler num H_configLoaded s = configLoaded num s"
| "call_handler num H_loggerInit s = loggerInit s"
| "call_handler num H_serviceInit s = serviceInit s"
| "call_handler num H_handlerInit s = handlerInit s"
| "call_handler num H_pluginsInit s = pluginsInit s"
| "call_handler num H_connectionEndpointInit s = connectionEndpointInit s"
| "call_handler num H_run s = (s, [EmitStarted], Waits)"
| "call_handler num H_connectionEndpointShutdown s = connectionEndpointShutdown s"
| "call_handler num H_pluginsShutdown s = pluginsShutdown s"
| "call_handler num H_handlerShutdown s = close_handlers features s"
| "call_handler num H_serviceShutdown s = serviceShutdown s"
| "call_handler num H_loggerShutdown s = loggerShutdown s"
| "call_handler num H_stopped s = (s, [EmitStopped], Waits)"

text \<open>An \<open>async\<close> handler turns what it throws into a rejected promise.\<close>

fun is_async :: "handler \<Rightarrow> bool" where
  "is_async H_configLoaded = False"
| "is_async H_run = False"
| "is_async H_stopped = False"
| "is_async h = True"

section \<open>Transitions\<close>

lemma find_transition_in:
  "find_transition name st ts = Some (to, h) \<Longrightarrow> (name, st, to, h) \<in> set ts"
  by (induction ts) (auto split: if_splits)

lemma set_option_frame:
  "set_option num key v s = (s', e) \<Longrightarrow> ds_currentState s' = ds_currentState s \<and> ds_loading s' = ds_loading s \<and>
     ds_tasks s' = ds_tasks s \<and> ds_startWhenLoaded s' = ds_startWhenLoaded s \<and> ds_handlers s' = ds_handlers s"
  by (auto simp: set_option_def split: if_splits sum.splits option.splits)

lemma apply_settings_frame:
  "apply_settings num kvs s = (s', e) \<Longrightarrow> ds_currentState s' = ds_currentState s \<and> ds_loading s' = ds_loading s \<and>
     ds_tasks s' = ds_tasks s \<and> ds_startWhenLoaded s' = ds_startWhenLoaded s \<and> ds_handlers s' = ds_handlers s"
proof (induction kvs arbitrary: s)
  case (Cons kv kvs)
  obtain key v s1 e1 where kv: "kv = (key, v)" and 1: "set_option num key v s = (s1, e1)" by (cases kv) fastforce
  then show ?case using Cons set_option_frame [OF 1] by (auto split: option.splits)
qed simp

lemma register_features_frame:
  "register_features fs s = (s', e, ok) \<Longrightarrow> ds_currentState s' = ds_currentState s \<and> ds_loading s' = ds_loading s \<and>
     ds_tasks s' = ds_tasks s \<and> ds_services s' = ds_services s \<and> ds_config s' = ds_config s"
proof (induction fs arbitrary: s e)
  case (Cons f fs)
  show ?case
  proof (cases "feature_enabled s f = Some True")
    case True
    let ?s = "s\<lparr>ds_handlers := ds_handlers s @ [f],
      ds_listeners := (if f = ''presence'' then set_add PresenceListener (ds_listeners s) else ds_listeners s)\<rparr>"
    obtain e1 where "register_features fs ?s = (s', e1, ok)"
      using Cons.prems True by (auto simp: Let_def split_beta prod_eq_iff)
    from Cons.IH [OF this] show ?thesis by simp
  next
    case False
    then show ?thesis using Cons by (auto split: option.splits bool.splits)
  qed
qed simp

text \<open>What a stage leaves alone, and the one task it may add.\<close>

fun task_of :: "handler \<Rightarrow> task \<Rightarrow> bool" where
  "task_of H_loggerInit (Starting n _) = (n = ''logger-started'')"
| "task_of H_serviceInit (Starting n _) = (n = ''services-started'')"
| "task_of H_pluginsInit (Starting n _) = (n = ''plugins-started'')"
| "task_of H_connectionEndpointInit (Starting n _) = (n = ''connection-endpoints-started'')"
| "task_of H_connectionEndpointShutdown (Stopping n _) = (n = ''connection-endpoints-closed'')"
| "task_of H_pluginsShutdown (Stopping n _) = (n = ''plugins-closed'')"
| "task_of H_handlerShutdown (ClosingHandler _) = True"
| "task_of H_serviceShutdown (Stopping n _) = (n = ''services-closed'')"
| "task_of H_loggerShutdown (Stopping n _) = (n = ''logger-closed'')"
| "task_of _ _ = False"

fun next_of :: "handler \<Rightarrow> string option" where
  "next_of H_configLoaded = Some ''start''"
| "next_of H_handlerInit = Some ''handlers-started''"
| "next_of H_handlerShutdown = Some ''handlers-closed''"
| "next_of _ = None"

lemma close_handlers_end:
  "close_handlers fs s = (s', e, r) \<Longrightarrow>
     ds_currentState s' = ds_currentState s \<and> ds_loading s' = ds_loading s \<and> ds_services s' = ds_services s \<and>
     (case r of Waits \<Rightarrow> \<exists>gs. ds_tasks s' = ds_tasks s @ [ClosingHandler gs] \<and> length gs < length fs
      | Then n \<Rightarrow> ds_tasks s' = ds_tasks s \<and> n = ''handlers-closed'' | Throwing _ \<Rightarrow> ds_tasks s' = ds_tasks s)"
proof (induction fs arbitrary: s)
  case (Cons f fs)
  show ?case
  proof (cases "feature_enabled s f")
    case (Some b)
    show ?thesis
    proof (cases b)
      case True
      then show ?thesis using Cons.prems Some by (auto simp: await_def split: if_splits)
    next
      case False
      then have "close_handlers fs s = (s', e, r)" using Cons.prems Some by simp
      from Cons.IH [OF this] show ?thesis by (auto split: stage_end.splits)
    qed
  qed (use Cons.prems in auto)
qed auto

lemma call_handler_end:
  assumes "call_handler num h s = (s', e, r)"
  shows "ds_currentState s' = ds_currentState s \<and> ds_loading s' = ds_loading s \<and>
    (case r of Waits \<Rightarrow> ds_tasks s' = ds_tasks s \<or> (\<exists>t. task_of h t \<and> ds_tasks s' = ds_tasks s @ [t])
     | Then n \<Rightarrow> ds_tasks s' = ds_tasks s \<and> next_of h = Some n | Throwing _ \<Rightarrow> ds_tasks s' = ds_tasks s)"
proof (cases h)
  case H_configLoaded
  then show ?thesis
    using assms by (auto simp: configLoaded_def split: if_splits prod.splits option.splits dest!: apply_settings_frame)
next
  case H_handlerInit
  then show ?thesis
    using assms by (auto simp: handlerInit_def split: if_splits prod.splits option.splits bool.splits dest!: register_features_frame)
next
  case H_handlerShutdown
  then have "close_handlers features s = (s', e, r)" using assms by simp
  from close_handlers_end [OF this] show ?thesis
    using H_handlerShutdown by (cases r) auto
qed (use assms in \<open>auto simp: loggerInit_def serviceInit_def pluginsInit_def connectionEndpointInit_def
    connectionEndpointShutdown_def pluginsShutdown_def serviceShutdown_def loggerShutdown_def await_def Let_def
    split: if_splits prod.splits option.splits\<close>)

text \<open>
  \<open>transition\<close>: the first entry of the table that fits. A handler may make the next transition itself; the
  event is emitted afterwards, with the state that has been reached then.
\<close>

fun chain :: "states \<Rightarrow> nat" where
  "chain STOPPED = 1"
| "chain SERVICE_INIT = 1"
| "chain PLUGIN_SHUTDOWN = 1"
| "chain _ = 0"

lemma chained:
  assumes "find_transition name st transitions = Some (to, h)" "next_of h = Some n"
  shows "chain to < chain st"
  using find_transition_in [OF assms(1)] assms(2) by (auto simp: transitions_def)

function transition :: "(string \<Rightarrow> string) \<Rightarrow> string \<Rightarrow> server \<Rightarrow> server \<times> effect list \<times> server_error option" where
  "transition num name s =
     (case find_transition name (ds_currentState s) transitions of
        None \<Rightarrow> (s, [], Some (InvalidTransition name (ds_currentState s)))
      | Some (to, h) \<Rightarrow>
          (case call_handler num h (s\<lparr>ds_currentState := to\<rparr>) of
             (s1, e1, Waits) \<Rightarrow> (s1, e1 @ [StateChanged (ds_currentState s1)], None)
           | (s1, e1, Throwing x) \<Rightarrow>
               if is_async h then (s1, e1 @ [Rejects x, StateChanged (ds_currentState s1)], None)
               else (s1, e1, Some x)
           | (s1, e1, Then following) \<Rightarrow>
               (case transition num following s1 of
                  (s2, e2, None) \<Rightarrow> (s2, e1 @ e2 @ [StateChanged (ds_currentState s2)], None)
                | (s2, e2, Some x) \<Rightarrow>
                    if is_async h then (s2, e1 @ e2 @ [Rejects x, StateChanged (ds_currentState s2)], None)
                    else (s2, e1 @ e2, Some x))))"
  by pat_completeness auto

termination
proof (relation "measure (\<lambda>(num, name, s). chain (ds_currentState s))")
  fix num name s x2 to h s1 p e1 q following
  assume f: "find_transition name (ds_currentState s) transitions = Some x2" "(to, h) = x2"
    and c: "(s1, p) = call_handler num h (s\<lparr>ds_currentState := to\<rparr>)" "(e1, q) = p" "q = Then following"
  have "call_handler num h (s\<lparr>ds_currentState := to\<rparr>) = (s1, e1, Then following)" using c by simp
  from call_handler_end [OF this] have "next_of h = Some following" "ds_currentState s1 = to" by simp_all
  then show "((num, following, s1), num, name, s) \<in> measure (\<lambda>(num, name, s). chain (ds_currentState s))"
    using chained [of name "ds_currentState s" to h following] f by auto
qed simp

declare transition.simps [simp del]

section \<open>What happens to the server\<close>

datatype input =
    ConfigLoads json services
  | LoadFails
  | CallsStart
  | CallsStop
  | CallsSet string held
  | DependencyReady string nat
  | DependencyTimesOut string nat
  | CloseDone string nat
  | HandlerClosed
  | CloseFails string             \<comment> \<open>a promise of \<open>close\<close> of this stage is rejected\<close>
  | Resumes string                \<comment> \<open>all a stage waits for is there, and it goes on\<close>
  | ClientConnects
  | ClientDisconnects

definition transition_async :: "(string \<Rightarrow> string) \<Rightarrow> string \<Rightarrow> server \<Rightarrow> server \<times> effect list" where
  "transition_async num name s =
     (case transition num name s of
        (s', e, None) \<Rightarrow> (s', e)
      | (s', e, Some x) \<Rightarrow> (s', e @ [Rejects x]))"

definition transition_sync :: "(string \<Rightarrow> string) \<Rightarrow> string \<Rightarrow> server \<Rightarrow> server \<times> effect list" where
  "transition_sync num name s =
     (case transition num name s of
        (s', e, None) \<Rightarrow> (s', e)
      | (s', e, Some x) \<Rightarrow> (s', e @ [Throws x]))"

definition start :: "(string \<Rightarrow> string) \<Rightarrow> server \<Rightarrow> server \<times> effect list" where
  "start num s =
     (if ds_currentState s \<noteq> CONFIG_LOADED then (s\<lparr>ds_startWhenLoaded := True\<rparr>, [])
      else transition_sync num ''start'' s)"

definition stop :: "(string \<Rightarrow> string) \<Rightarrow> server \<Rightarrow> server \<times> effect list" where
  "stop num s =
     (if ds_currentState s = STOPPED then (s, [Throws AlreadyStopped])
      else if ds_currentState s \<in> {CONNECTION_ENDPOINT_SHUTDOWN, SERVICE_SHUTDOWN, PLUGIN_SHUTDOWN, LOGGER_SHUTDOWN}
      then (s, [CurrentlyShuttingDown])
      else transition_sync num ''stop'' s)"

text \<open>The first element that fits is changed, or removed.\<close>

fun change_first :: "('a \<Rightarrow> 'a option) \<Rightarrow> 'a list \<Rightarrow> 'a list" where
  "change_first f [] = []"
| "change_first f (x # xs) = (case f x of Some y \<Rightarrow> y # xs | None \<Rightarrow> x # change_first f xs)"

fun remove_first :: "('a \<Rightarrow> bool) \<Rightarrow> 'a list \<Rightarrow> ('a \<times> 'a list) option" where
  "remove_first p [] = None"
| "remove_first p (x # xs) =
     (if p x then Some (x, xs) else map_option (\<lambda>(y, ys). (y, x # ys)) (remove_first p xs))"

fun dependency_ready :: "string \<Rightarrow> nat \<Rightarrow> task \<Rightarrow> task option" where
  "dependency_ready stage i (Starting n ds) =
     (if n = stage \<and> i < length ds \<and> di_pending (ds ! i) then Some (Starting n (ds[i := onReady (ds ! i)])) else None)"
| "dependency_ready stage i _ = None"

fun timer_runs :: "string \<Rightarrow> nat \<Rightarrow> task \<Rightarrow> bool" where
  "timer_runs stage i (Starting n ds) = (n = stage \<and> i < length ds \<and> di_timeout (ds ! i))"
| "timer_runs stage i _ = False"

fun dependency_timeout :: "nat \<Rightarrow> task \<Rightarrow> task \<times> effect list" where
  "dependency_timeout i (Starting n ds) = (let (d, e) = onTimeout (ds ! i) in (Starting n (ds[i := d]), e))"
| "dependency_timeout i t = (t, [])"

fun close_done :: "string \<Rightarrow> nat \<Rightarrow> task \<Rightarrow> task option" where
  "close_done stage i (Stopping n bs) = (if n = stage \<and> i < length bs then Some (Stopping n (bs[i := True])) else None)"
| "close_done stage i _ = None"

fun is_closing_handler :: "task \<Rightarrow> bool" where
  "is_closing_handler (ClosingHandler _) = True"
| "is_closing_handler _ = False"

fun may_fail :: "string \<Rightarrow> task \<Rightarrow> bool" where
  "may_fail stage (Starting _ _) = False"
| "may_fail stage (Stopping n bs) = (n = stage \<and> False \<in> set bs)"
| "may_fail stage (ClosingHandler _) = (stage = ''handlers-closed'')"

fun may_resume :: "string \<Rightarrow> task \<Rightarrow> bool" where
  "may_resume stage (Starting n ds) = (n = stage \<and> (\<forall>d \<in> set ds. di_isReady d))"
| "may_resume stage (Stopping n bs) = (n = stage \<and> (\<forall>b \<in> set bs. b))"
| "may_resume stage (ClosingHandler _) = False"

fun server_step :: "(string \<Rightarrow> string) \<Rightarrow> server \<Rightarrow> input \<Rightarrow> server \<times> effect list" where
  "server_step num s (ConfigLoads config services) =
     (if \<not> ds_loading s then (s, [])
      else (let (s', e) = transition_async num ''loading-config'' (s\<lparr>ds_config := config, ds_services := services\<rparr>)
            in (s'\<lparr>ds_loading := False\<rparr>, e)))"
| "server_step num s LoadFails =
     (if \<not> ds_loading s then (s, []) else (s\<lparr>ds_loading := False\<rparr>, [Rejects LoadRejected]))"
| "server_step num s CallsStart = start num s"
| "server_step num s CallsStop = stop num s"
| "server_step num s (CallsSet key v) =
     (case set_option num key v s of
        (s', None) \<Rightarrow> (s', [])
      | (s', Some e) \<Rightarrow> (s', [Throws e]))"
| "server_step num s (DependencyReady stage i) =
     (s\<lparr>ds_tasks := change_first (dependency_ready stage i) (ds_tasks s)\<rparr>, [])"
| "server_step num s (DependencyTimesOut stage i) =
     (case find (timer_runs stage i) (ds_tasks s) of
        None \<Rightarrow> (s, [])
      | Some t \<Rightarrow>
          (s\<lparr>ds_tasks := change_first (\<lambda>u. if timer_runs stage i u then Some (fst (dependency_timeout i u)) else None) (ds_tasks s)\<rparr>,
           snd (dependency_timeout i t)))"
| "server_step num s (CloseDone stage i) =
     (s\<lparr>ds_tasks := change_first (close_done stage i) (ds_tasks s)\<rparr>, [])"
| "server_step num s HandlerClosed =
     (case remove_first is_closing_handler (ds_tasks s) of
        Some (ClosingHandler fs, ts) \<Rightarrow>
          (case close_handlers fs (s\<lparr>ds_tasks := ts\<rparr>) of
             (s', e, Waits) \<Rightarrow> (s', e)
           | (s', e, Throwing x) \<Rightarrow> (s', e @ [Rejects x])
           | (s', e, Then name) \<Rightarrow> (let (s2, e2) = transition_async num name s' in (s2, e @ e2)))
      | _ \<Rightarrow> (s, []))"
| "server_step num s (CloseFails stage) =
     (case remove_first (may_fail stage) (ds_tasks s) of
        Some (_, ts) \<Rightarrow> (s\<lparr>ds_tasks := ts\<rparr>, [Rejects CloseRejected])
      | None \<Rightarrow> (s, []))"
| "server_step num s (Resumes stage) =
     (case remove_first (may_resume stage) (ds_tasks s) of
        Some (_, ts) \<Rightarrow>
          (let s1 = s\<lparr>ds_tasks := ts\<rparr>
           in transition_async num stage (if stage = ''services-started'' then servicesReady s1 else s1))
      | None \<Rightarrow> (s, []))"
| "server_step num s ClientConnects = (s, map InformsConnected (ds_listeners s))"
| "server_step num s ClientDisconnects = (s, map InformsDisconnected (ds_listeners s))"

definition isRunning :: "server \<Rightarrow> bool" where
  "isRunning s \<longleftrightarrow> ds_currentState s = RUNNING"

abbreviation serve :: "(string \<Rightarrow> string) \<Rightarrow> server \<Rightarrow> input list \<Rightarrow> server \<times> effect list" where
  "serve num \<equiv> run (server_step num)"

section \<open>The transitions, one by one\<close>

definition moved :: "states \<Rightarrow> server \<Rightarrow> server" where "moved st s = s\<lparr>ds_currentState := st\<rparr>"

lemma moved_simps [simp]:
  "ds_currentState (moved st s) = st" "ds_loading (moved st s) = ds_loading s" "ds_tasks (moved st s) = ds_tasks s"
  "ds_services (moved st s) = ds_services s" "ds_config (moved st s) = ds_config s"
  "ds_handlers (moved st s) = ds_handlers s" "ds_listeners (moved st s) = ds_listeners s"
  by (simp_all add: moved_def)

text \<open>A single transition, with what its handler does; a chained one is left to \<open>transition\<close>.\<close>

lemma transition_refused:
  "find_transition name (ds_currentState s) transitions = None \<Longrightarrow>
     transition num name s = (s, [], Some (InvalidTransition name (ds_currentState s)))"
  by (subst transition.simps) simp

lemma transition_waits:
  "find_transition name (ds_currentState s) transitions = Some (to, h) \<Longrightarrow> call_handler num h (moved to s) = (s1, e1, Waits) \<Longrightarrow>
     transition num name s = (s1, e1 @ [StateChanged to], None)"
  using call_handler_end [of num h "moved to s" s1 e1 Waits]
  by (subst transition.simps) (simp add: moved_def)

lemma transition_throws:
  "find_transition name (ds_currentState s) transitions = Some (to, h) \<Longrightarrow> call_handler num h (moved to s) = (s1, e1, Throwing x) \<Longrightarrow>
     transition num name s =
       (if is_async h then (s1, e1 @ [Rejects x, StateChanged to], None) else (s1, e1, Some x))"
  using call_handler_end [of num h "moved to s" s1 e1 "Throwing x"]
  by (subst transition.simps) (simp add: moved_def)

lemma transition_chains:
  "find_transition name (ds_currentState s) transitions = Some (to, h) \<Longrightarrow> call_handler num h (moved to s) = (s1, e1, Then following) \<Longrightarrow>
     transition num following s1 = (s2, e2, None) \<Longrightarrow>
     transition num name s = (s2, e1 @ e2 @ [StateChanged (ds_currentState s2)], None)"
  by (subst transition.simps) (simp add: moved_def)

lemmas transition_rules = transition_refused transition_waits transition_throws transition_chains

section \<open>A small server\<close>

definition toy_plugin :: held where
  "toy_plugin = (plain (JObj []))\<lparr>hv_methods := plugin_methods\<rparr>"

definition toy_services :: services where
  "toy_services = [(''logger'', toy_plugin), (''permission'', toy_plugin), (''plugins'', plain (JObj [])),
     (''connectionEndpoints'', (plain (JArr []))\<lparr>hv_members := [(''0'', plugin_methods)]\<rparr>)]"

definition toy_config :: json where
  "toy_config = JObj [(''serverName'', JStr ''a''), (''enabledFeatures'', JObj [(''event'', JBool True)])]"

definition toy_start :: "input list" where
  "toy_start = [ConfigLoads toy_config toy_services, CallsStart, DependencyReady ''logger-started'' 0, Resumes ''logger-started'',
     DependencyReady ''services-started'' 0, Resumes ''services-started'', Resumes ''plugins-started'',
     DependencyReady ''connection-endpoints-started'' 0, Resumes ''connection-endpoints-started'']"

lemma toy_started: "EmitStarted \<in> set (snd (serve id new_server toy_start)) \<and> isRunning (fst (serve id new_server toy_start))"
  by code_simp

end
