(* ===== verification/StartOrder.thy ===== *)
theory StartOrder
  imports Startup
begin

text \<open>
  The server starts in order: an invariant of its runs, stated over the inputs and the effects so far, says
  which stage waits for what; it is lifted to all runs by the locale \<open>traced_system\<close>.
\<close>

section \<open>The order of the states\<close>

fun state_rank :: "states \<Rightarrow> nat" where
  "state_rank STOPPED = 13" | "state_rank CONFIG_LOADED = 1" | "state_rank LOGGER_INIT = 2"
| "state_rank SERVICE_INIT = 3" | "state_rank HANDLER_INIT = 4" | "state_rank PLUGIN_INIT = 5"
| "state_rank CONNECTION_ENDPOINT_INIT = 6" | "state_rank RUNNING = 7"
| "state_rank CONNECTION_ENDPOINT_SHUTDOWN = 8" | "state_rank PLUGIN_SHUTDOWN = 9"
| "state_rank HANDLER_SHUTDOWN = 10" | "state_rank SERVICE_SHUTDOWN = 11" | "state_rank LOGGER_SHUTDOWN = 12"

text \<open>Until the configuration has been loaded the server has not started; later it is stopped for good.\<close>

definition rank :: "server \<Rightarrow> nat" where
  "rank s = (if ds_currentState s = STOPPED \<and> ds_loading s then 0 else state_rank (ds_currentState s))"

fun task_name :: "task \<Rightarrow> string" where
  "task_name (Starting n _) = n"
| "task_name (Stopping n _) = n"
| "task_name (ClosingHandler _) = ''handlers-closed''"

fun is_starting :: "task \<Rightarrow> bool" where
  "is_starting (Starting _ _) = True"
| "is_starting _ = False"

fun stage_state :: "string \<Rightarrow> states option" where
  "stage_state n =
     (if n = ''logger-started'' then Some LOGGER_INIT
      else if n = ''services-started'' then Some SERVICE_INIT
      else if n = ''plugins-started'' then Some PLUGIN_INIT
      else if n = ''connection-endpoints-started'' then Some CONNECTION_ENDPOINT_INIT
      else if n = ''connection-endpoints-closed'' then Some CONNECTION_ENDPOINT_SHUTDOWN
      else if n = ''plugins-closed'' then Some PLUGIN_SHUTDOWN
      else if n = ''handlers-closed'' then Some HANDLER_SHUTDOWN
      else if n = ''services-closed'' then Some SERVICE_SHUTDOWN
      else if n = ''logger-closed'' then Some LOGGER_SHUTDOWN
      else None)"

declare stage_state.simps [simp del]

lemma stage_state_inj: "stage_state n = Some st \<Longrightarrow> stage_state m = Some st \<Longrightarrow> n = m"
  by (auto simp: stage_state.simps split: if_splits)

lemma stage_states [simp]:
  "stage_state ''logger-started'' = Some LOGGER_INIT"
  "stage_state ''services-started'' = Some SERVICE_INIT"
  "stage_state ''plugins-started'' = Some PLUGIN_INIT"
  "stage_state ''connection-endpoints-started'' = Some CONNECTION_ENDPOINT_INIT"
  "stage_state ''connection-endpoints-closed'' = Some CONNECTION_ENDPOINT_SHUTDOWN"
  "stage_state ''plugins-closed'' = Some PLUGIN_SHUTDOWN"
  "stage_state ''handlers-closed'' = Some HANDLER_SHUTDOWN"
  "stage_state ''services-closed'' = Some SERVICE_SHUTDOWN"
  "stage_state ''logger-closed'' = Some LOGGER_SHUTDOWN"
  "stage_state ''stop'' = None" "stage_state ''start'' = None" "stage_state ''handlers-started'' = None"
  "stage_state ''loading-config'' = None"
  by (simp_all add: stage_state.simps)

fun stage_of :: "handler \<Rightarrow> states" where
  "stage_of H_configLoaded = CONFIG_LOADED" | "stage_of H_loggerInit = LOGGER_INIT" | "stage_of H_serviceInit = SERVICE_INIT"
| "stage_of H_handlerInit = HANDLER_INIT" | "stage_of H_pluginsInit = PLUGIN_INIT"
| "stage_of H_connectionEndpointInit = CONNECTION_ENDPOINT_INIT" | "stage_of H_run = RUNNING"
| "stage_of H_connectionEndpointShutdown = CONNECTION_ENDPOINT_SHUTDOWN" | "stage_of H_pluginsShutdown = PLUGIN_SHUTDOWN"
| "stage_of H_handlerShutdown = HANDLER_SHUTDOWN" | "stage_of H_serviceShutdown = SERVICE_SHUTDOWN"
| "stage_of H_loggerShutdown = LOGGER_SHUTDOWN" | "stage_of H_stopped = STOPPED"

lemma row_stage: "find_transition name st transitions = Some (to, h) \<Longrightarrow> to = stage_of h"
  by (drule find_transition_in) (auto simp: transitions_def)

lemma task_stage: "task_of h t \<Longrightarrow> stage_state (task_name t) = Some (stage_of h) \<and>
    (is_starting t \<longleftrightarrow> state_rank (stage_of h) \<le> 7)"
  by (induction h t rule: task_of.induct) simp_all

lemma row_from:
  assumes "find_transition name st transitions = Some (to, h)" "stage_state name = Some st'"
  shows "st' = st"
  using find_transition_in [OF assms(1)] assms(2) by (auto simp: transitions_def)

lemma row_rank: "find_transition name st transitions = Some (to, h) \<Longrightarrow> st \<noteq> STOPPED \<Longrightarrow> state_rank st < state_rank to"
  by (drule find_transition_in) (auto simp: transitions_def)

lemma row_loading: "find_transition name STOPPED transitions = Some (to, h) \<Longrightarrow> name = ''loading-config'' \<and> to = CONFIG_LOADED"
  by (drule find_transition_in) (auto simp: transitions_def)

lemma row_to_stopped: "find_transition name st transitions = Some (to, h) \<Longrightarrow> st = STOPPED \<Longrightarrow> to \<noteq> STOPPED"
  by (drule find_transition_in) (auto simp: transitions_def)

lemma row_stop: "find_transition ''stop'' st transitions = Some (to, h) \<Longrightarrow> 8 \<le> state_rank to"
  by (drule find_transition_in) (auto simp: transitions_def)

lemma rank_row:
  assumes "find_transition name (ds_currentState s) transitions = Some (to, h)" "name = ''loading-config'' \<longrightarrow> ds_loading s"
  shows "rank s < state_rank to"
  using assms row_rank [OF assms(1)] row_loading [of name to h]
  by (cases "ds_currentState s = STOPPED") (auto simp: rank_def)

lemma rank_moved: "find_transition name (ds_currentState s) transitions = Some (to, h) \<Longrightarrow>
   name = ''loading-config'' \<longrightarrow> ds_loading s \<Longrightarrow> to = STOPPED \<longrightarrow> \<not> ds_loading s \<Longrightarrow> rank (moved to s) = state_rank to"
  by (simp add: rank_def)

text \<open>What the stages report.\<close>

lemma initialise_all_calls:
  assumes "initialise_all stage i ms = (ds, e)"
  shows "length ds = length ms \<and> (\<forall>d \<in> set ds. \<not> di_isReady d) \<and> EmitStarted \<notin> set e \<and> EmitStopped \<notin> set e \<and>
    (\<forall>n j. CallsWhenReady n j \<in> set e \<longrightarrow> n = stage \<and> i \<le> j \<and> j < i + length ds) \<and>
    ((\<exists>n. NeedsWhenReady n \<in> set e) \<longrightarrow> (\<exists>d \<in> set ds. \<not> di_isReady d \<and> \<not> di_pending d))"
  using assms
proof (induction ms arbitrary: i ds e)
  case (Cons m ms)
  obtain name mm where m: "m = (name, mm)" by (cases m)
  obtain ds1 e1 where 1: "initialise_all stage (Suc i) ms = (ds1, e1)" by fastforce
  from Cons.IH [OF 1] Cons.prems show ?case
    by (auto simp: m 1 Let_def new_initialiser_def Suc_le_eq less_imp_le split: if_splits)
qed simp

lemma start_endpoints_calls:
  assumes "start_endpoints i ms = (ds, e)"
  shows "length ds = length ms \<and> (\<forall>d \<in> set ds. \<not> di_isReady d) \<and> EmitStarted \<notin> set e \<and> EmitStopped \<notin> set e \<and>
    (\<forall>n j. CallsWhenReady n j \<in> set e \<longrightarrow> n = ''connection-endpoints-started'' \<and> i \<le> j \<and> j < i + length ds) \<and>
    ((\<exists>n. NeedsWhenReady n \<in> set e) \<longrightarrow> (\<exists>d \<in> set ds. \<not> di_isReady d \<and> \<not> di_pending d))"
  using assms
proof (induction ms arbitrary: i ds e)
  case (Cons m ms)
  obtain name mm where m: "m = (name, mm)" by (cases m)
  obtain ds1 e1 where 1: "start_endpoints (Suc i) ms = (ds1, e1)" by fastforce
  from Cons.IH [OF 1] Cons.prems show ?case
    by (auto simp: m 1 Let_def new_initialiser_def Suc_le_eq less_imp_le split: if_splits)
qed simp

lemma register_features_effects:
  "register_features fs s = (s', e, ok) \<Longrightarrow> x \<in> set e \<Longrightarrow> \<exists>f. x = RegistersTopic f"
proof (induction fs arbitrary: s e)
  case (Cons f fs)
  then show ?case
    by (fastforce simp: Let_def split: option.splits bool.splits prod.splits)
qed simp

lemma close_handlers_effects:
  "close_handlers fs s = (s', e, r) \<Longrightarrow> x \<in> set e \<Longrightarrow> \<exists>d. x = Closes d"
proof (induction fs arbitrary: s e)
  case (Cons f fs)
  then show ?case by (fastforce split: option.splits bool.splits if_splits)
qed simp

text \<open>What a stage reports, and the new tasks: those of a start hold back what was not ready.\<close>

fun starts :: "handler \<Rightarrow> bool" where
  "starts H_loggerInit = True"
| "starts H_serviceInit = True"
| "starts H_pluginsInit = True"
| "starts H_connectionEndpointInit = True"
| "starts _ = False"

lemma starts_stage: "starts h \<Longrightarrow> next_of h = None \<and> 2 \<le> state_rank (stage_of h) \<and> state_rank (stage_of h) \<le> 6"
  by (cases h) simp_all

definition reports :: "handler \<Rightarrow> effect list \<Rightarrow> task list \<Rightarrow> bool" where
  "reports h e new \<longleftrightarrow>
     (EmitStarted \<in> set e \<longrightarrow> h = H_run) \<and> (EmitStopped \<in> set e \<longrightarrow> h = H_stopped) \<and>
     (\<forall>n j. CallsWhenReady n j \<in> set e \<longrightarrow> starts h \<and> stage_state n = Some (stage_of h) \<and>
        (\<forall>m ds. Starting m ds \<in> set new \<longrightarrow> j < length ds)) \<and>
     (\<forall>n. NeedsWhenReady n \<in> set e \<longrightarrow> starts h \<and>
        (\<forall>m ds. Starting m ds \<in> set new \<longrightarrow> (\<exists>d \<in> set ds. \<not> di_isReady d \<and> \<not> di_pending d))) \<and>
     (\<forall>n ds. Starting n ds \<in> set new \<longrightarrow> (\<forall>d \<in> set ds. \<not> di_isReady d))"

lemma reports_nothing:
  "(\<And>x. x \<in> set e \<Longrightarrow> (\<exists>d. x = Closes d) \<or> (\<exists>f. x = RegistersTopic f) \<or> x = SetsRecordHandler) \<Longrightarrow>
   (\<And>n ds. Starting n ds \<notin> set new) \<Longrightarrow> reports h e new"
  unfolding reports_def by blast

lemma starting_reports:
  assumes "initialise_all stage 0 ms = (ds, e) \<or> stage = ''connection-endpoints-started'' \<and> start_endpoints 0 ms = (ds, e)"
    and "stage_state stage = Some (stage_of h)" "starts h" "new = [] \<or> new = [Starting stage ds]"
  shows "reports h e new"
proof -
  have facts: "\<forall>d \<in> set ds. \<not> di_isReady d" "EmitStarted \<notin> set e" "EmitStopped \<notin> set e"
    "\<And>n j. CallsWhenReady n j \<in> set e \<Longrightarrow> n = stage \<and> j < length ds"
    "\<And>n. NeedsWhenReady n \<in> set e \<Longrightarrow> \<exists>d \<in> set ds. \<not> di_isReady d \<and> \<not> di_pending d"
    using assms(1) initialise_all_calls [of stage 0 ms ds e] start_endpoints_calls [of 0 ms ds e] by force+
  have "stage_state n = Some (stage_of h) \<and> j < length ds" if "CallsWhenReady n j \<in> set e" for n j
    using facts(4) [OF that] assms(2) by simp
  then show ?thesis unfolding reports_def using facts assms(3,4) by auto
qed

lemma call_handler_reports:
  assumes "call_handler num h s = (s', e, r)"
  shows "\<exists>new. ds_tasks s' = ds_tasks s @ new \<and> length new \<le> 1 \<and> (\<forall>t \<in> set new. task_of h t) \<and>
    (r = Waits \<or> new = []) \<and> reports h e new"
proof (cases h)
  case H_configLoaded
  then have "e = []" using assms by (auto simp: configLoaded_def split: if_splits prod.splits option.splits)
  then show ?thesis
    using call_handler_end [OF assms] H_configLoaded by (intro exI [of _ "[]"]) (auto simp: reports_def split: stage_end.splits)
next
  case H_loggerInit
  then show ?thesis
    using assms by (auto simp: loggerInit_def new_initialiser_def await_def reports_def split: option.splits if_splits)
next
  case H_serviceInit
  then have a: "serviceInit s = (s', e, r)" using assms by simp
  define names where "names = filter (\<lambda>k. k \<notin> set not_initialised) (js_keys (ds_services s))"
  define found where "found = takeWhile (\<lambda>k. service_methods (ds_services s) k \<noteq> None) names"
  obtain ds e1 where i: "initialise_all ''services-started'' 0
      (map (\<lambda>k. (k, the (service_methods (ds_services s) k))) found) = (ds, e1)" by fastforce
  have "serviceInit s = (if found = names then (await (Starting ''services-started'' ds) s, e1, Waits)
      else (s, e1, Throwing TypeErr))"
    unfolding serviceInit_def Let_def names_def [symmetric] found_def [symmetric] i by simp
  moreover have "reports h e1 (if found = names then [Starting ''services-started'' ds] else [])"
    using i H_serviceInit by (intro starting_reports [where stage = "''services-started''"]) auto
  ultimately show ?thesis
    using a H_serviceInit
    by (intro exI [of _ "if found = names then [Starting ''services-started'' ds] else []"])
       (auto simp: await_def split: if_splits)
next
  case H_handlerInit
  obtain s1 e1 ok where 1: "register_features features s = (s1, e1, ok)" by (metis prod_cases3)
  have "x \<in> set e \<Longrightarrow> (\<exists>f. x = RegistersTopic f) \<or> x = SetsRecordHandler" for x
    using assms H_handlerInit register_features_effects [OF 1]
    by (auto simp: handlerInit_def 1 split: bool.splits option.splits if_splits)
  then have "reports h e []" by (intro reports_nothing) auto
  then show ?thesis
    using assms H_handlerInit register_features_frame [OF 1]
    by (intro exI [of _ "[]"]) (auto simp: handlerInit_def 1 split: bool.splits option.splits if_splits)
next
  case H_pluginsInit
  show ?thesis
  proof (cases "members (ds_services s) ''plugins''")
    case None
    then show ?thesis using assms H_pluginsInit by (auto simp: pluginsInit_def reports_def)
  next
    case (Some ps)
    obtain ds e1 where i: "initialise_all ''plugins-started'' 0 ps = (ds, e1)" by fastforce
    have "reports h e1 [Starting ''plugins-started'' ds]"
      using i H_pluginsInit by (intro starting_reports [where stage = "''plugins-started''"]) auto
    then show ?thesis
      using assms H_pluginsInit Some i
      by (intro exI [of _ "[Starting ''plugins-started'' ds]"]) (auto simp: pluginsInit_def await_def Let_def)
  qed
next
  case H_connectionEndpointInit
  show ?thesis
  proof (cases "members (ds_services s) ''connectionEndpoints''")
    case None
    then show ?thesis using assms H_connectionEndpointInit by (auto simp: connectionEndpointInit_def reports_def)
  next
    case (Some ps)
    obtain ds e1 where i: "start_endpoints 0 ps = (ds, e1)" by fastforce
    have "reports h e1 [Starting ''connection-endpoints-started'' ds]"
      using i H_connectionEndpointInit
      by (intro starting_reports [where stage = "''connection-endpoints-started''"]) auto
    then show ?thesis
      using assms H_connectionEndpointInit Some i
      by (intro exI [of _ "[Starting ''connection-endpoints-started'' ds]"])
         (auto simp: connectionEndpointInit_def await_def Let_def)
  qed
next
  case H_handlerShutdown
  then have c: "close_handlers features s = (s', e, r)" using assms by simp
  have "reports h e new" if "\<And>n ds. Starting n ds \<notin> set new" for new
    using close_handlers_effects [OF c] that by (intro reports_nothing) auto
  then show ?thesis
    using close_handlers_end [OF c] H_handlerShutdown by (cases r) (fastforce intro: exI [of _ "[]"])+
qed (use assms in \<open>auto simp: connectionEndpointShutdown_def pluginsShutdown_def serviceShutdown_def loggerShutdown_def
    await_def Let_def reports_def split: if_splits prod.splits option.splits\<close>)

section \<open>Starting in order\<close>

text \<open>
  The invariant of a run: \<open>xs\<close> are the inputs so far and \<open>es\<close> the effects. While the server starts only the
  stage it is in waits for something; what is not ready keeps it there.
\<close>

definition tasks_ordered :: "server \<Rightarrow> bool" where
  "tasks_ordered s \<longleftrightarrow>
     (\<forall>t \<in> set (ds_tasks s). \<exists>st. stage_state (task_name t) = Some st \<and> state_rank st \<le> rank s \<and>
        (rank s \<le> 7 \<longrightarrow> st = ds_currentState s) \<and> (is_starting t \<longleftrightarrow> state_rank st \<le> 7)) \<and>
     distinct (map task_name (ds_tasks s))"

definition readiness_known :: "input list \<Rightarrow> server \<Rightarrow> bool" where
  "readiness_known xs s \<longleftrightarrow>
     (\<forall>n ds i. Starting n ds \<in> set (ds_tasks s) \<longrightarrow> i < length ds \<longrightarrow> di_isReady (ds ! i) \<longrightarrow> DependencyReady n i \<in> set xs)"

definition calls_tracked :: "input list \<Rightarrow> effect list \<Rightarrow> server \<Rightarrow> bool" where
  "calls_tracked xs es s \<longleftrightarrow>
     (\<forall>n i. CallsWhenReady n i \<in> set es \<longrightarrow>
        DependencyReady n i \<in> set xs \<or> 7 < rank s \<or>
        stage_state n = Some (ds_currentState s) \<and> (\<forall>m ds. Starting m ds \<in> set (ds_tasks s) \<longrightarrow> i < length ds))"

definition missing_blocks :: "effect list \<Rightarrow> server \<Rightarrow> bool" where
  "missing_blocks es s \<longleftrightarrow>
     (\<forall>name. NeedsWhenReady name \<in> set es \<longrightarrow> EmitStarted \<notin> set es \<and> (7 < rank s \<or>
        2 \<le> rank s \<and> (\<forall>n ds. Starting n ds \<in> set (ds_tasks s) \<longrightarrow> (\<exists>d \<in> set ds. \<not> di_isReady d \<and> \<not> di_pending d))))"

definition started_ready :: "input list \<Rightarrow> effect list \<Rightarrow> server \<Rightarrow> bool" where
  "started_ready xs es s \<longleftrightarrow>
     (EmitStarted \<in> set es \<longrightarrow> 7 \<le> rank s \<and> (\<forall>n i. CallsWhenReady n i \<in> set es \<longrightarrow> DependencyReady n i \<in> set xs))"

definition server_inv :: "input list \<Rightarrow> effect list \<Rightarrow> server \<Rightarrow> bool" where
  "server_inv xs es s \<longleftrightarrow> tasks_ordered s \<and> readiness_known xs s \<and> calls_tracked xs es s \<and> missing_blocks es s \<and>
     started_ready xs es s \<and> (EmitStopped \<in> set es \<longrightarrow> rank s = 13)"

lemmas inv_defs = server_inv_def tasks_ordered_def readiness_known_def calls_tracked_def missing_blocks_def started_ready_def

text \<open>A stage of the start is left when nothing is open.\<close>

definition stage_complete :: "input list \<Rightarrow> effect list \<Rightarrow> server \<Rightarrow> bool" where
  "stage_complete xs es s \<longleftrightarrow> ds_tasks s = [] \<and> (\<forall>n. NeedsWhenReady n \<notin> set es) \<and>
     (\<forall>n i. CallsWhenReady n i \<in> set es \<longrightarrow> DependencyReady n i \<in> set xs)"

definition neutral :: "effect \<Rightarrow> bool" where
  "neutral x \<longleftrightarrow> x \<noteq> EmitStarted \<and> x \<noteq> EmitStopped \<and> (\<forall>n i. x \<noteq> CallsWhenReady n i) \<and> (\<forall>n. x \<noteq> NeedsWhenReady n)"

lemma neutral_simps [simp]: "neutral (Rejects x)" "neutral (Throws x)" "neutral (StateChanged st)" "neutral CurrentlyShuttingDown"
    "neutral NotifyFatal" "neutral (NotInTime n)" "neutral (InformsConnected l)" "neutral (InformsDisconnected l)" "neutral (Closes d)"
  by (simp_all add: neutral_def)

lemma server_inv_neutral:
  assumes "server_inv xs es s" "\<forall>x \<in> set e. neutral x"
  shows "server_inv xs (es @ e) s"
proof -
  have "EmitStarted \<notin> set e" "EmitStopped \<notin> set e" "\<And>n i. CallsWhenReady n i \<notin> set e" "\<And>n. NeedsWhenReady n \<notin> set e"
    using assms(2) by (auto simp: neutral_def)
  then show ?thesis using assms(1) by (simp add: inv_defs)
qed

lemma call_handler_rank: "call_handler num h s = (s', e, r) \<Longrightarrow> rank s' = rank s"
  using call_handler_end [of num h s s' e r] by (simp add: rank_def)

lemma hop_inv:
  assumes I: "server_inv xs es s"
    and row: "find_transition name (ds_currentState s) transitions = Some (to, h)"
    and call: "call_handler num h (moved to s) = (s', e, r)"
    and load: "name = ''loading-config'' \<longrightarrow> ds_loading s" "to = STOPPED \<longrightarrow> \<not> ds_loading s"
    and complete: "state_rank to \<le> 7 \<Longrightarrow> stage_complete xs es s"
  shows "server_inv xs (es @ e) s' \<and> rank s < rank s' \<and> ds_currentState s' = to \<and> ds_loading s' = ds_loading s \<and>
    (\<forall>n. r = Then n \<longrightarrow> next_of h = Some n \<and> (rank s' \<le> 7 \<longrightarrow> stage_complete xs (es @ e) s'))"
proof -
  have rs: "rank s' = state_rank to" "rank s < state_rank to"
    using call_handler_rank [OF call] rank_moved [OF row load] rank_row [OF row load(1)] by simp_all
  have st: "ds_currentState s' = to" "ds_loading s' = ds_loading s" "\<And>n. r = Then n \<Longrightarrow> next_of h = Some n"
    using call_handler_end [OF call] by auto
  obtain new where new: "ds_tasks s' = ds_tasks s @ new" "length new \<le> 1" "\<forall>t \<in> set new. task_of h t"
      "r = Waits \<or> new = []" and rep: "reports h e new"
    using call_handler_reports [OF call] by auto
  have stage: "stage_of h = to" using row_stage [OF row] by simp
  have new_stage: "\<forall>t \<in> set new. stage_state (task_name t) = Some to \<and> (is_starting t \<longleftrightarrow> state_rank to \<le> 7)"
    using new(3) task_stage stage by blast
  have old: "\<exists>st. stage_state (task_name t) = Some st \<and> state_rank st \<le> rank s \<and>
      (is_starting t \<longleftrightarrow> state_rank st \<le> 7)" if "t \<in> set (ds_tasks s)" for t
    using I that by (auto simp: server_inv_def tasks_ordered_def)
  have fresh: "task_name t \<noteq> task_name u" if "t \<in> set (ds_tasks s)" "u \<in> set new" for t u
    using old [OF that(1)] new_stage that(2) rs by fastforce
  have none: "ds_tasks s = []" if "state_rank to \<le> 7" using complete [OF that] by (simp add: stage_complete_def)
  have "tasks_ordered s'"
    unfolding tasks_ordered_def
  proof (intro conjI ballI)
    fix t assume t: "t \<in> set (ds_tasks s')"
    show "\<exists>st. stage_state (task_name t) = Some st \<and> state_rank st \<le> rank s' \<and> (rank s' \<le> 7 \<longrightarrow> st = ds_currentState s') \<and>
        (is_starting t \<longleftrightarrow> state_rank st \<le> 7)"
    proof (cases "t \<in> set new")
      case True
      then show ?thesis using new_stage rs st by auto
    next
      case False
      then have "t \<in> set (ds_tasks s)" using t new(1) by auto
      then show ?thesis using old [of t] none rs by fastforce
    qed
  next
    have "distinct (map task_name new)" using new(2) by (cases new) auto
    then show "distinct (map task_name (ds_tasks s'))"
      using I fresh new(1) by (force simp: server_inv_def tasks_ordered_def)
  qed
  moreover have "readiness_known xs s'"
    using I rep new(1) by (fastforce simp: server_inv_def readiness_known_def reports_def)
  moreover have "calls_tracked xs (es @ e) s'"
    unfolding calls_tracked_def
  proof (intro allI impI)
    fix n i assume c: "CallsWhenReady n i \<in> set (es @ e)"
    show "DependencyReady n i \<in> set xs \<or> 7 < rank s' \<or>
        stage_state n = Some (ds_currentState s') \<and> (\<forall>m ds. Starting m ds \<in> set (ds_tasks s') \<longrightarrow> i < length ds)"
    proof (cases "state_rank to \<le> 7")
      case True
      show ?thesis
      proof (cases "CallsWhenReady n i \<in> set es")
        case True
        then show ?thesis using complete \<open>state_rank to \<le> 7\<close> by (auto simp: stage_complete_def)
      next
        case False
        then have "CallsWhenReady n i \<in> set e" using c by simp
        then show ?thesis using rep new(1) none [OF True] st(1) stage unfolding reports_def by force
      qed
    next
      case False
      then show ?thesis using rs by simp
    qed
  qed
  moreover have started: "EmitStarted \<in> set e \<Longrightarrow> to = RUNNING"
    using rep stage by (auto simp: reports_def)
  moreover have "missing_blocks (es @ e) s'"
    unfolding missing_blocks_def
  proof (intro allI impI)
    fix name' assume c: "NeedsWhenReady name' \<in> set (es @ e)"
    show "EmitStarted \<notin> set (es @ e) \<and> (7 < rank s' \<or>
        2 \<le> rank s' \<and> (\<forall>n ds. Starting n ds \<in> set (ds_tasks s') \<longrightarrow> (\<exists>d \<in> set ds. \<not> di_isReady d \<and> \<not> di_pending d)))"
    proof (cases "NeedsWhenReady name' \<in> set es")
      case True
      then have "7 < rank s'" using complete rs by (force simp: stage_complete_def not_le [symmetric])
      then show ?thesis
        using True I started rs by (auto simp: server_inv_def missing_blocks_def)
    next
      case False
      then have n: "NeedsWhenReady name' \<in> set e" using c by simp
      then have h: "starts h" "\<forall>m ds. Starting m ds \<in> set new \<longrightarrow> (\<exists>d \<in> set ds. \<not> di_isReady d \<and> \<not> di_pending d)"
        using rep by (auto simp: reports_def)
      note r6 = starts_stage [OF h(1)]
      have "EmitStarted \<notin> set es" using I rs r6 stage by (auto simp: server_inv_def started_ready_def)
      moreover have "EmitStarted \<notin> set e" using started r6 stage by auto
      moreover have "2 \<le> rank s'" using rs r6 stage by simp
      ultimately show ?thesis
        using h(2) new(1) none rs r6 stage by auto
    qed
  qed
  moreover have "started_ready xs (es @ e) s'"
    unfolding started_ready_def
  proof (intro impI conjI allI)
    assume "EmitStarted \<in> set (es @ e)"
    then have *: "EmitStarted \<in> set es \<and> 7 < rank s' \<or> to = RUNNING"
      using started I rs by (auto simp: server_inv_def started_ready_def)
    then show "7 \<le> rank s'" using rs by auto
    fix n i assume c: "CallsWhenReady n i \<in> set (es @ e)"
    have "\<not> starts h" using * starts_stage [of h] rs stage by auto
    then have es: "CallsWhenReady n i \<in> set es" using c rep by (auto simp: reports_def)
    show "DependencyReady n i \<in> set xs"
    proof (cases "to = RUNNING")
      case True
      then show ?thesis using complete es by (simp add: stage_complete_def)
    next
      case False
      then show ?thesis using * es I by (simp add: server_inv_def started_ready_def)
    qed
  qed
  moreover have "EmitStopped \<in> set (es @ e) \<longrightarrow> rank s' = 13"
  proof -
    have "rank s \<noteq> 13" using rs by (cases to) auto
    then show ?thesis using I rep stage rs by (auto simp: server_inv_def reports_def)
  qed
  ultimately have "server_inv xs (es @ e) s'" by (simp add: server_inv_def)
  moreover have "stage_complete xs (es @ e) s'" if "r = Then n" "rank s' \<le> 7" for n
  proof -
    have "\<not> starts h" using st(3) [OF that(1)] starts_stage [of h] by auto
    then show ?thesis
      using complete that rs new rep by (auto simp: stage_complete_def reports_def)
  qed
  ultimately show ?thesis using rs st by auto
qed

lemma transition_inv:
  assumes "transition num name s = (s', e, t)" "server_inv xs es s"
    and "name = ''loading-config'' \<longrightarrow> ds_loading s" "ds_currentState s = LOGGER_SHUTDOWN \<longrightarrow> \<not> ds_loading s"
    and "\<And>to h. find_transition name (ds_currentState s) transitions = Some (to, h) \<Longrightarrow> state_rank to \<le> 7 \<Longrightarrow>
           stage_complete xs es s"
  shows "server_inv xs (es @ e) s' \<and> rank s \<le> rank s' \<and> ds_loading s' = ds_loading s \<and>
    (find_transition name (ds_currentState s) transitions \<noteq> None \<longrightarrow> rank s < rank s')"
  using assms
proof (induction num name s arbitrary: s' e t es rule: transition.induct)
  case (1 num name s)
  show ?case
  proof (cases "find_transition name (ds_currentState s) transitions")
    case None
    then show ?thesis using 1 by (simp add: transition_refused)
  next
    case (Some p)
    obtain to h where p: "p = (to, h)" by (cases p)
    note row = Some [unfolded p]
    obtain s1 e1 r where call: "call_handler num h (moved to s) = (s1, e1, r)" by (metis prod_cases3)
    have "to = STOPPED \<Longrightarrow> ds_currentState s = LOGGER_SHUTDOWN"
      using find_transition_in [OF row] by (auto simp: transitions_def)
    then have hop: "server_inv xs (es @ e1) s1" "rank s < rank s1" "ds_currentState s1 = to" "ds_loading s1 = ds_loading s"
        "\<And>n. r = Then n \<Longrightarrow> next_of h = Some n \<and> (rank s1 \<le> 7 \<longrightarrow> stage_complete xs (es @ e1) s1)"
      using hop_inv [OF "1.prems"(2) row call "1.prems"(3)] 1 row by auto
    show ?thesis
    proof (cases r)
      case Waits
      then show ?thesis
        using "1.prems"(1) transition_waits [OF row, of num s1 e1] call hop
          server_inv_neutral [OF hop(1), of "[StateChanged to]"] by auto
    next
      case (Throwing x)
      then show ?thesis
        using "1.prems"(1) transition_throws [OF row, of num s1 e1 x] call hop
          server_inv_neutral [OF hop(1), of "[Rejects x, StateChanged to]"] by (auto split: if_splits)
    next
      case (Then n)
      obtain s2 e2 t2 where tr: "transition num n s1 = (s2, e2, t2)" by (metis prod_cases3)
      have n: "next_of h = Some n" using hop(5) Then by simp
      then have "n \<noteq> ''loading-config''" by (cases h) auto
      moreover have "to \<noteq> LOGGER_SHUTDOWN" using n row_stage [OF row] by (cases h) auto
      moreover have "stage_complete xs (es @ e1) s1"
        if "find_transition n (ds_currentState s1) transitions = Some (to', h')" "state_rank to' \<le> 7" for to' h'
        using hop(5) [OF Then] rank_row [OF that(1)] that(2) \<open>n \<noteq> ''loading-config''\<close> by simp
      ultimately have IH: "server_inv xs ((es @ e1) @ e2) s2 \<and> rank s1 \<le> rank s2 \<and> ds_loading s2 = ds_loading s1"
        using 1(1) [OF row refl call [unfolded moved_def, symmetric] refl Then tr hop(1)] hop(3) by blast
      have "\<exists>e3. transition num name s = (s2, e1 @ e2 @ e3, t) \<and> (\<forall>x \<in> set e3. neutral x)"
        using "1.prems"(1) row call Then tr
        by (subst transition.simps, subst (asm) transition.simps) (auto simp: moved_def split: option.splits if_splits)
      then obtain e3 where "e = e1 @ e2 @ e3" "s' = s2" "\<forall>x \<in> set e3. neutral x" using "1.prems"(1) by auto
      then show ?thesis
        using IH hop server_inv_neutral [of xs "es @ e1 @ e2" s2 e3] by auto
    qed
  qed
qed

lemma change_first_cases:
  "change_first f ts = ts \<or> (\<exists>a u b v. ts = a @ u # b \<and> f u = Some v \<and> change_first f ts = a @ v # b)"
proof (induction ts)
  case (Cons t ts)
  show ?case
  proof (cases "f t")
    case None
    from Cons.IH show ?thesis
    proof
      assume "\<exists>a u b v. ts = a @ u # b \<and> f u = Some v \<and> change_first f ts = a @ v # b"
      then obtain a u b v where "ts = a @ u # b" "f u = Some v" "change_first f ts = a @ v # b" by blast
      then have "t # ts = (t # a) @ u # b \<and> f u = Some v \<and> change_first f (t # ts) = (t # a) @ v # b"
        using None by simp
      then show ?thesis by blast
    qed (simp add: None)
  next
    case (Some v)
    then have "t # ts = [] @ t # ts \<and> f t = Some v \<and> change_first f (t # ts) = [] @ v # ts" by simp
    then show ?thesis by blast
  qed
qed simp

lemma remove_first_some: "remove_first p ts = Some (u, ts') \<Longrightarrow> \<exists>a b. ts = a @ u # b \<and> p u \<and> ts' = a @ b"
proof (induction ts arbitrary: ts')
  case (Cons t ts)
  show ?case
  proof (cases "p t")
    case True
    then show ?thesis using Cons.prems by (intro exI [of _ "[]"] exI [of _ ts]) auto
  next
    case False
    then obtain ts2 where "remove_first p ts = Some (u, ts2)" "ts' = t # ts2" using Cons.prems by auto
    then show ?thesis using Cons.IH [of ts2] by (metis append_Cons)
  qed
qed simp

text \<open>Inputs to come, other parts of the state, and tasks that are gone do no harm.\<close>

lemma server_inv_more: "server_inv xs es s \<Longrightarrow> server_inv (xs @ ys) es s"
  unfolding inv_defs by (auto; blast)

lemma server_inv_cong:
  "server_inv xs es s \<Longrightarrow> ds_currentState s' = ds_currentState s \<Longrightarrow> rank s' = rank s \<Longrightarrow> ds_tasks s' = ds_tasks s \<Longrightarrow>
   server_inv xs es s'"
  by (simp add: inv_defs)

lemma server_inv_removed:
  assumes "server_inv xs es s" "ds_tasks s = a @ u # b"
  shows "server_inv xs es (s\<lparr>ds_tasks := a @ b\<rparr>)"
proof -
  let ?s = "s\<lparr>ds_tasks := a @ b\<rparr>"
  have r: "rank ?s = rank s" by (simp add: rank_def)
  have sub: "t \<in> set (ds_tasks ?s) \<Longrightarrow> t \<in> set (ds_tasks s)" for t using assms(2) by auto
  have "tasks_ordered ?s" using assms r by (auto simp: server_inv_def tasks_ordered_def)
  moreover have "readiness_known xs ?s"
    using assms(1) sub by (auto simp: server_inv_def readiness_known_def)
  moreover have "calls_tracked xs es ?s"
    using assms r unfolding server_inv_def calls_tracked_def by simp blast
  moreover have "missing_blocks es ?s"
    using assms r unfolding server_inv_def missing_blocks_def by simp blast
  ultimately show ?thesis using assms(1) r by (simp add: server_inv_def started_ready_def)
qed

text \<open>A task may be replaced by one that is as far, or further by what the inputs say.\<close>

definition task_advanced :: "input list \<Rightarrow> task \<Rightarrow> task \<Rightarrow> bool" where
  "task_advanced xs u v \<longleftrightarrow> task_name v = task_name u \<and> (is_starting v \<longleftrightarrow> is_starting u) \<and>
     (\<forall>n ds. v = Starting n ds \<longrightarrow> (\<exists>ds0. u = Starting n ds0 \<and> length ds = length ds0 \<and>
        (\<forall>i < length ds. di_isReady (ds ! i) \<longrightarrow> di_isReady (ds0 ! i) \<or> DependencyReady n i \<in> set xs) \<and>
        (\<forall>i < length ds. \<not> di_isReady (ds0 ! i) \<longrightarrow> \<not> di_pending (ds0 ! i) \<longrightarrow> \<not> di_isReady (ds ! i) \<and> \<not> di_pending (ds ! i))))"

lemma server_inv_advanced:
  assumes I: "server_inv xs es s" and ts: "ds_tasks s = a @ u # b" and adv: "task_advanced xs u v"
  shows "server_inv xs es (s\<lparr>ds_tasks := a @ v # b\<rparr>)"
proof -
  let ?s = "s\<lparr>ds_tasks := a @ v # b\<rparr>"
  have r: "rank ?s = rank s" and ts': "ds_tasks ?s = a @ v # b" by (simp_all add: rank_def)
  have name: "task_name v = task_name u" "is_starting v = is_starting u" using adv by (simp_all add: task_advanced_def)
  have "tasks_ordered ?s" using I ts name r by (auto simp: server_inv_def tasks_ordered_def)
  moreover have "readiness_known xs ?s"
    unfolding readiness_known_def
  proof (intro allI impI)
    fix n ds i assume *: "Starting n ds \<in> set (ds_tasks ?s)" "i < length ds" "di_isReady (ds ! i)"
    show "DependencyReady n i \<in> set xs"
    proof (cases "v = Starting n ds")
      case True
      then obtain ds0 where "u = Starting n ds0" "length ds = length ds0"
          "di_isReady (ds0 ! i) \<or> DependencyReady n i \<in> set xs"
        using adv * by (auto simp: task_advanced_def)
      then show ?thesis using I ts *(2) by (auto simp: server_inv_def readiness_known_def)
    next
      case False
      then show ?thesis using I ts * by (auto simp: server_inv_def readiness_known_def)
    qed
  qed
  moreover have "calls_tracked xs es ?s"
  proof -
    have less: "i < length ds" if "\<forall>m ds. Starting m ds \<in> set (a @ u # b) \<longrightarrow> i < length ds"
        "Starting m ds \<in> set (a @ v # b)" for i m ds
    proof (cases "v = Starting m ds")
      case True
      then obtain ds0 where "u = Starting m ds0" "length ds = length ds0" using adv by (auto simp: task_advanced_def)
      then show ?thesis using that(1) by simp
    next
      case False
      then show ?thesis using that by auto
    qed
    show ?thesis
      unfolding calls_tracked_def
    proof (intro allI impI)
      fix n i assume c: "CallsWhenReady n i \<in> set es"
      have "calls_tracked xs es s" using I by (simp add: server_inv_def)
      from this [unfolded calls_tracked_def ts, THEN spec, THEN spec, THEN mp, OF c]
      show "DependencyReady n i \<in> set xs \<or> 7 < rank ?s \<or>
          stage_state n = Some (ds_currentState ?s) \<and> (\<forall>m ds. Starting m ds \<in> set (ds_tasks ?s) \<longrightarrow> i < length ds)"
      proof (elim disjE conjE)
        assume st: "stage_state n = Some (ds_currentState s)"
          and all: "\<forall>m ds. Starting m ds \<in> set (a @ u # b) \<longrightarrow> i < length ds"
        have "\<forall>m ds. Starting m ds \<in> set (ds_tasks ?s) \<longrightarrow> i < length ds"
          by (intro allI impI, rule less [OF all], unfold ts', assumption)
        then show ?thesis using st by simp
      qed (simp_all add: r)
    qed
  qed
  moreover have "missing_blocks es ?s"
  proof -
    have dead: "\<exists>d \<in> set ds. \<not> di_isReady d \<and> \<not> di_pending d"
      if all: "\<forall>m ds. Starting m ds \<in> set (a @ u # b) \<longrightarrow> (\<exists>d \<in> set ds. \<not> di_isReady d \<and> \<not> di_pending d)"
        and v: "Starting m ds \<in> set (a @ v # b)" for m ds
    proof (cases "v = Starting m ds")
      case True
      then obtain ds0 where u: "u = Starting m ds0" "length ds = length ds0"
          "\<forall>i < length ds. \<not> di_isReady (ds0 ! i) \<longrightarrow> \<not> di_pending (ds0 ! i) \<longrightarrow> \<not> di_isReady (ds ! i) \<and> \<not> di_pending (ds ! i)"
        using adv by (auto simp: task_advanced_def)
      have "\<exists>d \<in> set ds0. \<not> di_isReady d \<and> \<not> di_pending d" using all u(1) by simp
      then obtain i where "i < length ds0" "\<not> di_isReady (ds0 ! i)" "\<not> di_pending (ds0 ! i)"
        by (auto simp: in_set_conv_nth)
      then show ?thesis using u by (metis nth_mem)
    next
      case False
      then show ?thesis using all v by auto
    qed
    show ?thesis
      unfolding missing_blocks_def
    proof (intro allI impI)
      fix name assume c: "NeedsWhenReady name \<in> set es"
      have "missing_blocks es s" using I by (simp add: server_inv_def)
      from this [unfolded missing_blocks_def ts, THEN spec, THEN mp, OF c]
      have *: "EmitStarted \<notin> set es" "7 < rank s \<or> 2 \<le> rank s \<and>
          (\<forall>n ds. Starting n ds \<in> set (a @ u # b) \<longrightarrow> (\<exists>d \<in> set ds. \<not> di_isReady d \<and> \<not> di_pending d))"
        by (rule conjunct1, rule conjunct2)
      show "EmitStarted \<notin> set es \<and> (7 < rank ?s \<or> 2 \<le> rank ?s \<and>
          (\<forall>n ds. Starting n ds \<in> set (ds_tasks ?s) \<longrightarrow> (\<exists>d \<in> set ds. \<not> di_isReady d \<and> \<not> di_pending d)))"
        using *(2)
      proof (elim disjE conjE)
        assume rk: "2 \<le> rank s"
          and all: "\<forall>n ds. Starting n ds \<in> set (a @ u # b) \<longrightarrow> (\<exists>d \<in> set ds. \<not> di_isReady d \<and> \<not> di_pending d)"
        have "\<forall>n ds. Starting n ds \<in> set (ds_tasks ?s) \<longrightarrow> (\<exists>d \<in> set ds. \<not> di_isReady d \<and> \<not> di_pending d)"
          by (intro allI impI, rule dead [OF all], unfold ts', assumption)
        then show ?thesis using rk *(1) r by simp
      qed (simp add: *(1) r)
    qed
  qed
  moreover have "started_ready xs es ?s" using I r by (simp add: server_inv_def started_ready_def)
  moreover have "EmitStopped \<in> set es \<longrightarrow> rank ?s = 13" using I r by (simp add: server_inv_def)
  ultimately show ?thesis by (simp add: server_inv_def)
qed

lemma server_inv_rank_congs:
  "rank (s\<lparr>ds_config := c, ds_services := sv\<rparr>) = rank s" "rank (s\<lparr>ds_tasks := ts\<rparr>) = rank s"
  "rank (s\<lparr>ds_startWhenLoaded := w\<rparr>) = rank s" "rank (servicesReady s) = rank s"
  by (simp_all add: rank_def servicesReady_def)

lemma server_inv_reordered:
  "server_inv xs es s \<Longrightarrow> set ts = set (ds_tasks s) \<Longrightarrow> distinct (map task_name ts) \<Longrightarrow> server_inv xs es (s\<lparr>ds_tasks := ts\<rparr>)"
  by (simp add: inv_defs server_inv_rank_congs)

lemma advanced_ready: "dependency_ready stage i u = Some v \<Longrightarrow> DependencyReady stage i \<in> set xs \<Longrightarrow> task_advanced xs u v"
  by (cases u) (auto simp: task_advanced_def onReady_def nth_list_update split: if_splits)

lemma advanced_timeout: "task_advanced xs u (fst (dependency_timeout i u))"
proof (cases u)
  case (Starting n ds)
  then show ?thesis by (cases "i < length ds") (auto simp: task_advanced_def onTimeout_def nth_list_update Let_def)
qed (auto simp: task_advanced_def)

lemma advanced_close: "close_done stage i u = Some v \<Longrightarrow> task_advanced xs u v"
  by (cases u) (auto simp: task_advanced_def split: if_splits)

lemma server_inv_changed:
  assumes "server_inv xs es s" "\<And>u v. f u = Some v \<Longrightarrow> task_advanced xs u v"
  shows "server_inv xs es (s\<lparr>ds_tasks := change_first f (ds_tasks s)\<rparr>)"
  using change_first_cases [of f "ds_tasks s"]
proof
  assume "change_first f (ds_tasks s) = ds_tasks s"
  then show ?thesis using assms(1) by simp
next
  assume "\<exists>a u b v. ds_tasks s = a @ u # b \<and> f u = Some v \<and> change_first f (ds_tasks s) = a @ v # b"
  then show ?thesis using assms server_inv_advanced by metis
qed

definition not_loaded :: "server \<Rightarrow> bool" where
  "not_loaded s \<longleftrightarrow> (ds_loading s \<longrightarrow> ds_currentState s = STOPPED \<and> ds_tasks s = [])"

lemma stage_state_range: "stage_state n = Some st \<Longrightarrow> 2 \<le> state_rank st \<and> st \<noteq> RUNNING \<and> st \<noteq> STOPPED"
  by (auto simp: stage_state.simps split: if_splits)

text \<open>Before the first stage nothing is open.\<close>

lemma nothing_started:
  assumes "server_inv xs es s" "rank s \<le> 1"
  shows "stage_complete xs es s"
proof -
  have st: "ds_currentState s = STOPPED \<or> ds_currentState s = CONFIG_LOADED"
    using assms(2) by (cases "ds_currentState s") (auto simp: rank_def split: if_splits)
  have "t \<notin> set (ds_tasks s)" for t
    using assms st stage_state_range by (fastforce simp: server_inv_def tasks_ordered_def)
  then have "ds_tasks s = []" by (cases "ds_tasks s") auto
  moreover have "DependencyReady n i \<in> set xs" if "CallsWhenReady n i \<in> set es" for n i
    using assms st that stage_state_range [of n] by (fastforce simp: server_inv_def calls_tracked_def)
  moreover have "NeedsWhenReady n \<notin> set es" for n
    using assms by (auto simp: server_inv_def missing_blocks_def)
  ultimately show ?thesis by (simp add: stage_complete_def)
qed

lemma async_inv:
  assumes "transition_async num name s = (s', e)" "server_inv xs es s"
    and "name = ''loading-config'' \<longrightarrow> ds_loading s" "ds_currentState s = LOGGER_SHUTDOWN \<longrightarrow> \<not> ds_loading s"
    and "\<And>to h. find_transition name (ds_currentState s) transitions = Some (to, h) \<Longrightarrow> state_rank to \<le> 7 \<Longrightarrow>
           stage_complete xs es s"
  shows "server_inv xs (es @ e) s' \<and> rank s \<le> rank s' \<and> ds_loading s' = ds_loading s \<and>
    (find_transition name (ds_currentState s) transitions \<noteq> None \<longrightarrow> rank s < rank s')"
proof -
  obtain s1 e1 t where tr: "transition num name s = (s1, e1, t)" by (metis prod_cases3)
  then have "s' = s1" "\<exists>e2. e = e1 @ e2 \<and> (\<forall>x \<in> set e2. neutral x)"
    using assms(1) by (auto simp: transition_async_def split: option.splits)
  then show ?thesis
    using transition_inv [OF tr assms(2-5)] server_inv_neutral [of xs "es @ e1" s1] by fastforce
qed

lemma sync_inv:
  assumes "transition_sync num name s = (s', e)" "server_inv xs es s"
    and "name = ''loading-config'' \<longrightarrow> ds_loading s" "ds_currentState s = LOGGER_SHUTDOWN \<longrightarrow> \<not> ds_loading s"
    and "\<And>to h. find_transition name (ds_currentState s) transitions = Some (to, h) \<Longrightarrow> state_rank to \<le> 7 \<Longrightarrow>
           stage_complete xs es s"
  shows "server_inv xs (es @ e) s' \<and> rank s \<le> rank s' \<and> ds_loading s' = ds_loading s"
proof -
  obtain s1 e1 t where tr: "transition num name s = (s1, e1, t)" by (metis prod_cases3)
  then have "s' = s1" "\<exists>e2. e = e1 @ e2 \<and> (\<forall>x \<in> set e2. neutral x)"
    using assms(1) by (auto simp: transition_sync_def split: option.splits)
  then show ?thesis
    using transition_inv [OF tr assms(2-5)] server_inv_neutral [of xs "es @ e1" s1] by fastforce
qed

text \<open>When all a stage waits for is there, nothing is open any more.\<close>

lemma resumed_complete:
  assumes I: "server_inv xs es s" and ts: "ds_tasks s = a @ u # b" and may: "may_resume stage u"
    and row: "find_transition stage (ds_currentState s) transitions = Some (to, h)" "state_rank to \<le> 7"
    and load: "\<not> ds_loading s"
  shows "stage_complete xs es (s\<lparr>ds_tasks := a @ b\<rparr>)"
proof -
  have name: "task_name u = stage" using may by (cases u) auto
  have u: "u \<in> set (ds_tasks s)" using ts by simp
  obtain st where st: "stage_state stage = Some st" "is_starting u \<longleftrightarrow> state_rank st \<le> 7"
    using I u name by (auto simp: server_inv_def tasks_ordered_def)
  have eq: "st = ds_currentState s" using row_from [OF row(1) st(1)] .
  have nl: "ds_currentState s \<noteq> STOPPED" using eq st(1) stage_state_range by blast
  then have rk: "rank s < state_rank to" "rank s = state_rank (ds_currentState s)"
    using row_rank [OF row(1)] by (auto simp: rank_def)
  obtain ds where d: "u = Starting stage ds" "\<forall>d \<in> set ds. di_isReady d"
    using may st(2) eq rk row(2) by (cases u) auto
  have "t \<notin> set (a @ b)" for t
  proof
    assume t: "t \<in> set (a @ b)"
    then have "stage_state (task_name t) = Some (ds_currentState s)"
      using I ts rk row(2) unfolding server_inv_def tasks_ordered_def by fastforce
    then have "task_name t = task_name u" using stage_state_inj st(1) eq name by metis
    moreover have "distinct (map task_name (a @ u # b))"
      using I ts by (simp add: server_inv_def tasks_ordered_def)
    then have "task_name u \<notin> task_name ` set (a @ b)" by auto
    ultimately show False using t by (metis imageI)
  qed
  then have "a @ b = []" by (cases "a @ b") auto
  moreover have "DependencyReady n i \<in> set xs" if c: "CallsWhenReady n i \<in> set es" for n i
  proof -
    have "DependencyReady n i \<in> set xs \<or> stage_state n = Some (ds_currentState s) \<and> i < length ds"
      using I c rk row(2) u d(1) unfolding server_inv_def calls_tracked_def by fastforce
    moreover have "DependencyReady stage i \<in> set xs" if "i < length ds"
      using I u d that unfolding server_inv_def readiness_known_def by auto
    ultimately show ?thesis using stage_state_inj st(1) eq by metis
  qed
  moreover have "NeedsWhenReady n \<notin> set es" for n
  proof
    assume c: "NeedsWhenReady n \<in> set es"
    have "missing_blocks es s" using I by (simp add: server_inv_def)
    then have "\<exists>d \<in> set ds. \<not> di_isReady d" using c rk row(2) u d(1) unfolding missing_blocks_def by force
    then show False using d(2) by blast
  qed
  ultimately show ?thesis by (simp add: stage_complete_def)
qed

lemma not_loaded_rank: "not_loaded s \<Longrightarrow> ds_loading s \<Longrightarrow> rank s = 0"
  by (simp add: not_loaded_def rank_def)

lemma config_step_inv:
  assumes "server_inv xs es s" "not_loaded s" "server_step num s (ConfigLoads config services) = (s', e)"
  shows "server_inv xs (es @ e) s' \<and> not_loaded s' \<and> rank s \<le> rank s'"
proof (cases "ds_loading s")
  case True
  let ?s = "s\<lparr>ds_config := config, ds_services := services\<rparr>"
  have st: "ds_currentState s = STOPPED" using assms(2) True by (simp add: not_loaded_def)
  obtain s1 where tr: "transition_async num ''loading-config'' ?s = (s1, e)" and s': "s' = s1\<lparr>ds_loading := False\<rparr>"
    using assms(3) True by (auto simp: Let_def split_beta prod_eq_iff)
  have I: "server_inv xs es ?s" using server_inv_cong [OF assms(1)] by (simp add: server_inv_rank_congs)
  have complete: "stage_complete xs es ?s"
    using nothing_started [OF I] not_loaded_rank [OF assms(2) True] by (simp add: server_inv_rank_congs)
  have "find_transition ''loading-config'' STOPPED transitions \<noteq> None" by (simp add: transitions_def)
  then have "server_inv xs (es @ e) s1" "rank ?s < rank s1"
    using async_inv [OF tr I] complete True st by auto
  moreover have "rank s' = rank s1" using \<open>rank ?s < rank s1\<close> s' by (auto simp: rank_def split: if_splits)
  ultimately show ?thesis
    using server_inv_cong [of xs "es @ e" s1 s'] s' by (simp add: not_loaded_def server_inv_rank_congs)
qed (use assms in simp)

lemma handler_closed_inv:
  assumes I: "server_inv xs es s" and load: "not_loaded s" and step: "server_step num s HandlerClosed = (s', e)"
  shows "server_inv xs (es @ e) s' \<and> not_loaded s' \<and> rank s \<le> rank s'"
proof (cases "remove_first is_closing_handler (ds_tasks s)")
  case None
  then show ?thesis using assms by simp
next
  case (Some p)
  then obtain fs ts a b where p: "p = (ClosingHandler fs, ts)" and ts: "ds_tasks s = a @ ClosingHandler fs # b" "ts = a @ b"
    by (metis is_closing_handler.elims(2) prod.exhaust remove_first_some)
  have nl: "\<not> ds_loading s" using load ts by (auto simp: not_loaded_def)
  let ?s = "s\<lparr>ds_tasks := ts\<rparr>"
  have I2: "server_inv xs es ?s" using server_inv_removed [OF I ts(1)] ts(2) by simp
  obtain s1 e1 r where c: "close_handlers fs ?s = (s1, e1, r)" by (metis prod_cases3)
  note ce = close_handlers_end [OF c]
  have ne: "\<forall>x \<in> set e1. neutral x" using close_handlers_effects [OF c] neutral_simps(9) by blast
  have rk: "rank s1 = rank s" using ce by (simp add: rank_def)
  show ?thesis
  proof (cases r)
    case Waits
    then obtain gs where gs: "ds_tasks s1 = a @ b @ [ClosingHandler gs]" using ce ts by auto
    have "task_advanced xs (ClosingHandler fs) (ClosingHandler gs)" by (simp add: task_advanced_def)
    note adv = server_inv_advanced [OF I ts(1) this]
    have "distinct (map task_name (a @ b @ [ClosingHandler gs]))"
      using adv by (auto simp: server_inv_def tasks_ordered_def)
    then have "server_inv xs es (s\<lparr>ds_tasks := a @ b @ [ClosingHandler gs]\<rparr>)"
      using server_inv_reordered [OF adv, of "a @ b @ [ClosingHandler gs]"] by auto
    then have "server_inv xs es s1"
      using server_inv_cong [of xs es _ s1] ce gs rk by (simp add: server_inv_rank_congs)
    then show ?thesis
      using server_inv_neutral [OF _ ne] step Some p c Waits ce nl rk by (auto simp: not_loaded_def)
  next
    case (Throwing x)
    then have "server_inv xs es s1"
      using server_inv_cong [OF I2, of s1] ce rk by (simp add: server_inv_rank_congs)
    then show ?thesis
      using server_inv_neutral [of xs es s1 "e1 @ [Rejects x]"] ne step Some p c Throwing ce nl rk
      by (auto simp: not_loaded_def)
  next
    case (Then name)
    have name: "name = ''handlers-closed''" using ce Then by simp
    have "server_inv xs es s1"
      using server_inv_cong [OF I2, of s1] ce rk Then by (simp add: server_inv_rank_congs)
    then have I3: "server_inv xs (es @ e1) s1" using server_inv_neutral ne by blast
    obtain s2 e2 where tr: "transition_async num name s1 = (s2, e2)" by fastforce
    have "8 \<le> state_rank to" if "find_transition name (ds_currentState s1) transitions = Some (to, h)" for to h
      using find_transition_in [OF that] name by (auto simp: transitions_def)
    then have "server_inv xs ((es @ e1) @ e2) s2 \<and> rank s1 \<le> rank s2 \<and> ds_loading s2 = ds_loading s1"
      using async_inv [OF tr I3] name nl ce by fastforce
    then show ?thesis
      using step Some p c Then tr ce nl rk by (auto simp: not_loaded_def)
  qed
qed

lemma resumes_inv:
  assumes I: "server_inv xs es s" and load: "not_loaded s" and step: "server_step num s (Resumes stage) = (s', e)"
  shows "server_inv xs (es @ e) s' \<and> not_loaded s' \<and> rank s \<le> rank s'"
proof (cases "remove_first (may_resume stage) (ds_tasks s)")
  case None
  then show ?thesis using assms by simp
next
  case (Some p)
  then obtain u ts a b where p: "p = (u, ts)" and ts: "ds_tasks s = a @ u # b" "ts = a @ b" and may: "may_resume stage u"
    by (metis prod.exhaust remove_first_some)
  have nl: "\<not> ds_loading s" using load ts by (auto simp: not_loaded_def)
  let ?s = "s\<lparr>ds_tasks := a @ b\<rparr>"
  define s1 where "s1 = (if stage = ''services-started'' then servicesReady ?s else ?s)"
  have s1: "ds_currentState s1 = ds_currentState s" "ds_loading s1 = ds_loading s" "ds_tasks s1 = a @ b" "rank s1 = rank s"
    by (simp_all add: s1_def servicesReady_def rank_def)
  have I2: "server_inv xs es s1"
    using server_inv_cong [OF server_inv_removed [OF I ts(1)], of s1] s1 by (simp add: server_inv_rank_congs)
  have "stage_complete xs es s1"
    if "find_transition stage (ds_currentState s1) transitions = Some (to, h)" "state_rank to \<le> 7" for to h
    using resumed_complete [OF I ts(1) may, of to h] that s1 nl by (simp add: stage_complete_def)
  moreover have "stage \<noteq> ''loading-config''"
  proof
    assume "stage = ''loading-config''"
    moreover have "task_name u = stage" using may by (cases u) auto
    moreover have "u \<in> set (ds_tasks s)" using ts by simp
    ultimately show False using I by (auto simp: server_inv_def tasks_ordered_def)
  qed
  moreover have tr: "transition_async num stage s1 = (s', e)"
    using step Some p ts by (simp add: s1_def Let_def)
  ultimately have "server_inv xs (es @ e) s' \<and> rank s1 \<le> rank s' \<and> ds_loading s' = ds_loading s1"
    using async_inv [OF tr I2] nl s1 by auto
  then show ?thesis using s1 nl by (simp add: not_loaded_def)
qed

lemma server_step_inv:
  assumes I0: "server_inv xs es s" and load: "not_loaded s" and step: "server_step num s x = (s', e)"
  shows "server_inv (xs @ [x]) (es @ e) s' \<and> not_loaded s' \<and> rank s \<le> rank s'"
proof -
  note I = server_inv_more [OF I0, of "[x]"]
  show ?thesis
  proof (cases x)
    case (ConfigLoads c v)
    then show ?thesis using config_step_inv [OF I load] step by simp
  next
    case LoadFails
    have "server_inv (xs @ [x]) es (s\<lparr>ds_loading := False\<rparr>)" if "ds_loading s"
    proof -
      have "stage_complete (xs @ [x]) es s" using nothing_started [OF I] not_loaded_rank [OF load that] by simp
      then show ?thesis
        using I load that not_loaded_rank [OF load that] unfolding inv_defs stage_complete_def not_loaded_def rank_def by auto
    qed
    then show ?thesis
      using server_inv_neutral [of "xs @ [x]" es "s\<lparr>ds_loading := False\<rparr>" "[Rejects LoadRejected]"] I load step LoadFails
        not_loaded_rank [OF load]
      by (auto simp: not_loaded_def rank_def split: if_splits)
  next
    case CallsStart
    show ?thesis
    proof (cases "ds_currentState s = CONFIG_LOADED")
      case True
      then have nl: "\<not> ds_loading s" "rank s \<le> 1" using load by (auto simp: not_loaded_def rank_def)
      have tr: "transition_sync num ''start'' s = (s', e)" using step CallsStart True by (simp add: start_def)
      show ?thesis using sync_inv [OF tr I] nothing_started [OF I nl(2)] nl True by (simp add: not_loaded_def)
    next
      case False
      then show ?thesis
        using step CallsStart server_inv_cong [OF I, of s'] load
        by (auto simp: start_def server_inv_rank_congs not_loaded_def)
    qed
  next
    case CallsStop
    show ?thesis
    proof (cases "e = [Throws AlreadyStopped] \<and> s' = s \<or> e = [CurrentlyShuttingDown] \<and> s' = s")
      case True
      then show ?thesis using server_inv_neutral [OF I, of e] load by auto
    next
      case False
      then have tr: "transition_sync num ''stop'' s = (s', e)" and st: "ds_currentState s \<noteq> STOPPED"
        using step CallsStop by (auto simp: stop_def split: if_splits)
      have nl: "\<not> ds_loading s" using load st by (auto simp: not_loaded_def)
      show ?thesis using sync_inv [OF tr I] row_stop nl by (fastforce simp: not_loaded_def)
    qed
  next
    case (CallsSet key v)
    obtain s1 r where 1: "set_option num key v s = (s1, r)" by fastforce
    have "s' = s1" "\<forall>y \<in> set e. neutral y" using step CallsSet 1 by (auto split: option.splits)
    then show ?thesis
      using set_option_frame [OF 1] server_inv_cong [OF I, of s1] server_inv_neutral [of "xs @ [x]" es s1 e] load
      by (simp add: rank_def not_loaded_def)
  next
    case (DependencyReady stage i)
    have "server_inv (xs @ [x]) es (s\<lparr>ds_tasks := change_first (dependency_ready stage i) (ds_tasks s)\<rparr>)"
      by (rule server_inv_changed [OF I]) (auto intro!: advanced_ready simp: DependencyReady)
    then show ?thesis
      using step DependencyReady load by (auto simp: not_loaded_def rank_def)
  next
    case (DependencyTimesOut stage i)
    have "server_inv (xs @ [x]) es (s\<lparr>ds_tasks := change_first
        (\<lambda>u. if timer_runs stage i u then Some (fst (dependency_timeout i u)) else None) (ds_tasks s)\<rparr>)"
      by (rule server_inv_changed [OF I]) (auto split: if_splits intro: advanced_timeout)
    moreover have "\<forall>y \<in> set (snd (dependency_timeout i t)). neutral y" for t
      by (cases t) (auto simp: onTimeout_def Let_def)
    ultimately show ?thesis
      using step DependencyTimesOut load I server_inv_neutral
      by (auto simp: not_loaded_def rank_def split: option.splits)
  next
    case (CloseDone stage i)
    have "server_inv (xs @ [x]) es (s\<lparr>ds_tasks := change_first (close_done stage i) (ds_tasks s)\<rparr>)"
      by (rule server_inv_changed [OF I]) (rule advanced_close)
    then show ?thesis
      using step CloseDone load by (auto simp: not_loaded_def rank_def)
  next
    case HandlerClosed
    then show ?thesis using handler_closed_inv [OF I load] step by simp
  next
    case (CloseFails stage)
    show ?thesis
    proof (cases "remove_first (may_fail stage) (ds_tasks s)")
      case None
      then show ?thesis using step CloseFails I load by simp
    next
      case (Some p)
      then obtain u ts a b where p: "p = (u, ts)" and ts: "ds_tasks s = a @ u # b" "ts = a @ b"
        by (metis prod.exhaust remove_first_some)
      have "server_inv (xs @ [x]) (es @ [Rejects CloseRejected]) (s\<lparr>ds_tasks := a @ b\<rparr>)"
        using server_inv_neutral [OF server_inv_removed [OF I ts(1)]] by simp
      then show ?thesis using step CloseFails Some p ts load by (auto simp: not_loaded_def rank_def)
    qed
  next
    case (Resumes stage)
    then show ?thesis using resumes_inv [OF I load] step by simp
  next
    case ClientConnects
    then show ?thesis using server_inv_neutral [OF I, of e] step load by auto
  next
    case ClientDisconnects
    then show ?thesis using server_inv_neutral [OF I, of e] step load by auto
  qed
qed

section \<open>Runs of the server\<close>

definition server_history :: "input list \<Rightarrow> effect list \<Rightarrow> server \<Rightarrow> bool" where
  "server_history xs es s \<longleftrightarrow> server_inv xs es s \<and> not_loaded s"

interpretation startup: traced_system "server_step num" new_server server_history for num
proof (unfold_locales, goal_cases)
  case 1
  show ?case by (simp add: server_history_def inv_defs new_server_def not_loaded_def)
next
  case (2 xs es s x t e)
  then show ?case using server_step_inv [of xs es s num x t e] by (simp add: server_history_def)
qed

lemma serve_rank:
  assumes "server_history xs es s"
  shows "rank s \<le> rank (fst (serve num s ys))"
  using assms
proof (induction ys arbitrary: xs es s)
  case (Cons y ys)
  obtain s1 e1 where 1: "server_step num s y = (s1, e1)" by fastforce
  have "rank s \<le> rank s1" "server_history (xs @ [y]) (es @ e1) s1"
    using server_step_inv [OF _ _ 1] Cons.prems by (auto simp: server_history_def)
  then show ?case using Cons.IH [of "xs @ [y]" "es @ e1" s1] 1 by (simp add: split_beta)
qed simp

section \<open>Properties\<close>

text \<open>C8: When the server says it has started, every service, plugin and endpoint has the method \<open>whenReady\<close> and
  whatever was asked to get ready has said that it is.\<close>

theorem started_when_all_ready:
  assumes "serve num new_server xs = (s, es)" "EmitStarted \<in> set es"
  shows "(\<forall>n i. CallsWhenReady n i \<in> set es \<longrightarrow> DependencyReady n i \<in> set xs) \<and> (\<forall>name. NeedsWhenReady name \<notin> set es)"
  using startup.inv_trace [OF assms(1)] assms(2)
  by (auto simp: server_history_def server_inv_def started_ready_def missing_blocks_def)

text \<open>The server passes through its states in one order, whatever happens and is called: it never goes back to an
  earlier state.\<close>

theorem states_only_forward:
  "rank (fst (serve num new_server xs)) \<le> rank (fst (serve num new_server (xs @ ys)))"
proof -
  have "server_history xs (snd (serve num new_server xs)) (fst (serve num new_server xs))"
    by (rule startup.inv_reached)
  from serve_rank [OF this] show ?thesis by (simp add: run_append split_beta Let_def)
qed

text \<open>A server that has been stopped does not start again: after the event stopped it stays in its state
  whatever is called, although the comment on \<open>stopped\<close> says it can be started again.\<close>

theorem stopped_for_good:
  assumes "EmitStopped \<in> set (snd (serve num new_server xs))"
  shows "ds_currentState (fst (serve num new_server (xs @ ys))) = STOPPED"
proof -
  have "server_history (xs @ ys) (snd (serve num new_server (xs @ ys))) (fst (serve num new_server (xs @ ys)))"
    by (rule startup.inv_reached)
  moreover have "EmitStopped \<in> set (snd (serve num new_server (xs @ ys)))"
    using assms by (simp add: run_append split_beta Let_def)
  ultimately have "rank (fst (serve num new_server (xs @ ys))) = 13"
    by (simp add: server_history_def server_inv_def)
  then show ?thesis
    by (cases "ds_currentState (fst (serve num new_server (xs @ ys)))") (auto simp: rank_def split: if_splits)
qed

section \<open>Examples\<close>

theorem started_when_all_ready_witness:
  "\<not> (\<exists>name. NeedsWhenReady name \<in> set (snd (serve id new_server toy_start)))"
  using started_when_all_ready [of id toy_start _ "snd (serve id new_server toy_start)"] toy_started
  by (metis prod.collapse)

theorem stopped_for_good_witness:
  "ds_currentState (fst (serve id new_server ([ConfigLoads toy_config toy_services, CallsStart, CallsStop,
     CloseDone ''logger-closed'' 0, Resumes ''logger-closed''] @ [CallsStart]))) = STOPPED"
  by (rule stopped_for_good) code_simp

end
