(* ===== verification/StopOrder.thy ===== *)
theory StopOrder
  imports StartOrder "HOL-Library.Sublist"
begin

text \<open>
  The server stops in order, and what it does with calls that come too early or too late: the components closed
  one after the other until the state STOPPED, settings made before the configuration is there, stages that get
  ready after the stop, and the states in which \<open>stop\<close> is refused.
\<close>

section \<open>Stopping in order\<close>

text \<open>What the stop closes, in this order; the logger is one of the services and comes once more.\<close>

definition enabled_features :: "server \<Rightarrow> string list \<Rightarrow> string list" where
  "enabled_features s fs = filter (\<lambda>f. feature_enabled s f = Some True) fs"

definition closing_services :: "server \<Rightarrow> string list" where
  "closing_services s = filter (\<lambda>k. m_close (the (service_methods (ds_services s) k))) (js_keys (ds_services s))"

definition closing_plugins :: "server \<Rightarrow> (string \<times> methods) list" where
  "closing_plugins s = filter (\<lambda>(_, m). m_close m) (the (members (ds_services s) ''plugins''))"

text \<open>
  The stop goes through phases: what is closed in one of them, and the transition that follows when the promises
  are fulfilled. Every handler is a phase of its own.
\<close>

type_synonym phase = "string \<times> dependency list"

definition handler_phase :: "string \<Rightarrow> phase" where
  "handler_phase f = (''handlers-closed'', [TheHandler f])"

definition last_phases :: "server \<Rightarrow> phase list" where
  "last_phases s = [(''services-closed'', map TheService (closing_services s)), (''logger-closed'', [TheLogger])]"

definition phases :: "server \<Rightarrow> phase list" where
  "phases s =
     (''connection-endpoints-closed'', map TheEndpoint [0..<length (the (members (ds_services s) ''connectionEndpoints''))]) #
     (''plugins-closed'', map (\<lambda>(k, _). ThePlugin k) (closing_plugins s)) #
     map handler_phase (enabled_features s features) @ last_phases s"

definition closing_order :: "server \<Rightarrow> dependency list" where
  "closing_order s = concat (map snd (phases s))"

text \<open>Whatever \<open>close\<close> is called on has the method, and the configuration can be read.\<close>

definition closable :: "server \<Rightarrow> bool" where
  "closable s \<longleftrightarrow>
     (\<exists>ms. members (ds_services s) ''connectionEndpoints'' = Some ms \<and> (\<forall>(_, m) \<in> set ms. m_close m)) \<and>
     members (ds_services s) ''plugins'' \<noteq> None \<and>
     (\<forall>f \<in> set features. feature_enabled s f \<noteq> None \<and> (feature_enabled s f = Some True \<longrightarrow> f \<in> set (ds_handlers s))) \<and>
     (\<forall>k \<in> set (js_keys (ds_services s)). service_methods (ds_services s) k \<noteq> None) \<and>
     (\<exists>m. service_methods (ds_services s) ''logger'' = Some m \<and> m_close m)"

fun is_closing :: "input \<Rightarrow> bool" where
  "is_closing (CloseDone _ _) = True"
| "is_closing HandlerClosed = True"
| "is_closing (Resumes _) = True"
| "is_closing _ = False"

fun closed_by :: "effect \<Rightarrow> dependency option" where
  "closed_by (Closes d) = Some d"
| "closed_by _ = None"

definition closed_in :: "effect list \<Rightarrow> dependency list" where
  "closed_in es = List.map_filter closed_by es"

lemma closed_in_simps [simp]:
  "closed_in [] = []" "closed_in (x # es) = (case closed_by x of Some d \<Rightarrow> d # closed_in es | None \<Rightarrow> closed_in es)"
  "closed_in (es @ fs) = closed_in es @ closed_in fs" "closed_in (map (\<lambda>x. Closes (f x)) xs) = map f xs"
  by (induction es) (auto simp: closed_in_def map_filter_simps split: option.splits, simp add: closed_in_def map_filter_def comp_def)

lemma closed_in_plugins: "closed_in (map (\<lambda>(k, _). Closes (ThePlugin k)) ps) = map (\<lambda>(k, _). ThePlugin k) ps"
  by (induction ps) auto

definition at :: "states \<Rightarrow> task list \<Rightarrow> server \<Rightarrow> server" where
  "at st ts s = s\<lparr>ds_currentState := st, ds_tasks := ts\<rparr>"

lemma at_simps [simp]:
  "ds_currentState (at st ts s) = st" "ds_tasks (at st ts s) = ts" "ds_services (at st ts s) = ds_services s"
  "ds_config (at st ts s) = ds_config s" "ds_handlers (at st ts s) = ds_handlers s"
  "moved st' (at st ts s) = at st' ts s" "await t (at st ts s) = at st (ts @ [t]) s"
  "(at st ts s)\<lparr>ds_tasks := ts'\<rparr> = at st ts' s" "feature_enabled (at st ts s) f = feature_enabled s f"
  "ds_loading (at st ts s) = ds_loading s"
  by (simp_all add: at_def moved_def await_def feature_enabled_def)

text \<open>The server in a phase of the stop of \<open>s\<close>: what is still to be closed, and which promises are fulfilled.\<close>

definition handlers_known :: "server \<Rightarrow> string list \<Rightarrow> bool" where
  "handlers_known s fs \<longleftrightarrow>
     (\<forall>f \<in> set fs. feature_enabled s f \<noteq> None \<and> (feature_enabled s f = Some True \<longrightarrow> f \<in> set (ds_handlers s)))"

inductive waiting :: "server \<Rightarrow> phase list \<Rightarrow> bool list \<Rightarrow> server \<Rightarrow> bool" for s where
  endpoints: "length bs = length (snd (hd (phases s))) \<Longrightarrow>
     waiting s (phases s) bs (at CONNECTION_ENDPOINT_SHUTDOWN [Stopping ''connection-endpoints-closed'' bs] s)"
| plugins: "length bs = length (closing_plugins s) \<Longrightarrow>
     waiting s (tl (phases s)) bs (at PLUGIN_SHUTDOWN [Stopping ''plugins-closed'' bs] s)"
| handler: "handlers_known s fs \<Longrightarrow>
     waiting s (handler_phase f # map handler_phase (enabled_features s fs) @ last_phases s) [False]
       (at HANDLER_SHUTDOWN [ClosingHandler fs] s)"
| services: "length bs = length (closing_services s) \<Longrightarrow>
     waiting s (last_phases s) bs (at SERVICE_SHUTDOWN [Stopping ''services-closed'' bs] s)"
| logger: "length bs = 1 \<Longrightarrow>
     waiting s (tl (last_phases s)) bs (at LOGGER_SHUTDOWN [Stopping ''logger-closed'' bs] s)"

text \<open>The next phase has begun, or the server has stopped; what this closed.\<close>

fun begun :: "server \<Rightarrow> phase list \<Rightarrow> server \<times> effect list \<Rightarrow> bool" where
  "begun s [] (t, es) = (t = at STOPPED [] s \<and> closed_in es = [])"
| "begun s (p # ps) (t, es) = (waiting s (p # ps) (replicate (length (snd p)) False) t \<and> closed_in es = snd p)"

lemma close_handlers_done:
  "handlers_known s fs \<Longrightarrow> enabled_features s fs = [] \<Longrightarrow>
     close_handlers fs (at HANDLER_SHUTDOWN [] s) = (at HANDLER_SHUTDOWN [] s, [], Then ''handlers-closed'')"
  by (induction fs) (auto simp: handlers_known_def enabled_features_def split: option.splits bool.splits if_splits)

lemma close_handlers_next:
  "handlers_known s fs \<Longrightarrow> enabled_features s fs = f # rest \<Longrightarrow>
     \<exists>gs. close_handlers fs (at HANDLER_SHUTDOWN [] s) = (at HANDLER_SHUTDOWN [ClosingHandler gs] s, [Closes (TheHandler f)], Waits) \<and>
       handlers_known s gs \<and> enabled_features s gs = rest"
proof (induction fs)
  case (Cons g fs)
  then obtain b where b: "feature_enabled s g = Some b" by (auto simp: handlers_known_def)
  show ?case
  proof (cases b)
    case True
    then show ?thesis using Cons.prems b
      by (intro exI [of _ fs]) (auto simp: handlers_known_def enabled_features_def)
  next
    case False
    then show ?thesis using Cons b by (auto simp: handlers_known_def enabled_features_def)
  qed
qed (simp add: enabled_features_def)

text \<open>What is left of the handlers is closed, or the services are.\<close>

lemma services_begin:
  assumes "closable s"
  shows "\<exists>t es. transition num ''handlers-closed'' (at HANDLER_SHUTDOWN [] s) = (t, es, None) \<and> begun s (last_phases s) (t, es)"
proof -
  have "service_methods (ds_services s) k \<noteq> None" if "k \<in> set (js_keys (ds_services s))" for k
    using assms that unfolding closable_def by blast
  then have all: "takeWhile (\<lambda>k. service_methods (ds_services s) k \<noteq> None) (js_keys (ds_services s)) = js_keys (ds_services s)"
    by (simp add: takeWhile_eq_all_conv)
  have "call_handler num H_serviceShutdown (at SERVICE_SHUTDOWN [] s) =
      (at SERVICE_SHUTDOWN [Stopping ''services-closed'' (replicate (length (closing_services s)) False)] s,
       map (\<lambda>k. Closes (TheService k)) (closing_services s), Waits)"
    by (simp only: call_handler.simps serviceShutdown_def Let_def at_simps all closing_services_def if_True simp_thms append_Nil)
  then have "transition num ''handlers-closed'' (at HANDLER_SHUTDOWN [] s) =
      (at SERVICE_SHUTDOWN [Stopping ''services-closed'' (replicate (length (closing_services s)) False)] s,
       map (\<lambda>k. Closes (TheService k)) (closing_services s) @ [StateChanged SERVICE_SHUTDOWN], None)"
    by (subst transition_waits [where to = SERVICE_SHUTDOWN and h = H_serviceShutdown]) (auto simp: transitions_def)
  moreover have "waiting s (last_phases s) (replicate (length (closing_services s)) False)
      (at SERVICE_SHUTDOWN [Stopping ''services-closed'' (replicate (length (closing_services s)) False)] s)"
    by (rule waiting.services) simp
  ultimately show ?thesis by (simp add: last_phases_def)
qed

lemma handlers_go_on:
  assumes "closable s" "handlers_known s fs"
  shows "(\<exists>t es. close_handlers fs (at HANDLER_SHUTDOWN [] s) = (t, es, Waits) \<and>
        begun s (map handler_phase (enabled_features s fs) @ last_phases s) (t, es)) \<or>
     close_handlers fs (at HANDLER_SHUTDOWN [] s) = (at HANDLER_SHUTDOWN [] s, [], Then ''handlers-closed'') \<and>
        enabled_features s fs = []"
proof (cases "enabled_features s fs")
  case Nil
  then show ?thesis using close_handlers_done [OF assms(2) Nil] by simp
next
  case (Cons f rest)
  obtain gs where g: "close_handlers fs (at HANDLER_SHUTDOWN [] s) = (at HANDLER_SHUTDOWN [ClosingHandler gs] s, [Closes (TheHandler f)], Waits)"
      "handlers_known s gs" "enabled_features s gs = rest"
    using close_handlers_next [OF assms(2) Cons] by blast
  have "begun s (map handler_phase (f # rest) @ last_phases s) (at HANDLER_SHUTDOWN [ClosingHandler gs] s, [Closes (TheHandler f)])"
    using waiting.handler [OF g(2), of f] g(3) by (simp add: handler_phase_def)
  then show ?thesis using g(1) Cons by auto
qed

text \<open>When all promises of a phase are fulfilled the next one begins.\<close>

fun goes_on :: "string \<Rightarrow> input" where
  "goes_on n = (if n = ''handlers-closed'' then HandlerClosed else Resumes n)"

lemma resumed:
  "transition num n (at st [] s) = (t, es, None) \<Longrightarrow> n \<noteq> ''services-started'' \<Longrightarrow> \<forall>b \<in> set bs. b \<Longrightarrow>
     server_step num (at st [Stopping n bs] s) (Resumes n) = (t, es)"
  by (auto simp: transition_async_def)

lemma plugins_begin:
  assumes "closable s"
  shows "\<exists>t es. transition num ''connection-endpoints-closed'' (at CONNECTION_ENDPOINT_SHUTDOWN [] s) = (t, es, None) \<and>
     begun s (tl (phases s)) (t, es)"
proof -
  have row: "find_transition ''connection-endpoints-closed'' (ds_currentState (at CONNECTION_ENDPOINT_SHUTDOWN [] s)) transitions =
      Some (PLUGIN_SHUTDOWN, H_pluginsShutdown)"
    by (simp add: transitions_def)
  let ?bs = "replicate (length (closing_plugins s)) False"
  have "call_handler num H_pluginsShutdown (moved PLUGIN_SHUTDOWN (at CONNECTION_ENDPOINT_SHUTDOWN [] s)) =
      (at PLUGIN_SHUTDOWN [Stopping ''plugins-closed'' ?bs] s,
       map (\<lambda>(k, _). Closes (ThePlugin k)) (closing_plugins s), Waits)"
    using assms by (auto simp: pluginsShutdown_def closing_plugins_def closable_def Let_def)
  note transition_waits [OF row this]
  moreover have "waiting s (tl (phases s)) ?bs (at PLUGIN_SHUTDOWN [Stopping ''plugins-closed'' ?bs] s)"
    by (rule waiting.plugins) simp
  ultimately show ?thesis by (simp add: phases_def closed_in_plugins)
qed

lemma handlers_begin:
  assumes "closable s"
  shows "\<exists>t es. transition num ''plugins-closed'' (at PLUGIN_SHUTDOWN [] s) = (t, es, None) \<and>
     begun s (map handler_phase (enabled_features s features) @ last_phases s) (t, es)"
proof -
  have known: "handlers_known s features" using assms by (simp add: closable_def handlers_known_def)
  have row: "find_transition ''plugins-closed'' (ds_currentState (at PLUGIN_SHUTDOWN [] s)) transitions = Some (HANDLER_SHUTDOWN, H_handlerShutdown)"
    by (simp add: transitions_def)
  have call: "call_handler num H_handlerShutdown (moved HANDLER_SHUTDOWN (at PLUGIN_SHUTDOWN [] s)) =
      close_handlers features (at HANDLER_SHUTDOWN [] s)" by simp
  obtain t2 es2 where t2: "transition num ''handlers-closed'' (at HANDLER_SHUTDOWN [] s) = (t2, es2, None)"
      "begun s (last_phases s) (t2, es2)"
    using services_begin [OF assms] by blast
  from handlers_go_on [OF assms known] show ?thesis
  proof (elim disjE exE conjE)
    fix t es assume c: "close_handlers features (at HANDLER_SHUTDOWN [] s) = (t, es, Waits)"
      and b: "begun s (map handler_phase (enabled_features s features) @ last_phases s) (t, es)"
    have "begun s (map handler_phase (enabled_features s features) @ last_phases s) (t, es @ [StateChanged HANDLER_SHUTDOWN])"
      using b by (cases "map handler_phase (enabled_features s features) @ last_phases s") simp_all
    moreover have "call_handler num H_handlerShutdown (moved HANDLER_SHUTDOWN (at PLUGIN_SHUTDOWN [] s)) = (t, es, Waits)"
      using c call by simp
    note transition_waits [OF row this]
    ultimately show ?thesis by blast
  next
    assume c: "close_handlers features (at HANDLER_SHUTDOWN [] s) = (at HANDLER_SHUTDOWN [] s, [], Then ''handlers-closed'')"
      and n: "enabled_features s features = []"
    have "begun s (last_phases s) (t2, es2 @ [StateChanged (ds_currentState t2)])" using t2(2) by (simp add: last_phases_def)
    moreover have "call_handler num H_handlerShutdown (moved HANDLER_SHUTDOWN (at PLUGIN_SHUTDOWN [] s)) =
        (at HANDLER_SHUTDOWN [] s, [], Then ''handlers-closed'')"
      using c call by simp
    note transition_chains [OF row this t2(1)]
    ultimately show ?thesis using n by auto
  qed
qed

lemma logger_begins:
  assumes "closable s"
  shows "\<exists>t es. transition num ''services-closed'' (at SERVICE_SHUTDOWN [] s) = (t, es, None) \<and> begun s (tl (last_phases s)) (t, es)"
proof -
  have "transition num ''services-closed'' (at SERVICE_SHUTDOWN [] s) =
      (at LOGGER_SHUTDOWN [Stopping ''logger-closed'' [False]] s, [Closes TheLogger, StateChanged LOGGER_SHUTDOWN], None)"
    using assms
    by (subst transition_waits [where to = LOGGER_SHUTDOWN and h = H_loggerShutdown])
       (auto simp: transitions_def loggerShutdown_def closable_def)
  moreover have "waiting s (tl (last_phases s)) [False] (at LOGGER_SHUTDOWN [Stopping ''logger-closed'' [False]] s)"
    by (rule waiting.logger) simp
  ultimately show ?thesis by (simp add: last_phases_def)
qed

lemma stopped_begins:
  "\<exists>t es. transition num ''logger-closed'' (at LOGGER_SHUTDOWN [] s) = (t, es, None) \<and> begun s [] (t, es)"
  by (subst transition_waits [where to = STOPPED and h = H_stopped]) (auto simp: transitions_def)

lemma phase_ends:
  assumes "waiting s (p # rest) bs t" "closable s" "fst p \<noteq> ''handlers-closed'' \<longrightarrow> (\<forall>b \<in> set bs. b)"
  shows "begun s rest (server_step num t (goes_on (fst p)))"
  using assms(1)
proof cases
  case endpoints
  obtain u es where "transition num ''connection-endpoints-closed'' (at CONNECTION_ENDPOINT_SHUTDOWN [] s) = (u, es, None)"
      "begun s (tl (phases s)) (u, es)" using plugins_begin [OF assms(2)] by blast
  moreover have "rest = tl (phases s)" "fst p = ''connection-endpoints-closed''"
    using endpoints by (metis list.sel(3), simp add: phases_def)
  ultimately show ?thesis using resumed [of num "''connection-endpoints-closed''"] endpoints assms(3) by simp
next
  case plugins
  obtain u es where "transition num ''plugins-closed'' (at PLUGIN_SHUTDOWN [] s) = (u, es, None)"
      "begun s (map handler_phase (enabled_features s features) @ last_phases s) (u, es)"
    using handlers_begin [OF assms(2)] by blast
  moreover have "rest = map handler_phase (enabled_features s features) @ last_phases s" "fst p = ''plugins-closed''"
    using plugins by (simp_all add: phases_def)
  ultimately show ?thesis using resumed [of num "''plugins-closed''"] plugins assms(3) by simp
next
  case (handler fs f)
  obtain t2 es2 where t2: "transition num ''handlers-closed'' (at HANDLER_SHUTDOWN [] s) = (t2, es2, None)"
      "begun s (last_phases s) (t2, es2)"
    using services_begin [OF assms(2)] by blast
  have p: "fst p = ''handlers-closed''" using handler by (simp add: handler_phase_def)
  from handlers_go_on [OF assms(2) handler(5)] p handler(1-4) t2 show ?thesis
    by (auto simp: transition_async_def)
next
  case services
  obtain u es where "transition num ''services-closed'' (at SERVICE_SHUTDOWN [] s) = (u, es, None)"
      "begun s (tl (last_phases s)) (u, es)" using logger_begins [OF assms(2)] by blast
  moreover have "rest = tl (last_phases s)" "fst p = ''services-closed''"
    using services by (simp_all add: last_phases_def)
  ultimately show ?thesis using resumed [of num "''services-closed''"] services assms(3) by simp
next
  case logger
  obtain u es where "transition num ''logger-closed'' (at LOGGER_SHUTDOWN [] s) = (u, es, None)" "begun s [] (u, es)"
    using stopped_begins by blast
  moreover have "rest = []" "fst p = ''logger-closed''" using logger by (simp_all add: last_phases_def)
  ultimately show ?thesis using resumed [of num "''logger-closed''"] logger assms(3) by simp
qed

text \<open>
  Any other input closes nothing: it may fulfil a promise, or end the stop when a promise is rejected, after which
  nothing is closed any more. Options are not set meanwhile.
\<close>

fun sets_option :: "input \<Rightarrow> bool" where
  "sets_option (CallsSet _ _) = True"
| "sets_option _ = False"

definition given_up :: "server \<Rightarrow> bool" where
  "given_up s \<longleftrightarrow> ds_tasks s = [] \<and> \<not> ds_loading s \<and> ds_currentState s \<in>
     {CONNECTION_ENDPOINT_SHUTDOWN, PLUGIN_SHUTDOWN, HANDLER_SHUTDOWN, SERVICE_SHUTDOWN, LOGGER_SHUTDOWN, STOPPED}"

lemma stop_meanwhile:
  assumes "ds_currentState t \<in> {CONNECTION_ENDPOINT_SHUTDOWN, PLUGIN_SHUTDOWN, HANDLER_SHUTDOWN, SERVICE_SHUTDOWN, LOGGER_SHUTDOWN, STOPPED}"
  shows "fst (server_step num t CallsStop) = t \<and> closed_in (snd (server_step num t CallsStop)) = []"
proof -
  have "find_transition ''stop'' HANDLER_SHUTDOWN transitions = None" by (simp add: transitions_def)
  then show ?thesis using assms by (auto simp: stop_def transition_sync_def transition_refused)
qed

lemma start_meanwhile:
  "ds_currentState t \<noteq> CONFIG_LOADED \<Longrightarrow> server_step num t CallsStart = (t\<lparr>ds_startWhenLoaded := True\<rparr>, [])"
  by (simp add: start_def)

lemma closed_in_informs [simp]:
  "closed_in (map InformsConnected ls) = []" "closed_in (map InformsDisconnected ls) = []"
  by (induction ls) simp_all

lemma given_up_stays:
  assumes "given_up t" "\<not> sets_option y"
  shows "given_up (fst (server_step num t y)) \<and> closed_in (snd (server_step num t y)) = []"
proof (cases y)
  case CallsStop
  then show ?thesis using stop_meanwhile [of t num] assms(1) by (simp add: given_up_def del: server_step.simps)
next
  case CallsStart
  have "server_step num t CallsStart = (t\<lparr>ds_startWhenLoaded := True\<rparr>, [])"
    using assms(1) by (intro start_meanwhile) (auto simp: given_up_def)
  then show ?thesis unfolding CallsStart using assms(1) by (simp add: given_up_def del: server_step.simps)
qed (use assms in \<open>auto simp: given_up_def\<close>)

lemma phase_stays:
  assumes "ds_currentState (at st [] s) \<in> {CONNECTION_ENDPOINT_SHUTDOWN, PLUGIN_SHUTDOWN, SERVICE_SHUTDOWN, LOGGER_SHUTDOWN}"
    and "\<not> ds_loading s" "\<not> sets_option y" "y = Resumes n \<longrightarrow> (\<exists>b \<in> set bs. \<not> b)"
  shows "closed_in (snd (server_step num (at st [Stopping n bs] s) y)) = [] \<and>
    (given_up (fst (server_step num (at st [Stopping n bs] s) y)) \<or>
     (\<exists>w cs. fst (server_step num (at st [Stopping n bs] s) y) = at st [Stopping n cs] (s\<lparr>ds_startWhenLoaded := w\<rparr>) \<and>
        length cs = length bs \<and> (\<forall>i < length cs. cs ! i \<longrightarrow> bs ! i \<or> y = CloseDone n i)))"
    (is "?c \<and> (?g \<or> ?e)")
proof -
  let ?t = "at st [Stopping n bs] s"
  have same: "?c \<and> ?e" if "fst (server_step num ?t y) = ?t" "closed_in (snd (server_step num ?t y)) = []"
    using that by (intro conjI exI [of _ "ds_startWhenLoaded s"] exI [of _ bs]) (simp_all add: at_def)
  have load: "\<not> ds_loading s" using assms(2) .
  show ?thesis
  proof (cases y)
    case CallsStop
    then show ?thesis using stop_meanwhile [of ?t num] assms(1) same by (auto simp del: server_step.simps)
  next
    case CallsStart
    have "server_step num ?t CallsStart = (?t\<lparr>ds_startWhenLoaded := True\<rparr>, [])"
      using assms(1) by (intro start_meanwhile) auto
    then show ?thesis unfolding CallsStart
      by (intro conjI disjI2 exI [of _ True] exI [of _ bs]) (simp_all add: at_def del: server_step.simps)
  next
    case (CloseDone m i)
    show ?thesis
    proof (cases "m = n \<and> i < length bs")
      case True
      then have "server_step num ?t y = (at st [Stopping n (bs[i := True])] s, [])" using CloseDone by simp
      then show ?thesis using True CloseDone
        by (intro conjI disjI2 exI [of _ "ds_startWhenLoaded s"] exI [of _ "bs[i := True]"])
           (simp_all add: at_def nth_list_update del: server_step.simps)
    next
      case False
      then show ?thesis using CloseDone same by auto
    qed
  next
    case (CloseFails m)
    then show ?thesis using assms(1) load same by (cases "may_fail m (Stopping n bs)") (auto simp: given_up_def)
  next
    case (Resumes m)
    then have "\<not> may_resume m (Stopping n bs)" using assms(4) by auto
    then have "remove_first (may_resume m) [Stopping n bs] = None" by (simp del: may_resume.simps)
    then have "server_step num ?t y = (?t, [])" using Resumes by (simp del: remove_first.simps may_resume.simps)
    then show ?thesis using same by simp
  qed (use assms(3) load same in auto)
qed

lemma handler_stays:
  assumes "\<not> ds_loading s" "\<not> sets_option y" "y \<noteq> HandlerClosed"
  shows "closed_in (snd (server_step num (at HANDLER_SHUTDOWN [ClosingHandler fs] s) y)) = [] \<and>
    (given_up (fst (server_step num (at HANDLER_SHUTDOWN [ClosingHandler fs] s) y)) \<or>
     (\<exists>w. fst (server_step num (at HANDLER_SHUTDOWN [ClosingHandler fs] s) y) =
        at HANDLER_SHUTDOWN [ClosingHandler fs] (s\<lparr>ds_startWhenLoaded := w\<rparr>)))"
    (is "?c \<and> (?g \<or> ?e)")
proof -
  let ?t = "at HANDLER_SHUTDOWN [ClosingHandler fs] s"
  have same: "?c \<and> ?e" if "fst (server_step num ?t y) = ?t" "closed_in (snd (server_step num ?t y)) = []"
    using that by (intro conjI exI [of _ "ds_startWhenLoaded s"]) (simp_all add: at_def)
  have load: "\<not> ds_loading s" using assms(1) .
  show ?thesis
  proof (cases y)
    case CallsStop
    then show ?thesis using stop_meanwhile [of ?t num] same by (auto simp del: server_step.simps)
  next
    case CallsStart
    have "server_step num ?t CallsStart = (?t\<lparr>ds_startWhenLoaded := True\<rparr>, [])" by (intro start_meanwhile) auto
    then show ?thesis unfolding CallsStart
      by (intro conjI disjI2 exI [of _ True]) (simp_all add: at_def del: server_step.simps)
  next
    case (CloseFails m)
    then show ?thesis using load same by (cases "m = ''handlers-closed''") (auto simp: given_up_def)
  qed (use assms(2,3) load same in auto)
qed

section \<open>Every promise is awaited\<close>

text \<open>What is closed after the stop and these inputs; the input that fulfils a promise, given after the call of \<open>close\<close>.\<close>

definition closed_after :: "(string \<Rightarrow> string) \<Rightarrow> server \<Rightarrow> input list \<Rightarrow> dependency list" where
  "closed_after num s ys = closed_in (snd (serve num s (CallsStop # ys)))"

fun promise :: "string \<Rightarrow> nat \<Rightarrow> input" where
  "promise n i = (if n = ''handlers-closed'' then HandlerClosed else CloseDone n i)"

definition fulfilled :: "(string \<Rightarrow> string) \<Rightarrow> server \<Rightarrow> input list \<Rightarrow> phase \<Rightarrow> nat \<Rightarrow> bool" where
  "fulfilled num s ys p i \<longleftrightarrow>
     (\<exists>before after. ys = before @ promise (fst p) i # after \<and> snd p ! i \<in> set (closed_after num s before))"

definition waited :: "(string \<Rightarrow> string) \<Rightarrow> server \<Rightarrow> input list \<Rightarrow> phase \<Rightarrow> bool" where
  "waited num s ys p \<longleftrightarrow> (\<forall>i < length (snd p). fulfilled num s ys p i)"

lemma fulfilled_later: "fulfilled num s ys p i \<Longrightarrow> fulfilled num s (ys @ zs) p i"
  unfolding fulfilled_def by (metis append.assoc append_Cons)

lemma waited_later: "waited num s ys p \<Longrightarrow> waited num s (ys @ zs) p"
  using fulfilled_later by (auto simp: waited_def)

lemma fulfilled_now:
  "y = promise (fst p) i \<Longrightarrow> snd p ! i \<in> set (closed_after num s ys) \<Longrightarrow> fulfilled num s (ys @ [y]) p i"
  unfolding fulfilled_def by blast

lemma start_flag_congs [simp]:
  "closing_plugins (s\<lparr>ds_startWhenLoaded := w\<rparr>) = closing_plugins s"
  "closing_services (s\<lparr>ds_startWhenLoaded := w\<rparr>) = closing_services s"
  "feature_enabled (s\<lparr>ds_startWhenLoaded := w\<rparr>) = feature_enabled s"
  "enabled_features (s\<lparr>ds_startWhenLoaded := w\<rparr>) = enabled_features s"
  "last_phases (s\<lparr>ds_startWhenLoaded := w\<rparr>) = last_phases s"
  "phases (s\<lparr>ds_startWhenLoaded := w\<rparr>) = phases s"
  "closable (s\<lparr>ds_startWhenLoaded := w\<rparr>) = closable s"
  "handlers_known (s\<lparr>ds_startWhenLoaded := w\<rparr>) = handlers_known s"
  by (simp_all add: closing_plugins_def closing_services_def feature_enabled_def enabled_features_def last_phases_def
      phases_def closable_def handlers_known_def fun_eq_iff)

definition stop_states :: "states set" where
  "stop_states = {CONNECTION_ENDPOINT_SHUTDOWN, PLUGIN_SHUTDOWN, SERVICE_SHUTDOWN, LOGGER_SHUTDOWN}"

lemma waiting_stage:
  assumes "waiting s (p # rest) bs t" "fst p \<noteq> ''handlers-closed''"
  shows "length bs = length (snd p) \<and>
    (\<exists>st. st \<in> stop_states \<and> t = at st [Stopping (fst p) bs] s \<and>
       (\<forall>w cs. length cs = length bs \<longrightarrow> waiting (s\<lparr>ds_startWhenLoaded := w\<rparr>) (p # rest) cs
          (at st [Stopping (fst p) cs] (s\<lparr>ds_startWhenLoaded := w\<rparr>))))"
  using assms(1)
proof cases
  case endpoints
  then have ph: "phases s = p # rest" by simp
  then have p: "fst p = ''connection-endpoints-closed''" by (auto simp: phases_def)
  have l: "length bs = length (snd p)" using endpoints ph by simp
  have "waiting (s\<lparr>ds_startWhenLoaded := w\<rparr>) (p # rest) cs
      (at CONNECTION_ENDPOINT_SHUTDOWN [Stopping (fst p) cs] (s\<lparr>ds_startWhenLoaded := w\<rparr>))" if "length cs = length bs" for w cs
    using waiting.endpoints [of cs "s\<lparr>ds_startWhenLoaded := w\<rparr>"] that p l by (simp add: ph)
  then show ?thesis using endpoints p l by (auto simp: stop_states_def)
next
  case plugins
  then have p: "fst p = ''plugins-closed''" "length bs = length (snd p)" by (auto simp: phases_def)
  have "waiting (s\<lparr>ds_startWhenLoaded := w\<rparr>) (p # rest) cs
      (at PLUGIN_SHUTDOWN [Stopping (fst p) cs] (s\<lparr>ds_startWhenLoaded := w\<rparr>))" if "length cs = length bs" for w cs
    using waiting.plugins [of cs "s\<lparr>ds_startWhenLoaded := w\<rparr>"] plugins that p by simp
  then show ?thesis using plugins p by (auto simp: stop_states_def)
next
  case handler
  then show ?thesis using assms(2) by (simp add: handler_phase_def)
next
  case services
  then have p: "fst p = ''services-closed''" "length bs = length (snd p)" by (auto simp: last_phases_def)
  have "waiting (s\<lparr>ds_startWhenLoaded := w\<rparr>) (p # rest) cs
      (at SERVICE_SHUTDOWN [Stopping (fst p) cs] (s\<lparr>ds_startWhenLoaded := w\<rparr>))" if "length cs = length bs" for w cs
    using waiting.services [of cs "s\<lparr>ds_startWhenLoaded := w\<rparr>"] services that p by simp
  then show ?thesis using services p by (auto simp: stop_states_def)
next
  case logger
  then have p: "fst p = ''logger-closed''" "length bs = length (snd p)" by (auto simp: last_phases_def)
  have "waiting (s\<lparr>ds_startWhenLoaded := w\<rparr>) (p # rest) cs
      (at LOGGER_SHUTDOWN [Stopping (fst p) cs] (s\<lparr>ds_startWhenLoaded := w\<rparr>))" if "length cs = length bs" for w cs
    using waiting.logger [of cs "s\<lparr>ds_startWhenLoaded := w\<rparr>"] logger that p by simp
  then show ?thesis using logger p by (auto simp: stop_states_def)
qed

lemma waiting_handler:
  assumes "waiting s (p # rest) bs t" "fst p = ''handlers-closed''"
  shows "bs = [False] \<and> length (snd p) = 1 \<and>
    (\<exists>fs. t = at HANDLER_SHUTDOWN [ClosingHandler fs] s \<and>
       (\<forall>w. waiting (s\<lparr>ds_startWhenLoaded := w\<rparr>) (p # rest) bs
          (at HANDLER_SHUTDOWN [ClosingHandler fs] (s\<lparr>ds_startWhenLoaded := w\<rparr>))))"
  using assms(1)
proof cases
  case (handler fs f)
  have "waiting (s\<lparr>ds_startWhenLoaded := w\<rparr>) (p # rest) bs
      (at HANDLER_SHUTDOWN [ClosingHandler fs] (s\<lparr>ds_startWhenLoaded := w\<rparr>))" for w
    using waiting.handler [of "s\<lparr>ds_startWhenLoaded := w\<rparr>" fs f] handler by simp
  then show ?thesis using handler by (auto simp: handler_phase_def)
qed (use assms(2) in \<open>auto simp: phases_def last_phases_def\<close>)

text \<open>Where the stop is after some inputs.\<close>

definition stopping :: "(string \<Rightarrow> string) \<Rightarrow> server \<Rightarrow> input list \<Rightarrow> bool" where
  "stopping num s ys \<longleftrightarrow> (\<exists>passed p rest bs.
     phases s = passed @ p # rest \<and> closed_after num s ys = concat (map snd passed) @ snd p \<and>
     (\<forall>q \<in> set passed. waited num s ys q) \<and>
     (given_up (fst (serve num s (CallsStop # ys))) \<or>
      (\<exists>w. waiting (s\<lparr>ds_startWhenLoaded := w\<rparr>) (p # rest) bs (fst (serve num s (CallsStop # ys)))) \<and>
      (\<forall>i < length bs. bs ! i \<longrightarrow> fulfilled num s ys p i)))"

lemma stop_snoc:
  "fst (serve num s (CallsStop # ys @ [y])) = fst (server_step num (fst (serve num s (CallsStop # ys))) y)"
  "closed_after num s (ys @ [y]) =
     closed_after num s ys @ closed_in (snd (server_step num (fst (serve num s (CallsStop # ys))) y))"
  unfolding closed_after_def append_Cons [symmetric] run_append by (simp_all add: Let_def split_beta)

lemma stopping_quiet:
  assumes "phases s = passed @ p # rest" "closed_after num s ys = concat (map snd passed) @ snd p"
    and "\<forall>q \<in> set passed. waited num s ys q"
    and "closed_in (snd (server_step num (fst (serve num s (CallsStop # ys))) y)) = []"
    and "given_up (fst (server_step num (fst (serve num s (CallsStop # ys))) y)) \<or>
      (\<exists>w. waiting (s\<lparr>ds_startWhenLoaded := w\<rparr>) (p # rest) bs (fst (server_step num (fst (serve num s (CallsStop # ys))) y))) \<and>
      (\<forall>i < length bs. bs ! i \<longrightarrow> fulfilled num s (ys @ [y]) p i)"
  shows "stopping num s (ys @ [y])"
  unfolding stopping_def stop_snoc
  using assms(1,2) waited_later [of num s ys _ "[y]"] assms(3-5) by (intro exI conjI) auto

lemma stopping_next:
  assumes "phases s = passed @ p # rest" "closed_after num s ys = concat (map snd passed) @ snd p"
    and "\<forall>q \<in> set passed. waited num s ys q" "waited num s (ys @ [y]) p"
    and "begun (s\<lparr>ds_startWhenLoaded := w\<rparr>) rest (server_step num (fst (serve num s (CallsStop # ys))) y)"
    and "\<not> ds_loading s"
  shows "stopping num s (ys @ [y])"
proof (cases rest)
  case Nil
  have "begun (s\<lparr>ds_startWhenLoaded := w\<rparr>) [] (t, es) \<Longrightarrow> closed_in es = [] \<and> given_up t" for t es
    using assms(6) by (simp add: given_up_def)
  from this [of "fst (server_step num (fst (serve num s (CallsStop # ys))) y)"
      "snd (server_step num (fst (serve num s (CallsStop # ys))) y)"]
  show ?thesis using stopping_quiet [OF assms(1-3)] assms(5) Nil by simp
next
  case (Cons q qs)
  have "begun (s\<lparr>ds_startWhenLoaded := w\<rparr>) (q # qs) (t, es) \<Longrightarrow>
      closed_in es = snd q \<and> waiting (s\<lparr>ds_startWhenLoaded := w\<rparr>) (q # qs) (replicate (length (snd q)) False) t" for t es
    by simp
  from this [of "fst (server_step num (fst (serve num s (CallsStop # ys))) y)"
      "snd (server_step num (fst (serve num s (CallsStop # ys))) y)"]
  have q: "closed_in (snd (server_step num (fst (serve num s (CallsStop # ys))) y)) = snd q"
      "waiting (s\<lparr>ds_startWhenLoaded := w\<rparr>) (q # qs) (replicate (length (snd q)) False)
         (fst (server_step num (fst (serve num s (CallsStop # ys))) y))"
    using assms(5) Cons by simp_all
  have "\<forall>r \<in> set (passed @ [p]). waited num s (ys @ [y]) r" using assms(3,4) waited_later by auto
  then show ?thesis
    unfolding stopping_def stop_snoc
    using assms(1,2) Cons q
    by (intro exI [of _ "passed @ [p]"] exI [of _ q] exI [of _ qs] exI [of _ "replicate (length (snd q)) False"] conjI) auto
qed

lemma stopping_step:
  assumes "stopping num s ys" "closable s" "\<not> ds_loading s" "\<not> sets_option y"
  shows "stopping num s (ys @ [y])"
proof -
  let ?t = "fst (serve num s (CallsStop # ys))"
  obtain passed p rest bs where inv: "phases s = passed @ p # rest" "closed_after num s ys = concat (map snd passed) @ snd p"
      "\<forall>q \<in> set passed. waited num s ys q"
    and now: "given_up ?t \<or> (\<exists>w. waiting (s\<lparr>ds_startWhenLoaded := w\<rparr>) (p # rest) bs ?t) \<and>
      (\<forall>i < length bs. bs ! i \<longrightarrow> fulfilled num s ys p i)"
    using assms(1) unfolding stopping_def by blast
  from now show ?thesis
  proof (elim disjE conjE exE)
    assume "given_up ?t"
    then show ?thesis using given_up_stays [OF _ assms(4)] by (intro stopping_quiet [OF inv]) auto
  next
    fix w
    let ?s = "s\<lparr>ds_startWhenLoaded := w\<rparr>"
    assume wt: "waiting ?s (p # rest) bs ?t" and ful: "\<forall>i < length bs. bs ! i \<longrightarrow> fulfilled num s ys p i"
    have here: "snd p ! i \<in> set (closed_after num s ys)" if "i < length (snd p)" for i
      using inv(2) that by simp
    show ?thesis
    proof (cases "fst p = ''handlers-closed''")
      case True
      from waiting_handler [OF wt True] obtain fs where h: "bs = [False]" "length (snd p) = 1"
          "?t = at HANDLER_SHUTDOWN [ClosingHandler fs] ?s"
          "\<And>v. waiting (s\<lparr>ds_startWhenLoaded := v\<rparr>) (p # rest) bs (at HANDLER_SHUTDOWN [ClosingHandler fs] (s\<lparr>ds_startWhenLoaded := v\<rparr>))"
        by auto
      show ?thesis
      proof (cases "y = HandlerClosed")
        case y: True
        have "waited num s (ys @ [y]) p" using h(2) True y here by (auto simp: waited_def intro!: fulfilled_now)
        moreover have "begun ?s rest (server_step num ?t y)" using phase_ends [OF wt] assms(2) True y by simp
        ultimately show ?thesis using stopping_next [OF inv] assms(3) by blast
      next
        case False
        have quiet: "closed_in (snd (server_step num ?t y)) = []" and "given_up (fst (server_step num ?t y)) \<or>
            (\<exists>v. fst (server_step num ?t y) = at HANDLER_SHUTDOWN [ClosingHandler fs] (s\<lparr>ds_startWhenLoaded := v\<rparr>))"
          using handler_stays [of ?s y num fs] False assms(3,4) unfolding h(3) by simp_all
        then have "given_up (fst (server_step num ?t y)) \<or>
            (\<exists>v. waiting (s\<lparr>ds_startWhenLoaded := v\<rparr>) (p # rest) bs (fst (server_step num ?t y)))"
          using h(4) by metis
        then show ?thesis using h(1) by (intro stopping_quiet [OF inv quiet, where bs = bs]) auto
      qed
    next
      case False
      from waiting_stage [OF wt False] obtain st where st: "length bs = length (snd p)"
          "st \<in> stop_states" "?t = at st [Stopping (fst p) bs] ?s"
          "\<And>v cs. length cs = length bs \<Longrightarrow> waiting (s\<lparr>ds_startWhenLoaded := v\<rparr>) (p # rest) cs
             (at st [Stopping (fst p) cs] (s\<lparr>ds_startWhenLoaded := v\<rparr>))"
        by auto
      show ?thesis
      proof (cases "y = Resumes (fst p) \<and> (\<forall>b \<in> set bs. b)")
        case True
        have "fulfilled num s ys p i" if "i < length (snd p)" for i using ful st(1) True that by (metis nth_mem)
        then have "waited num s (ys @ [y]) p" using fulfilled_later unfolding waited_def by blast
        moreover have y: "goes_on (fst p) = y" using False True by simp
        have "begun ?s rest (server_step num ?t (goes_on (fst p)))"
          by (rule phase_ends [OF wt]) (simp add: assms(2), use True in blast)
        then have "begun ?s rest (server_step num ?t y)" unfolding y .
        ultimately show ?thesis using stopping_next [OF inv] assms(3) by blast
      next
        case go: False
        have "closed_in (snd (server_step num ?t y)) = [] \<and> (given_up (fst (server_step num ?t y)) \<or>
            (\<exists>v cs. fst (server_step num ?t y) = at st [Stopping (fst p) cs] (s\<lparr>ds_startWhenLoaded := v\<rparr>) \<and>
               length cs = length bs \<and> (\<forall>i < length cs. cs ! i \<longrightarrow> bs ! i \<or> y = CloseDone (fst p) i)))"
        proof -
          have 1: "ds_currentState (at st [] ?s) \<in> {CONNECTION_ENDPOINT_SHUTDOWN, PLUGIN_SHUTDOWN, SERVICE_SHUTDOWN, LOGGER_SHUTDOWN}"
            using st(2) by (simp add: stop_states_def)
          have 2: "\<not> ds_loading ?s" using assms(3) by simp
          have 3: "y = Resumes (fst p) \<longrightarrow> (\<exists>b \<in> set bs. \<not> b)" using go by blast
          from phase_stays [OF 1 2 assms(4) 3] show ?thesis unfolding st(3) by (simp del: server_step.simps)
        qed
        then consider "closed_in (snd (server_step num ?t y)) = []" "given_up (fst (server_step num ?t y))"
          | v cs where "closed_in (snd (server_step num ?t y)) = []"
              "fst (server_step num ?t y) = at st [Stopping (fst p) cs] (s\<lparr>ds_startWhenLoaded := v\<rparr>)"
              "length cs = length bs" "\<And>i. i < length cs \<Longrightarrow> cs ! i \<Longrightarrow> bs ! i \<or> y = CloseDone (fst p) i"
          by blast
        then show ?thesis
        proof cases
          case 1
          then show ?thesis by (intro stopping_quiet [OF inv]) auto
        next
          case 2
          have "fulfilled num s (ys @ [y]) p i" if "i < length cs" "cs ! i" for i
            using 2(4) [OF that]
          proof
            assume "bs ! i"
            then show ?thesis using ful that(1) 2(3) fulfilled_later by auto
          next
            assume "y = CloseDone (fst p) i"
            then show ?thesis using here [of i] that(1) 2(3) st(1) False by (intro fulfilled_now) auto
          qed
          then show ?thesis
            using 2(1,2) st(4) [OF 2(3)] by (intro stopping_quiet [OF inv, where bs = cs]) auto
        qed
      qed
    qed
  qed
qed

lemma running_idle:
  assumes "serve num new_server xs = (s, es)" "isRunning s"
  shows "s = at RUNNING [] s \<and> \<not> ds_loading s"
proof -
  have I: "server_history xs es s" by (rule startup.inv_trace [OF assms(1)])
  have st: "ds_currentState s = RUNNING" using assms(2) by (simp add: isRunning_def)
  have "t \<notin> set (ds_tasks s)" for t
    using I st stage_state_range unfolding server_history_def server_inv_def tasks_ordered_def rank_def by fastforce
  then have "ds_tasks s = []" by (cases "ds_tasks s") auto
  then show ?thesis using st I by (auto simp: at_def server_history_def not_loaded_def)
qed

lemma stop_begins:
  assumes "s = at RUNNING [] s" "closable s"
  shows "begun s (phases s) (server_step num s CallsStop)"
proof -
  obtain ms where ms: "members (ds_services s) ''connectionEndpoints'' = Some ms" "\<forall>(_, m) \<in> set ms. m_close m"
    using assms(2) by (auto simp: closable_def)
  have all: "takeWhile (\<lambda>(_, m). m_close m) ms = ms" using ms(2) by (simp add: takeWhile_eq_all_conv)
  have "connectionEndpointShutdown (at CONNECTION_ENDPOINT_SHUTDOWN [] s) =
      (at CONNECTION_ENDPOINT_SHUTDOWN [Stopping ''connection-endpoints-closed'' (replicate (length ms) False)] s,
       map (\<lambda>i. Closes (TheEndpoint i)) [0..<length ms], Waits)"
    by (simp add: connectionEndpointShutdown_def Let_def ms(1) all)
  then have "transition num ''stop'' (at RUNNING [] s) =
      (at CONNECTION_ENDPOINT_SHUTDOWN [Stopping ''connection-endpoints-closed'' (replicate (length ms) False)] s,
       map (\<lambda>i. Closes (TheEndpoint i)) [0..<length ms] @ [StateChanged CONNECTION_ENDPOINT_SHUTDOWN], None)"
    by (subst transition_waits [where to = CONNECTION_ENDPOINT_SHUTDOWN and h = H_connectionEndpointShutdown])
       (auto simp: transitions_def)
  then have "server_step num (at RUNNING [] s) CallsStop =
      (at CONNECTION_ENDPOINT_SHUTDOWN [Stopping ''connection-endpoints-closed'' (replicate (length ms) False)] s,
       map (\<lambda>i. Closes (TheEndpoint i)) [0..<length ms] @ [StateChanged CONNECTION_ENDPOINT_SHUTDOWN])"
    by (simp add: stop_def transition_sync_def)
  moreover have "waiting s (phases s) (replicate (length ms) False)
      (at CONNECTION_ENDPOINT_SHUTDOWN [Stopping ''connection-endpoints-closed'' (replicate (length ms) False)] s)"
    by (rule waiting.endpoints) (simp add: phases_def ms(1))
  ultimately show ?thesis using assms(1) ms(1) by (simp add: phases_def)
qed

lemma stopping_always:
  assumes "s = at RUNNING [] s" "closable s" "\<not> ds_loading s" "\<forall>y \<in> set ys. \<not> sets_option y"
  shows "stopping num s ys"
  using assms(4)
proof (induction ys rule: rev_induct)
  case Nil
  obtain p rest where p: "phases s = p # rest" by (cases "phases s") (auto simp: phases_def)
  obtain t es where t: "server_step num s CallsStop = (t, es)" by fastforce
  then have "waiting s (p # rest) (replicate (length (snd p)) False) t" "closed_in es = snd p"
    using stop_begins [OF assms(1,2), of num] p by simp_all
  then show ?case
    unfolding stopping_def using p t
    by (intro exI [of _ "[]"] exI [of _ p] exI [of _ rest] exI [of _ "replicate (length (snd p)) False"] conjI disjI2
        exI [of _ "ds_startWhenLoaded s"]) (simp_all add: closed_after_def del: server_step.simps)
next
  case (snoc y ys)
  then show ?case using stopping_step [OF _ assms(2,3)] by simp
qed

text \<open>No component is in two phases.\<close>

lemma phases_apart: "sorted_wrt (\<lambda>p q. set (snd p) \<inter> set (snd q) = {}) (phases s)"
proof -
  have "distinct (enabled_features s features)" by (simp add: enabled_features_def features_def)
  then have "sorted_wrt (\<lambda>p q. set (snd p) \<inter> set (snd q) = {}) (map handler_phase (enabled_features s features))"
    by (induction "enabled_features s features") (auto simp: sorted_wrt_map handler_phase_def distinct_conv_nth sorted_wrt_iff_nth_less)
  then show ?thesis by (auto simp: phases_def last_phases_def sorted_wrt_append handler_phase_def)
qed

lemma closed_in_order:
  assumes "stopping num s ys"
  shows "prefix (closed_after num s ys) (closing_order s) \<and>
    (\<forall>passed p rest. phases s = passed @ p # rest \<and> set (snd p) \<inter> set (closed_after num s ys) \<noteq> {} \<longrightarrow>
       (\<forall>q \<in> set passed. waited num s ys q))"
proof (intro conjI allI impI)
  obtain before r after where inv: "phases s = before @ r # after"
      "closed_after num s ys = concat (map snd (before @ [r]))" "\<forall>q \<in> set before. waited num s ys q"
    using assms unfolding stopping_def by auto
  show "prefix (closed_after num s ys) (closing_order s)"
    using inv(1,2) by (simp add: closing_order_def)
  fix passed p rest
  assume p: "phases s = passed @ p # rest \<and> set (snd p) \<inter> set (closed_after num s ys) \<noteq> {}"
  then obtain d where d1: "d \<in> set (snd p)" "d \<in> set (concat (map snd (before @ [r])))" using inv(2) by auto
  then obtain q where "q \<in> set (before @ [r])" "d \<in> set (snd q)" unfolding set_concat set_map by blast
  note d = d1(1) this
  then obtain j where "j < length (before @ [r])" "(before @ [r]) ! j = q" by (meson in_set_conv_nth)
  then have j: "j \<le> length before" "q = phases s ! j" using inv(1) by (auto simp: nth_append split: if_splits)
  have i: "phases s ! length passed = p" "length passed < length (phases s)" using p by simp_all
  have "\<not> j < length passed"
    using sorted_wrt_nth_less [OF phases_apart, of j "length passed" s] i j d by auto
  moreover have "\<not> length passed < j"
    using sorted_wrt_nth_less [OF phases_apart, of "length passed" j s] i j d inv(1) by auto
  ultimately have "length passed \<le> length before" using j(1) by simp
  then have "set passed \<subseteq> set before"
    using p inv(1) by (metis append_eq_append_conv_if append_take_drop_id set_take_subset)
  then show "\<forall>q \<in> set passed. waited num s ys q" using inv(3) by blast
qed

section \<open>The stop ends\<close>

definition leads :: "(string \<Rightarrow> string) \<Rightarrow> server \<Rightarrow> dependency list \<Rightarrow> server \<Rightarrow> bool" where
  "leads num s ds t \<longleftrightarrow> (\<exists>ys es. (\<forall>y \<in> set ys. is_closing y) \<and> serve num s ys = (t, es) \<and> closed_in es = ds)"

lemma leads_refl: "leads num s [] s"
  unfolding leads_def by (intro exI [of _ "[]"]) simp

lemma leads_step: "server_step num s y = (t, es) \<Longrightarrow> is_closing y \<Longrightarrow> leads num t ds u \<Longrightarrow> leads num s (closed_in es @ ds) u"
  unfolding leads_def by (elim exE conjE, rule_tac x = "y # ys" in exI) auto

text \<open>The promises of a stage are fulfilled in any order; here from the first on.\<close>

lemma leads_fulfilled:
  "leads num (at st [Stopping n (replicate (length bs) True)] s) ds u \<Longrightarrow> leads num (at st [Stopping n bs] s) ds u"
proof -
  have "leads num (at st [Stopping n (replicate k True @ cs)] s) ds u"
    if "leads num (at st [Stopping n (replicate (k + length cs) True)] s) ds u" for k cs
    using that
  proof (induction cs arbitrary: k)
    case (Cons c cs)
    have "server_step num (at st [Stopping n (replicate k True @ c # cs)] s) (CloseDone n k) =
        (at st [Stopping n (replicate (Suc k) True @ cs)] s, [])"
      by (simp add: list_update_append replicate_append_same [symmetric])
    from leads_step [OF this] Cons.IH [of "Suc k"] Cons.prems show ?case by simp
  qed simp
  from this [of 0 bs] show "leads num (at st [Stopping n (replicate (length bs) True)] s) ds u \<Longrightarrow> ?thesis" by simp
qed

lemma leads_begun:
  assumes "begun s rest (server_step num t y)" "is_closing y"
    and "\<And>p ps u. rest = p # ps \<Longrightarrow> waiting s rest (replicate (length (snd p)) False) u \<Longrightarrow>
           leads num u (concat (map snd ps)) (at STOPPED [] s)"
  shows "leads num t (concat (map snd rest)) (at STOPPED [] s)"
proof -
  obtain u es where u: "server_step num t y = (u, es)" by fastforce
  show ?thesis
  proof (cases rest)
    case Nil
    then have "leads num u [] (at STOPPED [] s)" "closed_in es = []" using assms(1) u leads_refl by simp_all
    from leads_step [OF u assms(2) this(1)] this(2) Nil show ?thesis by simp
  next
    case (Cons p ps)
    then have "waiting s rest (replicate (length (snd p)) False) u" "closed_in es = snd p" using assms(1) u by simp_all
    from leads_step [OF u assms(2) assms(3) [OF Cons this(1)]] this(2) Cons show ?thesis by simp
  qed
qed

lemma leads_stopped:
  assumes "waiting s (p # rest) bs t" "closable s"
  shows "leads num t (concat (map snd rest)) (at STOPPED [] s)"
  using assms(1)
proof (induction "length rest" arbitrary: p rest bs t rule: less_induct)
  case less
  have next_phase: "leads num u (concat (map snd ps)) (at STOPPED [] s)"
    if "rest = q # ps" "waiting s rest (replicate (length (snd q)) False) u" for q ps u
    using less.hyps [of ps q] that by simp
  show ?case
  proof (cases "fst p = ''handlers-closed''")
    case True
    have "begun s rest (server_step num t HandlerClosed)" using phase_ends [OF less.prems assms(2)] True by simp
    then show ?thesis by (rule leads_begun) (simp, erule (1) next_phase)
  next
    case False
    from waiting_stage [OF less.prems False] obtain st where st: "t = at st [Stopping (fst p) bs] s"
        "\<And>v cs. length cs = length bs \<Longrightarrow> waiting (s\<lparr>ds_startWhenLoaded := v\<rparr>) (p # rest) cs
           (at st [Stopping (fst p) cs] (s\<lparr>ds_startWhenLoaded := v\<rparr>))"
      by blast
    have "waiting s (p # rest) (replicate (length bs) True) (at st [Stopping (fst p) (replicate (length bs) True)] s)"
      using st(2) [of "replicate (length bs) True" "ds_startWhenLoaded s"] by simp
    from phase_ends [OF this assms(2)] False
    have "begun s rest (server_step num (at st [Stopping (fst p) (replicate (length bs) True)] s) (Resumes (fst p)))" by simp
    then have "leads num (at st [Stopping (fst p) (replicate (length bs) True)] s) (concat (map snd rest)) (at STOPPED [] s)"
      by (rule leads_begun) (simp, erule (1) next_phase)
    then show ?thesis unfolding st(1) by (rule leads_fulfilled)
  qed
qed

section \<open>Properties\<close>

text \<open>C12: Stopping a running server, whose components have the method \<open>close\<close> where it is called: when the
  promises are fulfilled it reaches the state STOPPED with everything closed; and whatever happens meanwhile, as
  long as no option is set, what has been closed is an initial part of the closing order - endpoints, plugins,
  each handler, services, the logger - and nothing of a phase is closed before every promise of the earlier phases
  has been fulfilled after the call of \<open>close\<close> it came from.\<close>

theorem stop_closes_in_order:
  assumes "serve num new_server xs = (s, es)" "isRunning s" "closable s"
  shows "(\<exists>ys. (\<forall>y \<in> set ys. is_closing y) \<and> ds_currentState (fst (serve num s (CallsStop # ys))) = STOPPED \<and>
       closed_after num s ys = closing_order s) \<and>
     (\<forall>ys. (\<forall>y \<in> set ys. \<not> sets_option y) \<longrightarrow> prefix (closed_after num s ys) (closing_order s) \<and>
       (\<forall>passed p rest. phases s = passed @ p # rest \<and> set (snd p) \<inter> set (closed_after num s ys) \<noteq> {} \<longrightarrow>
          (\<forall>q \<in> set passed. waited num s ys q)))"
proof (intro conjI)
  have s: "s = at RUNNING [] s" "\<not> ds_loading s" using running_idle [OF assms(1,2)] by blast+
  obtain p rest t es where p: "phases s = p # rest" and t: "server_step num s CallsStop = (t, es)"
    by (cases "server_step num s CallsStop") (auto simp: phases_def)
  then have "waiting s (p # rest) (replicate (length (snd p)) False) t" "closed_in es = snd p"
    using stop_begins [OF s(1) assms(3), of num] by simp_all
  moreover from leads_stopped [OF this(1) assms(3)] obtain ys fs where ys: "\<forall>y \<in> set ys. is_closing y"
      "serve num t ys = (at STOPPED [] s, fs)" "closed_in fs = concat (map snd rest)"
    unfolding leads_def by blast
  ultimately show "\<exists>ys. (\<forall>y \<in> set ys. is_closing y) \<and> ds_currentState (fst (serve num s (CallsStop # ys))) = STOPPED \<and>
      closed_after num s ys = closing_order s"
    using t p by (intro exI [of _ ys]) (simp add: closed_after_def closing_order_def del: server_step.simps)
  show "\<forall>ys. (\<forall>y \<in> set ys. \<not> sets_option y) \<longrightarrow> prefix (closed_after num s ys) (closing_order s) \<and>
      (\<forall>passed p rest. phases s = passed @ p # rest \<and> set (snd p) \<inter> set (closed_after num s ys) \<noteq> {} \<longrightarrow>
         (\<forall>q \<in> set passed. waited num s ys q))"
    by (intro allI impI, rule closed_in_order) (rule stopping_always [OF s(1) assms(3) s(2)], blast)
qed

lemma transition_start:
  assumes "ds_currentState s = CONFIG_LOADED"
  shows "\<exists>ts e t. transition num ''start'' s = (at LOGGER_INIT ts s, e, t)"
proof -
  have row: "find_transition ''start'' (ds_currentState s) transitions = Some (LOGGER_INIT, H_loggerInit)"
    using assms by (simp add: transitions_def)
  have m: "moved LOGGER_INIT s = at LOGGER_INIT (ds_tasks s) s" by (simp add: moved_def at_def)
  show ?thesis
  proof (cases "service_methods (ds_services s) ''logger''")
    case None
    then show ?thesis using transition_throws [OF row, of num "at LOGGER_INIT (ds_tasks s) s" "[]" TypeErr]
      by (auto simp: m loggerInit_def)
  next
    case (Some mm)
    obtain d e where "new_initialiser ''logger-started'' 0 ''logger'' mm = (d, e)" by fastforce
    then show ?thesis
      using transition_waits [OF row, of num "at LOGGER_INIT (ds_tasks s @ [Starting ''logger-started'' [d]]) s" e] Some
      by (auto simp: m loggerInit_def)
  qed
qed

text \<open>C31: An option set before the configuration file has been read is applied when the server was told to start
  before the file was read, and forgotten without a word when it is told to start afterwards.\<close>

theorem early_settings_lost:
  "ds_config (fst (serve num new_server [CallsSet key v, ConfigLoads c sv, CallsStart])) = c \<and>
   ds_services (fst (serve num new_server [CallsSet key v, ConfigLoads c sv, CallsStart])) = sv \<and>
   (set_option num key v (new_server\<lparr>ds_currentState := CONFIG_LOADED, ds_config := c, ds_services := sv\<rparr>) = (applied, None) \<longrightarrow>
      ds_config (fst (serve num new_server [CallsSet key v, CallsStart, ConfigLoads c sv])) = ds_config applied \<and>
      ds_services (fst (serve num new_server [CallsSet key v, CallsStart, ConfigLoads c sv])) = ds_services applied)"
proof (intro conjI impI)
  let ?o = "[(key, v)]"
  let ?s = "\<lambda>w. new_server\<lparr>ds_startWhenLoaded := w, ds_overrideSettings := ?o, ds_config := c, ds_services := sv\<rparr>"
  have row: "find_transition ''loading-config'' (ds_currentState (?s w)) transitions = Some (CONFIG_LOADED, H_configLoaded)" for w
    by (simp add: transitions_def new_server_def)
  have "call_handler num H_configLoaded (moved CONFIG_LOADED (?s False)) = (moved CONFIG_LOADED (?s False), [], Waits)"
    by (simp add: configLoaded_def moved_def)
  from transition_waits [OF row this]
  have load: "server_step num (?s False) (ConfigLoads c sv) =
      ((moved CONFIG_LOADED (?s False))\<lparr>ds_loading := False\<rparr>, [StateChanged CONFIG_LOADED])"
    by (simp add: transition_async_def new_server_def)
  have set1: "server_step num new_server (CallsSet key v) = (new_server\<lparr>ds_overrideSettings := ?o\<rparr>, [])"
    by (simp add: set_option_def new_server_def)
  have load1: "server_step num (new_server\<lparr>ds_overrideSettings := ?o\<rparr>) (ConfigLoads c sv) =
      ((moved CONFIG_LOADED (?s False))\<lparr>ds_loading := False\<rparr>, [StateChanged CONFIG_LOADED])"
    using load by (simp add: new_server_def)
  obtain ts e t where "transition num ''start'' ((moved CONFIG_LOADED (?s False))\<lparr>ds_loading := False\<rparr>) =
      (at LOGGER_INIT ts ((moved CONFIG_LOADED (?s False))\<lparr>ds_loading := False\<rparr>), e, t)"
    using transition_start [of "(moved CONFIG_LOADED (?s False))\<lparr>ds_loading := False\<rparr>" num] by (auto simp: moved_def)
  then obtain e' where start1: "server_step num ((moved CONFIG_LOADED (?s False))\<lparr>ds_loading := False\<rparr>) CallsStart =
      (at LOGGER_INIT ts ((moved CONFIG_LOADED (?s False))\<lparr>ds_loading := False\<rparr>), e')"
    by (cases t) (simp_all add: start_def transition_sync_def moved_def)
  have run1: "fst (serve num new_server [CallsSet key v, ConfigLoads c sv, CallsStart]) =
      at LOGGER_INIT ts ((moved CONFIG_LOADED (?s False))\<lparr>ds_loading := False\<rparr>)"
    by (simp add: set1 load1 start1 del: server_step.simps)
  show "ds_config (fst (serve num new_server [CallsSet key v, ConfigLoads c sv, CallsStart])) = c"
    "ds_services (fst (serve num new_server [CallsSet key v, ConfigLoads c sv, CallsStart])) = sv"
    by (simp_all only: run1) (simp_all add: moved_def)
  assume applied: "set_option num key v (new_server\<lparr>ds_currentState := CONFIG_LOADED, ds_config := c, ds_services := sv\<rparr>) = (applied, None)"
  let ?a = "applied\<lparr>ds_startWhenLoaded := True, ds_overrideSettings := ?o\<rparr>"
  have set2: "set_option num key v (moved CONFIG_LOADED (?s True)) = (?a, None)"
    using applied by (auto simp: set_option_def moved_def new_server_def split: if_splits sum.splits option.splits)
  have "call_handler num H_configLoaded (moved CONFIG_LOADED (?s True)) = (?a, [], Then ''start'')"
    using set2 by (simp add: configLoaded_def moved_def)
  moreover have "ds_currentState ?a = CONFIG_LOADED" using set_option_frame [OF applied] by simp
  then obtain ts2 e2 t2 where start2: "transition num ''start'' ?a = (at LOGGER_INIT ts2 ?a, e2, t2)"
    using transition_start by blast
  ultimately have "\<exists>e t. transition num ''loading-config'' (?s True) = (at LOGGER_INIT ts2 ?a, e, t)"
    using row [of True] by (subst transition.simps) (cases t2; simp add: moved_def)
  then obtain e3 where "transition_async num ''loading-config'' (?s True) = (at LOGGER_INIT ts2 ?a, e3)"
    unfolding transition_async_def by (metis (no_types, lifting) option.exhaust case_prod_conv option.simps(4,5))
  then have load2: "server_step num (new_server\<lparr>ds_overrideSettings := ?o, ds_startWhenLoaded := True\<rparr>) (ConfigLoads c sv) =
      ((at LOGGER_INIT ts2 ?a)\<lparr>ds_loading := False\<rparr>, e3)"
    by (simp add: new_server_def)
  have start0: "server_step num (new_server\<lparr>ds_overrideSettings := ?o\<rparr>) CallsStart =
      (new_server\<lparr>ds_overrideSettings := ?o, ds_startWhenLoaded := True\<rparr>, [])"
    by (simp add: start_def new_server_def)
  have run2: "fst (serve num new_server [CallsSet key v, CallsStart, ConfigLoads c sv]) = (at LOGGER_INIT ts2 ?a)\<lparr>ds_loading := False\<rparr>"
    by (simp add: set1 start0 load2 del: server_step.simps)
  show "ds_config (fst (serve num new_server [CallsSet key v, CallsStart, ConfigLoads c sv])) = ds_config applied"
    "ds_services (fst (serve num new_server [CallsSet key v, CallsStart, ConfigLoads c sv])) = ds_services applied"
    by (simp_all only: run2) (simp_all add: at_def)
qed

text \<open>A stage of the start that gets ready after the server was told to stop is refused the transition; nothing
  awaits its promise, so the rejection goes unhandled.\<close>

theorem late_stage_rejected:
  assumes "serve num new_server xs = (s, es)" "8 \<le> rank s" "stage_state stage = Some st" "state_rank st \<le> 7"
    and "t \<in> set (ds_tasks s)" "may_resume stage t"
  shows "snd (server_step num s (Resumes stage)) = [Rejects (InvalidTransition stage (ds_currentState s))] \<and>
     ds_currentState (fst (server_step num s (Resumes stage))) = ds_currentState s"
proof -
  have "remove_first p ts \<noteq> None" if "u \<in> set ts" "p u" for p u and ts :: "task list"
    using that by (induction ts) auto
  then obtain u ts where r: "remove_first (may_resume stage) (ds_tasks s) = Some (u, ts)"
    using assms(5,6) by (metis option.exhaust prod.exhaust)
  have "find_transition stage (ds_currentState s) transitions = None"
  proof (rule ccontr)
    assume "find_transition stage (ds_currentState s) transitions \<noteq> None"
    then obtain to h where "find_transition stage (ds_currentState s) transitions = Some (to, h)" by auto
    from row_from [OF this assms(3)] show False using assms(2,4) by (auto simp: rank_def split: if_splits)
  qed
  then have "transition_async num stage x = (x, [Rejects (InvalidTransition stage (ds_currentState s))])"
    if "ds_currentState x = ds_currentState s" for x
    using that transition_refused [of stage x num] by (simp add: transition_async_def)
  then show ?thesis using r by (simp add: servicesReady_def Let_def)
qed

text \<open>Stopping is refused with an exception when the configuration is loaded but nothing started, and while the
  handlers are closed, where the other stages of the stop only report that it is under way.\<close>

theorem stop_refused:
  assumes "ds_currentState s \<in> {CONFIG_LOADED, HANDLER_INIT, HANDLER_SHUTDOWN}"
  shows "server_step num s CallsStop = (s, [Throws (InvalidTransition ''stop'' (ds_currentState s))])"
proof -
  have "find_transition ''stop'' (ds_currentState s) transitions = None" using assms by (auto simp: transitions_def)
  then show ?thesis using assms by (auto simp: stop_def transition_sync_def transition_refused)
qed

section \<open>Examples\<close>

lemma toy_closable: "closable (fst (serve id new_server toy_start))"
proof -
  have 1: "members (ds_services (fst (serve id new_server toy_start))) ''connectionEndpoints'' = Some [(''0'', plugin_methods)]"
    "members (ds_services (fst (serve id new_server toy_start))) ''plugins'' = Some []"
    "service_methods (ds_services (fst (serve id new_server toy_start))) ''logger'' = Some plugin_methods"
    "list_all (\<lambda>f. feature_enabled (fst (serve id new_server toy_start)) f \<noteq> None \<and>
       (feature_enabled (fst (serve id new_server toy_start)) f = Some True \<longrightarrow>
        f \<in> set (ds_handlers (fst (serve id new_server toy_start))))) features"
    "list_all (\<lambda>k. service_methods (ds_services (fst (serve id new_server toy_start))) k \<noteq> None)
       (js_keys (ds_services (fst (serve id new_server toy_start))))"
    by code_simp+
  then show ?thesis unfolding closable_def list_all_iff by (simp add: plugin_methods_def)
qed

theorem stop_closes_in_order_witness:
  "(\<exists>ys. closed_after id (fst (serve id new_server toy_start)) ys = closing_order (fst (serve id new_server toy_start))) \<and>
   waited id (fst (serve id new_server toy_start))
     [CloseDone ''connection-endpoints-closed'' 0, Resumes ''connection-endpoints-closed'', Resumes ''plugins-closed'']
     (''connection-endpoints-closed'', [TheEndpoint 0])"
proof -
  let ?s = "fst (serve id new_server toy_start)"
  let ?ys = "[CloseDone ''connection-endpoints-closed'' 0, Resumes ''connection-endpoints-closed'', Resumes ''plugins-closed'']"
  note stop = stop_closes_in_order [of id toy_start ?s "snd (serve id new_server toy_start)", OF _ _ toy_closable]
  have run: "serve id new_server toy_start = (?s, snd (serve id new_server toy_start))" by simp
  have 1: "phases ?s = [(''connection-endpoints-closed'', [TheEndpoint 0]), (''plugins-closed'', [])] @
      (''handlers-closed'', [TheHandler ''event'']) # drop 3 (phases ?s)"
    "TheHandler ''event'' \<in> set (closed_after id ?s ?ys)"
    by code_simp+
  have quiet: "\<forall>y \<in> set ?ys. \<not> sets_option y" by simp
  have "\<forall>q \<in> set [(''connection-endpoints-closed'', [TheEndpoint 0]), (''plugins-closed'', [])]. waited id ?s ?ys q"
    by (rule stop [OF run conjunct2 [OF toy_started], THEN conjunct2, THEN spec, THEN mp, OF quiet, THEN conjunct2,
          THEN spec, THEN spec, THEN spec, THEN mp, OF conjI [OF 1(1)]]) (use 1(2) in auto)
  then have "waited id ?s ?ys (''connection-endpoints-closed'', [TheEndpoint 0])" by simp
  then show ?thesis using stop [OF run conjunct2 [OF toy_started]] by blast
qed

theorem early_settings_lost_witness:
  "ds_config (fst (serve id new_server [CallsSet ''serverName'' (plain (JStr ''b'')), ConfigLoads toy_config toy_services, CallsStart])) = toy_config \<and>
   ds_config (fst (serve id new_server [CallsSet ''serverName'' (plain (JStr ''b'')), CallsStart, ConfigLoads toy_config toy_services])) \<noteq> toy_config"
proof -
  let ?r = "set_option id ''serverName'' (plain (JStr ''b''))
    (new_server\<lparr>ds_currentState := CONFIG_LOADED, ds_config := toy_config, ds_services := toy_services\<rparr>)"
  have "snd ?r = None" "ds_config (fst ?r) \<noteq> toy_config" by code_simp+
  then show ?thesis
    using early_settings_lost [of id "''serverName''" "plain (JStr ''b'')" toy_config toy_services "fst ?r"]
    by (metis prod.collapse)
qed

theorem late_stage_rejected_witness:
  "snd (server_step id (fst (serve id new_server [ConfigLoads toy_config toy_services, CallsStart, CallsStop,
       DependencyReady ''logger-started'' 0])) (Resumes ''logger-started'')) =
     [Rejects (InvalidTransition ''logger-started'' LOGGER_SHUTDOWN)]"
proof -
  let ?xs = "[ConfigLoads toy_config toy_services, CallsStart, CallsStop, DependencyReady ''logger-started'' 0]"
  let ?s = "fst (serve id new_server ?xs)"
  have s: "ds_currentState ?s = LOGGER_SHUTDOWN" "rank ?s = 12" by code_simp+
  have "list_ex (may_resume ''logger-started'') (ds_tasks ?s)" by code_simp
  then obtain t where "t \<in> set (ds_tasks ?s)" "may_resume ''logger-started'' t" by (auto simp: list_ex_iff)
  from late_stage_rejected [OF _ _ _ _ this, of id ?xs "snd (serve id new_server ?xs)" LOGGER_INIT] s show ?thesis
    by (simp del: server_step.simps)
qed

theorem stop_refused_witness:
  "server_step id (new_server\<lparr>ds_currentState := HANDLER_SHUTDOWN\<rparr>) CallsStop =
     (new_server\<lparr>ds_currentState := HANDLER_SHUTDOWN\<rparr>, [Throws (InvalidTransition ''stop'' HANDLER_SHUTDOWN)])"
  by (subst stop_refused) simp_all

end
