(* ===== verification/ConfigMerge.thy ===== *)
theory ConfigMerge
  imports JsObject Json
begin

text \<open>
  How the configuration of the server comes about: \<open>merge\<close> (\<open>src/utils/utils.ts\<close>), the default options
  (\<open>src/default-options.ts\<close>), \<open>extendConfig\<close> (\<open>src/config/js-yaml-loader.ts\<close>) and
  \<open>mergeConnectionOptions\<close> (\<open>src/config/config-initialiser.ts\<close>). A key whose value is \<open>undefined\<close> is left out
  of an object, since \<open>merge\<close> passes over it. Fractions and shared references do not occur.
\<close>

section \<open>merge\<close>

text \<open>
  Assigning to a primitive throws in strict mode. \<open>InheritedName\<close> stands for the assignments that would reach an
  object all objects share, the prototypes: their effect is not on the values modelled here.
\<close>

datatype merge_error = PrimitiveTarget | InheritedName string

definition object_names :: "string list" where
  "object_names = [''__proto__'', ''constructor'', ''hasOwnProperty'', ''isPrototypeOf'', ''propertyIsEnumerable'',
     ''toLocaleString'', ''toString'', ''valueOf'', ''__defineGetter__'', ''__defineSetter__'', ''__lookupGetter__'',
     ''__lookupSetter__'']"

definition array_names :: "string list" where
  "array_names = [''length'', ''concat'', ''copyWithin'', ''entries'', ''every'', ''fill'', ''filter'', ''find'', ''findIndex'',
     ''flat'', ''flatMap'', ''forEach'', ''includes'', ''indexOf'', ''join'', ''keys'', ''lastIndexOf'', ''map'', ''pop'', ''push'',
     ''reduce'', ''reduceRight'', ''reverse'', ''shift'', ''slice'', ''some'', ''sort'', ''splice'', ''unshift'', ''values'']"

definition inherited :: "json \<Rightarrow> string \<Rightarrow> bool" where
  "inherited a k \<longleftrightarrow> k \<in> set object_names \<or> (case a of JArr _ \<Rightarrow> k \<in> set array_names | _ \<Rightarrow> False)"

text \<open>\<open>v && v.constructor === Object\<close>, with the fields of such an object.\<close>

definition plain_fields :: "json \<Rightarrow> (string, json) jsmap option" where
  "plain_fields v = (case v of JObj fs \<Rightarrow> if js_get fs ''constructor'' = None then Some fs else None | _ \<Rightarrow> None)"

definition assign :: "json \<Rightarrow> string \<Rightarrow> json \<Rightarrow> merge_error + json" where
  "assign a k v =
     (if k = ''__proto__'' \<or> (k = ''length'' \<and> (case a of JArr _ \<Rightarrow> True | _ \<Rightarrow> False)) then Inl (InheritedName k)
      else case put_prop a k (Some v) of Inl _ \<Rightarrow> Inl PrimitiveTarget | Inr a' \<Rightarrow> Inr a')"

text \<open>\<open>objA[key] || {}\<close>\<close>

definition present_or_new :: "json \<Rightarrow> string \<Rightarrow> merge_error + json" where
  "present_or_new a k =
     (case property a k of
        Some v \<Rightarrow> Inr (if truthy (Some v) then v else JObj [])
      | None \<Rightarrow> if inherited a k then Inl (InheritedName k) else Inr (JObj []))"

lemma plain_fields_size:
  "plain_fields v = Some gs \<Longrightarrow> size_list (size_prod (\<lambda>_. 0) size) gs < size v"
  by (auto simp: plain_fields_def split: json.splits if_splits)

function internalMerge :: "json \<Rightarrow> (string, json) jsmap \<Rightarrow> merge_error + json" where
  "internalMerge a [] = Inr a"
| "internalMerge a ((k, v) # kvs) =
     (case (case plain_fields v of
              None \<Rightarrow> assign a k v
            | Some gs \<Rightarrow>
                (case present_or_new a k of
                   Inl e \<Rightarrow> Inl e
                 | Inr c \<Rightarrow>
                     (case assign a k c of
                        Inl e \<Rightarrow> Inl e
                      | Inr a1 \<Rightarrow> (case internalMerge c gs of Inl e \<Rightarrow> Inl e | Inr c' \<Rightarrow> assign a1 k c'))))
      of Inl e \<Rightarrow> Inl e
       | Inr a' \<Rightarrow> internalMerge a' kvs)"
  by pat_completeness auto

termination
  by (relation "measure (\<lambda>(a, kvs). size_list (size_prod (\<lambda>_. 0) size) kvs)")
     (auto dest: plain_fields_size)

fun merge_all :: "json \<Rightarrow> (string, json) jsmap list \<Rightarrow> merge_error + json" where
  "merge_all a [] = Inr a"
| "merge_all a (b # bs) = (case internalMerge a b of Inl e \<Rightarrow> Inl e | Inr a' \<Rightarrow> merge_all a' bs)"

definition js_merge :: "(string, json) jsmap list \<Rightarrow> merge_error + json" where
  "js_merge objs = merge_all (JObj []) objs"

section \<open>The default options\<close>

abbreviation num :: "int \<Rightarrow> json" where "num \<equiv> JNum"
abbreviation yes :: json where "yes \<equiv> JBool True"
abbreviation no :: json where "no \<equiv> JBool False"

definition arr :: "json list \<Rightarrow> json" where
  "arr vs = JArr (zip (map nat_str [0..<length vs]) vs)"

definition websocket_options :: "string \<Rightarrow> json" where
  "websocket_options urlPath = JObj
     [(''urlPath'', JStr urlPath), (''heartbeatInterval'', num 30000), (''outgoingBufferTimeout'', num 0),
      (''maxBufferByteSize'', num 100000), (''headers'', arr []), (''unauthenticatedClientTimeout'', num 180000),
      (''maxAuthAttempts'', num 3), (''logInvalidAuthData'', no), (''maxMessageSize'', num 1048576)]"

definition plugin_entry :: "string \<Rightarrow> (string \<times> json) list \<Rightarrow> json" where
  "plugin_entry t options = JObj [(''type'', JStr t), (''options'', JObj options)]"

definition default_endpoints :: "json list" where
  "default_endpoints =
     [JObj [(''type'', JStr ''ws-binary''), (''options'', websocket_options ''/deepstream'')],
      JObj [(''type'', JStr ''ws-text''), (''options'', websocket_options ''/deepstream-v3'')],
      JObj [(''type'', JStr ''ws-json''), (''options'', websocket_options ''/deepstream-json'')],
      plugin_entry ''http'' [(''allowAuthData'', yes), (''enableAuthEndpoint'', yes), (''authPath'', JStr ''/api/auth''),
        (''postPath'', JStr ''/api''), (''getPath'', JStr ''/api'')],
      plugin_entry ''mqtt'' [(''port'', num 1883), (''host'', JStr ''0.0.0.0''), (''idleTimeout'', num 180000),
        (''unauthenticatedClientTimeout'', num 180000)]]"

text \<open>\<open>get\<close>, with the unique id it makes and the number of the level \<open>INFO\<close>.\<close>

definition default_options :: "string \<Rightarrow> int \<Rightarrow> (string, json) jsmap" where
  "default_options uid info =
     [(''libDir'', JNull), (''serverName'', JStr uid), (''showLogo'', no), (''logLevel'', num info),
      (''dependencyInitializationTimeout'', num 2000), (''exitOnFatalError'', no),
      (''connectionEndpoints'', arr default_endpoints),
      (''logger'', plugin_entry ''default'' []),
      (''httpServer'', plugin_entry ''default'' [(''host'', JStr ''0.0.0.0''), (''port'', num 6020),
         (''healthCheckPath'', JStr ''/health-check''), (''allowAllOrigins'', yes), (''origins'', arr []), (''headers'', arr []),
         (''maxMessageSize'', num 1048576)]),
      (''subscriptions'', plugin_entry ''default'' [(''subscriptionsSanityTimer'', num 10000)]),
      (''auth'', arr [plugin_entry ''none'' []]),
      (''permission'', plugin_entry ''none'' [(''maxRuleIterations'', num 3), (''cacheEvacuationInterval'', num 60000)]),
      (''cache'', plugin_entry ''default'' []),
      (''storage'', plugin_entry ''default'' []),
      (''monitoring'', plugin_entry ''none'' []),
      (''telemetry'', plugin_entry ''deepstreamIO'' [(''enabled'', no)]),
      (''locks'', plugin_entry ''default'' [(''holdTimeout'', num 1000), (''requestTimeout'', num 1000)]),
      (''clusterNode'', plugin_entry ''default'' []),
      (''clusterRegistry'', plugin_entry ''default'' [(''keepAliveInterval'', num 5000), (''activeCheckInterval'', num 1000),
         (''nodeInactiveTimeout'', num 6000)]),
      (''clusterStates'', plugin_entry ''default'' [(''reconciliationTimeout'', num 500)]),
      (''plugins'', JObj []),
      (''rpc'', JObj [(''provideRequestorName'', no), (''provideRequestorData'', no), (''ackTimeout'', num 1000),
         (''responseTimeout'', num 10000)]),
      (''record'', JObj [(''storageHotPathPrefixes'', arr []), (''storageExclusionPrefixes'', arr []),
         (''cacheRetrievalTimeout'', num 1000), (''storageRetrievalTimeout'', num 2000)]),
      (''listen'', JObj [(''shuffleProviders'', yes), (''responseTimeout'', num 500), (''rematchInterval'', num 30000),
         (''matchCooldown'', num 10000)]),
      (''enabledFeatures'', JObj [(''record'', yes), (''event'', yes), (''rpc'', yes), (''presence'', yes), (''monitoring'', no)])]"

section \<open>Configuration file and command line\<close>

text \<open>\<open>cliArgs\<close> has the arguments whose names are those of default options, in the order of these.\<close>

definition cli_args :: "string \<Rightarrow> int \<Rightarrow> (string \<Rightarrow> json option) \<Rightarrow> (string, json) jsmap" where
  "cli_args uid info argv =
     concat (map (\<lambda>k. case argv k of None \<Rightarrow> [] | Some v \<Rightarrow> [(k, v)]) (js_keys (default_options uid info)))"

definition extendConfig ::
  "string \<Rightarrow> int \<Rightarrow> (string, json) jsmap \<Rightarrow> (string \<Rightarrow> json option) \<Rightarrow> merge_error + json" where
  "extendConfig uid info config argv =
     js_merge [[(''plugins'', JObj [])], default_options uid info, config, cli_args uid info argv]"

text \<open>The elements of an array, in the order of their indices, without its other properties; arrays have no holes.\<close>

definition array_items :: "json \<Rightarrow> json list option" where
  "array_items v = (case v of JArr kvs \<Rightarrow> Some (map snd (filter (\<lambda>(k, _). nat_lit k) kvs)) | _ \<Rightarrow> None)"

text \<open>What \<open>for (key in v)\<close> goes through.\<close>

definition fields_of :: "json option \<Rightarrow> (string, json) jsmap" where
  "fields_of v = (case v of
     Some (JObj fs) \<Rightarrow> fs
   | Some (JArr fs) \<Rightarrow> fs
   | Some (JStr s) \<Rightarrow> zip (map nat_str [0..<length s]) (map (\<lambda>c. JStr [c]) s)
   | _ \<Rightarrow> [])"

datatype config_error = MergeError merge_error | ReadsNothing | NotIterable

definition merge_endpoint :: "json \<Rightarrow> config_error + json" where
  "merge_endpoint e =
     (if \<not> can_read (Some e) then Inl ReadsNothing
      else case find (\<lambda>d. property d ''type'' = property e ''type'') default_endpoints of
             None \<Rightarrow> Inr e
           | Some d \<Rightarrow>
               (case js_merge [fields_of (property d ''options''), fields_of (property e ''options'')] of
                  Inl x \<Rightarrow> Inl (MergeError x)
                | Inr m \<Rightarrow> (case put_prop e ''options'' (Some m) of Inl _ \<Rightarrow> Inl (MergeError PrimitiveTarget) | Inr e' \<Rightarrow> Inr e')))"

fun merge_endpoints :: "(string \<times> json) list \<Rightarrow> config_error + (string \<times> json) list" where
  "merge_endpoints [] = Inr []"
| "merge_endpoints ((k, e) # es) =
     (case (if nat_lit k then merge_endpoint e else Inr e) of
        Inl x \<Rightarrow> Inl x
      | Inr e' \<Rightarrow> (case merge_endpoints es of Inl x \<Rightarrow> Inl x | Inr es' \<Rightarrow> Inr ((k, e') # es')))"

definition mergeConnectionOptions :: "(string, json) jsmap \<Rightarrow> config_error + (string, json) jsmap" where
  "mergeConnectionOptions config =
     (case js_get config ''connectionEndpoints'' of
        Some (JArr es) \<Rightarrow>
          (case merge_endpoints es of Inl x \<Rightarrow> Inl x | Inr es' \<Rightarrow> Inr (js_set ''connectionEndpoints'' (JArr es') config))
      | v \<Rightarrow> if truthy v \<and> (case v of Some (JStr _) \<Rightarrow> False | _ \<Rightarrow> True) then Inl NotIterable else Inr config)"

section \<open>What merge does to one field\<close>

definition merged_field :: "(string, json) jsmap \<Rightarrow> string \<Rightarrow> json \<Rightarrow> merge_error + json" where
  "merged_field fs k v =
     (case plain_fields v of
        None \<Rightarrow> Inr v
      | Some gs \<Rightarrow> (case present_or_new (JObj fs) k of Inl e \<Rightarrow> Inl e | Inr c \<Rightarrow> internalMerge c gs))"

lemma assign_object [simp]: "assign (JObj fs) k v = (if k = ''__proto__'' then Inl (InheritedName k) else Inr (JObj (js_set k v fs)))"
  by (simp add: assign_def)

lemma merge_step:
  assumes "internalMerge (JObj fs) ((k, v) # kvs) = Inr c"
  obtains w where "merged_field fs k v = Inr w" "internalMerge (JObj (js_set k w fs)) kvs = Inr c"
proof (cases "plain_fields v")
  case None
  with assms that [of v] show ?thesis by (auto simp: merged_field_def split: if_splits)
next
  case (Some gs)
  with assms obtain c0 w where "present_or_new (JObj fs) k = Inr c0" "internalMerge c0 gs = Inr w"
      "internalMerge (JObj (js_set k w (js_set k c0 fs))) kvs = Inr c"
    by (auto split: sum.splits if_splits)
  moreover have "js_set k w (js_set k c0 fs) = js_set k w fs" by (induction fs) auto
  ultimately show ?thesis using that [of w] Some by (simp add: merged_field_def)
qed

lemma merged_field_other: "k' \<noteq> k \<Longrightarrow> merged_field (js_set k w fs) k' v = merged_field fs k' v"
  by (simp add: merged_field_def present_or_new_def js_get_set inherited_def cong: option.case_cong)

text \<open>Field by field: a field the second object lacks stays, and the others are merged.\<close>

lemma merge_fields:
  assumes "internalMerge (JObj fs) gs = Inr c" "distinct (map fst gs)"
  shows "\<exists>hs. c = JObj hs \<and> (\<forall>k. case js_get gs k of
     None \<Rightarrow> js_get hs k = js_get fs k
   | Some v \<Rightarrow> \<exists>w. merged_field fs k v = Inr w \<and> js_get hs k = Some w)"
  using assms
proof (induction gs arbitrary: fs)
  case (Cons g gs)
  obtain k v where g: "g = (k, v)" by (cases g)
  obtain w where w: "merged_field fs k v = Inr w" "internalMerge (JObj (js_set k w fs)) gs = Inr c"
    using merge_step Cons.prems(1) g by metis
  obtain hs where hs: "c = JObj hs" "\<And>k'. case js_get gs k' of
      None \<Rightarrow> js_get hs k' = js_get (js_set k w fs) k'
    | Some v' \<Rightarrow> \<exists>w'. merged_field (js_set k w fs) k' v' = Inr w' \<and> js_get hs k' = Some w'"
    using Cons.IH [OF w(2)] Cons.prems(2) by auto
  have new: "js_get gs k = None" using Cons.prems(2) g by (simp add: map_of_eq_None_iff)
  have "case js_get (g # gs) k' of None \<Rightarrow> js_get hs k' = js_get fs k'
     | Some v' \<Rightarrow> \<exists>w'. merged_field fs k' v' = Inr w' \<and> js_get hs k' = Some w'" for k'
  proof (cases "k' = k")
    case True
    then show ?thesis using hs(2) [of k] new w(1) g by (simp add: js_get_set)
  next
    case False
    then show ?thesis using hs(2) [of k'] g merged_field_other [OF False, of w fs]
      by (auto simp: js_get_set split: option.splits)
  qed
  then show ?case using hs(1) by blast
qed auto

section \<open>Settings\<close>

text \<open>The setting under a path: what is there when it is not an object to be merged.\<close>

fun setting :: "(string, json) jsmap \<Rightarrow> string list \<Rightarrow> json option" where
  "setting fs [] = None"
| "setting fs (k # p) =
     (case js_get fs k of
        None \<Rightarrow> None
      | Some v \<Rightarrow> (case plain_fields v of Some gs \<Rightarrow> setting gs p | None \<Rightarrow> if p = [] then Some v else None))"

text \<open>The path leads to something that is there, or stops at a setting on the way.\<close>

fun speaks :: "(string, json) jsmap \<Rightarrow> string list \<Rightarrow> bool" where
  "speaks fs [] = True"
| "speaks fs (k # p) =
     (case js_get fs k of
        None \<Rightarrow> False
      | Some v \<Rightarrow> (case plain_fields v of Some gs \<Rightarrow> speaks gs p | None \<Rightarrow> True))"

text \<open>Along the path an object of the second meets a setting of the first that is truthy.\<close>

fun outlasts :: "(string, json) jsmap \<Rightarrow> (string, json) jsmap \<Rightarrow> string list \<Rightarrow> bool" where
  "outlasts fs gs [] = False"
| "outlasts fs gs (k # p) =
     (case js_get gs k of
        None \<Rightarrow> False
      | Some v \<Rightarrow>
          (case plain_fields v of
             None \<Rightarrow> False
           | Some gs' \<Rightarrow>
               (case js_get fs k of
                  None \<Rightarrow> False
                | Some w \<Rightarrow> (case plain_fields w of Some fs' \<Rightarrow> outlasts fs' gs' p | None \<Rightarrow> truthy (Some w)))))"

definition outlasts_here :: "(string, json) jsmap \<Rightarrow> string \<Rightarrow> bool" where
  "outlasts_here fs k \<longleftrightarrow> (case js_get fs k of Some w \<Rightarrow> plain_fields w = None \<and> truthy (Some w) | None \<Rightarrow> False)"

text \<open>Such a setting stays, but an array may be given more fields.\<close>

definition kept :: "json \<Rightarrow> json \<Rightarrow> bool" where
  "kept v w \<longleftrightarrow> w = v \<or> (\<exists>xs ys. v = JArr xs \<and> w = JArr ys) \<or> (\<exists>xs ys. v = JObj xs \<and> w = JObj ys)"

fun keys_distinct :: "json \<Rightarrow> bool" and all_keys_distinct :: "(string \<times> json) list \<Rightarrow> bool" where
  "keys_distinct (JObj fs) = (distinct (map fst fs) \<and> all_keys_distinct fs)"
| "keys_distinct (JArr fs) = all_keys_distinct fs"
| "keys_distinct _ = True"
| "all_keys_distinct [] = True"
| "all_keys_distinct ((k, v) # fs) = (keys_distinct v \<and> all_keys_distinct fs)"

lemma keys_distinct_get: "all_keys_distinct gs \<Longrightarrow> js_get gs k = Some v \<Longrightarrow> keys_distinct v"
  by (induction gs) (auto split: if_splits)

lemma plain_fields_Some: "plain_fields v = Some gs \<longleftrightarrow> v = JObj gs \<and> js_get gs ''constructor'' = None"
  by (auto simp: plain_fields_def split: json.splits if_splits)

lemma setting_empty [simp]: "setting [] p = None"
  by (cases p) auto

lemma outlasts_empty [simp]: "\<not> outlasts [] gs p"
  by (cases p) (auto split: option.splits)

lemma kept_trans: "kept u v \<Longrightarrow> kept v w \<Longrightarrow> kept u w"
  by (auto simp: kept_def)

lemma assign_kept:
  "assign a k v = Inr b \<Longrightarrow> k \<noteq> ''constructor'' \<Longrightarrow> plain_fields a = None \<Longrightarrow> kept a b \<and> plain_fields b = None"
  by (cases a) (auto simp: assign_def kept_def plain_fields_def js_get_set split: if_splits)

lemma merge_kept:
  "internalMerge a gs = Inr b \<Longrightarrow> ''constructor'' \<notin> set (map fst gs) \<Longrightarrow> plain_fields a = None \<Longrightarrow>
     kept a b \<and> plain_fields b = None"
proof (induction gs arbitrary: a)
  case (Cons g gs)
  obtain k v where g: "g = (k, v)" by (cases g)
  then have k: "k \<noteq> ''constructor''" using Cons.prems(2) by auto
  obtain a' where a': "internalMerge a' gs = Inr b" "kept a a'" "plain_fields a' = None"
  proof (cases "plain_fields v")
    case None
    then show ?thesis using Cons.prems(1) g assign_kept [OF _ k Cons.prems(3)] that by (auto split: sum.splits)
  next
    case (Some gs')
    then obtain c c' a1 a2 where "assign a k c = Inr a1" "assign a1 k c' = Inr a2" "internalMerge a2 gs = Inr b"
      using Cons.prems(1) g by (auto split: sum.splits)
    then show ?thesis using assign_kept [OF _ k] Cons.prems(3) kept_trans that by metis
  qed
  then show ?case using Cons.IH [OF a'(1)] Cons.prems(2) kept_trans [OF a'(2)] by simp
qed (simp add: kept_def)

text \<open>What merging gives under a path.\<close>

definition merged_setting :: "(string, json) jsmap \<Rightarrow> (string, json) jsmap \<Rightarrow> string list \<Rightarrow> json option \<Rightarrow> bool" where
  "merged_setting fs gs p r \<longleftrightarrow>
     (if outlasts fs gs p then rel_option kept (setting fs p) r
      else r = (if speaks gs p then setting gs p else setting fs p))"

lemma merge_setting:
  assumes "internalMerge (JObj fs) gs = Inr c" "keys_distinct (JObj gs)"
  shows "\<exists>hs. c = JObj hs \<and> merged_setting fs gs p (setting hs p)"
  using assms
proof (induction p arbitrary: fs gs c)
  case Nil
  with merge_fields [OF Nil(1)] show ?case by (auto simp: merged_setting_def)
next
  case (Cons k p)
  obtain hs where hs: "c = JObj hs" and f: "case js_get gs k of None \<Rightarrow> js_get hs k = js_get fs k
      | Some v \<Rightarrow> \<exists>w. merged_field fs k v = Inr w \<and> js_get hs k = Some w"
    using merge_fields [OF Cons.prems(1)] Cons.prems(2) by auto
  show ?case
  proof (cases "js_get gs k")
    case None
    then show ?thesis using hs f by (simp add: merged_setting_def)
  next
    case (Some v)
    note gsk = Some
    with f obtain w where w: "merged_field fs k v = Inr w" "js_get hs k = Some w" by auto
    show ?thesis
    proof (cases "plain_fields v")
      case None
      then show ?thesis using gsk w hs by (simp add: merged_field_def merged_setting_def)
    next
      case (Some gs')
      note v = Some
      have kd: "keys_distinct (JObj gs')"
        using keys_distinct_get [OF _ gsk] Cons.prems(2) v by (simp add: plain_fields_Some)
      have gc: "''constructor'' \<notin> set (map fst gs')"
        using v by (simp add: plain_fields_Some map_of_eq_None_iff)
      obtain c0 where c0: "present_or_new (JObj fs) k = Inr c0" "internalMerge c0 gs' = Inr w"
        using w(1) v by (auto simp: merged_field_def split: sum.splits)
      show ?thesis
      proof (cases "outlasts_here fs k")
        case True
        then obtain x where x: "js_get fs k = Some x" "plain_fields x = None" "truthy (Some x)"
          by (auto simp: outlasts_here_def split: option.splits)
        then have "c0 = x" using c0(1) by (simp add: present_or_new_def)
        with merge_kept [OF c0(2) gc] x show ?thesis
          using gsk v w(2) hs by (auto simp: merged_setting_def)
      next
        case False
        obtain fs' where a: "c0 = JObj fs'" "js_get fs' ''constructor'' = None"
            "outlasts fs gs (k # p) = outlasts fs' gs' p" "p \<noteq> [] \<Longrightarrow> setting fs (k # p) = setting fs' p"
        proof (cases "js_get fs k")
          case None
          then show ?thesis using that [of "[]"] c0(1) gsk v by (auto simp: present_or_new_def split: if_splits)
        next
          case (Some x)
          show ?thesis
          proof (cases "plain_fields x")
            case None
            then have "\<not> truthy (Some x)" using False Some by (simp add: outlasts_here_def)
            then show ?thesis using that [of "[]"] c0(1) gsk v Some None by (simp add: present_or_new_def)
          next
            case (Some fs')
            then have "x = JObj fs'" "js_get fs' ''constructor'' = None" by (simp_all add: plain_fields_Some)
            then show ?thesis using that [of fs'] c0(1) gsk v \<open>js_get fs k = Some x\<close> Some
              by (simp add: present_or_new_def)
          qed
        qed
        obtain hs' where hs': "w = JObj hs'" "merged_setting fs' gs' p (setting hs' p)"
          using Cons.IH [OF c0(2) [unfolded a(1)] kd] by auto
        have "js_get hs' ''constructor'' = None"
          using merge_fields [OF c0(2) [unfolded a(1)]] kd hs'(1) a(2) v
          by (auto simp: plain_fields_Some dest!: spec [of _ "''constructor''"])
        then have "plain_fields w = Some hs'" using hs'(1) by (simp add: plain_fields_Some)
        then have 1: "setting hs (k # p) = setting hs' p" using w(2) by simp
        have 2: "setting gs (k # p) = setting gs' p" "speaks gs (k # p) = speaks gs' p" using gsk v by simp_all
        have "merged_setting fs gs (k # p) (setting hs' p)"
        proof (cases "p = []")
          case True
          have "\<not> outlasts fs gs (k # p)" "speaks gs (k # p)" "setting gs (k # p) = None" "setting hs' p = None"
            unfolding 2 a(3) using True by simp_all
          then show ?thesis unfolding merged_setting_def by (simp only: if_False if_True)
        next
          case False
          from hs'(2) [unfolded merged_setting_def] show ?thesis unfolding merged_setting_def 2 a(3) a(4) [OF False] .
        qed
        then show ?thesis using hs 1 by (metis (no_types))
      qed
    qed
  qed
qed

section \<open>Precedence\<close>

text \<open>Merging what is new and has ordinary names adds it as it is.\<close>

fun tame :: "json \<Rightarrow> bool" and tames :: "(string \<times> json) list \<Rightarrow> bool" where
  "tame (JObj fs) = (distinct (map fst fs) \<and> tames fs)"
| "tame _ = True"
| "tames [] = True"
| "tames ((k, v) # fs) = (k \<notin> set object_names \<and> tame v \<and> tames fs)"

lemma tames_append [simp]: "tames (xs @ ys) \<longleftrightarrow> tames xs \<and> tames ys"
  by (induction xs) auto

lemma delete_append_absent: "k \<notin> set (map fst xs) \<Longrightarrow> js_delete k (xs @ (k, u) # ys) = xs @ js_delete k ys"
  by (induction xs) auto

lemma update_append_absent: "js_get fs k = None \<Longrightarrow> js_set k w (fs @ (k, u) # gs) = fs @ (k, w) # gs"
  by (induction fs) (auto split: if_splits)

lemma merge_new:
  assumes "tames gs" "distinct (map fst (fs @ gs))"
  shows "internalMerge (JObj fs) gs = Inr (JObj (fs @ gs))"
  using assms
proof (induction "JObj fs" gs arbitrary: fs rule: internalMerge.induct)
  case (2 k v kvs)
  have k: "js_get fs k = None" "k \<notin> set object_names" using 2(3,4) by (auto simp: map_of_eq_None_iff)
  then have k': "k \<noteq> ''__proto__''" by (auto simp: object_names_def)
  have new: "js_set k w fs = fs @ [(k, w)]" "js_set k w (fs @ [(k, u)]) = fs @ [(k, w)]" for w u
    using k(1) by (simp_all add: js_set_absent update_append_absent)
  show ?case
  proof (cases "plain_fields v")
    case None
    then show ?thesis using 2(2) [of "fs @ [(k, v)]"] 2(3,4) k' new by simp
  next
    case (Some gs)
    then have v: "v = JObj gs" "tames gs" "distinct (map fst gs)" using 2(3) by (auto simp: plain_fields_Some)
    have p: "present_or_new (JObj fs) k = Inr (JObj [])" using k by (simp add: present_or_new_def inherited_def)
    have "internalMerge (JObj []) gs = Inr (JObj gs)"
      using 2(1) [OF Some p _ v(2)] v(3) k' by simp
    then show ?thesis using 2(2) [of "fs @ [(k, v)]"] 2(3,4) k' new p Some v(1) by simp
  qed
qed simp

lemma merge_append: "internalMerge a (xs @ ys) = (case internalMerge a xs of Inl e \<Rightarrow> Inl e | Inr b \<Rightarrow> internalMerge b ys)"
  by (induction xs arbitrary: a) (auto split: sum.splits option.splits)

lemma tame_defaults: "tames (default_options uid info)" "distinct (js_keys (default_options uid info))"
  by (simp_all add: default_options_def arr_def plugin_entry_def object_names_def)

lemma defaults_merged:
  "js_merge [[(''plugins'', JObj [])], default_options uid info] =
     Inr (JObj ((''plugins'', JObj []) # js_delete ''plugins'' (default_options uid info)))"
proof -
  obtain xs ys where d: "default_options uid info = xs @ (''plugins'', JObj []) # ys"
    using split_list [of "(''plugins'', JObj [])" "default_options uid info"] by (auto simp: default_options_def)
  have keys: "''plugins'' \<notin> set (map fst xs)" "''plugins'' \<notin> set (map fst ys)" "distinct (map fst xs)" "distinct (map fst ys)"
      "set (map fst xs) \<inter> set (map fst ys) = {}"
    and t: "tames xs" "tames ys"
    using tame_defaults [of uid info] unfolding d by auto
  let ?p = "(''plugins'', JObj [])"
  have "internalMerge (JObj []) [?p] = Inr (JObj [?p])" using merge_new [of "[?p]" "[]"] by (simp add: object_names_def)
  moreover have "internalMerge (JObj [?p]) xs = Inr (JObj (?p # xs))" using merge_new [OF t(1), of "[?p]"] keys by simp
  moreover have "internalMerge (JObj (?p # xs)) [?p] = Inr (JObj (?p # xs))"
    by (simp add: plain_fields_def present_or_new_def)
  moreover have "internalMerge (JObj (?p # xs)) ys = Inr (JObj (?p # xs @ ys))" using merge_new [OF t(2), of "?p # xs"] keys by simp
  ultimately have "js_merge [[?p], default_options uid info] = Inr (JObj (?p # xs @ ys))"
    using merge_append [of "JObj (?p # xs)" "[?p]" ys] unfolding js_merge_def d
    by (simp add: merge_append del: internalMerge.simps)
  moreover have "js_delete ''plugins'' (default_options uid info) = xs @ ys"
    using keys unfolding d by (simp add: delete_append_absent js_delete_absent map_of_eq_None_iff)
  ultimately show ?thesis by simp
qed

lemma defaults_merged_get:
  "js_get ((''plugins'', JObj []) # js_delete ''plugins'' (default_options uid info)) k = js_get (default_options uid info) k"
proof -
  have "js_get (default_options uid info) ''plugins'' = Some (JObj [])" by (simp add: default_options_def)
  then show ?thesis by (simp add: js_get_delete)
qed




lemma merge_all_append: "merge_all a (xs @ ys) = (case merge_all a xs of Inl e \<Rightarrow> Inl e | Inr b \<Rightarrow> merge_all b ys)"
  by (induction xs arbitrary: a) (auto split: sum.splits)

lemma extendConfig_defaults:
  "extendConfig uid info config argv =
     merge_all (JObj ((''plugins'', JObj []) # js_delete ''plugins'' (default_options uid info))) [config, cli_args uid info argv]"
proof -
  have "extendConfig uid info config argv =
     merge_all (JObj []) ([[(''plugins'', JObj [])], default_options uid info] @ [config, cli_args uid info argv])"
    by (simp only: extendConfig_def js_merge_def append.simps)
  then show ?thesis
    using defaults_merged [of uid info, unfolded js_merge_def] by (simp only: merge_all_append sum.case)
qed

lemma extendConfig_steps:
  assumes "extendConfig uid info config argv = Inr c"
  obtains r where
    "internalMerge (JObj ((''plugins'', JObj []) # js_delete ''plugins'' (default_options uid info))) config = Inr r"
    "internalMerge r (cli_args uid info argv) = Inr c"
  using assms that unfolding extendConfig_defaults by (auto split: sum.splits)

lemma cli_keys: "distinct ks \<Longrightarrow>
   distinct (map fst (concat (map (\<lambda>k. case argv k of None \<Rightarrow> [] | Some v \<Rightarrow> [(k, v)]) ks))) \<and>
   set (map fst (concat (map (\<lambda>k. case argv k of None \<Rightarrow> [] | Some v \<Rightarrow> [(k, v)]) ks))) \<subseteq> set ks"
  by (induction ks) (auto split: option.splits)

lemma cli_get: "js_get (cli_args uid info argv) k = (if js_has (default_options uid info) k then argv k else None)"
proof -
  have "js_get (concat (map (\<lambda>k. case argv k of None \<Rightarrow> [] | Some v \<Rightarrow> [(k, v)]) ks)) k = (if k \<in> set ks then argv k else None)" for ks
    by (induction ks) (auto split: option.splits)
  then show ?thesis by (simp only: cli_args_def js_has_keys)
qed

lemma cli_distinct: "distinct (map fst (cli_args uid info argv))"
proof -
  have "distinct (js_keys (default_options uid info))" by (simp add: default_options_def)
  then show ?thesis using cli_keys unfolding cli_args_def by blast
qed


lemma assign_array_items:
  "assign (JArr fs) k v = Inr a \<Longrightarrow> \<not> nat_lit k \<Longrightarrow> array_items a = array_items (JArr fs) \<and> (\<exists>gs. a = JArr gs)"
proof -
  have "map snd (filter (\<lambda>(k, _). nat_lit k) (js_set k v fs)) = map snd (filter (\<lambda>(k, _). nat_lit k) fs)" if "\<not> nat_lit k"
    using that by (induction fs) auto
  then show "assign (JArr fs) k v = Inr a \<Longrightarrow> \<not> nat_lit k \<Longrightarrow> ?thesis"
    by (auto simp: assign_def array_items_def split: if_splits)
qed

lemma merge_into_array:
  assumes "internalMerge (JArr fs) gs = Inr c" "\<forall>k \<in> set (map fst gs). \<not> nat_lit k"
  shows "array_items c = array_items (JArr fs)"
  using assms
proof (induction gs arbitrary: fs)
  case (Cons g gs)
  obtain k v where g: "g = (k, v)" by (cases g)
  have nl: "\<not> nat_lit k" using Cons.prems(2) g by simp
  obtain a where a: "array_items a = array_items (JArr fs)" "\<exists>hs. a = JArr hs" "internalMerge a gs = Inr c"
    using Cons.prems(1) g assign_array_items [OF _ nl]
    by (auto split: option.splits sum.splits) (metis assign_array_items nl)+
  then show ?case using Cons.IH Cons.prems(2) g by auto
qed auto

lemma auth_items:
  assumes "extendConfig uid info config argv = Inr c" "distinct (map fst config)"
    and "js_get config ''auth'' = Some (JObj fs)" "js_get fs ''constructor'' = None" "\<forall>k \<in> set (map fst fs). \<not> nat_lit k"
    and "argv ''auth'' = None"
  shows "\<exists>a. property c ''auth'' = Some a \<and> array_items a = Some [plugin_entry ''none'' []]"
proof -
  let ?d = "(''plugins'', JObj []) # js_delete ''plugins'' (default_options uid info)"
  obtain r where r: "internalMerge (JObj ?d) config = Inr r" "internalMerge r (cli_args uid info argv) = Inr c"
    using extendConfig_steps [OF assms(1)] by blast
  have d: "js_get ?d ''auth'' = Some (arr [plugin_entry ''none'' []])"
    unfolding defaults_merged_get by (simp add: default_options_def)
  obtain hs w where hs: "r = JObj hs" "merged_field ?d ''auth'' (JObj fs) = Inr w" "js_get hs ''auth'' = Some w"
    using merge_fields [OF r(1) assms(2)] assms(3) by (auto dest!: spec [of _ "''auth''"])
  obtain cs where cs: "c = JObj cs" "js_get cs ''auth'' = js_get hs ''auth''"
    using merge_fields [OF r(2) [unfolded hs(1)] cli_distinct] assms(6) by (auto simp: cli_get split: if_splits dest!: spec [of _ "''auth''"])
  have "internalMerge (arr [plugin_entry ''none'' []]) fs = Inr w"
    using hs(2) d assms(4) by (simp add: merged_field_def plain_fields_def present_or_new_def arr_def del: map_of.simps)
  then have "array_items w = array_items (arr [plugin_entry ''none'' []])"
    using merge_into_array assms(5) unfolding arr_def by blast
  then show ?thesis using cs hs(3) by (auto simp: arr_def array_items_def nat_lit_str)
qed

text \<open>A configuration file that gives \<open>auth\<close> as an object, as earlier versions of the server had it, changes nothing
  in the list of strategies: its fields become properties of the default array, whose only element lets everybody in.\<close>

theorem auth_object_ignored:
  assumes "extendConfig uid info config argv = Inr c" "distinct (map fst config)"
    and "js_get config ''auth'' = Some (JObj fs)" "js_get fs ''constructor'' = None" "\<forall>k \<in> set (map fst fs). \<not> nat_lit k"
    and "argv ''auth'' = None"
  shows "\<exists>a. property c ''auth'' = Some a \<and> array_items a = Some [plugin_entry ''none'' []]"
  using assms by (rule auth_items)

section \<open>Endpoints\<close>

lemma merge_endpoints_nth:
  "merge_endpoints es = Inr es' \<Longrightarrow> length es' = length es \<and>
     (\<forall>i < length es. nat_lit (fst (es ! i)) \<longrightarrow> merge_endpoint (snd (es ! i)) = Inr (snd (es' ! i)))"
proof (induction es arbitrary: es')
  case (Cons x es)
  obtain k e where x: "x = (k, e)" by (cases x)
  obtain e' es1 where "(if nat_lit k then merge_endpoint e else Inr e) = Inr e'" "merge_endpoints es = Inr es1" "es' = (k, e') # es1"
    using Cons.prems x by (auto split: sum.splits if_splits)
  with Cons.IH [of es1] x show ?case by (auto simp: nth_Cons split: nat.splits if_splits)
qed simp

definition default_merged :: "json \<Rightarrow> bool" where
  "default_merged d \<longleftrightarrow> (let os = fields_of (property d ''options'') in
     js_merge [os] = Inr (JObj os) \<and> find (\<lambda>d'. property d' ''type'' = property d ''type'') default_endpoints = Some d)"

lemma defaults_are_merged: "list_all default_merged default_endpoints"
  by code_simp

lemma default_endpoint_found:
  assumes "d \<in> set default_endpoints"
  shows "internalMerge (JObj []) (fields_of (property d ''options'')) = Inr (JObj (fields_of (property d ''options'')))"
    and "find (\<lambda>d'. property d' ''type'' = property d ''type'') default_endpoints = Some d"
proof -
  have "default_merged d" using defaults_are_merged assms by (simp add: list_all_iff)
  then show "internalMerge (JObj []) (fields_of (property d ''options'')) = Inr (JObj (fields_of (property d ''options'')))"
    and "find (\<lambda>d'. property d' ''type'' = property d ''type'') default_endpoints = Some d"
    by (auto simp: default_merged_def js_merge_def Let_def split: sum.splits)
qed

text \<open>An endpoint of the list gets the default options of its type for the options it leaves out, and keeps its own.\<close>

theorem endpoint_defaults:
  assumes "mergeConnectionOptions config = Inr config'"
    and "js_get config ''connectionEndpoints'' = Some (arr es)" "i < length es" "es ! i = JObj e"
    and "js_get e ''options'' = Some (JObj os)" "keys_distinct (JObj os)"
    and "d \<in> set default_endpoints" "property d ''type'' = js_get e ''type''"
  shows "\<exists>es' e' os'. js_get config' ''connectionEndpoints'' = Some (JArr es') \<and> snd (es' ! i) = JObj e' \<and>
     js_get e' ''options'' = Some (JObj os') \<and>
     merged_setting (fields_of (property d ''options'')) os p (setting os' p)"
proof -
  let ?ds = "fields_of (property d ''options'')"
  let ?es = "zip (map nat_str [0..<length es]) es"
  obtain es' where es': "merge_endpoints ?es = Inr es'" "config' = js_set ''connectionEndpoints'' (JArr es') config"
    using assms(1,2) by (auto simp: mergeConnectionOptions_def arr_def split: sum.splits)
  have "merge_endpoint (JObj e) = Inr (snd (es' ! i))"
    using merge_endpoints_nth [OF es'(1)] assms(3,4) by (auto simp: nat_lit_str)
  moreover have "find (\<lambda>d'. property d' ''type'' = js_get e ''type'') default_endpoints = Some d"
    using default_endpoint_found(2) [OF assms(7)] assms(8) by simp
  ultimately obtain m where m: "js_merge [?ds, os] = Inr m" "snd (es' ! i) = JObj (js_set ''options'' m e)"
    using assms(5) by (auto simp: merge_endpoint_def can_read_def fields_of_def split: sum.splits)
  then have "internalMerge (JObj ?ds) os = Inr m"
    using default_endpoint_found(1) [OF assms(7)] by (auto simp: js_merge_def split: sum.splits)
  from merge_setting [OF this assms(6)] obtain hs where "m = JObj hs" "merged_setting ?ds os p (setting hs p)"
    by blast
  then show ?thesis using m(2) es'(2) by (intro exI conjI) (auto simp: js_get_set)
qed

section \<open>Examples\<close>

definition a_file :: "(string, json) jsmap" where
  "a_file = [(''rpc'', JObj [(''ackTimeout'', num 50)]), (''logLevel'', num 9), (''auth'', plugin_entry ''file'' [])]"

definition an_argv :: "string \<Rightarrow> json option" where
  "an_argv k = (if k = ''logLevel'' then Some (num 7) else None)"

lemma arr_single: "arr [x] = JArr [(''0'', x)]"
proof -
  have "nat_str 0 = ''0''" by code_simp
  then show ?thesis by (simp add: arr_def)
qed

lemma assign_array: "k \<noteq> ''__proto__'' \<Longrightarrow> k \<noteq> ''length'' \<Longrightarrow> assign (JArr fs) k v = Inr (JArr (js_set k v fs))"
  by (simp add: assign_def)

lemma example_merged: "\<exists>c. extendConfig uid info a_file an_argv = Inr c"
proof -
  let ?d = "(''plugins'', JObj []) # js_delete ''plugins'' (default_options uid info)"
  have d: "js_get ?d ''rpc'' = Some (JObj [(''provideRequestorName'', no), (''provideRequestorData'', no), (''ackTimeout'', num 1000),
         (''responseTimeout'', num 10000)])" "js_get ?d ''auth'' = Some (arr [plugin_entry ''none'' []])"
    unfolding defaults_merged_get by (simp_all add: default_options_def)
  have "internalMerge (JObj ds) a_file = Inr (JObj (js_set ''auth'' (JArr [(''0'', plugin_entry ''none'' []), (''type'', JStr ''file''), (''options'', JObj [])])
       (js_set ''logLevel'' (num 9) (js_set ''rpc'' (JObj [(''provideRequestorName'', no), (''provideRequestorData'', no), (''ackTimeout'', num 50),
         (''responseTimeout'', num 10000)]) ds))))"
    if "js_get ds ''rpc'' = js_get ?d ''rpc''" "js_get ds ''auth'' = js_get ?d ''auth''" for ds
  proof -
    note g = trans [OF that(1) d(1)] trans [OF that(2) d(2)]
    show ?thesis
      by (simp add: a_file_def plugin_entry_def plain_fields_def present_or_new_def g js_get_set arr_single assign_array
          property_def inherited_def object_names_def array_names_def)
  qed
  moreover have "cli_args uid info an_argv = [(''logLevel'', num 7)]"
    by (simp add: cli_args_def default_options_def an_argv_def)
  ultimately show ?thesis unfolding extendConfig_defaults by (simp add: plain_fields_def)
qed


theorem auth_object_ignored_witness:
  "\<exists>c a. extendConfig ''u'' 2 a_file an_argv = Inr c \<and> property c ''auth'' = Some a \<and> array_items a = Some [plugin_entry ''none'' []]"
proof -
  have "distinct (map fst a_file)"
      "js_get a_file ''auth'' = Some (JObj [(''type'', JStr ''file''), (''options'', JObj [])])"
      "list_all (\<lambda>k. \<not> nat_lit k) (map fst [(''type'', JStr ''file''), (''options'', JObj [])])"
    by code_simp+
  moreover obtain c where c: "extendConfig ''u'' 2 a_file an_argv = Inr c" using example_merged by blast
  ultimately show ?thesis
    using auth_object_ignored [OF c] by (auto simp: an_argv_def list_all_iff)
qed

definition an_endpoint :: "(string, json) jsmap" where
  "an_endpoint = [(''type'', JStr ''http''), (''options'', JObj [(''authPath'', JStr ''/login'')])]"

theorem endpoint_defaults_witness:
  "\<exists>config' es' e' os'. mergeConnectionOptions [(''connectionEndpoints'', arr [JObj an_endpoint])] = Inr config' \<and>
     js_get config' ''connectionEndpoints'' = Some (JArr es') \<and> snd (es' ! 0) = JObj e' \<and>
     js_get e' ''options'' = Some (JObj os') \<and> setting os' [''postPath''] = Some (JStr ''/api'')"
proof -
  let ?c = "[(''connectionEndpoints'', arr [JObj an_endpoint])]" and ?d = "default_endpoints ! 3"
  have f: "isl (mergeConnectionOptions ?c) = False" "keys_distinct (JObj [(''authPath'', JStr ''/login'')])"
      "property ?d ''type'' = js_get an_endpoint ''type''"
      "\<not> outlasts (fields_of (property ?d ''options'')) [(''authPath'', JStr ''/login'')] [''postPath'']"
      "\<not> speaks [(''authPath'', JStr ''/login'')] [''postPath'']"
      "js_get an_endpoint ''options'' = Some (JObj [(''authPath'', JStr ''/login'')])"
      "setting (fields_of (property ?d ''options'')) [''postPath''] = Some (JStr ''/api'')"
    by code_simp+
  obtain c' where c': "mergeConnectionOptions ?c = Inr c'" using f(1) by (cases "mergeConnectionOptions ?c") auto
  have "?d \<in> set default_endpoints" by (simp add: default_endpoints_def)
  from endpoint_defaults [OF c' _ _ _ f(6,2) this f(3), of "[JObj an_endpoint]" 0 "[''postPath'']"] c' f(4,5,7) show ?thesis
    unfolding merged_setting_def by fastforce
qed

end
