(* ===== verification/ConfigFiles.thy ===== *)
theory ConfigFiles
  imports ConfigMerge
begin

text \<open>
  Finding and reading the configuration (\<open>src/config/file-utils.ts\<close>, \<open>src/config/js-yaml-loader.ts\<close>): the paths of
  the files, on a POSIX system, and what is done to the text before it is parsed. The file system, the environment,
  the YAML parser and \<open>require\<close> are parameters.
\<close>

section \<open>Paths\<close>

definition absolute :: "string \<Rightarrow> bool" where
  "absolute p \<longleftrightarrow> take 1 p = ''/''"

definition segments :: "string \<Rightarrow> string list" where
  "segments p = js_split (\<lambda>c. c = CHR ''/'') p"

fun join_segments :: "string list \<Rightarrow> string" where
  "join_segments [] = []"
| "join_segments [s] = s"
| "join_segments (s # ss) = s @ ''/'' @ join_segments ss"

text \<open>The segments left, the last first, when empty ones and single dots are dropped and double dots go back; those
  that lead out of a relative path stay.\<close>

fun go :: "bool \<Rightarrow> string list \<Rightarrow> string list \<Rightarrow> string list" where
  "go rooted acc [] = acc"
| "go rooted acc (s # ss) =
     (if s = [] \<or> s = ''.'' then go rooted acc ss
      else if s = ''..''
      then (case acc of
              [] \<Rightarrow> go rooted (if rooted then [] else [s]) ss
            | b # acc' \<Rightarrow> if b = ''..'' then go rooted (s # acc) ss else go rooted acc' ss)
      else go rooted (s # acc) ss)"

text \<open>\<open>path.resolve(cwd, ...parts)\<close>, with an absolute \<open>cwd\<close>: what follows the last absolute part.\<close>

fun from_last_absolute :: "string list \<Rightarrow> string list" where
  "from_last_absolute [] = []"
| "from_last_absolute (p # ps) = (if list_ex absolute ps then from_last_absolute ps else p # ps)"

definition path_resolve :: "string list \<Rightarrow> string" where
  "path_resolve parts = ''/'' @ join_segments (rev (go True [] (concat (map segments (from_last_absolute parts)))))"

text \<open>\<open>path.join\<close> of parts the last of which does not end in a slash.\<close>

definition path_join :: "string list \<Rightarrow> string" where
  "path_join parts =
     (let p = join_segments (filter (\<lambda>s. s \<noteq> []) parts);
          q = join_segments (rev (go (absolute p) [] (segments p)))
      in if absolute p then ''/'' @ q else if q = [] then ''.'' else q)"

definition without_trailing :: "string \<Rightarrow> string" where
  "without_trailing p = rev (dropWhile (\<lambda>c. c = CHR ''/'') (rev p))"

definition path_dirname :: "string \<Rightarrow> string" where
  "path_dirname p =
     (if p = [] then ''.''
      else let q = without_trailing p; up = rev (dropWhile (\<lambda>c. c \<noteq> CHR ''/'') (rev q))
           in if q = [] then ''/''
              else if up = [] then ''.''
              else if without_trailing up = [] then ''/''
              else without_trailing up)"

definition path_extname :: "string \<Rightarrow> string" where
  "path_extname p =
     (let base = rev (takeWhile (\<lambda>c. c \<noteq> CHR ''/'') (rev (without_trailing p)));
          tail = takeWhile (\<lambda>c. c \<noteq> CHR ''.'') (rev base)
      in if length tail + 1 \<ge> length base \<or> base = ''..'' then [] else ''.'' @ rev tail)"

section \<open>Files of the configuration\<close>

definition resolvePrefixAndFile :: "string \<Rightarrow> string \<Rightarrow> string \<Rightarrow> string" where
  "resolvePrefixAndFile cwd nonAbsoluteFilePath prefix =
     (if \<not> absolute prefix then path_resolve [cwd, prefix, nonAbsoluteFilePath] else path_resolve [prefix, nonAbsoluteFilePath])"

definition lookupRequirePath :: "string \<Rightarrow> string \<Rightarrow> string option \<Rightarrow> string" where
  "lookupRequirePath cwd filePath prefix =
     (if absolute filePath then filePath
      else if take 1 filePath \<noteq> ''.''
      then (case prefix of None \<Rightarrow> filePath | Some p \<Rightarrow> resolvePrefixAndFile cwd filePath p)
      else (case prefix of None \<Rightarrow> path_resolve [cwd, filePath] | Some p \<Rightarrow> resolvePrefixAndFile cwd filePath p))"

definition supported_extensions :: "string list" where
  "supported_extensions = [''.yml'', ''.yaml'', ''.json'', ''.js'']"

definition default_config_dirs :: "string \<Rightarrow> string list" where
  "default_config_dirs argv1 =
     [''/etc/deepstream/conf'', path_join [''.'', ''conf'', ''config''], path_join [''..'', ''conf'', ''config''],
      path_join [argv1, ''..'', ''conf'', ''config''], path_join [argv1, ''..'', ''..'', ''conf'', ''config'']]"

fun first_file :: "(string \<Rightarrow> bool) \<Rightarrow> string \<Rightarrow> string list \<Rightarrow> string option" where
  "first_file exists dir [] = None"
| "first_file exists dir (e # es) = (if exists (dir @ e) then Some (dir @ e) else first_file exists dir es)"

fun first_config :: "(string \<Rightarrow> bool) \<Rightarrow> string list \<Rightarrow> string option" where
  "first_config exists [] = None"
| "first_config exists (d # ds) =
     (case first_file exists d supported_extensions of Some f \<Rightarrow> Some f | None \<Rightarrow> first_config exists ds)"

datatype load_error = NoConfigFile | NotFound string | Unsupported string | ParseError | Merging merge_error

definition getDefaultConfigPath :: "(string \<Rightarrow> bool) \<Rightarrow> string \<Rightarrow> load_error + string" where
  "getDefaultConfigPath exists argv1 =
     (case first_config exists (default_config_dirs argv1) of None \<Rightarrow> Inl NoConfigFile | Some f \<Rightarrow> Inr f)"

definition verifyCustomConfigPath :: "(string \<Rightarrow> bool) \<Rightarrow> string \<Rightarrow> load_error + string" where
  "verifyCustomConfigPath exists configPath = (if exists configPath then Inr configPath else Inl (NotFound configPath))"

text \<open>\<open>a || b\<close> on strings that may be absent.\<close>

definition first_given :: "string option list \<Rightarrow> string option" where
  "first_given os = (case filter (\<lambda>v. v \<noteq> None \<and> v \<noteq> Some []) os of [] \<Rightarrow> None | v # _ \<Rightarrow> v)"

text \<open>The path of the configuration and the directory that becomes \<open>deepstreamConfDir\<close>.\<close>

definition setGlobalConfigDirectory ::
  "(string \<Rightarrow> bool) \<Rightarrow> string \<Rightarrow> (string \<Rightarrow> string option) \<Rightarrow> (string \<Rightarrow> string option) \<Rightarrow> string option \<Rightarrow>
     load_error + string \<times> string" where
  "setGlobalConfigDirectory exists argv1 env argv filePath =
     (let custom = first_given [argv ''c'', argv ''config'', filePath, env ''DEEPSTREAM_CONFIG_DIRECTORY''];
          found = (case custom of Some p \<Rightarrow> verifyCustomConfigPath exists p | None \<Rightarrow> getDefaultConfigPath exists argv1)
      in case found of Inl e \<Rightarrow> Inl e | Inr p \<Rightarrow> Inr (p, path_dirname p))"

definition setGlobalLibDirectory ::
  "string \<Rightarrow> string option \<Rightarrow> (string \<Rightarrow> string option) \<Rightarrow> (string \<Rightarrow> string option) \<Rightarrow> string option \<Rightarrow> string option" where
  "setGlobalLibDirectory cwd confDir env argv libDir =
     first_given [argv ''l'', argv ''libDir'',
       (case first_given [libDir] of None \<Rightarrow> None | Some d \<Rightarrow> Some (lookupRequirePath cwd d confDir)),
       env ''DEEPSTREAM_LIBRARY_DIRECTORY'']"

section \<open>The text of the configuration\<close>

definition NL :: char where "NL = CHR 0x0A"
definition CR :: char where "CR = CHR 0x0D"

definition line_end :: "char \<Rightarrow> bool" where "line_end c \<longleftrightarrow> c = NL \<or> c = CR"

text \<open>\<open>configString.replace(/(^#)*#.*$/gm, '$1')\<close>: within a line all from the first \<open>#\<close> on goes, but two at the
  beginning leave one.\<close>

definition strip_line :: "string \<Rightarrow> string" where
  "strip_line l = (if take 2 l = ''##'' then ''#'' else takeWhile (\<lambda>c. c \<noteq> CHR ''#'') l)"

function strip_comments :: "string \<Rightarrow> string" where
  "strip_comments s =
     (case dropWhile (\<lambda>c. \<not> line_end c) s of
        [] \<Rightarrow> strip_line s
      | c # r \<Rightarrow> strip_line (takeWhile (\<lambda>c. \<not> line_end c) s) @ c # strip_comments r)"
  by auto

termination
proof (relation "measure length")
  fix s c r
  assume "dropWhile (\<lambda>c. \<not> line_end c) s = c # r"
  then have "length (c # r) \<le> length s" by (metis length_dropWhile_le)
  then show "(r, s) \<in> measure length" by simp
qed simp

declare strip_comments.simps [simp del]

text \<open>\<open>replace(/^\s*\n/gm, '')\<close>: at the beginning of a line, white space up to its last line feed.\<close>

definition after_blank :: "string \<Rightarrow> string" where
  "after_blank s =
     (let ws = takeWhile js_space s in drop (length ws - length (takeWhile (\<lambda>c. c \<noteq> NL) (rev ws))) s)"

lemma takeWhile_shorter: "x \<in> set xs \<Longrightarrow> \<not> P x \<Longrightarrow> length (takeWhile P xs) < length xs"
  by (induction xs) auto

lemma after_blank_shorter:
  assumes "NL \<in> set (takeWhile js_space s)"
  shows "length (after_blank s) < length s"
proof -
  let ?ws = "takeWhile js_space s"
  have "length (takeWhile (\<lambda>c. c \<noteq> NL) (rev ?ws)) < length ?ws"
    using takeWhile_shorter [of NL "rev ?ws"] assms by simp
  moreover have "length ?ws \<le> length s" by (rule length_takeWhile_le)
  ultimately show ?thesis by (simp add: after_blank_def Let_def)
qed

function remove_blank :: "bool \<Rightarrow> string \<Rightarrow> string" where
  "remove_blank lineStart s =
     (if lineStart \<and> NL \<in> set (takeWhile js_space s) then remove_blank True (after_blank s)
      else case s of [] \<Rightarrow> [] | c # r \<Rightarrow> c # remove_blank (line_end c) r)"
  by auto

termination
  by (relation "measure (\<lambda>(b, s). length s)") (auto intro: after_blank_shorter)

declare remove_blank.simps [simp del]

text \<open>\<open>replaceEnvironmentVariables\<close>\<close>

function replaceEnvironmentVariables :: "(string \<Rightarrow> string option) \<Rightarrow> string \<Rightarrow> string" where
  "replaceEnvironmentVariables env [] = []"
| "replaceEnvironmentVariables env (c # s) =
     (if c = CHR ''$'' \<and> take 1 s = ''{'' \<and> CHR ''}'' \<in> set s \<and> take 2 s \<noteq> ''{}''
      then (case env (takeWhile (\<lambda>c. c \<noteq> CHR ''}'') (tl s)) of None \<Rightarrow> [] | Some v \<Rightarrow> v) @
           replaceEnvironmentVariables env (tl (dropWhile (\<lambda>c. c \<noteq> CHR ''}'') s))
      else c # replaceEnvironmentVariables env s)"
  by pat_completeness auto

termination
proof (relation "measure (\<lambda>(e, s). length s)")
  fix s :: string
  have "length (tl (dropWhile (\<lambda>c. c \<noteq> CHR ''}'') s)) \<le> length s"
    using length_dropWhile_le [of "\<lambda>c. c \<noteq> CHR ''}''" s] by simp
  then show "((env, tl (dropWhile (\<lambda>c. c \<noteq> CHR ''}'') s)), env, c # s) \<in> measure (\<lambda>(e, s). length s)"
    for env :: "string \<Rightarrow> string option" and c by simp
qed auto

text \<open>\<open>fileContent.match(/name\((.*)\)/g)\<close>: in a line the match goes from the first \<open>name(\<close> that has a closing
  parenthesis behind it to the last of these. The file names, that is the first groups.\<close>

fun starts_with :: "string \<Rightarrow> string \<Rightarrow> bool" where
  "starts_with [] s = True"
| "starts_with (p # ps) [] = False"
| "starts_with (p # ps) (c # s) = (p = c \<and> starts_with ps s)"

definition upto_last :: "char \<Rightarrow> string \<Rightarrow> string option" where
  "upto_last c s = (case dropWhile (\<lambda>d. d \<noteq> c) (rev s) of [] \<Rightarrow> None | _ # r \<Rightarrow> Some (rev r))"

fun match_line :: "string \<Rightarrow> string \<Rightarrow> string option" where
  "match_line name [] = None"
| "match_line name (c # s) =
     (if starts_with (name @ ''('') (c # s)
      then (case upto_last (CHR '')'') (drop (Suc (length name)) (c # s)) of Some f \<Rightarrow> Some f | None \<Rightarrow> match_line name s)
      else match_line name s)"

definition file_matches :: "string \<Rightarrow> string \<Rightarrow> string list" where
  "file_matches name s = List.map_filter (match_line name) (js_split line_end s)"

text \<open>\<open>s.replace(m, r)\<close> with strings: the first occurrence of \<open>m\<close>; in \<open>r\<close> some uses of the dollar sign stand for
  the match and what is before and behind it.\<close>

fun expand :: "string \<Rightarrow> string \<Rightarrow> string \<Rightarrow> string \<Rightarrow> string" where
  "expand pre m post (c # d # r) =
     (if c = CHR ''$'' then
        (if d = CHR ''$'' then c # expand pre m post r
         else if d = CHR ''&'' then m @ expand pre m post r
         else if d = CHR 0x60 then pre @ expand pre m post r
         else if d = CHR 0x27 then post @ expand pre m post r
         else c # expand pre m post (d # r))
      else c # expand pre m post (d # r))"
| "expand pre m post r = r"

fun js_replace :: "string \<Rightarrow> string \<Rightarrow> string \<Rightarrow> string \<Rightarrow> string" where
  "js_replace pre m r s =
     (if starts_with m s then expand pre m (drop (length m) s) r @ drop (length m) s
      else case s of [] \<Rightarrow> [] | c # s' \<Rightarrow> c # js_replace (pre @ [c]) m r s')"

declare js_replace.simps [simp del]

definition lookupConfigPaths :: "string \<Rightarrow> string option \<Rightarrow> string \<Rightarrow> string" where
  "lookupConfigPaths cwd confDir fileContent =
     foldl (\<lambda>s f. js_replace [] (''file('' @ f @ '')'') (lookupRequirePath cwd f confDir) s)
       fileContent (file_matches ''file'' fileContent)"

text \<open>\<open>parseFile\<close>: the parser of YAML and \<open>require\<close> are given, \<open>None\<close> where they throw; a value is a value of JSON.\<close>

record parsers =
  ps_yaml :: "string \<Rightarrow> json option"
  ps_require :: "string \<Rightarrow> json option"
  ps_number :: "string \<Rightarrow> json option"

definition parseFile :: "parsers \<Rightarrow> (string \<Rightarrow> string option) \<Rightarrow> string \<Rightarrow> string \<Rightarrow> string \<Rightarrow> load_error + json" where
  "parseFile P env cwd filePath fileContent =
     (let extension = path_extname filePath;
          result = (\<lambda>v. case v of None \<Rightarrow> Inl ParseError | Some j \<Rightarrow> Inr j)
      in if extension = ''.yml'' \<or> extension = ''.yaml'' then result (ps_yaml P (replaceEnvironmentVariables env fileContent))
         else if extension = ''.js'' then result (ps_require P (path_resolve [cwd, filePath]))
         else if extension = ''.json'' then result (JSON_parse (ps_number P) (replaceEnvironmentVariables env fileContent))
         else Inl (Unsupported extension))"

datatype initial_log = Loaded string | InvalidFormat string | MissingFile string

text \<open>One file of \<open>loadFiles\<close>, when its reading has ended; \<open>None\<close> is an error of \<open>readFile\<close>.\<close>

definition load_one ::
  "parsers \<Rightarrow> (string \<Rightarrow> string option) \<Rightarrow> string \<Rightarrow> string \<Rightarrow> string option \<Rightarrow> string \<times> initial_log list \<Rightarrow> string \<times> initial_log list" where
  "load_one P env cwd filename data st =
     (case st of (fileContent, logs) \<Rightarrow>
        (case data of
           None \<Rightarrow> (fileContent, logs @ [MissingFile filename])
         | Some d \<Rightarrow>
             (let content = replaceEnvironmentVariables env d;
                  put = (\<lambda>v. js_replace [] (''fileLoad('' @ filename @ '')'') (stringify v) fileContent)
              in if path_extname filename \<in> set [''.yml'', ''.yaml'', ''.js'', ''.json'']
                 then (case parseFile P env cwd filename content of
                         Inr v \<Rightarrow> (put v, logs @ [Loaded filename])
                       | Inl _ \<Rightarrow> (put (JStr content), logs @ [InvalidFormat filename]))
                 else (put (JStr content), logs @ [Loaded filename]))))"

text \<open>\<open>loadFiles\<close>: the files are read at once, and \<open>order\<close> lists them as their reading ends.\<close>

definition loadFiles ::
  "parsers \<Rightarrow> (string \<Rightarrow> string option) \<Rightarrow> string \<Rightarrow> (string \<Rightarrow> string option) \<Rightarrow> string list \<Rightarrow> string \<Rightarrow> string \<times> initial_log list" where
  "loadFiles P env cwd files order fileContent =
     foldl (\<lambda>st f. load_one P env cwd f (files f) st) (fileContent, []) order"

text \<open>\<open>loadConfigWithoutInitialization\<close>, once the path is known: the text that is parsed, and the configuration.\<close>

definition config_text :: "parsers \<Rightarrow> (string \<Rightarrow> string option) \<Rightarrow> string \<Rightarrow> string option \<Rightarrow> (string \<Rightarrow> string option) \<Rightarrow>
     (string list \<Rightarrow> string list) \<Rightarrow> string \<Rightarrow> string \<times> initial_log list" where
  "config_text P env cwd confDir files order raw =
     (let s = lookupConfigPaths cwd confDir (remove_blank True (strip_comments raw))
      in loadFiles P env cwd files (order (file_matches ''fileLoad'' s)) s)"

definition load_config :: "parsers \<Rightarrow> (string \<Rightarrow> string option) \<Rightarrow> string \<Rightarrow> string option \<Rightarrow> (string \<Rightarrow> string option) \<Rightarrow>
     (string list \<Rightarrow> string list) \<Rightarrow> string \<Rightarrow> int \<Rightarrow> (string \<Rightarrow> json option) \<Rightarrow> string \<Rightarrow> string \<Rightarrow> load_error + json" where
  "load_config P env cwd confDir files order uid info argv configPath raw =
     (case parseFile P env cwd configPath (fst (config_text P env cwd confDir files order raw)) of
        Inl e \<Rightarrow> Inl e
      | Inr rawConfig \<Rightarrow>
          (case extendConfig uid info (fields_of (Some rawConfig)) argv of Inl e \<Rightarrow> Inl (Merging e) | Inr c \<Rightarrow> Inr c))"

section \<open>Comments\<close>

lemma takeWhile_none [simp]: "list_all P s \<Longrightarrow> takeWhile P (s @ r) = s @ takeWhile P r"
  by (induction s) auto

lemma dropWhile_none [simp]: "list_all P s \<Longrightarrow> dropWhile P (s @ r) = dropWhile P r"
  by (induction s) auto

lemma strip_comments_line: "list_all (\<lambda>c. \<not> line_end c) l \<Longrightarrow> strip_comments (l @ NL # r) = strip_line l @ NL # strip_comments r"
  by (subst strip_comments.simps) (simp add: line_end_def)

lemma strip_comments_append: "strip_comments (p @ NL # s) = strip_comments p @ NL # strip_comments s"
proof (induction p rule: length_induct)
  case (1 p)
  let ?l = "takeWhile (\<lambda>c. \<not> line_end c) p" and ?d = "dropWhile (\<lambda>c. \<not> line_end c) p"
  have p: "p = ?l @ ?d" by simp
  have l: "list_all (\<lambda>c. \<not> line_end c) ?l" by (auto simp: list_all_iff dest: set_takeWhileD)
  show ?case
  proof (cases ?d)
    case Nil
    then have "list_all (\<lambda>c. \<not> line_end c) p" by (simp add: list_all_iff)
    moreover have "strip_comments p = strip_line p" by (subst strip_comments.simps, subst Nil) simp
    ultimately show ?thesis using strip_comments_line by simp
  next
    case (Cons c r)
    then have lc: "line_end c" using hd_dropWhile [of "\<lambda>c. \<not> line_end c" p] by simp
    have "length r < length p" using length_dropWhile_le [of "\<lambda>c. \<not> line_end c" p] unfolding Cons by simp
    then have ih: "strip_comments (r @ NL # s) = strip_comments r @ NL # strip_comments s" using 1 by blast
    have pe: "p @ NL # s = ?l @ c # (r @ NL # s)" using arg_cong [OF p, of "\<lambda>q. q @ NL # s"] unfolding Cons by simp
    have "strip_comments (p @ NL # s) = strip_line ?l @ c # strip_comments (r @ NL # s)"
      unfolding pe using l lc by (subst strip_comments.simps) (simp del: takeWhile_dropWhile_id)
    moreover have "strip_comments p = strip_line ?l @ c # strip_comments r"
      using Cons by (subst strip_comments.simps) simp
    ultimately show ?thesis using ih by simp
  qed
qed

text \<open>A hash in the middle of a line cuts the line off there, wherever it stands: what follows it, such as the rest
  of a quoted value with its closing quotation mark, does not reach the parser.\<close>

theorem hash_cuts_line:
  assumes "a \<noteq> []" "list_all (\<lambda>c. \<not> line_end c \<and> c \<noteq> CHR ''#'') a" "list_all (\<lambda>c. \<not> line_end c) b"
  shows "strip_comments (p @ NL # a @ ''#'' @ b @ NL # r) = strip_comments p @ NL # a @ NL # strip_comments r"
proof -
  have "strip_line (a @ ''#'' @ b) = a"
  proof -
    have t: "list_all (\<lambda>c. c \<noteq> CHR ''#'') a" using assms(2) by (simp add: list_all_iff)
    have "take 2 (a @ ''#'' @ b) \<noteq> ''##''" using assms(1) t by (cases a) auto
    then show ?thesis using t by (simp add: strip_line_def)
  qed
  moreover have "list_all (\<lambda>c. \<not> line_end c) (a @ ''#'' @ b)"
    using assms(2,3) by (auto simp: list_all_iff line_end_def NL_def CR_def)
  ultimately have "strip_comments ((a @ ''#'' @ b) @ NL # r) = a @ NL # strip_comments r"
    using strip_comments_line [of "a @ ''#'' @ b" r] by simp
  then show ?thesis using strip_comments_append [of p "a @ ''#'' @ b @ NL # r"] by simp
qed

section \<open>Environment variables\<close>

datatype piece = Literal string | Variable string

fun piece_text :: "piece \<Rightarrow> string" where
  "piece_text (Literal s) = s"
| "piece_text (Variable n) = ''${'' @ n @ ''}''"

fun piece_value :: "(string \<Rightarrow> string option) \<Rightarrow> piece \<Rightarrow> string" where
  "piece_value env (Literal s) = s"
| "piece_value env (Variable n) = (case env n of None \<Rightarrow> [] | Some v \<Rightarrow> v)"

fun piece_ok :: "piece \<Rightarrow> bool" where
  "piece_ok (Literal s) = list_all (\<lambda>c. c \<noteq> CHR ''$'') s"
| "piece_ok (Variable n) = (n \<noteq> [] \<and> list_all (\<lambda>c. c \<noteq> CHR ''}'') n)"

lemma replace_literal:
  "list_all (\<lambda>c. c \<noteq> CHR ''$'') s \<Longrightarrow> replaceEnvironmentVariables env (s @ r) = s @ replaceEnvironmentVariables env r"
  by (induction s) auto

lemma replace_variable:
  "piece_ok (Variable n) \<Longrightarrow>
   replaceEnvironmentVariables env (''${'' @ n @ ''}'' @ r) = piece_value env (Variable n) @ replaceEnvironmentVariables env r"
  by (cases n) auto

text \<open>Each \<open>${name}\<close> of a text gives way to the value of the variable, or to nothing if it is not set, everything
  else stays, and what has been put in is not looked at again.\<close>

theorem environment_replaced:
  assumes "list_all piece_ok ps"
  shows "replaceEnvironmentVariables env (concat (map piece_text ps)) = concat (map (piece_value env) ps)"
  using assms
proof (induction ps)
  case (Cons p ps)
  then show ?case
  proof (cases p)
    case (Literal s)
    with Cons show ?thesis by (simp add: replace_literal)
  next
    case (Variable n)
    with Cons show ?thesis using replace_variable [of n env "concat (map piece_text ps)"] by simp
  qed
qed simp

section \<open>Files named in the configuration\<close>

lemma upto_last_found: "list_all (\<lambda>d. d \<noteq> c) post \<Longrightarrow> upto_last c (s @ c # post) = Some s"
proof -
  assume "list_all (\<lambda>d. d \<noteq> c) post"
  then have "list_all (\<lambda>d. d \<noteq> c) (rev post)" by (simp add: list_all_iff)
  then show ?thesis by (simp add: upto_last_def)
qed

lemma match_line_skip: "list_all (\<lambda>c. c \<noteq> hd name) pre \<Longrightarrow> name \<noteq> [] \<Longrightarrow> match_line name (pre @ s) = match_line name s"
proof (induction pre)
  case (Cons c pre)
  then have "\<not> starts_with (name @ ''('') ((c # pre) @ s)" by (cases name) auto
  with Cons show ?case by simp
qed simp

lemma starts_with_append [simp]: "starts_with p (p @ s)"
  by (induction p) auto

lemma match_line_here:
  assumes "name \<noteq> []" "list_all (\<lambda>d. d \<noteq> CHR '')'') post"
  shows "match_line name (name @ ''('' @ f @ '')'' @ post) = Some f"
proof -
  obtain c n where n: "name = c # n" using assms(1) by (cases name) auto
  have "starts_with (name @ ''('') (name @ ''('' @ f @ '')'' @ post)"
    using starts_with_append [of "name @ ''(''" "f @ '')'' @ post"] by simp
  then show ?thesis using upto_last_found [OF assms(2), of f] n by (simp del: starts_with.simps)
qed

lemma split_one_line: "list_all (\<lambda>c. \<not> p c) s \<Longrightarrow> js_split p s = [s]"
  by (induction s) auto

text \<open>Two files named in one line are taken for one, whose name is all from the first opening to the last closing
  parenthesis.\<close>

theorem two_files_on_a_line:
  assumes "list_all (\<lambda>c. \<not> line_end c) (pre @ x @ mid @ y @ post)"
    and "list_all (\<lambda>c. c \<noteq> CHR ''f'') pre" "list_all (\<lambda>c. c \<noteq> CHR '')'') post"
  shows "file_matches ''file'' (pre @ ''file('' @ x @ '')'' @ mid @ ''file('' @ y @ '')'' @ post) =
     [x @ '')'' @ mid @ ''file('' @ y]"
proof -
  let ?s = "pre @ ''file('' @ x @ '')'' @ mid @ ''file('' @ y @ '')'' @ post"
  have "list_all (\<lambda>c. \<not> line_end c) ?s" using assms(1) by (simp add: line_end_def NL_def CR_def)
  then have "js_split line_end ?s = [?s]" by (rule split_one_line)
  moreover have "match_line ''file'' ?s = Some (x @ '')'' @ mid @ ''file('' @ y)"
    using match_line_skip [of "''file''" pre] match_line_here [OF _ assms(3), of "''file''" "x @ '')'' @ mid @ ''file('' @ y"] assms(2)
    by simp
  ultimately show ?thesis by (simp only: file_matches_def List.map_filter_simps) simp
qed

section \<open>Paths\<close>

definition proper :: "string \<Rightarrow> bool" where
  "proper s \<longleftrightarrow> s \<noteq> [] \<and> s \<noteq> ''.'' \<and> s \<noteq> ''..'' \<and> CHR ''/'' \<notin> set s"

lemma go_proper: "list_all proper acc \<Longrightarrow> list_all (\<lambda>s. CHR ''/'' \<notin> set s) ss \<Longrightarrow> list_all proper (go True acc ss)"
  by (induction ss arbitrary: acc) (auto simp: proper_def split: list.splits)

lemma go_id: "list_all proper ss \<Longrightarrow> go True acc ss = rev ss @ acc"
  by (induction ss arbitrary: acc) (auto simp: proper_def)

lemma split_no_separator: "list_all (\<lambda>w. list_all (\<lambda>c. \<not> p c) w) (js_split p s)"
  by (induction s) (auto split: list.splits)

lemma split_separated: "list_all (\<lambda>c. \<not> p c) s \<Longrightarrow> p c \<Longrightarrow> js_split p (s @ c # r) = s # js_split p r"
  by (induction s) auto

lemma segments_join: "list_all proper ss \<Longrightarrow> ss \<noteq> [] \<Longrightarrow> segments (join_segments ss) = ss"
proof (induction ss rule: join_segments.induct)
  case (2 s)
  then show ?case using split_one_line [of "\<lambda>c. c = CHR ''/''" s] by (auto simp: segments_def proper_def list_all_iff)
next
  case (3 s t ts)
  then have "list_all (\<lambda>c. c \<noteq> CHR ''/'') s" by (auto simp: proper_def list_all_iff)
  with 3 show ?case using split_separated [of "\<lambda>c. c = CHR ''/''" s "CHR ''/''"] by (simp add: segments_def)
qed simp

lemma absolute_slash [simp]: "absolute (CHR ''/'' # p)"
  by (simp add: absolute_def)

lemma resolve_shape: "\<exists>ss. path_resolve parts = ''/'' @ join_segments ss \<and> list_all proper ss"
proof -
  have "list_all (\<lambda>s. CHR ''/'' \<notin> set s) (concat (map segments ps))" for ps
    using split_no_separator [of "\<lambda>c. c = CHR ''/''"] by (auto simp: segments_def list_all_iff)
  then have "list_all proper (go True [] (concat (map segments (from_last_absolute parts))))" by (rule go_proper [rotated]) simp
  then show ?thesis by (auto simp: path_resolve_def list_all_iff)
qed

lemma resolve_again: "path_resolve [cwd, path_resolve parts] = path_resolve parts"
proof -
  obtain ss where ss: "path_resolve parts = ''/'' @ join_segments ss" "list_all proper ss" using resolve_shape by blast
  have "go True [] (segments (''/'' @ join_segments ss)) = rev ss"
  proof (cases "ss = []")
    case False
    then have "segments (''/'' @ join_segments ss) = [] # ss"
      using segments_join [OF ss(2)] split_separated [of "\<lambda>c. c = CHR ''/''" "[]" "CHR ''/''"] by (simp add: segments_def)
    then show ?thesis using go_id [OF ss(2), of "[]"] by simp
  qed (simp add: segments_def)
  then show ?thesis using ss(1) by (simp add: path_resolve_def)
qed

text \<open>A path that is looked up beside a directory, or begins with a dot, becomes an absolute path without empty
  segments and dots, which later look-ups leave alone whatever their directory.\<close>

theorem lookup_is_final:
  assumes "\<not> absolute f" "prefix \<noteq> None \<or> take 1 f = ''.''"
  shows "absolute (lookupRequirePath cwd f prefix) \<and>
     path_resolve [cwd', lookupRequirePath cwd f prefix] = lookupRequirePath cwd f prefix \<and>
     lookupRequirePath cwd' (lookupRequirePath cwd f prefix) prefix' = lookupRequirePath cwd f prefix"
proof -
  have "\<exists>parts. lookupRequirePath cwd f prefix = path_resolve parts"
    using assms by (cases prefix) (auto simp: lookupRequirePath_def resolvePrefixAndFile_def)
  then obtain parts where parts: "lookupRequirePath cwd f prefix = path_resolve parts" by blast
  then have "absolute (lookupRequirePath cwd f prefix)" using resolve_shape [of parts] by auto
  then show ?thesis using resolve_again [of cwd' parts] parts by (auto simp: lookupRequirePath_def [of cwd'])
qed

section \<open>The default files\<close>

definition candidates :: "string \<Rightarrow> string list" where
  "candidates argv1 = concat (map (\<lambda>d. map (\<lambda>e. d @ e) supported_extensions) (default_config_dirs argv1))"

lemma first_file_find: "first_file exists d es = find exists (map (\<lambda>e. d @ e) es)"
  by (induction es) auto

lemma find_append: "find P (xs @ ys) = (case find P xs of Some x \<Rightarrow> Some x | None \<Rightarrow> find P ys)"
  by (induction xs) auto

lemma first_config_find: "first_config exists ds = find exists (concat (map (\<lambda>d. map (\<lambda>e. d @ e) supported_extensions) ds))"
  by (induction ds) (auto simp: first_file_find find_append split: option.splits)

text \<open>Without a path given, the configuration is the first file there is, the directories in their order before the
  extensions in theirs, and there is an error just when there is none.\<close>

theorem default_config_is_first:
  "case getDefaultConfigPath exists argv1 of
     Inr f \<Rightarrow> \<exists>i < length (candidates argv1). f = candidates argv1 ! i \<and> exists f \<and> (\<forall>j < i. \<not> exists (candidates argv1 ! j))
   | Inl e \<Rightarrow> e = NoConfigFile \<and> \<not> list_ex exists (candidates argv1)"
proof (cases "find exists (candidates argv1)")
  case None
  then have g: "getDefaultConfigPath exists argv1 = Inl NoConfigFile"
    by (simp add: getDefaultConfigPath_def first_config_find candidates_def)
  show ?thesis using None unfolding g by (auto simp: find_None_iff list_ex_iff)
next
  case (Some f)
  then have g: "getDefaultConfigPath exists argv1 = Inr f"
    by (simp add: getDefaultConfigPath_def first_config_find candidates_def)
  from Some have "\<exists>i < length (candidates argv1). exists (candidates argv1 ! i) \<and> f = candidates argv1 ! i \<and>
      (\<forall>j < i. \<not> exists (candidates argv1 ! j))"
    by (simp only: find_Some_iff)
  then show ?thesis unfolding g by auto
qed

section \<open>Examples\<close>

theorem hash_cuts_line_witness:
  "strip_comments (''{'' @ NL # ''k: (a'' @ ''#'' @ ''b)'' @ NL # ''}'') = ''{'' @ NL # ''k: (a'' @ NL # ''}''"
proof -
  have "list_all (\<lambda>c. \<not> line_end c \<and> c \<noteq> CHR ''#'') ''k: (a''" "list_all (\<lambda>c. \<not> line_end c) ''b)''"
      "strip_comments ''{'' = ''{''" "strip_comments ''}'' = ''}''"
    by code_simp+
  then show ?thesis using hash_cuts_line [of "''k: (a''" "''b)''" "''{''" "''}''"] by simp
qed

theorem environment_replaced_witness:
  "replaceEnvironmentVariables (\<lambda>n. if n = ''HOST'' then Some ''${X}'' else None) ''a ${HOST} ${Y}.'' = ''a ${X} .''"
  using environment_replaced [of "[Literal ''a '', Variable ''HOST'', Literal '' '', Variable ''Y'', Literal ''.'']"
      "\<lambda>n. if n = ''HOST'' then Some ''${X}'' else None"]
  by simp

theorem two_files_on_a_line_witness:
  "file_matches ''file'' ''key: file(a), cert: file(b)'' = [''a), cert: file(b'']"
proof -
  have "list_all (\<lambda>c. \<not> line_end c) (''key: '' @ ''a'' @ '', cert: '' @ ''b'' @ [])"
      "list_all (\<lambda>c. c \<noteq> CHR ''f'') ''key: ''" "list_all (\<lambda>c. c \<noteq> CHR '')'') []"
    by code_simp+
  from two_files_on_a_line [OF this] show ?thesis by simp
qed

theorem lookup_is_final_witness:
  "path_resolve [''/x'', lookupRequirePath ''/srv'' ''../a/./b'' (Some ''conf'')] = lookupRequirePath ''/srv'' ''../a/./b'' (Some ''conf'') \<and>
   lookupRequirePath ''/srv'' ''../a/./b'' (Some ''conf'') = ''/srv/a/b''"
proof -
  have "\<not> absolute ''../a/./b''" "lookupRequirePath ''/srv'' ''../a/./b'' (Some ''conf'') = ''/srv/a/b''" by code_simp+
  then show ?thesis using lookup_is_final [of "''../a/./b''" "Some ''conf''" "''/srv''" "''/x''"] by simp
qed

end
