(* ===== verification/ConfigInit.thy ===== *)
theory ConfigInit
  imports ConfigFiles
begin

text \<open>
  From the configuration to the services (\<open>src/config/config-initialiser.ts\<close>): the validation, which class each
  service is an instance of and with which options, the logo and the initial log lines. Registered plugins, modules that can be loaded, the files with users and
  permissions, the log levels of the types package and whether a configuration fits the schema are given. A constructor is not run, and a \<open>type\<close> is
  a string, as the validation of the configuration demands.
\<close>

section \<open>Surroundings\<close>

record host =
  ho_cli :: "string \<Rightarrow> json option"         \<comment> \<open>\<open>global.deepstreamCLI\<close>\<close>
  ho_custom :: "string \<Rightarrow> bool"               \<comment> \<open>\<open>customPlugins\<close>\<close>
  ho_loads :: "string \<Rightarrow> bool"                \<comment> \<open>\<open>require\<close> of a plugin\<close>
  ho_require :: "string \<Rightarrow> json option"       \<comment> \<open>\<open>require\<close> of a file with data\<close>
  ho_cwd :: string
  ho_libDir :: "string option"
  ho_confDir :: "string option"
  ho_uws :: bool                               \<comment> \<open>uWebSockets can be loaded\<close>
  ho_level :: "json option \<Rightarrow> json option"   \<comment> \<open>\<open>LOG_LEVEL[...]\<close>\<close>
  ho_valid :: "(string, json) jsmap \<Rightarrow> bool"   \<comment> \<open>the configuration fits the schema\<close>

definition lookupLib :: "host \<Rightarrow> string \<Rightarrow> string" where
  "lookupLib H f = lookupRequirePath (ho_cwd H) f (ho_libDir H)"

definition lookupConf :: "host \<Rightarrow> string \<Rightarrow> string" where
  "lookupConf H f = lookupRequirePath (ho_cwd H) f (ho_confDir H)"

datatype plugin_class = BuiltIn string | Registered string | FromModule string | ObjectItself

text \<open>\<open>LoadFailed\<close> has been logged as fatal before it is thrown; \<open>InvalidConfig\<close> ends the process.\<close>

datatype init_error =
    LoadFailed
  | NoNameOrPath string
  | UnknownType string
  | NothingConfigured string
  | UnknownLogLevel
  | NoSuchFile string
  | TypeErr
  | Endpoints config_error
  | InvalidConfig

definition and_then :: "'e + 'a \<Rightarrow> ('a \<Rightarrow> 'e + 'b) \<Rightarrow> 'e + 'b" where
  "and_then r f = (case r of Inl e \<Rightarrow> Inl e | Inr x \<Rightarrow> f x)"

lemma and_then_Inr [simp]: "and_then (Inr x) f = f x"
  by (simp add: and_then_def)

lemma and_then_Inl [simp]: "and_then (Inl e) f = Inl e"
  by (simp add: and_then_def)

lemma and_then_ok: "and_then r f = Inr y \<longleftrightarrow> (\<exists>x. r = Inr x \<and> f x = Inr y)"
  by (cases r) auto

definition set_field :: "json option \<Rightarrow> string \<Rightarrow> json \<Rightarrow> init_error + json" where
  "set_field v k x = (case v of
     None \<Rightarrow> Inl TypeErr
   | Some j \<Rightarrow> (case put_prop j k (Some x) of Inl _ \<Rightarrow> Inl TypeErr | Inr j' \<Rightarrow> Inr j'))"

definition read_field :: "json option \<Rightarrow> string \<Rightarrow> init_error + json option" where
  "read_field v k = (if can_read v then Inr (property (the v) k) else Inl TypeErr)"

section \<open>Plugins\<close>

definition defaultPlugins :: "(string \<times> string) list" where
  "defaultPlugins =
     [(''cache'', ''LocalCache''), (''storage'', ''NoopStorage''), (''logger'', ''StdOutLogger''), (''locks'', ''DistributedLockRegistry''),
      (''subscriptions'', ''DefaultSubscriptionRegistryFactory''), (''clusterRegistry'', ''DistributedClusterRegistry''),
      (''clusterStates'', ''DistributedStateRegistryFactory''), (''clusterNode'', ''SingleClusterNode''), (''httpService'', ''NodeHTTP'')]"

definition load_first :: "host \<Rightarrow> init_error \<Rightarrow> string list \<Rightarrow> init_error + plugin_class" where
  "load_first H err fs = (case find (ho_loads H) (map (lookupLib H) fs) of None \<Rightarrow> Inl err | Some r \<Rightarrow> Inr (FromModule r))"

text \<open>Without a logger, logging that the plugin cannot be loaded throws itself.\<close>

definition resolvePluginClass :: "host \<Rightarrow> bool \<Rightarrow> json option \<Rightarrow> string \<Rightarrow> init_error + plugin_class" where
  "resolvePluginClass H logger plugin ty =
     (if \<not> can_read plugin then Inl TypeErr
      else let name = property (the plugin) ''name''; path = property (the plugin) ''path'';
               err = (if logger then LoadFailed else TypeErr)
           in if (case name of Some (JStr n) \<Rightarrow> ho_custom H n | _ \<Rightarrow> False)
              then Inr (Registered (case name of Some (JStr n) \<Rightarrow> n | _ \<Rightarrow> []))
              else if can_read path
              then (case path of Some (JStr f) \<Rightarrow> load_first H err [f] | _ \<Rightarrow> Inl err)
              else if can_read name \<and> ty \<noteq> []
              then (case name of
                      Some (JStr n) \<Rightarrow>
                        load_first H err [''@deepstream/'' @ lower_case ty @ ''-'' @ lower_case n, ''deepstream.io-'' @ lower_case ty @ ''-'' @ lower_case n]
                    | _ \<Rightarrow> Inl err)
              else if can_read name
              then (case name of Some (JStr n) \<Rightarrow> load_first H err [n] | _ \<Rightarrow> Inl err)
              else if property (the plugin) ''type'' = Some (JStr ''default'') \<and> js_has defaultPlugins ty
              then Inr (BuiltIn (the (js_get defaultPlugins ty)))
              else Inl (NoNameOrPath ty))"

definition named :: "json \<Rightarrow> bool" where
  "named p \<longleftrightarrow> truthy (property p ''name'') \<or> truthy (property p ''path'')"

text \<open>A table of classes is an object literal, which also has the properties all objects inherit; of these only
  \<open>constructor\<close> can be used with \<open>new\<close>.\<close>

definition by_type :: "(string \<times> string) list \<Rightarrow> json \<Rightarrow> init_error + plugin_class" where
  "by_type table p =
     (case property p ''type'' of
        Some (JStr t) \<Rightarrow>
          (if t = [] then Inl (UnknownType t)
           else case js_get table t of
             Some c \<Rightarrow> Inr (BuiltIn c)
           | None \<Rightarrow> if t = ''constructor'' then Inr ObjectItself
                     else if t \<in> set object_names then Inl TypeErr
                     else Inl (UnknownType t))
      | _ \<Rightarrow> Inl (UnknownType []))"

type_synonym made = "plugin_class \<times> json option"

section \<open>The services\<close>

definition handleUUIDProperty :: "string \<Rightarrow> (string, json) jsmap \<Rightarrow> (string, json) jsmap" where
  "handleUUIDProperty uid config =
     (if js_get config ''serverName'' = Some (JStr ''UUID'') then js_set ''serverName'' (JStr uid) config else config)"

text \<open>The logger, and the level that is set after its construction.\<close>

definition handleLogger :: "host \<Rightarrow> (string, json) jsmap \<Rightarrow> init_error + ((string, json) jsmap \<times> made \<times> json option)" where
  "handleLogger H config =
     (let logger = js_get config ''logger'';
          opts = (if truthy logger then property (the logger) ''options'' else None)
      in and_then (case ho_cli H ''colors'' of None \<Rightarrow> Inr opts | Some c \<Rightarrow> map_sum id Some (set_field opts ''colors'' c)) (\<lambda>opts1.
         and_then (if \<not> can_read logger then Inl TypeErr
                   else if property (the logger) ''name'' = Some (JStr ''pino'') then Inr (BuiltIn ''PinoLogger'')
                   else if named (the logger) then resolvePluginClass H False logger ''logger''
                   else Inr (BuiltIn ''StdOutLogger'')) (\<lambda>cls.
         and_then (case ho_cli H ''logLevel'' of None \<Rightarrow> Inr opts1 | Some l \<Rightarrow> map_sum id Some (set_field opts1 ''logLevel'' l)) (\<lambda>opts2.
         and_then (read_field opts2 ''logLevel'') (\<lambda>lv.
         and_then (case ho_level H lv of
                     Some n \<Rightarrow> Inr (case lv of Some (JStr _) \<Rightarrow> Some n | _ \<Rightarrow> lv)
                   | None \<Rightarrow> if truthy lv then Inl UnknownLogLevel else Inr None) (\<lambda>level.
         and_then (case opts2 of None \<Rightarrow> Inl TypeErr | Some os \<Rightarrow> set_field logger ''options'' os) (\<lambda>logger'.
         Inr (js_set ''logger'' logger' config, (cls, opts2), level))))))))"

text \<open>Going through an array whose elements a step may change.\<close>

fun map_items :: "(json \<Rightarrow> init_error + json \<times> made) \<Rightarrow> (string \<times> json) list \<Rightarrow> init_error + (string \<times> json) list \<times> made list" where
  "map_items f [] = Inr ([], [])"
| "map_items f ((k, v) # kvs) =
     (if nat_lit k
      then and_then (f v) (\<lambda>(v', m). and_then (map_items f kvs) (\<lambda>(kvs', ms). Inr ((k, v') # kvs', m # ms)))
      else and_then (map_items f kvs) (\<lambda>(kvs', ms). Inr ((k, v) # kvs', ms)))"

definition monitoringPlugins :: "(string \<times> string) list" where
  "monitoringPlugins = [(''default'', ''NoopMonitoring''), (''none'', ''NoopMonitoring''), (''http'', ''HTTPMonitoring''), (''log'', ''LogMonitoring'')]"

definition handleMonitoring :: "host \<Rightarrow> json \<Rightarrow> init_error + json \<times> made" where
  "handleMonitoring H p =
     (if \<not> can_read (Some p) then Inl TypeErr
      else and_then (if named p then resolvePluginClass H True (Some p) ''monitoring'' else by_type monitoringPlugins p)
             (\<lambda>cls. Inr (p, cls, property p ''options'')))"

definition handleMonitoringPlugins :: "host \<Rightarrow> (string, json) jsmap \<Rightarrow> init_error + (string, json) jsmap \<times> made list" where
  "handleMonitoringPlugins H config =
     (let m = js_get config ''monitoring'';
          kvs = (case m of
                   Some (JArr kvs) \<Rightarrow> kvs
                 | _ \<Rightarrow> [(''0'', if truthy m then the m else plugin_entry ''none'' [])])
      in and_then (map_items (handleMonitoring H) kvs) (\<lambda>(kvs', ms). Inr (js_set ''monitoring'' (JArr kvs') config, ms)))"

definition authStrategies :: "(string \<times> string) list" where
  "authStrategies = [(''none'', ''OpenAuthentication''), (''file'', ''FileBasedAuthentication''), (''http'', ''HttpAuthentication''),
     (''storage'', ''StorageBasedAuthentication'')]"

text \<open>\<open>options.key = require(options.path)\<close>, when there are options with a path.\<close>

definition load_data :: "host \<Rightarrow> string \<Rightarrow> json option \<Rightarrow> init_error + json option" where
  "load_data H key opts =
     (if truthy opts \<and> truthy (property (the opts) ''path'')
      then (case property (the opts) ''path'' of
              Some (JStr f) \<Rightarrow>
                (case ho_require H (lookupConf H f) of None \<Rightarrow> Inl (NoSuchFile f) | Some d \<Rightarrow> map_sum id Some (set_field opts key d))
            | _ \<Rightarrow> Inl TypeErr)
      else Inr opts)"

definition with_options :: "json \<Rightarrow> json option \<Rightarrow> init_error + json" where
  "with_options p opts = (case opts of None \<Rightarrow> Inr p | Some os \<Rightarrow> set_field (Some p) ''options'' os)"

definition handleAuthStrategy :: "host \<Rightarrow> nat \<Rightarrow> json \<Rightarrow> init_error + json \<times> made" where
  "handleAuthStrategy H count auth =
     (if \<not> can_read (Some auth) then Inl TypeErr
      else and_then (if named auth
                     then and_then (resolvePluginClass H True (Some auth) ''authentication'') (\<lambda>cls. Inr (cls, property auth ''options''))
                     else and_then (by_type authStrategies auth) (\<lambda>cls.
                          and_then (load_data H ''users'' (property auth ''options'')) (\<lambda>opts. Inr (cls, opts)))) (\<lambda>(cls, opts).
           and_then (if count > 1
                     then and_then (read_field opts ''reportInvalidParameters'') (\<lambda>r.
                          if truthy r then Inr opts else map_sum id Some (set_field opts ''reportInvalidParameters'' no))
                     else Inr opts) (\<lambda>opts'.
           and_then (with_options auth opts') (\<lambda>auth'. Inr (auth', cls, opts')))))"

definition handleAuthStrategies :: "host \<Rightarrow> (string, json) jsmap \<Rightarrow> init_error + (string, json) jsmap \<times> made list" where
  "handleAuthStrategies H config0 =
     (let config = (if truthy (ho_cli H ''disableAuth'') then js_set ''auth'' (arr [plugin_entry ''none'' []]) config0 else config0);
          auth = js_get config ''auth''
      in if \<not> truthy auth then Inl (NothingConfigured ''auth'')
         else case auth of
                Some (JArr kvs) \<Rightarrow>
                  and_then (map_items (handleAuthStrategy H (length (filter (\<lambda>(k, _). nat_lit k) kvs))) kvs) (\<lambda>(kvs', ms).
                  Inr (js_set ''auth'' (JArr kvs') config, ms))
              | _ \<Rightarrow> Inl TypeErr)"

definition permissionStrategies :: "(string \<times> string) list" where
  "permissionStrategies = [(''config'', ''ConfigPermission''), (''none'', ''OpenPermission'')]"

definition handlePermissionStrategies :: "host \<Rightarrow> (string, json) jsmap \<Rightarrow> init_error + (string, json) jsmap \<times> made" where
  "handlePermissionStrategies H config =
     (let permission = js_get config ''permission''
      in if \<not> truthy permission then Inl (NothingConfigured ''permission'')
         else and_then (if truthy (ho_cli H ''disablePermissions'')
                        then and_then (set_field permission ''type'' (JStr ''none'')) (\<lambda>p. set_field (Some p) ''options'' (JObj []))
                        else Inr (the permission)) (\<lambda>p.
              and_then (if named p
                        then and_then (resolvePluginClass H True (Some p) ''permission'') (\<lambda>cls. Inr (cls, property p ''options''))
                        else and_then (by_type permissionStrategies p) (\<lambda>cls.
                             and_then (load_data H ''permissions'' (property p ''options'')) (\<lambda>opts. Inr (cls, opts)))) (\<lambda>(cls, opts).
              and_then (with_options p opts) (\<lambda>p'. Inr (js_set ''permission'' p' config, cls, opts)))))"

definition endpoint_classes :: "(string \<times> string) list" where
  "endpoint_classes = [(''ws-binary'', ''WSBinaryConnectionEndpoint''), (''ws-text'', ''WSTextConnectionEndpoint''),
     (''ws-json'', ''WSJSONConnectionEndpoint''), (''mqtt'', ''MQTTConnectionEndpoint''), (''http'', ''HTTPConnectionEndpoint'')]"

definition endpoint_class :: "host \<Rightarrow> json \<Rightarrow> init_error + plugin_class" where
  "endpoint_class H p =
     (case property p ''type'' of
        Some (JStr t) \<Rightarrow> (case js_get endpoint_classes t of Some c \<Rightarrow> Inr (BuiltIn c) | None \<Rightarrow> resolvePluginClass H True (Some p) ''connection'')
      | _ \<Rightarrow> resolvePluginClass H True (Some p) ''connection'')"

definition handleEndpoint :: "host \<Rightarrow> json \<Rightarrow> init_error + json \<times> made" where
  "handleEndpoint H plugin =
     (if \<not> can_read (Some plugin) then Inl TypeErr
      else let os = or_else (property plugin ''options'') (JObj [])
           in and_then (set_field (Some plugin) ''options'' os) (\<lambda>p.
              and_then (endpoint_class H p) (\<lambda>cls. Inr (p, cls, Some os))))"

text \<open>An element of the array that is \<open>null\<close> is deleted and leaves a hole, which the loop reads as \<open>undefined\<close>.\<close>

definition handleConnectionEndpoints :: "host \<Rightarrow> (string, json) jsmap \<Rightarrow> init_error + (string, json) jsmap \<times> made list" where
  "handleConnectionEndpoints H config =
     (let v = js_get config ''connectionEndpoints''; left = filter (\<lambda>(_, e). e \<noteq> JNull) (fields_of v)
      in if \<not> truthy v \<or> left = [] then Inl (NothingConfigured ''connectionEndpoints'')
         else case v of
                Some (JArr kvs) \<Rightarrow>
                  and_then (map_items (handleEndpoint H) kvs) (\<lambda>(kvs', ms). Inr (js_set ''connectionEndpoints'' (JArr kvs') config, ms))
              | _ \<Rightarrow> Inl TypeErr)"

definition handleClusterNode :: "host \<Rightarrow> (string, json) jsmap \<Rightarrow> init_error + (string, json) jsmap \<times> made" where
  "handleClusterNode H config =
     and_then (if truthy (ho_cli H ''clusterSize'')
               then map_sum id Some (set_field (js_get config ''clusterNode'') ''name'' (JStr ''vertical''))
               else Inr (js_get config ''clusterNode'')) (\<lambda>node.
     and_then (if can_read node then Inr (the node) else Inl TypeErr) (\<lambda>p.
     and_then (if property p ''name'' = Some (JStr ''vertical'') then Inr (BuiltIn ''VerticalClusterNode'')
               else if named p then resolvePluginClass H True node ''clusterNode''
               else Inr (BuiltIn ''SingleClusterNode'')) (\<lambda>cls.
     Inr (js_set ''clusterNode'' p config, cls, property p ''options''))))"

definition http_class :: "host \<Rightarrow> json \<Rightarrow> init_error + plugin_class" where
  "http_class H p =
     (if named p then resolvePluginClass H True (Some p) ''httpServer''
      else if property p ''type'' = Some (JStr ''uws'') then (if ho_uws H then Inr (BuiltIn ''UWSHTTP'') else Inl LoadFailed)
      else by_type [(''default'', ''NodeHTTP'')] p)"

text \<open>\<open>config.httpServer.options.k = commandLineArguments.k\<close>\<close>

definition put_option :: "host \<Rightarrow> string \<Rightarrow> json \<Rightarrow> init_error + json" where
  "put_option H k p =
     (if truthy (ho_cli H k)
      then and_then (read_field (Some p) ''options'') (\<lambda>os.
           and_then (set_field os k (the (ho_cli H k))) (\<lambda>os'. set_field (Some p) ''options'' os'))
      else Inr p)"

definition handleHTTPServer :: "host \<Rightarrow> (string, json) jsmap \<Rightarrow> init_error + (string, json) jsmap \<times> made" where
  "handleHTTPServer H config =
     and_then (case js_get config ''httpServer'' of None \<Rightarrow> Inl TypeErr | Some p \<Rightarrow> if can_read (Some p) then Inr p else Inl TypeErr) (\<lambda>p0.
     and_then (put_option H ''host'' p0) (\<lambda>p1.
     and_then (put_option H ''port'' p1) (\<lambda>p.
     and_then (http_class H p) (\<lambda>cls.
     Inr (js_set ''httpServer'' p config, cls, property p ''options'')))))"

definition handleTelemetry :: "host \<Rightarrow> (string, json) jsmap \<Rightarrow> init_error + made" where
  "handleTelemetry H config =
     (case js_get config ''telemetry'' of
        None \<Rightarrow> Inl TypeErr
      | Some p \<Rightarrow>
          (if \<not> can_read (Some p) then Inl TypeErr
           else and_then (if named p then resolvePluginClass H True (Some p) ''telemetry''
                          else by_type [(''deepstreamIO'', ''DeepstreamIOTelemetry'')] p) (\<lambda>cls. Inr (cls, property p ''options''))))"

fun custom_plugins :: "host \<Rightarrow> (string \<times> json) list \<Rightarrow> init_error + (string \<times> made) list" where
  "custom_plugins H [] = Inr []"
| "custom_plugins H ((k, p) # ps) =
     and_then (if \<not> can_read (Some p) then Inl TypeErr
               else if property p ''name'' = Some (JStr ''heap-snapshot'') then Inr (BuiltIn ''HeapSnapshot'')
               else resolvePluginClass H True (Some p) ''plugin'') (\<lambda>cls.
     and_then (custom_plugins H ps) (\<lambda>ms. Inr ((k, cls, Some (or_else (property p ''options'') (JObj []))) # ms)))"

definition handleCustomPlugins :: "host \<Rightarrow> (string, json) jsmap \<Rightarrow> init_error + (string \<times> made) list" where
  "handleCustomPlugins H config = custom_plugins H (fields_of (js_get config ''plugins''))"

text \<open>\<open>new (resolvePluginClass(config.k, 'k', services.logger))(config.k.options, ...)\<close>\<close>

definition simple_service :: "host \<Rightarrow> (string, json) jsmap \<Rightarrow> string \<Rightarrow> init_error + made" where
  "simple_service H config k =
     and_then (resolvePluginClass H True (js_get config k) k) (\<lambda>cls. Inr (cls, property (the (js_get config k)) ''options''))"

section \<open>initialize\<close>

type_synonym services = "(string \<times> made list) list"

text \<open>What was to be logged while the files were read, before there was a logger.\<close>

datatype log_level = DEBUG | INFO | WARN | ERROR | FATAL | OFF

record initial_log =
  il_level :: log_level
  il_event :: string
  il_message :: string

text \<open>\<open>Logs\<close> is a call of the method of the logger that has the level's name.\<close>

datatype init_output = ReportsInvalid | WritesLogo | Logs log_level string string

fun log_initial :: "initial_log list \<Rightarrow> init_output list" where
  "log_initial [] = []"
| "log_initial (l # ls) =
     (case il_level l of
        OFF \<Rightarrow> []
      | level \<Rightarrow> [Logs level (il_event l) (il_message l)]) @ log_initial ls"

text \<open>The logger and the monitoring come first; the others when the initial logs have been written.\<close>

definition first_services ::
  "host \<Rightarrow> string \<Rightarrow> (string, json) jsmap \<Rightarrow> init_error + (string, json) jsmap \<times> services" where
  "first_services H uid config =
     and_then (case mergeConnectionOptions (handleUUIDProperty uid config) of Inl e \<Rightarrow> Inl (Endpoints e) | Inr c \<Rightarrow> Inr c) (\<lambda>c1.
     and_then (handleLogger H c1) (\<lambda>(c2, logger, level).
     and_then (handleMonitoringPlugins H c2) (\<lambda>(c3, monitoring).
     Inr (c3, [(''logger'', [logger]), (''monitoring'', monitoring)]))))"

definition other_services :: "host \<Rightarrow> (string, json) jsmap \<Rightarrow> init_error + (string, json) jsmap \<times> services" where
  "other_services H c3 =
     and_then (simple_service H c3 ''subscriptions'') (\<lambda>subscriptions.
     and_then (simple_service H c3 ''storage'') (\<lambda>storage.
     and_then (simple_service H c3 ''cache'') (\<lambda>cache.
     and_then (handleAuthStrategies H c3) (\<lambda>(c4, auth).
     and_then (handlePermissionStrategies H c4) (\<lambda>(c5, permission).
     and_then (handleConnectionEndpoints H c5) (\<lambda>(c6, endpoints).
     and_then (simple_service H c6 ''locks'') (\<lambda>locks.
     and_then (handleClusterNode H c6) (\<lambda>(c7, node).
     and_then (simple_service H c7 ''clusterRegistry'') (\<lambda>registry.
     and_then (simple_service H c7 ''clusterStates'') (\<lambda>states.
     and_then (handleHTTPServer H c7) (\<lambda>(c8, http).
     and_then (handleTelemetry H c8) (\<lambda>telemetry.
     and_then (handleCustomPlugins H c8) (\<lambda>plugins.
     Inr (c8, [(''subscriptions'', [subscriptions]), (''storage'', [storage]),
       (''cache'', [cache]), (''authentication'', auth), (''permission'', [permission]), (''connectionEndpoints'', endpoints),
       (''locks'', [locks]), (''clusterNode'', [node]), (''clusterRegistry'', [registry]), (''clusterStates'', [states]),
       (''httpService'', [http]), (''telemetry'', [telemetry]), (''plugins'', map snd plugins)]))))))))))))))"

text \<open>What is written out, and the configuration and the services unless an exception is thrown.\<close>

definition initialize ::
  "host \<Rightarrow> string \<Rightarrow> (string, json) jsmap \<Rightarrow> initial_log list \<Rightarrow> init_output list \<times> (init_error + (string, json) jsmap \<times> services)" where
  "initialize H uid config initialLogs =
     (if \<not> ho_valid H config then ([ReportsInvalid], Inl InvalidConfig)
      else let logo = (if js_get config ''showLogo'' = Some yes then [WritesLogo] else [])
           in case first_services H uid config of
                Inl e \<Rightarrow> (logo, Inl e)
              | Inr (c3, svcs) \<Rightarrow>
                  (logo @ log_initial initialLogs,
                   and_then (other_services H c3) (\<lambda>(c, more). Inr (c, svcs @ more))))"

section \<open>Laws\<close>

lemma map_items_made:
  "map_items f kvs = Inr (kvs', ms) \<Longrightarrow> list_all2 (\<lambda>v m. \<exists>v'. f v = Inr (v', m)) (map snd (filter (\<lambda>(k, _). nat_lit k) kvs)) ms"
  by (induction kvs arbitrary: kvs' ms) (auto simp: and_then_ok split: if_splits)

lemma merge_endpoints_other: "mergeConnectionOptions config = Inr c \<Longrightarrow> k \<noteq> ''connectionEndpoints'' \<Longrightarrow> js_get c k = js_get config k"
  by (auto simp: mergeConnectionOptions_def js_get_set Let_def split: option.splits json.splits sum.splits if_splits)

lemma uuid_other: "k \<noteq> ''serverName'' \<Longrightarrow> js_get (handleUUIDProperty uid config) k = js_get config k"
  by (simp add: handleUUIDProperty_def js_get_set)

lemma logger_other: "handleLogger H config = Inr (c, r) \<Longrightarrow> k \<noteq> ''logger'' \<Longrightarrow> js_get c k = js_get config k"
  by (auto simp: handleLogger_def Let_def and_then_ok js_get_set)

lemma monitoring_other: "handleMonitoringPlugins H config = Inr (c, r) \<Longrightarrow> k \<noteq> ''monitoring'' \<Longrightarrow> js_get c k = js_get config k"
  by (auto simp: handleMonitoringPlugins_def Let_def and_then_ok js_get_set)

lemma auth_other: "handleAuthStrategies H config = Inr (c, r) \<Longrightarrow> k \<noteq> ''auth'' \<Longrightarrow> js_get c k = js_get config k"
  by (auto simp: handleAuthStrategies_def Let_def and_then_ok js_get_set split: if_splits option.splits json.splits)

lemma initialize_ok:
  assumes "initialize H uid config logs = (out, Inr (c, svcs))"
  obtains c1 c2 logger level c3 monitoring subscriptions storage cache c4 auth c5 permission c6 endpoints locks c7 node registry
      states http telemetry plugins where
    "mergeConnectionOptions (handleUUIDProperty uid config) = Inr c1" "handleLogger H c1 = Inr (c2, logger, level)"
    "handleMonitoringPlugins H c2 = Inr (c3, monitoring)" "simple_service H c3 ''subscriptions'' = Inr subscriptions"
    "simple_service H c3 ''storage'' = Inr storage" "simple_service H c3 ''cache'' = Inr cache"
    "handleAuthStrategies H c3 = Inr (c4, auth)" "handlePermissionStrategies H c4 = Inr (c5, permission)"
    "handleConnectionEndpoints H c5 = Inr (c6, endpoints)" "simple_service H c6 ''locks'' = Inr locks"
    "handleClusterNode H c6 = Inr (c7, node)" "simple_service H c7 ''clusterRegistry'' = Inr registry"
    "simple_service H c7 ''clusterStates'' = Inr states" "handleHTTPServer H c7 = Inr (c, http)"
    "handleTelemetry H c = Inr telemetry" "handleCustomPlugins H c = Inr plugins"
    "svcs = [(''logger'', [logger]), (''monitoring'', monitoring), (''subscriptions'', [subscriptions]), (''storage'', [storage]),
       (''cache'', [cache]), (''authentication'', auth), (''permission'', [permission]), (''connectionEndpoints'', endpoints),
       (''locks'', [locks]), (''clusterNode'', [node]), (''clusterRegistry'', [registry]), (''clusterStates'', [states]),
       (''httpService'', [http]), (''telemetry'', [telemetry]), (''plugins'', map snd plugins)]"
  using assms unfolding initialize_def first_services_def other_services_def
  by (auto simp: and_then_ok Let_def split: sum.splits if_splits)

text \<open>What comes to the strategies and the permission is what was in the configuration.\<close>

lemma initialize_parts:
  assumes "initialize H uid config logs = (out, Inr (c, svcs))"
  obtains c3 c4 c5 auth permission where
    "js_get c3 ''auth'' = js_get config ''auth''" "handleAuthStrategies H c3 = Inr (c4, auth)"
    "js_get svcs ''authentication'' = Some auth" "js_get c4 ''permission'' = js_get config ''permission''"
    "handlePermissionStrategies H c4 = Inr (c5, permission)" "js_get svcs ''permission'' = Some [permission]"
proof (rule initialize_ok [OF assms], goal_cases)
  case (1 c1 c2 logger level c3 monitoring subscriptions storage cache c4 auth c5 permission)
  have same: "js_get c3 k = js_get config k" if "k \<notin> {''serverName'', ''connectionEndpoints'', ''logger'', ''monitoring''}" for k
    using that merge_endpoints_other [OF 1(2)] uuid_other logger_other [OF 1(3)] monitoring_other [OF 1(4)] by simp
  moreover from this have "js_get c4 ''permission'' = js_get config ''permission''"
    using auth_other [OF 1(8)] by simp
  ultimately show ?case using 1(1) [of c3 c4 auth c5 permission] 1(8,9,18) by simp
qed

lemma none_strategy:
  assumes "n \<le> 1" "handleAuthStrategy H n (plugin_entry ''none'' []) = Inr (v, m)"
  shows "m = (BuiltIn ''OpenAuthentication'', Some (JObj []))"
  using assms
  by (simp add: handleAuthStrategy_def plugin_entry_def can_read_def named_def by_type_def authStrategies_def load_data_def
      with_options_def set_field_def)

lemma none_strategies:
  assumes "handleAuthStrategies H config = Inr (c, ms)" "\<not> truthy (ho_cli H ''disableAuth'')"
    and "js_get config ''auth'' = Some a" "array_items a = Some [plugin_entry ''none'' []]"
  shows "ms = [(BuiltIn ''OpenAuthentication'', Some (JObj []))]"
proof -
  obtain kvs where a: "a = JArr kvs" and i: "map snd (filter (\<lambda>(k, _). nat_lit k) kvs) = [plugin_entry ''none'' []]"
    using assms(4) by (auto simp: array_items_def split: json.splits)
  from i have n: "length (filter (\<lambda>(k, _). nat_lit k) kvs) = 1" by (metis length_map length_Cons list.size(3) One_nat_def)
  obtain kvs' where "map_items (handleAuthStrategy H 1) kvs = Inr (kvs', ms)"
    using assms(1-3) a n by (auto simp: handleAuthStrategies_def Let_def and_then_ok)
  from map_items_made [OF this] i obtain v m where "ms = [m]" "handleAuthStrategy H 1 (plugin_entry ''none'' []) = Inr (v, m)"
    by (auto simp: list_all2_Cons1)
  then show ?thesis using none_strategy [of 1] by simp
qed

text \<open>C5: A server whose configuration file gives \<open>auth\<close> as an object, whatever strategy that names, starts with the
  strategy that lets everybody in and no other.\<close>

theorem auth_object_lets_everybody_in:
  assumes "extendConfig uid info file argv = Inr (JObj config)" "distinct (map fst file)"
    and "js_get file ''auth'' = Some (JObj fs)" "js_get fs ''constructor'' = None" "\<forall>k \<in> set (map fst fs). \<not> nat_lit k"
    and "argv ''auth'' = None" "\<not> truthy (ho_cli H ''disableAuth'')"
    and "initialize H uid' config logs = (out, Inr (c, svcs))"
  shows "js_get svcs ''authentication'' = Some [(BuiltIn ''OpenAuthentication'', Some (JObj []))]"
proof -
  obtain a where a: "js_get config ''auth'' = Some a" "array_items a = Some [plugin_entry ''none'' []]"
    using auth_items [OF assms(1-6)] by auto
  from assms(8) show ?thesis
  proof (rule initialize_parts)
    fix c3 c4 auth
    assume "js_get c3 ''auth'' = js_get config ''auth''" "handleAuthStrategies H c3 = Inr (c4, auth)"
      "js_get svcs ''authentication'' = Some auth"
    then show ?thesis using none_strategies [of H c3] assms(7) a by simp
  qed
qed

text \<open>With \<open>disableAuth\<close> on the command line everybody is let in, whatever the configuration says.\<close>

theorem disable_auth:
  assumes "initialize H uid config logs = (out, Inr (c, svcs))" "truthy (ho_cli H ''disableAuth'')"
  shows "js_get svcs ''authentication'' = Some [(BuiltIn ''OpenAuthentication'', Some (JObj []))]"
proof -
  obtain c3 c4 auth where p: "handleAuthStrategies H c3 = Inr (c4, auth)" "js_get svcs ''authentication'' = Some auth"
    using assms(1) by (rule initialize_parts)
  obtain v m where "auth = [m]" "handleAuthStrategy H (Suc 0) (plugin_entry ''none'' []) = Inr (v, m)"
    using p(1) assms(2) by (auto simp: handleAuthStrategies_def Let_def js_get_set arr_def and_then_ok nat_lit_str)
  then show ?thesis using p(2) none_strategy [of "Suc 0"] by simp
qed

lemma load_first_class: "load_first H err fs = Inr cls \<Longrightarrow> \<exists>f. cls = FromModule f \<and> ho_loads H f"
  by (auto simp: load_first_def find_Some_iff split: option.splits)

lemma named_class: "resolvePluginClass H l (Some p) ty = Inr cls \<Longrightarrow> named p \<Longrightarrow> \<exists>n. cls = Registered n \<or> cls = FromModule n"
  by (auto simp: resolvePluginClass_def Let_def named_def can_read_def split: if_splits option.splits json.splits dest: load_first_class)

text \<open>\<open>disablePermissions\<close> on the command line opens the permissions only if the configuration gives their type; a
  permission plugin given by name or path stays in force, without its options.\<close>

theorem disable_permissions_spares_plugins:
  assumes "initialize H uid config logs = (out, Inr (c, svcs))" "truthy (ho_cli H ''disablePermissions'')"
    and "js_get config ''permission'' = Some (JObj fs)"
  shows "\<exists>cls. js_get svcs ''permission'' = Some [(cls, Some (JObj []))] \<and>
     (cls = BuiltIn ''OpenPermission'' \<longleftrightarrow> \<not> named (JObj fs))"
proof -
  obtain c4 c5 permission where p: "js_get c4 ''permission'' = js_get config ''permission''"
      "handlePermissionStrategies H c4 = Inr (c5, permission)" "js_get svcs ''permission'' = Some [permission]"
    using assms(1) by (rule initialize_parts)
  let ?p = "JObj (js_set ''options'' (JObj []) (js_set ''type'' (JStr ''none'') fs))"
  have n: "named ?p = named (JObj fs)" by (simp add: named_def js_get_set)
  show ?thesis
  proof (cases "named (JObj fs)")
    case True
    with p(2) p(1) assms(2,3) n obtain cls where "resolvePluginClass H True (Some ?p) ''permission'' = Inr cls"
        "permission = (cls, Some (JObj []))"
      by (auto simp: handlePermissionStrategies_def Let_def and_then_ok set_field_def js_get_set with_options_def)
    then show ?thesis using p(3) True named_class [of H True ?p] n by fastforce
  next
    case False
    with p(2) p(1) assms(2,3) n have "permission = (BuiltIn ''OpenPermission'', Some (JObj []))"
      by (auto simp: handlePermissionStrategies_def Let_def and_then_ok set_field_def js_get_set with_options_def by_type_def
          permissionStrategies_def load_data_def)
    then show ?thesis using p(3) False by simp
  qed
qed

text \<open>Of several strategies each needs options; one without them ends the start with a type error.\<close>

theorem strategies_need_options:
  assumes "1 < n" "by_type authStrategies auth = Inr cls" "\<not> named auth" "property auth ''options'' = None"
  shows "handleAuthStrategy H n auth = Inl TypeErr"
proof -
  have "can_read (Some auth)" using assms(2) by (auto simp: can_read_def by_type_def property_def split: json.splits)
  then show ?thesis
    using assms by (simp add: handleAuthStrategy_def load_data_def read_field_def can_read_def)
qed

text \<open>The type of the cluster node is not read: without a name, a path or \<open>clusterSize\<close> there is the single node.\<close>

theorem cluster_type_ignored:
  assumes "js_get config ''clusterNode'' = Some (JObj fs)" "\<not> named (JObj fs)" "\<not> truthy (ho_cli H ''clusterSize'')"
  shows "\<exists>config'. handleClusterNode H config = Inr (config', BuiltIn ''SingleClusterNode'', js_get fs ''options'')"
  using assms by (auto simp: handleClusterNode_def can_read_def named_def)

text \<open>A logger that cannot be loaded is never reported: saying so takes a logger, and the start ends with a type error.\<close>

theorem missing_logger_unreported:
  assumes "js_get config ''logger'' = Some (JObj fs)" "named (JObj fs)" "js_get fs ''name'' \<noteq> Some (JStr ''pino'')"
    and "\<forall>n. \<not> ho_custom H n" "\<forall>f. \<not> ho_loads H f" "ho_cli H ''colors'' = None"
  shows "handleLogger H config = Inl TypeErr"
proof -
  have "resolvePluginClass H False (Some (JObj fs)) ''logger'' = Inl TypeErr"
    using assms(2,4,5)
    by (auto simp: resolvePluginClass_def Let_def named_def can_read_def load_first_def split: option.splits json.splits)
  then show ?thesis using assms by (simp add: handleLogger_def Let_def can_read_def)
qed

section \<open>Examples\<close>

definition example_host :: "(string \<Rightarrow> json option) \<Rightarrow> host" where
  "example_host cli = \<lparr>ho_cli = cli, ho_custom = (\<lambda>n. n = ''x''), ho_loads = (\<lambda>_. False), ho_require = (\<lambda>_. None), ho_cwd = ''/'',
     ho_libDir = None, ho_confDir = None, ho_uws = False, ho_level = (\<lambda>_. None), ho_valid = (\<lambda>_. True)\<rparr>"

definition x_plugin :: json where
  "x_plugin = JObj [(''name'', JStr ''x'')]"

text \<open>Apart from its endpoints, strategies and permission a configuration like the default one.\<close>

definition like_default :: "string \<Rightarrow> int \<Rightarrow> (string, json) jsmap \<Rightarrow> bool" where
  "like_default uid info config \<longleftrightarrow>
     (\<forall>k. k \<notin> {''auth'', ''connectionEndpoints'', ''permission''} \<longrightarrow> js_get config k = js_get (default_options uid info) k) \<and>
     js_get config ''connectionEndpoints'' = Some (arr [x_plugin])"

lemma default_fields:
  "js_get (default_options uid info) ''serverName'' = Some (JStr uid)"
  "js_get (default_options uid info) ''logger'' = Some (plugin_entry ''default'' [])"
  "js_get (default_options uid info) ''monitoring'' = Some (plugin_entry ''none'' [])"
  "js_get (default_options uid info) ''cache'' = Some (plugin_entry ''default'' [])"
  "js_get (default_options uid info) ''storage'' = Some (plugin_entry ''default'' [])"
  "js_get (default_options uid info) ''clusterNode'' = Some (plugin_entry ''default'' [])"
  "js_get (default_options uid info) ''plugins'' = Some (JObj [])"
  "js_get (default_options uid info) ''telemetry'' = Some (plugin_entry ''deepstreamIO'' [(''enabled'', no)])"
  by (simp_all add: default_options_def)

lemma default_fields2:
  "\<exists>os. js_get (default_options uid info) ''subscriptions'' = Some (plugin_entry ''default'' os)"
  "\<exists>os. js_get (default_options uid info) ''locks'' = Some (plugin_entry ''default'' os)"
  "\<exists>os. js_get (default_options uid info) ''clusterRegistry'' = Some (plugin_entry ''default'' os)"
  "\<exists>os. js_get (default_options uid info) ''clusterStates'' = Some (plugin_entry ''default'' os)"
  "\<exists>os. js_get (default_options uid info) ''httpServer'' = Some (plugin_entry ''default'' os)"
  by (simp_all add: default_options_def plugin_entry_def)

lemma default_resolved:
  "js_has defaultPlugins k \<Longrightarrow> resolvePluginClass H l (Some (plugin_entry ''default'' os)) k = Inr (BuiltIn (the (js_get defaultPlugins k)))"
  by (simp add: resolvePluginClass_def plugin_entry_def can_read_def Let_def)

lemma simple_default:
  "js_get config k = Some (plugin_entry ''default'' os) \<Longrightarrow> js_has defaultPlugins k \<Longrightarrow> \<exists>m. simple_service H config k = Inr m"
  by (simp add: simple_service_def default_resolved)

lemma permission_other: "handlePermissionStrategies H config = Inr (c, r) \<Longrightarrow> k \<noteq> ''permission'' \<Longrightarrow> js_get c k = js_get config k"
  by (auto simp: handlePermissionStrategies_def Let_def and_then_ok js_get_set split: if_splits)

lemma endpoints_other: "handleConnectionEndpoints H config = Inr (c, r) \<Longrightarrow> k \<noteq> ''connectionEndpoints'' \<Longrightarrow> js_get c k = js_get config k"
  by (auto simp: handleConnectionEndpoints_def Let_def and_then_ok js_get_set split: if_splits option.splits json.splits)

lemma node_other: "handleClusterNode H config = Inr (c, r) \<Longrightarrow> k \<noteq> ''clusterNode'' \<Longrightarrow> js_get c k = js_get config k"
  by (auto simp: handleClusterNode_def Let_def and_then_ok js_get_set)

lemma http_other: "handleHTTPServer H config = Inr (c, r) \<Longrightarrow> k \<noteq> ''httpServer'' \<Longrightarrow> js_get c k = js_get config k"
  by (auto simp: handleHTTPServer_def Let_def and_then_ok js_get_set)

lemmas handlers_other = merge_endpoints_other logger_other monitoring_other auth_other permission_other endpoints_other node_other http_other

lemma example_endpoints:
  assumes "js_get config ''connectionEndpoints'' = Some (arr [x_plugin])"
  shows "\<exists>c. mergeConnectionOptions config = Inr c \<and> js_get c ''connectionEndpoints'' = Some (arr [x_plugin])"
    and "\<exists>r. handleConnectionEndpoints (example_host cli) config = Inr r"
proof -
  have "property d ''type'' \<noteq> property x_plugin ''type''" if "d \<in> set default_endpoints" for d
    using that by (auto simp: default_endpoints_def x_plugin_def plugin_entry_def)
  then have "find (\<lambda>d. property d ''type'' = property x_plugin ''type'') default_endpoints = None"
    by (auto simp: find_None_iff)
  moreover have "can_read (Some x_plugin)" by (simp add: can_read_def x_plugin_def)
  ultimately have "merge_endpoint x_plugin = Inr x_plugin" by (simp add: merge_endpoint_def)
  then show "\<exists>c. mergeConnectionOptions config = Inr c \<and> js_get c ''connectionEndpoints'' = Some (arr [x_plugin])"
    using assms nat_lit_str [of 0] by (simp add: mergeConnectionOptions_def arr_single js_get_set)
  have "nat_lit ''0''" by code_simp
  then show "\<exists>r. handleConnectionEndpoints (example_host cli) config = Inr r"
    using assms by (simp add: handleConnectionEndpoints_def arr_single fields_of_def x_plugin_def handleEndpoint_def can_read_def
        set_field_def endpoint_class_def resolvePluginClass_def example_host_def or_else_def
        Let_def)
qed

lemma defaults_have:
  "js_has defaultPlugins ''subscriptions''" "js_has defaultPlugins ''storage''" "js_has defaultPlugins ''cache''"
  "js_has defaultPlugins ''locks''" "js_has defaultPlugins ''clusterRegistry''" "js_has defaultPlugins ''clusterStates''"
  by (simp_all add: js_has_def defaultPlugins_def)

lemma example_starts:
  assumes "like_default ''u'' info config" "ho_cli H = cli" "H = example_host cli"
    and cli: "cli ''colors'' = None" "cli ''logLevel'' = None" "cli ''clusterSize'' = None" "cli ''host'' = None" "cli ''port'' = None"
    and auth: "\<And>c. js_get c ''auth'' = js_get config ''auth'' \<Longrightarrow> \<exists>r. handleAuthStrategies H c = Inr r"
    and perm: "\<And>c. js_get c ''permission'' = js_get config ''permission'' \<Longrightarrow> \<exists>r. handlePermissionStrategies H c = Inr r"
  shows "\<exists>out c svcs. initialize H uid config logs = (out, Inr (c, svcs))"
proof -
  have d: "js_get config k = js_get (default_options ''u'' info) k" if "k \<notin> {''auth'', ''connectionEndpoints'', ''permission''}" for k
    using that assms(1) by (simp add: like_default_def)
  have uuid: "handleUUIDProperty uid config = config"
    using d [of "''serverName''"] default_fields(1) [of "''u''" info] by (simp add: handleUUIDProperty_def)
  obtain c1 where 1: "mergeConnectionOptions config = Inr c1" "js_get c1 ''connectionEndpoints'' = Some (arr [x_plugin])"
    using example_endpoints(1) assms(1) by (auto simp: like_default_def)
  have d1: "js_get c1 k = js_get config k" if "k \<noteq> ''connectionEndpoints''" for k using handlers_other(1) [OF 1(1) that] .
  have "\<exists>r. handleLogger H c1 = Inr r"
    using d1 [of "''logger''"] d [of "''logger''"] default_fields(2) [of "''u''" info] cli assms(2,3)
    by (simp add: handleLogger_def Let_def plugin_entry_def can_read_def named_def read_field_def example_host_def set_field_def)
  then obtain c2 logger level where 2: "handleLogger H c1 = Inr (c2, logger, level)" by auto
  have "\<exists>r. handleMonitoringPlugins H c2 = Inr r"
    using handlers_other(2) [OF 2, of "''monitoring''"] d1 [of "''monitoring''"] d [of "''monitoring''"] default_fields(3) [of "''u''" info]
    by (simp add: handleMonitoringPlugins_def Let_def plugin_entry_def handleMonitoring_def can_read_def named_def by_type_def monitoringPlugins_def)
  then obtain c3 monitoring where 3: "handleMonitoringPlugins H c2 = Inr (c3, monitoring)" by auto
  have d3: "js_get c3 k = js_get config k" if "k \<notin> {''connectionEndpoints'', ''logger'', ''monitoring''}" for k
    using that d1 handlers_other(2) [OF 2] handlers_other(3) [OF 3] by simp
  have "js_get c3 ''storage'' = Some (plugin_entry ''default'' [])" "js_get c3 ''cache'' = Some (plugin_entry ''default'' [])"
      "\<exists>os. js_get c3 ''subscriptions'' = Some (plugin_entry ''default'' os)"
    using d3 d default_fields(4,5) default_fields2(1) by simp_all
  then obtain sub sto ca where s: "simple_service H c3 ''subscriptions'' = Inr sub" "simple_service H c3 ''storage'' = Inr sto"
      "simple_service H c3 ''cache'' = Inr ca"
    using simple_default [of c3 "''subscriptions''"] simple_default [of c3 "''storage''"] simple_default [of c3 "''cache''"] defaults_have
    by metis
  obtain c4 auth where 4: "handleAuthStrategies H c3 = Inr (c4, auth)" using auth [of c3] d3 by auto
  have d4: "js_get c4 ''permission'' = js_get config ''permission''" using handlers_other(4) [OF 4] d3 by simp
  obtain c5 permission where 5: "handlePermissionStrategies H c4 = Inr (c5, permission)" using perm [OF d4] by auto
  have "js_get c5 ''connectionEndpoints'' = Some (arr [x_plugin])"
    using handlers_other(5) [OF 5] handlers_other(4) [OF 4] handlers_other(3) [OF 3] handlers_other(2) [OF 2] 1(2) by simp
  then have "\<exists>r. handleConnectionEndpoints H c5 = Inr r" using example_endpoints(2) assms(3) by simp
  then obtain c6 endpoints where 6: "handleConnectionEndpoints H c5 = Inr (c6, endpoints)" by auto
  have d6: "js_get c6 k = js_get (default_options ''u'' info) k"
    if "k \<notin> {''auth'', ''connectionEndpoints'', ''permission'', ''logger'', ''monitoring''}" for k
    using that d d3 handlers_other(4) [OF 4] handlers_other(5) [OF 5] handlers_other(6) [OF 6] by simp
  have "\<exists>r. handleClusterNode H c6 = Inr r"
    using d6 [of "''clusterNode''"] default_fields(6) cli assms(2)
    by (simp add: handleClusterNode_def plugin_entry_def can_read_def named_def)
  then obtain c7 node where 7: "handleClusterNode H c6 = Inr (c7, node)" by auto
  have d7: "js_get c7 k = js_get (default_options ''u'' info) k"
    if "k \<notin> {''auth'', ''connectionEndpoints'', ''permission'', ''logger'', ''monitoring'', ''clusterNode''}" for k
    using that d6 handlers_other(7) [OF 7] by simp
  have "\<exists>os. js_get c6 ''locks'' = Some (plugin_entry ''default'' os)" "\<exists>os. js_get c7 ''clusterRegistry'' = Some (plugin_entry ''default'' os)"
      "\<exists>os. js_get c7 ''clusterStates'' = Some (plugin_entry ''default'' os)"
    using d6 d7 default_fields2(2-4) by simp_all
  then obtain lo re st where s7: "simple_service H c6 ''locks'' = Inr lo" "simple_service H c7 ''clusterRegistry'' = Inr re"
      "simple_service H c7 ''clusterStates'' = Inr st"
    using simple_default [of c6 "''locks''"] simple_default [of c7 "''clusterRegistry''"] simple_default [of c7 "''clusterStates''"] defaults_have
    by metis
  have "\<exists>os. js_get c7 ''httpServer'' = Some (plugin_entry ''default'' os)" using d7 default_fields2(5) by simp
  then have "\<exists>r. handleHTTPServer H c7 = Inr r"
    using cli assms(2) by (auto simp: handleHTTPServer_def put_option_def http_class_def plugin_entry_def can_read_def named_def by_type_def)
  then obtain c8 http where 8: "handleHTTPServer H c7 = Inr (c8, http)" by auto
  have "js_get c8 ''telemetry'' = Some (plugin_entry ''deepstreamIO'' [(''enabled'', no)])" "js_get c8 ''plugins'' = Some (JObj [])"
    using handlers_other(8) [OF 8] d7 default_fields(7,8) by simp_all
  then have "\<exists>r. handleTelemetry H c8 = Inr r" "handleCustomPlugins H c8 = Inr []"
    by (simp_all add: handleTelemetry_def plugin_entry_def can_read_def named_def by_type_def handleCustomPlugins_def fields_of_def)
  then obtain te where 9: "handleTelemetry H c8 = Inr te" "handleCustomPlugins H c8 = Inr []" by auto
  have "\<exists>s1. first_services H uid config = Inr (c3, s1)" unfolding first_services_def uuid by (simp add: 1(1) 2 3)
  moreover have "\<exists>c s2. other_services H c3 = Inr (c, s2)" unfolding other_services_def by (simp add: s 4 5 6 7 8 s7 9)
  moreover have "ho_valid H config" using assms(3) by (simp add: example_host_def)
  ultimately show ?thesis by (auto simp: initialize_def Let_def)
qed

lemma example_auth:
  assumes "js_get config ''auth'' = Some (JArr ((''0'', plugin_entry ''none'' []) # rest))" "\<forall>k \<in> set (map fst rest). \<not> nat_lit k"
  shows "\<exists>r. handleAuthStrategies (example_host cli) config = Inr r"
proof (cases "truthy (cli ''disableAuth'')")
  case True
  then show ?thesis
    using nat_lit_str [of 0]
    by (simp add: handleAuthStrategies_def Let_def js_get_set arr_def handleAuthStrategy_def plugin_entry_def can_read_def
        named_def by_type_def authStrategies_def load_data_def with_options_def set_field_def example_host_def)
next
  case False
  have "map_items f rest = Inr (rest, [])" for f using assms(2) by (induction rest) auto
  moreover have "nat_lit ''0''" by code_simp
  moreover have "filter (\<lambda>(k, _). nat_lit k) rest = []" using assms(2) by (auto simp: filter_empty_conv)
  ultimately show ?thesis
    using False assms(1)
    by (simp add: handleAuthStrategies_def Let_def handleAuthStrategy_def plugin_entry_def can_read_def
        named_def by_type_def authStrategies_def load_data_def with_options_def set_field_def example_host_def)
qed

lemma example_permission:
  assumes "js_get config ''permission'' = Some (plugin_entry ''none'' [(''maxRuleIterations'', num 3), (''cacheEvacuationInterval'', num 60000)])
     \<or> js_get config ''permission'' = Some x_plugin"
  shows "\<exists>r. handlePermissionStrategies (example_host cli) config = Inr r"
  using assms
proof (elim disjE)
  assume "js_get config ''permission'' = Some (plugin_entry ''none'' [(''maxRuleIterations'', num 3), (''cacheEvacuationInterval'', num 60000)])"
  then show ?thesis
    by (simp add: handlePermissionStrategies_def Let_def plugin_entry_def named_def by_type_def permissionStrategies_def load_data_def
        with_options_def set_field_def)
next
  have r: "resolvePluginClass (example_host cli) True (Some (JObj ((''name'', JStr ''x'') # fs))) ''permission'' = Inr (Registered ''x'')" for fs
    by (simp add: resolvePluginClass_def Let_def can_read_def example_host_def)
  assume "js_get config ''permission'' = Some x_plugin"
  then show ?thesis
    by (simp add: handlePermissionStrategies_def Let_def x_plugin_def named_def r with_options_def set_field_def)
qed

definition example_config :: "(string, json) jsmap" where
  "example_config = js_set ''connectionEndpoints'' (arr [x_plugin]) (default_options ''u'' 2)"

lemma default_auth_permission:
  "js_get (default_options uid info) ''auth'' = Some (arr [plugin_entry ''none'' []])"
  "js_get (default_options uid info) ''permission'' =
     Some (plugin_entry ''none'' [(''maxRuleIterations'', num 3), (''cacheEvacuationInterval'', num 60000)])"
  by (simp_all add: default_options_def)

lemma example_config_starts:
  assumes "cli ''colors'' = None" "cli ''logLevel'' = None" "cli ''clusterSize'' = None" "cli ''host'' = None" "cli ''port'' = None"
    and "p = x_plugin \<or> p = plugin_entry ''none'' [(''maxRuleIterations'', num 3), (''cacheEvacuationInterval'', num 60000)]"
  shows "\<exists>out c svcs. initialize (example_host cli) ''v'' (js_set ''permission'' p example_config) logs = (out, Inr (c, svcs))"
proof (rule example_starts [of 2 _ _ cli])
  show "like_default ''u'' 2 (js_set ''permission'' p example_config)"
    by (simp add: like_default_def example_config_def js_get_set)
next
  fix c assume "js_get c ''auth'' = js_get (js_set ''permission'' p example_config) ''auth''"
  then show "\<exists>r. handleAuthStrategies (example_host cli) c = Inr r"
    using example_auth [of c "[]"] default_auth_permission(1) by (simp add: example_config_def js_get_set arr_single)
next
  fix c assume "js_get c ''permission'' = js_get (js_set ''permission'' p example_config) ''permission''"
  then show "\<exists>r. handlePermissionStrategies (example_host cli) c = Inr r"
    using example_permission [of c] assms(6) by (auto simp: js_get_set)
qed (simp_all add: assms example_host_def)

definition some_cli :: "string \<Rightarrow> json option" where
  "some_cli k = (if k \<in> {''disableAuth'', ''disablePermissions''} then Some yes else None)"

lemma some_cli_starts:
  "\<exists>out c svcs. initialize (example_host some_cli) ''v'' (js_set ''permission'' x_plugin example_config) logs = (out, Inr (c, svcs))"
  by (rule example_config_starts) (simp_all add: some_cli_def)

theorem disable_auth_witness:
  "\<exists>out c svcs. initialize (example_host some_cli) ''v'' (js_set ''permission'' x_plugin example_config) [] = (out, Inr (c, svcs)) \<and>
     js_get svcs ''authentication'' = Some [(BuiltIn ''OpenAuthentication'', Some (JObj []))]"
proof -
  obtain out c svcs where i: "initialize (example_host some_cli) ''v'' (js_set ''permission'' x_plugin example_config) [] = (out, Inr (c, svcs))"
    using some_cli_starts by blast
  from disable_auth [OF i] i show ?thesis by (auto simp: example_host_def some_cli_def)
qed

theorem disable_permissions_spares_plugins_witness:
  "\<exists>out c svcs cls. initialize (example_host some_cli) ''v'' (js_set ''permission'' x_plugin example_config) [] = (out, Inr (c, svcs)) \<and>
     js_get svcs ''permission'' = Some [(cls, Some (JObj []))] \<and> cls \<noteq> BuiltIn ''OpenPermission''"
proof -
  obtain out c svcs where i: "initialize (example_host some_cli) ''v'' (js_set ''permission'' x_plugin example_config) [] = (out, Inr (c, svcs))"
    using some_cli_starts by blast
  have "truthy (ho_cli (example_host some_cli) ''disablePermissions'')" by (simp add: example_host_def some_cli_def)
  from disable_permissions_spares_plugins [OF i this, of "[(''name'', JStr ''x'')]"] i show ?thesis
    by (auto simp: js_get_set x_plugin_def named_def)
qed

definition old_file :: "(string, json) jsmap" where
  "old_file = [(''connectionEndpoints'', arr [x_plugin]), (''auth'', plugin_entry ''file'' [])]"

lemma old_file_merged:
  "\<exists>hs. extendConfig ''u'' 2 old_file (\<lambda>_. None) = Inr (JObj hs) \<and> like_default ''u'' 2 hs \<and>
     js_get hs ''auth'' = Some (JArr [(''0'', plugin_entry ''none'' []), (''type'', JStr ''file''), (''options'', JObj [])]) \<and>
     js_get hs ''permission'' = js_get (default_options ''u'' 2) ''permission''"
proof -
  let ?d = "(''plugins'', JObj []) # js_delete ''plugins'' (default_options ''u'' 2)"
  have "internalMerge (JObj ds) old_file =
     Inr (JObj (js_set ''auth'' (JArr [(''0'', plugin_entry ''none'' []), (''type'', JStr ''file''), (''options'', JObj [])])
       (js_set ''connectionEndpoints'' (arr [x_plugin]) ds)))"
    if "js_get ds ''auth'' = Some (arr [plugin_entry ''none'' []])" for ds
    using that
    by (simp add: old_file_def plugin_entry_def plain_fields_def present_or_new_def js_get_set arr_single assign_array
        property_def inherited_def object_names_def array_names_def)
  then have "internalMerge (JObj ?d) old_file =
     Inr (JObj (js_set ''auth'' (JArr [(''0'', plugin_entry ''none'' []), (''type'', JStr ''file''), (''options'', JObj [])])
       (js_set ''connectionEndpoints'' (arr [x_plugin]) ?d)))"
    using default_auth_permission(1) defaults_merged_get by metis
  moreover have "cli_args ''u'' 2 (\<lambda>_. None) = []" by (simp add: cli_args_def)
  ultimately have "extendConfig ''u'' 2 old_file (\<lambda>_. None) =
     Inr (JObj (js_set ''auth'' (JArr [(''0'', plugin_entry ''none'' []), (''type'', JStr ''file''), (''options'', JObj [])])
       (js_set ''connectionEndpoints'' (arr [x_plugin]) ?d)))"
    unfolding extendConfig_defaults by simp
  then show ?thesis
    using defaults_merged_get [of "''u''" 2]
    by (intro exI conjI) (assumption, simp_all only: like_default_def js_get_set, auto)
qed


theorem auth_object_lets_everybody_in_witness:
  "\<exists>hs out c svcs. extendConfig ''u'' 2 old_file (\<lambda>_. None) = Inr (JObj hs) \<and> initialize (example_host (\<lambda>_. None)) ''v'' hs [] = (out, Inr (c, svcs)) \<and>
     js_get svcs ''authentication'' = Some [(BuiltIn ''OpenAuthentication'', Some (JObj []))]"
proof -
  obtain hs where hs: "extendConfig ''u'' 2 old_file (\<lambda>_. None) = Inr (JObj hs)" "like_default ''u'' 2 hs"
      "js_get hs ''auth'' = Some (JArr [(''0'', plugin_entry ''none'' []), (''type'', JStr ''file''), (''options'', JObj [])])"
      "js_get hs ''permission'' = js_get (default_options ''u'' 2) ''permission''"
    using old_file_merged by blast
  have names: "\<forall>k \<in> set (map fst [(''type'', JStr ''file''), (''options'', JObj [])]). \<not> nat_lit k"
  proof -
    have "list_all (\<lambda>k. \<not> nat_lit k) [''type'', ''options'']" by code_simp
    then show ?thesis by (simp add: list_all_iff)
  qed
  have "\<exists>out c svcs. initialize (example_host (\<lambda>_. None)) ''v'' hs [] = (out, Inr (c, svcs))"
  proof (rule example_starts [of 2 hs _ "\<lambda>_. None"])
    fix c assume "js_get c ''auth'' = js_get hs ''auth''"
    then show "\<exists>r. handleAuthStrategies (example_host (\<lambda>_. None)) c = Inr r"
      using example_auth [OF _ names] hs(3) by simp
  next
    fix c assume "js_get c ''permission'' = js_get hs ''permission''"
    then show "\<exists>r. handlePermissionStrategies (example_host (\<lambda>_. None)) c = Inr r"
      using example_permission [of c] hs(4) default_auth_permission(2) by simp
  qed (simp_all add: hs(2) example_host_def)
  then obtain out c svcs where i: "initialize (example_host (\<lambda>_. None)) ''v'' hs [] = (out, Inr (c, svcs))" by blast
  have "js_get svcs ''authentication'' = Some [(BuiltIn ''OpenAuthentication'', Some (JObj []))]"
    by (rule auth_object_lets_everybody_in [OF hs(1) _ _ _ names _ _ i])
       (simp_all add: old_file_def plugin_entry_def example_host_def)
  then show ?thesis using hs(1) i by blast
qed

theorem strategies_need_options_witness:
  "handleAuthStrategy (example_host some_cli) 2 (JObj [(''type'', JStr ''file'')]) = Inl TypeErr"
  by (rule strategies_need_options) (simp_all add: by_type_def authStrategies_def named_def)

theorem cluster_type_ignored_witness:
  "\<exists>config'. handleClusterNode (example_host some_cli) [(''clusterNode'', JObj [(''type'', JStr ''vertical'')])] =
     Inr (config', BuiltIn ''SingleClusterNode'', None)"
  using cluster_type_ignored [of "[(''clusterNode'', JObj [(''type'', JStr ''vertical'')])]" "[(''type'', JStr ''vertical'')]"
      "example_host some_cli"]
  by (simp add: named_def example_host_def some_cli_def)

theorem missing_logger_unreported_witness:
  "handleLogger ((example_host some_cli)\<lparr>ho_custom := \<lambda>_. False\<rparr>) [(''logger'', JObj [(''name'', JStr ''y'')])] = Inl TypeErr"
  by (rule missing_logger_unreported [of _ "[(''name'', JStr ''y'')]"]) (simp_all add: named_def example_host_def some_cli_def)

end
