(* ===== verification/Mqtt.thy ===== *)
theory Mqtt
  imports Connection Json
begin

text \<open>
  The MQTT endpoint (\<open>src/connection-endpoint/mqtt\<close>): \<open>message-parser.ts\<close> turns packets into messages,
  \<open>socket-wrapper-factory.ts\<close> messages into packets, and \<open>connection-endpoint.ts\<close> connects both with the base
  class of the endpoints, whose model it reuses: nothing is buffered, nobody's login data is parsed, and every
  client is challenged by the server itself. The MQTT library and the TCP server are third-party; a payload is
  the text \<open>toString\<close> makes of it.
\<close>

section \<open>Packets\<close>

text \<open>\<open>messageId\<close> is a number, kept by its digits as the correlation id is; a publication without quality of service
  has none.\<close>

record mqtt_packet =
  mp_cmd :: string
  mp_retain :: bool
  mp_topic :: string
  mp_payload :: string
  mp_qos :: nat
  mp_subscriptions :: "string list"
  mp_messageId :: "string option"

datatype packet_out =
    Connack nat
  | Suback nat "string option"
  | Puback "string option"
  | Publish "string option" "string option"    \<comment> \<open>topic and payload\<close>

text \<open>\<open>parseMQTT\<close>; \<open>None\<close> is the exception \<open>JSON.parse\<close> throws. \<open>fl\<close> reads the numbers that are not integers.\<close>

definition names_message :: "topic \<Rightarrow> action \<Rightarrow> mqtt_packet \<Rightarrow> cmessage" where
  "names_message t a p = (cmsg t a)\<lparr>m_names := Some (mp_subscriptions p), m_corr := mp_messageId p\<rparr>"

definition emit_message :: "mqtt_packet \<Rightarrow> cmessage" where
  "emit_message p = (cmsg T_EVENT (EventA EA_EMIT))\<lparr>m_name := Some (mp_topic p), m_parsed := Some (JStr (mp_payload p))\<rparr>"

definition parseMQTT :: "(string \<Rightarrow> json option) \<Rightarrow> mqtt_packet \<Rightarrow> cmessage list option" where
  "parseMQTT fl p =
     (let topic = (if mp_retain p then T_RECORD else T_EVENT)
      in if mp_cmd p = ''subscribe''
         then Some [names_message T_EVENT (EventA EA_SUBSCRIBE) p, names_message T_RECORD (RecordA RA_SUBSCRIBE) p]
         else if mp_cmd p = ''unsubscribe''
         then Some [names_message T_EVENT (EventA EA_UNSUBSCRIBE) p, names_message T_RECORD (RecordA RA_UNSUBSCRIBE) p]
         else if mp_cmd p = ''publish''
         then (if topic = T_EVENT then Some [emit_message p]
               else case JSON_parse fl (mp_payload p) of
                   None \<Rightarrow> None
                 | Some v \<Rightarrow>
                     Some [(cmsg T_RECORD (RecordA RA_CREATEANDUPDATE))\<lparr>m_name := Some (mp_topic p), m_parsed := Some v,
                             m_writeack := mp_qos p > 0, m_version := Some (- 1), m_corr := mp_messageId p\<rparr>,
                           emit_message p])
         else Some [cmsg T_PARSER (ParserA XA_INVALID_MESSAGE)])"

text \<open>\<open>sendBuiltMessage\<close> of an open socket: the packets, or \<open>None\<close> where \<open>Buffer.from(undefined)\<close> throws.\<close>

definition mqtt_built :: "cmessage \<Rightarrow> packet_out list option" where
  "mqtt_built m =
     (if m_topic m = T_CONNECTION \<and> m_action m = ConnectionA CA_ACCEPT then Some []
      else if m_topic m = T_AUTH \<and> m_action m = AuthA AA_AUTH_SUCCESSFUL then Some [Connack 0]
      else if m_topic m = T_AUTH \<and> m_action m = AuthA AA_AUTH_UNSUCCESSFUL then Some [Connack 5]
      else if m_topic m = T_EVENT \<and> m_action m = EventA EA_EMIT
      then Some [Publish (m_name m)
             (if \<not> nonempty (m_data m) \<and> truthy (m_parsed m) then map_option stringify (m_parsed m) else m_data m)]
      else if m_topic m = T_RECORD \<and> m_action m = RecordA RA_WRITE_ACKNOWLEDGEMENT then Some [Puback (m_corr m)]
      else if m_topic m = T_RECORD \<and> m_action m = RecordA RA_UPDATE
      then (case m_parsed m of None \<Rightarrow> None | Some v \<Rightarrow> Some [Publish (m_name m) (Some (stringify v))])
      else Some [])"

text \<open>\<open>sendAckMessage\<close>, which does not ask whether the socket is open.\<close>

definition mqtt_ack :: "cmessage \<Rightarrow> packet_out list" where
  "mqtt_ack m =
     (if m_topic m = T_EVENT \<and> m_action m = EventA EA_SUBSCRIBE then [Suback 0 (m_corr m)]
      else if m_topic m = T_RECORD \<and> m_action m = RecordA RA_SUBSCRIBE then [Suback 1 (m_corr m)]
      else [])"

section \<open>The endpoint\<close>

definition mqtt_config :: "nat \<Rightarrow> bool \<Rightarrow> ep_config" where
  "mqtt_config maxAuthAttempts authTimeout =
     \<lparr>ec_bufferTimeout = 0, ec_maxBytes = 0, ec_maxAttempts = maxAuthAttempts, ec_authTimeout = authTimeout, ec_text = False,
      ec_len = (\<lambda>_. 0), ec_parseData = (\<lambda>m. Some (m_parsed m))\<rparr>"

record mqtt_endpoint =
  mq_base :: endpoint
  mq_connections :: "socket jsset"

definition new_mqtt :: mqtt_endpoint where
  "new_mqtt = \<lparr>mq_base = new_endpoint, mq_connections = []\<rparr>"

datatype mqtt_input =
    MConnection socket
  | MConnect socket "string option" "string option"     \<comment> \<open>user name and password\<close>
  | MPacket socket mqtt_packet
  | MClosed socket                                       \<comment> \<open>disconnect, close or error\<close>
  | MSend socket cmessage
  | MSendAck socket cmessage
  | MBase ep_input                                       \<comment> \<open>timers, and the answers of the authentication\<close>
  | MCloseServer

datatype mqtt_effect =
    Writes socket packet_out
  | Does ep_effect
  | DestroysClient socket
  | Uncaught                    \<comment> \<open>an exception in the handler of an event of a client\<close>

text \<open>What the base class sends goes through \<open>sendBuiltMessage\<close>.\<close>

fun written :: "ep_effect \<Rightarrow> mqtt_effect list" where
  "written (CWrite s (Plain m)) = (case mqtt_built m of None \<Rightarrow> [Uncaught] | Some ps \<Rightarrow> map (Writes s) ps)"
| "written (CDestroy s) = [DestroysClient s]"
| "written x = [Does x]"

definition in_base :: "(endpoint \<Rightarrow> endpoint \<times> ep_effect list) \<Rightarrow> mqtt_endpoint \<Rightarrow> mqtt_endpoint \<times> mqtt_effect list" where
  "in_base f M = (let (e, es) = f (mq_base M) in (M\<lparr>mq_base := e\<rparr>, concat (map written es)))"

definition challenge :: cmessage where
  "challenge = cmsg T_CONNECTION (ConnectionA CA_CHALLENGE)"

text \<open>A field that is \<open>undefined\<close> is left out of the object.\<close>

definition login_message :: "string option \<Rightarrow> string option \<Rightarrow> cmessage" where
  "login_message username password =
     (cmsg T_AUTH (AuthA AA_REQUEST))\<lparr>m_parsed := Some (JObj
        ((case username of None \<Rightarrow> [] | Some u \<Rightarrow> [(''username'', JStr u)]) @
         (case password of None \<Rightarrow> [] | Some p \<Rightarrow> [(''password'', JStr p)])))\<rparr>"

definition closeClient :: "socket \<Rightarrow> mqtt_endpoint \<Rightarrow> mqtt_endpoint \<times> mqtt_effect list" where
  "closeClient s M =
     (if s \<notin> set (mq_connections M) then (M, [])
      else (let (M1, es) = in_base (endpoint_onSocketClose s) M
            in (M1\<lparr>mq_connections := set_delete s (mq_connections M1)\<rparr>, es @ [DestroysClient s])))"

definition socket_open :: "socket \<Rightarrow> mqtt_endpoint \<Rightarrow> bool" where
  "socket_open s M = (case js_get (ep_sockets (mq_base M)) s of None \<Rightarrow> False | Some w \<Rightarrow> \<not> ws_closed w)"

fun mqtt_step :: "(string \<Rightarrow> json option) \<Rightarrow> ep_config \<Rightarrow> mqtt_endpoint \<Rightarrow> mqtt_input \<Rightarrow> mqtt_endpoint \<times> mqtt_effect list" where
  "mqtt_step fl C M (MConnection s) =
     (if js_has (ep_sockets (mq_base M)) s then (M, [])
      else in_base (\<lambda>e. onMessage C s [Some challenge] (onConnection C s e)) (M\<lparr>mq_connections := set_add s (mq_connections M)\<rparr>))"
| "mqtt_step fl C M (MConnect s username password) =
     in_base (onMessage C s [Some (login_message username password)]) M"
| "mqtt_step fl C M (MPacket s p) =
     (case js_get (ep_sockets (mq_base M)) s of
        None \<Rightarrow> (M, [])
      | Some _ \<Rightarrow>
          (case parseMQTT fl p of
             None \<Rightarrow> (M, [Uncaught])
           | Some ms \<Rightarrow> (M, [Does (CForward s (map Some ms))])))"
| "mqtt_step fl C M (MClosed s) = closeClient s M"
| "mqtt_step fl C M (MSend s m) =
     (if socket_open s M then (M, written (CWrite s (Plain m))) else (M, []))"
| "mqtt_step fl C M (MSendAck s m) = (M, map (Writes s) (mqtt_ack m))"
| "mqtt_step fl C M (MBase x) = in_base (\<lambda>e. ep_step C e x) M"
| "mqtt_step fl C M MCloseServer =
     (M\<lparr>mq_connections := []\<rparr>,
      map DestroysClient (filter (\<lambda>s. socket_open s M) (mq_connections M)))"

section \<open>Properties\<close>

lemma forwarded: "js_has (ep_sockets (mq_base M)) s \<Longrightarrow> parseMQTT fl p = Some ms \<Longrightarrow>
   mqtt_step fl C M (MPacket s p) = (M, [Does (CForward s (map Some ms))])"
  by (auto simp: js_has_def)

text \<open>The two messages around the login are written as they are.\<close>

lemma cmsg_simps [simp]: "m_topic (cmsg t a) = t" "m_action (cmsg t a) = a" "m_data (cmsg t a) = None" "m_parsed (cmsg t a) = None"
  by (simp_all add: cmsg_def msg_def message.defs)

lemma fresh_connection:
  "mqtt_step fl (mqtt_config n b) new_mqtt (MConnection s) =
     (\<lparr>mq_base = upd_socket s (new_ws\<lparr>ws_timer := b, ws_authCallback := True, ws_stage := SAuth\<rparr>) new_endpoint,
       mq_connections = [s]\<rparr>, [])"
  by (simp add: new_mqtt_def new_endpoint_def js_has_def in_base_def onMessage_def onConnection_def upd_socket_def
      processConnectionMessage_def challenge_def on_socket_def sendBuiltMessage_def ws_sendBuilt_def mqtt_config_def
      new_ws_def mqtt_built_def Let_def cmsg_def msg_def message.defs set_add_def)

text \<open>C21: What an MQTT client publishes reaches the message processor although it has not logged in, in the name of
  nobody: the endpoint hands packets on without asking whether the socket is authenticated.\<close>

theorem publish_needs_no_login:
  assumes "mp_cmd p = ''publish''" "\<not> mp_retain p"
  shows "\<exists>M. run (mqtt_step fl (mqtt_config n b)) new_mqtt [MConnection s, MPacket s p] =
     (M, [Does (CForward s [Some (emit_message p)])]) \<and> userId_of (mq_base M) s = None \<and> s \<notin> set (ep_authenticated (mq_base M))"
proof -
  let ?M = "\<lparr>mq_base = upd_socket s (new_ws\<lparr>ws_timer := b, ws_authCallback := True, ws_stage := SAuth\<rparr>) new_endpoint,
       mq_connections = [s]\<rparr>"
  have "js_has (ep_sockets (mq_base ?M)) s" by (simp add: js_has_def upd_socket_def js_get_set)
  moreover have "parseMQTT fl p = Some [emit_message p]" using assms by (simp add: parseMQTT_def)
  ultimately have "mqtt_step fl (mqtt_config n b) ?M (MPacket s p) = (?M, [Does (CForward s [Some (emit_message p)])])"
    using forwarded [of ?M s fl p "[emit_message p]" "mqtt_config n b"] by (simp del: mqtt_step.simps)
  moreover have "userId_of (mq_base ?M) s = None" "s \<notin> set (ep_authenticated (mq_base ?M))"
    by (simp_all add: userId_of_def upd_socket_def js_get_set new_ws_def new_endpoint_def)
  ultimately show ?thesis using fresh_connection [of fl n b s] by (intro exI [of _ ?M]) (simp del: mqtt_step.simps)
qed

text \<open>A retained publication whose payload is not JSON throws in the handler of the client's packet, where nothing
  catches it; the client needs no login for that either.\<close>

theorem bad_payload_uncaught:
  assumes "mp_cmd p = ''publish''" "mp_retain p" "JSON_parse fl (mp_payload p) = None"
  shows "snd (run (mqtt_step fl (mqtt_config n b)) new_mqtt [MConnection s, MPacket s p]) = [Uncaught]"
  using assms
  by (simp add: fresh_connection parseMQTT_def upd_socket_def new_endpoint_def del: mqtt_step.simps(1))

lemma escape_nonempty: "escape c \<noteq> []"
  by simp

lemma quote_longer: "length s < length (quote s)"
proof -
  have "length s \<le> length (concat (map escape s))"
  proof (induction s)
    case (Cons c s)
    have "0 < length (escape c)" using escape_nonempty by blast
    then have "Suc 0 \<le> length (escape c)" by linarith
    with Cons show ?case by (simp del: escape.simps)
  qed simp
  then show ?thesis by (simp add: quote_def)
qed

text \<open>What one client publishes as an event another gets as the JSON text of it, in quotation marks: reading that
  text gives the payload back, but it is not the payload that was published.\<close>

theorem event_payload_quoted:
  assumes "mp_payload p \<noteq> []"
  shows "\<exists>q. mqtt_built (emit_message p) = Some [Publish (Some (mp_topic p)) (Some q)] \<and>
     JSON_parse fl q = Some (JStr (mp_payload p)) \<and> q \<noteq> mp_payload p"
proof (intro exI conjI)
  let ?q = "stringify (JStr (mp_payload p))"
  show "mqtt_built (emit_message p) = Some [Publish (Some (mp_topic p)) (Some ?q)]"
    using assms by (simp add: mqtt_built_def emit_message_def cmsg_def msg_def message.defs nonempty_def)
  show "JSON_parse fl ?q = Some (JStr (mp_payload p))" by (rule parse_after_stringify_lemma) simp
  show "?q \<noteq> mp_payload p" using quote_longer [of "mp_payload p"] by auto
qed

text \<open>A record written by a retained publication is published to its subscribers with the same value: what
  \<open>JSON.parse\<close> makes of the payload sent is what it made of the one received.\<close>

theorem record_payload_roundtrip:
  assumes "mp_cmd p = ''publish''" "mp_retain p" "JSON_parse fl (mp_payload p) = Some v" "json_ok v"
    and "m_topic u = T_RECORD" "m_action u = RecordA RA_UPDATE"
  shows "\<exists>w e q. parseMQTT fl p = Some [w, e] \<and> m_parsed w = Some v \<and> m_version w = Some (- 1) \<and>
     mqtt_built (u\<lparr>m_name := m_name w, m_parsed := m_parsed w\<rparr>) = Some [Publish (Some (mp_topic p)) (Some q)] \<and>
     JSON_parse fl q = Some v"
  using assms parse_after_stringify_lemma [OF assms(4)]
  by (simp add: parseMQTT_def mqtt_built_def)

text \<open>The subscription of an MQTT client is acknowledged twice under the same number, once for the event and once for
  the record, and taking it back is never acknowledged.\<close>

theorem subscription_acknowledged_twice:
  assumes "mp_cmd p \<in> {''subscribe'', ''unsubscribe''}"
  shows "map_option (\<lambda>ms. concat (map mqtt_ack ms)) (parseMQTT fl p) =
     Some (if mp_cmd p = ''subscribe'' then [Suback 0 (mp_messageId p), Suback 1 (mp_messageId p)] else [])"
  using assms by (auto simp: parseMQTT_def names_message_def mqtt_ack_def)

text \<open>Each login of an open connection is answered with exactly one packet, which says whether it was successful.\<close>

theorem login_answered:
  assumes "js_get (ep_requests (mq_base M)) i = Some s" "socket_open s M"
  shows "filter (\<lambda>x. \<exists>s p. x = Writes s p) (snd (mqtt_step fl (mqtt_config n b) M (MBase (EAuthResult i ok u)))) =
     [Writes s (Connack (if ok then 0 else 5))]"
proof -
  obtain w where w: "js_get (ep_sockets (mq_base M)) s = Some w" "\<not> ws_closed w"
    using assms(2) by (auto simp: socket_open_def split: option.splits)
  show ?thesis
    using assms(1) w
    by (cases ok)
       (simp_all add: in_base_def processAuthResult_def registerAuthenticatedSocket_def processInvalidAuth_def then_do_def
          on_socket_def upd_socket_def sendBuiltMessage_def ws_sendBuilt_def mqtt_config_def js_get_set Let_def
          appendDataToSocketWrapper_def mqtt_built_def)
qed

section \<open>Examples\<close>

definition a_publish :: "bool \<Rightarrow> string \<Rightarrow> mqtt_packet" where
  "a_publish retain text = \<lparr>mp_cmd = ''publish'', mp_retain = retain, mp_topic = ''t'', mp_payload = text, mp_qos = 0,
     mp_subscriptions = [], mp_messageId = None\<rparr>"

theorem publish_needs_no_login_witness:
  "Does (CForward 1 [Some (emit_message (a_publish False ''x''))]) \<in>
     set (snd (run (mqtt_step (\<lambda>_. None) (mqtt_config 3 True)) new_mqtt [MConnection 1, MPacket 1 (a_publish False ''x'')]))"
  using publish_needs_no_login [of "a_publish False ''x''" "\<lambda>_. None" 3 True 1]
  by (auto simp: a_publish_def simp del: run.simps)

theorem bad_payload_uncaught_witness:
  "snd (run (mqtt_step (\<lambda>_. None) (mqtt_config 3 True)) new_mqtt [MConnection 1, MPacket 1 (a_publish True ''x'')]) = [Uncaught]"
proof (rule bad_payload_uncaught)
  show "JSON_parse (\<lambda>_. None) (mp_payload (a_publish True ''x'')) = None" by code_simp
qed (simp_all add: a_publish_def)

theorem event_payload_quoted_witness:
  "\<exists>q. mqtt_built (emit_message (a_publish False ''x'')) = Some [Publish (Some ''t'') (Some q)] \<and> q \<noteq> ''x''"
  using event_payload_quoted [of "a_publish False ''x''" "\<lambda>_. None"] by (auto simp: a_publish_def)

theorem record_payload_roundtrip_witness:
  "\<exists>w e q. parseMQTT (\<lambda>_. None) (a_publish True ''[1]'') = Some [w, e] \<and>
     mqtt_built ((cmsg T_RECORD (RecordA RA_UPDATE))\<lparr>m_name := m_name w, m_parsed := m_parsed w\<rparr>) = Some [Publish (Some ''t'') (Some q)]"
proof -
  have "JSON_parse (\<lambda>_. None) (mp_payload (a_publish True ''[1]'')) = Some (JArr [(''0'', JNum 1)])"
    "json_ok (JArr [(''0'', JNum 1)])" by code_simp+
  from record_payload_roundtrip [OF _ _ this, of "cmsg T_RECORD (RecordA RA_UPDATE)"] show ?thesis
    by (auto simp: a_publish_def)
qed

theorem subscription_acknowledged_twice_witness:
  "map_option (\<lambda>ms. concat (map mqtt_ack ms)) (parseMQTT (\<lambda>_. None) ((a_publish False [])\<lparr>mp_cmd := ''subscribe''\<rparr>)) =
     Some [Suback 0 None, Suback 1 None]"
  by (subst subscription_acknowledged_twice) (simp_all add: a_publish_def)

definition knocking :: mqtt_endpoint where
  "knocking = fst (run (mqtt_step (\<lambda>_. None) (mqtt_config 3 True)) new_mqtt [MConnection 1, MConnect 1 (Some ''u'') None])"

theorem login_answered_witness:
  "filter (\<lambda>x. \<exists>s p. x = Writes s p) (snd (mqtt_step (\<lambda>_. None) (mqtt_config 3 True) knocking
     (MBase (EAuthResult 0 False \<lparr>ud_id = None, ud_clientData = None, ud_serverData = None\<rparr>)))) = [Writes 1 (Connack 5)]"
proof -
  have "js_get (ep_requests (mq_base knocking)) 0 = Some 1" "socket_open 1 knocking" by code_simp+
  from login_answered [OF this] show ?thesis by simp
qed

end
