(* ===== verification/JsonSocket.thy ===== *)
theory JsonSocket
  imports Json
begin

text \<open>
  The socket of the JSON protocol (\<open>src/connection-endpoint/websocket/json/socket-wrapper-factory.ts\<close>). A message
  is the value its object stands for; what comes in is a text or, as \<open>None\<close>, something else. \<open>fl\<close> reads the numbers
  that are not integers.
\<close>

definition getMessage :: "json \<Rightarrow> string" where
  "getMessage message = stringify message"

text \<open>\<open>parseMessage\<close>: the results and whether \<open>invalidTypeReceived\<close> is called.\<close>

definition parseMessage :: "(string \<Rightarrow> json option) \<Rightarrow> string option \<Rightarrow> json list \<times> bool" where
  "parseMessage fl message =
     (case message of
        None \<Rightarrow> ([], True)
      | Some t \<Rightarrow> (case JSON_parse fl t of None \<Rightarrow> ([], True) | Some v \<Rightarrow> ([v], False)))"

text \<open>\<open>parseData\<close> on a message with the given data: the parsed data, or \<open>None\<close> for the error that is returned.\<close>

definition parseData :: "(string \<Rightarrow> json option) \<Rightarrow> string option \<Rightarrow> json option \<Rightarrow> json option option" where
  "parseData fl data parsed =
     (case data of
        Some d \<Rightarrow> if d = [] then Some parsed else map_option Some (JSON_parse fl d)
      | None \<Rightarrow> Some parsed)"

text \<open>What one side of the JSON protocol sends the other reads as it was, the data in it included.\<close>

theorem json_protocol_roundtrip:
  assumes "json_ok m" "json_ok d"
  shows "parseMessage fl (Some (getMessage m)) = ([m], False) \<and> parseData fl (Some (stringify d)) p = Some (Some d)"
proof -
  have "stringify d \<noteq> []"
  proof
    assume "stringify d = []"
    then have "JSON_parse fl [] = Some d" using parse_after_stringify_lemma [OF assms(2), of fl] by simp
    moreover have "JSON_parse fl [] = None" by (simp add: JSON_parse_def skip_ws_def)
    ultimately show False by simp
  qed
  then show ?thesis
    using parse_after_stringify_lemma [OF assms(1)] parse_after_stringify_lemma [OF assms(2)]
    by (simp add: parseMessage_def getMessage_def parseData_def)
qed

theorem json_protocol_roundtrip_witness:
  "parseMessage (\<lambda>_. None) (Some (getMessage (JObj [(''topic'', JNum 1)]))) = ([JObj [(''topic'', JNum 1)]], False)"
proof -
  have "json_ok (JObj [(''topic'', JNum 1)])" "json_ok JNull" by code_simp+
  from json_protocol_roundtrip [OF this, of "\<lambda>_. None" None] show ?thesis by simp
qed

end
