(* ===== verification/Monitoring.thy ===== *)
theory Monitoring
  imports JsObject
begin

text \<open>
  The statistics of the server (\<open>src/services/monitoring/monitoring-base.ts\<close>), their combination
  (\<open>combine-monitoring.ts\<close>) and their publication over HTTP (\<open>http/monitoring-http.ts\<close>), and the logger that
  feeds them (\<open>src/services/logger/std/std-out-logger.ts\<close>). Topics and actions come as their names; the
  numbers of the log levels are those of the types package, of which only the order matters.
\<close>

section \<open>Counters\<close>

type_synonym counts = "(string, nat) jsmap"

record monitor =
  mon_errorLogs :: counts
  mon_receiveStats :: "(string, counts) jsmap"
  mon_sendStats :: "(string, counts) jsmap"
  mon_loginStats :: "(string, nat \<times> nat) jsmap"      \<comment> \<open>allowed and declined\<close>

definition new_monitor :: monitor where
  "new_monitor = \<lparr>mon_errorLogs = [], mon_receiveStats = [], mon_sendStats = [], mon_loginStats = []\<rparr>"

text \<open>\<open>map[k] ? map[k] + n : n\<close>\<close>

definition count_up :: "string \<Rightarrow> nat \<Rightarrow> counts \<Rightarrow> counts" where
  "count_up k n m = js_set k (case js_get m k of Some c \<Rightarrow> if c \<noteq> 0 then c + n else n | None \<Rightarrow> n) m"

definition onErrorLog :: "string \<Rightarrow> monitor \<Rightarrow> monitor" where
  "onErrorLog event M = M\<lparr>mon_errorLogs := count_up event 1 (mon_errorLogs M)\<rparr>"

definition onLogin :: "bool \<Rightarrow> string \<Rightarrow> monitor \<Rightarrow> monitor" where
  "onLogin allowed endpointType M =
     (let (a, d) = (case js_get (mon_loginStats M) endpointType of None \<Rightarrow> (0, 0) | Some st \<Rightarrow> st)
      in M\<lparr>mon_loginStats := js_set endpointType (if allowed then (Suc a, d) else (a, Suc d)) (mon_loginStats M)\<rparr>)"

definition counts_of :: "(string, counts) jsmap \<Rightarrow> string \<Rightarrow> counts" where
  "counts_of stats topic = (case js_get stats topic of None \<Rightarrow> [] | Some m \<Rightarrow> m)"

definition onMessageReceived :: "string \<Rightarrow> string \<Rightarrow> monitor \<Rightarrow> monitor" where
  "onMessageReceived topic action M =
     M\<lparr>mon_receiveStats := js_set topic (count_up action 1 (counts_of (mon_receiveStats M) topic)) (mon_receiveStats M)\<rparr>"

definition onMessageSend :: "string \<Rightarrow> string \<Rightarrow> monitor \<Rightarrow> monitor" where
  "onMessageSend topic action M =
     M\<lparr>mon_sendStats := js_set topic (count_up action 1 (counts_of (mon_sendStats M) topic)) (mon_sendStats M)\<rparr>"

text \<open>\<open>onBroadcast\<close> looks the counters up among those of the received messages, and puts fresh ones among those sent.\<close>

definition onBroadcast :: "string \<Rightarrow> string \<Rightarrow> nat \<Rightarrow> monitor \<Rightarrow> monitor" where
  "onBroadcast topic action n M =
     (case js_get (mon_receiveStats M) topic of
        Some m \<Rightarrow> M\<lparr>mon_receiveStats := js_set topic (count_up action n m) (mon_receiveStats M)\<rparr>
      | None \<Rightarrow> M\<lparr>mon_sendStats := js_set topic (count_up action n []) (mon_sendStats M)\<rparr>)"

record monitor_report =
  rep_clusterSize :: nat
  rep_stateMetrics :: "(string \<times> nat) list"
  rep_stats :: monitor

definition getAndResetMonitoringStats :: "nat \<Rightarrow> (string \<times> nat) list \<Rightarrow> monitor \<Rightarrow> monitor \<times> monitor_report" where
  "getAndResetMonitoringStats clusterSize stateMetrics M =
     (new_monitor, \<lparr>rep_clusterSize = clusterSize, rep_stateMetrics = stateMetrics, rep_stats = M\<rparr>)"

datatype monitor_call =
    ErrorLog string
  | Login bool string
  | MessageReceived string string
  | MessageSend string string
  | Broadcast string string nat

fun monitor_apply :: "monitor_call \<Rightarrow> monitor \<Rightarrow> monitor" where
  "monitor_apply (ErrorLog event) M = onErrorLog event M"
| "monitor_apply (Login allowed t) M = onLogin allowed t M"
| "monitor_apply (MessageReceived t a) M = onMessageReceived t a M"
| "monitor_apply (MessageSend t a) M = onMessageSend t a M"
| "monitor_apply (Broadcast t a n) M = onBroadcast t a n M"

text \<open>\<open>CombineMonitoring\<close>: every monitor gets every call.\<close>

definition combine_call :: "monitor_call \<Rightarrow> monitor list \<Rightarrow> monitor list" where
  "combine_call c Ms = map (monitor_apply c) Ms"

section \<open>Over HTTP\<close>

record http_monitoring =
  hm_headerKey :: string
  hm_headerValue :: string
  hm_allowOpenPermissions :: bool
  hm_from :: int

datatype http_answer = NotFound | Stats int int monitor_report

definition http_stats ::
  "(string \<Rightarrow> string option) \<Rightarrow> int \<Rightarrow> nat \<Rightarrow> (string \<times> nat) list \<Rightarrow> http_monitoring \<times> monitor \<Rightarrow>
     (http_monitoring \<times> monitor) \<times> http_answer" where
  "http_stats headers now clusterSize stateMetrics HM =
     (case HM of (H, M) \<Rightarrow>
        if \<not> hm_allowOpenPermissions H \<and> headers (hm_headerKey H) \<noteq> Some (hm_headerValue H)
        then ((H, M), NotFound)
        else (let (M', r) = getAndResetMonitoringStats clusterSize stateMetrics M
              in ((H\<lparr>hm_from := now\<rparr>, M'), Stats (hm_from H) now r)))"

section \<open>The logger\<close>

text \<open>The log levels of the types package.\<close>

record log_levels =
  lv_WARN :: nat
  lv_ERROR :: nat
  lv_FATAL :: nat

datatype log_effect = CountsError string | WritesStdout string string | WritesStderr string string | NotifiesFatal

definition shouldLog :: "nat \<Rightarrow> nat \<Rightarrow> bool" where
  "shouldLog currentLogLevel logLevel \<longleftrightarrow> currentLogLevel \<ge> logLevel"

definition log_line :: "log_levels \<Rightarrow> nat \<Rightarrow> nat \<Rightarrow> string \<Rightarrow> string \<Rightarrow> log_effect list" where
  "log_line L currentLogLevel logLevel event logMessage =
     (if logLevel \<ge> lv_WARN L then [CountsError event] else []) @
     (if currentLogLevel > logLevel then []
      else [if logLevel = lv_ERROR L \<or> logLevel = lv_WARN L then WritesStderr event logMessage else WritesStdout event logMessage] @
           (if logLevel = lv_FATAL L then [NotifiesFatal] else []))"

definition log_fatal :: "log_levels \<Rightarrow> nat \<Rightarrow> string \<Rightarrow> string \<Rightarrow> log_effect list" where
  "log_fatal L currentLogLevel event logMessage =
     log_line L currentLogLevel (lv_FATAL L) event logMessage @ [NotifiesFatal]"

text \<open>\<open>getNameSpace\<close>: its \<open>fatal\<close> is \<open>log\<close> itself.\<close>

definition namespaced_fatal :: "log_levels \<Rightarrow> nat \<Rightarrow> string \<Rightarrow> string \<Rightarrow> log_effect list" where
  "namespaced_fatal L currentLogLevel event logMessage = log_line L currentLogLevel (lv_FATAL L) event logMessage"

section \<open>What is counted\<close>

definition counted :: "counts \<Rightarrow> string \<Rightarrow> nat" where
  "counted m k = (case js_get m k of None \<Rightarrow> 0 | Some c \<Rightarrow> c)"

definition received :: "monitor \<Rightarrow> string \<Rightarrow> string \<Rightarrow> nat" where
  "received M t a = counted (counts_of (mon_receiveStats M) t) a"

definition sent :: "monitor \<Rightarrow> string \<Rightarrow> string \<Rightarrow> nat" where
  "sent M t a = counted (counts_of (mon_sendStats M) t) a"

definition logins :: "monitor \<Rightarrow> bool \<Rightarrow> string \<Rightarrow> nat" where
  "logins M ok t = (case js_get (mon_loginStats M) t of None \<Rightarrow> 0 | Some (a, d) \<Rightarrow> if ok then a else d)"

lemma counted_up: "counted (count_up k n m) k' = (if k' = k then counted m k + n else counted m k')"
  by (auto simp: counted_def count_up_def js_get_set split: option.splits)

lemma counts_of_set: "counts_of (js_set t m stats) t' = (if t' = t then m else counts_of stats t')"
  by (simp add: counts_of_def js_get_set)

lemma counters_step:
  assumes "\<And>t a n. c \<noteq> Broadcast t a n"
  shows "received (monitor_apply c M) t a = received M t a + (if c = MessageReceived t a then 1 else 0)"
    "sent (monitor_apply c M) t a = sent M t a + (if c = MessageSend t a then 1 else 0)"
    "counted (mon_errorLogs (monitor_apply c M)) e = counted (mon_errorLogs M) e + (if c = ErrorLog e then 1 else 0)"
    "logins (monitor_apply c M) ok t = logins M ok t + (if c = Login ok t then 1 else 0)"
  using assms
  by (cases c; auto simp: received_def sent_def logins_def onErrorLog_def onLogin_def onMessageReceived_def onMessageSend_def
      counts_of_set counted_up js_get_set Let_def split: option.splits prod.splits)+

definition apply_calls :: "monitor_call list \<Rightarrow> monitor \<Rightarrow> monitor" where
  "apply_calls cs M = fold monitor_apply cs M"

definition is_broadcast :: "monitor_call \<Rightarrow> bool" where
  "is_broadcast c = (case c of Broadcast _ _ _ \<Rightarrow> True | _ \<Rightarrow> False)"

lemma counters_run:
  assumes "\<forall>c \<in> set cs. \<not> is_broadcast c"
  shows "received (apply_calls cs M) t a = received M t a + count_list cs (MessageReceived t a) \<and>
    sent (apply_calls cs M) t a = sent M t a + count_list cs (MessageSend t a) \<and>
    counted (mon_errorLogs (apply_calls cs M)) e = counted (mon_errorLogs M) e + count_list cs (ErrorLog e) \<and>
    logins (apply_calls cs M) ok t = logins M ok t + count_list cs (Login ok t)"
  using assms
proof (induction cs arbitrary: M)
  case (Cons c cs)
  have nb: "c \<noteq> Broadcast t a n" for t a n using Cons.prems by (auto simp: is_broadcast_def)
  have "apply_calls (c # cs) M = apply_calls cs (monitor_apply c M)" by (simp add: apply_calls_def)
  then show ?case using Cons.IH [of "monitor_apply c M"] Cons.prems counters_step [where c = c and M = M, OF nb] by simp
qed (simp add: apply_calls_def)

text \<open>Of the calls since the last report, broadcasts aside, each is counted exactly once and in its own place.\<close>

theorem calls_counted:
  assumes "\<forall>c \<in> set cs. \<not> is_broadcast c"
  shows "received (apply_calls cs new_monitor) t a = count_list cs (MessageReceived t a) \<and>
     sent (apply_calls cs new_monitor) t a = count_list cs (MessageSend t a) \<and>
     counted (mon_errorLogs (apply_calls cs new_monitor)) e = count_list cs (ErrorLog e) \<and>
     logins (apply_calls cs new_monitor) ok t = count_list cs (Login ok t)"
  using counters_run [OF assms, of new_monitor t a e ok]
  by (simp add: new_monitor_def received_def sent_def logins_def counts_of_def counted_def)

text \<open>A broadcast is counted in the wrong place: as so many messages received when something of its topic has been
  received, and otherwise as sent, but then all that was sent of the topic before is forgotten.\<close>

theorem broadcast_miscounted:
  "if js_has (mon_receiveStats M) t
   then received (onBroadcast t a n M) t a = received M t a + n \<and> sent (onBroadcast t a n M) t b = sent M t b
   else received (onBroadcast t a n M) t b = 0 \<and> sent (onBroadcast t a n M) t b = (if b = a then n else 0)"
  by (auto simp: onBroadcast_def received_def sent_def counts_of_def counted_up js_get_set js_has_def counted_def count_up_def
      split: option.splits)

text \<open>Without the configured header the statistics are neither told nor reset, unless everybody may see them.\<close>

theorem stats_need_header:
  assumes "\<not> hm_allowOpenPermissions H" "headers (hm_headerKey H) \<noteq> Some (hm_headerValue H)"
  shows "http_stats headers now cs sm (H, M) = ((H, M), NotFound)"
  using assms by (simp add: http_stats_def)

text \<open>Successive reports follow each other without a gap, and each call is in exactly one of them: the one after the
  calls since the report before it.\<close>

theorem reports_adjacent:
  assumes "http_stats h1 t1 c1 m1 (H, M) = ((H1, M1), Stats f1 u1 r1)"
    and "http_stats h2 t2 c2 m2 (H1, apply_calls cs M1) = ((H2, M2), Stats f2 u2 r2)"
  shows "u1 = t1 \<and> f2 = t1 \<and> u2 = t2 \<and> rep_stats r1 = M \<and> rep_stats r2 = apply_calls cs new_monitor \<and> M2 = new_monitor"
  using assms by (auto simp: http_stats_def getAndResetMonitoringStats_def Let_def split: if_splits)

definition writes_line :: "log_effect list \<Rightarrow> bool" where
  "writes_line es = list_ex (\<lambda>e. case e of WritesStdout _ _ \<Rightarrow> True | WritesStderr _ _ \<Rightarrow> True | _ \<Rightarrow> False) es"

text \<open>\<open>shouldLog\<close> tells the opposite of what the logger does: except for the current level itself a line is
  written exactly when it says that none would be.\<close>

theorem shouldLog_inverted:
  assumes "currentLogLevel \<noteq> logLevel"
  shows "shouldLog currentLogLevel logLevel \<longleftrightarrow>
     \<not> writes_line (log_line L currentLogLevel logLevel event message)"
  using assms by (auto simp: shouldLog_def log_line_def writes_line_def)

text \<open>A fatal error is notified twice by the logger itself, and not at all by a namespace of it when logging is
  switched off.\<close>

theorem fatal_notified:
  "count_list (log_fatal L currentLogLevel event message) NotifiesFatal = (if currentLogLevel \<le> lv_FATAL L then 2 else 1) \<and>
   count_list (namespaced_fatal L currentLogLevel event message) NotifiesFatal = (if currentLogLevel \<le> lv_FATAL L then 1 else 0)"
  by (auto simp: log_fatal_def namespaced_fatal_def log_line_def)

section \<open>Examples\<close>

theorem calls_counted_witness:
  "received (apply_calls [MessageReceived ''EVENT'' ''EMIT'', Login True ''ws'', MessageReceived ''EVENT'' ''EMIT''] new_monitor) ''EVENT'' ''EMIT'' = 2"
  using calls_counted [of "[MessageReceived ''EVENT'' ''EMIT'', Login True ''ws'', MessageReceived ''EVENT'' ''EMIT'']" "''EVENT''" "''EMIT''"]
  by (simp add: is_broadcast_def)

definition guarded :: http_monitoring where
  "guarded = \<lparr>hm_headerKey = ''k'', hm_headerValue = ''v'', hm_allowOpenPermissions = False, hm_from = 0\<rparr>"

theorem stats_need_header_witness:
  "http_stats (\<lambda>_. None) 5 1 [] (guarded, new_monitor) = ((guarded, new_monitor), NotFound)"
  by (rule stats_need_header) (simp_all add: guarded_def)

theorem reports_adjacent_witness:
  "\<exists>H1 M1 r1 H2 M2 r2. http_stats (\<lambda>_. Some ''v'') 5 1 [] (guarded, new_monitor) = ((H1, M1), Stats 0 5 r1) \<and>
     http_stats (\<lambda>_. Some ''v'') 9 1 [] (H1, apply_calls [Login True ''ws''] M1) = ((H2, M2), Stats 5 9 r2) \<and> M2 = new_monitor"
proof -
  obtain H1 M1 r1 where 1: "http_stats (\<lambda>_. Some ''v'') 5 1 [] (guarded, new_monitor) = ((H1, M1), Stats 0 5 r1)"
      "H1 = guarded\<lparr>hm_from := 5\<rparr>"
    by (simp add: http_stats_def guarded_def getAndResetMonitoringStats_def)
  obtain H2 M2 f2 r2 where 2: "http_stats (\<lambda>_. Some ''v'') 9 1 [] (H1, apply_calls [Login True ''ws''] M1) = ((H2, M2), Stats f2 9 r2)"
    using 1(2) by (simp add: http_stats_def guarded_def getAndResetMonitoringStats_def)
  from reports_adjacent [OF 1(1) 2] show ?thesis using 1(1) 2 by blast
qed

theorem shouldLog_inverted_witness:
  "\<not> shouldLog 1 3 \<and> writes_line (log_line \<lparr>lv_WARN = 2, lv_ERROR = 3, lv_FATAL = 4\<rparr> 1 3 ''E'' ''m'')"
  using shouldLog_inverted [of 1 3 "\<lparr>lv_WARN = 2, lv_ERROR = 3, lv_FATAL = 4\<rparr>" "''E''" "''m''"]
  by (simp add: shouldLog_def)

end
