(* ===== verification/Telemetry.thy ===== *)
theory Telemetry
  imports JsObject Utils
begin

text \<open>
  What the server reports about itself (\<open>src/services/telemetry/deepstreamio-telemetry.ts\<close>). The information
  about version and platform is given; sending the report is an effect.
\<close>

definition default_uuid :: string where
  "default_uuid = ''00000000-0000-0000-0000-000000000000''"

record telemetry_options =
  to_enabled :: "json option"
  to_debug :: "json option"
  to_deploymentId :: "string option"

datatype telemetry_effect = TellsDisabled | TellsInvalidId | LogsReport json | SendsReport json

text \<open>\<open>init\<close>\<close>

definition telemetry_init :: "telemetry_options \<Rightarrow> telemetry_options \<times> telemetry_effect list" where
  "telemetry_init opts =
     (if to_enabled opts = Some (JBool False) then (opts, [TellsDisabled])
      else case to_deploymentId opts of
             None \<Rightarrow> (opts\<lparr>to_deploymentId := Some default_uuid\<rparr>, [TellsInvalidId])
           | Some uuid \<Rightarrow>
               (if \<not> validateUUID uuid then (opts\<lparr>to_deploymentId := Some default_uuid\<rparr>, [TellsInvalidId]) else (opts, [])))"

text \<open>The step of \<open>reduce\<close> for one key of the configuration.\<close>

definition service_entry :: "json \<Rightarrow> json option" where
  "service_entry v =
     (if \<not> truthy (Some v) then None
      else if truthy (property v ''type'') then property v ''type''
      else if truthy (property v ''name'') then Some (JObj [(''name'', the (property v ''name''))])
      else if truthy (property v ''path'') then Some (JStr ''custom'')
      else None)"

fun service_entries :: "(string \<times> json) list \<Rightarrow> (string, json) jsmap \<Rightarrow> (string, json) jsmap" where
  "service_entries [] result = result"
| "service_entries ((key, v) # kvs) result =
     service_entries kvs (case service_entry v of None \<Rightarrow> result | Some e \<Rightarrow> js_set key e result)"

text \<open>\<open>analytics\<close>; a field that is \<open>undefined\<close> does not appear in the report.\<close>

definition analytics :: "(string, json) jsmap \<Rightarrow> telemetry_options \<Rightarrow> (string, json) jsmap \<Rightarrow> json" where
  "analytics info opts config =
     (let start = (case to_deploymentId opts of None \<Rightarrow> [] | Some i \<Rightarrow> [(''deploymentId'', JStr i)]);
          with_info = spread start (JObj info);
          with_features = (case js_get config ''enabledFeatures'' of None \<Rightarrow> js_delete ''enabledFeatures'' with_info
                                                               | Some f \<Rightarrow> js_set ''enabledFeatures'' f with_info)
      in JObj (js_set ''services'' (JObj (service_entries config [])) with_features))"

definition telemetry_whenReady ::
  "(string, json) jsmap \<Rightarrow> telemetry_options \<Rightarrow> (string, json) jsmap \<Rightarrow> telemetry_effect list" where
  "telemetry_whenReady info opts config =
     (if to_enabled opts = Some (JBool False) then []
      else if truthy (to_debug opts) then [LogsReport (analytics info opts config)]
      else [SendsReport (analytics info opts config)])"

section \<open>What leaves the server\<close>

text \<open>Two entries of the configuration that the report does not tell apart.\<close>

definition same_kind :: "json \<Rightarrow> json \<Rightarrow> bool" where
  "same_kind v w \<longleftrightarrow> truthy (Some v) = truthy (Some w) \<and> property v ''type'' = property w ''type'' \<and>
     property v ''name'' = property w ''name'' \<and> truthy (property v ''path'') = truthy (property w ''path'')"

lemma service_entries_same:
  "list_all2 (\<lambda>(k, v) (k', w). k = k' \<and> same_kind v w) kvs kvs' \<Longrightarrow> service_entries kvs r = service_entries kvs' r"
proof (induction kvs kvs' arbitrary: r rule: list_all2_induct)
  case (Cons x xs y ys)
  then show ?case by (cases x; cases y) (simp add: same_kind_def service_entry_def)
qed simp

text \<open>The report depends, beside the enabled features and the id, only on which entries the configuration has and on
  their types and names: options of the services, secrets among them, and the paths of plugins cannot be read off it.\<close>

theorem report_tells_kinds_only:
  assumes "list_all2 (\<lambda>(k, v) (k', w). k = k' \<and> same_kind v w) config config'"
    and "js_get config ''enabledFeatures'' = js_get config' ''enabledFeatures''"
  shows "telemetry_whenReady info opts config = telemetry_whenReady info opts config'"
  using assms(2) service_entries_same [OF assms(1)] by (simp add: telemetry_whenReady_def analytics_def)

text \<open>Nothing is sent when telemetry is disabled, and what is sent after \<open>init\<close> names a well-formed id or the default.\<close>

theorem reports_under_valid_id:
  assumes "SendsReport r \<in> set (telemetry_whenReady info (fst (telemetry_init opts)) config)" "\<not> js_has info ''deploymentId''"
  shows "to_enabled opts \<noteq> Some (JBool False) \<and>
     (\<exists>i. property r ''deploymentId'' = Some (JStr i) \<and> (validateUUID i \<or> i = default_uuid))"
proof -
  have spread: "js_get (spread fs (JObj gs)) ''deploymentId'' = js_get fs ''deploymentId''" if "\<not> js_has gs ''deploymentId''" for fs gs
  proof -
    have "js_get (foldl (\<lambda>r (k, x). js_set k x r) fs gs) ''deploymentId'' = js_get fs ''deploymentId''"
      using that by (induction gs arbitrary: fs) (auto simp: js_has_def js_get_set split: if_splits)
    then show ?thesis by (simp add: spread_def)
  qed
  have enabled: "to_enabled opts \<noteq> Some (JBool False)"
    using assms(1) by (auto simp: telemetry_whenReady_def telemetry_init_def split: if_splits option.splits)
  then have "\<exists>i. to_deploymentId (fst (telemetry_init opts)) = Some i \<and> (validateUUID i \<or> i = default_uuid)"
    by (cases "to_deploymentId opts") (auto simp: telemetry_init_def)
  then obtain i where i: "to_deploymentId (fst (telemetry_init opts)) = Some i" "validateUUID i \<or> i = default_uuid"
    by blast
  have "r = analytics info (fst (telemetry_init opts)) config"
    using assms(1) by (auto simp: telemetry_whenReady_def split: if_splits)
  then have "property r ''deploymentId'' = Some (JStr i)"
    using i(1) spread [OF assms(2)] by (auto simp: analytics_def Let_def js_get_set js_get_delete split: option.splits)
  then show ?thesis using enabled i(2) by blast
qed

section \<open>Examples\<close>

definition quiet_options :: telemetry_options where
  "quiet_options = \<lparr>to_enabled = None, to_debug = None, to_deploymentId = None\<rparr>"

theorem report_tells_kinds_only_witness:
  "telemetry_whenReady [] quiet_options [(''auth'', JObj [(''type'', JStr ''http''), (''options'', JStr ''secret'')])] =
   telemetry_whenReady [] quiet_options [(''auth'', JObj [(''type'', JStr ''http'')])]"
  by (rule report_tells_kinds_only) (simp_all add: same_kind_def)

theorem reports_under_valid_id_witness:
  "\<exists>i. property (analytics [] (fst (telemetry_init quiet_options)) []) ''deploymentId'' = Some (JStr i) \<and>
     (validateUUID i \<or> i = default_uuid)"
  using reports_under_valid_id [of "analytics [] (fst (telemetry_init quiet_options)) []" "[]" quiet_options "[]"]
  by (simp add: telemetry_whenReady_def telemetry_init_def quiet_options_def js_has_def)

end
