(* ===== verification/CommandLine.thy ===== *)
theory CommandLine
  imports Prelude JsObject Complex_Main
begin

text \<open>
  The processes around the server: the daemon that starts it and watches over it (\<open>src/service/daemon.ts\<close>), the workers of
  a vertical cluster (\<open>bin/deepstream-cluster.ts\<close>) and the arguments of the command line (\<open>bin/deepstream-start.ts\<close>).
  What the operating system does, the ids of the processes it starts and the time, is given.
\<close>

section \<open>The daemon\<close>

record daemon_options =
  do_exitOnError :: bool
  do_growPercentage :: rat
  do_maxRetries :: nat
  do_maxRestarts :: "int option"
  do_restartDelay :: rat

definition default_daemon_options :: daemon_options where
  "default_daemon_options = \<lparr>do_exitOnError = False, do_growPercentage = 1 / 4, do_maxRetries = 10, do_maxRestarts = None, do_restartDelay = 1\<rparr>"

record daemon =
  dm_startTime :: "int option"
  dm_pid :: "nat option"            \<comment> \<open>\<open>child.pid\<close>\<close>
  dm_listening :: bool               \<comment> \<open>the child has its \<open>exit\<close> listener\<close>
  dm_attempts :: nat
  dm_starts :: nat
  dm_wait :: rat
  dm_restarts :: nat                 \<comment> \<open>armed timers that will launch again\<close>
  dm_over :: bool                    \<comment> \<open>\<open>process.exit\<close> has been called\<close>

datatype daemon_effect = DSpawn | DResetLater | DRestartIn rat | DExit nat | DKill

definition maxMilliseconds :: int where "maxMilliseconds = 5000"

text \<open>The id of the child that is started, \<open>None\<close> when it cannot be, is the argument \<open>pid\<close>.\<close>

definition launch :: "nat option \<Rightarrow> int \<Rightarrow> daemon \<Rightarrow> daemon \<times> daemon_effect list" where
  "launch pid now D =
     (let fresh = dm_startTime D = None
      in (D\<lparr>dm_startTime := (if fresh then Some now else dm_startTime D), dm_starts := Suc (dm_starts D), dm_pid := pid,
            dm_listening := True\<rparr>,
          (if fresh then [DResetLater] else []) @ [DSpawn]))"

definition exits :: "nat \<Rightarrow> daemon \<Rightarrow> daemon \<times> daemon_effect list" where
  "exits code D = (D\<lparr>dm_over := True, dm_listening := False\<rparr>, [DKill, DExit code])"

definition monitor :: "daemon_options \<Rightarrow> int \<Rightarrow> daemon \<Rightarrow> daemon \<times> daemon_effect list" where
  "monitor opts now D =
     (if dm_pid D = None
      then (if dm_starts D \<ge> do_maxRetries opts \<and> now - (case dm_startTime D of None \<Rightarrow> 0 | Some t \<Rightarrow> t) > maxMilliseconds
            then exits 1 D
            else (D\<lparr>dm_restarts := Suc (dm_restarts D)\<rparr>, [DRestartIn (dm_wait D)]))
      else (D\<lparr>dm_attempts := 0, dm_wait := do_restartDelay opts * 1000\<rparr>, []))"

datatype daemon_input =
    ChildExit nat                    \<comment> \<open>with its code\<close>
  | RestartTimer "nat option"        \<comment> \<open>and the id of the child it starts\<close>
  | ResetTimer
  | Signal

definition daemon_step :: "daemon_options \<Rightarrow> daemon \<Rightarrow> int \<times> daemon_input \<Rightarrow> daemon \<times> daemon_effect list" where
  "daemon_step opts D x =
     (if dm_over D then (D, [])
      else case x of (now, i) \<Rightarrow> (case i of
          ChildExit code \<Rightarrow>
            (if \<not> dm_listening D then (D, [])
             else if code \<noteq> 0 \<and> do_exitOnError opts then exits 0 D
             else monitor opts now D)
        | RestartTimer pid \<Rightarrow>
            (if dm_restarts D = 0 then (D, [])
             else let D1 = D\<lparr>dm_restarts := dm_restarts D - 1, dm_wait := dm_wait D * do_growPercentage opts,
                             dm_attempts := Suc (dm_attempts D)\<rparr>
                  in if (case do_maxRestarts opts of None \<Rightarrow> False | Some m \<Rightarrow> int (dm_attempts D1) > m \<and> m \<ge> 0)
                     then exits 0 D1
                     else launch pid now D1)
        | ResetTimer \<Rightarrow> (D\<lparr>dm_startTime := None, dm_starts := 0\<rparr>, [])
        | Signal \<Rightarrow> (D\<lparr>dm_listening := False\<rparr>, [DKill])))"

definition daemon_start :: "nat option \<Rightarrow> int \<Rightarrow> daemon \<times> daemon_effect list" where
  "daemon_start pid now =
     launch pid now \<lparr>dm_startTime = None, dm_pid = None, dm_listening = False, dm_attempts = 0, dm_starts = 0, dm_wait = 1,
       dm_restarts = 0, dm_over = False\<rparr>"

definition daemon_history :: "daemon_options \<Rightarrow> nat option \<Rightarrow> int \<Rightarrow> (int \<times> daemon_input) list \<Rightarrow> daemon \<times> daemon_effect list" where
  "daemon_history opts pid now xs =
     (case daemon_start pid now of (D, es) \<Rightarrow> (case run (daemon_step opts) D xs of (D', es') \<Rightarrow> (D', es @ es')))"

abbreviation spawns :: "daemon_effect list \<Rightarrow> nat" where
  "spawns es \<equiv> count_list es DSpawn"

section \<open>What the daemon does\<close>

lemma running_step:
  assumes "dm_pid D \<noteq> None" "dm_restarts D = 0"
  shows "dm_pid (fst (daemon_step opts D x)) \<noteq> None \<and> dm_restarts (fst (daemon_step opts D x)) = 0 \<and>
     spawns (snd (daemon_step opts D x)) = 0"
  using assms by (auto simp: daemon_step_def monitor_def exits_def split: prod.splits daemon_input.splits)

lemma running_run:
  "dm_pid D \<noteq> None \<Longrightarrow> dm_restarts D = 0 \<Longrightarrow> spawns (snd (run (daemon_step opts) D xs)) = 0"
proof (induction xs arbitrary: D)
  case (Cons x xs)
  then show ?case using running_step [of D opts x] by (auto simp: case_prod_beta)
qed simp

text \<open>C24: A server that has been started is never started again by its daemon, however it ends: \<open>child.pid\<close> keeps its value
  when the child is gone, and the daemon takes it for running.\<close>

theorem daemon_never_restarts:
  assumes "pid \<noteq> None"
  shows "spawns (snd (daemon_history opts pid now xs)) = 1"
proof -
  obtain D es where D: "daemon_start pid now = (D, es)" by fastforce
  then have "dm_pid D \<noteq> None" "dm_restarts D = 0" "spawns es = 1"
    using assms by (auto simp: daemon_start_def launch_def Let_def)
  then show ?thesis using running_run [of D opts xs] D by (simp add: daemon_history_def case_prod_beta)
qed

definition stuck_ok :: "nat \<Rightarrow> daemon \<Rightarrow> nat \<Rightarrow> bool" where
  "stuck_ok m D n \<longleftrightarrow> dm_pid D = None \<and> n = Suc (dm_attempts D) \<and> dm_attempts D \<le> m \<or> dm_over D \<and> n \<le> Suc m"

lemma stuck_step:
  assumes "do_maxRestarts opts = Some (int m)" "stuck_ok m D n" "\<forall>t pid. x = (t, RestartTimer pid) \<longrightarrow> pid = None"
  shows "stuck_ok m (fst (daemon_step opts D x)) (n + spawns (snd (daemon_step opts D x)))"
  using assms
  by (auto simp: stuck_ok_def daemon_step_def monitor_def exits_def launch_def Let_def split: prod.splits daemon_input.splits)

lemma stuck_run:
  assumes "do_maxRestarts opts = Some (int m)"
  shows "stuck_ok m D n \<Longrightarrow> \<forall>x \<in> set xs. \<forall>t pid. x = (t, RestartTimer pid) \<longrightarrow> pid = None \<Longrightarrow>
     n + spawns (snd (run (daemon_step opts) D xs)) \<le> Suc m"
proof (induction xs arbitrary: D n)
  case Nil
  then show ?case by (auto simp: stuck_ok_def)
next
  case (Cons x xs)
  from stuck_step [OF assms Cons.prems(1), of x] Cons.prems(2)
  have "stuck_ok m (fst (daemon_step opts D x)) (n + spawns (snd (daemon_step opts D x)))" by simp
  from Cons.IH [OF this] Cons.prems(2) show ?case by (simp add: case_prod_beta add.assoc)
qed

text \<open>A server that cannot be started at all is tried at most once more than \<open>maxRestarts\<close> says.\<close>

theorem failing_starts_bounded:
  assumes "do_maxRestarts opts = Some (int m)" "\<forall>x \<in> set xs. \<forall>t pid. x = (t, RestartTimer pid) \<longrightarrow> pid = None"
  shows "spawns (snd (daemon_history opts None now xs)) \<le> Suc m"
proof -
  obtain D es where D: "daemon_start None now = (D, es)" by fastforce
  then have "stuck_ok m D 1" "spawns es = 1" by (auto simp: daemon_start_def launch_def Let_def stuck_ok_def)
  then show ?thesis using stuck_run [OF assms(1) _ assms(2), of D 1] D by (simp add: daemon_history_def case_prod_beta)
qed

section \<open>The workers of a vertical cluster\<close>

type_synonym worker = nat

text \<open>\<open>clusterSize\<close> as given, or the number of the cores; \<open>fork\<close> gives a worker that there has not been.\<close>

definition cluster_size :: "nat option \<Rightarrow> nat \<Rightarrow> nat" where
  "cluster_size given numCPUs = (case given of None \<Rightarrow> numCPUs | Some n \<Rightarrow> if n = 0 then numCPUs else n)"

record primary =
  pr_workers :: "worker jsset"
  pr_next :: worker

definition fork :: "primary \<Rightarrow> primary" where
  "fork P = P\<lparr>pr_workers := set_add (pr_next P) (pr_workers P), pr_next := Suc (pr_next P)\<rparr>"

definition setupWorkerProcesses :: "nat \<Rightarrow> primary" where
  "setupWorkerProcesses amount = (fork ^^ amount) \<lparr>pr_workers = [], pr_next = 0\<rparr>"

definition on_exit :: "worker \<Rightarrow> primary \<Rightarrow> primary" where
  "on_exit w P = fork (P\<lparr>pr_workers := set_delete w (pr_workers P)\<rparr>)"

text \<open>Exits of workers that are there.\<close>

fun exits_of :: "primary \<Rightarrow> worker list \<Rightarrow> bool" where
  "exits_of P [] = True"
| "exits_of P (w # ws) = (w \<in> set (pr_workers P) \<and> exits_of (on_exit w P) ws)"

definition workers_ok :: "nat \<Rightarrow> primary \<Rightarrow> bool" where
  "workers_ok n P \<longleftrightarrow> distinct (pr_workers P) \<and> length (pr_workers P) = n \<and> (\<forall>w \<in> set (pr_workers P). w < pr_next P)"

lemma fork_ok: "workers_ok n P \<Longrightarrow> workers_ok (Suc n) (fork P)"
  by (auto simp: workers_ok_def fork_def set_add_def less_Suc_eq)

lemma setup_ok: "workers_ok amount (setupWorkerProcesses amount)"
proof -
  have "workers_ok amount ((fork ^^ amount) \<lparr>pr_workers = [], pr_next = 0\<rparr>)"
    by (induction amount) (auto simp: workers_ok_def [of 0] intro: fork_ok)
  then show ?thesis by (simp add: setupWorkerProcesses_def)
qed

lemma exit_ok: "workers_ok n P \<Longrightarrow> w \<in> set (pr_workers P) \<Longrightarrow> workers_ok n (on_exit w P)"
proof -
  assume a: "workers_ok n P" "w \<in> set (pr_workers P)"
  then have "Suc (length (set_delete w (pr_workers P))) = n" by (simp add: workers_ok_def length_set_delete)
  then obtain k where "n = Suc k" "workers_ok k (P\<lparr>pr_workers := set_delete w (pr_workers P)\<rparr>)"
    using a by (auto simp: workers_ok_def distinct_removeAll)
  then show ?thesis using fork_ok by (simp add: on_exit_def)
qed

text \<open>The cluster keeps its size: whichever workers die, there are always as many as were asked for, the dead ones not
  among them.\<close>

theorem cluster_keeps_its_size:
  assumes "exits_of (setupWorkerProcesses amount) ws"
  shows "length (pr_workers (foldl (\<lambda>P w. on_exit w P) (setupWorkerProcesses amount) ws)) = amount \<and>
     set ws \<inter> set (pr_workers (foldl (\<lambda>P w. on_exit w P) (setupWorkerProcesses amount) ws)) = {}"
proof -
  have "workers_ok n (foldl (\<lambda>P w. on_exit w P) P ws) \<and> dead \<union> set ws \<subseteq> {..<pr_next (foldl (\<lambda>P w. on_exit w P) P ws)} \<and>
      (dead \<union> set ws) \<inter> set (pr_workers (foldl (\<lambda>P w. on_exit w P) P ws)) = {}"
    if "workers_ok n P" "exits_of P ws" "dead \<inter> set (pr_workers P) = {}" "dead \<subseteq> {..<pr_next P}" for P n dead
    using that
  proof (induction ws arbitrary: P dead)
    case (Cons w ws)
    have w: "w \<in> set (pr_workers P)" "w < pr_next P" using Cons.prems by (auto simp: workers_ok_def)
    have "insert w dead \<inter> set (pr_workers (on_exit w P)) = {}" "insert w dead \<subseteq> {..<pr_next (on_exit w P)}"
      using Cons.prems w by (auto simp: on_exit_def fork_def set_add_def subset_iff less_Suc_eq)
    from Cons.IH [OF exit_ok [OF Cons.prems(1) w(1)] _ this] Cons.prems(2) show ?case by simp
  qed auto
  from this [OF setup_ok assms, of "{}"] show ?thesis by (simp add: workers_ok_def)
qed

section \<open>Arguments\<close>

fun contains :: "string \<Rightarrow> string \<Rightarrow> bool" where
  "contains p s = (take (length p) s = p \<or> (case s of [] \<Rightarrow> False | _ # s' \<Rightarrow> contains p s'))"

declare contains.simps [simp del]

definition upper_char :: "char \<Rightarrow> char" where
  "upper_char c = (let n = of_char c :: nat in if 97 \<le> n \<and> n \<le> 122 then char_of (n - 32) else c)"

text \<open>\<open>/debug|info|warn|error|off/i.test(logLevel)\<close>; \<open>None\<close> is the exit of the process.\<close>

definition parseLogLevel :: "string \<Rightarrow> string option" where
  "parseLogLevel logLevel =
     (if list_ex (\<lambda>l. contains l (lower_case logLevel)) [''debug'', ''info'', ''warn'', ''error'', ''off'']
      then Some (map upper_char logLevel) else None)"

text \<open>\<open>Number(port)\<close> is given, with \<open>None\<close> for NaN.\<close>

definition parseInteger :: "(string \<Rightarrow> rat option) \<Rightarrow> string \<Rightarrow> rat option" where
  "parseInteger to_number port = (case to_number port of None \<Rightarrow> None | Some n \<Rightarrow> if n = 0 then None else Some n)"

definition parseBoolean :: "string option \<Rightarrow> bool option" where
  "parseBoolean enabled =
     (if enabled = None \<or> enabled = Some ''true'' then Some True else if enabled = Some ''false'' then Some False else None)"

lemma contains_append: "contains p (pre @ p @ post)"
  by (induction pre) (simp_all add: contains.simps)

text \<open>Any argument with the name of a level somewhere in it passes as a log level and comes out as it is in capitals,
  though only the five names are levels.\<close>

theorem log_level_unanchored:
  assumes "l \<in> {''debug'', ''info'', ''warn'', ''error'', ''off''}"
  shows "parseLogLevel (pre @ l @ post) = Some (map upper_char (pre @ l @ post))"
proof -
  have "lower_case l = l" using assms by (auto simp: lower_case_def lower_char_def)
  then have "contains l (lower_case (pre @ l @ post))" using contains_append [of l "lower_case pre"] by (simp add: lower_case_def)
  then show ?thesis using assms by (auto simp: parseLogLevel_def)
qed

section \<open>Examples\<close>

theorem daemon_never_restarts_witness:
  "spawns (snd (daemon_history default_daemon_options (Some 17) 0 [(9, ChildExit 1), (99, RestartTimer (Some 18))])) = 1"
  by (rule daemon_never_restarts) simp

theorem failing_starts_bounded_witness:
  "spawns (snd (daemon_history (default_daemon_options\<lparr>do_maxRestarts := Some 1\<rparr>) None 0
     [(1, ChildExit 1), (2, RestartTimer None), (3, ChildExit 1), (4, RestartTimer None)])) \<le> 2"
  using failing_starts_bounded [of "default_daemon_options\<lparr>do_maxRestarts := Some 1\<rparr>" 1
      "[(1, ChildExit 1), (2, RestartTimer None), (3, ChildExit 1), (4, RestartTimer None)]" 0]
  by simp

theorem cluster_keeps_its_size_witness:
  "length (pr_workers (foldl (\<lambda>P w. on_exit w P) (setupWorkerProcesses 2) [0, 2])) = 2"
proof -
  have "exits_of (setupWorkerProcesses 2) [0, 2]" by code_simp
  from cluster_keeps_its_size [OF this] show ?thesis by simp
qed

theorem log_level_unanchored_witness: "parseLogLevel ''xinfox'' = Some ''XINFOX''"
proof -
  have "map upper_char ''xinfox'' = ''XINFOX''" by code_simp
  then show ?thesis using log_level_unanchored [of "''info''" "''x''" "''x''"] by simp
qed

end
