(* ===== verification/Spec2Isabelle.thy ===== *)
theory Spec2Isabelle
  imports Prelude Messages JsonPath Utils StateRegistry DistState Subscriptions RecordStore
    RecordRequest RecordTransition RecordDeletion RecordHandler Processor Rpc Presence Events Cluster Locks Listener Connection Gateway
    Json TextConstants TextParser TextBuilder TextProtocol RuleParser ValveConfig RuleApplication ValveFlow
    JsObject Jif HttpEndpoint HttpFlow HttpService Authentication StorageAuth HttpAuth
    Traces Startup StartOrder StopOrder ConfigMerge ConfigFiles ConfigInit Mqtt JsonSocket Monitoring Telemetry CommandLine
begin

text \<open>
  deepstream.io is a realtime server: clients connect over sockets or HTTP and exchange records (JSON
  documents with a version), events, remote procedure calls and presence information; several
  servers form a cluster. This development models the server from its configuration and its start to the
  handlers of its messages, with the protocols, the permissions and the authentication between them.

  \<^bold>\<open>How a message travels.\<close> An endpoint keeps a socket waiting until it has authenticated, with the help
  of the authentication strategies, and then hands its parsed messages to the message processor. This asks the
  permission service about each of them (and about each name of a bulk message); the service finds the
  rule for the message and applies it, loading records the rule refers to. What is permitted
  goes to the distributor, which calls the handler of the topic. The handlers keep the state of
  their topic, use the subscription registry of the topic to find the sockets to notify, and pass
  on to the cluster what other servers have to know. A subscription registry mirrors its names in a
  state registry, which the servers of a cluster replicate; the listener registry watches the names and asks
  providers to supply them. The cluster registry knows the servers and elects a leader, and the leader keeps the
  cluster's locks. All these are made from the configuration by the initialiser and started and stopped, stage
  by stage, by the server object.

  \<^bold>\<open>Theories and sources\<close> (paths under \<open>src/src\<close>):

    \<^item> \<open>Prelude\<close>: JavaScript's insertion-ordered \<open>Map\<close> and \<open>Set\<close> as association lists and lists without
      repetition, \<open>indexOf\<close> and \<open>splice\<close>, numbers with NaN, running a list of operations that emit
      effects (\<open>run\<close>), and the locale \<open>invariant_system\<close> that lifts a one-step invariant to every reachable
      state. \<open>Traces\<close>: the same for systems with effects, of what has been taken in and given out (\<open>traced_system\<close>).
    \<^item> \<open>Messages\<close>: topics, actions, JSON values, the message record and the effects on the outside. \<open>JsObject\<close>:
      reading fields of JSON values.
    \<^item> \<open>JsonPath\<close> (\<open>utils/json-path.ts\<close>) and \<open>Utils\<close> (\<open>utils/utils.ts\<close>): reading and writing a path of a
      document, exclusion by prefix, schema validation, random choice, shuffling.
    \<^item> \<open>StateRegistry\<close> (\<open>services/cluster-state/single-state-registry.ts\<close>) with the locale \<open>state_registry\<close>,
      the contract of a reference-counting registry; \<open>DistState\<close>
      (\<open>services/cluster-state/distributed-state-registry.ts\<close>), its replicated form with checksums.
    \<^item> \<open>Subscriptions\<close> (\<open>services/subscription-registry/default-subscription-registry.ts\<close>) and \<open>Listener\<close>
      (\<open>listen/listener-registry.ts\<close>).
    \<^item> \<open>RecordStore\<close> (\<open>services/cache/local-cache.ts\<close>, \<open>services/storage/noop-storage.ts\<close>) with the locale
      \<open>record_cache\<close>; \<open>RecordRequest\<close>, \<open>RecordTransition\<close>, \<open>RecordDeletion\<close> and \<open>RecordHandler\<close>
      (\<open>handlers/record/record-*.ts\<close>): loading a record, the queue of writes to one record, deleting
      it, and the handler that ties them together.
    \<^item> \<open>Processor\<close> (\<open>utils/message-processor.ts\<close>, \<open>utils/message-distributor.ts\<close>).
    \<^item> \<open>Rpc\<close> (\<open>handlers/rpc/rpc-handler.ts\<close>, \<open>rpc.ts\<close>, \<open>rpc-proxy.ts\<close>), \<open>Presence\<close>
      (\<open>handlers/presence/presence-handler.ts\<close>), \<open>Events\<close> (\<open>handlers/event/event-handler.ts\<close>).
    \<^item> \<open>Cluster\<close> (\<open>services/cluster-registry/distributed-cluster-registry.ts\<close>,
      \<open>services/cluster-node/vertical-cluster-node.ts\<close>) and \<open>Locks\<close>
      (\<open>services/lock/distributed-lock-registry.ts\<close>).
    \<^item> \<open>Connection\<close> (\<open>connection-endpoint/base\<close>): authentication of a socket and buffering; \<open>Gateway\<close>: the endpoint with
      presence behind it; \<open>Mqtt\<close> (\<open>connection-endpoint/mqtt\<close>) on the same base; \<open>JsonSocket\<close>
      (\<open>connection-endpoint/websocket/json\<close>).
    \<^item> \<open>Json\<close>: \<open>JSON.parse\<close> and \<open>JSON.stringify\<close>; \<open>TextConstants\<close>, \<open>TextParser\<close>, \<open>TextBuilder\<close>, \<open>TextProtocol\<close>
      (\<open>connection-endpoint/websocket/text/text-protocol\<close>): the tables, the two directions, and what they make of
      each other's output.
    \<^item> \<open>RuleParser\<close>, \<open>ValveConfig\<close>, \<open>RuleApplication\<close>, \<open>ValveFlow\<close> (\<open>services/permission/valve\<close>): the texts of paths and
      rules, validation and compilation of the configuration with the cache of rules (locale \<open>memo_table\<close>), one application of
      a rule, and the service between the processor and the record handler.
    \<^item> \<open>Jif\<close> (\<open>jif\<close>), \<open>HttpEndpoint\<close> (\<open>connection-endpoint/http\<close>), \<open>HttpFlow\<close>, \<open>HttpService\<close> (\<open>services/http\<close>): messages
      over HTTP, their collected answers, requests all the way to presence and records, and the HTTP services.
    \<^item> \<open>Authentication\<close>, \<open>StorageAuth\<close>, \<open>HttpAuth\<close> (\<open>services/authentication\<close>, \<open>bin/deepstream-hash.ts\<close>): the strategies,
      with the locale \<open>auth_strategy\<close> for those that decide at once.
    \<^item> \<open>Startup\<close> (\<open>deepstream.io.ts\<close>, \<open>utils/dependency-initialiser.ts\<close>), \<open>StartOrder\<close>, \<open>StopOrder\<close>: the server's state
      machine and its runs.
    \<^item> \<open>ConfigMerge\<close> (\<open>merge\<close> of \<open>utils/utils.ts\<close>, \<open>default-options.ts\<close>), \<open>ConfigFiles\<close> (\<open>config/file-utils.ts\<close>,
      \<open>config/js-yaml-loader.ts\<close>), \<open>ConfigInit\<close> (\<open>config/config-initialiser.ts\<close>): defaults, file and arguments
      merged, the files found and their text prepared, and the start of the services: validation, the logo,
      each service with its class, the initial log lines.
    \<^item> \<open>Monitoring\<close> (\<open>services/monitoring\<close>, \<open>services/logger/std\<close>), \<open>Telemetry\<close> (\<open>services/telemetry\<close>), \<open>CommandLine\<close>
      (\<open>service/daemon.ts\<close>, \<open>bin/deepstream-cluster.ts\<close>, \<open>bin/deepstream-start.ts\<close>).

  \<^bold>\<open>How code becomes definitions.\<close> The private fields of a class are a record. A method is a function
  of its arguments and the state, which returns the new state and the list of its effects in the
  order the code causes them: messages to sockets and cluster, calls on services, callbacks. Methods
  keep their names; a prefix or suffix is added where two classes or the library share one. A field
  a message lacks is \<open>None\<close>, an exception a value. What the runtime or another service does later is an
  input: an answer of cache or storage, a timer that fires, a promise that settles, an answer of the permission
  service, a message of another server. Where such an answer may also come within the call, an argument says so
  (\<open>sync\<close>, \<open>rp_instant\<close>, \<open>process_now\<close>). Closures handed to a service are data that say what runs when the
  answer comes. Objects that code shares by reference (record transitions, calls) are in a list and
  referred to by index. The step function of a component (\<open>cluster_step\<close>, \<open>rpc_step\<close>, \<open>ep_step\<close>, \<open>server_step\<close> and their
  like) takes one input; theorems about histories quantify over all lists of inputs, that is over all
  interleavings, and a predicate (\<open>rpc_history\<close> and its like) says which inputs can occur, such as only armed
  timers firing.

  \<^bold>\<open>What is shown.\<close>

    \<^item> Records: the cache writes of a transition are the serial execution of a subsequence of the client
      messages with consecutive versions, a transition completes once and, with well-behaved stores,
      drains its queue; a record has at most one live transition; requests and deletions answer once.
    \<^item> Subscriptions: the two indices refine a relation, drive the state registry so that it has
      exactly the subscribed names, and listen to exactly the sockets that need it; broadcasts and
      events reach the subscribers once and never the sender. Listeners: the registry publishes exactly the names that
      are provided, and a search asks each candidate once.
    \<^item> Calls: every call handed out ends with one answer, at the latest when its response timer runs out, as long as the
      client does not use a correlation id twice; rejections go to untried parties; a request makes at
      most one hop between servers.
    \<^item> Presence: join and leave alternate and tell the truth, several connections count as one user; with
      the endpoint in front, a user is online when logged in.
    \<^item> Cluster: replication of local names, agreement of checksums, agreement on the leader, joins
      and leaves in alternation; locks are exclusive and never stuck while the lead does not change.
    \<^item> Sockets: nothing of a socket is forwarded before its authentication, the buffer keeps the order and its bound, a
      refused attempt counts. Protocols: what is built is parsed back, for values without separators; parsing never runs
      out of fuel and gives actions of the right kind.
    \<^item> Permissions: the rule that decides has the longest matching path, the cache of rules is current, the verdict of an
      application is that of the rule's function on the data loaded, whatever order the loads end in, after a
      bounded number of runs; a message reaches the distributor just when the rule allows. Both are stated for loads
      that succeed; a rule that throws or needs more runs than \<open>maxRuleIterations\<close> ends in a refusing error, and what
      a load that fails does instead has a theorem of its own in \<open>RuleApplication\<close>.
    \<^item> HTTP: a POST is answered once and not before its messages are, all of them or none are handed on; a request goes to
      the handler of the longest prefix; every status the uWebSockets service means to send is lost, since it writes a header
      first. Authentication: passwords hashed by the command are accepted, a registered
      user gets in again, a web hook is asked a bounded number of times and answers once.
    \<^item> Server: what is started is ready, the states only go forward, stopping closes phase by phase and each phase
      only after every promise of the phases before it. Configuration: arguments go before the file and the file before the
      defaults, at every depth, but for the defaults that outlast an object of the file; the initialiser validates before it makes
      a service; paths, environment and default files are resolved as documented; a report of telemetry cannot tell options.
    \<^item> Stores and paths: the local cache refines a map, what is set at a path is read back.
    \<^item> Where the code does not do what it means to, a theorem states what it does: among others a refused version
      that blocks a record, a write that is stored and not broadcast, refused names of a bulk message that go
      through, an erasure that a write rule does not see, a publication over MQTT without login, an \<open>auth\<close> object in the
      configuration that opens the server, a permission plugin that cannot be disabled, text cut off at a hash, settings
      lost before the start, and a daemon that never restarts its server.

  \<^bold>\<open>Interfaces.\<close> \<open>state_registry\<close>, \<open>record_cache\<close>, \<open>memo_table\<close> and \<open>auth_strategy\<close> state what clients rely on and are
  interpreted on the models of the classes that provide them; \<open>invariant_system\<close> and \<open>traced_system\<close> are interpreted
  on the step functions. Third-party code is a parameter: the validators ajv makes of schemas (\<open>validateJIF\<close>, of which
  the hypothesis \<open>documented\<close> says what JSON schema prescribes), PBKDF2, the protobuf package, regular expressions given by users,
  the functions JavaScript makes of the text of a rule, YAML and \<open>require\<close>, the file system and the environment.
  Nothing is assumed of them but what a theorem states.

  \<^bold>\<open>Bounds and termination.\<close> Every function is total. Loops are structural recursions or have a measure; only the JSON
  parser descends with fuel, and twice the length of the text and one is shown to be enough (\<open>parse_fuel\<close>). The
  loop of \<open>getAlternativeProvider\<close> is bounded by the length of the list, as in the code. The numbers of JSON are
  the integers; other numerals are read by a parameter. Random draws are rationals of the half-open unit interval,
  characters those of one byte.

  \<^bold>\<open>What is not modelled.\<close> The binary protocol, which is calls into the protobuf package; the servers under the HTTP
  services and the MQTT endpoint, TLS and compression; the schema of the configuration, which is data for ajv; the pino
  logger and what loggers write; heap snapshots; templates and commands of the service installation; the order of
  integer-like keys in \<open>for..in\<close> loops; the wall clock beyond the arguments that stand for it. Logging calls are left out
  where a component only logs. Inputs are atomic, as in JavaScript. Constructors of services are not run in \<open>ConfigInit\<close>.
\<close>

end
